(* ===== verification/Prelude.thy ===== *)
theory Prelude
  imports Complex_Main
begin

text \<open>
  Shared vocabulary of the development: the types that name the program's quantities, the
  model of the JavaScript operators that every component uses, and the small lemmas on options,
  lists and maps that carry the component proofs.

  A JavaScript number that is a count, a byte size or a clock reading is an \<open>int\<close>; one that
  takes fractions (bucket levels, rates, costs) is a \<open>rat\<close>: the rounding of IEEE doubles is not
  modelled. \<open>null\<close> and \<open>undefined\<close> are both \<open>None\<close>, as every use in the modelled code treats
  them alike (\<open>??\<close>, \<open>== null\<close>).
\<close>

subsection \<open>Names for the program's quantities\<close>

type_synonym ms = int
type_synonym bytes = int
type_synonym trace_id = string
type_synonym model_alias = string
type_synonym lane_name = string

subsection \<open>Collections of facts\<close>

named_theorems helm_inv \<open>preservation lemmas of the components' invariants\<close>
named_theorems helm_cases \<open>case splits the component proofs share\<close>

declare option.split [helm_cases] if_split [helm_cases] prod.split [helm_cases]

subsection \<open>The nullish coalescing operator \<open>a ?? b\<close>\<close>

definition nullish :: "'a option \<Rightarrow> 'a \<Rightarrow> 'a" where
  "nullish a b = (case a of None \<Rightarrow> b | Some x \<Rightarrow> x)"

lemma nullish_simps [simp]: "nullish None b = b" "nullish (Some x) b = x"
  by (simp_all add: nullish_def)

lemma nullish_split:
  "P (nullish a b) \<longleftrightarrow> (a = None \<longrightarrow> P b) \<and> (\<forall>x. a = Some x \<longrightarrow> P x)"
  by (cases a) simp_all

text \<open>The same operator with an option on the right: \<open>a ?? b\<close> where \<open>b\<close> may itself be null.\<close>

definition or_else :: "'a option \<Rightarrow> 'a option \<Rightarrow> 'a option" where
  "or_else a b = (case a of None \<Rightarrow> b | Some x \<Rightarrow> Some x)"

lemma or_else_simps [simp]: "or_else None b = b" "or_else (Some x) b = Some x"
  "or_else a None = a"
  by (simp_all add: or_else_def split: option.split)

subsection \<open>Safe integers\<close>

definition MAX_SAFE_INTEGER :: int where
  "MAX_SAFE_INTEGER = 9007199254740991"

definition isSafeInteger :: "int \<Rightarrow> bool" where
  "isSafeInteger n = (\<bar>n\<bar> \<le> MAX_SAFE_INTEGER)"

subsection \<open>Lists: identity removal and conditional filtering\<close>

text \<open>\<open>xs.splice(xs.indexOf(x), 1)\<close> guarded by \<open>indexOf \<ge> 0\<close> is \<open>remove1\<close>.\<close>

lemma remove1_subset: "y \<in> set (remove1 x xs) \<Longrightarrow> y \<in> set xs"
  using set_remove1_subset by fast

lemma distinct_map_remove1: "distinct (map f xs) \<Longrightarrow> distinct (map f (remove1 x xs))"
  by (induction xs) (auto dest: remove1_subset)

lemma filter_same_length: "length (filter P xs) = length xs \<Longrightarrow> filter P xs = xs"
  by (metis filter_True length_filter_less less_irrefl)

text \<open>\<open>xs.at(-1)\<close>: the last element, or undefined.\<close>

definition last_opt :: "'a list \<Rightarrow> 'a option" where
  "last_opt xs = (if xs = [] then None else Some (last xs))"

lemma last_opt_simps [simp]: "last_opt [] = None" "last_opt (xs @ [x]) = Some x"
  by (simp_all add: last_opt_def)

lemma last_opt_in: "last_opt xs = Some x \<Longrightarrow> x \<in> set xs"
  by (auto simp: last_opt_def split: if_splits)

subsection \<open>Sums over finite maps\<close>

text \<open>
  The total of a measure over a map that has a finite domain: the ledger arguments of the
  leases and semaphores rest on how one update changes it.
\<close>

definition map_total :: "('v \<Rightarrow> int) \<Rightarrow> ('k \<rightharpoonup> 'v) \<Rightarrow> int" where
  "map_total f m = (\<Sum>k \<in> dom m. f (the (m k)))"

definition at_key :: "('v \<Rightarrow> int) \<Rightarrow> ('k \<rightharpoonup> 'v) \<Rightarrow> 'k \<Rightarrow> int" where
  "at_key f m k = (case m k of None \<Rightarrow> 0 | Some v \<Rightarrow> f v)"

lemma at_key_simps [simp]:
  "m k = None \<Longrightarrow> at_key f m k = 0" "m k = Some v \<Longrightarrow> at_key f m k = f v"
  by (simp_all add: at_key_def)

lemma map_total_empty [simp]: "map_total f Map.empty = 0"
  by (simp add: map_total_def)

lemma map_total_remove:
  assumes "finite (dom m)"
  shows "map_total f (m(k := None)) = map_total f m - at_key f m k"
proof (cases "m k")
  case None
  then have "m(k := None) = m" by auto
  with None show ?thesis by simp
next
  case (Some v)
  have "map_total f m = f v + (\<Sum>j \<in> dom m - {k}. f (the (m j)))"
    using assms Some by (subst map_total_def, subst sum.remove [of _ k]) auto
  moreover have "map_total f (m(k := None)) = (\<Sum>j \<in> dom m - {k}. f (the (m j)))"
    unfolding map_total_def by (rule sum.cong) auto
  ultimately show ?thesis using Some by simp
qed

lemma map_total_update:
  assumes "finite (dom m)"
  shows "map_total f (m(k \<mapsto> v)) = map_total f m - at_key f m k + f v"
proof -
  have "map_total f (m(k \<mapsto> v)) = f v + map_total f (m(k := None))"
    using assms unfolding map_total_def
    by (subst sum.remove [of _ k]) (auto intro!: sum.cong)
  with map_total_remove [OF assms] show ?thesis by simp
qed

lemma map_total_nonneg: "\<forall>k v. m k = Some v \<longrightarrow> 0 \<le> f v \<Longrightarrow> 0 \<le> map_total f m"
  unfolding map_total_def by (rule sum_nonneg) auto

lemma at_key_le_total:
  assumes "finite (dom m)" and "\<forall>k v. m k = Some v \<longrightarrow> 0 \<le> f v"
  shows "at_key f m k \<le> map_total f m"
proof -
  have "0 \<le> map_total f (m(k := None))"
    using assms(2) by (intro map_total_nonneg) auto
  with map_total_remove [OF assms(1)] show ?thesis by simp
qed

subsection \<open>Components as step functions with an invariant\<close>

text \<open>
  What every stateful component promises its callers: each admissible operation keeps the
  component's invariant, whatever the order of the calls. The clients' lemmas speak of histories.
\<close>

locale guarded_steps =
  fixes step :: "'s \<Rightarrow> 'e \<Rightarrow> 's" and inv :: "'s \<Rightarrow> bool" and ok :: "'e \<Rightarrow> bool"
  assumes step_keeps: "inv s \<Longrightarrow> ok e \<Longrightarrow> inv (step s e)"
begin

lemma run_keeps: "inv s \<Longrightarrow> list_all ok es \<Longrightarrow> inv (foldl step s es)"
  by (induction es arbitrary: s) (simp_all add: step_keeps)

lemma prefix_keeps: "inv s \<Longrightarrow> list_all ok (es @ es') \<Longrightarrow> inv (foldl step s es)"
  using run_keeps [of s es] by simp

end

end
