(* ===== verification/Circuit_Breaker.thy ===== *)
theory Circuit_Breaker
  imports Prelude
begin

text \<open>
  \<open>packages/core/src/circuit/breaker.ts\<close>: the per-model circuit breaker. The state is the
  closure's \<open>entries\<close> map and a counter that makes each \<open>Symbol(model)\<close> a fresh token. The
  injected clock may throw, so a reading is an \<open>ms option\<close> (\<open>None\<close> when \<open>now()\<close> threw): the
  \<open>catch\<close> blocks of the source are exactly those branches.
\<close>

subsection \<open>State\<close>

datatype circuit_state = CLOSED | OPEN | HALF_OPEN

record circuit_config =
  failureThreshold :: int
  cooldownMs :: ms

type_synonym probe_token = nat
type_synonym clock = "ms option"

record attempt_decision =
  allow :: bool
  probe :: bool
  dec_token :: "probe_token option"
  reason :: "string option"

record model_entry =
  cstate :: circuit_state
  failures :: int
  openedAt :: ms
  probeToken :: "probe_token option"

record breaker =
  entries :: "string \<rightharpoonup> model_entry"
  nextSymbol :: probe_token

definition CIRCUIT_OPEN :: string where
  "CIRCUIT_OPEN = ''circuit_open''"

definition SKIP :: attempt_decision where
  "SKIP = \<lparr>allow = False, probe = False, dec_token = None, reason = Some CIRCUIT_OPEN\<rparr>"

definition ALLOW :: attempt_decision where
  "ALLOW = \<lparr>allow = True, probe = False, dec_token = None, reason = None\<rparr>"

definition PROBE :: attempt_decision where
  "PROBE = \<lparr>allow = True, probe = True, dec_token = None, reason = None\<rparr>"

definition freshEntry :: model_entry where
  "freshEntry = \<lparr>cstate = CLOSED, failures = 0, openedAt = 0, probeToken = None\<rparr>"

definition createCircuitBreaker :: breaker where
  "createCircuitBreaker = \<lparr>entries = Map.empty, nextSymbol = 0\<rparr>"

subsection \<open>Operations\<close>

text \<open>\<open>get\<close> inserts a fresh entry on first sight; the model returns the entry and the new map.\<close>

definition get_entry :: "breaker \<Rightarrow> string \<Rightarrow> model_entry" where
  "get_entry b m = (case entries b m of None \<Rightarrow> freshEntry | Some e \<Rightarrow> e)"

definition put_entry :: "breaker \<Rightarrow> string \<Rightarrow> model_entry \<Rightarrow> breaker" where
  "put_entry b m e = b\<lparr>entries := (entries b)(m \<mapsto> e)\<rparr>"

definition reset :: "model_entry \<Rightarrow> model_entry" where
  "reset e = e\<lparr>cstate := CLOSED, failures := 0, probeToken := None\<rparr>"

text \<open>
  \<open>trip\<close> assigns the state before it reads the clock: when \<open>now()\<close> throws, the entry is OPEN
  with its old \<open>openedAt\<close> and token.
\<close>

definition trip :: "clock \<Rightarrow> model_entry \<Rightarrow> model_entry" where
  "trip now e =
     (let e1 = e\<lparr>cstate := OPEN\<rparr>
      in case now of None \<Rightarrow> e1 | Some t \<Rightarrow> e1\<lparr>openedAt := t, probeToken := None\<rparr>)"

definition grant_probe :: "breaker \<Rightarrow> string \<Rightarrow> model_entry \<Rightarrow> attempt_decision \<times> breaker" where
  "grant_probe b m e =
     (let t = nextSymbol b
      in (PROBE\<lparr>dec_token := Some t\<rparr>,
          (put_entry b m (e\<lparr>cstate := HALF_OPEN, probeToken := Some t\<rparr>))
            \<lparr>nextSymbol := Suc t\<rparr>))"

definition canAttempt :: "circuit_config \<Rightarrow> clock \<Rightarrow> string \<Rightarrow> breaker \<Rightarrow> attempt_decision \<times> breaker" where
  "canAttempt cfg now m b =
     (let e = get_entry b m; b1 = put_entry b m e in
      case cstate e of
        CLOSED \<Rightarrow> (ALLOW, b1)
      | HALF_OPEN \<Rightarrow> (if probeToken e \<noteq> None then (SKIP, b1) else grant_probe b1 m e)
      | OPEN \<Rightarrow>
          (case now of
             None \<Rightarrow> (ALLOW, b1)
           | Some t \<Rightarrow> (if t - openedAt e < cooldownMs cfg then (SKIP, b1) else grant_probe b1 m e)))"

definition recordFailure :: "circuit_config \<Rightarrow> clock \<Rightarrow> string \<Rightarrow> breaker \<Rightarrow> breaker" where
  "recordFailure cfg now m b =
     (let e = get_entry b m in
      case cstate e of
        OPEN \<Rightarrow> put_entry b m e
      | HALF_OPEN \<Rightarrow> put_entry b m (trip now e)
      | CLOSED \<Rightarrow>
          (let e1 = e\<lparr>failures := failures e + 1\<rparr>
           in if failures e1 \<ge> failureThreshold cfg then put_entry b m (trip now e1)
              else put_entry b m e1))"

definition recordSuccess :: "string \<Rightarrow> breaker \<Rightarrow> breaker" where
  "recordSuccess m b = put_entry b m (reset (get_entry b m))"

definition recordAbort :: "string \<Rightarrow> probe_token option \<Rightarrow> breaker \<Rightarrow> breaker" where
  "recordAbort m tok b =
     (let e = get_entry b m in
      if cstate e = HALF_OPEN \<and> tok \<noteq> None \<and> probeToken e = tok
      then put_entry b m (e\<lparr>probeToken := None\<rparr>)
      else put_entry b m e)"

definition getState :: "string \<Rightarrow> breaker \<Rightarrow> circuit_state" where
  "getState m b = cstate (get_entry b m)"

subsection \<open>Histories of calls\<close>

datatype breaker_event =
    Attempt string clock
  | Failure string clock
  | Success string
  | Abort string "probe_token option"

fun event_model :: "breaker_event \<Rightarrow> string" where
  "event_model (Attempt m _) = m"
| "event_model (Failure m _) = m"
| "event_model (Success m) = m"
| "event_model (Abort m _) = m"

fun breaker_step :: "circuit_config \<Rightarrow> breaker \<Rightarrow> breaker_event \<Rightarrow> breaker" where
  "breaker_step cfg b (Attempt m now) = snd (canAttempt cfg now m b)"
| "breaker_step cfg b (Failure m now) = recordFailure cfg now m b"
| "breaker_step cfg b (Success m) = recordSuccess m b"
| "breaker_step cfg b (Abort m tok) = recordAbort m tok b"

definition breaker_run :: "circuit_config \<Rightarrow> breaker \<Rightarrow> breaker_event list \<Rightarrow> breaker" where
  "breaker_run cfg = foldl (breaker_step cfg)"

subsection \<open>One step on one entry\<close>

lemma get_entry_put [simp]:
  "get_entry (put_entry b m e) m' = (if m' = m then e else get_entry b m')"
  by (simp add: get_entry_def put_entry_def)

lemma get_entry_nextSymbol [simp]: "get_entry (b\<lparr>nextSymbol := n\<rparr>) m = get_entry b m"
  by (simp add: get_entry_def)

lemma nextSymbol_put [simp]: "nextSymbol (put_entry b m e) = nextSymbol b"
  by (simp add: put_entry_def)

lemma reset_sel [simp]:
  "cstate (reset e) = CLOSED" "failures (reset e) = 0" "probeToken (reset e) = None"
  "openedAt (reset e) = openedAt e"
  by (simp_all add: reset_def)

lemma trip_sel [simp]:
  "cstate (trip now e) = OPEN" "failures (trip now e) = failures e"
  "openedAt (trip (Some t) e) = t" "probeToken (trip (Some t) e) = None"
  "trip None e = e\<lparr>cstate := OPEN\<rparr>"
  by (simp_all add: trip_def Let_def split: option.split)

lemmas breaker_ops =
  canAttempt_def recordFailure_def recordSuccess_def recordAbort_def grant_probe_def Let_def

text \<open>
  The machine of a single entry: what one call on model \<open>m\<close> does to the entry of \<open>m\<close> when the
  next fresh token is \<open>n\<close>. Every proof below works on this machine.
\<close>

definition attempt_entry :: "circuit_config \<Rightarrow> probe_token \<Rightarrow> clock \<Rightarrow> model_entry \<Rightarrow> model_entry" where
  "attempt_entry cfg n now e =
     (case cstate e of
        CLOSED \<Rightarrow> e
      | HALF_OPEN \<Rightarrow> (if probeToken e \<noteq> None then e else e\<lparr>probeToken := Some n\<rparr>)
      | OPEN \<Rightarrow>
          (case now of
             None \<Rightarrow> e
           | Some t \<Rightarrow> (if t - openedAt e < cooldownMs cfg then e
                       else e\<lparr>cstate := HALF_OPEN, probeToken := Some n\<rparr>)))"

definition failure_entry :: "circuit_config \<Rightarrow> clock \<Rightarrow> model_entry \<Rightarrow> model_entry" where
  "failure_entry cfg now e =
     (case cstate e of
        OPEN \<Rightarrow> e
      | HALF_OPEN \<Rightarrow> trip now e
      | CLOSED \<Rightarrow> (if failures e + 1 \<ge> failureThreshold cfg
                  then trip now (e\<lparr>failures := failures e + 1\<rparr>)
                  else e\<lparr>failures := failures e + 1\<rparr>))"

definition abort_entry :: "probe_token option \<Rightarrow> model_entry \<Rightarrow> model_entry" where
  "abort_entry tok e =
     (if cstate e = HALF_OPEN \<and> tok \<noteq> None \<and> probeToken e = tok then e\<lparr>probeToken := None\<rparr> else e)"

fun entry_step :: "circuit_config \<Rightarrow> probe_token \<Rightarrow> breaker_event \<Rightarrow> model_entry \<Rightarrow> model_entry" where
  "entry_step cfg n (Attempt _ now) e = attempt_entry cfg n now e"
| "entry_step cfg n (Failure _ now) e = failure_entry cfg now e"
| "entry_step cfg n (Success _) e = reset e"
| "entry_step cfg n (Abort _ tok) e = abort_entry tok e"

lemmas entry_defs = attempt_entry_def failure_entry_def abort_entry_def reset_def

lemma cstate_self [simp]: "cstate e = s \<Longrightarrow> e\<lparr>cstate := s, probeToken := p\<rparr> = e\<lparr>probeToken := p\<rparr>"
  by (cases e) simp

lemma canAttempt_entry:
  "get_entry (snd (canAttempt cfg now m b)) m' =
     (if m' = m then attempt_entry cfg (nextSymbol b) now (get_entry b m) else get_entry b m')"
  by (simp add: canAttempt_def grant_probe_def attempt_entry_def Let_def
      split: circuit_state.split option.split)

text \<open>The answer of one attempt, and the token counter after it, from the entry alone.\<close>

definition verdict :: "circuit_config \<Rightarrow> probe_token \<Rightarrow> clock \<Rightarrow> model_entry \<Rightarrow> attempt_decision" where
  "verdict cfg n now e =
     (case cstate e of
        CLOSED \<Rightarrow> ALLOW
      | HALF_OPEN \<Rightarrow> (if probeToken e \<noteq> None then SKIP else PROBE\<lparr>dec_token := Some n\<rparr>)
      | OPEN \<Rightarrow>
          (case now of
             None \<Rightarrow> ALLOW
           | Some t \<Rightarrow> (if t - openedAt e < cooldownMs cfg then SKIP
                       else PROBE\<lparr>dec_token := Some n\<rparr>)))"

lemma dec_token_consts [simp]:
  "dec_token ALLOW = None" "dec_token SKIP = None" "dec_token PROBE = None"
  by (simp_all add: ALLOW_def SKIP_def PROBE_def)

lemma canAttempt_verdict: "fst (canAttempt cfg now m b) = verdict cfg (nextSymbol b) now (get_entry b m)"
  by (simp add: canAttempt_def grant_probe_def verdict_def Let_def split: circuit_state.split option.split)

lemma canAttempt_nextSymbol:
  "nextSymbol (snd (canAttempt cfg now m b)) =
     (if dec_token (verdict cfg (nextSymbol b) now (get_entry b m)) = None
      then nextSymbol b else Suc (nextSymbol b))"
  by (simp add: canAttempt_def grant_probe_def verdict_def Let_def split: circuit_state.split option.split)

lemma breaker_step_entry:
  "get_entry (breaker_step cfg b e) m =
     (if event_model e = m then entry_step cfg (nextSymbol b) e (get_entry b m) else get_entry b m)"
  by (cases e) (auto simp: canAttempt_entry recordFailure_def recordSuccess_def recordAbort_def
      failure_entry_def abort_entry_def Let_def split: circuit_state.split)

declare breaker_step.simps [simp del]

lemma breaker_step_nextSymbol: "nextSymbol b \<le> nextSymbol (breaker_step cfg b e)"
  by (cases e) (simp_all add: breaker_step.simps canAttempt_nextSymbol recordFailure_def recordSuccess_def recordAbort_def
      Let_def split: circuit_state.split)

lemma breaker_run_simps [simp]:
  "breaker_run cfg b [] = b"
  "breaker_run cfg b (e # es) = breaker_run cfg (breaker_step cfg b e) es"
  "breaker_run cfg b (es @ es') = breaker_run cfg (breaker_run cfg b es) es'"
  by (simp_all add: breaker_run_def)

text \<open>A predicate on one model's entry that every allowed event keeps holds after the run.\<close>

lemma breaker_run_entry_inv:
  assumes "P (get_entry b m)"
    and step: "\<And>n x e. P x \<Longrightarrow> Q e \<Longrightarrow> event_model e = m \<Longrightarrow> P (entry_step cfg n e x)"
    and "\<forall>e\<in>set es. Q e"
  shows "P (get_entry (breaker_run cfg b es) m)"
  using assms(1,3) by (induction es arbitrary: b) (simp_all add: breaker_step_entry step)

subsection \<open>The single probe\<close>

text \<open>The calls that may end the probe a token stands for.\<close>

fun resolves :: "string \<Rightarrow> probe_token \<Rightarrow> breaker_event \<Rightarrow> bool" where
  "resolves m t (Attempt _ _) = False"
| "resolves m t (Failure m' _) = (m' = m)"
| "resolves m t (Success m') = (m' = m)"
| "resolves m t (Abort m' tok) = (m' = m \<and> tok = Some t)"

definition probing :: "probe_token \<Rightarrow> model_entry \<Rightarrow> bool" where
  "probing t e \<longleftrightarrow> cstate e = HALF_OPEN \<and> probeToken e = Some t"

lemma probing_step:
  "probing t x \<Longrightarrow> \<not> resolves m t e \<Longrightarrow> event_model e = m \<Longrightarrow> probing t (entry_step cfg n e x)"
  by (cases e) (simp_all add: entry_defs probing_def)

lemma probing_skips: "probing t (get_entry b m) \<Longrightarrow> fst (canAttempt cfg now m b) = SKIP"
  by (simp add: canAttempt_verdict verdict_def probing_def)

lemma verdict_token:
  "dec_token (verdict cfg n now e) = Some t \<Longrightarrow> t = n \<and> probing t (attempt_entry cfg n now e)"
  by (auto simp: verdict_def attempt_entry_def probing_def
      split: circuit_state.splits option.splits if_splits)

lemma grant_is_probing:
  assumes "dec_token (fst (canAttempt cfg now m b)) = Some t"
  shows "t = nextSymbol b" and "probing t (get_entry (snd (canAttempt cfg now m b)) m)"
    and "nextSymbol (snd (canAttempt cfg now m b)) = Suc t"
  using assms verdict_token [of cfg "nextSymbol b" now "get_entry b m" t]
  by (auto simp add: canAttempt_verdict canAttempt_entry canAttempt_nextSymbol)

text \<open>
  C2. HALF_OPEN admits one probe. Once an attempt has been granted with a probe token, every
  later attempt on that model is skipped, whatever happens on any model and at any clock reading,
  until the model records a failure or a success or the token's owner aborts.
\<close>

theorem single_probe:
  assumes granted: "dec_token (fst (canAttempt cfg now m b)) = Some t"
    and unresolved: "\<forall>e\<in>set es. \<not> resolves m t e"
  shows "fst (canAttempt cfg now' m (breaker_run cfg (snd (canAttempt cfg now m b)) es)) = SKIP"
proof -
  let ?b = "snd (canAttempt cfg now m b)"
  have "probing t (get_entry (breaker_run cfg ?b es) m)"
  proof (rule breaker_run_entry_inv [where P = "probing t" and Q = "\<lambda>e. \<not> resolves m t e"])
    show "probing t (get_entry ?b m)" by (rule grant_is_probing(2) [OF granted])
    show "\<forall>e\<in>set es. \<not> resolves m t e" by (rule unresolved)
  qed (rule probing_step)
  then show ?thesis by (rule probing_skips)
qed

definition demo_cfg :: circuit_config where
  "demo_cfg = \<lparr>failureThreshold = 2, cooldownMs = 30000\<rparr>"

definition demo_open :: breaker where
  "demo_open = breaker_run demo_cfg createCircuitBreaker [Failure ''m'' (Some 0), Failure ''m'' (Some 10)]"

lemmas demo_simps = breaker_step.simps demo_cfg_def demo_open_def createCircuitBreaker_def breaker_ops get_entry_def
  put_entry_def freshEntry_def trip_def PROBE_def

theorem single_probe_witness:
  "fst (canAttempt demo_cfg (Some 99999) ''m''
     (breaker_run demo_cfg (snd (canAttempt demo_cfg (Some 40000) ''m'' demo_open))
        [Attempt ''m'' (Some 40001), Abort ''m'' (Some 7), Failure ''k'' None])) = SKIP"
  by (rule single_probe [where t = 0]) (simp_all add: demo_simps)

subsection \<open>The cooldown\<close>

definition opened :: "ms \<Rightarrow> model_entry \<Rightarrow> bool" where
  "opened t0 e \<longleftrightarrow> cstate e = OPEN \<and> openedAt e = t0"

text \<open>What may happen to the model during its cooldown: anything but a success or a late attempt.\<close>

fun within_cooldown :: "circuit_config \<Rightarrow> string \<Rightarrow> ms \<Rightarrow> breaker_event \<Rightarrow> bool" where
  "within_cooldown cfg m t0 (Attempt m' now) =
     (m' = m \<longrightarrow> (case now of None \<Rightarrow> True | Some t \<Rightarrow> t - t0 < cooldownMs cfg))"
| "within_cooldown cfg m t0 (Failure _ _) = True"
| "within_cooldown cfg m t0 (Success m') = (m' \<noteq> m)"
| "within_cooldown cfg m t0 (Abort _ _) = True"

lemma opened_step:
  "opened t0 x \<Longrightarrow> within_cooldown cfg m t0 e \<Longrightarrow> event_model e = m \<Longrightarrow> opened t0 (entry_step cfg n e x)"
  by (cases e) (simp_all add: entry_defs opened_def split: option.splits)

text \<open>
  An OPEN model is skipped for the whole cooldown, and nothing that happens meanwhile extends
  it: stray failures leave \<open>openedAt\<close> alone, so the first attempt at or after
  \<open>openedAt + cooldownMs\<close> is granted a probe.
\<close>

theorem cooldown_not_extended:
  assumes open_since: "opened t0 (get_entry b m)"
    and quiet: "\<forall>e\<in>set es. within_cooldown cfg m t0 e"
  shows "let d = fst (canAttempt cfg (Some t) m (breaker_run cfg b es))
         in if t - t0 < cooldownMs cfg then d = SKIP else allow d \<and> probe d \<and> dec_token d \<noteq> None"
proof -
  have "opened t0 (get_entry (breaker_run cfg b es) m)"
  proof (rule breaker_run_entry_inv [where P = "opened t0" and Q = "within_cooldown cfg m t0"])
    show "opened t0 (get_entry b m)" by (rule open_since)
    show "\<forall>e\<in>set es. within_cooldown cfg m t0 e" by (rule quiet)
  qed (rule opened_step)
  then show ?thesis by (simp add: canAttempt_verdict verdict_def opened_def PROBE_def Let_def)
qed

theorem cooldown_not_extended_witness:
  "let d = fst (canAttempt demo_cfg (Some 30009) ''m''
             (breaker_run demo_cfg demo_open [Failure ''m'' (Some 20000), Attempt ''m'' (Some 29999)]))
   in if (30009::int) - 10 < cooldownMs demo_cfg then d = SKIP
      else allow d \<and> probe d \<and> dec_token d \<noteq> None"
  by (rule cooldown_not_extended [where ?t0.0 = 10]) (simp_all add: demo_simps opened_def)

subsection \<open>Counting failures\<close>

fun is_failure_of :: "string \<Rightarrow> breaker_event \<Rightarrow> bool" where
  "is_failure_of m (Failure m' _) = (m' = m)"
| "is_failure_of m _ = False"

definition failure_count :: "string \<Rightarrow> breaker_event list \<Rightarrow> nat" where
  "failure_count m es = length (filter (is_failure_of m) es)"

definition closed_with :: "int \<Rightarrow> model_entry \<Rightarrow> bool" where
  "closed_with n e \<longleftrightarrow> cstate e = CLOSED \<and> failures e = n"

lemma closed_with_step:
  assumes "closed_with n x" and "e \<noteq> Success m" and "event_model e = m"
    and "n + (if is_failure_of m e then 1 else 0) < failureThreshold cfg"
  shows "closed_with (n + (if is_failure_of m e then 1 else 0)) (entry_step cfg k e x)"
  using assms by (cases e) (auto simp: entry_defs closed_with_def)

lemma closed_with_run:
  "closed_with n (get_entry b m) \<Longrightarrow> Success m \<notin> set es \<Longrightarrow>
   n + int (failure_count m es) < failureThreshold cfg \<Longrightarrow>
   closed_with (n + int (failure_count m es)) (get_entry (breaker_run cfg b es) m)"
proof (induction es arbitrary: b n)
  case Nil
  then show ?case by (simp add: failure_count_def)
next
  case (Cons e es)
  let ?d = "if is_failure_of m e then 1 else (0::int)"
  have count: "int (failure_count m (e # es)) = ?d + int (failure_count m es)"
    by (simp add: failure_count_def)
  have "closed_with (n + ?d) (get_entry (breaker_step cfg b e) m)"
  proof (cases "event_model e = m")
    case True
    have "e \<noteq> Success m" "n + ?d < failureThreshold cfg"
      using Cons.prems(2,3) count by auto
    from closed_with_step [OF Cons.prems(1) this(1) True this(2)] True
    show ?thesis by (simp only: breaker_step_entry simp_thms if_True)
  next
    case False
    then have "\<not> is_failure_of m e" by (cases e) auto
    with False Cons.prems(1) show ?thesis by (simp add: breaker_step_entry)
  qed
  from Cons.IH [OF this] Cons.prems count show ?case by (simp add: add.assoc)
qed

text \<open>
  The breaker trips exactly at the threshold: from a closed entry with \<open>n\<close> failures, while the
  failures of the model stay below the threshold (interleaved with attempts, aborts and any call
  on other models, but no success) every attempt is an ordinary one; the failure that reaches the
  threshold opens the model, stamps its clock reading, and the next attempt inside the cooldown is
  skipped.
\<close>

theorem trips_at_threshold:
  assumes closed: "closed_with n (get_entry b m)" and no_success: "Success m \<notin> set es"
    and below: "n + int (failure_count m es) < failureThreshold cfg"
  shows "fst (canAttempt cfg now m (breaker_run cfg b es)) = ALLOW
    \<and> (n + int (failure_count m es) + 1 = failureThreshold cfg \<longrightarrow>
         opened t (get_entry (breaker_run cfg b (es @ [Failure m (Some t)])) m))"
  using closed_with_run [OF assms]
  by (simp add: canAttempt_verdict verdict_def closed_with_def breaker_step_entry entry_defs opened_def)

theorem trips_at_threshold_witness:
  "fst (canAttempt demo_cfg None ''m'' (breaker_run demo_cfg createCircuitBreaker
      [Failure ''m'' (Some 3), Attempt ''m'' None, Failure ''k'' (Some 4)])) = ALLOW
   \<and> opened 9 (get_entry (breaker_run demo_cfg createCircuitBreaker
        ([Failure ''m'' (Some 3), Attempt ''m'' None, Failure ''k'' (Some 4)] @ [Failure ''m'' (Some 9)])) ''m'')"
  using trips_at_threshold [of 0 createCircuitBreaker "''m''"
      "[Failure ''m'' (Some 3), Attempt ''m'' None, Failure ''k'' (Some 4)]" demo_cfg None 9]
  by (simp add: demo_simps closed_with_def failure_count_def)

subsection \<open>Ownership of the probe lock\<close>

lemma breaker_run_nextSymbol: "nextSymbol b \<le> nextSymbol (breaker_run cfg b es)"
  by (induction es arbitrary: b) (auto intro: order_trans [OF breaker_step_nextSymbol])

text \<open>
  Only the owner of a probe can release it: an abort that carries a token granted before the
  current probe (for this or another model, however long ago) leaves the newer probe in place.
\<close>

theorem stale_abort_harmless:
  assumes old: "dec_token (fst (canAttempt cfg now m b)) = Some t"
    and current: "dec_token (fst (canAttempt cfg now' m'
                    (breaker_run cfg (snd (canAttempt cfg now m b)) es))) = Some t'"
  shows "probing t' (get_entry (recordAbort m' (Some t)
           (snd (canAttempt cfg now' m' (breaker_run cfg (snd (canAttempt cfg now m b)) es)))) m')"
proof -
  let ?b = "breaker_run cfg (snd (canAttempt cfg now m b)) es"
  have "Suc t \<le> nextSymbol ?b"
    using grant_is_probing(3) [OF old] breaker_run_nextSymbol by metis
  then have "t \<noteq> t'" using grant_is_probing(1) [OF current] by simp
  then show ?thesis
    using grant_is_probing(2) [OF current] by (simp add: recordAbort_def probing_def Let_def)
qed

theorem stale_abort_harmless_witness:
  "probing 1 (get_entry (recordAbort ''m'' (Some 0)
     (snd (canAttempt demo_cfg (Some 90000) ''m''
        (breaker_run demo_cfg (snd (canAttempt demo_cfg (Some 40000) ''m'' demo_open))
           [Failure ''m'' (Some 50000)])))) ''m'')"
  by (rule stale_abort_harmless) (simp_all add: demo_simps)

text \<open>
  A granted probe always ends well-defined: success closes the circuit with a cleared counter,
  failure reopens it with a refreshed cooldown origin, and an abort by its owner frees the lock so
  that the very next attempt, at any clock reading, is granted a new probe.
\<close>

theorem probe_outcomes:
  assumes granted: "dec_token (fst (canAttempt cfg now m b)) = Some t"
  shows "let b' = snd (canAttempt cfg now m b) in
    closed_with 0 (get_entry (recordSuccess m b') m)
    \<and> opened t1 (get_entry (recordFailure cfg (Some t1) m b') m)
    \<and> dec_token (fst (canAttempt cfg now2 m (recordAbort m (Some t) b'))) = Some (Suc t)"
proof -
  let ?b = "snd (canAttempt cfg now m b)"
  from grant_is_probing [OF granted]
  have "cstate (get_entry ?b m) = HALF_OPEN" "probeToken (get_entry ?b m) = Some t"
    "nextSymbol ?b = Suc t"
    by (simp_all add: probing_def)
  then show ?thesis
    by (simp add: Let_def closed_with_def opened_def recordSuccess_def recordFailure_def
        recordAbort_def canAttempt_verdict verdict_def)
qed

theorem probe_outcomes_witness:
  "let b' = snd (canAttempt demo_cfg (Some 40000) ''m'' demo_open) in
    closed_with 0 (get_entry (recordSuccess ''m'' b') ''m'')
    \<and> opened 41000 (get_entry (recordFailure demo_cfg (Some 41000) ''m'' b') ''m'')
    \<and> dec_token (fst (canAttempt demo_cfg None ''m'' (recordAbort ''m'' (Some 0) b'))) = Some (Suc 0)"
  by (rule probe_outcomes) (simp add: demo_simps)

end
