(* ===== verification/Token_Bucket.thy ===== *)
theory Token_Bucket
  imports Prelude
begin

text \<open>
  \<open>packages/core/src/ratelimit/token-bucket.ts\<close>: the pure bucket arithmetic that backs both the
  rate limiter and the usage budgets. Levels and capacities are rationals.
\<close>

record bucket =
  tokens :: rat
  lastRefillMs :: ms

definition DEFAULT_WINDOW_MS :: ms where
  "DEFAULT_WINDOW_MS = 60000"

text \<open>
  A zero window makes \<open>elapsed / windowMs\<close> infinite in JavaScript, so the clamp yields the
  capacity; HOL's division would yield 0, hence the explicit branch.
\<close>

definition refill :: "bucket \<Rightarrow> rat \<Rightarrow> ms \<Rightarrow> ms \<Rightarrow> bucket" where
  "refill st capacity nowMs windowMs =
     (if capacity \<le> 0 then st\<lparr>lastRefillMs := nowMs\<rparr>
      else let elapsed = nowMs - lastRefillMs st in
        if elapsed \<le> 0 then st
        else
          let level = (if windowMs = 0 then capacity
                       else min capacity (tokens st + (of_int elapsed / of_int windowMs) * capacity))
          in \<lparr>tokens = level, lastRefillMs = nowMs\<rparr>)"

text \<open>
  With a zero window the rate \<open>perSecond\<close> is infinite and the result is \<open>ceil(0) = 0\<close>, which is
  also what HOL's division gives.
\<close>

definition secondsToNextUnit :: "rat \<Rightarrow> rat \<Rightarrow> ms \<Rightarrow> int" where
  "secondsToNextUnit level capacity windowMs =
     (if capacity \<le> 0 then 0
      else
        let frac_part = level - of_int \<lfloor>level\<rfloor>;
            need = (if frac_part = 0 then 1 else 1 - frac_part);
            perSecond = capacity / (of_int windowMs / 1000)
        in \<lceil>need / perSecond\<rceil>)"

record consume_result =
  cr_state :: bucket
  cr_ok :: bool
  cr_remaining :: int
  cr_resetSeconds :: int

definition tryConsume :: "bucket \<Rightarrow> rat \<Rightarrow> rat \<Rightarrow> ms \<Rightarrow> ms \<Rightarrow> consume_result" where
  "tryConsume st capacity cost nowMs windowMs =
     (let refilled = refill st capacity nowMs windowMs in
      if tokens refilled \<ge> cost then
        let next = \<lparr>tokens = tokens refilled - cost, lastRefillMs = lastRefillMs refilled\<rparr>
        in \<lparr>cr_state = next, cr_ok = True, cr_remaining = max 0 \<lfloor>tokens next\<rfloor>,
            cr_resetSeconds = secondsToNextUnit (tokens next) capacity windowMs\<rparr>
      else
        \<lparr>cr_state = refilled, cr_ok = False, cr_remaining = max 0 \<lfloor>tokens refilled\<rfloor>,
         cr_resetSeconds = secondsToNextUnit (tokens refilled) capacity windowMs\<rparr>)"

subsection \<open>Refilling\<close>

lemma inflow_add:
  "of_int (c - a) / of_int w * cap = of_int (b - a) / of_int w * cap + of_int (c - b) / of_int w * (cap::rat)"
proof -
  have "(of_int (c - a) :: rat) = of_int (b - a) + of_int (c - b)" by simp
  then show ?thesis by (simp only: add_divide_distrib distrib_right)
qed

lemma refill_le_capacity:
  "0 < capacity \<Longrightarrow> tokens st \<le> capacity \<Longrightarrow> tokens (refill st capacity nowMs windowMs) \<le> capacity"
  by (simp add: refill_def Let_def)

lemma refill_mono:
  assumes "0 < capacity" and "tokens st \<le> capacity" and "0 \<le> windowMs"
  shows "tokens st \<le> tokens (refill st capacity nowMs windowMs)"
proof -
  have "0 \<le> (of_int (nowMs - lastRefillMs st) / of_int windowMs) * capacity"
    if "0 < nowMs - lastRefillMs st"
    using that assms by (intro mult_nonneg_nonneg divide_nonneg_nonneg) auto
  with assms show ?thesis by (auto simp: refill_def Let_def)
qed

lemma refill_clock: "0 < capacity \<Longrightarrow> lastRefillMs (refill st capacity nowMs w) = max (lastRefillMs st) nowMs"
  by (simp add: refill_def Let_def max_def)

lemma refill_past: "0 < capacity \<Longrightarrow> nowMs \<le> lastRefillMs st \<Longrightarrow> refill st capacity nowMs w = st"
  by (simp add: refill_def)

lemma refill_future:
  "0 < capacity \<Longrightarrow> lastRefillMs st < nowMs \<Longrightarrow> 0 < w \<Longrightarrow>
   refill st capacity nowMs w =
     \<lparr>tokens = min capacity (tokens st + of_int (nowMs - lastRefillMs st) / of_int w * capacity),
      lastRefillMs = nowMs\<rparr>"
  by (simp add: refill_def Let_def)

text \<open>
  Refilling is path independent: reading the bucket at any intermediate instant and again at
  a later one leaves it exactly as a single refill at the later instant would, so the number of
  probes and of rejected requests never changes how fast a key recovers.
\<close>

theorem refill_path_independent:
  assumes cap: "0 < capacity" and w: "0 < windowMs" and le: "t1 \<le> t2"
  shows "refill (refill st capacity t1 windowMs) capacity t2 windowMs = refill st capacity t2 windowMs"
proof (cases "t1 \<le> lastRefillMs st \<or> t1 = t2")
  case True
  then show ?thesis
  proof
    assume "t1 \<le> lastRefillMs st"
    with cap show ?thesis by (simp add: refill_past)
  next
    assume "t1 = t2"
    with cap show ?thesis by (simp add: refill_past refill_clock)
  qed
next
  case False
  let ?in = "\<lambda>x y. of_int (y - x) / of_int windowMs * capacity"
  from False le have lt: "lastRefillMs st < t1" "t1 < t2" by auto
  have nonneg: "0 \<le> ?in t1 t2" using le w cap by simp
  have "refill (refill st capacity t1 windowMs) capacity t2 windowMs
      = \<lparr>tokens = min capacity (min capacity (tokens st + ?in (lastRefillMs st) t1) + ?in t1 t2),
         lastRefillMs = t2\<rparr>"
    using lt w cap by (simp only: refill_future bucket.simps)
  also have "\<dots> = \<lparr>tokens = min capacity (tokens st + ?in (lastRefillMs st) t2), lastRefillMs = t2\<rparr>"
    using nonneg inflow_add [of t2 "lastRefillMs st" windowMs capacity t1] by simp
  also have "\<dots> = refill st capacity t2 windowMs"
    using lt w cap by (subst refill_future) auto
  finally show ?thesis .
qed

theorem refill_path_independent_witness:
  "refill (refill \<lparr>tokens = 1, lastRefillMs = 0\<rparr> 60 500 60000) 60 1500 60000
     = refill \<lparr>tokens = 1, lastRefillMs = 0\<rparr> 60 1500 60000"
  by (rule refill_path_independent) simp_all

subsection \<open>The potential of a bucket\<close>

text \<open>
  What a bucket can still grant up to a horizon: its level and what flows in until then. A refill
  never raises it and an accepted consume lowers it by the cost, which bounds what any history of
  requests can take.
\<close>

definition potential :: "rat \<Rightarrow> ms \<Rightarrow> ms \<Rightarrow> bucket \<Rightarrow> rat" where
  "potential capacity w horizon st =
     tokens st + of_int (horizon - lastRefillMs st) / of_int w * capacity"

lemma potential_refill:
  assumes "0 < capacity" and "0 < w"
  shows "potential capacity w horizon (refill st capacity nowMs w) \<le> potential capacity w horizon st"
proof (cases "nowMs \<le> lastRefillMs st")
  case True
  with assms show ?thesis by (simp add: refill_past)
next
  case False
  from inflow_add [of horizon "lastRefillMs st" w capacity nowMs] False assms show ?thesis by (simp add: potential_def refill_future)
qed

lemma tryConsume_simps:
  "cr_ok (tryConsume st c x t w) \<longleftrightarrow> x \<le> tokens (refill st c t w)"
  "cr_state (tryConsume st c x t w) =
     (if x \<le> tokens (refill st c t w)
      then (refill st c t w)\<lparr>tokens := tokens (refill st c t w) - x\<rparr> else refill st c t w)"
  by (simp_all add: tryConsume_def Let_def)

lemma potential_debit: "potential c w h (st\<lparr>tokens := tokens st - x\<rparr>) = potential c w h st - x"
  by (simp add: potential_def)

lemma potential_consume:
  assumes "0 < capacity" and "0 < w"
  shows "potential capacity w h (cr_state (tryConsume st capacity x t w))
           \<le> potential capacity w h st - (if cr_ok (tryConsume st capacity x t w) then x else 0)"
  using potential_refill [OF assms, of h st t] by (simp add: tryConsume_simps potential_debit)

lemma consume_keeps_nonneg:
  assumes "0 < capacity" and "0 \<le> windowMs" and "tokens st \<le> capacity" and "0 \<le> tokens st" and "0 \<le> x"
  shows "0 \<le> tokens (cr_state (tryConsume st capacity x t windowMs))"
    and "tokens (cr_state (tryConsume st capacity x t windowMs)) \<le> capacity"
  using refill_mono [of capacity st windowMs t] refill_le_capacity [of capacity st t windowMs] assms
  by (auto simp: tryConsume_simps)

lemma consume_clock:
  "0 < capacity \<Longrightarrow> lastRefillMs (cr_state (tryConsume st capacity x t w)) = max (lastRefillMs st) t"
  by (simp add: tryConsume_simps refill_clock)

lemma potential_nonneg:
  "0 < capacity \<Longrightarrow> 0 < w \<Longrightarrow> 0 \<le> tokens st \<Longrightarrow> lastRefillMs st \<le> h \<Longrightarrow> 0 \<le> potential capacity w h st"
  by (simp add: potential_def)

text \<open>
  A well-formed bucket of a given capacity: what the stores keep and the histories need.
\<close>

definition bucket_ok :: "rat \<Rightarrow> bucket \<Rightarrow> bool" where
  "bucket_ok capacity st \<longleftrightarrow> 0 \<le> tokens st \<and> tokens st \<le> capacity"

lemma bucket_ok_consume [helm_inv]:
  "0 < capacity \<Longrightarrow> 0 \<le> w \<Longrightarrow> bucket_ok capacity st \<Longrightarrow> 0 \<le> x \<Longrightarrow>
   bucket_ok capacity (cr_state (tryConsume st capacity x t w))"
  by (simp add: bucket_ok_def consume_keeps_nonneg)

text \<open>
  The answer of \<open>tryConsume\<close> is exact: it admits iff the refilled level covers the cost, debits
  exactly the cost, never leaves the range between 0 and the capacity, and a rejected request costs
  nothing; after a rejection or a success the advertised reset is never negative and the advertised
  remaining is the floor of the level.
\<close>

theorem tryConsume_exact:
  assumes "0 < capacity" and "0 < windowMs" and "bucket_ok capacity st" and "0 \<le> cost"
  shows "let r = tryConsume st capacity cost t windowMs; full = refill st capacity t windowMs in
    bucket_ok capacity (cr_state r)
    \<and> (if cost \<le> tokens full then cr_ok r \<and> tokens (cr_state r) = tokens full - cost
       else \<not> cr_ok r \<and> cr_state r = full)
    \<and> cr_remaining r = \<lfloor>tokens (cr_state r)\<rfloor> \<and> 0 \<le> cr_resetSeconds r"
proof -
  have ok: "bucket_ok capacity (cr_state (tryConsume st capacity cost t windowMs))"
    using assms by (intro bucket_ok_consume) auto
  have reset: "0 \<le> secondsToNextUnit level capacity windowMs" for level
  proof -
    define need where "need = (if level - of_int \<lfloor>level\<rfloor> = 0 then 1 else 1 - (level - of_int \<lfloor>level\<rfloor>))"
    have "level \<le> of_int \<lfloor>level\<rfloor> + 1" by linarith
    then have "0 \<le> need" by (simp add: need_def)
    then have "0 \<le> need / (capacity / (of_int windowMs / 1000))"
      using assms by (intro divide_nonneg_nonneg) auto
    then have "0 \<le> \<lceil>need / (capacity / (of_int windowMs / 1000))\<rceil>" by linarith
    then show ?thesis unfolding secondsToNextUnit_def Let_def need_def by simp
  qed
  from ok show ?thesis
    using reset by (auto simp: tryConsume_def Let_def bucket_ok_def max_def)
qed

theorem tryConsume_exact_witness:
  "let r = tryConsume \<lparr>tokens = 1/2, lastRefillMs = 0\<rparr> 60 1 250 60000;
       full = refill \<lparr>tokens = 1/2, lastRefillMs = 0\<rparr> 60 250 60000 in
    bucket_ok 60 (cr_state r)
    \<and> (if 1 \<le> tokens full then cr_ok r \<and> tokens (cr_state r) = tokens full - 1
       else \<not> cr_ok r \<and> cr_state r = full)
    \<and> cr_remaining r = \<lfloor>tokens (cr_state r)\<rfloor> \<and> 0 \<le> cr_resetSeconds r"
  by (rule tryConsume_exact) (simp_all add: bucket_ok_def)

subsection \<open>Buckets in a store\<close>

text \<open>
  Every store seeds an unseen key with a full bucket at the instant of its first use. The
  potential of such a possibly cold bucket is that of a bucket filled at the start of the observed
  interval.
\<close>

definition full_bucket :: "rat \<Rightarrow> ms \<Rightarrow> bucket" where
  "full_bucket capacity nowMs = \<lparr>tokens = capacity, lastRefillMs = nowMs\<rparr>"

definition level_potential :: "rat \<Rightarrow> ms \<Rightarrow> ms \<Rightarrow> ms \<Rightarrow> bucket option \<Rightarrow> rat" where
  "level_potential c w t0 h b = potential c w h (nullish b (full_bucket c t0))"

definition level_ok :: "rat \<Rightarrow> ms \<Rightarrow> bucket option \<Rightarrow> bool" where
  "level_ok c h b \<longleftrightarrow> (\<forall>st. b = Some st \<longrightarrow> bucket_ok c st \<and> lastRefillMs st \<le> h)"

lemma level_consume:
  assumes "0 < c" and w: "0 < w" and "0 \<le> x" and "level_ok c h b" and "t0 \<le> t" and "t \<le> h"
  defines "res \<equiv> tryConsume (nullish b (full_bucket c t)) c x t w"
  shows "level_ok c h (Some (cr_state res))"
    and "level_potential c w t0 h (Some (cr_state res)) + (if cr_ok res then x else 0) \<le> level_potential c w t0 h b"
proof -
  have ok: "bucket_ok c (nullish b (full_bucket c t)) \<and> lastRefillMs (nullish b (full_bucket c t)) \<le> h"
    using assms by (cases b) (auto simp: bucket_ok_def full_bucket_def level_ok_def)
  then show "level_ok c h (Some (cr_state res))"
    using assms by (simp add: level_ok_def bucket_ok_consume consume_clock)
  have "potential c w h (nullish b (full_bucket c t)) \<le> level_potential c w t0 h b"
    using assms by (cases b) (auto simp: level_potential_def full_bucket_def potential_def
        intro!: mult_right_mono divide_right_mono)
  with potential_consume [OF \<open>0 < c\<close> w, of h "nullish b (full_bucket c t)" x t]
  show "level_potential c w t0 h (Some (cr_state res)) + (if cr_ok res then x else 0) \<le> level_potential c w t0 h b"
    by (simp add: level_potential_def res_def)
qed

lemma level_potential_nonneg:
  "0 < c \<Longrightarrow> 0 < w \<Longrightarrow> t0 \<le> h \<Longrightarrow> level_ok c h b \<Longrightarrow> 0 \<le> level_potential c w t0 h b"
  by (cases b) (auto simp: level_potential_def level_ok_def bucket_ok_def full_bucket_def intro!: potential_nonneg)

lemma level_potential_cold: "level_potential c w t0 h None = c + of_int (h - t0) / of_int w * c"
  by (simp add: level_potential_def potential_def full_bucket_def)

end
