(* ===== verification/Rate_Limiter.thy ===== *)
theory Rate_Limiter
  imports Token_Bucket
begin

text \<open>
  \<open>packages/core/src/ratelimit/limiter.ts\<close> and its two process-local stores
  (\<open>store/sqlite/rate-limit-memory.ts\<close>, \<open>store/sqlite/rate-limit.ts\<close>). The limiter is a client of
  the \<open>RateLimitStore\<close> port: its store is the function \<open>consume\<close>, which returns \<open>None\<close> when
  the store throws. The locale \<open>bucket_store\<close> states what a working store promises; both stores
  interpret it.
\<close>

subsection \<open>Configuration, probes, results\<close>

datatype rl_dim = Rpm | Tpm

record rate_quota =
  q_rpm :: rat
  q_tpm :: rat

record quota_override =
  o_rpm :: "rat option"
  o_tpm :: "rat option"

record rate_config =
  rl_enabled :: bool
  rl_default :: rate_quota
  rl_overrides :: "string \<rightharpoonup> quota_override"

record rate_probe =
  rp_keyId :: string
  rp_estimatedTokens :: rat
  rp_now :: ms
  rp_override :: "quota_override option"

datatype js_count = Count int | Infinite

record rate_result =
  rr_allowed :: bool
  rr_limitedBy :: "rl_dim option"
  rr_limit :: rat
  rr_remaining :: js_count
  rr_resetSeconds :: int
  rr_retryAfterSeconds :: int

type_synonym 's consume_fn =
  "'s \<Rightarrow> string \<Rightarrow> rl_dim \<Rightarrow> rat \<Rightarrow> rat \<Rightarrow> ms \<Rightarrow> consume_result option \<times> 's"

definition resolveQuota :: "rate_config \<Rightarrow> rate_probe \<Rightarrow> rate_quota" where
  "resolveQuota cfg p =
     (case rp_override p of
        Some ov \<Rightarrow> \<lparr>q_rpm = nullish (o_rpm ov) (q_rpm (rl_default cfg)),
                    q_tpm = nullish (o_tpm ov) (q_tpm (rl_default cfg))\<rparr>
      | None \<Rightarrow>
          (case rl_overrides cfg (rp_keyId p) of
             Some ov \<Rightarrow> \<lparr>q_rpm = nullish (o_rpm ov) (q_rpm (rl_default cfg)),
                         q_tpm = nullish (o_tpm ov) (q_tpm (rl_default cfg))\<rparr>
           | None \<Rightarrow> rl_default cfg))"

definition ALLOWED :: rate_result where
  "ALLOWED = \<lparr>rr_allowed = True, rr_limitedBy = None, rr_limit = 0, rr_remaining = Infinite,
              rr_resetSeconds = 0, rr_retryAfterSeconds = 0\<rparr>"

text \<open>The three result shapes the source writes out in its return statements.\<close>

definition rl_rejected :: "rl_dim \<Rightarrow> rat \<Rightarrow> consume_result \<Rightarrow> rate_result" where
  "rl_rejected d limit r =
     \<lparr>rr_allowed = False, rr_limitedBy = Some d, rr_limit = limit, rr_remaining = Count (cr_remaining r),
      rr_resetSeconds = cr_resetSeconds r, rr_retryAfterSeconds = max 1 (cr_resetSeconds r)\<rparr>"

definition rl_admitted :: "rat \<Rightarrow> consume_result \<Rightarrow> rate_result" where
  "rl_admitted limit r =
     \<lparr>rr_allowed = True, rr_limitedBy = None, rr_limit = limit, rr_remaining = Count (cr_remaining r),
      rr_resetSeconds = cr_resetSeconds r, rr_retryAfterSeconds = 0\<rparr>"

definition tighter :: "rate_quota \<Rightarrow> consume_result \<Rightarrow> consume_result \<Rightarrow> rate_result" where
  "tighter q r t =
     (if of_int (cr_remaining r) / q_rpm q \<le> of_int (cr_remaining t) / q_tpm q
      then rl_admitted (q_rpm q) r else rl_admitted (q_tpm q) t)"

definition check :: "'s consume_fn \<Rightarrow> rate_config \<Rightarrow> rate_probe \<Rightarrow> 's \<Rightarrow> rate_result option \<times> 's" where
  "check consume cfg p s =
     (if \<not> rl_enabled cfg then (Some ALLOWED, s)
      else
        let q = resolveQuota cfg p; rpmOn = q_rpm q > 0; tpmOn = q_tpm q > 0 in
        if \<not> rpmOn \<and> \<not> tpmOn then (Some ALLOWED, s)
        else if rpmOn then
          (case consume s (rp_keyId p) Rpm (q_rpm q) 1 (rp_now p) of
             (None, s1) \<Rightarrow> (None, s1)
           | (Some r, s1) \<Rightarrow>
               if \<not> cr_ok r then (Some (rl_rejected Rpm (q_rpm q) r), s1)
               else if \<not> tpmOn then (Some (rl_admitted (q_rpm q) r), s1)
               else
                 (case consume s1 (rp_keyId p) Tpm (q_tpm q) (rp_estimatedTokens p) (rp_now p) of
                    (None, s2) \<Rightarrow> (None, s2)
                  | (Some t, s2) \<Rightarrow>
                      if \<not> cr_ok t then (Some (rl_rejected Tpm (q_tpm q) t), s2)
                      else (Some (tighter q r t), s2)))
        else
          (case consume s (rp_keyId p) Tpm (q_tpm q) (rp_estimatedTokens p) (rp_now p) of
             (None, s1) \<Rightarrow> (None, s1)
           | (Some t, s1) \<Rightarrow>
               (Some (if cr_ok t then rl_admitted (q_tpm q) t else rl_rejected Tpm (q_tpm q) t), s1)))"

subsection \<open>The two stores\<close>

fun dim_name :: "rl_dim \<Rightarrow> string" where
  "dim_name Rpm = ''rpm''"
| "dim_name Tpm = ''tpm''"

type_synonym mem_rate_store = "string \<rightharpoonup> bucket"

definition mem_consume :: "mem_rate_store consume_fn" where
  "mem_consume buckets keyId d capacityPerMin cost nowMs =
     (let i = keyId @ '':'' @ dim_name d;
          current = nullish (buckets i) (full_bucket capacityPerMin nowMs);
          result = tryConsume current capacityPerMin cost nowMs DEFAULT_WINDOW_MS
      in (Some result, buckets(i \<mapsto> cr_state result)))"

type_synonym sqlite_rate_store = "string \<times> rl_dim \<rightharpoonup> bucket"

definition sqlite_consume :: "sqlite_rate_store consume_fn" where
  "sqlite_consume rows keyId d capacityPerMin cost nowMs =
     (let current = (case rows (keyId, d) of Some row \<Rightarrow> row | None \<Rightarrow> full_bucket capacityPerMin nowMs);
          result = tryConsume current capacityPerMin cost nowMs DEFAULT_WINDOW_MS
      in (Some result, rows((keyId, d) \<mapsto> cr_state result)))"

definition mem_level :: "mem_rate_store \<Rightarrow> string \<Rightarrow> rl_dim \<Rightarrow> bucket option" where
  "mem_level buckets keyId d = buckets (keyId @ '':'' @ dim_name d)"

definition sqlite_level :: "sqlite_rate_store \<Rightarrow> string \<Rightarrow> rl_dim \<Rightarrow> bucket option" where
  "sqlite_level rows keyId d = rows (keyId, d)"

subsection \<open>The limiter fails closed\<close>

text \<open>
  The limiter admits a request only when the store itself answered ok for every dimension
  with a positive quota, whatever the store does: a store that throws is never read as unlimited.
\<close>

theorem limiter_fail_closed:
  assumes "rl_enabled cfg" and "fst (check consume cfg p s) = Some res" and "rr_allowed res"
  shows "let q = resolveQuota cfg p;
             rpm = consume s (rp_keyId p) Rpm (q_rpm q) 1 (rp_now p);
             s1 = (if q_rpm q > 0 then snd rpm else s);
             tpm = consume s1 (rp_keyId p) Tpm (q_tpm q) (rp_estimatedTokens p) (rp_now p)
         in (q_rpm q > 0 \<longrightarrow> (\<exists>r. fst rpm = Some r \<and> cr_ok r))
            \<and> (q_tpm q > 0 \<longrightarrow> (\<exists>t. fst tpm = Some t \<and> cr_ok t))"
  using assms
  by (auto simp: check_def Let_def rl_rejected_def split: if_splits prod.splits option.splits)

definition demo_limits :: rate_config where
  "demo_limits = \<lparr>rl_enabled = True, rl_default = \<lparr>q_rpm = 2, q_tpm = 100\<rparr>, rl_overrides = Map.empty\<rparr>"

definition demo_probe :: "ms \<Rightarrow> rate_probe" where
  "demo_probe t = \<lparr>rp_keyId = ''k'', rp_estimatedTokens = 60, rp_now = t, rp_override = None\<rparr>"

lemma demo_limits_sel [simp]:
  "rl_enabled demo_limits" "rp_keyId (demo_probe t) = ''k''" "rp_now (demo_probe t) = t"
  "rp_estimatedTokens (demo_probe t) = 60" "rp_override (demo_probe t) = None"
  "resolveQuota demo_limits (demo_probe t) = \<lparr>q_rpm = 2, q_tpm = 100\<rparr>"
  by (simp_all add: demo_limits_def demo_probe_def resolveQuota_def)

theorem limiter_fail_closed_witness:
  "let q = resolveQuota demo_limits (demo_probe 7);
       rpm = mem_consume Map.empty ''k'' Rpm (q_rpm q) 1 7;
       tpm = mem_consume (snd rpm) ''k'' Tpm (q_tpm q) 60 7
   in (\<exists>r. fst rpm = Some r \<and> cr_ok r) \<and> (\<exists>t. fst tpm = Some t \<and> cr_ok t)"
proof -
  obtain res where "fst (check mem_consume demo_limits (demo_probe 7) Map.empty) = Some res" "rr_allowed res"
    by (simp add: check_def mem_consume_def tryConsume_def refill_def full_bucket_def tighter_def
        rl_admitted_def Let_def)
  from limiter_fail_closed [OF _ this] show ?thesis by (simp add: Let_def)
qed

text \<open>A disabled limiter, or a key unlimited in both dimensions, never touches the store.\<close>

lemma check_untouched:
  "\<not> rl_enabled cfg \<or> (q_rpm (resolveQuota cfg p) \<le> 0 \<and> q_tpm (resolveQuota cfg p) \<le> 0) \<Longrightarrow>
   check consume cfg p s = (Some ALLOWED, s)"
  by (auto simp: check_def Let_def)

text \<open>Quota resolution: a present override object hides the yaml overrides; null means the default; 0 is a value.\<close>

lemma resolveQuota_override:
  "rp_override p = Some ov \<Longrightarrow> q_rpm (resolveQuota cfg p) = nullish (o_rpm ov) (q_rpm (rl_default cfg))"
  by (simp add: resolveQuota_def)

subsection \<open>Histories of checks over a working store\<close>

fun check_all :: "'s consume_fn \<Rightarrow> rate_config \<Rightarrow> rate_probe list \<Rightarrow> 's \<Rightarrow> (rate_probe \<times> rate_result option) list" where
  "check_all consume cfg [] s = []"
| "check_all consume cfg (p # ps) s =
     (let (r, s') = check consume cfg p s in (p, r) # check_all consume cfg ps s')"

fun dim_cost :: "rl_dim \<Rightarrow> rate_probe \<Rightarrow> rat" where
  "dim_cost Rpm p = 1"
| "dim_cost Tpm p = rp_estimatedTokens p"

fun dim_quota :: "rl_dim \<Rightarrow> rate_quota \<Rightarrow> rat" where
  "dim_quota Rpm q = q_rpm q"
| "dim_quota Tpm q = q_tpm q"

definition admitted :: "string \<Rightarrow> rate_probe \<times> rate_result option \<Rightarrow> bool" where
  "admitted k = (\<lambda>(p, r). rp_keyId p = k \<and> (\<exists>x. r = Some x \<and> rr_allowed x))"

definition admitted_cost :: "rl_dim \<Rightarrow> string \<Rightarrow> (rate_probe \<times> rate_result option) list \<Rightarrow> rat" where
  "admitted_cost d k rs = sum_list (map (\<lambda>(p, r). if admitted k (p, r) then dim_cost d p else 0) rs)"

locale bucket_store =
  fixes consume :: "'s consume_fn"
    and level :: "'s \<Rightarrow> string \<Rightarrow> rl_dim \<Rightarrow> bucket option"
  assumes consume_result:
    "fst (consume s k d c x t) = Some (tryConsume (nullish (level s k d) (full_bucket c t)) c x t DEFAULT_WINDOW_MS)"
    and consume_level:
    "level (snd (consume s k d c x t)) k' d' =
       (if k' = k \<and> d' = d
        then Some (cr_state (tryConsume (nullish (level s k d) (full_bucket c t)) c x t DEFAULT_WINDOW_MS))
        else level s k' d')"
begin

lemma consume_cases:
  obtains R s' where "consume s k d c x t = (Some R, s')"
    and "R = tryConsume (nullish (level s k d) (full_bucket c t)) c x t DEFAULT_WINDOW_MS"
    and "\<forall>k' d'. level s' k' d' = (if k' = k \<and> d' = d then Some (cr_state R) else level s k' d')"
proof -
  have "consume s k d c x t =
      (Some (tryConsume (nullish (level s k d) (full_bucket c t)) c x t DEFAULT_WINDOW_MS),
       snd (consume s k d c x t))"
    by (simp add: prod_eq_iff consume_result)
  with consume_level that show ?thesis by blast
qed

text \<open>One check changes the observed bucket by at most one consume of that dimension's cost.\<close>

lemma check_level:
  assumes on: "rl_enabled cfg" and pos: "0 < dim_quota d (resolveQuota cfg p)"
    and ch: "check consume cfg p s = (r, s')"
  obtains (untouched) "level s' (rp_keyId p) d = level s (rp_keyId p) d" "\<not> admitted (rp_keyId p) (p, r)"
  | (consumed) res where
      "res = tryConsume (nullish (level s (rp_keyId p) d) (full_bucket (dim_quota d (resolveQuota cfg p)) (rp_now p)))
               (dim_quota d (resolveQuota cfg p)) (dim_cost d p) (rp_now p) DEFAULT_WINDOW_MS"
      "level s' (rp_keyId p) d = Some (cr_state res)" "admitted (rp_keyId p) (p, r) \<longrightarrow> cr_ok res"
proof -
  let ?k = "rp_keyId p" let ?q = "resolveQuota cfg p"
  obtain R1 s1 where c1: "consume s ?k Rpm (q_rpm ?q) 1 (rp_now p) = (Some R1, s1)"
    and r1: "R1 = tryConsume (nullish (level s ?k Rpm) (full_bucket (q_rpm ?q) (rp_now p))) (q_rpm ?q) 1
               (rp_now p) DEFAULT_WINDOW_MS"
    and l1: "\<forall>k' d'. level s1 k' d' = (if k' = ?k \<and> d' = Rpm then Some (cr_state R1) else level s k' d')"
    by (rule consume_cases [of s ?k Rpm "q_rpm ?q" 1 "rp_now p"]) blast
  have T: "\<exists>R s''. consume u ?k Tpm (q_tpm ?q) (rp_estimatedTokens p) (rp_now p) = (Some R, s'')
     \<and> R = tryConsume (nullish (level s ?k Tpm) (full_bucket (q_tpm ?q) (rp_now p))) (q_tpm ?q)
               (rp_estimatedTokens p) (rp_now p) DEFAULT_WINDOW_MS
     \<and> level s'' ?k Tpm = Some (cr_state R) \<and> level s'' ?k Rpm = level u ?k Rpm"
    if "level u ?k Tpm = level s ?k Tpm" for u
    by (rule consume_cases [of u ?k Tpm "q_tpm ?q" "rp_estimatedTokens p" "rp_now p"]) (simp add: that)
  obtain R2 s2 where c2: "consume s1 ?k Tpm (q_tpm ?q) (rp_estimatedTokens p) (rp_now p) = (Some R2, s2)"
    and r2: "R2 = tryConsume (nullish (level s ?k Tpm) (full_bucket (q_tpm ?q) (rp_now p))) (q_tpm ?q)
               (rp_estimatedTokens p) (rp_now p) DEFAULT_WINDOW_MS"
    and l2: "level s2 ?k Tpm = Some (cr_state R2)" "level s2 ?k Rpm = Some (cr_state R1)"
    using T [of s1] l1 by auto
  obtain R3 s3 where c3: "consume s ?k Tpm (q_tpm ?q) (rp_estimatedTokens p) (rp_now p) = (Some R3, s3)"
    and r3: "R3 = R2" and l3: "level s3 ?k Tpm = Some (cr_state R3)" "level s3 ?k Rpm = level s ?k Rpm"
    using T [of s] r2 by auto
  note out = ch [unfolded check_def Let_def c1 c2 c3] on pos l1 l2 l3
  show ?thesis
  proof (cases d)
    case Rpm
    with out have "level s' ?k Rpm = Some (cr_state R1) \<and> (admitted ?k (p, r) \<longrightarrow> cr_ok R1)"
      by (auto simp: admitted_def rl_rejected_def c2 split: if_splits)
    with Rpm r1 show ?thesis by (intro consumed) auto
  next
    case Tpm
    with out r3 have "(level s' ?k Tpm = level s ?k Tpm \<and> \<not> admitted ?k (p, r))
        \<or> (level s' ?k Tpm = Some (cr_state R2) \<and> (admitted ?k (p, r) \<longrightarrow> cr_ok R2))"
      by (auto simp: admitted_def rl_rejected_def c2 split: if_splits)
    with Tpm r2 untouched consumed show ?thesis by auto
  qed
qed

lemma check_other_key:
  assumes "k \<noteq> rp_keyId p" and "check consume cfg p s = (r, s')"
  shows "level s' k d = level s k d"
proof -
  have frame: "level (snd (consume s' (rp_keyId p) d' c x t)) k d = level s' k d" for s' d' c x t
    using assms(1) by (simp add: consume_level)
  show ?thesis
    using assms(2) frame
    by (auto simp: check_def Let_def split: if_splits prod.splits option.splits) (metis snd_conv)+
qed

end

lemma DEFAULT_WINDOW_pos [simp]: "0 < DEFAULT_WINDOW_MS" "0 \<le> DEFAULT_WINDOW_MS"
  by (simp_all add: DEFAULT_WINDOW_MS_def)

context bucket_store
begin

lemma check_all_bound:
  assumes "rl_enabled cfg" and "0 < c"
  shows "level_ok c h (level s k d) \<Longrightarrow>
    \<forall>p\<in>set ps. t0 \<le> rp_now p \<and> rp_now p \<le> h \<and> 0 \<le> rp_estimatedTokens p
       \<and> (rp_keyId p = k \<longrightarrow> dim_quota d (resolveQuota cfg p) = c) \<Longrightarrow> t0 \<le> h \<Longrightarrow>
    admitted_cost d k (check_all consume cfg ps s) \<le> level_potential c DEFAULT_WINDOW_MS t0 h (level s k d)"
proof (induction ps arbitrary: s)
  case Nil
  then show ?case
    using assms(2) by (cases "level s k d")
      (auto simp: admitted_cost_def level_potential_def level_ok_def bucket_ok_def full_bucket_def
        intro!: potential_nonneg)
next
  case (Cons p ps)
  obtain r s' where ch: "check consume cfg p s = (r, s')" by (cases "check consume cfg p s")
  have step: "level_ok c h (level s' k d) \<and>
      level_potential c DEFAULT_WINDOW_MS t0 h (level s' k d) + (if admitted k (p, r) then dim_cost d p else 0)
        \<le> level_potential c DEFAULT_WINDOW_MS t0 h (level s k d)"
  proof (cases "rp_keyId p = k")
    case False
    with check_other_key [OF _ ch] Cons.prems(1) show ?thesis by (auto simp: admitted_def)
  next
    case True
    with Cons.prems(2) have q: "dim_quota d (resolveQuota cfg p) = c" by simp
    have cost: "0 \<le> dim_cost d p" using Cons.prems(2) by (cases d) auto
    from assms(1) q assms(2) have "0 < dim_quota d (resolveQuota cfg p)" by simp
    from assms(1) this ch show ?thesis
    proof (cases rule: check_level)
      case untouched
      with True Cons.prems(1) show ?thesis by simp
    next
      case (consumed res)
      with level_consume [OF assms(2) DEFAULT_WINDOW_pos(1) cost Cons.prems(1), of t0 "rp_now p"] Cons.prems(2) cost True q
      show ?thesis by (auto split: if_splits)
    qed
  qed
  from Cons.IH [of s'] step Cons.prems(2,3)
  have "admitted_cost d k (check_all consume cfg ps s') \<le> level_potential c DEFAULT_WINDOW_MS t0 h (level s' k d)" by simp
  with step show ?case by (simp add: ch admitted_cost_def)
qed

lemma cold_bound:
  assumes "rl_enabled cfg" and "0 < c" and "level s k d = None" and "t0 \<le> h"
    and "\<forall>p\<in>set ps. t0 \<le> rp_now p \<and> rp_now p \<le> h \<and> 0 \<le> rp_estimatedTokens p
       \<and> (rp_keyId p = k \<longrightarrow> dim_quota d (resolveQuota cfg p) = c)"
  shows "admitted_cost d k (check_all consume cfg ps s) \<le> c + c * of_int (h - t0) / 60000"
  using check_all_bound [OF assms(1,2), of h s k d ps t0] assms(3-5)
  by (simp add: level_ok_def level_potential_def potential_def full_bucket_def DEFAULT_WINDOW_MS_def mult.commute)

end

lemma rl_id_inj: "k @ CHR '':'' # dim_name d = k' @ CHR '':'' # dim_name d' \<longleftrightarrow> k = k' \<and> d = d'"
  by (cases d; cases d') simp_all

interpretation mem_rl: bucket_store mem_consume mem_level
  by unfold_locales (auto simp: mem_consume_def mem_level_def Let_def rl_id_inj)

interpretation sqlite_rl: bucket_store sqlite_consume sqlite_level
  by unfold_locales (auto simp: sqlite_consume_def sqlite_level_def Let_def nullish_def split: option.split)

subsection \<open>The rate limit bounds what a key is granted\<close>

text \<open>
  With requests-per-minute quota \<open>c\<close>, a key that the store has not seen is granted at most
  \<open>c\<close> requests plus what refills over the observed interval, however its checks are
  interleaved with those of other keys, in any clock order, and whatever the tokens dimension
  answers. (In-memory store.)
\<close>

theorem rpm_window_bound:
  assumes "rl_enabled cfg" and "0 < c" and "mem_level s k Rpm = None" and "t0 \<le> h"
    and "\<forall>p\<in>set ps. t0 \<le> rp_now p \<and> rp_now p \<le> h \<and> 0 \<le> rp_estimatedTokens p
       \<and> (rp_keyId p = k \<longrightarrow> q_rpm (resolveQuota cfg p) = c)"
  shows "of_nat (length (filter (admitted k) (check_all mem_consume cfg ps s)))
           \<le> c + c * of_int (h - t0) / 60000"
proof -
  have "of_nat (length (filter (admitted k) rs)) = admitted_cost Rpm k rs" for rs
    by (induction rs) (auto simp: admitted_cost_def)
  then show ?thesis
    using mem_rl.cold_bound [of cfg c s k Rpm t0 h ps] assms by simp
qed

theorem rpm_window_bound_witness:
  "of_nat (length (filter (admitted ''k'') (check_all mem_consume demo_limits (map demo_probe [0, 10, 5]) Map.empty)))
     \<le> 2 + 2 * of_int (30000 - 0) / (60000::rat)"
  by (rule rpm_window_bound)
    (simp_all add: mem_level_def)

text \<open>
  The same for the tokens-per-minute quota of the persistent store: the estimated tokens of
  all the requests granted to a key over an interval never exceed one full bucket plus the refill.
\<close>

theorem tpm_window_bound:
  assumes "rl_enabled cfg" and "0 < c" and "sqlite_level s k Tpm = None" and "t0 \<le> h"
    and "\<forall>p\<in>set ps. t0 \<le> rp_now p \<and> rp_now p \<le> h \<and> 0 \<le> rp_estimatedTokens p
       \<and> (rp_keyId p = k \<longrightarrow> q_tpm (resolveQuota cfg p) = c)"
  shows "sum_list (map (\<lambda>(p, r). if admitted k (p, r) then rp_estimatedTokens p else 0)
            (check_all sqlite_consume cfg ps s))
           \<le> c + c * of_int (h - t0) / 60000"
  using sqlite_rl.cold_bound [of cfg c s k Tpm t0 h ps, unfolded admitted_cost_def dim_cost.simps dim_quota.simps]
    assms by simp

theorem tpm_window_bound_witness:
  "sum_list (map (\<lambda>(p, r). if admitted ''k'' (p, r) then rp_estimatedTokens p else 0)
            (check_all sqlite_consume demo_limits (map demo_probe [0, 10, 5]) Map.empty))
     \<le> 100 + 100 * of_int (20 - 0) / 60000"
  by (rule tpm_window_bound)
    (simp_all add: sqlite_level_def)

end
