(* ===== verification/Budget.thy ===== *)
theory Budget
  imports Token_Bucket
begin

text \<open>
  Per-key usage budgets: the pre-route gate (\<open>packages/core/src/budget/gate.ts\<close>), the
  post-served settle (\<open>budget/settle.ts\<close>) and the SQLite store behind both
  (\<open>store/sqlite/budget.ts\<close>). The gate and the settle are clients of the \<open>BudgetStore\<close> port:
  \<open>peek\<close> and \<open>debit\<close> are arguments that return \<open>None\<close> when the store throws.
\<close>

subsection \<open>Caps, configuration, results\<close>

datatype budget_dim = Req | Tok | Usd
datatype over_budget_behavior = Degrade | Reject

record budget_caps =
  bc_requests :: "rat option"
  bc_tokens :: "rat option"
  bc_spendUsd :: "rat option"
  bc_windowSeconds :: "int option"
  bc_behavior :: over_budget_behavior
  bc_degradeLane :: "lane_name option"

record budget_config =
  defaultWindowSeconds :: int
  defaultDegradeLane :: lane_name

record budget_check_result =
  overBudget :: bool
  bg_limitedBy :: "budget_dim option"
  behavior :: over_budget_behavior
  bg_degradeLane :: "lane_name option"

record budget_usage =
  bu_requests :: rat
  bu_tokens :: rat
  bu_costUsd :: "rat option"

record budget_probe =
  bp_keyId :: string
  bp_caps :: budget_caps
  bp_nowMs :: ms

record peek_result =
  pk_remaining :: rat
  pk_ok :: bool

type_synonym 's peek_fn = "'s \<Rightarrow> string \<Rightarrow> budget_dim \<Rightarrow> rat \<Rightarrow> ms \<Rightarrow> ms \<Rightarrow> peek_result option"
type_synonym 's debit_fn = "'s \<Rightarrow> string \<Rightarrow> budget_dim \<Rightarrow> rat \<Rightarrow> ms \<Rightarrow> rat \<Rightarrow> ms \<Rightarrow> rat option \<times> 's"

definition active_dim :: "budget_dim \<Rightarrow> rat option \<Rightarrow> (budget_dim \<times> rat) list" where
  "active_dim d cap = (case cap of Some c \<Rightarrow> if c > 0 then [(d, c)] else [] | None \<Rightarrow> [])"

definition activeDims :: "budget_caps \<Rightarrow> (budget_dim \<times> rat) list" where
  "activeDims caps =
     active_dim Req (bc_requests caps) @ active_dim Tok (bc_tokens caps) @ active_dim Usd (bc_spendUsd caps)"

definition windowMsFor :: "budget_caps \<Rightarrow> budget_config \<Rightarrow> ms" where
  "windowMsFor caps cfg = nullish (bc_windowSeconds caps) (defaultWindowSeconds cfg) * 1000"

definition WITHIN_BUDGET :: budget_check_result where
  "WITHIN_BUDGET = \<lparr>overBudget = False, bg_limitedBy = None, behavior = Degrade, bg_degradeLane = None\<rparr>"

subsection \<open>The gate\<close>

definition exhausted :: "budget_dim \<Rightarrow> rat \<Rightarrow> bool" where
  "exhausted d remaining = (if d = Usd then remaining \<le> 0 else remaining < 1)"

fun gate_loop :: "'s peek_fn \<Rightarrow> budget_config \<Rightarrow> budget_probe \<Rightarrow> ms \<Rightarrow> 's \<Rightarrow> (budget_dim \<times> rat) list \<Rightarrow>
    budget_check_result option" where
  "gate_loop peek cfg p windowMs s [] = Some WITHIN_BUDGET"
| "gate_loop peek cfg p windowMs s ((d, capacity) # dims) =
     (case peek s (bp_keyId p) d capacity windowMs (bp_nowMs p) of
        None \<Rightarrow> None
      | Some r \<Rightarrow>
          if exhausted d (pk_remaining r) then
            Some \<lparr>overBudget = True, bg_limitedBy = Some d, behavior = bc_behavior (bp_caps p),
                  bg_degradeLane = Some (nullish (bc_degradeLane (bp_caps p)) (defaultDegradeLane cfg))\<rparr>
          else gate_loop peek cfg p windowMs s dims)"

definition gate_check :: "'s peek_fn \<Rightarrow> budget_config \<Rightarrow> budget_probe \<Rightarrow> 's \<Rightarrow> budget_check_result option" where
  "gate_check peek cfg p s =
     (let dims = activeDims (bp_caps p) in
      if dims = [] then Some WITHIN_BUDGET
      else gate_loop peek cfg p (windowMsFor (bp_caps p) cfg) s dims)"

subsection \<open>The settle\<close>

fun usage_amount :: "budget_usage \<Rightarrow> budget_dim \<Rightarrow> rat" where
  "usage_amount u Req = bu_requests u"
| "usage_amount u Tok = bu_tokens u"
| "usage_amount u Usd = nullish (bu_costUsd u) 0"

text \<open>A debit that throws rejects the settle; the dimensions after it are not debited.\<close>

fun settle_loop :: "'s debit_fn \<Rightarrow> string \<Rightarrow> ms \<Rightarrow> budget_usage \<Rightarrow> ms \<Rightarrow> (budget_dim \<times> rat) list \<Rightarrow> 's \<Rightarrow>
    unit option \<times> 's" where
  "settle_loop debit keyId windowMs u nowMs [] s = (Some (), s)"
| "settle_loop debit keyId windowMs u nowMs ((d, capacity) # dims) s =
     (case debit s keyId d capacity windowMs (usage_amount u d) nowMs of
        (None, s') \<Rightarrow> (None, s')
      | (Some _, s') \<Rightarrow> settle_loop debit keyId windowMs u nowMs dims s')"

definition settleBudget :: "'s debit_fn \<Rightarrow> budget_config \<Rightarrow> string \<Rightarrow> budget_caps \<Rightarrow> budget_usage \<Rightarrow> ms \<Rightarrow> 's \<Rightarrow>
    unit option \<times> 's" where
  "settleBudget debit cfg keyId caps u nowMs s =
     (let dims = activeDims caps in
      if dims = [] then (Some (), s)
      else settle_loop debit keyId (windowMsFor caps cfg) u nowMs dims s)"

subsection \<open>The SQLite store\<close>

type_synonym budget_rows = "string \<times> budget_dim \<rightharpoonup> bucket"

definition budget_row :: "budget_rows \<Rightarrow> string \<Rightarrow> budget_dim \<Rightarrow> rat \<Rightarrow> ms \<Rightarrow> bucket" where
  "budget_row rows keyId d capacity nowMs =
     (case rows (keyId, d) of Some row \<Rightarrow> row | None \<Rightarrow> full_bucket capacity nowMs)"

definition sqlite_peek :: "budget_rows peek_fn" where
  "sqlite_peek rows keyId d capacity windowMs nowMs =
     (let remaining = tokens (refill (budget_row rows keyId d capacity nowMs) capacity nowMs windowMs)
      in Some \<lparr>pk_remaining = remaining, pk_ok = remaining > 0\<rparr>)"

definition sqlite_change :: "budget_rows \<Rightarrow> string \<Rightarrow> budget_dim \<Rightarrow> rat \<Rightarrow> ms \<Rightarrow> rat \<Rightarrow> ms \<Rightarrow> bool \<Rightarrow>
    (rat \<times> bool) \<times> budget_rows" where
  "sqlite_change rows keyId d capacity windowMs amount nowMs requireAvailable =
     (let refilled = refill (budget_row rows keyId d capacity nowMs) capacity nowMs windowMs in
      if requireAvailable \<and> tokens refilled < amount then ((tokens refilled, False), rows)
      else
        let level = tokens refilled - amount
        in ((level, True), rows((keyId, d) \<mapsto> \<lparr>tokens = level, lastRefillMs = lastRefillMs refilled\<rparr>)))"

definition sqlite_debit :: "budget_rows debit_fn" where
  "sqlite_debit rows keyId d capacity windowMs amount nowMs =
     (let (r, rows') = sqlite_change rows keyId d capacity windowMs amount nowMs False
      in (Some (fst r), rows'))"

definition sqlite_reserveRequest :: "budget_rows \<Rightarrow> string \<Rightarrow> rat \<Rightarrow> ms \<Rightarrow> ms \<Rightarrow> bool \<times> budget_rows" where
  "sqlite_reserveRequest rows keyId capacity windowMs nowMs =
     (let (r, rows') = sqlite_change rows keyId Req capacity windowMs 1 nowMs True
      in (snd r, rows'))"

definition budget_level :: "budget_rows \<Rightarrow> string \<Rightarrow> budget_dim \<Rightarrow> bucket option" where
  "budget_level rows keyId d = rows (keyId, d)"

subsection \<open>The gate fails closed\<close>

lemma gate_loop_within:
  "(\<exists>r. gate_loop peek cfg p w s dims = Some r \<and> \<not> overBudget r) \<longleftrightarrow>
   (\<forall>(d, c)\<in>set dims. \<exists>r. peek s (bp_keyId p) d c w (bp_nowMs p) = Some r \<and> \<not> exhausted d (pk_remaining r))"
  by (induction peek cfg p w s dims rule: gate_loop.induct)
    (auto simp: WITHIN_BUDGET_def split: option.splits)

lemma gate_loop_first:
  "gate_loop peek cfg p w s dims = Some r \<Longrightarrow> overBudget r \<Longrightarrow>
   \<exists>pre d c post. dims = pre @ (d, c) # post \<and> bg_limitedBy r = Some d
     \<and> behavior r = bc_behavior (bp_caps p)
     \<and> (\<exists>x. peek s (bp_keyId p) d c w (bp_nowMs p) = Some x \<and> exhausted d (pk_remaining x))
     \<and> (\<forall>(d', c')\<in>set pre. \<exists>x. peek s (bp_keyId p) d' c' w (bp_nowMs p) = Some x \<and> \<not> exhausted d' (pk_remaining x))"
proof (induction dims)
  case Nil
  then show ?case by (auto simp: WITHIN_BUDGET_def)
next
  case (Cons dc dims)
  obtain d c where dc: "dc = (d, c)" by (cases dc)
  then obtain x where pk: "peek s (bp_keyId p) d c w (bp_nowMs p) = Some x"
    using Cons.prems(1) by (auto split: option.splits)
  show ?case
  proof (cases "exhausted d (pk_remaining x)")
    case True
    with Cons.prems dc pk show ?thesis by (intro exI [of _ "[]"]) auto
  next
    case False
    with Cons.prems dc pk Cons.IH obtain pre d' c' post where
      *: "dims = pre @ (d', c') # post" "bg_limitedBy r = Some d'" "behavior r = bc_behavior (bp_caps p)"
      "\<exists>x. peek s (bp_keyId p) d' c' w (bp_nowMs p) = Some x \<and> exhausted d' (pk_remaining x)"
      "\<forall>(d', c')\<in>set pre. \<exists>x. peek s (bp_keyId p) d' c' w (bp_nowMs p) = Some x \<and> \<not> exhausted d' (pk_remaining x)"
      by auto
    with False dc pk show ?thesis by (intro exI [of _ "(d, c) # pre"]) auto
  qed
qed

text \<open>
  The gate never passes a key silently: whatever the store does, a check answers "within
  budget" exactly when every capped dimension was read and has headroom (a whole unit for requests
  and tokens, a positive balance for spend). A key without caps passes without touching the store.
\<close>

theorem gate_fail_closed:
  "(\<exists>r. gate_check peek cfg p s = Some r \<and> \<not> overBudget r) \<longleftrightarrow>
   (\<forall>(d, c)\<in>set (activeDims (bp_caps p)).
      \<exists>r. peek s (bp_keyId p) d c (windowMsFor (bp_caps p) cfg) (bp_nowMs p) = Some r
          \<and> \<not> exhausted d (pk_remaining r))"
  using gate_loop_within [of peek cfg p "windowMsFor (bp_caps p) cfg" s "activeDims (bp_caps p)"]
  by (auto simp: gate_check_def Let_def WITHIN_BUDGET_def)

definition demo_caps :: budget_caps where
  "demo_caps = \<lparr>bc_requests = Some 2, bc_tokens = None, bc_spendUsd = Some (1/2),
     bc_windowSeconds = Some 3600, bc_behavior = Reject, bc_degradeLane = None\<rparr>"

definition demo_budget_cfg :: budget_config where
  "demo_budget_cfg = \<lparr>defaultWindowSeconds = 86400, defaultDegradeLane = ''economy''\<rparr>"

theorem gate_fail_closed_witness:
  "(\<exists>r. gate_check sqlite_peek demo_budget_cfg \<lparr>bp_keyId = ''k'', bp_caps = demo_caps, bp_nowMs = 5\<rparr> Map.empty = Some r
        \<and> \<not> overBudget r)"
  by (subst gate_fail_closed)
    (simp add: demo_caps_def activeDims_def active_dim_def sqlite_peek_def budget_row_def refill_def
      full_bucket_def exhausted_def Let_def)

subsection \<open>Serving under a budget\<close>

text \<open>
  Requests of one key served in sequence: the gate decides, a passed request is served and settled
  with its usage. The result is the list of the gate's passes.
\<close>

fun serve_all :: "'s peek_fn \<Rightarrow> 's debit_fn \<Rightarrow> budget_config \<Rightarrow> string \<Rightarrow> budget_caps \<Rightarrow>
    (ms \<times> budget_usage) list \<Rightarrow> 's \<Rightarrow> bool list" where
  "serve_all peek debit cfg k caps [] s = []"
| "serve_all peek debit cfg k caps ((t, u) # rest) s =
     (case gate_check peek cfg \<lparr>bp_keyId = k, bp_caps = caps, bp_nowMs = t\<rparr> s of
        Some r \<Rightarrow>
          if overBudget r then False # serve_all peek debit cfg k caps rest s
          else True # serve_all peek debit cfg k caps rest (snd (settleBudget debit cfg k caps u t s))
      | None \<Rightarrow> False # serve_all peek debit cfg k caps rest s)"

definition grants :: "rat \<Rightarrow> ms \<Rightarrow> ms \<Rightarrow> bucket \<Rightarrow> rat" where
  "grants c w h b = tokens b + of_int (max 0 (h - lastRefillMs b)) / of_int w * c"

locale budget_store =
  fixes peek :: "'s peek_fn" and debit :: "'s debit_fn"
    and level :: "'s \<Rightarrow> string \<Rightarrow> budget_dim \<Rightarrow> bucket option"
  assumes peek_level:
    "peek s k d c w t = Some r \<Longrightarrow>
       pk_remaining r = tokens (refill (nullish (level s k d) (full_bucket c t)) c t w)"
    and debit_level:
    "level (snd (debit s k d c w x t)) k' d' =
       (if k' = k \<and> d' = d
        then (let full = refill (nullish (level s k d) (full_bucket c t)) c t w
              in Some (full\<lparr>tokens := tokens full - x\<rparr>))
        else level s k' d')"
    and debit_ok: "fst (debit s k d c w x t) \<noteq> None"
begin

lemma settle_loop_level:
  assumes "distinct (map fst dims)"
  shows "level (snd (settle_loop debit k w u t dims s)) k d =
    (case map_of dims d of
       None \<Rightarrow> level s k d
     | Some c \<Rightarrow> (let full = refill (nullish (level s k d) (full_bucket c t)) c t w
                 in Some (full\<lparr>tokens := tokens full - usage_amount u d\<rparr>)))"
  using assms
proof (induction dims arbitrary: s)
  case Nil
  then show ?case by simp
next
  case (Cons dc dims)
  obtain d' c where dc: "dc = (d', c)" by (cases dc)
  obtain y s' where db: "debit s k d' c w (usage_amount u d') t = (Some y, s')"
    using debit_ok [of s k d' c w "usage_amount u d'" t] by (cases "debit s k d' c w (usage_amount u d') t") auto
  have lv: "level s' k d = (if d = d'
        then (let full = refill (nullish (level s k d) (full_bucket c t)) c t w
              in Some (full\<lparr>tokens := tokens full - usage_amount u d'\<rparr>))
        else level s k d)"
    using debit_level [of s k d' c w "usage_amount u d'" t k d] db by (auto simp: Let_def)
  have "map_of dims d' = None" using Cons.prems dc by (simp add: map_of_eq_None_iff)
  with Cons.IH [of s'] Cons.prems dc db lv show ?case by (auto simp: Let_def split: option.split)
qed

lemma activeDims_distinct: "distinct (map fst (activeDims caps))"
  by (auto simp: activeDims_def active_dim_def split: option.split)

lemma activeDims_req: "0 < c \<Longrightarrow> bc_requests caps = Some c \<Longrightarrow> map_of (activeDims caps) Req = Some c"
  by (simp add: activeDims_def active_dim_def)

text \<open>A passed gate followed by a one-request settle is one accepted consume of the request bucket.\<close>

lemma gate_settle_consume:
  assumes "0 < c" and "bc_requests caps = Some c"
    and gate: "gate_check peek cfg \<lparr>bp_keyId = k, bp_caps = caps, bp_nowMs = t\<rparr> s = Some r" "\<not> overBudget r"
    and one: "bu_requests u = 1"
  defines "res \<equiv> tryConsume (nullish (level s k Req) (full_bucket c t)) c 1 t (windowMsFor caps cfg)"
  shows "cr_ok res \<and> level (snd (settleBudget debit cfg k caps u t s)) k Req = Some (cr_state res)"
proof -
  have "(Req, c) \<in> set (activeDims caps)" using assms(1,2) by (simp add: activeDims_def active_dim_def)
  with gate gate_fail_closed [of peek cfg "\<lparr>bp_keyId = k, bp_caps = caps, bp_nowMs = t\<rparr>" s]
  obtain x where "peek s k Req c (windowMsFor caps cfg) t = Some x" "\<not> exhausted Req (pk_remaining x)"
    by fastforce
  then have ok: "cr_ok res"
    using peek_level by (fastforce simp: exhausted_def res_def tryConsume_simps)
  have "level (snd (settleBudget debit cfg k caps u t s)) k Req = Some (cr_state res)"
    using settle_loop_level [OF activeDims_distinct, of k "windowMsFor caps cfg" u t caps s Req]
      activeDims_req [OF assms(1,2)] ok one
    by (auto simp: settleBudget_def Let_def res_def tryConsume_simps)
  with ok show ?thesis by simp
qed

text \<open>
  What a bucket can grant from \<open>t0\<close> up to \<open>h\<close>, whatever it holds: its level may be negative after an overspend, and
  it may have been written at any instant.
\<close>

lemma grants_refill:
  assumes "0 < c" and "0 < w" and "t \<le> h"
  shows "grants c w h (refill b c t w) \<le> grants c w h b"
proof (cases "t \<le> lastRefillMs b")
  case False
  with assms inflow_add [of h "lastRefillMs b" w c t] show ?thesis by (simp add: grants_def refill_future)
qed (use assms in \<open>simp add: refill_past\<close>)

lemma serve_bound:
  assumes c: "0 < c" "bc_requests caps = Some c" and w: "0 < windowMsFor caps cfg"
  shows "\<forall>(t, u)\<in>set rs. t0 \<le> t \<and> t \<le> h \<and> bu_requests u = 1 \<Longrightarrow>
     of_nat (length (filter id (serve_all peek debit cfg k caps rs s)))
       \<le> max 0 (grants c (windowMsFor caps cfg) h
                  (refill (nullish (level s k Req) (full_bucket c t0)) c t0 (windowMsFor caps cfg)))"
proof (induction rs arbitrary: s)
  case (Cons tu rs)
  obtain t u where tu: "tu = (t, u)" by (cases tu)
  let ?w = "windowMsFor caps cfg"
  let ?b = "\<lambda>s. refill (nullish (level s k Req) (full_bucket c t0)) c t0 ?w"
  show ?case
  proof (cases "\<exists>r. gate_check peek cfg \<lparr>bp_keyId = k, bp_caps = caps, bp_nowMs = t\<rparr> s = Some r \<and> \<not> overBudget r")
    case False
    then have "serve_all peek debit cfg k caps (tu # rs) s = False # serve_all peek debit cfg k caps rs s"
      by (auto simp: tu split: option.split)
    with Cons show ?thesis by simp
  next
    case True
    then obtain r where gate: "gate_check peek cfg \<lparr>bp_keyId = k, bp_caps = caps, bp_nowMs = t\<rparr> s = Some r"
      "\<not> overBudget r" by blast
    let ?s = "snd (settleBudget debit cfg k caps u t s)"
    from Cons.prems tu have u: "bu_requests u = 1" and t: "t0 \<le> t" "t \<le> h" by auto
    let ?full = "refill (nullish (level s k Req) (full_bucket c t)) c t ?w"
    have lv: "level ?s k Req = Some (?full\<lparr>tokens := tokens ?full - 1\<rparr>)" and one: "1 \<le> tokens ?full"
      using gate_settle_consume [OF c gate u] by (auto simp: tryConsume_simps split: if_splits)
    have late: "t0 \<le> lastRefillMs ?full" using t c(1) by (simp add: refill_clock)
    have "grants c ?w h ?full \<le> grants c ?w h (?b s)"
    proof (cases "level s k Req")
      case None
      have "grants c ?w h (full_bucket c t) \<le> grants c ?w h (full_bucket c t0)"
        using t c(1) w by (auto simp: grants_def full_bucket_def intro!: mult_right_mono divide_right_mono)
      with None c(1) show ?thesis by (simp add: nullish_def refill_past full_bucket_def)
    next
      case (Some b)
      with refill_path_independent [OF c(1) w t(1), of b] grants_refill [OF c(1) w t(2), of "refill b c t0 ?w"]
      show ?thesis by (simp add: nullish_def)
    qed
    moreover have "grants c ?w h (?b ?s) = grants c ?w h ?full - 1"
      using late c(1) by (simp add: lv nullish_def refill_past grants_def)
    moreover have "0 \<le> grants c ?w h ?full - 1"
      using one c(1) w by (simp add: grants_def add_nonneg_nonneg le_diff_eq add_increasing2)
    ultimately show ?thesis using Cons.IH [of ?s] Cons.prems by (auto simp: tu gate)
  qed
qed simp

end

interpretation sqlite_budget: budget_store sqlite_peek sqlite_debit budget_level
  by unfold_locales
    (auto simp: sqlite_peek_def sqlite_debit_def sqlite_change_def budget_level_def budget_row_def Let_def
      nullish_def split: option.split)

text \<open>
  C36. A request budget of \<open>c\<close> per window holds over any interval, from any stored state and whatever the key's other
  caps do: the requests of the key served one after another from \<open>t0\<close> to \<open>h\<close>, each counted once, are at most the
  balance the store reads at \<open>t0\<close> plus what the rolling window refills meanwhile (none when that is negative after
  an overspend), and that balance is at most \<open>c\<close>, however long the key was idle, unless the stored row is
  from before a lowering of the cap and was last written at \<open>t0\<close> or later.
\<close>

theorem request_budget_bound:
  assumes "0 < c" and "bc_requests caps = Some c" and "0 < windowMsFor caps cfg"
    and "sqlite_peek rows k Req c (windowMsFor caps cfg) t0 = Some p"
    and "\<forall>(t, u)\<in>set rs. t0 \<le> t \<and> t \<le> h \<and> bu_requests u = 1" and "t0 \<le> h"
  shows "of_nat (length (filter id (serve_all sqlite_peek sqlite_debit cfg k caps rs rows)))
           \<le> max 0 (pk_remaining p + of_int (h - t0) / of_int (windowMsFor caps cfg) * c) \<and>
         (pk_remaining p \<le> c \<or> (\<exists>b. rows (k, Req) = Some b \<and> c < tokens b \<and> t0 \<le> lastRefillMs b))"
proof -
  let ?w = "windowMsFor caps cfg"
  let ?b = "refill (nullish (budget_level rows k Req) (full_bucket c t0)) c t0 ?w"
  have p: "pk_remaining p = tokens ?b"
    using assms(4) by (auto simp: sqlite_peek_def budget_row_def budget_level_def nullish_def Let_def)
  have "t0 \<le> lastRefillMs ?b" using assms(1) by (simp add: refill_clock)
  then have "of_int (max 0 (h - lastRefillMs ?b)) / of_int ?w * c \<le> of_int (h - t0) / of_int ?w * c"
    using assms(1,3,6) by (intro mult_right_mono divide_right_mono) auto
  then have g: "grants c ?w h ?b \<le> pk_remaining p + of_int (h - t0) / of_int ?w * c" by (simp add: grants_def p)
  have "tokens ?b \<le> c \<or> (\<exists>b. rows (k, Req) = Some b \<and> c < tokens b \<and> t0 \<le> lastRefillMs b)"
    using assms(1) by (auto simp: budget_level_def nullish_def full_bucket_def refill_def Let_def split: option.splits)
  with sqlite_budget.serve_bound [OF assms(1-3,5), of k rows] g show ?thesis by (auto simp: p)
qed

text \<open>A key that overspent nine requests and is read three hours into a window of an hour and two requests.\<close>

theorem request_budget_bound_witness:
  "of_nat (length (filter id (serve_all sqlite_peek sqlite_debit demo_budget_cfg ''k'' demo_caps
       [(10800000, \<lparr>bu_requests = 1, bu_tokens = 9, bu_costUsd = None\<rparr>),
        (10860000, \<lparr>bu_requests = 1, bu_tokens = 9, bu_costUsd = Some 1\<rparr>)]
       [(''k'', Req) \<mapsto> \<lparr>tokens = - 5, lastRefillMs = 0\<rparr>])))
     \<le> max 0 (1 + of_int (10860000 - 10800000) / of_int (windowMsFor demo_caps demo_budget_cfg) * (2::rat))"
proof -
  let ?rows = "[(''k'', Req) \<mapsto> \<lparr>tokens = - 5, lastRefillMs = 0\<rparr>]"
  have w: "windowMsFor demo_caps demo_budget_cfg = 3600000"
    by (simp add: demo_caps_def demo_budget_cfg_def windowMsFor_def nullish_def)
  have "sqlite_peek ?rows ''k'' Req 2 3600000 10800000 = Some \<lparr>pk_remaining = 1, pk_ok = True\<rparr>"
    by (simp add: sqlite_peek_def budget_row_def refill_def Let_def)
  from request_budget_bound [of 2 demo_caps demo_budget_cfg, unfolded w, OF _ _ _ this, where h = 10860000, THEN conjunct1]
  show ?thesis unfolding w by (rule order_trans) (simp_all add: demo_caps_def)
qed

text \<open>
  What is settled is what the next check sees: after a settle at instant \<open>t\<close> the balance of a
  capped dimension is the refilled balance before it minus the actual usage (an unmeasured cost
  counts 0), with no floor at zero, and a check at the same instant reads exactly that balance.
\<close>

theorem settle_then_peek:
  assumes "(d, c) \<in> set (activeDims caps)" and "0 < c"
  shows "sqlite_peek (snd (settleBudget sqlite_debit cfg k caps u t rows)) k d c (windowMsFor caps cfg) t
     = map_option (\<lambda>r. let x = pk_remaining r - usage_amount u d in \<lparr>pk_remaining = x, pk_ok = x > 0\<rparr>)
         (sqlite_peek rows k d c (windowMsFor caps cfg) t)"
proof -
  have m: "map_of (activeDims caps) d = Some c"
    using assms(1) sqlite_budget.activeDims_distinct by (simp add: map_of_is_SomeI)
  let ?full = "refill (nullish (budget_level rows k d) (full_bucket c t)) c t (windowMsFor caps cfg)"
  have row: "budget_row rs k d c t = nullish (budget_level rs k d) (full_bucket c t)" for rs
    by (simp add: budget_row_def budget_level_def nullish_def)
  have "activeDims caps \<noteq> []" using assms(1) by auto
  with sqlite_budget.settle_loop_level [OF sqlite_budget.activeDims_distinct, of k "windowMsFor caps cfg" u t caps rows d] m
  have "budget_level (snd (settleBudget sqlite_debit cfg k caps u t rows)) k d
      = Some (?full\<lparr>tokens := tokens ?full - usage_amount u d\<rparr>)"
    by (simp add: settleBudget_def Let_def)
  moreover have "t \<le> lastRefillMs ?full" using assms(2) by (simp add: refill_clock)
  ultimately show ?thesis
    using assms(2) by (simp add: sqlite_peek_def row refill_past Let_def)
qed

theorem settle_then_peek_witness:
  "sqlite_peek (snd (settleBudget sqlite_debit demo_budget_cfg ''k'' demo_caps
       \<lparr>bu_requests = 1, bu_tokens = 9, bu_costUsd = Some 3\<rparr> 7 Map.empty)) ''k'' Usd (1/2)
       (windowMsFor demo_caps demo_budget_cfg) 7
     = map_option (\<lambda>r. let x = pk_remaining r - usage_amount \<lparr>bu_requests = 1, bu_tokens = 9, bu_costUsd = Some 3\<rparr> Usd
          in \<lparr>pk_remaining = x, pk_ok = x > 0\<rparr>)
         (sqlite_peek Map.empty ''k'' Usd (1/2) (windowMsFor demo_caps demo_budget_cfg) 7)"
  by (rule settle_then_peek) (simp_all add: demo_caps_def activeDims_def active_dim_def)

subsection \<open>Hard reservations\<close>

lemma reserve_consume:
  defines "res \<equiv> \<lambda>rows k c w t. tryConsume (nullish (budget_level rows k Req) (full_bucket c t)) c 1 t w"
  shows "sqlite_reserveRequest rows k c w t =
     (if cr_ok (res rows k c w t) then (True, rows((k, Req) \<mapsto> cr_state (res rows k c w t))) else (False, rows))"
proof -
  have row: "budget_row rows k Req c t = nullish (budget_level rows k Req) (full_bucket c t)"
    by (simp add: budget_row_def budget_level_def nullish_def)
  show ?thesis
    by (cases "refill (budget_row rows k Req c t) c t w")
      (auto simp: sqlite_reserveRequest_def sqlite_change_def res_def tryConsume_simps row Let_def)
qed

fun reserve_all :: "string \<Rightarrow> rat \<Rightarrow> ms \<Rightarrow> ms list \<Rightarrow> budget_rows \<Rightarrow> bool list" where
  "reserve_all k c w [] rows = []"
| "reserve_all k c w (t # ts) rows =
     (let (ok, rows') = sqlite_reserveRequest rows k c w t in ok # reserve_all k c w ts rows')"

text \<open>
  Hard reservations never overdraw: over any interval at most the budget plus its refill is
  reserved, and a refused reservation leaves the stored row as it was.
\<close>

theorem reserve_bound:
  assumes c: "0 < c" and w: "0 < w" and t0: "t0 \<le> h"
    and ok: "level_ok c h (budget_level rows k Req)" and ts: "\<forall>t\<in>set ts. t0 \<le> t \<and> t \<le> h"
  shows "of_nat (length (filter id (reserve_all k c w ts rows)))
           \<le> level_potential c w t0 h (budget_level rows k Req)
    \<and> (\<forall>t. fst (sqlite_reserveRequest rows k c w t) \<or> snd (sqlite_reserveRequest rows k c w t) = rows)"
proof -
  have "of_nat (length (filter id (reserve_all k c w ts rows)))
           \<le> level_potential c w t0 h (budget_level rows k Req)"
    using ok ts
  proof (induction ts arbitrary: rows)
    case Nil
    then show ?case using level_potential_nonneg [OF c w t0] by simp
  next
    case (Cons t ts)
    obtain b rows' where r: "sqlite_reserveRequest rows k c w t = (b, rows')"
      by (cases "sqlite_reserveRequest rows k c w t")
    let ?res = "tryConsume (nullish (budget_level rows k Req) (full_bucket c t)) c 1 t w"
    from Cons.prems(2) have "t0 \<le> t" "t \<le> h" by auto
    note lc = level_consume [OF c w _ Cons.prems(1) this, of 1]
    show ?case
    proof (cases "cr_ok ?res")
      case True
      with r have "b" "budget_level rows' k Req = Some (cr_state ?res)"
        by (auto simp: reserve_consume budget_level_def)
      with True lc Cons.IH [of rows'] Cons.prems(2) r show ?thesis by simp
    next
      case False
      with r have "\<not> b" "rows' = rows" by (auto simp: reserve_consume)
      with r Cons show ?thesis by simp
    qed
  qed
  then show ?thesis by (auto simp: reserve_consume)
qed

theorem reserve_bound_witness:
  "of_nat (length (filter id (reserve_all ''k'' 2 60000 [0, 1, 1, 5] Map.empty)))
           \<le> level_potential 2 60000 0 5 (budget_level Map.empty ''k'' Req)
    \<and> (\<forall>t. fst (sqlite_reserveRequest Map.empty ''k'' 2 60000 t)
          \<or> snd (sqlite_reserveRequest Map.empty ''k'' 2 60000 t) = Map.empty)"
  by (rule reserve_bound) (simp_all add: level_ok_def budget_level_def)

end
