(* ===== verification/Keyed_Semaphore.thy ===== *)
theory Keyed_Semaphore
  imports Prelude
begin

text \<open>
  \<open>packages/core/src/queue/keyed-semaphore.ts\<close>: the per-key counting semaphore with a FIFO
  overflow queue. Promises, timers and abort listeners are explicit: a queued acquire is a waiter
  with an identity, \<open>armed\<close> holds the waiters whose timer and abort listener are live (what
  \<open>cleanup\<close> removes), \<open>outcomes\<close> what their promises resolved to, and \<open>leases\<close> the release
  closures with their \<open>released\<close> flag. When a timer fires is the environment's choice.
\<close>

subsection \<open>State\<close>

datatype fail_reason = Queue_full | Timed_out | Aborted

datatype acquire_result = Lease nat | Unlimited | Refused fail_reason

text \<open>An acquire answers at once, or leaves a waiter whose promise is still pending.\<close>

datatype acquire_reply = Now acquire_result | Pending nat

record acquire_args =
  acq_key :: string
  acq_limit :: "int option"
  acq_maxQueue :: int
  acq_aborted :: bool
  acq_maxHoldMs :: "ms option"

record sem_waiter =
  w_id :: nat
  w_maxHoldMs :: ms

record sem_entry =
  active :: int
  waiters :: "sem_waiter list"

record sem_lease =
  l_key :: string
  l_released :: bool
  l_watchdog :: bool

record sem =
  sem_entries :: "string \<rightharpoonup> sem_entry"
  sem_leases :: "nat \<rightharpoonup> sem_lease"
  sem_armed :: "nat \<rightharpoonup> string"
  sem_outcomes :: "nat \<rightharpoonup> acquire_result"
  sem_fresh :: nat

definition DEFAULT_MAX_HOLD_MS :: ms where
  "DEFAULT_MAX_HOLD_MS = 300000"

definition createKeyedSemaphore :: sem where
  "createKeyedSemaphore = \<lparr>sem_entries = Map.empty, sem_leases = Map.empty, sem_armed = Map.empty,
     sem_outcomes = Map.empty, sem_fresh = 0\<rparr>"

subsection \<open>Operations\<close>

definition set_entry :: "string \<Rightarrow> sem_entry \<Rightarrow> sem \<Rightarrow> sem" where
  "set_entry k e s = s\<lparr>sem_entries := (sem_entries s)(k \<mapsto> e)\<rparr>"

definition gcIfIdle :: "string \<Rightarrow> sem \<Rightarrow> sem" where
  "gcIfIdle k s =
     (case sem_entries s k of
        Some e \<Rightarrow> (if active e \<le> 0 \<and> waiters e = [] then s\<lparr>sem_entries := (sem_entries s)(k := None)\<rparr> else s)
      | None \<Rightarrow> s)"

text \<open>A promise resolves once; later \<open>resolve\<close> calls are no-ops.\<close>

definition resolve :: "nat \<Rightarrow> acquire_result \<Rightarrow> sem \<Rightarrow> sem" where
  "resolve w r s =
     (case sem_outcomes s w of
        None \<Rightarrow> s\<lparr>sem_outcomes := (sem_outcomes s)(w \<mapsto> r)\<rparr>
      | Some _ \<Rightarrow> s)"

definition cleanup :: "nat \<Rightarrow> sem \<Rightarrow> sem" where
  "cleanup w s = s\<lparr>sem_armed := (sem_armed s)(w := None)\<rparr>"

definition grantLease :: "string \<Rightarrow> ms \<Rightarrow> sem \<Rightarrow> nat \<times> sem" where
  "grantLease k maxHoldMs s =
     (let l = sem_fresh s
      in (l, s\<lparr>sem_leases := (sem_leases s)(l \<mapsto> \<lparr>l_key = k, l_released = False, l_watchdog = (maxHoldMs > 0)\<rparr>),
               sem_fresh := Suc l\<rparr>))"

definition handoff :: "string \<Rightarrow> sem \<Rightarrow> sem" where
  "handoff k s =
     (case sem_entries s k of
        None \<Rightarrow> s
      | Some e \<Rightarrow>
          (case waiters e of
             next # rest \<Rightarrow>
               let s1 = cleanup (w_id next) (set_entry k (e\<lparr>waiters := rest\<rparr>) s);
                   (l, s2) = grantLease k (w_maxHoldMs next) s1
               in resolve (w_id next) (Lease l) s2
           | [] \<Rightarrow> gcIfIdle k (set_entry k (e\<lparr>active := active e - 1\<rparr>) s)))"

text \<open>The \<open>release\<close> closure of a lease; its watchdog timer calls the same closure.\<close>

definition release :: "nat \<Rightarrow> sem \<Rightarrow> sem" where
  "release l s =
     (case sem_leases s l of
        None \<Rightarrow> s
      | Some x \<Rightarrow>
          if l_released x then s
          else handoff (l_key x)
                 (s\<lparr>sem_leases := (sem_leases s)(l \<mapsto> x\<lparr>l_released := True, l_watchdog := False\<rparr>)\<rparr>))"

definition watchdog :: "nat \<Rightarrow> sem \<Rightarrow> sem" where
  "watchdog l s =
     (case sem_leases s l of
        Some x \<Rightarrow> if l_watchdog x then release l s else s
      | None \<Rightarrow> s)"

definition sem_acquire :: "acquire_args \<Rightarrow> sem \<Rightarrow> acquire_reply \<times> sem" where
  "sem_acquire a s =
     (case acq_limit a of
        None \<Rightarrow> (Now Unlimited, s)
      | Some limit \<Rightarrow>
          if limit \<le> 0 then (Now Unlimited, s)
          else if acq_aborted a then (Now (Refused Aborted), s)
          else
            let k = acq_key a;
                maxHoldMs = nullish (acq_maxHoldMs a) DEFAULT_MAX_HOLD_MS;
                e = (case sem_entries s k of Some e \<Rightarrow> e | None \<Rightarrow> \<lparr>active = 0, waiters = []\<rparr>);
                s1 = set_entry k e s
            in if active e < limit then
                 let (l, s2) = grantLease k maxHoldMs (set_entry k (e\<lparr>active := active e + 1\<rparr>) s1)
                 in (Now (Lease l), s2)
               else if int (length (waiters e)) \<ge> acq_maxQueue a then (Now (Refused Queue_full), s1)
               else
                 let w = sem_fresh s1
                 in (Pending w,
                     (set_entry k (e\<lparr>waiters := waiters e @ [\<lparr>w_id = w, w_maxHoldMs = maxHoldMs\<rparr>]\<rparr>) s1)
                       \<lparr>sem_armed := (sem_armed s1)(w \<mapsto> k), sem_fresh := Suc w\<rparr>))"

text \<open>
  \<open>fail\<close> of a queued waiter (timer or abort listener). A waiter's identity is unique, so splicing
  it out is filtering by identity. Once \<open>cleanup\<close> ran, neither timer nor listener can call it.
\<close>

definition sem_fail :: "fail_reason \<Rightarrow> nat \<Rightarrow> sem \<Rightarrow> sem" where
  "sem_fail why w s =
     (case sem_armed s w of
        None \<Rightarrow> s
      | Some k \<Rightarrow>
          let s1 = (case sem_entries s k of
                      Some e \<Rightarrow> set_entry k (e\<lparr>waiters := filter (\<lambda>x. w_id x \<noteq> w) (waiters e)\<rparr>) s
                    | None \<Rightarrow> s)
          in resolve w (Refused why) (gcIfIdle k (cleanup w s1)))"

definition inFlight :: "string \<Rightarrow> sem \<Rightarrow> int" where
  "inFlight k s = (case sem_entries s k of Some e \<Rightarrow> active e | None \<Rightarrow> 0)"

definition queued :: "string \<Rightarrow> sem \<Rightarrow> int" where
  "queued k s = (case sem_entries s k of Some e \<Rightarrow> int (length (waiters e)) | None \<Rightarrow> 0)"

subsection \<open>Histories\<close>

datatype sem_event =
    Acquire acquire_args
  | Release nat
  | Watchdog nat
  | Expire nat
  | Abort_signal nat

fun sem_step :: "sem \<Rightarrow> sem_event \<Rightarrow> sem" where
  "sem_step s (Acquire a) = snd (sem_acquire a s)"
| "sem_step s (Release l) = release l s"
| "sem_step s (Watchdog l) = watchdog l s"
| "sem_step s (Expire w) = sem_fail Timed_out w s"
| "sem_step s (Abort_signal w) = sem_fail Aborted w s"

definition sem_run :: "sem \<Rightarrow> sem_event list \<Rightarrow> sem" where
  "sem_run = foldl sem_step"

lemma sem_run_simps [simp]:
  "sem_run s [] = s" "sem_run s (e # es) = sem_run (sem_step s e) es"
  "sem_run s (es @ es') = sem_run (sem_run s es) es'"
  by (simp_all add: sem_run_def)

lemmas sem_defs = set_entry_def gcIfIdle_def resolve_def cleanup_def grantLease_def

subsection \<open>The ledger: active counts and unreleased leases\<close>

definition live :: "sem \<Rightarrow> string \<Rightarrow> nat set" where
  "live s k = {l. \<exists>x. sem_leases s l = Some x \<and> l_key x = k \<and> \<not> l_released x}"

definition leases_ok :: "sem \<Rightarrow> bool" where
  "leases_ok s \<longleftrightarrow> (\<forall>l x. sem_leases s l = Some x \<longrightarrow> l < sem_fresh s)"

definition entries_ok :: "sem \<Rightarrow> bool" where
  "entries_ok s \<longleftrightarrow> (\<forall>k e. sem_entries s k = Some e \<longrightarrow> 0 < active e)"

definition ledger :: "sem \<Rightarrow> bool" where
  "ledger s \<longleftrightarrow> leases_ok s \<and> entries_ok s \<and> (\<forall>k. inFlight k s = int (card (live s k)))"

lemma live_finite: "leases_ok s \<Longrightarrow> finite (live s k)"
  by (rule finite_subset [of _ "{..<sem_fresh s}"]) (auto simp: live_def leases_ok_def)

lemma live_simps [simp]:
  "live (set_entry k e s) = live s" "live (cleanup w s) = live s" "live (gcIfIdle k s) = live s"
  "live (resolve w r s) = live s" "live (s\<lparr>sem_armed := a, sem_fresh := n\<rparr>) = live s"
  by (auto simp: live_def fun_eq_iff sem_defs split: option.split)

lemma leases_ok_simps [simp]:
  "leases_ok (set_entry k e s) = leases_ok s" "leases_ok (cleanup w s) = leases_ok s"
  "leases_ok (gcIfIdle k s) = leases_ok s" "leases_ok (resolve w r s) = leases_ok s"
  by (auto simp: leases_ok_def sem_defs split: option.split)

lemma entries_simps [simp]:
  "sem_entries (set_entry k e s) = (sem_entries s)(k \<mapsto> e)"
  "sem_entries (cleanup w s) = sem_entries s" "sem_entries (resolve w r s) = sem_entries s"
  "sem_entries (snd (grantLease k h s)) = sem_entries s" "sem_fresh (set_entry k e s) = sem_fresh s"
  by (auto simp: sem_defs Let_def split: option.split)

lemma grant_live:
  "leases_ok s \<Longrightarrow> live (snd (grantLease k h s)) k' = (if k' = k then insert (sem_fresh s) (live s k) else live s k')"
  by (auto simp: live_def grantLease_def Let_def leases_ok_def split: if_splits)

lemma fresh_not_live: "leases_ok s \<Longrightarrow> sem_fresh s \<notin> live s k"
  by (auto simp: leases_ok_def live_def)

lemma grant_card:
  assumes "leases_ok s"
  shows "card (live (snd (grantLease k h s)) k') = card (live s k') + (if k' = k then 1 else 0)"
  unfolding grant_live [OF assms] using live_finite [OF assms] fresh_not_live [OF assms] by simp

lemma grant_leases_ok: "leases_ok s \<Longrightarrow> leases_ok (snd (grantLease k h s))"
  by (auto simp: leases_ok_def grantLease_def Let_def less_Suc_eq)

lemma inFlight_gc: "inFlight k' (gcIfIdle k s) = (if k' = k then
    (case sem_entries s k of Some e \<Rightarrow> if active e \<le> 0 \<and> waiters e = [] then 0 else active e | None \<Rightarrow> 0)
    else inFlight k' s)"
  by (auto simp: inFlight_def gcIfIdle_def split: option.split)

text \<open>
  Handing a slot on: the FIFO head receives a lease and the count stays, or the count drops. Either
  way the ledger of a state in which one lease was just released is restored.
\<close>

lemma handoff_ledger:
  assumes l: "leases_ok s" and e: "entries_ok s"
    and at: "inFlight k s = int (card (live s k)) + 1"
    and other: "\<And>k'. k' \<noteq> k \<Longrightarrow> inFlight k' s = int (card (live s k'))"
  shows "ledger (handoff k s)"
proof (cases "sem_entries s k")
  case None
  with at show ?thesis by (simp add: inFlight_def)
next
  case (Some x)
  show ?thesis
  proof (cases "waiters x")
    case Nil
    have "0 \<le> int (card (live s k))" by simp
    with Nil Some l e at other show ?thesis
      by (auto simp: handoff_def ledger_def entries_ok_def inFlight_gc)
        (auto simp: inFlight_def gcIfIdle_def split: if_splits option.splits)
  next
    case (Cons w ws)
    let ?s1 = "cleanup (w_id w) (set_entry k (x\<lparr>waiters := ws\<rparr>) s)"
    let ?s2 = "snd (grantLease k (w_maxHoldMs w) ?s1)"
    have h: "handoff k s = resolve (w_id w) (Lease (sem_fresh ?s1)) ?s2"
      using Cons Some by (simp add: handoff_def grantLease_def Let_def)
    have "inFlight k' ?s2 = inFlight k' s" for k'
      using Some by (simp add: inFlight_def)
    with at other grant_card [of ?s1 k "w_maxHoldMs w"] l
    have "inFlight k' ?s2 = int (card (live ?s2 k'))" for k' by (cases "k' = k") simp_all
    moreover have "entries_ok ?s2" using e Some by (auto simp: entries_ok_def)
    moreover have "leases_ok ?s2" using l by (simp add: grant_leases_ok)
    ultimately show ?thesis by (simp add: h ledger_def entries_ok_def inFlight_def)
  qed
qed

lemma release_ledger [helm_inv]:
  assumes "ledger s"
  shows "ledger (release l s)"
proof (cases "\<exists>x. sem_leases s l = Some x \<and> \<not> l_released x")
  case False
  with assms show ?thesis by (auto simp: release_def split: option.split)
next
  case True
  then obtain x where x: "sem_leases s l = Some x" "\<not> l_released x" by blast
  let ?s = "s\<lparr>sem_leases := (sem_leases s)(l \<mapsto> x\<lparr>l_released := True, l_watchdog := False\<rparr>)\<rparr>"
  from assms have ok: "leases_ok s" "entries_ok s" and led: "\<And>k. inFlight k s = int (card (live s k))"
    by (auto simp: ledger_def)
  have live: "live ?s k = (if k = l_key x then live s k - {l} else live s k)" for k
    using x by (auto simp: live_def)
  have "l \<in> live s (l_key x)" using x by (auto simp: live_def)
  with live_finite [OF ok(1)] have "card (live s (l_key x)) = card (live s (l_key x) - {l}) + 1"
    by (metis Suc_eq_plus1 card_Suc_Diff1)
  with led [of "l_key x"] live have at: "inFlight (l_key x) ?s = int (card (live ?s (l_key x))) + 1"
    by (simp add: inFlight_def)
  have "ledger (handoff (l_key x) ?s)"
  proof (rule handoff_ledger [OF _ _ at])
    show "leases_ok ?s" using ok(1) x by (auto simp: leases_ok_def)
    show "entries_ok ?s" using ok(2) by (simp add: entries_ok_def)
    show "inFlight k' ?s = int (card (live ?s k'))" if "k' \<noteq> l_key x" for k'
      using that led [of k'] live [of k'] by (simp add: inFlight_def)
  qed
  with x show ?thesis by (simp add: release_def)
qed

lemma watchdog_ledger [helm_inv]: "ledger s \<Longrightarrow> ledger (watchdog l s)"
  by (auto simp: watchdog_def intro: release_ledger split: option.split)

text \<open>The outcomes of an acquire, one per return statement.\<close>

lemma acquire_cases:
  fixes a :: acquire_args
  defines "k \<equiv> acq_key a" and "h \<equiv> nullish (acq_maxHoldMs a) DEFAULT_MAX_HOLD_MS"
  assumes pos: "entries_ok s"
  obtains
    (idle) r where "sem_acquire a s = (Now r, s)" "r = Unlimited \<or> r = Refused Aborted \<or> r = Refused Queue_full"
  | (granted) e limit where "acq_limit a = Some limit" "active e < limit" "0 \<le> active e"
      "sem_entries s k = Some e \<or> sem_entries s k = None \<and> e = \<lparr>active = 0, waiters = []\<rparr>"
      "sem_acquire a s = (Now (Lease (sem_fresh s)), snd (grantLease k h (set_entry k (e\<lparr>active := active e + 1\<rparr>) s)))"
  | (queued) e limit where "acq_limit a = Some limit" "limit \<le> active e" "0 < limit"
      "sem_entries s k = Some e" "int (length (waiters e)) < acq_maxQueue a"
      "sem_acquire a s = (Pending (sem_fresh s),
         (set_entry k (e\<lparr>waiters := waiters e @ [\<lparr>w_id = sem_fresh s, w_maxHoldMs = h\<rparr>]\<rparr>) s)
           \<lparr>sem_armed := (sem_armed s)(sem_fresh s \<mapsto> k), sem_fresh := Suc (sem_fresh s)\<rparr>)"
proof (cases "acq_limit a")
  case None
  show thesis by (rule idle [of Unlimited]) (simp_all add: sem_acquire_def None)
next
  case (Some limit)
  note lim = Some
  show thesis
  proof (cases "limit \<le> 0 \<or> acq_aborted a")
    case True
    then show thesis
      by (intro idle [of "if limit \<le> 0 then Unlimited else Refused Aborted"]) (auto simp: sem_acquire_def lim)
  next
    case False
    show thesis
    proof (cases "sem_entries s k")
      case None
      show thesis
        by (rule granted [of limit "\<lparr>active = 0, waiters = []\<rparr>"])
          (use False lim None in \<open>simp_all add: sem_acquire_def grantLease_def Let_def set_entry_def flip: k_def h_def\<close>)
    next
      case (Some e)
      with pos have act: "0 < active e" by (auto simp: entries_ok_def)
      have same: "set_entry k e s = s" using Some by (simp add: set_entry_def fun_upd_idem)
      consider "active e < limit" | "limit \<le> active e" "acq_maxQueue a \<le> int (length (waiters e))"
        | "limit \<le> active e" "int (length (waiters e)) < acq_maxQueue a" by linarith
      then show thesis
      proof cases
        case 1
        show thesis
          by (rule granted [of limit e])
            (use 1 False lim Some act same in \<open>simp_all add: sem_acquire_def grantLease_def Let_def flip: k_def h_def\<close>)
      next
        case 2
        show thesis
          by (rule idle [of "Refused Queue_full"])
            (use 2 False lim Some same in \<open>simp_all add: sem_acquire_def Let_def flip: k_def h_def\<close>)
      next
        case 3
        show thesis
          by (rule queued [of limit e])
            (use 3 False lim Some same in \<open>simp_all add: sem_acquire_def Let_def flip: k_def h_def\<close>)
      qed
    qed
  qed
qed

lemma grant_ledger:
  assumes "ledger s" and "inFlight k s = active e" and "0 \<le> active e"
  shows "ledger (snd (grantLease k h (set_entry k (e\<lparr>active := active e + 1\<rparr>) s)))"
  using assms by (simp add: ledger_def grant_leases_ok grant_card entries_ok_def inFlight_def)

lemma ledger_requeue:
  "ledger s \<Longrightarrow> sem_entries s k = Some e \<Longrightarrow> ledger (set_entry k (e\<lparr>waiters := ws\<rparr>) s)"
  by (auto simp: ledger_def entries_ok_def inFlight_def split: option.split_asm if_splits)

lemma ledger_shift: "ledger s \<Longrightarrow> n = Suc (sem_fresh s) \<Longrightarrow> ledger (s\<lparr>sem_armed := A, sem_fresh := n\<rparr>)"
  by (auto simp: ledger_def leases_ok_def entries_ok_def inFlight_def live_def less_Suc_eq)

lemma acquire_ledger [helm_inv]:
  assumes "ledger s"
  shows "ledger (snd (sem_acquire a s))"
proof -
  from assms have "entries_ok s" by (simp add: ledger_def)
  then show ?thesis
  proof (cases rule: acquire_cases [where a = a])
    case (idle r)
    with assms show ?thesis by simp
  next
    case (granted e limit)
    from granted(4) have "inFlight (acq_key a) s = active e" by (auto simp: inFlight_def)
    with assms granted show ?thesis by (simp add: grant_ledger)
  next
    case (queued e limit)
    with assms show ?thesis
      by (simp add: ledger_shift ledger_requeue)
  qed
qed

lemma gc_active: "entries_ok s \<Longrightarrow> gcIfIdle k s = s"
  by (force simp: gcIfIdle_def entries_ok_def split: option.split)

text \<open>An armed waiter's failure splices it out of its queue and touches nothing else there.\<close>

lemma fail_simps:
  assumes "entries_ok s"
  shows "sem_armed s w = Some k \<Longrightarrow> sem_entries s k = Some e \<Longrightarrow>
      sem_fail why w s = resolve w (Refused why) (cleanup w (set_entry k (e\<lparr>waiters := filter (\<lambda>x. w_id x \<noteq> w) (waiters e)\<rparr>) s))"
    and "sem_armed s w = Some k \<Longrightarrow> sem_entries s k = None \<Longrightarrow> sem_fail why w s = resolve w (Refused why) (cleanup w s)"
    and "sem_armed s w = None \<Longrightarrow> sem_fail why w s = s"
proof -
  assume a: "sem_armed s w = Some k" "sem_entries s k = Some e"
  with assms have "entries_ok (cleanup w (set_entry k (e\<lparr>waiters := filter (\<lambda>x. w_id x \<noteq> w) (waiters e)\<rparr>) s))"
    by (simp add: entries_ok_def)
  with a show "sem_fail why w s = resolve w (Refused why) (cleanup w (set_entry k (e\<lparr>waiters := filter (\<lambda>x. w_id x \<noteq> w) (waiters e)\<rparr>) s))"
    by (simp add: sem_fail_def Let_def gc_active)
qed (simp_all add: sem_fail_def gcIfIdle_def)

lemma ledger_cleanup [simp]: "ledger (cleanup w s) = ledger s" "ledger (resolve w r s) = ledger s"
  by (simp_all add: ledger_def entries_ok_def inFlight_def)

lemma fail_ledger [helm_inv]:
  assumes "ledger s"
  shows "ledger (sem_fail why w s)"
proof (cases "sem_armed s w")
  case None
  with assms show ?thesis by (simp add: sem_fail_def)
next
  case (Some k)
  from assms have "entries_ok s" by (simp add: ledger_def)
  note f = fail_simps [OF this]
  show ?thesis
    using assms f Some by (cases "sem_entries s k") (simp_all add: ledger_requeue)
qed

lemma step_ledger [helm_inv]: "ledger s \<Longrightarrow> ledger (sem_step s ev)"
  by (cases ev) (simp_all add: helm_inv)

lemma init_ledger [simp]: "ledger createKeyedSemaphore"
  by (simp add: ledger_def createKeyedSemaphore_def leases_ok_def entries_ok_def inFlight_def live_def)

lemma run_ledger: "ledger s \<Longrightarrow> ledger (sem_run s es)"
  by (induction es arbitrary: s) (simp_all add: helm_inv)

subsection \<open>The queue: armed waiters, pending promises\<close>

definition queue_of :: "sem \<Rightarrow> string \<Rightarrow> sem_waiter list" where
  "queue_of s k = (case sem_entries s k of Some e \<Rightarrow> waiters e | None \<Rightarrow> [])"

text \<open>
  A waiter is queued exactly while its timer and abort listener are armed, once, and its promise is
  pending then: nobody waits without a way out, and nobody is resolved twice.
\<close>

definition queue_ok :: "sem \<Rightarrow> bool" where
  "queue_ok s \<longleftrightarrow>
     (\<forall>k. distinct (map w_id (queue_of s k))) \<and>
     (\<forall>w k. sem_armed s w = Some k \<longleftrightarrow> w \<in> w_id ` set (queue_of s k)) \<and>
     (\<forall>w k. sem_armed s w = Some k \<longrightarrow> w < sem_fresh s \<and> sem_outcomes s w = None) \<and>
     (\<forall>w r. sem_outcomes s w = Some r \<longrightarrow> w < sem_fresh s)"

definition sem_inv :: "sem \<Rightarrow> bool" where
  "sem_inv s \<longleftrightarrow> ledger s \<and> queue_ok s"

lemma sem_inv_ledger: "sem_inv s \<Longrightarrow> ledger s"
  by (simp add: sem_inv_def)

lemma queue_of_simps [simp]:
  "queue_of (set_entry k e s) k' = (if k' = k then waiters e else queue_of s k')"
  "queue_of (cleanup w s) = queue_of s" "queue_of (resolve w r s) = queue_of s"
  "queue_of (snd (grantLease k h s)) = queue_of s" "queue_of (gcIfIdle k s) = queue_of s"
  "queue_of (s\<lparr>sem_leases := x\<rparr>) = queue_of s" "queue_of (s\<lparr>sem_armed := A, sem_fresh := n\<rparr>) = queue_of s"
  by (auto simp: queue_of_def gcIfIdle_def fun_eq_iff split: option.split)

lemma bookkeeping_simps [simp]:
  "sem_armed (set_entry k e s) = sem_armed s" "sem_armed (cleanup w s) = (sem_armed s)(w := None)"
  "sem_armed (resolve w r s) = sem_armed s" "sem_armed (snd (grantLease k h s)) = sem_armed s"
  "sem_armed (gcIfIdle k s) = sem_armed s"
  "sem_outcomes (set_entry k e s) = sem_outcomes s" "sem_outcomes (cleanup w s) = sem_outcomes s"
  "sem_outcomes (snd (grantLease k h s)) = sem_outcomes s" "sem_outcomes (gcIfIdle k s) = sem_outcomes s"
  "sem_fresh (cleanup w s) = sem_fresh s" "sem_fresh (resolve w r s) = sem_fresh s"
  "sem_fresh (snd (grantLease k h s)) = Suc (sem_fresh s)" "sem_fresh (gcIfIdle k s) = sem_fresh s"
  by (simp_all add: sem_defs Let_def split: option.split)

lemma outcomes_resolve:
  "sem_outcomes s w = None \<Longrightarrow> sem_outcomes (resolve w r s) = (sem_outcomes s)(w \<mapsto> r)"
  by (simp add: resolve_def)

lemma armed_queue: "queue_ok s \<Longrightarrow> sem_armed s w = Some k \<longleftrightarrow> w \<in> w_id ` set (queue_of s k)"
  by (simp add: queue_ok_def)

lemma armed_pending: "queue_ok s \<Longrightarrow> sem_armed s w = Some k \<Longrightarrow> w < sem_fresh s \<and> sem_outcomes s w = None"
  by (simp only: queue_ok_def)

lemma queue_of_waiters: "sem_entries s k = Some e \<Longrightarrow> queue_of s k = waiters e"
  by (simp add: queue_of_def)

lemma fresh_not_armed: "queue_ok s \<Longrightarrow> sem_armed s (sem_fresh s) = None \<and> sem_outcomes s (sem_fresh s) = None"
  by (metis less_irrefl option.exhaust queue_ok_def)

lemma queue_ok_same:
  assumes "queue_ok s" and "queue_of t = queue_of s" and "sem_armed t = sem_armed s"
    and "sem_outcomes t = sem_outcomes s" and "sem_fresh s \<le> sem_fresh t"
  shows "queue_ok t"
  using assms unfolding queue_ok_def by (metis order_less_le_trans)

text \<open>Taking one waiter out of its queue and resolving its promise keeps the queue invariant.\<close>

lemma queue_ok_leave:
  assumes ok: "queue_ok s" and armed: "sem_armed s w = Some k"
    and q: "\<And>k'. queue_of t k' = (if k' = k then filter (\<lambda>x. w_id x \<noteq> w) (queue_of s k) else queue_of s k')"
    and a: "sem_armed t = (sem_armed s)(w := None)" and o: "sem_outcomes t = (sem_outcomes s)(w \<mapsto> r)"
    and f: "sem_fresh s \<le> sem_fresh t"
  shows "queue_ok t"
proof -
  have other: "w \<notin> w_id ` set (queue_of s k')" if "k' \<noteq> k" for k'
    using ok armed that unfolding queue_ok_def by (metis option.inject)
  have "distinct (map w_id (queue_of t k'))" for k'
    using ok by (auto simp: q queue_ok_def distinct_map_filter)
  moreover have "sem_armed t v = Some k' \<longleftrightarrow> v \<in> w_id ` set (queue_of t k')" for v k'
    using ok other [of k'] by (auto simp: q a queue_ok_def)
  moreover have "v < sem_fresh t \<and> sem_outcomes t v = None" if "sem_armed t v = Some k'" for v k'
    using ok that f by (fastforce simp: a o queue_ok_def split: if_splits)
  moreover have "v < sem_fresh t" if "sem_outcomes t v = Some r'" for v r'
    using ok that f armed by (fastforce simp: o queue_ok_def split: if_splits)
  ultimately show ?thesis unfolding queue_ok_def by blast
qed

lemma fail_queue [helm_inv]:
  assumes "sem_inv s"
  shows "queue_ok (sem_fail why w s)"
proof (cases "sem_armed s w")
  case None
  with assms show ?thesis by (simp add: sem_fail_def sem_inv_def)
next
  case (Some k)
  from assms have e: "entries_ok s" and q: "queue_ok s" by (auto simp: sem_inv_def ledger_def)
  from q Some have "w \<in> w_id ` set (queue_of s k)" and none: "sem_outcomes s w = None"
    by (simp_all add: armed_queue [symmetric] armed_pending)
  then obtain x where x: "sem_entries s k = Some x" by (cases "sem_entries s k") (auto simp: queue_of_def)
  show ?thesis
    by (rule queue_ok_leave [OF q Some, where r = "Refused why"])
      (use x none in \<open>simp_all add: fail_simps(1) [OF e Some x] outcomes_resolve queue_of_def\<close>)
qed

lemma handoff_queue:
  assumes ok: "queue_ok s"
  shows "queue_ok (handoff k s)"
proof (cases "queue_of s k")
  case Nil
  then have "queue_of (handoff k s) k' = queue_of s k'" for k'
    by (cases "sem_entries s k") (auto simp: handoff_def queue_of_waiters)
  with Nil show ?thesis
    by (intro queue_ok_same [OF ok])
      (auto simp: fun_eq_iff handoff_def queue_of_waiters split: option.split list.split)
next
  case (Cons w ws)
  then obtain x where x: "sem_entries s k = Some x" "waiters x = w # ws"
    by (auto simp: queue_of_def split: option.splits)
  from ok Cons have armed: "sem_armed s (w_id w) = Some k" by (simp add: armed_queue)
  then have none: "sem_outcomes s (w_id w) = None" using ok armed_pending by blast
  from ok Cons have d: "distinct (map w_id (w # ws))" unfolding queue_ok_def by metis
  have "filter (\<lambda>y. w_id y \<noteq> w_id w) ws = ws" using d by (auto simp: filter_id_conv image_iff)
  then show ?thesis
    by (intro queue_ok_leave [OF ok armed, where r = "Lease (sem_fresh s)"])
      (use x none Cons in \<open>auto simp: handoff_def grantLease_def Let_def resolve_def queue_of_def set_entry_def cleanup_def\<close>)
qed

lemma release_queue [helm_inv]: "queue_ok s \<Longrightarrow> queue_ok (release l s)"
  by (auto simp: release_def intro!: handoff_queue elim: queue_ok_same split: option.split)

lemma watchdog_queue [helm_inv]: "queue_ok s \<Longrightarrow> queue_ok (watchdog l s)"
  by (auto simp: watchdog_def intro: release_queue split: option.split)

lemma acquire_queue [helm_inv]:
  assumes "sem_inv s"
  shows "queue_ok (snd (sem_acquire a s))"
proof -
  from assms have "entries_ok s" and q: "queue_ok s" by (simp_all add: sem_inv_def ledger_def)
  then show ?thesis
  proof (cases rule: acquire_cases [where a = a])
    case (idle r)
    with q show ?thesis by simp
  next
    case (granted e limit)
    then have "queue_of (snd (sem_acquire a s)) = queue_of s" by (auto simp: queue_of_def fun_eq_iff)
    with granted(5) show ?thesis by (intro queue_ok_same [OF q]) auto
  next
    case (queued e limit)
    then have w: "queue_of s (acq_key a) = waiters e" by (simp add: queue_of_def)
    note none = fresh_not_armed [OF q]
    with q have fresh: "sem_fresh s \<notin> w_id ` set (queue_of s k)" for k
      by (metis armed_queue option.distinct(1))
    have d: "distinct (map w_id (waiters e))" using q w unfolding queue_ok_def by metis
    let ?t = "snd (sem_acquire a s)"
    have t: "queue_of ?t k = queue_of s k @ (if k = acq_key a then [\<lparr>w_id = sem_fresh s,
        w_maxHoldMs = nullish (acq_maxHoldMs a) DEFAULT_MAX_HOLD_MS\<rparr>] else [])"
      "sem_armed ?t = (sem_armed s)(sem_fresh s \<mapsto> acq_key a)" "sem_fresh ?t = Suc (sem_fresh s)"
      "sem_outcomes ?t = sem_outcomes s" for k
      using queued(6) w by (simp_all add: set_entry_def) (auto simp: queue_of_def)
    show ?thesis
      using q fresh [of "acq_key a"] fresh none d w unfolding queue_ok_def t
      by (auto simp: less_Suc_eq)
  qed
qed

lemma step_inv [helm_inv]: "sem_inv s \<Longrightarrow> sem_inv (sem_step s ev)"
  by (cases ev) (simp_all add: sem_inv_def helm_inv)

lemma run_inv: "sem_inv s \<Longrightarrow> sem_inv (sem_run s es)"
  by (induction es arbitrary: s) (simp_all add: helm_inv)

lemma init_inv [simp]: "sem_inv createKeyedSemaphore"
  by (simp add: sem_inv_def queue_ok_def) (simp add: createKeyedSemaphore_def queue_of_def)

subsection \<open>Bounds that depend on the callers' limits\<close>

lemma queued_queue: "queued k s = int (length (queue_of s k))"
  by (simp add: queued_def queue_of_def split: option.split)

lemma inFlight_simps [simp]:
  "inFlight k' (set_entry k e s) = (if k' = k then active e else inFlight k' s)"
  "inFlight k' (cleanup w s) = inFlight k' s" "inFlight k' (resolve w r s) = inFlight k' s"
  "inFlight k' (snd (grantLease k h s)) = inFlight k' s" "inFlight k' (s\<lparr>sem_leases := x\<rparr>) = inFlight k' s"
  "inFlight k' (s\<lparr>sem_armed := A, sem_fresh := n\<rparr>) = inFlight k' s"
  by (simp_all add: inFlight_def)

lemma inFlight_active: "sem_entries s k = Some e \<Longrightarrow> inFlight k s = active e"
  by (simp add: inFlight_def)

lemma inFlight_gc_same:
  assumes "sem_entries s k = Some e" and "0 \<le> active e"
  shows "inFlight k' (gcIfIdle k s) = inFlight k' s"
proof (cases "k' = k")
  case True
  with assms show ?thesis by (simp add: inFlight_gc) (simp add: inFlight_def)
next
  case False
  then show ?thesis by (simp add: inFlight_gc)
qed

lemma inFlight_other: "k' \<noteq> k \<Longrightarrow> inFlight k' (handoff k s) = inFlight k' s"
  by (simp add: handoff_def inFlight_gc grantLease_def Let_def split: option.split list.split)
    (simp add: inFlight_def set_entry_def cleanup_def resolve_def split: option.split)

lemma handoff_counts:
  assumes "entries_ok s"
  shows "queue_of s k = w # ws \<Longrightarrow> inFlight k' (handoff k s) = inFlight k' s"
    and "queue_of s k = w # ws \<Longrightarrow> queue_of (handoff k s) k' = (if k' = k then ws else queue_of s k')"
    and "queue_of s k = [] \<Longrightarrow> inFlight k' (handoff k s) \<le> inFlight k' s"
    and "queue_of s k = [] \<Longrightarrow> queue_of (handoff k s) k' = queue_of s k'"
proof -
  assume q: "queue_of s k = w # ws"
  then obtain e where e: "sem_entries s k = Some e" "waiters e = w # ws"
    by (cases "sem_entries s k") (auto simp: queue_of_def)
  have h: "handoff k s = resolve (w_id w) (Lease (sem_fresh s))
      (snd (grantLease k (w_maxHoldMs w) (cleanup (w_id w) (set_entry k (e\<lparr>waiters := ws\<rparr>) s))))"
    using e by (simp add: handoff_def grantLease_def Let_def)
  show "inFlight k' (handoff k s) = inFlight k' s"
    using e by (simp add: h inFlight_active)
  show "queue_of (handoff k s) k' = (if k' = k then ws else queue_of s k')"
    by (simp add: h)
next
  assume q: "queue_of s k = []"
  have "inFlight k' (handoff k s) \<le> inFlight k' s \<and> queue_of (handoff k s) k' = queue_of s k'"
  proof (cases "sem_entries s k")
    case None
    then show ?thesis by (simp add: handoff_def)
  next
    case (Some e)
    with assms q have e: "0 < active e" "waiters e = []" by (auto simp: entries_ok_def queue_of_def)
    then have "inFlight k' (gcIfIdle k (set_entry k (e\<lparr>active := active e - 1\<rparr>) s))
        = inFlight k' (set_entry k (e\<lparr>active := active e - 1\<rparr>) s)"
      by (intro inFlight_gc_same [of _ k "e\<lparr>active := active e - 1\<rparr>"]) simp_all
    with Some e q show ?thesis by (simp add: handoff_def inFlight_active)
  qed
  then show "inFlight k' (handoff k s) \<le> inFlight k' s" "queue_of (handoff k s) k' = queue_of s k'"
    by simp_all
qed

lemma release_handoff:
  "release l s = s \<or> (\<exists>x y. sem_leases s l = Some x \<and> release l s = handoff (l_key x) (s\<lparr>sem_leases := y\<rparr>))"
  by (cases "sem_leases s l") (auto simp: release_def)

lemma watchdog_release: "watchdog l s = s \<or> watchdog l s = release l s"
  by (simp add: watchdog_def split: option.split)

lemma fail_counts:
  assumes "entries_ok s"
  shows "inFlight k (sem_fail why w s) = inFlight k s"
    and "length (queue_of (sem_fail why w s) k) \<le> length (queue_of s k)"
proof -
  have "inFlight k (sem_fail why w s) = inFlight k s \<and> length (queue_of (sem_fail why w s) k) \<le> length (queue_of s k)"
  proof (cases "sem_armed s w")
    case None
    then show ?thesis by (simp add: sem_fail_def)
  next
    case (Some k')
    then show ?thesis
      by (cases "sem_entries s k'")
        (simp_all add: fail_simps(1,2) [OF assms Some] inFlight_active queue_of_waiters)
  qed
  then show "inFlight k (sem_fail why w s) = inFlight k s"
    "length (queue_of (sem_fail why w s) k) \<le> length (queue_of s k)" by simp_all
qed

text \<open>Callers of a key whose limit and queue size stay in a range.\<close>

definition acquires_within :: "string \<Rightarrow> int \<Rightarrow> int \<Rightarrow> sem_event \<Rightarrow> bool" where
  "acquires_within k L Q ev =
     (case ev of
        Acquire a \<Rightarrow> acq_key a \<noteq> k \<or> (nullish (acq_limit a) 0 \<le> L \<and> acq_maxQueue a \<le> Q)
      | _ \<Rightarrow> True)"

definition acquires_above :: "string \<Rightarrow> int \<Rightarrow> sem_event \<Rightarrow> bool" where
  "acquires_above k L ev =
     (case ev of Acquire a \<Rightarrow> acq_key a \<noteq> k \<or> L \<le> nullish (acq_limit a) L | _ \<Rightarrow> True)"

definition capped :: "string \<Rightarrow> int \<Rightarrow> int \<Rightarrow> sem \<Rightarrow> bool" where
  "capped k L Q s \<longleftrightarrow> sem_inv s \<and> inFlight k s \<le> L \<and> queued k s \<le> Q"

definition no_idle_waiting :: "string \<Rightarrow> int \<Rightarrow> sem \<Rightarrow> bool" where
  "no_idle_waiting k L s \<longleftrightarrow> sem_inv s \<and> (queue_of s k = [] \<or> L \<le> inFlight k s)"

lemma handoff_capped:
  assumes "entries_ok s" and "inFlight k s \<le> L" and "queued k s \<le> Q"
  shows "inFlight k (handoff k' s) \<le> L \<and> queued k (handoff k' s) \<le> Q"
proof (cases "queue_of s k'")
  case Nil
  from assms(2,3) handoff_counts(3,4) [OF assms(1) Nil, of k] show ?thesis by (simp add: queued_queue)
next
  case (Cons w ws)
  from assms(2,3) handoff_counts(1,2) [OF assms(1) Cons, of k] Cons show ?thesis
    by (auto simp: queued_queue)
qed

lemma handoff_no_idle:
  assumes "entries_ok s" and "queue_of s k = [] \<or> L \<le> inFlight k s"
  shows "queue_of (handoff k' s) k = [] \<or> L \<le> inFlight k (handoff k' s)"
proof (cases "queue_of s k'")
  case Nil
  show ?thesis
  proof (cases "k = k'")
    case True
    with Nil show ?thesis using handoff_counts(4) [OF assms(1) Nil, of k] by simp
  next
    case False
    then have "inFlight k (handoff k' s) = inFlight k s" by (rule inFlight_other)
    with assms(2) handoff_counts(4) [OF assms(1) Nil, of k] show ?thesis by simp
  qed
next
  case (Cons w ws)
  with assms(2) handoff_counts(1,2) [OF assms(1) Cons, of k] show ?thesis by auto
qed

lemma release_rule: "P s \<Longrightarrow> (\<And>y k'. P (handoff k' (s\<lparr>sem_leases := y\<rparr>))) \<Longrightarrow> P (release l s)"
  using release_handoff [of l s] by metis

lemma entries_ok_leases [simp]: "entries_ok (s\<lparr>sem_leases := y\<rparr>) = entries_ok s"
  by (simp add: entries_ok_def)

lemma sem_inv_entries: "sem_inv s \<Longrightarrow> entries_ok s"
  by (simp add: sem_inv_def ledger_def)

lemma step_capped:
  assumes c: "capped k L Q s" and ok: "acquires_within k L Q ev"
  shows "capped k L Q (sem_step s ev)"
proof -
  from c have inv: "sem_inv s" and e: "entries_ok s" and b: "inFlight k s \<le> L" "queued k s \<le> Q"
    by (auto simp: capped_def sem_inv_entries)
  have rel: "inFlight k (release l s) \<le> L \<and> queued k (release l s) \<le> Q" for l
    by (rule release_rule, use b in simp, rule handoff_capped) (use b e in \<open>simp_all add: queued_queue\<close>)
  have "inFlight k (sem_step s ev) \<le> L \<and> queued k (sem_step s ev) \<le> Q"
  proof (cases ev)
    case (Acquire a)
    from e show ?thesis
    proof (cases rule: acquire_cases [where a = a])
      case (idle r)
      with b Acquire show ?thesis by simp
    next
      case (granted e' limit)
      then have "queue_of s (acq_key a) = waiters e'" by (auto simp: queue_of_def)
      with granted ok Acquire b show ?thesis by (auto simp: acquires_within_def queued_queue)
    next
      case (queued e' limit)
      then have "queue_of s (acq_key a) = waiters e'" "inFlight (acq_key a) s = active e'"
        by (auto simp: queue_of_def inFlight_def)
      with queued ok Acquire b show ?thesis by (auto simp: acquires_within_def queued_queue)
    qed
  next
    case (Release l)
    with rel show ?thesis by simp
  next
    case (Watchdog l)
    with rel [of l] watchdog_release [of l s] b show ?thesis by auto
  next
    case (Expire w)
    with fail_counts [OF e, where k = k and why = Timed_out and w = w] b show ?thesis by (simp add: queued_queue)
  next
    case (Abort_signal w)
    with fail_counts [OF e, where k = k and why = Aborted and w = w] b show ?thesis by (simp add: queued_queue)
  qed
  with inv show ?thesis by (simp add: capped_def helm_inv)
qed

lemma step_no_idle:
  assumes c: "no_idle_waiting k L s" and ok: "acquires_above k L ev"
  shows "no_idle_waiting k L (sem_step s ev)"
proof -
  from c have inv: "sem_inv s" and e: "entries_ok s" and b: "queue_of s k = [] \<or> L \<le> inFlight k s"
    by (auto simp: no_idle_waiting_def sem_inv_entries)
  have rel: "queue_of (release l s) k = [] \<or> L \<le> inFlight k (release l s)" for l
    by (rule release_rule, use b in simp, rule handoff_no_idle) (use b e in simp_all)
  have "queue_of (sem_step s ev) k = [] \<or> L \<le> inFlight k (sem_step s ev)"
  proof (cases ev)
    case (Acquire a)
    from e show ?thesis
    proof (cases rule: acquire_cases [where a = a])
      case (idle r)
      with b Acquire show ?thesis by simp
    next
      case (granted e' limit)
      then have "queue_of s (acq_key a) = waiters e'" "inFlight (acq_key a) s = active e'"
        by (auto simp: queue_of_def inFlight_def)
      with granted Acquire b show ?thesis by auto
    next
      case (queued e' limit)
      then have "inFlight (acq_key a) s = active e'" by (auto simp: inFlight_def)
      with queued ok Acquire b show ?thesis by (auto simp: acquires_above_def)
    qed
  next
    case (Release l)
    with rel show ?thesis by simp
  next
    case (Watchdog l)
    with rel [of l] watchdog_release [of l s] b show ?thesis by auto
  next
    case (Expire w)
    with fail_counts [OF e, where k = k and why = Timed_out and w = w] b show ?thesis by auto
  next
    case (Abort_signal w)
    with fail_counts [OF e, where k = k and why = Aborted and w = w] b show ?thesis by auto
  qed
  with inv show ?thesis by (simp add: no_idle_waiting_def helm_inv)
qed

interpretation capped_sem: guarded_steps sem_step "capped k L Q" "acquires_within k L Q" for k L Q
  by unfold_locales (rule step_capped)

interpretation busy_sem: guarded_steps sem_step "no_idle_waiting k L" "acquires_above k L" for k L
  by unfold_locales (rule step_no_idle)

lemma empty_counts [simp]: "inFlight k createKeyedSemaphore = 0" "queue_of createKeyedSemaphore k = []"
  by (simp_all add: createKeyedSemaphore_def inFlight_def queue_of_def)

subsection \<open>Properties\<close>

text \<open>
  Conservation: after any history of acquires, releases (first, repeated or by the watchdog),
  timeouts and aborts, in any order, the in-flight count of every key is exactly the number of its
  leases not yet released: no slot leaks, none is freed twice.
\<close>
theorem inFlight_counts_leases:
  "inFlight k (sem_run createKeyedSemaphore es) = int (card (live (sem_run createKeyedSemaphore es) k))"
  using run_inv [OF init_inv, of es] by (simp add: sem_inv_def ledger_def)

text \<open>
  C31. The limit holds: while every acquire on a key is limited to at most \<open>L\<close> and gives a queue of
  at most \<open>Q\<close>, the key never has more than \<open>L\<close> holders nor more than \<open>Q\<close> waiters.
\<close>
theorem semaphore_bounds:
  assumes "0 \<le> L" and "0 \<le> Q" and "list_all (acquires_within k L Q) es"
  shows "inFlight k (sem_run createKeyedSemaphore es) \<le> L \<and> queued k (sem_run createKeyedSemaphore es) \<le> Q"
proof -
  have "capped k L Q createKeyedSemaphore" using assms(1,2) by (simp add: capped_def queued_queue)
  from capped_sem.run_keeps [OF this assms(3)] show ?thesis by (simp add: sem_run_def capped_def)
qed

definition demo_acquire :: sem_event where
  "demo_acquire = Acquire \<lparr>acq_key = ''k'', acq_limit = Some 1, acq_maxQueue = 2, acq_aborted = False,
     acq_maxHoldMs = None\<rparr>"

lemmas demo_simps = demo_acquire_def createKeyedSemaphore_def sem_acquire_def set_entry_def
  grantLease_def Let_def

theorem semaphore_bounds_witness:
  "inFlight ''k'' (sem_run createKeyedSemaphore [demo_acquire, demo_acquire]) \<le> 1 \<and>
   queued ''k'' (sem_run createKeyedSemaphore [demo_acquire, demo_acquire]) \<le> 2"
  by (rule semaphore_bounds) (simp_all add: demo_acquire_def acquires_within_def)

text \<open>
  C40. No lost wakeup: while every limited acquire on a key asks for a limit of at least \<open>L\<close>, a
  non-empty queue means that at least \<open>L\<close> holders are in flight; a waiter never sleeps beside a
  free slot.
\<close>
theorem no_lost_wakeup:
  assumes "list_all (acquires_above k L) es" and "0 < queued k (sem_run createKeyedSemaphore es)"
  shows "L \<le> inFlight k (sem_run createKeyedSemaphore es)"
proof -
  have "no_idle_waiting k L createKeyedSemaphore" by (simp add: no_idle_waiting_def)
  from busy_sem.run_keeps [OF this assms(1)] assms(2) show ?thesis
    by (auto simp: sem_run_def no_idle_waiting_def queued_queue)
qed

theorem no_lost_wakeup_witness:
  "1 \<le> inFlight ''k'' (sem_run createKeyedSemaphore [demo_acquire, demo_acquire])"
  by (rule no_lost_wakeup)
    (simp_all add: demo_simps acquires_above_def queued_def)

text \<open>
  First come, first served: in any reachable state, releasing a live lease of a key with waiters
  resolves exactly the head's promise, with a fresh live lease of that key, leaves the in-flight
  count alone, keeps the rest of the queue in order, and disarms the head's timer and abort
  listener; releasing the same lease again changes nothing.
\<close>
theorem release_serves_head:
  assumes s: "s = sem_run createKeyedSemaphore es"
    and l: "l \<in> live s k" and q: "queue_of s k = w # ws"
  shows "let s' = release l s; l' = sem_fresh s
         in sem_outcomes s' = (sem_outcomes s)(w_id w \<mapsto> Lease l') \<and> l' \<in> live s' k \<and> l \<notin> live s' k \<and>
            inFlight k s' = inFlight k s \<and> queue_of s' k = ws \<and> sem_armed s' = (sem_armed s)(w_id w := None) \<and>
            release l s' = s'"
proof -
  from s have inv: "sem_inv s" by (simp add: run_inv)
  then have led: "leases_ok s" and qok: "queue_ok s" by (simp_all add: sem_inv_def ledger_def)
  from l obtain x where x: "sem_leases s l = Some x" "l_key x = k" "\<not> l_released x"
    by (auto simp: live_def)
  from q obtain e where e: "sem_entries s k = Some e" "waiters e = w # ws"
    by (cases "sem_entries s k") (auto simp: queue_of_def)
  from q have "sem_armed s (w_id w) = Some k" by (simp add: armed_queue [OF qok])
  then have none: "sem_outcomes s (w_id w) = None" using armed_pending [OF qok] by blast
  from led x have "l \<noteq> sem_fresh s" by (auto simp: leases_ok_def)
  with x e none show ?thesis
    by (simp add: release_def handoff_def grantLease_def Let_def resolve_def cleanup_def set_entry_def
        live_def inFlight_def queue_of_def)
qed

definition demo_queue :: sem where
  "demo_queue = sem_run createKeyedSemaphore [demo_acquire, demo_acquire]"

theorem release_serves_head_witness:
  "let s' = release 0 demo_queue
   in sem_outcomes s' 1 = Some (Lease 2) \<and> 2 \<in> live s' ''k'' \<and> inFlight ''k'' s' = 1 \<and>
      queue_of s' ''k'' = [] \<and> release 0 s' = s'"
  using release_serves_head [of demo_queue "[demo_acquire, demo_acquire]" 0 "''k''"
      "\<lparr>w_id = 1, w_maxHoldMs = 300000\<rparr>" "[]"]
  by (simp add: demo_queue_def demo_simps DEFAULT_MAX_HOLD_MS_def live_def queue_of_def inFlight_def
      numeral_2_eq_2)

text \<open>
  Every waiter has a way out: in any reachable state the queued waiters are exactly those
  whose timer and listener are armed, each queued once with its promise pending, and when a queued
  waiter times out or aborts it leaves its queue (the others keep their order), its promise resolves
  with that reason, and no slot is freed by it.
\<close>
theorem waiter_leaves_queue:
  assumes s: "s = sem_run createKeyedSemaphore es" and w: "w \<in> set (queue_of s k)"
  shows "sem_armed s (w_id w) = Some k \<and> sem_outcomes s (w_id w) = None \<and>
         queue_of (sem_fail why (w_id w) s) k = filter (\<lambda>x. w_id x \<noteq> w_id w) (queue_of s k) \<and>
         sem_outcomes (sem_fail why (w_id w) s) (w_id w) = Some (Refused why) \<and>
         inFlight k (sem_fail why (w_id w) s) = inFlight k s \<and>
         sem_fail why' (w_id w) (sem_fail why (w_id w) s) = sem_fail why (w_id w) s"
proof -
  from s have inv: "sem_inv s" by (simp add: run_inv)
  then have e: "entries_ok s" and q: "queue_ok s" by (simp_all add: sem_inv_def ledger_def)
  from w have a: "sem_armed s (w_id w) = Some k" by (auto simp: armed_queue [OF q])
  then have none: "sem_outcomes s (w_id w) = None" using armed_pending [OF q] by blast
  from w obtain x where x: "sem_entries s k = Some x"
    by (cases "sem_entries s k") (auto simp: queue_of_def)
  let ?t = "sem_fail why (w_id w) s"
  have t: "?t = resolve (w_id w) (Refused why)
      (cleanup (w_id w) (set_entry k (x\<lparr>waiters := filter (\<lambda>y. w_id y \<noteq> w_id w) (waiters x)\<rparr>) s))"
    by (rule fail_simps(1) [OF e a x])
  then have "sem_armed ?t (w_id w) = None" by simp
  then have "sem_fail why' (w_id w) ?t = ?t" by (simp add: sem_fail_def)
  with a none x show ?thesis
    by (simp add: t outcomes_resolve queue_of_waiters inFlight_active)
qed

theorem waiter_leaves_queue_witness:
  "sem_outcomes (sem_fail Timed_out 1 demo_queue) 1 = Some (Refused Timed_out) \<and>
   queue_of (sem_fail Timed_out 1 demo_queue) ''k'' = []"
  using waiter_leaves_queue [of demo_queue "[demo_acquire, demo_acquire]"
      "\<lparr>w_id = 1, w_maxHoldMs = 300000\<rparr>" "''k''" Timed_out Aborted]
  by (simp add: demo_queue_def demo_simps DEFAULT_MAX_HOLD_MS_def queue_of_def)

end
