(* ===== verification/Serial_Gate.thy ===== *)
theory Serial_Gate
  imports Prelude
begin

text \<open>
  \<open>packages/core/src/queue/keyed-serial-gate.ts\<close>: the per-key mutex with a minimum delay between one
  completion and the next grant. Timers are explicit: \<open>se_pumpTimer\<close> and \<open>se_gcTimer\<close> hold the
  instant an armed timer is due, \<open>g_armed\<close> the queued acquires whose timeout and abort listener are
  live. A release closure is named by its key and its place among that key's grants; a grant keeps
  the instant of its first release (the code's \<open>released\<close> flag) and, for the statements, when and with
  which delay it was made. The environment is the relation \<open>gate_next\<close>: time passes, callers come
  and go, and a timer fires no earlier than it is due.
\<close>

subsection \<open>State\<close>

datatype serial_refusal = Serial_timeout | Serial_aborted | Serial_queue_full

datatype serial_result = Granted string nat | Refused serial_refusal

record serial_waiter =
  sw_id :: nat
  sw_delayMs :: ms

record serial_entry =
  se_locked :: bool
  se_lastCompletionMs :: "ms option"
  se_lastDelayMs :: ms
  se_waiters :: "serial_waiter list"
  se_pumpTimer :: "ms option"
  se_gcTimer :: "ms option"

record serial_grant =
  sg_at :: ms
  sg_delayMs :: ms
  sg_released :: "ms option"

record gate =
  g_entries :: "string \<rightharpoonup> serial_entry"
  g_grants :: "string \<Rightarrow> serial_grant list"
  g_results :: "nat \<rightharpoonup> serial_result"
  g_armed :: "nat \<rightharpoonup> string"
  g_fresh :: nat
  g_now :: ms

record serial_acquire_args =
  sa_key :: string
  sa_delayMs :: ms
  sa_maxQueue :: "int option"
  sa_aborted :: bool

definition createKeyedSerialGate :: "ms \<Rightarrow> gate" where
  "createKeyedSerialGate now = \<lparr>g_entries = Map.empty, g_grants = (\<lambda>_. []), g_results = Map.empty,
     g_armed = Map.empty, g_fresh = 0, g_now = now\<rparr>"

subsection \<open>Operations\<close>

definition put_entry :: "string \<Rightarrow> serial_entry \<Rightarrow> gate \<Rightarrow> gate" where
  "put_entry k e s = s\<lparr>g_entries := (g_entries s)(k \<mapsto> e)\<rparr>"

definition scheduleGc :: "string \<Rightarrow> serial_entry \<Rightarrow> gate \<Rightarrow> gate" where
  "scheduleGc k e s =
     (if se_locked e \<or> se_waiters e \<noteq> [] then s
      else if se_lastCompletionMs e = None \<or> se_lastDelayMs e \<le> 0
      then s\<lparr>g_entries := (g_entries s)(k := None)\<rparr>
      else put_entry k (e\<lparr>se_gcTimer := Some (g_now s + se_lastDelayMs e)\<rparr>) s)"

definition gc_fire :: "string \<Rightarrow> gate \<Rightarrow> gate" where
  "gc_fire k s =
     (case g_entries s k of
        None \<Rightarrow> s
      | Some e \<Rightarrow>
          if \<not> se_locked e \<and> se_waiters e = [] then s\<lparr>g_entries := (g_entries s)(k := None)\<rparr>
          else put_entry k (e\<lparr>se_gcTimer := None\<rparr>) s)"

definition serial_grant_head :: "string \<Rightarrow> serial_entry \<Rightarrow> serial_waiter \<Rightarrow> serial_waiter list \<Rightarrow> gate \<Rightarrow> gate" where
  "serial_grant_head k e head rest s =
     (put_entry k (e\<lparr>se_waiters := rest, se_locked := True, se_lastDelayMs := sw_delayMs head\<rparr>) s)
       \<lparr>g_armed := (g_armed s)(sw_id head := None),
        g_grants := (g_grants s)(k := g_grants s k @ [\<lparr>sg_at = g_now s, sg_delayMs = sw_delayMs head, sg_released = None\<rparr>]),
        g_results := (g_results s)(sw_id head \<mapsto> Granted k (length (g_grants s k)))\<rparr>"

definition residualMs :: "serial_entry \<Rightarrow> serial_waiter \<Rightarrow> ms \<Rightarrow> ms" where
  "residualMs e head now =
     (case se_lastCompletionMs e of None \<Rightarrow> 0 | Some t \<Rightarrow> t + sw_delayMs head - now)"

definition pump :: "string \<Rightarrow> gate \<Rightarrow> gate" where
  "pump k s =
     (case g_entries s k of
        None \<Rightarrow> s
      | Some e0 \<Rightarrow>
          let e = e0\<lparr>se_pumpTimer := None\<rparr>; s = put_entry k e s in
          if se_locked e then s
          else
            (case se_waiters e of
               [] \<Rightarrow> scheduleGc k e s
             | head # rest \<Rightarrow>
                 let residual = residualMs e head (g_now s) in
                 if residual \<le> 0 then serial_grant_head k e head rest s
                 else put_entry k (e\<lparr>se_pumpTimer := Some (g_now s + residual)\<rparr>) s))"

definition pump_fire :: "string \<Rightarrow> gate \<Rightarrow> gate" where
  "pump_fire k s =
     (case g_entries s k of None \<Rightarrow> s | Some e \<Rightarrow> pump k (put_entry k (e\<lparr>se_pumpTimer := None\<rparr>) s))"

definition serial_release :: "string \<Rightarrow> nat \<Rightarrow> gate \<Rightarrow> gate" where
  "serial_release k n s =
     (if length (g_grants s k) \<le> n \<or> sg_released (g_grants s k ! n) \<noteq> None then s
      else
        let s = s\<lparr>g_grants := (g_grants s)(k := (g_grants s k)[n := (g_grants s k ! n)\<lparr>sg_released := Some (g_now s)\<rparr>])\<rparr> in
        (case g_entries s k of
           None \<Rightarrow> s
         | Some e \<Rightarrow> pump k (put_entry k (e\<lparr>se_locked := False, se_lastCompletionMs := Some (g_now s)\<rparr>) s)))"

definition settle :: "nat \<Rightarrow> serial_result \<Rightarrow> gate \<Rightarrow> gate" where
  "settle i r s = s\<lparr>g_results := (g_results s)(i \<mapsto> r)\<rparr>"

definition blank_entry :: serial_entry where
  "blank_entry = \<lparr>se_locked = False, se_lastCompletionMs = None, se_lastDelayMs = 0, se_waiters = [],
     se_pumpTimer = None, se_gcTimer = None\<rparr>"

definition mustQueue :: "serial_entry \<Rightarrow> ms \<Rightarrow> ms \<Rightarrow> bool" where
  "mustQueue e delayMs now \<longleftrightarrow>
     se_locked e \<or> se_waiters e \<noteq> [] \<or>
     (case se_lastCompletionMs e of None \<Rightarrow> False | Some t \<Rightarrow> t + delayMs > now)"

text \<open>The acquire of identity \<open>i\<close>; its promise is settled in \<open>g_results\<close>, or pending while it is queued.\<close>

definition serial_acquire :: "serial_acquire_args \<Rightarrow> gate \<Rightarrow> gate" where
  "serial_acquire a s0 =
     (let i = g_fresh s0; s = s0\<lparr>g_fresh := Suc i\<rparr>; k = sa_key a in
      if sa_aborted a then settle i (Refused Serial_aborted) s
      else
        let e = (nullish (g_entries s k) blank_entry)\<lparr>se_gcTimer := None\<rparr>; s = put_entry k e s in
        if mustQueue e (sa_delayMs a) (g_now s) \<and> int (length (se_waiters e)) \<ge> nullish (sa_maxQueue a) 64
        then settle i (Refused Serial_queue_full) (scheduleGc k e s)
        else pump k ((put_entry k (e\<lparr>se_waiters := se_waiters e @ [\<lparr>sw_id = i, sw_delayMs = sa_delayMs a\<rparr>]\<rparr>) s)
                       \<lparr>g_armed := (g_armed s)(i \<mapsto> k)\<rparr>))"

definition serial_fail :: "nat \<Rightarrow> serial_refusal \<Rightarrow> gate \<Rightarrow> gate" where
  "serial_fail i reason s =
     (case g_armed s i of
        None \<Rightarrow> s
      | Some k \<Rightarrow>
          let s = (case g_entries s k of
                     None \<Rightarrow> s
                   | Some e \<Rightarrow> put_entry k (e\<lparr>se_waiters := filter (\<lambda>w. sw_id w \<noteq> i) (se_waiters e)\<rparr>) s) in
          settle i (Refused reason) (pump k (s\<lparr>g_armed := (g_armed s)(i := None)\<rparr>)))"

definition wouldQueue :: "string \<Rightarrow> ms \<Rightarrow> gate \<Rightarrow> bool" where
  "wouldQueue k delayMs s =
     (case g_entries s k of
        None \<Rightarrow> False
      | Some e \<Rightarrow>
          if se_locked e \<or> se_waiters e \<noteq> [] then True
          else (case se_lastCompletionMs e of
                  None \<Rightarrow> False
                | Some t \<Rightarrow> if delayMs \<le> 0 then False else t + delayMs > g_now s))"

subsection \<open>The environment\<close>

inductive gate_next :: "gate \<Rightarrow> gate \<Rightarrow> bool" where
  acquire: "gate_next s (serial_acquire a s)"
| release: "gate_next s (serial_release k n s)"
| fail: "reason \<noteq> Serial_queue_full \<Longrightarrow> gate_next s (serial_fail i reason s)"
| passes: "0 \<le> d \<Longrightarrow> gate_next s (s\<lparr>g_now := g_now s + d\<rparr>)"
| pump_timer: "g_entries s k = Some e \<Longrightarrow> se_pumpTimer e = Some due \<Longrightarrow> due \<le> g_now s \<Longrightarrow> gate_next s (pump_fire k s)"
| gc_timer: "g_entries s k = Some e \<Longrightarrow> se_gcTimer e = Some due \<Longrightarrow> due \<le> g_now s \<Longrightarrow> gate_next s (gc_fire k s)"

inductive gate_reached :: "gate \<Rightarrow> bool" where
  start: "gate_reached (createKeyedSerialGate now)"
| step: "gate_reached s \<Longrightarrow> gate_next s s' \<Longrightarrow> gate_reached s'"

inductive_cases gate_nextE: "gate_next s s'"

subsection \<open>One key: grants, lock and delay\<close>

definition gap_ok :: "serial_grant \<Rightarrow> serial_grant \<Rightarrow> bool" where
  "gap_ok g h \<longleftrightarrow>
     (case sg_released g of None \<Rightarrow> False | Some t \<Rightarrow> sg_at g \<le> t \<and> t \<le> sg_at h \<and> t + min (sg_delayMs g) (sg_delayMs h) \<le> sg_at h)"

definition grants_ok :: "ms \<Rightarrow> serial_grant list \<Rightarrow> bool" where
  "grants_ok now gs \<longleftrightarrow>
     (\<forall>n. Suc n < length gs \<longrightarrow> gap_ok (gs ! n) (gs ! Suc n)) \<and>
     (gs \<noteq> [] \<longrightarrow> sg_at (last gs) \<le> now \<and>
        (case sg_released (last gs) of None \<Rightarrow> True | Some t \<Rightarrow> sg_at (last gs) \<le> t \<and> t \<le> now))"

text \<open>Nothing of the past still delays a grant.\<close>

definition cooled :: "ms \<Rightarrow> serial_grant list \<Rightarrow> bool" where
  "cooled now gs \<longleftrightarrow>
     gs = [] \<or> (case sg_released (last gs) of None \<Rightarrow> False | Some t \<Rightarrow> t + sg_delayMs (last gs) \<le> now)"

definition entry_ok :: "ms \<Rightarrow> serial_entry \<Rightarrow> serial_grant list \<Rightarrow> bool" where
  "entry_ok now e gs \<longleftrightarrow>
     (if se_locked e then gs \<noteq> [] \<and> sg_released (last gs) = None \<and> se_lastDelayMs e = sg_delayMs (last gs)
      else case se_lastCompletionMs e of
             None \<Rightarrow> cooled now gs
           | Some t \<Rightarrow> gs \<noteq> [] \<and> sg_released (last gs) = Some t \<and> se_lastDelayMs e = sg_delayMs (last gs))"

definition timers_ok :: "serial_entry \<Rightarrow> serial_grant list \<Rightarrow> bool" where
  "timers_ok e gs \<longleftrightarrow>
     (if se_locked e then se_pumpTimer e = None \<and> se_gcTimer e = None
      else case se_lastCompletionMs e of
             None \<Rightarrow> False
           | Some t \<Rightarrow>
               (case se_waiters e of
                  [] \<Rightarrow> se_pumpTimer e = None \<and> (\<exists>due. se_gcTimer e = Some due \<and> t + se_lastDelayMs e \<le> due)
                | head # rest \<Rightarrow> se_pumpTimer e = Some (t + sw_delayMs head) \<and> se_gcTimer e = None))"

definition key_ok :: "ms \<Rightarrow> serial_entry option \<Rightarrow> serial_grant list \<Rightarrow> bool" where
  "key_ok now eo gs \<longleftrightarrow> grants_ok now gs \<and>
     (case eo of None \<Rightarrow> cooled now gs | Some e \<Rightarrow> entry_ok now e gs \<and> timers_ok e gs)"

lemma gap_ok_release [simp]: "gap_ok g (h\<lparr>sg_released := t\<rparr>) = gap_ok g h"
  by (cases "sg_released g") (simp_all add: gap_ok_def)

lemma grants_ok_snoc:
  assumes "grants_ok now gs" and "gs \<noteq> [] \<longrightarrow> gap_ok (last gs) g" and "sg_at g = now" and "sg_released g = None"
  shows "grants_ok now (gs @ [g])"
proof -
  have "gap_ok ((gs @ [g]) ! n) ((gs @ [g]) ! Suc n)" if "Suc n < length (gs @ [g])" for n
  proof (cases "Suc n < length gs")
    case True
    with assms(1) show ?thesis by (simp add: grants_ok_def nth_append)
  next
    case False
    with that have n: "Suc n = length gs" by simp
    then have "gs \<noteq> []" by auto
    then have "last gs = gs ! n" using last_conv_nth [of gs] by (simp flip: n)
    with assms(2) n \<open>gs \<noteq> []\<close> show ?thesis by (simp add: nth_append)
  qed
  with assms(3,4) show ?thesis by (simp add: grants_ok_def)
qed

lemma grants_ok_later: "grants_ok now gs \<Longrightarrow> 0 \<le> d \<Longrightarrow> grants_ok (now + d) gs"
  by (auto simp: grants_ok_def split: option.splits)

lemma cooled_later: "cooled now gs \<Longrightarrow> 0 \<le> d \<Longrightarrow> cooled (now + d) gs"
  by (auto simp: cooled_def split: option.splits)

lemma key_ok_later: "key_ok now eo gs \<Longrightarrow> 0 \<le> d \<Longrightarrow> key_ok (now + d) eo gs"
  by (auto simp: key_ok_def entry_ok_def grants_ok_later cooled_later split: option.splits if_splits)

lemma grant_gap:
  assumes "grants_ok now gs" and "entry_ok now e gs" and "\<not> se_locked e" and "residualMs e w now \<le> 0"
  shows "gs \<noteq> [] \<longrightarrow> gap_ok (last gs) \<lparr>sg_at = now, sg_delayMs = sw_delayMs w, sg_released = None\<rparr>"
  using assms
  by (auto simp: gap_ok_def grants_ok_def entry_ok_def cooled_def residualMs_def min_def split: option.splits)

text \<open>Advancing the queue re-establishes the timers from the lock and the stamps alone.\<close>

lemma pump_key_ok:
  assumes "grants_ok (g_now s) (g_grants s k)" and "g_entries s k = Some e" and "entry_ok (g_now s) e (g_grants s k)"
    and "se_gcTimer e = None"
  shows "key_ok (g_now (pump k s)) (g_entries (pump k s) k) (g_grants (pump k s) k)"
proof (cases "se_locked e")
  case True
  with assms show ?thesis by (simp add: pump_def Let_def put_entry_def key_ok_def entry_ok_def timers_ok_def)
next
  case unlocked: False
  show ?thesis
  proof (cases "se_waiters e")
    case Nil
    with assms unlocked show ?thesis
      by (auto simp: pump_def Let_def put_entry_def scheduleGc_def key_ok_def entry_ok_def timers_ok_def cooled_def
          grants_ok_def split: option.splits)
  next
    case (Cons head rest)
    show ?thesis
    proof (cases "residualMs e head (g_now s) \<le> 0")
      case True
      from grants_ok_snoc [OF assms(1) grant_gap [OF assms(1,3) unlocked True]] Cons True unlocked assms(2,4)
      show ?thesis
        by (simp add: pump_def Let_def put_entry_def serial_grant_head_def key_ok_def entry_ok_def timers_ok_def residualMs_def)
    next
      case False
      with Cons unlocked assms show ?thesis
        by (auto simp: pump_def Let_def put_entry_def key_ok_def entry_ok_def timers_ok_def residualMs_def
            split: option.splits)
    qed
  qed
qed

lemma pump_frame:
  "g_now (pump k s) = g_now s" "g_fresh (pump k s) = g_fresh s"
  "j \<noteq> k \<Longrightarrow> g_entries (pump k s) j = g_entries s j" "j \<noteq> k \<Longrightarrow> g_grants (pump k s) j = g_grants s j"
  by (auto simp: pump_def Let_def put_entry_def scheduleGc_def serial_grant_head_def split: option.splits list.splits)

subsection \<open>The queues\<close>

definition queue_ids :: "gate \<Rightarrow> string \<Rightarrow> nat list" where
  "queue_ids s k = (case g_entries s k of None \<Rightarrow> [] | Some e \<Rightarrow> map sw_id (se_waiters e))"

text \<open>A queued acquire is armed, unsettled and queued once, and the queue is in arrival order.\<close>

definition queue_inv :: "gate \<Rightarrow> bool" where
  "queue_inv s \<longleftrightarrow>
     (\<forall>i k. g_armed s i = Some k \<longleftrightarrow> i \<in> set (queue_ids s k)) \<and>
     (\<forall>k. sorted_wrt (<) (queue_ids s k)) \<and>
     (\<forall>i k. g_armed s i = Some k \<longrightarrow> i < g_fresh s \<and> g_results s i = None) \<and>
     (\<forall>i. g_fresh s \<le> i \<longrightarrow> g_results s i = None)"

lemma queue_ids_put [simp]:
  "queue_ids (put_entry k e s) j = (if j = k then map sw_id (se_waiters e) else queue_ids s j)"
  by (simp add: queue_ids_def put_entry_def)

lemma put_entry_other [simp]:
  "g_armed (put_entry k e s) = g_armed s" "g_results (put_entry k e s) = g_results s"
  "g_fresh (put_entry k e s) = g_fresh s" "g_now (put_entry k e s) = g_now s" "g_grants (put_entry k e s) = g_grants s"
  "g_entries (put_entry k e s) = (g_entries s)(k \<mapsto> e)"
  by (simp_all add: put_entry_def)

lemma queue_ids_fields [simp]:
  "queue_ids (s\<lparr>g_armed := a\<rparr>) = queue_ids s" "queue_ids (s\<lparr>g_results := r\<rparr>) = queue_ids s"
  "queue_ids (s\<lparr>g_grants := g\<rparr>) = queue_ids s" "queue_ids (s\<lparr>g_fresh := n\<rparr>) = queue_ids s"
  "queue_ids (s\<lparr>g_now := t\<rparr>) = queue_ids s"
  by (simp_all add: queue_ids_def fun_eq_iff)

text \<open>What \<open>pump\<close> does to the queues: nothing, or it takes the head off and settles it with a grant.\<close>

lemma pump_cases:
  assumes "g_entries s k = Some e"
  obtains (same) "queue_ids (pump k s) = queue_ids s" "g_armed (pump k s) = g_armed s" "g_results (pump k s) = g_results s"
      "g_grants (pump k s) = g_grants s" "se_locked e \<or> se_waiters e = [] \<or> 0 < residualMs e (hd (se_waiters e)) (g_now s)"
    | (granted) head rest where "\<not> se_locked e" "se_waiters e = head # rest" "residualMs e head (g_now s) \<le> 0"
      "queue_ids (pump k s) = (queue_ids s)(k := map sw_id rest)" "g_armed (pump k s) = (g_armed s)(sw_id head := None)"
      "g_results (pump k s) = (g_results s)(sw_id head \<mapsto> Granted k (length (g_grants s k)))"
proof -
  consider "se_locked e" | "\<not> se_locked e" "se_waiters e = []"
    | head rest where "\<not> se_locked e" "se_waiters e = head # rest" by (cases "se_waiters e") auto
  then show ?thesis
  proof cases
    case 1
    with assms show ?thesis by (intro same) (auto simp: pump_def Let_def queue_ids_def fun_eq_iff)
  next
    case 2
    with assms show ?thesis
      by (intro same) (auto simp: pump_def Let_def scheduleGc_def queue_ids_def fun_eq_iff)
  next
    case (3 head rest)
    show ?thesis
    proof (cases "residualMs e head (g_now s) \<le> 0")
      case True
      with 3 assms show ?thesis
        by (intro granted [of head rest])
          (auto simp: pump_def Let_def residualMs_def serial_grant_head_def fun_eq_iff)
    next
      case False
      with 3 assms show ?thesis
        by (intro same) (auto simp: pump_def Let_def residualMs_def queue_ids_def fun_eq_iff)
    qed
  qed
qed

lemma queue_member:
  "queue_inv s \<Longrightarrow> j \<in> set (queue_ids s k) \<Longrightarrow> g_armed s j = Some k \<and> j < g_fresh s \<and> g_results s j = None"
  by (metis queue_inv_def)

lemma pump_queue_inv:
  assumes "queue_inv s"
  shows "queue_inv (pump k s)"
proof (cases "g_entries s k")
  case None
  with assms show ?thesis by (simp add: pump_def)
next
  case (Some e)
  then show ?thesis
  proof (cases rule: pump_cases)
    case same
    with assms show ?thesis by (simp add: queue_inv_def pump_frame)
  next
    case (granted head rest)
    have q: "queue_ids s k = sw_id head # map sw_id rest" using Some granted(2) by (simp add: queue_ids_def)
    have one: "j = k" if "sw_id head \<in> set (queue_ids s j)" for j
      using assms that q by (auto simp: queue_inv_def) (metis option.inject list.set_intros(1))
    have "sorted_wrt (<) (queue_ids s k)" using assms by (simp add: queue_inv_def)
    then have "sw_id head \<notin> set (map sw_id rest)" "sorted_wrt (<) (map sw_id rest)" using q by auto
    moreover have "sw_id head < g_fresh s" using queue_member [OF assms, of "sw_id head" k] q by simp
    ultimately show ?thesis using assms one q granted
      unfolding queue_inv_def pump_frame by (auto split: if_splits)
  qed
qed

subsection \<open>Every step keeps the invariant\<close>

definition gate_inv :: "gate \<Rightarrow> bool" where
  "gate_inv s \<longleftrightarrow> (\<forall>k. key_ok (g_now s) (g_entries s k) (g_grants s k)) \<and> queue_inv s"

lemma gate_inv_key: "gate_inv s \<Longrightarrow> key_ok (g_now s) (g_entries s k) (g_grants s k)"
  by (simp add: gate_inv_def)

text \<open>The shared shape of acquire, release, fail and the timer: one entry changes, then the queue advances.\<close>

lemma pump_gate_inv:
  assumes "\<forall>j. j \<noteq> k \<longrightarrow> key_ok (g_now s) (g_entries s j) (g_grants s j)" and "queue_inv s"
    and "g_entries s k = Some e" and "grants_ok (g_now s) (g_grants s k)" and "entry_ok (g_now s) e (g_grants s k)"
    and "se_gcTimer e = None"
  shows "gate_inv (pump k s)"
  unfolding gate_inv_def
proof (intro conjI allI)
  fix j
  show "key_ok (g_now (pump k s)) (g_entries (pump k s) j) (g_grants (pump k s) j)"
    by (cases "j = k") (use assms pump_key_ok [OF assms(4,3,5,6)] in \<open>simp_all add: pump_frame\<close>)
  show "queue_inv (pump k s)" by (rule pump_queue_inv [OF assms(2)])
qed

lemma queue_inv_settle:
  "queue_inv s \<Longrightarrow> g_armed s i = None \<Longrightarrow> i < g_fresh s \<Longrightarrow> queue_inv (settle i r s)"
  unfolding queue_inv_def settle_def queue_ids_fields by (auto; metis option.distinct(1))

lemma gate_inv_settle:
  "gate_inv s \<Longrightarrow> g_armed s i = None \<Longrightarrow> i < g_fresh s \<Longrightarrow> gate_inv (settle i r s)"
  using queue_inv_settle [of s i r] by (simp add: gate_inv_def) (simp add: settle_def)

lemma queue_ids_some: "g_entries s k = Some e \<Longrightarrow> queue_ids s k = map sw_id (se_waiters e)"
  by (simp add: queue_ids_def)

lemma queue_inv_put:
  assumes "queue_inv s" and "g_entries s k = Some e" and "map sw_id (se_waiters e') = map sw_id (se_waiters e)"
  shows "queue_inv (put_entry k e' (s\<lparr>g_grants := g\<rparr>))"
proof -
  have "queue_ids (put_entry k e' (s\<lparr>g_grants := g\<rparr>)) = queue_ids s"
    using assms(3) queue_ids_some [OF assms(2)] by (simp add: fun_eq_iff)
  with assms(1) show ?thesis by (simp add: queue_inv_def del: queue_ids_put)
qed

lemma scheduleGc_other [simp]:
  "g_armed (scheduleGc k e s) = g_armed s" "g_results (scheduleGc k e s) = g_results s" "g_fresh (scheduleGc k e s) = g_fresh s"
  "g_now (scheduleGc k e s) = g_now s" "g_grants (scheduleGc k e s) = g_grants s"
  "j \<noteq> k \<Longrightarrow> g_entries (scheduleGc k e s) j = g_entries s j"
  by (simp_all add: scheduleGc_def)

lemma scheduleGc_queues: "queue_ids s k = map sw_id (se_waiters e) \<Longrightarrow> queue_ids (scheduleGc k e s) = queue_ids s"
  by (auto simp: scheduleGc_def queue_ids_def fun_eq_iff)

lemma fresh_unarmed: "queue_inv s \<Longrightarrow> g_armed s (g_fresh s) = None"
  unfolding queue_inv_def by (metis less_irrefl not_None_eq)

lemma entry_ok_gc [simp]: "entry_ok now (e\<lparr>se_gcTimer := t\<rparr>) gs = entry_ok now e gs"
  "entry_ok now (e\<lparr>se_waiters := ws\<rparr>) gs = entry_ok now e gs"
  "entry_ok now (e\<lparr>se_pumpTimer := t\<rparr>) gs = entry_ok now e gs"
  by (cases "se_lastCompletionMs e"; simp add: entry_ok_def)+

lemma known_entry_ok:
  "key_ok now eo gs \<Longrightarrow> entry_ok now (nullish eo blank_entry) gs \<and> grants_ok now gs"
  by (auto simp: key_ok_def entry_ok_def blank_entry_def split: option.splits)

lemma queue_inv_append:
  assumes "queue_inv s" and "\<forall>k. \<forall>j \<in> set (queue_ids s k). j < i" and "i < g_fresh s" and "g_results s i = None"
    and "map sw_id (se_waiters e) = queue_ids s k @ [i]" and "A = (g_armed s)(i \<mapsto> k)"
  shows "queue_inv ((put_entry k e s)\<lparr>g_armed := A\<rparr>)"
proof -
  have "i \<notin> set (queue_ids s j)" for j using assms(2) by auto
  moreover have "g_armed s j = Some m \<longleftrightarrow> j \<in> set (queue_ids s m)" for j m using assms(1) by (simp add: queue_inv_def)
  ultimately show ?thesis
    using assms by (auto simp: queue_inv_def sorted_wrt_append)
qed

lemma acquire_keeps:
  assumes "gate_inv s"
  shows "gate_inv (serial_acquire a s)"
proof -
  let ?i = "g_fresh s" and ?k = "sa_key a"
  let ?s = "s\<lparr>g_fresh := Suc ?i\<rparr>"
  let ?e = "(nullish (g_entries s ?k) blank_entry)\<lparr>se_gcTimer := None\<rparr>"
  have q: "queue_inv s" and un: "g_armed s ?i = None" and keys: "\<And>k. key_ok (g_now s) (g_entries s k) (g_grants s k)"
    using assms fresh_unarmed by (auto simp: gate_inv_def)
  have q1: "queue_inv ?s" using q by (auto simp: queue_inv_def less_Suc_eq)
  note e = known_entry_ok [OF keys [of ?k]]
  have ids: "map sw_id (se_waiters ?e) = queue_ids s ?k"
    by (auto simp: queue_ids_def blank_entry_def nullish_def split: option.splits)
  show ?thesis
  proof (cases "sa_aborted a")
    case True
    with q1 un keys queue_inv_settle [of ?s ?i] show ?thesis
      by (simp add: serial_acquire_def gate_inv_def Let_def) (simp add: settle_def)
  next
    case live: False
    let ?s1 = "put_entry ?k ?e ?s"
    have q2: "queue_inv ?s1"
      using q1 ids by (simp add: queue_inv_def)
    show ?thesis
    proof (cases "mustQueue ?e (sa_delayMs a) (g_now s) \<and> int (length (se_waiters ?e)) \<ge> nullish (sa_maxQueue a) 64")
      case True
      then have must: "mustQueue ?e (sa_delayMs a) (g_now s)" by simp
      have known: "g_entries s ?k \<noteq> None"
        using must by (cases "g_entries s ?k") (auto simp: mustQueue_def blank_entry_def)
      then obtain e0 where e0: "g_entries s ?k = Some e0" by auto
      have k0: "key_ok (g_now s) (Some e0) (g_grants s ?k)" using keys [of ?k] e0 by simp
      have here: "key_ok (g_now s) (g_entries (scheduleGc ?k ?e ?s1) ?k) (g_grants s ?k)"
        using k0 e0 must
        by (auto simp: scheduleGc_def key_ok_def entry_ok_def timers_ok_def mustQueue_def grants_ok_def cooled_def
            split: option.splits list.splits if_splits)
      have "queue_inv (scheduleGc ?k ?e ?s1)"
        using q2 by (simp add: queue_inv_def scheduleGc_queues)
      moreover have "g_armed (scheduleGc ?k ?e ?s1) ?i = None" using un by simp
      moreover have "key_ok (g_now s) (g_entries (scheduleGc ?k ?e ?s1) j) (g_grants s j)" for j
        using here keys [of j] by (cases "j = ?k") simp_all
      ultimately show ?thesis
        using live True keys queue_inv_settle [of "scheduleGc ?k ?e ?s1" ?i]
        by (simp add: serial_acquire_def gate_inv_def Let_def) (simp add: settle_def)
    next
      case False
      let ?e1 = "?e\<lparr>se_waiters := se_waiters ?e @ [\<lparr>sw_id = ?i, sw_delayMs = sa_delayMs a\<rparr>]\<rparr>"
      let ?s2 = "(put_entry ?k ?e1 ?s1)\<lparr>g_armed := (g_armed s)(?i \<mapsto> ?k)\<rparr>"
      have fresh: "j < ?i" if "j \<in> set (queue_ids s k)" for j k
        using queue_member [OF q that] by simp
      have q3: "queue_inv ?s2"
      proof (rule queue_inv_append [OF q2])
        show "g_results ?s1 ?i = None" using q by (simp add: queue_inv_def)
        show "\<forall>k. \<forall>j \<in> set (queue_ids ?s1 k). j < ?i" using fresh ids by simp
      qed (use ids in simp_all)
      have "gate_inv (pump ?k ?s2)"
        by (rule pump_gate_inv [where e = ?e1, OF _ q3]) (use e keys in simp_all)
      with live False show ?thesis by (simp add: serial_acquire_def Let_def) blast
    qed
  qed
qed

lemma release_keeps:
  assumes "gate_inv s"
  shows "gate_inv (serial_release k n s)"
proof (cases "length (g_grants s k) \<le> n \<or> sg_released (g_grants s k ! n) \<noteq> None")
  case True
  with assms show ?thesis by (simp add: serial_release_def)
next
  case False
  let ?gs = "g_grants s k"
  have n: "n < length ?gs" and live: "sg_released (?gs ! n) = None" using False by auto
  have key: "key_ok (g_now s) (g_entries s k) ?gs" using assms by (simp add: gate_inv_def)
  then have gs: "grants_ok (g_now s) ?gs" by (simp add: key_ok_def)
  have "\<not> Suc n < length ?gs"
    using gs live by (auto simp: grants_ok_def gap_ok_def split: option.splits)
  with n have last: "Suc n = length ?gs" by simp
  then have lst: "last ?gs = ?gs ! n" using last_conv_nth [of ?gs] by (cases ?gs) (auto simp flip: last)
  from key live lst n obtain e where e: "g_entries s k = Some e" "se_locked e" "se_gcTimer e = None"
      "se_lastDelayMs e = sg_delayMs (?gs ! n)"
    by (auto simp: key_ok_def cooled_def entry_ok_def timers_ok_def split: option.splits if_splits)
  let ?g = "(?gs ! n)\<lparr>sg_released := Some (g_now s)\<rparr>"
  let ?s = "put_entry k (e\<lparr>se_locked := False, se_lastCompletionMs := Some (g_now s)\<rparr>) (s\<lparr>g_grants := (g_grants s)(k := ?gs[n := ?g])\<rparr>)"
  have "?gs[n := ?g] \<noteq> []" using n by auto
  then have last': "last (?gs[n := ?g]) = ?g" using last_conv_nth [of "?gs[n := ?g]"] n by (simp flip: last)
  have "grants_ok (g_now s) (?gs[n := ?g])"
    using gs last' lst n last by (auto simp: grants_ok_def nth_list_update)
  moreover have "queue_inv ?s" using assms e(1) by (intro queue_inv_put [of _ _ e]) (simp_all add: gate_inv_def)
  ultimately have "gate_inv (pump k ?s)"
    by (intro pump_gate_inv [where e = "e\<lparr>se_locked := False, se_lastCompletionMs := Some (g_now s)\<rparr>"])
      (use assms e last' n in \<open>auto simp: gate_inv_def entry_ok_def\<close>)
  with False e show ?thesis by (simp add: serial_release_def Let_def)
qed

lemma fail_keeps:
  assumes "gate_inv s"
  shows "gate_inv (serial_fail i reason s)"
proof (cases "g_armed s i")
  case None
  with assms show ?thesis by (simp add: serial_fail_def)
next
  case (Some k)
  have q: "queue_inv s" using assms by (simp add: gate_inv_def)
  then have "i \<in> set (queue_ids s k)" using Some by (simp add: queue_inv_def)
  then obtain e where e: "g_entries s k = Some e" "i \<in> sw_id ` set (se_waiters e)"
    by (cases "g_entries s k") (auto simp: queue_ids_def)
  let ?e = "e\<lparr>se_waiters := filter (\<lambda>w. sw_id w \<noteq> i) (se_waiters e)\<rparr>"
  let ?s = "(put_entry k ?e s)\<lparr>g_armed := (g_armed s)(i := None)\<rparr>"
  have ids: "map sw_id (se_waiters ?e) = filter (\<lambda>j. j \<noteq> i) (queue_ids s k)"
    using e(1) by (simp add: queue_ids_def filter_map comp_def)
  have alone: "m = k" if "i \<in> set (queue_ids s m)" for m
    using queue_member [OF q that] Some by simp
  have q1: "queue_inv ?s"
    using q ids alone by (auto simp: queue_inv_def sorted_wrt_filter)
  have key: "key_ok (g_now s) (Some e) (g_grants s k)" using assms e(1) by (metis gate_inv_key)
  then have "entry_ok (g_now s) e (g_grants s k)" "grants_ok (g_now s) (g_grants s k)" by (simp_all add: key_ok_def)
  moreover have "se_gcTimer e = None"
    using key e(2) by (auto simp: key_ok_def timers_ok_def split: if_splits option.splits list.splits)
  ultimately have "gate_inv (pump k ?s)"
    using assms by (intro pump_gate_inv [where e = ?e, OF _ q1]) (simp_all add: gate_inv_def)
  moreover have "g_armed (pump k ?s) i = None"
  proof -
    have "g_armed (pump k ?s) i = None \<or> g_armed (pump k ?s) i = g_armed ?s i"
      by (rule pump_cases [of ?s k ?e]) auto
    then show ?thesis by simp
  qed
  moreover have "i < g_fresh s" using queue_member [OF q \<open>i \<in> set (queue_ids s k)\<close>] by simp
  ultimately show ?thesis
    using gate_inv_settle [of "pump k ?s" i "Refused reason"] Some e(1)
    by (simp add: serial_fail_def Let_def pump_frame)
qed

lemma pump_fire_keeps:
  assumes "gate_inv s" and "g_entries s k = Some e" and "se_pumpTimer e = Some due"
  shows "gate_inv (pump_fire k s)"
proof -
  have key: "key_ok (g_now s) (Some e) (g_grants s k)" using assms(1,2) by (metis gate_inv_key)
  then have "se_gcTimer e = None"
    using assms(3) by (auto simp: key_ok_def timers_ok_def split: if_splits option.splits list.splits)
  moreover have "queue_inv (put_entry k (e\<lparr>se_pumpTimer := None\<rparr>) s)"
    using queue_inv_put [of s k e _ "g_grants s"] assms(1,2) by (simp add: gate_inv_def)
  ultimately have "gate_inv (pump k (put_entry k (e\<lparr>se_pumpTimer := None\<rparr>) s))"
    using assms key by (intro pump_gate_inv [where e = "e\<lparr>se_pumpTimer := None\<rparr>"]) (simp_all add: gate_inv_def key_ok_def)
  then show ?thesis by (simp add: pump_fire_def assms(2))
qed

lemma gc_fire_keeps:
  assumes "gate_inv s" and "g_entries s k = Some e" and "se_gcTimer e = Some due" and "due \<le> g_now s"
  shows "gate_inv (gc_fire k s)"
proof -
  have key: "key_ok (g_now s) (Some e) (g_grants s k)" using assms(1,2) by (metis gate_inv_key)
  then have idle: "\<not> se_locked e" "se_waiters e = []" and cool: "cooled (g_now s) (g_grants s k)"
    using assms(3,4) by (auto simp: key_ok_def timers_ok_def entry_ok_def cooled_def split: if_splits option.splits list.splits)
  have "queue_ids (s\<lparr>g_entries := (g_entries s)(k := None)\<rparr>) = queue_ids s"
    using assms(2) idle(2) by (auto simp: queue_ids_def fun_eq_iff)
  with assms(1,2) idle cool key show ?thesis
    by (simp add: gc_fire_def gate_inv_def queue_inv_def) (auto simp: key_ok_def)
qed

lemma gate_next_keeps: "gate_next s s' \<Longrightarrow> gate_inv s \<Longrightarrow> gate_inv s'"
proof (induction rule: gate_next.induct)
  case (passes d s)
  then show ?case by (simp add: gate_inv_def key_ok_later queue_inv_def)
qed (simp_all add: acquire_keeps release_keeps fail_keeps pump_fire_keeps gc_fire_keeps)

lemma gate_reached_inv: "gate_reached s \<Longrightarrow> gate_inv s"
proof (induction rule: gate_reached.induct)
  case (start now)
  then show ?case
    by (simp add: gate_inv_def createKeyedSerialGate_def key_ok_def grants_ok_def cooled_def queue_inv_def queue_ids_def)
qed (rule gate_next_keeps)

subsection \<open>The properties\<close>

text \<open>
  C30. The serial gate spaces its grants: whatever the interleaving of acquires, releases, timeouts,
  aborts and timers, at most one grant of a key is unreleased, and between the first release of a
  grant and the next grant of that key lies at least the delay of the new one or the delay of the
  old one, whichever is shorter (the shorter one, since an idle key forgets its stamp after the old delay).
\<close>
theorem serial_gate_spacing:
  assumes "gate_reached s"
  shows "length (filter (\<lambda>g. sg_released g = None) (g_grants s k)) \<le> 1 \<and>
    (if Suc n < length (g_grants s k)
     then \<exists>t. sg_released (g_grants s k ! n) = Some t \<and> sg_at (g_grants s k ! n) \<le> t \<and>
            t \<le> sg_at (g_grants s k ! Suc n) \<and>
            t + min (sg_delayMs (g_grants s k ! n)) (sg_delayMs (g_grants s k ! Suc n)) \<le> sg_at (g_grants s k ! Suc n)
     else True)"
proof -
  let ?gs = "g_grants s k"
  have gap: "Suc m < length ?gs \<Longrightarrow> gap_ok (?gs ! m) (?gs ! Suc m)" for m
    using gate_inv_key [OF gate_reached_inv [OF assms], of k] by (simp add: key_ok_def grants_ok_def)
  have "sg_released g \<noteq> None" if mem: "g \<in> set (butlast ?gs)" for g
  proof -
    from mem obtain m where "m < length ?gs - 1" and "g = butlast ?gs ! m" by (auto simp: in_set_conv_nth)
    then have "Suc m < length ?gs" "g = ?gs ! m" by (auto simp: nth_butlast)
    with gap [of m] show ?thesis by (auto simp: gap_ok_def split: option.splits)
  qed
  then have "filter (\<lambda>g. sg_released g = None) (butlast ?gs) = []" by (simp add: filter_empty_conv)
  then have "length (filter (\<lambda>g. sg_released g = None) ?gs) \<le> 1"
    by (cases ?gs rule: rev_cases) auto
  with gap [of n] show ?thesis by (auto simp: gap_ok_def split: option.splits)
qed

text \<open>
  No acquire is stranded: a key with a queue either has a live grant, whose release advances the
  queue, or has its timer armed for the instant its head may start, and that timer, whenever it
  fires from then on, grants the head. The queue is in arrival order and each member is unsettled.
\<close>
theorem serial_gate_progress:
  assumes "gate_reached s" and "g_entries s k = Some e" and "se_waiters e = head # rest"
  shows "(if se_locked e then g_grants s k \<noteq> [] \<and> sg_released (last (g_grants s k)) = None
     else case (se_pumpTimer e, se_lastCompletionMs e) of
            (Some due, Some t) \<Rightarrow>
              due = t + sw_delayMs head \<and> sg_released (last (g_grants s k)) = Some t \<and>
              g_results (pump_fire k (s\<lparr>g_now := max due now\<rparr>)) (sw_id head) = Some (Granted k (length (g_grants s k)))
          | _ \<Rightarrow> False) \<and>
    sorted_wrt (<) (map sw_id (head # rest)) \<and> g_results s (sw_id head) = None"
proof -
  have inv: "queue_inv s" and key: "key_ok (g_now s) (Some e) (g_grants s k)"
    using gate_reached_inv [OF assms(1)] assms(2) by (auto simp: gate_inv_def dest: spec [of _ k])
  have ids: "queue_ids s k = map sw_id (head # rest)" using queue_ids_some [OF assms(2)] assms(3) by simp
  then have "sorted_wrt (<) (map sw_id (head # rest))" using inv by (metis queue_inv_def)
  moreover have "g_results s (sw_id head) = None" using queue_member [OF inv, of "sw_id head" k] ids by simp
  moreover have "if se_locked e then g_grants s k \<noteq> [] \<and> sg_released (last (g_grants s k)) = None
     else case (se_pumpTimer e, se_lastCompletionMs e) of
            (Some due, Some t) \<Rightarrow>
              due = t + sw_delayMs head \<and> sg_released (last (g_grants s k)) = Some t \<and>
              g_results (pump_fire k (s\<lparr>g_now := max due now\<rparr>)) (sw_id head) = Some (Granted k (length (g_grants s k)))
          | _ \<Rightarrow> False"
  proof (cases "se_locked e")
    case True
    with key show ?thesis by (simp add: key_ok_def entry_ok_def)
  next
    case False
    with key assms(3) obtain t where t: "se_lastCompletionMs e = Some t" "se_pumpTimer e = Some (t + sw_delayMs head)"
        "sg_released (last (g_grants s k)) = Some t"
      by (auto simp: key_ok_def timers_ok_def entry_ok_def split: option.splits)
    let ?s = "put_entry k (e\<lparr>se_pumpTimer := None\<rparr>) (s\<lparr>g_now := max (t + sw_delayMs head) now\<rparr>)"
    have "g_results (pump k ?s) (sw_id head) = Some (Granted k (length (g_grants s k)))"
      using False assms(3) t(1) by (simp add: pump_def Let_def residualMs_def serial_grant_head_def)
    with False t assms(2) show ?thesis by (simp add: pump_fire_def put_entry_def)
  qed
  ultimately show ?thesis by simp
qed

text \<open>
  \<open>wouldQueue\<close> answers exactly: in every reachable state, an acquire with the same key and delay
  and a live signal is granted at once if and only if \<open>wouldQueue\<close> says it would not wait; otherwise it
  is refused because the queue is full, or its promise is left pending.
\<close>
theorem wouldQueue_exact:
  assumes "gate_reached s" and "\<not> sa_aborted a"
  shows "g_results (serial_acquire a s) (g_fresh s) =
    (if \<not> wouldQueue (sa_key a) (sa_delayMs a) s then Some (Granted (sa_key a) (length (g_grants s (sa_key a))))
     else if int (length (queue_ids s (sa_key a))) \<ge> nullish (sa_maxQueue a) 64 then Some (Refused Serial_queue_full)
     else None)"
proof -
  let ?k = "sa_key a" and ?i = "g_fresh s"
  let ?e = "(nullish (g_entries s ?k) blank_entry)\<lparr>se_gcTimer := None\<rparr>"
  have inv: "queue_inv s" and key: "key_ok (g_now s) (g_entries s ?k) (g_grants s ?k)"
    using gate_reached_inv [OF assms(1)] by (auto simp: gate_inv_def)
  have ids: "queue_ids s ?k = map sw_id (se_waiters ?e)"
    by (cases "g_entries s ?k") (auto simp: queue_ids_def blank_entry_def)
  have len: "length (se_waiters ?e) = length (queue_ids s ?k)" by (simp add: ids)
  have past: "t \<le> g_now s" if "se_lastCompletionMs ?e = Some t" "\<not> se_locked ?e" for t
    using key that
    by (cases "g_entries s ?k") (auto simp: key_ok_def entry_ok_def grants_ok_def blank_entry_def split: if_splits)
  have same: "wouldQueue ?k (sa_delayMs a) s = mustQueue ?e (sa_delayMs a) (g_now s)"
    using past by (cases "g_entries s ?k") (auto simp: wouldQueue_def mustQueue_def blank_entry_def split: option.splits)
  let ?w = "\<lparr>sw_id = ?i, sw_delayMs = sa_delayMs a\<rparr>"
  let ?e1 = "?e\<lparr>se_waiters := se_waiters ?e @ [?w]\<rparr>"
  let ?s1 = "(put_entry ?k ?e1 (put_entry ?k ?e (s\<lparr>g_fresh := Suc ?i\<rparr>)))\<lparr>g_armed := (g_armed s)(?i \<mapsto> ?k)\<rparr>"
  have e1: "g_entries ?s1 ?k = Some ?e1" by simp
  have none: "g_results s ?i = None" using inv by (simp add: queue_inv_def)
  have old: "?i \<notin> sw_id ` set (se_waiters ?e)"
    using queue_member [OF inv, of ?i ?k] ids by auto
  consider (free) "\<not> mustQueue ?e (sa_delayMs a) (g_now s)"
    | (full) "mustQueue ?e (sa_delayMs a) (g_now s)" "int (length (queue_ids s ?k)) \<ge> nullish (sa_maxQueue a) 64"
    | (waits) "mustQueue ?e (sa_delayMs a) (g_now s)" "\<not> int (length (queue_ids s ?k)) \<ge> nullish (sa_maxQueue a) 64"
    by blast
  then show ?thesis
  proof cases
    case free
    have "g_results (pump ?k ?s1) ?i = Some (Granted ?k (length (g_grants s ?k)))"
      by (rule pump_cases [OF e1]) (use free in \<open>auto simp: mustQueue_def residualMs_def split: option.splits\<close>)
    with free assms(2) show ?thesis by (simp add: serial_acquire_def Let_def same)
  next
    case full
    then show ?thesis using assms(2) same len by (simp add: serial_acquire_def Let_def settle_def)
  next
    case waits
    have "g_results (pump ?k ?s1) ?i = None"
      by (rule pump_cases [OF e1])
        (use waits none old in \<open>auto simp: mustQueue_def residualMs_def Cons_eq_append_conv append_eq_Cons_conv split: option.splits\<close>)
    then show ?thesis using waits assms(2) same len by (auto simp: serial_acquire_def Let_def)
  qed
qed

subsection \<open>A run: one grant, one queued acquire, a release, the delay, the second grant\<close>

definition demo_ask :: serial_acquire_args where
  "demo_ask = \<lparr>sa_key = ''acct'', sa_delayMs = 100, sa_maxQueue = None, sa_aborted = False\<rparr>"

definition demo_waiting :: gate where
  "demo_waiting = serial_release ''acct'' 0
     ((serial_acquire demo_ask (serial_acquire demo_ask (createKeyedSerialGate 0)))\<lparr>g_now := 5\<rparr>)"

definition demo_second :: gate where
  "demo_second = pump_fire ''acct'' (demo_waiting\<lparr>g_now := 105\<rparr>)"

lemma demo_waiting_state:
  "demo_waiting =
     \<lparr>g_entries = [''acct'' \<mapsto> \<lparr>se_locked = False, se_lastCompletionMs = Some 5, se_lastDelayMs = 100,
         se_waiters = [\<lparr>sw_id = 1, sw_delayMs = 100\<rparr>], se_pumpTimer = Some 105, se_gcTimer = None\<rparr>],
      g_grants = (\<lambda>_. [])(''acct'' := [\<lparr>sg_at = 0, sg_delayMs = 100, sg_released = Some 5\<rparr>]),
      g_results = [0 \<mapsto> Granted ''acct'' 0], g_armed = [1 \<mapsto> ''acct''], g_fresh = 2, g_now = 5\<rparr>"
  by (simp add: demo_waiting_def demo_ask_def createKeyedSerialGate_def serial_acquire_def serial_release_def Let_def
      pump_def put_entry_def mustQueue_def blank_entry_def residualMs_def serial_grant_head_def)

lemma demo_second_grants:
  "g_grants demo_second ''acct'' =
     [\<lparr>sg_at = 0, sg_delayMs = 100, sg_released = Some 5\<rparr>, \<lparr>sg_at = 105, sg_delayMs = 100, sg_released = None\<rparr>]"
  by (simp add: demo_second_def demo_waiting_state pump_fire_def pump_def Let_def put_entry_def residualMs_def serial_grant_head_def)

lemma demo_reached: "gate_reached demo_waiting" "gate_reached demo_second"
proof -
  let ?two = "serial_acquire demo_ask (serial_acquire demo_ask (createKeyedSerialGate 0))"
  have "gate_reached ?two"
    by (rule gate_reached.step [OF gate_reached.step [OF gate_reached.start gate_next.acquire] gate_next.acquire])
  then have "gate_reached (?two\<lparr>g_now := g_now ?two + 5\<rparr>)"
    by (rule gate_reached.step) (simp add: gate_next.passes)
  moreover have "g_now ?two = 0"
    by (simp add: demo_ask_def serial_acquire_def Let_def pump_frame settle_def createKeyedSerialGate_def)
  ultimately have "gate_reached (serial_release ''acct'' 0 (?two\<lparr>g_now := 5\<rparr>))"
    by (auto intro: gate_reached.step gate_next.release)
  then show w: "gate_reached demo_waiting" by (simp add: demo_waiting_def)
  then have "gate_reached (demo_waiting\<lparr>g_now := g_now demo_waiting + 100\<rparr>)"
    by (rule gate_reached.step) (simp add: gate_next.passes)
  then have "gate_reached (demo_waiting\<lparr>g_now := 105\<rparr>)" by (simp add: demo_waiting_state)
  then show "gate_reached demo_second"
    unfolding demo_second_def
    by (rule gate_reached.step) (rule gate_next.pump_timer [where due = 105], (simp add: demo_waiting_state)+)
qed

theorem serial_gate_spacing_witness:
  "\<exists>t. sg_released (g_grants demo_second ''acct'' ! 0) = Some t \<and> t + 100 \<le> 105"
  using serial_gate_spacing [OF demo_reached(2), of "''acct''" 0] by (simp add: demo_second_grants)

theorem serial_gate_progress_witness:
  "g_results (pump_fire ''acct'' (demo_waiting\<lparr>g_now := 105\<rparr>)) 1 = Some (Granted ''acct'' 1)"
  using serial_gate_progress [OF demo_reached(1), of "''acct''" _ "\<lparr>sw_id = 1, sw_delayMs = 100\<rparr>" "[]" 105]
  by (simp add: demo_waiting_state)

theorem wouldQueue_exact_witness:
  "wouldQueue ''acct'' 100 demo_waiting \<and> g_results (serial_acquire demo_ask demo_waiting) 2 = None"
  using wouldQueue_exact [OF demo_reached(1), of demo_ask]
  by (simp add: demo_waiting_state demo_ask_def wouldQueue_def queue_ids_def)

end
