(* ===== verification/Js_Text.thy ===== *)
theory Js_Text
  imports Prelude
begin

text \<open>
  The JavaScript string operations and regular expressions that the model-name matching uses, over
  strings of code points below 256 (Latin-1, which contains every model id and lane name of the
  shipped configuration). On that range \<open>toLowerCase\<close> and the simple case folding of the \<open>iu\<close>
  flags agree.
\<close>

subsection \<open>Characters and strings\<close>

definition lower_char :: "char \<Rightarrow> char" where
  "lower_char c =
     (let n = of_char c :: nat
      in if (65 \<le> n \<and> n \<le> 90) \<or> (192 \<le> n \<and> n \<le> 222 \<and> n \<noteq> 215) then char_of (n + 32) else c)"

definition toLowerCase :: "string \<Rightarrow> string" where
  "toLowerCase = map lower_char"

definition js_space :: "char \<Rightarrow> bool" where
  "js_space c = (let n = of_char c :: nat in (9 \<le> n \<and> n \<le> 13) \<or> n = 32 \<or> n = 160)"

definition trim :: "string \<Rightarrow> string" where
  "trim s = rev (dropWhile js_space (rev (dropWhile js_space s)))"

text \<open>What the regular expression dot does not match (no \<open>s\<close> flag).\<close>

definition line_terminator :: "char \<Rightarrow> bool" where
  "line_terminator c = (let n = of_char c :: nat in n = 10 \<or> n = 13)"

lemma of_char_bound: "(of_char c :: nat) < 256"
  using of_char_mod_256 [of c, where 'a = nat] by (metis mod_less_divisor zero_less_numeral)

lemma lower_char_idem [simp]: "lower_char (lower_char c) = lower_char c"
proof -
  have "(of_char (char_of (n + 32) :: char) :: nat) = n + 32" if "n \<le> 222" for n
    using that by simp
  then show ?thesis by (auto simp: lower_char_def Let_def)
qed

lemma toLowerCase_idem [simp]: "toLowerCase (toLowerCase s) = toLowerCase s"
  by (simp add: toLowerCase_def o_def)

lemma toLowerCase_length [simp]: "length (toLowerCase s) = length s"
  by (simp add: toLowerCase_def)

lemma toLowerCase_Nil [simp]: "toLowerCase [] = []" "toLowerCase s = [] \<longleftrightarrow> s = []"
  by (simp_all add: toLowerCase_def)

subsection \<open>Anchored glob expressions\<close>

text \<open>
  The regular expressions the program builds from a glob: literals, \<open>.\<close> and \<open>.*\<close> between the
  anchors. The flag says whether matching ignores case.
\<close>

datatype rx_atom = Lit char | Any_char | Any_run

fun rx_match :: "bool \<Rightarrow> rx_atom list \<Rightarrow> string \<Rightarrow> bool" where
  "rx_match ci [] s = (s = [])"
| "rx_match ci (Lit c # p) [] = False"
| "rx_match ci (Lit c # p) (x # s) =
     ((if ci then lower_char c = lower_char x else c = x) \<and> rx_match ci p s)"
| "rx_match ci (Any_char # p) [] = False"
| "rx_match ci (Any_char # p) (x # s) = (\<not> line_terminator x \<and> rx_match ci p s)"
| "rx_match ci (Any_run # p) [] = rx_match ci p []"
| "rx_match ci (Any_run # p) (x # s) =
     (rx_match ci p (x # s) \<or> (\<not> line_terminator x \<and> rx_match ci (Any_run # p) s))"

lemma rx_run:
  "rx_match ci (Any_run # p) s \<longleftrightarrow>
   (\<exists>u v. s = u @ v \<and> (\<forall>x \<in> set u. \<not> line_terminator x) \<and> rx_match ci p v)"
proof (induction s)
  case Nil
  then show ?case by simp
next
  case (Cons x s)
  show ?case
  proof
    assume "rx_match ci (Any_run # p) (x # s)"
    then consider "rx_match ci p (x # s)" | "\<not> line_terminator x" "rx_match ci (Any_run # p) s" by auto
    then show "\<exists>u v. x # s = u @ v \<and> (\<forall>y \<in> set u. \<not> line_terminator y) \<and> rx_match ci p v"
    proof cases
      case 1
      then show ?thesis by (intro exI [of _ "[]"] exI [of _ "x # s"]) simp
    next
      case 2
      then obtain u v where "s = u @ v" "\<forall>y \<in> set u. \<not> line_terminator y" "rx_match ci p v"
        using Cons.IH by blast
      with 2 show ?thesis by (intro exI [of _ "x # u"] exI [of _ v]) simp
    qed
  next
    assume "\<exists>u v. x # s = u @ v \<and> (\<forall>y \<in> set u. \<not> line_terminator y) \<and> rx_match ci p v"
    then obtain u v where *: "x # s = u @ v" "\<forall>y \<in> set u. \<not> line_terminator y" "rx_match ci p v" by blast
    show "rx_match ci (Any_run # p) (x # s)"
    proof (cases u)
      case Nil
      with *(1) have "v = x # s" by simp
      with *(3) show ?thesis by simp
    next
      case (Cons y u')
      with * Cons.IH show ?thesis by auto
    qed
  qed
qed

lemma rx_lits: "rx_match False (map Lit p) s \<longleftrightarrow> s = p"
proof (induction p arbitrary: s)
  case (Cons a p)
  then show ?case by (cases s) auto
qed simp

text \<open>Case-insensitive matching sees only the lower-case forms.\<close>

lemma line_terminator_lower [simp]: "line_terminator (lower_char c) = line_terminator c"
proof -
  have "(of_char (char_of (n + 32) :: char) :: nat) = n + 32" if "n \<le> 222" for n
    using that by simp
  then show ?thesis by (auto simp: lower_char_def line_terminator_def Let_def)
qed

lemma rx_lower: "rx_match True p (toLowerCase s) = rx_match True p s"
proof (induction "True" p s rule: rx_match.induct)
qed (simp_all add: toLowerCase_def)

subsection \<open>Substrings\<close>

definition includes_char :: "char \<Rightarrow> string \<Rightarrow> bool" where
  "includes_char c s = (c \<in> set s)"

text \<open>\<open>indexOf\<close> of a character: the first position, or none.\<close>

fun index_of :: "char \<Rightarrow> string \<Rightarrow> nat option" where
  "index_of c [] = None"
| "index_of c (x # s) = (if x = c then Some 0 else map_option Suc (index_of c s))"

text \<open>\<open>includes\<close> for a substring, \<open>startsWith\<close> and \<open>endsWith\<close>.\<close>

definition startsWith :: "string \<Rightarrow> string \<Rightarrow> bool" where
  "startsWith p s = (take (length p) s = p)"

definition endsWith :: "string \<Rightarrow> string \<Rightarrow> bool" where
  "endsWith p s = startsWith (rev p) (rev s)"

fun has_text :: "string \<Rightarrow> string \<Rightarrow> bool" where
  "has_text p [] = (p = [])"
| "has_text p (c # s) = (startsWith p (c # s) \<or> has_text p s)"

lemma startsWith_iff: "startsWith p s \<longleftrightarrow> (\<exists>t. s = p @ t)"
  by (auto simp: startsWith_def) (metis append_take_drop_id)

lemma endsWith_iff: "endsWith p s \<longleftrightarrow> (\<exists>t. s = t @ p)"
  by (auto simp: endsWith_def startsWith_iff) (metis rev_append rev_rev_ident)

lemma has_text_iff: "has_text p s \<longleftrightarrow> (\<exists>a b. s = a @ p @ b)"
proof (induction s)
  case (Cons c s)
  show ?case
  proof
    assume "has_text p (c # s)"
    then consider "startsWith p (c # s)" | "has_text p s" by auto
    then show "\<exists>a b. c # s = a @ p @ b"
    proof cases
      case 1
      then show ?thesis by (auto simp: startsWith_iff) (metis append_Nil)
    next
      case 2
      then show ?thesis using Cons.IH by (metis append_Cons)
    qed
  next
    assume "\<exists>a b. c # s = a @ p @ b"
    then obtain a b where ab: "c # s = a @ p @ b" by blast
    show "has_text p (c # s)"
    proof (cases a)
      case Nil
      with ab have "startsWith p (c # s)" by (auto simp: startsWith_iff)
      then show ?thesis by simp
    next
      case (Cons d a')
      with ab Cons.IH show ?thesis by auto
    qed
  qed
qed auto

lemma index_of_None: "index_of c s = None \<longleftrightarrow> c \<notin> set s"
  by (induction s) auto

lemma index_of_Some: "index_of c s = Some i \<Longrightarrow> s = take i s @ c # drop (Suc i) s \<and> c \<notin> set (take i s)"
  by (induction s arbitrary: i) (auto split: if_splits)

end
