(* ===== verification/Model_Names.thy ===== *)
theory Model_Names
  imports Js_Text "HOL-Library.Multiset"
begin

text \<open>
  Model names: the per-key block list (\<open>packages/core/src/model-blocking.ts\<close>), the virtual alias
  map (\<open>routing/model-alias.ts\<close>) and the promotion of the requested model within a candidate chain
  (\<open>routing/promote-requested-model.ts\<close>). A configuration object is the association list of its
  entries in insertion order (its keys are names, never array indices or \<open>Object.prototype\<close> members).
\<close>

subsection \<open>Block lists\<close>

record blocked_matcher =
  bm_exact :: "string list"
  bm_wildcard :: "rx_atom list list"

definition containsWildcard :: "string \<Rightarrow> bool" where
  "containsWildcard p = (includes_char (CHR ''*'') p \<or> includes_char (CHR ''?'') p)"

definition glob_atom :: "char \<Rightarrow> rx_atom" where
  "glob_atom c = (if c = CHR ''*'' then Any_run else if c = CHR ''?'' then Any_char else Lit c)"

definition globToRegExp :: "string \<Rightarrow> rx_atom list" where
  "globToRegExp p = map glob_atom p"

text \<open>The loop body: a blank pattern is skipped, a glob is compiled, a plain name is lower-cased.\<close>

fun collect_patterns :: "string list \<Rightarrow> string list \<Rightarrow> rx_atom list list \<Rightarrow> blocked_matcher" where
  "collect_patterns [] exact wildcard = \<lparr>bm_exact = exact, bm_wildcard = wildcard\<rparr>"
| "collect_patterns (raw # raws) exact wildcard =
     (let p = trim raw in
      if p = [] then collect_patterns raws exact wildcard
      else if containsWildcard p then collect_patterns raws exact (wildcard @ [globToRegExp p])
      else collect_patterns raws (List.insert (toLowerCase p) exact) wildcard)"

definition createBlockedModelMatcher :: "string list option \<Rightarrow> blocked_matcher option" where
  "createBlockedModelMatcher blockedModels =
     (case blockedModels of
        None \<Rightarrow> None
      | Some raws \<Rightarrow>
          if raws = [] then None
          else
            let m = collect_patterns raws [] []
            in if bm_exact m = [] \<and> bm_wildcard m = [] then None else Some m)"

definition blocks :: "blocked_matcher \<Rightarrow> string \<Rightarrow> bool" where
  "blocks m model =
     (if toLowerCase model \<in> set (bm_exact m) then True
      else list_ex (\<lambda>p. rx_match True p model) (bm_wildcard m))"

text \<open>What one configured pattern means, and the matcher's meaning as the union of its patterns.\<close>

definition pattern_blocks :: "string \<Rightarrow> string \<Rightarrow> bool" where
  "pattern_blocks raw model =
     (let p = trim raw in
      p \<noteq> [] \<and>
      (if containsWildcard p then rx_match True (globToRegExp p) model
       else toLowerCase model = toLowerCase p))"

lemma blocks_add:
  "blocks \<lparr>bm_exact = List.insert x ex, bm_wildcard = wi\<rparr> model \<longleftrightarrow>
     toLowerCase model = x \<or> blocks \<lparr>bm_exact = ex, bm_wildcard = wi\<rparr> model"
  "blocks \<lparr>bm_exact = ex, bm_wildcard = wi @ [p]\<rparr> model \<longleftrightarrow>
     rx_match True p model \<or> blocks \<lparr>bm_exact = ex, bm_wildcard = wi\<rparr> model"
  by (auto simp: blocks_def)

lemma collect_blocks:
  "blocks (collect_patterns raws ex wi) model \<longleftrightarrow>
   blocks \<lparr>bm_exact = ex, bm_wildcard = wi\<rparr> model \<or> list_ex (\<lambda>raw. pattern_blocks raw model) raws"
proof (induction raws arbitrary: ex wi)
  case (Cons raw raws)
  consider "trim raw = []" | "trim raw \<noteq> []" "containsWildcard (trim raw)"
    | "trim raw \<noteq> []" "\<not> containsWildcard (trim raw)" by blast
  then show ?case
    by cases (auto simp: Let_def Cons.IH blocks_add pattern_blocks_def)
qed simp

lemma collect_empty:
  "bm_exact (collect_patterns raws ex wi) = [] \<and> bm_wildcard (collect_patterns raws ex wi) = [] \<Longrightarrow>
   ex = [] \<and> wi = [] \<and> list_all (\<lambda>raw. trim raw = []) raws"
proof (induction raws ex wi rule: collect_patterns.induct)
  case (2 raw raws ex wi)
  then show ?case by (auto simp: Let_def List.insert_def split: if_splits)
qed simp

definition model_blocked :: "string list option \<Rightarrow> string \<Rightarrow> bool" where
  "model_blocked blockedModels model =
     (case createBlockedModelMatcher blockedModels of None \<Rightarrow> False | Some m \<Rightarrow> blocks m model)"

text \<open>
  A key's block list means the union of its patterns: the compiled matcher (none at all when no
  pattern survives) blocks a model exactly when some pattern of the list, trimmed and non-blank,
  matches it: literally up to case, or as a case-insensitive anchored glob.
\<close>
theorem block_list_meaning:
  "model_blocked blockedModels model \<longleftrightarrow> list_ex (\<lambda>raw. pattern_blocks raw model) (nullish blockedModels [])"
proof (cases blockedModels)
  case None
  then show ?thesis by (simp add: model_blocked_def createBlockedModelMatcher_def)
next
  case (Some raws)
  let ?m = "collect_patterns raws [] []"
  have m: "blocks ?m model \<longleftrightarrow> list_ex (\<lambda>raw. pattern_blocks raw model) raws"
    by (simp add: collect_blocks) (simp add: blocks_def)
  show ?thesis
  proof (cases "bm_exact ?m = [] \<and> bm_wildcard ?m = []")
    case True
    then have "\<not> blocks ?m model" by (simp add: blocks_def)
    with m Some True show ?thesis
      by (simp add: model_blocked_def createBlockedModelMatcher_def Let_def)
  next
    case False
    with m Some show ?thesis
      by (auto simp: model_blocked_def createBlockedModelMatcher_def Let_def)
  qed
qed

lemma pattern_blocks_case: "pattern_blocks raw (toLowerCase model) = pattern_blocks raw model"
  by (simp add: pattern_blocks_def Let_def rx_lower)

text \<open>Case never matters to a block list.\<close>

lemma model_blocked_case: "model_blocked b (toLowerCase model) = model_blocked b model"
proof (cases "createBlockedModelMatcher b")
  case (Some m)
  then show ?thesis by (simp add: model_blocked_def blocks_def rx_lower)
qed (simp add: model_blocked_def)

subsection \<open>Virtual aliases\<close>

type_synonym alias_map = "(string \<times> string) list"

definition starCount :: "string \<Rightarrow> nat" where
  "starCount p = length (filter (\<lambda>c. c = CHR ''*'') p)"

definition alias_atom :: "char \<Rightarrow> rx_atom" where
  "alias_atom c = (if c = CHR ''*'' then Any_run else Lit c)"

definition globMatch :: "string \<Rightarrow> string \<Rightarrow> bool" where
  "globMatch p model = rx_match False (map alias_atom p) model"

fun best_glob :: "string \<Rightarrow> alias_map \<Rightarrow> (string \<times> nat) option \<Rightarrow> (string \<times> nat) option" where
  "best_glob model [] best = best"
| "best_glob model ((p, target) # es) best =
     (if \<not> includes_char (CHR ''*'') p then best_glob model es best
      else if \<not> globMatch p model then best_glob model es best
      else
        let literals = length p - starCount p
        in best_glob model es
             (case best of
                None \<Rightarrow> Some (target, literals)
              | Some (t, n) \<Rightarrow> if literals > n then Some (target, literals) else best))"

definition resolveModelAlias :: "string \<Rightarrow> alias_map option \<Rightarrow> string option" where
  "resolveModelAlias model m =
     (case m of
        None \<Rightarrow> None
      | Some es \<Rightarrow>
          (case map_of es model of
             Some target \<Rightarrow> Some target
           | None \<Rightarrow> map_option fst (best_glob model es None)))"

definition validateModelAliasTargets :: "alias_map option \<Rightarrow> lane_name list \<Rightarrow> string list" where
  "validateModelAliasTargets m laneNames =
     (case m of
        None \<Rightarrow> []
      | Some es \<Rightarrow>
          map (\<lambda>(p, target). ''model alias \"'' @ p @ ''\" -> unknown lane \"'' @ target @
               ''\" (expected a lane name or \"auto\")'')
            (filter (\<lambda>(p, target). \<not> (target = ''auto'' \<or> target \<in> set laneNames)) es))"

text \<open>The globs that apply to a model, with their literal counts.\<close>

definition applicable :: "string \<Rightarrow> alias_map \<Rightarrow> (string \<times> nat) list" where
  "applicable model es =
     map (\<lambda>(p, t). (t, length p - starCount p))
       (filter (\<lambda>(p, t). includes_char (CHR ''*'') p \<and> globMatch p model) es)"

fun first_max :: "(string \<times> nat) option \<Rightarrow> (string \<times> nat) list \<Rightarrow> (string \<times> nat) option" where
  "first_max best [] = best"
| "first_max best (c # cs) =
     first_max (case best of None \<Rightarrow> Some c | Some b \<Rightarrow> if snd c > snd b then Some c else best) cs"

lemma best_glob_first_max: "best_glob model es best = first_max best (applicable model es)"
proof (induction model es best rule: best_glob.induct)
  case (2 model p t es best)
  then show ?case
    by (cases best) (auto simp: applicable_def Let_def)
qed (simp add: applicable_def)

lemma ex_split_Cons:
  "(\<exists>xs ys. a # cs = xs @ c # ys \<and> P xs ys) \<longleftrightarrow>
   (c = a \<and> P [] cs) \<or> (\<exists>xs ys. cs = xs @ c # ys \<and> P (a # xs) ys)"
  by (auto simp: Cons_eq_append_conv)

definition leads :: "(string \<times> nat) \<Rightarrow> (string \<times> nat) list \<Rightarrow> (string \<times> nat) list \<Rightarrow> bool" where
  "leads c xs ys \<longleftrightarrow> (\<forall>d \<in> set xs. snd d < snd c) \<and> (\<forall>d \<in> set ys. snd d \<le> snd c)"

lemma leads_Cons [simp]: "leads c (a # xs) ys \<longleftrightarrow> snd a < snd c \<and> leads c xs ys"
  "leads c [] (a # ys) \<longleftrightarrow> snd a \<le> snd c \<and> leads c [] ys" "leads c [] []"
  by (auto simp: leads_def)

lemma first_max_Some:
  "first_max (Some b) cs = Some c \<longleftrightarrow>
   (c = b \<and> leads b [] cs) \<or> (\<exists>xs ys. cs = xs @ c # ys \<and> snd b < snd c \<and> leads c xs ys)"
proof (induction cs arbitrary: b)
  case (Cons a cs)
  show ?case
  proof (cases "snd b < snd a")
    case True
    with Cons.IH [of a] show ?thesis by (auto simp: ex_split_Cons)
  next
    case False
    with Cons.IH [of b] show ?thesis by (auto simp: ex_split_Cons)
  qed
qed auto

lemma first_max_None: "first_max None cs = Some c \<longleftrightarrow> (\<exists>xs ys. cs = xs @ c # ys \<and> leads c xs ys)"
proof (cases cs)
  case (Cons a cs')
  with first_max_Some [of a cs' c] show ?thesis by (auto simp: ex_split_Cons)
qed simp

lemma first_max_exists: "first_max best cs = None \<longleftrightarrow> best = None \<and> cs = []"
  by (induction best cs rule: first_max.induct) (auto split: option.splits if_splits)

text \<open>
  Alias resolution: an exact key wins outright; otherwise the answer is the target of the
  applicable glob with the most literal characters, the first declared among equals; and there is
  no answer exactly when no key is exact and no glob applies.
\<close>
theorem alias_resolution:
  "resolveModelAlias model (Some es) =
     (case map_of es model of
        Some target \<Rightarrow> Some target
      | None \<Rightarrow> resolveModelAlias model (Some (filter (\<lambda>(p, t). includes_char (CHR ''*'') p) es))) \<and>
   (map_of es model = None \<longrightarrow>
      (resolveModelAlias model (Some es) = None \<longleftrightarrow> applicable model es = []) \<and>
      (resolveModelAlias model (Some es) = Some target \<longrightarrow>
         (\<exists>n xs ys. applicable model es = xs @ (target, n) # ys \<and> leads (target, n) xs ys)))"
proof -
  have app: "applicable model (filter (\<lambda>(p, t). includes_char (CHR ''*'') p) es) = applicable model es"
    by (simp add: applicable_def) (metis (no_types, lifting) case_prod_beta)
  have sub: "map_of es model = None \<Longrightarrow> map_of (filter (\<lambda>(p, t). includes_char (CHR ''*'') p) es) model = None"
    by (auto simp: map_of_eq_None_iff)
  show ?thesis
    using app sub
    by (auto simp: resolveModelAlias_def best_glob_first_max first_max_exists first_max_None split: option.split)
qed

theorem alias_resolution_witness:
  "resolveModelAlias ''claude-opus-4'' (Some [(''claude-*'', ''balanced''), (''claude-opus-*'', ''premium'')]) = Some ''premium''"
proof -
  have "applicable ''claude-opus-4'' [(''claude-*'', ''balanced''), (''claude-opus-*'', ''premium'')] =
      [(''balanced'', 7), (''premium'', 12)]"
    by code_simp
  with alias_resolution [of "''claude-opus-4''" "[(''claude-*'', ''balanced''), (''claude-opus-*'', ''premium'')]" "''premium''"]
  show ?thesis
    by (auto simp: resolveModelAlias_def best_glob_first_max)
qed

subsection \<open>Promotion of the requested model\<close>

definition modelIdOf :: "string \<Rightarrow> string" where
  "modelIdOf alias =
     (case index_of (CHR ''/'') alias of
        Some i \<Rightarrow> if i > 0 then drop (Suc i) alias else alias
      | None \<Rightarrow> alias)"

definition normalizeModelId :: "string \<Rightarrow> string" where
  "normalizeModelId s = map (\<lambda>c. if c = CHR ''.'' then CHR ''-'' else c) (toLowerCase (trim s))"

fun find_index :: "('a \<Rightarrow> bool) \<Rightarrow> 'a list \<Rightarrow> nat option" where
  "find_index P [] = None"
| "find_index P (x # xs) = (if P x then Some 0 else map_option Suc (find_index P xs))"

definition promoteRequestedModel :: "string list \<Rightarrow> string \<Rightarrow> string list" where
  "promoteRequestedModel chain requestedModel =
     (let want = normalizeModelId requestedModel in
      if want = [] \<or> want = ''auto'' then chain
      else
        (case find_index (\<lambda>alias. normalizeModelId (modelIdOf alias) = want) chain of
           None \<Rightarrow> chain
         | Some idx \<Rightarrow>
             if idx = 0 then chain
             else chain ! idx # take idx chain @ drop (Suc idx) chain))"

lemma find_index_Some:
  "find_index P xs = Some i \<Longrightarrow>
   i < length xs \<and> P (xs ! i) \<and> xs = take i xs @ xs ! i # drop (Suc i) xs \<and> (\<forall>x \<in> set (take i xs). \<not> P x)"
proof (induction xs arbitrary: i)
  case (Cons x xs)
  then show ?case by (cases "P x") auto
qed simp

lemma find_index_None: "find_index P xs = None \<longleftrightarrow> (\<forall>x \<in> set xs. \<not> P x)"
  by (induction xs) auto

lemma promote_split:
  obtains "promoteRequestedModel chain m = chain"
  | pre x post where "chain = pre @ x # post" "promoteRequestedModel chain m = x # pre @ post"
proof (cases "find_index (\<lambda>alias. normalizeModelId (modelIdOf alias) = normalizeModelId m) chain")
  case None
  then show thesis using that(1) by (simp add: promoteRequestedModel_def Let_def)
next
  case (Some i)
  note c = find_index_Some [OF this]
  show thesis
  proof (cases "promoteRequestedModel chain m = chain")
    case False
    with Some have "promoteRequestedModel chain m = chain ! i # take i chain @ drop (Suc i) chain"
      by (auto simp: promoteRequestedModel_def Let_def split: if_splits)
    with c show thesis by (intro that(2) [of "take i chain" "chain ! i" "drop (Suc i) chain"]) simp_all
  qed (rule that(1))
qed

lemma promote_set [simp]: "set (promoteRequestedModel chain m) = set chain"
  by (cases rule: promote_split [of chain m]) auto

lemma promote_mset: "mset (promoteRequestedModel chain m) = mset chain"
  by (cases rule: promote_split [of chain m]) auto

lemma promote_distinct [simp]: "distinct (promoteRequestedModel chain m) = distinct chain"
  by (cases rule: promote_split [of chain m]) auto

lemma promote_nil [simp]: "promoteRequestedModel chain [] = chain"
  by (simp add: promoteRequestedModel_def normalizeModelId_def trim_def)

text \<open>
  Promotion only reorders: the promoted chain is a permutation of the declared one in which the
  other candidates keep their order; and when the client named a real model that the chain holds,
  the first candidate with that model id leads.
\<close>
theorem promotion_reorders:
  "mset (promoteRequestedModel chain m) = mset chain \<and>
   (let want = normalizeModelId m; named = (\<lambda>alias. normalizeModelId (modelIdOf alias) = want) in
    if want = [] \<or> want = ''auto'' \<or> \<not> list_ex named chain then promoteRequestedModel chain m = chain
    else let x = hd (filter named chain) in promoteRequestedModel chain m = x # remove1 x chain)"
proof -
  let ?n = "\<lambda>alias. normalizeModelId (modelIdOf alias) = normalizeModelId m"
  have "promoteRequestedModel chain m = hd (filter ?n chain) # remove1 (hd (filter ?n chain)) chain"
    if want: "normalizeModelId m \<noteq> []" "normalizeModelId m \<noteq> ''auto''" and ex: "list_ex ?n chain"
  proof -
    from ex obtain i where i: "find_index ?n chain = Some i"
      by (metis (mono_tags, lifting) find_index_None list_ex_iff not_None_eq)
    note c = find_index_Some [OF i]
    define pre x post where "pre = take i chain" and "x = chain ! i" and "post = drop (Suc i) chain"
    from c have ch: "chain = pre @ x # post" and x: "?n x" and pre: "\<forall>y \<in> set pre. \<not> ?n y"
      by (simp_all add: pre_def x_def post_def)
    have hd: "hd (filter ?n chain) = x" using pre x by (simp add: ch)
    have rem: "remove1 x chain = pre @ post" using pre x by (auto simp: ch remove1_append)
    have "promoteRequestedModel chain m = x # pre @ post"
    proof (cases i)
      case 0
      then have "pre = []" by (simp add: pre_def)
      with 0 i want ch show ?thesis by (simp add: promoteRequestedModel_def Let_def)
    next
      case (Suc j)
      with i want show ?thesis by (simp add: promoteRequestedModel_def Let_def pre_def x_def post_def)
    qed
    with hd rem show ?thesis by simp
  qed
  moreover have "promoteRequestedModel chain m = chain" if "\<not> list_ex ?n chain"
    using that find_index_None [of ?n chain]
    by (simp add: promoteRequestedModel_def Let_def list_ex_iff)
  moreover have "promoteRequestedModel chain m = chain" if "normalizeModelId m = [] \<or> normalizeModelId m = ''auto''"
    using that by (auto simp: promoteRequestedModel_def Let_def)
  ultimately show ?thesis by (simp add: promote_mset Let_def)
qed

theorem promotion_reorders_witness:
  "promoteRequestedModel [''openai/gpt-5.5'', ''anthropic/claude-4'', ''gpt-5-5''] ''GPT-5.5'' =
     [''openai/gpt-5.5'', ''anthropic/claude-4'', ''gpt-5-5''] \<and>
   promoteRequestedModel [''anthropic/claude-4'', ''openai/gpt-5.5''] ''GPT-5.5'' = [''openai/gpt-5.5'', ''anthropic/claude-4'']"
proof -
  have n: "normalizeModelId ''GPT-5.5'' = ''gpt-5-5''" "normalizeModelId (modelIdOf ''openai/gpt-5.5'') = ''gpt-5-5''"
    "normalizeModelId (modelIdOf ''anthropic/claude-4'') = ''claude-4''" "normalizeModelId (modelIdOf ''gpt-5-5'') = ''gpt-5-5''"
    by code_simp+
  show ?thesis
    using promotion_reorders [of "[''openai/gpt-5.5'', ''anthropic/claude-4'', ''gpt-5-5'']" "''GPT-5.5''"]
      promotion_reorders [of "[''anthropic/claude-4'', ''openai/gpt-5.5'']" "''GPT-5.5''"]
    by (simp add: n Let_def)
qed

end
