(* ===== verification/Lanes.thy ===== *)
theory Lanes
  imports Prelude
begin

text \<open>
  Lanes (\<open>packages/shared/src/config/lanes-schema.ts\<close>), the expansion of a lane into its ordered
  candidate chain (\<open>packages/core/src/lanes/expand-chain.ts\<close>) and the lane resolver
  (\<open>routing/lane-resolver.ts\<close>). The lanes object is the association list of its entries in
  insertion order; \<open>Object.hasOwn\<close> and the index are \<open>map_of\<close>.
\<close>

subsection \<open>Configuration\<close>

datatype reasoning_effort = Effort_none | Minimal | Low | Medium | High | Xhigh | Max_effort

record lane_constraints =
  require_tools :: bool
  require_json :: bool
  require_vision :: bool
  min_context_tokens :: "int option"
  max_latency_ms :: "int option"

record lane =
  purpose :: "string option"
  primary :: string
  fallback :: "string list"
  ln_constraints :: lane_constraints
  ln_reasoning_effort :: "reasoning_effort option"

type_synonym lanes_config = "(lane_name \<times> lane) list"

definition hasLane :: "lanes_config \<Rightarrow> lane_name \<Rightarrow> bool" where
  "hasLane lanes l = (map_of lanes l \<noteq> None)"

lemma hasLane_dom: "hasLane lanes l \<longleftrightarrow> l \<in> fst ` set lanes"
  unfolding hasLane_def using map_of_eq_None_iff by metis

definition elements :: "lane \<Rightarrow> string list" where
  "elements la = primary la # fallback la"

subsection \<open>Chain expansion\<close>

text \<open>
  \<open>visit\<close> is a depth-first walk that threads the set of visited lanes and the chain through the
  recursive calls. The pending elements of the enclosing loops are an explicit stack here: visiting
  a lane pushes its elements, in order, before what is still to do. The chain doubles as the
  \<open>seen\<close> set, which holds exactly its elements.
\<close>

definition push_alias :: "string \<Rightarrow> string list \<Rightarrow> string list" where
  "push_alias alias chain = (if alias \<in> set chain then chain else chain @ [alias])"

function visit :: "lanes_config \<Rightarrow> string list \<Rightarrow> string set \<Rightarrow> string list \<Rightarrow> string list" where
  "visit lanes [] visited chain = chain"
| "visit lanes (name # todo) visited chain =
     (if name \<in> visited then visit lanes todo visited chain
      else
        (case map_of lanes name of
           None \<Rightarrow> visit lanes todo visited (push_alias name chain)
         | Some la \<Rightarrow> visit lanes (elements la @ todo) (insert name visited) chain))"
  by pat_completeness auto

definition unvisited :: "lanes_config \<Rightarrow> string set \<Rightarrow> nat" where
  "unvisited lanes visited = card (fst ` set lanes - visited)"

lemma unvisited_insert:
  assumes "map_of lanes name = Some la" and "name \<notin> visited"
  shows "unvisited lanes (insert name visited) < unvisited lanes visited"
proof -
  from assms(1) have "name \<in> fst ` set lanes" by (metis map_of_eq_None_iff option.distinct(1))
  with assms(2) show ?thesis
    unfolding unvisited_def by (intro psubset_card_mono) auto
qed

termination visit
  by (relation "measures [\<lambda>(lanes, todo, visited, chain). unvisited lanes visited,
                          \<lambda>(lanes, todo, visited, chain). length todo]")
    (auto intro: unvisited_insert)

declare visit.simps(2) [simp del]

lemma visit_step [simp]:
  "name \<in> visited \<Longrightarrow> visit lanes (name # todo) visited chain = visit lanes todo visited chain"
  "name \<notin> visited \<Longrightarrow> map_of lanes name = None \<Longrightarrow>
     visit lanes (name # todo) visited chain = visit lanes todo visited (push_alias name chain)"
  "name \<notin> visited \<Longrightarrow> map_of lanes name = Some la \<Longrightarrow>
     visit lanes (name # todo) visited chain = visit lanes (elements la @ todo) (insert name visited) chain"
  by (subst visit.simps(2), simp)+

text \<open>One case per branch of the walk.\<close>

lemma visit_induct [case_names finished seen model lane]:
  assumes "\<And>visited chain. P [] visited chain"
    and "\<And>name todo visited chain. name \<in> visited \<Longrightarrow> P todo visited chain \<Longrightarrow> P (name # todo) visited chain"
    and "\<And>name todo visited chain. name \<notin> visited \<Longrightarrow> map_of lanes name = None \<Longrightarrow>
      P todo visited (push_alias name chain) \<Longrightarrow> P (name # todo) visited chain"
    and "\<And>name todo visited chain la. name \<notin> visited \<Longrightarrow> map_of lanes name = Some la \<Longrightarrow>
      P (elements la @ todo) (insert name visited) chain \<Longrightarrow> P (name # todo) visited chain"
  shows "P todo visited chain"
  using assms
proof (induction lanes todo visited chain rule: visit.induct)
  case (2 lanes name todo visited chain)
  show ?case
  proof (cases "name \<in> visited")
    case True
    with 2 show ?thesis by metis
  next
    case False
    with 2 show ?thesis by (cases "map_of lanes name") metis+
  qed
qed blast

definition expandLaneChain :: "lane_name \<Rightarrow> lanes_config \<Rightarrow> string list" where
  "expandLaneChain laneName lanes = visit lanes [laneName] {} []"

text \<open>The lane graph: what is reachable from a lane through primaries and fallbacks.\<close>

inductive reaches :: "lanes_config \<Rightarrow> string \<Rightarrow> string \<Rightarrow> bool" for lanes where
  here: "reaches lanes l l"
| edge: "reaches lanes l m \<Longrightarrow> map_of lanes m = Some la \<Longrightarrow> x \<in> set (elements la) \<Longrightarrow> reaches lanes l x"

definition leaf :: "lanes_config \<Rightarrow> string \<Rightarrow> bool" where
  "leaf lanes a = (map_of lanes a = None)"

lemma push_set [simp]: "set (push_alias a chain) = insert a (set chain)"
  by (auto simp: push_alias_def)

lemma push_distinct: "distinct chain \<Longrightarrow> distinct (push_alias a chain)"
  by (simp add: push_alias_def)

lemma visit_distinct: "distinct chain \<Longrightarrow> distinct (visit lanes todo visited chain)"
  by (induction todo visited chain rule: visit_induct [of _ lanes]) (simp_all add: push_distinct)

lemma visit_sound:
  assumes "\<forall>x \<in> set todo. reaches lanes l x" and "\<forall>a \<in> set chain. reaches lanes l a \<and> leaf lanes a"
  shows "\<forall>a \<in> set (visit lanes todo visited chain). reaches lanes l a \<and> leaf lanes a"
  using assms
proof (induction todo visited chain rule: visit_induct [of _ lanes])
  case (lane name todo visited chain la)
  then have "\<forall>x \<in> set (elements la @ todo). reaches lanes l x" by (auto intro: edge)
  with lane show ?case by simp
qed (simp_all add: leaf_def)

text \<open>
  Nothing reachable is missed: when the walk starts closed (every element of a visited lane is
  visited, in the chain or still to do), it ends closed.
\<close>

definition walk_closed :: "lanes_config \<Rightarrow> string set \<Rightarrow> string set \<Rightarrow> bool" where
  "walk_closed lanes visited found \<longleftrightarrow>
     (\<forall>v \<in> visited. \<forall>la. map_of lanes v = Some la \<longrightarrow> set (elements la) \<subseteq> visited \<union> found)"

lemma walk_closed_mono: "walk_closed lanes visited found \<Longrightarrow> found \<subseteq> found' \<Longrightarrow> walk_closed lanes visited found'"
  unfolding walk_closed_def by blast

lemma visit_complete:
  assumes "walk_closed lanes visited (set chain \<union> set todo)" and "\<forall>v \<in> visited. map_of lanes v \<noteq> None"
  shows "\<exists>visited'. visited \<union> {x \<in> set todo. \<not> leaf lanes x} \<subseteq> visited' \<and>
     set chain \<union> {x \<in> set todo. leaf lanes x} \<subseteq> set (visit lanes todo visited chain) \<and>
     walk_closed lanes visited' (set (visit lanes todo visited chain)) \<and> (\<forall>v \<in> visited'. map_of lanes v \<noteq> None)"
  using assms
proof (induction todo visited chain rule: visit_induct [of _ lanes])
  case (finished visited chain)
  then show ?case by (intro exI [of _ visited]) simp
next
  case (seen name todo visited chain)
  then have eq: "visited \<union> (set chain \<union> set (name # todo)) = visited \<union> (set chain \<union> set todo)" by auto
  from seen(3) have "walk_closed lanes visited (set chain \<union> set todo)" unfolding walk_closed_def eq .
  from seen(2) [OF this seen(4)] obtain W where
    "visited \<union> {x \<in> set todo. \<not> leaf lanes x} \<subseteq> W" "set chain \<union> {x \<in> set todo. leaf lanes x} \<subseteq> set (visit lanes todo visited chain)"
    "walk_closed lanes W (set (visit lanes todo visited chain))" "\<forall>v \<in> W. map_of lanes v \<noteq> None" by blast
  with seen show ?case by (intro exI [of _ W]) (auto simp: leaf_def)
next
  case (model name todo visited chain)
  have "walk_closed lanes visited (set (push_alias name chain) \<union> set todo)"
    by (rule walk_closed_mono [OF model(4)]) auto
  from model(3) [OF this model(5)] obtain W where
    "visited \<union> {x \<in> set todo. \<not> leaf lanes x} \<subseteq> W"
    "set (push_alias name chain) \<union> {x \<in> set todo. leaf lanes x} \<subseteq> set (visit lanes todo visited (push_alias name chain))"
    "walk_closed lanes W (set (visit lanes todo visited (push_alias name chain)))" "\<forall>v \<in> W. map_of lanes v \<noteq> None" by blast
  with model show ?case by (intro exI [of _ W]) (auto simp: leaf_def)
next
  case (lane name todo visited chain la)
  have "walk_closed lanes (insert name visited) (set chain \<union> set (elements la @ todo))"
    using lane(2,4) unfolding walk_closed_def by auto
  moreover have "\<forall>v \<in> insert name visited. map_of lanes v \<noteq> None" using lane(2,5) by simp
  ultimately obtain W where
    "insert name visited \<union> {x \<in> set (elements la @ todo). \<not> leaf lanes x} \<subseteq> W"
    "set chain \<union> {x \<in> set (elements la @ todo). leaf lanes x} \<subseteq> set (visit lanes (elements la @ todo) (insert name visited) chain)"
    "walk_closed lanes W (set (visit lanes (elements la @ todo) (insert name visited) chain))"
    "\<forall>v \<in> W. map_of lanes v \<noteq> None"
    using lane(3) by blast
  with lane(1,2) show ?case by (intro exI [of _ W]) (auto simp: leaf_def)
qed

lemma walk_closed_reaches:
  assumes "reaches lanes l x" and "walk_closed lanes visited found" and "l \<in> visited \<union> found"
    and leaves: "\<forall>v \<in> found. leaf lanes v"
  shows "x \<in> visited \<union> found"
  using assms(1,3)
proof (induction rule: reaches.induct)
  case (edge l m la x)
  with leaves have "m \<in> visited" by (auto simp: leaf_def)
  with edge assms(2) show ?case unfolding walk_closed_def by blast
qed

lemma chain_reachable:
  "set (expandLaneChain l lanes) = {a. reaches lanes l a \<and> leaf lanes a} \<and> distinct (expandLaneChain l lanes)"
proof -
  let ?c = "visit lanes [l] {} []"
  have sound: "\<forall>a \<in> set ?c. reaches lanes l a \<and> leaf lanes a"
    by (rule visit_sound) (auto intro: here)
  obtain V where V: "{x \<in> {l}. \<not> leaf lanes x} \<subseteq> V" "{x \<in> {l}. leaf lanes x} \<subseteq> set ?c"
      "walk_closed lanes V (set ?c)" "\<forall>v \<in> V. map_of lanes v \<noteq> None"
    using visit_complete [of lanes "{}" "[]" "[l]"] by (auto simp: walk_closed_def)
  have "a \<in> set ?c" if "reaches lanes l a" "leaf lanes a" for a
  proof -
    have "l \<in> V \<union> set ?c" using V(1,2) by (cases "leaf lanes l") auto
    from walk_closed_reaches [OF that(1) V(3) this] sound have "a \<in> V \<union> set ?c" by blast
    with V(4) that(2) show ?thesis by (auto simp: leaf_def)
  qed
  moreover have "distinct ?c" by (rule visit_distinct) simp
  ultimately show ?thesis using sound unfolding expandLaneChain_def by blast
qed

text \<open>
  The candidate chain of a lane is exactly the set of model aliases reachable from it through
  primaries and fallbacks, each once; the walk ends on every configuration, cyclic ones included.
\<close>
theorem expandLaneChain_reachable:
  "set (expandLaneChain l lanes) = {a. reaches lanes l a \<and> leaf lanes a} \<and> distinct (expandLaneChain l lanes)"
  by (rule chain_reachable)

lemma expand_distinct [simp]: "distinct (expandLaneChain l lanes)"
  unfolding expandLaneChain_def by (rule visit_distinct) simp

lemma expand_model [simp]: "map_of lanes m = None \<Longrightarrow> expandLaneChain m lanes = [m]"
  by (simp add: expandLaneChain_def push_alias_def)

subsection \<open>The lane resolver\<close>

datatype complexity = Simple | Medium_complexity | Complex
datatype decided_by = By_rules | By_eval | By_default | By_fallback

record resolver_classification =
  rc_task_type :: string
  rc_complexity :: complexity
  rc_decided_by :: decided_by

record resolver_policy =
  rpol_matched_policy_id :: "string option"
  rpol_use_lane :: "lane_name option"
  rpol_reason :: string

record resolve_lane_input =
  rl_classification :: resolver_classification
  rl_policy :: resolver_policy
  rl_lanes :: lanes_config
  rl_defaultLane :: "lane_name option"

datatype lane_source = Policy_lane | Task_lane | Complexity_fallback

record lane_decision =
  selected_lane :: lane_name
  ld_decided_by :: lane_source
  ld_reason :: string

fun COMPLEXITY_FALLBACK :: "complexity \<Rightarrow> lane_name" where
  "COMPLEXITY_FALLBACK Simple = ''economy''"
| "COMPLEXITY_FALLBACK Medium_complexity = ''balanced''"
| "COMPLEXITY_FALLBACK Complex = ''premium''"

definition BALANCED :: lane_name where
  "BALANCED = ''balanced''"

fun complexity_name :: "complexity \<Rightarrow> string" where
  "complexity_name Simple = ''simple''"
| "complexity_name Medium_complexity = ''medium''"
| "complexity_name Complex = ''complex''"

fun decided_by_name :: "decided_by \<Rightarrow> string" where
  "decided_by_name By_rules = ''rules''"
| "decided_by_name By_eval = ''eval''"
| "decided_by_name By_default = ''default''"
| "decided_by_name By_fallback = ''fallback''"

definition terminal_lane :: "lanes_config \<Rightarrow> lane_name option \<Rightarrow> lane_name" where
  "terminal_lane lanes defaultLane =
     (let d = nullish defaultLane [] in
      if d \<noteq> [] \<and> hasLane lanes d then d
      else if hasLane lanes BALANCED then BALANCED
      else (case lanes of [] \<Rightarrow> BALANCED | (name, _) # _ \<Rightarrow> name))"

definition resolveLane :: "resolve_lane_input \<Rightarrow> lane_decision" where
  "resolveLane inp =
     (let cls = rl_classification inp; pol = rl_policy inp; lanes = rl_lanes inp;
          terminal = terminal_lane lanes (rl_defaultLane inp) in
      if rc_decided_by cls = By_default \<or> rc_decided_by cls = By_fallback then
        \<lparr>selected_lane = terminal, ld_decided_by = Complexity_fallback,
         ld_reason = ''classifier fell back (decided_by='' @ decided_by_name (rc_decided_by cls) @ '') -> '' @ terminal\<rparr>
      else
        case (case rpol_use_lane pol of
                Some l \<Rightarrow> if hasLane lanes l then Some l else None
              | None \<Rightarrow> None) of
          Some l \<Rightarrow>
            \<lparr>selected_lane = l, ld_decided_by = Policy_lane,
             ld_reason = ''policy selected lane '' @ [CHR 0x27] @ l @ [CHR 0x27] @ '' ('' @ rpol_reason pol @ '')''\<rparr>
        | None \<Rightarrow>
            if hasLane lanes (rc_task_type cls) then
              \<lparr>selected_lane = rc_task_type cls, ld_decided_by = Task_lane,
               ld_reason = ''task lane '' @ [CHR 0x27] @ rc_task_type cls @ [CHR 0x27] @ '' matched task_type''\<rparr>
            else
              let byComplexity = COMPLEXITY_FALLBACK (rc_complexity cls) in
              if hasLane lanes byComplexity then
                \<lparr>selected_lane = byComplexity, ld_decided_by = Complexity_fallback,
                 ld_reason = ''complexity '' @ [CHR 0x27] @ complexity_name (rc_complexity cls) @ [CHR 0x27] @
                   '' -> lane '' @ [CHR 0x27] @ byComplexity @ [CHR 0x27]\<rparr>
              else
                \<lparr>selected_lane = terminal, ld_decided_by = Complexity_fallback,
                 ld_reason = ''unresolved (no policy/task/complexity lane) -> '' @ terminal\<rparr>)"

lemma terminal_exists: "lanes \<noteq> [] \<Longrightarrow> hasLane lanes (terminal_lane lanes d)"
  by (cases lanes) (auto simp: terminal_lane_def Let_def hasLane_def)

text \<open>
  The resolver always answers with a configured lane (given the one lane the schema demands),
  by the documented priority: a classifier that fell back goes to the terminal; else a policy's lane
  if it exists, else the task's lane if it exists, else the complexity tier if it exists, else the
  terminal, which is the operator's default lane, \<open>balanced\<close> or the first lane.
\<close>
theorem resolver_total_and_prioritised:
  assumes "rl_lanes inp \<noteq> []"
  shows "hasLane (rl_lanes inp) (selected_lane (resolveLane inp)) \<and>
    selected_lane (resolveLane inp) =
      (let cls = rl_classification inp; lanes = rl_lanes inp; t = terminal_lane lanes (rl_defaultLane inp);
           prefs = (if rc_decided_by cls = By_default \<or> rc_decided_by cls = By_fallback then []
                    else (case rpol_use_lane (rl_policy inp) of Some l \<Rightarrow> [l] | None \<Rightarrow> [])
                         @ [rc_task_type cls, COMPLEXITY_FALLBACK (rc_complexity cls)])
       in hd (filter (hasLane lanes) prefs @ [t]))"
proof -
  from assms have "hasLane (rl_lanes inp) (terminal_lane (rl_lanes inp) (rl_defaultLane inp))"
    by (rule terminal_exists)
  then show ?thesis
    by (auto simp: resolveLane_def Let_def split: option.split)
qed

definition demo_lane :: "string \<Rightarrow> string list \<Rightarrow> lane" where
  "demo_lane p f = \<lparr>purpose = None, primary = p, fallback = f,
     ln_constraints = \<lparr>require_tools = False, require_json = False, require_vision = False,
       min_context_tokens = None, max_latency_ms = None\<rparr>, ln_reasoning_effort = None\<rparr>"

definition demo_lanes :: lanes_config where
  "demo_lanes = [(''economy'', demo_lane ''cheap'' [''balanced'']),
                 (''balanced'', demo_lane ''good'' [''premium'', ''economy'']),
                 (''premium'', demo_lane ''best'' [''balanced''])]"

theorem resolver_total_and_prioritised_witness:
  "selected_lane (resolveLane \<lparr>rl_classification = \<lparr>rc_task_type = ''coding'', rc_complexity = Complex,
     rc_decided_by = By_rules\<rparr>, rl_policy = \<lparr>rpol_matched_policy_id = None, rpol_use_lane = None,
     rpol_reason = []\<rparr>, rl_lanes = demo_lanes, rl_defaultLane = None\<rparr>) = ''premium''"
  by (subst resolver_total_and_prioritised [THEN conjunct2]) (simp_all add: demo_lanes_def hasLane_def)

end
