(* ===== verification/Policies.thy ===== *)
theory Policies
  imports Lanes
begin

text \<open>
  The policy engine (\<open>packages/core/src/routing/policy-engine.ts\<close>, its configuration in
  \<open>packages/shared/src/config/policy-schema.ts\<close>): first-match pin, accumulation of the lane
  whitelists, and the clamp of a candidate lane into a whitelist.
\<close>

subsection \<open>Configuration and outcome\<close>

record policy_match =
  pm_task_type :: "string option"
  pm_complexity :: "complexity option"
  pm_needs_json :: "bool option"
  pm_needs_tools :: "bool option"
  pm_needs_vision :: "bool option"
  pm_project_id :: "string option"

record policy =
  p_id :: "string option"
  p_match :: policy_match
  p_use_lane :: "lane_name option"
  p_allowed_lanes :: "lane_name list option"
  p_reasoning_effort :: "reasoning_effort option"

type_synonym policies_config = "policy list"

record policy_context =
  ctx_task_type :: string
  ctx_complexity :: "complexity option"
  ctx_needs_json :: bool
  ctx_needs_tools :: bool
  ctx_needs_vision :: bool
  ctx_project_id :: "string option"

record policy_outcome =
  po_matched_policy_id :: "string option"
  po_use_lane :: "lane_name option"
  po_allowed_lanes :: "lane_name list option"
  po_reasoning_effort :: "reasoning_effort option"
  po_reason :: string

definition LANE_RANK :: "lane_name \<Rightarrow> int option" where
  "LANE_RANK l =
     (if l = ''economy'' then Some 0 else if l = ''balanced'' then Some 1
      else if l = ''premium'' then Some 2 else None)"

definition UNRANKED_CANDIDATE_RANK :: int where
  "UNRANKED_CANDIDATE_RANK = nullish (LANE_RANK ''balanced'') 1"

definition EMPTY_OUTCOME :: policy_outcome where
  "EMPTY_OUTCOME = \<lparr>po_matched_policy_id = None, po_use_lane = None, po_allowed_lanes = None,
     po_reasoning_effort = None, po_reason = ''no policy matched''\<rparr>"

subsection \<open>Matching\<close>

text \<open>
  One entry of the match table: the field's name, whether it is constrained, whether it then equals
  the context's value. A constrained field never equals a null context value.
\<close>

definition MATCH_FIELDS :: "policy_match \<Rightarrow> policy_context \<Rightarrow> (string \<times> bool \<times> bool) list" where
  "MATCH_FIELDS m c =
     [(''task_type'', pm_task_type m \<noteq> None, pm_task_type m = Some (ctx_task_type c)),
      (''complexity'', pm_complexity m \<noteq> None, pm_complexity m = ctx_complexity c),
      (''needs_json'', pm_needs_json m \<noteq> None, pm_needs_json m = Some (ctx_needs_json c)),
      (''needs_tools'', pm_needs_tools m \<noteq> None, pm_needs_tools m = Some (ctx_needs_tools c)),
      (''needs_vision'', pm_needs_vision m \<noteq> None, pm_needs_vision m = Some (ctx_needs_vision c)),
      (''project_id'', pm_project_id m \<noteq> None, pm_project_id m = ctx_project_id c)]"

fun collect_hits :: "(string \<times> bool \<times> bool) list \<Rightarrow> string list \<Rightarrow> string list option" where
  "collect_hits [] hits = Some hits"
| "collect_hits ((key, constrained, equal) # fs) hits =
     (if \<not> constrained then collect_hits fs hits
      else if \<not> equal then None
      else collect_hits fs (hits @ [key]))"

definition matchedFields :: "policy_match \<Rightarrow> policy_context \<Rightarrow> string list option" where
  "matchedFields m c = collect_hits (MATCH_FIELDS m c) []"

fun nat_digits :: "nat \<Rightarrow> string" where
  "nat_digits n = (if n < 10 then [char_of (48 + n)] else nat_digits (n div 10) @ [char_of (48 + n mod 10)])"

declare nat_digits.simps [simp del]

definition policyId :: "policy \<Rightarrow> nat \<Rightarrow> string" where
  "policyId p index = nullish (p_id p) (''policy['' @ nat_digits index @ '']'')"

fun join_comma :: "string list \<Rightarrow> string" where
  "join_comma [] = []"
| "join_comma [x] = x"
| "join_comma (x # y # zs) = x @ '', '' @ join_comma (y # zs)"

subsection \<open>Evaluation\<close>

record policy_pin =
  pin_id :: string
  pin_use_lane :: "lane_name option"
  pin_reasoning_effort :: "reasoning_effort option"
  pin_reason :: string

definition intersectAllowedLanes :: "lane_name list option \<Rightarrow> lane_name list option \<Rightarrow> lane_name list option" where
  "intersectAllowedLanes current nxt =
     (case current of
        None \<Rightarrow> nxt
      | Some cur \<Rightarrow>
          (case nxt of
             None \<Rightarrow> Some cur
           | Some nx \<Rightarrow> Some (filter (\<lambda>l. l \<in> set nx) cur)))"

definition make_pin :: "policy \<Rightarrow> nat \<Rightarrow> string list \<Rightarrow> policy_pin" where
  "make_pin p i hits =
     (let pid = policyId p i;
          trigger = (if hits \<noteq> [] then ''match on ['' @ join_comma hits @ '']'' else ''no match constraints'')
      in \<lparr>pin_id = pid, pin_use_lane = p_use_lane p, pin_reasoning_effort = p_reasoning_effort p,
          pin_reason = ''policy '' @ [CHR 0x27] @ pid @ [CHR 0x27] @ '' '' @ trigger\<rparr>)"

fun policy_loop :: "policy_context \<Rightarrow> policy list \<Rightarrow> nat \<Rightarrow> policy_pin option \<Rightarrow> lane_name list option \<Rightarrow>
    policy_pin option \<times> lane_name list option" where
  "policy_loop ctx [] i pinned allowed = (pinned, allowed)"
| "policy_loop ctx (p # ps) i pinned allowed =
     (case matchedFields (p_match p) ctx of
        None \<Rightarrow> policy_loop ctx ps (Suc i) pinned allowed
      | Some hits \<Rightarrow>
          policy_loop ctx ps (Suc i)
            (case pinned of None \<Rightarrow> Some (make_pin p i hits) | Some q \<Rightarrow> Some q)
            (case p_allowed_lanes p of
               None \<Rightarrow> allowed
             | Some ls \<Rightarrow> intersectAllowedLanes allowed (Some ls)))"

definition evaluatePolicies :: "policy_context \<Rightarrow> policies_config \<Rightarrow> policy_outcome" where
  "evaluatePolicies ctx cfg =
     (case policy_loop ctx cfg 0 None None of
        (None, _) \<Rightarrow> EMPTY_OUTCOME
      | (Some pin, allowed) \<Rightarrow>
          \<lparr>po_matched_policy_id = Some (pin_id pin), po_use_lane = pin_use_lane pin,
           po_allowed_lanes = allowed, po_reasoning_effort = pin_reasoning_effort pin,
           po_reason = pin_reason pin\<rparr>)"

subsection \<open>Caps\<close>

text \<open>A rank that may be positive infinity: \<open>LANE_RANK[l] ?? Infinity\<close>.\<close>

fun lowest_loop :: "lane_name list \<Rightarrow> lane_name \<Rightarrow> int option \<Rightarrow> lane_name" where
  "lowest_loop [] best bestRank = best"
| "lowest_loop (l # ls) best bestRank =
     (case LANE_RANK l of
        None \<Rightarrow> lowest_loop ls best bestRank
      | Some r \<Rightarrow>
          (case bestRank of
             None \<Rightarrow> lowest_loop ls l (Some r)
           | Some b \<Rightarrow> if r < b then lowest_loop ls l (Some r) else lowest_loop ls best bestRank))"

definition lowestRankedLane :: "lane_name list \<Rightarrow> lane_name" where
  "lowestRankedLane ls = lowest_loop ls (hd ls) (LANE_RANK (hd ls))"

text \<open>The pick loop: \<open>pickRank\<close> starts below every rank (None).\<close>

fun pick_loop :: "int \<Rightarrow> lane_name list \<Rightarrow> (lane_name \<times> int) option \<Rightarrow> (lane_name \<times> int) option" where
  "pick_loop candidateRank [] pick = pick"
| "pick_loop candidateRank (a # as) pick =
     (case LANE_RANK a of
        None \<Rightarrow> pick_loop candidateRank as pick
      | Some r \<Rightarrow>
          if r \<le> candidateRank \<and> (case pick of None \<Rightarrow> True | Some (_, b) \<Rightarrow> r > b)
          then pick_loop candidateRank as (Some (a, r))
          else pick_loop candidateRank as pick)"

definition applyCaps :: "lane_name \<Rightarrow> policy_outcome \<Rightarrow> lane_name option" where
  "applyCaps l out =
     (case po_allowed_lanes out of
        None \<Rightarrow> Some l
      | Some allowed \<Rightarrow>
          if allowed = [] then None
          else if l \<in> set allowed then Some l
          else
            let candidateRank = nullish (LANE_RANK l) UNRANKED_CANDIDATE_RANK
            in Some (case pick_loop candidateRank allowed None of
                       Some (a, _) \<Rightarrow> a
                     | None \<Rightarrow> lowestRankedLane allowed))"

subsection \<open>Facts\<close>

definition policy_matches :: "policy_context \<Rightarrow> policy \<Rightarrow> bool" where
  "policy_matches ctx p = (matchedFields (p_match p) ctx \<noteq> None)"

lemma collect_hits_None: "collect_hits fs hits = None \<longleftrightarrow> list_ex (\<lambda>(k, c, e). c \<and> \<not> e) fs"
  by (induction fs hits rule: collect_hits.induct) auto

lemma policy_matches_iff:
  "policy_matches ctx p \<longleftrightarrow>
     (let m = p_match p in
      (pm_task_type m = None \<or> pm_task_type m = Some (ctx_task_type ctx)) \<and>
      (pm_complexity m = None \<or> pm_complexity m = ctx_complexity ctx) \<and>
      (pm_needs_json m = None \<or> pm_needs_json m = Some (ctx_needs_json ctx)) \<and>
      (pm_needs_tools m = None \<or> pm_needs_tools m = Some (ctx_needs_tools ctx)) \<and>
      (pm_needs_vision m = None \<or> pm_needs_vision m = Some (ctx_needs_vision ctx)) \<and>
      (pm_project_id m = None \<or> pm_project_id m = ctx_project_id ctx))"
  by (simp only: policy_matches_def matchedFields_def collect_hits_None MATCH_FIELDS_def Let_def
      list_ex_Nil_iff list_ex_Cons_iff split_conv not_not de_Morgan_disj de_Morgan_conj HOL.simp_thms conj_assoc)

definition whitelists :: "policy_context \<Rightarrow> policy list \<Rightarrow> lane_name list list" where
  "whitelists ctx ps = List.map_filter p_allowed_lanes (filter (policy_matches ctx) ps)"

definition permitted_by :: "lane_name list option \<Rightarrow> lane_name \<Rightarrow> bool" where
  "permitted_by allowed l = (case allowed of None \<Rightarrow> True | Some ls \<Rightarrow> l \<in> set ls)"

lemma permitted_simps [simp]: "permitted_by None l" "permitted_by (Some ls) l = (l \<in> set ls)"
  by (simp_all add: permitted_by_def)

lemma permitted_intersect [simp]:
  "permitted_by (intersectAllowedLanes a b) l \<longleftrightarrow> permitted_by a l \<and> permitted_by b l"
  by (cases a; cases b) (auto simp: intersectAllowedLanes_def)

lemma intersect_None [simp]: "intersectAllowedLanes a b = None \<longleftrightarrow> a = None \<and> b = None"
  by (cases a; cases b) (auto simp: intersectAllowedLanes_def)

lemma policy_loop_allowed:
  "snd (policy_loop ctx ps i pinned allowed) =
   foldl (\<lambda>acc ls. intersectAllowedLanes acc (Some ls)) allowed (whitelists ctx ps)"
proof (induction ps arbitrary: i pinned allowed)
  case (Cons p ps)
  show ?case
    by (cases "matchedFields (p_match p) ctx"; cases "p_allowed_lanes p")
      (simp_all add: Cons.IH whitelists_def policy_matches_def List.map_filter_simps)
qed (simp add: whitelists_def)

lemma policy_loop_pinned: "fst (policy_loop ctx ps i (Some q) allowed) = Some q"
  by (induction ps arbitrary: i allowed) (simp_all split: option.split)

lemma policy_loop_pin:
  "fst (policy_loop ctx ps i None allowed) = Some pin \<longleftrightarrow>
   (\<exists>pre p post hits. ps = pre @ p # post \<and> list_all (\<lambda>q. \<not> policy_matches ctx q) pre \<and>
      matchedFields (p_match p) ctx = Some hits \<and> pin = make_pin p (i + length pre) hits)"
proof (induction ps arbitrary: i allowed)
  case (Cons q ps)
  show ?case
  proof (cases "matchedFields (p_match q) ctx")
    case None
    with Cons.IH [of "Suc i" allowed] show ?thesis
      by (simp add: policy_matches_def Cons_eq_append_conv ex_disj_distrib conj_disj_distribR) force
  next
    case (Some hits)
    have "fst (policy_loop ctx (q # ps) i None allowed) = Some (make_pin q i hits)"
      using Some by (simp add: policy_loop_pinned)
    moreover have "(\<exists>pre p post hits'. q # ps = pre @ p # post \<and> list_all (\<lambda>q. \<not> policy_matches ctx q) pre \<and>
        matchedFields (p_match p) ctx = Some hits' \<and> pin = make_pin p (i + length pre) hits') \<longleftrightarrow>
        pin = make_pin q i hits" (is "?l \<longleftrightarrow> ?r")
    proof
      assume ?l
      then show ?r using Some by (auto simp: policy_matches_def Cons_eq_append_conv)
    next
      assume ?r
      then show ?l using Some by (intro exI [of _ "[]"] exI [of _ q] exI [of _ ps] exI [of _ hits]) simp
    qed
    ultimately show ?thesis by auto
  qed
qed simp

lemma policy_loop_no_pin:
  "fst (policy_loop ctx ps i None allowed) = None \<longleftrightarrow> list_all (\<lambda>q. \<not> policy_matches ctx q) ps"
  by (induction ps arbitrary: i allowed) (auto simp: policy_matches_def policy_loop_pinned split: option.split)

lemma permitted_fold:
  "permitted_by (foldl (\<lambda>acc ls. intersectAllowedLanes acc (Some ls)) allowed lss) l \<longleftrightarrow>
   permitted_by allowed l \<and> (\<forall>ls \<in> set lss. l \<in> set ls)"
  by (induction lss arbitrary: allowed) auto

lemma whitelists_set:
  "ls \<in> set (whitelists ctx ps) \<longleftrightarrow> (\<exists>p \<in> set ps. policy_matches ctx p \<and> p_allowed_lanes p = Some ls)"
  by (induction ps) (auto simp: whitelists_def List.map_filter_simps split: option.split)

text \<open>
  Whitelists accumulate: a lane passes the evaluated outcome exactly when every matching policy
  that carries a whitelist lists it, wherever the policy stands, before or after the pin.
\<close>
theorem policy_whitelists_accumulate:
  "permitted_by (po_allowed_lanes (evaluatePolicies ctx cfg)) l \<longleftrightarrow>
   list_all (\<lambda>p. policy_matches ctx p \<longrightarrow> permitted_by (p_allowed_lanes p) l) cfg"
proof -
  have w: "(\<forall>ls \<in> set (whitelists ctx cfg). l \<in> set ls) \<longleftrightarrow>
      list_all (\<lambda>p. policy_matches ctx p \<longrightarrow> permitted_by (p_allowed_lanes p) l) cfg"
    by (fastforce simp: whitelists_set list_all_iff permitted_by_def split: option.splits)
  show ?thesis
  proof (cases "fst (policy_loop ctx cfg 0 None None)")
    case None
    then have "list_all (\<lambda>q. \<not> policy_matches ctx q) cfg" by (simp add: policy_loop_no_pin)
    with None show ?thesis
      by (auto simp: evaluatePolicies_def EMPTY_OUTCOME_def list_all_iff split: prod.split)
  next
    case (Some pin)
    then have "po_allowed_lanes (evaluatePolicies ctx cfg) = snd (policy_loop ctx cfg 0 None None)"
      by (auto simp: evaluatePolicies_def split: prod.split)
    with w show ?thesis by (simp add: policy_loop_allowed permitted_fold)
  qed
qed

text \<open>
  First match pins: the outcome carries the lane, the forced effort and the id of the first
  policy in declaration order all of whose written fields equal the context's; without one the
  outcome is empty. A later match never replaces the pin.
\<close>
theorem policy_first_match_pins:
  "(list_all (\<lambda>q. \<not> policy_matches ctx q) cfg \<longrightarrow> evaluatePolicies ctx cfg = EMPTY_OUTCOME) \<and>
   (cfg = pre @ p # post \<longrightarrow> list_all (\<lambda>q. \<not> policy_matches ctx q) pre \<longrightarrow> policy_matches ctx p \<longrightarrow>
      po_use_lane (evaluatePolicies ctx cfg) = p_use_lane p \<and>
      po_reasoning_effort (evaluatePolicies ctx cfg) = p_reasoning_effort p \<and>
      po_matched_policy_id (evaluatePolicies ctx cfg) = Some (policyId p (length pre)))"
proof (intro conjI impI)
  assume "list_all (\<lambda>q. \<not> policy_matches ctx q) cfg"
  then have "fst (policy_loop ctx cfg 0 None None) = None" by (simp add: policy_loop_no_pin)
  then show "evaluatePolicies ctx cfg = EMPTY_OUTCOME"
    by (auto simp: evaluatePolicies_def split: prod.split)
next
  assume cfg: "cfg = pre @ p # post" and pre: "list_all (\<lambda>q. \<not> policy_matches ctx q) pre"
    and "policy_matches ctx p"
  then obtain hits where h: "matchedFields (p_match p) ctx = Some hits" by (auto simp: policy_matches_def)
  have "fst (policy_loop ctx cfg 0 None None) = Some (make_pin p (length pre) hits)"
    unfolding policy_loop_pin using cfg pre h by fastforce
  then have "evaluatePolicies ctx cfg =
      \<lparr>po_matched_policy_id = Some (policyId p (length pre)), po_use_lane = p_use_lane p,
       po_allowed_lanes = snd (policy_loop ctx cfg 0 None None),
       po_reasoning_effort = p_reasoning_effort p, po_reason = pin_reason (make_pin p (length pre) hits)\<rparr>"
    by (auto simp: evaluatePolicies_def make_pin_def Let_def split: prod.split)
  then show "po_use_lane (evaluatePolicies ctx cfg) = p_use_lane p"
    "po_reasoning_effort (evaluatePolicies ctx cfg) = p_reasoning_effort p"
    "po_matched_policy_id (evaluatePolicies ctx cfg) = Some (policyId p (length pre))"
    by simp_all
qed

text \<open>The clamp.\<close>

definition lane_rank_le :: "lane_name \<Rightarrow> int \<Rightarrow> bool" where
  "lane_rank_le l r = (case LANE_RANK l of None \<Rightarrow> False | Some x \<Rightarrow> x \<le> r)"

lemma pick_loop_Some:
  "pick_loop c as pick = Some (a, r) \<Longrightarrow>
   (pick = Some (a, r) \<or> (a \<in> set as \<and> LANE_RANK a = Some r \<and> r \<le> c)) \<and>
   (\<forall>x \<in> set as. \<forall>y. LANE_RANK x = Some y \<longrightarrow> y \<le> c \<longrightarrow> y \<le> r) \<and>
   (\<forall>b y. pick = Some (b, y) \<longrightarrow> y \<le> r)"
proof (induction c as pick rule: pick_loop.induct)
  case (2 c x xs pick)
  show ?case
  proof (cases "LANE_RANK x")
    case None
    with 2 show ?thesis by auto
  next
    case (Some y)
    show ?thesis
    proof (cases "y \<le> c \<and> (case pick of None \<Rightarrow> True | Some (_, b) \<Rightarrow> y > b)")
      case True
      with 2(2) [OF Some True] 2(4) Some show ?thesis by (auto split: option.splits)
    next
      case False
      with 2(3) [OF Some False] 2(4) Some show ?thesis by (auto split: option.splits)
    qed
  qed
qed auto

lemma pick_loop_None: "pick_loop c as pick = None \<Longrightarrow> pick = None \<and> (\<forall>x \<in> set as. \<not> lane_rank_le x c)"
  by (induction c as pick rule: pick_loop.induct)
    (auto simp: lane_rank_le_def split: option.splits if_splits)

lemma lowest_loop_spec:
  "lowest_loop ls best (LANE_RANK best) \<in> insert best (set ls) \<and>
   (\<forall>l \<in> insert best (set ls). \<forall>r. LANE_RANK l = Some r \<longrightarrow> lane_rank_le (lowest_loop ls best (LANE_RANK best)) r)"
proof (induction ls arbitrary: best)
  case Nil
  then show ?case by (simp add: lane_rank_le_def)
next
  case (Cons a ls)
  show ?case
    using Cons.IH [of best] Cons.IH [of a]
    by (auto simp: lane_rank_le_def split: option.split option.split_asm)
qed

lemma lowest_in: "ls \<noteq> [] \<Longrightarrow> lowestRankedLane ls \<in> set ls"
  using lowest_loop_spec [of ls "hd ls"] by (auto simp: lowestRankedLane_def)

lemma applyCaps_in: "applyCaps l out = Some l' \<Longrightarrow> permitted_by (po_allowed_lanes out) l'"
  by (auto simp: applyCaps_def Let_def lowest_in dest!: pick_loop_Some split: option.splits if_splits)

lemma applyCaps_None: "applyCaps l out = None \<longleftrightarrow> po_allowed_lanes out = Some []"
  by (auto simp: applyCaps_def Let_def split: option.splits)

text \<open>
  The clamp keeps within the whitelist and does not escalate: the clamped lane is always
  permitted; a permitted candidate is kept; otherwise, when some permitted lane ranks at or below
  the candidate (an unranked candidate counts as \<open>balanced\<close>), the answer does too and is the highest
  such; only an empty whitelist yields no lane.
\<close>
theorem caps_clamp:
  "(applyCaps l out = None \<longleftrightarrow> po_allowed_lanes out = Some []) \<and>
   (applyCaps l out = Some l' \<longrightarrow>
      permitted_by (po_allowed_lanes out) l' \<and>
      (permitted_by (po_allowed_lanes out) l \<longrightarrow> l' = l) \<and>
      (\<not> permitted_by (po_allowed_lanes out) l \<longrightarrow>
         (let c = nullish (LANE_RANK l) 1; cheaper = filter (\<lambda>a. lane_rank_le a c) (nullish (po_allowed_lanes out) [])
          in cheaper \<noteq> [] \<longrightarrow> l' \<in> set cheaper \<and> (\<forall>a \<in> set cheaper. lane_rank_le a (the (LANE_RANK l'))))))"
proof (intro conjI impI)
  show "applyCaps l out = None \<longleftrightarrow> po_allowed_lanes out = Some []" by (rule applyCaps_None)
next
  assume "applyCaps l out = Some l'"
  then show "permitted_by (po_allowed_lanes out) l'" by (rule applyCaps_in)
next
  assume "applyCaps l out = Some l'" "permitted_by (po_allowed_lanes out) l"
  then show "l' = l" by (auto simp: applyCaps_def split: option.splits if_splits)
next
  assume a: "applyCaps l out = Some l'" and n: "\<not> permitted_by (po_allowed_lanes out) l"
  then obtain ls where ls: "po_allowed_lanes out = Some ls" "l \<notin> set ls" "ls \<noteq> []"
    by (cases "po_allowed_lanes out") (auto simp: applyCaps_def split: if_splits)
  define c where "c = nullish (LANE_RANK l) 1"
  have unranked: "UNRANKED_CANDIDATE_RANK = 1" by (simp add: UNRANKED_CANDIDATE_RANK_def LANE_RANK_def)
  have l': "l' = (case pick_loop c ls None of Some (x, _) \<Rightarrow> x | None \<Rightarrow> lowestRankedLane ls)"
    using a ls by (simp add: applyCaps_def Let_def c_def unranked)
  have "l' \<in> set (filter (\<lambda>x. lane_rank_le x c) ls) \<and>
      (\<forall>x \<in> set (filter (\<lambda>x. lane_rank_le x c) ls). lane_rank_le x (the (LANE_RANK l')))"
    if "filter (\<lambda>x. lane_rank_le x c) ls \<noteq> []"
  proof (cases "pick_loop c ls None")
    case None
    with that pick_loop_None [OF None] show ?thesis by (auto simp: filter_empty_conv)
  next
    case (Some q)
    then obtain x r where q: "pick_loop c ls None = Some (x, r)" by (cases q) auto
    with l' pick_loop_Some [OF q] show ?thesis
      by (fastforce simp: lane_rank_le_def split: option.splits)
  qed
  with ls show "let c = nullish (LANE_RANK l) 1; cheaper = filter (\<lambda>a. lane_rank_le a c) (nullish (po_allowed_lanes out) [])
      in cheaper \<noteq> [] \<longrightarrow> l' \<in> set cheaper \<and> (\<forall>a \<in> set cheaper. lane_rank_le a (the (LANE_RANK l')))"
    by (simp add: Let_def c_def)
qed

subsection \<open>A concrete configuration\<close>

definition no_match :: policy_match where
  "no_match = \<lparr>pm_task_type = None, pm_complexity = None, pm_needs_json = None, pm_needs_tools = None,
     pm_needs_vision = None, pm_project_id = None\<rparr>"

definition demo_pin :: policy where
  "demo_pin = \<lparr>p_id = None, p_match = no_match\<lparr>pm_task_type := Some ''coding''\<rparr>, p_use_lane = Some ''premium'',
     p_allowed_lanes = None, p_reasoning_effort = Some High\<rparr>"

definition demo_cap :: policy where
  "demo_cap = \<lparr>p_id = Some ''cap'', p_match = no_match, p_use_lane = None,
     p_allowed_lanes = Some [''economy'', ''balanced''], p_reasoning_effort = None\<rparr>"

definition demo_context :: policy_context where
  "demo_context = \<lparr>ctx_task_type = ''coding'', ctx_complexity = Some Simple, ctx_needs_json = False,
     ctx_needs_tools = False, ctx_needs_vision = False, ctx_project_id = None\<rparr>"

lemmas demo_policy_defs = no_match_def demo_pin_def demo_cap_def demo_context_def

lemma demo_matches [simp]: "policy_matches demo_context demo_pin" "policy_matches demo_context demo_cap"
  by (simp_all add: policy_matches_iff demo_policy_defs Let_def)

theorem policy_whitelists_accumulate_witness:
  "\<not> permitted_by (po_allowed_lanes (evaluatePolicies demo_context [demo_pin, demo_cap])) ''premium'' \<and>
   permitted_by (po_allowed_lanes (evaluatePolicies demo_context [demo_pin, demo_cap])) ''balanced''"
  using policy_whitelists_accumulate [of demo_context "[demo_pin, demo_cap]" "''premium''"]
    policy_whitelists_accumulate [of demo_context "[demo_pin, demo_cap]" "''balanced''"]
  by (simp add: demo_pin_def demo_cap_def) (simp flip: demo_pin_def demo_cap_def)

theorem policy_first_match_pins_witness:
  "po_use_lane (evaluatePolicies demo_context [demo_pin, demo_cap]) = Some ''premium'' \<and>
   po_reasoning_effort (evaluatePolicies demo_context [demo_pin, demo_cap]) = Some High"
  using policy_first_match_pins [of demo_context "[demo_pin, demo_cap]" "[]" demo_pin "[demo_cap]"]
  by (simp add: demo_pin_def) (simp flip: demo_pin_def)

theorem caps_clamp_witness:
  "let out = EMPTY_OUTCOME\<lparr>po_allowed_lanes := Some [''economy'', ''balanced'']\<rparr>
   in applyCaps ''premium'' out = Some ''balanced'' \<and> permitted_by (po_allowed_lanes out) ''balanced'' \<and>
      lane_rank_le ''economy'' (the (LANE_RANK ''balanced''))"
proof -
  let ?out = "EMPTY_OUTCOME\<lparr>po_allowed_lanes := Some [''economy'', ''balanced'']\<rparr>"
  have "applyCaps ''premium'' ?out = Some ''balanced''"
    by (simp add: applyCaps_def LANE_RANK_def)
  moreover note caps_clamp [of "''premium''" ?out "''balanced''"]
  ultimately show ?thesis by (simp add: lane_rank_le_def LANE_RANK_def Let_def)
qed

end
