(* ===== verification/Json.thy ===== *)
theory Json
  imports Js_Text "HOL-Library.AList"
begin

text \<open>
  JSON values, property access, \<open>JSON.parse\<close> and \<open>JSON.stringify\<close>, as far as the program uses them. Numbers are
  rationals; strings are Latin-1, so an escape above U+00FF is outside the model and the parser rejects it.
  An object keeps its entries in insertion order; a repeated key keeps its place and takes the last value.
\<close>

datatype json =
    JNull
  | JBool bool
  | JNum rat
  | JStr string
  | JArr "json list"
  | JObj "(string \<times> json) list"

type_synonym json_object = "(string \<times> json) list"

subsection \<open>Reading properties\<close>

text \<open>\<open>v.k\<close>, where \<open>undefined\<close> is \<open>None\<close>; an array has none of the named properties the program reads.\<close>

fun prop_of :: "string \<Rightarrow> json \<Rightarrow> json option" where
  "prop_of k (JObj kvs) = map_of kvs k"
| "prop_of k v = None"

definition opt_prop :: "string \<Rightarrow> json option \<Rightarrow> json option" where
  "opt_prop k v = Option.bind v (prop_of k)"

fun as_string :: "json option \<Rightarrow> string option" where
  "as_string (Some (JStr s)) = Some s"
| "as_string v = None"

fun is_object :: "json option \<Rightarrow> bool" where
  "is_object (Some (JObj kvs)) = True"
| "is_object (Some (JArr vs)) = True"
| "is_object v = False"

fun truthy :: "json option \<Rightarrow> bool" where
  "truthy None = False"
| "truthy (Some JNull) = False"
| "truthy (Some (JBool b)) = b"
| "truthy (Some (JNum n)) = (n \<noteq> 0)"
| "truthy (Some (JStr s)) = (s \<noteq> [])"
| "truthy (Some (JArr vs)) = True"
| "truthy (Some (JObj kvs)) = True"

fun is_nullish :: "json option \<Rightarrow> bool" where
  "is_nullish None = True"
| "is_nullish (Some v) = (v = JNull)"

definition set_prop :: "string \<Rightarrow> json \<Rightarrow> json_object \<Rightarrow> json_object" where
  "set_prop k v kvs = AList.update k v kvs"

subsection \<open>Parsing\<close>

definition json_space :: "char \<Rightarrow> bool" where
  "json_space c = (let n = of_char c :: nat in n = 32 \<or> n = 9 \<or> n = 10 \<or> n = 13)"

definition skip_space :: "string \<Rightarrow> string" where
  "skip_space = dropWhile json_space"

definition digit_value :: "char \<Rightarrow> nat option" where
  "digit_value c = (let n = of_char c :: nat in if 48 \<le> n \<and> n \<le> 57 then Some (n - 48) else None)"

definition is_digit :: "char \<Rightarrow> bool" where
  "is_digit c = (digit_value c \<noteq> None)"

definition digits_value :: "string \<Rightarrow> nat" where
  "digits_value s = foldl (\<lambda>n c. 10 * n + nullish (digit_value c) 0) 0 s"

definition hex_value :: "char \<Rightarrow> nat option" where
  "hex_value c =
     (let n = of_char c :: nat in
      if 48 \<le> n \<and> n \<le> 57 then Some (n - 48)
      else if 65 \<le> n \<and> n \<le> 70 then Some (n - 55)
      else if 97 \<le> n \<and> n \<le> 102 then Some (n - 87)
      else None)"

text \<open>\<open>-?(0|[1-9][0-9]*)([.][0-9]+)?([eE][+-]?[0-9]+)?\<close>, the longest match.\<close>

definition parse_int_part :: "string \<Rightarrow> (nat \<times> string) option" where
  "parse_int_part s =
     (case s of
        [] \<Rightarrow> None
      | c # cs \<Rightarrow>
          if c = CHR ''0'' then Some (0, cs)
          else if is_digit c then Some (digits_value (takeWhile is_digit s), dropWhile is_digit s)
          else None)"

definition parse_frac_part :: "string \<Rightarrow> (rat \<times> string) option" where
  "parse_frac_part s =
     (case s of
        [] \<Rightarrow> Some (0, s)
      | c # cs \<Rightarrow>
          if c \<noteq> CHR ''.'' then Some (0, s)
          else
            (let ds = takeWhile is_digit cs in
             if ds = [] then None else Some (of_nat (digits_value ds) / 10 ^ length ds, dropWhile is_digit cs)))"

definition parse_exp_part :: "string \<Rightarrow> (rat \<times> string) option" where
  "parse_exp_part s =
     (case s of
        [] \<Rightarrow> Some (1, s)
      | c # cs \<Rightarrow>
          if c \<noteq> CHR ''e'' \<and> c \<noteq> CHR ''E'' then Some (1, s)
          else
            (let (neg, r) = (case cs of
                   [] \<Rightarrow> (False, cs)
                 | d # r \<Rightarrow> if d = CHR ''-'' then (True, r) else if d = CHR ''+'' then (False, r) else (False, cs));
                 ds = takeWhile is_digit r; n = digits_value ds in
             if ds = [] then None else Some (if neg then 1 / 10 ^ n else 10 ^ n, dropWhile is_digit r)))"

definition parse_number :: "string \<Rightarrow> (json \<times> string) option" where
  "parse_number s =
     (let (neg, r) = (case s of c # cs \<Rightarrow> if c = CHR ''-'' then (True, cs) else (False, s) | [] \<Rightarrow> (False, s)) in
      Option.bind (parse_int_part r) (\<lambda>(n, r1).
      Option.bind (parse_frac_part r1) (\<lambda>(f, r2).
      map_option (\<lambda>(e, r3). (JNum ((if neg then -1 else 1) * (of_nat n + f) * e), r3)) (parse_exp_part r2))))"

definition escape_char :: "char \<Rightarrow> char option" where
  "escape_char c =
     (if c = CHR 0x22 \<or> c = CHR 0x5C \<or> c = CHR ''/'' then Some c
      else if c = CHR ''b'' then Some (CHR 0x08)
      else if c = CHR ''f'' then Some (CHR 0x0C)
      else if c = CHR ''n'' then Some (CHR 0x0A)
      else if c = CHR ''r'' then Some (CHR 0x0D)
      else if c = CHR ''t'' then Some (CHR 0x09)
      else None)"

fun parse_chars :: "string \<Rightarrow> (string \<times> string) option" where
  "parse_chars [] = None"
| "parse_chars (c # cs) =
     (if c = CHR 0x22 then Some ([], cs)
      else if (of_char c :: nat) < 32 then None
      else if c \<noteq> CHR 0x5C then map_option (\<lambda>(s, r). (c # s, r)) (parse_chars cs)
      else
        (case cs of
           [] \<Rightarrow> None
         | d # ds \<Rightarrow>
             if d = CHR ''u'' then
               (case ds of
                  h1 # h2 # h3 # h4 # rest \<Rightarrow>
                    (case (hex_value h1, hex_value h2, hex_value h3, hex_value h4) of
                       (Some 0, Some 0, Some a, Some b) \<Rightarrow>
                         map_option (\<lambda>(s, r). (char_of (16 * a + b) # s, r)) (parse_chars rest)
                     | _ \<Rightarrow> None)
                | _ \<Rightarrow> None)
             else
               (case escape_char d of
                  None \<Rightarrow> None
                | Some e \<Rightarrow> map_option (\<lambda>(s, r). (e # s, r)) (parse_chars ds))))"

definition strip_word :: "string \<Rightarrow> string \<Rightarrow> string option" where
  "strip_word w s = (if take (length w) s = w then Some (drop (length w) s) else None)"

text \<open>Recursive descent; the fuel bounds the nesting and the number of elements of one array or object.\<close>

fun parse_value :: "nat \<Rightarrow> string \<Rightarrow> (json \<times> string) option"
and parse_elems :: "nat \<Rightarrow> string \<Rightarrow> json list \<Rightarrow> (json \<times> string) option"
and parse_members :: "nat \<Rightarrow> string \<Rightarrow> json_object \<Rightarrow> (json \<times> string) option" where
  "parse_value 0 s = None"
| "parse_value (Suc n) s =
     (case skip_space s of
        [] \<Rightarrow> None
      | c # cs \<Rightarrow>
          if c = CHR ''{'' then
            (case strip_word ''}'' (skip_space cs) of
               Some r \<Rightarrow> Some (JObj [], r)
             | None \<Rightarrow> parse_members n cs [])
          else if c = CHR ''['' then
            (case strip_word '']'' (skip_space cs) of
               Some r \<Rightarrow> Some (JArr [], r)
             | None \<Rightarrow> parse_elems n cs [])
          else if c = CHR 0x22 then map_option (\<lambda>(t, r). (JStr t, r)) (parse_chars cs)
          else if c = CHR ''n'' then map_option (\<lambda>r. (JNull, r)) (strip_word ''ull'' cs)
          else if c = CHR ''t'' then map_option (\<lambda>r. (JBool True, r)) (strip_word ''rue'' cs)
          else if c = CHR ''f'' then map_option (\<lambda>r. (JBool False, r)) (strip_word ''alse'' cs)
          else parse_number (c # cs))"
| "parse_elems 0 s acc = None"
| "parse_elems (Suc n) s acc =
     (case parse_value n s of
        None \<Rightarrow> None
      | Some (v, r) \<Rightarrow>
          (case skip_space r of
             [] \<Rightarrow> None
           | c # cs \<Rightarrow>
               if c = CHR '','' then parse_elems n cs (acc @ [v])
               else if c = CHR '']'' then Some (JArr (acc @ [v]), cs)
               else None))"
| "parse_members 0 s acc = None"
| "parse_members (Suc n) s acc =
     (case skip_space s of
        [] \<Rightarrow> None
      | q # qs \<Rightarrow>
          if q \<noteq> CHR 0x22 then None
          else
            (case parse_chars qs of
               None \<Rightarrow> None
             | Some (k, r) \<Rightarrow>
                 (case strip_word '':'' (skip_space r) of
                    None \<Rightarrow> None
                  | Some r1 \<Rightarrow>
                      (case parse_value n r1 of
                         None \<Rightarrow> None
                       | Some (v, r2) \<Rightarrow>
                           (case skip_space r2 of
                              [] \<Rightarrow> None
                            | c # cs \<Rightarrow>
                                if c = CHR '','' then parse_members n cs (set_prop k v acc)
                                else if c = CHR ''}'' then Some (JObj (set_prop k v acc), cs)
                                else None)))))"

definition json_fuel :: "string \<Rightarrow> nat" where
  "json_fuel s = 2 * length s + 2"

definition JSON_parse :: "string \<Rightarrow> json option" where
  "JSON_parse s =
     (case parse_value (json_fuel s) s of
        None \<Rightarrow> None
      | Some (v, r) \<Rightarrow> if skip_space r = [] then Some v else None)"

subsection \<open>Printing\<close>

definition hex_digit :: "nat \<Rightarrow> char" where
  "hex_digit n = char_of (if n < 10 then n + 48 else n + 87)"

definition quote_char :: "char \<Rightarrow> string" where
  "quote_char c =
     (let n = of_char c :: nat in
      if c = CHR 0x22 \<or> c = CHR 0x5C then [CHR 0x5C, c]
      else if n = 8 then [CHR 0x5C, CHR ''b'']
      else if n = 9 then [CHR 0x5C, CHR ''t'']
      else if n = 10 then [CHR 0x5C, CHR ''n'']
      else if n = 12 then [CHR 0x5C, CHR ''f'']
      else if n = 13 then [CHR 0x5C, CHR ''r'']
      else if n < 32 then [CHR 0x5C, CHR ''u'', CHR ''0'', CHR ''0'', hex_digit (n div 16), hex_digit (n mod 16)]
      else [c])"

definition quote_string :: "string \<Rightarrow> string" where
  "quote_string s = CHR 0x22 # concat (map quote_char s) @ [CHR 0x22]"

definition comma_join :: "string list \<Rightarrow> string" where
  "comma_join ps = concat (map (\<lambda>(i, p). if i = 0 then p else CHR '','' # p) (zip [0..<length ps] ps))"

text \<open>How a number is printed is an argument.\<close>

fun JSON_stringify :: "(rat \<Rightarrow> string) \<Rightarrow> json \<Rightarrow> string" where
  "JSON_stringify num JNull = ''null''"
| "JSON_stringify num (JBool b) = (if b then ''true'' else ''false'')"
| "JSON_stringify num (JNum n) = num n"
| "JSON_stringify num (JStr s) = quote_string s"
| "JSON_stringify num (JArr vs) = ''['' @ comma_join (map (JSON_stringify num) vs) @ '']''"
| "JSON_stringify num (JObj kvs) =
     ''{'' @ comma_join (map (\<lambda>(k, v). quote_string k @ '':'' @ JSON_stringify num v) kvs) @ ''}''"

subsection \<open>The fuel is enough\<close>

lemma skip_space_le: "length (skip_space s) \<le> length s"
  by (simp add: skip_space_def length_dropWhile_le)

lemma parse_chars_shrinks: "parse_chars s = Some (t, r) \<Longrightarrow> length r < length s"
proof (induction s arbitrary: t r rule: parse_chars.induct)
  case (2 c cs)
  then show ?case
    by (auto split: if_splits list.splits option.splits prod.splits nat.splits) fastforce+
qed simp

lemma strip_word_shrinks: "strip_word w s = Some r \<Longrightarrow> w \<noteq> [] \<Longrightarrow> s \<noteq> [] \<and> length r < length s"
  by (cases w; cases s) (auto simp: strip_word_def split: if_splits)

lemma strip_word_le: "strip_word w s = Some r \<Longrightarrow> length r \<le> length s"
  by (auto simp: strip_word_def split: if_splits)

lemma parse_frac_le: "parse_frac_part s = Some (f, r) \<Longrightarrow> length r \<le> length s"
  by (auto simp: parse_frac_part_def Let_def length_dropWhile_le le_SucI split: list.splits if_splits)

lemma parse_exp_le: "parse_exp_part s = Some (e, r) \<Longrightarrow> length r \<le> length s"
  by (auto simp: parse_exp_part_def Let_def length_dropWhile_le le_SucI split: list.splits if_splits prod.splits)

lemma parse_int_shrinks: "parse_int_part s = Some (n, r) \<Longrightarrow> length r < length s"
  by (auto simp: parse_int_part_def length_dropWhile_le le_imp_less_Suc split: list.splits if_splits)

lemma parse_number_shrinks: "parse_number s = Some (v, r) \<Longrightarrow> length r < length s"
  unfolding parse_number_def
  by (auto simp: Let_def Option.bind_eq_Some_conv split: list.splits if_splits prod.splits
      dest!: parse_frac_le parse_exp_le parse_int_shrinks)

lemma skip_space_Cons: "skip_space s = c # cs \<Longrightarrow> length cs < length s"
  using skip_space_le [of s] by simp

lemma parse_shrinks:
  "parse_value n s = Some (v, r) \<Longrightarrow> length r < length s"
  "parse_elems n s acc = Some (v, r) \<Longrightarrow> length r < length s"
  "parse_members n s acc' = Some (v, r) \<Longrightarrow> length r < length s"
proof (induction n s and n s acc and n s acc' arbitrary: v r and v r and v r
    rule: parse_value_parse_elems_parse_members.induct)
  case (2 n s)
  show ?case
  proof (cases "skip_space s")
    case (Cons c cs)
    note len = skip_space_Cons [OF Cons] skip_space_le [of cs]
    show ?thesis
    proof (cases "c = CHR ''{'' \<or> c = CHR ''[''")
      case True
      then show ?thesis
        using "2.prems" "2.IH"(1) [OF Cons] "2.IH"(2) [OF Cons] Cons len
        by (fastforce dest: strip_word_shrinks split: if_splits option.splits)
    next
      case False
      then show ?thesis using "2.prems" Cons len skip_space_le [of s]
        by (auto split: if_splits dest!: parse_number_shrinks parse_chars_shrinks strip_word_le)
    qed
  qed (use "2.prems" in simp)
next
  case (4 n s acc)
  obtain w q where w: "parse_value n s = Some (w, q)" using "4.prems" by (auto split: option.splits)
  obtain c cs where c: "skip_space q = c # cs" using "4.prems" w by (auto split: list.splits)
  show ?case
    using "4.prems" "4.IH"(1) [OF w] "4.IH"(2) [OF w refl c] w c skip_space_Cons [OF c]
    by (auto split: if_splits)
next
  case (6 n s acc)
  obtain qs where s: "skip_space s = CHR 0x22 # qs" using "6.prems" by (auto split: list.splits if_splits)
  obtain k q where k: "parse_chars qs = Some (k, q)" using "6.prems" s by (auto split: option.splits)
  obtain q1 where q1: "strip_word '':'' (skip_space q) = Some q1" using "6.prems" s k by (auto split: option.splits)
  obtain w q2 where w: "parse_value n q1 = Some (w, q2)" using "6.prems" s k q1 by (auto split: option.splits)
  obtain c cs where c: "skip_space q2 = c # cs" using "6.prems" s k q1 w by (auto split: list.splits)
  show ?case
    using "6.prems" "6.IH" s k q1 w c skip_space_Cons [OF c] skip_space_Cons [OF s] parse_chars_shrinks [OF k]
      skip_space_le [of q] strip_word_le [OF q1]
    by (fastforce split: if_splits)
qed simp_all

text \<open>What any amount of fuel parses, twice the length and one parses too.\<close>

lemma parse_enough:
  "parse_value m s = Some x \<Longrightarrow> 2 * length s + 1 \<le> n \<Longrightarrow> parse_value n s = Some x"
  "parse_elems m s acc = Some x \<Longrightarrow> 2 * length s + 2 \<le> n \<Longrightarrow> parse_elems n s acc = Some x"
  "parse_members m s acc' = Some x \<Longrightarrow> 2 * length s + 2 \<le> n \<Longrightarrow> parse_members n s acc' = Some x"
proof (induction m s and m s acc and m s acc' arbitrary: x n and x n and x n
    rule: parse_value_parse_elems_parse_members.induct)
  case (2 m s)
  obtain n' where n: "n = Suc n'" using "2.prems"(2) by (cases n) auto
  show ?case
  proof (cases "skip_space s")
    case (Cons c cs)
    have le: "2 * length cs + 2 \<le> n'" using skip_space_Cons [OF Cons] "2.prems"(2) n by simp
    show ?thesis
      using "2.prems"(1) "2.IH"(1) [OF Cons, of x n'] "2.IH"(2) [OF Cons, of x n'] Cons le n
      by (auto split: if_splits option.splits)
  qed (use "2.prems" in simp)
next
  case (4 m s acc)
  obtain n' where n: "n = Suc n'" using "4.prems"(2) by (cases n) auto
  obtain w q where w: "parse_value m s = Some (w, q)" using "4.prems" by (auto split: option.splits)
  obtain c cs where c: "skip_space q = c # cs" using "4.prems" w by (auto split: list.splits)
  have w': "parse_value n' s = Some (w, q)" using "4.IH"(1) [OF w] "4.prems"(2) n by simp
  have le: "2 * length cs + 2 \<le> n'"
    using skip_space_Cons [OF c] parse_shrinks(1) [OF w] "4.prems"(2) n by simp
  show ?case
    using "4.prems"(1) "4.IH"(2) [OF w refl c, of x n'] w w' c le n by (auto split: if_splits)
next
  case (6 m s acc)
  obtain n' where n: "n = Suc n'" using "6.prems"(2) by (cases n) auto
  obtain qs where s: "skip_space s = CHR 0x22 # qs" using "6.prems" by (auto split: list.splits if_splits)
  obtain k q where k: "parse_chars qs = Some (k, q)" using "6.prems" s by (auto split: option.splits)
  obtain q1 where q1: "strip_word '':'' (skip_space q) = Some q1" using "6.prems" s k by (auto split: option.splits)
  obtain w q2 where w: "parse_value m q1 = Some (w, q2)" using "6.prems" s k q1 by (auto split: option.splits)
  obtain c cs where c: "skip_space q2 = c # cs" using "6.prems" s k q1 w by (auto split: list.splits)
  have l1: "length q1 < length s"
    using skip_space_Cons [OF s] parse_chars_shrinks [OF k] skip_space_le [of q] strip_word_le [OF q1] by simp
  have w': "parse_value n' q1 = Some (w, q2)"
    using "6.IH"(1) [OF s _ k refl q1 w] "6.prems"(2) n l1 by simp
  have le: "2 * length cs + 2 \<le> n'"
    using skip_space_Cons [OF c] parse_shrinks(1) [OF w] l1 "6.prems"(2) n by simp
  have rec: "parse_members n' cs (set_prop k w acc) = Some x"
    if "c = CHR '',''" "parse_members m cs (set_prop k w acc) = Some x"
    using "6.IH"(2) [OF s _ k refl q1 w refl c that(1) that(2) le] by simp
  show ?case
    using "6.prems"(1) s k q1 w w' c n by (auto split: if_splits intro: rec)
qed simp_all

lemma JSON_parse_complete: "parse_value m s = Some (v, []) \<Longrightarrow> JSON_parse s = Some v"
  using parse_enough(1) [of m s "(v, [])" "json_fuel s"]
  by (simp add: JSON_parse_def json_fuel_def skip_space_def)

end
