(* ===== verification/Helm_Error.thy ===== *)
theory Helm_Error
  imports Json
begin

text \<open>
  The structured error model (\<open>packages/shared/src/error/schema.ts\<close>): the error classes, their HTTP
  statuses and the factory that keeps the two together. The factory parses what it builds, so an
  empty trace id makes it throw; a caller that may reach that point says so (\<open>error_throws\<close>).
\<close>

datatype error_class =
    Auth_error
  | Client_not_allowed
  | Invalid_request
  | Lane_unavailable
  | All_providers_failed
  | Capability_unsatisfiable
  | Upstream_error
  | Timeout_error
  | Rate_limited
  | Client_abort

record helm_error =
  he_error_class :: error_class
  he_http_status :: int
  he_message :: string
  he_trace_id :: trace_id
  he_provider_raw :: "json_object option"

fun ERROR_CLASS_HTTP_STATUS :: "error_class \<Rightarrow> int" where
  "ERROR_CLASS_HTTP_STATUS Auth_error = 401"
| "ERROR_CLASS_HTTP_STATUS Client_not_allowed = 403"
| "ERROR_CLASS_HTTP_STATUS Invalid_request = 400"
| "ERROR_CLASS_HTTP_STATUS Lane_unavailable = 503"
| "ERROR_CLASS_HTTP_STATUS All_providers_failed = 502"
| "ERROR_CLASS_HTTP_STATUS Capability_unsatisfiable = 422"
| "ERROR_CLASS_HTTP_STATUS Upstream_error = 502"
| "ERROR_CLASS_HTTP_STATUS Timeout_error = 504"
| "ERROR_CLASS_HTTP_STATUS Rate_limited = 429"
| "ERROR_CLASS_HTTP_STATUS Client_abort = 499"

definition makeHelmError :: "error_class \<Rightarrow> string \<Rightarrow> trace_id \<Rightarrow> helm_error" where
  "makeHelmError cls msg tr =
     \<lparr>he_error_class = cls, he_http_status = ERROR_CLASS_HTTP_STATUS cls, he_message = msg,
      he_trace_id = tr, he_provider_raw = None\<rparr>"

text \<open>The same factory where the caller passes the upstream's raw error.\<close>

definition makeHelmErrorRaw :: "error_class \<Rightarrow> string \<Rightarrow> trace_id \<Rightarrow> json_object option \<Rightarrow> helm_error" where
  "makeHelmErrorRaw cls msg tr raw = (makeHelmError cls msg tr)\<lparr>he_provider_raw := raw\<rparr>"

definition error_throws :: "helm_error \<Rightarrow> bool" where
  "error_throws e = (he_trace_id e = [])"

lemma makeHelmError_simps [simp]:
  "he_error_class (makeHelmError c m t) = c" "he_trace_id (makeHelmError c m t) = t"
  "he_http_status (makeHelmError c m t) = ERROR_CLASS_HTTP_STATUS c"
  by (simp_all add: makeHelmError_def)

lemma makeHelmErrorRaw_simps [simp]:
  "he_error_class (makeHelmErrorRaw c m t r) = c" "he_trace_id (makeHelmErrorRaw c m t r) = t"
  "he_http_status (makeHelmErrorRaw c m t r) = ERROR_CLASS_HTTP_STATUS c"
  "he_message (makeHelmErrorRaw c m t r) = m" "he_provider_raw (makeHelmErrorRaw c m t r) = r"
  by (simp_all add: makeHelmErrorRaw_def makeHelmError_def)

lemma status_is_error: "400 \<le> ERROR_CLASS_HTTP_STATUS c \<and> ERROR_CLASS_HTTP_STATUS c < 600"
  by (cases c) simp_all

end
