(* ===== verification/Route_Plan.thy ===== *)
theory Route_Plan
  imports Model_Names Policies Helm_Error
begin

text \<open>
  The planning half of \<open>packages/core/src/routing/route-request.ts\<close>: what \<open>plan\<close> decides for one
  request, with every helper it calls. A rejection is the left summand, a decision the right one.
  The dependencies are a record of functions: \<open>classify\<close> and \<open>getSignal\<close> return \<open>None\<close> when they
  throw. They are given the request by value and do not change it.
\<close>

subsection \<open>Requests, classifications, options\<close>

datatype protocol = Openai_chat | Anthropic_messages | Openai_responses | Gemini

record internal_request =
  ir_request_id :: string
  ir_trace_id :: "string option"
  requested_model :: string
  ir_protocol :: protocol
  ir_reasoning_effort :: "reasoning_effort option"
  ir_reasoning_effort_forced :: bool
  previous_response_id :: "string option"
  stateful_provider_alias :: "string option"
  stateful_lane :: "string option"

record constraints =
  c_needs_json :: "bool option"
  c_needs_tools :: "bool option"
  c_needs_vision :: "bool option"
  c_other :: "(string \<times> string) list"

record signal_thresholds =
  minSamples :: int
  maxErrorRate :: rat
  maxFallbackRate :: rat
  minSuccessRateDelta :: rat

record routing_signal =
  sg_samples :: int
  sg_successRate :: rat
  sg_fallbackRate :: rat
  sg_errorRate :: rat
  sg_p95LatencyMs :: rat
  sg_avgCostUsd :: "rat option"
  sg_updatedAt :: ms

record signal_summary =
  ss_samples :: int
  ss_success_rate :: rat
  ss_fallback_rate :: rat
  ss_error_rate :: rat
  ss_p95_latency_ms :: rat
  ss_avg_cost_usd :: "rat option"
  ss_updated_at :: ms

record feedback_note =
  fn_task_type :: string
  fn_from_lane :: lane_name
  fn_to_lane :: lane_name
  fn_selected_signal :: signal_summary
  fn_candidate_signal :: signal_summary
  fn_thresholds :: signal_thresholds

datatype explanation = Classifier_note string | Signal_feedback_note feedback_note

record classification =
  cl_task_type :: string
  cl_complexity :: complexity
  cl_confidence :: rat
  cl_decided_by :: decided_by
  cl_rules_confidence :: "rat option"
  cl_eval_cache_hit :: "bool option"
  cl_fallback_reason :: "string option"
  cl_eval_usd :: "rat option"
  cl_eval_model :: "string option"
  cl_eval_latency_ms :: "rat option"
  cl_constraints :: constraints
  cl_explanation :: "explanation list"

record key_caps =
  kc_allowedLanes :: "lane_name list option"
  kc_degradeLane :: "lane_name option"
  kc_blockedModels :: "string list option"

record route_options =
  allowCustomModel :: bool
  keyPrefix :: "string option"
  keyCaps :: "key_caps option"

record feedback_deps =
  fb_enabled :: bool
  getSignal :: "string \<Rightarrow> lane_name \<Rightarrow> routing_signal option option"
  fb_minSamples :: "int option"
  fb_maxErrorRate :: "rat option"
  fb_maxFallbackRate :: "rat option"
  fb_minSuccessRateDelta :: "rat option"

record plan_deps =
  classify :: "internal_request \<Rightarrow> classification option"
  policies :: policies_config
  lanes :: lanes_config
  defaultLane :: "lane_name option"
  isKnownModel :: "(string \<Rightarrow> bool) option"
  isImageModel :: "(string \<Rightarrow> bool) option"
  modelAliases :: "alias_map option"
  signalFeedback :: "feedback_deps option"

record execution_plan =
  pl_selected_lane :: lane_name
  candidate_chain :: "string list"
  explicit_model :: "string option"

subsection \<open>The decision segments\<close>

datatype complexity_label = Of_complexity complexity | Passthrough_complexity

record classifier_decision =
  cd_task_type :: string
  cd_complexity :: complexity_label
  cd_confidence :: rat
  cd_decided_by :: decided_by
  cd_rules_confidence :: "rat option"
  cd_eval_cache_hit :: "bool option"
  cd_eval_model :: "string option"
  cd_eval_latency_ms :: "rat option"
  cd_fallback_reason :: "string option"
  cd_constraints :: constraints
  cd_explanation :: "explanation list"

record policy_decision =
  pd_matched_policy_id :: "string option"
  pd_reason :: string

record plan_decision =
  plan_of :: execution_plan
  pn_classifier :: classifier_decision
  pn_policy :: policy_decision
  pn_forcedReasoningEffort :: "reasoning_effort option"
  pn_evalUsd :: "rat option"

record plan_rejection =
  reject :: helm_error
  rj_selectedLane :: lane_name
  rj_candidateChain :: "string list option"
  rj_classifier :: "classifier_decision option"
  rj_policy :: "policy_decision option"
  rj_forcedReasoningEffort :: "reasoning_effort option"
  rj_evalUsd :: "rat option"

type_synonym planned = "plan_rejection + plan_decision"

definition no_constraints :: constraints where
  "no_constraints = \<lparr>c_needs_json = None, c_needs_tools = None, c_needs_vision = None, c_other = []\<rparr>"

definition defaultClassification :: classification where
  "defaultClassification =
     \<lparr>cl_task_type = ''general'', cl_complexity = Medium_complexity, cl_confidence = 0,
      cl_decided_by = By_default, cl_rules_confidence = None, cl_eval_cache_hit = None,
      cl_fallback_reason = None, cl_eval_usd = None, cl_eval_model = None, cl_eval_latency_ms = None,
      cl_constraints = no_constraints, cl_explanation = []\<rparr>"

definition classifySafe :: "internal_request \<Rightarrow> (internal_request \<Rightarrow> classification option) \<Rightarrow> classification" where
  "classifySafe req cls = nullish (cls req) defaultClassification"

definition passthroughClassifier :: classifier_decision where
  "passthroughClassifier =
     \<lparr>cd_task_type = ''passthrough'', cd_complexity = Passthrough_complexity, cd_confidence = 1,
      cd_decided_by = By_default, cd_rules_confidence = None, cd_eval_cache_hit = None,
      cd_eval_model = None, cd_eval_latency_ms = None, cd_fallback_reason = None,
      cd_constraints = no_constraints, cd_explanation = []\<rparr>"

definition policyContext :: "classification \<Rightarrow> policy_context" where
  "policyContext cls =
     \<lparr>ctx_task_type = cl_task_type cls, ctx_complexity = Some (cl_complexity cls),
      ctx_needs_json = (c_needs_json (cl_constraints cls) = Some True),
      ctx_needs_tools = (c_needs_tools (cl_constraints cls) = Some True),
      ctx_needs_vision = (c_needs_vision (cl_constraints cls) = Some True),
      ctx_project_id = None\<rparr>"

definition aliasPolicyContext :: policy_context where
  "aliasPolicyContext =
     \<lparr>ctx_task_type = ''passthrough'', ctx_complexity = None, ctx_needs_json = False,
      ctx_needs_tools = False, ctx_needs_vision = False, ctx_project_id = None\<rparr>"

definition forResolver :: "classification \<Rightarrow> resolver_classification" where
  "forResolver cls =
     \<lparr>rc_task_type = cl_task_type cls, rc_complexity = cl_complexity cls, rc_decided_by = cl_decided_by cls\<rparr>"

definition correlationTraceId :: "internal_request \<Rightarrow> trace_id" where
  "correlationTraceId req =
     (case ir_trace_id req of
        Some t \<Rightarrow> if t \<noteq> [] then t else ir_request_id req
      | None \<Rightarrow> ir_request_id req)"

subsection \<open>Key caps\<close>

definition caps_allowed :: "route_options \<Rightarrow> lane_name list option" where
  "caps_allowed opts = (case keyCaps opts of None \<Rightarrow> None | Some c \<Rightarrow> kc_allowedLanes c)"

definition caps_degrade :: "route_options \<Rightarrow> lane_name option" where
  "caps_degrade opts = (case keyCaps opts of None \<Rightarrow> None | Some c \<Rightarrow> kc_degradeLane c)"

definition caps_blocked :: "route_options \<Rightarrow> string list option" where
  "caps_blocked opts = (case keyCaps opts of None \<Rightarrow> None | Some c \<Rightarrow> kc_blockedModels c)"

definition blockedModelMatcher :: "route_options \<Rightarrow> blocked_matcher option" where
  "blockedModelMatcher opts = createBlockedModelMatcher (caps_blocked opts)"

definition laneHasPermittedModel :: "lane_name \<Rightarrow> lanes_config \<Rightarrow> route_options \<Rightarrow> bool" where
  "laneHasPermittedModel l ls opts =
     (case blockedModelMatcher opts of
        None \<Rightarrow> True
      | Some m \<Rightarrow> list_ex (\<lambda>alias. \<not> blocks m alias) (expandLaneChain l ls))"

definition filterBlockedModels :: "string list \<Rightarrow> route_options \<Rightarrow> string list" where
  "filterBlockedModels chain opts =
     (case blockedModelMatcher opts of
        None \<Rightarrow> chain
      | Some m \<Rightarrow>
          let filtered = filter (\<lambda>alias. \<not> blocks m alias) chain
          in if length filtered = length chain then chain else filtered)"

definition isDirectBlockedModel :: "internal_request \<Rightarrow> plan_deps \<Rightarrow> route_options \<Rightarrow> bool" where
  "isDirectBlockedModel req deps opts =
     (let model = requested_model req in
      if model = [] \<or> model = ''auto'' then False
      else if hasLane (lanes deps) model then False
      else (case blockedModelMatcher opts of None \<Rightarrow> False | Some m \<Rightarrow> blocks m model))"

definition isExplicitRequestEligible :: "internal_request \<Rightarrow> route_options \<Rightarrow> bool" where
  "isExplicitRequestEligible req opts =
     (allowCustomModel opts \<and> requested_model req \<noteq> [] \<and> requested_model req \<noteq> ''auto'' \<and>
      caps_degrade opts = None)"

subsection \<open>Signal feedback\<close>

definition DEFAULT_SIGNAL_FEEDBACK :: signal_thresholds where
  "DEFAULT_SIGNAL_FEEDBACK =
     \<lparr>minSamples = 20, maxErrorRate = 1 / 4, maxFallbackRate = 1 / 2, minSuccessRateDelta = 15 / 100\<rparr>"

definition signalThresholds :: "feedback_deps \<Rightarrow> signal_thresholds" where
  "signalThresholds fb =
     \<lparr>minSamples = nullish (fb_minSamples fb) (minSamples DEFAULT_SIGNAL_FEEDBACK),
      maxErrorRate = nullish (fb_maxErrorRate fb) (maxErrorRate DEFAULT_SIGNAL_FEEDBACK),
      maxFallbackRate = nullish (fb_maxFallbackRate fb) (maxFallbackRate DEFAULT_SIGNAL_FEEDBACK),
      minSuccessRateDelta = nullish (fb_minSuccessRateDelta fb) (minSuccessRateDelta DEFAULT_SIGNAL_FEEDBACK)\<rparr>"

definition signalSummary :: "routing_signal \<Rightarrow> signal_summary" where
  "signalSummary s =
     \<lparr>ss_samples = sg_samples s, ss_success_rate = sg_successRate s, ss_fallback_rate = sg_fallbackRate s,
      ss_error_rate = sg_errorRate s, ss_p95_latency_ms = sg_p95LatencyMs s,
      ss_avg_cost_usd = sg_avgCostUsd s, ss_updated_at = sg_updatedAt s\<rparr>"

definition isDegradedSignal :: "routing_signal \<Rightarrow> signal_thresholds \<Rightarrow> bool" where
  "isDegradedSignal s t =
     (if sg_samples s < minSamples t then False
      else sg_errorRate s \<ge> maxErrorRate t \<or> sg_fallbackRate s \<ge> maxFallbackRate t)"

definition isHealthyPromotion :: "routing_signal \<Rightarrow> routing_signal \<Rightarrow> signal_thresholds \<Rightarrow> bool" where
  "isHealthyPromotion cand cur t =
     (if sg_samples cand < minSamples t then False
      else if sg_errorRate cand \<ge> maxErrorRate t then False
      else if sg_fallbackRate cand \<ge> maxFallbackRate t then False
      else sg_successRate cand \<ge> sg_successRate cur + minSuccessRateDelta t)"

definition RANK_ENTRIES :: "(lane_name \<times> int) list" where
  "RANK_ENTRIES = [(''economy'', 0), (''balanced'', 1), (''premium'', 2)]"

definition strongerRankedLanes :: "lane_name \<Rightarrow> lanes_config \<Rightarrow> lane_name list" where
  "strongerRankedLanes sel ls =
     (case LANE_RANK sel of
        None \<Rightarrow> []
      | Some r \<Rightarrow>
          map fst (sort_key snd (filter (\<lambda>(l, rank). rank > r \<and> hasLane ls l) RANK_ENTRIES)))"

definition candidateAllowedByCaps :: "lane_name \<Rightarrow> lanes_config \<Rightarrow> policy_outcome \<Rightarrow> route_options \<Rightarrow> bool" where
  "candidateAllowedByCaps cand ls out opts =
     (let capped = applyCaps cand
            (out\<lparr>po_allowed_lanes := intersectAllowedLanes (po_allowed_lanes out) (caps_allowed opts)\<rparr>)
      in if capped \<noteq> Some cand then False else laneHasPermittedModel cand ls opts)"

definition applyDegradeCaps :: "lane_name \<Rightarrow> policy_outcome \<Rightarrow> lane_name option" where
  "applyDegradeCaps l out =
     (case applyCaps l out of
        None \<Rightarrow> None
      | Some capped \<Rightarrow>
          if capped = l then Some capped
          else
            (case (LANE_RANK l, LANE_RANK capped) of
               (Some candidateRank, Some cappedRank) \<Rightarrow>
                 if cappedRank \<le> candidateRank then Some capped else None
             | _ \<Rightarrow> None))"

record signal_adjustment =
  sa_lane :: lane_name
  sa_explanation :: explanation

fun signal_loop :: "feedback_deps \<Rightarrow> signal_thresholds \<Rightarrow> string \<Rightarrow> lane_name \<Rightarrow> routing_signal \<Rightarrow> lane_name list \<Rightarrow>
    signal_adjustment option" where
  "signal_loop fb t task sel current [] = None"
| "signal_loop fb t task sel current (cand # cands) =
     (case getSignal fb task cand of
        None \<Rightarrow> None
      | Some None \<Rightarrow> signal_loop fb t task sel current cands
      | Some (Some s) \<Rightarrow>
          if \<not> isHealthyPromotion s current t then signal_loop fb t task sel current cands
          else Some \<lparr>sa_lane = cand,
                     sa_explanation = Signal_feedback_note
                       \<lparr>fn_task_type = task, fn_from_lane = sel, fn_to_lane = cand,
                        fn_selected_signal = signalSummary current, fn_candidate_signal = signalSummary s,
                        fn_thresholds = t\<rparr>\<rparr>)"

definition maybeApplySignalFeedback :: "lane_name \<Rightarrow> classification \<Rightarrow> policy_outcome \<Rightarrow> lanes_config \<Rightarrow>
    route_options \<Rightarrow> feedback_deps option \<Rightarrow> signal_adjustment option" where
  "maybeApplySignalFeedback sel cls out ls opts feedback =
     (case feedback of
        None \<Rightarrow> None
      | Some fb \<Rightarrow>
          if \<not> fb_enabled fb then None
          else if cl_decided_by cls = By_default \<or> cl_decided_by cls = By_fallback then None
          else if po_use_lane out \<noteq> None then None
          else if caps_degrade opts \<noteq> None then None
          else
            let t = signalThresholds fb;
                candidates = filter (\<lambda>c. candidateAllowedByCaps c ls out opts) (strongerRankedLanes sel ls)
            in if candidates = [] then None
               else
                 (case getSignal fb (cl_task_type cls) sel of
                    None \<Rightarrow> None
                  | Some None \<Rightarrow> None
                  | Some (Some current) \<Rightarrow>
                      if \<not> isDegradedSignal current t then None
                      else signal_loop fb t (cl_task_type cls) sel current candidates))"

subsection \<open>Rejections\<close>

definition invalid :: "internal_request \<Rightarrow> string \<Rightarrow> helm_error" where
  "invalid req msg = makeHelmError Invalid_request msg (correlationTraceId req)"

definition quoted :: "string \<Rightarrow> string" where
  "quoted s = ''\"'' @ s @ ''\"''"

definition noPermittedModelsRejection :: "internal_request \<Rightarrow> lane_name \<Rightarrow> classifier_decision \<Rightarrow> policy_decision \<Rightarrow>
    reasoning_effort option \<Rightarrow> rat option \<Rightarrow> plan_rejection" where
  "noPermittedModelsRejection req l c p effort usd =
     \<lparr>reject = invalid req (''all candidate models for lane '' @ quoted l @ '' are blocked for this key''),
      rj_selectedLane = l, rj_candidateChain = Some [], rj_classifier = Some c, rj_policy = Some p,
      rj_forcedReasoningEffort = effort, rj_evalUsd = usd\<rparr>"

definition noPermittedLanesRejection :: "internal_request \<Rightarrow> lane_name \<Rightarrow> classifier_decision \<Rightarrow> policy_decision \<Rightarrow>
    reasoning_effort option \<Rightarrow> rat option \<Rightarrow> string option \<Rightarrow> plan_rejection" where
  "noPermittedLanesRejection req l c p effort usd message =
     \<lparr>reject = invalid req (nullish message ''no lane is permitted by allowed_lanes restrictions''),
      rj_selectedLane = l, rj_candidateChain = Some [], rj_classifier = Some c, rj_policy = Some p,
      rj_forcedReasoningEffort = effort, rj_evalUsd = usd\<rparr>"

subsection \<open>The plan, branch by branch\<close>

definition directBlockedRejection :: "internal_request \<Rightarrow> plan_rejection" where
  "directBlockedRejection req =
     \<lparr>reject = invalid req (''model '' @ quoted (requested_model req) @ '' is blocked for this key''),
      rj_selectedLane = requested_model req, rj_candidateChain = Some [],
      rj_classifier = Some passthroughClassifier,
      rj_policy = Some \<lparr>pd_matched_policy_id = None, pd_reason = ''blocked model rejected''\<rparr>,
      rj_forcedReasoningEffort = None, rj_evalUsd = None\<rparr>"

definition passthroughDecision :: "execution_plan \<Rightarrow> string \<Rightarrow> plan_decision" where
  "passthroughDecision pl reason =
     \<lparr>plan_of = pl, pn_classifier = passthroughClassifier,
      pn_policy = \<lparr>pd_matched_policy_id = None, pd_reason = reason\<rparr>,
      pn_forcedReasoningEffort = None, pn_evalUsd = None\<rparr>"

text \<open>The alias of a stateful Responses continuation, when the request is one.\<close>

definition statefulAliasOf :: "internal_request \<Rightarrow> string option" where
  "statefulAliasOf req =
     (if ir_protocol req = Openai_responses \<and> nullish (previous_response_id req) [] \<noteq> [] \<and>
         nullish (stateful_provider_alias req) [] \<noteq> []
      then stateful_provider_alias req else None)"

definition statefulPlan :: "internal_request \<Rightarrow> plan_deps \<Rightarrow> route_options \<Rightarrow> string \<Rightarrow> planned" where
  "statefulPlan req deps opts statefulAlias =
     (let statefulLane = stateful_lane req;
          explicitStatefulModel = (allowCustomModel opts \<and> statefulLane = Some statefulAlias \<and>
            \<not> hasLane (lanes deps) statefulAlias);
          sel = nullish statefulLane statefulAlias;
          rejectedPolicy = \<lparr>pd_matched_policy_id = None, pd_reason = ''stateful continuation rejected''\<rparr> in
      if (case caps_allowed opts of
            None \<Rightarrow> False
          | Some allowed \<Rightarrow> \<not> explicitStatefulModel \<and>
              (case statefulLane of None \<Rightarrow> True | Some l \<Rightarrow> l \<notin> set allowed))
      then Inl (noPermittedLanesRejection req sel passthroughClassifier rejectedPolicy None None None)
      else if (case caps_degrade opts of None \<Rightarrow> False | Some d \<Rightarrow> statefulLane \<noteq> Some d)
      then Inl (noPermittedLanesRejection req sel passthroughClassifier rejectedPolicy None None
             (Some (''stateful continuation cannot move to required degrade lane '' @
                quoted (nullish (caps_degrade opts) []))))
      else if filterBlockedModels [statefulAlias] opts = []
      then Inl (noPermittedModelsRejection req sel passthroughClassifier rejectedPolicy None None)
      else Inr (passthroughDecision
             \<lparr>pl_selected_lane = sel, candidate_chain = [statefulAlias], explicit_model = Some statefulAlias\<rparr>
             ''stateful Responses continuation''))"

definition imagePinned :: "internal_request \<Rightarrow> plan_deps \<Rightarrow> route_options \<Rightarrow> bool" where
  "imagePinned req deps opts =
     ((case isImageModel deps of None \<Rightarrow> False | Some f \<Rightarrow> f (requested_model req)) \<and> caps_degrade opts = None)"

definition imagePlan :: "internal_request \<Rightarrow> plan_decision" where
  "imagePlan req = passthroughDecision
     \<lparr>pl_selected_lane = ''image'', candidate_chain = [requested_model req],
      explicit_model = Some (requested_model req)\<rparr> ''image generation (model-pinned)''"

definition explicitLaneDecision :: "internal_request \<Rightarrow> plan_deps \<Rightarrow> route_options \<Rightarrow> planned" where
  "explicitLaneDecision req deps opts =
     (let l = requested_model req in
      if (case caps_allowed opts of None \<Rightarrow> False | Some allowed \<Rightarrow> l \<notin> set allowed)
      then Inl \<lparr>reject = invalid req (''lane '' @ quoted l @ '' is not permitted for this key (allowed_lanes)''),
                rj_selectedLane = l, rj_candidateChain = None, rj_classifier = None, rj_policy = None,
                rj_forcedReasoningEffort = None, rj_evalUsd = None\<rparr>
      else
        let pol = \<lparr>pd_matched_policy_id = None, pd_reason = ''explicit lane passthrough''\<rparr>;
            chain = filterBlockedModels (expandLaneChain l (lanes deps)) opts
        in if chain = [] then Inl (noPermittedModelsRejection req l passthroughClassifier pol None None)
           else Inr (passthroughDecision
                  \<lparr>pl_selected_lane = l, candidate_chain = chain, explicit_model = None\<rparr>
                  ''explicit lane passthrough''))"

definition explicitModelDecision :: "string \<Rightarrow> plan_decision" where
  "explicitModelDecision model = passthroughDecision
     \<lparr>pl_selected_lane = model, candidate_chain = [model], explicit_model = Some model\<rparr>
     ''explicit model passthrough''"

definition unknownModelRejection :: "internal_request \<Rightarrow> plan_rejection" where
  "unknownModelRejection req =
     \<lparr>reject = invalid req (''unknown model or lane '' @ quoted (requested_model req)),
      rj_selectedLane = requested_model req, rj_candidateChain = None, rj_classifier = None,
      rj_policy = None, rj_forcedReasoningEffort = None, rj_evalUsd = None\<rparr>"

definition aliasLanePlan :: "internal_request \<Rightarrow> plan_deps \<Rightarrow> route_options \<Rightarrow> lane_name \<Rightarrow> planned" where
  "aliasLanePlan req deps opts aliasTarget =
     (let out = evaluatePolicies aliasPolicyContext (policies deps);
          basePolicy = \<lparr>pd_matched_policy_id = po_matched_policy_id out,
            pd_reason = ''model alias '' @ quoted (requested_model req) @ '' -> lane '' @ quoted aliasTarget\<rparr> in
      case applyCaps aliasTarget
             (out\<lparr>po_allowed_lanes := intersectAllowedLanes (po_allowed_lanes out) (caps_allowed opts)\<rparr>) of
        None \<Rightarrow> Inl (noPermittedLanesRejection req aliasTarget passthroughClassifier basePolicy
                   (po_reasoning_effort out) None None)
      | Some l \<Rightarrow>
          let clamped = (l \<noteq> aliasTarget);
              chain = filterBlockedModels
                (promoteRequestedModel (expandLaneChain l (lanes deps)) (requested_model req)) opts;
              pol = (if clamped
                     then basePolicy\<lparr>pd_reason := pd_reason basePolicy @ '' (capped to '' @ quoted l @ '')''\<rparr>
                     else basePolicy)
          in if chain = []
             then Inl (noPermittedModelsRejection req l passthroughClassifier pol (po_reasoning_effort out) None)
             else Inr \<lparr>plan_of = \<lparr>pl_selected_lane = l, candidate_chain = chain, explicit_model = None\<rparr>,
                       pn_classifier = passthroughClassifier, pn_policy = pol,
                       pn_forcedReasoningEffort = po_reasoning_effort out, pn_evalUsd = None\<rparr>)"

definition baseClassifier :: "classification \<Rightarrow> classifier_decision" where
  "baseClassifier cls =
     \<lparr>cd_task_type = cl_task_type cls, cd_complexity = Of_complexity (cl_complexity cls),
      cd_confidence = cl_confidence cls, cd_decided_by = cl_decided_by cls,
      cd_rules_confidence = cl_rules_confidence cls, cd_eval_cache_hit = cl_eval_cache_hit cls,
      cd_eval_model = cl_eval_model cls, cd_eval_latency_ms = cl_eval_latency_ms cls,
      cd_fallback_reason = cl_fallback_reason cls, cd_constraints = cl_constraints cls,
      cd_explanation = cl_explanation cls\<rparr>"

definition resolvedLane :: "classification \<Rightarrow> policy_outcome \<Rightarrow> plan_deps \<Rightarrow> lane_name" where
  "resolvedLane cls out deps = selected_lane (resolveLane
     \<lparr>rl_classification = forResolver cls,
      rl_policy = \<lparr>rpol_matched_policy_id = po_matched_policy_id out, rpol_use_lane = po_use_lane out,
                   rpol_reason = po_reason out\<rparr>,
      rl_lanes = lanes deps, rl_defaultLane = defaultLane deps\<rparr>)"

definition classifiedPlan :: "internal_request \<Rightarrow> plan_deps \<Rightarrow> route_options \<Rightarrow> bool \<Rightarrow> planned" where
  "classifiedPlan req deps opts aliasToAuto =
     (let cls = classifySafe req (classify deps);
          out = evaluatePolicies (policyContext cls) (policies deps);
          pol = \<lparr>pd_matched_policy_id = po_matched_policy_id out, pd_reason = po_reason out\<rparr>;
          allowed = intersectAllowedLanes (po_allowed_lanes out) (caps_allowed opts);
          degrade = caps_degrade opts;
          baseLane = nullish degrade (resolvedLane cls out deps);
          effective = out\<lparr>po_allowed_lanes := allowed\<rparr>;
          initial = (case degrade of
                       None \<Rightarrow> applyCaps baseLane effective
                     | Some _ \<Rightarrow> applyDegradeCaps baseLane effective) in
      case initial of
        None \<Rightarrow>
          Inl (noPermittedLanesRejection req baseLane (baseClassifier cls) pol (po_reasoning_effort out)
                 (cl_eval_usd cls)
                 (case degrade of
                    None \<Rightarrow> None
                  | Some d \<Rightarrow> Some (''no permitted lane is at or below degrade lane '' @ quoted d)))
      | Some capped \<Rightarrow>
          let adj = maybeApplySignalFeedback capped cls out (lanes deps) opts (signalFeedback deps);
              cappedLane = (case adj of None \<Rightarrow> capped | Some a \<Rightarrow> sa_lane a);
              honor = (\<not> aliasToAuto \<and> degrade = None);
              chain = filterBlockedModels
                (promoteRequestedModel (expandLaneChain cappedLane (lanes deps))
                   (if honor then requested_model req else [])) opts;
              expl = (case adj of None \<Rightarrow> cl_explanation cls
                      | Some a \<Rightarrow> cl_explanation cls @ [sa_explanation a]);
              c = (baseClassifier cls)\<lparr>cd_explanation := expl\<rparr>
          in if chain = []
             then Inl (noPermittedModelsRejection req cappedLane c pol (po_reasoning_effort out) (cl_eval_usd cls))
             else Inr \<lparr>plan_of = \<lparr>pl_selected_lane = cappedLane, candidate_chain = chain, explicit_model = None\<rparr>,
                       pn_classifier = c, pn_policy = pol,
                       pn_forcedReasoningEffort = po_reasoning_effort out, pn_evalUsd = cl_eval_usd cls\<rparr>)"

definition plan :: "internal_request \<Rightarrow> plan_deps \<Rightarrow> route_options \<Rightarrow> planned" where
  "plan req deps opts =
     (if isDirectBlockedModel req deps opts then Inl (directBlockedRejection req)
      else case statefulAliasOf req of
        Some a \<Rightarrow> statefulPlan req deps opts a
      | None \<Rightarrow>
          if imagePinned req deps opts then Inr (imagePlan req)
          else
            let eligible = isExplicitRequestEligible req opts in
            if eligible \<and> hasLane (lanes deps) (requested_model req) then explicitLaneDecision req deps opts
            else if eligible \<and> (case isKnownModel deps of None \<Rightarrow> False | Some f \<Rightarrow> f (requested_model req))
            then Inr (explicitModelDecision (requested_model req))
            else
              let aliasTarget = resolveModelAlias (requested_model req) (modelAliases deps);
                  aliasToAuto = (aliasTarget = Some ''auto'') in
              if allowCustomModel opts \<and> aliasTarget \<noteq> None \<and> \<not> aliasToAuto \<and>
                 hasLane (lanes deps) (nullish aliasTarget []) \<and> caps_degrade opts = None
              then aliasLanePlan req deps opts (nullish aliasTarget [])
              else if eligible \<and> \<not> aliasToAuto
              then (if isKnownModel deps \<noteq> None then Inl (unknownModelRejection req)
                    else Inr (explicitModelDecision (requested_model req)))
              else classifiedPlan req deps opts aliasToAuto)"

end
