(* ===== verification/Route_Plan_Facts.thy ===== *)
theory Route_Plan_Facts
  imports Route_Plan
begin

text \<open>
  What the routing plan guarantees: key block lists, lane whitelists, budget degradation, the gate on
  explicit models, fail-open classification and signal promotion, over every branch of \<open>plan\<close>.
\<close>

subsection \<open>Branches\<close>

lemma filter_blocked [simp]:
  "filterBlockedModels chain opts = filter (\<lambda>a. \<not> model_blocked (caps_blocked opts) a) chain"
  by (simp add: filterBlockedModels_def blockedModelMatcher_def model_blocked_def Let_def filter_same_length
      split: option.split)

lemma direct_blocked_iff:
  "isDirectBlockedModel req deps opts \<longleftrightarrow>
   requested_model req \<noteq> [] \<and> requested_model req \<noteq> ''auto'' \<and> \<not> hasLane (lanes deps) (requested_model req) \<and>
   model_blocked (caps_blocked opts) (requested_model req)"
  by (simp add: isDirectBlockedModel_def Let_def blockedModelMatcher_def model_blocked_def split: option.split)

lemma passthrough_simps [simp]:
  "plan_of (passthroughDecision pl r) = pl" "pn_forcedReasoningEffort (passthroughDecision pl r) = None"
  "pn_evalUsd (passthroughDecision pl r) = None" "pn_classifier (passthroughDecision pl r) = passthroughClassifier"
  by (simp_all add: passthroughDecision_def)

text \<open>The branches that yield a decision.\<close>

lemma plan_Inr:
  assumes "plan req deps opts = Inr d"
  obtains (stateful) a where "statefulAliasOf req = Some a" "statefulPlan req deps opts a = Inr d"
  | (image) "imagePinned req deps opts" "\<not> isDirectBlockedModel req deps opts" "d = imagePlan req"
  | (explicit_lane) "isExplicitRequestEligible req opts" "hasLane (lanes deps) (requested_model req)"
      "explicitLaneDecision req deps opts = Inr d"
  | (explicit_model) "isExplicitRequestEligible req opts" "\<not> isDirectBlockedModel req deps opts"
      "\<not> hasLane (lanes deps) (requested_model req)" "d = explicitModelDecision (requested_model req)"
  | (via_alias) t where "allowCustomModel opts" "caps_degrade opts = None" "hasLane (lanes deps) t"
      "resolveModelAlias (requested_model req) (modelAliases deps) = Some t" "aliasLanePlan req deps opts t = Inr d"
  | (classified) b where "classifiedPlan req deps opts b = Inr d"
proof (cases "statefulAliasOf req")
  case (Some a)
  with assms show thesis by (intro stateful [of a]) (simp_all add: plan_def split: if_splits)
next
  case None
  note st = None
  have nb: "\<not> isDirectBlockedModel req deps opts" using assms by (auto simp: plan_def)
  show thesis
  proof (cases "imagePinned req deps opts")
    case True
    with assms st nb show thesis by (intro image) (simp_all add: plan_def)
  next
    case False
    note rest = assms [unfolded plan_def st option.case if_not_P [OF nb] if_not_P [OF False] Let_def]
    show thesis
    proof (cases "isExplicitRequestEligible req opts \<and> hasLane (lanes deps) (requested_model req)")
      case True
      with rest show thesis by (intro explicit_lane) simp_all
    next
      case no_lane: False
      note rest = rest [unfolded if_not_P [OF no_lane]]
      show thesis
      proof (cases "isExplicitRequestEligible req opts \<and> (case isKnownModel deps of None \<Rightarrow> False | Some f \<Rightarrow> f (requested_model req))")
        case True
        with rest no_lane nb show thesis by (intro explicit_model) simp_all
      next
        case unknown: False
        note rest = rest [unfolded if_not_P [OF unknown]]
        show thesis
        proof (cases "allowCustomModel opts \<and> resolveModelAlias (requested_model req) (modelAliases deps) \<noteq> None \<and>
            \<not> resolveModelAlias (requested_model req) (modelAliases deps) = Some ''auto'' \<and>
            hasLane (lanes deps) (nullish (resolveModelAlias (requested_model req) (modelAliases deps)) []) \<and>
            caps_degrade opts = None")
          case True
          with rest show thesis
            by (intro via_alias [of "the (resolveModelAlias (requested_model req) (modelAliases deps))"]) auto
        next
          case no_alias: False
          note rest = rest [unfolded if_not_P [OF no_alias]]
          show thesis
          proof (cases "isExplicitRequestEligible req opts \<and>
              \<not> resolveModelAlias (requested_model req) (modelAliases deps) = Some ''auto''")
            case True
            note rest = rest [unfolded if_P [OF True]]
            have "\<not> hasLane (lanes deps) (requested_model req)" using True no_lane by blast
            with rest nb True show thesis by (intro explicit_model) (auto split: if_splits)
          next
            case False
            show thesis by (rule classified [OF rest [unfolded if_not_P [OF False]]])
          qed
        qed
      qed
    qed
  qed
qed

text \<open>What each deciding branch yields.\<close>

lemma stateful_Inr:
  assumes "statefulPlan req deps opts a = Inr d"
  shows "candidate_chain (plan_of d) = [a] \<and> explicit_model (plan_of d) = Some a \<and>
    \<not> model_blocked (caps_blocked opts) a \<and> pl_selected_lane (plan_of d) = nullish (stateful_lane req) a \<and>
    (\<not> allowCustomModel opts \<longrightarrow> permitted_by (caps_allowed opts) (pl_selected_lane (plan_of d))) \<and>
    (\<forall>l. caps_degrade opts = Some l \<longrightarrow> pl_selected_lane (plan_of d) = l)"
  using assms by (auto simp: statefulPlan_def Let_def permitted_by_def split: option.splits if_splits)

lemma explicit_lane_Inr:
  assumes "explicitLaneDecision req deps opts = Inr d"
  shows "pl_selected_lane (plan_of d) = requested_model req \<and> explicit_model (plan_of d) = None \<and>
    candidate_chain (plan_of d) =
      filter (\<lambda>a. \<not> model_blocked (caps_blocked opts) a) (expandLaneChain (requested_model req) (lanes deps)) \<and>
    candidate_chain (plan_of d) \<noteq> [] \<and> permitted_by (caps_allowed opts) (requested_model req)"
  using assms by (auto simp: explicitLaneDecision_def Let_def permitted_by_def split: option.splits if_splits)

lemma alias_Inr:
  assumes "aliasLanePlan req deps opts t = Inr d"
  shows "explicit_model (plan_of d) = None \<and>
    candidate_chain (plan_of d) =
      filter (\<lambda>a. \<not> model_blocked (caps_blocked opts) a)
        (promoteRequestedModel (expandLaneChain (pl_selected_lane (plan_of d)) (lanes deps)) (requested_model req)) \<and>
    candidate_chain (plan_of d) \<noteq> [] \<and> permitted_by (caps_allowed opts) (pl_selected_lane (plan_of d))"
  using assms by (auto simp: aliasLanePlan_def Let_def dest!: applyCaps_in split: option.splits if_splits)

lemma RANK_ENTRIES_rank: "(l, r) \<in> set RANK_ENTRIES \<longleftrightarrow> LANE_RANK l = Some r"
  by (auto simp: RANK_ENTRIES_def LANE_RANK_def)

lemma stronger_spec:
  "c \<in> set (strongerRankedLanes sel ls) \<longleftrightarrow>
   (\<exists>r r'. LANE_RANK sel = Some r \<and> LANE_RANK c = Some r' \<and> r < r' \<and> hasLane ls c)"
  by (cases "LANE_RANK sel") (force simp: strongerRankedLanes_def RANK_ENTRIES_rank)+

lemma signal_loop_Some:
  "signal_loop fb t task sel cur cands = Some a \<Longrightarrow>
   sa_lane a \<in> set cands \<and> (\<exists>s. getSignal fb task (sa_lane a) = Some (Some s) \<and> isHealthyPromotion s cur t)"
  by (induction cands) (auto split: option.splits if_splits)

lemma candidate_allowed:
  assumes "candidateAllowedByCaps c ls out opts"
  shows "permitted_by (po_allowed_lanes out) c \<and> permitted_by (caps_allowed opts) c \<and> laneHasPermittedModel c ls opts"
  using assms by (auto simp: candidateAllowedByCaps_def Let_def dest!: applyCaps_in split: if_splits)

lemma feedback_Some:
  assumes "maybeApplySignalFeedback sel cls out ls opts feedback = Some a"
  shows "caps_degrade opts = None \<and> po_use_lane out = None \<and>
    sa_lane a \<in> set (strongerRankedLanes sel ls) \<and> candidateAllowedByCaps (sa_lane a) ls out opts \<and>
    (\<exists>fb cur s. feedback = Some fb \<and> fb_enabled fb \<and> getSignal fb (cl_task_type cls) sel = Some (Some cur) \<and>
       isDegradedSignal cur (signalThresholds fb) \<and>
       getSignal fb (cl_task_type cls) (sa_lane a) = Some (Some s) \<and> isHealthyPromotion s cur (signalThresholds fb)) \<and>
    cl_decided_by cls \<noteq> By_default \<and> cl_decided_by cls \<noteq> By_fallback"
  using assms
  by (auto simp: maybeApplySignalFeedback_def Let_def dest!: signal_loop_Some split: option.splits if_splits)

definition no_stronger :: "lane_name \<Rightarrow> lane_name \<Rightarrow> bool" where
  "no_stronger l d \<longleftrightarrow> l = d \<or> (\<exists>r r'. LANE_RANK l = Some r \<and> LANE_RANK d = Some r' \<and> r \<le> r')"

lemma degrade_caps_Some:
  "applyDegradeCaps l out = Some l' \<Longrightarrow> no_stronger l' l \<and> permitted_by (po_allowed_lanes out) l'"
  by (auto simp: applyDegradeCaps_def no_stronger_def dest!: applyCaps_in split: option.splits if_splits)

lemma classified_Inr:
  assumes "classifiedPlan req deps opts b = Inr d"
  shows "explicit_model (plan_of d) = None \<and>
    (\<exists>m. candidate_chain (plan_of d) =
      filter (\<lambda>a. \<not> model_blocked (caps_blocked opts) a)
        (promoteRequestedModel (expandLaneChain (pl_selected_lane (plan_of d)) (lanes deps)) m)) \<and>
    candidate_chain (plan_of d) \<noteq> [] \<and> permitted_by (caps_allowed opts) (pl_selected_lane (plan_of d)) \<and>
    (\<forall>l. caps_degrade opts = Some l \<longrightarrow> no_stronger (pl_selected_lane (plan_of d)) l)"
proof -
  define cls where "cls = classifySafe req (classify deps)"
  define out where "out = evaluatePolicies (policyContext cls) (policies deps)"
  define eff where "eff = out\<lparr>po_allowed_lanes := intersectAllowedLanes (po_allowed_lanes out) (caps_allowed opts)\<rparr>"
  define base where "base = nullish (caps_degrade opts) (resolvedLane cls out deps)"
  define init where "init = (case caps_degrade opts of None \<Rightarrow> applyCaps base eff | Some _ \<Rightarrow> applyDegradeCaps base eff)"
  note folded = assms [unfolded classifiedPlan_def Let_def, folded cls_def, folded out_def, folded eff_def,
      folded base_def, folded init_def]
  from folded obtain capped where capped: "init = Some capped" by (cases init) simp_all
  define adj where "adj = maybeApplySignalFeedback capped cls out (lanes deps) opts (signalFeedback deps)"
  define l where "l = (case adj of None \<Rightarrow> capped | Some a \<Rightarrow> sa_lane a)"
  define m where "m = (if \<not> b \<and> caps_degrade opts = None then requested_model req else [])"
  note d = folded [unfolded capped option.case, folded adj_def, folded l_def m_def]
  have "permitted_by (po_allowed_lanes eff) capped"
    using capped by (auto simp: init_def dest: applyCaps_in degrade_caps_Some split: option.splits)
  then have perm: "permitted_by (caps_allowed opts) l"
    by (auto simp: l_def eff_def adj_def dest!: feedback_Some candidate_allowed split: option.splits)
  have deg: "no_stronger l x" if "caps_degrade opts = Some x" for x
  proof -
    from that have "adj = None" unfolding adj_def using feedback_Some by (metis not_None_eq)
    moreover from that capped have "no_stronger capped x"
      by (auto simp: init_def base_def dest: degrade_caps_Some)
    ultimately show ?thesis by (simp add: l_def)
  qed
  from d perm deg show ?thesis by (auto split: if_split_asm)
qed

lemma planned_chain:
  assumes "plan req deps opts = Inr d"
    and "imagePinned req deps opts \<Longrightarrow>
      requested_model req \<noteq> [] \<and> requested_model req \<noteq> ''auto'' \<and> \<not> hasLane (lanes deps) (requested_model req)"
  shows "let chain = candidate_chain (plan_of d) in
    list_all (\<lambda>a. \<not> model_blocked (caps_blocked opts) a) chain \<and> chain \<noteq> [] \<and> distinct chain \<and>
    (case explicit_model (plan_of d) of
       Some m \<Rightarrow> chain = [m]
     | None \<Rightarrow> set chain = {a. reaches (lanes deps) (pl_selected_lane (plan_of d)) a \<and> leaf (lanes deps) a \<and>
                            \<not> model_blocked (caps_blocked opts) a})"
  using assms(1)
proof (cases rule: plan_Inr)
  case (stateful a)
  from stateful_Inr [OF this(2)] show ?thesis by simp
next
  case image
  with assms(2) show ?thesis by (simp add: imagePlan_def direct_blocked_iff)
next
  case explicit_lane
  from explicit_lane_Inr [OF this(3)] show ?thesis
    by (auto simp: list_all_iff chain_reachable)
next
  case explicit_model
  then show ?thesis
    by (auto simp: explicitModelDecision_def direct_blocked_iff isExplicitRequestEligible_def)
next
  case (via_alias t)
  from alias_Inr [OF via_alias(5)] show ?thesis
    by (auto simp: list_all_iff chain_reachable)
next
  case (classified b)
  from classified_Inr [OF this] show ?thesis
    by (auto simp: list_all_iff chain_reachable)
qed

subsection \<open>Properties\<close>

text \<open>
  C28. A blocked model is never a candidate: whatever branch decided, every candidate of the plan is
  permitted by the key's block list, there is at least one and none twice; and unless a model was
  pinned, the candidates are exactly the permitted aliases reachable from the selected lane. (An
  image model's name must not be a lane name, \<open>auto\<close> or empty: names those bypass the direct check.)
\<close>
theorem blocked_models_never_planned:
  assumes "plan req deps opts = Inr d"
    and "imagePinned req deps opts \<Longrightarrow>
      requested_model req \<noteq> [] \<and> requested_model req \<noteq> ''auto'' \<and> \<not> hasLane (lanes deps) (requested_model req)"
  shows "let chain = candidate_chain (plan_of d) in
    list_all (\<lambda>a. \<not> model_blocked (caps_blocked opts) a) chain \<and> chain \<noteq> [] \<and> distinct chain \<and>
    (case explicit_model (plan_of d) of
       Some m \<Rightarrow> chain = [m]
     | None \<Rightarrow> set chain = {a. reaches (lanes deps) (pl_selected_lane (plan_of d)) a \<and> leaf (lanes deps) a \<and>
                            \<not> model_blocked (caps_blocked opts) a})"
  by (rule planned_chain [OF assms])

text \<open>A concrete deployment: the three tiers, a key that must not reach one model.\<close>

definition demo_request :: "string \<Rightarrow> internal_request" where
  "demo_request m = \<lparr>ir_request_id = ''r1'', ir_trace_id = None, requested_model = m, ir_protocol = Openai_chat,
     ir_reasoning_effort = None, ir_reasoning_effort_forced = False, previous_response_id = None,
     stateful_provider_alias = None, stateful_lane = None\<rparr>"

definition demo_deps :: plan_deps where
  "demo_deps = \<lparr>classify = (\<lambda>_. None), policies = [], lanes = demo_lanes, defaultLane = None,
     isKnownModel = Some (\<lambda>m. m = ''best''), isImageModel = None, modelAliases = None, signalFeedback = None\<rparr>"

definition demo_key :: "lane_name option \<Rightarrow> lane_name list option \<Rightarrow> string list option \<Rightarrow> route_options" where
  "demo_key degrade allowed blocked = \<lparr>allowCustomModel = False, keyPrefix = None,
     keyCaps = Some \<lparr>kc_allowedLanes = allowed, kc_degradeLane = degrade, kc_blockedModels = blocked\<rparr>\<rparr>"

lemmas demo_route_defs = demo_request_def demo_deps_def demo_key_def demo_lanes_def demo_lane_def

lemma demo_caps [simp]:
  "caps_allowed (demo_key d a b) = a" "caps_degrade (demo_key d a b) = d" "caps_blocked (demo_key d a b) = b"
  "allowCustomModel (demo_key d a b) = False"
  by (simp_all add: demo_key_def caps_allowed_def caps_degrade_def caps_blocked_def)

lemma demo_no_pin [simp]: "imagePinned (demo_request m) demo_deps opts = False"
  "statefulAliasOf (demo_request m) = None"
  by (simp_all add: imagePinned_def demo_deps_def demo_request_def statefulAliasOf_def)

lemma demo_classified:
  "plan (demo_request ''auto'') demo_deps (demo_key d a b) = classifiedPlan (demo_request ''auto'') demo_deps (demo_key d a b) False"
  by (simp add: plan_def isDirectBlockedModel_def demo_request_def imagePinned_def demo_deps_def statefulAliasOf_def
      isExplicitRequestEligible_def resolveModelAlias_def Let_def)

lemma demo_expand: "expandLaneChain ''economy'' demo_lanes = [''cheap'', ''good'', ''best'']"
  "expandLaneChain ''balanced'' demo_lanes = [''good'', ''best'', ''cheap'']"
  by (simp_all add: expandLaneChain_def demo_lanes_def demo_lane_def elements_def push_alias_def)

lemma demo_classified_lane:
  "classifySafe (demo_request ''auto'') (classify demo_deps) = defaultClassification"
  "evaluatePolicies ctx (policies demo_deps) = EMPTY_OUTCOME"
  "maybeApplySignalFeedback l c out ls opts (signalFeedback demo_deps) = None"
  by (simp_all add: classifySafe_def demo_deps_def evaluatePolicies_def maybeApplySignalFeedback_def)

lemma demo_resolved: "resolvedLane defaultClassification out demo_deps = ''balanced''"
  by (simp add: resolvedLane_def resolveLane_def forResolver_def defaultClassification_def Let_def
      terminal_lane_def hasLane_def BALANCED_def demo_lanes_def demo_deps_def)

definition demo_planned :: "lane_name \<Rightarrow> string list \<Rightarrow> plan_decision" where
  "demo_planned l chain =
     \<lparr>plan_of = \<lparr>pl_selected_lane = l, candidate_chain = chain, explicit_model = None\<rparr>,
      pn_classifier = baseClassifier defaultClassification,
      pn_policy = \<lparr>pd_matched_policy_id = None, pd_reason = ''no policy matched''\<rparr>,
      pn_forcedReasoningEffort = None, pn_evalUsd = None\<rparr>"

lemma demo_promote [simp]: "promoteRequestedModel chain ''auto'' = chain"
proof -
  have "normalizeModelId ''auto'' = ''auto''" by code_simp
  then show ?thesis by (simp add: promoteRequestedModel_def)
qed

lemma demo_plan_blocked:
  "plan (demo_request ''auto'') demo_deps (demo_key None None (Some [''GOOD''])) = Inr (demo_planned ''balanced'' [''best'', ''cheap''])"
proof -
  have "model_blocked (Some [''GOOD'']) ''good''" "\<not> model_blocked (Some [''GOOD'']) ''best''" "\<not> model_blocked (Some [''GOOD'']) ''cheap''"
    unfolding block_list_meaning by code_simp+
  moreover have "lanes demo_deps = demo_lanes" "requested_model (demo_request ''auto'') = ''auto''"
    by (simp_all add: demo_deps_def demo_request_def)
  moreover have "cl_eval_usd defaultClassification = None" "cl_explanation defaultClassification = []"
    "baseClassifier defaultClassification\<lparr>cd_explanation := []\<rparr> = baseClassifier defaultClassification"
    by (simp_all add: defaultClassification_def baseClassifier_def)
  ultimately show ?thesis
    unfolding demo_classified
    by (simp add: classifiedPlan_def demo_classified_lane demo_resolved Let_def applyCaps_def EMPTY_OUTCOME_def
        intersectAllowedLanes_def demo_expand demo_planned_def)
qed

theorem blocked_models_never_planned_witness:
  "list_all (\<lambda>a. \<not> model_blocked (Some [''GOOD'']) a) (candidate_chain (plan_of (demo_planned ''balanced'' [''best'', ''cheap''])))"
  using blocked_models_never_planned [OF demo_plan_blocked] by (simp add: Let_def)

text \<open>
  C29. An over-budget downgrade cannot be escaped: while a key carries a degrade lane, every plan,
  whatever the client names (an explicit lane or model, an alias, an image model, a continuation) and
  whatever the policies, the whitelists and the production signals say, selects that lane or a ranked
  lane no stronger than it, and pins a model only on a continuation already in that lane.
\<close>
theorem degrade_never_escaped:
  assumes "plan req deps opts = Inr d" and "caps_degrade opts = Some l"
  shows "no_stronger (pl_selected_lane (plan_of d)) l \<and>
    (explicit_model (plan_of d) = None \<or> statefulAliasOf req = explicit_model (plan_of d) \<and> stateful_lane req = Some l)"
  using assms(1)
proof (cases rule: plan_Inr)
  case (stateful a)
  have "stateful_lane req = Some l"
    using stateful(2) assms(2) by (auto simp: statefulPlan_def Let_def split: if_splits)
  with stateful_Inr [OF stateful(2)] assms(2) stateful(1) show ?thesis by (simp add: no_stronger_def)
next
  case (classified b)
  from classified_Inr [OF this] assms(2) show ?thesis by simp
qed (use assms(2) in \<open>auto simp: imagePinned_def isExplicitRequestEligible_def\<close>)

lemma demo_plan_degraded:
  "plan (demo_request ''auto'') demo_deps (demo_key (Some ''economy'') None None) = Inr (demo_planned ''economy'' [''cheap'', ''good'', ''best''])"
proof -
  have "\<not> model_blocked None a" for a by (simp add: block_list_meaning)
  moreover have "lanes demo_deps = demo_lanes" by (simp add: demo_deps_def)
  moreover have "cl_eval_usd defaultClassification = None" "cl_explanation defaultClassification = []"
    "baseClassifier defaultClassification\<lparr>cd_explanation := []\<rparr> = baseClassifier defaultClassification"
    by (simp_all add: defaultClassification_def baseClassifier_def)
  ultimately show ?thesis
    unfolding demo_classified
    by (simp add: classifiedPlan_def demo_classified_lane Let_def applyDegradeCaps_def applyCaps_def EMPTY_OUTCOME_def
        intersectAllowedLanes_def demo_expand demo_planned_def)
qed

theorem degrade_never_escaped_witness:
  "no_stronger (pl_selected_lane (plan_of (demo_planned ''economy'' [''cheap'', ''good'', ''best'']))) ''economy''"
  using degrade_never_escaped [OF demo_plan_degraded] by simp

text \<open>
  Lane whitelists bind: whenever no model is pinned, and always for a key that may not name
  models (image pins apart), the selected lane is on the key's whitelist; clamping, aliases, policy
  pins and signal promotions included.
\<close>
theorem allowed_lanes_bind:
  assumes "plan req deps opts = Inr d"
    and "explicit_model (plan_of d) = None \<or> (\<not> allowCustomModel opts \<and> \<not> imagePinned req deps opts)"
  shows "permitted_by (caps_allowed opts) (pl_selected_lane (plan_of d))"
  using assms(1)
proof (cases rule: plan_Inr)
  case (stateful a)
  from stateful_Inr [OF this(2)] assms(2) show ?thesis by auto
next
  case image
  with assms(2) show ?thesis by (simp add: imagePlan_def)
next
  case explicit_lane
  from explicit_lane_Inr [OF this(3)] show ?thesis by simp
next
  case explicit_model
  with assms(2) show ?thesis by (simp add: explicitModelDecision_def isExplicitRequestEligible_def)
next
  case (via_alias t)
  from alias_Inr [OF via_alias(5)] show ?thesis by simp
next
  case (classified b)
  from classified_Inr [OF this] show ?thesis by simp
qed

lemma demo_plan_clamped:
  "plan (demo_request ''auto'') demo_deps (demo_key None (Some [''economy'']) None) = Inr (demo_planned ''economy'' [''cheap'', ''good'', ''best''])"
proof -
  have "\<not> model_blocked None a" for a by (simp add: block_list_meaning)
  moreover have "lanes demo_deps = demo_lanes" "requested_model (demo_request ''auto'') = ''auto''"
    by (simp_all add: demo_deps_def demo_request_def)
  moreover have "cl_eval_usd defaultClassification = None" "cl_explanation defaultClassification = []"
    "baseClassifier defaultClassification\<lparr>cd_explanation := []\<rparr> = baseClassifier defaultClassification"
    by (simp_all add: defaultClassification_def baseClassifier_def)
  moreover have "LANE_RANK ''balanced'' = Some 1" "LANE_RANK ''economy'' = Some 0" by (simp_all add: LANE_RANK_def)
  ultimately show ?thesis
    unfolding demo_classified
    by (simp add: classifiedPlan_def demo_classified_lane demo_resolved Let_def applyCaps_def EMPTY_OUTCOME_def
        intersectAllowedLanes_def demo_expand demo_planned_def)
qed

theorem allowed_lanes_bind_witness:
  "permitted_by (Some [''economy'']) (pl_selected_lane (plan_of (demo_planned ''economy'' [''cheap'', ''good'', ''best''])))"
  using allowed_lanes_bind [OF demo_plan_clamped] by simp

text \<open>
  Who may pin a model: a plan that bypasses the lanes serves exactly one model, and only because
  the key may name models, is not over budget and named that model; or because the model generates
  images and the key is not over budget; or because the request continues a stored response on the
  model that holds it.
\<close>
theorem model_pin_gated:
  assumes "plan req deps opts = Inr d" and "explicit_model (plan_of d) = Some m"
  shows "candidate_chain (plan_of d) = [m] \<and>
    (statefulAliasOf req = Some m \<or>
     m = requested_model req \<and> caps_degrade opts = None \<and>
       (imagePinned req deps opts \<or>
        allowCustomModel opts \<and> m \<noteq> [] \<and> m \<noteq> ''auto'' \<and> \<not> hasLane (lanes deps) m))"
  using assms(1)
proof (cases rule: plan_Inr)
  case (stateful a)
  from stateful_Inr [OF stateful(2)] stateful(1) assms(2) show ?thesis by simp
next
  case image
  with assms(2) show ?thesis by (simp add: imagePlan_def imagePinned_def)
next
  case explicit_lane
  from explicit_lane_Inr [OF this(3)] assms(2) show ?thesis by simp
next
  case explicit_model
  with assms(2) show ?thesis by (simp add: explicitModelDecision_def isExplicitRequestEligible_def)
next
  case (via_alias t)
  from alias_Inr [OF via_alias(5)] assms(2) show ?thesis by simp
next
  case (classified b)
  from classified_Inr [OF this] assms(2) show ?thesis by simp
qed

lemma demo_plan_pinned:
  "plan (demo_request ''best'') demo_deps \<lparr>allowCustomModel = True, keyPrefix = None, keyCaps = None\<rparr> =
   Inr (explicitModelDecision ''best'')"
  by (simp add: plan_def isDirectBlockedModel_def blockedModelMatcher_def caps_blocked_def createBlockedModelMatcher_def
      isExplicitRequestEligible_def caps_degrade_def demo_request_def demo_deps_def demo_lanes_def hasLane_def
      statefulAliasOf_def imagePinned_def Let_def)

theorem model_pin_gated_witness:
  "candidate_chain (plan_of (explicitModelDecision ''best'')) = [''best'']"
  using model_pin_gated [OF demo_plan_pinned, of "''best''"] by (simp add: explicitModelDecision_def)

text \<open>
  Classification fails open: when the classifier throws, an unconstrained \<open>auto\<close> request is
  planned on the terminal lane (the operator's default, \<open>balanced\<close> or the first lane) with that
  lane's whole chain and \<open>decided_by: default\<close>, and no error is raised.
\<close>
theorem classifier_fails_open:
  assumes "classify deps req = None" and "requested_model req = ''auto''" and "keyCaps opts = None"
    and "statefulAliasOf req = None" and "\<not> imagePinned req deps opts" and "modelAliases deps = None"
    and "policies deps = []" and "lanes deps \<noteq> []"
    and "expandLaneChain (terminal_lane (lanes deps) (defaultLane deps)) (lanes deps) \<noteq> []"
  shows "let t = terminal_lane (lanes deps) (defaultLane deps) in
    hasLane (lanes deps) t \<and>
    (case plan req deps opts of
       Inl _ \<Rightarrow> False
     | Inr d \<Rightarrow> pl_selected_lane (plan_of d) = t \<and> candidate_chain (plan_of d) = expandLaneChain t (lanes deps) \<and>
         explicit_model (plan_of d) = None \<and> cd_decided_by (pn_classifier d) = By_default)"
proof -
  have caps: "caps_allowed opts = None" "caps_degrade opts = None" "caps_blocked opts = None"
    using assms(3) by (simp_all add: caps_allowed_def caps_degrade_def caps_blocked_def)
  have nb: "\<not> model_blocked None a" for a by (simp add: block_list_meaning)
  have cls: "classifySafe req (classify deps) = defaultClassification"
    using assms(1) by (simp add: classifySafe_def)
  have out: "evaluatePolicies ctx (policies deps) = EMPTY_OUTCOME" for ctx
    using assms(7) by (simp add: evaluatePolicies_def)
  have lane: "resolvedLane defaultClassification EMPTY_OUTCOME deps = terminal_lane (lanes deps) (defaultLane deps)"
    by (simp add: resolvedLane_def resolveLane_def forResolver_def defaultClassification_def Let_def)
  have fb: "maybeApplySignalFeedback l defaultClassification o' ls opts f = None" for l o' ls f
    by (simp add: maybeApplySignalFeedback_def defaultClassification_def split: option.split)
  have "plan req deps opts = classifiedPlan req deps opts False"
    using assms(2-6) caps
    by (simp add: plan_def isDirectBlockedModel_def isExplicitRequestEligible_def resolveModelAlias_def Let_def)
  moreover have "cd_decided_by (baseClassifier defaultClassification) = By_default"
    by (simp add: baseClassifier_def defaultClassification_def)
  ultimately show ?thesis
    using assms(2,8,9) terminal_exists [OF assms(8), of "defaultLane deps"] nb caps lane
    by (simp add: classifiedPlan_def cls out fb Let_def applyCaps_def EMPTY_OUTCOME_def intersectAllowedLanes_def)
qed

theorem classifier_fails_open_witness:
  "case plan (demo_request ''auto'') demo_deps \<lparr>allowCustomModel = True, keyPrefix = None, keyCaps = None\<rparr> of
     Inl _ \<Rightarrow> False | Inr d \<Rightarrow> pl_selected_lane (plan_of d) = ''balanced''"
proof -
  have t: "terminal_lane (lanes demo_deps) (defaultLane demo_deps) = ''balanced''"
    by (simp add: terminal_lane_def hasLane_def BALANCED_def demo_lanes_def demo_deps_def)
  have f: "classify demo_deps (demo_request ''auto'') = None" "requested_model (demo_request ''auto'') = ''auto''"
    "modelAliases demo_deps = None" "policies demo_deps = []" "lanes demo_deps = demo_lanes" "demo_lanes \<noteq> []"
    by (simp_all add: demo_deps_def demo_request_def demo_lanes_def)
  show ?thesis
    using classifier_fails_open [of demo_deps "demo_request ''auto''" "\<lparr>allowCustomModel = True, keyPrefix = None, keyCaps = None\<rparr>"]
    unfolding t Let_def by (simp add: f demo_expand split: sum.split_asm sum.split)
qed

text \<open>
  Signals only promote, and only with cause: an adjustment moves a request to a strictly stronger
  ranked, configured lane that the policies and the key both permit and that still has a permitted
  model; it needs feedback enabled, no policy pin, no degrade, a classifier that did not fall back, a
  current lane measured as degraded, and a candidate measured healthier by the configured margin.
\<close>
theorem signal_promotion_bounded:
  assumes "maybeApplySignalFeedback sel cls out ls opts feedback = Some a"
  shows "hasLane ls (sa_lane a) \<and> the (LANE_RANK sel) < the (LANE_RANK (sa_lane a)) \<and>
    permitted_by (po_allowed_lanes out) (sa_lane a) \<and> permitted_by (caps_allowed opts) (sa_lane a) \<and>
    laneHasPermittedModel (sa_lane a) ls opts \<and> po_use_lane out = None \<and> caps_degrade opts = None \<and>
    (\<exists>fb cur s. feedback = Some fb \<and> fb_enabled fb \<and>
       getSignal fb (cl_task_type cls) sel = Some (Some cur) \<and> isDegradedSignal cur (signalThresholds fb) \<and>
       getSignal fb (cl_task_type cls) (sa_lane a) = Some (Some s) \<and>
       sg_samples s \<ge> minSamples (signalThresholds fb) \<and>
       sg_successRate s \<ge> sg_successRate cur + minSuccessRateDelta (signalThresholds fb))"
proof -
  note f = feedback_Some [OF assms]
  have "hasLane ls (sa_lane a) \<and> the (LANE_RANK sel) < the (LANE_RANK (sa_lane a))"
    using f by (auto simp: stronger_spec)
  moreover have "permitted_by (po_allowed_lanes out) (sa_lane a) \<and> permitted_by (caps_allowed opts) (sa_lane a) \<and>
      laneHasPermittedModel (sa_lane a) ls opts"
    using f candidate_allowed [of "sa_lane a" ls out opts] by blast
  moreover obtain fb cur s where "feedback = Some fb" "fb_enabled fb"
      "getSignal fb (cl_task_type cls) sel = Some (Some cur)" "isDegradedSignal cur (signalThresholds fb)"
      "getSignal fb (cl_task_type cls) (sa_lane a) = Some (Some s)" "isHealthyPromotion s cur (signalThresholds fb)"
    using f by blast
  moreover from this(6) have "sg_samples s \<ge> minSamples (signalThresholds fb)"
    "sg_successRate s \<ge> sg_successRate cur + minSuccessRateDelta (signalThresholds fb)"
    by (auto simp: isHealthyPromotion_def split: if_splits)
  ultimately show ?thesis using f by blast
qed

definition demo_signal :: "rat \<Rightarrow> rat \<Rightarrow> routing_signal" where
  "demo_signal ok err = \<lparr>sg_samples = 50, sg_successRate = ok, sg_fallbackRate = 0, sg_errorRate = err,
     sg_p95LatencyMs = 10, sg_avgCostUsd = None, sg_updatedAt = 0\<rparr>"

definition demo_feedback :: feedback_deps where
  "demo_feedback = \<lparr>fb_enabled = True,
     getSignal = (\<lambda>_ l. Some (Some (if l = ''premium'' then demo_signal 1 0 else demo_signal (1 / 2) (1 / 2)))),
     fb_minSamples = None, fb_maxErrorRate = None, fb_maxFallbackRate = None, fb_minSuccessRateDelta = None\<rparr>"

theorem signal_promotion_bounded_witness:
  "let a = maybeApplySignalFeedback ''balanced'' (defaultClassification\<lparr>cl_decided_by := By_rules\<rparr>) EMPTY_OUTCOME
       demo_lanes (demo_key None None None) (Some demo_feedback)
   in a \<noteq> None \<and> hasLane demo_lanes (sa_lane (the a)) \<and> sa_lane (the a) = ''premium''"
proof -
  have st: "strongerRankedLanes ''balanced'' demo_lanes = [''premium'']"
    by (simp add: strongerRankedLanes_def LANE_RANK_def RANK_ENTRIES_def hasLane_def demo_lanes_def)
  have "candidateAllowedByCaps ''premium'' demo_lanes EMPTY_OUTCOME (demo_key None None None)"
    by (simp add: candidateAllowedByCaps_def applyCaps_def EMPTY_OUTCOME_def intersectAllowedLanes_def
        laneHasPermittedModel_def blockedModelMatcher_def createBlockedModelMatcher_def)
  with st obtain a where a: "maybeApplySignalFeedback ''balanced'' (defaultClassification\<lparr>cl_decided_by := By_rules\<rparr>)
      EMPTY_OUTCOME demo_lanes (demo_key None None None) (Some demo_feedback) = Some a" "sa_lane a = ''premium''"
    by (simp add: maybeApplySignalFeedback_def demo_feedback_def EMPTY_OUTCOME_def signalThresholds_def
        DEFAULT_SIGNAL_FEEDBACK_def isDegradedSignal_def isHealthyPromotion_def demo_signal_def Let_def)
  from signal_promotion_bounded [OF a(1)] a show ?thesis by simp
qed

end
