(* ===== verification/Upstream_Error.thy ===== *)
theory Upstream_Error
  imports Helm_Error
begin

text \<open>
  Thrown values as the code inspects them (\<open>provider/openai.ts\<close> \<open>UpstreamError\<close> and its subclasses, the token,
  identity and queue errors), the predicates of \<open>apps/gateway/src/routes/execute.ts\<close> that classify a failed
  attempt, and the cancellation reasons of \<open>request-cancellation.ts\<close>.
\<close>

subsection \<open>Thrown values\<close>

record upstream_fields =
  uf_errorClass :: error_class
  uf_providerRaw :: "json option"
  uf_upstreamStatus :: "int option"
  uf_upstreamHeaders :: "(string \<times> string) list option"

datatype err_instance =
    Not_an_error
  | Plain_error
  | Queue_timeout_error
  | Upstream upstream_fields
  | Codex_before_send upstream_fields
  | Codex_capacity_exhausted upstream_fields
  | Token_refresh "int option" bool bool
  | Credential_disconnected
  | Anthropic_identity

text \<open>
  A token refresh failure carries its HTTP status, whether the credential is permanently rejected and whether the
  account may be retried; \<open>OAuthCredentialDisconnectedError\<close> extends it with no status and neither flag.
  A value that is no object (\<open>null\<close>, \<open>undefined\<close>, a primitive) has no properties; a property that is not a string is \<open>None\<close>.
\<close>

datatype thrown =
    No_object
  | Thrown (th_instance: err_instance) (th_name: "string option") (th_code: "string option")
      (th_message: "string option") (th_cause: thrown)
where
    "th_instance No_object = Not_an_error"
  | "th_name No_object = None"
  | "th_code No_object = None"
  | "th_message No_object = None"
  | "th_cause No_object = No_object"

definition instanceof_Error :: "thrown \<Rightarrow> bool" where
  "instanceof_Error err = (th_instance err \<noteq> Not_an_error)"

fun upstream_of :: "thrown \<Rightarrow> upstream_fields option" where
  "upstream_of (Thrown (Upstream u) n c m x) = Some u"
| "upstream_of (Thrown (Codex_before_send u) n c m x) = Some u"
| "upstream_of (Thrown (Codex_capacity_exhausted u) n c m x) = Some u"
| "upstream_of e = None"

definition error_message :: "thrown \<Rightarrow> string" where
  "error_message err = nullish (th_message err) []"

definition UpstreamError :: "error_class \<Rightarrow> string \<Rightarrow> json option \<Rightarrow> int option \<Rightarrow> thrown \<Rightarrow> thrown" where
  "UpstreamError cls msg raw status cause =
     Thrown (Upstream \<lparr>uf_errorClass = cls, uf_providerRaw = raw, uf_upstreamStatus = status, uf_upstreamHeaders = None\<rparr>)
       (Some ''UpstreamError'') None (Some msg) cause"

lemma upstream_of_UpstreamError [simp]:
  "upstream_of (UpstreamError cls msg raw status cause) =
     Some \<lparr>uf_errorClass = cls, uf_providerRaw = raw, uf_upstreamStatus = status, uf_upstreamHeaders = None\<rparr>"
  "th_name (UpstreamError cls msg raw status cause) = Some ''UpstreamError''"
  "instanceof_Error (UpstreamError cls msg raw status cause)"
  by (simp_all add: UpstreamError_def instanceof_Error_def)

definition CODEX_RESPONSES_SESSION_UNAVAILABLE_CODE :: string where
  "CODEX_RESPONSES_SESSION_UNAVAILABLE_CODE = ''previous_response_id_session_unavailable''"

definition CODEX_RESPONSES_NOT_SENT_CODE :: string where
  "CODEX_RESPONSES_NOT_SENT_CODE = ''response_create_not_sent''"

definition CODEX_RESPONSES_OUTCOME_UNKNOWN_CODE :: string where
  "CODEX_RESPONSES_OUTCOME_UNKNOWN_CODE = ''response_create_outcome_unknown''"

definition isCodexResponsesPostSendFailureCode :: "string option \<Rightarrow> bool" where
  "isCodexResponsesPostSendFailureCode code =
     (code = Some CODEX_RESPONSES_OUTCOME_UNKNOWN_CODE \<or> code = Some CODEX_RESPONSES_SESSION_UNAVAILABLE_CODE)"

definition CodexResponsesBeforeSendError :: "string \<Rightarrow> json_object \<Rightarrow> thrown" where
  "CodexResponsesBeforeSendError msg recovery =
     Thrown (Codex_before_send
         \<lparr>uf_errorClass = Upstream_error,
          uf_providerRaw = Some (JObj
            [(''error'', JObj [(''type'', JStr ''server_error''), (''code'', JStr CODEX_RESPONSES_NOT_SENT_CODE), (''message'', JStr msg)]),
             (''recovery'', JObj (foldl (\<lambda>kvs (k, v). set_prop k v kvs)
               [(''safe_to_replay'', JBool True), (''lifecycle_phase'', JStr ''before_send'')] recovery))]),
          uf_upstreamStatus = None, uf_upstreamHeaders = None\<rparr>)
       (Some ''CodexResponsesBeforeSendError'') None (Some msg) No_object"

definition isCodexResponsesBeforeSendError :: "thrown \<Rightarrow> bool" where
  "isCodexResponsesBeforeSendError err = (case th_instance err of Codex_before_send u \<Rightarrow> True | _ \<Rightarrow> False)"

definition isCodexCapacityExhausted :: "thrown \<Rightarrow> bool" where
  "isCodexCapacityExhausted err = (case th_instance err of Codex_capacity_exhausted u \<Rightarrow> True | _ \<Rightarrow> False)"

definition isAnthropicIdentity :: "thrown \<Rightarrow> bool" where
  "isAnthropicIdentity err = (th_instance err = Anthropic_identity)"

subsection \<open>Cancellation\<close>

datatype cancellation = Client_abort_reason | Request_timeout | Concurrency_lease_lost

text \<open>The request's abort signal: aborted, and then with one of the two named reasons or any other.\<close>

datatype abort_signal = Not_aborted | Aborted_lease_lost | Aborted_timeout | Aborted_other

definition signal_aborted :: "abort_signal \<Rightarrow> bool" where
  "signal_aborted sig = (sig \<noteq> Not_aborted)"

definition requestCancellationReason :: "abort_signal \<Rightarrow> thrown \<Rightarrow> cancellation option" where
  "requestCancellationReason sig caught =
     (case sig of
        Aborted_lease_lost \<Rightarrow> Some Concurrency_lease_lost
      | Aborted_timeout \<Rightarrow> Some Request_timeout
      | Aborted_other \<Rightarrow> Some Client_abort_reason
      | Not_aborted \<Rightarrow>
          if instanceof_Error caught \<and> (th_name caught = Some ''AbortError'' \<or> has_text ''aborted'' (error_message caught))
          then Some Client_abort_reason else None)"

definition isAbort :: "thrown \<Rightarrow> abort_signal \<Rightarrow> bool" where
  "isAbort err sig = (signal_aborted sig \<or> instanceof_Error err \<and> th_name err = Some ''AbortError'')"

text \<open>The per-attempt deadline: the call's answer, and whether the deadline had fired when it failed.\<close>

definition withAttemptDeadline :: "int option \<Rightarrow> bool \<Rightarrow> abort_signal \<Rightarrow> (int \<Rightarrow> string) \<Rightarrow> thrown + 'a \<Rightarrow> thrown + 'a" where
  "withAttemptDeadline attemptMs fired clientSignal showMs answer =
     (case attemptMs of
        None \<Rightarrow> answer
      | Some ms \<Rightarrow>
          if ms = 0 then answer
          else
            (case answer of
               Inr v \<Rightarrow> Inr v
             | Inl err \<Rightarrow>
                 if fired \<and> \<not> signal_aborted clientSignal
                 then Inl (UpstreamError Timeout_error
                   (''attempt exceeded per-attempt timeout ('' @ showMs ms @ ''ms)'') None None No_object)
                 else Inl err))"

subsection \<open>Predicates on a failed attempt\<close>

definition isQueueTimeout :: "thrown \<Rightarrow> bool" where
  "isQueueTimeout err = (th_instance err = Queue_timeout_error)"

definition isFreeAlias :: "string \<Rightarrow> bool" where
  "isFreeAlias alias_id = endsWith '':free'' alias_id"

definition upstreamStatusOf :: "thrown \<Rightarrow> int option" where
  "upstreamStatusOf err = Option.bind (upstream_of err) uf_upstreamStatus"

definition pool_affinity_messages :: "string list" where
  "pool_affinity_messages =
     map (\<lambda>k. ''oauth pool: '' @ k @ '' original account is unavailable'')
       [''previous_response_id'', ''x-codex-turn-state'', ''responses_websocket_session'']"

definition isAccountScopedFault :: "thrown \<Rightarrow> bool" where
  "isAccountScopedFault err =
     (if instanceof_Error err \<and> toLowerCase (error_message err) \<in> set pool_affinity_messages then True
      else
        (case th_instance err of
           Token_refresh s permanent retryable \<Rightarrow> s \<in> {Some 400, Some 401, Some 403, Some 429}
         | _ \<Rightarrow> upstreamStatusOf err \<in> {Some 401, Some 403, Some 429}))"

definition class_name :: "error_class \<Rightarrow> string" where
  "class_name c = (if c = Timeout_error then ''timeout'' else ''upstream_error'')"

definition errorClassOf :: "thrown \<Rightarrow> string" where
  "errorClassOf err =
     (case upstream_of err of
        Some u \<Rightarrow> if uf_upstreamStatus u = Some 401 then ''auth_error'' else class_name (uf_errorClass u)
      | None \<Rightarrow> ''upstream_error'')"

definition rawErrorText :: "(rat \<Rightarrow> string) \<Rightarrow> json option \<Rightarrow> string" where
  "rawErrorText num raw =
     (case raw of None \<Rightarrow> [] | Some JNull \<Rightarrow> [] | Some (JStr s) \<Rightarrow> s | Some v \<Rightarrow> JSON_stringify num v)"

definition upstreamErrorType :: "json option \<Rightarrow> string option" where
  "upstreamErrorType raw =
     (if \<not> is_object raw then None
      else
        (case as_string (opt_prop ''type'' (opt_prop ''error'' raw)) of
           Some t \<Rightarrow> Some t
         | None \<Rightarrow>
             (case as_string (opt_prop ''type'' raw) of
                Some outer \<Rightarrow> if outer \<noteq> ''error'' then Some outer else None
              | None \<Rightarrow> None)))"

definition upstreamErrorCode :: "json option \<Rightarrow> string option" where
  "upstreamErrorCode raw =
     (if \<not> is_object raw then None
      else
        or_else (as_string (opt_prop ''code'' (opt_prop ''error'' raw)))
          (or_else (as_string (opt_prop ''code'' (opt_prop ''error'' (opt_prop ''response'' raw))))
            (as_string (opt_prop ''code'' raw))))"

definition upstreamErrorMessage :: "json option \<Rightarrow> string option" where
  "upstreamErrorMessage raw =
     (if \<not> is_object raw then None
      else
        (case as_string (opt_prop ''message'' (opt_prop ''error'' raw)) of
           Some m \<Rightarrow> if m \<noteq> [] then Some m else None
         | None \<Rightarrow> None))"

definition isContextWindowRejection :: "(rat \<Rightarrow> string) \<Rightarrow> thrown \<Rightarrow> bool" where
  "isContextWindowRejection num err =
     (case upstream_of err of
        None \<Rightarrow> False
      | Some u \<Rightarrow>
          if uf_upstreamStatus u \<notin> {None, Some 400, Some 413, Some 422} then False
          else if upstreamErrorCode (uf_providerRaw u) = Some ''context_length_exceeded'' then True
          else
            let rawText = toLowerCase (rawErrorText num (uf_providerRaw u)) in
            if has_text ''context_length_exceeded'' rawText \<or> has_text ''maximum context'' rawText then True
            else
              let structured = toLowerCase (error_message err @ '' '' @ nullish (upstreamErrorMessage (uf_providerRaw u)) []) in
              has_text ''context window'' structured \<or> has_text ''context length'' structured
                \<or> has_text ''prompt is too long'' structured)"

definition isReasoningHistoryRejection :: "(rat \<Rightarrow> string) \<Rightarrow> thrown \<Rightarrow> bool" where
  "isReasoningHistoryRejection num err =
     (case upstream_of err of
        None \<Rightarrow> False
      | Some u \<Rightarrow>
          if uf_upstreamStatus u \<noteq> Some 400 then False
          else
            let text = toLowerCase (error_message err @ '' '' @ nullish (upstreamErrorMessage (uf_providerRaw u)) []
                         @ '' '' @ rawErrorText num (uf_providerRaw u)) in
            (has_text ''reasoning_content'' text \<or> has_text ''reasoning_text'' text) \<and> has_text ''thinking mode'' text)"

definition isUpstreamRequestRejection :: "(rat \<Rightarrow> string) \<Rightarrow> thrown \<Rightarrow> bool" where
  "isUpstreamRequestRejection num err =
     (case upstream_of err of
        None \<Rightarrow> False
      | Some u \<Rightarrow>
          if uf_upstreamStatus u \<notin> {Some 400, Some 413, Some 422} then False
          else if isReasoningHistoryRejection num err then False
          else
            let type = upstreamErrorType (uf_providerRaw u) in
            if type = Some ''invalid_request_error'' \<or> type = Some ''invalid_params'' then True
            else if uf_upstreamStatus u = Some 413 then True
            else has_text ''max allowed size''
              (toLowerCase (error_message err @ '' '' @ rawErrorText num (uf_providerRaw u))))"

definition isCandidateSpecificProtocolRejection :: "thrown \<Rightarrow> bool" where
  "isCandidateSpecificProtocolRejection err =
     (case upstream_of err of
        None \<Rightarrow> False
      | Some u \<Rightarrow>
          if uf_upstreamStatus u \<notin> {Some 400, Some 422} then False
          else has_text ''tool result content could not be processed''
            (toLowerCase (error_message err @ '' '' @ nullish (upstreamErrorMessage (uf_providerRaw u)) [])))"

text \<open>What an attempt row keeps of an error (its cause and stack are not represented).\<close>

record error_detail =
  ed_upstream_status :: "int option"
  ed_message :: string
  ed_provider_raw :: "json_object option"
  ed_provider_headers :: "json_object option"

subsection \<open>Facts the executor's proofs share\<close>

lemma request_rejection_status:
  "isUpstreamRequestRejection num err \<Longrightarrow> upstreamStatusOf err \<in> {Some 400, Some 413, Some 422}"
  by (auto simp: isUpstreamRequestRejection_def upstreamStatusOf_def split: option.splits if_splits)

lemma context_rejection_status:
  "isContextWindowRejection num err \<Longrightarrow> upstreamStatusOf err \<in> {None, Some 400, Some 413, Some 422}"
  by (auto simp: isContextWindowRejection_def upstreamStatusOf_def split: option.splits if_splits)

lemma abort_of_signal [simp]: "signal_aborted sig \<Longrightarrow> isAbort err sig"
  by (simp add: isAbort_def)

end
