(* ===== verification/Route_Request.thy ===== *)
theory Route_Request
  imports Route_Plan_Facts Upstream_Error
begin

text \<open>
  The orchestrator \<open>routeRequest\<close> of \<open>packages/core/src/routing/route-request.ts\<close>: plan, forced
  reasoning effort, one execution, the assembled decision record and the single log call. The executor
  is an argument that returns \<open>None\<close> when it throws (\<open>routeRequest\<close> then rejects, with nothing
  logged); response bodies and stream handles are opaque values of the types \<open>'b\<close> and \<open>'s\<close>. Of an
  attempt's passthrough telemetry the installation ids are read and the used flag is carried along; its
  other fields are not represented.
\<close>

subsection \<open>Outcomes and records\<close>

datatype attempt_status = Attempt_ok | Attempt_error

record provider_attempt =
  at_alias :: string
  at_skipped :: bool
  at_skip_reason :: "string option"
  at_status :: attempt_status
  at_error_class :: "string option"
  at_latency_ms :: rat
  at_cost_usd :: "rat option"
  at_error_detail :: "error_detail option"
  at_passthrough_used :: bool
  at_request_installation_id :: "string option"
  at_passthrough_installation_id :: "string option"

datatype exec_final = Exec_ok string string | Exec_error helm_error

record ('b, 's) execute_outcome =
  eo_attempts :: "provider_attempt list"
  eo_final :: exec_final
  eo_body :: "'b option"
  eo_stream :: "'s option"
  eo_nativePassthrough :: "bool option"
  eo_upstreamRequest :: "string option"
  eo_responseMetadata :: "(string \<times> string) list option"

record final_decision =
  fd_model_alias :: "string option"
  fd_provider_model :: "string option"
  fd_status :: attempt_status
  fd_error_reason :: "error_class option"

record cost_breakdown =
  cb_eval_usd :: "rat option"
  cb_completion_usd :: "rat option"
  cb_total_usd :: "rat option"

record decision_record =
  dr_request_id :: string
  dr_trace_id :: trace_id
  dr_requested_model :: string
  dr_requested_reasoning_effort :: "reasoning_effort option"
  dr_reasoning_effort :: "reasoning_effort option"
  dr_protocol :: protocol
  dr_key_prefix :: "string option"
  dr_classifier :: classifier_decision
  dr_policy :: policy_decision
  dr_selected_lane :: lane_name
  dr_candidate_chain :: "string list"
  dr_provider_attempts :: "provider_attempt list"
  dr_codex_installation_id :: "string option"
  dr_final :: final_decision
  dr_latency_total_ms :: rat
  dr_fallback_count :: int
  dr_cost_breakdown :: cost_breakdown

datatype result_final = Final_ok string | Final_error

record ('b, 's) execution_result =
  er_decision :: decision_record
  er_final :: result_final
  er_body :: "'b option"
  er_stream :: "'s option"
  er_error :: "helm_error option"
  er_nativePassthrough :: "bool option"
  er_upstreamRequest :: "string option"
  er_responseMetadata :: "(string \<times> string) list option"

type_synonym ('b, 's) executor = "execution_plan \<Rightarrow> internal_request \<Rightarrow> ('b, 's) execute_outcome option"

subsection \<open>Telemetry sums\<close>

definition completion_usd :: "provider_attempt list \<Rightarrow> rat option" where
  "completion_usd attempts =
     foldl (\<lambda>acc a. case at_cost_usd a of None \<Rightarrow> acc | Some c \<Rightarrow> Some (nullish acc 0 + c)) None attempts"

definition total_usd :: "rat option \<Rightarrow> rat option \<Rightarrow> rat option" where
  "total_usd evalUsd completion =
     (if evalUsd = None \<and> completion = None then None else Some (nullish evalUsd 0 + nullish completion 0))"

definition served_attempts :: "provider_attempt list \<Rightarrow> int" where
  "served_attempts attempts = int (length (filter (\<lambda>a. \<not> at_skipped a) attempts))"

definition installationIdOf :: "provider_attempt \<Rightarrow> string option" where
  "installationIdOf a = or_else (at_request_installation_id a) (at_passthrough_installation_id a)"

definition served_installation_id :: "provider_attempt list \<Rightarrow> string option" where
  "served_installation_id attempts =
     or_else
       (nullish (last_opt (map installationIdOf
          (filter (\<lambda>a. \<not> at_skipped a \<and> at_status a = Attempt_ok) attempts))) None)
       (nullish (last_opt (filter (\<lambda>i. i \<noteq> None \<and> i \<noteq> Some [])
          (map installationIdOf (filter (\<lambda>a. \<not> at_skipped a) attempts)))) None)"

definition latency_total :: "provider_attempt list \<Rightarrow> rat" where
  "latency_total attempts = foldl (\<lambda>acc a. acc + at_latency_ms a) 0 attempts"

subsection \<open>The two decision records\<close>

definition rejected_record :: "internal_request \<Rightarrow> route_options \<Rightarrow> plan_rejection \<Rightarrow> decision_record" where
  "rejected_record req opts rj =
     \<lparr>dr_request_id = ir_request_id req, dr_trace_id = correlationTraceId req,
      dr_requested_model = requested_model req,
      dr_requested_reasoning_effort = ir_reasoning_effort req, dr_reasoning_effort = ir_reasoning_effort req,
      dr_protocol = ir_protocol req, dr_key_prefix = keyPrefix opts,
      dr_classifier = nullish (rj_classifier rj) passthroughClassifier,
      dr_policy = nullish (rj_policy rj) \<lparr>pd_matched_policy_id = None, pd_reason = ''explicit passthrough rejected''\<rparr>,
      dr_selected_lane = rj_selectedLane rj, dr_candidate_chain = nullish (rj_candidateChain rj) [],
      dr_provider_attempts = [], dr_codex_installation_id = None,
      dr_final = \<lparr>fd_model_alias = None, fd_provider_model = None, fd_status = Attempt_error,
                  fd_error_reason = Some (he_error_class (reject rj))\<rparr>,
      dr_latency_total_ms = 0, dr_fallback_count = 0,
      dr_cost_breakdown = \<lparr>cb_eval_usd = rj_evalUsd rj, cb_completion_usd = None, cb_total_usd = rj_evalUsd rj\<rparr>\<rparr>"

definition final_record :: "exec_final \<Rightarrow> final_decision" where
  "final_record f =
     (case f of
        Exec_ok alias providerModel \<Rightarrow>
          \<lparr>fd_model_alias = Some alias, fd_provider_model = Some providerModel, fd_status = Attempt_ok,
           fd_error_reason = None\<rparr>
      | Exec_error e \<Rightarrow>
          \<lparr>fd_model_alias = None, fd_provider_model = None, fd_status = Attempt_error,
           fd_error_reason = Some (he_error_class e)\<rparr>)"

definition executed_record :: "internal_request \<Rightarrow> internal_request \<Rightarrow> route_options \<Rightarrow> plan_decision \<Rightarrow>
    ('b, 's) execute_outcome \<Rightarrow> decision_record" where
  "executed_record original req opts d out =
     (let completion = completion_usd (eo_attempts out) in
      \<lparr>dr_request_id = ir_request_id req, dr_trace_id = correlationTraceId req,
       dr_requested_model = requested_model req,
       dr_requested_reasoning_effort = ir_reasoning_effort original, dr_reasoning_effort = ir_reasoning_effort req,
       dr_protocol = ir_protocol req, dr_key_prefix = keyPrefix opts,
       dr_classifier = pn_classifier d, dr_policy = pn_policy d,
       dr_selected_lane = pl_selected_lane (plan_of d), dr_candidate_chain = candidate_chain (plan_of d),
       dr_provider_attempts = eo_attempts out,
       dr_codex_installation_id = served_installation_id (eo_attempts out),
       dr_final = final_record (eo_final out),
       dr_latency_total_ms = latency_total (eo_attempts out),
       dr_fallback_count = max 0 (served_attempts (eo_attempts out) - 1),
       dr_cost_breakdown = \<lparr>cb_eval_usd = pn_evalUsd d, cb_completion_usd = completion,
                            cb_total_usd = total_usd (pn_evalUsd d) completion\<rparr>\<rparr>)"

text \<open>The forced effort: the policy's, else the selected lane's, overwrites the client's.\<close>

definition force_reasoning :: "plan_decision \<Rightarrow> plan_deps \<Rightarrow> internal_request \<Rightarrow> internal_request" where
  "force_reasoning d deps req =
     (case or_else (pn_forcedReasoningEffort d)
             (case map_of (lanes deps) (pl_selected_lane (plan_of d)) of
                None \<Rightarrow> None
              | Some l \<Rightarrow> ln_reasoning_effort l) of
        None \<Rightarrow> req
      | Some effort \<Rightarrow> req\<lparr>ir_reasoning_effort := Some effort, ir_reasoning_effort_forced := True\<rparr>)"

subsection \<open>The orchestrator\<close>

text \<open>
  The result, the records logged by the call, and the request as it was left. A rejection's error is
  built inside \<open>plan\<close>; when that throws, so does \<open>routeRequest\<close>.
\<close>

definition routeRequest :: "('b, 's) executor \<Rightarrow> internal_request \<Rightarrow> plan_deps \<Rightarrow> route_options \<Rightarrow>
    ('b, 's) execution_result option \<times> decision_record list \<times> internal_request" where
  "routeRequest execute req deps opts =
     (case plan req deps opts of
        Inl rj \<Rightarrow>
          if error_throws (reject rj) then (None, [], req)
          else
            let decision = rejected_record req opts rj
            in (Some \<lparr>er_decision = decision, er_final = Final_error, er_body = None, er_stream = None,
                     er_error = Some (reject rj), er_nativePassthrough = None, er_upstreamRequest = None,
                     er_responseMetadata = None\<rparr>, [decision], req)
      | Inr d \<Rightarrow>
          let req' = force_reasoning d deps req in
          (case execute (plan_of d) req' of
             None \<Rightarrow> (None, [], req')
           | Some out \<Rightarrow>
               let decision = executed_record req req' opts d out in
               (Some (case eo_final out of
                        Exec_ok alias _ \<Rightarrow>
                          \<lparr>er_decision = decision, er_final = Final_ok alias, er_body = eo_body out,
                           er_stream = eo_stream out, er_error = None,
                           er_nativePassthrough = eo_nativePassthrough out,
                           er_upstreamRequest = eo_upstreamRequest out,
                           er_responseMetadata = eo_responseMetadata out\<rparr>
                      | Exec_error e \<Rightarrow>
                          \<lparr>er_decision = decision, er_final = Final_error, er_body = None, er_stream = None,
                           er_error = Some e, er_nativePassthrough = None, er_upstreamRequest = None,
                           er_responseMetadata = None\<rparr>), [decision], req')))"

subsection \<open>Facts\<close>

lemma no_cost_sum: "list_all (\<lambda>a. at_cost_usd a = None) attempts \<Longrightarrow> (\<Sum>a\<leftarrow>attempts. nullish (at_cost_usd a) 0) = 0"
  by (induction attempts) auto

lemma completion_fold:
  "foldl (\<lambda>acc a. case at_cost_usd a of None \<Rightarrow> acc | Some c \<Rightarrow> Some (nullish acc 0 + c)) acc attempts =
   (if list_all (\<lambda>a. at_cost_usd a = None) attempts then acc
    else Some (nullish acc 0 + (\<Sum>a\<leftarrow>attempts. nullish (at_cost_usd a) 0)))"
  by (induction attempts arbitrary: acc) (auto simp: no_cost_sum split: option.split)

lemma completion_usd_sum:
  "completion_usd attempts =
   (if list_all (\<lambda>a. at_cost_usd a = None) attempts then None
    else Some (\<Sum>a\<leftarrow>attempts. nullish (at_cost_usd a) 0))"
  by (simp add: completion_usd_def completion_fold)

lemma latency_fold: "foldl (\<lambda>acc a. acc + at_latency_ms a) acc attempts = acc + (\<Sum>a\<leftarrow>attempts. at_latency_ms a)"
  by (induction attempts arbitrary: acc) simp_all

lemma latency_total_sum: "latency_total attempts = (\<Sum>a\<leftarrow>attempts. at_latency_ms a)"
  by (simp add: latency_total_def latency_fold)

lemma force_simps [simp]:
  "ir_request_id (force_reasoning d deps req) = ir_request_id req"
  "requested_model (force_reasoning d deps req) = requested_model req"
  "ir_protocol (force_reasoning d deps req) = ir_protocol req"
  "correlationTraceId (force_reasoning d deps req) = correlationTraceId req"
  by (auto simp: force_reasoning_def correlationTraceId_def split: option.split)

text \<open>
  One request, one record: a call that answers logs exactly one decision record, the one it
  returns, for the request it was given; a rejected plan never reaches the executor and is recorded
  with no attempt; an accepted plan reaches it once, with the planned chain. The error of the answer
  is set exactly when the recorded final status is an error.
\<close>
theorem one_record_per_request:
  assumes "routeRequest execute req deps opts = (Some r, logged, req')"
  shows "logged = [er_decision r] \<and> dr_request_id (er_decision r) = ir_request_id req \<and>
    dr_trace_id (er_decision r) = correlationTraceId req \<and>
    (er_error r = None \<longleftrightarrow> fd_status (dr_final (er_decision r)) = Attempt_ok) \<and>
    (case plan req deps opts of
       Inl rj \<Rightarrow> er_error r = Some (reject rj) \<and> dr_provider_attempts (er_decision r) = [] \<and> req' = req
     | Inr d \<Rightarrow> (case execute (plan_of d) req' of
          None \<Rightarrow> False
        | Some out \<Rightarrow> dr_provider_attempts (er_decision r) = eo_attempts out \<and>
            dr_candidate_chain (er_decision r) = candidate_chain (plan_of d)))"
proof (cases "plan req deps opts")
  case (Inl rj)
  with assms show ?thesis
    by (auto simp: routeRequest_def Let_def rejected_record_def split: if_splits)
next
  case (Inr d)
  with assms obtain out where out: "execute (plan_of d) (force_reasoning d deps req) = Some out"
    "req' = force_reasoning d deps req"
    by (auto simp: routeRequest_def Let_def split: option.splits)
  with assms Inr show ?thesis
    by (cases "eo_final out")
      (auto simp: routeRequest_def Let_def executed_record_def final_record_def)
qed

definition demo_executor :: "(string, string) executor" where
  "demo_executor pl req = Some
     \<lparr>eo_attempts = [\<lparr>at_alias = hd (candidate_chain pl), at_skipped = False, at_skip_reason = None,
        at_status = Attempt_ok, at_error_class = None, at_latency_ms = 7, at_cost_usd = Some 2,
        at_error_detail = None, at_passthrough_used = False,
        at_request_installation_id = None, at_passthrough_installation_id = None\<rparr>],
      eo_final = Exec_ok (hd (candidate_chain pl)) ''upstream'', eo_body = Some ''body'', eo_stream = None,
      eo_nativePassthrough = None, eo_upstreamRequest = None, eo_responseMetadata = None\<rparr>"

definition demo_opts :: route_options where
  "demo_opts = demo_key (Some ''economy'') None None"

definition demo_run :: "(string, string) execution_result option \<times> decision_record list \<times> internal_request" where
  "demo_run = routeRequest demo_executor (demo_request ''auto'') demo_deps demo_opts"

lemma demo_run_answer: "\<exists>r logged req'. demo_run = (Some r, logged, req') \<and> er_body r = Some ''body''"
  unfolding demo_run_def demo_opts_def routeRequest_def demo_plan_degraded
  by (simp add: demo_executor_def Let_def)

theorem one_record_per_request_witness:
  "length (fst (snd demo_run)) = 1 \<and> map dr_request_id (fst (snd demo_run)) = [''r1'']"
proof -
  obtain r logged req' where r: "demo_run = (Some r, logged, req')" using demo_run_answer by blast
  have "logged = [er_decision r]" "dr_request_id (er_decision r) = ir_request_id (demo_request ''auto'')"
    using one_record_per_request [OF r [unfolded demo_run_def]] by blast+
  then show ?thesis unfolding r by (simp add: demo_request_def)
qed

text \<open>
  The reasoning effort that executes and is recorded: the matched policy's forced effort wins, else
  the selected lane's, else the client's own; the record keeps the client's value beside it, and the
  forced flag is raised exactly when the configuration forced a value.
\<close>
theorem forced_effort_wins:
  assumes "plan req deps opts = Inr d" and "routeRequest execute req deps opts = (Some r, logged, req')"
  shows "let lane_effort = (case map_of (lanes deps) (pl_selected_lane (plan_of d)) of
                              None \<Rightarrow> None | Some l \<Rightarrow> ln_reasoning_effort l);
             forced = or_else (pn_forcedReasoningEffort d) lane_effort
         in dr_reasoning_effort (er_decision r) = or_else forced (ir_reasoning_effort req) \<and>
            dr_requested_reasoning_effort (er_decision r) = ir_reasoning_effort req \<and>
            ir_reasoning_effort req' = or_else forced (ir_reasoning_effort req) \<and>
            ir_reasoning_effort_forced req' = (forced \<noteq> None \<or> ir_reasoning_effort_forced req)"
proof -
  from assms obtain out where "execute (plan_of d) (force_reasoning d deps req) = Some out"
    by (auto simp: routeRequest_def Let_def split: option.splits)
  with assms show ?thesis
    by (auto simp: routeRequest_def Let_def executed_record_def force_reasoning_def split: exec_final.splits option.splits)
qed

theorem forced_effort_wins_witness:
  "ir_reasoning_effort (snd (snd demo_run)) = None \<and> \<not> ir_reasoning_effort_forced (snd (snd demo_run))"
proof -
  obtain r logged req' where r: "demo_run = (Some r, logged, req')" using demo_run_answer by blast
  have l: "map_of (lanes demo_deps) ''economy'' = Some (demo_lane ''cheap'' [''balanced''])"
    by (simp add: demo_deps_def demo_lanes_def)
  from forced_effort_wins [OF demo_plan_degraded r [unfolded demo_run_def demo_opts_def]] l show ?thesis
    unfolding r by (simp add: Let_def demo_planned_def demo_lane_def demo_request_def)
qed

text \<open>
  The books balance: the recorded completion cost is the sum over the attempts that measured one
  and null (not zero) when none did, the total adds the classifier's own cost and is null only when
  both are, latency is the sum over all attempts, and the fallback count is the attempts actually
  made beyond the first, skipped candidates excluded.
\<close>
theorem record_books_balance:
  "let dr = executed_record original req opts d out; atts = eo_attempts out; cb = dr_cost_breakdown dr in
   cb_completion_usd cb = (if list_all (\<lambda>a. at_cost_usd a = None) atts then None
                           else Some (\<Sum>a\<leftarrow>atts. nullish (at_cost_usd a) 0)) \<and>
   (cb_total_usd cb = None \<longleftrightarrow> pn_evalUsd d = None \<and> cb_completion_usd cb = None) \<and>
   nullish (cb_total_usd cb) 0 = nullish (pn_evalUsd d) 0 + nullish (cb_completion_usd cb) 0 \<and>
   dr_latency_total_ms dr = (\<Sum>a\<leftarrow>atts. at_latency_ms a) \<and>
   dr_fallback_count dr = int (length (filter (\<lambda>a. \<not> at_skipped a) atts) - 1)"
  by (auto simp: executed_record_def Let_def completion_usd_sum total_usd_def latency_total_sum served_attempts_def)

end
