(* ===== verification/Capability.thy ===== *)
theory Capability
  imports Prelude
begin

text \<open>
  The capability filter (\<open>packages/core/src/capability/filter.ts\<close>) over the capabilities of a catalog
  entry (\<open>packages/shared/src/catalog/schema.ts\<close>, the fields the filter reads): whether one candidate
  can serve one request, and why not.
\<close>

datatype skip_reason =
    No_tool_support
  | No_forced_tool_choice_support
  | No_json_support
  | No_response_schema_support
  | No_vision_support
  | No_audio_support
  | No_video_support
  | No_document_support
  | Context_too_small
  | No_streaming_support
  | No_nonstream_support
  | No_cached_content_support

datatype input_modality = Audio | Video | Document

datatype json_tier = Json_none | Json_object | Json_schema

record capabilities =
  supportsTools :: bool
  supportsForcedToolChoice :: "bool option"
  jsonOutput :: json_tier
  supportsVision :: bool
  supportsStreaming :: bool
  modalities :: "input_modality list option"
  requiresStreaming :: "bool option"
  supportsCachedContent :: "bool option"
  maxContextTokens :: int

record capability_request =
  needsTools :: bool
  needsForcedToolChoice :: "bool option"
  needsJson :: bool
  needsResponseSchema :: bool
  needsVision :: bool
  needsStreaming :: bool
  needsCachedContent :: "bool option"
  estimatedPromptTokens :: int
  maxTokens :: "int option"
  needsAudio :: "bool option"
  needsVideo :: "bool option"
  needsDocument :: "bool option"

record filter_result =
  fr_ok :: bool
  fr_skipReason :: "skip_reason option"

definition PASS :: filter_result where
  "PASS = \<lparr>fr_ok = True, fr_skipReason = None\<rparr>"

definition skip :: "skip_reason \<Rightarrow> filter_result" where
  "skip r = \<lparr>fr_ok = False, fr_skipReason = Some r\<rparr>"

definition checkCapability :: "capabilities \<Rightarrow> capability_request \<Rightarrow> filter_result" where
  "checkCapability caps req =
     (if needsTools req \<and> \<not> supportsTools caps then skip No_tool_support
      else if needsForcedToolChoice req = Some True \<and> supportsForcedToolChoice caps = Some False
      then skip No_forced_tool_choice_support
      else if needsJson req \<and> jsonOutput caps = Json_none then skip No_json_support
      else if needsResponseSchema req \<and> jsonOutput caps \<noteq> Json_schema then skip No_response_schema_support
      else if needsVision req \<and> \<not> supportsVision caps then skip No_vision_support
      else
        let ms = nullish (modalities caps) [] in
        if needsAudio req = Some True \<and> Audio \<notin> set ms then skip No_audio_support
        else if needsVideo req = Some True \<and> Video \<notin> set ms then skip No_video_support
        else if needsDocument req = Some True \<and> Document \<notin> set ms then skip No_document_support
        else
          let outputBudget = nullish (maxTokens req) 0 in
          if estimatedPromptTokens req + outputBudget > maxContextTokens caps then skip Context_too_small
          else if needsStreaming req \<and> \<not> supportsStreaming caps then skip No_streaming_support
          else if \<not> needsStreaming req \<and> requiresStreaming caps = Some True then skip No_nonstream_support
          else if needsCachedContent req = Some True \<and> supportsCachedContent caps \<noteq> Some True
          then skip No_cached_content_support
          else PASS)"

text \<open>The gates in their documented order, and when a candidate satisfies each.\<close>

definition gate_order :: "skip_reason list" where
  "gate_order = [No_tool_support, No_forced_tool_choice_support, No_json_support, No_response_schema_support,
     No_vision_support, No_audio_support, No_video_support, No_document_support, Context_too_small,
     No_streaming_support, No_nonstream_support, No_cached_content_support]"

fun satisfies :: "capabilities \<Rightarrow> capability_request \<Rightarrow> skip_reason \<Rightarrow> bool" where
  "satisfies c r No_tool_support = (needsTools r \<longrightarrow> supportsTools c)"
| "satisfies c r No_forced_tool_choice_support =
     (needsForcedToolChoice r = Some True \<longrightarrow> supportsForcedToolChoice c \<noteq> Some False)"
| "satisfies c r No_json_support = (needsJson r \<longrightarrow> jsonOutput c \<noteq> Json_none)"
| "satisfies c r No_response_schema_support = (needsResponseSchema r \<longrightarrow> jsonOutput c = Json_schema)"
| "satisfies c r No_vision_support = (needsVision r \<longrightarrow> supportsVision c)"
| "satisfies c r No_audio_support = (needsAudio r = Some True \<longrightarrow> Audio \<in> set (nullish (modalities c) []))"
| "satisfies c r No_video_support = (needsVideo r = Some True \<longrightarrow> Video \<in> set (nullish (modalities c) []))"
| "satisfies c r No_document_support = (needsDocument r = Some True \<longrightarrow> Document \<in> set (nullish (modalities c) []))"
| "satisfies c r Context_too_small = (estimatedPromptTokens r + nullish (maxTokens r) 0 \<le> maxContextTokens c)"
| "satisfies c r No_streaming_support = (needsStreaming r \<longrightarrow> supportsStreaming c)"
| "satisfies c r No_nonstream_support = (\<not> needsStreaming r \<longrightarrow> requiresStreaming c \<noteq> Some True)"
| "satisfies c r No_cached_content_support = (needsCachedContent r = Some True \<longrightarrow> supportsCachedContent c = Some True)"

lemma check_first_unmet:
  "fr_skipReason (checkCapability c r) = find (\<lambda>g. \<not> satisfies c r g) gate_order"
  by (simp add: checkCapability_def gate_order_def Let_def skip_def PASS_def not_le)

lemma check_ok: "fr_ok (checkCapability c r) \<longleftrightarrow> fr_skipReason (checkCapability c r) = None"
  by (simp add: checkCapability_def Let_def skip_def PASS_def)

lemma in_gate_order [simp]: "g \<in> set gate_order"
  by (cases g) (simp_all add: gate_order_def)

text \<open>
  The filter is exact: a candidate passes exactly when it satisfies every gate, and a skipped one
  names the first gate, in the documented order, that it does not satisfy.
\<close>
theorem capability_filter_exact:
  "(fr_ok (checkCapability c r) \<longleftrightarrow> list_all (satisfies c r) gate_order) \<and>
   (fr_ok (checkCapability c r) \<longleftrightarrow> fr_skipReason (checkCapability c r) = None) \<and>
   fr_skipReason (checkCapability c r) = find (\<lambda>g. \<not> satisfies c r g) gate_order"
  by (auto simp: check_ok check_first_unmet find_None_iff list_all_iff)

end
