(* ===== verification/Memory_Coordinator.thy ===== *)
theory Memory_Coordinator
  imports Prelude
begin

text \<open>
  Process memory (\<open>packages/core/src/runtime/memory-budget.ts\<close>): the coordinator whose leases bound the
  pending memory of the whole process, and the two derivations of its capacities. A lease is an
  identity; its closure state (\<open>held\<close>, \<open>released\<close>) is the lease table. The live capacity is the
  environment's: \<open>mc_rawCapacity\<close> is what \<open>options.capacityBytes()\<close> returns at the moment.
\<close>

subsection \<open>The coordinator\<close>

definition normalizedBytes :: "bytes \<Rightarrow> bytes" where
  "normalizedBytes b = (if isSafeInteger b \<and> b \<ge> 0 then b else MAX_SAFE_INTEGER)"

record mem_lease =
  ml_held :: bytes
  ml_released :: bool

record coordinator =
  mc_reserved :: bytes
  mc_leases :: "nat \<rightharpoonup> mem_lease"
  mc_fresh :: nat
  mc_rawCapacity :: int

definition createRuntimeMemoryCoordinator :: "int \<Rightarrow> coordinator" where
  "createRuntimeMemoryCoordinator raw =
     \<lparr>mc_reserved = 0, mc_leases = Map.empty, mc_fresh = 0, mc_rawCapacity = raw\<rparr>"

definition mc_capacity :: "coordinator \<Rightarrow> bytes" where
  "mc_capacity s = (let c = mc_rawCapacity s in if isSafeInteger c \<and> c \<ge> 0 then c else 0)"

text \<open>The left summand is a refusal with the capacity it was measured against.\<close>

definition mc_acquire :: "bytes \<Rightarrow> coordinator \<Rightarrow> (bytes + nat) \<times> coordinator" where
  "mc_acquire b s =
     (let held = normalizedBytes b; cap = mc_capacity s in
      if mc_reserved s + held > cap then (Inl cap, s)
      else
        let l = mc_fresh s
        in (Inr l, s\<lparr>mc_reserved := mc_reserved s + held,
                     mc_leases := (mc_leases s)(l \<mapsto> \<lparr>ml_held = held, ml_released = False\<rparr>),
                     mc_fresh := Suc l\<rparr>))"

definition mc_resize :: "nat \<Rightarrow> bytes \<Rightarrow> coordinator \<Rightarrow> (bytes + unit) \<times> coordinator" where
  "mc_resize l nextBytes s =
     (case mc_leases s l of
        None \<Rightarrow> (Inl (mc_capacity s), s)
      | Some x \<Rightarrow>
          if ml_released x then (Inl (mc_capacity s), s)
          else
            let nx = normalizedBytes nextBytes; held = ml_held x in
            if nx > held \<and> mc_reserved s - held + nx > mc_capacity s then (Inl (mc_capacity s), s)
            else (Inr (), s\<lparr>mc_reserved := mc_reserved s + (nx - held),
                           mc_leases := (mc_leases s)(l \<mapsto> x\<lparr>ml_held := nx\<rparr>)\<rparr>))"

definition mc_release :: "nat \<Rightarrow> coordinator \<Rightarrow> coordinator" where
  "mc_release l s =
     (case mc_leases s l of
        None \<Rightarrow> s
      | Some x \<Rightarrow>
          if ml_released x then s
          else s\<lparr>mc_leases := (mc_leases s)(l \<mapsto> x\<lparr>ml_released := True\<rparr>),
                 mc_reserved := mc_reserved s - ml_held x\<rparr>)"

subsection \<open>Histories and the ledger\<close>

datatype mc_event = Mc_acquire bytes | Mc_resize nat bytes | Mc_release nat | Capacity_now int

fun mc_step :: "coordinator \<Rightarrow> mc_event \<Rightarrow> coordinator" where
  "mc_step s (Mc_acquire b) = snd (mc_acquire b s)"
| "mc_step s (Mc_resize l b) = snd (mc_resize l b s)"
| "mc_step s (Mc_release l) = mc_release l s"
| "mc_step s (Capacity_now c) = s\<lparr>mc_rawCapacity := c\<rparr>"

definition live_bytes :: "mem_lease \<Rightarrow> bytes" where
  "live_bytes x = (if ml_released x then 0 else ml_held x)"

lemma live_bytes_simps [simp]:
  "live_bytes \<lparr>ml_held = h, ml_released = r\<rparr> = (if r then 0 else h)"
  "live_bytes (x\<lparr>ml_released := True\<rparr>) = 0" "\<not> ml_released x \<Longrightarrow> live_bytes (x\<lparr>ml_held := h\<rparr>) = h"
  by (simp_all add: live_bytes_def)

definition mc_inv :: "coordinator \<Rightarrow> bool" where
  "mc_inv s \<longleftrightarrow>
     finite (dom (mc_leases s)) \<and> (\<forall>l x. mc_leases s l = Some x \<longrightarrow> l < mc_fresh s \<and> 0 \<le> ml_held x) \<and>
     mc_reserved s = map_total live_bytes (mc_leases s)"

lemma normalized_nonneg [simp]: "0 \<le> normalizedBytes b"
  by (simp add: normalizedBytes_def MAX_SAFE_INTEGER_def)

lemma fresh_lease: "mc_inv s \<Longrightarrow> mc_leases s (mc_fresh s) = None"
  unfolding mc_inv_def by (metis less_irrefl not_None_eq)

lemma acquire_inv [helm_inv]: "mc_inv s \<Longrightarrow> mc_inv (snd (mc_acquire b s))"
  using fresh_lease [of s]
  by (auto simp: mc_acquire_def Let_def mc_inv_def map_total_update less_Suc_eq)

lemma resize_inv [helm_inv]:
  assumes "mc_inv s"
  shows "mc_inv (snd (mc_resize l b s))"
proof (cases "mc_leases s l")
  case None
  with assms show ?thesis by (simp add: mc_resize_def)
next
  case (Some x)
  with assms show ?thesis
    by (auto simp: mc_resize_def Let_def mc_inv_def map_total_update live_bytes_def insert_absorb domI)
qed

lemma release_inv [helm_inv]:
  assumes "mc_inv s"
  shows "mc_inv (mc_release l s)"
proof (cases "mc_leases s l")
  case None
  with assms show ?thesis by (simp add: mc_release_def)
next
  case (Some x)
  with assms show ?thesis
    by (auto simp: mc_release_def mc_inv_def map_total_update live_bytes_def insert_absorb domI)
qed

lemma mc_step_inv [helm_inv]: "mc_inv s \<Longrightarrow> mc_inv (mc_step s e)"
  by (cases e) (simp_all add: helm_inv, simp add: mc_inv_def)

interpretation mc: guarded_steps mc_step mc_inv "\<lambda>_. True"
  by unfold_locales (rule mc_step_inv)

lemma mc_init [simp]: "mc_inv (createRuntimeMemoryCoordinator raw)"
  by (simp add: mc_inv_def createRuntimeMemoryCoordinator_def)

subsection \<open>The coordinator as a resource of its clients\<close>

text \<open>
  What an admission controller relies on: a grant gives a lease that was not live, holding the
  normalized size; a refusal changes nothing; resizing and releasing touch that lease alone.
\<close>

locale memory_resource =
  fixes acq :: "'c \<Rightarrow> bytes \<Rightarrow> nat option \<times> 'c"
    and resize :: "'c \<Rightarrow> nat \<Rightarrow> bytes \<Rightarrow> bool \<times> 'c"
    and rel :: "'c \<Rightarrow> nat \<Rightarrow> 'c"
    and held :: "'c \<Rightarrow> nat \<Rightarrow> bytes option"
    and ok :: "'c \<Rightarrow> bool"
  assumes acq_granted: "ok c \<Longrightarrow> acq c b = (Some l, c') \<Longrightarrow>
      ok c' \<and> held c l = None \<and> held c' = (held c)(l \<mapsto> normalizedBytes b)"
    and acq_refused: "acq c b = (None, c') \<Longrightarrow> c' = c"
    and resize_done: "ok c \<Longrightarrow> resize c l b = (True, c') \<Longrightarrow>
      ok c' \<and> held c l \<noteq> None \<and> held c' = (held c)(l \<mapsto> normalizedBytes b)"
    and resize_refused: "resize c l b = (False, c') \<Longrightarrow> c' = c"
    and released: "ok c \<Longrightarrow> ok (rel c l) \<and> held (rel c l) = (held c)(l := None)"
begin

lemma acquire_release: "ok c \<Longrightarrow> acq c b = (Some l, c') \<Longrightarrow> held (rel c' l) = held c"
  using acq_granted [of c b l c'] released [of c' l] by (auto simp: fun_upd_idem)

lemma other_untouched:
  "ok c \<Longrightarrow> resize c l b = (True, c') \<Longrightarrow> l' \<noteq> l \<Longrightarrow> held c' l' = held c l'"
  using resize_done [of c l b c'] by simp

end

definition mc_try :: "coordinator \<Rightarrow> bytes \<Rightarrow> nat option \<times> coordinator" where
  "mc_try s b = (case mc_acquire b s of (Inr l, s') \<Rightarrow> (Some l, s') | (Inl _, s') \<Rightarrow> (None, s'))"

definition mc_try_resize :: "coordinator \<Rightarrow> nat \<Rightarrow> bytes \<Rightarrow> bool \<times> coordinator" where
  "mc_try_resize s l b = (case mc_resize l b s of (Inr _, s') \<Rightarrow> (True, s') | (Inl _, s') \<Rightarrow> (False, s'))"

definition mc_held :: "coordinator \<Rightarrow> nat \<Rightarrow> bytes option" where
  "mc_held s l =
     (case mc_leases s l of None \<Rightarrow> None | Some x \<Rightarrow> if ml_released x then None else Some (ml_held x))"

interpretation coordinated: memory_resource mc_try mc_try_resize "\<lambda>s l. mc_release l s" mc_held mc_inv
proof
  fix c b l c'
  assume "mc_inv c" and a: "mc_try c b = (Some l, c')"
  moreover from a have "c' = snd (mc_acquire b c)"
    by (auto simp: mc_try_def split: prod.splits sum.splits)
  ultimately have "mc_inv c'" "mc_inv c" by (simp_all add: helm_inv)
  with a fresh_lease [of c] show "mc_inv c' \<and> mc_held c l = None \<and> mc_held c' = (mc_held c)(l \<mapsto> normalizedBytes b)"
    by (auto simp: mc_try_def mc_acquire_def Let_def mc_held_def fun_eq_iff split: if_splits)
next
  fix c b c'
  assume "mc_try c b = (None, c')"
  then show "c' = c" by (auto simp: mc_try_def mc_acquire_def Let_def split: if_splits)
next
  fix c l b c'
  assume "mc_inv c" and a: "mc_try_resize c l b = (True, c')"
  moreover from a have "c' = snd (mc_resize l b c)"
    by (auto simp: mc_try_resize_def split: prod.splits sum.splits)
  ultimately have "mc_inv c'" "mc_inv c" by (simp_all add: helm_inv)
  with a show "mc_inv c' \<and> mc_held c l \<noteq> None \<and> mc_held c' = (mc_held c)(l \<mapsto> normalizedBytes b)"
    by (auto simp: mc_try_resize_def mc_resize_def Let_def mc_held_def fun_eq_iff split: if_splits option.splits)
next
  fix c l b c'
  assume "mc_try_resize c l b = (False, c')"
  then show "c' = c" by (auto simp: mc_try_resize_def mc_resize_def Let_def split: if_splits option.splits)
next
  fix c l
  assume "mc_inv c"
  then show "mc_inv (mc_release l c) \<and> mc_held (mc_release l c) = (mc_held c)(l := None)"
    by (auto simp: helm_inv) (auto simp: mc_release_def mc_held_def fun_eq_iff split: option.splits)
qed

subsection \<open>Properties of the coordinator\<close>

text \<open>
  Process memory is never overcommitted: after any history of acquires, resizes, repeated
  releases and capacity changes, the reserved bytes are exactly the sum of the unreleased leases; a
  grant, and a resize that grows a lease, leave them within the capacity of that moment; a shrinking
  resize of a live lease always succeeds, even over capacity; releasing twice is releasing once.
\<close>
theorem coordinator_never_overcommits:
  assumes s: "s = foldl mc_step (createRuntimeMemoryCoordinator raw) es"
  shows "mc_reserved s = map_total live_bytes (mc_leases s) \<and> 0 \<le> mc_reserved s \<and>
    (case mc_acquire b s of
       (Inl _, s') \<Rightarrow> s' = s
     | (Inr l, s') \<Rightarrow> mc_reserved s' \<le> mc_capacity s \<and> mc_reserved s' = mc_reserved s + normalizedBytes b) \<and>
    (case mc_held s l of
       None \<Rightarrow> snd (mc_resize l b s) = s \<and> mc_release l s = s
     | Some h \<Rightarrow>
         (if normalizedBytes b \<le> h then fst (mc_resize l b s) = Inr ()
          else fst (mc_resize l b s) = Inl (mc_capacity s) \<or> mc_reserved (snd (mc_resize l b s)) \<le> mc_capacity s) \<and>
         mc_reserved (mc_release l s) = mc_reserved s - h) \<and>
    mc_release l (mc_release l s) = mc_release l s"
proof -
  have inv: "mc_inv s" unfolding s by (rule mc.run_keeps) (simp_all add: list_all_iff)
  then have "mc_reserved s = map_total live_bytes (mc_leases s)" by (simp add: mc_inv_def)
  moreover have "0 \<le> map_total live_bytes (mc_leases s)"
    using inv by (intro map_total_nonneg) (auto simp: mc_inv_def live_bytes_def)
  moreover have "case mc_acquire b s of (Inl _, s') \<Rightarrow> s' = s
     | (Inr l, s') \<Rightarrow> mc_reserved s' \<le> mc_capacity s \<and> mc_reserved s' = mc_reserved s + normalizedBytes b"
    by (simp add: mc_acquire_def Let_def)
  moreover have "mc_release l (mc_release l s) = mc_release l s"
    by (simp add: mc_release_def split: option.split)
  moreover have "case mc_held s l of None \<Rightarrow> snd (mc_resize l b s) = s \<and> mc_release l s = s
     | Some h \<Rightarrow>
         (if normalizedBytes b \<le> h then fst (mc_resize l b s) = Inr ()
          else fst (mc_resize l b s) = Inl (mc_capacity s) \<or> mc_reserved (snd (mc_resize l b s)) \<le> mc_capacity s) \<and>
         mc_reserved (mc_release l s) = mc_reserved s - h"
    by (auto simp: mc_held_def mc_resize_def mc_release_def Let_def split: option.split)
  ultimately show ?thesis by simp
qed

theorem coordinator_never_overcommits_witness:
  "let s = foldl mc_step (createRuntimeMemoryCoordinator 100) [Mc_acquire 60, Mc_acquire 60, Capacity_now 10]
   in mc_reserved s = 60 \<and> fst (mc_resize 0 50 s) = Inr ()"
  using coordinator_never_overcommits [OF refl, where b = 50 and raw = 100 and l = 0 and es = "[Mc_acquire 60, Mc_acquire 60, Capacity_now 10]"]
  by (simp add: createRuntimeMemoryCoordinator_def mc_acquire_def mc_capacity_def normalizedBytes_def
      isSafeInteger_def MAX_SAFE_INTEGER_def mc_held_def Let_def)

subsection \<open>Deriving the capacities\<close>

text \<open>\<open>Math.floor(b * r)\<close>. Byte inputs are integers (never NaN or infinite); factors are exact.\<close>

definition scale :: "bytes \<Rightarrow> rat \<Rightarrow> bytes" where
  "scale b r = \<lfloor>of_int b * r\<rfloor>"

lemma scale_bounds: "0 \<le> b \<Longrightarrow> 0 \<le> r \<Longrightarrow> 0 \<le> scale b r"
  "0 \<le> b \<Longrightarrow> of_int (scale b r) \<le> of_int b * r"
  by (simp_all add: scale_def)

definition MIB :: bytes where
  "MIB = 1024 * 1024"

record safe_capacity_input =
  sc_heapLimitBytes :: bytes
  sc_heapUsedBytes :: bytes
  sc_availableMemoryBytes :: bytes
  sc_hostTotalMemoryBytes :: bytes
  sc_constrainedMemoryBytes :: "bytes option"
  sc_hostReserveMinBytes :: "bytes option"
  sc_emergencyReserveBytes :: "bytes option"
  sc_utilization :: "rat option"

definition deriveSafeWorkingMemoryCapacity :: "safe_capacity_input \<Rightarrow> bytes" where
  "deriveSafeWorkingMemoryCapacity inp =
     (let hostReserveMinBytes = nullish (sc_hostReserveMinBytes inp) (384 * MIB);
          emergencyReserveBytes = nullish (sc_emergencyReserveBytes inp) (128 * MIB);
          utilization = nullish (sc_utilization inp) (7 / 10);
          constrained = nullish (sc_constrainedMemoryBytes inp) 0;
          hasConstrainedLimit = (isSafeInteger constrained \<and> constrained > 0);
          effectiveTotal = (if hasConstrainedLimit then min (sc_hostTotalMemoryBytes inp) constrained
                            else sc_hostTotalMemoryBytes inp);
          proportionalReserve = min (1024 * MIB) (scale effectiveTotal (5 / 100));
          hostReserve = (if hasConstrainedLimit then proportionalReserve
                         else max hostReserveMinBytes proportionalReserve);
          heapHeadroom = max 0 (sc_heapLimitBytes inp - sc_heapUsedBytes inp - emergencyReserveBytes);
          nativeHeadroom = max 0 (sc_availableMemoryBytes inp - hostReserve)
      in max 0 (scale (min heapHeadroom nativeHeadroom) utilization))"

record memory_budget =
  mb_heapLimitBytes :: bytes
  mb_processLimitBytes :: bytes
  mb_jsonAmplification :: int
  mb_activeRequestBytes :: bytes
  mb_responseWorkBytes :: bytes
  mb_minRequestChargeBytes :: bytes
  mb_writeQueueBytes :: bytes
  mb_sessionCacheBytes :: bytes
  mb_responseCaptureBytes :: bytes
  mb_sseTailChars :: int
  mb_sqlitePageCacheBytes :: bytes
  mb_sqliteMaintenanceCacheBytes :: bytes
  mb_websocketIngressBytes :: bytes

record budget_input =
  bi_heapLimitBytes :: bytes
  bi_constrainedMemoryBytes :: "bytes option"
  bi_rssBytes :: "bytes option"
  bi_heapTotalBytes :: "bytes option"
  bi_availableMemoryBytes :: "bytes option"

definition JSON_AMPLIFICATION :: int where
  "JSON_AMPLIFICATION = 6"

definition nonneg_or_zero :: "bytes option \<Rightarrow> bytes" where
  "nonneg_or_zero b = (case b of None \<Rightarrow> 0 | Some x \<Rightarrow> if x \<ge> 0 then x else 0)"

definition process_limit :: "budget_input \<Rightarrow> bytes" where
  "process_limit inp =
     (let constrained = nullish (bi_constrainedMemoryBytes inp) 0; available = nullish (bi_availableMemoryBytes inp) 0
      in if isSafeInteger constrained \<and> constrained > 0 then constrained
         else if available > 0 then nonneg_or_zero (bi_rssBytes inp) + available
         else bi_heapLimitBytes inp)"

definition native_measured :: "budget_input \<Rightarrow> bool" where
  "native_measured inp =
     (let constrained = nullish (bi_constrainedMemoryBytes inp) 0; available = nullish (bi_availableMemoryBytes inp) 0
      in (isSafeInteger constrained \<and> constrained > 0) \<or> available > 0)"

text \<open>\<open>None\<close>: the derivation throws on a heap limit that is not positive.\<close>

definition deriveRuntimeMemoryBudget :: "budget_input \<Rightarrow> memory_budget option" where
  "deriveRuntimeMemoryBudget inp =
     (if bi_heapLimitBytes inp \<le> 0 then None
      else
        let rssBytes = nonneg_or_zero (bi_rssBytes inp);
            processLimit = process_limit inp;
            allocationLimit = min (bi_heapLimitBytes inp) processLimit;
            activeRequest = scale allocationLimit (20 / 100);
            responseWork = scale allocationLimit (20 / 100);
            writeQueue = scale allocationLimit (8 / 100);
            sessionCache = scale allocationLimit (4 / 100);
            responseCapture = scale allocationLimit (6 / 100);
            sqlitePageCache = scale processLimit (3 / 100);
            sqliteMaintenanceCache = scale sqlitePageCache (1 / 4);
            heapTotal = min rssBytes (nonneg_or_zero (bi_heapTotalBytes inp));
            managedHeap = activeRequest + responseWork + writeQueue + sessionCache + responseCapture;
            heapReservationCeiling = (if bi_heapLimitBytes inp \<le> processLimit then bi_heapLimitBytes inp
                                      else managedHeap);
            futureHeapGrowth = max 0 (heapReservationCeiling - heapTotal);
            availableProcess = max 0 (processLimit - rssBytes);
            websocketIngress =
              (if native_measured inp
               then max 0 (availableProcess - futureHeapGrowth - sqlitePageCache - sqliteMaintenanceCache)
               else activeRequest)
        in Some
          \<lparr>mb_heapLimitBytes = bi_heapLimitBytes inp, mb_processLimitBytes = processLimit,
           mb_jsonAmplification = JSON_AMPLIFICATION,
           mb_activeRequestBytes = activeRequest, mb_responseWorkBytes = responseWork,
           mb_minRequestChargeBytes = max 1 (scale activeRequest (1 / 100)),
           mb_writeQueueBytes = writeQueue, mb_sessionCacheBytes = sessionCache,
           mb_responseCaptureBytes = responseCapture,
           mb_sseTailChars = max 1 (scale responseCapture (4 / 10000)),
           mb_sqlitePageCacheBytes = sqlitePageCache,
           mb_sqliteMaintenanceCacheBytes = sqliteMaintenanceCache,
           mb_websocketIngressBytes = websocketIngress\<rparr>)"

definition managed_heap :: "memory_budget \<Rightarrow> bytes" where
  "managed_heap b = mb_activeRequestBytes b + mb_responseWorkBytes b + mb_writeQueueBytes b +
     mb_sessionCacheBytes b + mb_responseCaptureBytes b"

lemma scale_sum:
  assumes "0 \<le> x"
  shows "scale x (20 / 100) + scale x (20 / 100) + scale x (8 / 100) + scale x (4 / 100) + scale x (6 / 100) \<le> scale x (58 / 100)"
proof -
  have "(of_int (scale x (20 / 100) + scale x (20 / 100) + scale x (8 / 100) + scale x (4 / 100) + scale x (6 / 100)) :: rat)
      \<le> of_int x * (58 / 100)"
    using scale_bounds(2) [OF assms, of "20 / 100"] scale_bounds(2) [OF assms, of "8 / 100"]
      scale_bounds(2) [OF assms, of "4 / 100"] scale_bounds(2) [OF assms, of "6 / 100"] by simp
  then show ?thesis unfolding scale_def [of x "58 / 100"] by (simp add: le_floor_iff)
qed

lemma scale_le: "0 \<le> x \<Longrightarrow> 0 \<le> r \<Longrightarrow> r \<le> 1 \<Longrightarrow> scale x r \<le> x"
proof -
  assume a: "0 \<le> x" "0 \<le> r" "r \<le> 1"
  then have "(of_int x :: rat) * r \<le> of_int x" by (simp add: mult_left_le)
  then show "scale x r \<le> x" by (simp add: scale_def floor_le_iff)
qed

text \<open>
  The memory budget is a partition: every pool is non-negative, the managed heap pools together take
  at most 58 percent of the smaller of the heap and process limits, each request is charged at least
  one byte, and with a measured native limit the websocket pool and the SQLite caches, on top of what
  the process holds, stay within the process limit whenever any websocket capacity is granted.
\<close>
theorem memory_budget_partition:
  assumes "deriveRuntimeMemoryBudget inp = Some b"
    and "bi_availableMemoryBytes inp \<noteq> None" and "0 < the (bi_availableMemoryBytes inp)"
  shows "0 \<le> mb_activeRequestBytes b \<and> 0 \<le> mb_responseWorkBytes b \<and> 0 \<le> mb_writeQueueBytes b \<and>
    0 \<le> mb_sessionCacheBytes b \<and> 0 \<le> mb_responseCaptureBytes b \<and> 0 \<le> mb_websocketIngressBytes b \<and>
    1 \<le> mb_minRequestChargeBytes b \<and>
    managed_heap b \<le> scale (min (mb_heapLimitBytes b) (mb_processLimitBytes b)) (58 / 100) \<and>
    (mb_websocketIngressBytes b = 0 \<or>
     nonneg_or_zero (bi_rssBytes inp) + mb_websocketIngressBytes b + mb_sqlitePageCacheBytes b +
       mb_sqliteMaintenanceCacheBytes b \<le> mb_processLimitBytes b)"
proof -
  define P where "P = mb_processLimitBytes b"
  define A where "A = min (bi_heapLimitBytes inp) P"
  obtain av where av: "bi_availableMemoryBytes inp = Some av" "0 < av" using assms(2,3) by auto
  have rss: "0 \<le> nonneg_or_zero x" for x by (simp add: nonneg_or_zero_def split: option.split)
  have pos: "\<not> bi_heapLimitBytes inp \<le> 0"
  proof
    assume "bi_heapLimitBytes inp \<le> 0"
    then have "deriveRuntimeMemoryBudget inp = None" by (simp add: deriveRuntimeMemoryBudget_def)
    with assms(1) show False by simp
  qed
  have measured: "native_measured inp" using av by (simp add: native_measured_def Let_def)
  note b = assms(1) [unfolded deriveRuntimeMemoryBudget_def if_not_P [OF pos] if_P [OF measured] Let_def option.inject, symmetric]
  have Pdef: "P = process_limit inp" unfolding P_def b by simp
  then have P: "0 < P" using av rss [of "bi_rssBytes inp"] by (auto simp: process_limit_def Let_def)
  then have A: "0 \<le> A" using pos by (simp add: A_def)
  have pools: "mb_heapLimitBytes b = bi_heapLimitBytes inp"
    "mb_activeRequestBytes b = scale A (20 / 100)" "mb_responseWorkBytes b = scale A (20 / 100)"
    "mb_writeQueueBytes b = scale A (8 / 100)" "mb_sessionCacheBytes b = scale A (4 / 100)"
    "mb_responseCaptureBytes b = scale A (6 / 100)" "mb_sqlitePageCacheBytes b = scale P (3 / 100)"
    "mb_sqliteMaintenanceCacheBytes b = scale (scale P (3 / 100)) (1 / 4)"
    unfolding A_def Pdef b memory_budget.select_convs by (rule refl)+
  have one: "1 \<le> mb_minRequestChargeBytes b" unfolding b memory_budget.select_convs by simp
  have ws: "\<exists>g \<ge> 0. mb_websocketIngressBytes b =
      max 0 (max 0 (P - nonneg_or_zero (bi_rssBytes inp)) - g - scale P (3 / 100) - scale (scale P (3 / 100)) (1 / 4))"
    unfolding Pdef b memory_budget.select_convs by (rule exI, rule conjI [OF _ refl], rule max.cobounded1)
  have sq: "0 \<le> scale P (3 / 100)" "0 \<le> scale (scale P (3 / 100)) (1 / 4)"
    using P by (simp_all add: scale_bounds)
  from ws sq have "0 \<le> mb_websocketIngressBytes b" and
    "mb_websocketIngressBytes b = 0 \<or> nonneg_or_zero (bi_rssBytes inp) + mb_websocketIngressBytes b +
      scale P (3 / 100) + scale (scale P (3 / 100)) (1 / 4) \<le> P"
    by (auto simp: max_def split: if_splits)
  with pools one scale_sum [OF A] show ?thesis
    using scale_bounds(1) [OF A] by (simp add: managed_heap_def A_def P_def [symmetric])
qed

definition demo_budget_input :: budget_input where
  "demo_budget_input = \<lparr>bi_heapLimitBytes = 4000, bi_constrainedMemoryBytes = None, bi_rssBytes = Some 1000,
     bi_heapTotalBytes = Some 500, bi_availableMemoryBytes = Some 9000\<rparr>"

theorem memory_budget_partition_witness:
  "case deriveRuntimeMemoryBudget demo_budget_input of
     None \<Rightarrow> False
   | Some b \<Rightarrow> managed_heap b \<le> scale (min (mb_heapLimitBytes b) (mb_processLimitBytes b)) (58 / 100) \<and>
       mb_websocketIngressBytes b = 5125"
proof -
  have p: "process_limit demo_budget_input = 10000" "native_measured demo_budget_input"
    by (simp_all add: process_limit_def native_measured_def demo_budget_input_def nonneg_or_zero_def Let_def
        isSafeInteger_def)
  have f: "bi_heapLimitBytes demo_budget_input = 4000" "bi_rssBytes demo_budget_input = Some 1000"
    "bi_heapTotalBytes demo_budget_input = Some 500" "bi_availableMemoryBytes demo_budget_input = Some 9000"
    "nonneg_or_zero (Some 1000) = 1000" "nonneg_or_zero (Some 500) = 500"
    by (simp_all add: demo_budget_input_def nonneg_or_zero_def)
  have "map_option mb_websocketIngressBytes (deriveRuntimeMemoryBudget demo_budget_input) = Some 5125"
    unfolding deriveRuntimeMemoryBudget_def Let_def p f by (simp add: p scale_def)
  then obtain b where b: "deriveRuntimeMemoryBudget demo_budget_input = Some b" "mb_websocketIngressBytes b = 5125"
    by auto
  from memory_budget_partition [OF b(1)] b show ?thesis by (simp add: f)
qed

text \<open>
  The safe working capacity never exceeds what is there: it is non-negative, at most the
  configured share of the smaller of the heap headroom (after the emergency reserve) and the native
  headroom (after the host reserve), and zero when either is used up.
\<close>
theorem safe_capacity_bounded:
  assumes "0 \<le> nullish (sc_utilization inp) (7 / 10)"
  shows "let c = deriveSafeWorkingMemoryCapacity inp;
             heap = sc_heapLimitBytes inp - sc_heapUsedBytes inp - nullish (sc_emergencyReserveBytes inp) (128 * MIB);
             u = nullish (sc_utilization inp) (7 / 10)
         in 0 \<le> c \<and> of_int c \<le> of_int (max 0 heap) * u \<and>
            (if heap \<le> 0 then c = 0 else True) \<and>
            (if 0 \<le> sc_hostTotalMemoryBytes inp then of_int c \<le> of_int (max 0 (sc_availableMemoryBytes inp)) * u else True)"
proof -
  define u where "u = nullish (sc_utilization inp) (7 / 10)"
  define heap where "heap = sc_heapLimitBytes inp - sc_heapUsedBytes inp - nullish (sc_emergencyReserveBytes inp) (128 * MIB)"
  define cons where "cons = nullish (sc_constrainedMemoryBytes inp) 0"
  define lim where "lim = (isSafeInteger cons \<and> cons > 0)"
  define total where "total = (if lim then min (sc_hostTotalMemoryBytes inp) cons else sc_hostTotalMemoryBytes inp)"
  define propReserve where "propReserve = min (1024 * MIB) (scale total (5 / 100))"
  define reserve where "reserve = (if lim then propReserve else max (nullish (sc_hostReserveMinBytes inp) (384 * MIB)) propReserve)"
  define native where "native = max 0 (sc_availableMemoryBytes inp - reserve)"
  have c: "deriveSafeWorkingMemoryCapacity inp = max 0 (scale (min (max 0 heap) native) u)"
    by (simp only: deriveSafeWorkingMemoryCapacity_def Let_def u_def heap_def cons_def lim_def total_def
        propReserve_def reserve_def native_def)
  have u: "0 \<le> u" using assms by (simp add: u_def)
  have n0: "0 \<le> native" by (simp add: native_def)
  have le: "of_int (scale (min (max 0 heap) native) u) \<le> (of_int y * u :: rat)" if "min (max 0 heap) native \<le> y" for y
  proof -
    have "(of_int (scale (min (max 0 heap) native) u) :: rat) \<le> of_int (min (max 0 heap) native) * u"
      using n0 by (intro scale_bounds(2)) simp
    also have "\<dots> \<le> of_int y * u" using that u by (intro mult_right_mono) simp_all
    finally show ?thesis .
  qed
  have nn: "0 \<le> scale (min (max 0 heap) native) u" using n0 u by (simp add: scale_bounds)
  have "of_int (scale (min (max 0 heap) native) u) \<le> (of_int (max 0 heap) * u :: rat)" by (rule le) simp
  moreover have "scale (min (max 0 heap) native) u = 0" if "heap \<le> 0"
    using that n0 by (simp add: scale_def)
  moreover have "of_int (scale (min (max 0 heap) native) u) \<le> (of_int (max 0 (sc_availableMemoryBytes inp)) * u :: rat)"
    if "0 \<le> sc_hostTotalMemoryBytes inp"
  proof (rule le)
    have "0 \<le> total" using that by (simp add: total_def lim_def)
    then have "0 \<le> propReserve" by (simp add: propReserve_def scale_bounds MIB_def)
    then have "0 \<le> reserve" by (simp add: reserve_def max_def)
    then show "min (max 0 heap) native \<le> max 0 (sc_availableMemoryBytes inp)" by (simp add: native_def)
  qed
  ultimately show ?thesis using nn unfolding c Let_def u_def [symmetric] heap_def [symmetric] by simp
qed

definition demo_safe_input :: safe_capacity_input where
  "demo_safe_input = \<lparr>sc_heapLimitBytes = 100, sc_heapUsedBytes = 90, sc_availableMemoryBytes = 50,
     sc_hostTotalMemoryBytes = 1000, sc_constrainedMemoryBytes = None, sc_hostReserveMinBytes = None,
     sc_emergencyReserveBytes = None, sc_utilization = None\<rparr>"

theorem safe_capacity_bounded_witness: "deriveSafeWorkingMemoryCapacity demo_safe_input = 0"
proof -
  have u: "0 \<le> nullish (sc_utilization demo_safe_input) (7 / 10)" by (simp add: demo_safe_input_def)
  have h: "sc_heapLimitBytes demo_safe_input - sc_heapUsedBytes demo_safe_input -
      nullish (sc_emergencyReserveBytes demo_safe_input) (128 * MIB) \<le> 0"
    by (simp add: demo_safe_input_def MIB_def)
  from safe_capacity_bounded [OF u] show ?thesis unfolding Let_def if_P [OF h] by blast
qed

end
