(* ===== verification/Response_Work.thy ===== *)
theory Response_Work
  imports Memory_Coordinator
begin

text \<open>
  Admission of upstream response work (\<open>packages/core/src/runtime/response-work-admission.ts\<close>): the
  leases of response buffers, charged with JSON amplification, against their own capacity or against
  the process-wide coordinator. The coordinator's operations are an argument (\<open>resource_ops\<close>) and
  its state is threaded; the client lemmas hold for every \<open>memory_resource\<close>.
\<close>

subsection \<open>Owning leases of a shared resource\<close>

record 'c resource_ops =
  ro_acquire :: "'c \<Rightarrow> bytes \<Rightarrow> nat option \<times> 'c"
  ro_resize :: "'c \<Rightarrow> nat \<Rightarrow> bytes \<Rightarrow> bool \<times> 'c"
  ro_release :: "'c \<Rightarrow> nat \<Rightarrow> 'c"

text \<open>
  A client's ownership: which shared lease each of its leases holds, and how many bytes it stands
  for. It is backed when the resource holds exactly those leases, one per owner.
\<close>

context memory_resource
begin

definition backed :: "(nat \<rightharpoonup> nat \<times> bytes) \<Rightarrow> 'c \<Rightarrow> bool" where
  "backed own c \<longleftrightarrow> ok c \<and>
     (\<forall>k b. held c k = Some b \<longleftrightarrow> (\<exists>l n. own l = Some (k, n) \<and> b = normalizedBytes n)) \<and>
     (\<forall>l l' k n n'. own l = Some (k, n) \<longrightarrow> own l' = Some (k, n') \<longrightarrow> l = l')"

lemma backed_acquire:
  assumes b: "backed own c" and a: "acq c n = (Some k, c')" and l: "own l = None"
  shows "backed (own(l \<mapsto> (k, n))) c'"
proof -
  from b have "ok c" by (simp add: backed_def)
  from acq_granted [OF this a] have c': "ok c'" "held c k = None" "held c' = (held c)(k \<mapsto> normalizedBytes n)" by simp_all
  have free: "own l' \<noteq> Some (k, m)" for l' m
    using b c'(2) unfolding backed_def by (metis option.distinct(1))
  have "held c' j = Some x \<longleftrightarrow> (\<exists>i m. (own(l \<mapsto> (k, n))) i = Some (j, m) \<and> x = normalizedBytes m)" for j x
  proof (cases "j = k")
    case True
    with c' free l show ?thesis by auto
  next
    case False
    with c' have "held c' j = held c j" by simp
    with b have "held c' j = Some x \<longleftrightarrow> (\<exists>i m. own i = Some (j, m) \<and> x = normalizedBytes m)"
      unfolding backed_def by metis
    with False l show ?thesis by (auto simp: fun_upd_def) (metis option.distinct(1))
  qed
  moreover have "i = i'" if "(own(l \<mapsto> (k, n))) i = Some (j, m)" "(own(l \<mapsto> (k, n))) i' = Some (j, m')" for i i' j m m'
    using that b free unfolding backed_def by (auto split: if_splits)
  ultimately show ?thesis using c'(1) unfolding backed_def by blast
qed

lemma backed_resize:
  assumes b: "backed own c" and a: "resize c k n = (True, c')" and l: "own l = Some (k, m)"
  shows "backed (own(l \<mapsto> (k, n))) c'"
proof -
  from b have "ok c" by (simp add: backed_def)
  from resize_done [OF this a] have c': "ok c'" "held c' = (held c)(k \<mapsto> normalizedBytes n)" by simp_all
  have only: "l' = l" if "own l' = Some (k, m')" for l' m'
    using b l that unfolding backed_def by blast
  have "held c' j = Some x \<longleftrightarrow> (\<exists>i y. (own(l \<mapsto> (k, n))) i = Some (j, y) \<and> x = normalizedBytes y)" for j x
  proof (cases "j = k")
    case True
    with c' only show ?thesis by auto
  next
    case False
    with c' have "held c' j = held c j" by simp
    with b have "held c' j = Some x \<longleftrightarrow> (\<exists>i y. own i = Some (j, y) \<and> x = normalizedBytes y)"
      unfolding backed_def by metis
    with False l show ?thesis by (auto simp: fun_upd_def) (metis Pair_inject option.inject)
  qed
  moreover have "i = i'" if "(own(l \<mapsto> (k, n))) i = Some (j, y)" "(own(l \<mapsto> (k, n))) i' = Some (j, y')" for i i' j y y'
    using that b only unfolding backed_def by (auto split: if_splits)
  ultimately show ?thesis using c'(1) unfolding backed_def by blast
qed

lemma backed_release:
  assumes b: "backed own c" and l: "own l = Some (k, m)"
  shows "backed (own(l := None)) (rel c k)"
proof -
  from b have "ok c" by (simp add: backed_def)
  from released [OF this] have c': "ok (rel c k)" "held (rel c k) = (held c)(k := None)" by simp_all
  have only: "l' = l" if "own l' = Some (k, m')" for l' m'
    using b l that unfolding backed_def by blast
  have "held (rel c k) j = Some x \<longleftrightarrow> (\<exists>i y. (own(l := None)) i = Some (j, y) \<and> x = normalizedBytes y)" for j x
  proof (cases "j = k")
    case True
    with c' only show ?thesis by (auto split: if_splits)
  next
    case False
    with c' have "held (rel c k) j = held c j" by simp
    with b have "held (rel c k) j = Some x \<longleftrightarrow> (\<exists>i y. own i = Some (j, y) \<and> x = normalizedBytes y)"
      unfolding backed_def by metis
    with False l show ?thesis by (auto simp: fun_upd_def) (metis Pair_inject option.inject)
  qed
  moreover have "i = i'" if "(own(l := None)) i = Some (j, y)" "(own(l := None)) i' = Some (j, y')" for i i' j y y'
    using that b unfolding backed_def by (auto split: if_splits)
  ultimately show ?thesis using c'(1) unfolding backed_def by blast
qed

lemma backed_empty: "backed Map.empty c \<longleftrightarrow> ok c \<and> held c = Map.empty"
  unfolding backed_def by (auto simp: fun_eq_iff)

lemma backed_ok: "backed own c \<Longrightarrow> ok c"
  by (simp add: backed_def)

end

subsection \<open>Response work\<close>

record rw_config =
  rw_configured :: bytes
  rw_jsonAmplification :: rat
  rw_minCharge :: bytes

record rw_lease =
  rwl_held :: bytes
  rwl_released :: bool
  rwl_shared :: "nat option"

record response_work =
  rw_reserved :: bytes
  rw_leases :: "nat \<rightharpoonup> rw_lease"
  rw_fresh :: nat
  rw_dynamic :: "bytes option"

definition rw_init :: response_work where
  "rw_init = \<lparr>rw_reserved = 0, rw_leases = Map.empty, rw_fresh = 0, rw_dynamic = None\<rparr>"

definition rw_capacity :: "rw_config \<Rightarrow> response_work \<Rightarrow> bytes" where
  "rw_capacity cfg s = max 0 (nullish (rw_dynamic s) (max 1 (rw_configured cfg)))"

definition rw_charge :: "rw_config \<Rightarrow> bytes \<Rightarrow> bytes" where
  "rw_charge cfg wire = max (max 1 (rw_minCharge cfg)) \<lceil>of_int (max 0 wire) * rw_jsonAmplification cfg\<rceil>"

definition rw_add_lease :: "bytes \<Rightarrow> nat option \<Rightarrow> response_work \<Rightarrow> nat \<times> response_work" where
  "rw_add_lease charge shared s =
     (rw_fresh s, s\<lparr>rw_reserved := rw_reserved s + charge,
        rw_leases := (rw_leases s)(rw_fresh s \<mapsto> \<lparr>rwl_held = charge, rwl_released = False, rwl_shared = shared\<rparr>),
        rw_fresh := Suc (rw_fresh s)\<rparr>)"

definition rw_acquire :: "'c resource_ops option \<Rightarrow> rw_config \<Rightarrow> bytes \<Rightarrow> response_work \<times> 'c \<Rightarrow>
    nat option \<times> (response_work \<times> 'c)" where
  "rw_acquire ops cfg wire = (\<lambda>(s, c).
     let charge = rw_charge cfg wire in
     (case ops of
       Some r \<Rightarrow>
         (case ro_acquire r c charge of
            (None, c') \<Rightarrow> (None, (s, c'))
          | (Some k, c') \<Rightarrow> let (l, s') = rw_add_lease charge (Some k) s in (Some l, (s', c')))
     | None \<Rightarrow>
         if rw_reserved s + charge > rw_capacity cfg s then (None, (s, c))
         else let (l, s') = rw_add_lease charge None s in (Some l, (s', c))))"

definition rw_set_held :: "nat \<Rightarrow> rw_lease \<Rightarrow> bytes \<Rightarrow> response_work \<Rightarrow> response_work" where
  "rw_set_held l x nx s =
     s\<lparr>rw_reserved := rw_reserved s + (nx - rwl_held x), rw_leases := (rw_leases s)(l \<mapsto> x\<lparr>rwl_held := nx\<rparr>)\<rparr>"

definition rw_resize :: "'c resource_ops option \<Rightarrow> rw_config \<Rightarrow> nat \<Rightarrow> bytes \<Rightarrow> response_work \<times> 'c \<Rightarrow>
    bool \<times> (response_work \<times> 'c)" where
  "rw_resize ops cfg l nextWire = (\<lambda>(s, c).
     (case rw_leases s l of
       None \<Rightarrow> (False, (s, c))
     | Some x \<Rightarrow>
         if rwl_released x then (False, (s, c))
         else
           let nx = rw_charge cfg nextWire in
           (case (ops, rwl_shared x) of
             (Some r, Some k) \<Rightarrow>
               (case ro_resize r c k nx of
                  (False, c') \<Rightarrow> (False, (s, c'))
                | (True, c') \<Rightarrow> (True, (rw_set_held l x nx s, c')))
           | _ \<Rightarrow>
               if nx > rwl_held x \<and> rw_reserved s - rwl_held x + nx > rw_capacity cfg s then (False, (s, c))
               else (True, (rw_set_held l x nx s, c)))))"

definition rw_release :: "'c resource_ops option \<Rightarrow> nat \<Rightarrow> response_work \<times> 'c \<Rightarrow> response_work \<times> 'c" where
  "rw_release ops l = (\<lambda>(s, c).
     case rw_leases s l of
       None \<Rightarrow> (s, c)
     | Some x \<Rightarrow>
         if rwl_released x then (s, c)
         else
           (s\<lparr>rw_leases := (rw_leases s)(l \<mapsto> x\<lparr>rwl_released := True, rwl_shared := None\<rparr>),
              rw_reserved := rw_reserved s - rwl_held x\<rparr>,
            case (ops, rwl_shared x) of (Some r, Some k) \<Rightarrow> ro_release r c k | _ \<Rightarrow> c))"

text \<open>State kept across frames: \<open>retain\<close> throws (\<open>False\<close>) when the capacity is exhausted.\<close>

record retained =
  rt_lease :: "nat option"
  rt_bytes :: bytes

definition rt_init :: retained where
  "rt_init = \<lparr>rt_lease = None, rt_bytes = 0\<rparr>"

definition rt_retain :: "'c resource_ops option \<Rightarrow> rw_config \<Rightarrow> bytes \<Rightarrow> retained \<times> (response_work \<times> 'c) \<Rightarrow>
    bool \<times> (retained \<times> (response_work \<times> 'c))" where
  "rt_retain ops cfg additional = (\<lambda>(t, sc).
     let nx = max 0 (rt_bytes t + additional) in
     if nx = rt_bytes t then (True, (t, sc))
     else
       (case rt_lease t of
         None \<Rightarrow>
           (case rw_acquire ops cfg nx sc of
              (None, sc') \<Rightarrow> (False, (t, sc'))
            | (Some l, sc') \<Rightarrow> (True, (t\<lparr>rt_lease := Some l, rt_bytes := nx\<rparr>, sc')))
       | Some l \<Rightarrow>
           (case rw_resize ops cfg l nx sc of
              (False, sc') \<Rightarrow> (False, (t, sc'))
            | (True, sc') \<Rightarrow> (True, (t\<lparr>rt_bytes := nx\<rparr>, sc')))))"

definition rt_release :: "'c resource_ops option \<Rightarrow> retained \<times> (response_work \<times> 'c) \<Rightarrow> retained \<times> (response_work \<times> 'c)" where
  "rt_release ops = (\<lambda>(t, sc). (t, case rt_lease t of None \<Rightarrow> sc | Some l \<Rightarrow> rw_release ops l sc))"

subsection \<open>The ledger\<close>

definition rw_live :: "rw_lease \<Rightarrow> bytes" where
  "rw_live x = (if rwl_released x then 0 else rwl_held x)"

definition rw_inv :: "response_work \<Rightarrow> bool" where
  "rw_inv s \<longleftrightarrow>
     finite (dom (rw_leases s)) \<and> (\<forall>l x. rw_leases s l = Some x \<longrightarrow> l < rw_fresh s \<and> 1 \<le> rwl_held x) \<and>
     rw_reserved s = map_total rw_live (rw_leases s)"

lemma rw_charge_pos [simp]: "1 \<le> rw_charge cfg w"
  by (simp add: rw_charge_def)

lemma rw_fresh_lease: "rw_inv s \<Longrightarrow> rw_leases s (rw_fresh s) = None"
  unfolding rw_inv_def by (metis less_irrefl not_None_eq)

lemma rw_add_inv: "rw_inv s \<Longrightarrow> 1 \<le> n \<Longrightarrow> rw_inv (snd (rw_add_lease n k s))"
  using rw_fresh_lease [of s]
  by (auto simp: rw_add_lease_def rw_inv_def map_total_update less_Suc_eq rw_live_def)

lemma rw_set_inv:
  "rw_inv s \<Longrightarrow> rw_leases s l = Some x \<Longrightarrow> \<not> rwl_released x \<Longrightarrow> 1 \<le> n \<Longrightarrow> rw_inv (rw_set_held l x n s)"
  by (auto simp: rw_set_held_def rw_inv_def map_total_update rw_live_def)

lemma rw_acquire_inv [helm_inv]:
  "rw_inv (fst sc) \<Longrightarrow> rw_inv (fst (snd (rw_acquire ops cfg w sc)))"
  using rw_add_inv [of "fst sc" "rw_charge cfg w"]
  by (auto simp: rw_acquire_def Let_def rw_add_lease_def split: prod.split option.split)

lemma rw_resize_inv [helm_inv]:
  "rw_inv (fst sc) \<Longrightarrow> rw_inv (fst (snd (rw_resize ops cfg l w sc)))"
  by (auto simp: rw_resize_def Let_def intro: rw_set_inv split: prod.split option.split bool.split)

lemma rw_release_inv [helm_inv]: "rw_inv (fst sc) \<Longrightarrow> rw_inv (fst (rw_release ops l sc))"
  by (auto simp: rw_release_def rw_inv_def map_total_update rw_live_def split: prod.split option.split)

subsection \<open>Backed by a shared resource\<close>

definition rw_own :: "response_work \<Rightarrow> nat \<rightharpoonup> nat \<times> bytes" where
  "rw_own s l =
     (case rw_leases s l of
        None \<Rightarrow> None
      | Some x \<Rightarrow> if rwl_released x then None else map_option (\<lambda>k. (k, rwl_held x)) (rwl_shared x))"

definition rw_all_shared :: "response_work \<Rightarrow> bool" where
  "rw_all_shared s \<longleftrightarrow> (\<forall>l x. rw_leases s l = Some x \<longrightarrow> \<not> rwl_released x \<longrightarrow> rwl_shared x \<noteq> None)"

lemma rw_own_add:
  "rw_own (snd (rw_add_lease n (Some k) s)) = (rw_own s)(rw_fresh s \<mapsto> (k, n))"
  by (auto simp: rw_own_def rw_add_lease_def fun_eq_iff)

lemma rw_own_set:
  "rw_leases s l = Some x \<Longrightarrow> \<not> rwl_released x \<Longrightarrow> rwl_shared x = Some k \<Longrightarrow>
   rw_own (rw_set_held l x n s) = (rw_own s)(l \<mapsto> (k, n))"
  by (auto simp: rw_own_def rw_set_held_def fun_eq_iff)

context memory_resource
begin

definition ops :: "'c resource_ops" where
  "ops = \<lparr>ro_acquire = acq, ro_resize = resize, ro_release = rel\<rparr>"

definition rw_backed :: "response_work \<times> 'c \<Rightarrow> bool" where
  "rw_backed sc \<longleftrightarrow> rw_inv (fst sc) \<and> rw_all_shared (fst sc) \<and> backed (rw_own (fst sc)) (snd sc)"

lemma rw_acquire_backed: "rw_backed sc \<Longrightarrow> rw_backed (snd (rw_acquire (Some ops) cfg w sc))"
proof (cases sc)
  case (Pair s c)
  assume b: "rw_backed sc"
  obtain g c' where a: "acq c (rw_charge cfg w) = (g, c')" by force
  show ?thesis
  proof (cases g)
    case None
    with a have "c' = c" using acq_refused by blast
    with a b None Pair show ?thesis by (simp add: rw_acquire_def ops_def)
  next
    case (Some k)
    let ?s' = "snd (rw_add_lease (rw_charge cfg w) (Some k) s)"
    from b Pair have inv: "rw_inv s" "rw_all_shared s" "backed (rw_own s) c" by (auto simp: rw_backed_def)
    have "snd (rw_acquire (Some ops) cfg w sc) = (?s', c')"
      using Some a Pair by (simp add: rw_acquire_def ops_def rw_add_lease_def Let_def)
    moreover have "rw_own s (rw_fresh s) = None"
      using rw_fresh_lease [OF inv(1)] by (simp add: rw_own_def)
    then have "backed (rw_own ?s') c'"
      using backed_acquire [OF inv(3)] a Some by (simp add: rw_own_add)
    moreover have "rw_all_shared ?s'" using inv(2) by (simp add: rw_all_shared_def rw_add_lease_def)
    ultimately show ?thesis using inv(1) by (simp add: rw_backed_def rw_add_inv)
  qed
qed

lemma rw_resize_backed: "rw_backed sc \<Longrightarrow> rw_backed (snd (rw_resize (Some ops) cfg l w sc))"
proof (cases sc)
  case (Pair s c)
  assume b: "rw_backed sc"
  show ?thesis
  proof (cases "\<exists>x. rw_leases s l = Some x \<and> \<not> rwl_released x")
    case False
    with b Pair show ?thesis by (auto simp: rw_resize_def split: option.split)
  next
    case True
    then obtain x where x: "rw_leases s l = Some x" "\<not> rwl_released x" by blast
    from b Pair have inv: "rw_inv s" "rw_all_shared s" "backed (rw_own s) c" by (auto simp: rw_backed_def)
    from inv(2) x obtain k where k: "rwl_shared x = Some k" unfolding rw_all_shared_def by blast
    obtain g c' where a: "resize c k (rw_charge cfg w) = (g, c')" by force
    show ?thesis
    proof (cases g)
      case False
      with a have "c' = c" by (intro resize_refused) simp
      with a b False Pair x k show ?thesis by (simp add: rw_resize_def ops_def)
    next
      case True
      let ?s' = "rw_set_held l x (rw_charge cfg w) s"
      have "snd (rw_resize (Some ops) cfg l w sc) = (?s', c')"
        using True a Pair x k by (simp add: rw_resize_def ops_def)
      moreover have "rw_own s l = Some (k, rwl_held x)" using x k by (simp add: rw_own_def)
      then have "backed (rw_own ?s') c'"
        using backed_resize [OF inv(3)] a True x k by (simp add: rw_own_set)
      moreover have "rw_all_shared ?s'" using inv(2) x k by (simp add: rw_all_shared_def rw_set_held_def)
      ultimately show ?thesis using inv(1) x by (simp add: rw_backed_def rw_set_inv)
    qed
  qed
qed

lemma rw_release_backed: "rw_backed sc \<Longrightarrow> rw_backed (rw_release (Some ops) l sc)"
proof (cases sc)
  case (Pair s c)
  assume b: "rw_backed sc"
  show ?thesis
  proof (cases "\<exists>x. rw_leases s l = Some x \<and> \<not> rwl_released x")
    case False
    with b Pair show ?thesis by (auto simp: rw_release_def split: option.split)
  next
    case True
    then obtain x where x: "rw_leases s l = Some x" "\<not> rwl_released x" by blast
    from b Pair have inv: "rw_inv s" "rw_all_shared s" "backed (rw_own s) c" by (auto simp: rw_backed_def)
    from inv(2) x obtain k where k: "rwl_shared x = Some k" unfolding rw_all_shared_def by blast
    let ?s' = "fst (rw_release (Some ops) l sc)"
    have own: "rw_own ?s' = (rw_own s)(l := None)"
      using Pair x by (auto simp: rw_release_def rw_own_def fun_eq_iff)
    have "rw_own s l = Some (k, rwl_held x)" using x k by (simp add: rw_own_def)
    from backed_release [OF inv(3) this] own have "backed (rw_own ?s') (rel c k)" by simp
    moreover have "snd (rw_release (Some ops) l sc) = rel c k"
      using Pair x k by (simp add: rw_release_def ops_def)
    moreover have "rw_all_shared ?s'" using inv(2) Pair x by (simp add: rw_release_def rw_all_shared_def)
    ultimately show ?thesis using rw_release_inv [of sc] inv(1) Pair by (simp add: rw_backed_def)
  qed
qed

end

subsection \<open>Response work on the process coordinator\<close>

datatype rw_event = Rw_acquire bytes | Rw_resize nat bytes | Rw_release nat | Rw_capacity int

fun rw_step :: "rw_config \<Rightarrow> response_work \<times> coordinator \<Rightarrow> rw_event \<Rightarrow> response_work \<times> coordinator" where
  "rw_step cfg sc (Rw_acquire w) = snd (rw_acquire (Some coordinated.ops) cfg w sc)"
| "rw_step cfg sc (Rw_resize l w) = snd (rw_resize (Some coordinated.ops) cfg l w sc)"
| "rw_step cfg sc (Rw_release l) = rw_release (Some coordinated.ops) l sc"
| "rw_step cfg sc (Rw_capacity n) = (fst sc, (snd sc)\<lparr>mc_rawCapacity := n\<rparr>)"

lemma mc_held_capacity [simp]: "mc_held (c\<lparr>mc_rawCapacity := n\<rparr>) = mc_held c" "mc_inv (c\<lparr>mc_rawCapacity := n\<rparr>) = mc_inv c"
  by (simp_all add: mc_held_def mc_inv_def fun_eq_iff)

interpretation rw_steps: guarded_steps "rw_step cfg" coordinated.rw_backed "\<lambda>_. True" for cfg
proof
  fix sc e
  assume "coordinated.rw_backed sc"
  then show "coordinated.rw_backed (rw_step cfg sc e)"
    by (cases e) (simp_all add: coordinated.rw_acquire_backed coordinated.rw_resize_backed
        coordinated.rw_release_backed, simp add: coordinated.rw_backed_def coordinated.backed_def)
qed

lemma rw_start: "coordinated.rw_backed (rw_init, createRuntimeMemoryCoordinator raw)"
  by (auto simp: coordinated.rw_backed_def rw_inv_def rw_init_def rw_all_shared_def rw_own_def coordinated.backed_def
      mc_held_def createRuntimeMemoryCoordinator_def mc_inv_def)

lemma mc_no_leases:
  assumes "mc_inv c" and "mc_held c = Map.empty"
  shows "mc_reserved c = 0"
proof -
  have "ml_released x" if "mc_leases c l = Some x" for l x
    using fun_cong [OF assms(2), of l] that by (simp add: mc_held_def split: if_splits)
  then have "map_total live_bytes (mc_leases c) = 0"
    by (auto simp: map_total_def live_bytes_def dom_def intro!: sum.neutral)
  with assms(1) show ?thesis by (simp add: mc_inv_def)
qed

text \<open>
  C32. Response work leaks nothing: after any history over the process coordinator, its reserved bytes
  are the sum of its unreleased leases; the coordinator holds exactly one lease per unreleased lease,
  of its normalized charge; and once every lease is released both ledgers are back to zero.
\<close>
theorem response_work_leaks_nothing:
  assumes "(s, c) = foldl (rw_step cfg) (rw_init, createRuntimeMemoryCoordinator raw) es"
  shows "rw_reserved s = map_total rw_live (rw_leases s) \<and>
    (mc_held c k = Some b \<longleftrightarrow> (\<exists>l n. rw_own s l = Some (k, n) \<and> b = normalizedBytes n)) \<and>
    (if rw_own s = Map.empty then rw_reserved s = 0 \<and> mc_reserved c = 0 else 1 \<le> rw_reserved s)"
proof -
  have "coordinated.rw_backed (s, c)"
    unfolding assms by (rule rw_steps.run_keeps [OF rw_start]) (simp add: list_all_iff)
  then have inv: "rw_inv s" "rw_all_shared s" "coordinated.backed (rw_own s) c"
    by (simp_all add: coordinated.rw_backed_def)
  then have res: "rw_reserved s = map_total rw_live (rw_leases s)" by (simp add: rw_inv_def)
  have "rw_reserved s = 0 \<and> mc_reserved c = 0" if empty: "rw_own s = Map.empty"
  proof
    have "rwl_released x" if "rw_leases s l = Some x" for l x
    proof (rule ccontr)
      assume n: "\<not> rwl_released x"
      with inv(2) that obtain j where "rwl_shared x = Some j" unfolding rw_all_shared_def by blast
      with that n fun_cong [OF empty, of l] show False by (simp add: rw_own_def)
    qed
    then have "map_total rw_live (rw_leases s) = 0"
      by (auto simp: map_total_def rw_live_def dom_def intro!: sum.neutral)
    with res show "rw_reserved s = 0" by simp
    from inv(3) empty have "mc_inv c" "mc_held c = Map.empty" by (simp_all add: coordinated.backed_empty)
    then show "mc_reserved c = 0" by (rule mc_no_leases)
  qed
  moreover have "1 \<le> rw_reserved s" if some: "rw_own s \<noteq> Map.empty"
  proof -
    from some obtain l y where "rw_own s l = Some y" by (metis not_None_eq)
    then obtain x where x: "rw_leases s l = Some x" "\<not> rwl_released x"
      by (auto simp: rw_own_def split: option.splits if_splits)
    have "at_key rw_live (rw_leases s) l \<le> map_total rw_live (rw_leases s)"
      using inv(1) by (intro at_key_le_total) (auto simp: rw_inv_def rw_live_def intro: order_trans [OF zero_le_one])
    with x inv(1) res show ?thesis by (force simp: rw_inv_def rw_live_def)
  qed
  moreover have "mc_held c k = Some b \<longleftrightarrow> (\<exists>l n. rw_own s l = Some (k, n) \<and> b = normalizedBytes n)"
    using inv(3) unfolding coordinated.backed_def by blast
  ultimately show ?thesis using res by simp
qed

definition demo_rw :: rw_config where
  "demo_rw = \<lparr>rw_configured = 100, rw_jsonAmplification = 6, rw_minCharge = 1\<rparr>"

theorem response_work_leaks_nothing_witness:
  "let (s, c) = foldl (rw_step demo_rw) (rw_init, createRuntimeMemoryCoordinator 100) [Rw_acquire 10, Rw_acquire 10, Rw_release 0]
   in rw_reserved s = 0 \<and> mc_reserved c = 0"
proof -
  obtain s c where sc: "(s, c) = foldl (rw_step demo_rw) (rw_init, createRuntimeMemoryCoordinator 100)
      [Rw_acquire 10, Rw_acquire 10, Rw_release 0]" by (metis surj_pair)
  have "rw_charge demo_rw 10 = 60" by (simp add: rw_charge_def demo_rw_def)
  with sc have own: "rw_own s = Map.empty"
    by (auto simp: coordinated.ops_def rw_acquire_def rw_release_def Let_def mc_try_def mc_acquire_def rw_add_lease_def
        rw_init_def createRuntimeMemoryCoordinator_def mc_capacity_def normalizedBytes_def isSafeInteger_def
        MAX_SAFE_INTEGER_def rw_own_def)
  have "rw_reserved s = 0 \<and> mc_reserved c = 0"
    using response_work_leaks_nothing [OF sc, unfolded if_P [OF own]] by blast
  then show ?thesis unfolding sc [symmetric] by simp
qed

end
