(* ===== verification/Body_Admission.thy ===== *)
theory Body_Admission
  imports Response_Work "HOL-Library.Word"
begin

text \<open>
  Request-body memory admission (\<open>apps/gateway/src/runtime/memory-admission.ts\<close>): the leases of
  pending request bodies, the maintenance pause that blocks new ones while the others drain, and the
  admitted read of one body. \<open>ba_waiting\<close> are the callers of \<open>waitForIdle\<close> still suspended, \<open>ba_idle\<close>
  those already resolved.
\<close>

subsection \<open>State\<close>

datatype admission_cause = Cause_paused | Cause_capacity

record admission_snapshot =
  as_cause :: admission_cause
  as_wireBytes :: bytes
  as_requestedChargeBytes :: bytes
  as_activeReservedBytes :: bytes
  as_pendingBytes :: bytes

datatype admission_code = Database_maintenance | Server_overloaded

record admission_error =
  ae_status :: int
  ae_code :: admission_code
  ae_admission :: "admission_snapshot option"

record ba_config =
  ba_activeRequestBytes :: bytes
  ba_jsonAmplification :: rat
  ba_minRequestChargeBytes :: "bytes option"

record ba_lease =
  bal_current :: bytes
  bal_released :: bool
  bal_materialized :: bool
  bal_shared :: "nat option"

record body_admission =
  ba_reserved :: bytes
  ba_pending :: bytes
  ba_paused :: bool
  ba_leases :: "nat \<rightharpoonup> ba_lease"
  ba_fresh :: nat
  ba_waiting :: "nat list"
  ba_idle :: "nat list"
  ba_dynamic :: "bytes option"

definition ba_init :: body_admission where
  "ba_init = \<lparr>ba_reserved = 0, ba_pending = 0, ba_paused = False, ba_leases = Map.empty, ba_fresh = 0,
     ba_waiting = [], ba_idle = [], ba_dynamic = None\<rparr>"

subsection \<open>Operations\<close>

definition resolveIdle :: "body_admission \<Rightarrow> body_admission" where
  "resolveIdle s =
     (if ba_reserved s \<noteq> 0 then s
      else s\<lparr>ba_idle := ba_idle s @ ba_waiting s, ba_waiting := []\<rparr>)"

definition ba_min_charge :: "ba_config \<Rightarrow> bytes" where
  "ba_min_charge cfg = nullish (ba_minRequestChargeBytes cfg) (max 1 (scale (ba_activeRequestBytes cfg) (1 / 100)))"

definition ba_charge :: "ba_config \<Rightarrow> bytes \<Rightarrow> bytes" where
  "ba_charge cfg wire = max (ba_min_charge cfg) \<lceil>of_int (max 0 wire) * ba_jsonAmplification cfg\<rceil>"

definition ba_capacity :: "body_admission \<Rightarrow> bytes" where
  "ba_capacity s = max 0 (nullish (ba_dynamic s) MAX_SAFE_INTEGER)"

definition rejection :: "body_admission \<Rightarrow> admission_cause \<Rightarrow> bytes \<Rightarrow> bytes \<Rightarrow> admission_snapshot" where
  "rejection s cause wire charge =
     \<lparr>as_cause = cause, as_wireBytes = wire, as_requestedChargeBytes = charge,
      as_activeReservedBytes = ba_reserved s, as_pendingBytes = ba_pending s\<rparr>"

definition ba_add_lease :: "bytes \<Rightarrow> nat option \<Rightarrow> body_admission \<Rightarrow> nat \<times> body_admission" where
  "ba_add_lease charge shared s =
     (ba_fresh s, s\<lparr>ba_reserved := ba_reserved s + charge, ba_pending := ba_pending s + charge,
        ba_leases := (ba_leases s)(ba_fresh s \<mapsto>
          \<lparr>bal_current = charge, bal_released = False, bal_materialized = False, bal_shared = shared\<rparr>),
        ba_fresh := Suc (ba_fresh s)\<rparr>)"

definition ba_acquire :: "'c resource_ops option \<Rightarrow> ba_config \<Rightarrow> bytes \<Rightarrow> body_admission \<times> 'c \<Rightarrow>
    (admission_snapshot + nat) \<times> (body_admission \<times> 'c)" where
  "ba_acquire ops cfg wire = (\<lambda>(s, c).
     let charge = ba_charge cfg wire in
     if ba_paused s then (Inl (rejection s Cause_paused wire charge), (s, c))
     else
       (case ops of
          Some r \<Rightarrow>
            (case ro_acquire r c charge of
               (None, c') \<Rightarrow> (Inl (rejection s Cause_capacity wire charge), (s, c'))
             | (Some k, c') \<Rightarrow> let (l, s') = ba_add_lease charge (Some k) s in (Inr l, (s', c')))
        | None \<Rightarrow>
            if ba_pending s + charge > ba_capacity s
            then (Inl (rejection s Cause_capacity wire charge), (s, c))
            else let (l, s') = ba_add_lease charge None s in (Inr l, (s', c))))"

definition ba_set_current :: "nat \<Rightarrow> ba_lease \<Rightarrow> bytes \<Rightarrow> body_admission \<Rightarrow> body_admission" where
  "ba_set_current l x nx s =
     s\<lparr>ba_reserved := ba_reserved s + (nx - bal_current x), ba_pending := ba_pending s + (nx - bal_current x),
       ba_leases := (ba_leases s)(l \<mapsto> x\<lparr>bal_current := nx\<rparr>)\<rparr>"

definition ba_resize :: "'c resource_ops option \<Rightarrow> ba_config \<Rightarrow> nat \<Rightarrow> bytes \<Rightarrow> body_admission \<times> 'c \<Rightarrow>
    (admission_snapshot + unit) \<times> (body_admission \<times> 'c)" where
  "ba_resize ops cfg l nextWire = (\<lambda>(s, c).
     (case ba_leases s l of
        None \<Rightarrow> (Inr (), (s, c))
      | Some x \<Rightarrow>
          if bal_released x \<or> bal_materialized x then (Inr (), (s, c))
          else
            let nx = ba_charge cfg nextWire in
            (case (ops, bal_shared x) of
               (Some r, Some k) \<Rightarrow>
                 (case ro_resize r c k nx of
                    (False, c') \<Rightarrow> (Inl (rejection s Cause_capacity nextWire nx), (s, c'))
                  | (True, c') \<Rightarrow> (Inr (), (ba_set_current l x nx s, c')))
             | _ \<Rightarrow>
                 if nx > bal_current x \<and> ba_pending s - bal_current x + nx > ba_capacity s
                 then (Inl (rejection s Cause_capacity nextWire nx), (s, c))
                 else (Inr (), (ba_set_current l x nx s, c)))))"

definition ba_materialize :: "nat \<Rightarrow> body_admission \<times> 'c \<Rightarrow> body_admission \<times> 'c" where
  "ba_materialize l = (\<lambda>(s, c).
     (case ba_leases s l of
        None \<Rightarrow> (s, c)
      | Some x \<Rightarrow>
          if bal_released x \<or> bal_materialized x then (s, c)
          else (s\<lparr>ba_leases := (ba_leases s)(l \<mapsto> x\<lparr>bal_materialized := True\<rparr>),
                  ba_pending := ba_pending s - bal_current x\<rparr>, c)))"

definition ba_release :: "'c resource_ops option \<Rightarrow> nat \<Rightarrow> body_admission \<times> 'c \<Rightarrow> body_admission \<times> 'c" where
  "ba_release ops l = (\<lambda>(s, c).
     (case ba_leases s l of
        None \<Rightarrow> (s, c)
      | Some x \<Rightarrow>
          if bal_released x then (s, c)
          else
            (resolveIdle
               (s\<lparr>ba_leases := (ba_leases s)(l \<mapsto> x\<lparr>bal_released := True, bal_shared := None\<rparr>),
                  ba_reserved := ba_reserved s - bal_current x,
                  ba_pending := (if bal_materialized x then ba_pending s else ba_pending s - bal_current x)\<rparr>),
             case (ops, bal_shared x) of (Some r, Some k) \<Rightarrow> ro_release r c k | _ \<Rightarrow> c)))"

definition ba_pause :: "body_admission \<Rightarrow> body_admission" where
  "ba_pause s = s\<lparr>ba_paused := True\<rparr>"

definition ba_resume :: "body_admission \<Rightarrow> body_admission" where
  "ba_resume s = s\<lparr>ba_paused := False\<rparr>"

definition waitForIdle :: "nat \<Rightarrow> body_admission \<Rightarrow> body_admission" where
  "waitForIdle w s =
     (if ba_reserved s = 0 then s\<lparr>ba_idle := ba_idle s @ [w]\<rparr> else s\<lparr>ba_waiting := ba_waiting s @ [w]\<rparr>)"

definition requestAdmissionError :: "admission_snapshot option \<Rightarrow> admission_error" where
  "requestAdmissionError admission =
     (if (case admission of None \<Rightarrow> False | Some a \<Rightarrow> as_cause a = Cause_capacity)
      then \<lparr>ae_status = 503, ae_code = Server_overloaded, ae_admission = admission\<rparr>
      else \<lparr>ae_status = 503, ae_code = Database_maintenance, ae_admission = admission\<rparr>)"

subsection \<open>Reading an admitted body\<close>

text \<open>
  What the stream delivers: chunks of bytes, then its end, or a failure (an abort or a read error),
  written \<open>None\<close>. \<open>junk\<close> is what \<open>Buffer.allocUnsafe\<close> happens to hold. The read keeps either one
  buffer of the declared length that it fills in place, or the list of the chunks.
\<close>

type_synonym octets = "8 word list"

datatype read_failure = Refused_admission admission_error | Read_failed

record body_read =
  br_bodyBuffer :: "octets option"
  br_chunks :: "octets list"
  br_bytes :: nat

definition buffer_set :: "octets \<Rightarrow> octets \<Rightarrow> nat \<Rightarrow> octets" where
  "buffer_set buf xs off = take off buf @ xs @ drop (off + length xs) buf"

definition buffer_concat :: "octets list \<Rightarrow> nat \<Rightarrow> octets" where
  "buffer_concat list totalLength = take totalLength (concat list @ replicate totalLength 0)"

definition store_chunk :: "octets \<Rightarrow> body_read \<Rightarrow> body_read" where
  "store_chunk xs r =
     (let bytes = br_bytes r + length xs in
      case br_bodyBuffer r of
        Some buf \<Rightarrow>
          if bytes \<le> length buf
          then r\<lparr>br_bodyBuffer := Some (buffer_set buf xs (bytes - length xs)), br_bytes := bytes\<rparr>
          else r\<lparr>br_bodyBuffer := None, br_chunks := br_chunks r @ [take (bytes - length xs) buf] @ [xs], br_bytes := bytes\<rparr>
      | None \<Rightarrow> r\<lparr>br_chunks := br_chunks r @ [xs], br_bytes := bytes\<rparr>)"

fun read_loop :: "'c resource_ops option \<Rightarrow> ba_config \<Rightarrow> nat \<Rightarrow> octets option list \<Rightarrow> body_read \<Rightarrow> body_admission \<times> 'c \<Rightarrow>
    (read_failure + body_read) \<times> (body_admission \<times> 'c)" where
  "read_loop ops cfg l [] r sc = (Inr r, sc)"
| "read_loop ops cfg l (None # chunks) r sc = (Inl Read_failed, sc)"
| "read_loop ops cfg l (Some xs # chunks) r sc =
     (case ba_resize ops cfg l (int (br_bytes r + length xs)) sc of
        (Inl a, sc') \<Rightarrow> (Inl (Refused_admission (requestAdmissionError (Some a))), sc')
      | (Inr _, sc') \<Rightarrow> read_loop ops cfg l chunks (store_chunk xs r) sc')"

definition assemble :: "body_read \<Rightarrow> octets" where
  "assemble r =
     (case br_bodyBuffer r of
        None \<Rightarrow> buffer_concat (br_chunks r) (br_bytes r)
      | Some buf \<Rightarrow> if br_bytes r = length buf then buf else take (br_bytes r) buf)"

text \<open>
  \<open>declared\<close> is the content length read as a number, \<open>None\<close> when it is not finite; \<open>encoded\<close> whether a
  transfer encoding is set.
\<close>

definition declared_buffer :: "bytes option \<Rightarrow> bytes \<Rightarrow> octets \<Rightarrow> octets option" where
  "declared_buffer declared directLimit junk =
     (case declared of
        None \<Rightarrow> None
      | Some n \<Rightarrow>
          if n \<le> MAX_SAFE_INTEGER \<and> 0 \<le> n \<and> n \<le> directLimit
          then Some (take (nat n) (junk @ replicate (nat n) 0)) else None)"

definition readAdmittedRequestBody :: "'c resource_ops option \<Rightarrow> ba_config \<Rightarrow> bytes \<Rightarrow> octets \<Rightarrow> bytes option \<Rightarrow> bool \<Rightarrow>
    octets option list \<Rightarrow> body_admission \<times> 'c \<Rightarrow> (read_failure + nat \<times> octets) \<times> (body_admission \<times> 'c)" where
  "readAdmittedRequestBody ops cfg directLimit junk declared encoded chunks sc =
     (let initialBytes = (if encoded then 0 else case declared of None \<Rightarrow> 0 | Some n \<Rightarrow> if n < 0 then 0 else n) in
      case ba_acquire ops cfg initialBytes sc of
        (Inl a, sc1) \<Rightarrow> (Inl (Refused_admission (requestAdmissionError (Some a))), sc1)
      | (Inr l, sc1) \<Rightarrow>
          (case read_loop ops cfg l chunks
             \<lparr>br_bodyBuffer = declared_buffer declared directLimit junk, br_chunks = [], br_bytes = 0\<rparr> sc1 of
             (Inl e, sc2) \<Rightarrow> (Inl e, ba_release ops l sc2)
           | (Inr r, sc2) \<Rightarrow>
               (case ba_resize ops cfg l (int (br_bytes r)) sc2 of
                  (Inl a, sc3) \<Rightarrow> (Inl (Refused_admission (requestAdmissionError (Some a))), ba_release ops l sc3)
                | (Inr _, sc3) \<Rightarrow> (Inr (l, assemble r), sc3))))"

subsection \<open>The ledger\<close>

definition ba_live :: "ba_lease \<Rightarrow> bytes" where
  "ba_live x = (if bal_released x then 0 else bal_current x)"

definition ba_pend :: "ba_lease \<Rightarrow> bytes" where
  "ba_pend x = (if bal_released x \<or> bal_materialized x then 0 else bal_current x)"

definition ba_inv :: "body_admission \<Rightarrow> bool" where
  "ba_inv s \<longleftrightarrow>
     finite (dom (ba_leases s)) \<and> (\<forall>l x. ba_leases s l = Some x \<longrightarrow> l < ba_fresh s \<and> 1 \<le> bal_current x) \<and>
     ba_reserved s = map_total ba_live (ba_leases s) \<and> ba_pending s = map_total ba_pend (ba_leases s) \<and>
     (ba_reserved s = 0 \<longrightarrow> ba_waiting s = [])"

lemma ba_fresh_lease: "ba_inv s \<Longrightarrow> ba_leases s (ba_fresh s) = None"
  unfolding ba_inv_def by (metis less_irrefl not_None_eq)

lemma ba_live_nonneg: "ba_inv s \<Longrightarrow> \<forall>l x. ba_leases s l = Some x \<longrightarrow> 0 \<le> ba_live x"
  by (auto simp: ba_inv_def ba_live_def intro: order_trans [OF zero_le_one])

lemma ba_live_lease:
  assumes "ba_inv s" and "ba_leases s l = Some x" and "\<not> bal_released x"
  shows "1 \<le> bal_current x \<and> bal_current x \<le> ba_reserved s"
proof -
  have "at_key ba_live (ba_leases s) l \<le> map_total ba_live (ba_leases s)"
    using assms(1) ba_live_nonneg [OF assms(1)] by (intro at_key_le_total) (auto simp: ba_inv_def)
  with assms show ?thesis by (auto simp: ba_inv_def ba_live_def)
qed

lemma ba_reserved_nonneg: "ba_inv s \<Longrightarrow> 0 \<le> ba_reserved s"
  using map_total_nonneg [OF ba_live_nonneg, of s] by (simp add: ba_inv_def)

lemma ba_add_inv:
  assumes "ba_inv s" and "1 \<le> n"
  shows "ba_inv (snd (ba_add_lease n k s))"
proof -
  have "ba_reserved s + n \<noteq> 0" using ba_reserved_nonneg [OF assms(1)] assms(2) by simp
  then show ?thesis using ba_fresh_lease [OF assms(1)] assms
    by (auto simp: ba_add_lease_def ba_inv_def map_total_update less_Suc_eq ba_live_def ba_pend_def)
qed

lemma ba_set_inv:
  assumes "ba_inv s" "ba_leases s l = Some x" "\<not> bal_released x" "\<not> bal_materialized x" "1 \<le> n"
  shows "ba_inv (ba_set_current l x n s)"
  using assms ba_live_lease [OF assms(1-3)]
  by (auto simp: ba_set_current_def ba_inv_def map_total_update ba_live_def ba_pend_def)

lemma ba_acquire_inv [helm_inv]:
  assumes "1 \<le> ba_min_charge cfg" and "ba_inv (fst sc)"
  shows "ba_inv (fst (snd (ba_acquire ops cfg w sc)))"
proof -
  have "1 \<le> ba_charge cfg w" using assms(1) by (simp add: ba_charge_def)
  from ba_add_inv [OF assms(2) this] assms(2) show ?thesis
    by (auto simp: ba_acquire_def Let_def ba_add_lease_def split: prod.split option.split)
qed

lemma ba_resize_inv [helm_inv]:
  assumes "1 \<le> ba_min_charge cfg" and "ba_inv (fst sc)"
  shows "ba_inv (fst (snd (ba_resize ops cfg l w sc)))"
proof -
  have "1 \<le> ba_charge cfg w" using assms(1) by (simp add: ba_charge_def)
  with assms(2) show ?thesis
    by (auto simp: ba_resize_def Let_def intro: ba_set_inv split: prod.split option.split bool.split)
qed

lemma ba_materialize_inv [helm_inv]: "ba_inv (fst sc) \<Longrightarrow> ba_inv (fst (ba_materialize l sc))"
  by (auto simp: ba_materialize_def ba_inv_def map_total_update ba_live_def ba_pend_def split: prod.split option.split)

lemma ba_release_inv [helm_inv]: "ba_inv (fst sc) \<Longrightarrow> ba_inv (fst (ba_release ops l sc))"
  by (auto simp: ba_release_def ba_inv_def resolveIdle_def map_total_update ba_live_def ba_pend_def
      split: prod.split option.split)

datatype ba_event =
    Ba_acquire bytes
  | Ba_resize nat bytes
  | Ba_materialize nat
  | Ba_release nat
  | Ba_pause
  | Ba_resume
  | Ba_wait nat
  | Ba_capacity "bytes option"

fun ba_step :: "'c resource_ops option \<Rightarrow> ba_config \<Rightarrow> body_admission \<times> 'c \<Rightarrow> ba_event \<Rightarrow> body_admission \<times> 'c" where
  "ba_step ops cfg sc (Ba_acquire w) = snd (ba_acquire ops cfg w sc)"
| "ba_step ops cfg sc (Ba_resize l w) = snd (ba_resize ops cfg l w sc)"
| "ba_step ops cfg sc (Ba_materialize l) = ba_materialize l sc"
| "ba_step ops cfg sc (Ba_release l) = ba_release ops l sc"
| "ba_step ops cfg sc Ba_pause = (ba_pause (fst sc), snd sc)"
| "ba_step ops cfg sc Ba_resume = (ba_resume (fst sc), snd sc)"
| "ba_step ops cfg sc (Ba_wait w) = (waitForIdle w (fst sc), snd sc)"
| "ba_step ops cfg sc (Ba_capacity n) = ((fst sc)\<lparr>ba_dynamic := n\<rparr>, snd sc)"

lemma ba_step_inv [helm_inv]: "1 \<le> ba_min_charge cfg \<Longrightarrow> ba_inv (fst sc) \<Longrightarrow> ba_inv (fst (ba_step ops cfg sc e))"
  by (cases e) (simp_all add: helm_inv, auto simp: ba_inv_def ba_pause_def ba_resume_def waitForIdle_def)

interpretation ba: guarded_steps "ba_step ops cfg" "\<lambda>sc. 1 \<le> ba_min_charge cfg \<and> ba_inv (fst sc)" "\<lambda>_. True" for ops cfg
  by unfold_locales (simp add: ba_step_inv)

lemma ba_start [simp]: "ba_inv ba_init"
  by (simp add: ba_inv_def ba_init_def)

text \<open>
  The body ledger and the drain: after any history, with or without a shared coordinator, reserved
  bytes are the sum of the unreleased leases and pending bytes of those not yet materialized; while
  paused nothing new is admitted and nothing changes; and nobody waits for an idle that has come: a
  suspended \<open>waitForIdle\<close> means a live lease, and when the last live lease is released every suspended
  caller is resolved.
\<close>
theorem body_ledger_and_drain:
  assumes "1 \<le> ba_min_charge cfg" and "(s, c) = foldl (ba_step ops cfg) (ba_init, c0) es"
  shows "ba_reserved s = map_total ba_live (ba_leases s) \<and> ba_pending s = map_total ba_pend (ba_leases s) \<and>
    (if ba_paused s then ba_acquire ops cfg w (s, c) = (Inl (rejection s Cause_paused w (ba_charge cfg w)), (s, c)) else True) \<and>
    (ba_waiting s = [] \<or> (\<exists>l x. ba_leases s l = Some x \<and> \<not> bal_released x)) \<and>
    (let s' = fst (ba_release ops l (s, c)) in
     (\<exists>l x. ba_leases s' l = Some x \<and> \<not> bal_released x) \<or> ba_waiting s' = [] \<and> set (ba_waiting s) \<subseteq> set (ba_idle s'))"
proof -
  have "1 \<le> ba_min_charge cfg \<and> ba_inv (fst (s, c))"
    unfolding assms(2) by (rule ba.run_keeps) (simp_all add: assms(1) list_all_iff)
  then have inv: "ba_inv s" by simp
  have dead: "ba_reserved t = 0" if "ba_inv t" "\<not> (\<exists>l x. ba_leases t l = Some x \<and> \<not> bal_released x)" for t
  proof -
    have "map_total ba_live (ba_leases t) = 0"
      using that(2) by (auto simp: map_total_def ba_live_def dom_def intro!: sum.neutral)
    with that(1) show ?thesis by (simp add: ba_inv_def)
  qed
  have w: "ba_waiting s = [] \<or> (\<exists>l x. ba_leases s l = Some x \<and> \<not> bal_released x)"
    using dead [OF inv] inv by (auto simp: ba_inv_def)
  let ?s' = "fst (ba_release ops l (s, c))"
  have inv': "ba_inv ?s'" using ba_release_inv [of "(s, c)"] inv by simp
  have kept: "set (ba_waiting s) \<subseteq> set (ba_idle ?s') \<union> set (ba_waiting ?s')"
    by (auto simp: ba_release_def resolveIdle_def split: option.split)
  have "ba_waiting ?s' = [] \<and> set (ba_waiting s) \<subseteq> set (ba_idle ?s')"
    if "\<not> (\<exists>l x. ba_leases ?s' l = Some x \<and> \<not> bal_released x)"
    using dead [OF inv' that] inv' kept by (auto simp: ba_inv_def)
  then show ?thesis using inv w by (auto simp: ba_inv_def ba_acquire_def Let_def)
qed

definition demo_ba :: ba_config where
  "demo_ba = \<lparr>ba_activeRequestBytes = 1000, ba_jsonAmplification = 6, ba_minRequestChargeBytes = None\<rparr>"

lemma demo_ba_charge: "1 \<le> ba_min_charge demo_ba" "ba_charge demo_ba 5 = 30"
  by (simp_all add: ba_charge_def ba_min_charge_def demo_ba_def scale_def)

definition demo_ba_history :: "body_admission \<times> unit" where
  "demo_ba_history = foldl (ba_step None demo_ba) (ba_init, ()) [Ba_acquire 5, Ba_pause, Ba_wait 9]"

definition demo_ba_state :: body_admission where
  "demo_ba_state = \<lparr>ba_reserved = 30, ba_pending = 30, ba_paused = True,
     ba_leases = [0 \<mapsto> \<lparr>bal_current = 30, bal_released = False, bal_materialized = False, bal_shared = None\<rparr>],
     ba_fresh = 1, ba_waiting = [9], ba_idle = [], ba_dynamic = None\<rparr>"

theorem body_ledger_and_drain_witness:
  "ba_reserved (fst demo_ba_history) = 30 \<and> ba_waiting (fst demo_ba_history) = [9] \<and>
   ba_waiting (fst (ba_release None 0 demo_ba_history)) = []"
proof -
  have h: "foldl (ba_step None demo_ba) (ba_init, ()) [Ba_acquire 5, Ba_pause, Ba_wait 9] = (demo_ba_state, ())"
    by (simp add: demo_ba_state_def ba_acquire_def demo_ba_charge ba_add_lease_def ba_init_def ba_capacity_def
        MAX_SAFE_INTEGER_def ba_pause_def waitForIdle_def Let_def)
  then have d: "demo_ba_history = (demo_ba_state, ())" by (simp add: demo_ba_history_def)
  have dead: "bal_released x" if "ba_leases (fst (ba_release None 0 (demo_ba_state, ()))) l = Some x" for l x
    using that by (auto simp: demo_ba_state_def ba_release_def resolveIdle_def split: if_splits)
  have "ba_waiting (fst (ba_release None 0 (demo_ba_state, ()))) = []"
    using body_ledger_and_drain [OF demo_ba_charge(1) h [symmetric], of _ 0] dead by (auto simp: Let_def)
  then show ?thesis unfolding d by (simp add: demo_ba_state_def)
qed

subsection \<open>The admitted read\<close>

text \<open>What has been stored so far is what was delivered.\<close>

definition read_ok :: "octets \<Rightarrow> body_read \<Rightarrow> bool" where
  "read_ok d r \<longleftrightarrow> br_bytes r = length d \<and>
     (case br_bodyBuffer r of
        None \<Rightarrow> concat (br_chunks r) = d
      | Some buf \<Rightarrow> br_chunks r = [] \<and> length d \<le> length buf \<and> take (length d) buf = d)"

lemma store_chunk_ok: "read_ok d r \<Longrightarrow> read_ok (d @ xs) (store_chunk xs r)"
  by (auto simp: read_ok_def store_chunk_def Let_def buffer_set_def split: option.splits)

lemma assemble_ok: "read_ok d r \<Longrightarrow> assemble r = d"
  by (auto simp: read_ok_def assemble_def buffer_concat_def split: option.splits)

lemma read_loop_content:
  "read_ok d r \<Longrightarrow> read_loop ops cfg l chunks r sc = (Inr r', sc') \<Longrightarrow>
     None \<notin> set chunks \<and> read_ok (d @ concat (map the chunks)) r'"
proof (induction chunks arbitrary: d r sc)
  case Nil
  then show ?case by simp
next
  case (Cons xo chunks)
  then obtain xs where xo: "xo = Some xs" by (cases xo) auto
  obtain q sc2 where q: "ba_resize ops cfg l (int (br_bytes r + length xs)) sc = (q, sc2)"
    by (metis surj_pair)
  from Cons.prems(2) xo q have "read_loop ops cfg l chunks (store_chunk xs r) sc2 = (Inr r', sc')"
    by (auto split: sum.splits)
  from Cons.IH [OF store_chunk_ok [OF Cons.prems(1)] this] show ?case by (simp add: xo)
qed

lemma read_loop_failed: "read_loop ops cfg l chunks r sc = (Inl Read_failed, sc') \<Longrightarrow> None \<in> set chunks"
proof (induction chunks arbitrary: r sc)
  case (Cons xo chunks)
  then show ?case by (cases xo) (auto split: prod.splits sum.splits)
qed simp

lemma read_start_ok:
  "read_ok [] \<lparr>br_bodyBuffer = declared_buffer declared directLimit junk, br_chunks = [], br_bytes = 0\<rparr>"
  by (auto simp: read_ok_def split: option.splits)

text \<open>While a body is read, its own lease is the only thing that moves in the ledger.\<close>

definition reading :: "body_admission \<Rightarrow> nat \<Rightarrow> bytes \<Rightarrow> body_admission \<Rightarrow> bool" where
  "reading s0 l n s \<longleftrightarrow> ba_reserved s = ba_reserved s0 + n \<and> ba_pending s = ba_pending s0 + n \<and>
     (\<exists>x. ba_leases s = (ba_leases s0)(l \<mapsto> x) \<and> bal_current x = n \<and> \<not> bal_released x \<and> \<not> bal_materialized x)"

lemma reading_start:
  "ba_acquire ops cfg w (s0, c) = (Inr l, (s, c')) \<Longrightarrow> l = ba_fresh s0 \<and> reading s0 l (ba_charge cfg w) s"
  by (auto simp: ba_acquire_def Let_def reading_def ba_add_lease_def split: if_splits option.splits prod.splits)

lemma reading_resize:
  assumes "reading s0 l n s" and "ba_resize ops cfg l w (s, c) = (r, (s', c'))"
  shows "if r = Inr () then reading s0 l (ba_charge cfg w) s' else s' = s \<and> (\<exists>a. r = Inl a \<and> as_cause a = Cause_capacity)"
  using assms
  by (auto simp: reading_def ba_resize_def Let_def ba_set_current_def rejection_def
      split: if_splits option.splits prod.splits bool.splits)

lemma reading_loop:
  "reading s0 l n (fst sc) \<Longrightarrow> read_loop ops cfg l chunks r sc = (res, sc') \<Longrightarrow>
     (\<exists>n'. reading s0 l n' (fst sc')) \<and>
     (\<forall>e. res = Inl (Refused_admission e) \<longrightarrow> ae_status e = 503 \<and> ae_code e = Server_overloaded)"
proof (induction chunks arbitrary: n r sc)
  case Nil
  then show ?case by auto
next
  case (Cons xo chunks)
  show ?case
  proof (cases xo)
    case None
    then show ?thesis using Cons.prems by auto
  next
    case (Some xs)
    obtain q s2 c2 where q: "ba_resize ops cfg l (int (br_bytes r + length xs)) sc = (q, (s2, c2))"
      by (metis surj_pair)
    note z = reading_resize [OF Cons.prems(1), of ops cfg _ "snd sc" q s2 c2, unfolded prod.collapse, OF q]
    show ?thesis
    proof (cases q)
      case (Inl a)
      then show ?thesis using z q Some Cons.prems by (auto simp: requestAdmissionError_def)
    next
      case (Inr u)
      with z have "reading s0 l (ba_charge cfg (int (br_bytes r + length xs))) (fst (s2, c2))" by simp
      from Cons.IH [OF this, of "store_chunk xs r"] show ?thesis using Cons.prems(2) q Some Inr by simp
    qed
  qed
qed

lemma reading_release:
  "reading s0 l n (fst sc) \<Longrightarrow> ba_leases s0 l = None \<Longrightarrow>
     (let s' = fst (ba_release ops l sc) in
      ba_reserved s' = ba_reserved s0 \<and> ba_pending s' = ba_pending s0 \<and>
      (\<forall>k. k \<noteq> l \<longrightarrow> ba_leases s' k = ba_leases s0 k) \<and> (\<exists>x. ba_leases s' l = Some x \<and> bal_released x))"
  by (auto simp: reading_def ba_release_def resolveIdle_def Let_def split: prod.splits option.splits)

text \<open>
  The admitted read is exact and leaks nothing. When it returns a body, the stream ended without a
  failure, the body is the concatenation of the delivered chunks, whichever of the preallocated buffer
  and the chunk list held them and whatever length was declared, and a fresh unreleased lease is
  charged for exactly the bytes read. When it fails, the ledger holds what it held before, every
  other lease is untouched, and a refused admission is answered 503.
\<close>
theorem admitted_read_exact:
  assumes "ba_inv s"
  shows "case readAdmittedRequestBody ops cfg directLimit junk declared encoded chunks (s, c) of
      (Inr (l, body), (s', c')) \<Rightarrow>
        None \<notin> set chunks \<and> body = concat (map the chunks) \<and> ba_leases s l = None \<and>
        reading s l (ba_charge cfg (int (length body))) s'
    | (Inl e, (s', c')) \<Rightarrow>
        ba_reserved s' = ba_reserved s \<and> ba_pending s' = ba_pending s \<and>
        (\<forall>l x. ba_leases s l = Some x \<longrightarrow> ba_leases s' l = Some x) \<and>
        (\<forall>l x. ba_leases s' l = Some x \<longrightarrow> bal_released x \<or> ba_leases s l = Some x) \<and>
        (case e of Refused_admission a \<Rightarrow> ae_status a = 503 | Read_failed \<Rightarrow> None \<in> set chunks)"
proof -
  let ?w = "if encoded then 0 else case declared of None \<Rightarrow> 0 | Some n \<Rightarrow> if n < 0 then 0 else n"
  let ?r0 = "\<lparr>br_bodyBuffer = declared_buffer declared directLimit junk, br_chunks = [], br_bytes = 0\<rparr>"
  note f = ba_fresh_lease [OF assms]
  have undo: "ba_reserved s' = ba_reserved s \<and> ba_pending s' = ba_pending s \<and>
        (\<forall>l x. ba_leases s l = Some x \<longrightarrow> ba_leases s' l = Some x) \<and>
        (\<forall>l x. ba_leases s' l = Some x \<longrightarrow> bal_released x \<or> ba_leases s l = Some x)"
    if "ba_release ops (ba_fresh s) sc = (s', c')" "reading s (ba_fresh s) n (fst sc)" for s' c' n sc
    using reading_release [OF that(2) f, of ops] that(1) f by (auto simp: Let_def) (metis option.distinct(1), metis option.inject)
  obtain q s1 c1 where q: "ba_acquire ops cfg ?w (s, c) = (q, (s1, c1))" by (metis surj_pair)
  show ?thesis
  proof (cases q)
    case (Inl a)
    with q have "s1 = s" by (auto simp: ba_acquire_def Let_def split: if_splits option.splits prod.splits)
    with Inl q show ?thesis by (simp add: readAdmittedRequestBody_def requestAdmissionError_def)
  next
    case (Inr l)
    note r1 = reading_start [OF q [unfolded Inr]]
    obtain p s2 c2 where p: "read_loop ops cfg l chunks ?r0 (s1, c1) = (p, (s2, c2))" by (metis surj_pair)
    obtain n where r2: "reading s l n s2"
      and e2: "\<And>e. p = Inl (Refused_admission e) \<Longrightarrow> ae_status e = 503"
      using reading_loop [OF _ p, of s "ba_charge cfg ?w"] r1 by auto
    show ?thesis
    proof (cases p)
      case (Inl e)
      obtain s3 c3 where r3: "ba_release ops l (s2, c2) = (s3, c3)" by (metis surj_pair)
      have "e = Read_failed \<Longrightarrow> None \<in> set chunks"
        using read_loop_failed [of ops cfg l chunks ?r0 "(s1, c1)" "(s2, c2)"] p Inl by simp
      then show ?thesis
        using undo [of "(s2, c2)" s3 c3 n] r1 r2 r3 q p Inl \<open>q = Inr l\<close> e2
        by (auto simp: readAdmittedRequestBody_def split: read_failure.splits)
    next
      case (Inr r)
      have ok: "None \<notin> set chunks \<and> read_ok (concat (map the chunks)) r"
        using read_loop_content [of "[]" ?r0 ops cfg l chunks "(s1, c1)" r "(s2, c2)"] p Inr
        by (simp add: read_start_ok)
      obtain z s3 c3 where z: "ba_resize ops cfg l (int (br_bytes r)) (s2, c2) = (z, (s3, c3))" by (metis surj_pair)
      obtain s4 c4 where r4: "ba_release ops l (s3, c3) = (s4, c4)" by (metis surj_pair)
      note r3 = reading_resize [OF r2 z]
      show ?thesis
      proof (cases z)
        case (Inl a)
        with r3 r2 have "reading s (ba_fresh s) n (fst (s3, c3))" using r1 by simp
        from undo [OF _ this, of s4 c4] r4 r1 q p z Inl Inr \<open>q = Inr l\<close> show ?thesis
          by (simp add: readAdmittedRequestBody_def requestAdmissionError_def)
      next
        case Inr': (Inr u)
        have "br_bytes r = length (concat (map the chunks))" using ok by (simp add: read_ok_def)
        with r3 Inr' assemble_ok [OF conjunct2 [OF ok]] ok q p z Inr \<open>q = Inr l\<close> r1 f show ?thesis
          by (simp add: readAdmittedRequestBody_def)
      qed
    qed
  qed
qed

definition demo_ba_open :: "bytes \<Rightarrow> body_admission" where
  "demo_ba_open n = ba_init\<lparr>ba_reserved := n, ba_pending := n, ba_fresh := 1,
     ba_leases := [0 \<mapsto> \<lparr>bal_current = n, bal_released = False, bal_materialized = False, bal_shared = None\<rparr>]\<rparr>"

theorem admitted_read_exact_witness:
  "concat [[1, 2], [3]] = ([1, 2, 3] :: octets) \<and>
   (case readAdmittedRequestBody (None :: unit resource_ops option) demo_ba 1000 [] (Some 2) False [Some [1, 2], Some [3]] (ba_init, ()) of
      (Inr (l, body), (s', _)) \<Rightarrow> body = [1, 2, 3] \<and> ba_reserved s' = 18 | _ \<Rightarrow> False)"
proof -
  let ?run = "readAdmittedRequestBody (None :: unit resource_ops option) demo_ba 1000 [] (Some 2) False [Some [1, 2], Some [3]] (ba_init, ())"
  have c: "ba_charge demo_ba 0 = 10" "ba_charge demo_ba 2 = 12" "ba_charge demo_ba 3 = 18"
    by (simp_all add: ba_charge_def ba_min_charge_def demo_ba_def scale_def)
  have acq: "ba_acquire (None :: unit resource_ops option) demo_ba 2 (ba_init, ()) = (Inr 0, (demo_ba_open 12, ()))"
    by (simp add: demo_ba_open_def ba_acquire_def c ba_add_lease_def ba_init_def ba_capacity_def MAX_SAFE_INTEGER_def)
  have res: "ba_resize (None :: unit resource_ops option) demo_ba 0 w (demo_ba_open n, ()) = (Inr (), (demo_ba_open (ba_charge demo_ba w), ()))"
    if "ba_charge demo_ba w \<le> 100" for w n
    using that by (simp add: demo_ba_open_def ba_resize_def Let_def ba_set_current_def ba_init_def ba_capacity_def MAX_SAFE_INTEGER_def)
  obtain body where l: "?run = (Inr (0, body), (demo_ba_open 18, ()))"
    by (simp add: readAdmittedRequestBody_def acq res c store_chunk_def declared_buffer_def Let_def MAX_SAFE_INTEGER_def)
  show ?thesis
    using admitted_read_exact [OF ba_start, where ops = None and cfg = demo_ba and directLimit = 1000
        and junk = "[]" and declared = "Some 2" and encoded = False and chunks = "[Some [1, 2], Some [3]]" and c = "()"]
    unfolding l by (simp add: demo_ba_open_def)
qed

end
