(* ===== verification/Maintenance_Gate.thy ===== *)
theory Maintenance_Gate
  imports Prelude "HOL-Library.Sublist"
begin

text \<open>
  \<open>apps/gateway/src/runtime/maintenance-gate.ts\<close>: what quiesces the gateway around database
  maintenance. The serialized maintenance queue, the gate every request enters as an activity, the
  tracked background tasks, and \<open>withPausedActivities\<close>, which pauses a list of components around the
  work. A promise is named by the identity of the caller that awaits it.
\<close>

subsection \<open>The serialized maintenance queue\<close>

text \<open>\<open>mq_tail\<close> is the promise chain: the works not yet settled, the running one first.\<close>

record maintenance_queue =
  mq_tail :: "nat list"
  mq_closed :: bool
  mq_depth :: int
  mq_settled :: "nat list"

datatype mq_refusal = Mq_shutting_down | Mq_full

definition createSerializedMaintenanceQueue :: maintenance_queue where
  "createSerializedMaintenanceQueue = \<lparr>mq_tail = [], mq_closed = False, mq_depth = 0, mq_settled = []\<rparr>"

definition mq_run :: "int option \<Rightarrow> nat \<Rightarrow> maintenance_queue \<Rightarrow> (mq_refusal + unit) \<times> maintenance_queue" where
  "mq_run maxDepth work q =
     (if mq_closed q then (Inl Mq_shutting_down, q)
      else if mq_depth q \<ge> nullish maxDepth 2 then (Inl Mq_full, q)
      else (Inr (), q\<lparr>mq_depth := mq_depth q + 1, mq_tail := mq_tail q @ [work]\<rparr>))"

text \<open>The running work settles, well or not; both handlers only lower the depth.\<close>

definition mq_settle :: "maintenance_queue \<Rightarrow> maintenance_queue" where
  "mq_settle q =
     (case mq_tail q of
        [] \<Rightarrow> q
      | w # rest \<Rightarrow> q\<lparr>mq_tail := rest, mq_depth := mq_depth q - 1, mq_settled := mq_settled q @ [w]\<rparr>)"

definition mq_close :: "maintenance_queue \<Rightarrow> maintenance_queue" where
  "mq_close q = q\<lparr>mq_closed := True\<rparr>"

datatype mq_event = Mq_run nat | Mq_settle | Mq_close

fun mq_step :: "int option \<Rightarrow> maintenance_queue \<Rightarrow> mq_event \<Rightarrow> maintenance_queue" where
  "mq_step mx q (Mq_run w) = snd (mq_run mx w q)"
| "mq_step mx q Mq_settle = mq_settle q"
| "mq_step mx q Mq_close = mq_close q"

text \<open>The works a history handed in and the queue accepted, in order.\<close>

fun mq_accepted :: "int option \<Rightarrow> maintenance_queue \<Rightarrow> mq_event list \<Rightarrow> nat list" where
  "mq_accepted mx q [] = []"
| "mq_accepted mx q (e # es) =
     (case e of Mq_run w \<Rightarrow> (if fst (mq_run mx w q) = Inr () then [w] else []) | _ \<Rightarrow> []) @ mq_accepted mx (mq_step mx q e) es"

lemma mq_conserve:
  "let q' = foldl (mq_step mx) q es in mq_settled q' @ mq_tail q' = mq_settled q @ mq_tail q @ mq_accepted mx q es"
proof (induction es arbitrary: q)
  case (Cons e es)
  have "mq_settled (mq_step mx q e) @ mq_tail (mq_step mx q e) =
      mq_settled q @ mq_tail q @ (case e of Mq_run w \<Rightarrow> (if fst (mq_run mx w q) = Inr () then [w] else []) | _ \<Rightarrow> [])"
    by (cases e) (auto simp: mq_run_def mq_settle_def mq_close_def split: list.splits)
  with Cons [of "mq_step mx q e"] show ?case by (simp add: Let_def)
qed simp

interpretation mq: guarded_steps "mq_step mx"
  "\<lambda>q. mq_depth q = int (length (mq_tail q)) \<and> mq_depth q \<le> max 0 (nullish mx 2)" "\<lambda>_. True" for mx
proof
  fix q :: maintenance_queue and e
  assume "mq_depth q = int (length (mq_tail q)) \<and> mq_depth q \<le> max 0 (nullish mx 2)"
  then show "mq_depth (mq_step mx q e) = int (length (mq_tail (mq_step mx q e))) \<and> mq_depth (mq_step mx q e) \<le> max 0 (nullish mx 2)"
    by (cases e) (auto simp: mq_run_def mq_settle_def mq_close_def split: list.splits)
qed

text \<open>
  The maintenance queue runs its accepted works one at a time, in the order they were accepted,
  none lost and none twice: settled works followed by the waiting ones are exactly the accepted
  ones. It never holds more than its maximum, and a closed queue accepts nothing.
\<close>
theorem maintenance_queue_serial:
  "let q = foldl (mq_step mx) createSerializedMaintenanceQueue es in
     mq_settled q @ mq_tail q = mq_accepted mx createSerializedMaintenanceQueue es \<and>
     mq_depth q = int (length (mq_tail q)) \<and> mq_depth q \<le> max 0 (nullish mx 2) \<and>
     mq_accepted mx (mq_close q) es' = []"
proof -
  have "mq_accepted mx q es' = []" if "mq_closed q" for q
    using that
  proof (induction es' arbitrary: q)
    case (Cons e es')
    then show ?case by (cases e) (auto simp: mq_run_def mq_settle_def mq_close_def split: list.splits)
  qed simp
  with mq_conserve [of mx createSerializedMaintenanceQueue es] mq.run_keeps [where mx = mx and es = es and s = createSerializedMaintenanceQueue]
  show ?thesis by (simp add: Let_def createSerializedMaintenanceQueue_def mq_close_def list_all_iff)
qed

subsection \<open>The activity gate\<close>

record activity_gate =
  ag_active :: "nat set"
  ag_waiting :: "nat list"
  ag_resolved :: "nat list"
  ag_paused :: bool
  ag_fresh :: nat

definition createMaintenanceActivityGate :: activity_gate where
  "createMaintenanceActivityGate = \<lparr>ag_active = {}, ag_waiting = [], ag_resolved = [], ag_paused = False, ag_fresh = 0\<rparr>"

definition ag_enter :: "activity_gate \<Rightarrow> nat option \<times> activity_gate" where
  "ag_enter g =
     (if ag_paused g then (None, g)
      else (Some (ag_fresh g), g\<lparr>ag_active := insert (ag_fresh g) (ag_active g), ag_fresh := Suc (ag_fresh g)\<rparr>))"

definition ag_release :: "nat \<Rightarrow> activity_gate \<Rightarrow> activity_gate" where
  "ag_release a g =
     (if a \<notin> ag_active g then g
      else
        let g = g\<lparr>ag_active := ag_active g - {a}\<rparr> in
        if ag_active g \<noteq> {} then g
        else g\<lparr>ag_resolved := ag_resolved g @ ag_waiting g, ag_waiting := []\<rparr>)"

text \<open>\<open>caller\<close> is the activity the calling code runs under, if any.\<close>

definition releaseCurrent :: "nat option \<Rightarrow> activity_gate \<Rightarrow> activity_gate" where
  "releaseCurrent caller g = (case caller of None \<Rightarrow> g | Some a \<Rightarrow> ag_release a g)"

definition tryPauseIfIdle :: "activity_gate \<Rightarrow> bool \<times> activity_gate" where
  "tryPauseIfIdle g = (if ag_paused g \<or> ag_active g \<noteq> {} then (False, g) else (True, g\<lparr>ag_paused := True\<rparr>))"

definition ag_pauseAndWait :: "nat option \<Rightarrow> nat \<Rightarrow> activity_gate \<Rightarrow> activity_gate" where
  "ag_pauseAndWait caller w g =
     (let g = releaseCurrent caller (g\<lparr>ag_paused := True\<rparr>) in
      if ag_active g = {} then g\<lparr>ag_resolved := ag_resolved g @ [w]\<rparr>
      else g\<lparr>ag_waiting := ag_waiting g @ [w]\<rparr>)"

definition ag_resume :: "activity_gate \<Rightarrow> activity_gate" where
  "ag_resume g = g\<lparr>ag_paused := False\<rparr>"

datatype ag_event =
    Ag_enter
  | Ag_release nat
  | Ag_releaseCurrent "nat option"
  | Ag_tryPause
  | Ag_pause "nat option" nat
  | Ag_resume

fun ag_step :: "activity_gate \<Rightarrow> ag_event \<Rightarrow> activity_gate" where
  "ag_step g Ag_enter = snd (ag_enter g)"
| "ag_step g (Ag_release a) = ag_release a g"
| "ag_step g (Ag_releaseCurrent c) = releaseCurrent c g"
| "ag_step g Ag_tryPause = snd (tryPauseIfIdle g)"
| "ag_step g (Ag_pause c w) = ag_pauseAndWait c w g"
| "ag_step g Ag_resume = ag_resume g"

lemmas ag_defs = ag_enter_def ag_release_def releaseCurrent_def tryPauseIfIdle_def ag_pauseAndWait_def ag_resume_def Let_def

text \<open>Nobody waits for an idle that has come, and identities are fresh.\<close>

definition ag_inv :: "activity_gate \<Rightarrow> bool" where
  "ag_inv g \<longleftrightarrow> (ag_active g = {} \<longrightarrow> ag_waiting g = []) \<and> (\<forall>a \<in> ag_active g. a < ag_fresh g)"

interpretation ag: guarded_steps ag_step ag_inv "\<lambda>_. True"
proof
  fix g :: activity_gate and e
  assume "ag_inv g"
  then show "ag_inv (ag_step g e)"
    by (cases e) (auto simp: ag_inv_def ag_defs less_Suc_eq split: option.splits if_splits)
qed

text \<open>The maintenance window: paused with nothing active. Only a resume ends it.\<close>

definition ag_quiet :: "activity_gate \<Rightarrow> bool" where
  "ag_quiet g \<longleftrightarrow> ag_paused g \<and> ag_active g = {}"

interpretation quiet: guarded_steps ag_step ag_quiet "\<lambda>e. e \<noteq> Ag_resume"
proof
  fix g :: activity_gate and e
  assume "ag_quiet g" "e \<noteq> Ag_resume"
  then show "ag_quiet (ag_step g e)"
    by (cases e) (auto simp: ag_quiet_def ag_defs split: option.splits if_splits)
qed

lemma ag_wait_members:
  "set (ag_waiting g) \<union> set (ag_resolved g) \<subseteq> set (ag_waiting (ag_step g e)) \<union> set (ag_resolved (ag_step g e))"
  by (cases e) (auto simp: ag_defs split: option.splits)

text \<open>
  The maintenance window is exclusive. After any history, a pauser that is resolved the moment it
  asks (or a successful \<open>tryPauseIfIdle\<close>) finds nothing active, and from then on, whatever happens
  short of a resume, no activity enters and none is active. A pauser still suspended means some
  activity is still active, and the release of the last one resolves every suspended pauser.
\<close>
theorem maintenance_window_exclusive:
  assumes "g = foldl ag_step createMaintenanceActivityGate es" and "list_all (\<lambda>e. e \<noteq> Ag_resume) later"
  shows "(let g' = ag_pauseAndWait caller w g; g'' = foldl ag_step g' later in
      if ag_active g' = {} then ag_resolved g' = ag_resolved g @ ag_waiting g @ [w] \<and> ag_active g'' = {} \<and> fst (ag_enter g'') = None
      else last (ag_waiting g') = w \<and> ag_paused g') \<and>
    (let (ok, g') = tryPauseIfIdle g; g'' = foldl ag_step g' later in
      if ok then ag_active g'' = {} \<and> fst (ag_enter g'') = None else g' = g) \<and>
    (ag_waiting g = [] \<or> ag_active g \<noteq> {}) \<and>
    (if ag_active g = {a} then ag_waiting (ag_release a g) = [] \<and> ag_resolved (ag_release a g) = ag_resolved g @ ag_waiting g else True)"
proof -
  have "ag_inv g"
    unfolding assms(1) by (rule ag.run_keeps) (simp_all add: ag_inv_def createMaintenanceActivityGate_def list_all_iff)
  then have idle: "ag_active g = {} \<longrightarrow> ag_waiting g = []" by (simp add: ag_inv_def)
  have window: "ag_active (foldl ag_step h later) = {} \<and> fst (ag_enter (foldl ag_step h later)) = None"
    if "ag_paused h" "ag_active h = {}" for h
    using quiet.run_keeps [OF _ assms(2), of h] that by (simp add: ag_quiet_def ag_enter_def)
  let ?g' = "ag_pauseAndWait caller w g"
  have p: "ag_paused ?g'" by (auto simp: ag_defs split: option.splits)
  have "ag_active ?g' = {} \<Longrightarrow> ag_resolved ?g' = ag_resolved g @ ag_waiting g @ [w]"
    using idle by (auto simp: ag_defs split: option.splits if_splits)
  moreover have "ag_active ?g' \<noteq> {} \<Longrightarrow> last (ag_waiting ?g') = w"
    by (auto simp: ag_defs split: option.splits if_splits)
  ultimately have "let g' = ?g'; g'' = foldl ag_step g' later in
      if ag_active g' = {} then ag_resolved g' = ag_resolved g @ ag_waiting g @ [w] \<and> ag_active g'' = {} \<and> fst (ag_enter g'') = None
      else last (ag_waiting g') = w \<and> ag_paused g'"
    using p window [of ?g'] by (simp add: Let_def)
  moreover have "let (ok, g') = tryPauseIfIdle g; g'' = foldl ag_step g' later in
      if ok then ag_active g'' = {} \<and> fst (ag_enter g'') = None else g' = g"
    using window [of "g\<lparr>ag_paused := True\<rparr>"] by (simp add: tryPauseIfIdle_def Let_def)
  moreover have "if ag_active g = {a} then ag_waiting (ag_release a g) = [] \<and> ag_resolved (ag_release a g) = ag_resolved g @ ag_waiting g else True"
    by (simp add: ag_release_def Let_def)
  ultimately show ?thesis using idle by blast
qed

theorem maintenance_window_exclusive_witness:
  "fst (ag_enter (ag_pauseAndWait (Some 0) 7 (snd (ag_enter createMaintenanceActivityGate)))) = None \<and>
   ag_resolved (ag_pauseAndWait (Some 0) 7 (snd (ag_enter createMaintenanceActivityGate))) = [7]"
  using maintenance_window_exclusive [of _ "[Ag_enter]" "[]" "Some 0" 7, OF refl]
  by (simp add: ag_defs createMaintenanceActivityGate_def split: if_splits)

subsection \<open>A request as an activity\<close>

datatype error_envelope = Anthropic_envelope | Gemini_envelope | Openai_envelope | Plain_envelope

definition maintenanceErrorBody :: "string \<Rightarrow> error_envelope" where
  "maintenanceErrorBody path =
     (if path = ''/v1/messages'' \<or> prefix ''/v1/messages/'' path then Anthropic_envelope
      else if prefix ''/v1beta/models/'' path \<or> prefix ''/models/'' path \<or> path = ''/v1beta/interactions'' then Gemini_envelope
      else if path = ''/v1/models'' \<or> prefix ''/v1/'' path \<or> path = ''/responses'' \<or> prefix ''/responses/'' path \<or>
        prefix ''/openai/'' path \<or> path = ''/chat/completions'' \<or> prefix ''/engines/'' path then Openai_envelope
      else Plain_envelope)"

text \<open>What the consumer of the response stream sees, and what the handler answered.\<close>

datatype stream_read = Read_chunk | Read_done | Read_error | Read_cancelled

datatype handler_outcome = Handler_threw | Answered "stream_read list option"

datatype middleware_result = Passed_through | Unavailable error_envelope | Served | Threw

fun responseWithRelease :: "nat \<Rightarrow> stream_read list \<Rightarrow> activity_gate \<Rightarrow> activity_gate" where
  "responseWithRelease a [] g = g"
| "responseWithRelease a (Read_chunk # reads) g = responseWithRelease a reads g"
| "responseWithRelease a (Read_done # reads) g = responseWithRelease a reads (ag_release a g)"
| "responseWithRelease a (Read_error # reads) g = responseWithRelease a reads (ag_release a g)"
| "responseWithRelease a (Read_cancelled # reads) g = responseWithRelease a reads (ag_release a g)"

text \<open>\<open>meanwhile\<close> is what the rest of the gateway, the handler included, does to the gate during the request.\<close>

definition maintenanceActivityMiddleware ::
    "string \<Rightarrow> ag_event list \<Rightarrow> handler_outcome \<Rightarrow> activity_gate \<Rightarrow> middleware_result \<times> activity_gate" where
  "maintenanceActivityMiddleware path meanwhile nxt g =
     (if path = ''/healthz'' \<or> path = ''/version'' then (Passed_through, foldl ag_step g meanwhile)
      else
        (case ag_enter g of
           (None, g) \<Rightarrow> (Unavailable (maintenanceErrorBody path), g)
         | (Some a, g) \<Rightarrow>
             let g = foldl ag_step g meanwhile in
             (case nxt of
                Handler_threw \<Rightarrow> (Threw, ag_release a g)
              | Answered None \<Rightarrow> (Served, ag_release a g)
              | Answered (Some reads) \<Rightarrow> (Served, responseWithRelease a reads g))))"

lemma ag_release_gone [simp]: "a \<notin> ag_active (ag_release a g)"
  by (simp add: ag_release_def Let_def)

lemma responseWithRelease_keeps_gone: "a \<notin> ag_active g \<Longrightarrow> a \<notin> ag_active (responseWithRelease a reads g)"
  by (induction a reads g rule: responseWithRelease.induct) simp_all

lemma responseWithRelease_gone:
  "\<exists>r \<in> set reads. r \<noteq> Read_chunk \<Longrightarrow> a \<notin> ag_active (responseWithRelease a reads g)"
  by (induction a reads g rule: responseWithRelease.induct) (auto simp: responseWithRelease_keeps_gone)

text \<open>
  Every admitted request leaves the gate: under its own fresh activity, whatever happens meanwhile,
  once its handler threw, or answered without a body, or its stream ended, failed or was cancelled.
  A request that finds the gate paused is answered unavailable and changes nothing.
\<close>
theorem request_activity_released:
  assumes "path \<noteq> ''/healthz'' \<and> path \<noteq> ''/version''"
    and "\<forall>reads. nxt = Answered (Some reads) \<longrightarrow> (\<exists>r \<in> set reads. r \<noteq> Read_chunk)"
  shows "if ag_paused g then maintenanceActivityMiddleware path meanwhile nxt g = (Unavailable (maintenanceErrorBody path), g)
    else ag_fresh g \<notin> ag_active (snd (maintenanceActivityMiddleware path meanwhile nxt g)) \<and>
      fst (maintenanceActivityMiddleware path meanwhile nxt g) = (if nxt = Handler_threw then Threw else Served)"
  using assms
  by (auto simp: maintenanceActivityMiddleware_def ag_enter_def Let_def responseWithRelease_gone
      split: handler_outcome.split option.split)

theorem request_activity_released_witness:
  "ag_active (snd (maintenanceActivityMiddleware ''/v1/messages'' [] (Answered (Some [Read_chunk, Read_done])) createMaintenanceActivityGate)) = {}"
  using request_activity_released [of "''/v1/messages''" "Answered (Some [Read_chunk, Read_done])" createMaintenanceActivityGate "[]"]
  by (simp add: maintenanceActivityMiddleware_def ag_enter_def createMaintenanceActivityGate_def ag_release_def Let_def)

subsection \<open>Tracked background tasks\<close>

datatype bg_state = Bg_open | Bg_paused | Bg_closed

text \<open>A suspended \<open>waitForIdle\<close> and the tasks its current \<open>Promise.all\<close> still names.\<close>

record bg_waiter =
  bw_id :: nat
  bw_closing :: bool
  bw_for :: "nat set"

record bg_tasks =
  bg_active :: "nat set"
  bg_mode :: bg_state
  bg_fresh :: nat
  bg_waiting :: "bg_waiter list"
  bg_resolved :: "(nat \<times> bool) list"

definition createTrackedBackgroundTasks :: bg_tasks where
  "createTrackedBackgroundTasks = \<lparr>bg_active = {}, bg_mode = Bg_open, bg_fresh = 0, bg_waiting = [], bg_resolved = []\<rparr>"

definition bg_run :: "int option \<Rightarrow> nat option \<Rightarrow> bg_tasks \<Rightarrow> bool \<times> bg_tasks" where
  "bg_run maxTasks parent b =
     (if bg_mode b \<noteq> Bg_open \<and> (case parent of None \<Rightarrow> True | Some p \<Rightarrow> p \<notin> bg_active b) then (False, b)
      else if int (card (bg_active b)) \<ge> nullish maxTasks 1024 then (False, b)
      else (True, b\<lparr>bg_active := insert (bg_fresh b) (bg_active b), bg_fresh := Suc (bg_fresh b)\<rparr>))"

definition bg_finish :: "nat \<Rightarrow> bg_tasks \<Rightarrow> bg_tasks" where
  "bg_finish t b = b\<lparr>bg_active := bg_active b - {t}\<rparr>"

definition waitForIdle_turn :: "bg_waiter \<Rightarrow> bg_tasks \<Rightarrow> bg_tasks" where
  "waitForIdle_turn w b =
     (if bg_active b = {} then b\<lparr>bg_resolved := bg_resolved b @ [(bw_id w, bw_closing w)]\<rparr>
      else b\<lparr>bg_waiting := bg_waiting b @ [w\<lparr>bw_for := bg_active b\<rparr>]\<rparr>)"

definition bg_pauseAndWait :: "nat \<Rightarrow> bg_tasks \<Rightarrow> bg_tasks" where
  "bg_pauseAndWait w b =
     waitForIdle_turn \<lparr>bw_id = w, bw_closing = False, bw_for = {}\<rparr>
       (if bg_mode b = Bg_open then b\<lparr>bg_mode := Bg_paused\<rparr> else b)"

definition bg_closeAndWait :: "nat \<Rightarrow> bg_tasks \<Rightarrow> bg_tasks" where
  "bg_closeAndWait w b =
     waitForIdle_turn \<lparr>bw_id = w, bw_closing = True, bw_for = {}\<rparr> (b\<lparr>bg_mode := Bg_closed\<rparr>)"

definition bg_resume :: "bg_tasks \<Rightarrow> bg_tasks" where
  "bg_resume b = (if bg_mode b = Bg_paused then b\<lparr>bg_mode := Bg_open\<rparr> else b)"

text \<open>The first suspended waiter whose named tasks have all settled goes round its loop.\<close>

definition bg_wake :: "bg_tasks \<Rightarrow> bg_tasks" where
  "bg_wake b =
     (case filter (\<lambda>w. bw_for w \<inter> bg_active b = {}) (bg_waiting b) of
        [] \<Rightarrow> b
      | w # _ \<Rightarrow> waitForIdle_turn w (b\<lparr>bg_waiting := remove1 w (bg_waiting b)\<rparr>))"

datatype bg_event = Bg_run "nat option" | Bg_finish nat | Bg_pause nat | Bg_close nat | Bg_resume | Bg_wake

fun bg_step :: "int option \<Rightarrow> bg_tasks \<Rightarrow> bg_event \<Rightarrow> bg_tasks" where
  "bg_step mx b (Bg_run p) = snd (bg_run mx p b)"
| "bg_step mx b (Bg_finish t) = bg_finish t b"
| "bg_step mx b (Bg_pause w) = bg_pauseAndWait w b"
| "bg_step mx b (Bg_close w) = bg_closeAndWait w b"
| "bg_step mx b Bg_resume = bg_resume b"
| "bg_step mx b Bg_wake = bg_wake b"

lemmas bg_defs = bg_run_def bg_finish_def bg_pauseAndWait_def bg_closeAndWait_def bg_resume_def waitForIdle_turn_def

definition bg_inv :: "int option \<Rightarrow> bg_tasks \<Rightarrow> bool" where
  "bg_inv mx b \<longleftrightarrow> finite (bg_active b) \<and> int (card (bg_active b)) \<le> max 0 (nullish mx 1024) \<and>
     (\<forall>w \<in> set (bg_waiting b). bw_closing w \<longrightarrow> bg_mode b = Bg_closed) \<and>
     (\<forall>r \<in> set (bg_resolved b). snd r \<longrightarrow> bg_mode b = Bg_closed \<and> bg_active b = {})"

lemma waitForIdle_turn_inv:
  "bg_inv mx b \<Longrightarrow> bw_closing w \<longrightarrow> bg_mode b = Bg_closed \<Longrightarrow> bg_inv mx (waitForIdle_turn w b)"
  unfolding bg_inv_def waitForIdle_turn_def by auto

lemma bg_wake_inv:
  assumes "bg_inv mx b"
  shows "bg_inv mx (bg_wake b)"
proof (cases "filter (\<lambda>w. bw_for w \<inter> bg_active b = {}) (bg_waiting b)")
  case Nil
  with assms show ?thesis by (simp add: bg_wake_def)
next
  case (Cons w ws)
  then have "w \<in> set (bg_waiting b)" by (auto simp: filter_eq_Cons_iff)
  moreover have "bg_inv mx (b\<lparr>bg_waiting := remove1 w (bg_waiting b)\<rparr>)"
    using assms set_remove1_subset [of w "bg_waiting b"] unfolding bg_inv_def by auto
  ultimately show ?thesis
    using assms waitForIdle_turn_inv [of mx "b\<lparr>bg_waiting := remove1 w (bg_waiting b)\<rparr>" w]
    by (auto simp: bg_wake_def Cons bg_inv_def)
qed

interpretation bg: guarded_steps "bg_step mx" "bg_inv mx" "\<lambda>_. True" for mx
proof
  fix b :: bg_tasks and e
  assume inv: "bg_inv mx b"
  show "bg_inv mx (bg_step mx b e)"
  proof (cases e)
    case (Bg_finish t)
    have "card (bg_active b - {t}) \<le> card (bg_active b)"
      using inv by (intro card_mono) (auto simp: bg_inv_def)
    with inv Bg_finish show ?thesis by (auto simp: bg_inv_def bg_finish_def)
  next
    case Bg_wake
    with inv show ?thesis by (simp add: bg_wake_inv)
  next
    case (Bg_pause w)
    have "bg_inv mx (if bg_mode b = Bg_open then b\<lparr>bg_mode := Bg_paused\<rparr> else b)"
      using inv by (auto simp: bg_inv_def)
    then show ?thesis unfolding Bg_pause by (simp add: bg_pauseAndWait_def waitForIdle_turn_inv)
  next
    case (Bg_close w)
    have "bg_inv mx (b\<lparr>bg_mode := Bg_closed\<rparr>)" using inv by (auto simp: bg_inv_def)
    then show ?thesis unfolding Bg_close by (simp add: bg_closeAndWait_def waitForIdle_turn_inv)
  next
    case (Bg_run p)
    with inv show ?thesis by (auto simp: bg_inv_def bg_run_def card_insert_if split: option.splits)
  next
    case Bg_resume
    with inv show ?thesis by (auto simp: bg_inv_def bg_resume_def)
  qed
qed

text \<open>Idle and not open: only a resume of a pause lets a task in again.\<close>

interpretation bg_quiet: guarded_steps "bg_step mx" "\<lambda>b. bg_active b = {} \<and> bg_mode b \<noteq> Bg_open" "\<lambda>e. e \<noteq> Bg_resume" for mx
proof
  fix b :: bg_tasks and e
  assume "bg_active b = {} \<and> bg_mode b \<noteq> Bg_open" "e \<noteq> Bg_resume"
  then show "bg_active (bg_step mx b e) = {} \<and> bg_mode (bg_step mx b e) \<noteq> Bg_open"
    by (cases e) (auto simp: bg_defs bg_wake_def split: option.splits list.splits)
qed

interpretation bg_shut: guarded_steps "bg_step mx" "\<lambda>b. bg_active b = {} \<and> bg_mode b = Bg_closed" "\<lambda>_. True" for mx
proof
  fix b :: bg_tasks and e
  assume "bg_active b = {} \<and> bg_mode b = Bg_closed"
  then show "bg_active (bg_step mx b e) = {} \<and> bg_mode (bg_step mx b e) = Bg_closed"
    by (cases e) (auto simp: bg_defs bg_wake_def split: option.splits list.splits)
qed

text \<open>
  Background work quiesces. After any history: never more tasks than the maximum; once some
  \<open>closeAndWait\<close> has resolved, nothing runs and nothing is ever accepted again; a pause that resolves
  leaves nothing running until a resume; and a suspended waiter whose tasks have all settled is either
  resolved by its next turn, when nothing is active, or waits for what its pause let finish.
\<close>
theorem background_tasks_quiesce:
  assumes "b = foldl (bg_step mx) createTrackedBackgroundTasks es" and "list_all (\<lambda>e. e \<noteq> Bg_resume) later"
  shows "int (card (bg_active b)) \<le> max 0 (nullish mx 1024) \<and>
    (let b' = foldl (bg_step mx) b es' in
     (\<forall>i. (i, True) \<notin> set (bg_resolved b)) \<or> bg_active b' = {} \<and> fst (bg_run mx p b') = False) \<and>
    (let b1 = bg_pauseAndWait w b; b' = foldl (bg_step mx) b1 later in
     if (w, False) \<in> set (bg_resolved b1) - set (bg_resolved b) then bg_active b' = {} \<and> fst (bg_run mx p b') = False else True) \<and>
    (let b' = bg_wake b in
     bg_active b \<noteq> {} \<or> bg_waiting b = [] \<or> length (bg_waiting b') < length (bg_waiting b))"
proof -
  have inv: "bg_inv mx b"
    unfolding assms(1) by (rule bg.run_keeps) (simp_all add: bg_inv_def createTrackedBackgroundTasks_def list_all_iff)
  have refuses: "fst (bg_run mx p b') = False" if "bg_active b' = {}" "bg_mode b' \<noteq> Bg_open" for b'
    using that by (simp add: bg_run_def split: option.splits)
  have "bg_active (foldl (bg_step mx) b es') = {} \<and> fst (bg_run mx p (foldl (bg_step mx) b es')) = False"
    if "(i, True) \<in> set (bg_resolved b)" for i
    using bg_shut.run_keeps [where mx = mx and s = b and es = es'] that inv
    by (fastforce simp: bg_inv_def list_all_iff intro!: refuses)
  moreover have "bg_active (foldl (bg_step mx) b1 later) = {} \<and> fst (bg_run mx p (foldl (bg_step mx) b1 later)) = False"
    if "b1 = bg_pauseAndWait w b" "(w, False) \<in> set (bg_resolved b1) - set (bg_resolved b)" for b1
  proof -
    have "bg_active b1 = {} \<and> bg_mode b1 \<noteq> Bg_open"
      using that by (auto simp: bg_pauseAndWait_def waitForIdle_turn_def split: if_splits)
    then show ?thesis using bg_quiet.run_keeps [where mx = mx and s = b1 and es = later] assms(2) refuses by blast
  qed
  moreover have "length (bg_waiting (bg_wake b)) < length (bg_waiting b)" if "bg_active b = {}" "bg_waiting b \<noteq> []"
    using that by (cases "bg_waiting b") (auto simp: bg_wake_def waitForIdle_turn_def)
  ultimately show ?thesis using inv by (auto simp: Let_def bg_inv_def)
qed

theorem background_tasks_quiesce_witness:
  "bg_active (bg_closeAndWait 3 createTrackedBackgroundTasks) = {} \<and>
   fst (bg_run None None (bg_closeAndWait 3 createTrackedBackgroundTasks)) = False"
  using background_tasks_quiesce [of _ None "[Bg_close 3]" "[]" "[]" None 9, OF refl]
  by (simp add: bg_defs createTrackedBackgroundTasks_def)

subsection \<open>Pausing several components around the work\<close>

definition maintenanceDrainTimeoutMs :: "rat \<Rightarrow> int option" where
  "maintenanceDrainTimeoutMs requestTimeoutMs =
     (if requestTimeoutMs \<le> 0 then None else Some (min \<lfloor>requestTimeoutMs\<rfloor> 120000))"

text \<open>When an activity's \<open>pauseAndWait\<close> settles, if ever: an instant, before which nothing happens.\<close>

datatype draining = Drains_at ms | Fails_at ms | Never_drains

datatype 'a pause_event = Pause 'a | Work | Resume 'a

datatype drain_error = Drain_timed_out | Drain_failed

datatype pause_error = Draining drain_error | Work_failed

text \<open>
  One turn of the loop over the activities: how the await of \<open>draining\<close> ends, and at which instant;
  \<open>None\<close> when it never does.
\<close>

definition await_drain :: "ms option \<Rightarrow> draining \<Rightarrow> ms \<Rightarrow> ((drain_error + unit) \<times> ms) option" where
  "await_drain deadline d now =
     (case deadline of
        None \<Rightarrow>
          (case d of
             Drains_at t \<Rightarrow> Some (Inr (), max now t)
           | Fails_at t \<Rightarrow> Some (Inl Drain_failed, max now t)
           | Never_drains \<Rightarrow> None)
      | Some dl \<Rightarrow>
          if dl - now \<le> 0 then Some (Inl Drain_timed_out, now)
          else
            (case d of
               Drains_at t \<Rightarrow> if t \<le> dl then Some (Inr (), max now t) else Some (Inl Drain_timed_out, dl)
             | Fails_at t \<Rightarrow> if t \<le> dl then Some (Inl Drain_failed, max now t) else Some (Inl Drain_timed_out, dl)
             | Never_drains \<Rightarrow> Some (Inl Drain_timed_out, dl)))"

fun pause_all :: "ms option \<Rightarrow> ('a \<times> draining) list \<Rightarrow> ms \<Rightarrow> 'a list \<Rightarrow> ((drain_error + unit) \<times> 'a list \<times> ms) option" where
  "pause_all deadline [] now paused = Some (Inr (), paused, now)"
| "pause_all deadline ((a, d) # rest) now paused =
     (case await_drain deadline d now of
        None \<Rightarrow> None
      | Some (Inl e, now') \<Rightarrow> Some (Inl e, paused @ [a], now')
      | Some (Inr _, now') \<Rightarrow> pause_all deadline rest now' (paused @ [a]))"

text \<open>The call's result, what it did in order, and the instant the draining was over.\<close>

definition withPausedActivities :: "ms option \<Rightarrow> ('a \<times> draining) list \<Rightarrow> bool \<Rightarrow> ms \<Rightarrow>
    ((pause_error + unit) \<times> 'a pause_event list \<times> ms) option" where
  "withPausedActivities pauseTimeoutMs activities work_ok now =
     (let deadline = (case pauseTimeoutMs of None \<Rightarrow> None | Some t \<Rightarrow> if t > 0 then Some (now + t) else None) in
      (case pause_all deadline activities now [] of
         None \<Rightarrow> None
       | Some (r, paused, fin) \<Rightarrow>
           Some (case r of Inl e \<Rightarrow> Inl (Draining e) | Inr _ \<Rightarrow> if work_ok then Inr () else Inl Work_failed,
                 map Pause paused @ (case r of Inl _ \<Rightarrow> [] | Inr _ \<Rightarrow> [Work]) @ map Resume (rev paused), fin)))"

lemma pause_all_prefix:
  assumes "pause_all deadline as now paused = Some (r, paused', fin)"
  shows "\<exists>n. paused' = paused @ map fst (take n as) \<and> (r = Inr () \<longrightarrow> n = length as) \<and> (as \<noteq> [] \<longrightarrow> 0 < n)"
  using assms
proof (induction deadline as now paused rule: pause_all.induct)
  case (2 deadline a d rest now paused)
  show ?case
  proof (cases "\<exists>e now'. await_drain deadline d now = Some (Inl e, now')")
    case True
    with "2.prems" show ?thesis by (auto intro!: exI [of _ 1])
  next
    case False
    with "2.prems" obtain u now' where d: "await_drain deadline d now = Some (Inr u, now')"
      by (auto split: option.splits sum.splits)
    with "2.prems" have "pause_all deadline rest now' (paused @ [a]) = Some (r, paused', fin)" by simp
    from "2.IH" [OF d refl refl this] obtain n where
      "paused' = (paused @ [a]) @ map fst (take n rest)" "r = Inr () \<longrightarrow> n = length rest" by auto
    then show ?thesis by (intro exI [of _ "Suc n"]) simp
  qed
qed simp

lemma pause_all_bounded:
  "now \<le> dl \<Longrightarrow> \<exists>r paused' fin. pause_all (Some dl) as now paused = Some (r, paused', fin) \<and> fin \<le> dl"
proof (induction as arbitrary: now paused)
  case (Cons ad as)
  obtain a d where ad: "ad = (a, d)" by fastforce
  have "\<exists>r now'. await_drain (Some dl) d now = Some (r, now') \<and> now' \<le> dl"
    using Cons.prems by (cases d) (auto simp: await_drain_def)
  then obtain r now' where r: "await_drain (Some dl) d now = Some (r, now')" "now' \<le> dl" by blast
  with Cons.IH [of now' "paused @ [a]"] show ?case by (cases r) (simp_all add: ad)
qed simp

text \<open>
  \<open>withPausedActivities\<close> always restores what it paused. When it returns, it paused a prefix of the
  activities, in order (the one that failed to drain included), ran the work exactly when every one of
  them drained, and resumed each paused activity once, in reverse order, work or no work. With a
  positive timeout it does return, and has stopped draining by the deadline.
\<close>
theorem paused_activities_restored:
  "(case withPausedActivities pauseTimeoutMs activities work_ok now of
      None \<Rightarrow> (case pauseTimeoutMs of None \<Rightarrow> True | Some t \<Rightarrow> t \<le> 0)
    | Some (r, trace, fin) \<Rightarrow>
        (\<exists>n. let ps = map fst (take n activities); drained = (case r of Inl (Draining _) \<Rightarrow> False | _ \<Rightarrow> True) in
           trace = map Pause ps @ (if drained then [Work] else []) @ map Resume (rev ps) \<and>
           (if drained then ps = map fst activities \<and> (r = Inr ()) = work_ok else True)) \<and>
        (case pauseTimeoutMs of None \<Rightarrow> True | Some t \<Rightarrow> if 0 < t then fin \<le> now + t else True))"
proof -
  let ?dl = "case pauseTimeoutMs of None \<Rightarrow> None | Some t \<Rightarrow> if t > 0 then Some (now + t) else None"
  have bounded: "\<exists>r paused' fin. pause_all ?dl activities now [] = Some (r, paused', fin) \<and> fin \<le> now + t"
    if "pauseTimeoutMs = Some t" "0 < t" for t
    using pause_all_bounded [of now "now + t" activities "[]"] that by simp
  show ?thesis
  proof (cases "pause_all ?dl activities now []")
    case None
    with bounded have "case pauseTimeoutMs of None \<Rightarrow> True | Some t \<Rightarrow> t \<le> 0"
      by (cases pauseTimeoutMs) (fastforce simp: not_le [symmetric])+
    with None show ?thesis by (simp add: withPausedActivities_def Let_def)
  next
    case (Some x)
    obtain r paused fin where x: "x = (r, paused, fin)" by (cases x) auto
    obtain n where n: "paused = map fst (take n activities)" "r = Inr () \<longrightarrow> n = length activities"
      using pause_all_prefix [OF Some [unfolded x]] by auto
    have "case pauseTimeoutMs of None \<Rightarrow> True | Some t \<Rightarrow> if 0 < t then fin \<le> now + t else True"
      using bounded Some x by (auto split: option.split)
    with Some x n show ?thesis
      by (auto simp: withPausedActivities_def Let_def intro!: exI [of _ n] split: sum.splits)
  qed
qed

end
