(* ===== verification/Sse.thy ===== *)
theory Sse
  imports Js_Text Response_Work "HOL-Library.Sublist"
begin

text \<open>
  Server-sent events (\<open>packages/core/src/protocol/streaming.ts\<close>): the frame splitter, the frame parser,
  the reader that survives any chunking, the serializer, and the guarded controller. A chunk is the text
  the decoder makes of it; response-work admission is an argument (\<open>resource_ops\<close>) whose state is threaded.
\<close>

abbreviation LF :: char where "LF \<equiv> CHR 0x0A"
abbreviation CR :: char where "CR \<equiv> CHR 0x0D"

text \<open>\<open>Buffer.byteLength\<close>: UTF-8 takes two bytes for the code points from 128 to 255.\<close>

definition byteLength :: "string \<Rightarrow> int" where
  "byteLength s = (\<Sum>c \<leftarrow> s. if (of_char c :: nat) < 128 then 1 else 2)"

lemma byteLength_simps [simp]: "byteLength [] = 0" "byteLength (s @ t) = byteLength s + byteLength t"
  by (simp_all add: byteLength_def)

text \<open>\<open>split\<close> at a one-character separator: always at least one piece.\<close>

fun split_at :: "char \<Rightarrow> string \<Rightarrow> string list" where
  "split_at c [] = [[]]"
| "split_at c (x # s) =
     (if x = c then [] # split_at c s
      else (case split_at c s of [] \<Rightarrow> [[x]] | p # ps \<Rightarrow> (x # p) # ps))"

fun join_with :: "char \<Rightarrow> string list \<Rightarrow> string" where
  "join_with c [] = []"
| "join_with c [p] = p"
| "join_with c (p # ps) = p @ c # join_with c ps"

lemma split_at_not_Nil [simp]: "split_at c s \<noteq> []"
  by (induction s) (auto split: list.split)

lemma join_split [simp]: "join_with c (split_at c s) = s"
proof (induction s)
  case (Cons x s)
  show ?case
  proof (cases "split_at c s")
    case Nil
    then show ?thesis by simp
  next
    case (Cons p ps)
    with Cons.IH show ?thesis by (cases ps) auto
  qed
qed simp

lemma split_piece: "c \<notin> set p \<Longrightarrow> split_at c (p @ c # s) = p # split_at c s"
  by (induction p) auto

lemma split_free: "c \<notin> set p \<Longrightarrow> split_at c p = [p]"
  by (induction p) auto

lemma split_join: "ps \<noteq> [] \<Longrightarrow> \<forall>p \<in> set ps. c \<notin> set p \<Longrightarrow> split_at c (join_with c ps) = ps"
  by (induction c ps rule: join_with.induct) (auto simp: split_free split_piece)

lemma join_pieces: "p \<in> set ps \<Longrightarrow> set p \<subseteq> set (join_with c ps)"
  by (induction c ps rule: join_with.induct) auto

lemma split_at_subset: "p \<in> set (split_at c s) \<Longrightarrow> set p \<subseteq> set s"
  using join_pieces [of p "split_at c s" c] by simp

lemma split_at_free: "p \<in> set (split_at c s) \<Longrightarrow> c \<notin> set p"
proof (induction s arbitrary: p)
  case (Cons x s)
  show ?case
  proof (cases "split_at c s")
    case (Cons q qs)
    then show ?thesis using Cons.prems Cons.IH [of q] Cons.IH [of p]
      by (auto split: if_splits)
  qed simp
qed simp

subsection \<open>Frames\<close>

record sse_frame =
  sf_event :: "string option"
  sf_data :: string

definition lineEndingLengthAt :: "string \<Rightarrow> nat option" where
  "lineEndingLengthAt s =
     (case s of
        [] \<Rightarrow> Some 0
      | c # cs \<Rightarrow>
          if c = LF then Some 1
          else if c \<noteq> CR then Some 0
          else (case cs of [] \<Rightarrow> None | d # _ \<Rightarrow> Some (if d = LF then 2 else 1)))"

fun boundary_from :: "nat \<Rightarrow> string \<Rightarrow> (nat \<times> nat) option" where
  "boundary_from index [] = None"
| "boundary_from index (c # cs) =
     (case lineEndingLengthAt (c # cs) of
        None \<Rightarrow> None
      | Some firstLength \<Rightarrow>
          if firstLength = 0 then boundary_from (Suc index) cs
          else
            (case lineEndingLengthAt (drop firstLength (c # cs)) of
               None \<Rightarrow> None
             | Some secondLength \<Rightarrow>
                 if secondLength > 0 then Some (index, firstLength + secondLength)
                 else boundary_from (Suc index) cs))"

definition nextSSEFrameBoundary :: "string \<Rightarrow> (nat \<times> nat) option" where
  "nextSSEFrameBoundary buffer = boundary_from 0 buffer"

lemma boundary_bounds: "boundary_from i s = Some (j, n) \<Longrightarrow> i \<le> j \<and> j < i + length s \<and> 0 < n"
  by (induction i s arbitrary: j n rule: boundary_from.induct) (force split: option.splits if_splits)+

function splitCompleteSSEFrames :: "string \<Rightarrow> string list \<times> string" where
  "splitCompleteSSEFrames tail =
     (case nextSSEFrameBoundary tail of
        None \<Rightarrow> ([], tail)
      | Some (index, len) \<Rightarrow>
          let (frames, rest) = splitCompleteSSEFrames (drop (index + len) tail) in (take index tail # frames, rest))"
  by pat_completeness auto
termination
  by (relation "measure length") (auto simp: nextSSEFrameBoundary_def dest: boundary_bounds)

declare splitCompleteSSEFrames.simps [simp del]

definition strip_cr :: "string \<Rightarrow> string" where
  "strip_cr line = (if line \<noteq> [] \<and> last line = CR then butlast line else line)"

definition sse_field :: "string \<Rightarrow> string \<times> string" where
  "sse_field line =
     (let (field, value) = (case index_of CHR '':'' line of None \<Rightarrow> (line, []) | Some i \<Rightarrow> (take i line, drop (i + 1) line)) in
      (field, if value \<noteq> [] \<and> hd value = CHR '' '' then tl value else value))"

definition parse_line :: "string option \<times> string list \<Rightarrow> string \<Rightarrow> string option \<times> string list" where
  "parse_line acc rawLine =
     (let line = strip_cr rawLine in
      if line = [] \<or> hd line = CHR '':'' then acc
      else
        let (field, value) = sse_field line in
        if field = ''event'' then (Some value, snd acc)
        else if field = ''data'' then (fst acc, snd acc @ [value])
        else acc)"

definition parseFrame :: "string \<Rightarrow> sse_frame option" where
  "parseFrame block =
     (let (event, dataLines) = foldl parse_line (None, []) (split_at LF block) in
      if event = None \<and> dataLines = [] then None
      else Some \<lparr>sf_event = event, sf_data = join_with LF dataLines\<rparr>)"

definition frame_list :: "string \<Rightarrow> sse_frame list" where
  "frame_list block = (case parseFrame block of None \<Rightarrow> [] | Some f \<Rightarrow> [f])"

subsection \<open>Reading\<close>

datatype sse_error = Frame_too_large | Work_exhausted | Read_error

definition assertSSEFrameFits :: "string \<Rightarrow> int \<Rightarrow> bool" where
  "assertSSEFrameFits frame maxFrameBytes = (maxFrameBytes = 0 \<or> byteLength frame \<le> maxFrameBytes)"

text \<open>The inner loop: the frames yielded, what stays buffered, the admission's state, and the error thrown if any.\<close>

function sse_drain :: "'c resource_ops \<Rightarrow> nat \<Rightarrow> int \<Rightarrow> string \<Rightarrow> 'c \<Rightarrow> sse_frame list \<times> string \<times> 'c \<times> sse_error option" where
  "sse_drain r lease mx buffer c =
     (case nextSSEFrameBoundary buffer of
        None \<Rightarrow> ([], buffer, c, None)
      | Some (index, len) \<Rightarrow>
          let block = take index buffer; rest = drop (index + len) buffer in
          if \<not> assertSSEFrameFits block mx then ([], rest, c, Some Frame_too_large)
          else
            (case ro_resize r c lease (byteLength rest) of
               (False, c') \<Rightarrow> (frame_list block, rest, c', Some Work_exhausted)
             | (True, c') \<Rightarrow>
                 let (fs, b, c'', e) = sse_drain r lease mx rest c' in (frame_list block @ fs, b, c'', e)))"
  by pat_completeness auto
termination
  by (relation "measure (\<lambda>(r, l, mx, buffer, c). length buffer)")
    (auto simp: nextSSEFrameBoundary_def dest: boundary_bounds)

declare sse_drain.simps [simp del]

text \<open>A chunk that is \<open>None\<close> is a failed read; the end of the list is the end of the stream.\<close>

fun sse_read :: "'c resource_ops \<Rightarrow> nat \<Rightarrow> int \<Rightarrow> string option list \<Rightarrow> string \<Rightarrow> 'c \<Rightarrow> sse_frame list \<times> 'c \<times> sse_error option" where
  "sse_read r lease mx [] buffer c =
     (case ro_resize r c lease (byteLength buffer) of
        (False, c') \<Rightarrow> ([], c', Some Work_exhausted)
      | (True, c') \<Rightarrow>
          if \<not> assertSSEFrameFits buffer mx then ([], c', Some Frame_too_large) else (frame_list buffer, c', None))"
| "sse_read r lease mx (None # chunks) buffer c = ([], c, Some Read_error)"
| "sse_read r lease mx (Some chunk # chunks) buffer c =
     (case ro_resize r c lease (byteLength buffer + byteLength chunk) of
        (False, c') \<Rightarrow> ([], c', Some Work_exhausted)
      | (True, c') \<Rightarrow>
          (case sse_drain r lease mx (buffer @ chunk) c' of
             (fs, _, c'', Some e) \<Rightarrow> (fs, c'', Some e)
           | (fs, rest, c'', None) \<Rightarrow>
               if \<not> assertSSEFrameFits rest mx then (fs, c'', Some Frame_too_large)
               else let (gs, c3, e) = sse_read r lease mx chunks rest c'' in (fs @ gs, c3, e)))"

definition readSSE :: "'c resource_ops \<Rightarrow> int \<Rightarrow> string option list \<Rightarrow> 'c \<Rightarrow> sse_frame list \<times> 'c \<times> sse_error option" where
  "readSSE r mx chunks c =
     (case ro_acquire r c 0 of
        (None, c') \<Rightarrow> ([], c', Some Work_exhausted)
      | (Some lease, c') \<Rightarrow> let (fs, c'', e) = sse_read r lease mx chunks [] c' in (fs, ro_release r c'' lease, e))"

subsection \<open>Writing\<close>

definition frameToWire :: "sse_frame \<Rightarrow> string" where
  "frameToWire frame =
     (case sf_event frame of None \<Rightarrow> [] | Some e \<Rightarrow> ''event: '' @ e @ [LF]) @
     concat (map (\<lambda>line. ''data: '' @ line @ [LF]) (split_at LF (sf_data frame))) @ [LF]"

definition synthesizeSSE :: "'r \<Rightarrow> ('r \<Rightarrow> sse_frame list) \<Rightarrow> string list" where
  "synthesizeSSE res toNativeEvents =
     map frameToWire (toNativeEvents res @ [\<lparr>sf_event = None, sf_data = ''[DONE]''\<rparr>])"

subsection \<open>Chunk boundaries do not matter\<close>

lemma ending_stable: "lineEndingLengthAt s = Some n \<Longrightarrow> s \<noteq> [] \<Longrightarrow> lineEndingLengthAt (s @ x) = Some n"
  by (auto simp: lineEndingLengthAt_def split: list.splits if_splits)

lemma ending_bounds: "lineEndingLengthAt s = Some n \<Longrightarrow> n \<le> length s"
  by (auto simp: lineEndingLengthAt_def split: list.splits if_splits)

lemma boundary_needs_two: "boundary_from i [c] = None"
  by (auto simp: lineEndingLengthAt_def split: option.split)

lemma boundary_stable: "boundary_from i s = Some b \<Longrightarrow> boundary_from i (s @ x) = Some b"
proof (induction i s rule: boundary_from.induct)
  case (2 i c cs)
  obtain m where m: "lineEndingLengthAt (c # cs) = Some m"
    using "2.prems" by (auto split: option.splits)
  have m': "lineEndingLengthAt (c # cs @ x) = Some m" using ending_stable [OF m, of x] by simp
  show ?case
  proof (cases "m = 0")
    case True
    then show ?thesis using "2.prems" "2.IH"(1) [OF m] m m' by simp
  next
    case False
    obtain n where n: "lineEndingLengthAt (drop m (c # cs)) = Some n"
      using "2.prems" m False by (auto split: option.splits)
    have le: "m \<le> length (c # cs)" using ending_bounds [OF m] .
    show ?thesis
    proof (cases "drop m (c # cs) = []")
      case True
      then have "n = 0" "length cs \<le> 1"
        using n m le by (auto simp: lineEndingLengthAt_def split: if_splits list.splits)
      then have "boundary_from (Suc i) cs = None"
        using boundary_needs_two by (cases cs) auto
      then show ?thesis using "2.prems" m n \<open>n = 0\<close> False by simp
    next
      case nonempty: False
      have "drop m (c # cs @ x) = drop m (c # cs) @ x" using le drop_append [of m "c # cs" x] by simp
      then have n': "lineEndingLengthAt (drop m (c # cs @ x)) = Some n"
        using ending_stable [OF n nonempty, of x] by simp
      show ?thesis using "2.prems" "2.IH"(2) [OF m False n] m n m' n' False by (auto split: if_splits)
    qed
  qed
qed simp

lemma next_boundary_stable: "nextSSEFrameBoundary s = Some b \<Longrightarrow> nextSSEFrameBoundary (s @ x) = Some b"
  by (simp add: nextSSEFrameBoundary_def boundary_stable)

lemma boundary_extent: "boundary_from i s = Some (j, n) \<Longrightarrow> j + n \<le> i + length s"
proof (induction i s rule: boundary_from.induct)
  case (2 i c cs)
  obtain m where m: "lineEndingLengthAt (c # cs) = Some m"
    using "2.prems" by (auto split: option.splits)
  show ?case
  proof (cases "m = 0")
    case True
    then show ?thesis using "2.prems" "2.IH"(1) [OF m] m by simp
  next
    case False
    obtain l where l: "lineEndingLengthAt (drop m (c # cs)) = Some l"
      using "2.prems" m False by (auto split: option.splits)
    show ?thesis
      using "2.prems" "2.IH"(2) [OF m False l] m l False ending_bounds [OF m] ending_bounds [OF l]
      by (auto split: if_splits)
  qed
qed simp

lemma split_append:
  "splitCompleteSSEFrames (a @ b) =
     (let (fs, t) = splitCompleteSSEFrames a; (gs, u) = splitCompleteSSEFrames (t @ b) in (fs @ gs, u))"
proof (induction a rule: splitCompleteSSEFrames.induct)
  case (1 a)
  show ?case
  proof (cases "nextSSEFrameBoundary a")
    case None
    then show ?thesis by (simp add: splitCompleteSSEFrames.simps [of a] split: prod.split)
  next
    case (Some p)
    obtain i n where p: "p = (i, n)" by (cases p)
    have le: "i + n \<le> length a" using Some p boundary_extent [of 0 a i n] by (simp add: nextSSEFrameBoundary_def)
    have long: "nextSSEFrameBoundary (a @ b) = Some (i, n)" using Some p next_boundary_stable by blast
    show ?thesis
      using "1.IH" [OF Some p [symmetric]] Some p long le
      by (simp add: splitCompleteSSEFrames.simps [of a] splitCompleteSSEFrames.simps [of "a @ b"] split: prod.splits)
  qed
qed

text \<open>The reference: the whole text split into blocks, each block parsed, the tail last.\<close>

definition text_frames :: "string \<Rightarrow> sse_frame list" where
  "text_frames s = (let (blocks, tail) = splitCompleteSSEFrames s in concat (map frame_list blocks) @ frame_list tail)"

definition block_frames :: "string \<Rightarrow> sse_frame list" where
  "block_frames s = concat (map frame_list (fst (splitCompleteSSEFrames s)))"

definition block_tail :: "string \<Rightarrow> string" where
  "block_tail s = snd (splitCompleteSSEFrames s)"

lemma text_frames_tail: "text_frames s = block_frames s @ frame_list (block_tail s)"
  by (simp add: text_frames_def block_frames_def block_tail_def split: prod.split)

lemma block_append:
  "block_frames (a @ b) = block_frames a @ block_frames (block_tail a @ b)"
  "block_tail (a @ b) = block_tail (block_tail a @ b)"
  by (simp_all add: block_frames_def block_tail_def split_append [of a b] split: prod.split)

lemma text_frames_append: "text_frames (a @ b) = block_frames a @ text_frames (block_tail a @ b)"
  by (simp add: text_frames_tail block_append [of a b])

lemma block_step:
  "nextSSEFrameBoundary s = None \<Longrightarrow> block_frames s = [] \<and> block_tail s = s"
  "nextSSEFrameBoundary s = Some (i, n) \<Longrightarrow>
     block_frames s = frame_list (take i s) @ block_frames (drop (i + n) s) \<and> block_tail s = block_tail (drop (i + n) s)"
  by (simp_all add: block_frames_def block_tail_def splitCompleteSSEFrames.simps [of s] split: prod.split)

lemma splitComplete_tail: "nextSSEFrameBoundary (snd (splitCompleteSSEFrames s)) = None"
proof (induction s rule: splitCompleteSSEFrames.induct)
  case (1 s)
  show ?case
  proof (cases "nextSSEFrameBoundary s")
    case (Some p)
    then show ?thesis using "1.IH" [OF Some]
      by (cases p) (auto simp: splitCompleteSSEFrames.simps [of s] split: prod.splits)
  qed (simp add: splitCompleteSSEFrames.simps [of s])
qed

lemma drain_frames:
  "sse_drain r lease mx s c = (fs, rest, c', e) \<Longrightarrow>
     (e = None \<longrightarrow> fs = block_frames s \<and> rest = block_tail s) \<and> prefix fs (block_frames s)"
proof (induction r lease mx s c arbitrary: fs rest c' e rule: sse_drain.induct)
  case (1 r lease mx s c)
  show ?case
  proof (cases "nextSSEFrameBoundary s")
    case None
    then show ?thesis using "1.prems" block_step(1) [OF None] by (simp add: sse_drain.simps [of r lease mx s])
  next
    case (Some p)
    obtain i n where p: "p = (i, n)" by (cases p)
    note step = block_step(2) [OF Some [unfolded p]]
    obtain ok c1 where rs: "ro_resize r c lease (byteLength (drop (i + n) s)) = (ok, c1)"
      by (cases "ro_resize r c lease (byteLength (drop (i + n) s))")
    show ?thesis
    proof (cases "assertSSEFrameFits (take i s) mx \<and> ok")
      case False
      then show ?thesis using "1.prems" Some p step rs
        by (auto simp: sse_drain.simps [of r lease mx s] Let_def split: if_splits bool.splits)
    next
      case True
      obtain gs rest' c2 e' where rec: "sse_drain r lease mx (drop (i + n) s) c1 = (gs, rest', c2, e')"
        by (metis prod_cases4)
      have "(e' = None \<longrightarrow> gs = block_frames (drop (i + n) s) \<and> rest' = block_tail (drop (i + n) s)) \<and>
          prefix gs (block_frames (drop (i + n) s))"
        using "1.IH" [OF Some p [symmetric] refl refl] True rs rec by simp
      then show ?thesis using "1.prems" Some p step rs rec True
        by (auto simp: sse_drain.simps [of r lease mx s] Let_def)
    qed
  qed
qed

definition received :: "string option list \<Rightarrow> string" where
  "received chunks = concat (map (\<lambda>c. case c of None \<Rightarrow> [] | Some s \<Rightarrow> s) chunks)"

lemma received_simps [simp]:
  "received [] = []" "received (None # cs) = received cs" "received (Some s # cs) = s @ received cs"
  by (simp_all add: received_def)

lemma read_frames:
  "sse_read r lease mx chunks buffer c = (fs, c', e) \<Longrightarrow>
     nextSSEFrameBoundary buffer = None \<Longrightarrow>
     (e = None \<longrightarrow> fs = text_frames (buffer @ received chunks)) \<and>
     prefix fs (text_frames (buffer @ received chunks))"
proof (induction r lease mx chunks buffer c arbitrary: fs c' e rule: sse_read.induct)
  case (1 r lease mx buffer c)
  then show ?case using block_step(1) [OF "1.prems"(2)]
    by (auto simp: text_frames_tail split: prod.splits bool.splits if_splits)
next
  case (2 r lease mx chunks buffer c)
  then show ?case by auto
next
  case (3 r lease mx chunk chunks buffer c)
  let ?s = "buffer @ chunk"
  obtain ok c1 where rs: "ro_resize r c lease (byteLength buffer + byteLength chunk) = (ok, c1)"
    by (cases "ro_resize r c lease (byteLength buffer + byteLength chunk)")
  obtain gs rest c2 e2 where dr: "sse_drain r lease mx ?s c1 = (gs, rest, c2, e2)" by (metis prod_cases4)
  note d = drain_frames [OF dr]
  have all: "text_frames (buffer @ received (Some chunk # chunks)) =
      block_frames ?s @ text_frames (block_tail ?s @ received chunks)"
    using text_frames_append [of ?s "received chunks"] by simp
  show ?case
  proof (cases "ok \<and> e2 = None \<and> assertSSEFrameFits rest mx")
    case False
    then show ?thesis
      using "3.prems" rs dr d all by (cases ok; cases e2) (auto split: if_splits)
  next
    case True
    have none: "nextSSEFrameBoundary rest = None"
      using d True by (simp add: block_tail_def splitComplete_tail)
    obtain hs c3 e3 where rec: "sse_read r lease mx chunks rest c2 = (hs, c3, e3)" by (metis prod_cases3)
    have "(e3 = None \<longrightarrow> hs = text_frames (rest @ received chunks)) \<and> prefix hs (text_frames (rest @ received chunks))"
      using "3.IH" rs dr rec True none by simp
    then show ?thesis using "3.prems" rs dr rec d all True by auto
  qed
qed

text \<open>
  C34. However the response text is cut into chunks, a read that ends without an error yields exactly the
  frames of the whole text; and whatever goes wrong - an oversized frame, an exhausted admission, a failed
  read - the frames yielded until then are a prefix of those of the text received.
\<close>
theorem readSSE_chunking:
  "case readSSE r mx chunks c of (fs, _, e) \<Rightarrow>
     prefix fs (text_frames (received chunks)) \<and>
     (if e = None then fs = text_frames (received chunks) else True)"
proof (cases "ro_acquire r c 0")
  case (Pair l c1)
  show ?thesis
  proof (cases l)
    case (Some lease)
    obtain fs c2 e where rd: "sse_read r lease mx chunks [] c1 = (fs, c2, e)" by (metis prod_cases3)
    show ?thesis using read_frames [OF rd] Pair Some rd
      by (simp add: readSSE_def nextSSEFrameBoundary_def)
  qed (use Pair in \<open>simp add: readSSE_def\<close>)
qed

subsection \<open>Round trip\<close>

definition wire_frame :: "sse_frame \<Rightarrow> bool" where
  "wire_frame f \<longleftrightarrow>
     CR \<notin> set (sf_data f) \<and> (case sf_event f of None \<Rightarrow> True | Some e \<Rightarrow> CR \<notin> set e \<and> LF \<notin> set e)"

definition line_ok :: "string \<Rightarrow> bool" where
  "line_ok l \<longleftrightarrow> l \<noteq> [] \<and> CR \<notin> set l \<and> LF \<notin> set l"

lemma boundary_skip: "CR \<notin> set l \<Longrightarrow> LF \<notin> set l \<Longrightarrow> boundary_from i (l @ s) = boundary_from (i + length l) s"
  by (induction l arbitrary: i) (auto simp: lineEndingLengthAt_def)

lemma boundary_lines:
  "ls \<noteq> [] \<Longrightarrow> \<forall>l \<in> set ls. line_ok l \<Longrightarrow>
   boundary_from i (concat (map (\<lambda>l. l @ [LF]) ls) @ LF # s) = Some (i + length (join_with LF ls), 2)"
proof (induction ls arbitrary: i)
  case (Cons l ls)
  show ?case
  proof (cases ls)
    case Nil
    then show ?thesis using Cons.prems by (simp add: boundary_skip line_ok_def lineEndingLengthAt_def)
  next
    case (Cons m ms)
    then obtain x xs where m: "m = x # xs" "x \<noteq> LF" "x \<noteq> CR" using Cons.prems
      by (cases m) (auto simp: line_ok_def)
    have "boundary_from i (concat (map (\<lambda>l. l @ [LF]) (l # ls)) @ LF # s) =
        boundary_from (i + length l) (LF # concat (map (\<lambda>l. l @ [LF]) ls) @ LF # s)"
      using Cons.prems by (simp add: boundary_skip line_ok_def)
    also have "\<dots> = boundary_from (Suc (i + length l)) (concat (map (\<lambda>l. l @ [LF]) ls) @ LF # s)"
      using Cons m by (simp add: lineEndingLengthAt_def)
    finally show ?thesis using Cons.IH Cons.prems Cons by simp
  qed
qed simp

lemma lines_join: "ls \<noteq> [] \<Longrightarrow> concat (map (\<lambda>l. l @ [c]) ls) = join_with c ls @ [c]"
  by (induction c ls rule: join_with.induct) auto

lemma block_lines:
  assumes "ls \<noteq> []" "\<forall>l \<in> set ls. line_ok l"
  shows "text_frames (concat (map (\<lambda>l. l @ [LF]) ls) @ LF # s) = frame_list (join_with LF ls) @ text_frames s"
proof -
  have "nextSSEFrameBoundary (concat (map (\<lambda>l. l @ [LF]) ls) @ LF # s) = Some (length (join_with LF ls), 2)"
    using boundary_lines [OF assms, of 0 s] by (simp add: nextSSEFrameBoundary_def)
  from block_step(2) [OF this] show ?thesis
    by (simp add: text_frames_tail lines_join [OF assms(1)])
qed

definition event_line :: "string \<Rightarrow> string" where "event_line e = ''event: '' @ e"
definition data_line :: "string \<Rightarrow> string" where "data_line d = ''data: '' @ d"

definition wire_lines :: "sse_frame \<Rightarrow> string list" where
  "wire_lines f =
     (case sf_event f of None \<Rightarrow> [] | Some e \<Rightarrow> [event_line e]) @ map data_line (split_at LF (sf_data f))"

lemma wire_is_lines: "frameToWire f = concat (map (\<lambda>l. l @ [LF]) (wire_lines f)) @ [LF]"
proof -
  have "(\<lambda>l. l @ [LF]) \<circ> data_line = (\<lambda>line. ''data: '' @ line @ [LF])" by (auto simp: data_line_def)
  then show ?thesis
    by (simp add: frameToWire_def wire_lines_def event_line_def comp_def split: option.split)
qed

lemma wire_lines_ok: "wire_frame f \<Longrightarrow> wire_lines f \<noteq> [] \<and> (\<forall>l \<in> set (wire_lines f). line_ok l)"
  using split_at_free split_at_subset
  by (fastforce simp: wire_frame_def wire_lines_def line_ok_def event_line_def data_line_def split: option.splits)

lemma strip_cr_id: "CR \<notin> set s \<Longrightarrow> strip_cr s = s"
  by (metis last_in_set strip_cr_def)

lemma parse_event_line: "CR \<notin> set e \<Longrightarrow> parse_line acc (event_line e) = (Some e, snd acc)"
  by (simp add: parse_line_def event_line_def strip_cr_id sse_field_def)

lemma parse_data_line: "CR \<notin> set d \<Longrightarrow> parse_line acc (data_line d) = (fst acc, snd acc @ [d])"
  by (simp add: parse_line_def data_line_def strip_cr_id sse_field_def)

lemma parse_data_lines:
  "\<forall>d \<in> set ds. CR \<notin> set d \<Longrightarrow> foldl parse_line acc (map data_line ds) = (fst acc, snd acc @ ds)"
  by (induction ds arbitrary: acc) (simp_all add: parse_data_line)

lemma parse_wire_lines:
  assumes "wire_frame f"
  shows "frame_list (join_with LF (wire_lines f)) = [f]"
proof -
  have pieces: "\<forall>d \<in> set (split_at LF (sf_data f)). CR \<notin> set d"
    using assms split_at_subset by (fastforce simp: wire_frame_def)
  have "split_at LF (join_with LF (wire_lines f)) = wire_lines f"
    using wire_lines_ok [OF assms] by (intro split_join) (auto simp: line_ok_def)
  moreover have "foldl parse_line (None, []) (wire_lines f) = (sf_event f, split_at LF (sf_data f))"
    using assms pieces
    by (auto simp: wire_lines_def wire_frame_def parse_event_line parse_data_lines split: option.split)
  ultimately show ?thesis by (simp add: frame_list_def parseFrame_def)
qed

text \<open>
  C35. Frames whose data has no carriage return and whose event name has no line break, written one after
  the other onto the wire, are read back as exactly those frames: multi-line data, empty data and event
  names with leading blanks included.
\<close>
theorem sse_round_trip:
  "list_all wire_frame fs \<Longrightarrow> text_frames (concat (map frameToWire fs)) = fs"
proof (induction fs)
  case (Cons f fs)
  then show ?case
    using block_lines [of "wire_lines f"] wire_lines_ok [of f] parse_wire_lines [of f]
    by (simp add: wire_is_lines)
qed (simp add: text_frames_def splitCompleteSSEFrames.simps nextSSEFrameBoundary_def frame_list_def parseFrame_def parse_line_def strip_cr_def)

theorem sse_round_trip_witness:
  "text_frames (concat (map frameToWire
      [\<lparr>sf_event = Some '' ping'', sf_data = [CHR ''a'', LF, LF, CHR '' '']\<rparr>, \<lparr>sf_event = None, sf_data = []\<rparr>])) =
    [\<lparr>sf_event = Some '' ping'', sf_data = [CHR ''a'', LF, LF, CHR '' '']\<rparr>, \<lparr>sf_event = None, sf_data = []\<rparr>]"
  by (rule sse_round_trip) (simp add: wire_frame_def)

end
