(* ===== verification/Retry.thy ===== *)
theory Retry
  imports Upstream_Error
begin

text \<open>
  Retries at the provider's fetch boundary (\<open>packages/core/src/provider/retry.ts\<close>, \<open>codex-capacity.ts\<close>): the
  classification of connection failures, the bounded connection retry, and the overload retry whose budget one
  request shares across HTTP calls, accounts and models. The answers of the wrapped call and the state of the
  abort signal at each look are arguments, indexed by the call.
\<close>

subsection \<open>Which failures are transient\<close>

definition TRANSIENT_CODES :: "string list" where
  "TRANSIENT_CODES =
     [''ECONNRESET'', ''ECONNREFUSED'', ''ECANCELED'', ''EPIPE'', ''ETIMEDOUT'', ''UND_ERR_CONNECT_TIMEOUT'', ''UND_ERR_SOCKET'']"

definition TRANSIENT_MESSAGE_PATTERNS :: "string list" where
  "TRANSIENT_MESSAGE_PATTERNS =
     [''econnreset'', ''econnrefused'', ''epipe'', ''etimedout'', ''other side closed'', ''terminated'', ''socket hang up'',
      ''codex responses websocket is closed'', ''socket connection was closed'', ''premature close'']"

definition pre_connect_codes :: "string list" where
  "pre_connect_codes = [''UND_ERR_CONNECT_TIMEOUT'', ''ECONNREFUSED'', ''ENOTFOUND'', ''EAI_AGAIN'']"

text \<open>The walk down the causes, at most five levels.\<close>

fun cause_walk :: "(thrown \<Rightarrow> bool) \<Rightarrow> nat \<Rightarrow> thrown \<Rightarrow> bool" where
  "cause_walk hit 0 cur = False"
| "cause_walk hit (Suc depth) cur =
     (if cur = No_object then False
      else if th_name cur = Some ''AbortError'' then False
      else if hit cur then True
      else cause_walk hit depth (th_cause cur))"

definition isPreConnectError :: "thrown \<Rightarrow> bool" where
  "isPreConnectError err = cause_walk (\<lambda>e. \<exists>c \<in> set pre_connect_codes. th_code e = Some c) 5 err"

definition transient_here :: "thrown \<Rightarrow> bool" where
  "transient_here e =
     ((\<exists>c \<in> set TRANSIENT_CODES. th_code e = Some c) \<or>
      (case th_message e of
         None \<Rightarrow> False
       | Some m \<Rightarrow> let msg = toLowerCase m in \<exists>p \<in> set TRANSIENT_MESSAGE_PATTERNS. has_text p msg))"

definition isTransientConnectionError :: "thrown \<Rightarrow> bool" where
  "isTransientConnectionError err = cause_walk transient_here 5 err"

fun abort_in_causes :: "nat \<Rightarrow> thrown \<Rightarrow> bool" where
  "abort_in_causes 0 cur = False"
| "abort_in_causes (Suc depth) cur =
     (if cur = No_object then False
      else if th_name cur = Some ''AbortError'' then True
      else abort_in_causes depth (th_cause cur))"

definition isFetchTransportError :: "thrown \<Rightarrow> bool" where
  "isFetchTransportError err =
     (if abort_in_causes 5 err then False
      else if isTransientConnectionError err then True
      else if err = No_object then False
      else th_name err = Some ''TypeError'' \<and>
        (case th_message err of None \<Rightarrow> False | Some m \<Rightarrow> startsWith ''fetch failed'' m))"

subsection \<open>Connection retry\<close>

definition DEFAULT_RETRIES :: int where "DEFAULT_RETRIES = 2"

definition DEFAULT_BACKOFF_MS :: "int list" where "DEFAULT_BACKOFF_MS = [200, 500]"

definition backoff_at :: "int list \<Rightarrow> nat \<Rightarrow> int" where
  "backoff_at backoff attempt = (if backoff = [] then 0 else backoff ! min attempt (length backoff - 1))"

record 'a retry_env =
  re_call :: "nat \<Rightarrow> thrown + 'a"
  re_aborted_before :: "nat \<Rightarrow> bool"
  re_aborted_after :: "nat \<Rightarrow> bool"

text \<open>The final answer and the delays slept; the calls made are one more than the delays, unless an abort ended the last sleep.\<close>

function connection_loop :: "'a retry_env \<Rightarrow> (thrown \<Rightarrow> bool) \<Rightarrow> int \<Rightarrow> int list \<Rightarrow> nat \<Rightarrow> (thrown + 'a) \<times> int list" where
  "connection_loop env shouldRetry retries backoff attempt =
     (case re_call env attempt of
        Inr v \<Rightarrow> (Inr v, [])
      | Inl err \<Rightarrow>
          if int attempt \<ge> retries \<or> re_aborted_before env attempt \<or> \<not> shouldRetry err then (Inl err, [])
          else
            let delay = backoff_at backoff attempt in
            if re_aborted_after env attempt then (Inl err, [delay])
            else
              let (answer, delays) = connection_loop env shouldRetry retries backoff (attempt + 1) in
              (answer, delay # delays))"
  by pat_completeness auto
termination
  by (relation "measure (\<lambda>(env, sr, retries, b, attempt). nat (retries - int attempt))") auto

declare connection_loop.simps [simp del]

definition withConnectionRetry ::
  "'a retry_env \<Rightarrow> (thrown \<Rightarrow> bool) option \<Rightarrow> int option \<Rightarrow> int list option \<Rightarrow> (thrown + 'a) \<times> int list" where
  "withConnectionRetry env shouldRetry retries backoff =
     connection_loop env (nullish shouldRetry isTransientConnectionError)
       (nullish retries DEFAULT_RETRIES) (nullish backoff DEFAULT_BACKOFF_MS) 0"

subsection \<open>Overload retry\<close>

definition OVERLOAD_STATUSES :: "int list" where "OVERLOAD_STATUSES = [503, 529]"

definition OVERLOAD_BACKOFF_MS :: "int list" where "OVERLOAD_BACKOFF_MS = [1000, 3000]"

definition OVERLOAD_MAX_DELAY_MS :: int where "OVERLOAD_MAX_DELAY_MS = 10000"

definition MAX_NUMERIC_RETRY_AFTER_MS :: int where "MAX_NUMERIC_RETRY_AFTER_MS = 24 * 60 * 60000"

definition CAPACITY_BACKOFF_MS :: "int list" where "CAPACITY_BACKOFF_MS = [1000, 3000, 5000]"

definition numericRetryAfterMs :: "string option \<Rightarrow> int option" where
  "numericRetryAfterMs v =
     (case v of
        None \<Rightarrow> None
      | Some s \<Rightarrow>
          let raw = trim s; seconds = int (digits_value raw) in
          if raw = [] \<or> \<not> list_all is_digit raw then None
          else if seconds \<le> 0 then None
          else Some (min (seconds * 1000) MAX_NUMERIC_RETRY_AFTER_MS))"

definition overloadRetryDelayMs :: "int \<Rightarrow> nat \<Rightarrow> string option \<Rightarrow> int list option \<Rightarrow> int option" where
  "overloadRetryDelayMs status attempt retryAfter backoffMs =
     (if status \<notin> set OVERLOAD_STATUSES then None
      else
        let backoff = nullish backoffMs OVERLOAD_BACKOFF_MS in
        if length backoff \<le> attempt then None
        else
          (case numericRetryAfterMs retryAfter of
             Some ms \<Rightarrow> Some (min ms OVERLOAD_MAX_DELAY_MS)
           | None \<Rightarrow> Some (backoff ! attempt)))"

record retry_budget =
  rb_attempt :: nat
  rb_exhausted :: "bool option"

record retry_event =
  rv_attempt :: nat
  rv_delay_ms :: int
  rv_exhausted :: bool

datatype wait_result = Wait_no_budget | Wait_done | Wait_aborted

text \<open>The abort signal at the entry and after the sleep; what is slept and reported.\<close>

definition waitForOverloadRetry ::
  "retry_budget \<Rightarrow> string option \<Rightarrow> int list option \<Rightarrow> bool \<Rightarrow> bool \<Rightarrow> wait_result \<times> int list \<times> retry_event list \<times> retry_budget" where
  "waitForOverloadRetry budget retryAfter backoffMs abortedAtEntry abortedAfter =
     (if abortedAtEntry then (Wait_aborted, [], [], budget)
      else
        (case overloadRetryDelayMs 503 (rb_attempt budget) retryAfter backoffMs of
           None \<Rightarrow>
             (Wait_no_budget, [],
              [\<lparr>rv_attempt = rb_attempt budget, rv_delay_ms = 0, rv_exhausted = True\<rparr>],
              budget\<lparr>rb_exhausted := Some True\<rparr>)
         | Some delay \<Rightarrow>
             let budget' = budget\<lparr>rb_exhausted := Some False, rb_attempt := rb_attempt budget + 1\<rparr> in
             (if abortedAfter then Wait_aborted else Wait_done, [delay],
              [\<lparr>rv_attempt = rb_attempt budget', rv_delay_ms = delay, rv_exhausted = False\<rparr>], budget')))"

record 'r overload_env =
  oe_call :: "nat \<Rightarrow> thrown + 'r"
  oe_ok :: "'r \<Rightarrow> bool"
  oe_status :: "'r \<Rightarrow> int"
  oe_retryAfter :: "'r \<Rightarrow> string option"
  oe_aborted :: "nat \<Rightarrow> bool"
  oe_aborted_entry :: "nat \<Rightarrow> bool"
  oe_aborted_after :: "nat \<Rightarrow> bool"

record 'r overload_run =
  or_answer :: "thrown + 'r"
  or_calls :: nat
  or_cancelled :: "'r list"
  or_delays :: "int list"
  or_budget :: retry_budget

lemma wait_grows:
  "waitForOverloadRetry budget ra backoff a b = (Wait_done, ds, evs, budget') \<Longrightarrow>
     rb_attempt budget' = Suc (rb_attempt budget) \<and> rb_attempt budget < length (nullish backoff OVERLOAD_BACKOFF_MS)"
  by (auto simp: waitForOverloadRetry_def overloadRetryDelayMs_def Let_def split: if_splits option.splits)

text \<open>
  The loop after the answer of call number \<open>n\<close>. The budget's attempt grows with every wait that is
  granted, which bounds the recursion. An abort during the wait returns the last answer.
\<close>

function overload_loop :: "'r overload_env \<Rightarrow> nat \<Rightarrow> retry_budget \<Rightarrow> 'r overload_run" where
  "overload_loop env n budget =
     (case oe_call env n of
        Inl err \<Rightarrow> \<lparr>or_answer = Inl err, or_calls = 1, or_cancelled = [], or_delays = [], or_budget = budget\<rparr>
      | Inr res \<Rightarrow>
          if oe_ok env res \<or> oe_aborted env n \<or> oe_status env res \<notin> set OVERLOAD_STATUSES
          then \<lparr>or_answer = Inr res, or_calls = 1, or_cancelled = [], or_delays = [], or_budget = budget\<rparr>
          else
            let dropped = (if rb_attempt budget < length OVERLOAD_BACKOFF_MS then [res] else []) in
            (case waitForOverloadRetry budget (oe_retryAfter env res) None (oe_aborted_entry env n) (oe_aborted_after env n) of
               (w, delays, _, budget') \<Rightarrow>
                 if w \<noteq> Wait_done
                 then \<lparr>or_answer = Inr res, or_calls = 1, or_cancelled = dropped, or_delays = delays, or_budget = budget'\<rparr>
                 else
                   let run = overload_loop env (n + 1) budget' in
                   run\<lparr>or_calls := or_calls run + 1, or_cancelled := dropped @ or_cancelled run,
                       or_delays := delays @ or_delays run\<rparr>))"
  by pat_completeness auto

termination
  by (relation "measure (\<lambda>(env, n, budget). length OVERLOAD_BACKOFF_MS - rb_attempt budget)")
    (auto dest!: wait_grows [OF sym])

declare overload_loop.simps [simp del]

definition withOverloadRetry :: "'r overload_env \<Rightarrow> retry_budget option \<Rightarrow> 'r overload_run" where
  "withOverloadRetry env budget = overload_loop env 0 (nullish budget \<lparr>rb_attempt = 0, rb_exhausted = None\<rparr>)"

subsection \<open>Codex capacity\<close>

definition CAPACITY_MESSAGE :: string where
  "CAPACITY_MESSAGE = ''Selected model is at capacity. Please try a different model.''"

text \<open>\<open>String(v)\<close>.\<close>

fun js_String :: "(rat \<Rightarrow> string) \<Rightarrow> json \<Rightarrow> string" where
  "js_String num JNull = ''null''"
| "js_String num (JBool b) = (if b then ''true'' else ''false'')"
| "js_String num (JNum n) = num n"
| "js_String num (JStr s) = s"
| "js_String num (JArr vs) = comma_join (map (\<lambda>v. if v = JNull then [] else js_String num v) vs)"
| "js_String num (JObj kvs) = ''[object Object]''"

definition record_of :: "json option \<Rightarrow> json option" where
  "record_of v = (case v of Some (JObj kvs) \<Rightarrow> v | _ \<Rightarrow> None)"

definition isCodexCapacityRejection :: "(rat \<Rightarrow> string) \<Rightarrow> thrown \<Rightarrow> bool" where
  "isCodexCapacityRejection num err =
     (case upstream_of err of
        None \<Rightarrow> False
      | Some u \<Rightarrow>
          if uf_errorClass u \<noteq> Upstream_error then False
          else if uf_upstreamStatus u \<notin> {None, Some 429, Some 503, Some 529} then False
          else
            let raw0 = record_of (uf_providerRaw u);
                body = record_of (opt_prop ''body'' raw0);
                raw = (if uf_upstreamStatus u = Some 429 \<and> body \<noteq> None then body else raw0) in
            if uf_upstreamStatus u = None \<and> opt_prop ''type'' raw \<notin> {Some (JStr ''error''), Some (JStr ''response.failed'')}
            then False
            else
              let candidate = or_else (record_of (opt_prop ''error'' raw))
                    (record_of (opt_prop ''error'' (record_of (opt_prop ''response'' raw))));
                  type = opt_prop ''type'' candidate; code = opt_prop ''code'' candidate in
              if opt_prop ''message'' candidate \<noteq> Some (JStr CAPACITY_MESSAGE) then False
              else if (case type of None \<Rightarrow> False | Some t \<Rightarrow> t \<noteq> JNull \<and>
                  js_String num t \<notin> {''server_error'', ''service_unavailable_error'', ''rate_limit_error''}) then False
              else (case code of None \<Rightarrow> True | Some c \<Rightarrow> c = JNull \<or>
                  js_String num c \<in> {''server_is_overloaded'', ''service_unavailable'', ''rate_limit_exceeded''}))"

definition CodexCapacityRetryExhaustedError :: "(nat \<Rightarrow> string) \<Rightarrow> thrown \<Rightarrow> upstream_fields \<Rightarrow> nat \<Rightarrow> bool \<Rightarrow> thrown" where
  "CodexCapacityRetryExhaustedError showN err u retries accountUnavailable =
     (let message = CAPACITY_MESSAGE @ '' Retried '' @ showN retries @ '' times on the same account. '' @
            (if accountUnavailable then ''That account is now unavailable. '' else []) @ ''Try another account manually.'' in
      Thrown (Codex_capacity_exhausted
          \<lparr>uf_errorClass = Upstream_error,
           uf_providerRaw = Some (JObj
             [(''error'', JObj [(''type'', JStr ''server_error''), (''code'', JStr ''codex_model_capacity_exhausted''),
                              (''message'', JStr message)]),
              (''retry_count'', JNum (of_nat retries)), (''advice'', JStr ''switch_account''),
              (''upstream'', nullish (uf_providerRaw u) JNull)]),
           uf_upstreamStatus = uf_upstreamStatus u, uf_upstreamHeaders = uf_upstreamHeaders u\<rparr>)
        (Some ''CodexCapacityRetryExhaustedError'') None (Some message) err)"

text \<open>What is thrown, if anything; an abort is thrown by the signal and is \<open>None\<close> inside.\<close>

definition waitForCodexCapacityRetry ::
  "(nat \<Rightarrow> string) \<Rightarrow> thrown \<Rightarrow> upstream_fields \<Rightarrow> retry_budget \<Rightarrow> bool \<Rightarrow> bool \<Rightarrow> thrown option option \<times> int list \<times> retry_budget" where
  "waitForCodexCapacityRetry showN err u budget abortedAtEntry abortedAfter =
     (case waitForOverloadRetry budget (Option.bind (uf_upstreamHeaders u) (\<lambda>h. map_of h ''retry-after''))
         (Some CAPACITY_BACKOFF_MS) abortedAtEntry abortedAfter of
        (w, delays, _, budget') \<Rightarrow>
          (case w of
             Wait_done \<Rightarrow> None
           | Wait_aborted \<Rightarrow> Some None
           | Wait_no_budget \<Rightarrow> Some (Some (CodexCapacityRetryExhaustedError showN err u (rb_attempt budget') False)),
           delays, budget'))"

subsection \<open>Claude account identity\<close>

definition AnthropicIdentityError :: "string \<Rightarrow> thrown" where
  "AnthropicIdentityError msg = Thrown Anthropic_identity (Some ''AnthropicIdentityError'') None (Some msg) No_object"

text \<open>
  The account a Claude client asserts in its user id: a string that parses to an object whose \<open>account_uuid\<close> is set
  must hold a UUID. The UUID schema is the argument.
\<close>

definition anthropicRequestAccountUuid :: "(json \<Rightarrow> string option) \<Rightarrow> json option \<Rightarrow> thrown + string option" where
  "anthropicRequestAccountUuid uuid body =
     (case as_string (opt_prop ''user_id'' (record_of (opt_prop ''metadata'' body))) of
        None \<Rightarrow> Inr None
      | Some userId \<Rightarrow>
          (case opt_prop ''account_uuid'' (record_of (JSON_parse userId)) of
             None \<Rightarrow> Inr None
           | Some v \<Rightarrow>
               if v = JStr [] then Inr None
               else (case uuid v of
                   Some u \<Rightarrow> Inr (Some u)
                 | None \<Rightarrow> Inl (AnthropicIdentityError ''Claude request contains an invalid account UUID''))))"

subsection \<open>Bounds\<close>

lemma backoff_values: "i < length OVERLOAD_BACKOFF_MS \<Longrightarrow> 0 \<le> OVERLOAD_BACKOFF_MS ! i \<and> OVERLOAD_BACKOFF_MS ! i \<le> OVERLOAD_MAX_DELAY_MS"
  "i < length CAPACITY_BACKOFF_MS \<Longrightarrow> 0 \<le> CAPACITY_BACKOFF_MS ! i \<and> CAPACITY_BACKOFF_MS ! i \<le> OVERLOAD_MAX_DELAY_MS"
  by (auto simp: OVERLOAD_BACKOFF_MS_def CAPACITY_BACKOFF_MS_def OVERLOAD_MAX_DELAY_MS_def less_Suc_eq)

lemma numeric_retry_after_range: "numericRetryAfterMs v = Some ms \<Longrightarrow> 0 < ms \<and> ms \<le> MAX_NUMERIC_RETRY_AFTER_MS"
  by (auto simp: numericRetryAfterMs_def Let_def MAX_NUMERIC_RETRY_AFTER_MS_def split: option.splits if_splits)

lemma overload_delay_range:
  assumes "overloadRetryDelayMs status attempt ra backoff = Some d" "backoff \<in> {None, Some CAPACITY_BACKOFF_MS}"
  shows "0 \<le> d \<and> d \<le> OVERLOAD_MAX_DELAY_MS \<and> attempt < length (nullish backoff OVERLOAD_BACKOFF_MS)"
  using assms backoff_values [of attempt] numeric_retry_after_range [of ra]
  by (auto simp: overloadRetryDelayMs_def Let_def OVERLOAD_MAX_DELAY_MS_def split: if_splits option.splits)

lemma backoff_lengths [simp]: "length OVERLOAD_BACKOFF_MS = 2" "length CAPACITY_BACKOFF_MS = 3"
  by (simp_all add: OVERLOAD_BACKOFF_MS_def CAPACITY_BACKOFF_MS_def)

definition spent :: "retry_budget \<Rightarrow> int list \<Rightarrow> retry_budget \<Rightarrow> nat \<Rightarrow> bool" where
  "spent b delays b' cap \<longleftrightarrow>
     rb_attempt b' = rb_attempt b + length delays \<and> (if delays = [] then True else rb_attempt b' \<le> cap) \<and>
     list_all (\<lambda>d. 0 \<le> d \<and> d \<le> OVERLOAD_MAX_DELAY_MS) delays"

lemma spent_none [simp]: "spent b [] b c"
  by (simp add: spent_def)

lemma spent_trans: "spent b ds b' c \<Longrightarrow> spent b' es b'' c \<Longrightarrow> spent b (ds @ es) b'' c"
  by (auto simp: spent_def split: if_splits)

lemma spent_mono: "spent b ds b' c \<Longrightarrow> c \<le> d \<Longrightarrow> spent b ds b' d"
  by (auto simp: spent_def split: if_splits)

lemma wait_spent:
  assumes "waitForOverloadRetry b ra backoff x y = (w, ds, evs, b')" "backoff \<in> {None, Some CAPACITY_BACKOFF_MS}"
  shows "spent b ds b' (length (nullish backoff OVERLOAD_BACKOFF_MS))"
  using assms overload_delay_range
  by (fastforce simp: waitForOverloadRetry_def spent_def Let_def split: if_splits option.splits)

lemma overload_loop_spent:
  "let run = overload_loop env n b in
     spent b (or_delays run) (or_budget run) (length OVERLOAD_BACKOFF_MS) \<and>
     or_calls run \<le> Suc (length (or_delays run)) \<and>
     or_answer run = oe_call env (n + or_calls run - 1) \<and> 0 < or_calls run"
proof (induction env n b rule: overload_loop.induct)
  case (1 env n b)
  show ?case
  proof (cases "oe_call env n")
    case (Inr res)
    obtain w ds evs b' where wait:
      "waitForOverloadRetry b (oe_retryAfter env res) None (oe_aborted_entry env n) (oe_aborted_after env n) = (w, ds, evs, b')"
      by (metis prod_cases4)
    have sp: "spent b ds b' (length OVERLOAD_BACKOFF_MS)" using wait_spent [OF wait] by simp
    have one: "w = Wait_done \<Longrightarrow> length ds = 1"
      using wait by (auto simp: waitForOverloadRetry_def Let_def split: if_splits option.splits)
    show ?thesis
    proof (cases "oe_ok env res \<or> oe_aborted env n \<or> oe_status env res \<notin> set OVERLOAD_STATUSES \<or> w \<noteq> Wait_done")
      case True
      then show ?thesis using Inr wait sp by (auto simp: overload_loop.simps [of env n b] Let_def)
    next
      case False
      note ih = "1.IH" [OF Inr _ refl wait [symmetric] refl refl]
      show ?thesis using ih False Inr wait sp one spent_trans [OF sp]
        by (simp add: overload_loop.simps [of env n b] Let_def)
    qed
  qed (simp add: overload_loop.simps [of env n b] Let_def)
qed

lemma connection_loop_bounds:
  "case connection_loop env sr retries backoff n of (answer, delays) \<Rightarrow>
     int (length delays) \<le> max 0 (retries - int n) \<and>
     list_all (\<lambda>i. case re_call env (n + i) of Inl e \<Rightarrow> sr e | Inr _ \<Rightarrow> False) [0..<length delays] \<and>
     delays = map (backoff_at backoff) [n..<n + length delays] \<and>
     (answer = re_call env (n + length delays) \<or>
      0 < length delays \<and> re_aborted_after env (n + length delays - 1) \<and> answer = re_call env (n + length delays - 1))"
proof (induction env sr retries backoff n rule: connection_loop.induct)
  case (1 env sr retries backoff n)
  show ?case
  proof (cases "re_call env n")
    case (Inl err)
    show ?thesis
    proof (cases "int n \<ge> retries \<or> re_aborted_before env n \<or> \<not> sr err \<or> re_aborted_after env n")
      case True
      then show ?thesis using Inl by (auto simp: connection_loop.simps [of env sr retries backoff n] Let_def)
    next
      case False
      obtain answer ds where rec: "connection_loop env sr retries backoff (n + 1) = (answer, ds)"
        by (cases "connection_loop env sr retries backoff (n + 1)")
      note ih = "1.IH" [OF Inl _ refl, unfolded rec prod.case]
      have res: "connection_loop env sr retries backoff n = (answer, backoff_at backoff n # ds)"
        using False Inl rec by (simp add: connection_loop.simps [of env sr retries backoff n] Let_def)
      have few: "int (length ds) \<le> max 0 (retries - int (n + 1))" using ih False by blast
      have "\<forall>i < length ds. case re_call env (Suc (n + i)) of Inl e \<Rightarrow> sr e | Inr _ \<Rightarrow> False"
        using ih False by (auto simp: list_all_iff)
      then have retried: "\<forall>i < Suc (length ds). case re_call env (n + i) of Inl e \<Rightarrow> sr e | Inr _ \<Rightarrow> False"
        using Inl False by (auto simp: less_Suc_eq_0_disj)
      have delays: "ds = map (backoff_at backoff) [n + 1..<n + 1 + length ds]" using ih False by blast
      have "[n..<n + Suc (length ds)] = n # [n + 1..<n + 1 + length ds]" by (simp add: upt_rec del: upt_Suc)
      then have delays': "backoff_at backoff n # ds = map (backoff_at backoff) [n..<n + Suc (length ds)]"
        using delays by simp
      have ans: "answer = re_call env (n + 1 + length ds) \<or>
          0 < length ds \<and> re_aborted_after env (n + 1 + length ds - 1) \<and> answer = re_call env (n + 1 + length ds - 1)"
        using ih False by blast
      show ?thesis
        unfolding res prod.case
      proof (intro conjI)
        show "int (length (backoff_at backoff n # ds)) \<le> max 0 (retries - int n)" using few False by simp
        show "list_all (\<lambda>i. case re_call env (n + i) of Inl e \<Rightarrow> sr e | Inr _ \<Rightarrow> False)
            [0..<length (backoff_at backoff n # ds)]"
          using retried by (simp add: list_all_iff del: upt_Suc)
        show "backoff_at backoff n # ds = map (backoff_at backoff) [n..<n + length (backoff_at backoff n # ds)]"
          using delays' by simp
        show "answer = re_call env (n + length (backoff_at backoff n # ds)) \<or>
            0 < length (backoff_at backoff n # ds) \<and>
            re_aborted_after env (n + length (backoff_at backoff n # ds) - 1) \<and>
            answer = re_call env (n + length (backoff_at backoff n # ds) - 1)"
          using ans by auto
      qed
    qed
  qed (simp add: connection_loop.simps [of env sr retries backoff n])
qed

text \<open>
  The connection retry terminates with at most the configured number of delays (two by default); it
  sleeps the configured backoffs in order, every answer it retried was a retryable failure, and what it
  returns is the answer of the last call it made, unchanged - of the call before the sleep when the client
  left during it.
\<close>
theorem connection_retry_bounded:
  "case withConnectionRetry env sr retries backoff of (answer, delays) \<Rightarrow>
     int (length delays) \<le> max 0 (nullish retries DEFAULT_RETRIES) \<and>
     list_all (\<lambda>i. case re_call env i of Inl e \<Rightarrow> nullish sr isTransientConnectionError e | Inr _ \<Rightarrow> False)
       [0..<length delays] \<and>
     delays = map (backoff_at (nullish backoff DEFAULT_BACKOFF_MS)) [0..<length delays] \<and>
     (answer = re_call env (length delays) \<or>
      0 < length delays \<and> re_aborted_after env (length delays - 1) \<and> answer = re_call env (length delays - 1))"
  using connection_loop_bounds [where n = 0 and env = env and sr = "nullish sr isTransientConnectionError"
      and retries = "nullish retries DEFAULT_RETRIES" and backoff = "nullish backoff DEFAULT_BACKOFF_MS"]
  by (simp add: withConnectionRetry_def)

text \<open>A request's uses of its one budget: HTTP calls and Codex capacity waits, in any order.\<close>

datatype 'r overload_use =
    Http_call "'r overload_env"
  | Capacity_wait thrown upstream_fields bool bool

fun use_budget :: "(nat \<Rightarrow> string) \<Rightarrow> int list \<times> retry_budget \<Rightarrow> 'r overload_use \<Rightarrow> int list \<times> retry_budget" where
  "use_budget showN (slept, b) (Http_call env) =
     (let run = withOverloadRetry env (Some b) in (slept @ or_delays run, or_budget run))"
| "use_budget showN (slept, b) (Capacity_wait err u entry after) =
     (case waitForCodexCapacityRetry showN err u b entry after of (_, delays, b') \<Rightarrow> (slept @ delays, b'))"

lemma capacity_spent:
  "waitForCodexCapacityRetry showN err u b x y = (t, ds, b') \<Longrightarrow> spent b ds b' 3"
  unfolding waitForCodexCapacityRetry_def
  by (auto dest!: wait_spent split: prod.splits)

lemma use_spent: "case use_budget showN (slept, b) u of (slept', b') \<Rightarrow> \<exists>ds. slept' = slept @ ds \<and> spent b ds b' 3"
proof (cases u)
  case (Http_call env)
  then show ?thesis using overload_loop_spent [of env 0 b]
    by (auto simp: withOverloadRetry_def Let_def intro: spent_mono)
next
  case (Capacity_wait err w x y)
  then show ?thesis
    using capacity_spent by (cases "waitForCodexCapacityRetry showN err w b x y") (auto dest: capacity_spent)
qed

lemma uses_spent:
  "case foldl (use_budget showN) (slept, b) us of (slept', b') \<Rightarrow> \<exists>ds. slept' = slept @ ds \<and> spent b ds b' 3"
proof (induction us arbitrary: slept b)
  case (Cons u us)
  obtain s1 b1 where u: "use_budget showN (slept, b) u = (s1, b1)" by (cases "use_budget showN (slept, b) u")
  then obtain ds where ds: "s1 = slept @ ds" "spent b ds b1 3" using use_spent [where showN = showN and slept = slept and b = b and u = u] by auto
  show ?case using Cons.IH [of s1 b1] u ds spent_trans [OF ds(2)] by (fastforce split: prod.splits)
qed simp

lemma sum_list_bound: "list_all (\<lambda>d. (0::int) \<le> d \<and> d \<le> m) ds \<Longrightarrow> 0 \<le> sum_list ds \<and> sum_list ds \<le> m * int (length ds)"
  by (induction ds) (auto simp: algebra_simps)

text \<open>
  One request waits out overloads at most three times and 30 seconds in all, whatever its HTTP calls and
  Codex capacity retries are, in whatever order they use the request's budget and whatever Retry-After the
  upstreams ask for.
\<close>
theorem overload_sleep_bounded:
  "case foldl (use_budget showN) ([], \<lparr>rb_attempt = 0, rb_exhausted = None\<rparr>) us of (slept, _) \<Rightarrow>
     length slept \<le> 3 \<and> 0 \<le> sum_list slept \<and> sum_list slept \<le> 30000"
proof -
  let ?b = "\<lparr>rb_attempt = 0, rb_exhausted = None\<rparr>"
  obtain slept b where us: "foldl (use_budget showN) ([], ?b) us = (slept, b)" by (metis surj_pair)
  then have sp: "spent ?b slept b 3" using uses_spent [where showN = showN and slept = "[]" and b = ?b and us = us] by simp
  have "length slept \<le> 3" using sp by (auto simp: spent_def split: if_splits)
  moreover have "0 \<le> sum_list slept \<and> sum_list slept \<le> 10000 * int (length slept)"
    using sp sum_list_bound [of OVERLOAD_MAX_DELAY_MS slept] by (simp add: spent_def OVERLOAD_MAX_DELAY_MS_def)
  ultimately show ?thesis using us by simp
qed

text \<open>
  The overload retry returns the answer of the last call it made, unchanged, after at most three calls;
  and an answer that is neither 503 nor 529 is returned at once, without a wait.
\<close>
theorem overload_retry_answer:
  "let run = withOverloadRetry env None in
     or_answer run = oe_call env (or_calls run - 1) \<and> 1 \<le> or_calls run \<and> or_calls run \<le> 3 \<and>
     (case oe_call env 0 of
        Inl _ \<Rightarrow> or_calls run = 1 \<and> or_delays run = []
      | Inr res \<Rightarrow> if oe_status env res \<in> set OVERLOAD_STATUSES then True else or_calls run = 1 \<and> or_delays run = [])"
proof -
  let ?b = "\<lparr>rb_attempt = 0, rb_exhausted = None\<rparr>"
  have "length (or_delays (overload_loop env 0 ?b)) \<le> 2"
    using overload_loop_spent [of env 0 ?b] by (auto simp: Let_def spent_def split: if_splits)
  then show ?thesis
    using overload_loop_spent [of env 0 ?b]
    by (auto simp: withOverloadRetry_def Let_def overload_loop.simps [of env 0 ?b] split: sum.split)
qed

end
