(* ===== verification/Failover_Guard.thy ===== *)
theory Failover_Guard
  imports Sse Upstream_Error Retry Route_Plan
begin

text \<open>
  The pre-output failover guard (\<open>packages/core/src/provider/failover-guard.ts\<close>): the classifiers of the three
  wire protocols, and the wrapper that holds back a stream's preamble until the first real output, turns an
  in-band failure before it into a thrown error, and relays everything else byte for byte. A source is the
  sequence of what its pulls meet: a chunk, a failure, or the first-output deadline; its end is the list's end.
\<close>

definition MAX_PRE_OUTPUT_BUFFER_BYTES :: int where
  "MAX_PRE_OUTPUT_BUFFER_BYTES = 1048576"

datatype chunk_class = Preamble | Output | Error_frame

datatype classifier = Responses_classifier | Anthropic_classifier | Chat_classifier

subsection \<open>Reading a frame\<close>

definition data_values :: "string \<Rightarrow> string list" where
  "data_values event =
     map (\<lambda>line. let v = drop 5 line in if v \<noteq> [] \<and> hd v = CHR '' '' then tl v else v)
       (filter (startsWith ''data:'') (split_at LF event))"

definition extractData :: "string \<Rightarrow> string option" where
  "extractData event = (let vs = data_values event in if vs = [] then None else Some (join_with LF vs))"

definition asRecord :: "json option \<Rightarrow> json option" where
  "asRecord v = (if is_object v then v else None)"

definition tryParse :: "string \<Rightarrow> json option" where
  "tryParse data = asRecord (JSON_parse data)"

definition errorFields :: "json \<Rightarrow> json_object" where
  "errorFields v =
     List.map_filter
       (\<lambda>key. case prop_of key v of
          Some (JStr s) \<Rightarrow> Some (key, JStr s)
        | Some (JNum n) \<Rightarrow> Some (key, JNum n)
        | Some JNull \<Rightarrow> Some (key, JNull)
        | _ \<Rightarrow> None)
       [''type'', ''code'', ''message'', ''param'']"

definition errorProviderRaw :: "string \<Rightarrow> json option" where
  "errorProviderRaw data =
     (case tryParse data of
        None \<Rightarrow> None
      | Some obj \<Rightarrow>
          let out = errorFields obj;
              out1 = (case asRecord (prop_of ''error'' obj) of
                  Some e \<Rightarrow> out @ [(''error'', JObj (errorFields e))]
                | None \<Rightarrow>
                    (case prop_of ''error'' obj of
                       Some (JStr s) \<Rightarrow> out @ [(''error'', JStr s)]
                     | _ \<Rightarrow> out)) in
          Some (JObj
            (case asRecord (opt_prop ''error'' (asRecord (prop_of ''response'' obj))) of
               Some e \<Rightarrow> out1 @ [(''response'', JObj [(''error'', JObj (errorFields e))])]
             | None \<Rightarrow> out1)))"

definition nonEmptyString :: "json option \<Rightarrow> bool" where
  "nonEmptyString v = (case v of Some (JStr s) \<Rightarrow> s \<noteq> [] | _ \<Rightarrow> False)"

text \<open>\<open>a ?? b\<close> on values: \<open>null\<close> counts as missing.\<close>

definition coalesce :: "json option \<Rightarrow> json option \<Rightarrow> json option" where
  "coalesce a b = (if is_nullish a then b else a)"

text \<open>\<open>a || b\<close> where the result becomes an error's message.\<close>

definition message_or :: "(rat \<Rightarrow> string) \<Rightarrow> json option \<Rightarrow> string \<Rightarrow> string" where
  "message_or num v d = (case v of Some m \<Rightarrow> if truthy v then js_String num m else d | None \<Rightarrow> d)"

subsection \<open>OpenAI Responses\<close>

definition responsesPartClass :: "json option \<Rightarrow> chunk_class" where
  "responsesPartClass v =
     (let part = asRecord v; t = as_string (opt_prop ''type'' part) in
      if t \<in> {Some ''output_text'', Some ''summary_text'', Some ''reasoning_text''}
      then (if opt_prop ''text'' part = Some (JStr []) then Preamble else Output)
      else if t = Some ''refusal'' then (if opt_prop ''refusal'' part = Some (JStr []) then Preamble else Output)
      else Output)"

definition emptyResponsesParts :: "json option \<Rightarrow> bool" where
  "emptyResponsesParts v =
     (case v of Some (JArr ps) \<Rightarrow> list_all (\<lambda>p. responsesPartClass (Some p) = Preamble) ps | _ \<Rightarrow> False)"

definition responses_item_empty :: "json option \<Rightarrow> bool" where
  "responses_item_empty item =
     (let t = as_string (opt_prop ''type'' item) in
      t = Some ''message'' \<and> emptyResponsesParts (opt_prop ''content'' item) \<or>
      t = Some ''reasoning'' \<and> emptyResponsesParts (opt_prop ''summary'' item) \<and>
        (opt_prop ''content'' item = None \<or> emptyResponsesParts (opt_prop ''content'' item)) \<and>
        (is_nullish (opt_prop ''encrypted_content'' item) \<or> opt_prop ''encrypted_content'' item = Some (JStr [])))"

definition responses_classify :: "string \<Rightarrow> chunk_class" where
  "responses_classify data =
     (if data = ''[DONE]'' then Output
      else
        (case tryParse data of
           None \<Rightarrow> Output
         | Some obj \<Rightarrow>
             let t = as_string (prop_of ''type'' obj) in
             if t \<in> {Some ''response.created'', Some ''response.in_progress''} then Preamble
             else if t \<in> {Some ''response.metadata'', Some ''codex.response.metadata'', Some ''codex.rate_limits'',
                 Some ''responsesapi.websocket_timing'', Some ''keepalive''} then Preamble
             else if t \<in> {Some ''error'', Some ''response.failed''} then Error_frame
             else if t \<in> {Some ''response.output_item.added'', Some ''response.output_item.done''} \<and>
                 responses_item_empty (asRecord (prop_of ''item'' obj)) then Preamble
             else if t \<in> {Some ''response.content_part.added'', Some ''response.content_part.done'',
                 Some ''response.reasoning_summary_part.added'', Some ''response.reasoning_summary_part.done''}
             then responsesPartClass (prop_of ''part'' obj)
             else if t \<in> {Some ''response.output_text.delta'', Some ''response.reasoning_summary_text.delta'',
                 Some ''response.reasoning_text.delta'', Some ''response.refusal.delta''} \<and>
                 prop_of ''delta'' obj = Some (JStr []) then Preamble
             else Output))"

definition responses_errorMessage :: "(rat \<Rightarrow> string) \<Rightarrow> string \<Rightarrow> string" where
  "responses_errorMessage num data =
     (let obj = nullish (tryParse data) (JObj []);
          outer = coalesce (prop_of ''error'' obj) (Some obj);
          nested = opt_prop ''error'' (prop_of ''response'' obj) in
      message_or num (opt_prop ''message'' outer)
        (message_or num (opt_prop ''message'' nested) ''upstream responses stream error''))"

definition outcome_unknown_message :: string where
  "outcome_unknown_message = ''upstream response stream ended after request acceptance before producing output''"

definition lifecycle :: "string \<times> json" where
  "lifecycle = (''http'', JObj [(''lifecycle_phase'', JStr ''after_response_created_before_output'')])"

definition responsesOutcomeUnknown :: "thrown \<Rightarrow> thrown" where
  "responsesOutcomeUnknown cause =
     UpstreamError Upstream_error outcome_unknown_message
       (Some (JObj
         [(''error'', JObj [(''type'', JStr ''invalid_request_error''),
                          (''code'', JStr CODEX_RESPONSES_OUTCOME_UNKNOWN_CODE),
                          (''message'', JStr outcome_unknown_message)]), lifecycle]))
       (Some 400) cause"

subsection \<open>Anthropic Messages\<close>

definition anthropic_block_start :: "json option \<Rightarrow> chunk_class" where
  "anthropic_block_start block =
     (let t = as_string (opt_prop ''type'' block) in
      if block = None then Preamble
      else if t = Some ''tool_use'' then
        (if nonEmptyString (opt_prop ''id'' block) \<and> nonEmptyString (opt_prop ''name'' block) then Output else Preamble)
      else if t = Some ''text'' then (if nonEmptyString (opt_prop ''text'' block) then Output else Preamble)
      else if t = Some ''thinking'' then (if nonEmptyString (opt_prop ''thinking'' block) then Output else Preamble)
      else if t = Some ''redacted_thinking'' then (if nonEmptyString (opt_prop ''data'' block) then Output else Preamble)
      else Output)"

definition anthropic_block_delta :: "json option \<Rightarrow> chunk_class" where
  "anthropic_block_delta delta =
     (if delta = None then Preamble
      else if \<exists>k \<in> set [''text'', ''partial_json'', ''thinking'', ''signature'']. nonEmptyString (opt_prop k delta)
      then Output
      else if as_string (opt_prop ''type'' delta)
          \<in> {Some ''text_delta'', Some ''input_json_delta'', Some ''thinking_delta'', Some ''signature_delta''}
      then Preamble else Output)"

definition anthropic_classify :: "string \<Rightarrow> chunk_class" where
  "anthropic_classify data =
     (if data = ''[DONE]'' then Output
      else
        (case tryParse data of
           None \<Rightarrow> Output
         | Some obj \<Rightarrow>
             let t = as_string (prop_of ''type'' obj) in
             if t \<in> {Some ''message_start'', Some ''ping''} then Preamble
             else if t = Some ''error'' then Error_frame
             else if t = Some ''content_block_start'' then anthropic_block_start (asRecord (prop_of ''content_block'' obj))
             else if t = Some ''content_block_delta'' then anthropic_block_delta (asRecord (prop_of ''delta'' obj))
             else if t \<in> {Some ''content_block_stop'', Some ''message_delta'', Some ''message_stop''} then Preamble
             else Output))"

definition plain_errorMessage :: "(rat \<Rightarrow> string) \<Rightarrow> string \<Rightarrow> string \<Rightarrow> string" where
  "plain_errorMessage num d data =
     (let obj = nullish (tryParse data) (JObj []) in
      message_or num (opt_prop ''message'' (coalesce (prop_of ''error'' obj) (Some (JObj [])))) d)"

subsection \<open>OpenAI Chat\<close>

definition chat_has_content :: "json option \<Rightarrow> bool" where
  "chat_has_content delta =
     (nonEmptyString (opt_prop ''content'' delta) \<or>
      \<not> is_nullish (opt_prop ''tool_calls'' delta) \<or>
      \<not> is_nullish (opt_prop ''function_call'' delta) \<or>
      nonEmptyString (opt_prop ''reasoning_content'' delta) \<or>
      \<not> is_nullish (opt_prop ''refusal'' delta))"

definition chat_classify :: "string \<Rightarrow> chunk_class" where
  "chat_classify data =
     (if data = ''[DONE]'' then Output
      else
        (case tryParse data of
           None \<Rightarrow> Output
         | Some obj \<Rightarrow>
             if truthy (prop_of ''error'' obj) then Error_frame
             else
               (case prop_of ''choices'' obj of
                  Some (JArr (choice # _)) \<Rightarrow>
                    let c = coalesce (Some choice) (Some (JObj []));
                        delta = coalesce (opt_prop ''delta'' c) (Some (JObj [])) in
                    if \<not> is_nullish (opt_prop ''finish_reason'' c) then Output
                    else if chat_has_content delta then Output
                    else if \<not> is_nullish (opt_prop ''role'' delta) then Preamble
                    else Output
                | _ \<Rightarrow> Output)))"

fun classify_frame :: "classifier \<Rightarrow> string \<Rightarrow> chunk_class" where
  "classify_frame Responses_classifier = responses_classify"
| "classify_frame Anthropic_classifier = anthropic_classify"
| "classify_frame Chat_classifier = chat_classify"

fun errorMessage :: "(rat \<Rightarrow> string) \<Rightarrow> classifier \<Rightarrow> string \<Rightarrow> string" where
  "errorMessage num Responses_classifier data = responses_errorMessage num data"
| "errorMessage num Anthropic_classifier data = plain_errorMessage num ''upstream anthropic stream error'' data"
| "errorMessage num Chat_classifier data = plain_errorMessage num ''upstream stream error'' data"

definition streamErrorFromData :: "(rat \<Rightarrow> string) \<Rightarrow> classifier \<Rightarrow> string \<Rightarrow> thrown" where
  "streamErrorFromData num k data =
     UpstreamError Upstream_error (errorMessage num k data) (errorProviderRaw data) None No_object"

definition preOutputClassifierFor :: "protocol \<Rightarrow> classifier option" where
  "preOutputClassifierFor p =
     (case p of
        Openai_responses \<Rightarrow> Some Responses_classifier
      | Anthropic_messages \<Rightarrow> Some Anthropic_classifier
      | Openai_chat \<Rightarrow> Some Chat_classifier
      | Gemini \<Rightarrow> None)"

subsection \<open>The guard\<close>

datatype pull = Chunk string | Source_error thrown | Deadline

record guard =
  gd_buffered :: "string list"
  gd_bytes :: int
  gd_sse :: string
  gd_committed :: bool
  gd_explicit :: bool

definition guard_init :: guard where
  "guard_init = \<lparr>gd_buffered = [], gd_bytes = 0, gd_sse = [], gd_committed = False, gd_explicit = False\<rparr>"

datatype scan_verdict = Scan_more | Scan_commit | Scan_error string

text \<open>The inner loop over the complete frames of the text buffer: what is left of it, and why it stopped.\<close>

function scan_frames :: "classifier \<Rightarrow> string \<Rightarrow> string \<times> scan_verdict" where
  "scan_frames k sse =
     (case nextSSEFrameBoundary sse of
        None \<Rightarrow> (sse, Scan_more)
      | Some (index, len) \<Rightarrow>
          let rest = drop (index + len) sse in
          (case extractData (take index sse) of
             None \<Rightarrow> scan_frames k rest
           | Some data \<Rightarrow>
               (case classify_frame k data of
                  Error_frame \<Rightarrow> (rest, Scan_error data)
                | Output \<Rightarrow> (rest, Scan_commit)
                | Preamble \<Rightarrow> scan_frames k rest)))"
  by pat_completeness auto
termination
  by (relation "measure (\<lambda>(k, sse). length sse)") (auto simp: nextSSEFrameBoundary_def dest: boundary_bounds)

declare scan_frames.simps [simp del]

definition unterminatedError :: "(rat \<Rightarrow> string) \<Rightarrow> classifier \<Rightarrow> guard \<Rightarrow> thrown option" where
  "unterminatedError num k g =
     (if k \<noteq> Responses_classifier then None
      else
        (case extractData (gd_sse g) of
           None \<Rightarrow> None
         | Some data \<Rightarrow> if classify_frame k data = Error_frame then Some (streamErrorFromData num k data) else None))"

text \<open>The catch block: what is rethrown.\<close>

definition guard_rethrow :: "(rat \<Rightarrow> string) \<Rightarrow> classifier \<Rightarrow> guard \<Rightarrow> thrown \<Rightarrow> thrown" where
  "guard_rethrow num k g err =
     (case unterminatedError num k g of
        Some tailError \<Rightarrow> tailError
      | None \<Rightarrow>
          if upstream_of err \<noteq> None then err
          else if k = Responses_classifier \<and> \<not> gd_committed g \<and> \<not> gd_explicit g then responsesOutcomeUnknown err
          else err)"

definition deadline_error :: "(int \<Rightarrow> string) \<Rightarrow> classifier \<Rightarrow> int \<Rightarrow> thrown" where
  "deadline_error showMs k ms =
     (let msg = ''upstream produced no first output within '' @ showMs ms @ ''ms'' in
      if k = Responses_classifier
      then UpstreamError Timeout_error msg
        (Some (JObj [(''error'', JObj [(''code'', JStr CODEX_RESPONSES_OUTCOME_UNKNOWN_CODE), (''message'', JStr msg)]),
                     lifecycle])) None No_object
      else UpstreamError Timeout_error msg None None No_object)"

definition buffer_error :: thrown where
  "buffer_error = Thrown Plain_error (Some ''Error'') None (Some ''upstream pre-output buffer exceeds the memory budget'') No_object"

datatype guard_next = Guard_goes_on guard "string list" | Guard_throws thrown

definition guard_chunk :: "(rat \<Rightarrow> string) \<Rightarrow> classifier \<Rightarrow> guard \<Rightarrow> string \<Rightarrow> guard_next" where
  "guard_chunk num k g chunk =
     (if gd_committed g then Guard_goes_on g [chunk]
      else if gd_bytes g + byteLength chunk > MAX_PRE_OUTPUT_BUFFER_BYTES
      then Guard_throws (guard_rethrow num k g buffer_error)
      else
        let buffered = gd_buffered g @ [chunk]; (rest, verdict) = scan_frames k (gd_sse g @ chunk);
            g' = g\<lparr>gd_buffered := buffered, gd_bytes := gd_bytes g + byteLength chunk, gd_sse := rest\<rparr> in
        (case verdict of
           Scan_more \<Rightarrow> Guard_goes_on g' []
         | Scan_commit \<Rightarrow> Guard_goes_on (g'\<lparr>gd_committed := True, gd_buffered := [], gd_bytes := 0\<rparr>) buffered
         | Scan_error data \<Rightarrow>
             Guard_throws (guard_rethrow num k (g'\<lparr>gd_explicit := True\<rparr>) (streamErrorFromData num k data))))"

text \<open>The end of the source without any output.\<close>

definition guard_close :: "(rat \<Rightarrow> string) \<Rightarrow> classifier \<Rightarrow> guard \<Rightarrow> thrown option" where
  "guard_close num k g =
     (if gd_committed g then None
      else
        (case unterminatedError num k g of
           Some tailError \<Rightarrow> Some tailError
         | None \<Rightarrow>
             Some (if k = Responses_classifier then responsesOutcomeUnknown No_object
                   else UpstreamError Upstream_error ''upstream stream ended before producing any output'' None None No_object)))"

fun guard_run :: "(rat \<Rightarrow> string) \<Rightarrow> (int \<Rightarrow> string) \<Rightarrow> classifier \<Rightarrow> int \<Rightarrow> guard \<Rightarrow> pull list \<Rightarrow> string list \<times> thrown option" where
  "guard_run num showMs k ms g [] = ([], guard_close num k g)"
| "guard_run num showMs k ms g (Chunk chunk # es) =
     (case guard_chunk num k g chunk of
        Guard_goes_on g' ys \<Rightarrow> let (zs, e) = guard_run num showMs k ms g' es in (ys @ zs, e)
      | Guard_throws e \<Rightarrow> ([], Some e))"
| "guard_run num showMs k ms g (Source_error err # es) = ([], Some (guard_rethrow num k g err))"
| "guard_run num showMs k ms g (Deadline # es) =
     (if 0 < ms \<and> \<not> gd_committed g then ([], Some (guard_rethrow num k g (deadline_error showMs k ms)))
      else guard_run num showMs k ms g es)"

definition guardPreOutputFailure ::
  "(rat \<Rightarrow> string) \<Rightarrow> (int \<Rightarrow> string) \<Rightarrow> classifier \<Rightarrow> int option \<Rightarrow> pull list \<Rightarrow> string list \<times> thrown option" where
  "guardPreOutputFailure num showMs k firstOutputTimeoutMs source =
     guard_run num showMs k (nullish firstOutputTimeoutMs 0) guard_init source"

subsection \<open>Byte-for-byte relay\<close>

definition chunks_of :: "pull list \<Rightarrow> string list" where
  "chunks_of es = List.map_filter (\<lambda>e. case e of Chunk c \<Rightarrow> Some c | _ \<Rightarrow> None) es"

lemma chunks_of_simps [simp]:
  "chunks_of [] = []" "chunks_of (Chunk c # es) = c # chunks_of es"
  "chunks_of (Source_error e # es) = chunks_of es" "chunks_of (Deadline # es) = chunks_of es"
  by (simp_all add: chunks_of_def map_filter_simps)

definition relays :: "guard \<Rightarrow> string list \<Rightarrow> string list \<Rightarrow> thrown option \<Rightarrow> bool" where
  "relays g chunks ys e \<longleftrightarrow>
     (if gd_committed g then gd_buffered g = [] \<and> prefix ys chunks \<and> (e = None \<longrightarrow> ys = chunks)
      else (ys = [] \<and> e \<noteq> None) \<or> (ys \<noteq> [] \<and> prefix ys (gd_buffered g @ chunks) \<and> (e = None \<longrightarrow> ys = gd_buffered g @ chunks)))"

lemma guard_run_relays:
  "(gd_committed g \<longrightarrow> gd_buffered g = []) \<Longrightarrow>
   case guard_run num showMs k ms g es of (ys, e) \<Rightarrow> relays g (chunks_of es) ys e"
proof (induction es arbitrary: g)
  case Nil
  then show ?case by (auto simp: relays_def guard_close_def split: option.splits)
next
  case (Cons ev es)
  show ?case
  proof (cases ev)
    case (Chunk c)
    show ?thesis
    proof (cases "gd_committed g \<or> gd_bytes g + byteLength c > MAX_PRE_OUTPUT_BUFFER_BYTES")
      case True
      then show ?thesis using Cons.IH [of g] Cons.prems Chunk
        by (auto simp: relays_def guard_chunk_def split: prod.splits)
    next
      case False
      obtain rest v where sc: "scan_frames k (gd_sse g @ c) = (rest, v)" by (metis surj_pair)
      let ?g = "g\<lparr>gd_buffered := gd_buffered g @ [c], gd_bytes := gd_bytes g + byteLength c, gd_sse := rest\<rparr>"
      show ?thesis
      proof (cases v)
        case Scan_more
        then show ?thesis using Cons.IH [of ?g] False sc Chunk
          by (auto simp: relays_def guard_chunk_def split: prod.splits)
      next
        case Scan_commit
        then show ?thesis using Cons.IH [of "?g\<lparr>gd_committed := True, gd_buffered := [], gd_bytes := 0\<rparr>"] False sc Chunk
          by (auto simp: relays_def guard_chunk_def split: prod.splits)
      next
        case (Scan_error data)
        then show ?thesis using False sc Chunk by (simp add: relays_def guard_chunk_def)
      qed
    qed
  next
    case (Source_error err)
    then show ?thesis using Cons.prems by (auto simp: relays_def)
  next
    case Deadline
    then show ?thesis using Cons.IH [of g] Cons.prems by (auto simp: relays_def split: prod.splits)
  qed
qed

text \<open>
  The guard never alters, drops, duplicates or reorders a byte: what it yields is a prefix of the
  source's chunks, all of them when it ends without an error; and an error before anything was yielded
  leaves the client with nothing.
\<close>
theorem guard_relays_verbatim:
  "case guardPreOutputFailure num showMs k ms es of (ys, e) \<Rightarrow>
     prefix ys (chunks_of es) \<and> (if e = None then ys = chunks_of es else True)"
  using guard_run_relays [where g = guard_init and num = num and showMs = showMs and k = k and ms = "nullish ms 0" and es = es]
  by (auto simp: guardPreOutputFailure_def relays_def guard_init_def split: prod.splits)

subsection \<open>Where the guard commits\<close>

text \<open>The reference: the classes of the complete frames of the whole text, preamble left out.\<close>

definition frame_signals :: "classifier \<Rightarrow> string \<Rightarrow> chunk_class list" where
  "frame_signals k text =
     filter (\<lambda>c. c \<noteq> Preamble) (map (classify_frame k) (List.map_filter extractData (fst (splitCompleteSSEFrames text))))"

lemma signals_step:
  "nextSSEFrameBoundary s = None \<Longrightarrow> frame_signals k s = []"
  "nextSSEFrameBoundary s = Some (i, n) \<Longrightarrow>
     frame_signals k s =
       (case extractData (take i s) of None \<Rightarrow> [] | Some d \<Rightarrow> if classify_frame k d = Preamble then [] else [classify_frame k d])
       @ frame_signals k (drop (i + n) s)"
  by (simp_all add: frame_signals_def splitCompleteSSEFrames.simps [of s] map_filter_simps split: prod.split option.split)

lemma signals_append: "frame_signals k (a @ b) = frame_signals k a @ frame_signals k (block_tail a @ b)"
  by (simp add: frame_signals_def split_append [of a b] block_tail_def map_filter_def split: prod.split)

lemma scan_signals:
  "scan_frames k s = (rest, v) \<Longrightarrow>
     (case v of
        Scan_more \<Rightarrow> frame_signals k s = [] \<and> rest = block_tail s
      | Scan_commit \<Rightarrow> (\<exists>xs. frame_signals k s = Output # xs)
      | Scan_error data \<Rightarrow> (\<exists>xs. frame_signals k s = Error_frame # xs) \<and> classify_frame k data = Error_frame \<and>
          (\<exists>block. extractData block = Some data \<and> has_text block s)) \<and>
     (\<exists>p. s = p @ rest)"
proof (induction k s arbitrary: rest v rule: scan_frames.induct)
  case (1 k s)
  show ?case
  proof (cases "nextSSEFrameBoundary s")
    case None
    then show ?thesis using "1.prems" signals_step(1) [OF None] block_step(1) [OF None]
      by (auto simp: scan_frames.simps [of k s])
  next
    case (Some p)
    obtain i n where p: "p = (i, n)" by (cases p)
    note sig = signals_step(2) [OF Some [unfolded p]]
    note step = block_step(2) [OF Some [unfolded p]]
    have suffix_trans: "\<exists>q. s = q @ rest" if "\<exists>q. drop (i + n) s = q @ rest"
      using that by (metis append.assoc append_take_drop_id)
    have infix_trans: "has_text b s" if "has_text b (drop (i + n) s)" for b
      using that unfolding has_text_iff by (metis append.assoc append_take_drop_id)
    have here: "has_text (take i s) s" unfolding has_text_iff by (metis append_Nil append_take_drop_id)
    show ?thesis
    proof (cases "extractData (take i s)")
      case None
      then have "scan_frames k (drop (i + n) s) = (rest, v)"
        using "1.prems" Some p by (simp add: scan_frames.simps [of k s] Let_def)
      from "1.IH"(1) [OF Some p [symmetric] refl None this] None sig step suffix_trans infix_trans
      show ?thesis by (cases v) auto
    next
      case data: (Some d)
      show ?thesis
      proof (cases "classify_frame k d")
        case Preamble
        then have "scan_frames k (drop (i + n) s) = (rest, v)"
          using "1.prems" Some p data by (simp add: scan_frames.simps [of k s] Let_def)
        from "1.IH"(2) [OF Some p [symmetric] refl data Preamble this] Preamble data sig step suffix_trans infix_trans
        show ?thesis by (cases v) auto
      next
        case Output
        then show ?thesis using "1.prems" Some p data sig
          by (auto simp: scan_frames.simps [of k s] Let_def intro: exI [of _ "take (i + n) s"])
      next
        case Error_frame
        then show ?thesis using "1.prems" Some p data sig here
          by (auto simp: scan_frames.simps [of k s] Let_def intro: exI [of _ "take (i + n) s"])
      qed
    qed
  qed
qed

lemma byteLength_nonneg [simp]: "0 \<le> byteLength s"
  by (induction s) (auto simp: byteLength_def)

lemma rethrow_upstream: "upstream_of err \<noteq> None \<Longrightarrow> upstream_of (guard_rethrow num k g err) \<noteq> None"
  by (auto simp: guard_rethrow_def unterminatedError_def streamErrorFromData_def split: option.splits if_splits)

lemma close_upstream: "\<not> gd_committed g \<Longrightarrow> \<exists>err. guard_close num k g = Some err \<and> upstream_of err \<noteq> None"
  by (auto simp: guard_close_def unterminatedError_def streamErrorFromData_def responsesOutcomeUnknown_def split: option.splits if_splits)

lemma run_committed:
  "gd_committed g \<Longrightarrow> guard_run num showMs k ms g (map Chunk cs) = (cs, None)"
  by (induction cs) (auto simp: guard_chunk_def guard_close_def)

lemma run_exact:
  "\<not> gd_committed g \<Longrightarrow> frame_signals k (gd_sse g) = [] \<Longrightarrow> block_tail (gd_sse g) = gd_sse g \<Longrightarrow>
   gd_bytes g + byteLength (concat cs) \<le> MAX_PRE_OUTPUT_BUFFER_BYTES \<Longrightarrow>
   (case frame_signals k (gd_sse g @ concat cs) of
      Output # _ \<Rightarrow> guard_run num showMs k ms g (map Chunk cs) = (gd_buffered g @ cs, None)
    | _ \<Rightarrow> \<exists>err. guard_run num showMs k ms g (map Chunk cs) = ([], Some err) \<and> upstream_of err \<noteq> None)"
proof (induction cs arbitrary: g)
  case Nil
  then show ?case using close_upstream [of g num k] by simp
next
  case (Cons c cs)
  obtain rest v where sc: "scan_frames k (gd_sse g @ c) = (rest, v)" by (metis surj_pair)
  note scan = scan_signals [OF sc]
  have fits: "gd_bytes g + byteLength c \<le> MAX_PRE_OUTPUT_BUFFER_BYTES"
    using Cons.prems(4) byteLength_nonneg [of "concat cs"] by (simp del: byteLength_nonneg)
  have all: "frame_signals k (gd_sse g @ concat (c # cs)) =
      frame_signals k (gd_sse g @ c) @ frame_signals k (block_tail (gd_sse g @ c) @ concat cs)"
    using signals_append [of k "gd_sse g @ c" "concat cs"] by simp
  let ?g = "g\<lparr>gd_buffered := gd_buffered g @ [c], gd_bytes := gd_bytes g + byteLength c, gd_sse := rest\<rparr>"
  show ?case
  proof (cases v)
    case Scan_more
    then have rest: "rest = block_tail (gd_sse g @ c)" "frame_signals k (gd_sse g @ c) = []" using scan by auto
    have none: "nextSSEFrameBoundary rest = None" using rest(1) splitComplete_tail [of "gd_sse g @ c"] by (simp add: block_tail_def)
    have "frame_signals k (gd_sse g @ concat (c # cs)) = frame_signals k (rest @ concat cs)" using all rest by simp
    moreover have "gd_bytes ?g + byteLength (concat cs) \<le> MAX_PRE_OUTPUT_BUFFER_BYTES" using Cons.prems(4) by simp
    ultimately show ?thesis
      using Cons.IH [of ?g] Cons.prems(1) signals_step(1) [OF none, of k] block_step(1) [OF none] fits sc Scan_more
      by (auto simp: guard_chunk_def split: list.splits chunk_class.splits)
  next
    case Scan_commit
    then show ?thesis using scan all fits sc Cons.prems(1)
      by (auto simp: guard_chunk_def run_committed)
  next
    case (Scan_error data)
    have "upstream_of (guard_rethrow num k x (streamErrorFromData num k data)) \<noteq> None" for x
      by (rule rethrow_upstream) (simp add: streamErrorFromData_def)
    then show ?thesis using Scan_error scan all fits sc Cons.prems(1)
      by (auto simp: guard_chunk_def)
  qed
qed

text \<open>
  C6. A stream that fits the replay window is served exactly when a frame of real output precedes every error
  frame, however it is cut into chunks - then all of it, from the first byte; otherwise nothing is yielded and
  the attempt fails with an upstream error, so the next candidate can be tried.
\<close>
theorem guard_commits_on_output:
  assumes "byteLength (concat cs) \<le> MAX_PRE_OUTPUT_BUFFER_BYTES"
  shows "case frame_signals k (concat cs) of
      Output # _ \<Rightarrow> guardPreOutputFailure num showMs k ms (map Chunk cs) = (cs, None)
    | _ \<Rightarrow> (\<exists>err. guardPreOutputFailure num showMs k ms (map Chunk cs) = ([], Some err) \<and> upstream_of err \<noteq> None)"
proof -
  have "frame_signals k [] = []" "block_tail [] = []"
    by (simp_all add: frame_signals_def block_tail_def splitCompleteSSEFrames.simps nextSSEFrameBoundary_def map_filter_simps)
  then show ?thesis
    using run_exact [where g = guard_init and k = k and cs = cs and num = num and showMs = showMs and ms = "nullish ms 0"] assms
    unfolding guardPreOutputFailure_def by (auto simp: guard_init_def split: list.splits chunk_class.splits)
qed

definition chat_role_frame :: string where
  "chat_role_frame = ''data: {'' @ quote_string ''choices'' @ '':[{'' @ quote_string ''delta'' @ '':{'' @ quote_string ''role'' @ '':'' @
     quote_string ''assistant'' @ ''}}]}'' @ [LF, LF]"

definition chat_text_frame :: string where
  "chat_text_frame = ''data: {'' @ quote_string ''choices'' @ '':[{'' @ quote_string ''delta'' @ '':{'' @ quote_string ''content'' @ '':'' @
     quote_string ''hi'' @ ''}}]}'' @ [LF, LF]"

definition chat_error_frame :: string where
  "chat_error_frame = ''data: {'' @ quote_string ''error'' @ '':{'' @ quote_string ''message'' @ '':'' @ quote_string ''busy'' @ ''}}'' @ [LF, LF]"

lemma demo_signals:
  "frame_signals Chat_classifier (chat_role_frame @ chat_text_frame) = [Output]"
  "frame_signals Chat_classifier (chat_role_frame @ chat_error_frame) = [Error_frame]"
  by code_simp+

theorem guard_commits_on_output_witness:
  "guardPreOutputFailure (\<lambda>n. []) (\<lambda>n. []) Chat_classifier None (map Chunk [chat_role_frame, chat_text_frame])
     = ([chat_role_frame, chat_text_frame], None)"
proof -
  have "byteLength (concat [chat_role_frame, chat_text_frame]) \<le> MAX_PRE_OUTPUT_BUFFER_BYTES" by code_simp
  from guard_commits_on_output [OF this, where k = Chat_classifier and num = "\<lambda>n. []" and showMs = "\<lambda>n. []" and ms = None] show ?thesis by (simp add: demo_signals)
qed

subsection \<open>Responses are never replayed blindly\<close>

text \<open>The two non-replayable errors, and an error frame the upstream sent.\<close>

definition outcome_unknown :: "thrown \<Rightarrow> bool" where
  "outcome_unknown err = isCodexResponsesPostSendFailureCode
     (upstreamErrorCode (Option.bind (upstream_of err) uf_providerRaw))"

definition reported_failure :: "(rat \<Rightarrow> string) \<Rightarrow> string \<Rightarrow> thrown \<Rightarrow> bool" where
  "reported_failure num whole err \<longleftrightarrow>
     (\<exists>block data. extractData block = Some data \<and> has_text block whole \<and>
        classify_frame Responses_classifier data = Error_frame \<and> err = streamErrorFromData num Responses_classifier data)"

lemma code_of_unknown [simp]:
  "outcome_unknown (responsesOutcomeUnknown cause)"
  "outcome_unknown (deadline_error showMs Responses_classifier ms)"
  by (simp_all add: outcome_unknown_def responsesOutcomeUnknown_def deadline_error_def upstreamErrorCode_def opt_prop_def
      lifecycle_def isCodexResponsesPostSendFailureCode_def Let_def)

lemma has_text_append: "has_text b s \<Longrightarrow> has_text b (s @ t)" "has_text b t \<Longrightarrow> has_text b (s @ t)"
  unfolding has_text_iff by (metis append.assoc)+

lemma unterminated_reported:
  "unterminatedError num Responses_classifier g = Some err \<Longrightarrow> whole = p @ gd_sse g @ t \<Longrightarrow> reported_failure num whole err"
  by (auto simp: unterminatedError_def reported_failure_def has_text_iff split: option.splits if_splits)

definition responses_outcome :: "(rat \<Rightarrow> string) \<Rightarrow> string \<Rightarrow> thrown list \<Rightarrow> thrown \<Rightarrow> bool" where
  "responses_outcome num whole sourceErrors err \<longleftrightarrow>
     outcome_unknown err \<or> reported_failure num whole err \<or> (upstream_of err \<noteq> None \<and> err \<in> set sourceErrors)"

lemma rethrow_outcome:
  assumes "\<not> gd_committed g" "\<not> gd_explicit g" "whole = p @ gd_sse g @ t"
  shows "responses_outcome num whole (err # errs) (guard_rethrow num Responses_classifier g err)"
proof (cases "unterminatedError num Responses_classifier g")
  case None
  then show ?thesis using assms by (auto simp: guard_rethrow_def responses_outcome_def)
next
  case (Some tailError)
  then show ?thesis using unterminated_reported [OF Some assms(3)] by (simp add: guard_rethrow_def responses_outcome_def)
qed

definition source_errors :: "pull list \<Rightarrow> thrown list" where
  "source_errors es = List.map_filter (\<lambda>e. case e of Source_error x \<Rightarrow> Some x | _ \<Rightarrow> None) es"

lemma source_errors_simps [simp]:
  "source_errors [] = []" "source_errors (Chunk c # es) = source_errors es"
  "source_errors (Source_error e # es) = e # source_errors es" "source_errors (Deadline # es) = source_errors es"
  by (simp_all add: source_errors_def map_filter_simps)

lemma run_outcome:
  "\<not> gd_committed g \<Longrightarrow> \<not> gd_explicit g \<Longrightarrow> whole = p @ gd_sse g @ concat (chunks_of es) \<Longrightarrow>
   guard_run num showMs Responses_classifier ms g es = ([], Some err) \<Longrightarrow>
   responses_outcome num whole (source_errors es) err"
proof (induction es arbitrary: g p)
  case Nil
  then show ?case using unterminated_reported [of num g err whole p "[]"]
    by (auto simp: guard_close_def responses_outcome_def split: option.splits)
next
  case (Cons ev es)
  show ?case
  proof (cases ev)
    case (Chunk c)
    obtain rest v where sc: "scan_frames Responses_classifier (gd_sse g @ c) = (rest, v)" by (metis surj_pair)
    note scan = scan_signals [OF sc]
    then obtain q where q: "gd_sse g @ c = q @ rest" by blast
    show ?thesis
    proof (cases "gd_bytes g + byteLength c > MAX_PRE_OUTPUT_BUFFER_BYTES")
      case True
      have "err = guard_rethrow num Responses_classifier g buffer_error"
        using Cons.prems True Chunk by (simp add: guard_chunk_def)
      moreover have "upstream_of buffer_error = None" by (simp add: buffer_error_def)
      ultimately show ?thesis
        using unterminated_reported [of num g _ whole p "concat (chunks_of (ev # es))"] Cons.prems(1-3)
        by (auto simp: guard_rethrow_def responses_outcome_def split: option.splits)
    next
      case False
      let ?g = "g\<lparr>gd_buffered := gd_buffered g @ [c], gd_bytes := gd_bytes g + byteLength c, gd_sse := rest\<rparr>"
      have whole: "whole = (p @ q) @ rest @ concat (chunks_of es)"
        using Cons.prems(3) Chunk q by (metis append.assoc chunks_of_simps(2) concat.simps(2))
      show ?thesis
      proof (cases v)
        case Scan_more
        then have "guard_run num showMs Responses_classifier ms ?g es = ([], Some err)"
          using Cons.prems Chunk False sc by (auto simp: guard_chunk_def split: prod.splits)
        moreover have "\<not> gd_committed ?g" "\<not> gd_explicit ?g" using Cons.prems by simp_all
        moreover have "whole = (p @ q) @ gd_sse ?g @ concat (chunks_of es)" using whole by simp
        ultimately have "responses_outcome num whole (source_errors es) err" using Cons.IH by blast
        then show ?thesis using Chunk by simp
      next
        case Scan_commit
        then show ?thesis using Cons.prems Chunk False sc by (auto simp: guard_chunk_def split: prod.splits)
      next
        case (Scan_error data)
        have err: "err = guard_rethrow num Responses_classifier (?g\<lparr>gd_explicit := True\<rparr>)
            (streamErrorFromData num Responses_classifier data)"
          using Scan_error Cons.prems Chunk False sc by (auto simp: guard_chunk_def split: prod.splits)
        from Scan_error scan obtain block where
          block: "extractData block = Some data" "has_text block (gd_sse g @ c)"
            "classify_frame Responses_classifier data = Error_frame" by auto
        have "has_text block whole"
          using Cons.prems(3) Chunk has_text_append(2) [OF has_text_append(1) [OF block(2), of "concat (chunks_of es)"], of p]
          by simp
        then have given: "reported_failure num whole (streamErrorFromData num Responses_classifier data)"
          using block by (auto simp: reported_failure_def)
        show ?thesis
        proof (cases "unterminatedError num Responses_classifier (?g\<lparr>gd_explicit := True\<rparr>)")
          case None
          then show ?thesis using err given by (simp add: guard_rethrow_def responses_outcome_def streamErrorFromData_def)
        next
          case (Some t)
          from unterminated_reported [OF Some, of whole "p @ q" "concat (chunks_of es)"] whole err Some
          show ?thesis by (simp add: guard_rethrow_def responses_outcome_def)
        qed
      qed
    qed
  next
    case (Source_error x)
    then show ?thesis using Cons.prems rethrow_outcome [OF Cons.prems(1,2), of whole p "concat (chunks_of es)"] by auto
  next
    case Deadline
    show ?thesis
    proof (cases "0 < ms")
      case True
      then have "err = guard_rethrow num Responses_classifier g (deadline_error showMs Responses_classifier ms)"
        using Cons.prems Deadline by simp
      moreover have "upstream_of (deadline_error showMs Responses_classifier ms) \<noteq> None" by (simp add: deadline_error_def Let_def)
      ultimately show ?thesis
        using unterminated_reported [of num g _ whole p "concat (chunks_of es)"] Cons.prems(1-3) Deadline
        by (auto simp: guard_rethrow_def responses_outcome_def split: option.splits)
    next
      case False
      then show ?thesis using Cons.IH [of g p] Cons.prems Deadline by simp
    qed
  qed
qed

text \<open>
  A native Responses attempt that ends before anything was yielded is never reported as an ordinary,
  retryable failure: its error says that the outcome is unknown, or it is an error frame that the upstream
  itself sent in the received whole, or the typed error the provider client threw.
\<close>
theorem responses_outcome_never_guessed:
  "case guardPreOutputFailure num showMs Responses_classifier ms es of (ys, e) \<Rightarrow>
     (case (ys, e) of
        ([], Some err) \<Rightarrow> responses_outcome num (concat (chunks_of es)) (source_errors es) err
      | _ \<Rightarrow> True)"
proof -
  obtain ys e where r: "guardPreOutputFailure num showMs Responses_classifier ms es = (ys, e)" by (metis surj_pair)
  show ?thesis
  proof (cases "ys = [] \<and> e \<noteq> None")
    case True
    then obtain err where "guard_run num showMs Responses_classifier (nullish ms 0) guard_init es = ([], Some err)"
      using r by (auto simp: guardPreOutputFailure_def)
    from run_outcome [OF _ _ _ this, of "concat (chunks_of es)" "[]"] r this show ?thesis
      by (simp add: guard_init_def guardPreOutputFailure_def)
  qed (use r in \<open>auto split: list.split option.split\<close>)
qed

end
