(* ===== verification/Attempt_Target.thy ===== *)
theory Attempt_Target
  imports Failover_Guard Capability
begin

text \<open>
  What \<open>apps/gateway/src/routes/execute.ts\<close> decides about one candidate before it is invoked: the request's
  modalities and size, the provider an alias resolves to, the skip guards, and whether the client's own body may
  be passed through (\<open>packages/core/src/provider/protocol.ts\<close>). The registry, the client map and the live OAuth
  sets are arguments; a provider client is the features the code asks it for.
\<close>

subsection \<open>Requests and providers\<close>

record exec_request = internal_request +
  xr_messages :: "json list"
  xr_tools :: "json option"
  xr_tool_choice :: "json option"
  xr_response_format :: "json option"
  xr_attachments :: "json option"
  xr_stream :: bool
  xr_max_tokens :: "int option"
  xr_cached_content :: "json option"
  xr_native_request :: "json option"
  xr_provider_raw :: "json option"
  xr_thinking :: "json option"
  xr_attempt_timeout_ms :: "int option"

record provider_client =
  pv_id :: nat
  pv_nativePassthrough :: bool
  pv_nativePassthroughStream :: bool
  pv_countTokens :: bool
  pv_mediaOnly :: "bool option"
  pv_nativeProtocolProfile :: "string option"
  pv_supportsResponsesNativeItems :: "bool option"

record protocol_metadata =
  pm_targetProviderProtocol :: protocol
  pm_requiresCompatibilityRewrite :: bool

record resolved_model =
  rm_providerName :: string
  rm_providerModel :: string
  rm_targetProviderProtocol :: protocol
  rm_requiresCompatibilityRewrite :: bool

record resolve_deps =
  rd_defaultProvider :: provider_client
  rd_providers :: "string \<rightharpoonup> provider_client"
  rd_registry :: "string \<Rightarrow> resolved_model option"
  rd_knownOAuthPrefixes :: "string set"
  rd_oauthAliases :: "string set"
  rd_oauthWireModels :: "string \<rightharpoonup> string"
  rd_oauthProviderProtocols :: "string \<rightharpoonup> protocol_metadata"

record attempt_target =
  tg_provider :: "provider_client option"
  tg_providerName :: "string option"
  tg_providerModel :: string
  tg_targetProviderProtocol :: protocol
  tg_requiresCompatibilityRewrite :: bool

subsection \<open>What the request needs\<close>

definition is_array :: "json option \<Rightarrow> bool" where
  "is_array v = (case v of Some (JArr vs) \<Rightarrow> True | _ \<Rightarrow> False)"

definition nonempty_array :: "json option \<Rightarrow> bool" where
  "nonempty_array v = (case v of Some (JArr vs) \<Rightarrow> vs \<noteq> [] | _ \<Rightarrow> False)"

fun part_chars :: "json \<Rightarrow> nat" where
  "part_chars (JStr s) = length s"
| "part_chars v = (case as_string (prop_of ''text'' v) of None \<Rightarrow> 0 | Some t \<Rightarrow> length t)"

definition message_chars :: "json \<Rightarrow> nat" where
  "message_chars m =
     (case prop_of ''content'' m of
        Some (JStr s) \<Rightarrow> length s
      | Some (JArr ps) \<Rightarrow> (\<Sum>p \<leftarrow> ps. part_chars p)
      | _ \<Rightarrow> 0)"

definition approxPromptTokens :: "json list \<Rightarrow> int" where
  "approxPromptTokens ms = int (((\<Sum>m \<leftarrow> ms. message_chars m) + 3) div 4)"

record request_modalities =
  md_image :: bool
  md_audio :: bool
  md_video :: bool
  md_document :: bool

definition part_modality :: "json \<Rightarrow> request_modalities \<Rightarrow> request_modalities" where
  "part_modality part md =
     (let t = as_string (prop_of ''type'' part); mediaType = as_string (prop_of ''mediaType'' part);
          media = (\<lambda>p. case mediaType of None \<Rightarrow> False | Some m \<Rightarrow> startsWith p m) in
      if \<not> is_object (Some part) then md
      else if t \<in> {Some ''image_url'', Some ''input_image'', Some ''image''} then md\<lparr>md_image := True\<rparr>
      else if t \<in> {Some ''input_audio'', Some ''audio''} then md\<lparr>md_audio := True\<rparr>
      else if t = Some ''video'' then md\<lparr>md_video := True\<rparr>
      else if t \<in> {Some ''file'', Some ''document''} then
        (if media ''audio/'' then md\<lparr>md_audio := True\<rparr>
         else if media ''video/'' then md\<lparr>md_video := True\<rparr>
         else if media ''image/'' then md\<lparr>md_image := True\<rparr>
         else md\<lparr>md_document := True\<rparr>)
      else md)"

definition detectRequestModalities :: "json list \<Rightarrow> request_modalities" where
  "detectRequestModalities ms =
     foldl (\<lambda>md m. case prop_of ''content'' m of
          Some (JArr ps) \<Rightarrow> foldl (\<lambda>md p. part_modality p md) md ps
        | _ \<Rightarrow> md)
       \<lparr>md_image = False, md_audio = False, md_video = False, md_document = False\<rparr> ms"

definition isJson :: "json option \<Rightarrow> bool" where
  "isJson rf = (is_object rf \<and> as_string (opt_prop ''type'' rf) \<in> {Some ''json_object'', Some ''json_schema''})"

definition isJsonSchema :: "json option \<Rightarrow> bool" where
  "isJsonSchema rf = (is_object rf \<and> as_string (opt_prop ''type'' rf) = Some ''json_schema'')"

definition forced_tool_choice :: "json option \<Rightarrow> bool" where
  "forced_tool_choice choice =
     (choice = Some (JStr ''required'') \<or>
      record_of choice \<noteq> None \<and> as_string (opt_prop ''type'' choice) \<in> {Some ''function'', Some ''tool'', Some ''any''})"

definition needs_cached_content :: "json option \<Rightarrow> bool" where
  "needs_cached_content c = nonEmptyString c"

subsection \<open>Resolving an alias\<close>

definition alias_prefix :: "string \<Rightarrow> string" where
  "alias_prefix alias_id = (case index_of CHR ''/'' alias_id of None \<Rightarrow> [] | Some slash \<Rightarrow> if 0 < slash then take slash alias_id else [])"

definition isOAuthSubscriptionAlias :: "resolve_deps \<Rightarrow> string \<Rightarrow> bool" where
  "isOAuthSubscriptionAlias d alias_id = (alias_prefix alias_id \<noteq> [] \<and> alias_prefix alias_id \<in> rd_knownOAuthPrefixes d)"

definition after_slash :: "string \<Rightarrow> string" where
  "after_slash alias_id = drop (length (alias_prefix alias_id) + 1) alias_id"

definition prefix_protocol :: "resolve_deps \<Rightarrow> string \<Rightarrow> protocol \<times> bool" where
  "prefix_protocol d p =
     (case rd_oauthProviderProtocols d p of
        None \<Rightarrow> (Openai_chat, False)
      | Some m \<Rightarrow> (pm_targetProviderProtocol m, pm_requiresCompatibilityRewrite m))"

definition resolveAttemptTarget :: "resolve_deps \<Rightarrow> string \<Rightarrow> attempt_target" where
  "resolveAttemptTarget d alias_id =
     (let prefix = alias_prefix alias_id; (proto, rewrite) = prefix_protocol d prefix in
      if prefix \<noteq> [] \<and> prefix \<in> rd_knownOAuthPrefixes d then
        \<lparr>tg_provider = (if alias_id \<in> rd_oauthAliases d then rd_providers d prefix else None),
         tg_providerName = Some prefix,
         tg_providerModel = nullish (rd_oauthWireModels d alias_id) (after_slash alias_id),
         tg_targetProviderProtocol = proto, tg_requiresCompatibilityRewrite = rewrite\<rparr>
      else
        (case rd_registry d alias_id of
           Some m \<Rightarrow>
             \<lparr>tg_provider = rd_providers d (rm_providerName m), tg_providerName = Some (rm_providerName m),
              tg_providerModel = rm_providerModel m, tg_targetProviderProtocol = rm_targetProviderProtocol m,
              tg_requiresCompatibilityRewrite = rm_requiresCompatibilityRewrite m\<rparr>
         | None \<Rightarrow>
             if prefix \<noteq> [] \<and> rd_providers d prefix \<noteq> None then
               \<lparr>tg_provider = rd_providers d prefix, tg_providerName = Some prefix,
                tg_providerModel = after_slash alias_id,
                tg_targetProviderProtocol = proto, tg_requiresCompatibilityRewrite = rewrite\<rparr>
             else
               \<lparr>tg_provider = Some (rd_defaultProvider d), tg_providerName = None, tg_providerModel = alias_id,
                tg_targetProviderProtocol = Openai_chat, tg_requiresCompatibilityRewrite = False\<rparr>))"

subsection \<open>Native passthrough\<close>

datatype disable_reason =
    Feature_flag_disabled
  | Missing_native_request
  | Source_protocol_is_lingua_franca
  | Protocol_mismatch
  | Responses_native_body_provider_incompatible
  | Provider_requires_compatibility_rewrite
  | Provider_lacks_passthrough

record passthrough_input =
  pi_enabled :: bool
  pi_hasNativeRequest :: bool
  pi_protocol :: protocol
  pi_targetProviderProtocol :: protocol
  pi_requiresCompatibilityRewrite :: bool
  pi_supportsPassthrough :: bool
  pi_carriesResponsesNativeItems :: bool
  pi_targetIsGenericResponsesProfile :: bool

definition canUseNativePassthrough :: "passthrough_input \<Rightarrow> disable_reason option" where
  "canUseNativePassthrough i =
     (if \<not> pi_enabled i then Some Feature_flag_disabled
      else if \<not> pi_hasNativeRequest i then Some Missing_native_request
      else if pi_protocol i = Openai_chat then Some Source_protocol_is_lingua_franca
      else if pi_protocol i \<noteq> pi_targetProviderProtocol i then Some Protocol_mismatch
      else if pi_protocol i = Openai_responses \<and> pi_targetIsGenericResponsesProfile i \<and> pi_carriesResponsesNativeItems i
      then Some Responses_native_body_provider_incompatible
      else if pi_requiresCompatibilityRewrite i then Some Provider_requires_compatibility_rewrite
      else if \<not> pi_supportsPassthrough i then Some Provider_lacks_passthrough
      else None)"

record passthrough_telemetry =
  pt_considered :: bool
  pt_used :: bool
  pt_disable_reason :: "disable_reason option"
  pt_provider_name :: "string option"
  pt_provider_model :: "string option"

definition defaultPassthroughTelemetry :: passthrough_telemetry where
  "defaultPassthroughTelemetry =
     \<lparr>pt_considered = False, pt_used = False, pt_disable_reason = None, pt_provider_name = None, pt_provider_model = None\<rparr>"

definition provider_feature :: "(provider_client \<Rightarrow> bool) \<Rightarrow> attempt_target \<Rightarrow> bool" where
  "provider_feature f t = (case tg_provider t of None \<Rightarrow> False | Some p \<Rightarrow> f p)"

definition generic_profile :: "attempt_target \<Rightarrow> bool" where
  "generic_profile t = provider_feature
     (\<lambda>p. pv_nativeProtocolProfile p = Some ''generic_openai_responses'' \<and> pv_supportsResponsesNativeItems p = Some False) t"

definition raw_prop :: "string \<Rightarrow> exec_request \<Rightarrow> json option" where
  "raw_prop k req = opt_prop k (xr_provider_raw req)"

definition decideNativePassthroughForAttempt :: "exec_request \<Rightarrow> attempt_target \<Rightarrow> bool \<Rightarrow> passthrough_telemetry" where
  "decideNativePassthroughForAttempt req t enabled =
     (let decision = canUseNativePassthrough
            \<lparr>pi_enabled = enabled, pi_hasNativeRequest = xr_native_request req \<noteq> None, pi_protocol = ir_protocol req,
             pi_targetProviderProtocol = tg_targetProviderProtocol t,
             pi_requiresCompatibilityRewrite = tg_requiresCompatibilityRewrite t,
             pi_supportsPassthrough =
               provider_feature (if xr_stream req then pv_nativePassthroughStream else pv_nativePassthrough) t,
             pi_carriesResponsesNativeItems =
               is_array (raw_prop ''responses_input_items'' req) \<or> is_array (raw_prop ''unknown_items'' req),
             pi_targetIsGenericResponsesProfile = generic_profile t\<rparr> in
      \<lparr>pt_considered = True, pt_used = decision = None, pt_disable_reason = decision,
       pt_provider_name = tg_providerName t, pt_provider_model = Some (tg_providerModel t)\<rparr>)"

subsection \<open>Skip guards\<close>

definition CROSS_PROTOCOL_FOLDABLE_ITEM_TYPES :: "string list" where
  "CROSS_PROTOCOL_FOLDABLE_ITEM_TYPES =
     [''message'', ''function_call'', ''function_call_output'', ''custom_tool_call'', ''custom_tool_call_output'', ''reasoning'']"

definition lossy_item :: "json \<Rightarrow> bool" where
  "lossy_item item =
     (case record_of (Some item) of
        None \<Rightarrow> True
      | Some it \<Rightarrow>
          (case as_string (prop_of ''type'' it) of
             None \<Rightarrow> True
           | Some t \<Rightarrow>
               t \<notin> set CROSS_PROTOCOL_FOLDABLE_ITEM_TYPES \<or>
               (t = ''function_call'' \<or> t = ''function_call_output'') \<and> record_of (prop_of ''caller'' it) \<noteq> None))"

definition responsesInputItemsAreCrossProtocolLossy :: "json option \<Rightarrow> bool" where
  "responsesInputItemsAreCrossProtocolLossy items =
     (case items of Some (JArr xs) \<Rightarrow> \<exists>x \<in> set xs. lossy_item x | _ \<Rightarrow> False)"

definition hasResponsesContinuation :: "exec_request \<Rightarrow> bool" where
  "hasResponsesContinuation req =
     (ir_protocol req = Openai_responses \<and> nonEmptyString (raw_prop ''previous_response_id'' req))"

definition hasResponsesReasoningHistory :: "exec_request \<Rightarrow> bool" where
  "hasResponsesReasoningHistory req =
     (ir_protocol req = Openai_responses \<and>
      (nonempty_array (xr_thinking req) \<or> nonempty_array (raw_prop ''reasoning'' req)))"

definition candidateGuardSkipReason :: "exec_request \<Rightarrow> attempt_target \<Rightarrow> string \<Rightarrow> string option" where
  "candidateGuardSkipReason req t alias_id =
     (if hasResponsesContinuation req \<and>
        (case stateful_provider_alias req of None \<Rightarrow> False | Some a \<Rightarrow> alias_id \<noteq> a)
      then Some ''responses_previous_response_id_provider_mismatch''
      else if ir_protocol req = Openai_responses \<and> tg_targetProviderProtocol t = Openai_responses \<and> generic_profile t \<and>
        (is_array (raw_prop ''unknown_items'' req) \<or>
         responsesInputItemsAreCrossProtocolLossy (raw_prop ''responses_input_items'' req))
      then Some ''responses_native_items_provider_incompatible''
      else if tg_providerName t = Some ''deepseek'' \<and> tg_targetProviderProtocol t = Openai_chat \<and>
        hasResponsesReasoningHistory req
      then Some ''reasoning_history_incompatible''
      else None)"

definition protocolGuardSkipReason :: "exec_request \<Rightarrow> protocol \<Rightarrow> string option" where
  "protocolGuardSkipReason req target =
     (if ir_protocol req \<noteq> Openai_responses \<or> target = Openai_responses then None
      else if hasResponsesContinuation req then Some ''responses_previous_response_id_cross_protocol_blocked''
      else if is_array (raw_prop ''responses_native_tools'' req)
      then Some ''responses_native_tools_cross_protocol_blocked''
      else if is_array (raw_prop ''unknown_items'' req) \<or>
        responsesInputItemsAreCrossProtocolLossy (raw_prop ''responses_input_items'' req)
      then Some ''responses_native_items_cross_protocol_blocked''
      else if raw_prop ''background'' req = Some (JBool True) then Some ''responses_background_cross_protocol_blocked''
      else None)"

text \<open>The account a Claude body asserts; UUID validation is an argument, and an invalid one is thrown.\<close>

text \<open>The check before the invocation: a Claude account may not leave the Anthropic protocol.\<close>

definition identity_boundary :: "(json \<Rightarrow> string option) \<Rightarrow> exec_request \<Rightarrow> attempt_target \<Rightarrow> thrown option" where
  "identity_boundary uuid req t =
     (if ir_protocol req \<noteq> Anthropic_messages \<or> tg_targetProviderProtocol t = Anthropic_messages then None
      else
        let crossing = Some (AnthropicIdentityError ''Account-bound Claude requests cannot cross protocol boundaries'') in
        (case anthropicRequestAccountUuid uuid (xr_provider_raw req) of
           Inl e \<Rightarrow> Some e
         | Inr (Some u) \<Rightarrow> if u \<noteq> [] then crossing else None
         | Inr None \<Rightarrow>
             (case xr_native_request req of
                None \<Rightarrow> None
              | Some body \<Rightarrow>
                  (case anthropicRequestAccountUuid uuid (Some body) of
                     Inl e \<Rightarrow> Some e
                   | Inr (Some u) \<Rightarrow> if u \<noteq> [] then crossing else None
                   | Inr None \<Rightarrow> None))))"

subsection \<open>Facts\<close>

text \<open>A subscription alias never reaches the registry or the default provider.\<close>

lemma subscription_boundary:
  "isOAuthSubscriptionAlias d a \<Longrightarrow>
     tg_provider (resolveAttemptTarget d a) = (if a \<in> rd_oauthAliases d then rd_providers d (alias_prefix a) else None) \<and>
     tg_providerName (resolveAttemptTarget d a) = Some (alias_prefix a)"
  by (simp add: isOAuthSubscriptionAlias_def resolveAttemptTarget_def Let_def split: prod.split)

lemma passthrough_same_protocol:
  "canUseNativePassthrough i = None \<Longrightarrow>
     pi_enabled i \<and> pi_hasNativeRequest i \<and> pi_protocol i = pi_targetProviderProtocol i \<and> pi_protocol i \<noteq> Openai_chat
     \<and> pi_supportsPassthrough i \<and> \<not> pi_requiresCompatibilityRewrite i"
  by (simp add: canUseNativePassthrough_def split: if_splits)

lemma passthrough_used_same_protocol:
  "pt_used (decideNativePassthroughForAttempt req t en) \<Longrightarrow>
     tg_targetProviderProtocol t = ir_protocol req \<and> ir_protocol req \<noteq> Openai_chat \<and> xr_native_request req \<noteq> None"
  by (auto simp: decideNativePassthroughForAttempt_def Let_def dest!: passthrough_same_protocol)

end
