(* ===== verification/Execute_Chain.thy ===== *)
theory Execute_Chain
  imports Attempt_Target Route_Request Circuit_Breaker
begin

text \<open>
  The execution adapter (\<open>apps/gateway/src/routes/execute.ts\<close>, \<open>createExecute\<close>): the walk down the candidate
  chain. For each candidate: resolution, breaker gate, capability and protocol guards, token preflight,
  invocation, classification of a failure, settlement of the breaker, attempt row; at the end the terminal
  error. What the outside does for a candidate - clock readings, the answers of the provider's calls, the
  abort signal, the breaker calls of other requests meanwhile - is its environment. The bodies sent upstream
  and the visual compression of them are not represented.
\<close>

subsection \<open>Environment and dependencies\<close>

record catalog_entry =
  ct_capabilities :: capabilities
  ct_outputThreeD :: "bool option"
  ct_outputVideo :: "bool option"
  ct_outputImage :: "bool option"

record exec_deps =
  xd_resolve :: resolve_deps
  xd_breaker :: circuit_config
  xd_catalog :: "string \<Rightarrow> string \<Rightarrow> catalog_entry option"
  xd_hasUsableProviders :: "bool option"
  xd_passthroughEnabled :: bool
  xd_firstOutputTimeoutMs :: "int option"
  xd_codexBufferedStreamRecovery :: bool
  xd_detail :: "thrown \<Rightarrow> error_detail"
  xd_costOf :: "string \<Rightarrow> string \<Rightarrow> json \<Rightarrow> rat option"
  xd_nativeUsage :: "protocol \<Rightarrow> json \<Rightarrow> json option"
  xd_uuid :: "json \<Rightarrow> string option"
  xd_num :: "rat \<Rightarrow> string"
  xd_showInt :: "int \<Rightarrow> string"

record candidate_env =
  ce_started :: rat
  ce_ended :: rat
  ce_gate_now :: clock
  ce_settle_now :: clock
  ce_others :: "breaker_event list"
  ce_count :: "thrown + json"
  ce_prepare :: "thrown option"
  ce_pulls :: "pull list"
  ce_answer :: "thrown + json"
  ce_deadline_fired :: bool
  ce_signal :: abort_signal
  ce_installation_ids :: "string option \<times> string option"
  ce_captured :: "string option"
  ce_metadata :: "(string \<times> string) list option"

text \<open>A stream handed back: the chunks it will deliver, and the error that cuts it short, if any.\<close>

type_synonym stream_handle = "string list \<times> thrown option"

type_synonym exec_outcome = "(json, stream_handle) execute_outcome"

record chain_state =
  cs_capabilityPruned :: bool
  cs_attemptedAny :: bool
  cs_circuitSkipped :: bool
  cs_onlyContextOrCapabilitySkips :: bool
  cs_contextConfirmations :: "string list"
  cs_contextOverflow :: "(string \<times> json_object option) option"

definition chain_init :: chain_state where
  "chain_init =
     \<lparr>cs_capabilityPruned = False, cs_attemptedAny = False, cs_circuitSkipped = False,
      cs_onlyContextOrCapabilitySkips = True, cs_contextConfirmations = [], cs_contextOverflow = None\<rparr>"

definition rememberContextOverflow :: "string \<Rightarrow> json_object option \<Rightarrow> string option \<Rightarrow> chain_state \<Rightarrow> chain_state" where
  "rememberContextOverflow message providerRaw confirmationKey s =
     (let s1 = (case confirmationKey of
              None \<Rightarrow> s
            | Some k \<Rightarrow> s\<lparr>cs_contextConfirmations := List.insert k (cs_contextConfirmations s)\<rparr>) in
      (case cs_contextOverflow s1 of
         None \<Rightarrow> s1\<lparr>cs_contextOverflow := Some (message, providerRaw)\<rparr>
       | Some (m, None) \<Rightarrow> s1\<lparr>cs_contextOverflow := Some (m, providerRaw)\<rparr>
       | Some (m, Some r) \<Rightarrow> s1))"

subsection \<open>Attempt rows\<close>

definition elapsed :: "candidate_env \<Rightarrow> rat" where
  "elapsed env = max 0 (ce_ended env - ce_started env)"

definition skipRow :: "string \<Rightarrow> string \<Rightarrow> rat \<Rightarrow> provider_attempt" where
  "skipRow alias_id why latencyMs =
     \<lparr>at_alias = alias_id, at_skipped = True, at_skip_reason = Some why, at_status = Attempt_error,
      at_error_class = None, at_latency_ms = latencyMs, at_cost_usd = None, at_error_detail = None,
      at_passthrough_used = False, at_request_installation_id = None, at_passthrough_installation_id = None\<rparr>"

definition okRow :: "string \<Rightarrow> rat \<Rightarrow> rat option \<Rightarrow> passthrough_telemetry \<Rightarrow> string option \<times> string option \<Rightarrow> provider_attempt" where
  "okRow alias_id latencyMs costUsd tel ids =
     \<lparr>at_alias = alias_id, at_skipped = False, at_skip_reason = None, at_status = Attempt_ok,
      at_error_class = None, at_latency_ms = latencyMs, at_cost_usd = costUsd, at_error_detail = None,
      at_passthrough_used = pt_used tel, at_request_installation_id = fst ids, at_passthrough_installation_id = snd ids\<rparr>"

definition errorRow :: "string \<Rightarrow> bool \<Rightarrow> string option \<Rightarrow> string option \<Rightarrow> rat \<Rightarrow> error_detail option \<Rightarrow>
    bool \<Rightarrow> string option \<times> string option \<Rightarrow> provider_attempt" where
  "errorRow alias_id skipped why cls latencyMs detail used ids =
     \<lparr>at_alias = alias_id, at_skipped = skipped, at_skip_reason = why, at_status = Attempt_error,
      at_error_class = cls, at_latency_ms = latencyMs, at_cost_usd = None, at_error_detail = detail,
      at_passthrough_used = used, at_request_installation_id = fst ids, at_passthrough_installation_id = snd ids\<rparr>"

subsection \<open>The gates before the invocation\<close>

fun skip_reason_name :: "skip_reason \<Rightarrow> string" where
  "skip_reason_name No_tool_support = ''no_tool_support''"
| "skip_reason_name No_forced_tool_choice_support = ''no_forced_tool_choice_support''"
| "skip_reason_name No_json_support = ''no_json_support''"
| "skip_reason_name No_response_schema_support = ''no_response_schema_support''"
| "skip_reason_name No_vision_support = ''no_vision_support''"
| "skip_reason_name No_audio_support = ''no_audio_support''"
| "skip_reason_name No_video_support = ''no_video_support''"
| "skip_reason_name No_document_support = ''no_document_support''"
| "skip_reason_name Context_too_small = ''context_too_small''"
| "skip_reason_name No_streaming_support = ''no_streaming_support''"
| "skip_reason_name No_nonstream_support = ''no_nonstream_support''"
| "skip_reason_name No_cached_content_support = ''no_cached_content_support''"

definition effectiveContextLimit :: "catalog_entry option \<Rightarrow> int option" where
  "effectiveContextLimit entry =
     (case entry of
        None \<Rightarrow> None
      | Some e \<Rightarrow> if 0 < maxContextTokens (ct_capabilities e) then Some (maxContextTokens (ct_capabilities e)) else None)"

definition countTokensInputTokens :: "json \<Rightarrow> rat option" where
  "countTokensInputTokens raw =
     (case opt_prop ''input_tokens'' (record_of (Some raw)) of Some (JNum n) \<Rightarrow> Some n | _ \<Rightarrow> None)"

definition exact_preflight :: "exec_request \<Rightarrow> attempt_target \<Rightarrow> provider_client \<Rightarrow> catalog_entry option \<Rightarrow> bool" where
  "exact_preflight req t p entry =
     (tg_targetProviderProtocol t = Anthropic_messages \<and> xr_native_request req \<noteq> None \<and> pv_countTokens p \<and>
      effectiveContextLimit entry \<noteq> None)"

definition capability_needs :: "exec_request \<Rightarrow> bool \<Rightarrow> capability_request" where
  "capability_needs req exact =
     (let md = detectRequestModalities (xr_messages req) in
      \<lparr>needsTools = nonempty_array (xr_tools req),
       needsForcedToolChoice = Some (forced_tool_choice (xr_tool_choice req)),
       needsJson = isJson (xr_response_format req),
       needsResponseSchema = isJsonSchema (xr_response_format req),
       needsVision = nonempty_array (xr_attachments req) \<or> md_image md,
       needsStreaming = xr_stream req,
       needsCachedContent = Some (needs_cached_content (xr_cached_content req)),
       estimatedPromptTokens = (if exact then 0 else approxPromptTokens (xr_messages req)),
       maxTokens = xr_max_tokens req,
       needsAudio = Some (md_audio md), needsVideo = Some (md_video md), needsDocument = Some (md_document md)\<rparr>)"

definition media_only :: "provider_client \<Rightarrow> catalog_entry option \<Rightarrow> string \<Rightarrow> bool" where
  "media_only p entry alias_id =
     (let flag = (\<lambda>f. case entry of None \<Rightarrow> False | Some e \<Rightarrow> f e = Some True) in
      pv_mediaOnly p = Some True \<or> flag ct_outputThreeD \<or> flag ct_outputVideo \<or>
      startsWith ''xai/'' alias_id \<and> flag ct_outputImage)"

definition too_long_message :: "exec_deps \<Rightarrow> int \<Rightarrow> int \<Rightarrow> string" where
  "too_long_message d n limit =
     ''prompt is too long: '' @ xd_showInt d n @ '' tokens > '' @ xd_showInt d limit @ '' maximum''"

text \<open>A skip with its reason and, for a context overflow, the message and the confirmation key to remember.\<close>

datatype gate_result =
    Gate_skip string "(string \<times> string option) option"
  | Gate_pass passthrough_telemetry

definition confirmation_key :: "attempt_target \<Rightarrow> string" where
  "confirmation_key t = nullish (tg_providerName t) ''<default>'' @ CHR 0x00 # tg_providerModel t"

definition capability_gate :: "exec_deps \<Rightarrow> exec_request \<Rightarrow> attempt_target \<Rightarrow> provider_client \<Rightarrow> catalog_entry \<Rightarrow>
    (string \<times> (string \<times> string option) option) option" where
  "capability_gate d req t p entry =
     (let caps = ct_capabilities entry;
          verdict = checkCapability caps (capability_needs req (exact_preflight req t p (Some entry))) in
      if fr_ok verdict then None
      else
        Some (case fr_skipReason verdict of None \<Rightarrow> ''capability'' | Some r \<Rightarrow> skip_reason_name r,
          if fr_skipReason verdict = Some Context_too_small
          then Some (too_long_message d (approxPromptTokens (xr_messages req) + nullish (xr_max_tokens req) 0)
                 (nullish (effectiveContextLimit (Some entry)) (maxContextTokens caps)), None)
          else None))"

definition preflight_gate :: "exec_deps \<Rightarrow> exec_request \<Rightarrow> candidate_env \<Rightarrow> attempt_target \<Rightarrow> provider_client \<Rightarrow>
    catalog_entry option \<Rightarrow> (string \<times> (string \<times> string option) option) option" where
  "preflight_gate d req env t p entry =
     (if \<not> exact_preflight req t p entry then None
      else
        (case (ce_count env, effectiveContextLimit entry) of
           (Inr answer, Some limit) \<Rightarrow>
             (case countTokensInputTokens answer of
                None \<Rightarrow> None
              | Some n \<Rightarrow>
                  if n > of_int limit
                  then Some (''context_too_small'', Some (too_long_message d \<lfloor>n\<rfloor> limit, Some (confirmation_key t)))
                  else None)
         | _ \<Rightarrow> None))"

definition candidate_gates :: "exec_deps \<Rightarrow> exec_request \<Rightarrow> candidate_env \<Rightarrow> string \<Rightarrow> attempt_target \<Rightarrow> provider_client \<Rightarrow> gate_result" where
  "candidate_gates d req env alias_id t p =
     (let entry = xd_catalog d alias_id (tg_providerModel t) in
      if entry = None \<and> isOAuthSubscriptionAlias (xd_resolve d) alias_id \<and> startsWith ''xai/'' alias_id
      then Gate_skip ''capability_metadata_missing'' None
      else if entry = None \<and> needs_cached_content (xr_cached_content req)
      then Gate_skip ''no_cached_content_support'' None
      else if media_only p entry alias_id then Gate_skip ''media_endpoint_required'' None
      else
        (case Option.bind entry (capability_gate d req t p) of
           Some (why, overflow) \<Rightarrow> Gate_skip why overflow
         | None \<Rightarrow>
             (case protocolGuardSkipReason req (tg_targetProviderProtocol t) of
                Some why \<Rightarrow> Gate_skip why None
              | None \<Rightarrow>
                  (case candidateGuardSkipReason req t alias_id of
                     Some why \<Rightarrow> Gate_skip why None
                   | None \<Rightarrow>
                       let tel = decideNativePassthroughForAttempt req t (xd_passthroughEnabled d) in
                       if raw_prop ''generate'' req = Some (JBool False) \<and> \<not> pt_used tel
                       then Gate_skip ''responses_generate_false_requires_native_passthrough'' None
                       else
                         (case preflight_gate d req env t p entry of
                            Some (why, overflow) \<Rightarrow> Gate_skip why overflow
                          | None \<Rightarrow> Gate_pass tel)))))"

subsection \<open>The invocation\<close>

text \<open>A provider's stream read without a guard.\<close>

fun raw_relay :: "pull list \<Rightarrow> stream_handle" where
  "raw_relay [] = ([], None)"
| "raw_relay (Chunk c # es) = (let (cs, e) = raw_relay es in (c # cs, e))"
| "raw_relay (Source_error e # es) = ([], Some e)"
| "raw_relay (Deadline # es) = raw_relay es"

definition peekStream :: "stream_handle \<Rightarrow> thrown + stream_handle" where
  "peekStream s =
     (case s of
        ([], Some err) \<Rightarrow> Inl err
      | ([], None) \<Rightarrow> Inl (UpstreamError Upstream_error ''upstream returned an empty stream'' None None No_object)
      | (c # cs, e) \<Rightarrow> Inr (c # cs, e))"

definition first_output_timeout :: "exec_deps \<Rightarrow> provider_client \<Rightarrow> int option" where
  "first_output_timeout d p =
     (let codexRecovery = pv_nativeProtocolProfile p = Some ''codex_responses'' \<and> xd_codexBufferedStreamRecovery d in
      case xd_firstOutputTimeoutMs d of
        None \<Rightarrow> None
      | Some ms \<Rightarrow> if \<not> codexRecovery \<and> 0 < ms then Some ms else None)"

definition native_stream :: "exec_deps \<Rightarrow> exec_request \<Rightarrow> candidate_env \<Rightarrow> provider_client \<Rightarrow> stream_handle" where
  "native_stream d req env p =
     (case preOutputClassifierFor (ir_protocol req) of
        None \<Rightarrow> raw_relay (ce_pulls env)
      | Some k \<Rightarrow> guardPreOutputFailure (xd_num d) (xd_showInt d) k (first_output_timeout d p) (ce_pulls env))"

definition translate_stream :: "exec_deps \<Rightarrow> candidate_env \<Rightarrow> stream_handle" where
  "translate_stream d env =
     (case preOutputClassifierFor Openai_chat of
        None \<Rightarrow> raw_relay (ce_pulls env)
      | Some k \<Rightarrow> guardPreOutputFailure (xd_num d) (xd_showInt d) k None (ce_pulls env))"

datatype served =
    Served_stream stream_handle bool
  | Served_body json bool "rat option"

definition in_deadline :: "exec_deps \<Rightarrow> exec_request \<Rightarrow> candidate_env \<Rightarrow> thrown + 'a \<Rightarrow> thrown + 'a" where
  "in_deadline d req env answer =
     withAttemptDeadline (xr_attempt_timeout_ms req) (ce_deadline_fired env) (ce_signal env) (xd_showInt d) answer"

definition priced_body :: "exec_deps \<Rightarrow> exec_request \<Rightarrow> json \<Rightarrow> json" where
  "priced_body d req body =
     (case xd_nativeUsage d (ir_protocol req) body of
        None \<Rightarrow> body
      | Some u \<Rightarrow> (case body of JObj kvs \<Rightarrow> JObj (set_prop ''usage'' u kvs) | _ \<Rightarrow> JObj [(''usage'', u)]))"

definition invoke :: "exec_deps \<Rightarrow> exec_request \<Rightarrow> candidate_env \<Rightarrow> string \<Rightarrow> attempt_target \<Rightarrow> provider_client \<Rightarrow>
    passthrough_telemetry \<Rightarrow> thrown + served" where
  "invoke d req env alias_id t p tel =
     (case identity_boundary (xd_uuid d) req t of
        Some e \<Rightarrow> Inl e
      | None \<Rightarrow>
          (case ce_prepare env of
             Some e \<Rightarrow> Inl e
           | None \<Rightarrow>
               if xr_stream req then
                 (case in_deadline d req env (peekStream (if pt_used tel then native_stream d req env p else translate_stream d env)) of
                    Inl e \<Rightarrow> Inl e
                  | Inr s \<Rightarrow> Inr (Served_stream s (pt_used tel)))
               else
                 (case in_deadline d req env (ce_answer env) of
                    Inl e \<Rightarrow> Inl e
                  | Inr body \<Rightarrow>
                      Inr (Served_body body (pt_used tel)
                        (xd_costOf d alias_id (tg_providerModel t) (if pt_used tel then priced_body d req body else body))))))"

subsection \<open>The classification of a failure\<close>

datatype settle = Settle_success | Settle_failure | Settle_abort

text \<open>
  What the catch block does: how the breaker is settled (an unsettled path is the finally block's abort), the
  row, the terminal error if the chain ends here, the bookkeeping flags, and the auto-park signal.
\<close>

record failure_verdict =
  fv_settle :: settle
  fv_row :: provider_attempt
  fv_terminal :: "helm_error option"
  fv_pruned :: bool
  fv_notOnlySkips :: bool
  fv_parks :: bool

definition verdict_stop :: "settle \<Rightarrow> provider_attempt \<Rightarrow> helm_error \<Rightarrow> failure_verdict" where
  "verdict_stop s row err =
     \<lparr>fv_settle = s, fv_row = row, fv_terminal = Some err, fv_pruned = False, fv_notOnlySkips = False, fv_parks = False\<rparr>"

definition verdict_skip :: "provider_attempt \<Rightarrow> failure_verdict" where
  "verdict_skip row =
     \<lparr>fv_settle = Settle_abort, fv_row = row, fv_terminal = None, fv_pruned = True, fv_notOnlySkips = False, fv_parks = False\<rparr>"

definition isPostSendFailure :: "thrown \<Rightarrow> bool" where
  "isPostSendFailure err =
     (case upstream_of err of
        None \<Rightarrow> False
      | Some u \<Rightarrow> isCodexResponsesPostSendFailureCode (upstreamErrorCode (uf_providerRaw u)))"

definition codex_terminal :: "exec_request \<Rightarrow> thrown \<Rightarrow> bool" where
  "codex_terminal req err =
     (ir_protocol req = Openai_responses \<and> isCodexResponsesBeforeSendError err \<or> isPostSendFailure err \<or>
      isCodexCapacityExhausted err)"

definition is_timeout :: "thrown \<Rightarrow> bool" where
  "is_timeout err = (case upstream_of err of None \<Rightarrow> False | Some u \<Rightarrow> uf_errorClass u = Timeout_error)"

definition raw_json :: "json_object option \<Rightarrow> json option" where
  "raw_json raw = map_option JObj raw"

definition request_trace :: "exec_request \<Rightarrow> trace_id" where
  "request_trace req = correlationTraceId (internal_request.truncate req)"

definition request_rejected :: "exec_request \<Rightarrow> error_detail \<Rightarrow> helm_error" where
  "request_rejected req det =
     makeHelmErrorRaw Invalid_request (nullish (upstreamErrorMessage (raw_json (ed_provider_raw det))) (ed_message det))
       (request_trace req) (ed_provider_raw det)"

definition cancelled_verdict :: "exec_request \<Rightarrow> candidate_env \<Rightarrow> string \<Rightarrow> string \<Rightarrow> error_class \<Rightarrow> string \<Rightarrow> string \<Rightarrow> failure_verdict" where
  "cancelled_verdict req env alias_id why cls cls_name message =
     verdict_stop Settle_abort
       (errorRow alias_id False (Some why) (Some cls_name) (elapsed env) None False (None, None))
       (makeHelmError cls message (request_trace req))"

text \<open>A failure that is not the request's own cancellation.\<close>

definition classify_fault :: "exec_deps \<Rightarrow> exec_request \<Rightarrow> candidate_env \<Rightarrow> string \<Rightarrow> passthrough_telemetry \<Rightarrow> thrown \<Rightarrow> failure_verdict" where
  "classify_fault d req env alias_id tel err =
     (let lat = elapsed env; det = xd_detail d err; num = xd_num d;
          row = (\<lambda>skipped why cls. errorRow alias_id skipped why cls lat (Some det) (pt_used tel) (ce_installation_ids env));
          oauth = isOAuthSubscriptionAlias (xd_resolve d) alias_id in
      if codex_terminal req err then
        (let cap = isCodexCapacityExhausted err; cls = (if cap then Upstream_error else Lane_unavailable) in
         verdict_stop (if is_timeout err then Settle_failure else Settle_abort)
           (row False None (Some (if cap then ''upstream_error'' else ''lane_unavailable'')))
           (makeHelmErrorRaw cls (ed_message det) (request_trace req) (ed_provider_raw det)))
      else if isFreeAlias alias_id \<and> upstreamStatusOf err = Some 429 then
        \<lparr>fv_settle = Settle_abort,
         fv_row = errorRow alias_id True (Some ''free_429'') (Some ''rate_limited'') lat (Some det) False (None, None),
         fv_terminal = None, fv_pruned = False, fv_notOnlySkips = True, fv_parks = False\<rparr>
      else if isContextWindowRejection num err then
        verdict_stop Settle_abort (row False None (Some ''invalid_request'')) (request_rejected req det)
      else if isReasoningHistoryRejection num err then
        verdict_skip (row True (Some ''reasoning_history_incompatible'') None)
      else if isCandidateSpecificProtocolRejection err then
        verdict_skip (row True (Some ''provider_protocol_incompatible'') None)
      else if isAnthropicIdentity err \<or> isUpstreamRequestRejection num err then
        verdict_stop Settle_abort (row False None (Some ''invalid_request'')) (request_rejected req det)
      else
        \<lparr>fv_settle = (if oauth \<and> isAccountScopedFault err then Settle_abort else Settle_failure),
         fv_row = row False None (Some (errorClassOf err)),
         fv_terminal = None, fv_pruned = False, fv_notOnlySkips = True,
         fv_parks = (upstreamStatusOf err = Some 429 \<and> oauth)\<rparr>)"

definition classify_failure :: "exec_deps \<Rightarrow> exec_request \<Rightarrow> candidate_env \<Rightarrow> string \<Rightarrow> passthrough_telemetry \<Rightarrow> thrown \<Rightarrow> failure_verdict" where
  "classify_failure d req env alias_id tel err =
     (let cancellation = requestCancellationReason (ce_signal env) No_object in
      if cancellation = Some Concurrency_lease_lost
      then cancelled_verdict req env alias_id ''concurrency_lease_lost'' Lane_unavailable ''lane_unavailable'' ''concurrency lease lost''
      else if cancellation = Some Request_timeout
      then cancelled_verdict req env alias_id ''request_timeout'' Timeout_error ''timeout'' ''request timed out''
      else if isAbort err (ce_signal env)
      then cancelled_verdict req env alias_id ''aborted'' Client_abort ''client_abort'' ''client aborted request''
      else if isQueueTimeout err
      then cancelled_verdict req env alias_id ''user_message_queue_timeout'' Lane_unavailable ''lane_unavailable''
             ''user message queue wait timed out; retry shortly''
      else classify_fault d req env alias_id tel err)"

subsection \<open>One candidate\<close>

definition settleBreaker :: "circuit_config \<Rightarrow> clock \<Rightarrow> string \<Rightarrow> probe_token option \<Rightarrow> settle \<Rightarrow> breaker \<Rightarrow> breaker" where
  "settleBreaker cfg now alias_id tok kind b =
     (case kind of
        Settle_success \<Rightarrow> recordSuccess alias_id b
      | Settle_failure \<Rightarrow> recordFailure cfg now alias_id b
      | Settle_abort \<Rightarrow> recordAbort alias_id tok b)"

datatype candidate_end =
    Cand_next
  | Cand_served served string
  | Cand_failed helm_error

text \<open>A candidate's result; beside row and end it keeps what happened on the way, which the properties speak of.\<close>

record candidate_result =
  cr_row :: provider_attempt
  cr_end :: candidate_end
  cr_token :: "probe_token option"
  cr_settled :: "settle option"
  cr_invoked :: "provider_client option"
  cr_error :: "thrown option"
  cr_parked :: bool

definition gated :: "provider_attempt \<Rightarrow> candidate_result" where
  "gated row =
     \<lparr>cr_row = row, cr_end = Cand_next, cr_token = None, cr_settled = None, cr_invoked = None, cr_error = None,
      cr_parked = False\<rparr>"

definition okRow_of :: "candidate_env \<Rightarrow> string \<Rightarrow> passthrough_telemetry \<Rightarrow> served \<Rightarrow> provider_attempt" where
  "okRow_of env alias_id tel sv =
     okRow alias_id (elapsed env) (case sv of Served_stream _ _ \<Rightarrow> None | Served_body _ _ c \<Rightarrow> c) tel (ce_installation_ids env)"

text \<open>From the granted gate to the settlement: the result and the chain's flags.\<close>

definition attempt_candidate :: "exec_deps \<Rightarrow> exec_request \<Rightarrow> candidate_env \<Rightarrow> string \<Rightarrow> attempt_target \<Rightarrow> provider_client \<Rightarrow>
    probe_token option \<Rightarrow> chain_state \<Rightarrow> candidate_result \<times> chain_state" where
  "attempt_candidate d req env alias_id t p tok s =
     (case candidate_gates d req env alias_id t p of
        Gate_skip why overflow \<Rightarrow>
          ((gated (skipRow alias_id why (elapsed env)))\<lparr>cr_token := tok, cr_settled := Some Settle_abort\<rparr>,
           (case overflow of
              None \<Rightarrow> s\<lparr>cs_capabilityPruned := True\<rparr>
            | Some (msg, key) \<Rightarrow> rememberContextOverflow msg None key (s\<lparr>cs_capabilityPruned := True\<rparr>)))
      | Gate_pass tel \<Rightarrow>
          (case invoke d req env alias_id t p tel of
             Inr sv \<Rightarrow>
               (\<lparr>cr_row = okRow_of env alias_id tel sv, cr_end = Cand_served sv (tg_providerModel t), cr_token = tok,
                 cr_settled = Some Settle_success, cr_invoked = Some p, cr_error = None, cr_parked = False\<rparr>,
                s\<lparr>cs_attemptedAny := True\<rparr>)
           | Inl err \<Rightarrow>
               let v = classify_failure d req env alias_id tel err in
               (\<lparr>cr_row = fv_row v, cr_end = (case fv_terminal v of None \<Rightarrow> Cand_next | Some e \<Rightarrow> Cand_failed e),
                 cr_token = tok, cr_settled = Some (fv_settle v), cr_invoked = Some p, cr_error = Some err,
                 cr_parked = fv_parks v\<rparr>,
                s\<lparr>cs_attemptedAny := True,
                  cs_capabilityPruned := cs_capabilityPruned s \<or> fv_pruned v,
                  cs_onlyContextOrCapabilitySkips := cs_onlyContextOrCapabilitySkips s \<and> \<not> fv_notOnlySkips v\<rparr>)))"

definition try_candidate :: "exec_deps \<Rightarrow> exec_request \<Rightarrow> candidate_env \<Rightarrow> string \<Rightarrow> chain_state \<times> breaker \<Rightarrow>
    candidate_result \<times> chain_state \<times> breaker" where
  "try_candidate d req env alias_id sb =
     (let (s, b) = sb; t = resolveAttemptTarget (xd_resolve d) alias_id in
      case tg_provider t of
        None \<Rightarrow>
          (gated (skipRow alias_id ''provider_unavailable'' (elapsed env)), s\<lparr>cs_onlyContextOrCapabilitySkips := False\<rparr>, b)
      | Some p \<Rightarrow>
          let (dec, b1) = canAttempt (xd_breaker d) (ce_gate_now env) alias_id b in
          if \<not> allow dec then
            (gated (skipRow alias_id (nullish (reason dec) ''circuit_open'') (elapsed env)),
             s\<lparr>cs_circuitSkipped := True, cs_onlyContextOrCapabilitySkips := False\<rparr>, b1)
          else
            let (r, s') = attempt_candidate d req env alias_id t p (dec_token dec) s;
                b2 = breaker_run (xd_breaker d) b1 (ce_others env) in
            (r, s', settleBreaker (xd_breaker d) (ce_settle_now env) alias_id (dec_token dec)
                     (nullish (cr_settled r) Settle_abort) b2))"

subsection \<open>The chain\<close>

fun run_chain :: "exec_deps \<Rightarrow> exec_request \<Rightarrow> (string \<times> candidate_env) list \<Rightarrow> chain_state \<times> breaker \<Rightarrow>
    candidate_result list \<times> chain_state \<times> breaker" where
  "run_chain d req [] sb = ([], sb)"
| "run_chain d req ((alias_id, env) # rest) sb =
     (case try_candidate d req env alias_id sb of
        (r, sb') \<Rightarrow>
          if cr_end r = Cand_next
          then (case run_chain d req rest sb' of (rs, sb'') \<Rightarrow> (r # rs, sb''))
          else ([r], sb'))"

text \<open>The arrow of the message (U+2192) is outside Latin-1; it is transcribed.\<close>

definition arrow :: string where "arrow = ''->''"

definition native_items_reasons :: "string list" where
  "native_items_reasons =
     [''responses_native_items_cross_protocol_blocked'', ''responses_native_items_provider_incompatible'']"

definition terminal_class :: "exec_deps \<Rightarrow> string list \<Rightarrow> chain_state \<Rightarrow> error_class" where
  "terminal_class d chain s =
     (if chain = [] then Lane_unavailable
      else if xd_hasUsableProviders d = Some False then Lane_unavailable
      else if cs_contextOverflow s \<noteq> None \<and>
        (cs_onlyContextOrCapabilitySkips s \<or> 2 \<le> length (cs_contextConfirmations s)) then Invalid_request
      else if \<not> cs_attemptedAny s \<and> cs_capabilityPruned s \<and> \<not> cs_circuitSkipped s \<and> cs_onlyContextOrCapabilitySkips s
      then Capability_unsatisfiable
      else All_providers_failed)"

definition terminal_message :: "exec_deps \<Rightarrow> string list \<Rightarrow> provider_attempt list \<Rightarrow> chain_state \<Rightarrow> string" where
  "terminal_message d chain attempts s =
     (case terminal_class d chain s of
        Invalid_request \<Rightarrow> (case cs_contextOverflow s of Some (m, _) \<Rightarrow> m | None \<Rightarrow> [])
      | Capability_unsatisfiable \<Rightarrow> ''no candidate satisfies the request'' @ [CHR 0x27] @ ''s capability constraints''
      | Lane_unavailable \<Rightarrow>
          if chain = [] then ''lane has no candidates''
          else ''no provider is configured; add an API key or connect a subscription in Admin '' @ arrow @ '' Providers''
      | _ \<Rightarrow>
          if \<exists>a \<in> set attempts. at_skip_reason a \<in> Some ` set native_items_reasons
          then ''request carries Responses native items (e.g. Codex sub-agent / encrypted agent_message) that cannot be translated to another provider; the only compatible providers were unavailable, and no cross-provider fallback is possible for this request''
          else ''all providers in the candidate chain failed'')"

definition terminal_error :: "exec_deps \<Rightarrow> exec_request \<Rightarrow> string list \<Rightarrow> provider_attempt list \<Rightarrow> chain_state \<Rightarrow> helm_error" where
  "terminal_error d req chain attempts s =
     makeHelmErrorRaw (terminal_class d chain s) (terminal_message d chain attempts s) (request_trace req)
       (if terminal_class d chain s = Invalid_request
        then (case cs_contextOverflow s of Some (_, r) \<Rightarrow> r | None \<Rightarrow> None) else None)"

definition error_outcome :: "provider_attempt list \<Rightarrow> helm_error \<Rightarrow> exec_outcome" where
  "error_outcome attempts e =
     \<lparr>eo_attempts = attempts, eo_final = Exec_error e, eo_body = None, eo_stream = None, eo_nativePassthrough = None,
      eo_upstreamRequest = None, eo_responseMetadata = None\<rparr>"

definition served_outcome :: "provider_attempt list \<Rightarrow> string \<Rightarrow> string \<Rightarrow> candidate_env \<Rightarrow> served \<Rightarrow> exec_outcome" where
  "served_outcome attempts alias_id model env sv =
     \<lparr>eo_attempts = attempts, eo_final = Exec_ok alias_id model,
      eo_body = (case sv of Served_stream _ _ \<Rightarrow> None | Served_body b _ _ \<Rightarrow> Some b),
      eo_stream = (case sv of Served_stream s _ \<Rightarrow> Some s | Served_body _ _ _ \<Rightarrow> None),
      eo_nativePassthrough =
        (if (case sv of Served_stream _ n \<Rightarrow> n | Served_body _ n _ \<Rightarrow> n) then Some True else None),
      eo_upstreamRequest = ce_captured env, eo_responseMetadata = ce_metadata env\<rparr>"

text \<open>The environment of the candidate at position \<open>i\<close> of the chain is \<open>env i\<close>.\<close>

definition with_envs :: "(nat \<Rightarrow> candidate_env) \<Rightarrow> string list \<Rightarrow> (string \<times> candidate_env) list" where
  "with_envs env chain = zip chain (map env [0..<length chain])"

definition chain_results :: "exec_deps \<Rightarrow> (nat \<Rightarrow> candidate_env) \<Rightarrow> string list \<Rightarrow> exec_request \<Rightarrow> breaker \<Rightarrow>
    candidate_result list \<times> chain_state \<times> breaker" where
  "chain_results d env chain req b = run_chain d req (with_envs env chain) (chain_init, b)"

definition execute :: "exec_deps \<Rightarrow> (nat \<Rightarrow> candidate_env) \<Rightarrow> execution_plan \<Rightarrow> exec_request \<Rightarrow> breaker \<Rightarrow> exec_outcome \<times> breaker" where
  "execute d env pl req b =
     (case chain_results d env (candidate_chain pl) req b of
        (rs, s, b') \<Rightarrow>
          let attempts = map cr_row rs;
              fallthrough = error_outcome attempts (terminal_error d req (candidate_chain pl) attempts s) in
          (case last_opt rs of
             None \<Rightarrow> fallthrough
           | Some r \<Rightarrow>
               (case cr_end r of
                  Cand_next \<Rightarrow> fallthrough
                | Cand_failed e \<Rightarrow> error_outcome attempts e
                | Cand_served sv model \<Rightarrow> served_outcome attempts (at_alias (cr_row r)) model (env (length rs - 1)) sv), b'))"

end
