(* ===== verification/Execute_Facts.thy ===== *)
theory Execute_Facts
  imports Execute_Chain
begin

text \<open>
  What holds of the executor: the attempt trail, the ownership of breaker probes, which failures fault a
  breaker, the terminal error, and when the chain may go on.
\<close>

subsection \<open>Rows\<close>

lemma row_aliases [simp]:
  "at_alias (skipRow a w l) = a" "at_alias (okRow a l c t ids) = a" "at_alias (errorRow a sk wo cl l de u ids) = a"
  "at_status (skipRow a w l) = Attempt_error" "at_status (okRow a l c t ids) = Attempt_ok"
  "at_status (errorRow a sk wo cl l de u ids) = Attempt_error"
  "at_skipped (skipRow a w l)" "\<not> at_skipped (okRow a l c t ids)" "at_skipped (errorRow a sk wo cl l de u ids) = sk"
  "at_error_class (skipRow a w l) = None" "at_skip_reason (okRow a l c t ids) = None"
  for w :: string and wo :: "string option"
  by (simp_all add: skipRow_def okRow_def errorRow_def)

lemma okRow_of_simps [simp]:
  "at_alias (okRow_of env a tel sv) = a" "at_status (okRow_of env a tel sv) = Attempt_ok"
  "\<not> at_skipped (okRow_of env a tel sv)"
  by (simp_all add: okRow_of_def)

lemma verdict_sel [simp]:
  "fv_row (verdict_stop s row e) = row" "fv_terminal (verdict_stop s row e) = Some e" "fv_settle (verdict_stop s row e) = s"
  "fv_row (verdict_skip row) = row" "fv_terminal (verdict_skip row) = None" "fv_settle (verdict_skip row) = Settle_abort"
  "fv_pruned (verdict_skip row)" "\<not> fv_notOnlySkips (verdict_skip row)"
  "fv_row (cancelled_verdict req env a w c cn m) = errorRow a False (Some w) (Some cn) (elapsed env) None False (None, None)"
  "fv_settle (cancelled_verdict req env a w c cn m) = Settle_abort"
  "fv_terminal (cancelled_verdict req env a w c cn m) = Some (makeHelmError c m (request_trace req))"
  by (simp_all add: verdict_stop_def verdict_skip_def cancelled_verdict_def)

lemma fault_row [simp]:
  "at_alias (fv_row (classify_fault d req env a tel err)) = a"
  "at_status (fv_row (classify_fault d req env a tel err)) = Attempt_error"
  by (simp_all add: classify_fault_def Let_def)

lemma failure_row [simp]:
  "at_alias (fv_row (classify_failure d req env a tel err)) = a"
  "at_status (fv_row (classify_failure d req env a tel err)) = Attempt_error"
  by (simp_all add: classify_failure_def Let_def)

lemma gated_simps [simp]:
  "cr_row (gated row) = row" "cr_end (gated row) = Cand_next" "cr_invoked (gated row) = None" "cr_error (gated row) = None"
  "cr_settled (gated row) = None" "cr_token (gated row) = None"
  by (simp_all add: gated_def)

text \<open>A result is well formed: its row is the candidate's, and is ok exactly when the candidate served.\<close>

definition result_ok :: "string \<Rightarrow> candidate_result \<Rightarrow> bool" where
  "result_ok a r \<longleftrightarrow> at_alias (cr_row r) = a \<and>
     (case cr_end r of
        Cand_served sv m \<Rightarrow> at_status (cr_row r) = Attempt_ok \<and> \<not> at_skipped (cr_row r)
      | _ \<Rightarrow> at_status (cr_row r) = Attempt_error)"

lemma attempt_candidate_ok: "result_ok a (fst (attempt_candidate d req env a t p tok s))"
  by (auto simp: attempt_candidate_def result_ok_def Let_def split: gate_result.split option.split sum.split prod.split)

lemma try_candidate_ok: "result_ok a (fst (try_candidate d req env a sb))"
proof -
  obtain s b where sb: "sb = (s, b)" by (cases sb)
  show ?thesis
  proof (cases "tg_provider (resolveAttemptTarget (xd_resolve d) a)")
    case None
    then show ?thesis by (simp add: try_candidate_def sb result_ok_def)
  next
    case (Some p)
    obtain dec b1 where g: "canAttempt (xd_breaker d) (ce_gate_now env) a b = (dec, b1)" by (metis surj_pair)
    obtain r s' where r: "attempt_candidate d req env a (resolveAttemptTarget (xd_resolve d) a) p (dec_token dec) s = (r, s')"
      by (metis surj_pair)
    then have "result_ok a r" using attempt_candidate_ok by (metis fst_conv)
    then show ?thesis using Some g r by (simp add: try_candidate_def sb Let_def) (simp add: result_ok_def)
  qed
qed

lemma run_chain_shape:
  "run_chain d req as sb = (rs, sb') \<Longrightarrow>
     list_all2 result_ok (take (length rs) (map fst as)) rs \<and> length rs \<le> length as \<and>
     list_all (\<lambda>r. cr_end r = Cand_next) (butlast rs) \<and>
     (case last_opt rs of None \<Rightarrow> as = [] | Some r \<Rightarrow> cr_end r = Cand_next \<longrightarrow> length rs = length as)"
proof (induction d req as sb arbitrary: rs sb' rule: run_chain.induct)
  case (2 d req a env rest sb)
  obtain r sb1 where r: "try_candidate d req env a sb = (r, sb1)" by (metis surj_pair)
  have ok: "result_ok a r" using try_candidate_ok [of a d req env sb] r by simp
  show ?case
  proof (cases "cr_end r = Cand_next")
    case False
    then show ?thesis using "2.prems" r ok by (auto simp: last_opt_def)
  next
    case True
    obtain rs1 sb2 where rest: "run_chain d req rest sb1 = (rs1, sb2)" by (metis surj_pair)
    show ?thesis using "2.IH" [OF r [symmetric] True rest] "2.prems" True r rest ok
      by (cases rs1 rule: rev_cases) (auto simp: last_opt_def)
  qed
qed (simp add: last_opt_def)

lemma with_envs_fst [simp]: "map fst (with_envs env chain) = chain" "length (with_envs env chain) = length chain"
  by (simp_all add: with_envs_def)

lemma last_opt_Some: "last_opt xs = Some x \<longleftrightarrow> xs \<noteq> [] \<and> x = last xs"
  by (auto simp: last_opt_def)

lemma last_opt_None: "last_opt xs = None \<longleftrightarrow> xs = []"
  by (auto simp: last_opt_def)

lemma chain_shape:
  assumes "chain_results d env chain req b = (rs, s, b')"
  shows "list_all2 result_ok (take (length rs) chain) rs" "length rs \<le> length chain"
    "list_all (\<lambda>r. cr_end r = Cand_next) (butlast rs)"
    "rs = [] \<Longrightarrow> chain = []" "rs \<noteq> [] \<Longrightarrow> cr_end (last rs) = Cand_next \<Longrightarrow> length rs = length chain"
proof -
  have run: "run_chain d req (with_envs env chain) (chain_init, b) = (rs, s, b')"
    using assms by (simp add: chain_results_def)
  note sh = run_chain_shape [OF run]
  show "list_all2 result_ok (take (length rs) chain) rs" "length rs \<le> length chain"
    "list_all (\<lambda>r. cr_end r = Cand_next) (butlast rs)" using sh by simp_all
  show "rs = [] \<Longrightarrow> chain = []" using sh by (auto simp: last_opt_def with_envs_def)
  show "rs \<noteq> [] \<Longrightarrow> cr_end (last rs) = Cand_next \<Longrightarrow> length rs = length chain" using sh by (simp add: last_opt_def)
qed

lemma rows_aliases: "list_all2 result_ok as rs \<Longrightarrow> map (\<lambda>r. at_alias (cr_row r)) rs = as"
  by (induction as rs rule: list_all2_induct) (auto simp: result_ok_def)

lemma rows_last: "list_all2 result_ok as rs \<Longrightarrow> rs \<noteq> [] \<Longrightarrow> \<exists>a. result_ok a (last rs)"
  by (cases rs rule: rev_cases) (auto simp: list_all2_append2 list_all2_Cons2)

lemma rows_next_error:
  "list_all2 result_ok as rs \<Longrightarrow> list_all (\<lambda>r. cr_end r = Cand_next) xs \<Longrightarrow> set xs \<subseteq> set rs \<Longrightarrow>
   list_all (\<lambda>r. at_status (cr_row r) = Attempt_error) xs"
  by (auto simp: list_all_iff list_all2_conv_all_nth result_ok_def in_set_conv_nth subset_iff) fastforce

text \<open>
  C26. The attempt trail: one row per candidate visited, in the order of the chain and without gaps; every row
  but the last is an error; the answer is ok exactly when the last row is, it names that row's alias, and it
  carries either a body or a stream; on an error no row is ok and nothing is served.
\<close>
theorem attempt_trail:
  "case execute d env pl req b of (out, b') \<Rightarrow>
     map at_alias (eo_attempts out) = take (length (eo_attempts out)) (candidate_chain pl) \<and>
     list_all (\<lambda>a. at_status a = Attempt_error) (butlast (eo_attempts out)) \<and>
     (case eo_final out of
        Exec_ok alias_id _ \<Rightarrow>
          (case last_opt (eo_attempts out) of
             None \<Rightarrow> False
           | Some row \<Rightarrow> at_alias row = alias_id \<and> at_status row = Attempt_ok \<and> \<not> at_skipped row) \<and>
          (eo_body out = None \<longleftrightarrow> eo_stream out \<noteq> None)
      | Exec_error _ \<Rightarrow>
          list_all (\<lambda>a. at_status a = Attempt_error) (eo_attempts out) \<and> eo_body out = None \<and> eo_stream out = None)"
proof -
  obtain rs s b' where rs: "chain_results d env (candidate_chain pl) req b = (rs, s, b')" by (metis prod_cases3)
  note sh = chain_shape [OF rs]
  have al: "map at_alias (map cr_row rs) = take (length rs) (candidate_chain pl)"
    using rows_aliases [OF sh(1)] by (simp add: comp_def)
  have bl: "list_all (\<lambda>a. at_status a = Attempt_error) (map cr_row (butlast rs))"
    using rows_next_error [OF sh(1,3)] by (simp add: list_all_iff in_set_butlastD subset_iff)
  show ?thesis
  proof (cases "rs = []")
    case True
    then show ?thesis using rs by (simp add: execute_def last_opt_def error_outcome_def)
  next
    case False
    obtain a where lr: "result_ok a (last rs)" using rows_last [OF sh(1) False] by blast
    have bl': "list_all (\<lambda>a. at_status a = Attempt_error) (butlast (map cr_row rs))" using bl by (simp add: map_butlast)
    have last: "last_opt rs = Some (last rs)" "last_opt (map cr_row rs) = Some (cr_row (last rs))"
      using False by (simp_all add: last_opt_def last_map)
    have failing: ?thesis if "execute d env pl req b = (error_outcome (map cr_row rs) e, b')"
      and "at_status (cr_row (last rs)) = Attempt_error" for e
    proof -
      have "map cr_row rs = butlast (map cr_row rs) @ [cr_row (last rs)]"
        using False append_butlast_last_id [of "map cr_row rs"] by (simp add: last_map)
      then have "list_all (\<lambda>a. at_status a = Attempt_error) (map cr_row rs)"
        using bl' that(2) by (metis list.pred_inject list_all_append)
      then show ?thesis using al bl' that(1) by (simp add: error_outcome_def)
    qed
    show ?thesis
    proof (cases "cr_end (last rs)")
      case Cand_next
      then have st: "at_status (cr_row (last rs)) = Attempt_error" using lr by (simp add: result_ok_def)
      have ex: "execute d env pl req b = (error_outcome (map cr_row rs) (terminal_error d req (candidate_chain pl) (map cr_row rs) s), b')"
        using rs last Cand_next by (simp add: execute_def Let_def)
      show ?thesis by (rule failing [OF ex st])
    next
      case (Cand_failed e)
      then have st: "at_status (cr_row (last rs)) = Attempt_error" using lr by (simp add: result_ok_def)
      have ex: "execute d env pl req b = (error_outcome (map cr_row rs) e, b')"
        using rs last Cand_failed by (simp add: execute_def Let_def)
      show ?thesis by (rule failing [OF ex st])
    next
      case (Cand_served sv m)
      then have "at_status (cr_row (last rs)) = Attempt_ok" "\<not> at_skipped (cr_row (last rs))" using lr by (simp_all add: result_ok_def)
      moreover have "execute d env pl req b =
          (served_outcome (map cr_row rs) (at_alias (cr_row (last rs))) m (env (length rs - 1)) sv, b')"
        using rs last Cand_served by (simp add: execute_def Let_def)
      ultimately show ?thesis using al bl' last(2) by (simp add: served_outcome_def split: served.split)
    qed
  qed
qed

subsection \<open>Probe tokens\<close>

definition token_bound :: "breaker \<Rightarrow> bool" where
  "token_bound b \<longleftrightarrow> (\<forall>m t. probeToken (get_entry b m) = Some t \<longrightarrow> t < nextSymbol b)"

text \<open>A token that no entry is probing with, and that is not yet to be granted.\<close>

definition spent_token :: "probe_token \<Rightarrow> breaker \<Rightarrow> bool" where
  "spent_token t b \<longleftrightarrow> t < nextSymbol b \<and> (\<forall>m. \<not> probing t (get_entry b m))"

lemma entry_step_token:
  "probeToken (entry_step cfg n e x) = Some t \<Longrightarrow> probeToken x = Some t \<or> t = n \<and> (\<exists>m now. e = Attempt m now)"
  by (cases e) (auto simp: entry_defs trip_def Let_def split: circuit_state.splits option.splits if_splits)

lemma attempt_uses_token:
  "probeToken (attempt_entry cfg n now x) = Some n \<Longrightarrow> probeToken x \<noteq> Some n \<Longrightarrow> dec_token (verdict cfg n now x) = Some n"
  by (auto simp: attempt_entry_def verdict_def split: circuit_state.splits option.splits if_splits)

lemma entry_step_probing:
  "probing t (entry_step cfg n e x) \<Longrightarrow> probing t x \<or> t = n"
  by (cases e) (auto simp: entry_defs probing_def split: circuit_state.splits option.splits if_splits)

lemma step_is_attempt: "breaker_step cfg b (Attempt m now) = snd (canAttempt cfg now m b)"
  by (simp add: breaker_step.simps)

lemma token_bound_step: "token_bound b \<Longrightarrow> token_bound (breaker_step cfg b e)"
  unfolding token_bound_def
proof (intro allI impI)
  fix m t
  assume b: "\<forall>m t. probeToken (get_entry b m) = Some t \<longrightarrow> t < nextSymbol b"
    and t: "probeToken (get_entry (breaker_step cfg b e) m) = Some t"
  have mono: "nextSymbol b \<le> nextSymbol (breaker_step cfg b e)" by (rule breaker_step_nextSymbol)
  show "t < nextSymbol (breaker_step cfg b e)"
  proof (cases "probeToken (get_entry b m) = Some t")
    case True
    then show ?thesis using b mono by (meson less_le_trans)
  next
    case False
    then have ev: "event_model e = m" "probeToken (entry_step cfg (nextSymbol b) e (get_entry b m)) = Some t"
      using t by (auto simp: breaker_step_entry split: if_splits)
    with False obtain now where e: "e = Attempt m now" "t = nextSymbol b"
      using entry_step_token [OF ev(2)] by auto
    have "dec_token (fst (canAttempt cfg now m b)) = Some t"
      using ev(2) e False attempt_uses_token [of cfg t now "get_entry b m"] by (simp add: canAttempt_verdict)
    then show ?thesis using e by (simp add: step_is_attempt canAttempt_nextSymbol canAttempt_verdict)
  qed
qed

lemma token_bound_run: "token_bound b \<Longrightarrow> token_bound (breaker_run cfg b es)"
  by (induction es arbitrary: b) (simp_all add: token_bound_step)

lemma token_bound_init [simp]: "token_bound createCircuitBreaker"
  by (simp add: token_bound_def get_entry_def createCircuitBreaker_def freshEntry_def)

lemma spent_step: "spent_token t b \<Longrightarrow> spent_token t (breaker_step cfg b e)"
  unfolding spent_token_def
proof (elim conjE, intro conjI allI)
  assume lt: "t < nextSymbol b" and np: "\<forall>m. \<not> probing t (get_entry b m)"
  show "t < nextSymbol (breaker_step cfg b e)" using lt breaker_step_nextSymbol [of b cfg e] by linarith
  show "\<not> probing t (get_entry (breaker_step cfg b e) m)" for m
    using lt np entry_step_probing [of t cfg "nextSymbol b" e "get_entry b m"] by (auto simp: breaker_step_entry)
qed

lemma spent_run: "spent_token t b \<Longrightarrow> spent_token t (breaker_run cfg b es)"
  by (induction es arbitrary: b) (simp_all add: spent_step)

text \<open>The settlement of a candidate is one of the breaker's own events.\<close>

definition settle_event :: "clock \<Rightarrow> string \<Rightarrow> probe_token option \<Rightarrow> settle \<Rightarrow> breaker_event" where
  "settle_event now a tok k =
     (case k of Settle_success \<Rightarrow> Success a | Settle_failure \<Rightarrow> Failure a now | Settle_abort \<Rightarrow> Abort a tok)"

lemma settle_is_step: "settleBreaker cfg now a tok k b = breaker_step cfg b (settle_event now a tok k)"
  by (simp add: settleBreaker_def settle_event_def breaker_step.simps split: settle.split)

text \<open>Held only by its own alias.\<close>

definition owned_token :: "probe_token \<Rightarrow> string \<Rightarrow> breaker \<Rightarrow> bool" where
  "owned_token t a b \<longleftrightarrow> t < nextSymbol b \<and> (\<forall>m. m \<noteq> a \<longrightarrow> \<not> probing t (get_entry b m))"

lemma owned_step: "owned_token t a b \<Longrightarrow> owned_token t a (breaker_step cfg b e)"
  unfolding owned_token_def
proof (elim conjE, intro conjI allI impI)
  assume lt: "t < nextSymbol b" and np: "\<forall>m. m \<noteq> a \<longrightarrow> \<not> probing t (get_entry b m)"
  show "t < nextSymbol (breaker_step cfg b e)" using lt breaker_step_nextSymbol [of b cfg e] by linarith
  show "\<not> probing t (get_entry (breaker_step cfg b e) m)" if "m \<noteq> a" for m
    using lt np that entry_step_probing [of t cfg "nextSymbol b" e "get_entry b m"] by (auto simp: breaker_step_entry)
qed

lemma owned_run: "owned_token t a b \<Longrightarrow> owned_token t a (breaker_run cfg b es)"
  by (induction es arbitrary: b) (simp_all add: owned_step)

lemma grant_owned:
  assumes "token_bound b" "dec_token (fst (canAttempt cfg now a b)) = Some t"
  shows "owned_token t a (snd (canAttempt cfg now a b))"
proof -
  note g = grant_is_probing [OF assms(2)]
  have "\<not> probing t (get_entry (snd (canAttempt cfg now a b)) m)" if "m \<noteq> a" for m
  proof -
    have "get_entry (snd (canAttempt cfg now a b)) m = get_entry b m"
      using breaker_step_entry [of cfg b "Attempt a now" m] that by (simp add: step_is_attempt)
    then show ?thesis using assms(1) g(1) by (auto simp: token_bound_def probing_def)
  qed
  then show ?thesis using g by (simp add: owned_token_def)
qed

lemma settle_spends: "owned_token t a b \<Longrightarrow> spent_token t (settleBreaker cfg now a (Some t) k b)"
proof -
  assume o: "owned_token t a b"
  have "\<not> probing t (entry_step cfg (nextSymbol b) (settle_event now a (Some t) k) (get_entry b a))"
    by (cases k) (auto simp: settle_event_def entry_defs probing_def trip_def Let_def split: circuit_state.splits option.splits)
  moreover have "event_model (settle_event now a (Some t) k) = a" by (cases k) (simp_all add: settle_event_def)
  ultimately have "\<not> probing t (get_entry (settleBreaker cfg now a (Some t) k b) a)"
    by (simp add: settle_is_step breaker_step_entry)
  then show ?thesis using owned_step [OF o, of cfg "settle_event now a (Some t) k"]
    by (auto simp: owned_token_def spent_token_def settle_is_step)
qed

lemma attempt_token: "cr_token (fst (attempt_candidate d req env a t p tok s)) = tok \<and>
    cr_settled (fst (attempt_candidate d req env a t p tok s)) \<noteq> None"
  by (auto simp: attempt_candidate_def Let_def split: gate_result.split option.split sum.split)

definition given_up :: "breaker \<Rightarrow> candidate_result \<Rightarrow> bool" where
  "given_up b r = (case cr_token r of None \<Rightarrow> True | Some t \<Rightarrow> spent_token t b)"

lemma given_up_mono: "\<forall>t. spent_token t b \<longrightarrow> spent_token t b' \<Longrightarrow> given_up b r \<Longrightarrow> given_up b' r"
  by (simp add: given_up_def split: option.splits)

lemma try_candidate_tokens:
  assumes "try_candidate d req env a (s, b) = (r, s', b')" "token_bound b"
  shows "token_bound b' \<and> given_up b' r \<and>
    (\<forall>t. spent_token t b \<longrightarrow> spent_token t b')"
proof (cases "tg_provider (resolveAttemptTarget (xd_resolve d) a)")
  case None
  then show ?thesis using assms by (auto simp: try_candidate_def given_up_def)
next
  case (Some p)
  obtain dec b1 where g: "canAttempt (xd_breaker d) (ce_gate_now env) a b = (dec, b1)" by (metis surj_pair)
  have b1: "b1 = breaker_step (xd_breaker d) b (Attempt a (ce_gate_now env))" using g by (simp add: step_is_attempt)
  show ?thesis
  proof (cases "allow dec")
    case False
    then show ?thesis using assms Some g b1 token_bound_step spent_step by (auto simp: try_candidate_def Let_def given_up_def)
  next
    case True
    obtain r' s1 where r: "attempt_candidate d req env a (resolveAttemptTarget (xd_resolve d) a) p (dec_token dec) s = (r', s1)"
      by (metis surj_pair)
    let ?k = "nullish (cr_settled r') Settle_abort"
    let ?b2 = "breaker_run (xd_breaker d) b1 (ce_others env)"
    have eq: "r = r'" "b' = settleBreaker (xd_breaker d) (ce_settle_now env) a (dec_token dec) ?k ?b2"
      using assms(1) Some g r True by (auto simp: try_candidate_def Let_def)
    have tok: "cr_token r = dec_token dec" using attempt_token [of d req env a _ p "dec_token dec" s] r eq by (metis fst_conv)
    have bound: "token_bound b'"
      using assms(2) b1 eq by (simp add: settle_is_step token_bound_step token_bound_run)
    have keep: "spent_token t b'" if "spent_token t b" for t
      using that b1 eq by (simp add: settle_is_step spent_step spent_run)
    have "spent_token t b'" if "dec_token dec = Some t" for t
    proof -
      have "owned_token t a b1" using grant_owned [OF assms(2)] g that by (metis fst_conv snd_conv)
      then show ?thesis using settle_spends [OF owned_run] eq that by simp
    qed
    then show ?thesis using bound keep tok by (auto simp: given_up_def split: option.split)
  qed
qed

lemma run_chain_tokens:
  "run_chain d req as sb = (rs, sb') \<Longrightarrow> token_bound (snd sb) \<Longrightarrow>
     token_bound (snd sb') \<and> (\<forall>t. spent_token t (snd sb) \<longrightarrow> spent_token t (snd sb')) \<and>
     list_all (given_up (snd sb')) rs"
proof (induction d req as sb arbitrary: rs sb' rule: run_chain.induct)
  case (2 d req a env rest sb)
  obtain s b where sb: "sb = (s, b)" by (cases sb)
  obtain r s1 b1 where r: "try_candidate d req env a sb = (r, s1, b1)" by (metis prod_cases3)
  note one = try_candidate_tokens [OF r [unfolded sb]]
  show ?case
  proof (cases "cr_end r = Cand_next")
    case False
    then show ?thesis using "2.prems" r one sb by auto
  next
    case True
    obtain rs1 sb2 where rest: "run_chain d req rest (s1, b1) = (rs1, sb2)" by (metis surj_pair)
    from "2.IH" [OF r [symmetric] True rest] one "2.prems" sb
    have ih: "token_bound (snd sb2)" "\<forall>t. spent_token t b1 \<longrightarrow> spent_token t (snd sb2)"
      "list_all (given_up (snd sb2)) rs1" by simp_all
    then show ?thesis using "2.prems" r rest True one sb given_up_mono [of b1 "snd sb2" r] by auto
  qed
qed simp

text \<open>
  C1. No request keeps a HALF_OPEN probe: whatever the breaker's history, whatever the candidates answer and
  whatever other requests do to the breaker meanwhile, every probe token this execution was granted has been
  given up when it returns - on success, on every failure, on every skip and on every early return.
\<close>
theorem no_probe_leaks:
  "case chain_results d env chain req (breaker_run (xd_breaker d) createCircuitBreaker history) of (rs, _, b') \<Rightarrow>
     list_all (\<lambda>r. case cr_token r of None \<Rightarrow> True | Some t \<Rightarrow> (\<forall>m. \<not> probing t (get_entry b' m))) rs"
proof -
  let ?b = "breaker_run (xd_breaker d) createCircuitBreaker history"
  obtain rs s b' where rs: "run_chain d req (with_envs env chain) (chain_init, ?b) = (rs, s, b')" by (metis prod_cases3)
  have "list_all (given_up b') rs" using run_chain_tokens [OF rs] by (simp add: token_bound_run)
  then show ?thesis
    using rs by (auto simp: chain_results_def list_all_iff given_up_def spent_token_def split: option.splits)
qed

subsection \<open>Which failures fault the breaker\<close>

text \<open>Failures that say nothing about the health of the alias.\<close>

definition not_the_alias :: "exec_deps \<Rightarrow> string \<Rightarrow> thrown \<Rightarrow> bool" where
  "not_the_alias d a err \<longleftrightarrow>
     (isFreeAlias a \<and> upstreamStatusOf err = Some 429) \<or>
     isContextWindowRejection (xd_num d) err \<or> isReasoningHistoryRejection (xd_num d) err \<or>
     isCandidateSpecificProtocolRejection err \<or> isAnthropicIdentity err \<or> isUpstreamRequestRejection (xd_num d) err \<or>
     (isOAuthSubscriptionAlias (xd_resolve d) a \<and> isAccountScopedFault err)"

definition called_off :: "candidate_env \<Rightarrow> thrown \<Rightarrow> bool" where
  "called_off env err \<longleftrightarrow> isAbort err (ce_signal env) \<or> isQueueTimeout err"

lemma cancelled_is_abort: "requestCancellationReason sig No_object = Some c \<Longrightarrow> isAbort err sig"
  by (cases sig) (simp_all add: requestCancellationReason_def isAbort_def signal_aborted_def instanceof_Error_def)

lemma classify_failure_cases:
  "(called_off env err \<and> fv_settle (classify_failure d req env a tel err) = Settle_abort \<and>
      fv_terminal (classify_failure d req env a tel err) \<noteq> None) \<or>
   (\<not> called_off env err \<and> classify_failure d req env a tel err = classify_fault d req env a tel err)"
proof (cases "requestCancellationReason (ce_signal env) No_object")
  case (Some c)
  from cancelled_is_abort [OF this, of err] Some show ?thesis
    by (cases c) (simp_all add: classify_failure_def called_off_def)
qed (simp add: classify_failure_def called_off_def)

text \<open>
  Exactly the failures that concern the alias fault its breaker: a cancelled request, a queue timeout, a
  throttled free model, a request the upstream rejects for its own sake and an account's own fault on a
  subscription do not; every other failure does. Of the Codex errors that end the request, the stalled
  first output is the one that counts.
\<close>
theorem breaker_blame_exact:
  "fv_settle (classify_failure d req env a tel err) \<noteq> Settle_success \<and>
   (fv_settle (classify_failure d req env a tel err) = Settle_failure \<longleftrightarrow>
      \<not> called_off env err \<and> (if codex_terminal req err then is_timeout err else \<not> not_the_alias d a err))"
  using classify_failure_cases [of env err d req a tel]
  by (elim disjE conjE) (simp_all add: classify_fault_def not_the_alias_def Let_def)

subsection \<open>When the chain may go on\<close>

text \<open>A failure after which another candidate may be tried: it neither ends the request nor may have run it.\<close>

definition may_fall_back :: "exec_deps \<Rightarrow> exec_request \<Rightarrow> thrown \<Rightarrow> bool" where
  "may_fall_back d req err \<longleftrightarrow>
     \<not> codex_terminal req err \<and> \<not> isQueueTimeout err \<and> \<not> (instanceof_Error err \<and> th_name err = Some ''AbortError'') \<and>
     \<not> isAnthropicIdentity err \<and> \<not> isContextWindowRejection (xd_num d) err \<and>
     (if isUpstreamRequestRejection (xd_num d) err then isCandidateSpecificProtocolRejection err else True)"

lemma free_not_request:
  "upstreamStatusOf err = Some 429 \<Longrightarrow>
     \<not> isContextWindowRejection num err \<and> \<not> isUpstreamRequestRejection num err \<and> \<not> isAnthropicIdentity err"
  using context_rejection_status [of num err] request_rejection_status [of num err]
  by (auto simp: isAnthropicIdentity_def upstreamStatusOf_def bind_eq_Some_conv elim!: upstream_of.elims)

lemma identity_no_upstream: "isAnthropicIdentity err \<Longrightarrow> upstream_of err = None"
  by (cases err) (auto simp: isAnthropicIdentity_def)

lemma identity_other:
  "isAnthropicIdentity err \<Longrightarrow> \<not> isReasoningHistoryRejection num err \<and> \<not> isCandidateSpecificProtocolRejection err"
  using identity_no_upstream [of err] by (simp add: isReasoningHistoryRejection_def isCandidateSpecificProtocolRejection_def)

lemma reasoning_not_request: "isReasoningHistoryRejection num err \<Longrightarrow> \<not> isUpstreamRequestRejection num err"
  by (auto simp: isUpstreamRequestRejection_def split: option.splits)

lemma next_may_fall_back:
  assumes "fv_terminal (classify_failure d req env a tel err) = None"
  shows "may_fall_back d req err"
proof -
  have co: "\<not> called_off env err" "classify_failure d req env a tel err = classify_fault d req env a tel err"
    using classify_failure_cases [of env err d req a tel] assms by auto
  then show ?thesis
    using assms free_not_request [of err "xd_num d"] identity_other [of err "xd_num d"] reasoning_not_request [of "xd_num d" err]
    by (auto simp: classify_fault_def Let_def may_fall_back_def called_off_def isAbort_def split: if_splits)
qed

definition went_on_safely :: "exec_deps \<Rightarrow> exec_request \<Rightarrow> candidate_result \<Rightarrow> bool" where
  "went_on_safely d req r = (case cr_error r of None \<Rightarrow> True | Some err \<Rightarrow> may_fall_back d req err)"

lemma attempt_next_safe:
  "cr_end (fst (attempt_candidate d req env a t p tok s)) = Cand_next \<Longrightarrow>
     went_on_safely d req (fst (attempt_candidate d req env a t p tok s))"
  using next_may_fall_back
  by (auto simp: attempt_candidate_def went_on_safely_def Let_def split: gate_result.splits option.splits sum.splits)

text \<open>How a candidate ends: without a provider, at the breaker, or with an attempt.\<close>

lemma try_candidate_cases:
  assumes "try_candidate d req env a (s, b) = (r, s', b')"
  obtains
    (unavailable) "tg_provider (resolveAttemptTarget (xd_resolve d) a) = None"
      "r = gated (skipRow a ''provider_unavailable'' (elapsed env))" "s' = s\<lparr>cs_onlyContextOrCapabilitySkips := False\<rparr>"
  | (circuit) p and dec :: attempt_decision where "tg_provider (resolveAttemptTarget (xd_resolve d) a) = Some p" "\<not> allow dec"
      "r = gated (skipRow a (nullish (reason dec) ''circuit_open'') (elapsed env))"
      "s' = s\<lparr>cs_circuitSkipped := True, cs_onlyContextOrCapabilitySkips := False\<rparr>"
  | (attempt) p tok where "tg_provider (resolveAttemptTarget (xd_resolve d) a) = Some p"
      "attempt_candidate d req env a (resolveAttemptTarget (xd_resolve d) a) p tok s = (r, s')"
proof (cases "tg_provider (resolveAttemptTarget (xd_resolve d) a)")
  case None
  then show ?thesis using assms unavailable by (simp add: try_candidate_def)
next
  case (Some p)
  obtain dec b1 where g: "canAttempt (xd_breaker d) (ce_gate_now env) a b = (dec, b1)" by (metis surj_pair)
  show ?thesis
  proof (cases "allow dec")
    case False
    then have "r = gated (skipRow a (nullish (reason dec) ''circuit_open'') (elapsed env))"
      "s' = s\<lparr>cs_circuitSkipped := True, cs_onlyContextOrCapabilitySkips := False\<rparr>"
      using assms Some g by (simp_all add: try_candidate_def Let_def)
    then show ?thesis using circuit [OF Some False] by blast
  next
    case True
    obtain r' s1 where "attempt_candidate d req env a (resolveAttemptTarget (xd_resolve d) a) p (dec_token dec) s = (r', s1)"
      by (metis surj_pair)
    then show ?thesis using assms Some g True attempt by (auto simp: try_candidate_def Let_def)
  qed
qed

lemma try_next_safe:
  assumes "try_candidate d req env a sb = (r, sb')" "cr_end r = Cand_next"
  shows "went_on_safely d req r"
proof -
  obtain s b s' b' where sb: "sb = (s, b)" "sb' = (s', b')" by (cases sb; cases sb')
  from assms(1) [unfolded sb] show ?thesis
  proof (cases rule: try_candidate_cases)
    case (attempt p tok)
    then show ?thesis using attempt_next_safe [of d req env a _ p tok s] assms(2) by (metis fst_conv)
  qed (auto simp: went_on_safely_def)
qed

lemma run_chain_safe:
  "run_chain d req as sb = (rs, sb') \<Longrightarrow> list_all (\<lambda>r. cr_end r = Cand_next \<longrightarrow> went_on_safely d req r) rs"
proof (induction d req as sb arbitrary: rs sb' rule: run_chain.induct)
  case (2 d req a env rest sb)
  obtain r sb1 where r: "try_candidate d req env a sb = (r, sb1)" by (metis surj_pair)
  show ?case
    using "2.IH" [OF r [symmetric]] "2.prems" r try_next_safe [OF r]
    by (cases "cr_end r = Cand_next") (auto split: prod.splits)
qed simp

text \<open>
  C5. The chain advances only past a failure that allows it: after a Codex request whose outcome is unknown or
  that was proven unsent, an exhausted capacity retry, a queue timeout, an abort, an identity violation, a
  context overflow confirmed by the upstream or a request the upstream rejects as invalid, no further
  candidate is ever tried.
\<close>
theorem fallback_only_when_safe:
  "case chain_results d env chain req b of (rs, _, _) \<Rightarrow> list_all (went_on_safely d req) (butlast rs)"
proof -
  obtain rs s b' where rs: "chain_results d env chain req b = (rs, s, b')" by (metis prod_cases3)
  then have "list_all (\<lambda>r. cr_end r = Cand_next \<longrightarrow> went_on_safely d req r) rs"
    using run_chain_safe by (auto simp: chain_results_def)
  then show ?thesis using chain_shape(3) [OF rs] rs by (auto simp: list_all_iff in_set_butlastD)
qed

subsection \<open>The terminal error\<close>

text \<open>Ruled out by its own gates: the breaker allowed it, nothing was invoked, the breaker was released.\<close>

definition ruled_out :: "candidate_result \<Rightarrow> bool" where
  "ruled_out r \<longleftrightarrow> cr_invoked r = None \<and> cr_settled r \<noteq> None"

lemma remember_flags [simp]:
  "cs_capabilityPruned (rememberContextOverflow m raw k s) = cs_capabilityPruned s"
  "cs_attemptedAny (rememberContextOverflow m raw k s) = cs_attemptedAny s"
  "cs_circuitSkipped (rememberContextOverflow m raw k s) = cs_circuitSkipped s"
  "cs_onlyContextOrCapabilitySkips (rememberContextOverflow m raw k s) = cs_onlyContextOrCapabilitySkips s"
  by (simp_all add: rememberContextOverflow_def Let_def split: option.split)

lemma skipRow_reason [simp]: "at_skip_reason (skipRow a w l) = Some w"
  by (simp add: skipRow_def)

lemma attempt_flags:
  assumes "attempt_candidate d req env a t p tok s = (r, s')"
  shows "cs_attemptedAny s' = (cs_attemptedAny s \<or> cr_invoked r \<noteq> None)"
    "cs_circuitSkipped s' = cs_circuitSkipped s"
    "cr_invoked r = None \<Longrightarrow> ruled_out r \<and> cs_capabilityPruned s' \<and>
       cs_onlyContextOrCapabilitySkips s' = cs_onlyContextOrCapabilitySkips s"
    "cs_capabilityPruned s \<Longrightarrow> cs_capabilityPruned s'"
proof -
  have "cs_attemptedAny s' = (cs_attemptedAny s \<or> cr_invoked r \<noteq> None) \<and> cs_circuitSkipped s' = cs_circuitSkipped s \<and>
      (cr_invoked r = None \<longrightarrow> ruled_out r \<and> cs_capabilityPruned s' \<and>
         cs_onlyContextOrCapabilitySkips s' = cs_onlyContextOrCapabilitySkips s) \<and>
      (cs_capabilityPruned s \<longrightarrow> cs_capabilityPruned s')"
  proof (cases "candidate_gates d req env a t p")
    case (Gate_skip why overflow)
    then show ?thesis using assms
      by (cases overflow) (auto simp: attempt_candidate_def ruled_out_def)
  next
    case (Gate_pass tel)
    then show ?thesis using assms
      by (cases "invoke d req env a t p tel") (auto simp: attempt_candidate_def Let_def)
  qed
  then show "cs_attemptedAny s' = (cs_attemptedAny s \<or> cr_invoked r \<noteq> None)"
    "cs_circuitSkipped s' = cs_circuitSkipped s"
    "cr_invoked r = None \<Longrightarrow> ruled_out r \<and> cs_capabilityPruned s' \<and>
       cs_onlyContextOrCapabilitySkips s' = cs_onlyContextOrCapabilitySkips s"
    "cs_capabilityPruned s \<Longrightarrow> cs_capabilityPruned s'" by blast+
qed

text \<open>What the flags know of the results so far.\<close>

definition flags_of :: "chain_state \<Rightarrow> candidate_result list \<Rightarrow> bool" where
  "flags_of s rs \<longleftrightarrow>
     (list_all ruled_out rs \<longleftrightarrow> \<not> cs_attemptedAny s \<and> \<not> cs_circuitSkipped s \<and> cs_onlyContextOrCapabilitySkips s) \<and>
     (list_all ruled_out rs \<and> rs \<noteq> [] \<longrightarrow> cs_capabilityPruned s)"

lemma flags_init: "flags_of chain_init []"
  by (simp add: flags_of_def chain_init_def)

lemma flags_step:
  assumes "try_candidate d req env a (s, b) = (r, s', b')" "flags_of s rs"
  shows "flags_of s' (rs @ [r])"
  using assms(1)
proof (cases rule: try_candidate_cases)
  case unavailable
  then show ?thesis using assms(2) by (auto simp: flags_of_def ruled_out_def list_ex_iff)
next
  case (circuit p dec)
  then show ?thesis using assms(2) by (auto simp: flags_of_def ruled_out_def list_ex_iff)
next
  case (attempt p tok)
  note f = attempt_flags [OF attempt(2)]
  show ?thesis
  proof (cases "cr_invoked r = None")
    case True
    then show ?thesis using assms(2) f by (auto simp: flags_of_def list_ex_iff)
  next
    case False
    then have "\<not> ruled_out r" by (simp add: ruled_out_def)
    then show ?thesis using assms(2) f False by (auto simp: flags_of_def list_ex_iff)
  qed
qed

lemma run_chain_flags:
  "run_chain d req as (s, b) = (rs, s', b') \<Longrightarrow> flags_of s rs0 \<Longrightarrow> flags_of s' (rs0 @ rs)"
proof (induction as arbitrary: s b rs rs0 s' b')
  case (Cons x rest)
  obtain a env where x: "x = (a, env)" by (cases x)
  obtain r s1 b1 where r: "try_candidate d req env a (s, b) = (r, s1, b1)" by (metis prod_cases3)
  note st = flags_step [OF r Cons.prems(2)]
  show ?case
  proof (cases "cr_end r = Cand_next")
    case False
    then show ?thesis using Cons.prems r x st by auto
  next
    case True
    obtain rs1 s2 b2 where rest: "run_chain d req rest (s1, b1) = (rs1, s2, b2)" by (metis prod_cases3)
    then show ?thesis using Cons.IH [OF rest st] Cons.prems r x True by auto
  qed
qed simp

text \<open>
  The context overflow that the gates of a candidate estimated, with its message, and with the key of its
  provider and model when the provider's own token count confirmed it.
\<close>

definition overflow_at :: "exec_deps \<Rightarrow> exec_request \<Rightarrow> string \<times> candidate_env \<Rightarrow> candidate_result \<Rightarrow> (string \<times> string option) option" where
  "overflow_at d req ae r =
     (let t = resolveAttemptTarget (xd_resolve d) (fst ae) in
      case tg_provider t of
        None \<Rightarrow> None
      | Some p \<Rightarrow>
          if ruled_out r
          then (case candidate_gates d req (snd ae) (fst ae) t p of Gate_skip _ overflow \<Rightarrow> overflow | Gate_pass _ \<Rightarrow> None)
          else None)"

definition overflows :: "exec_deps \<Rightarrow> exec_request \<Rightarrow> (string \<times> candidate_env) list \<Rightarrow> candidate_result list \<Rightarrow> (string \<times> string option) list" where
  "overflows d req aes rs = concat (map (\<lambda>(ae, r). case overflow_at d req ae r of None \<Rightarrow> [] | Some x \<Rightarrow> [x]) (zip aes rs))"

definition confirmations :: "(string \<times> string option) list \<Rightarrow> nat" where
  "confirmations os = card {k. \<exists>m. (m, Some k) \<in> set os}"

text \<open>Passed over for its context window or a capability: by its own gates, or by what the provider answered.\<close>

definition only_skipped :: "candidate_result \<Rightarrow> bool" where
  "only_skipped r \<longleftrightarrow>
     ruled_out r \<or>
     cr_invoked r \<noteq> None \<and>
     at_skip_reason (cr_row r) \<in> {Some ''reasoning_history_incompatible'', Some ''provider_protocol_incompatible''}"

text \<open>What the overflow fields of the state know of the results so far.\<close>

definition overflow_flags :: "chain_state \<Rightarrow> candidate_result list \<Rightarrow> (string \<times> string option) list \<Rightarrow> bool" where
  "overflow_flags s rs os \<longleftrightarrow>
     cs_onlyContextOrCapabilitySkips s = list_all only_skipped rs \<and>
     cs_contextOverflow s = (case os of [] \<Rightarrow> None | (m, _) # _ \<Rightarrow> Some (m, None)) \<and>
     distinct (cs_contextConfirmations s) \<and> set (cs_contextConfirmations s) = {k. \<exists>m. (m, Some k) \<in> set os}"

lemma overflow_init: "overflow_flags chain_init [] []"
  by (simp add: overflow_flags_def chain_init_def)

lemma remember_overflow:
  assumes "cs_contextOverflow s = (case os of [] \<Rightarrow> None | (m, _) # _ \<Rightarrow> Some (m, None))"
    and "distinct (cs_contextConfirmations s)" "set (cs_contextConfirmations s) = {k. \<exists>m. (m, Some k) \<in> set os}"
  shows "cs_contextOverflow (rememberContextOverflow m None k s) = (case os @ [(m, k)] of [] \<Rightarrow> None | (m, _) # _ \<Rightarrow> Some (m, None))"
    and "distinct (cs_contextConfirmations (rememberContextOverflow m None k s))"
    and "set (cs_contextConfirmations (rememberContextOverflow m None k s)) = {k'. \<exists>m'. (m', Some k') \<in> set (os @ [(m, k)])}"
  using assms by (auto simp: rememberContextOverflow_def Let_def split: option.split list.split)

lemma fault_only_skips:
  assumes "fv_terminal (classify_failure d req env a tel err) = None"
  shows "\<not> fv_notOnlySkips (classify_failure d req env a tel err) \<longleftrightarrow>
    at_skip_reason (fv_row (classify_failure d req env a tel err)) \<in>
      {Some ''reasoning_history_incompatible'', Some ''provider_protocol_incompatible''}"
  using assms
  by (auto simp: classify_failure_def classify_fault_def cancelled_verdict_def verdict_stop_def verdict_skip_def
      errorRow_def Let_def split: if_splits)

lemma overflow_step:
  assumes "try_candidate d req env a (s, b) = (r, s', b')" "cr_end r = Cand_next" "overflow_flags s rs os"
  shows "overflow_flags s' (rs @ [r]) (os @ overflows d req [(a, env)] [r])"
  using assms(1)
proof (cases rule: try_candidate_cases)
  case unavailable
  then show ?thesis using assms(3)
    by (simp add: overflow_flags_def overflows_def overflow_at_def only_skipped_def ruled_out_def gated_def)
next
  case (circuit p dec)
  then show ?thesis using assms(3)
    by (simp add: overflow_flags_def overflows_def overflow_at_def only_skipped_def ruled_out_def gated_def)
next
  case (attempt p tok)
  let ?t = "resolveAttemptTarget (xd_resolve d) a"
  show ?thesis
  proof (cases "candidate_gates d req env a ?t p")
    case (Gate_skip why overflow)
    then have r: "ruled_out r" "overflow_at d req (a, env) r = overflow"
      using attempt by (auto simp: attempt_candidate_def overflow_at_def ruled_out_def)
    show ?thesis
    proof (cases overflow)
      case None
      with r attempt Gate_skip assms(3) show ?thesis
        by (auto simp: attempt_candidate_def overflow_flags_def overflows_def only_skipped_def)
    next
      case (Some mk)
      obtain m k where mk: "mk = (m, k)" by (cases mk)
      have s': "s' = rememberContextOverflow m None k (s\<lparr>cs_capabilityPruned := True\<rparr>)"
        using attempt Gate_skip Some mk by (simp add: attempt_candidate_def)
      have os: "os @ overflows d req [(a, env)] [r] = os @ [(m, k)]" using r Some mk by (simp add: overflows_def)
      note rem = remember_overflow [of "s\<lparr>cs_capabilityPruned := True\<rparr>" os m k]
      show ?thesis
        unfolding overflow_flags_def os s' using rem assms(3) r(1)
        by (simp add: overflow_flags_def only_skipped_def)
    qed
  next
    case (Gate_pass tel)
    have "invoke d req env a ?t p tel = Inr sv \<Longrightarrow> cr_end r \<noteq> Cand_next" for sv
      using attempt Gate_pass by (auto simp: attempt_candidate_def)
    then obtain err where err: "invoke d req env a ?t p tel = Inl err"
      using assms(2) by (cases "invoke d req env a ?t p tel") auto
    let ?v = "classify_failure d req env a tel err"
    have r: "cr_invoked r = Some p" "cr_row r = fv_row ?v" "fv_terminal ?v = None" "\<not> ruled_out r"
      and s': "cs_onlyContextOrCapabilitySkips s' = (cs_onlyContextOrCapabilitySkips s \<and> \<not> fv_notOnlySkips ?v)"
        "cs_contextOverflow s' = cs_contextOverflow s" "cs_contextConfirmations s' = cs_contextConfirmations s"
      using attempt(2) Gate_pass err assms(2)
      by (auto simp: attempt_candidate_def Let_def ruled_out_def split: option.splits)
    have "overflows d req [(a, env)] [r] = []" using r attempt(1) by (simp add: overflows_def overflow_at_def Let_def)
    moreover have "only_skipped r \<longleftrightarrow> \<not> fv_notOnlySkips ?v"
      using fault_only_skips [OF r(3)] r by (simp add: only_skipped_def)
    ultimately show ?thesis using assms(3) s' by (simp add: overflow_flags_def)
  qed
qed

lemma overflows_append:
  "length aes = length rs \<Longrightarrow> overflows d req (aes @ aes') (rs @ rs') = overflows d req aes rs @ overflows d req aes' rs'"
  by (simp add: overflows_def)

lemma run_chain_overflow:
  "run_chain d req as (s, b) = (rs, s', b') \<Longrightarrow> list_all (\<lambda>r. cr_end r = Cand_next) rs \<Longrightarrow> overflow_flags s rs0 os \<Longrightarrow>
   overflow_flags s' (rs0 @ rs) (os @ overflows d req as rs)"
proof (induction as arbitrary: s b rs rs0 os s' b')
  case Nil
  then show ?case by (simp add: overflows_def)
next
  case (Cons x rest)
  obtain a env where x: "x = (a, env)" by (cases x)
  obtain r s1 b1 where r: "try_candidate d req env a (s, b) = (r, s1, b1)" by (metis prod_cases3)
  have goes_on: "cr_end r = Cand_next"
    using Cons.prems(1,2) x r by (auto split: if_splits prod.splits)
  note st = overflow_step [OF r goes_on Cons.prems(3)]
  obtain rs1 s2 b2 where rest: "run_chain d req rest (s1, b1) = (rs1, s2, b2)" by (metis prod_cases3)
  then have eq: "rs = r # rs1" "s' = s2" using Cons.prems(1) r x goes_on by simp_all
  have "overflow_flags s2 ((rs0 @ [r]) @ rs1) ((os @ overflows d req [(a, env)] [r]) @ overflows d req rest rs1)"
    by (rule Cons.IH [OF rest _ st]) (use Cons.prems(2) eq in simp)
  moreover have "overflows d req (x # rest) (r # rs1) = overflows d req [(a, env)] [r] @ overflows d req rest rs1"
    using x by (simp add: overflows_def)
  ultimately show ?case by (simp add: eq)
qed

text \<open>
  C25. When no candidate ends the request, the terminal error tells the client exactly what happened: 503 when there
  was nothing to try; 400 when the gates of some candidate estimated a context overflow, and either every
  candidate was passed over for its context window or a capability, or the token counts of two different
  providers' models confirmed the overflow; else 422 when every candidate was ruled out by its own gates; and
  502 otherwise. The message of a 400 is the one of the first overflow.
\<close>
theorem terminal_error_exact:
  "case (chain_results d env (candidate_chain pl) req b, execute d env pl req b) of ((rs, s, _), (out, _)) \<Rightarrow>
     if list_all (\<lambda>r. cr_end r = Cand_next) rs
     then (case eo_final out of
         Exec_ok _ _ \<Rightarrow> False
       | Exec_error e \<Rightarrow>
           length rs = length (candidate_chain pl) \<and>
           (let os = overflows d req (with_envs env (candidate_chain pl)) rs in
            if candidate_chain pl = [] \<or> xd_hasUsableProviders d = Some False then he_error_class e = Lane_unavailable
            else if os \<noteq> [] \<and> (list_all only_skipped rs \<or> 2 \<le> confirmations os)
            then he_error_class e = Invalid_request \<and> he_message e = fst (hd os)
            else he_error_class e = (if list_all ruled_out rs then Capability_unsatisfiable else All_providers_failed)))
     else True"
proof -
  obtain rs s b' where rs: "chain_results d env (candidate_chain pl) req b = (rs, s, b')" by (metis prod_cases3)
  note sh = chain_shape [OF rs]
  have fl: "flags_of s rs"
    using run_chain_flags [of d req _ chain_init b rs s b' "[]"] rs flags_init by (simp add: chain_results_def)
  show ?thesis
  proof (cases "list_all (\<lambda>r. cr_end r = Cand_next) rs")
    case True
    have len: "length rs = length (candidate_chain pl)"
      using sh(4,5) True by (cases "rs = []") (auto simp: list_all_iff)
    have ex: "execute d env pl req b =
        (error_outcome (map cr_row rs) (terminal_error d req (candidate_chain pl) (map cr_row rs) s), b')"
      using rs True by (cases "rs = []") (auto simp: execute_def Let_def last_opt_def list_all_iff)
    let ?os = "overflows d req (with_envs env (candidate_chain pl)) rs"
    have of: "overflow_flags s rs ?os"
      using run_chain_overflow [of d req _ chain_init b rs s b' "[]" "[]"] rs overflow_init True by (simp add: chain_results_def)
    have c: "length (cs_contextConfirmations s) = confirmations ?os"
      using of by (metis confirmations_def distinct_card overflow_flags_def)
    have "candidate_chain pl \<noteq> [] \<Longrightarrow> rs \<noteq> []" using len by auto
    moreover have "cs_contextOverflow s = None \<longleftrightarrow> ?os = []" "?os \<noteq> [] \<Longrightarrow> cs_contextOverflow s = Some (fst (hd ?os), None)"
      using of by (auto simp: overflow_flags_def split: list.splits)
    moreover have "cs_onlyContextOrCapabilitySkips s = list_all only_skipped rs" using of by (simp add: overflow_flags_def)
    ultimately show ?thesis using rs ex len fl True c
      by (auto simp: error_outcome_def terminal_error_def terminal_class_def terminal_message_def flags_of_def Let_def)
  qed (simp add: rs split: prod.split)
qed

subsection \<open>What is invoked and what is served\<close>

lemma attempt_invokes:
  assumes "attempt_candidate d req env a t p tok s = (r, s')"
  shows "(case cr_invoked r of None \<Rightarrow> True | Some q \<Rightarrow> q = p) \<and>
    (case cr_end r of Cand_served sv m \<Rightarrow>
        (\<exists>tel. candidate_gates d req env a t p = Gate_pass tel \<and> invoke d req env a t p tel = Inr sv)
      | _ \<Rightarrow> True)"
  using assms
  by (auto simp: attempt_candidate_def Let_def split: gate_result.splits sum.splits option.splits)

text \<open>The provider an alias may be served by.\<close>

definition entitled :: "resolve_deps \<Rightarrow> string \<Rightarrow> provider_client \<Rightarrow> bool" where
  "entitled d a p \<longleftrightarrow>
     (if isOAuthSubscriptionAlias d a then a \<in> rd_oauthAliases d \<and> rd_providers d (alias_prefix a) = Some p
      else case rd_registry d a of
          Some m \<Rightarrow> rd_providers d (rm_providerName m) = Some p
        | None \<Rightarrow> p = rd_defaultProvider d \<or> rd_providers d (alias_prefix a) = Some p)"

lemma resolved_entitled: "tg_provider (resolveAttemptTarget d a) = Some p \<Longrightarrow> entitled d a p"
  by (auto simp: resolveAttemptTarget_def entitled_def isOAuthSubscriptionAlias_def Let_def
      split: if_splits option.splits prod.splits)

definition invoked_entitled :: "resolve_deps \<Rightarrow> string \<Rightarrow> candidate_result \<Rightarrow> bool" where
  "invoked_entitled d a r = (case cr_invoked r of None \<Rightarrow> True | Some p \<Rightarrow> entitled d a p)"

lemma try_entitled:
  assumes "try_candidate d req env a sb = (r, sb')"
  shows "invoked_entitled (xd_resolve d) a r"
proof -
  obtain s b s' b' where sb: "sb = (s, b)" "sb' = (s', b')" by (cases sb; cases sb')
  from assms [unfolded sb] show ?thesis
  proof (cases rule: try_candidate_cases)
    case (attempt p tok)
    then show ?thesis using attempt_invokes [OF attempt(2)] resolved_entitled [OF attempt(1)]
      by (auto simp: invoked_entitled_def split: option.splits)
  qed (auto simp: invoked_entitled_def)
qed

lemma run_chain_nth:
  "run_chain d req as sb = (rs, sb') \<Longrightarrow> i < length rs \<Longrightarrow>
     i < length as \<and> (\<exists>sb1 sb2. try_candidate d req (snd (as ! i)) (fst (as ! i)) sb1 = (rs ! i, sb2))"
proof (induction d req as sb arbitrary: rs sb' i rule: run_chain.induct)
  case (2 d req a env rest sb)
  obtain r sb1 where r: "try_candidate d req env a sb = (r, sb1)" by (metis surj_pair)
  show ?case
  proof (cases "cr_end r = Cand_next \<and> i \<noteq> 0")
    case True
    obtain rs1 sb2 where rest: "run_chain d req rest sb1 = (rs1, sb2)" by (metis surj_pair)
    have "rs = r # rs1" using "2.prems" r rest True by simp
    then show ?thesis using "2.IH" [OF r [symmetric] _ rest, of "i - 1"] "2.prems"(2) True by (cases i) auto
  next
    case False
    then have i: "i = 0" "rs ! 0 = r" using "2.prems" r by (auto split: if_splits prod.splits)
    then have "try_candidate d req (snd (((a, env) # rest) ! i)) (fst (((a, env) # rest) ! i)) sb = (rs ! i, sb1)"
      using r by simp
    then show ?thesis using i(1) by blast
  qed
qed simp

lemma chain_nth:
  assumes "chain_results d env chain req b = (rs, s, b')" "i < length rs"
  obtains sb1 sb2 where "try_candidate d req (env i) (chain ! i) sb1 = (rs ! i, sb2)"
proof -
  have run: "run_chain d req (with_envs env chain) (chain_init, b) = (rs, s, b')" using assms(1) by (simp add: chain_results_def)
  have "i < length chain" using run_chain_nth [OF run assms(2)] by simp
  then have "with_envs env chain ! i = (chain ! i, env i)" by (simp add: with_envs_def)
  then show ?thesis using run_chain_nth [OF run assms(2)] that by auto
qed

text \<open>
  C27. Credentials are never crossed: whatever the chain, a subscription alias is only ever served by its own
  pool, and only while it is exposed; a registered alias only by the provider the registry names; the default
  provider only serves an alias that neither knows.
\<close>
theorem credentials_not_crossed:
  "case chain_results d env chain req b of (rs, _, _) \<Rightarrow>
     list_all2 (invoked_entitled (xd_resolve d)) (take (length rs) chain) rs"
proof -
  obtain rs s b' where rs: "chain_results d env chain req b = (rs, s, b')" by (metis prod_cases3)
  have "invoked_entitled (xd_resolve d) (chain ! i) (rs ! i)" if "i < length rs" for i
    using chain_nth [OF rs that] try_entitled by metis
  then show ?thesis using chain_shape(2) [OF rs] rs by (simp add: list_all2_conv_all_nth)
qed

lemma raw_relay_verbatim:
  "raw_relay es = (cs, e) \<Longrightarrow> prefix cs (chunks_of es) \<and> (e = None \<longrightarrow> cs = chunks_of es)"
  by (induction es arbitrary: cs e rule: raw_relay.induct) (auto split: prod.splits)

lemma guard_verbatim:
  "guardPreOutputFailure num showMs k ms es = (cs, e) \<Longrightarrow>
     prefix cs (chunks_of es) \<and> (e = None \<longrightarrow> cs = chunks_of es) \<and> (cs = [] \<longrightarrow> e \<noteq> None)"
  using guard_run_relays [where g = guard_init and num = num and showMs = showMs and k = k and ms = "nullish ms 0" and es = es]
  by (auto simp: guardPreOutputFailure_def relays_def guard_init_def split: prod.splits)

lemma stream_verbatim:
  "native_stream d req env p = (cs, e) \<Longrightarrow> prefix cs (chunks_of (ce_pulls env)) \<and> (e = None \<longrightarrow> cs = chunks_of (ce_pulls env))"
  "translate_stream d env = (cs, e) \<Longrightarrow> prefix cs (chunks_of (ce_pulls env)) \<and> (e = None \<longrightarrow> cs = chunks_of (ce_pulls env))"
  using raw_relay_verbatim guard_verbatim
  by (fastforce simp: native_stream_def translate_stream_def split: option.splits)+

lemma peek_Inr: "peekStream s = Inr s' \<Longrightarrow> s' = s \<and> fst s \<noteq> []"
  by (auto simp: peekStream_def split: prod.splits list.splits option.splits)

lemma in_deadline_Inr: "in_deadline d req env x = Inr v \<Longrightarrow> x = Inr v"
  by (auto simp: in_deadline_def withAttemptDeadline_def split: option.splits sum.splits if_splits)

lemma invoke_served:
  assumes "invoke d req env a t p tel = Inr sv"
  shows "case sv of
      Served_stream (cs, e) native \<Rightarrow> xr_stream req \<and> native = pt_used tel \<and> cs \<noteq> [] \<and>
        prefix cs (chunks_of (ce_pulls env)) \<and> (e = None \<longrightarrow> cs = chunks_of (ce_pulls env))
    | Served_body body native c \<Rightarrow> \<not> xr_stream req \<and> native = pt_used tel \<and> ce_answer env = Inr body"
proof (cases "xr_stream req")
  case True
  let ?s = "if pt_used tel then native_stream d req env p else translate_stream d env"
  obtain s where s: "in_deadline d req env (peekStream ?s) = Inr s" "sv = Served_stream s (pt_used tel)"
    using assms True by (auto simp: invoke_def split: option.splits sum.splits)
  have "s = ?s" "fst ?s \<noteq> []" using peek_Inr [OF in_deadline_Inr [OF s(1)]] by auto
  moreover obtain cs e where "?s = (cs, e)" by (metis surj_pair)
  ultimately show ?thesis using s(2) True stream_verbatim(1) [of d req env p cs e] stream_verbatim(2) [of d env cs e]
    by (auto split: if_splits)
next
  case False
  then show ?thesis using assms by (auto simp: invoke_def split: option.splits sum.splits dest!: in_deadline_Inr)
qed

lemma gates_pass_decision:
  "candidate_gates d req env a t p = Gate_pass tel \<Longrightarrow> tel = decideNativePassthroughForAttempt req t (xd_passthroughEnabled d)"
  by (auto simp: candidate_gates_def Let_def split: if_splits option.splits)

text \<open>
  What a client is served is what the last visited candidate answered: for a stream, its chunks byte for
  byte and in order, at least one of them, all of them unless the upstream broke off; for a plain request, its
  body unchanged. And an answer is handed back untranslated only if the client's own protocol is not OpenAI Chat
  and a native body came with the request.
\<close>
theorem served_verbatim:
  "case execute d env pl req b of (out, _) \<Rightarrow>
     let e = env (length (eo_attempts out) - 1) in
     (case eo_stream out of
        None \<Rightarrow> True
      | Some (cs, err) \<Rightarrow> cs \<noteq> [] \<and> prefix cs (chunks_of (ce_pulls e)) \<and>
          (if err = None then cs = chunks_of (ce_pulls e) else True)) \<and>
     (case eo_body out of None \<Rightarrow> True | Some body \<Rightarrow> ce_answer e = Inr body) \<and>
     (if eo_nativePassthrough out = Some True then ir_protocol req \<noteq> Openai_chat \<and> xr_native_request req \<noteq> None else True)"
proof -
  obtain rs s b' where rs: "chain_results d env (candidate_chain pl) req b = (rs, s, b')" by (metis prod_cases3)
  show ?thesis
  proof (cases "\<exists>sv m. rs \<noteq> [] \<and> cr_end (last rs) = Cand_served sv m")
    case False
    then have "\<exists>e. fst (execute d env pl req b) = error_outcome (map cr_row rs) e"
      using rs by (cases "rs = []") (auto simp: execute_def Let_def last_opt_def split: candidate_end.split)
    then show ?thesis by (auto simp: error_outcome_def split: prod.split)
  next
    case True
    then obtain sv m where sv: "rs \<noteq> []" "cr_end (last rs) = Cand_served sv m" by blast
    let ?i = "length rs - 1"
    have i: "?i < length rs" "rs ! ?i = last rs" using sv(1) by (simp_all add: last_conv_nth)
    obtain sb1 sb2 where tc: "try_candidate d req (env ?i) (candidate_chain pl ! ?i) sb1 = (last rs, sb2)"
      using chain_nth [OF rs i(1)] i(2) by metis
    obtain s1 b1 s2 b2 where sb: "sb1 = (s1, b1)" "sb2 = (s2, b2)" by (cases sb1; cases sb2)
    have ex: "fst (execute d env pl req b) =
        served_outcome (map cr_row rs) (at_alias (cr_row (last rs))) m (env ?i) sv"
      using rs sv by (simp add: execute_def Let_def last_opt_def)
    from tc [unfolded sb] show ?thesis
    proof (cases rule: try_candidate_cases)
      case (attempt p tok)
      then obtain tel where tel: "candidate_gates d req (env ?i) (candidate_chain pl ! ?i)
            (resolveAttemptTarget (xd_resolve d) (candidate_chain pl ! ?i)) p = Gate_pass tel"
          "invoke d req (env ?i) (candidate_chain pl ! ?i)
            (resolveAttemptTarget (xd_resolve d) (candidate_chain pl ! ?i)) p tel = Inr sv"
        using attempt_invokes [OF attempt(2)] sv(2) by auto
      note served = invoke_served [OF tel(2)]
      have native: "pt_used tel \<Longrightarrow> ir_protocol req \<noteq> Openai_chat \<and> xr_native_request req \<noteq> None"
        using gates_pass_decision [OF tel(1)] passthrough_used_same_protocol by auto
      show ?thesis
      proof (cases sv)
        case (Served_stream st n)
        then show ?thesis using ex served native
          by (cases st) (auto simp: served_outcome_def split: prod.splits)
      next
        case (Served_body body n c)
        then show ?thesis using ex served native by (auto simp: served_outcome_def split: prod.splits)
      qed
    qed (use sv(2) in auto)
  qed
qed

end
