(* ===== verification/Gateway_Run.thy ===== *)
theory Gateway_Run
  imports Execute_Facts Route_Plan_Facts
begin

text \<open>
  The orchestrator on the real executor: \<open>routeRequest\<close> with \<open>createExecute\<close>'s callback, as
  \<open>apps/gateway/src/routes/chat.ts\<close> and its siblings wire them; and the fate of a native Responses stream
  across the failover guard, the failure classification and the chain.
\<close>

text \<open>The executor handed to the orchestrator: the request's routing fields as the plan left them, the rest as it came.\<close>

definition execute_callback :: "exec_deps \<Rightarrow> (nat \<Rightarrow> candidate_env) \<Rightarrow> exec_request \<Rightarrow> breaker \<Rightarrow> (json, stream_handle) executor" where
  "execute_callback d env full b = (\<lambda>pl req. Some (fst (execute d env pl
     (internal_request.extend req (internal_request.more full)) b)))"

definition gateway_run :: "exec_deps \<Rightarrow> (nat \<Rightarrow> candidate_env) \<Rightarrow> breaker \<Rightarrow> exec_request \<Rightarrow> plan_deps \<Rightarrow> route_options \<Rightarrow>
    (json, stream_handle) execution_result option \<times> decision_record list \<times> internal_request" where
  "gateway_run d env b full deps opts =
     routeRequest (execute_callback d env full b) (internal_request.truncate full) deps opts"

text \<open>What a decision record says about an accepted request.\<close>

definition trail_of :: "decision_record \<Rightarrow> bool" where
  "trail_of dr \<longleftrightarrow>
     map at_alias (dr_provider_attempts dr) = take (length (dr_provider_attempts dr)) (dr_candidate_chain dr)"

lemma executed_trail:
  "map at_alias (eo_attempts (fst (execute d env pl req b))) =
     take (length (eo_attempts (fst (execute d env pl req b)))) (candidate_chain pl)"
proof -
  obtain rs s b' where rs: "chain_results d env (candidate_chain pl) req b = (rs, s, b')" by (metis prod_cases3)
  have "eo_attempts (fst (execute d env pl req b)) = map cr_row rs"
    using rs by (auto simp: execute_def Let_def error_outcome_def served_outcome_def split: option.split candidate_end.split)
  then show ?thesis using rows_aliases [OF chain_shape(1) [OF rs]] by (simp add: comp_def)
qed

text \<open>
  C4. End to end, no blocked model is ever called: for every request that gets an answer, whether it was served,
  failed on every candidate, was aborted, or was refused when it was planned, exactly one record is logged, every
  attempt made or skipped is on an alias of the recorded chain, in its order, and none of those aliases is on the
  key's block list. (An image model must not be named like a lane, \<open>auto\<close> or nothing.)
\<close>
theorem no_blocked_model_called:
  assumes "gateway_run d env b full deps opts = (Some r, logged, req')"
    and "imagePinned (internal_request.truncate full) deps opts \<Longrightarrow>
      requested_model full \<noteq> [] \<and> requested_model full \<noteq> ''auto'' \<and> \<not> hasLane (lanes deps) (requested_model full)"
  shows "logged = [er_decision r] \<and> trail_of (er_decision r) \<and>
    list_all (\<lambda>a. \<not> model_blocked (caps_blocked opts) (at_alias a)) (dr_provider_attempts (er_decision r))"
proof (cases "plan (internal_request.truncate full) deps opts")
  case (Inl refusal)
  then have "logged = [er_decision r]" "dr_provider_attempts (er_decision r) = []"
    using assms(1) by (auto simp: gateway_run_def routeRequest_def rejected_record_def Let_def split: if_splits)
  then show ?thesis by (simp add: trail_of_def)
next
  case (Inr pn)
  let ?req = "internal_request.truncate full"
  have chain: "list_all (\<lambda>a. \<not> model_blocked (caps_blocked opts) a) (candidate_chain (plan_of pn))"
    using planned_chain [OF Inr] assms(2) by (simp add: Let_def internal_request.defs)
  define out where "out = fst (execute d env (plan_of pn)
      (internal_request.extend (force_reasoning pn deps ?req) (internal_request.more full)) b)"
  have run: "logged = [er_decision r]" "er_decision r = executed_record ?req (force_reasoning pn deps ?req) opts pn out"
    using assms(1) Inr
    by (auto simp: gateway_run_def routeRequest_def execute_callback_def Let_def out_def split: exec_final.splits)
  then have dr: "dr_provider_attempts (er_decision r) = eo_attempts out" "dr_candidate_chain (er_decision r) = candidate_chain (plan_of pn)"
    by (simp_all add: executed_record_def Let_def)
  have al: "map at_alias (eo_attempts out) = take (length (eo_attempts out)) (candidate_chain (plan_of pn))"
    unfolding out_def by (rule executed_trail)
  have "list_all (\<lambda>a. \<not> model_blocked (caps_blocked opts) a) (map at_alias (eo_attempts out))"
    unfolding al using chain by (auto simp: list_all_iff dest: in_set_takeD)
  then have "list_all (\<lambda>a. \<not> model_blocked (caps_blocked opts) (at_alias a)) (eo_attempts out)"
    by (simp add: list.pred_map comp_def)
  then show ?thesis using run(1) dr al by (simp add: trail_of_def)
qed

subsection \<open>A concrete deployment\<close>

definition demo_client :: provider_client where
  "demo_client = \<lparr>pv_id = 1, pv_nativePassthrough = True, pv_nativePassthroughStream = True, pv_countTokens = False,
     pv_mediaOnly = None, pv_nativeProtocolProfile = Some ''codex_responses'', pv_supportsResponsesNativeItems = None\<rparr>"

definition demo_resolve :: resolve_deps where
  "demo_resolve = \<lparr>rd_defaultProvider = demo_client, rd_providers = [''codex'' \<mapsto> demo_client], rd_registry = (\<lambda>_. None),
     rd_knownOAuthPrefixes = {''codex''}, rd_oauthAliases = {''codex/gpt''}, rd_oauthWireModels = Map.empty,
     rd_oauthProviderProtocols = [''codex'' \<mapsto> \<lparr>pm_targetProviderProtocol = Openai_responses, pm_requiresCompatibilityRewrite = False\<rparr>]\<rparr>"

definition demo_detail :: "thrown \<Rightarrow> error_detail" where
  "demo_detail err = \<lparr>ed_upstream_status = upstreamStatusOf err, ed_message = error_message err, ed_provider_raw = None,
     ed_provider_headers = None\<rparr>"

definition demo_xd :: exec_deps where
  "demo_xd = \<lparr>xd_resolve = demo_resolve, xd_breaker = demo_cfg, xd_catalog = (\<lambda>_ _. None), xd_hasUsableProviders = None,
     xd_passthroughEnabled = True, xd_firstOutputTimeoutMs = None, xd_codexBufferedStreamRecovery = False,
     xd_detail = demo_detail, xd_costOf = (\<lambda>_ _ _. None), xd_nativeUsage = (\<lambda>_ _. None), xd_uuid = (\<lambda>_. None),
     xd_num = (\<lambda>_. ''0''), xd_showInt = (\<lambda>_. ''0'')\<rparr>"

definition demo_env :: "pull list \<Rightarrow> thrown + json \<Rightarrow> candidate_env" where
  "demo_env pulls answer = \<lparr>ce_started = 0, ce_ended = 5, ce_gate_now = Some 0, ce_settle_now = Some 5, ce_others = [],
     ce_count = Inr JNull, ce_prepare = None, ce_pulls = pulls, ce_answer = answer, ce_deadline_fired = False,
     ce_signal = Not_aborted, ce_installation_ids = (None, None), ce_captured = None, ce_metadata = None\<rparr>"

definition demo_more :: "bool \<Rightarrow> json option \<Rightarrow> unit exec_request_ext" where
  "demo_more stream native = exec_request.fields [] None None None None stream None None native None None None"

definition busy :: thrown where
  "busy = UpstreamError Upstream_error ''overloaded'' None (Some 503) No_object"

definition demo_answers :: "nat \<Rightarrow> candidate_env" where
  "demo_answers i = demo_env [] (if i = 0 then Inl busy else Inr (JObj [(''id'', JStr ''x'')]))"

definition demo_full :: exec_request where
  "demo_full = internal_request.extend (demo_request ''auto'') (demo_more False None)"

lemma demo_full_parts:
  "internal_request.truncate demo_full = demo_request ''auto''" "internal_request.more demo_full = demo_more False None"
  by (simp_all add: demo_full_def internal_request.defs demo_request_def)

definition demo_gateway :: "(json, stream_handle) execution_result option \<times> decision_record list \<times> internal_request" where
  "demo_gateway = gateway_run demo_xd demo_answers createCircuitBreaker demo_full demo_deps (demo_key None None (Some [''GOOD'']))"

lemma demo_executed:
  "eo_final (fst (execute demo_xd demo_answers (plan_of (demo_planned ''balanced'' [''best'', ''cheap'']))
     (internal_request.extend (force_reasoning (demo_planned ''balanced'' [''best'', ''cheap'']) demo_deps (demo_request ''auto''))
       (demo_more False None)) createCircuitBreaker)) = Exec_ok ''cheap'' ''cheap''"
  by code_simp

lemma demo_gateway_ok:
  "\<exists>r logged req'. demo_gateway = (Some r, logged, req') \<and> er_error r = None \<and> er_final r = Final_ok ''cheap''"
  unfolding demo_gateway_def gateway_run_def execute_callback_def demo_full_parts routeRequest_def demo_plan_blocked
  using demo_executed by (simp add: Let_def)

theorem no_blocked_model_called_witness:
  "case demo_gateway of
     (Some r, logged, _) \<Rightarrow> list_all (\<lambda>a. \<not> model_blocked (Some [''GOOD'']) (at_alias a)) (dr_provider_attempts (er_decision r))
   | _ \<Rightarrow> False"
proof -
  obtain r logged req' where r: "demo_gateway = (Some r, logged, req')" "er_error r = None" using demo_gateway_ok by blast
  have "\<not> imagePinned (internal_request.truncate demo_full) demo_deps (demo_key None None (Some [''GOOD'']))"
    by (simp add: demo_full_parts imagePinned_def demo_deps_def)
  from no_blocked_model_called [OF r(1) [unfolded demo_gateway_def]] this show ?thesis
    unfolding r(1) by (simp add: demo_key_def caps_blocked_def)
qed

subsection \<open>A native Responses stream is not run twice\<close>

text \<open>What a fired per-attempt deadline makes of any failure of the attempt.\<close>

definition deadline_hit :: "exec_deps \<Rightarrow> exec_request \<Rightarrow> candidate_env \<Rightarrow> thrown \<Rightarrow> bool" where
  "deadline_hit d req env err \<longleftrightarrow>
     ce_deadline_fired env \<and> \<not> signal_aborted (ce_signal env) \<and>
     (\<exists>ms. xr_attempt_timeout_ms req = Some ms \<and> ms \<noteq> 0 \<and>
        err = UpstreamError Timeout_error (''attempt exceeded per-attempt timeout ('' @ xd_showInt d ms @ ''ms)'') None None No_object)"

lemma in_deadline_error:
  "in_deadline d req env answer = Inl err \<Longrightarrow> answer = Inl err \<or> deadline_hit d req env err"
  by (auto simp: in_deadline_def withAttemptDeadline_def deadline_hit_def split: option.splits sum.splits if_splits)

lemma responses_stream_error:
  assumes "ir_protocol req = Openai_responses" "xr_stream req" "pt_used tel"
    and "invoke d req env a t p tel = Inl err"
  shows "ce_prepare env = Some err \<or> deadline_hit d req env err \<or>
    responses_outcome (xd_num d) (concat (chunks_of (ce_pulls env))) (source_errors (ce_pulls env)) err"
proof (cases "ce_prepare env")
  case None
  have id: "identity_boundary (xd_uuid d) req t = None" using assms(1) by (simp add: identity_boundary_def)
  let ?g = "guardPreOutputFailure (xd_num d) (xd_showInt d) Responses_classifier (first_output_timeout d p) (ce_pulls env)"
  have "in_deadline d req env (peekStream ?g) = Inl err"
    using assms None id by (auto simp: invoke_def native_stream_def preOutputClassifierFor_def split: sum.splits)
  then consider "deadline_hit d req env err" | "peekStream ?g = Inl err" using in_deadline_error by blast
  then show ?thesis
  proof cases
    case 2
    moreover have "fst ?g = [] \<Longrightarrow> snd ?g \<noteq> None"
      using guard_verbatim by (metis prod.collapse)
    ultimately have g: "?g = ([], Some err)" by (cases ?g) (auto simp: peekStream_def split: list.splits option.splits)
    then have "guard_run (xd_num d) (xd_showInt d) Responses_classifier (nullish (first_output_timeout d p) 0) guard_init (ce_pulls env) = ([], Some err)"
      by (simp add: guardPreOutputFailure_def)
    from run_outcome [OF _ _ _ this, of "concat (chunks_of (ce_pulls env))" "[]"] show ?thesis
      by (simp add: guard_init_def)
  qed simp
qed (use assms in \<open>auto simp: invoke_def identity_boundary_def\<close>)

text \<open>
  C3. What lets a native Responses stream be run again on another candidate, without any condition on the deployment:
  when such a candidate was invoked and the chain went on, the failure is not one whose outcome is unknown, and it
  is one of exactly four: the body was never sent; the upstream itself reported the failure in the text received;
  the provider client reported it as a typed error; or the request's per-attempt deadline had fired. So a stream
  that was accepted and then just ended, broke without a typed error, outgrew the preamble buffer or missed the
  first-output deadline ends the request. The last two causes do not ask how far the stream had come: both can run
  an accepted request again (lemmas \<open>typed_error_runs_again\<close> and \<open>deadline_runs_again\<close>).
\<close>
theorem responses_replay_causes:
  assumes "ir_protocol req = Openai_responses" and "xr_stream req"
    and "pt_used (decideNativePassthroughForAttempt req (resolveAttemptTarget (xd_resolve d) a) (xd_passthroughEnabled d))"
    and "try_candidate d req env a sb = (r, sb')" and "cr_invoked r \<noteq> None" and "cr_end r = Cand_next"
  shows "\<exists>err. cr_error r = Some err \<and> \<not> outcome_unknown err \<and>
    (ce_prepare env = Some err \<or> reported_failure (xd_num d) (concat (chunks_of (ce_pulls env))) err \<or>
     (upstream_of err \<noteq> None \<and> err \<in> set (source_errors (ce_pulls env))) \<or> deadline_hit d req env err)"
proof -
  obtain s b s' b' where sb: "sb = (s, b)" "sb' = (s', b')" by (cases sb; cases sb')
  from assms(4) [unfolded sb] show ?thesis
  proof (cases rule: try_candidate_cases)
    case (attempt p tok)
    let ?t = "resolveAttemptTarget (xd_resolve d) a"
    obtain tel where tel: "candidate_gates d req env a ?t p = Gate_pass tel"
      using attempt(2) assms(5) by (cases "candidate_gates d req env a ?t p") (auto simp: attempt_candidate_def)
    then have used: "pt_used tel" using gates_pass_decision [OF tel] assms(3) by simp
    obtain err where err: "invoke d req env a ?t p tel = Inl err" "cr_error r = Some err"
        "fv_terminal (classify_failure d req env a tel err) = None"
      using attempt(2) tel assms(6) by (auto simp: attempt_candidate_def Let_def split: sum.splits option.splits)
    have "may_fall_back d req err" by (rule next_may_fall_back [OF err(3)])
    then have "\<not> isPostSendFailure err" by (simp add: may_fall_back_def codex_terminal_def)
    then have "\<not> outcome_unknown err"
      by (cases "upstream_of err") (auto simp: outcome_unknown_def isPostSendFailure_def upstreamErrorCode_def
          isCodexResponsesPostSendFailureCode_def)
    then show ?thesis
      using responses_stream_error [OF assms(1,2) used err(1)] err(2) by (auto simp: responses_outcome_def)
  qed (use assms(5) in auto)
qed

definition demo_responses :: exec_request where
  "demo_responses = internal_request.extend ((demo_request ''auto'')\<lparr>ir_protocol := Openai_responses\<rparr>)
     (demo_more True (Some (JObj [(''model'', JStr ''gpt'')])))"

definition demo_try :: "exec_request \<Rightarrow> candidate_env \<Rightarrow> candidate_result \<times> chain_state \<times> breaker" where
  "demo_try req env = try_candidate demo_xd req env ''codex/gpt'' (chain_init, createCircuitBreaker)"

definition created_frame :: string where
  "created_frame = ''data: {'' @ quote_string ''type'' @ '':'' @ quote_string ''response.created'' @ ''}'' @ [LF, LF]"

definition broken :: "string \<Rightarrow> thrown" where
  "broken name = Thrown Plain_error (Some name) None (Some ''terminated'') No_object"

text \<open>A refusal before the first byte goes on; the same stream, accepted and then cut or broken, does not.\<close>

lemma demo_try_ends:
  "cr_end (fst (demo_try demo_responses (demo_env [Source_error busy] (Inl busy)))) = Cand_next"
  "cr_invoked (fst (demo_try demo_responses (demo_env [Source_error busy] (Inl busy)))) \<noteq> None"
  "cr_end (fst (demo_try demo_responses (demo_env [Chunk created_frame] (Inl busy)))) \<noteq> Cand_next"
  "cr_end (fst (demo_try demo_responses (demo_env [Chunk created_frame, Source_error (broken ''TypeError'')] (Inl busy)))) \<noteq> Cand_next"
  by code_simp+

theorem responses_replay_causes_witness:
  "\<exists>err. cr_error (fst (demo_try demo_responses (demo_env [Source_error busy] (Inl busy)))) = Some err \<and> \<not> outcome_unknown err \<and>
     (reported_failure (xd_num demo_xd) [] err \<or> upstream_of err \<noteq> None \<and> err \<in> set [busy])"
proof -
  have req: "ir_protocol demo_responses = Openai_responses" "xr_stream demo_responses" "xr_attempt_timeout_ms demo_responses = None"
    by (simp_all add: demo_responses_def demo_more_def internal_request.defs exec_request.defs demo_request_def)
  have used: "pt_used (decideNativePassthroughForAttempt demo_responses (resolveAttemptTarget (xd_resolve demo_xd) ''codex/gpt'')
      (xd_passthroughEnabled demo_xd))"
    by code_simp
  obtain r sb' where r: "demo_try demo_responses (demo_env [Source_error busy] (Inl busy)) = (r, sb')" by (metis surj_pair)
  from responses_replay_causes [OF req(1,2) used r [unfolded demo_try_def]] demo_try_ends(1,2) r req(3)
  show ?thesis by (simp add: demo_env_def deadline_hit_def)
qed

text \<open>
  An accepted stream run again: the typed error comes after \<open>response.created\<close>, and a stream that stalls after
  it is cut by the request's own per-attempt deadline before the first-output deadline can make it terminal.
\<close>

lemma typed_error_runs_again:
  "cr_end (fst (demo_try demo_responses (demo_env [Chunk created_frame, Source_error busy] (Inl busy)))) = Cand_next"
  by code_simp

lemma deadline_runs_again:
  "cr_end (fst (demo_try (demo_responses\<lparr>xr_attempt_timeout_ms := Some 30000\<rparr>)
     ((demo_env [Chunk created_frame, Source_error (broken ''AbortError'')] (Inl busy))\<lparr>ce_deadline_fired := True\<rparr>))) = Cand_next"
  by code_simp

end
