(* ===== verification/Write_Queue.thy ===== *)
theory Write_Queue
  imports Prelude
begin

text \<open>
  The deferred write queue (\<open>apps/gateway/src/runtime/write-queue.ts\<close>): bounded buffers of telemetry and payload
  rows flushed as batches on one serial chain, side-effect tasks on another, producers that wait for capacity in
  order, and the calls that drain it. One step is one turn of the event loop: an enqueue, the timer, a batch or
  a task that settles, a waiting producer or a draining caller that resumes. A promise a producer or caller
  awaits is the number of chain entries still ahead of it. The store is an argument.
\<close>

subsection \<open>Rows, items and configuration\<close>

text \<open>A telemetry row, with the JSON text of its decision if it can be serialised; a payload row.\<close>

record telemetry_row =
  tr_requestId :: string
  tr_decision :: "string option"

record payload_row =
  pr_requestId :: string
  requestJson :: string
  responseJson :: "string option"
  upstreamRequestJson :: "string option"
  pr_guarded :: bool

datatype wq_item =
    Telemetry_item telemetry_row
  | Payload_item payload_row
  | Session_item string rat
  | Task_item string rat bool

record wq_config =
  maxBatch :: nat
  maxDepth :: nat
  maxBytes :: int
  flushBytes :: int
  maxPendingAdmissions :: nat
  maxPendingAdmissionBytes :: int
  jsonAmplification :: rat

definition text_length :: "string option \<Rightarrow> int" where
  "text_length s = (case s of None \<Rightarrow> 0 | Some t \<Rightarrow> int (length t))"

definition payloadCost :: "payload_row \<Rightarrow> int" where
  "payloadCost p = 2 * (int (length (requestJson p)) + text_length (responseJson p) + text_length (upstreamRequestJson p))"

definition telemetryCost :: "telemetry_row \<Rightarrow> int" where
  "telemetryCost r = text_length (tr_decision r) * 2"

definition retainedTaskCost :: "wq_config \<Rightarrow> rat \<Rightarrow> int" where
  "retainedTaskCost cfg n = (if 0 < n then \<lceil>n * jsonAmplification cfg\<rceil> else 0)"

fun item_cost :: "wq_config \<Rightarrow> wq_item \<Rightarrow> int" where
  "item_cost cfg (Telemetry_item r) = telemetryCost r"
| "item_cost cfg (Payload_item p) = payloadCost p"
| "item_cost cfg (Session_item t n) = retainedTaskCost cfg n"
| "item_cost cfg (Task_item t n w) = retainedTaskCost cfg n"

subsection \<open>State\<close>

record wq_batch =
  bt_telemetry :: "telemetry_row list"
  bt_payload :: "payload_row list"
  flushedBytes :: int
  flushedDepth :: nat

record wq_task =
  qt_task :: string
  qt_cost :: int
  qt_session :: bool
  qt_wake :: bool

text \<open>A waiting producer; \<open>wt_awaits\<close> counts the batches and tasks its \<open>Promise.all\<close> still waits for.\<close>

record wq_waiter =
  wt_item :: wq_item
  wt_cost :: int
  wt_pendingCost :: int
  wt_awaits :: "(nat \<times> nat) option"

datatype drain_kind = Flush_call | Pause_call | Stop_call

datatype drain_phase =
    Await_admissions nat
  | Await_flush nat
  | Await_writes nat
  | Await_tasks nat
  | Drained

text \<open>A draining call; \<open>dc_void\<close> marks a pause that was resumed before it finished.\<close>

record drain_call =
  dc_kind :: drain_kind
  dc_phase :: drain_phase
  dc_void :: bool

text \<open>The \<open>gh_\<close> fields record the history: what was admitted, and which tasks have run.\<close>

record 'db write_queue =
  telemetryBuf :: "telemetry_row list"
  payloadBuf :: "payload_row list"
  bufferedBytes :: int
  inFlightBytes :: int
  inFlightDepth :: nat
  wq_timer :: bool
  wq_stopped :: bool
  wq_paused :: bool
  writeChain :: "wq_batch list"
  taskChain :: "wq_task list"
  pendingTasks :: nat
  pendingSessionBytes :: int
  pendingTaskBytes :: int
  waiters :: "wq_waiter list"
  pendingAdmissions :: nat
  pendingAdmissionBytes :: int
  drain_calls :: "drain_call list"
  wq_db :: 'db
  wq_log :: "string list"
  gh_telemetry :: "telemetry_row list"
  gh_payload :: "payload_row list"
  gh_tasks :: "string list"
  gh_settled :: "string list"

definition createWriteQueue :: "'db \<Rightarrow> 'db write_queue" where
  "createWriteQueue db =
     \<lparr>telemetryBuf = [], payloadBuf = [], bufferedBytes = 0, inFlightBytes = 0, inFlightDepth = 0, wq_timer = False,
      wq_stopped = False, wq_paused = False, writeChain = [], taskChain = [], pendingTasks = 0,
      pendingSessionBytes = 0, pendingTaskBytes = 0, waiters = [], pendingAdmissions = 0, pendingAdmissionBytes = 0,
      drain_calls = [], wq_db = db, wq_log = [], gh_telemetry = [], gh_payload = [], gh_tasks = [], gh_settled = []\<rparr>"

definition depth :: "'db write_queue \<Rightarrow> nat" where
  "depth s = length (telemetryBuf s) + length (payloadBuf s) + inFlightDepth s + pendingTasks s"

definition held_bytes :: "'db write_queue \<Rightarrow> int" where
  "held_bytes s = bufferedBytes s + inFlightBytes s + pendingSessionBytes s + pendingTaskBytes s"

definition overBudget :: "wq_config \<Rightarrow> 'db write_queue \<Rightarrow> int \<Rightarrow> bool" where
  "overBudget cfg s incoming \<longleftrightarrow> maxDepth cfg \<le> depth s \<or> maxBytes cfg < held_bytes s + incoming"

subsection \<open>Writing a batch\<close>

text \<open>
  The store's batch methods are optional; a call that throws answers \<open>None\<close> and has written nothing.
\<close>

record 'db wq_store =
  st_insertMany :: "('db \<Rightarrow> telemetry_row list \<Rightarrow> 'db option) option"
  st_insert :: "'db \<Rightarrow> telemetry_row \<Rightarrow> 'db option"
  st_insertPayloads :: "('db \<Rightarrow> payload_row list \<Rightarrow> 'db option) option"
  st_insertPayload :: "'db \<Rightarrow> payload_row \<Rightarrow> 'db option"

text \<open>One row at a time: a row that throws is logged and skipped.\<close>

fun insert_each :: "('db \<Rightarrow> 'r \<Rightarrow> 'db option) \<Rightarrow> string \<Rightarrow> 'db \<Rightarrow> 'r list \<Rightarrow> 'db \<times> string list" where
  "insert_each ins failed db [] = (db, [])"
| "insert_each ins failed db (r # rs) =
     (case ins db r of
        Some db' \<Rightarrow> insert_each ins failed db' rs
      | None \<Rightarrow> (case insert_each ins failed db rs of (db', l) \<Rightarrow> (db', failed # l)))"

text \<open>A whole batch first, then row by row if it throws or the store has no batch method.\<close>

definition insert_batch ::
  "('db \<Rightarrow> 'r list \<Rightarrow> 'db option) option \<Rightarrow> ('db \<Rightarrow> 'r \<Rightarrow> 'db option) \<Rightarrow> string \<Rightarrow> string \<Rightarrow> 'db \<Rightarrow> 'r list \<Rightarrow>
   'db \<times> string list" where
  "insert_batch many ins fellBack failed db rs =
     (if rs = [] then (db, [])
      else
        (case many of
           None \<Rightarrow> insert_each ins failed db rs
         | Some f \<Rightarrow>
             (case f db rs of
                Some db' \<Rightarrow> (db', [])
              | None \<Rightarrow> (case insert_each ins failed db rs of (db', l) \<Rightarrow> (db', fellBack # l)))))"

definition writeTelemetry :: "'db wq_store \<Rightarrow> 'db \<Rightarrow> telemetry_row list \<Rightarrow> 'db \<times> string list" where
  "writeTelemetry st =
     insert_batch (st_insertMany st) (st_insert st) ''writequeue.telemetry_batch_fallback''
       ''writequeue.telemetry_insert_failed''"

text \<open>A payload whose \<open>isCurrent\<close> answers false when its batch is written is left out.\<close>

definition writePayloads ::
  "'db wq_store \<Rightarrow> (payload_row \<Rightarrow> bool) \<Rightarrow> 'db \<Rightarrow> payload_row list \<Rightarrow> 'db \<times> string list" where
  "writePayloads st isCurrent db batch =
     insert_batch (st_insertPayloads st) (st_insertPayload st) ''writequeue.payload_batch_fallback''
       ''writequeue.payload_insert_failed'' db (filter (\<lambda>p. pr_guarded p \<longrightarrow> isCurrent p) batch)"

subsection \<open>Flushing and admitting\<close>

definition doFlush :: "'db write_queue \<Rightarrow> 'db write_queue" where
  "doFlush s =
     (let s = s\<lparr>wq_timer := False\<rparr> in
      if telemetryBuf s = [] \<and> payloadBuf s = [] then s
      else
        let b = \<lparr>bt_telemetry = telemetryBuf s, bt_payload = payloadBuf s, flushedBytes = bufferedBytes s,
                 flushedDepth = length (telemetryBuf s) + length (payloadBuf s)\<rparr>
        in s\<lparr>telemetryBuf := [], payloadBuf := [], bufferedBytes := 0,
             inFlightBytes := inFlightBytes s + flushedBytes b, inFlightDepth := inFlightDepth s + flushedDepth b,
             writeChain := writeChain s @ [b]\<rparr>)"

definition scheduleTimer :: "'db write_queue \<Rightarrow> 'db write_queue" where
  "scheduleTimer s = (if wq_timer s \<or> wq_stopped s then s else s\<lparr>wq_timer := True\<rparr>)"

definition flush_or_wait :: "wq_config \<Rightarrow> nat \<Rightarrow> 'db write_queue \<Rightarrow> 'db write_queue" where
  "flush_or_wait cfg n s =
     (if maxBatch cfg \<le> n \<or> flushBytes cfg \<le> bufferedBytes s then doFlush s else scheduleTimer s)"

definition push_task :: "wq_task \<Rightarrow> 'db write_queue \<Rightarrow> 'db write_queue" where
  "push_task t s =
     s\<lparr>pendingTasks := pendingTasks s + 1,
       pendingSessionBytes := pendingSessionBytes s + (if qt_session t then qt_cost t else 0),
       pendingTaskBytes := pendingTaskBytes s + (if qt_session t then 0 else qt_cost t),
       taskChain := taskChain s @ [t], gh_tasks := gh_tasks s @ [qt_task t]\<rparr>"

fun append_item :: "wq_config \<Rightarrow> wq_item \<Rightarrow> int \<Rightarrow> 'db write_queue \<Rightarrow> 'db write_queue" where
  "append_item cfg (Telemetry_item r) cost s =
     (let s' = s\<lparr>telemetryBuf := telemetryBuf s @ [r], bufferedBytes := bufferedBytes s + cost,
                 gh_telemetry := gh_telemetry s @ [r]\<rparr>
      in flush_or_wait cfg (length (telemetryBuf s')) s')"
| "append_item cfg (Payload_item p) cost s =
     (let s' = s\<lparr>payloadBuf := payloadBuf s @ [p], bufferedBytes := bufferedBytes s + cost,
                 gh_payload := gh_payload s @ [p]\<rparr>
      in flush_or_wait cfg (length (payloadBuf s')) s')"
| "append_item cfg (Session_item t n) cost s =
     push_task \<lparr>qt_task = t, qt_cost = cost, qt_session = True, qt_wake = False\<rparr> s"
| "append_item cfg (Task_item t n w) cost s =
     push_task \<lparr>qt_task = t, qt_cost = cost, qt_session = False, qt_wake = w\<rparr> s"

text \<open>The synchronous part of an admission: at once, dropped, or in line behind the waiting producers.\<close>

definition admit :: "wq_config \<Rightarrow> wq_item \<Rightarrow> int \<Rightarrow> 'db write_queue \<Rightarrow> 'db write_queue" where
  "admit cfg it cost s =
     (if pendingAdmissions s = 0 \<and> (\<not> overBudget cfg s cost \<or> depth s = 0) then append_item cfg it cost s
      else
        let pendingCost = min cost (maxPendingAdmissionBytes cfg) in
        if maxPendingAdmissions cfg \<le> pendingAdmissions s \<or>
           maxPendingAdmissionBytes cfg < pendingAdmissionBytes s + pendingCost
        then s\<lparr>wq_log := wq_log s @ [''writequeue.admission_dropped'']\<rparr>
        else s\<lparr>waiters := waiters s @ [\<lparr>wt_item = it, wt_cost = cost, wt_pendingCost = pendingCost, wt_awaits = None\<rparr>],
               pendingAdmissions := pendingAdmissions s + 1,
               pendingAdmissionBytes := pendingAdmissionBytes s + pendingCost\<rparr>)"

definition enqueue :: "wq_config \<Rightarrow> wq_item \<Rightarrow> 'db write_queue \<Rightarrow> 'db write_queue" where
  "enqueue cfg it s =
     (if wq_stopped s then s
      else if wq_paused s then s\<lparr>wq_log := wq_log s @ [''writequeue.paused'']\<rparr>
      else admit cfg it (item_cost cfg it) s)"

subsection \<open>Turns of the event loop\<close>

definition tick_phase :: "(nat \<Rightarrow> nat) \<Rightarrow> (nat \<Rightarrow> nat) \<Rightarrow> (nat \<Rightarrow> nat) \<Rightarrow> drain_phase \<Rightarrow> drain_phase" where
  "tick_phase fa fw ft ph =
     (case ph of
        Await_admissions n \<Rightarrow> Await_admissions (fa n)
      | Await_flush n \<Rightarrow> Await_flush (fw n)
      | Await_writes n \<Rightarrow> Await_writes (fw n)
      | Await_tasks n \<Rightarrow> Await_tasks (ft n)
      | Drained \<Rightarrow> Drained)"

definition tick_call :: "(nat \<Rightarrow> nat) \<Rightarrow> (nat \<Rightarrow> nat) \<Rightarrow> (nat \<Rightarrow> nat) \<Rightarrow> drain_call \<Rightarrow> drain_call" where
  "tick_call fa fw ft c = c\<lparr>dc_phase := tick_phase fa fw ft (dc_phase c)\<rparr>"

definition tick_waiter :: "(nat \<Rightarrow> nat) \<Rightarrow> (nat \<Rightarrow> nat) \<Rightarrow> wq_waiter \<Rightarrow> wq_waiter" where
  "tick_waiter fw ft w = w\<lparr>wt_awaits := map_option (map_prod fw ft) (wt_awaits w)\<rparr>"

definition one_less :: "nat \<Rightarrow> nat" where
  "one_less n = n - 1"

text \<open>The first batch of the chain settles, whether or not its writes failed.\<close>

definition batch_settles :: "'db wq_store \<Rightarrow> (payload_row \<Rightarrow> bool) \<Rightarrow> 'db write_queue \<Rightarrow> 'db write_queue" where
  "batch_settles st isCurrent s =
     (case writeChain s of
        [] \<Rightarrow> s
      | b # bs \<Rightarrow>
          (case writeTelemetry st (wq_db s) (bt_telemetry b) of (db1, l1) \<Rightarrow>
            (case writePayloads st isCurrent db1 (bt_payload b) of (db2, l2) \<Rightarrow>
               s\<lparr>writeChain := bs, wq_db := db2, wq_log := wq_log s @ l1 @ l2,
                 inFlightBytes := inFlightBytes s - flushedBytes b, inFlightDepth := inFlightDepth s - flushedDepth b,
                 waiters := map (tick_waiter one_less id) (waiters s),
                 drain_calls := map (tick_call id one_less id) (drain_calls s)\<rparr>)))"

text \<open>The first task settles: it may have thrown, and so may the hook of a task that wakes the memory worker.\<close>

definition task_settles :: "bool \<Rightarrow> bool \<Rightarrow> 'db write_queue \<Rightarrow> 'db write_queue" where
  "task_settles threw hook_threw s =
     (case taskChain s of
        [] \<Rightarrow> s
      | t # ts \<Rightarrow>
          s\<lparr>taskChain := ts, pendingTasks := pendingTasks s - 1,
            pendingSessionBytes := pendingSessionBytes s - (if qt_session t then qt_cost t else 0),
            pendingTaskBytes := pendingTaskBytes s - (if qt_session t then 0 else qt_cost t),
            wq_log := wq_log s
              @ (if threw then [if qt_session t then ''writequeue.session_failed'' else ''writequeue.task_failed''] else [])
              @ (if qt_wake t \<and> hook_threw then [''writequeue.on_task_drain_failed''] else []),
            waiters := map (tick_waiter id one_less) (waiters s),
            drain_calls := map (tick_call id id one_less) (drain_calls s),
            gh_settled := gh_settled s @ [qt_task t]\<rparr>)"

text \<open>
  The first waiting producer resumes once what it awaits has settled: it flushes and waits again while the queue
  is over its budget and not empty, else its item is appended and the next producer may run.
\<close>

definition waiter_ready :: "wq_waiter \<Rightarrow> bool" where
  "waiter_ready w = (case wt_awaits w of None \<Rightarrow> True | Some (nb, nt) \<Rightarrow> nb = 0 \<and> nt = 0)"

definition waiter_turn :: "wq_config \<Rightarrow> 'db write_queue \<Rightarrow> 'db write_queue" where
  "waiter_turn cfg s =
     (case waiters s of
        [] \<Rightarrow> s
      | w # ws \<Rightarrow>
          if \<not> waiter_ready w then s
          else if overBudget cfg s (wt_cost w) \<and> 0 < depth s then
            let s' = doFlush s in
            s'\<lparr>waiters := w\<lparr>wt_awaits := Some (length (writeChain s'), length (taskChain s'))\<rparr> # ws\<rparr>
          else
            let s' = append_item cfg (wt_item w) (wt_cost w) s in
            s'\<lparr>waiters := ws, pendingAdmissions := pendingAdmissions s' - 1,
               pendingAdmissionBytes := pendingAdmissionBytes s' - wt_pendingCost w,
               drain_calls := map (tick_call one_less id id) (drain_calls s')\<rparr>)"

definition timer_fires :: "'db write_queue \<Rightarrow> 'db write_queue" where
  "timer_fires s = (if wq_timer s then doFlush s else s)"

subsection \<open>Draining\<close>

definition start_drain :: "drain_kind \<Rightarrow> 'db write_queue \<Rightarrow> 'db write_queue" where
  "start_drain k s =
     (let s' = (case k of
           Flush_call \<Rightarrow> s
         | Pause_call \<Rightarrow> s\<lparr>wq_paused := True, wq_timer := False\<rparr>
         | Stop_call \<Rightarrow> s\<lparr>wq_stopped := True, wq_timer := False\<rparr>)
      in s'\<lparr>drain_calls := drain_calls s' @
             [\<lparr>dc_kind = k, dc_phase = Await_admissions (length (waiters s')), dc_void = False\<rparr>]\<rparr>)"

definition set_phase :: "nat \<Rightarrow> drain_phase \<Rightarrow> 'db write_queue \<Rightarrow> 'db write_queue" where
  "set_phase i ph s = s\<lparr>drain_calls := (drain_calls s)[i := (drain_calls s ! i)\<lparr>dc_phase := ph\<rparr>]\<rparr>"

definition drain_turn :: "nat \<Rightarrow> 'db write_queue \<Rightarrow> 'db write_queue" where
  "drain_turn i s =
     (if length (drain_calls s) \<le> i then s
      else
        (case dc_phase (drain_calls s ! i) of
           Await_admissions n \<Rightarrow>
             if n \<noteq> 0 then s else (let s' = doFlush s in set_phase i (Await_flush (length (writeChain s'))) s')
         | Await_flush n \<Rightarrow> if n \<noteq> 0 then s else set_phase i (Await_writes (length (writeChain s))) s
         | Await_writes n \<Rightarrow> if n \<noteq> 0 then s else set_phase i (Await_tasks (length (taskChain s))) s
         | Await_tasks n \<Rightarrow> if n \<noteq> 0 then s else set_phase i Drained s
         | Drained \<Rightarrow> s))"

definition void_pause :: "drain_call \<Rightarrow> drain_call" where
  "void_pause c = (if dc_kind c = Pause_call then c\<lparr>dc_void := True\<rparr> else c)"

definition resume :: "'db write_queue \<Rightarrow> 'db write_queue" where
  "resume s = (if wq_stopped s then s else s\<lparr>wq_paused := False, drain_calls := map void_pause (drain_calls s)\<rparr>)"

datatype wq_event =
    Enqueue wq_item
  | Timer_fires
  | Batch_settles "payload_row list"
  | Task_settles bool bool
  | Waiter_turn
  | Start_drain drain_kind
  | Drain_turn nat
  | Resume

fun wq_step :: "wq_config \<Rightarrow> 'db wq_store \<Rightarrow> 'db write_queue \<Rightarrow> wq_event \<Rightarrow> 'db write_queue" where
  "wq_step cfg st s (Enqueue it) = enqueue cfg it s"
| "wq_step cfg st s Timer_fires = timer_fires s"
| "wq_step cfg st s (Batch_settles stale) = batch_settles st (\<lambda>p. p \<notin> set stale) s"
| "wq_step cfg st s (Task_settles threw hook) = task_settles threw hook s"
| "wq_step cfg st s Waiter_turn = waiter_turn cfg s"
| "wq_step cfg st s (Start_drain k) = start_drain k s"
| "wq_step cfg st s (Drain_turn i) = drain_turn i s"
| "wq_step cfg st s Resume = resume s"

definition wq_run :: "wq_config \<Rightarrow> 'db wq_store \<Rightarrow> 'db \<Rightarrow> wq_event list \<Rightarrow> 'db write_queue" where
  "wq_run cfg st db es = foldl (wq_step cfg st) (createWriteQueue db) es"

subsection \<open>The books\<close>

definition rows_cost :: "telemetry_row list \<Rightarrow> payload_row list \<Rightarrow> int" where
  "rows_cost ts ps = sum_list (map telemetryCost ts) + sum_list (map payloadCost ps)"

definition batch_ok :: "wq_batch \<Rightarrow> bool" where
  "batch_ok b \<longleftrightarrow>
     flushedBytes b = rows_cost (bt_telemetry b) (bt_payload b) \<and>
     flushedDepth b = length (bt_telemetry b) + length (bt_payload b)"

definition session_cost :: "wq_task \<Rightarrow> int" where
  "session_cost t = (if qt_session t then qt_cost t else 0)"

definition effect_cost :: "wq_task \<Rightarrow> int" where
  "effect_cost t = (if qt_session t then 0 else qt_cost t)"

text \<open>Every counter of the queue is the sum it stands for.\<close>

definition books_ok :: "'db write_queue \<Rightarrow> bool" where
  "books_ok s \<longleftrightarrow>
     bufferedBytes s = rows_cost (telemetryBuf s) (payloadBuf s) \<and>
     inFlightBytes s = sum_list (map flushedBytes (writeChain s)) \<and>
     inFlightDepth s = sum_list (map flushedDepth (writeChain s)) \<and>
     list_all batch_ok (writeChain s) \<and>
     pendingTasks s = length (taskChain s) \<and>
     pendingSessionBytes s = sum_list (map session_cost (taskChain s)) \<and>
     pendingTaskBytes s = sum_list (map effect_cost (taskChain s)) \<and>
     list_all (\<lambda>t. 0 \<le> qt_cost t) (taskChain s)"

definition config_ok :: "wq_config \<Rightarrow> bool" where
  "config_ok cfg \<longleftrightarrow> 0 \<le> jsonAmplification cfg \<and> 0 \<le> maxPendingAdmissionBytes cfg"

lemma rows_cost_simps [simp]:
  "rows_cost [] [] = 0"
  "rows_cost (ts @ [t]) ps = rows_cost ts ps + telemetryCost t"
  "rows_cost ts (ps @ [p]) = rows_cost ts ps + payloadCost p"
  by (simp_all add: rows_cost_def)

lemma text_length_nonneg [simp]: "0 \<le> text_length s"
  by (simp add: text_length_def split: option.split)

lemma row_costs_nonneg [simp]: "0 \<le> telemetryCost r" "0 \<le> payloadCost p"
  by (simp_all add: telemetryCost_def payloadCost_def)

lemma rows_cost_nonneg [simp]: "0 \<le> rows_cost ts ps"
proof -
  have "0 \<le> sum_list (map telemetryCost ts)" "0 \<le> sum_list (map payloadCost ps)"
    by (rule sum_list_nonneg; auto)+
  then show ?thesis by (simp add: rows_cost_def)
qed

lemma item_cost_nonneg: "config_ok cfg \<Longrightarrow> 0 \<le> item_cost cfg it"
proof -
  assume "config_ok cfg"
  then have "- 1 < n * jsonAmplification cfg" if "0 < n" for n
  proof -
    have "0 \<le> n * jsonAmplification cfg" using that \<open>config_ok cfg\<close> by (simp add: config_ok_def)
    then show ?thesis by linarith
  qed
  then have "0 \<le> retainedTaskCost cfg n" for n
    by (simp add: retainedTaskCost_def)
  then show ?thesis by (cases it) simp_all
qed

lemma books_held:
  assumes "books_ok s"
  shows "0 \<le> bufferedBytes s" "0 \<le> inFlightBytes s" "0 \<le> pendingSessionBytes s" "0 \<le> pendingTaskBytes s"
  using assms
  by (auto simp: books_ok_def list_all_iff batch_ok_def session_cost_def effect_cost_def intro!: sum_list_nonneg)

lemma doFlush_fields [simp]:
  "depth (doFlush s) = depth s" "held_bytes (doFlush s) = held_bytes s"
  "taskChain (doFlush s) = taskChain s" "waiters (doFlush s) = waiters s" "drain_calls (doFlush s) = drain_calls s"
  "pendingAdmissions (doFlush s) = pendingAdmissions s" "pendingAdmissionBytes (doFlush s) = pendingAdmissionBytes s"
  "wq_stopped (doFlush s) = wq_stopped s" "wq_paused (doFlush s) = wq_paused s" "wq_timer (doFlush s) = False"
  "telemetryBuf (doFlush s) = []" "payloadBuf (doFlush s) = []"
  "gh_tasks (doFlush s) = gh_tasks s" "gh_settled (doFlush s) = gh_settled s" "gh_telemetry (doFlush s) = gh_telemetry s"
  "gh_payload (doFlush s) = gh_payload s" "wq_db (doFlush s) = wq_db s"
  by (simp_all add: doFlush_def depth_def held_bytes_def Let_def)

lemma doFlush_chain:
  "writeChain (doFlush s) =
     (if telemetryBuf s = [] \<and> payloadBuf s = [] then writeChain s
      else writeChain s @ [\<lparr>bt_telemetry = telemetryBuf s, bt_payload = payloadBuf s, flushedBytes = bufferedBytes s,
                            flushedDepth = length (telemetryBuf s) + length (payloadBuf s)\<rparr>])"
  by (simp add: doFlush_def Let_def)

lemma books_doFlush: "books_ok s \<Longrightarrow> books_ok (doFlush s)"
  by (auto simp: books_ok_def doFlush_def Let_def batch_ok_def)

lemma flush_or_wait_cases:
  "flush_or_wait cfg n s = doFlush s \<or> flush_or_wait cfg n s = scheduleTimer s"
  by (simp add: flush_or_wait_def)

lemma scheduleTimer_cases: "scheduleTimer s = s \<and> (wq_timer s \<or> wq_stopped s) \<or> scheduleTimer s = s\<lparr>wq_timer := True\<rparr>"
  by (simp add: scheduleTimer_def)

text \<open>An append is a push of the item followed by a flush, an armed timer or nothing more.\<close>

fun push_item :: "wq_item \<Rightarrow> int \<Rightarrow> 'db write_queue \<Rightarrow> 'db write_queue" where
  "push_item (Telemetry_item r) cost s =
     s\<lparr>telemetryBuf := telemetryBuf s @ [r], bufferedBytes := bufferedBytes s + cost, gh_telemetry := gh_telemetry s @ [r]\<rparr>"
| "push_item (Payload_item p) cost s =
     s\<lparr>payloadBuf := payloadBuf s @ [p], bufferedBytes := bufferedBytes s + cost, gh_payload := gh_payload s @ [p]\<rparr>"
| "push_item (Session_item t n) cost s = push_task \<lparr>qt_task = t, qt_cost = cost, qt_session = True, qt_wake = False\<rparr> s"
| "push_item (Task_item t n w) cost s = push_task \<lparr>qt_task = t, qt_cost = cost, qt_session = False, qt_wake = w\<rparr> s"

fun is_row :: "wq_item \<Rightarrow> bool" where
  "is_row (Telemetry_item r) = True"
| "is_row (Payload_item p) = True"
| "is_row it = False"

lemma append_push:
  "is_row it \<Longrightarrow> \<exists>n. append_item cfg it cost s = flush_or_wait cfg n (push_item it cost s)"
  "\<not> is_row it \<Longrightarrow> append_item cfg it cost s = push_item it cost s"
  by (cases it; auto simp: Let_def)+

lemma push_timer [simp]:
  "wq_timer (push_item it cost s) = wq_timer s" "wq_stopped (push_item it cost s) = wq_stopped s"
  by (cases it; simp add: push_task_def)+

lemma append_cases:
  obtains "append_item cfg it cost s = doFlush (push_item it cost s)" "is_row it"
  | "append_item cfg it cost s = push_item it cost s" "is_row it" "wq_timer s \<or> wq_stopped s"
  | "append_item cfg it cost s = (push_item it cost s)\<lparr>wq_timer := True\<rparr>" "is_row it"
  | "append_item cfg it cost s = push_item it cost s" "\<not> is_row it"
proof (cases "is_row it")
  case True
  then obtain n where n: "append_item cfg it cost s = flush_or_wait cfg n (push_item it cost s)"
    using append_push(1) by blast
  from flush_or_wait_cases [of cfg n "push_item it cost s"] show ?thesis
  proof
    assume "flush_or_wait cfg n (push_item it cost s) = doFlush (push_item it cost s)"
    with n True that(1) show ?thesis by simp
  next
    assume "flush_or_wait cfg n (push_item it cost s) = scheduleTimer (push_item it cost s)"
    with n True that(2,3) scheduleTimer_cases [of "push_item it cost s"] show ?thesis by auto
  qed
next
  case False
  with append_push(2) that(4) show ?thesis by blast
qed

lemma push_fields [simp]:
  "waiters (push_item it cost s) = waiters s" "drain_calls (push_item it cost s) = drain_calls s"
  "pendingAdmissions (push_item it cost s) = pendingAdmissions s"
  "pendingAdmissionBytes (push_item it cost s) = pendingAdmissionBytes s"
  "wq_paused (push_item it cost s) = wq_paused s" "writeChain (push_item it cost s) = writeChain s"
  "depth (push_item it cost s) = Suc (depth s)" "held_bytes (push_item it cost s) = held_bytes s + cost"
  by (cases it; simp add: push_task_def depth_def held_bytes_def)+

lemma timer_fields [simp]:
  "depth (s\<lparr>wq_timer := b\<rparr>) = depth s" "held_bytes (s\<lparr>wq_timer := b\<rparr>) = held_bytes s"
  by (simp_all add: depth_def held_bytes_def)

lemma append_fields [simp]:
  "waiters (append_item cfg it cost s) = waiters s" "drain_calls (append_item cfg it cost s) = drain_calls s"
  "pendingAdmissions (append_item cfg it cost s) = pendingAdmissions s"
  "pendingAdmissionBytes (append_item cfg it cost s) = pendingAdmissionBytes s"
  "wq_stopped (append_item cfg it cost s) = wq_stopped s" "wq_paused (append_item cfg it cost s) = wq_paused s"
  "depth (append_item cfg it cost s) = Suc (depth s)" "held_bytes (append_item cfg it cost s) = held_bytes s + cost"
  by (rule append_cases [of cfg it cost s]; simp)+

lemma books_push: "books_ok s \<Longrightarrow> cost = item_cost cfg it \<Longrightarrow> config_ok cfg \<Longrightarrow> books_ok (push_item it cost s)"
  using item_cost_nonneg [of cfg it]
  by (cases it) (auto simp: books_ok_def push_task_def session_cost_def effect_cost_def)

lemma books_timer: "books_ok (s\<lparr>wq_timer := b\<rparr>) = books_ok s"
  by (simp add: books_ok_def)

lemma books_append:
  assumes "books_ok s" "config_ok cfg" "cost = item_cost cfg it"
  shows "books_ok (append_item cfg it cost s)"
proof -
  note b = books_push [OF assms(1,3,2)]
  show ?thesis
    by (rule append_cases [of cfg it cost s]) (simp_all add: b books_doFlush books_timer)
qed

lemma books_cong:
  assumes "telemetryBuf s' = telemetryBuf s" "payloadBuf s' = payloadBuf s" "bufferedBytes s' = bufferedBytes s"
    "inFlightBytes s' = inFlightBytes s" "inFlightDepth s' = inFlightDepth s" "writeChain s' = writeChain s"
    "taskChain s' = taskChain s" "pendingTasks s' = pendingTasks s" "pendingSessionBytes s' = pendingSessionBytes s"
    "pendingTaskBytes s' = pendingTaskBytes s"
  shows "books_ok s' = books_ok s"
  unfolding books_ok_def assms ..

subsection \<open>Bounds\<close>

text \<open>
  What is retained: at most the configured rows and bytes, or a single item that is larger by itself; and the
  waiting producers within their own two ceilings.
\<close>

definition waiters_ok :: "wq_config \<Rightarrow> 'db write_queue \<Rightarrow> bool" where
  "waiters_ok cfg s \<longleftrightarrow>
     pendingAdmissions s = length (waiters s) \<and>
     pendingAdmissionBytes s = sum_list (map wt_pendingCost (waiters s)) \<and>
     list_all (\<lambda>w. wt_cost w = item_cost cfg (wt_item w) \<and> wt_pendingCost w = min (wt_cost w) (maxPendingAdmissionBytes cfg)) (waiters s) \<and>
     pendingAdmissions s \<le> maxPendingAdmissions cfg \<and> pendingAdmissionBytes s \<le> maxPendingAdmissionBytes cfg"

definition within_budget :: "wq_config \<Rightarrow> 'db write_queue \<Rightarrow> bool" where
  "within_budget cfg s \<longleftrightarrow> depth s \<le> max 1 (maxDepth cfg) \<and> (held_bytes s \<le> maxBytes cfg \<or> depth s \<le> 1)"

definition wqueue_ok :: "wq_config \<Rightarrow> 'db write_queue \<Rightarrow> bool" where
  "wqueue_ok cfg s \<longleftrightarrow> books_ok s \<and> waiters_ok cfg s \<and> within_budget cfg s"

lemma waiters_ok_cong:
  "waiters s' = waiters s \<Longrightarrow> pendingAdmissions s' = pendingAdmissions s \<Longrightarrow>
   pendingAdmissionBytes s' = pendingAdmissionBytes s \<Longrightarrow> waiters_ok cfg s' = waiters_ok cfg s"
  by (simp add: waiters_ok_def)

lemma waiters_tick: "waiters s' = map (tick_waiter f g) (waiters s) \<Longrightarrow> pendingAdmissions s' = pendingAdmissions s \<Longrightarrow>
   pendingAdmissionBytes s' = pendingAdmissionBytes s \<Longrightarrow> waiters_ok cfg s' = waiters_ok cfg s"
  by (simp add: waiters_ok_def list_all_iff tick_waiter_def comp_def)

lemma within_cong: "depth s' = depth s \<Longrightarrow> held_bytes s' = held_bytes s \<Longrightarrow> within_budget cfg s' = within_budget cfg s"
  by (simp add: within_budget_def)

lemma within_less:
  "within_budget cfg s \<Longrightarrow> depth s' \<le> depth s \<Longrightarrow> held_bytes s' \<le> held_bytes s \<Longrightarrow> within_budget cfg s'"
  by (auto simp: within_budget_def)

lemma within_append:
  assumes "within_budget cfg s" "0 \<le> cost" "\<not> overBudget cfg s cost \<or> depth s = 0"
    "depth s' = Suc (depth s)" "held_bytes s' = held_bytes s + cost"
  shows "within_budget cfg s'"
  using assms by (auto simp: within_budget_def overBudget_def)

lemma wqueue_ok_doFlush: "wqueue_ok cfg s \<Longrightarrow> wqueue_ok cfg (doFlush s)"
  by (simp add: wqueue_ok_def books_doFlush waiters_ok_cong [of "doFlush s" s] within_cong [of "doFlush s" s])

lemma wqueue_ok_append:
  assumes "wqueue_ok cfg s" "config_ok cfg" "cost = item_cost cfg it" "\<not> overBudget cfg s cost \<or> depth s = 0"
  shows "wqueue_ok cfg (append_item cfg it cost s)"
proof -
  have "within_budget cfg (append_item cfg it cost s)"
    by (rule within_append [of cfg s cost])
      (use assms item_cost_nonneg [OF assms(2), of it] in \<open>simp_all add: wqueue_ok_def\<close>)
  moreover have "books_ok (append_item cfg it cost s)"
    using assms books_append unfolding wqueue_ok_def by blast
  moreover have "waiters_ok cfg (append_item cfg it cost s)"
    using assms(1) by (subst waiters_ok_cong [of _ s]) (simp_all add: wqueue_ok_def)
  ultimately show ?thesis by (simp add: wqueue_ok_def)
qed

lemma wqueue_ok_other:
  "wqueue_ok cfg (s\<lparr>wq_log := l\<rparr>) = wqueue_ok cfg s" "wqueue_ok cfg (s\<lparr>drain_calls := c\<rparr>) = wqueue_ok cfg s"
  "wqueue_ok cfg (s\<lparr>wq_paused := b\<rparr>) = wqueue_ok cfg s" "wqueue_ok cfg (s\<lparr>wq_stopped := b\<rparr>) = wqueue_ok cfg s"
  "wqueue_ok cfg (s\<lparr>wq_timer := b\<rparr>) = wqueue_ok cfg s"
  by (simp_all add: wqueue_ok_def books_cong [of "s\<lparr>wq_log := l\<rparr>" s] books_cong [of "s\<lparr>drain_calls := c\<rparr>" s]
      books_cong [of "s\<lparr>wq_paused := b\<rparr>" s] books_cong [of "s\<lparr>wq_stopped := b\<rparr>" s] books_cong [of "s\<lparr>wq_timer := b\<rparr>" s]
      waiters_ok_def within_budget_def depth_def held_bytes_def)

lemma wqueue_ok_enqueue:
  assumes "wqueue_ok cfg s" "config_ok cfg"
  shows "wqueue_ok cfg (enqueue cfg it s)"
proof -
  let ?c = "item_cost cfg it" and ?m = "maxPendingAdmissionBytes cfg"
  have w: "wqueue_ok cfg (s\<lparr>waiters := waiters s @ [\<lparr>wt_item = it, wt_cost = ?c, wt_pendingCost = min ?c ?m, wt_awaits = None\<rparr>],
      pendingAdmissions := pendingAdmissions s + 1, pendingAdmissionBytes := pendingAdmissionBytes s + min ?c ?m\<rparr>)"
    (is "wqueue_ok cfg ?s")
    if "pendingAdmissions s < maxPendingAdmissions cfg" "pendingAdmissionBytes s + min ?c ?m \<le> ?m"
  proof -
    have "books_ok ?s" using assms(1) by (subst books_cong [of ?s s]) (simp_all add: wqueue_ok_def)
    moreover have "within_budget cfg ?s"
      using assms(1) by (subst within_cong [of ?s s]) (simp_all add: wqueue_ok_def depth_def held_bytes_def)
    moreover have "waiters_ok cfg ?s" using assms(1) that by (simp add: wqueue_ok_def waiters_ok_def)
    ultimately show ?thesis by (simp add: wqueue_ok_def)
  qed
  show ?thesis
    using assms(1) w wqueue_ok_append [OF assms refl, of it]
    by (simp add: enqueue_def admit_def Let_def wqueue_ok_other not_le not_less)
qed

lemma wqueue_ok_batch: "wqueue_ok cfg s \<Longrightarrow> wqueue_ok cfg (batch_settles st cur s)"
proof (cases "writeChain s")
  case (Cons b bs)
  assume ok: "wqueue_ok cfg s"
  let ?s = "batch_settles st cur s"
  have f: "waiters ?s = map (tick_waiter one_less id) (waiters s)" "pendingAdmissions ?s = pendingAdmissions s"
    "pendingAdmissionBytes ?s = pendingAdmissionBytes s" "writeChain ?s = bs" "telemetryBuf ?s = telemetryBuf s"
    "payloadBuf ?s = payloadBuf s" "bufferedBytes ?s = bufferedBytes s" "taskChain ?s = taskChain s"
    "inFlightBytes ?s = inFlightBytes s - flushedBytes b" "inFlightDepth ?s = inFlightDepth s - flushedDepth b"
    "pendingTasks ?s = pendingTasks s" "pendingSessionBytes ?s = pendingSessionBytes s" "pendingTaskBytes ?s = pendingTaskBytes s"
    using Cons by (simp_all add: batch_settles_def split: prod.split)
  have bo: "books_ok s" using ok by (simp add: wqueue_ok_def)
  then have b: "books_ok ?s" using Cons by (simp add: books_ok_def f)
  have "0 \<le> flushedBytes b" using bo Cons by (simp add: books_ok_def batch_ok_def)
  then have "depth ?s \<le> depth s" "held_bytes ?s \<le> held_bytes s"
    unfolding depth_def held_bytes_def f by linarith+
  then have "within_budget cfg ?s"
    using ok within_less [of cfg s ?s] unfolding wqueue_ok_def by blast
  with b ok waiters_tick [OF f(1-3), of cfg] show ?thesis unfolding wqueue_ok_def by blast
qed (simp add: batch_settles_def)

lemma wqueue_ok_task: "wqueue_ok cfg s \<Longrightarrow> wqueue_ok cfg (task_settles e h s)"
proof (cases "taskChain s")
  case (Cons t ts)
  assume ok: "wqueue_ok cfg s"
  let ?s = "task_settles e h s"
  have f: "waiters ?s = map (tick_waiter id one_less) (waiters s)" "pendingAdmissions ?s = pendingAdmissions s"
    "pendingAdmissionBytes ?s = pendingAdmissionBytes s" "writeChain ?s = writeChain s" "telemetryBuf ?s = telemetryBuf s"
    "payloadBuf ?s = payloadBuf s" "bufferedBytes ?s = bufferedBytes s" "taskChain ?s = ts"
    "inFlightBytes ?s = inFlightBytes s" "inFlightDepth ?s = inFlightDepth s" "pendingTasks ?s = pendingTasks s - 1"
    "pendingSessionBytes ?s = pendingSessionBytes s - session_cost t" "pendingTaskBytes ?s = pendingTaskBytes s - effect_cost t"
    using Cons by (simp_all add: task_settles_def session_cost_def effect_cost_def)
  have bo: "books_ok s" using ok by (simp add: wqueue_ok_def)
  then have b: "books_ok ?s" using Cons by (simp add: books_ok_def f)
  have "0 \<le> session_cost t" "0 \<le> effect_cost t"
    using bo Cons by (simp_all add: books_ok_def session_cost_def effect_cost_def)
  then have "depth ?s \<le> depth s" "held_bytes ?s \<le> held_bytes s"
    unfolding depth_def held_bytes_def f by linarith+
  then have "within_budget cfg ?s"
    using ok within_less [of cfg s ?s] unfolding wqueue_ok_def by blast
  with b ok waiters_tick [OF f(1-3), of cfg] show ?thesis unfolding wqueue_ok_def by blast
qed (simp add: task_settles_def)

lemma waiter_turn_cases:
  obtains "waiter_turn cfg s = s"
  | w ws where "waiters s = w # ws" "waiter_ready w" "overBudget cfg s (wt_cost w)" "0 < depth s"
      "waiter_turn cfg s = (doFlush s)\<lparr>waiters := w\<lparr>wt_awaits := Some (length (writeChain (doFlush s)), length (taskChain s))\<rparr> # ws\<rparr>"
  | w ws s' where "waiters s = w # ws" "waiter_ready w" "\<not> overBudget cfg s (wt_cost w) \<or> depth s = 0"
      "s' = append_item cfg (wt_item w) (wt_cost w) s"
      "waiter_turn cfg s = s'\<lparr>waiters := ws, pendingAdmissions := pendingAdmissions s - 1,
         pendingAdmissionBytes := pendingAdmissionBytes s - wt_pendingCost w,
         drain_calls := map (tick_call one_less id id) (drain_calls s)\<rparr>"
proof (cases "waiters s")
  case Nil
  then show ?thesis using that(1) by (simp add: waiter_turn_def)
next
  case (Cons w ws)
  consider "\<not> waiter_ready w" | "waiter_ready w" "overBudget cfg s (wt_cost w)" "0 < depth s"
    | "waiter_ready w" "\<not> overBudget cfg s (wt_cost w) \<or> depth s = 0" by blast
  then show ?thesis
  proof cases
    case 1
    with Cons that(1) show ?thesis by (simp add: waiter_turn_def)
  next
    case 2
    with Cons that(2) show ?thesis by (simp add: waiter_turn_def Let_def)
  next
    case 3
    show ?thesis by (rule that(3) [OF Cons 3 refl]) (use Cons 3 in \<open>auto simp: waiter_turn_def Let_def\<close>)
  qed
qed

lemma wqueue_ok_waiter:
  assumes "wqueue_ok cfg s" "config_ok cfg"
  shows "wqueue_ok cfg (waiter_turn cfg s)"
proof (rule waiter_turn_cases [of cfg s])
  fix w ws
  assume w: "waiters s = w # ws"
    and t: "waiter_turn cfg s = (doFlush s)\<lparr>waiters := w\<lparr>wt_awaits := Some (length (writeChain (doFlush s)), length (taskChain s))\<rparr> # ws\<rparr>"
  have f: "wqueue_ok cfg (doFlush s)" by (rule wqueue_ok_doFlush [OF assms(1)])
  have "books_ok (waiter_turn cfg s) = books_ok (doFlush s)" unfolding t by (rule books_cong) simp_all
  moreover have "within_budget cfg (waiter_turn cfg s) = within_budget cfg (doFlush s)"
    unfolding t by (rule within_cong) (simp_all add: depth_def held_bytes_def)
  moreover have "waiters_ok cfg (waiter_turn cfg s)"
    using assms(1) w unfolding t by (auto simp: wqueue_ok_def waiters_ok_def)
  ultimately show ?thesis using f by (simp add: wqueue_ok_def)
next
  fix w ws s'
  assume w: "waiters s = w # ws" "\<not> overBudget cfg s (wt_cost w) \<or> depth s = 0"
    and s': "s' = append_item cfg (wt_item w) (wt_cost w) s"
    and t: "waiter_turn cfg s = s'\<lparr>waiters := ws, pendingAdmissions := pendingAdmissions s - 1,
         pendingAdmissionBytes := pendingAdmissionBytes s - wt_pendingCost w,
         drain_calls := map (tick_call one_less id id) (drain_calls s)\<rparr>"
  have c: "wt_cost w = item_cost cfg (wt_item w)" and p: "wt_pendingCost w = min (wt_cost w) (maxPendingAdmissionBytes cfg)"
    using assms(1) w(1) by (simp_all add: wqueue_ok_def waiters_ok_def)
  have ok: "wqueue_ok cfg s'" unfolding s' by (rule wqueue_ok_append [OF assms c w(2)])
  have "0 \<le> wt_pendingCost w" using item_cost_nonneg [OF assms(2)] assms(2) by (simp add: c p config_ok_def)
  then have "waiters_ok cfg (waiter_turn cfg s)"
    using assms(1) w(1) unfolding t by (auto simp: wqueue_ok_def waiters_ok_def)
  moreover have "books_ok (waiter_turn cfg s) = books_ok s'" unfolding t by (rule books_cong) simp_all
  moreover have "within_budget cfg (waiter_turn cfg s) = within_budget cfg s'"
    unfolding t by (rule within_cong) (simp_all add: depth_def held_bytes_def)
  ultimately show ?thesis using ok by (simp add: wqueue_ok_def)
qed (use assms in simp)

lemma wqueue_ok_drain: "wqueue_ok cfg s \<Longrightarrow> wqueue_ok cfg (drain_turn i s)"
  by (auto simp: drain_turn_def set_phase_def Let_def wqueue_ok_other wqueue_ok_doFlush split: drain_phase.split)

lemma wqueue_ok_start: "wqueue_ok cfg s \<Longrightarrow> wqueue_ok cfg (start_drain k s)"
  by (cases k) (simp_all add: start_drain_def Let_def wqueue_ok_other)

lemma wqueue_ok_resume: "wqueue_ok cfg s \<Longrightarrow> wqueue_ok cfg (resume s)"
  by (simp add: resume_def wqueue_ok_other)

lemma wqueue_ok_step: "wqueue_ok cfg s \<Longrightarrow> config_ok cfg \<Longrightarrow> wqueue_ok cfg (wq_step cfg st s e)"
  by (cases e)
    (simp_all add: wqueue_ok_enqueue wqueue_ok_batch wqueue_ok_task wqueue_ok_waiter wqueue_ok_drain wqueue_ok_start
      wqueue_ok_resume timer_fires_def wqueue_ok_doFlush)

lemma wqueue_ok_init: "config_ok cfg \<Longrightarrow> wqueue_ok cfg (createWriteQueue db)"
  by (simp add: wqueue_ok_def createWriteQueue_def books_ok_def waiters_ok_def within_budget_def depth_def held_bytes_def config_ok_def)

subsection \<open>What has reached the store\<close>

text \<open>
  \<open>stored st outdated db ts ps nt np db'\<close>: the store came from \<open>db\<close> to \<open>db'\<close> by inserts of its own that covered exactly the
  telemetry rows \<open>ts\<close> and the payloads \<open>ps\<close>, each kind in order: every row was part of a batch insert that
  succeeded, or was inserted by itself, or the store refused it by itself (\<open>nt\<close> rows and \<open>np\<close> payloads were),
  or it is a guarded payload that was no longer current.
\<close>

inductive stored ::
  "'db wq_store \<Rightarrow> payload_row set \<Rightarrow> 'db \<Rightarrow> telemetry_row list \<Rightarrow> payload_row list \<Rightarrow> nat \<Rightarrow> nat \<Rightarrow> 'db \<Rightarrow> bool"
  for st outdated db where
  stored_nothing: "stored st outdated db [] [] 0 0 db"
| stored_batch:
    "stored st outdated db ts ps nt np d \<Longrightarrow> st_insertMany st = Some f \<Longrightarrow> f d rs = Some d' \<Longrightarrow> stored st outdated db (ts @ rs) ps nt np d'"
| stored_row: "stored st outdated db ts ps nt np d \<Longrightarrow> st_insert st d r = Some d' \<Longrightarrow> stored st outdated db (ts @ [r]) ps nt np d'"
| refused_row: "stored st outdated db ts ps nt np d \<Longrightarrow> st_insert st d r = None \<Longrightarrow> stored st outdated db (ts @ [r]) ps (Suc nt) np d"
| stored_payloads:
    "stored st outdated db ts ps nt np d \<Longrightarrow> st_insertPayloads st = Some f \<Longrightarrow> f d (filter P rs) = Some d' \<Longrightarrow>
     list_all (\<lambda>p. P p \<or> pr_guarded p \<and> p \<in> outdated) rs \<Longrightarrow> stored st outdated db ts (ps @ rs) nt np d'"
| stored_payload: "stored st outdated db ts ps nt np d \<Longrightarrow> st_insertPayload st d p = Some d' \<Longrightarrow> stored st outdated db ts (ps @ [p]) nt np d'"
| refused_payload: "stored st outdated db ts ps nt np d \<Longrightarrow> st_insertPayload st d p = None \<Longrightarrow> stored st outdated db ts (ps @ [p]) nt (Suc np) d"
| stale_payload: "stored st outdated db ts ps nt np d \<Longrightarrow> pr_guarded p \<Longrightarrow> p \<in> outdated \<Longrightarrow> stored st outdated db ts (ps @ [p]) nt np d"

lemma stored_telemetry_rows:
  assumes "stored st outdated db ts ps nt np d"
  shows "stored st outdated db (ts @ rs) ps (nt + length (snd (insert_each (st_insert st) l d rs))) np
           (fst (insert_each (st_insert st) l d rs))"
  using assms
proof (induction rs arbitrary: ts nt d)
  case (Cons r rs)
  show ?case
  proof (cases "st_insert st d r")
    case None
    then show ?thesis using Cons.IH [OF refused_row [OF Cons.prems None]] by (simp add: case_prod_unfold)
  next
    case (Some d')
    then show ?thesis using Cons.IH [OF stored_row [OF Cons.prems Some]] by simp
  qed
qed simp

lemma stored_payload_rows:
  assumes "stored st outdated db ts ps nt np d" and "list_all (\<lambda>p. P p \<or> pr_guarded p \<and> p \<in> outdated) rs"
  shows "stored st outdated db ts (ps @ rs) nt (np + length (snd (insert_each (st_insertPayload st) l d (filter P rs))))
           (fst (insert_each (st_insertPayload st) l d (filter P rs)))"
  using assms
proof (induction rs arbitrary: ps np d)
  case (Cons r rs)
  consider (stale) "\<not> P r" "pr_guarded r" "r \<in> outdated" | (refused) "P r" "st_insertPayload st d r = None"
    | (kept) d' where "P r" "st_insertPayload st d r = Some d'"
    using Cons.prems(2) by (cases "st_insertPayload st d r") auto
  then show ?case
  proof cases
    case stale
    then show ?thesis using Cons.IH [OF stale_payload [OF Cons.prems(1) stale(2,3)]] Cons.prems(2) by simp
  next
    case refused
    then show ?thesis using Cons.IH [OF refused_payload [OF Cons.prems(1) refused(2)]] Cons.prems(2) by (simp add: case_prod_unfold)
  next
    case kept
    then show ?thesis using Cons.IH [OF stored_payload [OF Cons.prems(1) kept(2)]] Cons.prems(2) by simp
  qed
qed simp

lemma insert_each_log: "set (snd (insert_each ins l d rs)) \<subseteq> {l}"
  by (induction rs arbitrary: d) (simp_all add: case_prod_unfold split: option.split)

text \<open>The log lines of the refused rows, which are the only trace a refused row leaves.\<close>

definition refusals :: "'db write_queue \<Rightarrow> nat \<times> nat" where
  "refusals s = (count_list (wq_log s) ''writequeue.telemetry_insert_failed'',
                 count_list (wq_log s) ''writequeue.payload_insert_failed'')"

lemma count_only:
  assumes "set xs \<subseteq> {l}"
  shows "count_list xs l = length xs" and "k \<noteq> l \<Longrightarrow> count_list xs k = 0"
  using assms by (induction xs) auto

lemma stored_writeTelemetry:
  assumes "stored st outdated db ts ps nt np d"
  shows "stored st outdated db (ts @ rs) ps (nt + count_list (snd (writeTelemetry st d rs)) ''writequeue.telemetry_insert_failed'') np
           (fst (writeTelemetry st d rs)) \<and>
         count_list (snd (writeTelemetry st d rs)) ''writequeue.payload_insert_failed'' = 0"
proof -
  let ?l = "''writequeue.telemetry_insert_failed''"
  have e: "count_list (snd (insert_each (st_insert st) ?l d rs)) ?l = length (snd (insert_each (st_insert st) ?l d rs))"
    "count_list (snd (insert_each (st_insert st) ?l d rs)) ''writequeue.payload_insert_failed'' = 0"
    by (rule count_only [OF insert_each_log], simp?)+
  note r = stored_telemetry_rows [OF assms, of rs ?l]
  show ?thesis
  proof (cases "rs = []")
    case False
    then show ?thesis
      using r e assms
      by (auto simp: writeTelemetry_def insert_batch_def case_prod_unfold intro: stored_batch split: option.split)
  qed (use assms in \<open>simp add: writeTelemetry_def insert_batch_def\<close>)
qed

lemma stored_writePayloads:
  assumes "stored st outdated db ts ps nt np d" and "\<forall>p. cur p \<or> p \<in> outdated"
  shows "stored st outdated db ts (ps @ rs) nt (np + count_list (snd (writePayloads st cur d rs)) ''writequeue.payload_insert_failed'')
           (fst (writePayloads st cur d rs)) \<and>
         count_list (snd (writePayloads st cur d rs)) ''writequeue.telemetry_insert_failed'' = 0"
proof -
  let ?l = "''writequeue.payload_insert_failed''" and ?P = "\<lambda>p. pr_guarded p \<longrightarrow> cur p"
  let ?e = "insert_each (st_insertPayload st) ?l d (filter ?P rs)"
  have e: "count_list (snd ?e) ?l = length (snd ?e)" "count_list (snd ?e) ''writequeue.telemetry_insert_failed'' = 0"
    by (rule count_only [OF insert_each_log], simp?)+
  have g: "list_all (\<lambda>p. ?P p \<or> pr_guarded p \<and> p \<in> outdated) rs" using assms(2) by (auto simp: list_all_iff)
  note r = stored_payload_rows [OF assms(1) g, of ?l]
  show ?thesis
  proof (cases "filter ?P rs = []")
    case True
    with r show ?thesis by (simp add: writePayloads_def insert_batch_def)
  next
    case False
    then show ?thesis
      using r e assms(1) g
      by (auto simp: writePayloads_def insert_batch_def case_prod_unfold intro: stored_payloads split: option.split)
  qed
qed

subsection \<open>Nothing is lost and nothing is reordered\<close>

definition order_ok :: "'db wq_store \<Rightarrow> payload_row set \<Rightarrow> 'db \<Rightarrow> 'db write_queue \<Rightarrow> bool" where
  "order_ok st outdated db s \<longleftrightarrow>
     (\<exists>ts ps. stored st outdated db ts ps (fst (refusals s)) (snd (refusals s)) (wq_db s) \<and>
        gh_telemetry s = ts @ concat (map bt_telemetry (writeChain s)) @ telemetryBuf s \<and>
        gh_payload s = ps @ concat (map bt_payload (writeChain s)) @ payloadBuf s) \<and>
     gh_tasks s = gh_settled s @ map qt_task (taskChain s)"

lemma order_cong:
  assumes "order_ok st outdated db s" and "gh_telemetry s' = gh_telemetry s @ t" "gh_payload s' = gh_payload s @ p"
    "gh_tasks s' = gh_tasks s @ k" "gh_settled s' = gh_settled s" "wq_db s' = wq_db s"
    "refusals s' = refusals s"
    "concat (map bt_telemetry (writeChain s')) @ telemetryBuf s' = concat (map bt_telemetry (writeChain s)) @ telemetryBuf s @ t"
    "concat (map bt_payload (writeChain s')) @ payloadBuf s' = concat (map bt_payload (writeChain s)) @ payloadBuf s @ p"
    "map qt_task (taskChain s') = map qt_task (taskChain s) @ k"
  shows "order_ok st outdated db s'"
  using assms by (auto simp: order_ok_def)

lemma refusals_doFlush [simp]: "refusals (doFlush s) = refusals s"
  by (simp add: refusals_def doFlush_def Let_def)

lemma order_doFlush: "order_ok st outdated db s \<Longrightarrow> order_ok st outdated db (doFlush s)"
  by (erule order_cong [where t = "[]" and p = "[]" and k = "[]"]) (simp_all add: doFlush_chain)

lemma order_push: "order_ok st outdated db s \<Longrightarrow> order_ok st outdated db (push_item it cost s)"
  by (cases it) (auto simp: order_ok_def push_task_def refusals_def)

lemma order_other:
  "order_ok st outdated db (s\<lparr>drain_calls := c\<rparr>) = order_ok st outdated db s"
  "order_ok st outdated db (s\<lparr>wq_paused := b\<rparr>) = order_ok st outdated db s" "order_ok st outdated db (s\<lparr>wq_stopped := b\<rparr>) = order_ok st outdated db s"
  "order_ok st outdated db (s\<lparr>wq_timer := b\<rparr>) = order_ok st outdated db s" "order_ok st outdated db (s\<lparr>waiters := w\<rparr>) = order_ok st outdated db s"
  "order_ok st outdated db (s\<lparr>pendingAdmissions := n\<rparr>) = order_ok st outdated db s"
  "order_ok st outdated db (s\<lparr>pendingAdmissionBytes := m\<rparr>) = order_ok st outdated db s"
  by (simp_all add: order_ok_def refusals_def)

lemma order_log:
  "order_ok st outdated db s \<Longrightarrow> list_all (\<lambda>x. x \<noteq> ''writequeue.telemetry_insert_failed'' \<and> x \<noteq> ''writequeue.payload_insert_failed'') l \<Longrightarrow>
   order_ok st outdated db (s\<lparr>wq_log := wq_log s @ l\<rparr>)"
  by (induction l rule: rev_induct) (simp_all add: order_ok_def refusals_def)

lemma order_append: "order_ok st outdated db s \<Longrightarrow> order_ok st outdated db (append_item cfg it cost s)"
  by (rule append_cases [of cfg it cost s]) (simp_all add: order_push order_doFlush order_other)

lemma order_batch:
  assumes "order_ok st outdated db s" and "\<forall>p. cur p \<or> p \<in> outdated"
  shows "order_ok st outdated db (batch_settles st cur s)"
proof (cases "writeChain s")
  case (Cons b bs)
  obtain ts ps where w: "stored st outdated db ts ps (fst (refusals s)) (snd (refusals s)) (wq_db s)"
    and g: "gh_telemetry s = ts @ concat (map bt_telemetry (writeChain s)) @ telemetryBuf s"
      "gh_payload s = ps @ concat (map bt_payload (writeChain s)) @ payloadBuf s"
    using assms(1) by (auto simp: order_ok_def)
  note t = stored_writeTelemetry [OF w, of "bt_telemetry b"]
  note p = stored_writePayloads [OF t [THEN conjunct1] assms(2), of "bt_payload b"]
  have g': "gh_telemetry s = (ts @ bt_telemetry b) @ concat (map bt_telemetry bs) @ telemetryBuf s"
    "gh_payload s = (ps @ bt_payload b) @ concat (map bt_payload bs) @ payloadBuf s"
    using g Cons by simp_all
  have r: "refusals (batch_settles st cur s) =
      (fst (refusals s) + count_list (snd (writeTelemetry st (wq_db s) (bt_telemetry b))) ''writequeue.telemetry_insert_failed'',
       snd (refusals s) + count_list (snd (writePayloads st cur (fst (writeTelemetry st (wq_db s) (bt_telemetry b))) (bt_payload b)))
         ''writequeue.payload_insert_failed'')"
    using t p Cons by (simp add: refusals_def batch_settles_def case_prod_unfold)
  show ?thesis
    unfolding order_ok_def r
    using p g' Cons assms
    by (intro conjI exI [of _ "ts @ bt_telemetry b"] exI [of _ "ps @ bt_payload b"])
      (simp_all add: batch_settles_def case_prod_unfold order_ok_def)
qed (use assms in \<open>simp add: batch_settles_def\<close>)

lemma order_task:
  assumes "order_ok st outdated db s"
  shows "order_ok st outdated db (task_settles threw hook s)"
proof (cases "taskChain s")
  case (Cons t ts)
  let ?l = "(if threw then [if qt_session t then ''writequeue.session_failed'' else ''writequeue.task_failed''] else [])
              @ (if qt_wake t \<and> hook then [''writequeue.on_task_drain_failed''] else [])"
  have "order_ok st outdated db (s\<lparr>wq_log := wq_log s @ ?l\<rparr>)" by (rule order_log [OF assms]) simp
  with Cons show ?thesis by (simp add: task_settles_def order_ok_def refusals_def)
qed (use assms in \<open>simp add: task_settles_def\<close>)

text \<open>The payloads whose \<open>isCurrent\<close> answered false.\<close>

fun found_stale :: "wq_event \<Rightarrow> payload_row set" where
  "found_stale (Batch_settles stale) = set stale"
| "found_stale e = {}"

lemma order_step:
  assumes "order_ok st outdated db s" and "found_stale e \<subseteq> outdated"
  shows "order_ok st outdated db (wq_step cfg st s e)"
proof (cases e)
  case (Enqueue it)
  with assms show ?thesis by (simp add: enqueue_def admit_def Let_def order_other order_append order_log)
next
  case (Batch_settles stale)
  with assms have "order_ok st outdated db (batch_settles st (\<lambda>p. p \<notin> set stale) s)" by (intro order_batch) auto
  with Batch_settles show ?thesis by simp
next
  case Waiter_turn
  have "order_ok st outdated db (waiter_turn cfg s)"
    by (rule waiter_turn_cases [of cfg s]) (simp_all add: assms order_other order_append order_doFlush)
  with Waiter_turn show ?thesis by simp
next
  case (Start_drain k)
  with assms show ?thesis by (cases k) (simp_all add: start_drain_def Let_def order_other)
next
  case (Drain_turn i)
  with assms show ?thesis
    by (auto simp: drain_turn_def set_phase_def Let_def order_other order_doFlush split: drain_phase.split)
qed (use assms in \<open>simp_all add: timer_fires_def order_doFlush resume_def order_other order_task\<close>)

subsection \<open>Waiting and draining\<close>

definition rows_idle :: "'db write_queue \<Rightarrow> bool" where
  "rows_idle s \<longleftrightarrow> telemetryBuf s = [] \<and> payloadBuf s = []"

text \<open>Only the first waiting producer awaits chain entries: all that the chains hold, with the buffers empty.\<close>

definition awaits_fine :: "bool \<Rightarrow> nat \<Rightarrow> nat \<Rightarrow> wq_waiter list \<Rightarrow> bool" where
  "awaits_fine idle nb nt ws =
     (case ws of
        [] \<Rightarrow> True
      | w # r \<Rightarrow> list_all (\<lambda>w. wt_awaits w = None) r \<and> (wt_awaits w = None \<or> wt_awaits w = Some (nb, nt) \<and> idle))"

definition wait_ok :: "'db write_queue \<Rightarrow> bool" where
  "wait_ok s = awaits_fine (rows_idle s) (length (writeChain s)) (length (taskChain s)) (waiters s)"

text \<open>A barrier is a stop, or a pause that was not resumed meanwhile.\<close>

definition barrier :: "drain_call \<Rightarrow> bool" where
  "barrier c \<longleftrightarrow> dc_kind c = Stop_call \<or> dc_kind c = Pause_call \<and> \<not> dc_void c"

definition phase_fine :: "bool \<Rightarrow> nat \<Rightarrow> bool \<Rightarrow> nat \<Rightarrow> nat \<Rightarrow> drain_phase \<Rightarrow> bool" where
  "phase_fine barr nw idle nb nt ph =
     (case ph of
        Await_admissions n \<Rightarrow> n \<le> nw \<and> (barr \<longrightarrow> n = nw)
      | Await_flush n \<Rightarrow> n \<le> nb \<and> (barr \<longrightarrow> nw = 0 \<and> idle \<and> n = nb)
      | Await_writes n \<Rightarrow> n \<le> nb \<and> (barr \<longrightarrow> nw = 0 \<and> idle \<and> n = nb)
      | Await_tasks n \<Rightarrow> n \<le> nt \<and> (barr \<longrightarrow> nw = 0 \<and> idle \<and> nb = 0 \<and> n = nt)
      | Drained \<Rightarrow> barr \<longrightarrow> nw = 0 \<and> idle \<and> nb = 0 \<and> nt = 0)"

definition gate_fine :: "bool \<Rightarrow> bool \<Rightarrow> drain_call \<Rightarrow> bool" where
  "gate_fine stopped paused c \<longleftrightarrow>
     (dc_kind c = Stop_call \<longrightarrow> stopped) \<and> (dc_kind c = Pause_call \<and> \<not> dc_void c \<longrightarrow> paused)"

definition call_fine :: "'db write_queue \<Rightarrow> drain_call \<Rightarrow> bool" where
  "call_fine s c \<longleftrightarrow>
     gate_fine (wq_stopped s) (wq_paused s) c \<and>
     phase_fine (barrier c) (length (waiters s)) (rows_idle s) (length (writeChain s)) (length (taskChain s)) (dc_phase c)"

definition drain_ok :: "'db write_queue \<Rightarrow> bool" where
  "drain_ok s \<longleftrightarrow> list_all (call_fine s) (drain_calls s)"

fun at_admissions :: "drain_phase \<Rightarrow> bool" where
  "at_admissions (Await_admissions n) = True"
| "at_admissions ph = False"

text \<open>Buffered rows are never stranded: the timer is armed, or a draining call will flush them.\<close>

definition live_ok :: "'db write_queue \<Rightarrow> bool" where
  "live_ok s \<longleftrightarrow>
     (rows_idle s \<or> wq_timer s \<or> list_ex (\<lambda>c. at_admissions (dc_phase c)) (drain_calls s)) \<and>
     (wq_stopped s \<longrightarrow> list_ex (\<lambda>c. dc_kind c = Stop_call) (drain_calls s))"

lemma idle_doFlush [simp]: "rows_idle (doFlush s)"
  by (simp add: rows_idle_def)

lemma idle_chain: "rows_idle s \<Longrightarrow> writeChain (doFlush s) = writeChain s"
  by (simp add: rows_idle_def doFlush_chain)

lemma chain_grows: "length (writeChain s) \<le> length (writeChain (doFlush s))"
  by (simp add: doFlush_chain)

lemma append_grows [simp]:
  "length (writeChain s) \<le> length (writeChain (append_item cfg it cost s))"
  "length (taskChain s) \<le> length (taskChain (append_item cfg it cost s))"
proof -
  have t: "length (taskChain s) \<le> length (taskChain (push_item it cost s))" by (cases it) (simp_all add: push_task_def)
  show "length (writeChain s) \<le> length (writeChain (append_item cfg it cost s))"
    by (rule append_cases [of cfg it cost s]) (use chain_grows [of "push_item it cost s"] in simp_all)
  show "length (taskChain s) \<le> length (taskChain (append_item cfg it cost s))"
    by (rule append_cases [of cfg it cost s]) (use t in simp_all)
qed

lemma phase_fine_idle:
  "phase_fine b nw idle nb nt ph \<Longrightarrow> (idle \<longrightarrow> nb' = nb) \<Longrightarrow> nb \<le> nb' \<Longrightarrow> phase_fine b nw True nb' nt ph"
  by (cases ph) (auto simp: phase_fine_def)

lemma phase_fine_append:
  assumes "phase_fine b (Suc nw) idle nb nt ph" "nb \<le> nb'" "nt \<le> nt'"
  shows "phase_fine b nw idle' nb' nt' (tick_phase one_less id id ph)"
  using assms by (cases ph) (auto simp: phase_fine_def tick_phase_def one_less_def)

lemma phase_fine_free: "\<not> b \<Longrightarrow> phase_fine b nw idle nb nt ph \<Longrightarrow> nw \<le> nw' \<Longrightarrow> nb \<le> nb' \<Longrightarrow> nt \<le> nt' \<Longrightarrow>
   phase_fine b nw' idle' nb' nt' ph"
  by (cases ph) (auto simp: phase_fine_def)

lemma phase_fine_batch:
  "phase_fine b nw idle (Suc nb) nt ph \<Longrightarrow> phase_fine b nw idle nb nt (tick_phase id one_less id ph)"
  by (cases ph) (auto simp: phase_fine_def tick_phase_def one_less_def)

lemma phase_fine_task:
  "phase_fine b nw idle nb (Suc nt) ph \<Longrightarrow> phase_fine b nw idle nb nt (tick_phase id id one_less ph)"
  by (cases ph) (auto simp: phase_fine_def tick_phase_def one_less_def)

lemma tick_call_fields [simp]:
  "dc_kind (tick_call f g h c) = dc_kind c" "dc_void (tick_call f g h c) = dc_void c"
  "dc_phase (tick_call f g h c) = tick_phase f g h (dc_phase c)" "barrier (tick_call f g h c) = barrier c"
  "gate_fine a b (tick_call f g h c) = gate_fine a b c"
  by (simp_all add: tick_call_def barrier_def gate_fine_def)

lemma at_admissions_tick [simp]: "at_admissions (tick_phase f g h ph) = at_admissions ph"
  by (cases ph) (simp_all add: tick_phase_def)

lemma list_ex_map: "list_ex P (map f xs) = list_ex (\<lambda>x. P (f x)) xs"
  by (induction xs) simp_all

definition turns_ok :: "'db write_queue \<Rightarrow> bool" where
  "turns_ok s \<longleftrightarrow> wait_ok s \<and> drain_ok s \<and> live_ok s"

lemma turns_doFlush:
  assumes "turns_ok s"
  shows "turns_ok (doFlush s)"
proof -
  have c: "rows_idle s \<longrightarrow> length (writeChain (doFlush s)) = length (writeChain s)" using idle_chain by metis
  have "wait_ok (doFlush s)"
    using assms idle_chain [of s] by (auto simp: turns_ok_def wait_ok_def awaits_fine_def split: list.splits)
  moreover have "drain_ok (doFlush s)"
    using assms phase_fine_idle [OF _ c chain_grows] by (auto simp: turns_ok_def drain_ok_def call_fine_def list_all_iff)
  ultimately show ?thesis using assms by (simp add: turns_ok_def live_ok_def)
qed

text \<open>A step that changes neither the chains nor the buffers nor the line, and closes or opens no gate.\<close>

lemma turns_cong:
  assumes "turns_ok s" "waiters s' = waiters s" "telemetryBuf s' = telemetryBuf s" "payloadBuf s' = payloadBuf s"
    "writeChain s' = writeChain s" "taskChain s' = taskChain s" "drain_calls s' = drain_calls s"
    "wq_timer s' = wq_timer s" "wq_stopped s' = wq_stopped s" "wq_paused s' = wq_paused s"
  shows "turns_ok s'"
proof -
  have "call_fine s' = call_fine s" by (simp add: fun_eq_iff call_fine_def rows_idle_def assms(2-))
  then show ?thesis using assms(1) by (simp add: turns_ok_def wait_ok_def drain_ok_def live_ok_def rows_idle_def assms(2-))
qed

lemma turns_log: "turns_ok s \<Longrightarrow> turns_ok (s\<lparr>wq_log := l\<rparr>)"
  by (erule turns_cong) simp_all

lemma awaits_tick:
  "awaits_fine idle (Suc nb) nt ws \<Longrightarrow> awaits_fine idle nb nt (map (tick_waiter one_less id) ws)"
  "awaits_fine idle nb (Suc nt) ws \<Longrightarrow> awaits_fine idle nb nt (map (tick_waiter id one_less) ws)"
  by (auto simp: awaits_fine_def tick_waiter_def one_less_def list_all_iff split: list.splits)

lemma turns_batch:
  assumes "turns_ok s"
  shows "turns_ok (batch_settles st cur s)"
proof (cases "writeChain s")
  case (Cons b bs)
  let ?s = "batch_settles st cur s"
  have f: "waiters ?s = map (tick_waiter one_less id) (waiters s)" "telemetryBuf ?s = telemetryBuf s"
    "payloadBuf ?s = payloadBuf s" "writeChain ?s = bs" "taskChain ?s = taskChain s"
    "drain_calls ?s = map (tick_call id one_less id) (drain_calls s)" "wq_timer ?s = wq_timer s"
    "wq_stopped ?s = wq_stopped s" "wq_paused ?s = wq_paused s"
    using Cons by (simp_all add: batch_settles_def split: prod.split)
  then have i: "rows_idle ?s = rows_idle s" by (simp add: rows_idle_def)
  have "wait_ok ?s" using assms Cons by (simp add: turns_ok_def wait_ok_def f i awaits_tick)
  moreover have "drain_ok ?s"
    using assms Cons by (auto simp: turns_ok_def drain_ok_def call_fine_def f i list_all_iff phase_fine_batch)
  ultimately show ?thesis using assms by (simp add: turns_ok_def live_ok_def f i list_ex_map)
qed (use assms in \<open>simp add: batch_settles_def\<close>)

lemma turns_task:
  assumes "turns_ok s"
  shows "turns_ok (task_settles e h s)"
proof (cases "taskChain s")
  case (Cons t ts)
  let ?s = "task_settles e h s"
  have f: "waiters ?s = map (tick_waiter id one_less) (waiters s)" "telemetryBuf ?s = telemetryBuf s"
    "payloadBuf ?s = payloadBuf s" "writeChain ?s = writeChain s" "taskChain ?s = ts"
    "drain_calls ?s = map (tick_call id id one_less) (drain_calls s)" "wq_timer ?s = wq_timer s"
    "wq_stopped ?s = wq_stopped s" "wq_paused ?s = wq_paused s"
    using Cons by (simp_all add: task_settles_def)
  then have i: "rows_idle ?s = rows_idle s" by (simp add: rows_idle_def)
  have "wait_ok ?s" using assms Cons by (simp add: turns_ok_def wait_ok_def f i awaits_tick)
  moreover have "drain_ok ?s"
    using assms Cons by (auto simp: turns_ok_def drain_ok_def call_fine_def f i list_all_iff phase_fine_task)
  ultimately show ?thesis using assms by (simp add: turns_ok_def live_ok_def f i list_ex_map)
qed (use assms in \<open>simp add: task_settles_def\<close>)

lemma append_live: "\<not> rows_idle (append_item cfg it cost s) \<Longrightarrow> \<not> wq_stopped s \<Longrightarrow> \<not> rows_idle s \<longrightarrow> wq_timer s \<Longrightarrow>
    wq_timer (append_item cfg it cost s)"
  by (rule append_cases [of cfg it cost s]) (cases it; auto simp: rows_idle_def push_task_def)+

lemma append_timer: "wq_timer s \<Longrightarrow> rows_idle (append_item cfg it cost s) \<or> wq_timer (append_item cfg it cost s)"
  by (rule append_cases [of cfg it cost s]) simp_all

lemma append_stranded:
  assumes "\<not> rows_idle (append_item cfg it cost s)" "\<not> wq_timer (append_item cfg it cost s)"
  shows "wq_stopped s \<or> \<not> rows_idle s \<and> \<not> wq_timer s"
  using assms append_live append_timer by blast

lemma open_no_barrier:
  "drain_ok s \<Longrightarrow> \<not> wq_stopped s \<Longrightarrow> \<not> wq_paused s \<Longrightarrow> c \<in> set (drain_calls s) \<Longrightarrow> \<not> barrier c"
  by (auto simp: drain_ok_def list_all_iff call_fine_def gate_fine_def barrier_def)

lemma turns_enqueue:
  assumes "turns_ok s" "wqueue_ok cfg s"
  shows "turns_ok (enqueue cfg it s)"
proof (cases "wq_stopped s \<or> wq_paused s")
  case True
  with assms(1) show ?thesis by (auto simp: enqueue_def turns_log)
next
  case False
  have free: "\<not> barrier c" if "c \<in> set (drain_calls s)" for c
    using assms(1) False that open_no_barrier by (auto simp: turns_ok_def)
  let ?c = "item_cost cfg it"
  have app: "turns_ok (append_item cfg it ?c s)" if "pendingAdmissions s = 0"
  proof -
    let ?a = "append_item cfg it ?c s"
    have "waiters s = []" using that assms(2) by (simp add: wqueue_ok_def waiters_ok_def)
    then have "wait_ok ?a" by (simp add: wait_ok_def awaits_fine_def)
    moreover have "drain_ok ?a"
      using assms(1) free
      by (auto simp: turns_ok_def drain_ok_def call_fine_def list_all_iff intro: phase_fine_free)
    moreover have "live_ok ?a"
      using assms(1) False append_stranded [of cfg it ?c s] by (auto simp: turns_ok_def live_ok_def)
    ultimately show ?thesis by (simp add: turns_ok_def)
  qed
  have wait: "turns_ok (s\<lparr>waiters := waiters s @ [w], pendingAdmissions := n, pendingAdmissionBytes := m\<rparr>)"
    (is "turns_ok ?w") if "wt_awaits w = None" for w n m
  proof -
    have i: "rows_idle ?w = rows_idle s" by (simp add: rows_idle_def)
    have "wait_ok ?w"
      using assms(1) that i by (cases "waiters s") (auto simp: turns_ok_def wait_ok_def awaits_fine_def)
    moreover have "drain_ok ?w"
      using assms(1) free i
      by (auto simp: turns_ok_def drain_ok_def call_fine_def list_all_iff intro: phase_fine_free)
    ultimately show ?thesis using assms(1) i by (simp add: turns_ok_def live_ok_def)
  qed
  show ?thesis
    using False app wait turns_log [OF assms(1)] by (auto simp: enqueue_def admit_def Let_def)
qed

lemma turns_waiter:
  assumes "turns_ok s"
  shows "turns_ok (waiter_turn cfg s)"
proof (rule waiter_turn_cases [of cfg s])
  fix w ws
  assume w: "waiters s = w # ws"
    and t: "waiter_turn cfg s = (doFlush s)\<lparr>waiters := w\<lparr>wt_awaits := Some (length (writeChain (doFlush s)), length (taskChain s))\<rparr> # ws\<rparr>"
  have f: "turns_ok (doFlush s)" by (rule turns_doFlush [OF assms])
  let ?t = "waiter_turn cfg s"
  have i: "rows_idle ?t" "drain_calls ?t = drain_calls (doFlush s)" "length (waiters ?t) = length (waiters (doFlush s))"
    "writeChain ?t = writeChain (doFlush s)" "taskChain ?t = taskChain (doFlush s)" "wq_stopped ?t = wq_stopped (doFlush s)"
    "wq_paused ?t = wq_paused (doFlush s)"
    using w by (simp_all add: t rows_idle_def)
  have "wait_ok ?t"
    using f w by (auto simp: turns_ok_def wait_ok_def awaits_fine_def t rows_idle_def)
  moreover have "call_fine ?t = call_fine (doFlush s)" by (simp add: fun_eq_iff call_fine_def i)
  then have "drain_ok ?t" using f by (simp add: turns_ok_def drain_ok_def i(2))
  moreover have "live_ok ?t" using f by (simp add: turns_ok_def live_ok_def i)
  ultimately show ?thesis by (simp add: turns_ok_def)
next
  fix w ws s'
  assume w: "waiters s = w # ws"
    and s': "s' = append_item cfg (wt_item w) (wt_cost w) s"
    and t: "waiter_turn cfg s = s'\<lparr>waiters := ws, pendingAdmissions := pendingAdmissions s - 1,
         pendingAdmissionBytes := pendingAdmissionBytes s - wt_pendingCost w,
         drain_calls := map (tick_call one_less id id) (drain_calls s)\<rparr>"
  let ?t = "waiter_turn cfg s"
  have i: "rows_idle ?t = rows_idle s'" "wq_timer ?t = wq_timer s'" by (simp_all add: t rows_idle_def)
  have "wait_ok ?t"
    using assms w by (cases ws) (auto simp: turns_ok_def wait_ok_def awaits_fine_def t)
  moreover have "drain_ok ?t"
    using assms w by (auto simp: turns_ok_def drain_ok_def call_fine_def list_all_iff t s' intro!: phase_fine_append)
  moreover have "live_ok ?t"
  proof (cases "wq_stopped s")
    case False
    then show ?thesis
      using assms append_stranded [of cfg "wt_item w" "wt_cost w" s] i
      by (auto simp: turns_ok_def live_ok_def t s' list_ex_map)
  next
    case True
    then obtain c where c: "c \<in> set (drain_calls s)" "dc_kind c = Stop_call"
      using assms by (auto simp: turns_ok_def live_ok_def list_ex_iff)
    then have "at_admissions (dc_phase c)"
      using assms w by (cases "dc_phase c") (auto simp: turns_ok_def drain_ok_def list_all_iff call_fine_def phase_fine_def barrier_def)
    with c True show ?thesis by (auto simp: live_ok_def t s' list_ex_iff)
  qed
  ultimately show ?thesis by (simp add: turns_ok_def)
qed (use assms in simp)

lemma list_ex_update:
  "list_ex P (xs :: 'a list) \<Longrightarrow> i < length xs \<Longrightarrow> P y \<or> \<not> P (xs ! i) \<Longrightarrow> list_ex P (xs[i := y])"
  by (auto simp: list_ex_length) (metis nth_list_update_neq)+

lemma turns_set_phase:
  assumes "turns_ok s" "i < length (drain_calls s)"
    and ph: "phase_fine (barrier (drain_calls s ! i)) (length (waiters s)) (rows_idle s) (length (writeChain s))
          (length (taskChain s)) ph"
    and "rows_idle s \<or> at_admissions ph \<or> \<not> at_admissions (dc_phase (drain_calls s ! i))"
  shows "turns_ok (set_phase i ph s)"
proof -
  let ?t = "set_phase i ph s" and ?c = "(drain_calls s ! i)\<lparr>dc_phase := ph\<rparr>"
  have i: "rows_idle ?t = rows_idle s" by (simp add: set_phase_def rows_idle_def)
  have fine: "call_fine ?t = call_fine s" by (simp add: fun_eq_iff call_fine_def i) (simp add: set_phase_def)
  have "list_all (call_fine s) (drain_calls s)" using assms(1) by (simp add: turns_ok_def drain_ok_def)
  moreover have "call_fine s ?c"
    using ph calculation assms(2) by (auto simp: call_fine_def barrier_def gate_fine_def list_all_length)
  ultimately have "drain_ok ?t"
    unfolding drain_ok_def fine
    by (auto simp: set_phase_def list_all_iff dest!: set_update_subset_insert [THEN subsetD])
  moreover have "wait_ok ?t" using assms(1) i by (simp add: turns_ok_def wait_ok_def) (simp add: set_phase_def)
  moreover have "list_ex (\<lambda>c. dc_kind c = Stop_call) (drain_calls s) \<Longrightarrow>
      list_ex (\<lambda>c. dc_kind c = Stop_call) ((drain_calls s)[i := ?c])"
    using assms(2) list_ex_update [of "\<lambda>c. dc_kind c = Stop_call" "drain_calls s" i ?c] by auto
  moreover have "list_ex (\<lambda>c. at_admissions (dc_phase c)) (drain_calls s) \<Longrightarrow> rows_idle s \<or>
      list_ex (\<lambda>c. at_admissions (dc_phase c)) ((drain_calls s)[i := ?c])"
    using assms(2,4) list_ex_update [of "\<lambda>c. at_admissions (dc_phase c)" "drain_calls s" i ?c] by auto
  moreover have "wq_timer ?t = wq_timer s" "wq_stopped ?t = wq_stopped s" "drain_calls ?t = (drain_calls s)[i := ?c]"
    by (simp_all add: set_phase_def)
  ultimately show ?thesis using assms(1) i by (auto simp: turns_ok_def live_ok_def)
qed

lemma turns_drain:
  assumes "turns_ok s"
  shows "turns_ok (drain_turn i s)"
proof (cases "i < length (drain_calls s)")
  case True
  let ?c = "drain_calls s ! i"
  have fine: "phase_fine (barrier ?c) (length (waiters s)) (rows_idle s) (length (writeChain s)) (length (taskChain s)) (dc_phase ?c)"
    using assms True by (simp add: turns_ok_def drain_ok_def list_all_length call_fine_def)
  show ?thesis
  proof (cases "dc_phase ?c")
    case (Await_admissions n)
    have "turns_ok (set_phase i (Await_flush (length (writeChain (doFlush s)))) (doFlush s))" if "n = 0"
      by (rule turns_set_phase [OF turns_doFlush [OF assms]])
        (use True fine that Await_admissions in \<open>auto simp: phase_fine_def\<close>)
    with assms True Await_admissions show ?thesis by (simp add: drain_turn_def Let_def)
  next
    case (Await_flush n)
    have "turns_ok (set_phase i (Await_writes (length (writeChain s))) s)" if "n = 0"
      by (rule turns_set_phase [OF assms True]) (use fine that Await_flush in \<open>auto simp: phase_fine_def\<close>)
    with assms True Await_flush show ?thesis by (simp add: drain_turn_def)
  next
    case (Await_writes n)
    have "turns_ok (set_phase i (Await_tasks (length (taskChain s))) s)" if "n = 0"
      by (rule turns_set_phase [OF assms True]) (use fine that Await_writes in \<open>auto simp: phase_fine_def\<close>)
    with assms True Await_writes show ?thesis by (simp add: drain_turn_def)
  next
    case (Await_tasks n)
    have "turns_ok (set_phase i Drained s)" if "n = 0"
      by (rule turns_set_phase [OF assms True]) (use fine that Await_tasks in \<open>auto simp: phase_fine_def\<close>)
    with assms True Await_tasks show ?thesis by (simp add: drain_turn_def)
  next
    case Drained
    with assms show ?thesis by (simp add: drain_turn_def)
  qed
qed (use assms in \<open>simp add: drain_turn_def\<close>)

lemma turns_start:
  assumes "turns_ok s"
  shows "turns_ok (start_drain k s)"
proof -
  let ?t = "start_drain k s"
  let ?c = "\<lparr>dc_kind = k, dc_phase = Await_admissions (length (waiters s)), dc_void = False\<rparr>"
  have f: "waiters ?t = waiters s" "telemetryBuf ?t = telemetryBuf s" "payloadBuf ?t = payloadBuf s"
    "writeChain ?t = writeChain s" "taskChain ?t = taskChain s" "drain_calls ?t = drain_calls s @ [?c]"
    "wq_stopped ?t = (wq_stopped s \<or> k = Stop_call)" "wq_paused ?t = (wq_paused s \<or> k = Pause_call)"
    by (cases k; simp add: start_drain_def Let_def)+
  then have i: "rows_idle ?t = rows_idle s" by (simp add: rows_idle_def)
  have "drain_ok ?t"
    using assms
    by (auto simp: turns_ok_def drain_ok_def call_fine_def f i list_all_iff phase_fine_def gate_fine_def)
  moreover have "wait_ok ?t" using assms by (simp add: turns_ok_def wait_ok_def f i)
  moreover have "live_ok ?t" using assms by (auto simp: turns_ok_def live_ok_def f i)
  ultimately show ?thesis by (simp add: turns_ok_def)
qed

lemma turns_resume:
  assumes "turns_ok s"
  shows "turns_ok (resume s)"
proof (cases "wq_stopped s")
  case False
  let ?t = "resume s"
  have f: "waiters ?t = waiters s" "telemetryBuf ?t = telemetryBuf s" "payloadBuf ?t = payloadBuf s"
    "writeChain ?t = writeChain s" "taskChain ?t = taskChain s" "drain_calls ?t = map void_pause (drain_calls s)"
    "wq_stopped ?t = wq_stopped s" "wq_paused ?t = False" "wq_timer ?t = wq_timer s"
    using False by (simp_all add: resume_def)
  then have i: "rows_idle ?t = rows_idle s" by (simp add: rows_idle_def)
  have v: "call_fine s c \<Longrightarrow> call_fine ?t (void_pause c)" for c
    using False by (auto simp: call_fine_def f i void_pause_def gate_fine_def barrier_def intro: phase_fine_free
        split: if_splits) (auto simp: phase_fine_def split: drain_phase.splits)
  have "drain_ok ?t" using assms v by (auto simp: turns_ok_def drain_ok_def f list_all_iff)
  moreover have "wait_ok ?t" using assms by (simp add: turns_ok_def wait_ok_def f i)
  moreover have "dc_phase (void_pause c) = dc_phase c" "dc_kind (void_pause c) = dc_kind c" for c
    by (simp_all add: void_pause_def)
  then have "live_ok ?t" using assms by (simp add: turns_ok_def live_ok_def f i list_ex_map)
  ultimately show ?thesis by (simp add: turns_ok_def)
qed (use assms in \<open>simp add: resume_def\<close>)

lemma turns_step: "turns_ok s \<Longrightarrow> wqueue_ok cfg s \<Longrightarrow> turns_ok (wq_step cfg st s e)"
  by (cases e)
    (simp_all add: turns_enqueue turns_batch turns_task turns_waiter turns_start turns_drain turns_resume timer_fires_def
      turns_doFlush)

definition wq_inv :: "wq_config \<Rightarrow> 'db write_queue \<Rightarrow> bool" where
  "wq_inv cfg s \<longleftrightarrow> config_ok cfg \<and> wqueue_ok cfg s \<and> turns_ok s"

lemma wq_inv_init: "config_ok cfg \<Longrightarrow> wq_inv cfg (createWriteQueue db)"
  by (simp add: wq_inv_def wqueue_ok_init)
    (simp add: turns_ok_def wait_ok_def awaits_fine_def drain_ok_def live_ok_def rows_idle_def createWriteQueue_def)

lemma wq_inv_step [helm_inv]: "wq_inv cfg s \<Longrightarrow> wq_inv cfg (wq_step cfg st s e)"
  by (simp add: wq_inv_def wqueue_ok_step turns_step)

interpretation wq: guarded_steps "wq_step cfg st" "wq_inv cfg" "\<lambda>e. True" for cfg st
  by unfold_locales (rule wq_inv_step)

lemma wq_run_inv: "config_ok cfg \<Longrightarrow> wq_inv cfg (wq_run cfg st db es)"
  unfolding wq_run_def by (rule wq.run_keeps) (simp_all add: wq_inv_init list_all_iff)

interpretation wq_rows: guarded_steps "wq_step cfg st" "order_ok st outdated db" "\<lambda>e. found_stale e \<subseteq> outdated"
  for cfg st outdated db
  by unfold_locales (rule order_step)

lemma wq_run_order: "order_ok st (\<Union> (set (map found_stale es))) db (wq_run cfg st db es)"
proof -
  have "order_ok st (\<Union> (set (map found_stale es))) db (createWriteQueue db)"
    by (simp add: order_ok_def refusals_def stored_nothing createWriteQueue_def)
  then show ?thesis
    unfolding wq_run_def by (rule wq_rows.run_keeps) (auto simp: list_all_iff)
qed

subsection \<open>Progress\<close>

text \<open>The turns that need nothing from a client, and the work still ahead of them.\<close>

fun progress_event :: "wq_event \<Rightarrow> bool" where
  "progress_event (Enqueue it) = False"
| "progress_event (Start_drain k) = False"
| "progress_event Resume = False"
| "progress_event e = True"

fun phase_work :: "drain_phase \<Rightarrow> nat" where
  "phase_work (Await_admissions n) = 4"
| "phase_work (Await_flush n) = 3"
| "phase_work (Await_writes n) = 2"
| "phase_work (Await_tasks n) = 1"
| "phase_work Drained = 0"

definition waiter_work :: "wq_waiter \<Rightarrow> nat" where
  "waiter_work w = (if wt_awaits w = None then 4 else 3)"

definition rows_work :: "'db write_queue \<Rightarrow> nat" where
  "rows_work s = 2 * (length (telemetryBuf s) + length (payloadBuf s)) + length (writeChain s) + length (taskChain s)"

definition work :: "'db write_queue \<Rightarrow> nat" where
  "work s = rows_work s + sum_list (map waiter_work (waiters s)) + sum_list (map (phase_work \<circ> dc_phase) (drain_calls s))"

lemma phase_work_tick [simp]: "phase_work (tick_phase f g h ph) = phase_work ph"
  by (cases ph) (simp_all add: tick_phase_def)

lemma waiter_work_tick [simp]: "waiter_work (tick_waiter f g w) = waiter_work w"
  by (simp add: waiter_work_def tick_waiter_def)

lemma rows_work_doFlush: "rows_work (doFlush s) \<le> rows_work s"
  by (auto simp: rows_work_def doFlush_chain neq_Nil_conv)

lemma work_doFlush: "work (doFlush s) \<le> work s"
  using rows_work_doFlush [of s] by (simp add: work_def)

lemma rows_work_push: "rows_work (push_item it cost s) \<le> rows_work s + 2"
  by (cases it) (simp_all add: rows_work_def push_task_def)

lemma rows_work_append: "rows_work (append_item cfg it cost s) \<le> rows_work s + 2"
proof -
  have p: "rows_work (push_item it cost s) \<le> rows_work s + 2" by (rule rows_work_push)
  show ?thesis
  proof (rule append_cases [of cfg it cost s])
    assume a: "append_item cfg it cost s = doFlush (push_item it cost s)"
    show ?thesis unfolding a using rows_work_doFlush [of "push_item it cost s"] p by linarith
  next
    assume a: "append_item cfg it cost s = (push_item it cost s)\<lparr>wq_timer := True\<rparr>"
    show ?thesis unfolding a using p by (simp add: rows_work_def)
  qed (use p in simp_all)
qed

lemma work_batch: "writeChain s \<noteq> [] \<Longrightarrow> work (batch_settles st cur s) < work s"
  by (cases "writeChain s") (auto simp: batch_settles_def work_def rows_work_def comp_def split: prod.split)

lemma work_task: "taskChain s \<noteq> [] \<Longrightarrow> work (task_settles e h s) < work s"
  by (cases "taskChain s") (auto simp: task_settles_def work_def rows_work_def comp_def)

lemma depth_zero:
  "books_ok s \<Longrightarrow> depth s = 0 \<longleftrightarrow> rows_idle s \<and> list_all (\<lambda>b. flushedDepth b = 0) (writeChain s) \<and> taskChain s = []"
  by (auto simp: books_ok_def depth_def rows_idle_def list_all_iff)

lemma work_waiter:
  assumes "wait_ok s" "books_ok s" "waiters s = w # ws" "waiter_ready w"
  shows "work (waiter_turn cfg s) < work s"
proof (cases "overBudget cfg s (wt_cost w) \<and> 0 < depth s")
  case True
  have "wt_awaits w = None"
  proof (rule ccontr)
    assume "wt_awaits w \<noteq> None"
    with assms have "rows_idle s" "writeChain s = []" "taskChain s = []"
      by (auto simp: wait_ok_def awaits_fine_def waiter_ready_def)
    with True depth_zero [OF assms(2)] show False by simp
  qed
  then show ?thesis
    using rows_work_doFlush [of s] assms(3,4) True
    by (simp add: waiter_turn_def work_def waiter_work_def rows_work_def Let_def)
next
  case False
  let ?a = "append_item cfg (wt_item w) (wt_cost w) s"
  have t: "waiter_turn cfg s = ?a\<lparr>waiters := ws, pendingAdmissions := pendingAdmissions ?a - 1,
      pendingAdmissionBytes := pendingAdmissionBytes ?a - wt_pendingCost w,
      drain_calls := map (tick_call one_less id id) (drain_calls ?a)\<rparr>"
    using False assms(3,4) by (auto simp: waiter_turn_def Let_def)
  have "rows_work (waiter_turn cfg s) = rows_work ?a" by (simp add: t rows_work_def)
  then show ?thesis
    using rows_work_append [of cfg "wt_item w" "wt_cost w" s] assms(3) unfolding work_def
    by (simp add: t waiter_work_def comp_def)
qed

lemma work_set_phase:
  assumes "i < length (drain_calls s)"
  shows "work (set_phase i ph s) + phase_work (dc_phase (drain_calls s ! i)) = work s + phase_work ph"
proof -
  have "sum_list (map f (xs[i := y])) + f (xs ! i) = sum_list (map f xs) + (f y :: nat)" if "i < length xs" for f y and xs :: "'x list"
    using that by (induction xs arbitrary: i) (auto split: nat.split)
  from this [OF assms, of "phase_work \<circ> dc_phase" "(drain_calls s ! i)\<lparr>dc_phase := ph\<rparr>"]
  show ?thesis by (simp add: work_def rows_work_def set_phase_def)
qed

text \<open>What the phase of a draining call still counts; it may move on at zero.\<close>

fun phase_count :: "drain_phase \<Rightarrow> nat" where
  "phase_count (Await_admissions n) = n"
| "phase_count (Await_flush n) = n"
| "phase_count (Await_writes n) = n"
| "phase_count (Await_tasks n) = n"
| "phase_count Drained = 1"

lemma work_drain:
  assumes "i < length (drain_calls s)" "phase_count (dc_phase (drain_calls s ! i)) = 0"
  shows "work (drain_turn i s) < work s"
proof (cases "dc_phase (drain_calls s ! i)")
  case (Await_admissions n)
  with assms have "drain_turn i s = set_phase i (Await_flush (length (writeChain (doFlush s)))) (doFlush s)"
    by (simp add: drain_turn_def Let_def)
  with work_set_phase [of i "doFlush s" "Await_flush (length (writeChain (doFlush s)))"] assms Await_admissions work_doFlush [of s]
  show ?thesis by simp
next
  case (Await_flush n)
  with assms work_set_phase [OF assms(1), of "Await_writes (length (writeChain s))"] show ?thesis by (simp add: drain_turn_def)
next
  case (Await_writes n)
  with assms work_set_phase [OF assms(1), of "Await_tasks (length (taskChain s))"] show ?thesis by (simp add: drain_turn_def)
next
  case (Await_tasks n)
  with assms work_set_phase [OF assms(1), of Drained] show ?thesis by (simp add: drain_turn_def)
qed (use assms in simp)

lemma drain_idle: "phase_count (dc_phase (drain_calls s ! i)) \<noteq> 0 \<Longrightarrow> drain_turn i s = s"
  by (cases "dc_phase (drain_calls s ! i)") (simp_all add: drain_turn_def)

lemma drain_turn_outside: "\<not> i < length (drain_calls s) \<Longrightarrow> drain_turn i s = s"
  by (simp add: drain_turn_def)

lemma work_progress_le:
  assumes "wq_inv cfg s" "progress_event e"
  shows "work (wq_step cfg st s e) \<le> work s"
proof (cases e)
  case (Batch_settles stale)
  then show ?thesis
    using work_batch [of s st "\<lambda>p. p \<notin> set stale"] by (cases "writeChain s") (auto simp: batch_settles_def less_imp_le)
next
  case (Task_settles a b)
  then show ?thesis using work_task [of s a b] by (cases "taskChain s") (auto simp: task_settles_def less_imp_le)
next
  case Waiter_turn
  show ?thesis
  proof (cases "waiters s")
    case (Cons w ws)
    have "wait_ok s" "books_ok s" using assms(1) by (simp_all add: wq_inv_def turns_ok_def wqueue_ok_def)
    from work_waiter [OF this Cons, of cfg] Cons Waiter_turn show ?thesis
      by (cases "waiter_ready w") (simp_all add: waiter_turn_def less_imp_le)
  qed (simp add: Waiter_turn waiter_turn_def)
next
  case (Drain_turn i)
  then show ?thesis
    using work_drain [of i s] drain_idle [of s i] drain_turn_outside [of i s]
    by (cases "i < length (drain_calls s)"; cases "phase_count (dc_phase (drain_calls s ! i)) = 0")
      (simp_all add: less_imp_le)
next
  case Timer_fires
  with work_doFlush [of s] show ?thesis by (simp add: timer_fires_def)
qed (use assms in simp_all)

text \<open>A chain entry or a waiting producer is always one whose turn shrinks the work.\<close>

lemma chain_progress:
  "writeChain s \<noteq> [] \<or> taskChain s \<noteq> [] \<Longrightarrow> \<exists>e. progress_event e \<and> work (wq_step cfg st s e) < work s"
  using work_batch [of s st "\<lambda>p. p \<notin> set []"] work_task [of s False False]
  by (metis wq_step.simps(3,4) progress_event.simps(5,6))

lemma waiter_progress:
  assumes "wq_inv cfg s" "waiters s \<noteq> []"
  shows "\<exists>e. progress_event e \<and> work (wq_step cfg st s e) < work s"
proof -
  obtain w ws where w: "waiters s = w # ws" using assms(2) by (cases "waiters s") auto
  have ok: "wait_ok s" "books_ok s" using assms(1) by (simp_all add: wq_inv_def turns_ok_def wqueue_ok_def)
  show ?thesis
  proof (cases "waiter_ready w")
    case True
    from work_waiter [OF ok w True, of cfg] show ?thesis
      by (intro exI [of _ Waiter_turn]) simp
  next
    case False
    with ok(1) w have "writeChain s \<noteq> [] \<or> taskChain s \<noteq> []"
      by (auto simp: wait_ok_def awaits_fine_def waiter_ready_def)
    then show ?thesis by (rule chain_progress)
  qed
qed

lemma call_progress:
  assumes inv: "wq_inv cfg s" and c: "c \<in> set (drain_calls s)" "dc_phase c \<noteq> Drained"
  shows "\<exists>e. progress_event e \<and> work (wq_step cfg st s e) < work s"
proof -
  obtain i where i: "i < length (drain_calls s)" "drain_calls s ! i = c" using c(1) by (auto simp: in_set_conv_nth)
  have fine: "phase_fine (barrier c) (length (waiters s)) (rows_idle s) (length (writeChain s)) (length (taskChain s)) (dc_phase c)"
    using inv c(1) by (auto simp: wq_inv_def turns_ok_def drain_ok_def list_all_iff call_fine_def)
  show ?thesis
  proof (cases "phase_count (dc_phase c) = 0")
    case True
    with work_drain [OF i(1)] i(2) show ?thesis by (intro exI [of _ "Drain_turn i"]) simp
  next
    case False
    with fine c(2) have "waiters s \<noteq> [] \<or> writeChain s \<noteq> [] \<or> taskChain s \<noteq> []"
      by (cases "dc_phase c") (auto simp: phase_fine_def)
    with waiter_progress [OF inv] chain_progress show ?thesis by blast
  qed
qed

lemma drains_eventually:
  "wq_inv cfg s \<Longrightarrow>
   \<exists>es. list_all progress_event es \<and>
        list_all (\<lambda>c. dc_phase c = Drained) (drain_calls (foldl (wq_step cfg st) s es)) \<and> length es \<le> work s"
proof (induction "work s" arbitrary: s rule: less_induct)
  case less
  show ?case
  proof (cases "list_all (\<lambda>c. dc_phase c = Drained) (drain_calls s)")
    case True
    then show ?thesis by (intro exI [of _ "[]"]) simp
  next
    case False
    then obtain c where "c \<in> set (drain_calls s)" "dc_phase c \<noteq> Drained" by (auto simp: list_all_iff)
    from call_progress [OF less.prems this] obtain e where e: "progress_event e" "work (wq_step cfg st s e) < work s" by blast
    from less.hyps [OF e(2) wq_inv_step [OF less.prems]] obtain es where
      "list_all progress_event es" "length es \<le> work (wq_step cfg st s e)"
      "list_all (\<lambda>c. dc_phase c = Drained) (drain_calls (foldl (wq_step cfg st) (wq_step cfg st s e) es))" by blast
    with e show ?thesis by (intro exI [of _ "e # es"]) simp
  qed
qed

subsection \<open>Properties\<close>

text \<open>
  C23. The queue stays within its budgets in every history of calls, timers, settlements and failures: what it
  retains (buffered, being written and queued tasks) is at most the configured number of items and bytes, unless
  it is a single item that is too large by itself, and the producers that wait for room stay within their own
  two ceilings.
\<close>

theorem write_queue_bounded:
  assumes "config_ok cfg" and "s = wq_run cfg st db es"
  shows "(let items = length (telemetryBuf s) + length (payloadBuf s) + sum_list (map flushedDepth (writeChain s)) + length (taskChain s);
              retained = rows_cost (telemetryBuf s) (payloadBuf s) +
                sum_list (map (\<lambda>b. rows_cost (bt_telemetry b) (bt_payload b)) (writeChain s)) + sum_list (map qt_cost (taskChain s))
          in items \<le> max 1 (maxDepth cfg) \<and> (retained \<le> maxBytes cfg \<or> items \<le> 1)) \<and>
    length (waiters s) \<le> maxPendingAdmissions cfg \<and>
    sum_list (map (\<lambda>w. min (item_cost cfg (wt_item w)) (maxPendingAdmissionBytes cfg)) (waiters s)) \<le> maxPendingAdmissionBytes cfg"
proof -
  have q: "wqueue_ok cfg s" using wq_run_inv [OF assms(1), of st db es] assms(2) by (simp add: wq_inv_def)
  then have b: "books_ok s" and w: "waiters_ok cfg s" and d: "within_budget cfg s" by (simp_all add: wqueue_ok_def)
  have t: "sum_list (map qt_cost (taskChain s)) = pendingSessionBytes s + pendingTaskBytes s"
  proof -
    have "sum_list (map qt_cost ts) = sum_list (map session_cost ts) + sum_list (map effect_cost ts)" for ts
      by (induction ts) (simp_all add: session_cost_def effect_cost_def)
    with b show ?thesis by (simp add: books_ok_def)
  qed
  have c: "map (\<lambda>b. rows_cost (bt_telemetry b) (bt_payload b)) (writeChain s) = map flushedBytes (writeChain s)"
    using b by (simp add: books_ok_def batch_ok_def list_all_iff)
  have wm: "map (\<lambda>w. min (item_cost cfg (wt_item w)) (maxPendingAdmissionBytes cfg)) (waiters s) = map wt_pendingCost (waiters s)"
    using w by (simp add: waiters_ok_def list_all_iff)
  have dep: "length (telemetryBuf s) + length (payloadBuf s) + sum_list (map flushedDepth (writeChain s)) + length (taskChain s) = depth s"
    and held: "rows_cost (telemetryBuf s) (payloadBuf s) + sum_list (map flushedBytes (writeChain s)) +
      (pendingSessionBytes s + pendingTaskBytes s) = held_bytes s"
    using b by (simp_all add: books_ok_def depth_def held_bytes_def)
  show ?thesis
    unfolding Let_def c t wm dep held using d w by (simp add: within_budget_def waiters_ok_def)
qed

definition demo_wq :: wq_config where
  "demo_wq = \<lparr>maxBatch = 2, maxDepth = 3, maxBytes = 100, flushBytes = 50, maxPendingAdmissions = 1,
              maxPendingAdmissionBytes = 100, jsonAmplification = 2\<rparr>"

text \<open>A store with a unique index: a row whose id it holds is refused, and a batch with such a row as a whole.\<close>

definition demo_insert :: "string list \<Rightarrow> telemetry_row \<Rightarrow> string list option" where
  "demo_insert db r = (if tr_requestId r \<in> set db then None else Some (db @ [tr_requestId r]))"

fun demo_insertMany :: "string list \<Rightarrow> telemetry_row list \<Rightarrow> string list option" where
  "demo_insertMany db [] = Some db"
| "demo_insertMany db (r # rs) = Option.bind (demo_insert db r) (\<lambda>db'. demo_insertMany db' rs)"

definition demo_store :: "string list wq_store" where
  "demo_store = \<lparr>st_insertMany = Some demo_insertMany, st_insert = demo_insert,
                 st_insertPayloads = None, st_insertPayload = (\<lambda>db p. Some db)\<rparr>"

definition demo_row :: "string \<Rightarrow> wq_item" where
  "demo_row r = Telemetry_item \<lparr>tr_requestId = r, tr_decision = Some ''{}''\<rparr>"

definition demo_events :: "wq_event list" where
  "demo_events =
     [Enqueue (demo_row ''a''), Enqueue (Task_item ''observe'' 40 True), Enqueue (demo_row ''b''),
      Enqueue (Session_item ''s'' 10), Enqueue (demo_row ''c''), Start_drain Pause_call, Waiter_turn, Batch_settles [],
      Task_settles True False, Waiter_turn, Drain_turn 0, Drain_turn 0, Drain_turn 0, Task_settles False False, Drain_turn 0]"

theorem write_queue_bounded_witness:
  "let s = wq_run demo_wq demo_store [] (take 5 demo_events) in
     length (telemetryBuf s) + length (payloadBuf s) + sum_list (map flushedDepth (writeChain s)) + length (taskChain s) = 3 \<and>
     length (waiters s) = 1 \<and> length (waiters s) \<le> maxPendingAdmissions demo_wq"
proof -
  let ?s = "wq_run demo_wq demo_store [] (take 5 demo_events)"
  have c: "config_ok demo_wq" by code_simp
  have "length (telemetryBuf ?s) + length (payloadBuf ?s) + sum_list (map flushedDepth (writeChain ?s)) + length (taskChain ?s) = 3"
    "length (waiters ?s) = 1" by code_simp+
  with write_queue_bounded [OF c refl, of demo_store "[]" "take 5 demo_events"] show ?thesis by (simp add: Let_def)
qed

text \<open>
  Accepted work is neither lost nor reordered: at every moment the telemetry rows admitted so far are, in
  order of admission, those already written, those of the batches being written and those still buffered; so
  are the payloads; and the tasks are the settled ones followed by the queued ones, whatever failed on the way.
\<close>

theorem write_queue_fifo:
  assumes "s = wq_run cfg st db es"
  shows "\<exists>ts ps nt np.
           gh_telemetry s = ts @ concat (map bt_telemetry (writeChain s)) @ telemetryBuf s \<and>
           gh_payload s = ps @ concat (map bt_payload (writeChain s)) @ payloadBuf s \<and>
           stored st (\<Union> (set (map found_stale es))) db ts ps nt np (wq_db s) \<and>
           gh_tasks s = gh_settled s @ map qt_task (taskChain s)"
  using wq_run_order [of st es db cfg] assms by (auto simp: order_ok_def)

theorem write_queue_fifo_witness:
  "let s = wq_run demo_wq demo_store [] demo_events in
     gh_tasks s = [''observe'', ''s''] \<and> gh_settled s @ map qt_task (taskChain s) = [''observe'', ''s'']"
proof -
  let ?s = "wq_run demo_wq demo_store [] demo_events"
  have "gh_tasks ?s = [''observe'', ''s'']" by code_simp
  with write_queue_fifo [OF refl, of demo_wq demo_store "[]" demo_events] show ?thesis
    unfolding Let_def by (metis (no_types))
qed

text \<open>
  C22. The maintenance barrier holds: when \<open>pauseAndFlush\<close> (not resumed meanwhile) or \<open>stop\<close> has returned,
  nothing is buffered, queued, in flight or waiting, every task has run, and the database is what the store's
  own inserts made of it with exactly the admitted rows, each once and in order of admission: each row was in a
  batch insert that succeeded or inserted by itself, unless the store refused that row by itself, which costs
  this row and writes one line of the log per refused row, or it is a guarded payload that was found outdated.
  (A batch insert that throws has written nothing, as the adapters' multi-row statements are atomic.)
\<close>

theorem barrier_drains:
  assumes "config_ok cfg" and "s = wq_run cfg st db es" and "i < length (drain_calls s)"
    and "dc_phase (drain_calls s ! i) = Drained" and "barrier (drain_calls s ! i)"
  shows "depth s = 0 \<and> waiters s = [] \<and> writeChain s = [] \<and> taskChain s = [] \<and> gh_settled s = gh_tasks s \<and>
         stored st (\<Union> (set (map found_stale es))) db (gh_telemetry s) (gh_payload s)
           (count_list (wq_log s) ''writequeue.telemetry_insert_failed'')
           (count_list (wq_log s) ''writequeue.payload_insert_failed'') (wq_db s)"
proof -
  have inv: "wq_inv cfg s" using wq_run_inv [OF assms(1), of st db es] assms(2) by simp
  then have "call_fine s (drain_calls s ! i)"
    using assms(3) by (simp add: wq_inv_def turns_ok_def drain_ok_def list_all_length)
  then have d: "waiters s = []" "rows_idle s" "writeChain s = []" "taskChain s = []"
    using assms(4,5) by (simp_all add: call_fine_def phase_fine_def)
  moreover have "books_ok s" using inv by (simp add: wq_inv_def wqueue_ok_def)
  ultimately show ?thesis
    using wq_run_order [of st es db cfg] assms(2) by (auto simp: depth_zero order_ok_def rows_idle_def refusals_def)
qed

theorem barrier_drains_witness:
  "let s = wq_run demo_wq demo_store [] demo_events in
     dc_phase (drain_calls s ! 0) = Drained \<and> depth s = 0 \<and> wq_db s = [''a'', ''b''] \<and>
     stored demo_store {} [] (gh_telemetry s) [] 0 0 [''a'', ''b'']"
proof -
  let ?s = "wq_run demo_wq demo_store [] demo_events"
  have c: "config_ok demo_wq" by code_simp
  have d: "0 < length (drain_calls ?s)" "dc_phase (drain_calls ?s ! 0) = Drained" "barrier (drain_calls ?s ! 0)" by code_simp+
  have w: "wq_db ?s = [''a'', ''b'']" "gh_payload ?s = []" by code_simp+
  have l: "count_list (wq_log ?s) ''writequeue.telemetry_insert_failed'' = 0"
    "count_list (wq_log ?s) ''writequeue.payload_insert_failed'' = 0" by code_simp+
  have e: "\<Union> (set (map found_stale demo_events)) = {}" by (simp add: demo_events_def)
  show ?thesis using barrier_drains [OF c refl d, unfolded w l e] d w by (simp add: Let_def)
qed

text \<open>
  C24. Nothing is stranded and no drain hangs: in every reachable state buffered rows have an armed timer or a
  draining call about to flush them, and from every reachable state the queue's own turns (settlements of what
  it started, resumed producers and callers) bring every draining call to its return, in boundedly many turns.
\<close>

theorem write_queue_progress:
  assumes "config_ok cfg" and "s = wq_run cfg st db es"
  shows "(rows_idle s \<or> wq_timer s \<or> list_ex (\<lambda>c. at_admissions (dc_phase c)) (drain_calls s)) \<and>
    (\<exists>es'. list_all progress_event es' \<and> length es' \<le> work s \<and>
           list_all (\<lambda>c. dc_phase c = Drained) (drain_calls (foldl (wq_step cfg st) s es')))"
proof -
  have inv: "wq_inv cfg s" using wq_run_inv [OF assms(1), of st db es] assms(2) by simp
  then show ?thesis
    using drains_eventually [OF inv, of st] by (auto simp: wq_inv_def turns_ok_def live_ok_def)
qed

theorem write_queue_progress_witness:
  "let s = wq_run demo_wq demo_store [] [Enqueue (demo_row ''a''), Start_drain Pause_call] in
     \<not> rows_idle s \<and> list_ex (\<lambda>c. at_admissions (dc_phase c)) (drain_calls s) \<and>
     (\<exists>es'. list_all (\<lambda>c. dc_phase c = Drained) (drain_calls (foldl (wq_step demo_wq demo_store) s es')))"
proof -
  let ?s = "wq_run demo_wq demo_store [] [Enqueue (demo_row ''a''), Start_drain Pause_call]"
  have c: "config_ok demo_wq" by code_simp
  have t: "\<not> rows_idle ?s" "\<not> wq_timer ?s" by code_simp+
  with write_queue_progress [OF c refl, of demo_store "[]" "[Enqueue (demo_row ''a''), Start_drain Pause_call]"] show ?thesis
    unfolding Let_def by blast
qed

end
