(* ===== verification/Cost.thy ===== *)
theory Cost
  imports Json
begin

text \<open>
  Cost conversion (\<open>packages/core/src/catalog/cost.ts\<close>): the token usage read defensively from an upstream body,
  the rate card selected by the confirmed service tier and by the crossed context threshold, the partition of
  the tokens into priced buckets, and the rule that a billed amount overrides the estimate. A cost that is not
  measured (\<open>null\<close>) is \<open>None\<close>. Token counts and prices are rationals. A record of the catalog keyed by a name
  from a response (\<open>serviceTiers\<close>, \<open>inferenceGeoMultipliers\<close>) is an association list: a name that JavaScript
  would find on \<open>Object.prototype\<close> is outside the model.
\<close>

subsection \<open>Rate cards\<close>

record extra_rates =
  cacheReadPerMTokUsd :: "rat option"
  cacheWritePerMTokUsd :: "rat option"
  cacheWrite1hPerMTokUsd :: "rat option"
  imageOutputPerMTokUsd :: "rat option"
  audioInputPerMTokUsd :: "rat option"
  audioCacheReadPerMTokUsd :: "rat option"

record context_tier = extra_rates +
  ct_minPromptTokens :: rat
  ct_inputPerMTokUsd :: rat
  ct_outputPerMTokUsd :: rat

record service_tier = extra_rates +
  st_inputPerMTokUsd :: rat
  st_outputPerMTokUsd :: rat
  st_maxPromptTokens :: "rat option"
  st_contextTiers :: "context_tier list option"

record pricing = extra_rates +
  pr_inputPerMTokUsd :: "rat option"
  pr_outputPerMTokUsd :: "rat option"
  pr_contextTiers :: "context_tier list option"
  pr_serviceTiers :: "(string \<times> service_tier) list option"
  pr_inferenceGeoMultipliers :: "(string \<times> rat) list option"

text \<open>
  What the catalog schemas accept of a card: no negative price, ascending thresholds, positive multipliers.
\<close>

definition price_ok :: "rat option \<Rightarrow> bool" where
  "price_ok r = (case r of None \<Rightarrow> True | Some x \<Rightarrow> 0 \<le> x)"

definition extra_ok :: "'a extra_rates_scheme \<Rightarrow> bool" where
  "extra_ok c =
     (price_ok (cacheReadPerMTokUsd c) \<and> price_ok (cacheWritePerMTokUsd c) \<and> price_ok (cacheWrite1hPerMTokUsd c) \<and>
      price_ok (imageOutputPerMTokUsd c) \<and> price_ok (audioInputPerMTokUsd c) \<and> price_ok (audioCacheReadPerMTokUsd c))"

definition ContextPricingTierSchema :: "context_tier \<Rightarrow> bool" where
  "ContextPricingTierSchema t =
     (extra_ok t \<and> 0 < ct_minPromptTokens t \<and> 0 \<le> ct_inputPerMTokUsd t \<and> 0 \<le> ct_outputPerMTokUsd t)"

definition ContextPricingTiersSchema :: "context_tier list option \<Rightarrow> bool" where
  "ContextPricingTiersSchema ts =
     (case ts of None \<Rightarrow> True
      | Some l \<Rightarrow> list_all ContextPricingTierSchema l \<and> sorted_wrt (<) (map ct_minPromptTokens l))"

definition ServicePricingTierSchema :: "service_tier \<Rightarrow> bool" where
  "ServicePricingTierSchema s =
     (extra_ok s \<and> 0 \<le> st_inputPerMTokUsd s \<and> 0 \<le> st_outputPerMTokUsd s \<and>
      price_ok (st_maxPromptTokens s) \<and> ContextPricingTiersSchema (st_contextTiers s))"

definition PricingSchema :: "pricing \<Rightarrow> bool" where
  "PricingSchema p =
     (extra_ok p \<and> price_ok (pr_inputPerMTokUsd p) \<and> price_ok (pr_outputPerMTokUsd p) \<and>
      ContextPricingTiersSchema (pr_contextTiers p) \<and>
      (case pr_serviceTiers p of None \<Rightarrow> True | Some l \<Rightarrow> list_all (\<lambda>(k, s). k \<noteq> [] \<and> ServicePricingTierSchema s) l) \<and>
      (case pr_inferenceGeoMultipliers p of None \<Rightarrow> True | Some l \<Rightarrow> list_all (\<lambda>(k, m). k \<noteq> [] \<and> 0 < m) l))"

subsection \<open>Token usage\<close>

record token_usage =
  promptTokens :: "rat option"
  completionTokens :: "rat option"
  cachedPromptTokens :: "rat option"
  cacheCreationPromptTokens :: "rat option"
  cacheCreation5mPromptTokens :: "rat option"
  cacheCreation1hPromptTokens :: "rat option"
  imageOutputTokens :: "rat option"
  audioPromptTokens :: "rat option"
  cachedAudioPromptTokens :: "rat option"
  serviceTier :: "string option"
  inferenceGeo :: "string option"

definition no_usage :: token_usage where
  "no_usage =
     \<lparr>promptTokens = None, completionTokens = None, cachedPromptTokens = None, cacheCreationPromptTokens = None,
      cacheCreation5mPromptTokens = None, cacheCreation1hPromptTokens = None, imageOutputTokens = None,
      audioPromptTokens = None, cachedAudioPromptTokens = None, serviceTier = None, inferenceGeo = None\<rparr>"

fun finiteNonNegative :: "json option \<Rightarrow> rat option" where
  "finiteNonNegative (Some (JNum x)) = (if 0 \<le> x then Some x else None)"
| "finiteNonNegative v = None"

text \<open>\<open>a && typeof a === "object" ? a : undefined\<close>.\<close>

definition object_part :: "json option \<Rightarrow> json option" where
  "object_part v = (if is_object v then v else None)"

definition first_some :: "'a option list \<Rightarrow> 'a option" where
  "first_some l = foldr or_else l None"

text \<open>The input-side counts: cache reads, cache writes by lifetime, and the prompt total.\<close>

definition usage_cached :: "json option \<Rightarrow> json option \<Rightarrow> json option \<Rightarrow> rat option" where
  "usage_cached u inputDetails promptDetails =
     first_some [finiteNonNegative (opt_prop ''cached_tokens'' promptDetails),
                 finiteNonNegative (opt_prop ''cached_tokens'' inputDetails),
                 finiteNonNegative (opt_prop ''cache_read_input_tokens'' u),
                 finiteNonNegative (opt_prop ''prompt_cache_hit_tokens'' u)]"

definition usage_ephemeral :: "string \<Rightarrow> json option \<Rightarrow> json option \<Rightarrow> json option \<Rightarrow> rat option" where
  "usage_ephemeral k cacheCreationDetails inputDetails promptDetails =
     first_some [finiteNonNegative (opt_prop k cacheCreationDetails),
                 finiteNonNegative (opt_prop k promptDetails),
                 finiteNonNegative (opt_prop k inputDetails)]"

definition usage_explicit_creation :: "json option \<Rightarrow> json option \<Rightarrow> json option \<Rightarrow> rat option" where
  "usage_explicit_creation u inputDetails promptDetails =
     first_some [finiteNonNegative (opt_prop ''cache_write_tokens'' promptDetails),
                 finiteNonNegative (opt_prop ''cache_creation_tokens'' promptDetails),
                 finiteNonNegative (opt_prop ''cache_creation_input_tokens'' promptDetails),
                 finiteNonNegative (opt_prop ''cache_write_tokens'' inputDetails),
                 finiteNonNegative (opt_prop ''cache_creation_tokens'' inputDetails),
                 finiteNonNegative (opt_prop ''cache_creation_input_tokens'' inputDetails),
                 finiteNonNegative (opt_prop ''cache_creation_input_tokens'' u)]"

definition usage_prompt :: "json option \<Rightarrow> rat option" where
  "usage_prompt u =
     (let basePrompt = finiteNonNegative (opt_prop ''prompt_tokens'' u);
          inputTokens = finiteNonNegative (opt_prop ''input_tokens'' u);
          reads = finiteNonNegative (opt_prop ''cache_read_input_tokens'' u);
          writes = finiteNonNegative (opt_prop ''cache_creation_input_tokens'' u);
          anthropicStylePrompt =
            (case inputTokens of
               None \<Rightarrow> None
             | Some n \<Rightarrow> if reads \<noteq> None \<or> writes \<noteq> None then Some (n + nullish reads 0 + nullish writes 0) else None)
      in first_some [basePrompt, anthropicStylePrompt, inputTokens])"

text \<open>
  The merged output details: the fields of \<open>output_tokens_details\<close> over those of \<open>completion_tokens_details\<close>;
  a modality partition without an image count means no image tokens.
\<close>

definition usage_image_output :: "json option \<Rightarrow> json option \<Rightarrow> rat option" where
  "usage_image_output outputTokenDetails completionTokenDetails =
     (let detail = (\<lambda>k. or_else (opt_prop k outputTokenDetails) (opt_prop k completionTokenDetails));
          hasPartition = list_ex (\<lambda>k. finiteNonNegative (detail k) \<noteq> None)
                           [''text_tokens'', ''image_tokens'', ''audio_tokens'', ''video_tokens'']
      in or_else (finiteNonNegative (detail ''image_tokens'')) (if hasPartition then Some 0 else None))"

definition usageFromBody :: "json option \<Rightarrow> token_usage" where
  "usageFromBody body =
     (let u = opt_prop ''usage'' body in
      if \<not> is_object u then no_usage
      else
        let inputDetails = object_part (opt_prop ''input_tokens_details'' u);
            promptDetails = object_part (opt_prop ''prompt_tokens_details'' u);
            cacheCreationDetails = object_part (opt_prop ''cache_creation'' u);
            fiveMin = usage_ephemeral ''ephemeral_5m_input_tokens'' cacheCreationDetails inputDetails promptDetails;
            oneHour = usage_ephemeral ''ephemeral_1h_input_tokens'' cacheCreationDetails inputDetails promptDetails
        in \<lparr>promptTokens = usage_prompt u,
            completionTokens = or_else (finiteNonNegative (opt_prop ''completion_tokens'' u))
                                       (finiteNonNegative (opt_prop ''output_tokens'' u)),
            cachedPromptTokens = usage_cached u inputDetails promptDetails,
            cacheCreationPromptTokens =
              or_else (usage_explicit_creation u inputDetails promptDetails)
                (if fiveMin \<noteq> None \<or> oneHour \<noteq> None then Some (nullish fiveMin 0 + nullish oneHour 0) else None),
            cacheCreation5mPromptTokens = fiveMin,
            cacheCreation1hPromptTokens = oneHour,
            imageOutputTokens = usage_image_output (object_part (opt_prop ''output_tokens_details'' u))
                                                   (object_part (opt_prop ''completion_tokens_details'' u)),
            audioPromptTokens = or_else (finiteNonNegative (opt_prop ''audio_tokens'' inputDetails))
                                        (finiteNonNegative (opt_prop ''audio_tokens'' promptDetails)),
            cachedAudioPromptTokens = or_else (finiteNonNegative (opt_prop ''cached_audio_tokens'' inputDetails))
                                              (finiteNonNegative (opt_prop ''cached_audio_tokens'' promptDetails)),
            serviceTier = first_some [as_string (opt_prop ''service_tier'' body), as_string (opt_prop ''service_tier'' u),
                                      as_string (opt_prop ''speed'' u)],
            inferenceGeo = as_string (opt_prop ''inference_geo'' u)\<rparr>)"

subsection \<open>Selecting the card\<close>

definition normalizeInferenceGeoForPricing :: "string option \<Rightarrow> string option" where
  "normalizeInferenceGeoForPricing value =
     (case map_option (toLowerCase \<circ> trim) value of
        None \<Rightarrow> None
      | Some n \<Rightarrow> if n = [] \<or> n = ''not_available'' then None else Some n)"

definition namedServiceTier :: "token_usage \<Rightarrow> string option" where
  "namedServiceTier usage =
     (case map_option (toLowerCase \<circ> trim) (serviceTier usage) of
        None \<Rightarrow> None
      | Some n \<Rightarrow> if n \<in> set [''auto'', ''default'', ''standard'', ''unspecified''] then None else Some n)"

definition pick_context_tier :: "rat \<Rightarrow> context_tier list option \<Rightarrow> context_tier option" where
  "pick_context_tier prompt tiers =
     Option.bind tiers (\<lambda>ts. last_opt (filter (\<lambda>t. ct_minPromptTokens t \<le> prompt) ts))"

text \<open>
  The service card and the context card in force, or \<open>None\<close> where the request has no published price: a named
  tier without a card, or a prompt beyond the card's range.
\<close>

definition select_cards :: "pricing \<Rightarrow> token_usage \<Rightarrow> (service_tier option \<times> context_tier option) option" where
  "select_cards p usage =
     (let prompt = nullish (promptTokens usage) 0 in
      case namedServiceTier usage of
        None \<Rightarrow> Some (None, pick_context_tier prompt (pr_contextTiers p))
      | Some name \<Rightarrow>
          (case Option.bind (pr_serviceTiers p) (\<lambda>ts. map_of ts name) of
             None \<Rightarrow> None
           | Some s \<Rightarrow>
               if (case st_maxPromptTokens s of None \<Rightarrow> False | Some m \<Rightarrow> m < prompt) then None
               else Some (Some s, pick_context_tier prompt (st_contextTiers s))))"

record rates =
  r_input :: rat
  r_output :: rat
  r_cacheRead :: rat
  r_cacheWrite :: rat
  r_cacheWrite1h :: rat
  r_audioInput :: rat
  r_audioCacheRead :: rat
  r_imageOutput :: rat

text \<open>\<open>contextTier?.x ?? servicePricing?.x ?? pricing.x ?? d\<close>.\<close>

definition rate_of :: "rat option \<Rightarrow> rat option \<Rightarrow> rat option \<Rightarrow> rat \<Rightarrow> rat" where
  "rate_of c s p d = nullish (first_some [c, s, p]) d"

definition card_rates :: "pricing \<Rightarrow> service_tier option \<Rightarrow> context_tier option \<Rightarrow> rates option" where
  "card_rates p st ct =
     (case (first_some [map_option ct_inputPerMTokUsd ct, map_option st_inputPerMTokUsd st, pr_inputPerMTokUsd p],
            first_some [map_option ct_outputPerMTokUsd ct, map_option st_outputPerMTokUsd st, pr_outputPerMTokUsd p]) of
        (Some inp, Some out) \<Rightarrow>
          (let cr = rate_of (Option.bind ct cacheReadPerMTokUsd) (Option.bind st cacheReadPerMTokUsd) (cacheReadPerMTokUsd p) inp;
               cw = rate_of (Option.bind ct cacheWritePerMTokUsd) (Option.bind st cacheWritePerMTokUsd) (cacheWritePerMTokUsd p) inp
           in Some
             \<lparr>r_input = inp, r_output = out, r_cacheRead = cr, r_cacheWrite = cw,
              r_cacheWrite1h = rate_of (Option.bind ct cacheWrite1hPerMTokUsd) (Option.bind st cacheWrite1hPerMTokUsd) (cacheWrite1hPerMTokUsd p) cw,
              r_audioInput = rate_of (Option.bind ct audioInputPerMTokUsd) (Option.bind st audioInputPerMTokUsd) (audioInputPerMTokUsd p) inp,
              r_audioCacheRead = rate_of (Option.bind ct audioCacheReadPerMTokUsd) (Option.bind st audioCacheReadPerMTokUsd) (audioCacheReadPerMTokUsd p) cr,
              r_imageOutput = rate_of (Option.bind ct imageOutputPerMTokUsd) (Option.bind st imageOutputPerMTokUsd) (imageOutputPerMTokUsd p) out\<rparr>)
      | _ \<Rightarrow> None)"

subsection \<open>The buckets\<close>

definition exceeds :: "rat option \<Rightarrow> rat \<Rightarrow> bool" where
  "exceeds a b = (case a of None \<Rightarrow> False | Some x \<Rightarrow> b < x)"

definition usage_inconsistent :: "token_usage \<Rightarrow> bool" where
  "usage_inconsistent u =
     (let prompt = nullish (promptTokens u) 0; cached = nullish (cachedPromptTokens u) 0;
          cacheCreation = nullish (cacheCreationPromptTokens u) 0
      in (promptTokens u = None \<and>
            (cachedPromptTokens u \<noteq> None \<or> cacheCreationPromptTokens u \<noteq> None \<or>
             audioPromptTokens u \<noteq> None \<or> cachedAudioPromptTokens u \<noteq> None)) \<or>
         (completionTokens u = None \<and> imageOutputTokens u \<noteq> None) \<or>
         prompt < cached + cacheCreation \<or>
         exceeds (audioPromptTokens u) prompt \<or>
         exceeds (cachedAudioPromptTokens u) cached \<or>
         exceeds (cachedAudioPromptTokens u) (nullish (audioPromptTokens u) 0))"

record buckets =
  b_regularNonAudio :: rat
  b_freshAudio :: rat
  b_cachedNonAudio :: rat
  b_cachedAudio :: rat
  b_cacheWrite5m :: rat
  b_cacheWrite1h :: rat
  b_cacheWriteUnclassified :: rat
  b_regularOutput :: rat
  b_imageOutput :: rat

definition split_usage :: "token_usage \<Rightarrow> buckets" where
  "split_usage u =
     (let prompt = nullish (promptTokens u) 0; completion = nullish (completionTokens u) 0;
          cached = nullish (cachedPromptTokens u) 0; cacheCreation = nullish (cacheCreationPromptTokens u) 0;
          regularPrompt = max 0 (prompt - cached - cacheCreation);
          w5m = min cacheCreation (nullish (cacheCreation5mPromptTokens u) 0);
          w1h = min (max 0 (cacheCreation - w5m)) (nullish (cacheCreation1hPromptTokens u) 0);
          audioPrompt = min prompt (nullish (audioPromptTokens u) 0);
          cachedAudio = min (min cached audioPrompt) (nullish (cachedAudioPromptTokens u) 0);
          freshAudio = min regularPrompt (max 0 (audioPrompt - cachedAudio));
          imageOutput = min completion (nullish (imageOutputTokens u) 0)
      in \<lparr>b_regularNonAudio = max 0 (regularPrompt - freshAudio), b_freshAudio = freshAudio,
          b_cachedNonAudio = max 0 (cached - cachedAudio), b_cachedAudio = cachedAudio,
          b_cacheWrite5m = w5m, b_cacheWrite1h = w1h, b_cacheWriteUnclassified = max 0 (cacheCreation - w5m - w1h),
          b_regularOutput = max 0 (completion - imageOutput), b_imageOutput = imageOutput\<rparr>)"

text \<open>A rate card that prices modalities apart needs the provider's own partition.\<close>

definition partition_missing :: "rates \<Rightarrow> token_usage \<Rightarrow> bool" where
  "partition_missing r u =
     (let prompt = nullish (promptTokens u) 0; cached = nullish (cachedPromptTokens u) 0;
          completion = nullish (completionTokens u) 0; audioPrompt = min prompt (nullish (audioPromptTokens u) 0)
      in (0 < prompt \<and> r_audioInput r \<noteq> r_input r \<and> audioPromptTokens u = None) \<or>
         (0 < cached \<and> 0 < audioPrompt \<and> r_audioCacheRead r \<noteq> r_cacheRead r \<and> cachedAudioPromptTokens u = None) \<or>
         (0 < completion \<and> r_imageOutput r \<noteq> r_output r \<and> imageOutputTokens u = None))"

definition baseCost :: "rates \<Rightarrow> buckets \<Rightarrow> rat" where
  "baseCost r b =
     b_regularNonAudio b * r_input r / 1000000 +
     b_freshAudio b * r_audioInput r / 1000000 +
     b_cachedNonAudio b * r_cacheRead r / 1000000 +
     b_cachedAudio b * r_audioCacheRead r / 1000000 +
     b_cacheWrite5m b * r_cacheWrite r / 1000000 +
     b_cacheWrite1h b * r_cacheWrite1h r / 1000000 +
     b_cacheWriteUnclassified b * r_cacheWrite r / 1000000 +
     b_regularOutput b * r_output r / 1000000 +
     b_imageOutput b * r_imageOutput r / 1000000"

text \<open>The multiplier of the confirmed serving region: one when none is confirmed, \<open>None\<close> when it has no price.\<close>

definition geo_multiplier :: "pricing \<Rightarrow> token_usage \<Rightarrow> rat option" where
  "geo_multiplier p usage =
     (case normalizeInferenceGeoForPricing (inferenceGeo usage) of
        None \<Rightarrow> Some 1
      | Some g \<Rightarrow> Option.bind (pr_inferenceGeoMultipliers p) (\<lambda>m. map_of m g))"

definition computeCostUsd :: "pricing option \<Rightarrow> token_usage \<Rightarrow> rat option" where
  "computeCostUsd p usage =
     Option.bind p (\<lambda>p.
     Option.bind (select_cards p usage) (\<lambda>(st, ct).
     Option.bind (card_rates p st ct) (\<lambda>r.
     if usage_inconsistent usage \<or> partition_missing r usage then None
     else map_option (\<lambda>g. baseCost r (split_usage usage) * g) (geo_multiplier p usage))))"

subsection \<open>Billed amounts and the override rule\<close>

text \<open>\<open>^(0|[1-9][0-9]*)([.][0-9]+)?$\<close> and \<open>Number\<close>.\<close>

definition decimal_text :: "string \<Rightarrow> rat option" where
  "decimal_text s =
     (case parse_int_part s of
        None \<Rightarrow> None
      | Some (n, r) \<Rightarrow>
          (case parse_frac_part r of
             Some (f, []) \<Rightarrow> Some (of_nat n + f)
           | _ \<Rightarrow> None))"

definition billed_amount :: "json option \<Rightarrow> rat option" where
  "billed_amount v =
     (case as_string v of
        Some s \<Rightarrow> decimal_text s
      | None \<Rightarrow> finiteNonNegative v)"

definition anthropicBilledCostFromUsage :: "json option \<Rightarrow> rat option" where
  "anthropicBilledCostFromUsage usage =
     (if is_object usage
      then first_some [billed_amount (opt_prop ''cost_usd'' usage), billed_amount (opt_prop ''cost'' usage)]
      else None)"

definition billedCostFromBody :: "json option \<Rightarrow> rat option" where
  "billedCostFromBody body =
     (if is_object body
      then let usage = object_part (opt_prop ''usage'' body) in
           first_some [finiteNonNegative (opt_prop ''cost_usd'' usage), finiteNonNegative (opt_prop ''cost'' usage),
                       finiteNonNegative (opt_prop ''cost_usd'' body)]
      else None)"

definition usage_measured :: "token_usage \<Rightarrow> bool" where
  "usage_measured u =
     (promptTokens u \<noteq> None \<or> completionTokens u \<noteq> None \<or> cachedPromptTokens u \<noteq> None \<or>
      cacheCreationPromptTokens u \<noteq> None \<or> cacheCreation5mPromptTokens u \<noteq> None \<or>
      cacheCreation1hPromptTokens u \<noteq> None \<or> imageOutputTokens u \<noteq> None \<or>
      audioPromptTokens u \<noteq> None \<or> cachedAudioPromptTokens u \<noteq> None)"

definition resolveCostUsd :: "pricing option \<Rightarrow> json option \<Rightarrow> rat option" where
  "resolveCostUsd p body =
     (case billedCostFromBody body of
        Some b \<Rightarrow> Some b
      | None \<Rightarrow>
          (let usage = usageFromBody body
           in if usage_measured usage then computeCostUsd p usage else None))"

subsection \<open>Whatever a body says, its usage is well formed\<close>

definition usage_ok :: "token_usage \<Rightarrow> bool" where
  "usage_ok u =
     (price_ok (promptTokens u) \<and> price_ok (completionTokens u) \<and> price_ok (cachedPromptTokens u) \<and>
      price_ok (cacheCreationPromptTokens u) \<and> price_ok (cacheCreation5mPromptTokens u) \<and>
      price_ok (cacheCreation1hPromptTokens u) \<and> price_ok (imageOutputTokens u) \<and>
      price_ok (audioPromptTokens u) \<and> price_ok (cachedAudioPromptTokens u))"

lemma price_ok_simps [simp]: "price_ok None" "price_ok (Some x) \<longleftrightarrow> 0 \<le> x"
  by (simp_all add: price_ok_def)

lemma price_ok_finite [simp]: "price_ok (finiteNonNegative v)"
  by (cases v rule: finiteNonNegative.cases) auto

lemma price_ok_or_else [simp]: "price_ok a \<Longrightarrow> price_ok b \<Longrightarrow> price_ok (or_else a b)"
  by (cases a) auto

lemma first_some_simps [simp]: "first_some [] = None" "first_some (a # l) = or_else a (first_some l)"
  by (simp_all add: first_some_def)

lemma price_ok_first: "list_all price_ok l \<Longrightarrow> price_ok (first_some l)"
  by (induction l) auto

lemma nullish_nonneg [intro]: "price_ok a \<Longrightarrow> 0 \<le> b \<Longrightarrow> 0 \<le> nullish a b"
  by (cases a) auto

lemma nullish_finite_nonneg [simp]: "0 \<le> nullish (finiteNonNegative v) 0"
  by (rule nullish_nonneg) simp_all

lemma finite_nonneg: "finiteNonNegative v = Some x \<Longrightarrow> 0 \<le> x"
  using price_ok_finite [of v] by simp

lemma usage_prompt_ok: "price_ok (usage_prompt u)"
  unfolding usage_prompt_def Let_def
  by (auto split: option.split simp: finite_nonneg)

lemma usage_ephemeral_ok: "price_ok (usage_ephemeral k c i p)"
  by (simp add: usage_ephemeral_def)

lemma usageFromBody_ok: "usage_ok (usageFromBody body)"
proof -
  have *: "0 \<le> nullish (usage_ephemeral k c i p) 0" for k c i p
    by (rule nullish_nonneg [OF usage_ephemeral_ok]) simp
  show ?thesis
    unfolding usageFromBody_def usage_ok_def Let_def no_usage_def usage_image_output_def usage_cached_def
      usage_explicit_creation_def
    by (simp add: usage_prompt_ok usage_ephemeral_ok *)
qed

subsection \<open>The buckets partition the usage\<close>

definition bucket_list :: "buckets \<Rightarrow> rat list" where
  "bucket_list b =
     [b_regularNonAudio b, b_freshAudio b, b_cachedNonAudio b, b_cachedAudio b, b_cacheWrite5m b,
      b_cacheWrite1h b, b_cacheWriteUnclassified b, b_regularOutput b, b_imageOutput b]"

definition rate_list :: "rates \<Rightarrow> rat list" where
  "rate_list r =
     [r_input r, r_audioInput r, r_cacheRead r, r_audioCacheRead r, r_cacheWrite r,
      r_cacheWrite1h r, r_cacheWrite r, r_output r, r_imageOutput r]"

definition usage_total :: "token_usage \<Rightarrow> rat" where
  "usage_total u = nullish (promptTokens u) 0 + nullish (completionTokens u) 0"

lemma baseCost_sum: "baseCost r b = sum_list (map2 (*) (bucket_list b) (rate_list r)) / 1000000"
  by (simp add: baseCost_def bucket_list_def rate_list_def field_simps)

lemma nonneg_parts:
  assumes "usage_ok u"
  shows "0 \<le> nullish (promptTokens u) 0" "0 \<le> nullish (completionTokens u) 0"
    "0 \<le> nullish (cachedPromptTokens u) 0" "0 \<le> nullish (cacheCreationPromptTokens u) 0"
    "0 \<le> nullish (cacheCreation5mPromptTokens u) 0" "0 \<le> nullish (cacheCreation1hPromptTokens u) 0"
    "0 \<le> nullish (imageOutputTokens u) 0" "0 \<le> nullish (audioPromptTokens u) 0"
    "0 \<le> nullish (cachedAudioPromptTokens u) 0"
  using assms by (auto simp: usage_ok_def)

lemma buckets_nonneg: "usage_ok u \<Longrightarrow> list_all ((\<le>) 0) (bucket_list (split_usage u))"
  using nonneg_parts [of u] by (simp add: bucket_list_def split_usage_def Let_def min_le_iff_disj)

lemma buckets_sum:
  assumes "usage_ok u" and "\<not> usage_inconsistent u"
  shows "sum_list (bucket_list (split_usage u)) = usage_total u"
proof -
  have le: "nullish (cachedPromptTokens u) 0 + nullish (cacheCreationPromptTokens u) 0 \<le> nullish (promptTokens u) 0"
    using assms(2) by (simp add: usage_inconsistent_def Let_def)
  have split: "max 0 (a - min a b) + min a b = a" if "0 \<le> a" "0 \<le> b" for a b :: rat
    using that by auto
  show ?thesis
    using nonneg_parts [OF assms(1)] le
    unfolding bucket_list_def split_usage_def usage_total_def Let_def
    by (simp add: min_def max_def)
qed

lemma weighted_bounds:
  fixes bs rs :: "rat list"
  assumes "length bs = length rs" and "list_all ((\<le>) 0) bs" and "list_all (\<lambda>r. lo \<le> r \<and> r \<le> hi) rs"
  shows "lo * sum_list bs \<le> sum_list (map2 (*) bs rs) \<and> sum_list (map2 (*) bs rs) \<le> hi * sum_list bs"
  using assms
proof (induction bs rs rule: list_induct2)
  case (Cons b bs r rs)
  then have "lo * b \<le> b * r" "b * r \<le> hi * b"
    by (auto simp: mult.commute [of _ b] intro!: mult_left_mono)
  with Cons show ?case by (auto simp: algebra_simps)
qed simp

lemma baseCost_bounds:
  assumes "usage_ok u" "\<not> usage_inconsistent u" "list_all (\<lambda>r. lo \<le> r \<and> r \<le> hi) (rate_list r)"
  shows "lo * usage_total u / 1000000 \<le> baseCost r (split_usage u)"
    and "baseCost r (split_usage u) \<le> hi * usage_total u / 1000000"
  using weighted_bounds [OF _ buckets_nonneg [OF assms(1)] assms(3)] buckets_sum [OF assms(1,2)]
  by (auto simp: baseCost_sum bucket_list_def rate_list_def divide_right_mono)

subsection \<open>The rates in force come from the card\<close>

text \<open>Every rate a card can apply to a request.\<close>

definition card_prices :: "'a extra_rates_scheme \<Rightarrow> rat set" where
  "card_prices c =
     set_option (cacheReadPerMTokUsd c) \<union> set_option (cacheWritePerMTokUsd c) \<union> set_option (cacheWrite1hPerMTokUsd c) \<union>
     set_option (imageOutputPerMTokUsd c) \<union> set_option (audioInputPerMTokUsd c) \<union> set_option (audioCacheReadPerMTokUsd c)"

definition tier_prices :: "context_tier list option \<Rightarrow> rat set" where
  "tier_prices ts =
     (\<Union>t \<in> (case ts of None \<Rightarrow> {} | Some l \<Rightarrow> set l). card_prices t \<union> {ct_inputPerMTokUsd t, ct_outputPerMTokUsd t})"

definition service_prices :: "service_tier \<Rightarrow> rat set" where
  "service_prices s = card_prices s \<union> {st_inputPerMTokUsd s, st_outputPerMTokUsd s} \<union> tier_prices (st_contextTiers s)"

definition published_prices :: "pricing \<Rightarrow> rat set" where
  "published_prices p =
     card_prices p \<union> set_option (pr_inputPerMTokUsd p) \<union> set_option (pr_outputPerMTokUsd p) \<union>
     tier_prices (pr_contextTiers p) \<union>
     (\<Union>s \<in> snd ` set (nullish (pr_serviceTiers p) []). service_prices s)"

lemma pick_context_tier_in:
  assumes "pick_context_tier n ts = Some t"
  shows "\<exists>l. ts = Some l \<and> t \<in> set l"
  using assms last_opt_in [of _ t] by (cases ts) (fastforce simp: pick_context_tier_def)+

lemma tier_prices_in:
  assumes "pick_context_tier n ts = Some t"
  shows "card_prices t \<subseteq> tier_prices ts" "ct_inputPerMTokUsd t \<in> tier_prices ts" "ct_outputPerMTokUsd t \<in> tier_prices ts"
  using pick_context_tier_in [OF assms] by (auto simp: tier_prices_def)

lemma card_prices_bind:
  "set_option (Option.bind (c :: 'a extra_rates_scheme option) cacheReadPerMTokUsd) \<subseteq> (\<Union>x \<in> set_option c. card_prices x)"
  "set_option (Option.bind c cacheWritePerMTokUsd) \<subseteq> (\<Union>x \<in> set_option c. card_prices x)"
  "set_option (Option.bind c cacheWrite1hPerMTokUsd) \<subseteq> (\<Union>x \<in> set_option c. card_prices x)"
  "set_option (Option.bind c imageOutputPerMTokUsd) \<subseteq> (\<Union>x \<in> set_option c. card_prices x)"
  "set_option (Option.bind c audioInputPerMTokUsd) \<subseteq> (\<Union>x \<in> set_option c. card_prices x)"
  "set_option (Option.bind c audioCacheReadPerMTokUsd) \<subseteq> (\<Union>x \<in> set_option c. card_prices x)"
  by (cases c; simp add: card_prices_def; blast)+

lemma rate_of_in:
  assumes "set_option c \<subseteq> S" "set_option s \<subseteq> S" "set_option p \<subseteq> S" "d \<in> S"
  shows "rate_of c s p d \<in> S"
  using assms by (cases c; cases s; cases p) (auto simp: rate_of_def)

lemma card_rates_from:
  assumes "card_rates p st ct = Some r"
    and sub: "(\<Union>x \<in> set_option ct. card_prices x \<union> {ct_inputPerMTokUsd x, ct_outputPerMTokUsd x}) \<subseteq> S"
      "(\<Union>x \<in> set_option st. card_prices x \<union> {st_inputPerMTokUsd x, st_outputPerMTokUsd x}) \<subseteq> S"
      "card_prices p \<union> set_option (pr_inputPerMTokUsd p) \<union> set_option (pr_outputPerMTokUsd p) \<subseteq> S"
  shows "set (rate_list r) \<subseteq> S"
proof -
  obtain inp out where io:
    "first_some [map_option ct_inputPerMTokUsd ct, map_option st_inputPerMTokUsd st, pr_inputPerMTokUsd p] = Some inp"
    "first_some [map_option ct_outputPerMTokUsd ct, map_option st_outputPerMTokUsd st, pr_outputPerMTokUsd p] = Some out"
    using assms(1) by (auto simp: card_rates_def split: option.splits)
  have inS: "inp \<in> S" "out \<in> S"
    using io sub by (cases ct; cases st; force)+
  have cp: "card_prices p \<subseteq> S" "(\<Union>x \<in> set_option ct. card_prices x) \<subseteq> S" "(\<Union>x \<in> set_option st. card_prices x) \<subseteq> S"
    using sub by blast+
  have p: "set_option (cacheReadPerMTokUsd p) \<subseteq> S" "set_option (cacheWritePerMTokUsd p) \<subseteq> S"
    "set_option (cacheWrite1hPerMTokUsd p) \<subseteq> S" "set_option (imageOutputPerMTokUsd p) \<subseteq> S"
    "set_option (audioInputPerMTokUsd p) \<subseteq> S" "set_option (audioCacheReadPerMTokUsd p) \<subseteq> S"
    using cp(1) by (auto simp: card_prices_def)
  note c = card_prices_bind [of ct, THEN subset_trans, OF cp(2)]
  note s = card_prices_bind [of st, THEN subset_trans, OF cp(3)]
  have "rate_of (Option.bind ct cacheReadPerMTokUsd) (Option.bind st cacheReadPerMTokUsd) (cacheReadPerMTokUsd p) inp \<in> S"
    "rate_of (Option.bind ct cacheWritePerMTokUsd) (Option.bind st cacheWritePerMTokUsd) (cacheWritePerMTokUsd p) inp \<in> S"
    by (rule rate_of_in; (rule c s p inS))+
  moreover from this have
    "rate_of (Option.bind ct cacheWrite1hPerMTokUsd) (Option.bind st cacheWrite1hPerMTokUsd) (cacheWrite1hPerMTokUsd p)
       (rate_of (Option.bind ct cacheWritePerMTokUsd) (Option.bind st cacheWritePerMTokUsd) (cacheWritePerMTokUsd p) inp) \<in> S"
    "rate_of (Option.bind ct audioCacheReadPerMTokUsd) (Option.bind st audioCacheReadPerMTokUsd) (audioCacheReadPerMTokUsd p)
       (rate_of (Option.bind ct cacheReadPerMTokUsd) (Option.bind st cacheReadPerMTokUsd) (cacheReadPerMTokUsd p) inp) \<in> S"
    "rate_of (Option.bind ct audioInputPerMTokUsd) (Option.bind st audioInputPerMTokUsd) (audioInputPerMTokUsd p) inp \<in> S"
    "rate_of (Option.bind ct imageOutputPerMTokUsd) (Option.bind st imageOutputPerMTokUsd) (imageOutputPerMTokUsd p) out \<in> S"
    by - (rule rate_of_in; (rule c s p inS | assumption))+
  ultimately show ?thesis
    using assms(1) inS io by (auto simp: card_rates_def rate_list_def Let_def)
qed

lemma selected_rates_published:
  assumes "select_cards p u = Some (st, ct)" and "card_rates p st ct = Some r"
  shows "set (rate_list r) \<subseteq> published_prices p"
proof (rule card_rates_from [OF assms(2)])
  let ?n = "nullish (promptTokens u) 0" and ?S = "published_prices p"
  have tiers: "card_prices t \<union> {ct_inputPerMTokUsd t, ct_outputPerMTokUsd t} \<subseteq> tier_prices ts"
    if "pick_context_tier ?n ts = Some t" for t ts
    using tier_prices_in [OF that] by simp
  have "(\<Union>x \<in> set_option ct. card_prices x \<union> {ct_inputPerMTokUsd x, ct_outputPerMTokUsd x}) \<subseteq> ?S \<and>
    (\<Union>x \<in> set_option st. card_prices x \<union> {st_inputPerMTokUsd x, st_outputPerMTokUsd x}) \<subseteq> ?S"
  proof (cases "namedServiceTier u")
    case None
    then have "st = None" "ct = pick_context_tier ?n (pr_contextTiers p)"
      using assms(1) by (auto simp: select_cards_def)
    moreover have "tier_prices (pr_contextTiers p) \<subseteq> ?S" by (auto simp: published_prices_def)
    ultimately show ?thesis using tiers by (cases ct) (simp, fastforce)
  next
    case (Some name)
    obtain ts s where ts: "pr_serviceTiers p = Some ts" "map_of ts name = Some s"
      using assms(1) Some by (cases "Option.bind (pr_serviceTiers p) (\<lambda>ts. map_of ts name)")
        (auto simp: select_cards_def split: bind_splits)
    with assms(1) Some have s: "pr_serviceTiers p = Some ts" "map_of ts name = Some s"
      "st = Some s" "ct = pick_context_tier ?n (st_contextTiers s)"
      by (simp_all add: select_cards_def Let_def split: if_splits)
    then have "s \<in> snd ` set (nullish (pr_serviceTiers p) [])"
      by (force dest: map_of_SomeD)
    then have sub: "service_prices s \<subseteq> ?S" by (auto simp: published_prices_def)
    then have "tier_prices (st_contextTiers s) \<subseteq> ?S" "card_prices s \<union> {st_inputPerMTokUsd s, st_outputPerMTokUsd s} \<subseteq> ?S"
      by (simp_all add: service_prices_def)
    then show ?thesis using tiers s(3,4) by (cases ct) (simp, fastforce)
  qed
  then show "(\<Union>x \<in> set_option ct. card_prices x \<union> {ct_inputPerMTokUsd x, ct_outputPerMTokUsd x}) \<subseteq> ?S"
    "(\<Union>x \<in> set_option st. card_prices x \<union> {st_inputPerMTokUsd x, st_outputPerMTokUsd x}) \<subseteq> ?S" by blast+
qed (auto simp: published_prices_def)

lemma computeCostUsd_cases:
  assumes "computeCostUsd (Some p) u = Some c"
  obtains r g where "set (rate_list r) \<subseteq> published_prices p" "\<not> usage_inconsistent u" "geo_multiplier p u = Some g"
    "c = baseCost r (split_usage u) * g"
proof -
  obtain st ct where s: "select_cards p u = Some (st, ct)"
    using assms by (auto simp: computeCostUsd_def split: bind_splits)
  obtain r where r: "card_rates p st ct = Some r"
    using assms s by (auto simp: computeCostUsd_def split: bind_splits)
  obtain g where "\<not> usage_inconsistent u" "geo_multiplier p u = Some g" "c = baseCost r (split_usage u) * g"
    using assms s r by (auto simp: computeCostUsd_def split: if_splits)
  with that selected_rates_published [OF s r] show thesis by blast
qed

lemma card_prices_nonneg: "extra_ok c \<Longrightarrow> x \<in> card_prices c \<Longrightarrow> 0 \<le> x"
  by (auto simp: extra_ok_def card_prices_def)

lemma tier_prices_nonneg: "ContextPricingTiersSchema ts \<Longrightarrow> x \<in> tier_prices ts \<Longrightarrow> 0 \<le> x"
  by (cases ts) (auto simp: ContextPricingTiersSchema_def tier_prices_def ContextPricingTierSchema_def list_all_iff
      dest: card_prices_nonneg)

lemma service_prices_nonneg: "ServicePricingTierSchema s \<Longrightarrow> x \<in> service_prices s \<Longrightarrow> 0 \<le> x"
  by (auto simp: ServicePricingTierSchema_def service_prices_def dest: card_prices_nonneg tier_prices_nonneg)

lemma published_nonneg: "PricingSchema p \<Longrightarrow> x \<in> published_prices p \<Longrightarrow> 0 \<le> x"
  by (auto simp: PricingSchema_def published_prices_def list_all_iff nullish_def split: option.splits
      dest: card_prices_nonneg tier_prices_nonneg service_prices_nonneg)

lemma geo_nonneg: "PricingSchema p \<Longrightarrow> geo_multiplier p u = Some g \<Longrightarrow> 0 \<le> g"
  by (cases "pr_inferenceGeoMultipliers p")
    (auto simp: PricingSchema_def geo_multiplier_def list_all_iff split: option.splits dest!: map_of_SomeD)

lemma usage_total_nonneg: "usage_ok u \<Longrightarrow> 0 \<le> usage_total u"
  by (simp add: usage_total_def nonneg_parts)

lemma billed_nonneg: "price_ok (billedCostFromBody body)"
  by (simp add: billedCostFromBody_def Let_def)

subsection \<open>Properties\<close>

text \<open>
  C33. Every token is priced exactly once, at a published rate: a computed cost lies between the token total at
  the cheapest and at the dearest price of the model's card, times the multiplier of the serving region. With
  one flat price it is exactly the token total at that price.
\<close>

theorem cost_within_published_rates:
  assumes "computeCostUsd (Some p) u = Some c" "usage_ok u" "geo_multiplier p u = Some g" "0 \<le> g"
    and "\<forall>x. x \<in> published_prices p \<longrightarrow> lo \<le> x \<and> x \<le> hi"
  shows "lo * usage_total u / 1000000 * g \<le> c \<and> c \<le> hi * usage_total u / 1000000 * g"
proof (rule computeCostUsd_cases [OF assms(1)])
  fix r g'
  assume r: "set (rate_list r) \<subseteq> published_prices p" "\<not> usage_inconsistent u" "geo_multiplier p u = Some g'"
    "c = baseCost r (split_usage u) * g'"
  then have "list_all (\<lambda>x. lo \<le> x \<and> x \<le> hi) (rate_list r)" using assms(5) by (auto simp: list_all_iff)
  from baseCost_bounds [OF assms(2) r(2) this, THEN mult_right_mono, OF assms(4)] r(3,4) assms(3)
  show ?thesis by simp
qed

definition demo_card :: pricing where
  "demo_card =
     \<lparr>cacheReadPerMTokUsd = Some (1 / 2), cacheWritePerMTokUsd = None, cacheWrite1hPerMTokUsd = Some 6,
      imageOutputPerMTokUsd = None, audioInputPerMTokUsd = None, audioCacheReadPerMTokUsd = None,
      pr_inputPerMTokUsd = Some 3, pr_outputPerMTokUsd = Some 15, pr_contextTiers = None,
      pr_serviceTiers = None, pr_inferenceGeoMultipliers = Some [(''us'', 11 / 10)]\<rparr>"

definition demo_usage :: token_usage where
  "demo_usage = no_usage\<lparr>promptTokens := Some 1000, completionTokens := Some 200, cachedPromptTokens := Some 400,
                        cacheCreationPromptTokens := Some 100, cacheCreation1hPromptTokens := Some 60,
                        inferenceGeo := Some ''US ''\<rparr>"

theorem cost_within_published_rates_witness:
  "computeCostUsd (Some demo_card) demo_usage = Some (259 / 50000 * (11 / 10)) \<and>
   (1 / 2) * 1200 / 1000000 * (11 / 10) \<le> (259 / 50000 * (11 / 10) :: rat)"
proof -
  have c: "computeCostUsd (Some demo_card) demo_usage = Some (259 / 50000 * (11 / 10))" by code_simp
  have g: "geo_multiplier demo_card demo_usage = Some (11 / 10)" by code_simp
  have u: "usage_ok demo_usage" by code_simp
  have t: "usage_total demo_usage = 1200" by code_simp
  have "\<forall>x. x \<in> published_prices demo_card \<longrightarrow> 1 / 2 \<le> x \<and> x \<le> 15"
    by (simp add: published_prices_def demo_card_def card_prices_def tier_prices_def)
  from cost_within_published_rates [OF c u g _ this] c t show ?thesis by simp
qed

text \<open>
  Whatever an upstream sends, a model whose card passes the catalog schema never gets a negative cost: the
  usage read from any JSON body has only non-negative counts, and so has any billed amount that overrides it.
\<close>

theorem resolved_cost_never_negative:
  assumes "PricingSchema p" and "resolveCostUsd (Some p) body = Some c"
  shows "0 \<le> c"
proof (cases "billedCostFromBody body")
  case None
  let ?u = "usageFromBody body"
  have c: "computeCostUsd (Some p) ?u = Some c"
    using assms(2) None by (simp add: resolveCostUsd_def Let_def split: if_splits)
  show ?thesis
  proof (rule computeCostUsd_cases [OF c])
    fix r g
    assume r: "set (rate_list r) \<subseteq> published_prices p" "\<not> usage_inconsistent ?u" "geo_multiplier p ?u = Some g"
      "c = baseCost r (split_usage ?u) * g"
    then have "list_all (\<lambda>x. 0 \<le> x \<and> x \<le> Max (set (rate_list r))) (rate_list r)"
      using published_nonneg [OF assms(1)] by (auto simp: list_all_iff)
    from baseCost_bounds(1) [OF usageFromBody_ok r(2) this] have "0 \<le> baseCost r (split_usage ?u)" by simp
    with r(4) geo_nonneg [OF assms(1) r(3)] show ?thesis by simp
  qed
next
  case (Some b)
  with assms(2) billed_nonneg [of body] show ?thesis by (simp add: resolveCostUsd_def)
qed

theorem resolved_cost_never_negative_witness:
  "\<exists>c. resolveCostUsd (Some demo_card)
         (JSON_parse ''{\"usage\":{\"input_tokens\":100,\"output_tokens\":-5,\"cache_read_input_tokens\":50}}'') = Some c \<and> 0 \<le> c"
proof -
  have s: "PricingSchema demo_card" by code_simp
  have c: "resolveCostUsd (Some demo_card)
      (JSON_parse ''{\"usage\":{\"input_tokens\":100,\"output_tokens\":-5,\"cache_read_input_tokens\":50}}'') = Some (13 / 40000)"
    by code_simp
  from resolved_cost_never_negative [OF s c] c show ?thesis by blast
qed

end
