(* ===== verification/Client_Policy.thy ===== *)
theory Client_Policy
  imports Json
begin

text \<open>
  Client policies (\<open>packages/shared/src/key/client-policy.ts\<close>): the classification of a user agent by product
  token, the policy a key may carry, the fail-closed reading of a stored policy and the verdict. The regular
  expressions are matchers that return every remainder; a header is a Latin-1 string, as HTTP has it.
\<close>

datatype client_id = Codex_app | Codex_cli | Claude_cli | Claude_desktop | Grok_cli

definition ClientId_options :: "client_id list" where
  "ClientId_options = [Codex_app, Codex_cli, Claude_cli, Claude_desktop, Grok_cli]"

fun client_name :: "client_id \<Rightarrow> string" where
  "client_name Codex_app = ''codex_app''"
| "client_name Codex_cli = ''codex_cli''"
| "client_name Claude_cli = ''claude_cli''"
| "client_name Claude_desktop = ''claude_desktop''"
| "client_name Grok_cli = ''grok_cli''"

definition client_of :: "string \<Rightarrow> client_id option" where
  "client_of s = List.find (\<lambda>c. client_name c = s) ClientId_options"

subsection \<open>Matchers\<close>

text \<open>A matcher gives the remainders of the text after each of its matches at the front.\<close>

type_synonym matcher = "string \<Rightarrow> string list"

definition lit :: "(char \<Rightarrow> char) \<Rightarrow> string \<Rightarrow> matcher" where
  "lit fc w s = (if map fc (take (length w) s) = w then [drop (length w) s] else [])"

definition one :: "(char \<Rightarrow> bool) \<Rightarrow> matcher" where
  "one p s = (case s of [] \<Rightarrow> [] | c # cs \<Rightarrow> if p c then [cs] else [])"

fun many :: "(char \<Rightarrow> bool) \<Rightarrow> matcher" where
  "many p [] = [[]]"
| "many p (c # cs) = (if p c then (c # cs) # many p cs else [c # cs])"

definition andthen :: "matcher \<Rightarrow> matcher \<Rightarrow> matcher" where
  "andthen a b s = concat (map b (a s))"

definition some_of :: "(char \<Rightarrow> bool) \<Rightarrow> matcher" where
  "some_of p = andthen (one p) (many p)"

definition either :: "matcher \<Rightarrow> matcher \<Rightarrow> matcher" where
  "either a b s = a s @ b s"

definition maybe :: "matcher \<Rightarrow> matcher" where
  "maybe a s = a s @ [s]"

definition ascii_digit :: "char \<Rightarrow> bool" where
  "ascii_digit c = (let n = of_char c :: nat in 48 \<le> n \<and> n \<le> 57)"

definition ascii_letter :: "char \<Rightarrow> bool" where
  "ascii_letter c = (let n = of_char c :: nat in (65 \<le> n \<and> n \<le> 90) \<or> (97 \<le> n \<and> n \<le> 122))"

text \<open>The HTTP token characters and the version suffix characters.\<close>

definition token_char :: "char \<Rightarrow> bool" where
  "token_char c = (c \<in> set ''!#$%&*+.^_`|~-'' \<or> of_char c = (39 :: nat) \<or> ascii_digit c \<or> ascii_letter c)"

definition version_char :: "char \<Rightarrow> bool" where
  "version_char c = (c \<in> set ''_.+-'' \<or> ascii_digit c \<or> ascii_letter c)"

definition opaque_version :: matcher where
  "opaque_version = maybe (andthen (lit id ''/'') (some_of token_char))"

definition dotted_version :: matcher where
  "dotted_version = andthen (some_of ascii_digit) (andthen (lit id ''.'') (andthen (some_of ascii_digit) (many version_char)))"

fun profile :: "client_id \<Rightarrow> matcher" where
  "profile Codex_app =
     andthen (lit lower_char ''codex'')
       (andthen (one (\<lambda>c. c \<in> set '' _-'')) (andthen (lit lower_char ''desktop'') opaque_version))"
| "profile Codex_cli =
     andthen (either (lit lower_char ''codex-tui'')
                (either (lit lower_char ''codex_exec'') (lit lower_char ''codex_cli_rs''))) opaque_version"
| "profile Claude_cli =
     andthen (lit id ''claude-cli/'') (andthen dotted_version
       (andthen (lit id '' (external, '') (andthen (either (lit id ''sdk-cli'') (lit id ''cli'')) (lit id '')''))))"
| "profile Claude_desktop = andthen (lit id ''Claude/'') dotted_version"
| "profile Grok_cli = andthen (lit id ''grok-shell/'') dotted_version"

text \<open>\<open>(^| )\<close> before the token, end of text or a space after it.\<close>

fun after_spaces :: "string \<Rightarrow> string list" where
  "after_spaces [] = []"
| "after_spaces (c # cs) = (if c = CHR '' '' then cs # after_spaces cs else after_spaces cs)"

definition token_ends :: "string \<Rightarrow> bool" where
  "token_ends r = (case r of [] \<Rightarrow> True | c # cs \<Rightarrow> c = CHR '' '')"

definition profile_test :: "client_id \<Rightarrow> string \<Rightarrow> bool" where
  "profile_test c s = list_ex (\<lambda>t. list_ex token_ends (profile c t)) (s # after_spaces s)"

definition control_char :: "char \<Rightarrow> bool" where
  "control_char c = (let n = of_char c :: nat in n < 32 \<or> n = 127)"

definition classifyClient :: "string option \<Rightarrow> client_id option" where
  "classifyClient userAgent =
     (case userAgent of
        None \<Rightarrow> None
      | Some ua \<Rightarrow>
          if ua = [] \<or> 4096 < length ua then None
          else if list_ex control_char ua then None
          else
            (case filter (\<lambda>c. profile_test c ua) ClientId_options of
               [c] \<Rightarrow> Some c
             | _ \<Rightarrow> None))"

subsection \<open>Policies\<close>

fun client_ids :: "json list \<Rightarrow> client_id list option" where
  "client_ids [] = Some []"
| "client_ids (JStr s # vs) =
     Option.bind (client_of s) (\<lambda>c. map_option (\<lambda>cs. c # cs) (client_ids vs))"
| "client_ids (v # vs) = None"

text \<open>A strict object with the one key, a list of one to five distinct known clients.\<close>

definition ClientPolicySchema :: "json \<Rightarrow> client_id list option" where
  "ClientPolicySchema v =
     (case v of
        JObj [(k, JArr vs)] \<Rightarrow>
          if k \<noteq> ''allowed_clients'' then None
          else
            (case client_ids vs of
               None \<Rightarrow> None
             | Some ids \<Rightarrow> if ids \<noteq> [] \<and> length ids \<le> 5 \<and> distinct ids then Some ids else None)
      | _ \<Rightarrow> None)"

definition policy_json :: "client_id list \<Rightarrow> json" where
  "policy_json ids = JObj [(''allowed_clients'', JArr (map (JStr \<circ> client_name) ids))]"

definition readStoredClientPolicy :: "json \<Rightarrow> client_id list" where
  "readStoredClientPolicy v = nullish (ClientPolicySchema v) []"

definition readStoredClientPolicyJson :: "string \<Rightarrow> client_id list" where
  "readStoredClientPolicyJson s =
     (case JSON_parse s of None \<Rightarrow> [] | Some v \<Rightarrow> readStoredClientPolicy v)"

datatype policy_reason = Disabled | Invalid_policy | Allowed | Client_not_selected | Unknown_client

record policy_verdict =
  pv_allowed :: bool
  pv_client :: "client_id option"
  pv_reason :: policy_reason

definition evaluateClientPolicy :: "json option \<Rightarrow> string option \<Rightarrow> policy_verdict" where
  "evaluateClientPolicy policy userAgent =
     (if is_nullish policy then \<lparr>pv_allowed = True, pv_client = None, pv_reason = Disabled\<rparr>
      else
        let client = classifyClient userAgent in
        (case ClientPolicySchema (the policy) of
           None \<Rightarrow> \<lparr>pv_allowed = False, pv_client = client, pv_reason = Invalid_policy\<rparr>
         | Some ids \<Rightarrow>
             let allowed = (case client of None \<Rightarrow> False | Some c \<Rightarrow> c \<in> set ids) in
             \<lparr>pv_allowed = allowed, pv_client = client,
              pv_reason = (if allowed then Allowed
                           else if client \<noteq> None then Client_not_selected else Unknown_client)\<rparr>))"

subsection \<open>What a match means\<close>

lemma many_iff: "r \<in> set (many p s) \<longleftrightarrow> (\<exists>u. s = u @ r \<and> list_all p u)"
proof (induction s)
  case (Cons c s)
  show ?case
  proof
    assume "r \<in> set (many p (c # s))"
    then consider "r = c # s" | "p c" "r \<in> set (many p s)" by (auto split: if_splits)
    then show "\<exists>u. c # s = u @ r \<and> list_all p u"
    proof cases
      case 2
      then obtain u where "s = u @ r" "list_all p u" using Cons.IH by blast
      with 2 show ?thesis by (intro exI [of _ "c # u"]) simp
    qed (intro exI [of _ "[]"], simp)
  next
    assume "\<exists>u. c # s = u @ r \<and> list_all p u"
    then obtain u where u: "c # s = u @ r" "list_all p u" by blast
    then show "r \<in> set (many p (c # s))" using Cons.IH by (cases u) auto
  qed
qed auto

lemma after_spaces_iff: "t \<in> set (after_spaces s) \<longleftrightarrow> (\<exists>a. s = a @ '' '' @ t)"
proof (induction s)
  case (Cons c s)
  have "(\<exists>a. c # s = a @ '' '' @ t) \<longleftrightarrow> (c = CHR '' '' \<and> s = t) \<or> (\<exists>a. s = a @ '' '' @ t)"
    by (auto simp: Cons_eq_append_conv)
  with Cons show ?case by auto
qed simp

text \<open>
  A matcher consumes a prefix: its remainders are suffixes of the text. Every profile is one.
\<close>

definition consumes :: "matcher \<Rightarrow> bool" where
  "consumes m \<longleftrightarrow> (\<forall>s r. r \<in> set (m s) \<longrightarrow> (\<exists>u. s = u @ r))"

lemma consumes_lit [simp]: "consumes (lit f w)"
  unfolding consumes_def lit_def by (auto intro: append_take_drop_id [symmetric])

lemma consumes_one [simp]: "consumes (one p)"
  by (auto simp: consumes_def one_def split: list.splits)

lemma consumes_many [simp]: "consumes (many p)"
  by (auto simp: consumes_def many_iff)

lemma consumes_andthen [simp]: "consumes a \<Longrightarrow> consumes b \<Longrightarrow> consumes (andthen a b)"
  by (auto simp: consumes_def andthen_def) (metis append.assoc)

lemma consumes_either [simp]: "consumes a \<Longrightarrow> consumes b \<Longrightarrow> consumes (either a b)"
  by (auto simp: consumes_def either_def)

lemma consumes_maybe [simp]: "consumes a \<Longrightarrow> consumes (maybe a)"
  by (auto simp: consumes_def maybe_def)

lemma consumes_profile: "consumes (profile c)"
  by (cases c) (simp_all add: opaque_version_def dotted_version_def some_of_def)

text \<open>A product token of the client, standing between boundaries.\<close>

lemma profile_test_iff:
  "profile_test c ua \<longleftrightarrow>
     (\<exists>a t r. ua = a @ t @ r \<and> (a = [] \<or> (\<exists>a'. a = a' @ '' '')) \<and> r \<in> set (profile c (t @ r)) \<and> token_ends r)"
  (is "_ \<longleftrightarrow> ?R")
proof
  assume "profile_test c ua"
  then obtain s where "s \<in> set (ua # after_spaces ua)" "list_ex token_ends (profile c s)"
    by (auto simp: profile_test_def list_ex_iff)
  then obtain r where s: "s = ua \<or> (\<exists>a. ua = a @ '' '' @ s)" and r: "r \<in> set (profile c s)" "token_ends r"
    by (auto simp: list_ex_iff after_spaces_iff)
  obtain t where t: "s = t @ r" using consumes_profile [of c] r(1) unfolding consumes_def by blast
  from s show ?R
  proof
    assume "s = ua"
    with r t show ?R by (intro exI [of _ "[]"] exI [of _ t] exI [of _ r]) simp
  next
    assume "\<exists>a. ua = a @ '' '' @ s"
    then obtain a where "ua = a @ '' '' @ s" by blast
    with r t show ?R by (intro exI [of _ "a @ '' ''"] exI [of _ t] exI [of _ r]) simp
  qed
next
  assume ?R
  then obtain a t r where *: "ua = a @ t @ r" "a = [] \<or> (\<exists>a'. a = a' @ '' '')" "r \<in> set (profile c (t @ r))" "token_ends r"
    by blast
  then have "t @ r = ua \<or> t @ r \<in> set (after_spaces ua)" by (auto simp: after_spaces_iff)
  with * show "profile_test c ua" by (auto simp: profile_test_def list_ex_iff)
qed

lemma client_of_name [simp]: "client_of (client_name c) = Some c"
  by (cases c) (simp_all add: client_of_def ClientId_options_def)

lemma client_ids_names: "client_ids (map (JStr \<circ> client_name) ids) = Some ids"
  by (induction ids) simp_all

lemma client_id_in_options: "c \<in> set ClientId_options"
  by (cases c) (simp_all add: ClientId_options_def)

lemma classify_unique:
  assumes "classifyClient (Some ua) = Some c"
  shows "\<not> list_ex control_char ua" and "profile_test d ua \<longleftrightarrow> d = c"
proof -
  have f: "filter (\<lambda>c. profile_test c ua) ClientId_options = [c]"
    using assms by (auto simp: classifyClient_def split: if_splits list.splits)
  have "d \<in> set (filter (\<lambda>c. profile_test c ua) ClientId_options) \<longleftrightarrow> profile_test d ua" for d
    by (simp add: client_id_in_options)
  from this [of d] f show "profile_test d ua \<longleftrightarrow> d = c" by simp
  show "\<not> list_ex control_char ua"
    using assms by (auto simp: classifyClient_def split: if_splits)
qed

lemma verdict_allowed:
  assumes "\<not> is_nullish p"
  shows "pv_allowed (evaluateClientPolicy p ua) \<longleftrightarrow>
    (\<exists>ids c. ClientPolicySchema (the p) = Some ids \<and> classifyClient ua = Some c \<and> c \<in> set ids)"
  using assms by (auto simp: evaluateClientPolicy_def Let_def split: option.splits)

lemma stored_policy_schema:
  "ClientPolicySchema (policy_json (readStoredClientPolicyJson s)) = Some ids \<longleftrightarrow>
     (\<exists>v. JSON_parse s = Some v \<and> ClientPolicySchema v = Some ids)"
proof (cases "Option.bind (JSON_parse s) ClientPolicySchema")
  case None
  then have "readStoredClientPolicyJson s = []"
    by (auto simp: readStoredClientPolicyJson_def readStoredClientPolicy_def split: option.splits)
  with None show ?thesis by (auto simp: ClientPolicySchema_def policy_json_def)
next
  case (Some l)
  then obtain v where v: "JSON_parse s = Some v" "ClientPolicySchema v = Some l" by (auto split: bind_splits)
  then have "l \<noteq> [] \<and> length l \<le> 5 \<and> distinct l"
    by (auto simp: ClientPolicySchema_def split: json.splits list.splits prod.splits if_splits option.splits)
  with v show ?thesis
    by (auto simp: readStoredClientPolicyJson_def readStoredClientPolicy_def ClientPolicySchema_def policy_json_def
        client_ids_names [unfolded comp_def] comp_def)
qed

subsection \<open>Properties\<close>

text \<open>
  A stored client policy fails closed: a key whose stored policy text is anything but a valid policy admits
  no client, and one with a valid policy admits a request exactly when its user agent, free of control
  characters, carries between token boundaries the product token of one listed client and of no other client.
\<close>

theorem stored_policy_fails_closed:
  "pv_allowed (evaluateClientPolicy (Some (policy_json (readStoredClientPolicyJson stored))) ua) \<longleftrightarrow>
     (\<exists>v ids c. JSON_parse stored = Some v \<and> ClientPolicySchema v = Some ids \<and> classifyClient ua = Some c \<and> c \<in> set ids)"
proof -
  have "\<not> is_nullish (Some (policy_json ids))" for ids by (simp add: policy_json_def)
  then show ?thesis by (auto simp: verdict_allowed stored_policy_schema)
qed

text \<open>
  A user agent names a client only without ambiguity: the one client whose product token it carries.
\<close>

theorem client_unambiguous:
  assumes "classifyClient (Some ua) = Some c"
  shows "list_all (\<lambda>ch. \<not> control_char ch) ua \<and>
    (\<forall>d. (\<exists>a t r. ua = a @ t @ r \<and> (a = [] \<or> (\<exists>a'. a = a' @ '' '')) \<and> r \<in> set (profile d (t @ r)) \<and> token_ends r) \<longleftrightarrow> d = c)"
  using classify_unique [OF assms] by (simp add: profile_test_iff [symmetric] list_ex_iff list_all_iff)

theorem client_unambiguous_witness:
  "classifyClient (Some ''Mozilla/5.0 claude-cli/2.1.7 (external, cli)'') = Some Claude_cli \<and>
   classifyClient (Some ''claude-cli/2.1.7 (external, cli) Codex Desktop/1'') = None \<and>
   list_all (\<lambda>ch. \<not> control_char ch) ''Mozilla/5.0 claude-cli/2.1.7 (external, cli)''"
proof -
  have c: "classifyClient (Some ''Mozilla/5.0 claude-cli/2.1.7 (external, cli)'') = Some Claude_cli" by code_simp
  have "classifyClient (Some ''claude-cli/2.1.7 (external, cli) Codex Desktop/1'') = None" by code_simp
  with c client_unambiguous [OF c] show ?thesis by simp
qed

end
