(* ===== verification/Catalog.thy ===== *)
theory Catalog
  imports Client_Policy Model_Names Lanes
begin

text \<open>
  The model catalog (\<open>packages/core/src/catalog/index.ts\<close> and \<open>load.ts\<close>): the generated entries under the two
  manual override layers, read fail-closed; and the listing of models (\<open>catalog/models-list.ts\<close>): what a key
  is shown, and what each client is shown of it. Capabilities and pricing are JSON objects here, as the merge is
  an object spread that names no field; the zod schemas are arguments, since the library that runs them is not
  part of the repository, and so are the YAML parser and the file reader.
\<close>

subsection \<open>Entries and layers\<close>

datatype catalog_source = Generated | Override

record CatalogEntry =
  ce_modelKey :: string
  ce_capabilities :: json_object
  ce_pricing :: json_object
  ce_source :: catalog_source

type_synonym catalog = "(string \<times> CatalogEntry) list"

definition EMPTY_CAPABILITIES :: json_object where
  "EMPTY_CAPABILITIES =
     [(''supportsTools'', JBool False), (''jsonOutput'', JStr ''none''), (''supportsVision'', JBool False),
      (''supportsStreaming'', JBool False), (''maxContextTokens'', JNum 0), (''maxOutputTokens'', JNull)]"

definition EMPTY_PRICING :: json_object where
  "EMPTY_PRICING =
     [(''inputPerMTokUsd'', JNull), (''outputPerMTokUsd'', JNull), (''cacheReadPerMTokUsd'', JNull),
      (''cacheWritePerMTokUsd'', JNull)]"

text \<open>\<open>{ ...a, ...b }\<close>.\<close>

definition spread :: "json_object \<Rightarrow> json_object \<Rightarrow> json_object" where
  "spread a b = foldl (\<lambda>o' (k, v). AList.update k v o') a b"

datatype catalog_error =
    Read_generated
  | Parse_generated
  | Invalid_generated
  | Read_override string string
  | Parse_override string
  | Invalid_override string
  | Invalid_merged string

type_synonym overrides = "(string \<times> json_object) list"

definition parseOverride :: "(json \<Rightarrow> overrides option) \<Rightarrow> json option \<Rightarrow> string \<Rightarrow> catalog_error + overrides" where
  "parseOverride safeParse raw file =
     (if is_nullish raw then Inr []
      else
        (case safeParse (the raw) of
           None \<Rightarrow> Inl (Invalid_override file)
         | Some data \<Rightarrow> Inr data))"

text \<open>A generated model: its key, capabilities and pricing.\<close>

type_synonym generated_model = "string \<times> json_object \<times> json_object"

definition seed_entry :: "catalog \<Rightarrow> generated_model \<Rightarrow> catalog" where
  "seed_entry result g =
     (case g of (k, caps, price) \<Rightarrow>
        AList.update k \<lparr>ce_modelKey = k, ce_capabilities = caps, ce_pricing = price, ce_source = Generated\<rparr> result)"

definition apply_caps :: "catalog \<Rightarrow> string \<times> json_object \<Rightarrow> catalog" where
  "apply_caps result ov =
     (case ov of (k, caps) \<Rightarrow>
        AList.update k
          (case map_of result k of
             Some e \<Rightarrow> e\<lparr>ce_capabilities := spread (ce_capabilities e) caps\<rparr>
           | None \<Rightarrow> \<lparr>ce_modelKey = k, ce_capabilities = spread EMPTY_CAPABILITIES caps, ce_pricing = EMPTY_PRICING,
                      ce_source = Override\<rparr>)
          result)"

definition apply_pricing :: "catalog \<Rightarrow> string \<times> json_object \<Rightarrow> catalog" where
  "apply_pricing result ov =
     (case ov of (k, price) \<Rightarrow>
        AList.update k
          (case map_of result k of
             Some e \<Rightarrow> e\<lparr>ce_pricing := spread (ce_pricing e) price\<rparr>
           | None \<Rightarrow> \<lparr>ce_modelKey = k, ce_capabilities = EMPTY_CAPABILITIES, ce_pricing = spread EMPTY_PRICING price,
                      ce_source = Override\<rparr>)
          result)"

text \<open>\<open>[...new Set(xs)]\<close>: the first occurrences.\<close>

definition unique_list :: "'a list \<Rightarrow> 'a list" where
  "unique_list xs = rev (remdups (rev xs))"

definition mark_overridden :: "catalog \<Rightarrow> string \<Rightarrow> catalog" where
  "mark_overridden result k =
     (case map_of result k of
        Some e \<Rightarrow> AList.update k (e\<lparr>ce_source := Override\<rparr>) result
      | None \<Rightarrow> result)"

definition merge_layers :: "generated_model list \<Rightarrow> overrides \<Rightarrow> overrides \<Rightarrow> catalog" where
  "merge_layers models caps price =
     (let seeded = foldl seed_entry [] models;
          withCaps = foldl apply_caps seeded caps;
          layered = foldl apply_pricing withCaps price
      in foldl mark_overridden layered (unique_list (map fst caps @ map fst price)))"

text \<open>The schemas the loader validates with: the overrides', the generated file's and a merged entry's.\<close>

record catalog_schemas =
  parse_caps_override :: "json \<Rightarrow> overrides option"
  parse_price_override :: "json \<Rightarrow> overrides option"
  parse_generated :: "json \<Rightarrow> generated_model list option"
  entry_valid :: "CatalogEntry \<Rightarrow> bool"

definition loadCatalog ::
  "catalog_schemas \<Rightarrow> generated_model list \<Rightarrow> json option \<Rightarrow> json option \<Rightarrow> catalog_error + catalog" where
  "loadCatalog zs models capsRaw priceRaw =
     (case parseOverride (parse_caps_override zs) capsRaw ''capabilities.yaml'' of
        Inl e \<Rightarrow> Inl e
      | Inr caps \<Rightarrow>
          (case parseOverride (parse_price_override zs) priceRaw ''pricing.yaml'' of
             Inl e \<Rightarrow> Inl e
           | Inr price \<Rightarrow>
               let result = merge_layers models caps price in
               (case List.find (\<lambda>(k, e). \<not> entry_valid zs e) result of
                  Some (k, e) \<Rightarrow> Inl (Invalid_merged (ce_modelKey e))
                | None \<Rightarrow> Inr result)))"

subsection \<open>Reading the files\<close>

text \<open>A read gives the text, or fails with a file-system code.\<close>

type_synonym file_reader = "string \<Rightarrow> string + string"

definition readGenerated :: "catalog_schemas \<Rightarrow> file_reader \<Rightarrow> string \<Rightarrow> catalog_error + generated_model list" where
  "readGenerated zs read path =
     (case read path of
        Inl code \<Rightarrow> Inl Read_generated
      | Inr txt' \<Rightarrow>
          (case JSON_parse txt' of
             None \<Rightarrow> Inl Parse_generated
           | Some v \<Rightarrow>
               (case parse_generated zs v of
                  None \<Rightarrow> Inl Invalid_generated
                | Some ms \<Rightarrow> Inr ms)))"

definition readOverride :: "(string \<Rightarrow> json option) \<Rightarrow> file_reader \<Rightarrow> string \<Rightarrow> catalog_error + json option" where
  "readOverride parseYaml read path =
     (case read path of
        Inl code \<Rightarrow> if code = ''ENOENT'' then Inr None else Inl (Read_override path code)
      | Inr txt' \<Rightarrow>
          (case parseYaml txt' of
             None \<Rightarrow> Inl (Parse_override path)
           | Some v \<Rightarrow> Inr (Some v)))"

text \<open>The result also lists the override files that were absent, which the loader logs.\<close>

definition loadRuntimeCatalog ::
  "catalog_schemas \<Rightarrow> (string \<Rightarrow> json option) \<Rightarrow> file_reader \<Rightarrow> string \<Rightarrow> string \<Rightarrow> string \<Rightarrow>
   catalog_error + catalog \<times> string list" where
  "loadRuntimeCatalog zs parseYaml read generatedPath capsPath pricePath =
     (case readGenerated zs read generatedPath of
        Inl e \<Rightarrow> Inl e
      | Inr models \<Rightarrow>
          (case readOverride parseYaml read capsPath of
             Inl e \<Rightarrow> Inl e
           | Inr caps \<Rightarrow>
               (case readOverride parseYaml read pricePath of
                  Inl e \<Rightarrow> Inl e
                | Inr price \<Rightarrow>
                    let absent = (if caps = None then [capsPath] else []) @ (if price = None then [pricePath] else []) in
                    map_sum id (\<lambda>c. (c, absent)) (loadCatalog zs models caps price))))"

subsection \<open>Compaction pricing\<close>

record compaction_pricing =
  cp_modelKey :: "string option"
  cp_inputPerMtok :: "json option"
  cp_outputPerMtok :: "json option"
  cp_cacheReadPerMtok :: "json option"
  cp_cacheWritePerMtok :: "json option"
  cp_maxContextTokens :: "rat option"
  cp_contextTiers :: "json option"

definition non_null :: "json option \<Rightarrow> json option" where
  "non_null v = (if is_nullish v then None else v)"

fun positive_number :: "json option \<Rightarrow> rat option" where
  "positive_number (Some (JNum n)) = (if 0 < n then Some n else None)"
| "positive_number v = None"

definition resolveCompactionPricing :: "catalog \<Rightarrow> string option \<Rightarrow> compaction_pricing" where
  "resolveCompactionPricing cat modelKey =
     (case Option.bind modelKey (map_of cat) of
        None \<Rightarrow> \<lparr>cp_modelKey = None, cp_inputPerMtok = None, cp_outputPerMtok = None, cp_cacheReadPerMtok = None,
                 cp_cacheWritePerMtok = None, cp_maxContextTokens = None, cp_contextTiers = None\<rparr>
      | Some e \<Rightarrow>
          let p = (\<lambda>k. map_of (ce_pricing e) k) in
          \<lparr>cp_modelKey = Some (ce_modelKey e),
           cp_inputPerMtok = non_null (p ''inputPerMTokUsd''), cp_outputPerMtok = non_null (p ''outputPerMTokUsd''),
           cp_cacheReadPerMtok = non_null (p ''cacheReadPerMTokUsd''),
           cp_cacheWritePerMtok = non_null (p ''cacheWritePerMTokUsd''),
           cp_maxContextTokens = positive_number (map_of (ce_capabilities e) ''maxContextTokens''),
           cp_contextTiers = p ''contextTiers''\<rparr>)"

subsection \<open>The models list\<close>

datatype model_kind = Kind_lane | Kind_model

record model_object =
  mo_id :: string
  mo_owned_by :: string
  mo_type :: model_kind
  mo_lanes :: "string list option"
  mo_meta :: "(json_object \<times> json_object) option"

definition ownerOf :: "string \<Rightarrow> string" where
  "ownerOf alias' =
     (case index_of (CHR ''/'') alias' of
        Some i \<Rightarrow> if 0 < i then take i alias' else alias'
      | None \<Rightarrow> alias')"

record models_list_input =
  ml_lanes :: lanes_config
  ml_catalog :: catalog
  ml_providerAliases :: "string list"
  ml_allowCustomModel :: bool
  ml_allowedLanes :: "string list option"
  ml_blockedModels :: "string list option"

text \<open>\<open>sort\<close> with a comparison: stable insertion. The collation of \<open>localeCompare\<close> is an argument.\<close>

fun insert_by :: "('a \<Rightarrow> 'a \<Rightarrow> bool) \<Rightarrow> 'a \<Rightarrow> 'a list \<Rightarrow> 'a list" where
  "insert_by le x [] = [x]"
| "insert_by le x (y # ys) = (if le x y then x # y # ys else y # insert_by le x ys)"

definition sort_by :: "('a \<Rightarrow> 'a \<Rightarrow> bool) \<Rightarrow> 'a list \<Rightarrow> 'a list" where
  "sort_by le xs = foldr (insert_by le) xs []"

definition laneHasVisibleCandidate :: "models_list_input \<Rightarrow> lane_name \<Rightarrow> bool" where
  "laneHasVisibleCandidate inp name =
     list_ex (\<lambda>a. a \<in> set (ml_providerAliases inp) \<and> \<not> model_blocked (ml_blockedModels inp) a)
       (expandLaneChain name (ml_lanes inp))"

definition visibleLanes :: "models_list_input \<Rightarrow> lane_name list" where
  "visibleLanes inp =
     filter (\<lambda>name. (case ml_allowedLanes inp of None \<Rightarrow> True | Some l \<Rightarrow> name \<in> set l) \<and> laneHasVisibleCandidate inp name)
       (unique_list (map fst (ml_lanes inp)))"

text \<open>The lanes that can route to each alias, collected lane by lane in a map.\<close>

definition note_member :: "lane_name \<Rightarrow> (string \<Rightarrow> string list option) \<Rightarrow> string \<Rightarrow> (string \<Rightarrow> string list option)" where
  "note_member name m a = m(a \<mapsto> nullish (m a) [] @ [name])"

definition membership :: "lanes_config \<Rightarrow> lane_name list \<Rightarrow> (string \<Rightarrow> string list option)" where
  "membership lanes names = foldl (\<lambda>m name. foldl (note_member name) m (expandLaneChain name lanes)) Map.empty names"

definition lane_object :: "lane_name \<Rightarrow> model_object" where
  "lane_object name = \<lparr>mo_id = name, mo_owned_by = ''helm'', mo_type = Kind_lane, mo_lanes = Some [name], mo_meta = None\<rparr>"

definition auto_object :: model_object where
  "auto_object = \<lparr>mo_id = ''auto'', mo_owned_by = ''helm'', mo_type = Kind_lane, mo_lanes = None, mo_meta = None\<rparr>"

definition alias_object :: "models_list_input \<Rightarrow> string \<Rightarrow> model_object" where
  "alias_object inp a =
     \<lparr>mo_id = a, mo_owned_by = ownerOf a, mo_type = Kind_model,
      mo_lanes = Some (nullish (membership (ml_lanes inp) (visibleLanes inp) a) []),
      mo_meta = map_option (\<lambda>e. (ce_capabilities e, ce_pricing e)) (map_of (ml_catalog inp) a)\<rparr>"

definition buildModelsList :: "(string \<Rightarrow> string \<Rightarrow> bool) \<Rightarrow> models_list_input \<Rightarrow> model_object list" where
  "buildModelsList le inp =
     (let vis = visibleLanes inp;
          unique = filter (\<lambda>a. \<not> model_blocked (ml_blockedModels inp) a) (unique_list (ml_providerAliases inp))
      in map lane_object vis @
         (if vis \<noteq> [] then [auto_object] else []) @
         (if ml_allowCustomModel inp then map (alias_object inp) (sort_by le unique) else []))"

subsection \<open>What a client is shown\<close>

definition lastSegment :: "string \<Rightarrow> string" where
  "lastSegment model = rev (takeWhile (\<lambda>c. c \<noteq> CHR ''/'') (rev model))"

text \<open>The end of a family name: a dash, a dot or the end of the text.\<close>

definition family_ends :: "string \<Rightarrow> bool" where
  "family_ends r = (case r of [] \<Rightarrow> True | c # cs \<Rightarrow> c = CHR ''-'' \<or> c = CHR ''.'')"

definition o_series :: "string \<Rightarrow> bool" where
  "o_series s =
     list_ex family_ends
       (andthen (lit id ''o'') (andthen (one (\<lambda>c. ascii_digit c \<and> c \<noteq> CHR ''0'')) (many ascii_digit)) s)"

text \<open>The client is \<open>None\<close> when absent (\<open>undefined\<close>), \<open>Some None\<close> when unknown (\<open>null\<close>).\<close>

definition isModelVisibleForClient :: "string \<Rightarrow> client_id option option \<Rightarrow> bool" where
  "isModelVisibleForClient model client =
     (let name = toLowerCase (lastSegment model) in
      case client of
        None \<Rightarrow> True
      | Some None \<Rightarrow> False
      | Some (Some c) \<Rightarrow>
          if c = Codex_app \<or> c = Codex_cli
          then startsWith ''gpt-'' name \<or> startsWith ''chatgpt-'' name \<or> startsWith ''codex-'' name \<or> o_series name
          else if c = Claude_cli \<or> c = Claude_desktop then startsWith ''claude-'' name
          else startsWith ''grok-'' name)"

definition lane_families :: "string list" where
  "lane_families = [''gpt'', ''chatgpt'', ''codex'', ''claude'', ''grok'', ''gemini'', ''deepseek'']"

definition lane_family :: "string \<Rightarrow> string option" where
  "lane_family name = List.find (\<lambda>f. startsWith f name \<and> family_ends (drop (length f) name)) lane_families"

definition isLaneVisibleForClient :: "string \<Rightarrow> client_id option \<Rightarrow> bool" where
  "isLaneVisibleForClient lid client =
     (let name = toLowerCase lid in
      case lane_family name of
        Some f \<Rightarrow> isModelVisibleForClient (f @ ''-lane'') (Some client)
      | None \<Rightarrow> if o_series name then isModelVisibleForClient name (Some client) else True)"

definition filterModelsForClient ::
  "model_object list \<Rightarrow> client_id option option \<Rightarrow> (string \<Rightarrow> string option) \<Rightarrow> model_object list" where
  "filterModelsForClient data client modelNames =
     (case client of
        None \<Rightarrow> data
      | Some c \<Rightarrow>
          filter (\<lambda>m. if mo_type m = Kind_lane then isLaneVisibleForClient (mo_id m) c
                      else isModelVisibleForClient (nullish (modelNames (mo_id m)) (mo_id m)) (Some c)) data)"

subsection \<open>Facts on the merge\<close>

lemma unique_list_simps [simp]: "set (unique_list xs) = set xs" "distinct (unique_list xs)"
  by (simp_all add: unique_list_def)

lemma spread_lookup: "map_of (spread a b) f = (case map_of (rev b) f of Some v \<Rightarrow> Some v | None \<Rightarrow> map_of a f)"
proof (induction b arbitrary: a)
  case (Cons x b)
  then show ?case
    by (cases x) (simp add: spread_def update_conv' map_add_def split: option.split)
qed (simp add: spread_def)

lemma spread_Nil [simp]: "spread a [] = a"
  by (simp add: spread_def)

lemma foldl_other:
  assumes "\<And>c x. key x \<noteq> k \<Longrightarrow> map_of (step c x) k = map_of c k" and "k \<notin> key ` set xs"
  shows "map_of (foldl step c xs) k = map_of c k"
  using assms(2) by (induction xs arbitrary: c) (auto simp: assms(1))

lemma seed_lookup:
  "map_of (foldl seed_entry c models) k =
   (case map_of (rev models) k of
      Some (caps, price) \<Rightarrow> Some \<lparr>ce_modelKey = k, ce_capabilities = caps, ce_pricing = price, ce_source = Generated\<rparr>
    | None \<Rightarrow> map_of c k)"
proof (induction models arbitrary: c)
  case (Cons g models)
  then show ?case
    by (cases g) (auto simp: seed_entry_def update_conv' map_add_def split: option.split)
qed simp

lemma foldl_once:
  assumes step: "\<And>c x. map_of (step c x) k = (if fst x = k then Some (f (map_of c k) (snd x)) else map_of c k)"
    and "distinct (map fst xs)"
  shows "map_of (foldl step c xs) k = (case map_of xs k of None \<Rightarrow> map_of c k | Some v \<Rightarrow> Some (f (map_of c k) v))"
  using assms(2)
proof (induction xs arbitrary: c)
  case (Cons x xs)
  show ?case
  proof (cases "fst x = k")
    case True
    with Cons.prems have "map_of xs k = None" by (auto simp: map_of_eq_None_iff)
    with True Cons show ?thesis by (cases x) (simp add: step)
  next
    case False
    with Cons step [of c x] show ?thesis by (cases x) (simp split: option.split)
  qed
qed simp

definition caps_entry :: "string \<Rightarrow> CatalogEntry option \<Rightarrow> json_object \<Rightarrow> CatalogEntry" where
  "caps_entry k e caps =
     (case e of
        Some e \<Rightarrow> e\<lparr>ce_capabilities := spread (ce_capabilities e) caps\<rparr>
      | None \<Rightarrow> \<lparr>ce_modelKey = k, ce_capabilities = spread EMPTY_CAPABILITIES caps, ce_pricing = EMPTY_PRICING,
                 ce_source = Override\<rparr>)"

definition priced_entry :: "string \<Rightarrow> CatalogEntry option \<Rightarrow> json_object \<Rightarrow> CatalogEntry" where
  "priced_entry k e price =
     (case e of
        Some e \<Rightarrow> e\<lparr>ce_pricing := spread (ce_pricing e) price\<rparr>
      | None \<Rightarrow> \<lparr>ce_modelKey = k, ce_capabilities = EMPTY_CAPABILITIES, ce_pricing = spread EMPTY_PRICING price,
                 ce_source = Override\<rparr>)"

lemma caps_lookup:
  "distinct (map fst caps) \<Longrightarrow>
   map_of (foldl apply_caps c caps) k =
   (case map_of caps k of None \<Rightarrow> map_of c k | Some v \<Rightarrow> Some (caps_entry k (map_of c k) v))"
  by (rule foldl_once) (auto simp: apply_caps_def caps_entry_def update_conv' split: option.split)

lemma pricing_lookup:
  "distinct (map fst price) \<Longrightarrow>
   map_of (foldl apply_pricing c price) k =
   (case map_of price k of None \<Rightarrow> map_of c k | Some v \<Rightarrow> Some (priced_entry k (map_of c k) v))"
  by (rule foldl_once) (auto simp: apply_pricing_def priced_entry_def update_conv' split: option.split)

lemma mark_lookup:
  "map_of (foldl mark_overridden c ks) k =
   (if k \<in> set ks then map_option (\<lambda>e. e\<lparr>ce_source := Override\<rparr>) (map_of c k) else map_of c k)"
proof (induction ks arbitrary: c)
  case (Cons x ks)
  have "map_of (mark_overridden c x) k =
      (if x = k then map_option (\<lambda>e. e\<lparr>ce_source := Override\<rparr>) (map_of c k) else map_of c k)"
    by (auto simp: mark_overridden_def update_conv' split: option.split)
  with Cons show ?case by (auto simp: option.map_comp comp_def)
qed simp

text \<open>The meaning of the merge: one entry per key of any layer, each field from the last layer that has it.\<close>

definition merged_entry ::
  "string \<Rightarrow> (json_object \<times> json_object) option \<Rightarrow> json_object option \<Rightarrow> json_object option \<Rightarrow> CatalogEntry option" where
  "merged_entry k generated caps price =
     (if generated = None \<and> caps = None \<and> price = None then None
      else Some
        \<lparr>ce_modelKey = k,
         ce_capabilities = spread (case generated of None \<Rightarrow> EMPTY_CAPABILITIES | Some (c, p) \<Rightarrow> c) (nullish caps []),
         ce_pricing = spread (case generated of None \<Rightarrow> EMPTY_PRICING | Some (c, p) \<Rightarrow> p) (nullish price []),
         ce_source = (if caps = None \<and> price = None then Generated else Override)\<rparr>)"

lemma merge_lookup:
  assumes "distinct (map fst caps)" "distinct (map fst price)"
  shows "map_of (merge_layers models caps price) k =
    merged_entry k (map_of (rev models) k) (map_of caps k) (map_of price k)"
proof -
  have k: "k \<in> set (unique_list (map fst caps @ map fst price)) \<longleftrightarrow> map_of caps k \<noteq> None \<or> map_of price k \<noteq> None"
    by (auto simp: map_of_eq_None_iff)
  show ?thesis
    unfolding merge_layers_def Let_def mark_lookup k pricing_lookup [OF assms(2)] caps_lookup [OF assms(1)] seed_lookup
    by (auto simp: merged_entry_def caps_entry_def priced_entry_def split: option.splits)
qed

lemma merge_keys: "distinct (map fst (merge_layers models caps price))"
proof -
  have f: "distinct (map fst (foldl step c xs))"
    if "\<And>c x. distinct (map fst c) \<Longrightarrow> distinct (map fst (step c x))" "distinct (map fst c)"
    for step :: "catalog \<Rightarrow> 'x \<Rightarrow> catalog" and c xs
    using that(2) by (induction xs arbitrary: c) (auto simp: that(1))
  show ?thesis
    unfolding merge_layers_def Let_def
    by (intro f)
      (auto simp: seed_entry_def apply_caps_def apply_pricing_def mark_overridden_def distinct_update split: option.split)
qed

subsection \<open>Properties\<close>

text \<open>
  The assembled catalog is the declared merge of its layers: the entry of a key takes each capability and
  each price from the manual override that states it, else from the generated entry (the last one of that key),
  else from the empty defaults; a key of any layer has an entry and no other has; an entry is marked as an
  override exactly when a manual layer names it.
\<close>

theorem catalog_merge_exact:
  assumes "distinct (map fst caps)" "distinct (map fst price)"
  shows "map_of (merge_layers models caps price) k = merged_entry k (map_of (rev models) k) (map_of caps k) (map_of price k)
    \<and> map_of (spread a b) f = (case map_of (rev b) f of Some v \<Rightarrow> Some v | None \<Rightarrow> map_of a f)"
  using merge_lookup [OF assms] spread_lookup by simp

theorem catalog_merge_exact_witness:
  "map_option (\<lambda>e. (map_of (ce_pricing e) ''inputPerMTokUsd'', ce_source e))
     (map_of (merge_layers [(''m'', [], [(''inputPerMTokUsd'', JNum 3), (''outputPerMTokUsd'', JNum 15)])] []
                           [(''m'', [(''inputPerMTokUsd'', JNum 2)])]) ''m'') = Some (Some (JNum 2), Override)"
proof -
  have d: "distinct (map fst ([] :: overrides))" "distinct (map fst [(''m'', [(''inputPerMTokUsd'', JNum 2)])])" by simp_all
  show ?thesis
    by (subst catalog_merge_exact [OF d, THEN conjunct1]) (simp add: merged_entry_def spread_def)
qed

lemma overrides_read:
  assumes "readOverride parseYaml read path = Inr v"
  shows "v = None \<and> read path = Inl ''ENOENT'' \<or> (\<exists>s w. v = Some w \<and> read path = Inr s \<and> parseYaml s = Some w)"
proof (cases "read path")
  case (Inl code)
  with assms show ?thesis by (auto simp: readOverride_def split: if_splits)
next
  case (Inr s)
  with assms show ?thesis by (cases "parseYaml s") (auto simp: readOverride_def)
qed

lemma load_valid:
  assumes "loadCatalog zs models capsRaw priceRaw = Inr cat"
  shows "list_all (\<lambda>(k, e). entry_valid zs e) cat"
    and "is_nullish capsRaw \<or> parse_caps_override zs (the capsRaw) \<noteq> None"
    and "is_nullish priceRaw \<or> parse_price_override zs (the priceRaw) \<noteq> None"
proof -
  obtain caps price where cp: "parseOverride (parse_caps_override zs) capsRaw ''capabilities.yaml'' = Inr caps"
    "parseOverride (parse_price_override zs) priceRaw ''pricing.yaml'' = Inr price"
    using assms by (auto simp: loadCatalog_def split: sum.splits)
  have none: "List.find (\<lambda>(k, e). \<not> entry_valid zs e) (merge_layers models caps price) = None"
    and cat: "cat = merge_layers models caps price"
    using assms cp by (auto simp: loadCatalog_def Let_def split: option.splits)
  from none cat show "list_all (\<lambda>(k, e). entry_valid zs e) cat" by (auto simp: find_None_iff list_all_iff)
  from cp show "is_nullish capsRaw \<or> parse_caps_override zs (the capsRaw) \<noteq> None"
    "is_nullish priceRaw \<or> parse_price_override zs (the priceRaw) \<noteq> None"
    by (auto simp: parseOverride_def split: if_splits option.splits)
qed

text \<open>
  Loading the catalog fails closed: a catalog comes out only if the generated file was read, parsed and
  valid, each override file was either absent (\<open>ENOENT\<close>, and reported as absent) or read, parsed and valid, and
  every merged entry passed the schema.
\<close>

theorem catalog_fails_closed:
  assumes "loadRuntimeCatalog zs parseYaml read gen capsPath pricePath = Inr (cat, absent)"
  shows "(\<exists>s v ms. read gen = Inr s \<and> JSON_parse s = Some v \<and> parse_generated zs v = Some ms) \<and>
    (case read capsPath of
       Inl code \<Rightarrow> code = ''ENOENT'' \<and> capsPath \<in> set absent
     | Inr s \<Rightarrow> (\<exists>v. parseYaml s = Some v \<and> (v = JNull \<or> parse_caps_override zs v \<noteq> None))) \<and>
    (case read pricePath of
       Inl code \<Rightarrow> code = ''ENOENT'' \<and> pricePath \<in> set absent
     | Inr s \<Rightarrow> (\<exists>v. parseYaml s = Some v \<and> (v = JNull \<or> parse_price_override zs v \<noteq> None))) \<and>
    list_all (\<lambda>(k, e). entry_valid zs e) cat"
proof -
  obtain models caps price where m: "readGenerated zs read gen = Inr models"
    "readOverride parseYaml read capsPath = Inr caps" "readOverride parseYaml read pricePath = Inr price"
    using assms by (auto simp: loadRuntimeCatalog_def split: sum.splits)
  have l: "loadCatalog zs models caps price = Inr cat"
    and a: "absent = (if caps = None then [capsPath] else []) @ (if price = None then [pricePath] else [])"
    using assms m by (auto simp: loadRuntimeCatalog_def Let_def map_sum_def split: sum.splits)
  have "\<exists>s v. read gen = Inr s \<and> JSON_parse s = Some v \<and> parse_generated zs v = Some models"
    using m(1) by (auto simp: readGenerated_def split: sum.splits option.splits)
  with load_valid [OF l] overrides_read [OF m(2)] overrides_read [OF m(3)] a show ?thesis by auto
qed

definition demo_schemas :: catalog_schemas where
  "demo_schemas =
     \<lparr>parse_caps_override = (\<lambda>v. Some []), parse_price_override = (\<lambda>v. None),
      parse_generated = (\<lambda>v. Some [(''m'', EMPTY_CAPABILITIES, EMPTY_PRICING)]), entry_valid = (\<lambda>e. ce_modelKey e \<noteq> [])\<rparr>"

definition demo_read :: file_reader where
  "demo_read path = (if path = ''gen'' then Inr ''{}'' else if path = ''caps'' then Inr ''x'' else Inl ''ENOENT'')"

theorem catalog_fails_closed_witness:
  "\<exists>cat. loadRuntimeCatalog demo_schemas (\<lambda>s. Some (JObj [])) demo_read ''gen'' ''caps'' ''price'' = Inr (cat, [''price'']) \<and>
         list_all (\<lambda>(k, e). entry_valid demo_schemas e) cat"
proof -
  let ?c = "[(''m'', \<lparr>ce_modelKey = ''m'', ce_capabilities = EMPTY_CAPABILITIES, ce_pricing = EMPTY_PRICING, ce_source = Generated\<rparr>)]"
  have l: "loadRuntimeCatalog demo_schemas (\<lambda>s. Some (JObj [])) demo_read ''gen'' ''caps'' ''price'' = Inr (?c, [''price''])"
    by code_simp
  from catalog_fails_closed [OF l] l show ?thesis by blast
qed

lemma insert_by_set [simp]: "set (insert_by le x xs) = insert x (set xs)"
  by (induction xs) auto

lemma sort_by_set [simp]: "set (sort_by le xs) = set xs"
  unfolding sort_by_def by (induction xs) auto

lemma note_members:
  "distinct as \<Longrightarrow> nullish (foldl (note_member name) m as a) [] = nullish (m a) [] @ (if a \<in> set as then [name] else [])"
  by (induction as arbitrary: m) (auto simp: note_member_def)

lemma membership_step:
  "nullish (foldl (\<lambda>m name. foldl (note_member name) m (expandLaneChain name lanes)) m names a) [] =
   nullish (m a) [] @ filter (\<lambda>n. a \<in> set (expandLaneChain n lanes)) names"
proof (induction names arbitrary: m)
  case (Cons n names)
  have "nullish (foldl (note_member n) m (expandLaneChain n lanes) a) [] =
      nullish (m a) [] @ (if a \<in> set (expandLaneChain n lanes) then [n] else [])"
    by (rule note_members) simp
  with Cons show ?case by simp
qed simp

lemma membership_lookup:
  "nullish (membership lanes names a) [] = filter (\<lambda>n. a \<in> set (expandLaneChain n lanes)) names"
  by (simp add: membership_def membership_step)

definition usable_candidate :: "models_list_input \<Rightarrow> lane_name \<Rightarrow> string \<Rightarrow> bool" where
  "usable_candidate inp l a \<longleftrightarrow>
     reaches (ml_lanes inp) l a \<and> leaf (ml_lanes inp) a \<and> a \<in> set (ml_providerAliases inp) \<and>
     \<not> model_blocked (ml_blockedModels inp) a"

lemma visible_lane_iff:
  "l \<in> set (visibleLanes inp) \<longleftrightarrow>
     hasLane (ml_lanes inp) l \<and> l \<in> set (nullish (ml_allowedLanes inp) [l]) \<and> (\<exists>a. usable_candidate inp l a)"
  by (auto simp: visibleLanes_def laneHasVisibleCandidate_def list_ex_iff chain_reachable usable_candidate_def hasLane_dom
      nullish_def split: option.splits)

text \<open>
  The models list shows a key exactly what it can use: a lane when it is configured, allowed to the key and
  can still reach a configured model the key does not block; \<open>auto\<close> when some lane is shown; a concrete model
  only to a key that may name models, when it is configured and not blocked, with exactly the shown lanes that
  can reach it.
\<close>

theorem models_list_exact:
  "(lane_object l \<in> set (buildModelsList le inp) \<longleftrightarrow>
      hasLane (ml_lanes inp) l \<and> l \<in> set (nullish (ml_allowedLanes inp) [l]) \<and> (\<exists>a. usable_candidate inp l a)) \<and>
   (auto_object \<in> set (buildModelsList le inp) \<longleftrightarrow> (\<exists>l. lane_object l \<in> set (buildModelsList le inp))) \<and>
   ((\<exists>m. m \<in> set (buildModelsList le inp) \<and> mo_type m = Kind_model \<and> mo_id m = a \<and> mo_lanes m = Some ls) \<longleftrightarrow>
      ml_allowCustomModel inp \<and> a \<in> set (ml_providerAliases inp) \<and> \<not> model_blocked (ml_blockedModels inp) a \<and>
      ls = filter (\<lambda>n. reaches (ml_lanes inp) n a \<and> leaf (ml_lanes inp) a) (visibleLanes inp))"
proof -
  let ?L = "buildModelsList le inp"
  have lane: "lane_object l \<in> set ?L \<longleftrightarrow> l \<in> set (visibleLanes inp)" for l
    by (auto simp: buildModelsList_def Let_def lane_object_def auto_object_def alias_object_def)
  have auto: "auto_object \<in> set ?L \<longleftrightarrow> visibleLanes inp \<noteq> []"
    by (auto simp: buildModelsList_def Let_def lane_object_def auto_object_def alias_object_def)
  have lanes: "mo_lanes (alias_object inp a) =
      Some (filter (\<lambda>n. reaches (ml_lanes inp) n a \<and> leaf (ml_lanes inp) a) (visibleLanes inp))" for a
    by (simp add: alias_object_def membership_lookup chain_reachable)
  have model: "m \<in> set ?L \<and> mo_type m = Kind_model \<and> mo_id m = a \<longleftrightarrow>
      m = alias_object inp a \<and> ml_allowCustomModel inp \<and> a \<in> set (ml_providerAliases inp) \<and>
      \<not> model_blocked (ml_blockedModels inp) a" for m
    by (auto simp: buildModelsList_def Let_def lane_object_def auto_object_def alias_object_def)
  have "(\<exists>m. m \<in> set ?L \<and> mo_type m = Kind_model \<and> mo_id m = a \<and> mo_lanes m = Some ls) \<longleftrightarrow>
      ml_allowCustomModel inp \<and> a \<in> set (ml_providerAliases inp) \<and> \<not> model_blocked (ml_blockedModels inp) a \<and>
      mo_lanes (alias_object inp a) = Some ls"
    using model by metis
  moreover have "visibleLanes inp \<noteq> [] \<longleftrightarrow> (\<exists>l. l \<in> set (visibleLanes inp))" by (cases "visibleLanes inp") auto
  ultimately show ?thesis unfolding lane auto lanes visible_lane_iff [symmetric] by auto
qed

lemma filter_models_sublist: "client \<noteq> None \<Longrightarrow> set (filterModelsForClient data client names) \<subseteq> set data"
  by (auto simp: filterModelsForClient_def split: option.splits)

end
