(* ===== verification/Usage_Limit.thy ===== *)
theory Usage_Limit
  imports Js_Text
begin

text \<open>
  Quota windows of a subscription account and the cooldown they imply
  (\<open>packages/core/src/provider/oauth/usage-limit.ts\<close>), and the passive speed history the fastest
  strategy ranks accounts by (\<open>speed.ts\<close>). Clock readings are integers, percentages and paces
  rationals. The only operation of the code that leaves the rationals is the decay \<open>2 ** x\<close> of an
  old speed sample: it is an argument.
\<close>

subsection \<open>Quota windows\<close>

record quota_window =
  qw_key :: string
  qw_usedPercent :: rat
  qw_resetsAtMs :: "ms option"
  qw_windowMinutes :: "int option"
  qw_limitId :: "string option"

definition LIMIT_THRESHOLD :: rat where "LIMIT_THRESHOLD = 100"

definition ACTIVE_LIMIT_RECOVERY_THRESHOLD :: rat where "ACTIVE_LIMIT_RECOVERY_THRESHOLD = 95"

definition DEFAULT_429_COOLDOWN_MS :: ms where "DEFAULT_429_COOLDOWN_MS = 60000"

text \<open>\<open>/^codex_.+-(?:primary|secondary)$/\<close>: the part between prefix and suffix is one line and not empty.\<close>

definition codex_scoped_by :: "string \<Rightarrow> string \<Rightarrow> bool" where
  "codex_scoped_by suffix key =
     (startsWith ''codex_'' key \<and> endsWith suffix key \<and> 6 + length suffix < length key \<and>
      \<not> list_ex line_terminator (take (length key - 6 - length suffix) (drop 6 key)))"

definition isAccountWideQuotaWindow :: "quota_window \<Rightarrow> bool" where
  "isAccountWideQuotaWindow w =
     (if startsWith ''7d-'' (qw_key w) then False
      else if qw_limitId w \<noteq> None \<and> qw_limitId w \<noteq> Some ''codex'' then False
      else \<not> (codex_scoped_by ''-primary'' (qw_key w) \<or> codex_scoped_by ''-secondary'' (qw_key w)))"

text \<open>One turn of either loop: \<open>better\<close> says when a reset replaces the one held.\<close>

definition note_reset :: "rat \<Rightarrow> (ms \<Rightarrow> ms \<Rightarrow> bool) \<Rightarrow> ms \<Rightarrow> quota_window \<Rightarrow> ms option \<Rightarrow> ms option" where
  "note_reset threshold better nowMs w until =
     (if \<not> isAccountWideQuotaWindow w then until
      else if qw_usedPercent w < threshold then until
      else
        (case qw_resetsAtMs w of
           None \<Rightarrow> until
         | Some r \<Rightarrow>
             if r \<le> nowMs then until
             else (case until of None \<Rightarrow> Some r | Some u \<Rightarrow> if better r u then Some r else until)))"

definition windowsToUsageLimit :: "quota_window list \<Rightarrow> ms \<Rightarrow> ms option" where
  "windowsToUsageLimit windows nowMs = fold (note_reset LIMIT_THRESHOLD (\<lambda>r u. u < r) nowMs) windows None"

definition windowsToActiveUsageRecovery :: "quota_window list \<Rightarrow> ms \<Rightarrow> ms option" where
  "windowsToActiveUsageRecovery windows nowMs =
     fold (note_reset ACTIVE_LIMIT_RECOVERY_THRESHOLD (\<lambda>r u. r < u) nowMs) windows None"

subsection \<open>The implied cooldowns are extremes of the future resets\<close>

definition saturated_resets :: "rat \<Rightarrow> quota_window list \<Rightarrow> ms \<Rightarrow> ms set" where
  "saturated_resets threshold windows nowMs =
     {r. nowMs < r \<and> (\<exists>w \<in> set windows. isAccountWideQuotaWindow w \<and> threshold \<le> qw_usedPercent w \<and> qw_resetsAtMs w = Some r)}"

text \<open>The value held after some of the windows: none was saturated, or it beats every reset seen.\<close>

definition extreme :: "(ms \<Rightarrow> ms \<Rightarrow> bool) \<Rightarrow> ms option \<Rightarrow> ms set \<Rightarrow> bool" where
  "extreme better u S = (case u of None \<Rightarrow> S = {} | Some x \<Rightarrow> x \<in> S \<and> (\<forall>r \<in> S. \<not> better r x))"

lemma extreme_step:
  assumes "extreme better u S" "better = (\<lambda>r u. u < r) \<or> better = (\<lambda>r u. r < u)"
  shows "extreme better (note_reset t better now w u) (saturated_resets t [w] now \<union> S)"
proof (cases "isAccountWideQuotaWindow w \<and> t \<le> qw_usedPercent w \<and> (\<exists>r. qw_resetsAtMs w = Some r \<and> now < r)")
  case True
  then obtain r where r: "qw_resetsAtMs w = Some r" "now < r" by blast
  with True have "saturated_resets t [w] now = {r}" by (auto simp: saturated_resets_def)
  with r True assms show ?thesis by (cases u) (auto simp: note_reset_def extreme_def)
next
  case False
  then have "note_reset t better now w u = u" "saturated_resets t [w] now = {}"
    by (auto simp: note_reset_def saturated_resets_def split: option.split)
  with assms show ?thesis by simp
qed

lemma extreme_fold:
  assumes "better = (\<lambda>r u. u < r) \<or> better = (\<lambda>r u. r < u)" "extreme better u S"
  shows "extreme better (fold (note_reset t better now) ws u) (saturated_resets t ws now \<union> S)"
  using assms(2)
proof (induction ws arbitrary: u S)
  case Nil
  then show ?case by (simp add: saturated_resets_def)
next
  case (Cons w ws)
  have "saturated_resets t (w # ws) now = saturated_resets t ws now \<union> saturated_resets t [w] now"
    by (auto simp: saturated_resets_def)
  with Cons.IH [OF extreme_step [OF Cons.prems assms(1)], of t now w] show ?case
    by (simp add: Un_assoc)
qed

lemma usage_limit_extreme:
  "extreme (\<lambda>r u. u < r) (windowsToUsageLimit ws now) (saturated_resets LIMIT_THRESHOLD ws now)"
  using extreme_fold [of "\<lambda>r u. u < r" None "{}"] by (simp add: windowsToUsageLimit_def extreme_def)

lemma usage_recovery_extreme:
  "extreme (\<lambda>r u. r < u) (windowsToActiveUsageRecovery ws now) (saturated_resets ACTIVE_LIMIT_RECOVERY_THRESHOLD ws now)"
  using extreme_fold [of "\<lambda>r u. r < u" None "{}"] by (simp add: windowsToActiveUsageRecovery_def extreme_def)

text \<open>
  The cooldown read off a set of quota windows is never made up and never short: it is one of the resets that
  lie ahead of a saturated account-wide window, no such reset is later, and it is null exactly when no account-wide
  window is saturated with a reset ahead. A model-scoped window never parks the account. Once a parked account is
  re-examined at the softer threshold, the earliest such reset is taken, so it is never later than the first one.
\<close>

theorem usage_limit_exact:
  "(windowsToUsageLimit ws now = Some u) =
     (u \<in> saturated_resets LIMIT_THRESHOLD ws now \<and> saturated_resets LIMIT_THRESHOLD ws now \<subseteq> {..u}) \<and>
   (windowsToUsageLimit ws now = None) = (saturated_resets LIMIT_THRESHOLD ws now = {}) \<and>
   (windowsToActiveUsageRecovery ws now = Some v) =
     (v \<in> saturated_resets ACTIVE_LIMIT_RECOVERY_THRESHOLD ws now \<and>
      saturated_resets ACTIVE_LIMIT_RECOVERY_THRESHOLD ws now \<subseteq> {v..}) \<and>
   (windowsToActiveUsageRecovery ws now = None) = (saturated_resets ACTIVE_LIMIT_RECOVERY_THRESHOLD ws now = {})"
proof -
  have latest: "(u = Some x) = (x \<in> S \<and> S \<subseteq> {..x}) \<and> (u = None) = (S = {})" if "extreme (\<lambda>r u. u < r) u S" for u x S
    using that by (force simp: extreme_def split: option.splits)
  have soonest: "(u = Some x) = (x \<in> S \<and> S \<subseteq> {x..}) \<and> (u = None) = (S = {})" if "extreme (\<lambda>r u. r < u) u S" for u x S
    using that by (force simp: extreme_def split: option.splits)
  from latest [OF usage_limit_extreme] soonest [OF usage_recovery_extreme] show ?thesis by blast
qed

subsection \<open>The speed history\<close>

record speed =
  sp_ttftMs :: rat
  sp_tokensPerSecond :: "rat option"
  sp_estimateMs :: rat

record speed_record =
  sr_speed :: speed
  sr_at :: ms
  sr_weight :: rat

text \<open>\<open>JSON.stringify([account, model])\<close> tells the pairs apart, so the pair is the key. Oldest record first.\<close>

type_synonym speed_history = "((string \<times> string option) \<times> speed_record) list"

definition SPEED_WINDOW_MS :: ms where "SPEED_WINDOW_MS = 3600000"

definition speed_read :: "speed_history \<Rightarrow> string \<Rightarrow> string option \<Rightarrow> ms \<Rightarrow> speed option" where
  "speed_read h account model nowMs =
     (case map_of h (account, model) of
        None \<Rightarrow> None
      | Some r \<Rightarrow> if nowMs - sr_at r < SPEED_WINDOW_MS then Some (sr_speed r) else None)"

text \<open>A number that is null or zero is skipped by \<open>?\<close> and \<open>&&\<close>.\<close>

definition positive_pace :: "rat option \<Rightarrow> rat option" where
  "positive_pace p = (case p of Some x \<Rightarrow> if x = 0 then None else Some x | None \<Rightarrow> None)"

definition speed_weight :: "(ms \<Rightarrow> rat) \<Rightarrow> speed_record option \<Rightarrow> ms \<Rightarrow> rat" where
  "speed_weight decay previous nowMs =
     (case previous of
        None \<Rightarrow> 0
      | Some p \<Rightarrow> if nowMs - sr_at p < SPEED_WINDOW_MS then sr_weight p * decay (nowMs - sr_at p) else 0)"

definition speed_pace :: "speed_record option \<Rightarrow> rat \<Rightarrow> rat option \<Rightarrow> rat option" where
  "speed_pace previous weight tps =
     (case tps of
        None \<Rightarrow> None
      | Some t \<Rightarrow>
          (case Option.bind previous (\<lambda>p. positive_pace (sp_tokensPerSecond (sr_speed p))) of
             Some old \<Rightarrow> if 0 < weight then Some ((t + old * weight) / (1 + weight)) else Some t
           | None \<Rightarrow> Some t))"

definition speed_sample :: "(ms \<Rightarrow> rat) \<Rightarrow> speed_record option \<Rightarrow> rat \<Rightarrow> rat option \<Rightarrow> rat \<Rightarrow> ms \<Rightarrow> speed_record" where
  "speed_sample decay previous ttft tokens generationMs nowMs =
     (let weight = speed_weight decay previous nowMs;
          oldTtft = (case previous of None \<Rightarrow> 0 | Some p \<Rightarrow> sp_ttftMs (sr_speed p));
          ttftMs = (ttft + oldTtft * weight) / (1 + weight);
          tps = (case tokens of
                   None \<Rightarrow> None
                 | Some n \<Rightarrow> if 0 < n \<and> 0 < generationMs then Some (n * 1000 / generationMs) else None);
          pace = speed_pace previous weight tps in
      \<lparr>sr_speed = \<lparr>sp_ttftMs = ttftMs, sp_tokensPerSecond = pace,
                    sp_estimateMs = ttftMs + (case pace of None \<Rightarrow> 0 | Some p \<Rightarrow> 200000 / p)\<rparr>,
       sr_at = nowMs, sr_weight = weight + 1\<rparr>)"

definition speed_limited :: "nat \<Rightarrow> speed_history \<Rightarrow> speed_history" where
  "speed_limited limit h = drop (length h - limit) h"

definition speed_record_call ::
  "(ms \<Rightarrow> rat) \<Rightarrow> nat \<Rightarrow> speed_history \<Rightarrow> string \<Rightarrow> string option \<Rightarrow> rat \<Rightarrow> rat option \<Rightarrow> rat \<Rightarrow> ms \<Rightarrow> speed_history" where
  "speed_record_call decay limit h account model ttft tokens generationMs nowMs =
     (if ttft < 0 then h
      else
        let k = (account, model); sample = speed_sample decay (map_of h k) ttft tokens generationMs nowMs in
        speed_limited limit (filter (\<lambda>(k', r). k' \<noteq> k) h @ [(k, sample)]))"

end
