(* ===== verification/Oauth_Pool.thy ===== *)
theory Oauth_Pool
  imports Usage_Limit Retry
begin

text \<open>
  The subscription account pool (\<open>packages/core/src/provider/oauth/pool.ts\<close>): its state, the gates that make an
  account eligible and the choice among the eligible ones. Accounts are addressed by their position in \<open>entries\<close>,
  as the code addresses them by object identity. One synchronous step of the pool reads one clock value. The SHA-256
  score of a sticky key and an account is an argument, and so are the live capacity probes.
\<close>

subsection \<open>Data\<close>

datatype strategy = Balanced | Manual_priority | Low_risk | Expiring_quota | Fastest

datatype select_reason = Sticky_hit | Hash_assign | Lru | Strategy_choice

record pool_entry =
  pe_account :: string
  pe_anthropicAccountUuid :: "string option"
  pe_priority :: int
  pe_schedulable :: bool
  pe_models :: "string list option"
  pe_modelValidUntilMs :: "(string \<times> ms) list"
  pe_usageLimitedUntilMs :: "ms option"
  pe_allowSpendRemainingCredits :: bool
  pe_quotaWindows :: "quota_window list"
  pe_quotaCapturedAtMs :: "ms option"
  pe_quotaResetCredits :: "rat option"
  pe_lastUsedAt :: nat

record scoped_limit =
  sl_account :: string
  sl_model :: string
  sl_limitId :: "string option"
  sl_untilMs :: ms

datatype limit_scope = Account_scope | Model_scope string "string option"

text \<open>Both maps whose insertion order the code uses are association lists, oldest entry first.\<close>

record pool =
  pl_entries :: "pool_entry list"
  pl_sticky :: "(string \<times> (string \<times> ms)) list"
  pl_scoped :: "((string \<times> string \<times> string) \<times> scoped_limit) list"
  pl_retryable :: "string \<rightharpoonup> ms"
  pl_reported :: "string list"
  pl_counter :: nat
  pl_speed :: speed_history
  pl_speedTurns :: "(string \<times> nat) list"

datatype protocol_profile = Profile_anthropic_messages | Profile_codex_responses | Profile_other

text \<open>
  The options of the pool. A hook that throws answers \<open>None\<close>; \<open>resolveRateLimitScope\<close> may be absent or answer
  nothing (\<open>Some None\<close>).
\<close>

record pool_deps =
  pd_stickyTtlMs :: ms
  pd_maxStickySessions :: int
  pd_cooldownMs :: ms
  pd_strategy :: strategy
  pd_rotateIndependent :: bool
  pd_quotaFreshMs :: ms
  pd_credentialStatuses :: "int list"
  pd_codexCapacityRetries :: bool
  pd_profile :: "protocol_profile option"
  pd_resolveScope :: "string \<Rightarrow> string option \<Rightarrow> thrown \<Rightarrow> limit_scope option option"
  pd_shouldPark :: "string \<Rightarrow> string option \<Rightarrow> thrown \<Rightarrow> bool option option"
  pd_shouldRetryAccountError :: "thrown \<Rightarrow> bool"
  pd_stickyScore :: "string \<Rightarrow> string \<Rightarrow> nat"
  pd_decay :: "ms \<Rightarrow> rat"
  pd_showNum :: "rat \<Rightarrow> string"
  pd_showNat :: "nat \<Rightarrow> string"

definition RETRYABLE_ACCOUNT_FAILURE_COOLDOWN_MS :: ms where "RETRYABLE_ACCOUNT_FAILURE_COOLDOWN_MS = 30000"

definition STICKY_ACCOUNT_WAIT_MAX_MS :: ms where "STICKY_ACCOUNT_WAIT_MAX_MS = 60000"

definition XAI_TTS_CAPABILITY :: string where "XAI_TTS_CAPABILITY = ''helm-internal:xai-tts''"

definition max_sticky :: "pool_deps \<Rightarrow> nat" where
  "max_sticky d = nat (max 1 (pd_maxStickySessions d))"

abbreviation ent :: "pool \<Rightarrow> nat \<Rightarrow> pool_entry" where
  "ent p i \<equiv> pl_entries p ! i"

abbreviation account_at :: "pool \<Rightarrow> nat \<Rightarrow> string" where
  "account_at p i \<equiv> pe_account (pl_entries p ! i)"

text \<open>\<open>entries.find(e => e.member.account === account)\<close>.\<close>

definition find_account :: "pool \<Rightarrow> string \<Rightarrow> nat option" where
  "find_account p account = find (\<lambda>i. account_at p i = account) [0..<length (pl_entries p)]"

definition update_entry :: "nat \<Rightarrow> (pool_entry \<Rightarrow> pool_entry) \<Rightarrow> pool \<Rightarrow> pool" where
  "update_entry i f p = (if i < length (pl_entries p) then p\<lparr>pl_entries := (pl_entries p)[i := f (ent p i)]\<rparr> else p)"

subsection \<open>Failure predicates\<close>

definition isRetryableTransientError :: "thrown \<Rightarrow> bool" where
  "isRetryableTransientError err =
     (case upstream_of err of
        None \<Rightarrow> False
      | Some u \<Rightarrow>
          if uf_errorClass u = Timeout_error then True
          else (case uf_upstreamStatus u of None \<Rightarrow> True | Some s \<Rightarrow> 500 \<le> s))"

definition object_of :: "json option \<Rightarrow> json option" where
  "object_of v = (if is_object v then v else None)"

definition isInBandOverload :: "thrown \<Rightarrow> bool" where
  "isInBandOverload err =
     (case upstream_of err of
        None \<Rightarrow> False
      | Some u \<Rightarrow>
          if uf_upstreamStatus u \<noteq> None then False
          else
            let root = object_of (uf_providerRaw u) in
            if root = None then False
            else if opt_prop ''type'' root \<notin> {Some (JStr ''error''), Some (JStr ''response.failed'')} then False
            else
              let nested = object_of (opt_prop ''error'' root);
                  responseError = object_of (opt_prop ''error'' (object_of (opt_prop ''response'' root)));
                  candidate = or_else nested responseError in
              opt_prop ''code'' candidate = Some (JStr ''server_is_overloaded'') \<or>
              opt_prop ''type'' candidate = Some (JStr ''service_unavailable_error''))"

definition isCredentialAccountFailure :: "thrown \<Rightarrow> int list \<Rightarrow> bool" where
  "isCredentialAccountFailure err statuses =
     (case th_instance err of
        Credential_disconnected \<Rightarrow> True
      | Token_refresh s permanent retryable \<Rightarrow> permanent
      | _ \<Rightarrow> (case upstreamStatusOf err of None \<Rightarrow> False | Some s \<Rightarrow> s \<in> set statuses))"

definition isRateLimitAccountFailure :: "thrown \<Rightarrow> bool" where
  "isRateLimitAccountFailure err =
     (case th_instance err of
        Token_refresh s permanent retryable \<Rightarrow> s = Some 429
      | Credential_disconnected \<Rightarrow> False
      | _ \<Rightarrow> upstreamStatusOf err = Some 429)"

definition isRetryableAccountFailure :: "thrown \<Rightarrow> bool" where
  "isRetryableAccountFailure err =
     (case th_instance err of Token_refresh s permanent retryable \<Rightarrow> retryable | _ \<Rightarrow> False)"

definition isAccountBackpressureFailure :: "thrown \<Rightarrow> bool" where
  "isAccountBackpressureFailure err = isQueueTimeout err"

subsection \<open>Sticky sessions\<close>

definition sticky_expired :: "ms \<Rightarrow> string \<times> (string \<times> ms) \<Rightarrow> bool" where
  "sticky_expired nowMs kv = (snd (snd kv) \<le> nowMs)"

definition rememberSticky :: "pool_deps \<Rightarrow> ms \<Rightarrow> string \<Rightarrow> string \<Rightarrow> ms \<Rightarrow> pool \<Rightarrow> pool" where
  "rememberSticky d nowMs stickyKey account expiresAt p =
     (let moved = filter (\<lambda>kv. fst kv \<noteq> stickyKey) (pl_sticky p) @ [(stickyKey, (account, expiresAt))];
          live = filter (\<lambda>kv. \<not> sticky_expired nowMs kv) moved in
      p\<lparr>pl_sticky := drop (length live - max_sticky d) live\<rparr>)"

definition isStrictAccountSticky :: "string option \<Rightarrow> bool" where
  "isStrictAccountSticky stickyKey =
     (case stickyKey of
        None \<Rightarrow> False
      | Some k \<Rightarrow>
          startsWith ''previous_response_id:'' k \<or> startsWith ''x-codex-turn-state:'' k \<or>
          startsWith ''responses_websocket_session:'' k \<or> startsWith ''provider_account:'' k \<or>
          startsWith ''anthropic_account_uuid:'' k)"

definition forgetStickyAccount :: "string \<Rightarrow> bool \<Rightarrow> pool \<Rightarrow> pool" where
  "forgetStickyAccount account preserve p =
     p\<lparr>pl_sticky := filter (\<lambda>(k, a, x). \<not> (a = account \<and> \<not> (preserve \<and> isStrictAccountSticky (Some k)))) (pl_sticky p)\<rparr>"

definition affinityKeySource :: "string option \<Rightarrow> string option" where
  "affinityKeySource stickyKey =
     (case stickyKey of
        None \<Rightarrow> None
      | Some k \<Rightarrow> (case index_of (CHR '':'') k of
          Some (Suc n) \<Rightarrow> Some (take (Suc n) k)
        | _ \<Rightarrow> Some ''unknown''))"

subsection \<open>Eligibility\<close>

definition limited_at :: "ms option \<Rightarrow> ms \<Rightarrow> bool" where
  "limited_at until nowMs = (case until of None \<Rightarrow> False | Some u \<Rightarrow> nowMs < u)"

definition usageLimited :: "pool_entry \<Rightarrow> ms \<Rightarrow> bool" where
  "usageLimited m nowMs = (if pe_allowSpendRemainingCredits m then False else limited_at (pe_usageLimitedUntilMs m) nowMs)"

definition spendingWhileLimited :: "pool_entry \<Rightarrow> ms \<Rightarrow> bool" where
  "spendingWhileLimited m nowMs =
     (if \<not> pe_allowSpendRemainingCredits m then False else limited_at (pe_usageLimitedUntilMs m) nowMs)"

definition preferHealthyTier :: "pool \<Rightarrow> nat list \<Rightarrow> ms \<Rightarrow> nat list" where
  "preferHealthyTier p eligible nowMs =
     (let healthy = filter (\<lambda>i. \<not> spendingWhileLimited (ent p i) nowMs) eligible in
      if healthy \<noteq> [] then healthy else eligible)"

definition supportsModel :: "pool_entry \<Rightarrow> string option \<Rightarrow> ms \<Rightarrow> bool" where
  "supportsModel m model nowMs =
     (case model of
        None \<Rightarrow> True
      | Some mdl \<Rightarrow>
          if (case pe_models m of None \<Rightarrow> False | Some ms \<Rightarrow> mdl \<notin> set ms) then False
          else (case map_of (pe_modelValidUntilMs m) mdl of
                  None \<Rightarrow> True
                | Some v \<Rightarrow> isSafeInteger v \<and> nowMs < v))"

text \<open>Reading a cooldown that has elapsed deletes it.\<close>

definition retryableAccountLimited :: "string \<Rightarrow> ms \<Rightarrow> pool \<Rightarrow> bool \<times> pool" where
  "retryableAccountLimited account nowMs p =
     (case pl_retryable p account of
        None \<Rightarrow> (False, p)
      | Some u \<Rightarrow> if nowMs < u then (True, p) else (False, p\<lparr>pl_retryable := (pl_retryable p)(account := None)\<rparr>))"

definition scopedRateLimitKey :: "string \<Rightarrow> string \<Rightarrow> string option \<Rightarrow> string \<times> string \<times> string" where
  "scopedRateLimitKey account model limitId = (account, model, nullish limitId [])"

definition limit_max :: "string \<Rightarrow> string \<Rightarrow> scoped_limit \<Rightarrow> ms option \<Rightarrow> ms option" where
  "limit_max account model c until =
     (if sl_account c = account \<and> sl_model c = model \<and> (case until of None \<Rightarrow> True | Some u \<Rightarrow> u < sl_untilMs c)
      then Some (sl_untilMs c) else until)"

definition modelLimitUntilMs :: "string \<Rightarrow> string option \<Rightarrow> ms \<Rightarrow> pool \<Rightarrow> ms option \<times> pool" where
  "modelLimitUntilMs account model nowMs p =
     (case model of
        None \<Rightarrow> (None, p)
      | Some mdl \<Rightarrow>
          let live = filter (\<lambda>(k, c). nowMs < sl_untilMs c) (pl_scoped p) in
          (fold (\<lambda>(k, c). limit_max account mdl c) live None, p\<lparr>pl_scoped := live\<rparr>))"

definition modelLimited :: "string \<Rightarrow> string option \<Rightarrow> ms \<Rightarrow> pool \<Rightarrow> bool \<times> pool" where
  "modelLimited account model nowMs p = (case modelLimitUntilMs account model nowMs p of (u, p') \<Rightarrow> (u \<noteq> None, p'))"

text \<open>The gates in the order of the conjunction; a gate that fails is the last one read.\<close>

definition entry_eligible :: "ms \<Rightarrow> string list \<Rightarrow> string option \<Rightarrow> nat \<Rightarrow> pool \<Rightarrow> bool \<times> pool" where
  "entry_eligible nowMs exclude model i p =
     (let m = ent p i in
      if \<not> pe_schedulable m then (False, p)
      else if \<not> supportsModel m model nowMs then (False, p)
      else if usageLimited m nowMs then (False, p)
      else
        (case retryableAccountLimited (pe_account m) nowMs p of (limited, p1) \<Rightarrow>
           if limited then (False, p1)
           else
             (case modelLimited (pe_account m) model nowMs p1 of (limited', p2) \<Rightarrow>
                if limited' then (False, p2) else (pe_account m \<notin> set exclude, p2))))"

fun eligible_scan :: "ms \<Rightarrow> string list \<Rightarrow> string option \<Rightarrow> nat list \<Rightarrow> pool \<Rightarrow> nat list \<times> pool" where
  "eligible_scan nowMs exclude model [] p = ([], p)"
| "eligible_scan nowMs exclude model (i # is) p =
     (case entry_eligible nowMs exclude model i p of (ok, p1) \<Rightarrow>
        (case eligible_scan nowMs exclude model is p1 of (es, p2) \<Rightarrow> (if ok then i # es else es, p2)))"

definition eligibleEntries :: "ms \<Rightarrow> string list \<Rightarrow> string option \<Rightarrow> pool \<Rightarrow> nat list \<times> pool" where
  "eligibleEntries nowMs exclude model p = eligible_scan nowMs exclude model [0..<length (pl_entries p)] p"

subsection \<open>Capacity\<close>

datatype capacity_probe = No_probe | Probe_answers bool | Probe_throws

definition atCapacity :: "(string \<Rightarrow> capacity_probe) \<Rightarrow> pool \<Rightarrow> nat \<Rightarrow> bool" where
  "atCapacity probe p i = (case probe (account_at p i) of Probe_answers b \<Rightarrow> b | _ \<Rightarrow> False)"

record capacity_tier =
  ct_candidates :: "nat list"
  ct_avoided :: bool
  ct_all_busy :: bool
  ct_busy :: nat

definition preferredCapacityTier :: "(string \<Rightarrow> capacity_probe) \<Rightarrow> pool \<Rightarrow> nat list \<Rightarrow> bool \<Rightarrow> capacity_tier" where
  "preferredCapacityTier probe p eligible avoidBusy =
     (if \<not> avoidBusy then \<lparr>ct_candidates = eligible, ct_avoided = False, ct_all_busy = False, ct_busy = 0\<rparr>
      else
        let nonBusy = filter (\<lambda>i. \<not> atCapacity probe p i) eligible; busy = length eligible - length nonBusy in
        \<lparr>ct_candidates = (if nonBusy \<noteq> [] then nonBusy else eligible),
         ct_avoided = (nonBusy \<noteq> [] \<and> 0 < busy),
         ct_all_busy = (eligible \<noteq> [] \<and> nonBusy = []),
         ct_busy = busy\<rparr>)"

end
