(* ===== verification/Oauth_Select.thy ===== *)
theory Oauth_Select
  imports Oauth_Pool
begin

text \<open>
  The choice of an account (\<open>packages/core/src/provider/oauth/pool.ts\<close>): least recently used, rendezvous hashing,
  quota pressure, expiring quota and measured speed, then \<open>select\<close> with its sticky sessions, its errors and the
  selection trace.
\<close>

subsection \<open>Choosing among candidates\<close>

definition lru_step :: "pool \<Rightarrow> nat \<Rightarrow> nat option \<Rightarrow> nat option" where
  "lru_step p e best =
     (case best of
        None \<Rightarrow> Some e
      | Some b \<Rightarrow>
          if pe_priority (ent p e) < pe_priority (ent p b) \<or>
             pe_priority (ent p e) = pe_priority (ent p b) \<and> pe_lastUsedAt (ent p e) < pe_lastUsedAt (ent p b)
          then Some e else best)"

definition chooseByLru :: "pool \<Rightarrow> nat list \<Rightarrow> nat option" where
  "chooseByLru p candidates = fold (lru_step p) candidates None"

definition tierPriority :: "pool \<Rightarrow> nat list \<Rightarrow> int option" where
  "tierPriority p candidates =
     fold (\<lambda>e t. case t of None \<Rightarrow> Some (pe_priority (ent p e))
                 | Some x \<Rightarrow> if pe_priority (ent p e) < x then Some (pe_priority (ent p e)) else t) candidates None"

definition preferredPriorityTier :: "pool \<Rightarrow> nat list \<Rightarrow> nat list" where
  "preferredPriorityTier p candidates =
     (case tierPriority p candidates of
        None \<Rightarrow> []
      | Some t \<Rightarrow> filter (\<lambda>e. pe_priority (ent p e) = t) candidates)"

text \<open>The loops that keep the best score seen: a candidate whose score is null is passed over.\<close>

definition best_step :: "('v \<Rightarrow> nat \<Rightarrow> 'v \<Rightarrow> nat \<Rightarrow> bool) \<Rightarrow> (nat \<Rightarrow> 'v option) \<Rightarrow> nat \<Rightarrow> (nat \<times> 'v) option \<Rightarrow> (nat \<times> 'v) option" where
  "best_step better score e best =
     (case score e of
        None \<Rightarrow> best
      | Some v \<Rightarrow>
          (case best of None \<Rightarrow> Some (e, v) | Some (b, w) \<Rightarrow> if better v e w b then Some (e, v) else best))"

definition best_of :: "('v \<Rightarrow> nat \<Rightarrow> 'v \<Rightarrow> nat \<Rightarrow> bool) \<Rightarrow> (nat \<Rightarrow> 'v option) \<Rightarrow> nat list \<Rightarrow> (nat \<times> 'v) option" where
  "best_of better score candidates = fold (best_step better score) candidates None"

definition chooseByStickyHash :: "pool_deps \<Rightarrow> pool \<Rightarrow> nat list \<Rightarrow> string \<Rightarrow> nat option" where
  "chooseByStickyHash d p candidates stickyKey =
     map_option fst (best_of (\<lambda>v e w b. w < v)
       (\<lambda>e. if Some (pe_priority (ent p e)) \<noteq> tierPriority p candidates then None
            else Some (pd_stickyScore d stickyKey (account_at p e))) candidates)"

subsection \<open>Quota scores\<close>

definition quotaFresh :: "pool_deps \<Rightarrow> pool_entry \<Rightarrow> ms \<Rightarrow> bool" where
  "quotaFresh d m nowMs =
     (case pe_quotaCapturedAtMs m of None \<Rightarrow> False | Some c \<Rightarrow> 0 < c \<and> nowMs - c \<le> pd_quotaFreshMs d)"

definition quotaWindowAppliesToModel :: "quota_window \<Rightarrow> string option \<Rightarrow> bool" where
  "quotaWindowAppliesToModel w model =
     (if \<not> startsWith ''7d-'' (qw_key w) then True
      else (case model of
              None \<Rightarrow> False
            | Some mdl \<Rightarrow>
                let scoped = toLowerCase (drop 3 (qw_key w)) in
                mdl \<noteq> [] \<and> scoped \<noteq> [] \<and> has_text scoped (toLowerCase mdl)))"

definition isWeeklyQuotaWindow :: "quota_window \<Rightarrow> bool" where
  "isWeeklyQuotaWindow w =
     (qw_key w = ''secondary'' \<or> qw_key w = ''7d'' \<or> startsWith ''7d-'' (qw_key w) \<or>
      (case qw_windowMinutes w of None \<Rightarrow> False | Some n \<Rightarrow> 7 * 24 * 60 \<le> n))"

definition expiringWindowWeight :: "quota_window \<Rightarrow> rat" where
  "expiringWindowWeight w = (if isWeeklyQuotaWindow w then 2 else 1)"

definition resetCreditValue :: "pool_deps \<Rightarrow> pool_entry \<Rightarrow> ms \<Rightarrow> rat" where
  "resetCreditValue d m nowMs =
     (if \<not> quotaFresh d m nowMs then 0
      else
        (case pe_quotaResetCredits m of
           None \<Rightarrow> 0
         | Some credits \<Rightarrow> if credits \<le> 0 then 0 else of_int (min \<lfloor>credits\<rfloor> 5) * (100 / (7 * 24)) * (1 / 10)))"

definition applicableQuotaWindows :: "pool_deps \<Rightarrow> pool_entry \<Rightarrow> string option \<Rightarrow> ms \<Rightarrow> quota_window list" where
  "applicableQuotaWindows d m model nowMs =
     (if \<not> quotaFresh d m nowMs then []
      else filter (\<lambda>w. quotaWindowAppliesToModel w model) (pe_quotaWindows m))"

definition quotaPressure :: "pool_deps \<Rightarrow> pool_entry \<Rightarrow> string option \<Rightarrow> ms \<Rightarrow> rat option" where
  "quotaPressure d m model nowMs =
     (case applicableQuotaWindows d m model nowMs of
        [] \<Rightarrow> None
      | w # ws \<Rightarrow> Some (fold (\<lambda>w x. max x (qw_usedPercent w)) ws (qw_usedPercent w)))"

definition expiring_share :: "ms \<Rightarrow> quota_window \<Rightarrow> rat" where
  "expiring_share nowMs w =
     (case qw_resetsAtMs w of
        None \<Rightarrow> 0
      | Some r \<Rightarrow>
          let remaining = max 0 (100 - qw_usedPercent w) in
          if r \<le> nowMs \<or> remaining \<le> 0 then 0
          else remaining / max (of_int (r - nowMs) / 3600000) (1 / 4) * expiringWindowWeight w)"

definition expiringQuotaValue :: "pool_deps \<Rightarrow> pool_entry \<Rightarrow> string option \<Rightarrow> ms \<Rightarrow> rat option" where
  "expiringQuotaValue d m model nowMs =
     (let t = sum_list (map (expiring_share nowMs) (applicableQuotaWindows d m model nowMs)) + resetCreditValue d m nowMs in
      if 0 < t then Some t else None)"

definition chooseByLowRisk :: "pool_deps \<Rightarrow> pool \<Rightarrow> nat list \<Rightarrow> string option \<Rightarrow> ms \<Rightarrow> nat option \<Rightarrow> nat option" where
  "chooseByLowRisk d p candidates model nowMs sticky =
     (let pressure = (\<lambda>e. quotaPressure d (ent p e) model nowMs) in
      case best_of (\<lambda>v e w b. v < w \<or> v = w \<and> pe_lastUsedAt (ent p e) < pe_lastUsedAt (ent p b))
             pressure (preferredPriorityTier p candidates) of
        None \<Rightarrow> None
      | Some (b, best) \<Rightarrow>
          (case sticky of
             None \<Rightarrow> Some b
           | Some s \<Rightarrow>
               let stickyPressure = (if pe_priority (ent p s) = pe_priority (ent p b) then pressure s else None) in
               (case stickyPressure of
                  None \<Rightarrow> Some b
                | Some x \<Rightarrow> if x \<le> best + 10 then Some s else Some b)))"

definition chooseByExpiringQuota :: "pool_deps \<Rightarrow> pool \<Rightarrow> nat list \<Rightarrow> string option \<Rightarrow> ms \<Rightarrow> nat option \<Rightarrow> nat option" where
  "chooseByExpiringQuota d p candidates model nowMs sticky =
     (let worth = (\<lambda>e. expiringQuotaValue d (ent p e) model nowMs) in
      case best_of (\<lambda>v e w b. w < v \<or> v = w \<and> pe_lastUsedAt (ent p e) < pe_lastUsedAt (ent p b))
             worth (preferredPriorityTier p candidates) of
        None \<Rightarrow> None
      | Some (b, best) \<Rightarrow>
          (case sticky of
             None \<Rightarrow> Some b
           | Some s \<Rightarrow>
               let stickyValue = (if pe_priority (ent p s) = pe_priority (ent p b) then worth s else None) in
               (case stickyValue of
                  None \<Rightarrow> Some b
                | Some x \<Rightarrow> if best * (85 / 100) \<le> x then Some s else Some b)))"

subsection \<open>The fastest strategy\<close>

definition median_pace :: "speed option list \<Rightarrow> rat option" where
  "median_pace speeds =
     (let paces = sort (List.map_filter (\<lambda>s. Option.bind s (\<lambda>x. positive_pace (sp_tokensPerSecond x))) speeds) in
      if paces = [] then None else Some (paces ! (length paces div 2)))"

definition pace_estimate :: "rat option \<Rightarrow> speed \<Rightarrow> rat" where
  "pace_estimate median s =
     sp_ttftMs s + (case positive_pace (or_else (sp_tokensPerSecond s) median) of None \<Rightarrow> 0 | Some p \<Rightarrow> 200000 / p)"

definition count_turn :: "string \<Rightarrow> pool \<Rightarrow> nat \<times> pool" where
  "count_turn turnKey p =
     (let turn = nullish (map_of (pl_speedTurns p) turnKey) 0 + 1;
          turns = filter (\<lambda>kv. fst kv \<noteq> turnKey) (pl_speedTurns p) @ [(turnKey, turn)] in
      (turn, p\<lparr>pl_speedTurns := (if 1024 < length turns then tl turns else turns)\<rparr>))"

text \<open>The turn that explores an unmeasured account, or the fastest measured one and those alike within a tenth.\<close>

definition fastest_choice ::
  "pool \<Rightarrow> nat list \<Rightarrow> nat list \<Rightarrow> nat list \<Rightarrow> (nat \<Rightarrow> rat) \<Rightarrow> nat \<Rightarrow> nat option \<Rightarrow> nat option \<times> select_reason" where
  "fastest_choice p tier unknown measured estimate turn sticky =
     (if unknown \<noteq> [] \<and> (measured = [] \<or> turn mod 5 = 2) then (chooseByLru p unknown, Strategy_choice)
      else
        (case measured of
           [] \<Rightarrow> (chooseByLru p tier, Lru)
         | best # rest \<Rightarrow>
             let alike = filter (\<lambda>e. estimate e \<le> estimate best * (11 / 10)) measured in
             if sticky \<in> Some ` set alike then (sticky, Sticky_hit)
             else (find (\<lambda>e. True) alike, Strategy_choice)))"

definition chooseFastest :: "pool \<Rightarrow> nat list \<Rightarrow> nat option \<Rightarrow> string option \<Rightarrow> ms \<Rightarrow> (nat option \<times> select_reason) \<times> pool" where
  "chooseFastest p candidates sticky model nowMs =
     (let tier = preferredPriorityTier p candidates;
          speed_at = (\<lambda>e. speed_read (pl_speed p) (account_at p e) model nowMs);
          estimate = (\<lambda>e. pace_estimate (median_pace (map speed_at tier)) (the (speed_at e))) in
      case count_turn (nullish model []) p of (turn, p') \<Rightarrow>
        (fastest_choice p tier (filter (\<lambda>e. speed_at e = None) tier)
           (sort_key estimate (filter (\<lambda>e. speed_at e \<noteq> None) tier)) estimate turn sticky, p'))"

definition sticky_or_hash :: "pool_deps \<Rightarrow> pool \<Rightarrow> nat list \<Rightarrow> string option \<Rightarrow> nat option \<Rightarrow> nat option \<times> select_reason" where
  "sticky_or_hash d p candidates stickyKey sticky =
     (case sticky of
        Some s \<Rightarrow> (Some s, Sticky_hit)
      | None \<Rightarrow>
          (case stickyKey of
             Some k \<Rightarrow> (if candidates \<noteq> [] then chooseByStickyHash d p candidates k else chooseByLru p candidates, Hash_assign)
           | None \<Rightarrow> (chooseByLru p candidates, Lru)))"

definition chooseByStrategy ::
  "pool_deps \<Rightarrow> pool \<Rightarrow> nat list \<Rightarrow> string option \<Rightarrow> nat option \<Rightarrow> string option \<Rightarrow> ms \<Rightarrow> (nat option \<times> select_reason) \<times> pool" where
  "chooseByStrategy d p candidates stickyKey sticky model nowMs =
     (if pd_strategy d = Fastest then chooseFastest p candidates sticky model nowMs
      else if pd_rotateIndependent d then ((chooseByLru p candidates, Lru), p)
      else
        (case pd_strategy d of
           Balanced \<Rightarrow> (sticky_or_hash d p candidates stickyKey sticky, p)
         | Manual_priority \<Rightarrow>
             (case sticky of Some s \<Rightarrow> ((Some s, Sticky_hit), p) | None \<Rightarrow> ((chooseByLru p candidates, Lru), p))
         | s \<Rightarrow>
             (case (if s = Low_risk then chooseByLowRisk d p candidates model nowMs sticky
                    else chooseByExpiringQuota d p candidates model nowMs sticky) of
                Some e \<Rightarrow> ((Some e, if Some e = sticky then Sticky_hit else Strategy_choice), p)
              | None \<Rightarrow> (sticky_or_hash d p candidates stickyKey sticky, p))))"

subsection \<open>The selection trace\<close>

datatype exclusion =
    Excluded_disabled
  | Excluded_unsupported_model
  | Excluded_quota_limit
  | Excluded_cooldown
  | Excluded_already_tried
  | Excluded_identity_pin
  | Excluded_credit_tier
  | Excluded_capacity
  | Excluded_priority

record trace_row =
  tr_account :: string
  tr_selected :: bool
  tr_priority :: int
  tr_exclusion :: "exclusion option"
  tr_quota_fresh :: bool
  tr_quota_pressure :: "rat option"
  tr_expiring_value :: "rat option"
  tr_next_reset :: "ms option"
  tr_ttft :: "rat option"
  tr_tokens_per_second :: "rat option"

record selection =
  os_reason :: select_reason
  os_strategy :: strategy
  os_affinityKeySource :: "string option"
  os_capacityAvoided :: bool
  os_allAtCapacity :: bool
  os_busyEligible :: nat
  os_retryAttempt :: nat
  os_trace :: "trace_row list"
  os_omitted :: nat

text \<open>What one call of \<open>select\<close> has fixed when it takes the trace.\<close>

record trace_view =
  tv_nowMs :: ms
  tv_model :: "string option"
  tv_exclude :: "string list"
  tv_asserted :: "string option"
  tv_preferred :: "nat list"
  tv_candidates :: "nat list"

definition identity_matches :: "string option \<Rightarrow> pool_entry \<Rightarrow> bool" where
  "identity_matches asserted m =
     (case asserted of None \<Rightarrow> True | Some a \<Rightarrow> map_option toLowerCase (pe_anthropicAccountUuid m) = Some a)"

definition exclusion_of :: "trace_view \<Rightarrow> nat \<Rightarrow> nat \<Rightarrow> pool \<Rightarrow> exclusion option \<times> pool" where
  "exclusion_of v selected i p =
     (let m = ent p i; nowMs = tv_nowMs v; model = tv_model v in
      if \<not> pe_schedulable m then (Some Excluded_disabled, p)
      else if \<not> supportsModel m model nowMs then (Some Excluded_unsupported_model, p)
      else
        (case (if usageLimited m nowMs then (True, p) else modelLimited (pe_account m) model nowMs p) of (limited, p1) \<Rightarrow>
           if limited then (Some Excluded_quota_limit, p1)
           else
             (case retryableAccountLimited (pe_account m) nowMs p1 of (cooling, p2) \<Rightarrow>
                (if cooling then Some Excluded_cooldown
                 else if pe_account m \<in> set (tv_exclude v) then Some Excluded_already_tried
                 else if \<not> identity_matches (tv_asserted v) m then Some Excluded_identity_pin
                 else if i \<notin> set (tv_preferred v) then Some Excluded_credit_tier
                 else if i \<notin> set (tv_candidates v) then Some Excluded_capacity
                 else if Some (pe_priority m) \<noteq> tierPriority p (tv_candidates v) \<and> i \<noteq> selected
                 then Some Excluded_priority
                 else None, p2))))"

definition next_reset :: "pool_deps \<Rightarrow> pool_entry \<Rightarrow> string option \<Rightarrow> ms \<Rightarrow> ms option" where
  "next_reset d m model nowMs =
     (case List.map_filter (\<lambda>w. case qw_resetsAtMs w of Some r \<Rightarrow> if nowMs < r then Some r else None | None \<Rightarrow> None)
             (applicableQuotaWindows d m model nowMs) of
        [] \<Rightarrow> None | r # rs \<Rightarrow> Some (fold min rs r))"

definition trace_entry :: "pool_deps \<Rightarrow> trace_view \<Rightarrow> nat \<Rightarrow> nat \<Rightarrow> pool \<Rightarrow> trace_row \<times> pool" where
  "trace_entry d v selected i p =
     (let m = ent p i; speed = speed_read (pl_speed p) (pe_account m) (tv_model v) (tv_nowMs v) in
      case exclusion_of v selected i p of (x, p') \<Rightarrow>
        (\<lparr>tr_account = pe_account m, tr_selected = (i = selected), tr_priority = pe_priority m, tr_exclusion = x,
          tr_quota_fresh = quotaFresh d m (tv_nowMs v),
          tr_quota_pressure = quotaPressure d m (tv_model v) (tv_nowMs v),
          tr_expiring_value = expiringQuotaValue d m (tv_model v) (tv_nowMs v),
          tr_next_reset = next_reset d m (tv_model v) (tv_nowMs v),
          tr_ttft = map_option sp_ttftMs speed,
          tr_tokens_per_second = Option.bind speed sp_tokensPerSecond\<rparr>, p'))"

fun trace_rows :: "pool_deps \<Rightarrow> trace_view \<Rightarrow> nat \<Rightarrow> nat list \<Rightarrow> pool \<Rightarrow> trace_row list \<times> pool" where
  "trace_rows d v selected [] p = ([], p)"
| "trace_rows d v selected (i # is) p =
     (case trace_entry d v selected i p of (row, p1) \<Rightarrow>
        (case trace_rows d v selected is p1 of (rows, p2) \<Rightarrow> (row # rows, p2)))"

text \<open>The first twenty entries; the selected one takes the last place when it is not among them.\<close>

definition trace_kept :: "pool \<Rightarrow> nat \<Rightarrow> nat list" where
  "trace_kept p selected =
     (let kept = take 20 [0..<length (pl_entries p)] in
      if selected \<in> set kept then kept else kept[length kept - 1 := selected])"

definition snapshot :: "pool_deps \<Rightarrow> trace_view \<Rightarrow> nat \<Rightarrow> pool \<Rightarrow> (trace_row list \<times> nat) \<times> pool" where
  "snapshot d v selected p =
     (let kept = trace_kept p selected in
      case trace_rows d v selected kept p of (rows, p') \<Rightarrow> ((rows, length (pl_entries p) - length kept), p'))"

subsection \<open>Selection\<close>

definition plain_error :: "string \<Rightarrow> thrown" where
  "plain_error msg = Thrown Plain_error (Some ''Error'') None (Some msg) No_object"

definition identity_mismatch_message :: string where
  "identity_mismatch_message =
     ''Claude request account does not match a verified OAuth account; reconnect or select the matching account''"

definition stickyUnavailableError :: "string \<Rightarrow> ms \<Rightarrow> thrown" where
  "stickyUnavailableError source retryAfterMs =
     CodexResponsesBeforeSendError (''oauth pool: '' @ source @ '' original account is unavailable'')
       ((''reason'', JStr ''oauth_affinity_unavailable'') #
        (if 0 < retryAfterMs then [(''retry_after_ms'', JNum (of_int retryAfterMs))] else []))"

definition stickyAccountWaitMs :: "thrown \<Rightarrow> ms option" where
  "stickyAccountWaitMs err =
     (case th_instance err of
        Codex_before_send u \<Rightarrow>
          let recovery = record_of (opt_prop ''recovery'' (record_of (uf_providerRaw u))) in
          if opt_prop ''reason'' recovery \<noteq> Some (JStr ''oauth_affinity_unavailable'') then None
          else
            (case opt_prop ''retry_after_ms'' recovery of
               Some (JNum n) \<Rightarrow>
                 if n \<noteq> of_int \<lfloor>n\<rfloor> \<or> \<not> isSafeInteger \<lfloor>n\<rfloor> \<or> \<lfloor>n\<rfloor> \<le> 0 then None
                 else if STICKY_ACCOUNT_WAIT_MAX_MS < \<lfloor>n\<rfloor> then None
                 else Some \<lfloor>n\<rfloor>
             | _ \<Rightarrow> None)
      | _ \<Rightarrow> None)"

definition commitSelection :: "pool_deps \<Rightarrow> nat \<Rightarrow> string option \<Rightarrow> ms \<Rightarrow> pool \<Rightarrow> pool" where
  "commitSelection d e stickyKey nowMs p =
     (let counter = pl_counter p + 1;
          p1 = update_entry e (\<lambda>m. m\<lparr>pe_lastUsedAt := counter\<rparr>) (p\<lparr>pl_counter := counter\<rparr>) in
      case stickyKey of
        None \<Rightarrow> p1
      | Some k \<Rightarrow> rememberSticky d nowMs k (account_at p e) (nowMs + pd_stickyTtlMs d) p1)"

text \<open>The key's live session: the account it is bound to and, when that account is a candidate, its entry.\<close>

definition sticky_lookup :: "pool_deps \<Rightarrow> ms \<Rightarrow> string option \<Rightarrow> nat list \<Rightarrow> pool \<Rightarrow> string option \<times> nat option \<times> pool" where
  "sticky_lookup d nowMs stickyKey candidates p =
     (case stickyKey of
        None \<Rightarrow> (None, None, p)
      | Some k \<Rightarrow>
          (case map_of (pl_sticky p) k of
             Some (a, expiresAt) \<Rightarrow>
               if expiresAt \<le> nowMs
               then (None, None, p\<lparr>pl_sticky := filter (\<lambda>kv. fst kv \<noteq> k) (pl_sticky p)\<rparr>)
               else
                 (case find (\<lambda>i. account_at p i = a) candidates of
                    Some e \<Rightarrow> (Some a, Some e, rememberSticky d nowMs k a (nowMs + pd_stickyTtlMs d) p)
                  | None \<Rightarrow> (Some a, None, p))
           | None \<Rightarrow> (None, None, p)))"

definition pinned_wait :: "ms \<Rightarrow> string \<Rightarrow> string option \<Rightarrow> pool \<Rightarrow> ms \<times> pool" where
  "pinned_wait nowMs account model p =
     (let accountLimit = (case find_account p account of
            None \<Rightarrow> None
          | Some i \<Rightarrow> if pe_allowSpendRemainingCredits (ent p i) then None else pe_usageLimitedUntilMs (ent p i)) in
      case modelLimitUntilMs account model nowMs p of (modelLimit, p') \<Rightarrow>
        (let until = max (nullish accountLimit 0) (nullish modelLimit 0) in
         (if nowMs < until then until - nowMs else 0, p')))"

definition selection_of :: "pool_deps \<Rightarrow> string option \<Rightarrow> string list \<Rightarrow> capacity_tier \<Rightarrow> select_reason \<Rightarrow> trace_row list \<times> nat \<Rightarrow> selection" where
  "selection_of d stickyKey exclude tier reason rows =
     \<lparr>os_reason = reason, os_strategy = pd_strategy d, os_affinityKeySource = affinityKeySource stickyKey,
      os_capacityAvoided = ct_avoided tier, os_allAtCapacity = ct_all_busy tier, os_busyEligible = ct_busy tier,
      os_retryAttempt = card (set exclude), os_trace = fst rows, os_omitted = snd rows\<rparr>"

definition no_account_error :: "pool \<Rightarrow> string option \<Rightarrow> ms \<Rightarrow> thrown" where
  "no_account_error p model nowMs =
     (case model of
        Some mdl \<Rightarrow>
          if \<not> list_ex (\<lambda>m. supportsModel m model nowMs) (pl_entries p)
          then plain_error (''oauth pool: no account supports model '' @ [CHR 0x22] @ mdl @ [CHR 0x22])
          else plain_error ''oauth pool has no schedulable account''
      | None \<Rightarrow> plain_error ''oauth pool has no schedulable account'')"

definition asserted_account :: "string option \<Rightarrow> string option" where
  "asserted_account stickyKey =
     (case stickyKey of
        Some k \<Rightarrow> if startsWith ''anthropic_account_uuid:'' k then Some (drop (length ''anthropic_account_uuid:'') k) else None
      | None \<Rightarrow> None)"

definition key_has_prefix :: "string \<Rightarrow> string option \<Rightarrow> bool" where
  "key_has_prefix prefix stickyKey = (case stickyKey of None \<Rightarrow> False | Some k \<Rightarrow> startsWith prefix k)"

text \<open>A chosen entry is traced, committed and reported.\<close>

definition take_entry ::
  "pool_deps \<Rightarrow> trace_view \<Rightarrow> capacity_tier \<Rightarrow> string option \<Rightarrow> string option \<Rightarrow> nat \<Rightarrow> select_reason \<Rightarrow> pool \<Rightarrow> (nat \<times> selection) \<times> pool" where
  "take_entry d v tier stickyKey commitKey e reason p =
     (case snapshot d v e p of (rows, p1) \<Rightarrow>
        ((e, selection_of d stickyKey (tv_exclude v) tier reason rows), commitSelection d e commitKey (tv_nowMs v) p1))"

definition select_from ::
  "pool_deps \<Rightarrow> trace_view \<Rightarrow> capacity_tier \<Rightarrow> string option \<Rightarrow> nat list \<Rightarrow> pool \<Rightarrow> (thrown + nat \<times> selection) \<times> pool" where
  "select_from d v tier stickyKey eligible p =
     (let nowMs = tv_nowMs v; model = tv_model v; stickyOnly = isStrictAccountSticky stickyKey in
      case sticky_lookup d nowMs stickyKey (if stickyOnly then eligible else ct_candidates tier) p of
        (known, stickyEntry, p1) \<Rightarrow>
          (case (if stickyOnly then stickyEntry else None) of
             Some e \<Rightarrow> (case take_entry d v tier stickyKey None e Sticky_hit p1 of (r, p2) \<Rightarrow> (Inr r, p2))
           | None \<Rightarrow>
               if key_has_prefix ''previous_response_id:'' stickyKey \<and> known = None
               then (Inl (stickyUnavailableError ''previous_response_id'' 0), p1)
               else
                 (case (if stickyOnly then known else None) of
                    Some a \<Rightarrow>
                      (case pinned_wait nowMs a model p1 of (wait, p2) \<Rightarrow>
                         (Inl (stickyUnavailableError (nullish (affinityKeySource stickyKey) ''stateful continuation'') wait), p2))
                  | None \<Rightarrow>
                      let choiceKey = (if stickyOnly then None else stickyKey) in
                      (case chooseByStrategy d p1 (ct_candidates tier) choiceKey stickyEntry model nowMs of
                         ((None, reason), p2) \<Rightarrow> (Inl (no_account_error p2 model nowMs), p2)
                       | ((Some e, reason), p2) \<Rightarrow>
                           (case take_entry d v tier stickyKey choiceKey e reason p2 of (r, p3) \<Rightarrow> (Inr r, p3))))))"

definition select ::
  "pool_deps \<Rightarrow> (string \<Rightarrow> capacity_probe) \<Rightarrow> ms \<Rightarrow> string option \<Rightarrow> string list \<Rightarrow> bool \<Rightarrow> string option \<Rightarrow> pool
     \<Rightarrow> (thrown + nat \<times> selection) \<times> pool" where
  "select d probe nowMs stickyKey exclude avoidBusy model p =
     (let asserted = asserted_account stickyKey in
      case eligibleEntries nowMs exclude model p of (open_entries, p1) \<Rightarrow>
        (let eligible = filter (\<lambda>i. identity_matches asserted (ent p1 i)) open_entries in
         if asserted \<noteq> None \<and> eligible = [] then (Inl (AnthropicIdentityError identity_mismatch_message), p1)
         else
           let preferred = preferHealthyTier p1 eligible nowMs;
               tier = preferredCapacityTier probe p1 preferred avoidBusy;
               v = \<lparr>tv_nowMs = nowMs, tv_model = model, tv_exclude = exclude, tv_asserted = asserted,
                    tv_preferred = preferred, tv_candidates = ct_candidates tier\<rparr> in
           select_from d v tier stickyKey eligible p1))"

end
