(* ===== verification/Oauth_Affinity.thy ===== *)
theory Oauth_Affinity
  imports Oauth_Select
begin

text \<open>
  Which requests belong together: the sticky key read off a native or a chat request
  (\<open>provider/oauth/pool.ts\<close>), the account UUID a Claude client asserts (\<open>anthropic-identity.ts\<close>),
  the user-turn test of \<open>queue/user-turn.ts\<close> and the standalone history test of
  \<open>codex-turn-state-recovery.ts\<close>. The UUID schema is an argument. Header names are no
  array indices, so an object lists its headers in insertion order.
\<close>

subsection \<open>Requests\<close>

datatype header_value = One_value string | Many_values "string list"

text \<open>A native request: its body and, when it travels in a carrier, the headers, the protocol and the recorded mutations.\<close>

record carrier =
  nc_headers :: "(string \<times> header_value) list"
  nc_protocol :: string
  nc_headers_dropped :: "string list"
  nc_turn_state_recovered :: bool

record native_input =
  ni_body :: json
  ni_carrier :: "carrier option"

definition CODEX_RESPONSES_WEBSOCKET_SESSION_HEADER :: string where
  "CODEX_RESPONSES_WEBSOCKET_SESSION_HEADER = ''x-helm-codex-responses-websocket-session''"

fun headerValue :: "(string \<times> header_value) list \<Rightarrow> string \<Rightarrow> string option" where
  "headerValue [] name = None"
| "headerValue ((k, v) # hs) name =
     (if toLowerCase k \<noteq> toLowerCase name then headerValue hs name
      else
        (case v of
           One_value t \<Rightarrow> if trim t = [] then None else Some (trim t)
         | Many_values [] \<Rightarrow> None
         | Many_values (t # ts) \<Rightarrow> if trim t = [] then None else Some (trim t)))"

definition bodyString :: "json option \<Rightarrow> string \<Rightarrow> string option" where
  "bodyString body key =
     (case opt_prop key body of Some (JStr s) \<Rightarrow> if trim s = [] then None else Some (trim s) | _ \<Rightarrow> None)"

text \<open>The first of several keys that holds text, as \<open>label:value\<close>.\<close>

fun first_body_key :: "string \<Rightarrow> json option \<Rightarrow> string list \<Rightarrow> string option" where
  "first_body_key label body [] = None"
| "first_body_key label body (k # ks) =
     (case bodyString body k of Some v \<Rightarrow> Some (label @ k @ '':'' @ v) | None \<Rightarrow> first_body_key label body ks)"

fun first_header_key :: "(string \<times> header_value) list \<Rightarrow> string list \<Rightarrow> string option" where
  "first_header_key hs [] = None"
| "first_header_key hs (k # ks) =
     (case headerValue hs k of Some v \<Rightarrow> Some (k @ '':'' @ v) | None \<Rightarrow> first_header_key hs ks)"

subsection \<open>Identity and devices\<close>

definition deviceIdFromMetadataUserId :: "string \<Rightarrow> string option" where
  "deviceIdFromMetadataUserId userId =
     (let parsed = record_of (JSON_parse userId) in or_else (bodyString parsed ''device_id'') (bodyString parsed ''deviceId''))"

definition deviceAffinityKeyFromBody :: "json option \<Rightarrow> string option" where
  "deviceAffinityKeyFromBody body =
     (case or_else (bodyString body ''device_id'') (bodyString body ''deviceId'') of
        Some direct \<Rightarrow> Some (''device_id:'' @ direct)
      | None \<Rightarrow>
          let metadata = record_of (opt_prop ''metadata'' body) in
          (case or_else (bodyString metadata ''device_id'') (bodyString metadata ''deviceId'') of
             Some device \<Rightarrow> Some (''metadata.device_id:'' @ device)
           | None \<Rightarrow>
               map_option (\<lambda>v. ''metadata.user_id.device_id:'' @ v)
                 (Option.bind (bodyString metadata ''user_id'') deviceIdFromMetadataUserId)))"

definition metadata_keys :: "string list" where
  "metadata_keys = [''session_id'', ''conversation_id'', ''thread_id'', ''user_id'']"

definition native_header_keys :: "string list" where
  "native_header_keys =
     [''device_id'', ''x-device-id'', ''session-id'', ''thread-id'', ''session_id'', ''x-session-id'',
      ''x-session-key'', ''prompt_cache_key'', ''conversation_id'']"

text \<open>A chain of fallbacks: the first key found.\<close>

definition first_key :: "'a option list \<Rightarrow> 'a option" where
  "first_key xs = foldr or_else xs None"

definition identity_key :: "(json \<Rightarrow> string option) \<Rightarrow> pool_deps \<Rightarrow> json \<Rightarrow> thrown + string option" where
  "identity_key uuid d body =
     (if pd_profile d = Some Profile_anthropic_messages
      then map_sum id (map_option (\<lambda>u. ''anthropic_account_uuid:'' @ u)) (anthropicRequestAccountUuid uuid (Some body))
      else Inr None)"

definition stickyKeyFromNative :: "(json \<Rightarrow> string option) \<Rightarrow> pool_deps \<Rightarrow> native_input \<Rightarrow> thrown + string option" where
  "stickyKeyFromNative uuid d input =
     (let body = Some (ni_body input); headers = (case ni_carrier input of None \<Rightarrow> [] | Some c \<Rightarrow> nc_headers c) in
      case identity_key uuid d (ni_body input) of
        Inl err \<Rightarrow> Inl err
      | Inr (Some k) \<Rightarrow> Inr (Some k)
      | Inr None \<Rightarrow> Inr (first_key
          [first_header_key headers [''x-codex-turn-state''],
           first_body_key [] body [''previous_response_id''],
           map_option (\<lambda>v. ''responses_websocket_session:'' @ v) (headerValue headers CODEX_RESPONSES_WEBSOCKET_SESSION_HEADER),
           deviceAffinityKeyFromBody body,
           first_header_key headers native_header_keys,
           first_body_key [] body [''session_id'', ''prompt_cache_key'', ''conversation_id''],
           first_body_key ''metadata.'' (record_of (opt_prop ''metadata'' body)) metadata_keys]))"

definition stickyKeyFromChat :: "(json \<Rightarrow> string option) \<Rightarrow> pool_deps \<Rightarrow> json \<Rightarrow> thrown + string option" where
  "stickyKeyFromChat uuid d req =
     (case identity_key uuid d req of
        Inl err \<Rightarrow> Inl err
      | Inr (Some k) \<Rightarrow> Inr (Some k)
      | Inr None \<Rightarrow> Inr (first_key
          [first_body_key [] (Some req) [''previous_response_id''],
           deviceAffinityKeyFromBody (Some req),
           first_body_key [] (Some req) [''prompt_cache_key'', ''session_id'', ''conversation_id'', ''user'', ''safety_identifier''],
           first_body_key ''metadata.'' (record_of (prop_of ''metadata'' req)) metadata_keys]))"

definition modelFromBody :: "json \<Rightarrow> string option" where
  "modelFromBody body = bodyString (Some body) ''model''"

definition mediaModel :: "json \<Rightarrow> string option" where
  "mediaModel req =
     (case prop_of ''model'' req of
        Some (JStr m) \<Rightarrow>
          if m = ''grok-imagine-video-1.5'' then Some ''grok-imagine-video-1.5-preview''
          else if m = [] then None else Some m
      | _ \<Rightarrow> None)"

text \<open>An image edit names its model only in its JSON form; the other form is a multipart body of raw bytes.\<close>

datatype image_edit_input = Edit_json json | Edit_multipart

definition imageEditModel :: "image_edit_input \<Rightarrow> string option" where
  "imageEditModel req = (case req of Edit_json body \<Rightarrow> mediaModel body | Edit_multipart \<Rightarrow> None)"

subsection \<open>User turns\<close>

definition tool_part :: "json \<Rightarrow> bool" where
  "tool_part part =
     (record_of (Some part) \<noteq> None \<and>
      (prop_of ''type'' part \<in> {Some (JStr ''tool_result''), Some (JStr ''tool_use_result''), Some (JStr ''tool_use'')} \<or>
       prop_of ''tool_use_id'' part \<noteq> None \<or> prop_of ''tool_call_id'' part \<noteq> None))"

definition isToolResultContent :: "json option \<Rightarrow> bool" where
  "isToolResultContent content = (case content of Some (JArr ps) \<Rightarrow> list_ex tool_part ps | _ \<Rightarrow> False)"

definition user_item :: "json option \<Rightarrow> bool" where
  "user_item item =
     (record_of item \<noteq> None \<and> opt_prop ''role'' item = Some (JStr ''user'') \<and> \<not> isToolResultContent (opt_prop ''content'' item))"

definition isUserMessageRequest :: "json \<Rightarrow> bool" where
  "isUserMessageRequest req =
     (case prop_of ''messages'' req of
        Some (JArr messages) \<Rightarrow> user_item (last_opt messages)
      | _ \<Rightarrow>
          (case prop_of ''input'' req of
             Some (JStr s) \<Rightarrow> trim s \<noteq> []
           | Some (JArr items) \<Rightarrow>
               opt_prop ''type'' (last_opt items) \<notin> {Some (JStr ''function_call_output''), Some (JStr ''reasoning'')} \<and>
               user_item (last_opt items)
           | _ \<Rightarrow> False))"

subsection \<open>Standalone history\<close>

record history_state =
  hs_pending :: "(string \<times> string) list"
  hs_seen :: "string list"
  hs_user :: bool

definition string_of_prop :: "(rat \<Rightarrow> string) \<Rightarrow> string \<Rightarrow> json \<Rightarrow> string" where
  "string_of_prop num k v = (case prop_of k v of None \<Rightarrow> ''undefined'' | Some x \<Rightarrow> js_String num x)"

definition history_part_ok :: "(rat \<Rightarrow> string) \<Rightarrow> json \<Rightarrow> bool" where
  "history_part_ok num part =
     (record_of (Some part) \<noteq> None \<and> is_nullish (prop_of ''file_id'' part) \<and>
      string_of_prop num ''type'' part \<in> {''input_text'', ''output_text'', ''text'', ''input_image'', ''refusal''} \<and>
      (prop_of ''type'' part = Some (JStr ''input_image'') \<longrightarrow> as_string (prop_of ''image_url'' part) \<noteq> None))"

definition history_content_ok :: "(rat \<Rightarrow> string) \<Rightarrow> json option \<Rightarrow> bool" where
  "history_content_ok num content =
     (case content of Some (JStr s) \<Rightarrow> True | Some (JArr ps) \<Rightarrow> list_all (history_part_ok num) ps | _ \<Rightarrow> False)"

definition history_item :: "(rat \<Rightarrow> string) \<Rightarrow> json \<Rightarrow> history_state \<Rightarrow> history_state option" where
  "history_item num item h =
     (if record_of (Some item) = None then None
      else
        let type = (if is_nullish (prop_of ''type'' item) then Some (JStr ''message'') else prop_of ''type'' item);
            call_id = as_string (prop_of ''call_id'' item) in
        if type = Some (JStr ''message'')
        then
          (if string_of_prop num ''role'' item \<in> {''user'', ''assistant'', ''developer'', ''system''} \<and>
              history_content_ok num (prop_of ''content'' item)
           then Some (h\<lparr>hs_user := hs_user h \<or> prop_of ''role'' item = Some (JStr ''user'')\<rparr>) else None)
        else if type = Some (JStr ''function_call'') \<or> type = Some (JStr ''custom_tool_call'')
        then
          (case call_id of
             None \<Rightarrow> None
           | Some c \<Rightarrow>
               if c = [] \<or> c \<in> set (hs_seen h) then None
               else Some (h\<lparr>hs_seen := c # hs_seen h, hs_pending := AList.update c (the (as_string type)) (hs_pending h)\<rparr>))
        else if type = Some (JStr ''function_call_output'') \<or> type = Some (JStr ''custom_tool_call_output'')
        then
          (case call_id of
             None \<Rightarrow> None
           | Some c \<Rightarrow>
               let t = the (as_string type) in
               if map_of (hs_pending h) c \<noteq> Some (take (length t - 7) t) then None
               else Some (h\<lparr>hs_pending := AList.delete c (hs_pending h)\<rparr>))
        else if type = Some (JStr ''reasoning'') \<or> type = Some (JStr ''additional_tools'') then Some h
        else None)"

fun history_items :: "(rat \<Rightarrow> string) \<Rightarrow> json list \<Rightarrow> history_state \<Rightarrow> history_state option" where
  "history_items num [] h = Some h"
| "history_items num (i # is) h = (case history_item num i h of None \<Rightarrow> None | Some h' \<Rightarrow> history_items num is h')"

definition hasStandaloneCodexHistory :: "(rat \<Rightarrow> string) \<Rightarrow> json \<Rightarrow> bool" where
  "hasStandaloneCodexHistory num body =
     (if prop_of ''store'' body \<noteq> Some (JBool False) \<or> \<not> is_nullish (prop_of ''previous_response_id'' body) \<or>
         \<not> is_nullish (prop_of ''conversation'' body) \<or> \<not> is_nullish (prop_of ''prompt'' body) \<or>
         prop_of ''background'' body = Some (JBool True)
      then False
      else
        (case prop_of ''input'' body of
           Some (JArr items) \<Rightarrow>
             (case history_items num items \<lparr>hs_pending = [], hs_seen = [], hs_user = False\<rparr> of
                None \<Rightarrow> False
              | Some h \<Rightarrow> hs_user h \<and> hs_pending h = [])
         | _ \<Rightarrow> False))"

end
