(* ===== verification/Oauth_Ops.thy ===== *)
theory Oauth_Ops
  imports Oauth_Affinity Failover_Guard "HOL-Library.List_Lexorder" "HOL-Library.Char_ord"
begin

text \<open>
  What the pool does to its state outside a selection (\<open>provider/oauth/pool.ts\<close>): parking, cooling and
  disabling accounts, recording which account owns a response or a turn state, reading usage off a stream, and the
  out-of-band mutators. The hooks a call fires are kept in a log, newest last.
\<close>

datatype pool_hook = Hook_rate_limit string ms | Hook_credential_failure string

subsection \<open>Parking\<close>

definition disableAccount :: "string \<Rightarrow> pool \<Rightarrow> pool" where
  "disableAccount account p =
     forgetStickyAccount account True
       (case find_account p account of
          None \<Rightarrow> p | Some i \<Rightarrow> update_entry i (\<lambda>m. m\<lparr>pe_schedulable := False\<rparr>) p)"

definition parkCredentialFailedAccount :: "nat \<Rightarrow> thrown \<Rightarrow> pool \<Rightarrow> pool \<times> pool_hook list" where
  "parkCredentialFailedAccount e err p =
     (let account = account_at p e; p1 = disableAccount account p in
      if th_instance err = Credential_disconnected then (p1, [])
      else if account \<in> set (pl_reported p1) then (p1, [])
      else (p1\<lparr>pl_reported := pl_reported p1 @ [account]\<rparr>, [Hook_credential_failure account]))"

definition coolRetryableAccount :: "ms \<Rightarrow> nat \<Rightarrow> pool \<Rightarrow> pool" where
  "coolRetryableAccount nowMs e p =
     forgetStickyAccount (account_at p e) True
       (p\<lparr>pl_retryable := (pl_retryable p)(account_at p e \<mapsto> nowMs + RETRYABLE_ACCOUNT_FAILURE_COOLDOWN_MS)\<rparr>)"

text \<open>A hook that throws (it answers \<open>None\<close>) ends the decision with the account scope.\<close>

definition rateLimitScope :: "pool_deps \<Rightarrow> string \<Rightarrow> thrown \<Rightarrow> string option \<Rightarrow> limit_scope" where
  "rateLimitScope d account err model =
     (let compat =
        (case pd_shouldPark d account model err of
           Some (Some False) \<Rightarrow> (case model of Some m \<Rightarrow> Model_scope m None | None \<Rightarrow> Account_scope)
         | _ \<Rightarrow> Account_scope) in
      case pd_resolveScope d account model err of
        None \<Rightarrow> Account_scope
      | Some (Some (Model_scope m l)) \<Rightarrow> if m \<noteq> [] then Model_scope m l else compat
      | Some (Some Account_scope) \<Rightarrow> Account_scope
      | Some None \<Rightarrow> compat)"

definition later :: "ms option \<Rightarrow> ms \<Rightarrow> ms" where
  "later current candidate = (case current of None \<Rightarrow> candidate | Some c \<Rightarrow> if candidate < c then c else candidate)"

definition cooldown_for :: "pool_deps \<Rightarrow> thrown \<Rightarrow> ms" where
  "cooldown_for d err =
     (let retryAfter = (case upstream_of err of
            None \<Rightarrow> None
          | Some u \<Rightarrow> Option.bind (uf_upstreamHeaders u)
                        (\<lambda>hs. headerValue (map (\<lambda>(k, v). (k, One_value v)) hs) ''retry-after'')) in
      nullish (numericRetryAfterMs retryAfter) (pd_cooldownMs d))"

definition parkRateLimitedAccount :: "pool_deps \<Rightarrow> ms \<Rightarrow> nat \<Rightarrow> thrown \<Rightarrow> string option \<Rightarrow> pool \<Rightarrow> pool \<times> pool_hook list" where
  "parkRateLimitedAccount d nowMs e err model p =
     (let account = account_at p e; candidate = nowMs + cooldown_for d err in
      case rateLimitScope d account err model of
        Model_scope m l \<Rightarrow>
          let key = scopedRateLimitKey account m l; current = map_of (pl_scoped p) key in
          (forgetStickyAccount account True
             (p\<lparr>pl_scoped := AList.update key
                  \<lparr>sl_account = account, sl_model = m, sl_limitId = l, sl_untilMs = later (map_option sl_untilMs current) candidate\<rparr>
                  (pl_scoped p)\<rparr>), [])
      | Account_scope \<Rightarrow>
          let until = later (pe_usageLimitedUntilMs (ent p e)) candidate in
          (forgetStickyAccount account True (update_entry e (\<lambda>m. m\<lparr>pe_usageLimitedUntilMs := Some until\<rparr>) p),
           [Hook_rate_limit account until]))"

subsection \<open>Affinity\<close>

definition responseIdFromResult :: "json option \<Rightarrow> string option" where
  "responseIdFromResult result =
     (let body = record_of result in or_else (bodyString body ''id'') (bodyString (record_of (opt_prop ''response'' body)) ''id''))"

text \<open>These two set the entry directly: no pruning, no eviction, and a key that is present keeps its place.\<close>

definition rememberResponseIdAffinity :: "pool_deps \<Rightarrow> ms \<Rightarrow> nat \<Rightarrow> string \<Rightarrow> pool \<Rightarrow> pool" where
  "rememberResponseIdAffinity d nowMs e rid p =
     p\<lparr>pl_sticky := AList.update (''previous_response_id:'' @ rid) (account_at p e, nowMs + pd_stickyTtlMs d) (pl_sticky p)\<rparr>"

definition rememberTurnStateAffinity :: "pool_deps \<Rightarrow> ms \<Rightarrow> nat \<Rightarrow> string option \<Rightarrow> pool \<Rightarrow> pool" where
  "rememberTurnStateAffinity d nowMs e turnState p =
     (case turnState of
        None \<Rightarrow> p
      | Some s \<Rightarrow>
          if trim s = [] then p
          else p\<lparr>pl_sticky := AList.update (''x-codex-turn-state:'' @ trim s)
                  (account_at p e, nowMs + pd_stickyTtlMs d) (pl_sticky p)\<rparr>)"

definition rememberResponseAffinity :: "pool_deps \<Rightarrow> ms \<Rightarrow> json option \<Rightarrow> nat \<Rightarrow> pool \<Rightarrow> pool" where
  "rememberResponseAffinity d nowMs result e p =
     (case responseIdFromResult result of None \<Rightarrow> p | Some rid \<Rightarrow> rememberResponseIdAffinity d nowMs e rid p)"

definition restorePersistedAffinity :: "pool_deps \<Rightarrow> ms \<Rightarrow> string option \<Rightarrow> string option \<Rightarrow> pool \<Rightarrow> pool" where
  "restorePersistedAffinity d nowMs stickyKey account p =
     (case (stickyKey, account) of
        (Some k, Some a) \<Rightarrow>
          if \<not> isStrictAccountSticky stickyKey \<or> a = [] then p
          else rememberSticky d nowMs k a (nowMs + pd_stickyTtlMs d) p
      | _ \<Rightarrow> p)"

subsection \<open>Response ids in a stream\<close>

text \<open>\<open>replace(/\r\n/g, "\n").replace(/\r/g, "\n")\<close>.\<close>

fun unix_lines :: "string \<Rightarrow> string" where
  "unix_lines [] = []"
| "unix_lines [c] = [if c = CR then LF else c]"
| "unix_lines (c # x # s) = (if c = CR \<and> x = LF then LF # unix_lines s else (if c = CR then LF else c) # unix_lines (x # s))"

text \<open>The complete frames of the buffer, and what is left.\<close>

fun blank_line_split :: "string \<Rightarrow> string \<Rightarrow> string list \<times> string" where
  "blank_line_split acc [] = ([], rev acc)"
| "blank_line_split acc [c] = ([], rev (c # acc))"
| "blank_line_split acc (c # x # s) =
     (if c = LF \<and> x = LF then (case blank_line_split [] s of (fs, rest) \<Rightarrow> (rev acc # fs, rest))
      else blank_line_split (c # acc) (x # s))"

definition frame_response_id :: "string \<Rightarrow> string option" where
  "frame_response_id frame =
     (let data = trim (join_with LF (data_values frame)) in
      if data = [] \<or> data = ''[DONE]'' then None else responseIdFromResult (JSON_parse data))"

definition AFFINITY_BUFFER_MAX :: nat where "AFFINITY_BUFFER_MAX = 1048576"

definition AFFINITY_BUFFER_KEEP :: nat where "AFFINITY_BUFFER_KEEP = 262144"

definition track_affinity :: "pool_deps \<Rightarrow> ms \<Rightarrow> nat \<Rightarrow> string \<Rightarrow> string \<Rightarrow> pool \<Rightarrow> string \<times> pool" where
  "track_affinity d nowMs e buffer chunk p =
     (case blank_line_split [] (buffer @ unix_lines chunk) of (frames, rest) \<Rightarrow>
        (if AFFINITY_BUFFER_MAX < length rest then drop (length rest - AFFINITY_BUFFER_KEEP) rest else rest,
         fold (\<lambda>f p. case frame_response_id f of None \<Rightarrow> p | Some rid \<Rightarrow> rememberResponseIdAffinity d nowMs e rid p) frames p))"

subsection \<open>Usage in a stream\<close>

definition json_coalesce :: "json option \<Rightarrow> json option \<Rightarrow> json option" where
  "json_coalesce a b = (if is_nullish a then b else a)"

definition reported_tokens :: "json \<Rightarrow> rat option" where
  "reported_tokens event =
     (let usage = prop_of ''usage'' event in
      case json_coalesce (opt_prop ''completion_tokens'' usage)
            (json_coalesce (opt_prop ''output_tokens'' usage)
              (json_coalesce (opt_prop ''output_tokens'' (opt_prop ''usage'' (prop_of ''response'' event)))
                (opt_prop ''candidatesTokenCount'' (prop_of ''usageMetadata'' event)))) of
        Some (JNum n) \<Rightarrow> if 0 \<le> n then Some n else None
      | _ \<Rightarrow> None)"

definition line_tokens :: "string \<Rightarrow> rat option \<Rightarrow> rat option" where
  "line_tokens line tokens =
     (if \<not> startsWith ''data:'' line then tokens
      else
        (case Option.bind (JSON_parse (drop 5 line)) reported_tokens of
           None \<Rightarrow> tokens
         | Some n \<Rightarrow> Some (max (nullish tokens 0) n)))"

definition observeUsage :: "pool_deps \<Rightarrow> string \<Rightarrow> string \<times> rat option \<Rightarrow> string \<times> rat option" where
  "observeUsage d chunk s =
     (if pd_strategy d \<noteq> Fastest then s
      else
        (case s of (buffer, tokens) \<Rightarrow>
           let lines = split_at LF (buffer @ chunk); rest = last lines in
           (if 1024 * 1024 < length rest then [] else rest, fold line_tokens (butlast lines) tokens)))"

subsection \<open>Mutators\<close>

definition setUsageLimit :: "string \<Rightarrow> ms option \<Rightarrow> pool \<Rightarrow> pool" where
  "setUsageLimit account untilMs p =
     (let p1 = (case find_account p account of
          None \<Rightarrow> p | Some i \<Rightarrow> update_entry i (\<lambda>m. m\<lparr>pe_usageLimitedUntilMs := untilMs\<rparr>) p) in
      if untilMs = None
      then p1\<lparr>pl_retryable := (pl_retryable p1)(account := None), pl_scoped := filter (\<lambda>(k, c). sl_account c \<noteq> account) (pl_scoped p1)\<rparr>
      else p1)"

definition seedUsageLimit :: "string \<Rightarrow> ms option \<Rightarrow> pool \<Rightarrow> pool" where
  "seedUsageLimit account untilMs p =
     (case find_account p account of
        None \<Rightarrow> p | Some i \<Rightarrow> update_entry i (\<lambda>m. m\<lparr>pe_usageLimitedUntilMs := untilMs\<rparr>) p)"

definition getUsageLimit :: "string \<Rightarrow> pool \<Rightarrow> ms option" where
  "getUsageLimit account p = (case find_account p account of None \<Rightarrow> None | Some i \<Rightarrow> pe_usageLimitedUntilMs (ent p i))"

definition setQuotaSnapshot :: "string \<Rightarrow> quota_window list \<Rightarrow> ms \<Rightarrow> rat option option \<Rightarrow> pool \<Rightarrow> pool" where
  "setQuotaSnapshot account windows capturedAtMs resetCredits p =
     (case find_account p account of
        None \<Rightarrow> p
      | Some i \<Rightarrow>
          update_entry i (\<lambda>m. let m1 = m\<lparr>pe_quotaWindows := windows, pe_quotaCapturedAtMs := Some capturedAtMs\<rparr> in
            case resetCredits of None \<Rightarrow> m1 | Some c \<Rightarrow> m1\<lparr>pe_quotaResetCredits := c\<rparr>) p)"

definition hasAvailableModel :: "ms \<Rightarrow> string \<Rightarrow> pool \<Rightarrow> bool" where
  "hasAvailableModel nowMs model p = list_ex (\<lambda>m. pe_schedulable m \<and> supportsModel m (Some model) nowMs) (pl_entries p)"

definition closeResponsesWebSocketSession :: "string \<Rightarrow> pool \<Rightarrow> pool" where
  "closeResponsesWebSocketSession sessionId p =
     p\<lparr>pl_sticky := filter (\<lambda>kv. fst kv \<noteq> ''responses_websocket_session:'' @ sessionId) (pl_sticky p)\<rparr>"

definition SPEED_HISTORY_LIMIT :: nat where "SPEED_HISTORY_LIMIT = 1024"

definition record_speed :: "pool_deps \<Rightarrow> ms \<Rightarrow> nat \<Rightarrow> string option \<Rightarrow> ms \<Rightarrow> ms \<Rightarrow> rat option \<Rightarrow> pool \<Rightarrow> pool" where
  "record_speed d nowMs e model started firstAt tokens p =
     p\<lparr>pl_speed := speed_record_call (pd_decay d) SPEED_HISTORY_LIMIT (pl_speed p) (account_at p e) model
                    (of_int (firstAt - started)) tokens (of_int (nowMs - firstAt)) nowMs\<rparr>"

subsection \<open>Everything another request may do meanwhile\<close>

datatype pool_op =
    Op_select "string \<Rightarrow> capacity_probe" ms "string option" "string list" bool "string option"
  | Op_eligible ms "string option"
  | Op_remember ms string string ms
  | Op_restore ms "string option" "string option"
  | Op_disable string
  | Op_park_credential nat thrown
  | Op_cool ms nat
  | Op_park_rate ms nat thrown "string option"
  | Op_response_id ms nat string
  | Op_turn_state ms nat "string option"
  | Op_usage_limit string "ms option"
  | Op_seed string "ms option"
  | Op_quota string "quota_window list" ms "rat option option"
  | Op_close string
  | Op_speed ms nat "string option" ms ms "rat option"

fun apply_op :: "pool_deps \<Rightarrow> pool_op \<Rightarrow> pool \<Rightarrow> pool" where
  "apply_op d (Op_select probe nowMs key exclude busy model) p = snd (select d probe nowMs key exclude busy model p)"
| "apply_op d (Op_eligible nowMs model) p = snd (eligibleEntries nowMs [] model p)"
| "apply_op d (Op_remember nowMs key account expires) p = rememberSticky d nowMs key account expires p"
| "apply_op d (Op_restore nowMs key account) p = restorePersistedAffinity d nowMs key account p"
| "apply_op d (Op_disable account) p = disableAccount account p"
| "apply_op d (Op_park_credential e err) p = fst (parkCredentialFailedAccount e err p)"
| "apply_op d (Op_cool nowMs e) p = coolRetryableAccount nowMs e p"
| "apply_op d (Op_park_rate nowMs e err model) p = fst (parkRateLimitedAccount d nowMs e err model p)"
| "apply_op d (Op_response_id nowMs e rid) p = rememberResponseIdAffinity d nowMs e rid p"
| "apply_op d (Op_turn_state nowMs e s) p = rememberTurnStateAffinity d nowMs e s p"
| "apply_op d (Op_usage_limit account until) p = setUsageLimit account until p"
| "apply_op d (Op_seed account until) p = seedUsageLimit account until p"
| "apply_op d (Op_quota account windows captured credits) p = setQuotaSnapshot account windows captured credits p"
| "apply_op d (Op_close sid) p = closeResponsesWebSocketSession sid p"
| "apply_op d (Op_speed nowMs e model started firstAt tokens) p = record_speed d nowMs e model started firstAt tokens p"

definition apply_ops :: "pool_deps \<Rightarrow> pool_op list \<Rightarrow> pool \<Rightarrow> pool" where
  "apply_ops d ops p = fold (apply_op d) ops p"

end
