(* ===== verification/Oauth_Facts.thy ===== *)
theory Oauth_Facts
  imports Oauth_Ops
begin

text \<open>
  What the account pool guarantees about one selection: the gates are a pure predicate of the state, every choice is
  among the candidates, and \<open>select\<close> is sound, complete and faithful to the pins of stateful continuations.
\<close>

subsection \<open>The accounts never change\<close>

definition accounts :: "pool \<Rightarrow> string list" where
  "accounts p = map pe_account (pl_entries p)"

lemma accounts_nth [simp]: "i < length (pl_entries p) \<Longrightarrow> accounts p ! i = account_at p i"
  by (simp add: accounts_def)

lemma accounts_length [simp]: "length (accounts p) = length (pl_entries p)"
  by (simp add: accounts_def)

lemma accounts_same:
  "pl_entries p' = pl_entries p \<Longrightarrow> accounts p' = accounts p"
  by (simp add: accounts_def)

lemma accounts_update [simp]:
  "(\<And>m. pe_account (f m) = pe_account m) \<Longrightarrow> accounts (update_entry i f p) = accounts p"
  by (auto simp: accounts_def update_entry_def map_update intro!: list_update_same_conv [THEN iffD2])

lemma update_entry_length [simp]: "length (pl_entries (update_entry i f p)) = length (pl_entries p)"
  by (simp add: update_entry_def)

lemma rememberSticky_entries [simp]:
  "pl_entries (rememberSticky d now k a x p) = pl_entries p"
  by (simp add: rememberSticky_def Let_def)

lemma forgetSticky_entries [simp]: "pl_entries (forgetStickyAccount a b p) = pl_entries p"
  by (simp add: forgetStickyAccount_def)

subsection \<open>Elapsed cooldowns\<close>

text \<open>
  Reading a cooldown may delete it once it has elapsed. \<open>purged\<close> relates the states around such reads: they differ
  in elapsed cooldowns only, which no later read can tell.
\<close>

definition live_limits :: "ms \<Rightarrow> pool \<Rightarrow> ((string \<times> string \<times> string) \<times> scoped_limit) list" where
  "live_limits nowMs p = filter (\<lambda>(k, c). nowMs < sl_untilMs c) (pl_scoped p)"

definition cooling :: "pool \<Rightarrow> ms \<Rightarrow> string \<Rightarrow> bool" where
  "cooling p nowMs account = limited_at (pl_retryable p account) nowMs"

definition purged :: "ms \<Rightarrow> pool \<Rightarrow> pool \<Rightarrow> bool" where
  "purged nowMs p p' \<longleftrightarrow>
     (\<exists>R P. p' = p\<lparr>pl_retryable := R, pl_scoped := filter P (pl_scoped p)\<rparr>) \<and>
     (\<forall>a. cooling p' nowMs a = cooling p nowMs a) \<and> live_limits nowMs p' = live_limits nowMs p"

lemma purged_refl [simp]: "purged now p p"
  unfolding purged_def by (auto intro!: exI [of _ "pl_retryable p"] exI [of _ "\<lambda>x. True"])

lemma purged_trans: "purged now p q \<Longrightarrow> purged now q r \<Longrightarrow> purged now p r"
  unfolding purged_def by (clarsimp simp: filter_filter) blast

lemma purged_sel [simp]:
  "purged now p p' \<Longrightarrow> pl_entries p' = pl_entries p"
  "purged now p p' \<Longrightarrow> pl_sticky p' = pl_sticky p"
  "purged now p p' \<Longrightarrow> pl_counter p' = pl_counter p"
  "purged now p p' \<Longrightarrow> pl_reported p' = pl_reported p"
  "purged now p p' \<Longrightarrow> pl_speed p' = pl_speed p"
  "purged now p p' \<Longrightarrow> pl_speedTurns p' = pl_speedTurns p"
  "purged now p p' \<Longrightarrow> cooling p' now a = cooling p now a"
  "purged now p p' \<Longrightarrow> live_limits now p' = live_limits now p"
  by (auto simp: purged_def)

definition model_limit :: "pool \<Rightarrow> ms \<Rightarrow> string \<Rightarrow> string option \<Rightarrow> ms option" where
  "model_limit p nowMs account model =
     (case model of None \<Rightarrow> None | Some m \<Rightarrow> fold (\<lambda>(k, c). limit_max account m c) (live_limits nowMs p) None)"

lemma retryableAccountLimited_purged:
  "retryableAccountLimited a now p = (l, p') \<Longrightarrow> l = cooling p now a \<and> purged now p p'"
proof (cases "pl_retryable p a")
  case None
  then show "retryableAccountLimited a now p = (l, p') \<Longrightarrow> ?thesis"
    by (auto simp: retryableAccountLimited_def cooling_def limited_at_def)
next
  case (Some u)
  have "purged now p (p\<lparr>pl_retryable := (pl_retryable p)(a := None)\<rparr>)" if "\<not> now < u"
    unfolding purged_def cooling_def live_limits_def limited_at_def using that Some
    by (auto intro!: exI [of _ "(pl_retryable p)(a := None)"] exI [of _ "\<lambda>x. True"] split: option.splits)
  with Some show "retryableAccountLimited a now p = (l, p') \<Longrightarrow> ?thesis"
    by (auto simp: retryableAccountLimited_def cooling_def limited_at_def split: if_splits)
qed

lemma modelLimitUntilMs_purged:
  "modelLimitUntilMs a model now p = (u, p') \<Longrightarrow> u = model_limit p now a model \<and> purged now p p'"
proof (cases model)
  case None
  then show "modelLimitUntilMs a model now p = (u, p') \<Longrightarrow> ?thesis"
    by (auto simp: modelLimitUntilMs_def model_limit_def)
next
  case (Some m)
  have "purged now p (p\<lparr>pl_scoped := live_limits now p\<rparr>)"
    unfolding purged_def cooling_def live_limits_def
    by (auto intro!: exI [of _ "pl_retryable p"] exI [of _ "\<lambda>(k, c). now < sl_untilMs c"])
  with Some show "modelLimitUntilMs a model now p = (u, p') \<Longrightarrow> ?thesis"
    by (auto simp: modelLimitUntilMs_def model_limit_def Let_def live_limits_def)
qed

lemma modelLimited_purged:
  "modelLimited a model now p = (l, p') \<Longrightarrow> l = (model_limit p now a model \<noteq> None) \<and> purged now p p'"
  by (auto simp: modelLimited_def split: prod.splits dest!: modelLimitUntilMs_purged)

lemma model_limit_purged [simp]: "purged now p p' \<Longrightarrow> model_limit p' now a model = model_limit p now a model"
  by (simp add: model_limit_def split: option.split)

subsection \<open>Eligibility as a predicate\<close>

definition gates_open :: "pool \<Rightarrow> ms \<Rightarrow> string option \<Rightarrow> pool_entry \<Rightarrow> bool" where
  "gates_open p nowMs model m \<longleftrightarrow>
     pe_schedulable m \<and> supportsModel m model nowMs \<and> \<not> usageLimited m nowMs \<and>
     \<not> cooling p nowMs (pe_account m) \<and> model_limit p nowMs (pe_account m) model = None"

lemma gates_open_purged [simp]: "purged now p p' \<Longrightarrow> gates_open p' now model m = gates_open p now model m"
  by (simp add: gates_open_def)

definition eligible :: "pool \<Rightarrow> ms \<Rightarrow> string list \<Rightarrow> string option \<Rightarrow> nat list" where
  "eligible p nowMs exclude model =
     filter (\<lambda>i. gates_open p nowMs model (ent p i) \<and> account_at p i \<notin> set exclude) [0..<length (pl_entries p)]"

lemma entry_eligible_purged:
  "entry_eligible now exclude model i p = (ok, p') \<Longrightarrow>
     ok = (gates_open p now model (ent p i) \<and> account_at p i \<notin> set exclude) \<and> purged now p p'"
  unfolding entry_eligible_def gates_open_def Let_def
  by (auto split: if_splits prod.splits dest!: retryableAccountLimited_purged modelLimited_purged intro: purged_trans)

lemma eligible_scan_purged:
  "eligible_scan now exclude model is p = (es, p') \<Longrightarrow>
     es = filter (\<lambda>i. gates_open p now model (ent p i) \<and> account_at p i \<notin> set exclude) is \<and> purged now p p'"
proof (induction "is" arbitrary: p es)
  case (Cons i "is")
  obtain ok p1 where 1: "entry_eligible now exclude model i p = (ok, p1)" by (cases "entry_eligible now exclude model i p")
  obtain es2 where 2: "eligible_scan now exclude model is p1 = (es2, p')" "es = (if ok then i # es2 else es2)"
    using Cons.prems 1 by (auto split: prod.splits)
  note e = entry_eligible_purged [OF 1]
  have "es2 = filter (\<lambda>i. gates_open p1 now model (ent p1 i) \<and> account_at p1 i \<notin> set exclude) is \<and> purged now p1 p'"
    by (rule Cons.IH [OF 2(1)])
  with e 2(2) show ?case by (auto intro: purged_trans)
qed simp

lemma eligibleEntries_eq:
  "eligibleEntries now exclude model p = (es, p') \<Longrightarrow> es = eligible p now exclude model \<and> purged now p p'"
  by (auto simp: eligibleEntries_def eligible_def dest: eligible_scan_purged)

lemma eligible_purged [simp]: "purged now p p' \<Longrightarrow> eligible p' now exclude model = eligible p now exclude model"
  by (simp add: eligible_def)

lemma eligible_iff:
  "i \<in> set (eligible p now exclude model) \<longleftrightarrow>
     i < length (pl_entries p) \<and> gates_open p now model (ent p i) \<and> account_at p i \<notin> set exclude"
  by (auto simp: eligible_def)

subsection \<open>Tiers\<close>

lemma preferHealthyTier_sub: "set (preferHealthyTier p es now) \<subseteq> set es"
  by (auto simp: preferHealthyTier_def Let_def)

lemma preferHealthyTier_Nil [simp]: "preferHealthyTier p es now = [] \<longleftrightarrow> es = []"
  by (auto simp: preferHealthyTier_def Let_def)

lemma preferHealthyTier_credit:
  "i \<in> set (preferHealthyTier p es now) \<Longrightarrow> spendingWhileLimited (ent p i) now \<Longrightarrow>
     j \<in> set es \<Longrightarrow> spendingWhileLimited (ent p j) now"
  by (auto simp: preferHealthyTier_def Let_def filter_empty_conv split: if_splits)

lemma capacity_sub: "set (ct_candidates (preferredCapacityTier probe p es busy)) \<subseteq> set es"
  by (auto simp: preferredCapacityTier_def Let_def)

lemma capacity_Nil [simp]: "ct_candidates (preferredCapacityTier probe p es busy) = [] \<longleftrightarrow> es = []"
  by (auto simp: preferredCapacityTier_def Let_def)

lemma capacity_busy:
  "i \<in> set (ct_candidates (preferredCapacityTier probe p es True)) \<Longrightarrow> atCapacity probe p i \<Longrightarrow>
     j \<in> set es \<Longrightarrow> atCapacity probe p j"
  by (auto simp: preferredCapacityTier_def Let_def filter_empty_conv split: if_splits)

subsection \<open>The choice among candidates\<close>

definition lru_le :: "pool \<Rightarrow> nat \<Rightarrow> nat \<Rightarrow> bool" where
  "lru_le p e c \<longleftrightarrow>
     pe_priority (ent p e) < pe_priority (ent p c) \<or>
     pe_priority (ent p e) = pe_priority (ent p c) \<and> pe_lastUsedAt (ent p e) \<le> pe_lastUsedAt (ent p c)"

lemma lru_le_trans: "lru_le p a b \<Longrightarrow> lru_le p b c \<Longrightarrow> lru_le p a c"
  by (auto simp: lru_le_def)

lemma lru_step_some: "\<exists>b. lru_step p e best = Some b"
  by (auto simp: lru_step_def split: option.split)

lemma lru_step_best:
  "lru_step p e best = Some b \<Longrightarrow>
     b \<in> insert e (set_option best) \<and> (\<forall>c \<in> insert e (set_option best). lru_le p b c)"
  by (auto simp: lru_step_def lru_le_def split: option.splits if_splits)

lemma fold_lru:
  "(fold (lru_step p) cs best = None) = (cs = [] \<and> best = None)"
  "fold (lru_step p) cs best = Some b \<Longrightarrow>
     b \<in> set cs \<union> set_option best \<and> (\<forall>c \<in> set cs \<union> set_option best. lru_le p b c)"
proof (induction cs arbitrary: best)
  case (Cons e cs)
  {
    case (1 best)
    obtain b1 where "lru_step p e best = Some b1" using lru_step_some by blast
    then show ?case using Cons.IH(1) [of "Some b1"] by simp
  next
    case (2 best)
    obtain b1 where b1: "lru_step p e best = Some b1" using lru_step_some by blast
    note 1 = lru_step_best [OF b1]
    have "b \<in> set cs \<union> {b1}" "\<forall>c \<in> set cs \<union> {b1}. lru_le p b c"
      using Cons.IH(2) [of "Some b1"] 2 b1 by auto
    with 1 show ?case by (auto intro: lru_le_trans)
  }
qed (auto simp: lru_le_def)

lemma chooseByLru_None [simp]: "chooseByLru p cs = None \<longleftrightarrow> cs = []"
  by (simp add: chooseByLru_def fold_lru(1))

lemma chooseByLru_best: "chooseByLru p cs = Some b \<Longrightarrow> b \<in> set cs \<and> (\<forall>c \<in> set cs. lru_le p b c)"
  using fold_lru(2) [of p cs None b] by (simp add: chooseByLru_def)

lemma tierPriority_eq:
  "tierPriority p cs = (if cs = [] then None else Some (Min ((\<lambda>e. pe_priority (ent p e)) ` set cs)))"
proof -
  let ?f = "\<lambda>e t. case t of None \<Rightarrow> Some (pe_priority (ent p e))
                 | Some x \<Rightarrow> if pe_priority (ent p e) < x then Some (pe_priority (ent p e)) else t"
  have some: "fold ?f cs (Some x) = Some (Min (insert x ((\<lambda>e. pe_priority (ent p e)) ` set cs)))" for cs x
  proof (induction cs arbitrary: x)
    case (Cons e cs)
    have "?f e (Some x) = Some (min (pe_priority (ent p e)) x)" by auto
    with Cons [of "min (pe_priority (ent p e)) x"] show ?case
      by (cases "cs = []") (simp_all add: insert_commute min.assoc Min_insert)
  qed simp
  show ?thesis
    by (cases cs) (simp_all add: tierPriority_def some)
qed

lemma tier_mem:
  "e \<in> set (preferredPriorityTier p cs) \<longleftrightarrow>
     e \<in> set cs \<and> (\<forall>c \<in> set cs. pe_priority (ent p e) \<le> pe_priority (ent p c))"
proof (cases "cs = []")
  case False
  then have "finite ((\<lambda>e. pe_priority (ent p e)) ` set cs)" "(\<lambda>e. pe_priority (ent p e)) ` set cs \<noteq> {}" by auto
  with False show ?thesis
    by (auto simp: preferredPriorityTier_def tierPriority_eq Min_le_iff) (metis (no_types, lifting) Min_eqI finite_imageI finite_set imageE imageI)+
qed (simp add: preferredPriorityTier_def tierPriority_eq)

lemma chooseByLru_tier: "chooseByLru p cs = Some b \<Longrightarrow> b \<in> set (preferredPriorityTier p cs)"
  using chooseByLru_best [of p cs b] by (auto simp: tier_mem lru_le_def dest!: bspec)

lemma tier_not_empty: "cs \<noteq> [] \<Longrightarrow> preferredPriorityTier p cs \<noteq> []"
proof -
  assume "cs \<noteq> []"
  then obtain b where "chooseByLru p cs = Some b" by (cases "chooseByLru p cs") simp_all
  then have "b \<in> set (preferredPriorityTier p cs)"
    using chooseByLru_best [of p cs b] by (auto simp: tier_mem lru_le_def)
  then show ?thesis by auto
qed

text \<open>
  The score loops: what is kept is a scored candidate that no other scored candidate beats, for any comparison that
  is a strict weak order.
\<close>

locale preference =
  fixes better :: "'v \<Rightarrow> nat \<Rightarrow> 'v \<Rightarrow> nat \<Rightarrow> bool"
  assumes irrefl: "\<not> better v e v e"
    and negative_trans: "\<not> better v e w b \<Longrightarrow> \<not> better w b x c \<Longrightarrow> \<not> better v e x c"
    and asym: "better v e w b \<Longrightarrow> \<not> better w b v e"
begin

definition beats_none :: "(nat \<Rightarrow> 'v option) \<Rightarrow> nat set \<Rightarrow> nat \<times> 'v \<Rightarrow> bool" where
  "beats_none score C bv \<longleftrightarrow>
     fst bv \<in> C \<and> score (fst bv) = Some (snd bv) \<and>
     (\<forall>c \<in> C. \<forall>w. score c = Some w \<longrightarrow> \<not> better w c (snd bv) (fst bv))"

lemma fold_best:
  "(\<And>b. best = Some b \<Longrightarrow> beats_none score C b) \<Longrightarrow> (best = None \<Longrightarrow> \<forall>c \<in> C. score c = None) \<Longrightarrow>
   (case fold (best_step better score) cs best of
      None \<Rightarrow> \<forall>c \<in> C \<union> set cs. score c = None
    | Some b \<Rightarrow> beats_none score (C \<union> set cs) b)"
proof (induction cs arbitrary: best C)
  case Nil
  then show ?case by (cases best) auto
next
  case (Cons e cs)
  let ?next = "best_step better score e best"
  have 1: "beats_none score (insert e C) b" if "?next = Some b" for b
    using that Cons.prems
    by (auto simp: best_step_def beats_none_def irrefl split: option.splits if_splits)
      (use asym negative_trans in blast)+
  have 2: "\<forall>c \<in> insert e C. score c = None" if "?next = None"
    using that Cons.prems by (auto simp: best_step_def split: option.splits if_splits)
  have "(case fold (best_step better score) cs ?next of None \<Rightarrow> \<forall>c \<in> insert e C \<union> set cs. score c = None
          | Some b \<Rightarrow> beats_none score (insert e C \<union> set cs) b)"
    by (rule Cons.IH) (use 1 2 in auto)
  then show ?case unfolding fold.simps o_apply list.set Un_insert_right Un_insert_left .
qed

lemma best_of_cases:
  "case best_of better score cs of
     None \<Rightarrow> \<forall>c \<in> set cs. score c = None
   | Some b \<Rightarrow> beats_none score (set cs) b"
proof -
  have "case fold (best_step better score) cs None of None \<Rightarrow> \<forall>c \<in> {} \<union> set cs. score c = None
      | Some b \<Rightarrow> beats_none score ({} \<union> set cs) b"
    by (rule fold_best) simp_all
  then show ?thesis unfolding best_of_def Un_empty_left .
qed

lemma best_of_Some:
  "best_of better score cs = Some (b, v) \<Longrightarrow>
     b \<in> set cs \<and> score b = Some v \<and> (\<forall>c \<in> set cs. \<forall>w. score c = Some w \<longrightarrow> \<not> better w c v b)"
  using best_of_cases [of cs score] by (simp add: beats_none_def)

lemma best_of_None: "best_of better score cs = None \<longleftrightarrow> (\<forall>c \<in> set cs. score c = None)"
  using best_of_cases [of cs score] by (auto simp: beats_none_def split: option.splits)

end

interpretation by_score: preference "\<lambda>v e w b. (w :: nat) < v"
  by unfold_locales auto

interpretation by_pressure: preference
  "\<lambda>v e w b. (v :: rat) < w \<or> v = w \<and> pe_lastUsedAt (ent p e) < pe_lastUsedAt (ent p b)" for p
  by unfold_locales auto

interpretation by_expiry: preference
  "\<lambda>v e w b. (w :: rat) < v \<or> v = w \<and> pe_lastUsedAt (ent p e) < pe_lastUsedAt (ent p b)" for p
  by unfold_locales auto

subsection \<open>Every strategy chooses a candidate\<close>

lemma chooseByStickyHash_best:
  "(chooseByStickyHash d p cs k = None) = (cs = [])"
  "chooseByStickyHash d p cs k = Some b \<Longrightarrow>
     b \<in> set (preferredPriorityTier p cs) \<and>
     (\<forall>c \<in> set (preferredPriorityTier p cs). pd_stickyScore d k (account_at p c) \<le> pd_stickyScore d k (account_at p b))"
proof -
  let ?score = "\<lambda>e. if Some (pe_priority (ent p e)) \<noteq> tierPriority p cs then None
            else Some (pd_stickyScore d k (account_at p e))"
  have tier: "set (preferredPriorityTier p cs) = {e \<in> set cs. ?score e \<noteq> None}"
    by (auto simp: preferredPriorityTier_def split: option.splits)
  have def: "chooseByStickyHash d p cs k = map_option fst (best_of (\<lambda>v e w b. w < v) ?score cs)"
    by (simp add: chooseByStickyHash_def)
  have "(\<forall>c \<in> set cs. ?score c = None) = (cs = [])"
    using tier_not_empty [of cs p] tier by (metis (mono_tags, lifting) empty_Collect_eq list.set(1) empty_iff set_empty)
  then show "(chooseByStickyHash d p cs k = None) = (cs = [])"
    unfolding def option.map_disc_iff by_score.best_of_None .
  assume "chooseByStickyHash d p cs k = Some b"
  then obtain v where "best_of (\<lambda>v e w b. w < v) ?score cs = Some (b, v)" unfolding def by auto
  note b = by_score.best_of_Some [OF this]
  show "b \<in> set (preferredPriorityTier p cs) \<and>
     (\<forall>c \<in> set (preferredPriorityTier p cs). pd_stickyScore d k (account_at p c) \<le> pd_stickyScore d k (account_at p b))"
    using b unfolding tier by (auto split: if_splits simp: not_less)
qed

lemma chooseByLowRisk_in:
  "chooseByLowRisk d p cs model now sticky = Some e \<Longrightarrow> e \<in> set (preferredPriorityTier p cs) \<or> sticky = Some e"
  by (auto simp: chooseByLowRisk_def Let_def split: option.splits if_splits dest!: by_pressure.best_of_Some)

lemma chooseByExpiringQuota_in:
  "chooseByExpiringQuota d p cs model now sticky = Some e \<Longrightarrow> e \<in> set (preferredPriorityTier p cs) \<or> sticky = Some e"
  by (auto simp: chooseByExpiringQuota_def Let_def split: option.splits if_splits dest!: by_expiry.best_of_Some)

lemma sticky_or_hash_in:
  "fst (sticky_or_hash d p cs k sticky) = Some e \<Longrightarrow> e \<in> set (preferredPriorityTier p cs) \<or> sticky = Some e"
  "(fst (sticky_or_hash d p cs k sticky) = None) = (sticky = None \<and> cs = [])"
  by (auto simp: sticky_or_hash_def chooseByStickyHash_best(1) split: option.splits if_splits
      dest: chooseByLru_tier chooseByStickyHash_best(2))

text \<open>The state of the speed history that the fastest strategy relies on.\<close>

definition speed_ok :: "speed \<Rightarrow> bool" where
  "speed_ok s \<longleftrightarrow> 0 \<le> sp_ttftMs s \<and> (\<forall>t. sp_tokensPerSecond s = Some t \<longrightarrow> 0 < t)"

definition speeds_ok :: "speed_history \<Rightarrow> bool" where
  "speeds_ok h \<longleftrightarrow> (\<forall>r \<in> snd ` set h. speed_ok (sr_speed r) \<and> 0 \<le> sr_weight r)"

lemma speed_read_ok: "speeds_ok h \<Longrightarrow> speed_read h a m now = Some s \<Longrightarrow> speed_ok s"
  by (auto simp: speeds_ok_def speed_read_def split: option.splits if_splits dest!: map_of_SomeD)

lemma pace_estimate_nonneg:
  "speed_ok s \<Longrightarrow> (\<And>m. median = Some m \<Longrightarrow> 0 < m) \<Longrightarrow> 0 \<le> pace_estimate median s"
  by (cases "sp_tokensPerSecond s"; cases median)
    (auto simp: pace_estimate_def speed_ok_def positive_pace_def)

lemma median_pace_pos:
  assumes "\<And>s. Some s \<in> set ss \<Longrightarrow> speed_ok s" "median_pace ss = Some m"
  shows "0 < m"
proof -
  let ?paces = "List.map_filter (\<lambda>s. Option.bind s (\<lambda>x. positive_pace (sp_tokensPerSecond x))) ss"
  have "m \<in> set ?paces"
  proof -
    have "?paces \<noteq> []" "m = sort ?paces ! (length ?paces div 2)"
      using assms(2) by (auto simp: median_pace_def Let_def split: if_splits dest: arg_cong [where f = length])
    moreover from this have "length ?paces div 2 < length (sort ?paces)" by (simp add: div_less_dividend)
    ultimately show ?thesis by (metis nth_mem set_sort)
  qed
  then obtain s where "Some s \<in> set ss" "positive_pace (sp_tokensPerSecond s) = Some m"
    by (auto simp: map_filter_def Option.bind_eq_Some_conv split: option.splits)
  with assms(1) show ?thesis by (auto simp: positive_pace_def speed_ok_def split: option.splits if_splits)
qed

lemma fastest_choice_cases:
  assumes "fastest_choice p tier unknown measured est turn sticky = (e, reason)"
  shows "e = chooseByLru p unknown \<and> unknown \<noteq> [] \<or> e = chooseByLru p tier \<and> measured = [] \<or>
     (\<exists>b rest. measured = b # rest \<and>
       (let alike = filter (\<lambda>e. est e \<le> est b * (11 / 10)) measured in
        e = sticky \<and> sticky \<in> Some ` set alike \<or> e = find (\<lambda>e. True) alike))"
  using assms unfolding fastest_choice_def Let_def
  by (cases measured) (simp_all only: list.case list.distinct split: if_splits, blast+)

lemma find_first: "find (\<lambda>e. True) xs = (case xs of [] \<Rightarrow> None | x # ys \<Rightarrow> Some x)"
  by (cases xs) simp_all

lemma find_first_in: "find (\<lambda>e. True) xs = None \<or> find (\<lambda>e. True) xs \<in> Some ` set xs"
  by (cases xs) simp_all

lemma fastest_choice_in:
  assumes "fastest_choice p tier unknown measured est turn sticky = (e, reason)"
    "set unknown \<subseteq> set tier" "set measured \<subseteq> set tier"
  shows "e = None \<or> e \<in> Some ` set tier"
proof -
  consider (unknown) "e = chooseByLru p unknown" | (tier) "e = chooseByLru p tier"
    | (sticky) b where "e \<in> Some ` set (filter (\<lambda>e. est e \<le> est b * (11 / 10)) measured)"
    | (alike) b where "e = find (\<lambda>e. True) (filter (\<lambda>e. est e \<le> est b * (11 / 10)) measured)"
    using fastest_choice_cases [OF assms(1)] by (auto simp: Let_def)
  then show ?thesis
  proof cases
    case unknown
    then show ?thesis using chooseByLru_best [of p unknown] assms(2) by (cases "chooseByLru p unknown") auto
  next
    case tier
    then show ?thesis using chooseByLru_best [of p tier] by (cases "chooseByLru p tier") auto
  next
    case sticky
    then show ?thesis using assms(3) by auto
  next
    case (alike b)
    then have "e = None \<or> e \<in> Some ` set (filter (\<lambda>e. est e \<le> est b * (11 / 10)) measured)"
      by (metis find_first_in)
    then show ?thesis using assms(3) by auto
  qed
qed

lemma fastest_choice_some:
  assumes "fastest_choice p tier unknown measured est turn sticky = (e, reason)" "tier \<noteq> []"
    "\<And>b. b \<in> set measured \<Longrightarrow> 0 \<le> est b"
  shows "e \<noteq> None"
proof -
  consider (unknown) "e = chooseByLru p unknown" "unknown \<noteq> []" | (tier) "e = chooseByLru p tier"
    | (sticky) xs where "e \<in> Some ` set xs"
    | (alike) b rest where "measured = b # rest" "e = find (\<lambda>e. True) (filter (\<lambda>e. est e \<le> est b * (11 / 10)) measured)"
    using fastest_choice_cases [OF assms(1)] unfolding Let_def by blast
  then show ?thesis
  proof cases
    case (alike b rest)
    then have "b \<in> set (filter (\<lambda>e. est e \<le> est b * (11 / 10)) measured)" using assms(3) [of b] by simp
    then obtain x xs where "filter (\<lambda>e. est e \<le> est b * (11 / 10)) measured = x # xs" by (metis list.exhaust list.set(1) empty_iff)
    then show ?thesis unfolding alike(2) find_first by simp
  qed (use assms(2) in auto)
qed

lemma chooseFastest_in:
  assumes "chooseFastest p cs sticky model now = ((e, reason), p')"
  shows "e = None \<or> e \<in> Some ` set (preferredPriorityTier p cs)"
    and "\<exists>ts. p' = p\<lparr>pl_speedTurns := ts\<rparr>"
    and "speeds_ok (pl_speed p) \<Longrightarrow> cs \<noteq> [] \<Longrightarrow> e \<noteq> None"
proof -
  let ?tier = "preferredPriorityTier p cs"
  let ?speed = "\<lambda>e. speed_read (pl_speed p) (account_at p e) model now"
  let ?median = "median_pace (map ?speed ?tier)"
  let ?est = "\<lambda>e. pace_estimate ?median (the (?speed e))"
  let ?measured = "sort_key ?est (filter (\<lambda>e. ?speed e \<noteq> None) ?tier)"
  obtain turn where turn: "count_turn (nullish model []) p = (turn, p')"
    and c: "fastest_choice p ?tier (filter (\<lambda>e. ?speed e = None) ?tier) ?measured ?est turn sticky = (e, reason)"
    using assms by (auto simp: chooseFastest_def Let_def split: prod.splits)
  show "\<exists>ts. p' = p\<lparr>pl_speedTurns := ts\<rparr>" using turn by (auto simp: count_turn_def Let_def)
  show "e = None \<or> e \<in> Some ` set ?tier" by (rule fastest_choice_in [OF c]) auto
  assume ok: "speeds_ok (pl_speed p)" and "cs \<noteq> []"
  show "e \<noteq> None"
  proof (rule fastest_choice_some [OF c])
    show "?tier \<noteq> []" using \<open>cs \<noteq> []\<close> by (rule tier_not_empty)
    fix b assume "b \<in> set ?measured"
    then obtain s where s: "?speed b = Some s" by auto
    show "0 \<le> ?est b"
      unfolding s option.sel
    proof (rule pace_estimate_nonneg)
      show "speed_ok s" using ok s by (rule speed_read_ok)
      show "0 < m" if "?median = Some m" for m
        by (rule median_pace_pos [OF _ that]) (use ok speed_read_ok in fastforce)
    qed
  qed
qed

lemma chooseByStrategy_cases:
  assumes "chooseByStrategy d p cs k sticky model now = ((e, reason), p')"
  shows "chooseFastest p cs sticky model now = ((e, reason), p') \<or>
     p' = p \<and> (e = chooseByLru p cs \<or> e = sticky \<and> sticky \<noteq> None \<or> e = fst (sticky_or_hash d p cs k sticky) \<or>
       e \<noteq> None \<and> (e = chooseByLowRisk d p cs model now sticky \<or> e = chooseByExpiringQuota d p cs model now sticky))"
proof (cases "pd_strategy d")
  case Fastest
  with assms show ?thesis by (simp add: chooseByStrategy_def)
next
  case Balanced
  with assms show ?thesis
    by (cases "pd_rotateIndependent d"; cases "sticky_or_hash d p cs k sticky") (auto simp: chooseByStrategy_def)
next
  case Manual_priority
  with assms show ?thesis by (cases sticky) (auto simp: chooseByStrategy_def split: if_splits)
next
  case Low_risk
  with assms show ?thesis
    by (cases "chooseByLowRisk d p cs model now sticky") (auto simp: chooseByStrategy_def split: if_splits)
next
  case Expiring_quota
  with assms show ?thesis
    by (cases "chooseByExpiringQuota d p cs model now sticky") (auto simp: chooseByStrategy_def split: if_splits)
qed

lemma chooseByStrategy_in:
  assumes "chooseByStrategy d p cs k sticky model now = ((e, reason), p')"
  shows "e = None \<or> e \<in> Some ` set (preferredPriorityTier p cs) \<or> e = sticky"
    and "\<exists>ts. p' = p\<lparr>pl_speedTurns := ts\<rparr>"
    and "speeds_ok (pl_speed p) \<Longrightarrow> cs \<noteq> [] \<Longrightarrow> e \<noteq> None"
proof -
  have keep: "\<exists>ts. p = p\<lparr>pl_speedTurns := ts\<rparr>" by (metis pool.surjective pool.update_convs(8))
  have some: "e = None \<or> e \<in> Some ` set xs" if "\<And>i. e = Some i \<Longrightarrow> i \<in> set xs" for xs :: "nat list" and e
    using that by (cases e) auto
  have "chooseByLru p cs = None \<or> chooseByLru p cs \<in> Some ` set (preferredPriorityTier p cs)"
    by (rule some) (rule chooseByLru_tier)
  note lru_in = this
  have hash_in: "fst (sticky_or_hash d p cs k sticky) = None \<or>
      fst (sticky_or_hash d p cs k sticky) \<in> Some ` set (preferredPriorityTier p cs) \<or>
      fst (sticky_or_hash d p cs k sticky) = sticky"
    using sticky_or_hash_in(1) [of d p cs k sticky] by (cases "fst (sticky_or_hash d p cs k sticky)") auto
  have risk: "e = None \<or> e \<in> Some ` set (preferredPriorityTier p cs) \<or> e = sticky"
    if "e = chooseByLowRisk d p cs model now sticky \<or> e = chooseByExpiringQuota d p cs model now sticky"
    using that chooseByLowRisk_in [of d p cs model now sticky] chooseByExpiringQuota_in [of d p cs model now sticky]
    by (cases e) (metis image_eqI)+
  consider (fast) "chooseFastest p cs sticky model now = ((e, reason), p')"
    | (lru) "e = chooseByLru p cs" "p' = p" | (sticky) "e = sticky" "e \<noteq> None" "p' = p"
    | (hash) "e = fst (sticky_or_hash d p cs k sticky)" "p' = p"
    | (scored) "p' = p" "e \<noteq> None"
        "e = chooseByLowRisk d p cs model now sticky \<or> e = chooseByExpiringQuota d p cs model now sticky"
    using chooseByStrategy_cases [OF assms] by blast
  note cases = this
  show "e = None \<or> e \<in> Some ` set (preferredPriorityTier p cs) \<or> e = sticky"
  proof (cases rule: cases)
    case fast
    then show ?thesis using chooseFastest_in(1) by blast
  next
    case scored
    then show ?thesis using risk by blast
  next
    case lru
    show ?thesis unfolding lru(1) using lru_in by blast
  next
    case hash
    show ?thesis unfolding hash(1) by (rule hash_in)
  qed simp
  show "\<exists>ts. p' = p\<lparr>pl_speedTurns := ts\<rparr>"
  proof (cases rule: cases)
    case fast
    show ?thesis using fast by (rule chooseFastest_in(2))
  next
    case lru
    show ?thesis unfolding lru(2) by (rule keep)
  next
    case sticky
    show ?thesis unfolding sticky(3) by (rule keep)
  next
    case hash
    show ?thesis unfolding hash(2) by (rule keep)
  next
    case scored
    show ?thesis unfolding scored(1) by (rule keep)
  qed
  assume ok: "speeds_ok (pl_speed p)" "cs \<noteq> []"
  show "e \<noteq> None"
  proof (cases rule: cases)
    case fast
    show ?thesis using fast ok by (rule chooseFastest_in(3))
  qed (use ok sticky_or_hash_in(2) [of d p cs k sticky] in simp_all)
qed

subsection \<open>The parts of a selection\<close>

lemma exclusion_of_purged: "exclusion_of v e i p = (x, p') \<Longrightarrow> purged (tv_nowMs v) p p'"
  unfolding exclusion_of_def Let_def
  by (auto split: if_splits prod.splits dest!: retryableAccountLimited_purged modelLimited_purged intro: purged_trans)

lemma trace_rows_purged: "trace_rows d v e is p = (rows, p') \<Longrightarrow> purged (tv_nowMs v) p p'"
proof (induction "is" arbitrary: p rows)
  case (Cons i "is")
  then show ?case
    by (auto simp: trace_entry_def Let_def split: prod.splits dest!: exclusion_of_purged intro: purged_trans)
qed simp

lemma snapshot_purged: "snapshot d v e p = (x, p') \<Longrightarrow> purged (tv_nowMs v) p p'"
  by (auto simp: snapshot_def Let_def split: prod.splits dest: trace_rows_purged)

lemma rememberSticky_sel [simp]:
  "pl_speed (rememberSticky d now k a x p) = pl_speed p"
  "accounts (rememberSticky d now k a x p) = accounts p"
  by (simp_all add: rememberSticky_def Let_def accounts_def)

lemma commitSelection_sel [simp]:
  "accounts (commitSelection d e k now p) = accounts p"
  "length (pl_entries (commitSelection d e k now p)) = length (pl_entries p)"
  "pl_speed (commitSelection d e k now p) = pl_speed p"
proof -
  have "accounts (p\<lparr>pl_counter := c\<rparr>) = accounts p" for c by (simp add: accounts_def)
  then show "accounts (commitSelection d e k now p) = accounts p"
    by (cases k) (simp_all add: commitSelection_def Let_def)
  show "length (pl_entries (commitSelection d e k now p)) = length (pl_entries p)"
    "pl_speed (commitSelection d e k now p) = pl_speed p"
    by (cases k; simp add: commitSelection_def Let_def update_entry_def)+
qed

text \<open>The account a key is bound to by a session that has not expired.\<close>

definition live_binding :: "pool \<Rightarrow> ms \<Rightarrow> string option \<Rightarrow> string option" where
  "live_binding p nowMs stickyKey =
     Option.bind stickyKey (\<lambda>k. Option.bind (map_of (pl_sticky p) k) (\<lambda>(a, x). if x \<le> nowMs then None else Some a))"

lemma sticky_lookup_eq:
  "sticky_lookup d now key cs p = (known, e, p') \<Longrightarrow>
     known = live_binding p now key \<and> e = Option.bind known (\<lambda>a. find (\<lambda>i. account_at p i = a) cs) \<and>
     (\<exists>S. p' = p\<lparr>pl_sticky := S\<rparr>)"
proof -
  have keep: "\<exists>S. p = p\<lparr>pl_sticky := S\<rparr>" by (metis pool.surjective pool.update_convs(2))
  then show "sticky_lookup d now key cs p = (known, e, p') \<Longrightarrow> ?thesis"
    by (auto simp: sticky_lookup_def live_binding_def rememberSticky_def Let_def split: option.splits if_splits prod.splits)
qed

lemma pinned_wait_eq: "pinned_wait now a model p = (w, p') \<Longrightarrow> purged now p p' \<and> 0 \<le> w"
  by (auto simp: pinned_wait_def Let_def split: prod.splits dest!: modelLimitUntilMs_purged)

text \<open>Everything but the state of the sticky sessions, the speed turns and the usage counters.\<close>

definition same_gates :: "ms \<Rightarrow> pool \<Rightarrow> pool \<Rightarrow> bool" where
  "same_gates nowMs p p' \<longleftrightarrow> pl_entries p' = pl_entries p \<and> pl_speed p' = pl_speed p \<and>
     (\<forall>a. cooling p' nowMs a = cooling p nowMs a) \<and> live_limits nowMs p' = live_limits nowMs p"

lemma same_gatesI [intro]:
  "purged now p p' \<Longrightarrow> same_gates now p p'"
  "same_gates now p q \<Longrightarrow> same_gates now q r \<Longrightarrow> same_gates now p r"
  "same_gates now p (p\<lparr>pl_sticky := S\<rparr>)"
  "same_gates now p (p\<lparr>pl_speedTurns := ts\<rparr>)"
  by (simp_all add: same_gates_def) (simp_all add: cooling_def live_limits_def)

subsection \<open>What a selection returns\<close>

definition pool_choices :: "pool \<Rightarrow> ms \<Rightarrow> string list \<Rightarrow> string option \<Rightarrow> string option \<Rightarrow> nat list" where
  "pool_choices p nowMs exclude model stickyKey =
     filter (\<lambda>i. identity_matches (asserted_account stickyKey) (ent p i)) (eligible p nowMs exclude model)"

definition pool_candidates ::
  "(string \<Rightarrow> capacity_probe) \<Rightarrow> pool \<Rightarrow> ms \<Rightarrow> string list \<Rightarrow> bool \<Rightarrow> string option \<Rightarrow> string option \<Rightarrow> nat list" where
  "pool_candidates probe p nowMs exclude avoidBusy model stickyKey =
     ct_candidates (preferredCapacityTier probe p
       (preferHealthyTier p (pool_choices p nowMs exclude model stickyKey) nowMs) avoidBusy)"

definition affinity_unavailable :: "thrown \<Rightarrow> bool" where
  "affinity_unavailable err \<longleftrightarrow> (\<exists>source wait. err = stickyUnavailableError source wait)"

lemma affinity_unavailableI [simp]: "affinity_unavailable (stickyUnavailableError source wait)"
  unfolding affinity_unavailable_def by (rule exI, rule exI, rule refl)

text \<open>The outcomes of \<open>select\<close>, given the choices, the candidates and the account the key is bound to.\<close>

definition select_outcome ::
  "pool \<Rightarrow> nat list \<Rightarrow> nat list \<Rightarrow> string option \<Rightarrow> string option \<Rightarrow> thrown + nat \<times> selection \<Rightarrow> bool" where
  "select_outcome p choices candidates stickyKey binding r =
     (if isStrictAccountSticky stickyKey \<and> binding \<noteq> None
      then (case r of
              Inr (e, s) \<Rightarrow> e \<in> set choices \<and> binding = Some (account_at p e)
            | Inl err \<Rightarrow> affinity_unavailable err \<and> binding \<notin> (\<lambda>i. Some (account_at p i)) ` set choices)
      else if key_has_prefix ''previous_response_id:'' stickyKey
      then (case r of Inr x \<Rightarrow> False | Inl err \<Rightarrow> affinity_unavailable err)
      else
        (case r of
           Inr (e, s) \<Rightarrow> e \<in> set candidates \<and>
             (e \<in> set (preferredPriorityTier p candidates) \<or> binding = Some (account_at p e))
         | Inl err \<Rightarrow> speeds_ok (pl_speed p) \<longrightarrow> candidates = []))"

lemma find_account_choice:
  "find (\<lambda>i. account_at p i = a) es = Some e \<Longrightarrow> e \<in> set es \<and> account_at p e = a"
  "(find (\<lambda>i. account_at p i = a) es = None) = (a \<notin> account_at p ` set es)"
  by (auto simp: find_Some_iff find_None_iff)

lemma take_entry_accounts:
  assumes "take_entry d v tier key ck e reason p = ((e', s), p')"
  shows "e' = e \<and> accounts p' = accounts p \<and> pl_speed p' = pl_speed p"
proof -
  obtain rows p1 where snap: "snapshot d v e p = (rows, p1)" by (cases "snapshot d v e p")
  then have "purged (tv_nowMs v) p p1" by (rule snapshot_purged)
  then have "accounts p1 = accounts p" "pl_speed p1 = pl_speed p" by (simp_all add: accounts_def)
  moreover have "e' = e" "p' = commitSelection d e ck (tv_nowMs v) p1"
    using assms by (auto simp: take_entry_def snap)
  ultimately show ?thesis by simp
qed

lemma prefix_strict: "key_has_prefix ''previous_response_id:'' key \<Longrightarrow> isStrictAccountSticky key"
  by (auto simp: key_has_prefix_def isStrictAccountSticky_def split: option.splits)

lemma tier_candidates: "preferredPriorityTier (p\<lparr>pl_sticky := S\<rparr>) cs = preferredPriorityTier p cs"
  by (simp add: preferredPriorityTier_def tierPriority_eq cong: option.case_cong)

lemma select_from_outcome:
  assumes "select_from d v tier key es p = (r, p')"
  shows "select_outcome p es (ct_candidates tier) key (live_binding p (tv_nowMs v) key) r"
    and "accounts p' = accounts p \<and> pl_speed p' = pl_speed p"
proof -
  let ?strict = "isStrictAccountSticky key" and ?cs = "ct_candidates tier" and ?now = "tv_nowMs v"
  let ?prev = "key_has_prefix ''previous_response_id:'' key"
  obtain known stk p1 where look: "sticky_lookup d ?now key (if ?strict then es else ?cs) p = (known, stk, p1)"
    by (cases "sticky_lookup d ?now key (if ?strict then es else ?cs) p") auto
  from sticky_lookup_eq [OF look] obtain S where
    known: "known = live_binding p ?now key"
    and stk: "stk = Option.bind known (\<lambda>a. find (\<lambda>i. account_at p i = a) (if ?strict then es else ?cs))"
    and p1: "p1 = p\<lparr>pl_sticky := S\<rparr>" by blast
  have acc1: "accounts p1 = accounts p" "pl_speed p1 = pl_speed p" "pl_entries p1 = pl_entries p"
    by (simp_all add: p1 accounts_def)
  note sel = assms [unfolded select_from_def Let_def look prod.case]
  consider (pinned) e where "?strict" "stk = Some e"
    | (lost) "?strict" "stk = None" "?prev" "known = None"
    | (away) a where "?strict" "stk = None" "known = Some a"
    | (free) "?strict \<longrightarrow> stk = None \<and> known = None \<and> \<not> ?prev"
    using prefix_strict by (cases stk; cases known; cases "?strict"; cases "?prev") auto
  then have "select_outcome p es ?cs key known r \<and> accounts p' = accounts p \<and> pl_speed p' = pl_speed p"
  proof cases
    case (pinned e)
    then obtain a where a: "known = Some a" "find (\<lambda>i. account_at p i = a) es = Some e"
      using stk by (cases known) auto
    obtain s p2 where take: "take_entry d v tier key None e Sticky_hit p1 = ((e, s), p2)"
      using take_entry_accounts by (metis surj_pair)
    with sel pinned have "r = Inr (e, s)" "p' = p2" by auto
    with take_entry_accounts [OF take] a pinned(1) acc1 find_account_choice(1) [OF a(2)] show ?thesis
      by (simp add: select_outcome_def)
  next
    case lost
    with sel have "r = Inl (stickyUnavailableError ''previous_response_id'' 0)" "p' = p1" by simp_all
    with lost acc1 show ?thesis by (simp add: select_outcome_def)
  next
    case (away a)
    obtain w p2 where w: "pinned_wait ?now a (tv_model v) p1 = (w, p2)" by (cases "pinned_wait ?now a (tv_model v) p1")
    then have "accounts p2 = accounts p1" "pl_speed p2 = pl_speed p1"
      by (auto dest!: pinned_wait_eq intro!: accounts_same)
    with w sel away acc1 stk show ?thesis
      by (auto simp: select_outcome_def find_account_choice(2) image_iff)
  next
    case free
    obtain e reason p2 where c: "chooseByStrategy d p1 ?cs (if ?strict then None else key) stk (tv_model v) ?now = ((e, reason), p2)"
      by (metis surj_pair)
    note choice = chooseByStrategy_in [OF c]
    have "(if ?strict then stk else None) = None" "(if ?strict then known else None) = None" "\<not> ?prev"
      using free prefix_strict by auto
    note sel' = sel [simplified this c prod.case option.case simp_thms if_False]
    from choice(2) acc1 have acc2: "accounts p2 = accounts p" "pl_speed p2 = pl_speed p" by (auto simp: accounts_def)
    have stk_in: "i \<in> set ?cs \<and> known = Some (account_at p i)" if i: "stk = Some i" for i
    proof -
      have "\<not> ?strict" using free i by auto
      with stk i obtain a where a: "known = Some a" "find (\<lambda>i. account_at p i = a) ?cs = Some i" by (cases known) simp_all
      show ?thesis using find_account_choice(1) [OF a(2)] a(1) by simp
    qed
    show ?thesis
    proof (cases e)
      case None
      with sel' have "r = Inl (no_account_error p2 (tv_model v) ?now)" "p' = p2" by auto
      with choice(3) None free acc1 acc2 \<open>\<not> ?prev\<close> show ?thesis by (auto simp: select_outcome_def)
    next
      case (Some i)
      obtain s p3 where take: "take_entry d v tier key (if ?strict then None else key) i reason p2 = ((i, s), p3)"
        using take_entry_accounts by (metis surj_pair)
      with sel' Some have r: "r = Inr (i, s)" "p' = p3" by auto
      have "i \<in> set (preferredPriorityTier p ?cs) \<or> stk = Some i"
        using choice(1) Some by (auto simp: p1 tier_candidates)
      with stk_in have "i \<in> set ?cs \<and> (i \<in> set (preferredPriorityTier p ?cs) \<or> known = Some (account_at p i))"
        by (auto simp: tier_mem)
      with r take_entry_accounts [OF take] acc2 free \<open>\<not> ?prev\<close> show ?thesis
        by (auto simp: select_outcome_def)
    qed
  qed
  then show "select_outcome p es ?cs key (live_binding p ?now key) r" "accounts p' = accounts p \<and> pl_speed p' = pl_speed p"
    by (simp_all add: known)
qed

lemma purged_tiers [simp]:
  assumes "purged now p p'"
  shows "preferHealthyTier p' es t = preferHealthyTier p es t"
    and "preferredCapacityTier probe p' es busy = preferredCapacityTier probe p es busy"
    and "live_binding p' t key = live_binding p t key"
    and "select_outcome p' es cs key b r = select_outcome p es cs key b r"
proof -
  obtain R P where p': "p' = p\<lparr>pl_retryable := R, pl_scoped := filter P (pl_scoped p)\<rparr>"
    using assms unfolding purged_def by blast
  show "preferHealthyTier p' es t = preferHealthyTier p es t"
    "preferredCapacityTier probe p' es busy = preferredCapacityTier probe p es busy"
    "live_binding p' t key = live_binding p t key"
    unfolding p' by (simp_all add: preferHealthyTier_def preferredCapacityTier_def atCapacity_def live_binding_def)
  have "preferredPriorityTier p' cs = preferredPriorityTier p cs" "pl_entries p' = pl_entries p" "pl_speed p' = pl_speed p"
    unfolding p' by (simp_all add: preferredPriorityTier_def tierPriority_eq cong: option.case_cong)
  then show "select_outcome p' es cs key b r = select_outcome p es cs key b r"
    by (simp only: select_outcome_def)
qed

lemma select_result:
  assumes "select d probe now key exclude busy model p = (r, p')"
  shows "r = Inl (AnthropicIdentityError identity_mismatch_message) \<and> asserted_account key \<noteq> None \<and>
      pool_choices p now exclude model key = [] \<or>
    select_outcome p (pool_choices p now exclude model key) (pool_candidates probe p now exclude busy model key) key
      (live_binding p now key) r"
    and "accounts p' = accounts p" and "pl_speed p' = pl_speed p"
proof -
  obtain es p1 where el: "eligibleEntries now exclude model p = (es, p1)" by (cases "eligibleEntries now exclude model p")
  from eligibleEntries_eq [OF el] have es: "es = eligible p now exclude model" and pg: "purged now p p1" by simp_all
  have choices: "filter (\<lambda>i. identity_matches (asserted_account key) (ent p1 i)) es = pool_choices p now exclude model key"
    using pg by (simp add: pool_choices_def es)
  let ?choices = "pool_choices p now exclude model key"
  note sel = assms [unfolded select_def Let_def el prod.case choices]
  have "(r = Inl (AnthropicIdentityError identity_mismatch_message) \<and> asserted_account key \<noteq> None \<and> ?choices = [] \<or>
      select_outcome p ?choices (pool_candidates probe p now exclude busy model key) key (live_binding p now key) r) \<and>
      accounts p' = accounts p \<and> pl_speed p' = pl_speed p"
  proof (cases "asserted_account key \<noteq> None \<and> ?choices = []")
    case True
    with sel pg show ?thesis by (auto simp: accounts_def)
  next
    case False
    with sel obtain v tier where sf: "select_from d v tier key ?choices p1 = (r, p')"
      and tier: "ct_candidates tier = pool_candidates probe p now exclude busy model key" and v: "tv_nowMs v = now"
      using pg by (auto simp: pool_candidates_def split: if_splits)
    from select_from_outcome [OF sf] pg show ?thesis by (simp add: tier v accounts_def)
  qed
  then show "r = Inl (AnthropicIdentityError identity_mismatch_message) \<and> asserted_account key \<noteq> None \<and> ?choices = [] \<or>
      select_outcome p ?choices (pool_candidates probe p now exclude busy model key) key (live_binding p now key) r"
    "accounts p' = accounts p" "pl_speed p' = pl_speed p" by simp_all
qed

lemmas select_result_fst = select_result(1) [OF surjective_pairing]

lemma pool_candidates_sub: "set (pool_candidates probe p now exclude busy model key) \<subseteq> set (pool_choices p now exclude model key)"
  unfolding pool_candidates_def using capacity_sub preferHealthyTier_sub by blast

lemma pool_candidates_Nil [simp]: "pool_candidates probe p now exclude busy model key = [] \<longleftrightarrow> pool_choices p now exclude model key = []"
  by (simp add: pool_candidates_def)

lemma pool_choices_iff:
  "i \<in> set (pool_choices p now exclude model key) \<longleftrightarrow>
     i < length (pl_entries p) \<and> gates_open p now model (ent p i) \<and> account_at p i \<notin> set exclude \<and>
     identity_matches (asserted_account key) (ent p i)"
  by (auto simp: pool_choices_def eligible_iff)

lemma select_choice:
  "select d probe now key exclude busy model p = (Inr (e, s), p') \<Longrightarrow> e \<in> set (pool_choices p now exclude model key)"
  using select_result(1) [of d probe now key exclude busy model p "Inr (e, s)" p']
    pool_candidates_sub [of probe p now exclude busy model key]
  by (auto simp: select_outcome_def split: if_splits)

lemma select_untried:
  "select d probe now key exclude busy model p = (Inr (e, s), p') \<Longrightarrow>
     e < length (pl_entries p) \<and> account_at p e \<in> set (accounts p) - set exclude"
  by (auto simp: pool_choices_iff accounts_def dest!: select_choice)

subsection \<open>What every operation preserves\<close>

text \<open>Who is in the pool never changes, and a disabled account stays disabled: no operation enables one.\<close>

definition entry_kept :: "pool_entry \<Rightarrow> pool_entry \<Rightarrow> bool" where
  "entry_kept m m' \<longleftrightarrow>
     pe_account m' = pe_account m \<and> (pe_schedulable m' \<longrightarrow> pe_schedulable m) \<and>
     pe_priority m' = pe_priority m \<and> pe_models m' = pe_models m \<and> pe_anthropicAccountUuid m' = pe_anthropicAccountUuid m \<and>
     pe_modelValidUntilMs m' = pe_modelValidUntilMs m \<and> pe_allowSpendRemainingCredits m' = pe_allowSpendRemainingCredits m"

definition pool_kept :: "pool \<Rightarrow> pool \<Rightarrow> bool" where
  "pool_kept p p' \<longleftrightarrow> list_all2 entry_kept (pl_entries p) (pl_entries p')"

lemma entry_kept_refl [simp]: "entry_kept m m"
  by (simp add: entry_kept_def)

lemma entry_kept_trans: "entry_kept a b \<Longrightarrow> entry_kept b c \<Longrightarrow> entry_kept a c"
  by (simp add: entry_kept_def)

lemma pool_kept_trans: "pool_kept p q \<Longrightarrow> pool_kept q r \<Longrightarrow> pool_kept p r"
  unfolding pool_kept_def using list_all2_trans [of entry_kept entry_kept entry_kept] entry_kept_trans by blast

lemma pool_kept_entries: "pl_entries p' = pl_entries p \<Longrightarrow> pool_kept p p'"
  by (simp add: pool_kept_def list_all2_refl)

lemma pool_kept_simps [simp]:
  "pool_kept p (rememberSticky d now k a x q) = pool_kept p q"
  "pool_kept p (forgetStickyAccount a b q) = pool_kept p q"
  "pool_kept p p"
  by (simp_all add: pool_kept_def list_all2_refl)

lemma pool_kept_update: "(\<And>m. entry_kept m (f m)) \<Longrightarrow> pool_kept p (update_entry i f p)"
  by (auto simp: pool_kept_def update_entry_def list_all2_conv_all_nth nth_list_update)

lemma pool_kept_accounts: "pool_kept p p' \<Longrightarrow> accounts p' = accounts p"
  by (auto simp: pool_kept_def accounts_def list_all2_conv_all_nth entry_kept_def intro!: nth_equalityI)

lemma purged_kept: "purged now p p' \<Longrightarrow> pool_kept p p'"
  by (simp add: pool_kept_entries)

lemma commit_kept: "pool_kept p (commitSelection d e k now p)"
proof -
  have "pool_kept p (update_entry e (\<lambda>m. m\<lparr>pe_lastUsedAt := c\<rparr>) (p\<lparr>pl_counter := c\<rparr>))" for c
    by (rule pool_kept_trans [OF pool_kept_entries pool_kept_update]) (simp_all add: entry_kept_def)
  then show ?thesis
    by (cases k) (simp_all add: commitSelection_def Let_def)
qed

lemma take_entry_kept: "take_entry d v tier key ck e reason p = (x, p') \<Longrightarrow> pool_kept p p'"
  by (auto simp: take_entry_def split: prod.splits
      intro: pool_kept_trans [OF purged_kept commit_kept] dest!: snapshot_purged)

lemma select_from_kept: "select_from d v tier key es p = (r, p') \<Longrightarrow> pool_kept p p'"
proof -
  assume sel: "select_from d v tier key es p = (r, p')"
  obtain known stk p1 where look:
    "sticky_lookup d (tv_nowMs v) key (if isStrictAccountSticky key then es else ct_candidates tier) p = (known, stk, p1)"
    by (metis prod_cases3)
  then have 1: "pool_kept p p1" by (auto intro: pool_kept_entries dest!: sticky_lookup_eq)
  have 2: "pool_kept q q'" if "chooseByStrategy d q cs k s m n = (c, q')" for q q' cs k s m n c
    using chooseByStrategy_in(2) [of d q cs k s m n "fst c" "snd c" q'] that by (auto intro: pool_kept_entries)
  have 3: "pool_kept q q'" if "pinned_wait n a m q = (w, q')" for n a m q w q'
    using that by (auto intro: purged_kept dest!: pinned_wait_eq)
  have "pool_kept p1 p'"
    using sel unfolding select_from_def Let_def look prod.case
    by (auto split: option.splits if_splits prod.splits intro: pool_kept_trans 2 3 take_entry_kept)
  with 1 show ?thesis by (rule pool_kept_trans)
qed

lemma select_kept: "pool_kept p (snd (select d probe now key exclude busy model p))"
proof -
  obtain es p1 where el: "eligibleEntries now exclude model p = (es, p1)" by (cases "eligibleEntries now exclude model p")
  then have "pool_kept p p1" using eligibleEntries_eq purged_kept by blast
  then show ?thesis
    unfolding select_def Let_def el prod.case
    by (simp add: pool_kept_trans [OF _ select_from_kept [OF surjective_pairing]])
qed

lemma update_kept_simps:
  "pool_kept p (update_entry i (\<lambda>m. m\<lparr>pe_schedulable := False\<rparr>) p)"
  "pool_kept p (update_entry i (\<lambda>m. m\<lparr>pe_usageLimitedUntilMs := u\<rparr>) p)"
  by (rule pool_kept_update; simp add: entry_kept_def)+

lemma disable_kept: "pool_kept p (disableAccount a p)"
  by (auto simp: disableAccount_def update_kept_simps split: option.split)

lemma op_kept: "pool_kept p (apply_op d op p)"
proof (cases op)
  case (Op_park_credential e err)
  have "pool_kept p q \<Longrightarrow> pool_kept p (q\<lparr>pl_reported := r\<rparr>)" for q r by (simp add: pool_kept_def)
  with Op_park_credential disable_kept show ?thesis by (simp add: parkCredentialFailedAccount_def Let_def)
next
  case (Op_eligible now model)
  then show ?thesis using eligibleEntries_eq purged_kept by (metis apply_op.simps(2) surjective_pairing)
next
  case (Op_quota account windows captured credits)
  then show ?thesis
    by (auto simp: setQuotaSnapshot_def entry_kept_def Let_def split: option.split intro!: pool_kept_update)
next
  case (Op_usage_limit account until)
  have "pool_kept p q \<Longrightarrow> pool_kept p (q\<lparr>pl_retryable := r, pl_scoped := s\<rparr>)" for q r s by (simp add: pool_kept_def)
  with Op_usage_limit show ?thesis by (auto simp: setUsageLimit_def Let_def update_kept_simps split: option.split)
next
  case (Op_park_rate now e err model)
  then show ?thesis
    by (auto simp: parkRateLimitedAccount_def Let_def update_kept_simps split: limit_scope.split intro: pool_kept_entries)
qed (auto simp: select_kept disable_kept restorePersistedAffinity_def coolRetryableAccount_def rememberResponseIdAffinity_def
    rememberTurnStateAffinity_def seedUsageLimit_def update_kept_simps closeResponsesWebSocketSession_def record_speed_def
    split: option.splits intro: pool_kept_entries)

lemma ops_kept: "pool_kept p (apply_ops d ops p)"
  unfolding apply_ops_def by (induction ops arbitrary: p) (auto intro: pool_kept_trans op_kept)

text \<open>The speed history keeps its samples sensible as long as the decay is no negative factor.\<close>

lemma speed_sample_ok:
  assumes "\<And>p. previous = Some p \<Longrightarrow> speed_ok (sr_speed p) \<and> 0 \<le> sr_weight p" "\<And>t. 0 \<le> decay t" "0 \<le> ttft"
  shows "speed_ok (sr_speed (speed_sample decay previous ttft tokens gen now)) \<and> 0 \<le> sr_weight (speed_sample decay previous ttft tokens gen now)"
proof -
  let ?w = "speed_weight decay previous now"
  have w: "0 \<le> ?w" using assms(1,2) by (auto simp: speed_weight_def split: option.split)
  have pace: "0 < t" if "speed_pace previous ?w tps = Some t" "\<And>x. tps = Some x \<Longrightarrow> 0 < x" for tps t
    using that w assms(1)
    by (auto simp: speed_pace_def positive_pace_def speed_ok_def Option.bind_eq_Some_conv add_pos_nonneg
        split: option.splits if_splits intro!: divide_pos_pos add_pos_nonneg mult_nonneg_nonneg)
  have ttft: "0 \<le> (ttft + (case previous of None \<Rightarrow> 0 | Some p \<Rightarrow> sp_ttftMs (sr_speed p)) * ?w) / (1 + ?w)"
    using w assms(1,3) by (cases previous) (simp_all add: speed_ok_def)
  define tps where "tps = (case tokens of None \<Rightarrow> None | Some n \<Rightarrow> if 0 < n \<and> 0 < gen then Some (n * 1000 / gen) else None)"
  have "0 < x" if "tps = Some x" for x
    using that by (auto simp: tps_def split: option.splits if_splits)
  with pace ttft w show ?thesis
    unfolding speed_sample_def Let_def tps_def [symmetric] speed_ok_def by simp
qed

lemma speed_record_call_ok:
  assumes "speeds_ok h" "\<And>t. 0 \<le> decay t"
  shows "speeds_ok (speed_record_call decay limit h account model ttft tokens gen now)"
proof (cases "ttft < 0")
  case False
  have "speed_ok (sr_speed q) \<and> 0 \<le> sr_weight q" if "map_of h k = Some q" for k q
    using assms(1) that by (force simp: speeds_ok_def dest: map_of_SomeD)
  from speed_sample_ok [OF this assms(2)] False
  have "speeds_ok (filter (\<lambda>(k', r). k' \<noteq> k) h @ [(k, speed_sample decay (map_of h k) ttft tokens gen now)])" for k
    using assms(1) by (auto simp: speeds_ok_def)
  then show ?thesis
    unfolding speed_record_call_def Let_def speed_limited_def using False
    by (auto simp: speeds_ok_def dest: in_set_dropD)
qed (simp add: speed_record_call_def assms(1))

text \<open>The invariant of the pool's tables: keys are unique, samples sensible, usage counters behind the selection counter.\<close>

definition pool_inv :: "pool \<Rightarrow> bool" where
  "pool_inv p \<longleftrightarrow>
     distinct (map fst (pl_sticky p)) \<and> distinct (map fst (pl_scoped p)) \<and> distinct (pl_reported p) \<and>
     speeds_ok (pl_speed p) \<and> (\<forall>m \<in> set (pl_entries p). pe_lastUsedAt m \<le> pl_counter p)"

lemma distinct_filter_keys: "distinct (map fst xs) \<Longrightarrow> distinct (map fst (filter P xs))"
  by (rule distinct_map_filter)

lemma distinct_update_keys: "distinct (map fst xs) \<Longrightarrow> distinct (map fst (AList.update k v xs))"
  by (rule distinct_update)

lemma distinct_drop_keys: "distinct (map fst xs) \<Longrightarrow> distinct (map fst (drop n xs))"
  by (metis distinct_drop drop_map)

lemmas table_keys = distinct_filter_keys distinct_update_keys distinct_drop_keys

lemma rememberSticky_keys:
  assumes "distinct (map fst (pl_sticky p))"
  shows "distinct (map fst (pl_sticky (rememberSticky d now k a x p)))"
proof -
  let ?moved = "filter (\<lambda>kv. fst kv \<noteq> k) (pl_sticky p) @ [(k, (a, x))]"
  have 1: "distinct (map fst ?moved)"
    using distinct_filter_keys [OF assms, of "\<lambda>kv. fst kv \<noteq> k"] by auto
  have "\<exists>n. pl_sticky (rememberSticky d now k a x p) = drop n (filter (\<lambda>kv. \<not> sticky_expired now kv) ?moved)"
    unfolding rememberSticky_def Let_def by (rule exI, simp del: filter_append filter.simps)
  then show ?thesis using distinct_drop_keys [OF distinct_filter_keys [OF 1]] by metis
qed

lemma rememberSticky_inv: "pool_inv p \<Longrightarrow> pool_inv (rememberSticky d now k a x p)"
  using rememberSticky_keys [of p d now k a x]
  by (simp add: pool_inv_def) (simp add: rememberSticky_def Let_def)

lemma forgetSticky_inv: "pool_inv p \<Longrightarrow> pool_inv (forgetStickyAccount a b p)"
  by (auto simp: pool_inv_def forgetStickyAccount_def intro!: table_keys)

lemma update_entry_inv:
  "pool_inv p \<Longrightarrow> (\<And>m. pe_lastUsedAt (f m) \<le> pe_lastUsedAt m) \<Longrightarrow> pool_inv (update_entry i f p)"
  by (auto simp: pool_inv_def update_entry_def dest!: set_update_subset_insert [THEN subsetD]) (meson le_trans nth_mem)

lemma scoped_filter_inv: "pool_inv p \<Longrightarrow> pool_inv (p\<lparr>pl_scoped := filter P (pl_scoped p)\<rparr>)"
  by (auto simp: pool_inv_def intro!: table_keys)

lemma other_fields_inv [simp]:
  "pool_inv (p\<lparr>pl_retryable := R\<rparr>) = pool_inv p"
  "pool_inv (p\<lparr>pl_speedTurns := ts\<rparr>) = pool_inv p"
  by (simp_all add: pool_inv_def)

lemma purged_inv: "purged now p p' \<Longrightarrow> pool_inv p \<Longrightarrow> pool_inv p'"
  unfolding purged_def pool_inv_def by (auto intro: distinct_filter_keys)

lemma sticky_filter_inv: "pool_inv p \<Longrightarrow> pool_inv (p\<lparr>pl_sticky := filter P (pl_sticky p)\<rparr>)"
  by (simp add: pool_inv_def distinct_filter_keys)

lemma scoped_update_inv: "pool_inv p \<Longrightarrow> pool_inv (p\<lparr>pl_scoped := AList.update k c (pl_scoped p)\<rparr>)"
  by (simp add: pool_inv_def distinct_update)

lemma commit_inv: "pool_inv p \<Longrightarrow> pool_inv (commitSelection d e k now p)"
proof -
  assume inv: "pool_inv p"
  then have "pool_inv (update_entry e (\<lambda>m. m\<lparr>pe_lastUsedAt := pl_counter p + 1\<rparr>) (p\<lparr>pl_counter := pl_counter p + 1\<rparr>))"
    by (auto simp: pool_inv_def update_entry_def le_SucI dest!: set_update_subset_insert [THEN subsetD])
  then show ?thesis
    by (cases k) (auto simp: commitSelection_def Let_def intro: rememberSticky_inv)
qed

lemma take_entry_inv: "take_entry d v tier key ck e reason p = (x, p') \<Longrightarrow> pool_inv p \<Longrightarrow> pool_inv p'"
  by (auto simp: take_entry_def split: prod.splits intro: commit_inv purged_inv dest!: snapshot_purged)

lemma select_from_inv: "select_from d v tier key es p = (r, p') \<Longrightarrow> pool_inv p \<Longrightarrow> pool_inv p'"
proof -
  assume sel: "select_from d v tier key es p = (r, p')" and inv: "pool_inv p"
  obtain known stk p1 where look:
    "sticky_lookup d (tv_nowMs v) key (if isStrictAccountSticky key then es else ct_candidates tier) p = (known, stk, p1)"
    by (metis prod_cases3)
  have 1: "pool_inv p1"
    using look inv
    by (auto simp: sticky_lookup_def split: option.splits if_splits intro: rememberSticky_inv sticky_filter_inv)
  have 2: "pool_inv q'" if "chooseByStrategy d q cs k s m n = (c, q')" "pool_inv q" for q q' cs k s m n c
    using chooseByStrategy_in(2) [of d q cs k s m n "fst c" "snd c" q'] that by auto
  have 3: "pool_inv q'" if "pinned_wait n a m q = (w, q')" "pool_inv q" for n a m q w q'
    using that by (auto intro: purged_inv dest!: pinned_wait_eq)
  show "pool_inv p'"
    using sel 1 unfolding select_from_def Let_def look prod.case
    by (auto split: option.splits if_splits prod.splits intro: 2 3 take_entry_inv)
qed

lemma select_inv: "pool_inv p \<Longrightarrow> pool_inv (snd (select d probe now key exclude busy model p))"
proof -
  assume inv: "pool_inv p"
  obtain es p1 where el: "eligibleEntries now exclude model p = (es, p1)" by (cases "eligibleEntries now exclude model p")
  then have "pool_inv p1" using eligibleEntries_eq purged_inv inv by blast
  then show ?thesis
    unfolding select_def Let_def el prod.case
    by (simp add: select_from_inv [OF surjective_pairing])
qed

lemma disable_inv: "pool_inv p \<Longrightarrow> pool_inv (disableAccount a p)"
  by (auto simp: disableAccount_def intro!: forgetSticky_inv update_entry_inv split: option.split)

lemma op_inv:
  assumes "pool_inv p" "\<And>t. 0 \<le> pd_decay d t"
  shows "pool_inv (apply_op d op p)"
proof (cases op)
  case (Op_park_credential e err)
  show ?thesis
    using disable_inv [OF assms(1), of "account_at p e"] Op_park_credential
    by (auto simp: parkCredentialFailedAccount_def Let_def pool_inv_def)
next
  case (Op_eligible now model)
  then show ?thesis using eligibleEntries_eq purged_inv assms(1) by (metis apply_op.simps(2) surjective_pairing)
next
  case (Op_quota account windows captured credits)
  then show ?thesis using assms(1)
    by (auto simp: setQuotaSnapshot_def Let_def split: option.split intro!: update_entry_inv)
next
  case (Op_usage_limit account until)
  have 1: "pool_inv (case find_account p account of None \<Rightarrow> p | Some i \<Rightarrow> update_entry i (\<lambda>m. m\<lparr>pe_usageLimitedUntilMs := until\<rparr>) p)"
    using assms(1) by (auto intro: update_entry_inv split: option.split)
  show ?thesis
    using scoped_filter_inv [OF 1] 1 Op_usage_limit by (simp add: setUsageLimit_def Let_def pool_inv_def)
next
  case (Op_park_rate now e err model)
  with assms(1) show ?thesis
    by (auto simp: parkRateLimitedAccount_def Let_def split: limit_scope.split
        intro!: forgetSticky_inv update_entry_inv scoped_update_inv)
next
  case (Op_speed now e model started firstAt tokens)
  with assms show ?thesis by (simp add: record_speed_def pool_inv_def speed_record_call_ok)
next
  case (Op_response_id now e rid)
  with assms(1) show ?thesis
    by (auto simp: rememberResponseIdAffinity_def pool_inv_def distinct_update)
next
  case (Op_turn_state now e s)
  with assms(1) show ?thesis
    by (auto simp: rememberTurnStateAffinity_def pool_inv_def distinct_update split: option.split)
next
  case (Op_close sid)
  with assms(1) show ?thesis
    by (auto simp: closeResponsesWebSocketSession_def pool_inv_def distinct_filter_keys)
qed (use assms(1) in \<open>auto simp: select_inv disable_inv restorePersistedAffinity_def coolRetryableAccount_def
    seedUsageLimit_def split: option.splits intro!: rememberSticky_inv forgetSticky_inv update_entry_inv\<close>)

lemma ops_inv: "pool_inv p \<Longrightarrow> (\<And>t. 0 \<le> pd_decay d t) \<Longrightarrow> pool_inv (apply_ops d ops p)"
  unfolding apply_ops_def by (induction ops arbitrary: p) (auto intro: op_inv)

end
