(* ===== verification/Oauth_Retry.thy ===== *)
theory Oauth_Retry
  imports Oauth_Facts
begin

text \<open>
  The pool's retries (\<open>completeWithRetry\<close> and \<open>streamWithRetry\<close> of \<open>provider/oauth/pool.ts\<close>) and the client
  methods built on them. Everything the world decides is an environment indexed by the number of awaits so far: what
  an account's client answers, what it took from the shared overload budget, the clock, the capacity probes, the abort
  signal, and every pool operation other requests performed during that await.
\<close>

subsection \<open>Environments\<close>

record 'r call_answer =
  ca_result :: 'r
  ca_spent :: nat
  ca_exhausted :: "bool option"
  ca_turnStates :: "string option list"
  ca_others :: "pool_op list"

record wait_answer =
  wa_aborted_entry :: bool
  wa_aborted_after :: bool
  wa_others :: "pool_op list"

record 'r pool_env =
  en_call :: "nat \<Rightarrow> nat \<Rightarrow> 'r call_answer"
  en_wait :: "nat \<Rightarrow> wait_answer"
  en_now :: "nat \<Rightarrow> ms"
  en_probe :: "nat \<Rightarrow> string \<Rightarrow> capacity_probe"
  en_abort_reason :: thrown

record pool_request =
  rq_stickyKey :: "string option"
  rq_model :: "string option"
  rq_avoidBusy :: bool
  rq_statuses :: "int list"
  rq_forbidden :: bool
  rq_budget :: "retry_budget option"

definition client_budget :: "'r call_answer \<Rightarrow> retry_budget \<Rightarrow> retry_budget" where
  "client_budget a b =
     b\<lparr>rb_attempt := rb_attempt b + ca_spent a,
       rb_exhausted := (case ca_exhausted a of None \<Rightarrow> rb_exhausted b | Some x \<Rightarrow> Some x)\<rparr>"

text \<open>The pool when a call to entry \<open>e\<close> answers: its response headers were observed, other requests ran.\<close>

definition after_call :: "pool_deps \<Rightarrow> ms \<Rightarrow> nat \<Rightarrow> 'r call_answer \<Rightarrow> pool \<Rightarrow> pool" where
  "after_call d nowMs e a p =
     apply_ops d (ca_others a) (fold (rememberTurnStateAffinity d nowMs e) (ca_turnStates a) p)"

definition fresh_budget :: retry_budget where
  "fresh_budget = \<lparr>rb_attempt = 0, rb_exhausted = None\<rparr>"

definition budget_exhausted :: "retry_budget \<Rightarrow> bool" where
  "budget_exhausted b = (rb_exhausted b = Some True)"

subsection \<open>The same account again: Codex capacity\<close>

record 'r call_run =
  cr_result :: 'r
  cr_step :: nat
  cr_budget :: retry_budget
  cr_pool :: pool
  cr_calls :: "nat list"
  cr_slept :: "ms list"

definition capacity_rejected :: "pool_deps \<Rightarrow> thrown \<Rightarrow> upstream_fields option" where
  "capacity_rejected d err =
     (if pd_codexCapacityRetries d \<and> isCodexCapacityRejection (pd_showNum d) err then upstream_of err else None)"

text \<open>After a capacity wait: the account must still be eligible, or the retry ends with the exhausted error.\<close>

definition still_eligible :: "pool_deps \<Rightarrow> ms \<Rightarrow> string option \<Rightarrow> nat \<Rightarrow> pool \<Rightarrow> bool \<times> pool" where
  "still_eligible d nowMs model e p = (case eligibleEntries nowMs [] model p of (es, p') \<Rightarrow> (e \<in> set es, p'))"

lemma capacity_wait_grows:
  "waitForCodexCapacityRetry showN err u b x y = (None, ds, b') \<Longrightarrow>
     rb_attempt b' = Suc (rb_attempt b) \<and> rb_attempt b < 3"
  by (auto simp: waitForCodexCapacityRetry_def CAPACITY_BACKOFF_MS_def
      split: prod.splits wait_result.splits dest!: wait_grows)

datatype call_step = Call_over "(thrown + json) call_run" | Call_again nat retry_budget pool "ms list"

text \<open>One call to the account's client, and the wait after a capacity rejection.\<close>

definition capacity_step ::
  "pool_deps \<Rightarrow> (thrown + json) pool_env \<Rightarrow> pool_request \<Rightarrow> nat \<Rightarrow> nat \<Rightarrow> retry_budget \<Rightarrow> pool \<Rightarrow> call_step" where
  "capacity_step d env rq e n b p =
     (let a = en_call env n e; n1 = n + 1; b1 = client_budget a b; p1 = after_call d (en_now env n1) e a p;
          over = (\<lambda>r n b p sl. Call_over \<lparr>cr_result = r, cr_step = n, cr_budget = b, cr_pool = p, cr_calls = [e], cr_slept = sl\<rparr>) in
      case ca_result a of
        Inr res \<Rightarrow> over (Inr res) n1 b1 p1 []
      | Inl err \<Rightarrow>
          (case capacity_rejected d err of
             None \<Rightarrow> over (Inl err) n1 b1 p1 []
           | Some u \<Rightarrow>
               let w = en_wait env n1; n2 = n1 + 1; p2 = apply_ops d (wa_others w) p1 in
               (case waitForCodexCapacityRetry (pd_showNat d) err u b1 (wa_aborted_entry w) (wa_aborted_after w) of
                  (Some None, ds, b2) \<Rightarrow> over (Inl (en_abort_reason env)) n2 b2 p2 ds
                | (Some (Some x), ds, b2) \<Rightarrow> over (Inl x) n2 b2 p2 ds
                | (None, ds, b2) \<Rightarrow>
                    (case still_eligible d (en_now env n2) (rq_model rq) e p2 of (ok, p3) \<Rightarrow>
                       if \<not> ok
                       then over (Inl (CodexCapacityRetryExhaustedError (pd_showNat d) err u (rb_attempt b2 - 1) True)) n2 b2 p3 ds
                       else Call_again n2 b2 p3 ds))))"

lemma capacity_step_again:
  "capacity_step d env rq e n b p = Call_again n' b' p' ds \<Longrightarrow> rb_attempt b < rb_attempt b' \<and> rb_attempt b < 3"
  by (auto simp: capacity_step_def Let_def client_budget_def split: sum.splits option.splits prod.splits if_splits
      dest!: capacity_wait_grows)

function capacity_calls ::
  "pool_deps \<Rightarrow> (thrown + json) pool_env \<Rightarrow> pool_request \<Rightarrow> nat \<Rightarrow> nat \<Rightarrow> retry_budget \<Rightarrow> pool \<Rightarrow> (thrown + json) call_run" where
  "capacity_calls d env rq e n b p =
     (case capacity_step d env rq e n b p of
        Call_over run \<Rightarrow> run
      | Call_again n' b' p' ds \<Rightarrow>
          let run = capacity_calls d env rq e n' b' p' in
          run\<lparr>cr_calls := e # cr_calls run, cr_slept := ds @ cr_slept run\<rparr>)"
  by pat_completeness auto
termination
  by (relation "measure (\<lambda>(d, env, rq, e, n, b, p). 3 - rb_attempt b)")
    (auto dest!: capacity_step_again)

declare capacity_calls.simps [simp del]

subsection \<open>Another account\<close>

text \<open>What the catch block does with a failure: give it to the caller, or go on with a sibling.\<close>

definition account_failure ::
  "pool_deps \<Rightarrow> pool_request \<Rightarrow> ms \<Rightarrow> nat \<Rightarrow> thrown \<Rightarrow> retry_budget option \<Rightarrow> pool \<Rightarrow> bool \<times> pool \<times> pool_hook list" where
  "account_failure d rq nowMs e err b p =
     (let stateful = isStrictAccountSticky (rq_stickyKey rq) in
      if isCodexCapacityExhausted err then (False, p, [])
      else if b \<noteq> None \<and> budget_exhausted (the b) then (False, p, [])
      else if pd_shouldRetryAccountError d err then (\<not> stateful, p, [])
      else if isRetryableAccountFailure err then (\<not> stateful, coolRetryableAccount nowMs e p, [])
      else if isCredentialAccountFailure err (rq_statuses rq)
      then (case parkCredentialFailedAccount e err p of (p', hs) \<Rightarrow> (\<not> stateful, p', hs))
      else if rq_forbidden rq \<and> upstreamStatusOf err = Some 403 then (True, p, [])
      else if isRateLimitAccountFailure err
      then (case parkRateLimitedAccount d nowMs e err (rq_model rq) p of (p', hs) \<Rightarrow> (\<not> stateful, p', hs))
      else if isAccountBackpressureFailure err then (\<not> stateful, p, [])
      else (isRetryableTransientError err \<and> \<not> stateful, p, []))"

record 'r pool_answer =
  pa_result :: 'r
  pa_pool :: pool
  pa_calls :: "nat list"
  pa_slept :: "ms list"
  pa_hooks :: "pool_hook list"

definition untried :: "pool \<Rightarrow> string list \<Rightarrow> nat" where
  "untried p tried = length (filter (\<lambda>a. a \<notin> set tried) (accounts p))"

lemma untried_less:
  assumes "a \<in> set (accounts p)" "a \<notin> set tried" "accounts q = accounts p"
  shows "untried q (a # tried) < untried p tried"
proof -
  have eq: "filter (\<lambda>x. x \<notin> set (a # tried)) (accounts p) = filter (\<lambda>x. x \<noteq> a) (filter (\<lambda>x. x \<notin> set tried) (accounts p))"
    by (auto intro!: filter_cong)
  have "a \<in> set (filter (\<lambda>x. x \<notin> set tried) (accounts p))" using assms(1,2) by simp
  then have "length (filter (\<lambda>x. x \<noteq> a) (filter (\<lambda>x. x \<notin> set tried) (accounts p))) < length (filter (\<lambda>x. x \<notin> set tried) (accounts p))"
    by (rule length_filter_less) simp
  then show ?thesis unfolding untried_def assms(3) eq .
qed

lemma account_failure_kept: "account_failure d rq now e err b p = (go, p', hs) \<Longrightarrow> pool_kept p p'"
  using op_kept [of p d "Op_cool now e"] op_kept [of p d "Op_park_credential e err"] op_kept [of p d "Op_park_rate now e err (rq_model rq)"]
  by (auto simp: account_failure_def Let_def split: if_splits prod.splits)

lemma after_call_kept: "pool_kept p (after_call d now e a p)"
proof -
  have "pool_kept p (fold (rememberTurnStateAffinity d now e) ts p)" for ts
  proof (induction ts arbitrary: p)
    case (Cons t ts)
    show ?case using pool_kept_trans [OF op_kept [of p d "Op_turn_state now e t"] Cons] by simp
  qed simp
  then show ?thesis unfolding after_call_def by (rule pool_kept_trans [OF _ ops_kept])
qed

lemma still_eligible_kept: "still_eligible d now model e p = (ok, p') \<Longrightarrow> pool_kept p p'"
  by (auto simp: still_eligible_def split: prod.splits intro: purged_kept dest!: eligibleEntries_eq)

lemma after_wait_kept: "pool_kept p (apply_ops d ops (after_call d now e a p))"
  by (rule pool_kept_trans [OF after_call_kept ops_kept])

lemma capacity_step_kept:
  "case capacity_step d env rq e n b p of Call_over run \<Rightarrow> pool_kept p (cr_pool run) \<and> cr_calls run = [e]
   | Call_again n' b' p' ds \<Rightarrow> pool_kept p p'"
proof -
  have retry: "pool_kept p q" if "still_eligible d t m e (apply_ops d ops (after_call d t' e a p)) = (ok, q)" for t t' m ops a ok q
    by (rule pool_kept_trans [OF after_wait_kept still_eligible_kept [OF that]])
  show ?thesis
    unfolding capacity_step_def Let_def
    by (auto split: sum.split option.split prod.split if_splits intro: after_call_kept after_wait_kept retry)
qed

lemma capacity_calls_kept:
  "pool_kept p (cr_pool (capacity_calls d env rq e n b p)) \<and> set (cr_calls (capacity_calls d env rq e n b p)) = {e}"
proof (induction d env rq e n b p rule: capacity_calls.induct)
  case (1 d env rq e n b p)
  show ?case
  proof (cases "capacity_step d env rq e n b p")
    case (Call_over run)
    then show ?thesis using capacity_step_kept [where d = d and env = env and rq = rq and e = e and n = n and b = b and p = p] by (simp add: capacity_calls.simps)
  next
    case (Call_again n' b' p' ds)
    then have "pool_kept p p'" using capacity_step_kept [where d = d and env = env and rq = rq and e = e and n = n and b = b and p = p] by simp
    moreover have "pool_kept p' (cr_pool (capacity_calls d env rq e n' b' p')) \<and>
        set (cr_calls (capacity_calls d env rq e n' b' p')) = {e}"
      by (rule 1 [OF Call_again])
    ultimately show ?thesis
      by (subst (1 2) capacity_calls.simps) (auto simp: Call_again Let_def intro: pool_kept_trans)
  qed
qed

subsection \<open>Completions\<close>

lemma select_less:
  assumes "select d probe now key tried busy model p = (Inr (e, s), p1)" "accounts q = accounts p1"
  shows "untried q (account_at p1 e # tried) < untried p tried"
proof -
  have acc: "accounts p1 = accounts p" using select_result(2) [OF assms(1)] .
  have e: "e < length (pl_entries p)" "account_at p e \<in> set (accounts p) - set tried"
    using select_untried [OF assms(1)] by simp_all
  have "account_at p1 e = account_at p e" using acc e(1) by (metis accounts_length accounts_nth)
  with e(2) assms(2) acc show ?thesis by (simp add: untried_less)
qed

definition settle_completion :: "pool_deps \<Rightarrow> ms \<Rightarrow> string option \<Rightarrow> nat \<Rightarrow> json \<Rightarrow> pool \<Rightarrow> pool" where
  "settle_completion d nowMs stickyKey e res p =
     rememberResponseAffinity d nowMs (Some res) e
       (case stickyKey of
          Some k \<Rightarrow> if startsWith ''previous_response_id:'' k
                    then rememberSticky d nowMs k (account_at p e) (nowMs + pd_stickyTtlMs d) p else p
        | None \<Rightarrow> p)"

datatype completion_turn =
    Complete_over "(thrown + json) pool_answer"
  | Complete_waits ms pool
  | Complete_next string nat thrown "retry_budget option" pool "nat list" "ms list" "pool_hook list"

text \<open>One turn of the loop: a selection, then the call to the selected account and what its failure means.\<close>

definition complete_step ::
  "pool_deps \<Rightarrow> (thrown + json) pool_env \<Rightarrow> pool_request \<Rightarrow> nat \<Rightarrow> string list \<Rightarrow> bool \<Rightarrow> thrown option \<Rightarrow> retry_budget option \<Rightarrow> pool
     \<Rightarrow> completion_turn" where
  "complete_step d env rq n tried waited lastErr b p =
     (let over = (\<lambda>r p cs sl hs. Complete_over \<lparr>pa_result = r, pa_pool = p, pa_calls = cs, pa_slept = sl, pa_hooks = hs\<rparr>) in
      case select d (en_probe env n) (en_now env n) (rq_stickyKey rq) tried (rq_avoidBusy rq) (rq_model rq) p of
        (Inl selErr, p1) \<Rightarrow>
          (case (if waited then None else stickyAccountWaitMs selErr) of
             None \<Rightarrow> over (Inl (nullish lastErr selErr)) p1 [] [] []
           | Some ms \<Rightarrow>
               let w = en_wait env n; p2 = apply_ops d (wa_others w) p1 in
               if wa_aborted_after w then over (Inl (en_abort_reason env)) p2 [] [ms] [] else Complete_waits ms p2)
      | (Inr (e, s), p1) \<Rightarrow>
          let run = capacity_calls d env rq e n (nullish b fresh_budget) p1; nowMs = en_now env (cr_step run);
              b' = (if b = None then None else Some (cr_budget run)) in
          (case cr_result run of
             Inr res \<Rightarrow>
               over (Inr res) (settle_completion d nowMs (rq_stickyKey rq) e res (cr_pool run)) (cr_calls run) (cr_slept run) []
           | Inl err \<Rightarrow>
               (case account_failure d rq nowMs e err b' (cr_pool run) of (next_account, p2, hs) \<Rightarrow>
                  if next_account
                  then Complete_next (account_at p1 e) (cr_step run) err b' p2 (cr_calls run) (cr_slept run) hs
                  else over (Inl err) p2 (cr_calls run) (cr_slept run) hs)))"

lemma complete_step_waits:
  "complete_step d env rq n tried waited lastErr b p = Complete_waits ms p' \<Longrightarrow> \<not> waited \<and> accounts p' = accounts p"
  using select_result(2) [OF surjective_pairing] pool_kept_accounts [OF ops_kept]
  by (auto simp: complete_step_def Let_def split: prod.splits sum.splits option.splits if_splits)
     (metis snd_conv)

lemma complete_step_next:
  assumes "complete_step d env rq n tried waited lastErr b p = Complete_next a n' err b' p' cs sl hs"
  shows "untried p' (a # tried) < untried p tried"
proof -
  obtain r p1 where sel:
    "select d (en_probe env n) (en_now env n) (rq_stickyKey rq) tried (rq_avoidBusy rq) (rq_model rq) p = (r, p1)"
    by (metis surj_pair)
  obtain e s where r: "r = Inr (e, s)"
    using assms sel by (cases r) (auto simp: complete_step_def Let_def split: option.splits if_splits)
  let ?run = "capacity_calls d env rq e n (nullish b fresh_budget) p1"
  obtain err go where f: "account_failure d rq (en_now env (cr_step ?run)) e err
      (if b = None then None else Some (cr_budget ?run)) (cr_pool ?run) = (go, p', hs)" and a: "a = account_at p1 e"
    using assms sel r by (auto simp: complete_step_def Let_def split: sum.splits prod.splits if_splits)
  have "accounts p' = accounts p1"
    using pool_kept_accounts [OF account_failure_kept [OF f]] capacity_calls_kept pool_kept_accounts by metis
  with select_less [OF sel [unfolded r]] show ?thesis by (simp add: a)
qed

function complete_loop ::
  "pool_deps \<Rightarrow> (thrown + json) pool_env \<Rightarrow> pool_request \<Rightarrow> nat \<Rightarrow> string list \<Rightarrow> bool \<Rightarrow> thrown option \<Rightarrow> retry_budget option \<Rightarrow> pool
     \<Rightarrow> (thrown + json) pool_answer" where
  "complete_loop d env rq n tried waited lastErr b p =
     (case complete_step d env rq n tried waited lastErr b p of
        Complete_over ans \<Rightarrow> ans
      | Complete_waits ms p' \<Rightarrow>
          let ans = complete_loop d env rq (n + 1) tried True lastErr b p' in ans\<lparr>pa_slept := ms # pa_slept ans\<rparr>
      | Complete_next a n' err b' p' cs sl hs \<Rightarrow>
          let ans = complete_loop d env rq n' (a # tried) waited (Some err) b' p' in
          ans\<lparr>pa_calls := cs @ pa_calls ans, pa_slept := sl @ pa_slept ans, pa_hooks := hs @ pa_hooks ans\<rparr>)"
  by pat_completeness auto
termination
  by (relation "measures [\<lambda>(d, env, rq, n, tried, waited, lastErr, b, p). untried p tried,
      \<lambda>(d, env, rq, n, tried, waited, lastErr, b, p). if waited then 0 else 1]")
    (auto simp: untried_def dest!: complete_step_waits complete_step_next)

declare complete_loop.simps [simp del]

definition completeWithRetry ::
  "pool_deps \<Rightarrow> (thrown + json) pool_env \<Rightarrow> pool_request \<Rightarrow> string list \<Rightarrow> pool \<Rightarrow> (thrown + json) pool_answer" where
  "completeWithRetry d env rq excluded p = complete_loop d env rq 0 excluded False None (rq_budget rq) p"

end
