(* ===== verification/Oauth_Stream.thy ===== *)
theory Oauth_Stream
  imports Oauth_Retry
begin

text \<open>
  Streams through the pool (\<open>streamWithRetry\<close> of \<open>provider/oauth/pool.ts\<close>) and the client methods of the pool. A
  stream is the list of what its source delivers; each account's stream is guarded before it is committed to, chunks
  are relayed with the operations of other requests in between, and the consumer may stop after any chunk.
\<close>

subsection \<open>One account's stream\<close>

record stream_source =
  ss_open :: "thrown + pull list"
  ss_aborted_open :: bool
  ss_aborted_catch :: bool
  ss_aborted_end :: bool
  ss_at :: "nat \<Rightarrow> ms"
  ss_between :: "nat \<Rightarrow> pool_op list"
  ss_stop :: "nat option"

fun raw_run :: "pull list \<Rightarrow> string list \<times> thrown option" where
  "raw_run [] = ([], None)"
| "raw_run (Chunk c # es) = (case raw_run es of (cs, e) \<Rightarrow> (c # cs, e))"
| "raw_run (Source_error err # es) = ([], Some err)"
| "raw_run (Deadline # es) = raw_run es"

definition guarded_run :: "pool_deps \<Rightarrow> classifier option \<Rightarrow> pull list \<Rightarrow> string list \<times> thrown option" where
  "guarded_run d k pulls =
     (case k of
        None \<Rightarrow> raw_run pulls
      | Some c \<Rightarrow> guardPreOutputFailure (pd_showNum d) (\<lambda>ms. pd_showNum d (of_int ms)) c None pulls)"

text \<open>Up to the first chunk: a failure that nothing was relayed for, or what is relayed and how it ends.\<close>

definition stream_open :: "pool_deps \<Rightarrow> thrown \<Rightarrow> classifier option \<Rightarrow> stream_source \<Rightarrow> thrown + string list \<times> thrown option" where
  "stream_open d abort_reason k src =
     (if ss_aborted_open src then Inl abort_reason
      else
        (case ss_open src of
           Inl err \<Rightarrow> Inl err
         | Inr pulls \<Rightarrow>
             (case guarded_run d k pulls of
                ([], Some err) \<Rightarrow> Inl err
              | (cs, err) \<Rightarrow> Inr (cs, err))))"

subsection \<open>A committed stream\<close>

datatype stream_end = Stream_done | Stream_stopped | Stream_threw thrown

record stream_answer =
  sw_chunks :: "string list"
  sw_end :: stream_end
  sw_pool :: pool
  sw_opened :: "nat list"
  sw_slept :: "ms list"
  sw_hooks :: "pool_hook list"

fun relay_chunks ::
  "pool_deps \<Rightarrow> stream_source \<Rightarrow> nat \<Rightarrow> nat \<Rightarrow> string list \<Rightarrow> string \<Rightarrow> string \<times> rat option \<Rightarrow> pool \<Rightarrow> (string \<times> rat option) \<times> pool" where
  "relay_chunks d src e j [] buffer usage p = (usage, p)"
| "relay_chunks d src e j (c # cs) buffer usage p =
     (case track_affinity d (ss_at src j) e buffer c (apply_ops d (ss_between src j) p) of (buffer', p') \<Rightarrow>
        relay_chunks d src e (j + 1) cs buffer' (observeUsage d c usage) p')"

definition commit_stream_key :: "pool_deps \<Rightarrow> ms \<Rightarrow> string option \<Rightarrow> nat \<Rightarrow> pool \<Rightarrow> pool" where
  "commit_stream_key d nowMs stickyKey e p =
     (case stickyKey of
        None \<Rightarrow> p
      | Some k \<Rightarrow>
          if startsWith ''previous_response_id:'' k \<or> startsWith ''responses_websocket_session:'' k
          then rememberSticky d nowMs k (account_at p e) (nowMs + pd_stickyTtlMs d) p else p)"

text \<open>What becomes of the account when its committed stream ends with an error: nothing is replayed.\<close>

definition committed_failure :: "pool_deps \<Rightarrow> ms \<Rightarrow> bool \<Rightarrow> nat \<Rightarrow> thrown \<Rightarrow> pool \<Rightarrow> pool \<times> pool_hook list" where
  "committed_failure d nowMs aborted e err p =
     (if \<not> aborted \<and> isCredentialAccountFailure err (pd_credentialStatuses d) then parkCredentialFailedAccount e err p
      else if \<not> aborted \<and> isRetryableTransientError err then (coolRetryableAccount nowMs e p, [])
      else (p, []))"

definition relay_stream ::
  "pool_deps \<Rightarrow> stream_source pool_env \<Rightarrow> pool_request \<Rightarrow> nat \<Rightarrow> nat \<Rightarrow> string list \<Rightarrow> thrown option \<Rightarrow> pool \<Rightarrow> stream_answer" where
  "relay_stream d env rq n e chunks err p =
     (let src = ca_result (en_call env n e); started = en_now env n; firstAt = en_now env (n + 1); endAt = en_now env (n + 2);
          p1 = commit_stream_key d firstAt (rq_stickyKey rq) e p;
          taken = (case ss_stop src of None \<Rightarrow> chunks | Some k \<Rightarrow> take (Suc k) chunks);
          stopped = (case ss_stop src of None \<Rightarrow> False | Some k \<Rightarrow> k < length chunks) in
      case relay_chunks d src e 0 taken [] ([], None) p1 of ((_, tokens), p2) \<Rightarrow>
        (let ans = (\<lambda>x p hs. \<lparr>sw_chunks = taken, sw_end = x, sw_pool = p, sw_opened = [e], sw_slept = [], sw_hooks = hs\<rparr>) in
         if stopped then ans Stream_stopped p2 []
         else
           (case err of
              None \<Rightarrow>
                ans Stream_done
                  (if pd_strategy d = Fastest \<and> chunks \<noteq> [] \<and> \<not> ss_aborted_end src
                   then record_speed d endAt e (rq_model rq) started firstAt tokens p2 else p2) []
            | Some x \<Rightarrow>
                (case committed_failure d endAt (ss_aborted_end src) e x p2 of (p3, hs) \<Rightarrow> ans (Stream_threw x) p3 hs))))"

subsection \<open>Before output: retry or give up\<close>

definition invalid_previous_message :: string where
  "invalid_previous_message = ''Invalid '' @ [CHR 0x60] @ ''previous_response_id'' @ [CHR 0x60] @ ''.''"

definition isInvalidPreviousResponseIdFailure :: "string option \<Rightarrow> thrown \<Rightarrow> bool" where
  "isInvalidPreviousResponseIdFailure stickyKey err =
     (key_has_prefix ''previous_response_id:'' stickyKey \<and> upstreamStatusOf err = Some 400 \<and>
      th_message err = Some invalid_previous_message \<and>
      opt_prop ''type'' (record_of (opt_prop ''error'' (record_of (Option.bind (upstream_of err) uf_providerRaw)))) =
        Some (JStr ''invalid_request_error''))"

datatype stream_step =
    Stream_over "string list" stream_end pool "nat list" "ms list" "pool_hook list"
  | Stream_again nat nat "string list" retry_budget pool "ms list" "pool_hook list"

text \<open>The failures that say something about the account: whether a sibling may be tried, and the account's state.\<close>

definition stream_account_failure ::
  "pool_deps \<Rightarrow> ms \<Rightarrow> string option \<Rightarrow> nat \<Rightarrow> thrown \<Rightarrow> pool \<Rightarrow> bool \<times> pool \<times> pool_hook list" where
  "stream_account_failure d nowMs model e err p =
     (if pd_shouldRetryAccountError d err then (True, p, [])
      else if isRetryableAccountFailure err then (True, coolRetryableAccount nowMs e p, [])
      else if isCredentialAccountFailure err (pd_credentialStatuses d)
      then (case parkCredentialFailedAccount e err p of (p', hs) \<Rightarrow> (True, p', hs))
      else if isRateLimitAccountFailure err
      then (case parkRateLimitedAccount d nowMs e err model p of (p', hs) \<Rightarrow> (True, p', hs))
      else if isAccountBackpressureFailure err then (True, p, [])
      else (isRetryableTransientError err, p, []))"

definition next_sibling ::
  "pool_deps \<Rightarrow> stream_source pool_env \<Rightarrow> pool_request \<Rightarrow> nat \<Rightarrow> string list \<Rightarrow> thrown \<Rightarrow> retry_budget \<Rightarrow> pool \<Rightarrow> nat \<Rightarrow> ms list
     \<Rightarrow> pool_hook list \<Rightarrow> stream_step" where
  "next_sibling d env rq n tried err b p e sl hs =
     (case select d (en_probe env n) (en_now env n) (rq_stickyKey rq) tried (rq_avoidBusy rq) (rq_model rq) p of
        (Inl x, p') \<Rightarrow> Stream_over [] (Stream_threw err) p' [e] sl hs
      | (Inr (e', s), p') \<Rightarrow> Stream_again n e' (account_at p' e' # tried) b p' sl hs)"

definition stream_capacity ::
  "pool_deps \<Rightarrow> stream_source pool_env \<Rightarrow> pool_request \<Rightarrow> nat \<Rightarrow> string list \<Rightarrow> thrown \<Rightarrow> upstream_fields \<Rightarrow> retry_budget \<Rightarrow> pool
     \<Rightarrow> nat \<Rightarrow> stream_step" where
  "stream_capacity d env rq n tried err u b p e =
     (let w = en_wait env n; n' = n + 1; p1 = apply_ops d (wa_others w) p in
      case waitForCodexCapacityRetry (pd_showNat d) err u b (wa_aborted_entry w) (wa_aborted_after w) of
        (Some None, ds, b') \<Rightarrow> Stream_over [] (Stream_threw (en_abort_reason env)) p1 [e] ds []
      | (Some (Some x), ds, b') \<Rightarrow> Stream_over [] (Stream_threw x) p1 [e] ds []
      | (None, ds, b') \<Rightarrow>
          (case still_eligible d (en_now env n') (rq_model rq) e p1 of (ok, p2) \<Rightarrow>
             if ok then Stream_again n' e tried b' p2 ds []
             else Stream_over [] (Stream_threw (CodexCapacityRetryExhaustedError (pd_showNat d) err u (rb_attempt b' - 1) True))
                    p2 [e] ds []))"

definition stream_overload ::
  "pool_deps \<Rightarrow> stream_source pool_env \<Rightarrow> pool_request \<Rightarrow> nat \<Rightarrow> string list \<Rightarrow> thrown \<Rightarrow> retry_budget \<Rightarrow> pool \<Rightarrow> nat \<Rightarrow> stream_step" where
  "stream_overload d env rq n tried err b p e =
     (let w = en_wait env n; n' = n + 1; p1 = apply_ops d (wa_others w) p in
      case waitForOverloadRetry b None None (wa_aborted_entry w) (wa_aborted_after w) of
        (Wait_aborted, ds, _, b') \<Rightarrow> Stream_over [] (Stream_threw (en_abort_reason env)) p1 [e] ds []
      | (Wait_no_budget, ds, _, b') \<Rightarrow> Stream_over [] (Stream_threw err) p1 [e] ds []
      | (Wait_done, ds, _, b') \<Rightarrow>
          (case still_eligible d (en_now env n') (rq_model rq) e p1 of (ok, p2) \<Rightarrow>
             if ok then Stream_again n' e tried b' p2 ds []
             else next_sibling d env rq n' tried err b' p2 e ds []))"

text \<open>The catch block.\<close>

definition stream_catch ::
  "pool_deps \<Rightarrow> stream_source pool_env \<Rightarrow> pool_request \<Rightarrow> nat \<Rightarrow> string list \<Rightarrow> bool \<Rightarrow> thrown \<Rightarrow> retry_budget \<Rightarrow> pool \<Rightarrow> nat \<Rightarrow> stream_step" where
  "stream_catch d env rq n tried aborted err b p e =
     (let stateful = isStrictAccountSticky (rq_stickyKey rq) in
      if aborted then Stream_over [] (Stream_threw (en_abort_reason env)) p [e] [] []
      else
        (case capacity_rejected d err of
           Some u \<Rightarrow> stream_capacity d env rq n tried err u b p e
         | None \<Rightarrow>
             if isCodexCapacityExhausted err \<or> budget_exhausted b then Stream_over [] (Stream_threw err) p [e] [] []
             else if isInBandOverload err \<and> \<not> stateful then stream_overload d env rq n tried err b p e
             else
               (case stream_account_failure d (en_now env n) (rq_model rq) e err p of (sibling, p1, hs) \<Rightarrow>
                  if \<not> sibling \<or> stateful \<and> \<not> isInvalidPreviousResponseIdFailure (rq_stickyKey rq) err
                  then Stream_over [] (Stream_threw err) p1 [e] [] hs
                  else next_sibling d env rq n tried err b p1 e [] hs)))"

definition stream_attempt ::
  "pool_deps \<Rightarrow> stream_source pool_env \<Rightarrow> pool_request \<Rightarrow> classifier option \<Rightarrow> nat \<Rightarrow> nat \<Rightarrow> string list \<Rightarrow> retry_budget \<Rightarrow> pool \<Rightarrow> stream_step" where
  "stream_attempt d env rq k n e tried b p =
     (let a = en_call env n e; src = ca_result a; b1 = client_budget a b; p1 = after_call d (en_now env (n + 1)) e a p in
      case stream_open d (en_abort_reason env) k src of
        Inl err \<Rightarrow> stream_catch d env rq (n + 1) tried (ss_aborted_open src \<or> ss_aborted_catch src) err b1 p1 e
      | Inr (chunks, err) \<Rightarrow>
          let ans = relay_stream d env rq n e chunks err p1 in
          Stream_over (sw_chunks ans) (sw_end ans) (sw_pool ans) (sw_opened ans) (sw_slept ans) (sw_hooks ans))"

subsection \<open>The loop\<close>

lemma next_sibling_again:
  assumes "next_sibling d env rq n tried err b p e sl hs = Stream_again n' e' tried' b' p' sl' hs'"
  shows "untried p' tried' < untried p tried \<and> b' = b"
proof -
  obtain s where "select d (en_probe env n) (en_now env n) (rq_stickyKey rq) tried (rq_avoidBusy rq) (rq_model rq) p = (Inr (e', s), p')"
    "tried' = account_at p' e' # tried" "b' = b"
    using assms by (auto simp: next_sibling_def split: prod.splits sum.splits)
  then show ?thesis using select_less by blast
qed

lemma untried_kept: "pool_kept p q \<Longrightarrow> untried q tried = untried p tried"
  by (simp add: untried_def pool_kept_accounts)

lemma overload_wait_grows:
  "waitForOverloadRetry b None None x y = (Wait_done, ds, evs, b') \<Longrightarrow> rb_attempt b' = Suc (rb_attempt b) \<and> rb_attempt b < 3"
  using wait_grows [of b None None x y ds evs b'] by (simp add: OVERLOAD_BACKOFF_MS_def)

lemma stream_account_failure_kept: "stream_account_failure d now model e err p = (go, p', hs) \<Longrightarrow> pool_kept p p'"
  using op_kept [of p d "Op_cool now e"] op_kept [of p d "Op_park_credential e err"] op_kept [of p d "Op_park_rate now e err model"]
  by (auto simp: stream_account_failure_def split: if_splits prod.splits)

text \<open>A retry either takes an account not tried yet, or repeats with the same accounts tried and a wait charged to the budget.\<close>

definition stream_progress :: "pool \<Rightarrow> string list \<Rightarrow> retry_budget \<Rightarrow> pool \<Rightarrow> string list \<Rightarrow> retry_budget \<Rightarrow> bool" where
  "stream_progress p tried b p' tried' b' \<longleftrightarrow>
     untried p' tried' < untried p tried \<or>
     untried p' tried' = untried p tried \<and> rb_attempt b < rb_attempt b' \<and> rb_attempt b < 3"

lemma stream_catch_again:
  assumes "stream_catch d env rq n tried aborted err b p e = Stream_again n' e' tried' b' p' sl hs"
  shows "stream_progress p tried b p' tried' b'"
proof -
  have same: "untried q tried = untried p tried" if "still_eligible d t m x (apply_ops d ops p) = (ok, q)" for t m x ops ok q
    using pool_kept_trans [OF ops_kept still_eligible_kept [OF that]] by (rule untried_kept)
  have other: "untried q tried = untried p tried" if "stream_account_failure d t m e err p = (go, q, hs)" for t m go q hs
    using stream_account_failure_kept [OF that] by (rule untried_kept)
  consider (capacity) u where "stream_capacity d env rq n tried err u b p e = Stream_again n' e' tried' b' p' sl hs"
    | (overload) "stream_overload d env rq n tried err b p e = Stream_again n' e' tried' b' p' sl hs"
    | (sibling) q where "untried q tried = untried p tried" "next_sibling d env rq n tried err b q e [] hs = Stream_again n' e' tried' b' p' sl hs"
    using assms unfolding stream_catch_def Let_def
    by (auto split: if_splits option.splits prod.splits dest: other simp: next_sibling_def split: sum.splits)
  then show ?thesis
  proof cases
    case capacity
    then show ?thesis
      unfolding stream_capacity_def Let_def stream_progress_def
      by (auto split: prod.splits option.splits if_splits dest!: capacity_wait_grows same)
  next
    case overload
    then show ?thesis
      unfolding stream_overload_def Let_def stream_progress_def
      by (auto split: prod.splits wait_result.splits if_splits dest!: overload_wait_grows same next_sibling_again)
  next
    case sibling
    then show ?thesis using next_sibling_again by (fastforce simp: stream_progress_def)
  qed
qed

lemma stream_attempt_again:
  assumes "stream_attempt d env rq k n e tried b p = Stream_again n' e' tried' b' p' sl hs"
  shows "stream_progress p tried b p' tried' b'"
proof -
  obtain err where "stream_catch d env rq (n + 1) tried (ss_aborted_open (ca_result (en_call env n e)) \<or> ss_aborted_catch (ca_result (en_call env n e)))
      err (client_budget (en_call env n e) b) (after_call d (en_now env (n + 1)) e (en_call env n e) p) e = Stream_again n' e' tried' b' p' sl hs"
    using assms by (auto simp: stream_attempt_def Let_def split: sum.splits prod.splits)
  from stream_catch_again [OF this] show ?thesis
    by (auto simp: stream_progress_def client_budget_def untried_kept [OF after_call_kept])
qed

function stream_loop ::
  "pool_deps \<Rightarrow> stream_source pool_env \<Rightarrow> pool_request \<Rightarrow> classifier option \<Rightarrow> nat \<Rightarrow> nat \<Rightarrow> string list \<Rightarrow> retry_budget \<Rightarrow> pool \<Rightarrow> stream_answer" where
  "stream_loop d env rq k n e tried b p =
     (case stream_attempt d env rq k n e tried b p of
        Stream_over chunks x p' opened sl hs \<Rightarrow>
          \<lparr>sw_chunks = chunks, sw_end = x, sw_pool = p', sw_opened = opened, sw_slept = sl, sw_hooks = hs\<rparr>
      | Stream_again n' e' tried' b' p' sl hs \<Rightarrow>
          let ans = stream_loop d env rq k n' e' tried' b' p' in
          ans\<lparr>sw_opened := e # sw_opened ans, sw_slept := sl @ sw_slept ans, sw_hooks := hs @ sw_hooks ans\<rparr>)"
  by pat_completeness auto
termination
  by (relation "measures [\<lambda>(d, env, rq, k, n, e, tried, b, p). untried p tried,
      \<lambda>(d, env, rq, k, n, e, tried, b, p). 3 - rb_attempt b]")
    (auto simp: stream_progress_def dest!: stream_attempt_again)

declare stream_loop.simps [simp del]

definition streamWithRetry ::
  "pool_deps \<Rightarrow> stream_source pool_env \<Rightarrow> pool_request \<Rightarrow> classifier option \<Rightarrow> string list \<Rightarrow> nat \<Rightarrow> nat \<Rightarrow> pool \<Rightarrow> stream_answer" where
  "streamWithRetry d env rq k excluded n first p =
     stream_loop d env rq k n first (account_at p first # excluded) (nullish (rq_budget rq) fresh_budget) p"

subsection \<open>The client methods\<close>

text \<open>
  A streaming method selects its first account on the call itself. A continuation whose account comes back within the
  wait limit is selected once more after that wait.
\<close>

definition refused_stream :: "thrown \<Rightarrow> ms list \<Rightarrow> pool \<Rightarrow> stream_answer" where
  "refused_stream err sl p =
     \<lparr>sw_chunks = [], sw_end = Stream_threw err, sw_pool = p, sw_opened = [], sw_slept = sl, sw_hooks = []\<rparr>"

definition pool_stream ::
  "pool_deps \<Rightarrow> stream_source pool_env \<Rightarrow> pool_request \<Rightarrow> classifier option \<Rightarrow> string list \<Rightarrow> pool \<Rightarrow> stream_answer" where
  "pool_stream d env rq k excluded p =
     (let pick = (\<lambda>n p. select d (en_probe env n) (en_now env n) (rq_stickyKey rq) excluded (rq_avoidBusy rq) (rq_model rq) p) in
      case pick 0 p of
        (Inr (e, s), p1) \<Rightarrow> streamWithRetry d env rq k excluded 0 e p1
      | (Inl err, p1) \<Rightarrow>
          (case stickyAccountWaitMs err of
             None \<Rightarrow> refused_stream err [] p1
           | Some ms \<Rightarrow>
               let w = en_wait env 0; p2 = apply_ops d (wa_others w) p1 in
               if wa_aborted_after w then refused_stream (en_abort_reason env) [ms] p2
               else
                 (case pick 1 p2 of
                    (Inl err', p3) \<Rightarrow> refused_stream err' [ms] p3
                  | (Inr (e, s), p3) \<Rightarrow>
                      let ans = streamWithRetry d env rq k excluded 1 e p3 in ans\<lparr>sw_slept := ms # sw_slept ans\<rparr>)))"

definition method_request :: "string option \<Rightarrow> json \<Rightarrow> int list \<Rightarrow> retry_budget option \<Rightarrow> pool_request" where
  "method_request stickyKey body statuses budget =
     \<lparr>rq_stickyKey = stickyKey, rq_model = modelFromBody body, rq_avoidBusy = isUserMessageRequest body,
      rq_statuses = statuses, rq_forbidden = False, rq_budget = budget\<rparr>"

definition refused :: "thrown \<Rightarrow> pool \<Rightarrow> (thrown + json) pool_answer" where
  "refused err p = \<lparr>pa_result = Inl err, pa_pool = p, pa_calls = [], pa_slept = [], pa_hooks = []\<rparr>"

definition pool_chatCompletion ::
  "(json \<Rightarrow> string option) \<Rightarrow> pool_deps \<Rightarrow> (thrown + json) pool_env \<Rightarrow> string option \<Rightarrow> retry_budget option \<Rightarrow> json \<Rightarrow> pool \<Rightarrow> (thrown + json) pool_answer" where
  "pool_chatCompletion uuid d env statefulAccount budget req p =
     (case stickyKeyFromChat uuid d req of
        Inl err \<Rightarrow> refused err p
      | Inr key \<Rightarrow>
          completeWithRetry d env (method_request key req (pd_credentialStatuses d) (Some (nullish budget fresh_budget))) []
            (restorePersistedAffinity d (en_now env 0) key statefulAccount p))"

definition pool_chatCompletionStream ::
  "(json \<Rightarrow> string option) \<Rightarrow> pool_deps \<Rightarrow> stream_source pool_env \<Rightarrow> classifier option \<Rightarrow> string option \<Rightarrow> retry_budget option \<Rightarrow> json \<Rightarrow> pool \<Rightarrow> stream_answer" where
  "pool_chatCompletionStream uuid d env k statefulAccount budget req p =
     (case stickyKeyFromChat uuid d req of
        Inl err \<Rightarrow> refused_stream err [] p
      | Inr key \<Rightarrow>
          pool_stream d env (method_request key req (pd_credentialStatuses d) (Some (nullish budget fresh_budget))) k []
            (restorePersistedAffinity d (en_now env 0) key statefulAccount p))"

text \<open>
  A turn state whose account may not serve is dropped from the request when the request carries its whole history: the
  old account stays excluded for this request.
\<close>

record recovery =
  rc_input :: native_input
  rc_reset :: bool
  rc_excluded :: "string list"

definition drop_turn_state :: "carrier \<Rightarrow> carrier" where
  "drop_turn_state c =
     c\<lparr>nc_headers := filter (\<lambda>(k, v). toLowerCase k \<noteq> ''x-codex-turn-state'') (nc_headers c),
       nc_headers_dropped := sort (remdups (nc_headers_dropped c @ [''x-codex-turn-state''])),
       nc_turn_state_recovered := True\<rparr>"

definition may_recover :: "(json \<Rightarrow> string option) \<Rightarrow> pool_deps \<Rightarrow> string option \<Rightarrow> native_input \<Rightarrow> (carrier \<times> string) option" where
  "may_recover uuid d statefulAccount input =
     (case ni_carrier input of
        None \<Rightarrow> None
      | Some c \<Rightarrow>
          if pd_profile d \<noteq> Some Profile_codex_responses \<or> nc_protocol c \<noteq> ''openai_responses'' \<or>
             nullish statefulAccount [] \<noteq> [] \<or>
             headerValue (nc_headers c) CODEX_RESPONSES_WEBSOCKET_SESSION_HEADER \<noteq> None \<or>
             \<not> hasStandaloneCodexHistory (pd_showNum d) (ni_body input)
          then None
          else
            (case stickyKeyFromNative uuid d input of
               Inr (Some key) \<Rightarrow> if startsWith ''x-codex-turn-state:'' key then Some (c, key) else None
             | _ \<Rightarrow> None))"

definition recoverNativeTurnState ::
  "(json \<Rightarrow> string option) \<Rightarrow> pool_deps \<Rightarrow> ms \<Rightarrow> string option \<Rightarrow> native_input \<Rightarrow> pool \<Rightarrow> recovery \<times> pool" where
  "recoverNativeTurnState uuid d nowMs statefulAccount input p =
     (let unchanged = \<lparr>rc_input = input, rc_reset = False, rc_excluded = []\<rparr> in
      case may_recover uuid d statefulAccount input of
        None \<Rightarrow> (unchanged, p)
      | Some (c, key) \<Rightarrow>
          (case live_binding p nowMs (Some key) of
             None \<Rightarrow> (unchanged, p)
           | Some account \<Rightarrow>
               (case eligibleEntries nowMs [] (modelFromBody (ni_body input)) p of (es, p') \<Rightarrow>
                  if account \<in> account_at p' ` set es \<or> es = [] then (unchanged, p')
                  else (\<lparr>rc_input = input\<lparr>ni_carrier := Some (drop_turn_state c)\<rparr>, rc_reset = True, rc_excluded = [account]\<rparr>, p'))))"

definition pool_nativePassthrough ::
  "(json \<Rightarrow> string option) \<Rightarrow> pool_deps \<Rightarrow> (thrown + json) pool_env \<Rightarrow> string option \<Rightarrow> retry_budget option \<Rightarrow> native_input \<Rightarrow> pool \<Rightarrow> (thrown + json) pool_answer" where
  "pool_nativePassthrough uuid d env statefulAccount budget input p =
     (case recoverNativeTurnState uuid d (en_now env 0) statefulAccount input p of (rc, p1) \<Rightarrow>
        (case stickyKeyFromNative uuid d (rc_input rc) of
           Inl err \<Rightarrow> refused err p1
         | Inr key \<Rightarrow>
             completeWithRetry d env
               (method_request key (ni_body (rc_input rc)) (pd_credentialStatuses d) (Some (nullish budget fresh_budget)))
               (rc_excluded rc) (restorePersistedAffinity d (en_now env 0) key statefulAccount p1)))"

definition pool_nativePassthroughStream ::
  "(json \<Rightarrow> string option) \<Rightarrow> pool_deps \<Rightarrow> stream_source pool_env \<Rightarrow> classifier option \<Rightarrow> string option \<Rightarrow> retry_budget option \<Rightarrow> native_input \<Rightarrow> pool \<Rightarrow> stream_answer" where
  "pool_nativePassthroughStream uuid d env k statefulAccount budget input p =
     (case recoverNativeTurnState uuid d (en_now env 0) statefulAccount input p of (rc, p1) \<Rightarrow>
        (case stickyKeyFromNative uuid d (rc_input rc) of
           Inl err \<Rightarrow> refused_stream err [] p1
         | Inr key \<Rightarrow>
             pool_stream d env
               (method_request key (ni_body (rc_input rc)) (pd_credentialStatuses d) (Some (nullish budget fresh_budget)))
               k (rc_excluded rc) (restorePersistedAffinity d (en_now env 0) key statefulAccount p1)))"

text \<open>\<open>responsesCompact\<close>, the lifecycle reads and \<open>realtimeCall\<close> hand no budget and no signal on.\<close>

definition pool_responsesCompact ::
  "(json \<Rightarrow> string option) \<Rightarrow> pool_deps \<Rightarrow> (thrown + json) pool_env \<Rightarrow> string option \<Rightarrow> native_input \<Rightarrow> pool \<Rightarrow> (thrown + json) pool_answer" where
  "pool_responsesCompact uuid d env statefulAccount input p =
     (case stickyKeyFromNative uuid d input of
        Inl err \<Rightarrow> refused err p
      | Inr key \<Rightarrow>
          completeWithRetry d env (method_request key (ni_body input) (pd_credentialStatuses d) None) []
            (restorePersistedAffinity d (en_now env 0) key statefulAccount p))"

definition keyed_request :: "pool_deps \<Rightarrow> string option \<Rightarrow> pool_request" where
  "keyed_request d stickyKey =
     \<lparr>rq_stickyKey = stickyKey, rq_model = None, rq_avoidBusy = False, rq_statuses = pd_credentialStatuses d,
      rq_forbidden = False, rq_budget = None\<rparr>"

definition truthy_account :: "string option \<Rightarrow> string option" where
  "truthy_account a = (if a = Some [] then None else a)"

text \<open>\<open>responsesRetrieve\<close> and \<open>responsesInputItems\<close>: only the account that owns the response may be asked.\<close>

definition pool_responsesLifecycle ::
  "pool_deps \<Rightarrow> (thrown + json) pool_env \<Rightarrow> string option \<Rightarrow> string option \<Rightarrow> pool \<Rightarrow> (thrown + json) pool_answer" where
  "pool_responsesLifecycle d env providerAccount statefulAccount p =
     (case truthy_account (or_else providerAccount statefulAccount) of
        None \<Rightarrow>
          refused (UpstreamError Upstream_error ''Responses lifecycle requires the owning provider account'' None (Some 400) No_object) p
      | Some account \<Rightarrow>
          let key = Some (''provider_account:'' @ account) in
          completeWithRetry d env (keyed_request d key) [] (restorePersistedAffinity d (en_now env 0) key (Some account) p))"

definition pool_videoRetrieve ::
  "pool_deps \<Rightarrow> (thrown + json) pool_env \<Rightarrow> string option \<Rightarrow> string option \<Rightarrow> pool \<Rightarrow> (thrown + json) pool_answer" where
  "pool_videoRetrieve d env providerAccount statefulAccount p =
     (let account = or_else providerAccount statefulAccount;
          key = map_option (\<lambda>a. ''provider_account:'' @ a) (truthy_account account) in
      completeWithRetry d env (keyed_request d key) [] (restorePersistedAffinity d (en_now env 0) key account p))"

definition pool_realtimeCall :: "pool_deps \<Rightarrow> (thrown + json) pool_env \<Rightarrow> pool \<Rightarrow> (thrown + json) pool_answer" where
  "pool_realtimeCall d env p =
     completeWithRetry d env
       \<lparr>rq_stickyKey = None, rq_model = None, rq_avoidBusy = False, rq_statuses = [401], rq_forbidden = True, rq_budget = None\<rparr> [] p"

text \<open>The sideband of a realtime call: a rejected credential parks the account that serves it.\<close>

definition sideband_headers_failure :: "nat \<Rightarrow> thrown \<Rightarrow> pool \<Rightarrow> pool \<times> pool_hook list" where
  "sideband_headers_failure e err p = (if isCredentialAccountFailure err [401] then parkCredentialFailedAccount e err p else (p, []))"

definition sideband_status_failure :: "nat \<Rightarrow> int \<Rightarrow> pool \<Rightarrow> pool \<times> pool_hook list" where
  "sideband_status_failure e status p =
     (if status = 401
      then parkCredentialFailedAccount e
             (UpstreamError Upstream_error ''realtime sideband authentication failed'' None (Some status) No_object) p
      else (p, []))"

text \<open>Paid writes (images, videos, speech): one account, one call, no second attempt.\<close>

definition pool_single_write ::
  "pool_deps \<Rightarrow> (thrown + json) pool_env \<Rightarrow> string option \<Rightarrow> pool \<Rightarrow> (thrown + json) pool_answer" where
  "pool_single_write d env model p =
     (case select d (en_probe env 0) (en_now env 0) None [] False model p of
        (Inl err, p1) \<Rightarrow> refused err p1
      | (Inr (e, s), p1) \<Rightarrow>
          \<lparr>pa_result = ca_result (en_call env 0 e), pa_pool = after_call d (en_now env 1) e (en_call env 0 e) p1,
           pa_calls = [e], pa_slept = [], pa_hooks = []\<rparr>)"

end
