(* ===== verification/Oauth_Selection.thy ===== *)
theory Oauth_Selection
  imports Oauth_Facts
begin

text \<open>
  The guarantees of one account selection, stated over the model of \<open>provider/oauth/pool.ts\<close>, and their instances on
  a pool of three accounts.
\<close>

subsection \<open>A concrete pool\<close>

definition demo_pool_deps :: pool_deps where
  "demo_pool_deps =
     \<lparr>pd_stickyTtlMs = 600000, pd_maxStickySessions = 5000, pd_cooldownMs = 60000, pd_strategy = Balanced,
      pd_rotateIndependent = False, pd_quotaFreshMs = 600000, pd_credentialStatuses = [401], pd_codexCapacityRetries = True,
      pd_profile = Some Profile_codex_responses, pd_resolveScope = (\<lambda>a m e. Some None), pd_shouldPark = (\<lambda>a m e. Some None),
      pd_shouldRetryAccountError = (\<lambda>e. False), pd_stickyScore = (\<lambda>k a. length a), pd_decay = (\<lambda>t. 1),
      pd_showNum = (\<lambda>n. []), pd_showNat = (\<lambda>n. [])\<rparr>"

definition demo_entry :: "string \<Rightarrow> int \<Rightarrow> pool_entry" where
  "demo_entry account priority =
     \<lparr>pe_account = account, pe_anthropicAccountUuid = None, pe_priority = priority, pe_schedulable = True, pe_models = None,
      pe_modelValidUntilMs = [], pe_usageLimitedUntilMs = None, pe_allowSpendRemainingCredits = False, pe_quotaWindows = [],
      pe_quotaCapturedAtMs = None, pe_quotaResetCredits = None, pe_lastUsedAt = 0\<rparr>"

definition demo_pool :: pool where
  "demo_pool =
     \<lparr>pl_entries = [demo_entry ''a'' 2, demo_entry ''bb'' 1, demo_entry ''c'' 1], pl_sticky = [(''x-codex-turn-state:t'', (''a'', 5000))],
      pl_scoped = [], pl_retryable = Map.empty, pl_reported = [], pl_counter = 0, pl_speed = [], pl_speedTurns = []\<rparr>"

lemmas pool_demo = demo_pool_deps_def demo_entry_def demo_pool_def

lemma demo_inv: "pool_inv demo_pool"
  by (simp add: pool_inv_def pool_demo speeds_ok_def)

abbreviation no_probe :: "string \<Rightarrow> capacity_probe" where
  "no_probe \<equiv> \<lambda>a. No_probe"

lemma demo_select:
  "map_sum id fst (fst (select demo_pool_deps no_probe 1000 (Some ''x-codex-turn-state:t'') [] False None demo_pool)) = Inr 0"
  "map_sum id fst (fst (select demo_pool_deps no_probe 1000 None [''bb''] False None demo_pool)) = Inr 2"
  by code_simp+

subsection \<open>Soundness\<close>

text \<open>
  C10. Whatever the strategy, the sticky sessions and the probes, the account a selection returns is one the operator
  has not parked, that supports the model now, is under no usage, transient or model cooldown that is still running,
  was not tried by this request, and matches the account a Claude client asserts.
\<close>

theorem selected_account_eligible:
  "case fst (select d probe now key exclude busy model p) of
     Inl err \<Rightarrow> True
   | Inr (e, s) \<Rightarrow>
       e < length (pl_entries p) \<and> pe_schedulable (ent p e) \<and> supportsModel (ent p e) model now \<and>
       \<not> usageLimited (ent p e) now \<and> \<not> cooling p now (account_at p e) \<and>
       model_limit p now (account_at p e) model = None \<and> account_at p e \<notin> set exclude \<and>
       identity_matches (asserted_account key) (ent p e)"
proof (cases "fst (select d probe now key exclude busy model p)")
  case (Inr es)
  obtain e s where es: "es = (e, s)" by (cases es)
  with Inr have "select d probe now key exclude busy model p = (Inr (e, s), snd (select d probe now key exclude busy model p))"
    by (metis prod.collapse)
  from select_choice [OF this] Inr es show ?thesis
    by (simp add: pool_choices_iff gates_open_def)
qed simp

text \<open>
  C11. A stateful continuation is never diverted: when its key is bound to an account by a session that has not
  expired, the selection returns that very account, or, when that account may not serve, fails with the error that
  says nothing was sent. It serves exactly when the account itself may serve.
\<close>

theorem continuation_pinned:
  assumes "isStrictAccountSticky key" "live_binding p now key = Some a"
    "fst (select d probe now key exclude busy model p) = r"
  shows "case r of
      Inr (e, s) \<Rightarrow> e \<in> set (pool_choices p now exclude model key) \<and> account_at p e = a
    | Inl err \<Rightarrow> (err = AnthropicIdentityError identity_mismatch_message \<or> affinity_unavailable err) \<and>
        Some a \<notin> (\<lambda>i. Some (account_at p i)) ` set (pool_choices p now exclude model key)"
  using select_result_fst [of d probe now key exclude busy model p] assms
  by (auto simp: select_outcome_def split: sum.splits)

theorem continuation_pinned_witness:
  "case fst (select demo_pool_deps no_probe 1000 (Some ''x-codex-turn-state:t'') [] False None demo_pool) of
      Inr (e, s) \<Rightarrow> e \<in> set (pool_choices demo_pool 1000 [] None (Some ''x-codex-turn-state:t'')) \<and> account_at demo_pool e = ''a''
    | Inl err \<Rightarrow> (err = AnthropicIdentityError identity_mismatch_message \<or> affinity_unavailable err) \<and>
        Some ''a'' \<notin> (\<lambda>i. Some (account_at demo_pool i)) ` set (pool_choices demo_pool 1000 [] None (Some ''x-codex-turn-state:t''))"
  by (rule continuation_pinned [OF _ _ refl])
    (simp_all add: isStrictAccountSticky_def startsWith_def live_binding_def pool_demo)

text \<open>The pool that \<open>createOAuthPoolClient\<close> starts with, and what it is after any sequence of operations.\<close>

definition createOAuthPoolClient :: "pool_entry list \<Rightarrow> pool" where
  "createOAuthPoolClient members =
     \<lparr>pl_entries = map (\<lambda>m. m\<lparr>pe_lastUsedAt := 0\<rparr>) members, pl_sticky = [], pl_scoped = [], pl_retryable = Map.empty,
      pl_reported = [], pl_counter = 0, pl_speed = [], pl_speedTurns = []\<rparr>"

lemma created_inv: "pool_inv (createOAuthPoolClient members)"
  by (simp add: pool_inv_def createOAuthPoolClient_def speeds_ok_def)

text \<open>
  C37. The pool refuses a request for no other reason than that nobody may serve it: in every state that a pool reaches
  from its creation by any sequence of operations, parks, cooldowns, recoveries, measurements and settings, a request
  that no continuation pins is refused exactly when every account is closed by one of its own gates (disabled,
  without the model, parked, cooling or limited for the model) or was already tried; and the accounts asked are
  the members the pool was created with. (The decay \<open>2 ** x\<close> of the measurements is not negative.)
\<close>

theorem selection_exact_failure:
  assumes "p = apply_ops d ops (createOAuthPoolClient members)" "\<And>t. 0 \<le> pd_decay d t" "\<not> isStrictAccountSticky key"
  shows "isl (fst (select d probe now key exclude busy model p)) =
     (\<forall>m \<in> set (pl_entries p). \<not> (gates_open p now model m \<and> pe_account m \<notin> set exclude)) \<and>
     accounts p = map pe_account members"
proof -
  let ?r = "fst (select d probe now key exclude busy model p)"
  have none: "asserted_account key = None"
    using assms(3) by (auto simp: asserted_account_def isStrictAccountSticky_def split: option.splits)
  have "\<not> key_has_prefix ''previous_response_id:'' key" using assms(3) prefix_strict by blast
  moreover have "speeds_ok (pl_speed p)" using ops_inv [OF created_inv assms(2)] assms(1) by (simp add: pool_inv_def)
  ultimately have "isl ?r = (pool_choices p now exclude model key = [])"
    using select_result_fst [of d probe now key exclude busy model p] assms(3) none
      pool_candidates_sub [of probe p now exclude busy model key]
    by (cases ?r) (auto simp: select_outcome_def)
  moreover have "(pool_choices p now exclude model key = []) =
      (\<forall>m \<in> set (pl_entries p). \<not> (gates_open p now model m \<and> pe_account m \<notin> set exclude))"
    by (auto simp: pool_choices_def none identity_matches_def eligible_def filter_empty_conv all_set_conv_all_nth)
  moreover have "accounts p = map pe_account members"
    using pool_kept_accounts [OF ops_kept] assms(1) by (simp add: createOAuthPoolClient_def accounts_def comp_def)
  ultimately show ?thesis by simp
qed

theorem selection_exact_failure_witness:
  "let p = apply_ops demo_pool_deps [Op_cool 5 0, Op_disable ''c''] (createOAuthPoolClient [demo_entry ''a'' 2, demo_entry ''c'' 1]) in
     isl (fst (select demo_pool_deps no_probe 1000 None [] False None p)) =
       (\<forall>m \<in> set (pl_entries p). \<not> (gates_open p 1000 None m \<and> pe_account m \<notin> set [])) \<and> accounts p = [''a'', ''c'']"
  unfolding Let_def
  using selection_exact_failure [OF refl, of demo_pool_deps None no_probe 1000 "[]" False None "[Op_cool 5 0, Op_disable ''c'']"
      "[demo_entry ''a'' 2, demo_entry ''c'' 1]"]
  by (simp add: demo_pool_deps_def isStrictAccountSticky_def demo_entry_def)

text \<open>
  The order of preference: for a request that no session binds, whatever the strategy, an account that would spend
  paid credits is taken only if every account that may serve would; a busy one only if every account of that tier is
  busy; and the one taken has the lowest priority number of those that remain.
\<close>

theorem selection_order:
  assumes "fst (select d probe now key exclude busy model p) = Inr (e, s)" "live_binding p now key = None"
  shows "(spendingWhileLimited (ent p e) now \<longrightarrow>
       (\<forall>i \<in> set (pool_choices p now exclude model key). spendingWhileLimited (ent p i) now)) \<and>
     (busy \<and> atCapacity probe p e \<longrightarrow>
       (\<forall>i \<in> set (preferHealthyTier p (pool_choices p now exclude model key) now). atCapacity probe p i)) \<and>
     (\<forall>i \<in> set (pool_candidates probe p now exclude busy model key). pe_priority (ent p e) \<le> pe_priority (ent p i))"
proof -
  have e: "e \<in> set (preferredPriorityTier p (pool_candidates probe p now exclude busy model key))"
    using select_result_fst [of d probe now key exclude busy model p] assms by (auto simp: select_outcome_def split: if_splits)
  then have c: "e \<in> set (pool_candidates probe p now exclude busy model key)" by (simp add: tier_mem)
  then have h: "e \<in> set (preferHealthyTier p (pool_choices p now exclude model key) now)"
    unfolding pool_candidates_def using capacity_sub by blast
  have "busy \<Longrightarrow> atCapacity probe p e \<Longrightarrow>
      i \<in> set (preferHealthyTier p (pool_choices p now exclude model key) now) \<Longrightarrow> atCapacity probe p i" for i
    using capacity_busy [of e probe p _ i] c unfolding pool_candidates_def by auto
  with e preferHealthyTier_credit [OF h] show ?thesis by (auto simp: tier_mem)
qed

theorem selection_order_witness:
  "let e = 2 in
     (spendingWhileLimited (ent demo_pool e) 1000 \<longrightarrow>
       (\<forall>i \<in> set (pool_choices demo_pool 1000 [''bb''] None None). spendingWhileLimited (ent demo_pool i) 1000)) \<and>
     (False \<and> atCapacity no_probe demo_pool e \<longrightarrow>
       (\<forall>i \<in> set (preferHealthyTier demo_pool (pool_choices demo_pool 1000 [''bb''] None None) 1000). atCapacity no_probe demo_pool i)) \<and>
     (\<forall>i \<in> set (pool_candidates no_probe demo_pool 1000 [''bb''] False None None).
        pe_priority (ent demo_pool e) \<le> pe_priority (ent demo_pool i))"
proof -
  obtain s where "fst (select demo_pool_deps no_probe 1000 None [''bb''] False None demo_pool) = Inr (2, s)"
    using demo_select(2) by (cases "fst (select demo_pool_deps no_probe 1000 None [''bb''] False None demo_pool)") auto
  from selection_order [OF this] show ?thesis by (simp add: live_binding_def)
qed

subsection \<open>Over the pool's lifetime\<close>

text \<open>
  An account that was disabled, by an operator or because its credential was rejected, is never selected again,
  whatever the pool does afterwards: no operation enables an account.
\<close>

theorem disabled_account_never_selected:
  assumes "distinct (accounts p)"
  shows "case fst (select d probe now key exclude busy model (apply_ops d ops (disableAccount a p))) of
     Inl err \<Rightarrow> True
   | Inr (e, s) \<Rightarrow> account_at (apply_ops d ops (disableAccount a p)) e \<noteq> a"
proof (cases "fst (select d probe now key exclude busy model (apply_ops d ops (disableAccount a p)))")
  case (Inr es)
  let ?q = "disableAccount a p" and ?r = "apply_ops d ops (disableAccount a p)"
  obtain e s where es: "es = (e, s)" by (cases es)
  have sel: "select d probe now key exclude busy model ?r = (Inr (e, s), snd (select d probe now key exclude busy model ?r))"
    using Inr es by (metis prod.collapse)
  have e: "e < length (pl_entries ?r)" "pe_schedulable (ent ?r e)"
    using select_choice [OF sel] by (simp_all add: pool_choices_iff gates_open_def)
  have kept: "pool_kept ?q ?r" by (rule ops_kept)
  with e have q: "e < length (pl_entries ?q)" "pe_schedulable (ent ?q e)" "account_at ?q e = account_at ?r e"
    by (auto simp: pool_kept_def list_all2_conv_all_nth entry_kept_def)
  have "\<not> pe_schedulable (ent ?q e)" if "account_at ?q e = a"
  proof -
    have acc: "accounts ?q = accounts p" by (rule pool_kept_accounts [OF disable_kept])
    then have len: "e < length (pl_entries p)" using q(1) by (metis accounts_length)
    have "account_at p e = a" using that acc q(1) len by (metis accounts_nth)
    then have "find_account p a = Some e"
      using assms len unfolding find_account_def
      by (auto simp: find_Some_iff distinct_conv_nth accounts_def nth_append intro!: exI [of _ e])
    then show ?thesis using len by (simp add: disableAccount_def update_entry_def)
  qed
  with q Inr es show ?thesis by auto
qed simp

theorem disabled_account_never_selected_witness:
  "case fst (select demo_pool_deps no_probe 1000 None [] False None
      (apply_ops demo_pool_deps [Op_usage_limit ''bb'' None, Op_seed ''bb'' None] (disableAccount ''bb'' demo_pool))) of
     Inl err \<Rightarrow> True
   | Inr (e, s) \<Rightarrow>
       account_at (apply_ops demo_pool_deps [Op_usage_limit ''bb'' None, Op_seed ''bb'' None] (disableAccount ''bb'' demo_pool)) e \<noteq> ''bb''"
  by (rule disabled_account_never_selected) (simp add: accounts_def pool_demo)

text \<open>
  A rate limit only ever extends an account's park, and the account comes back by itself: at any time it passes the
  gates again exactly when it would without a park and the park has run out.
\<close>

theorem park_extends_and_expires:
  assumes "rateLimitScope d (account_at p e) err model = Account_scope" "e < length (pl_entries p)"
    "\<not> pe_allowSpendRemainingCredits (ent p e)" "fst (parkRateLimitedAccount d now e err model p) = p'"
  shows "\<exists>u. pe_usageLimitedUntilMs (ent p' e) = Some u \<and> now + cooldown_for d err \<le> u \<and>
     (\<forall>c. pe_usageLimitedUntilMs (ent p e) = Some c \<longrightarrow> c \<le> u) \<and>
     (\<forall>t mdl. gates_open p' t mdl (ent p' e) =
        (u \<le> t \<and> gates_open p t mdl ((ent p e)\<lparr>pe_usageLimitedUntilMs := None\<rparr>)))"
proof -
  let ?u = "later (pe_usageLimitedUntilMs (ent p e)) (now + cooldown_for d err)"
  have p': "p' = forgetStickyAccount (account_at p e) True (update_entry e (\<lambda>m. m\<lparr>pe_usageLimitedUntilMs := Some ?u\<rparr>) p)"
    using assms(1,4) by (simp add: parkRateLimitedAccount_def Let_def)
  have ent: "ent p' e = (ent p e)\<lparr>pe_usageLimitedUntilMs := Some ?u\<rparr>"
    using assms(2) by (simp add: p' update_entry_def)
  have "live_limits t p' = live_limits t p" "cooling p' t a = cooling p t a" for t a
    using assms(2) by (simp_all add: p' cooling_def live_limits_def forgetStickyAccount_def update_entry_def)
  then have same: "cooling p' t a = cooling p t a" "model_limit p' t a mdl = model_limit p t a mdl" for t a mdl
    by (simp_all only: model_limit_def)
  have "gates_open p' t mdl (ent p' e) =
      (?u \<le> t \<and> gates_open p t mdl ((ent p e)\<lparr>pe_usageLimitedUntilMs := None\<rparr>))" for t mdl
  proof -
    have "supportsModel (m\<lparr>pe_usageLimitedUntilMs := x\<rparr>) mdl t = supportsModel m mdl t" for m x
      unfolding supportsModel_def by (simp cong: option.case_cong)
    moreover have "usageLimited (m\<lparr>pe_usageLimitedUntilMs := Some ?u\<rparr>) t = (t < ?u)"
      "\<not> usageLimited (m\<lparr>pe_usageLimitedUntilMs := None\<rparr>) t" if "\<not> pe_allowSpendRemainingCredits m" for m
      using that by (simp_all add: usageLimited_def limited_at_def)
    ultimately show ?thesis
      unfolding ent gates_open_def using assms(3) same by (simp only:) (simp add: not_less conj_commute conj_left_commute)
  qed
  moreover have "now + cooldown_for d err \<le> ?u" "\<forall>c. pe_usageLimitedUntilMs (ent p e) = Some c \<longrightarrow> c \<le> ?u"
    by (auto simp: later_def split: option.split)
  ultimately show ?thesis by (intro exI [of _ ?u]) (simp add: ent)
qed

theorem park_extends_and_expires_witness:
  "let err = UpstreamError Upstream_error ''limit'' None (Some 429) No_object;
       p' = fst (parkRateLimitedAccount demo_pool_deps 1000 1 err None demo_pool) in
   \<exists>u. pe_usageLimitedUntilMs (ent p' 1) = Some u \<and> 1000 + cooldown_for demo_pool_deps err \<le> u \<and>
     (\<forall>c. pe_usageLimitedUntilMs (ent demo_pool 1) = Some c \<longrightarrow> c \<le> u) \<and>
     (\<forall>t mdl. gates_open p' t mdl (ent p' 1) =
        (u \<le> t \<and> gates_open demo_pool t mdl ((ent demo_pool 1)\<lparr>pe_usageLimitedUntilMs := None\<rparr>)))"
  unfolding Let_def
  by (rule park_extends_and_expires [OF _ _ _ refl]) (simp_all add: rateLimitScope_def pool_demo)

subsection \<open>A table without a bound\<close>

text \<open>
  \<open>rememberSticky\<close> prunes and evicts, but the binding of a response id is set without either: a pool whose requests
  carry no sticky key never runs \<open>rememberSticky\<close>, so each response with an id of its own leaves an entry behind.
\<close>

definition keyless_responses :: "pool_deps \<Rightarrow> (nat \<Rightarrow> ms) \<Rightarrow> nat \<Rightarrow> (nat \<Rightarrow> string) \<Rightarrow> nat \<Rightarrow> pool \<Rightarrow> pool" where
  "keyless_responses d now e ids n p = fold (\<lambda>i p. rememberResponseIdAffinity d (now i) e (ids i) p) [0..<n] p"

lemma keyless_affinity_grows:
  "''previous_response_id:'' @ rid \<notin> fst ` set (pl_sticky p) \<Longrightarrow>
     length (pl_sticky (rememberResponseIdAffinity d now e rid p)) = Suc (length (pl_sticky p))"
proof -
  have "length (AList.update k v xs) = Suc (length xs)" if "k \<notin> fst ` set xs" for k :: string and v :: "string \<times> ms" and xs
    using that by (induction xs) auto
  then show "''previous_response_id:'' @ rid \<notin> fst ` set (pl_sticky p) \<Longrightarrow> ?thesis"
    by (simp add: rememberResponseIdAffinity_def)
qed

lemma keyless_affinity_keys:
  "fst ` set (pl_sticky (rememberResponseIdAffinity d now e rid p)) =
     insert (''previous_response_id:'' @ rid) (fst ` set (pl_sticky p))"
proof -
  have "fst ` set (AList.update k v xs) = insert k (fst ` set xs)" for k :: string and v :: "string \<times> ms" and xs
    by (induction xs) auto
  then show ?thesis by (simp add: rememberResponseIdAffinity_def)
qed

lemma keyless_affinity_unbounded:
  "inj ids \<Longrightarrow> length (pl_sticky (keyless_responses d now e ids n (p\<lparr>pl_sticky := []\<rparr>))) = n"
proof -
  assume inj: "inj ids"
  have "length (pl_sticky (keyless_responses d now e ids n (p\<lparr>pl_sticky := []\<rparr>))) = n \<and>
    fst ` set (pl_sticky (keyless_responses d now e ids n (p\<lparr>pl_sticky := []\<rparr>))) = (\<lambda>i. ''previous_response_id:'' @ ids i) ` {..<n}"
  proof (induction n)
    case (Suc n)
    let ?p = "keyless_responses d now e ids n (p\<lparr>pl_sticky := []\<rparr>)"
    have step: "keyless_responses d now e ids (Suc n) (p\<lparr>pl_sticky := []\<rparr>) = rememberResponseIdAffinity d (now n) e (ids n) ?p"
      by (simp add: keyless_responses_def)
    have "''previous_response_id:'' @ ids n \<notin> fst ` set (pl_sticky ?p)"
      using Suc inj by (auto dest: injD)
    with Suc keyless_affinity_grows [OF this] show ?case
      unfolding step by (simp only: keyless_affinity_keys lessThan_Suc image_insert)
  qed (simp add: keyless_responses_def)
  then show ?thesis by simp
qed

end
