(* ===== verification/Oauth_Retry_Facts.thy ===== *)
theory Oauth_Retry_Facts
  imports Oauth_Stream Oauth_Selection
begin

text \<open>
  The guarantees of the pool's retries: how often accounts are called, which error reaches the caller, that a stateful
  continuation stays on its account and that a stream's output comes from one account.
\<close>

subsection \<open>Calls\<close>

lemma capacity_calls_length: "length (cr_calls (capacity_calls d env rq e n b p)) \<le> 4 - rb_attempt b + (if 3 < rb_attempt b then 1 else 0)"
proof (induction d env rq e n b p rule: capacity_calls.induct)
  case (1 d env rq e n b p)
  show ?case
  proof (cases "capacity_step d env rq e n b p")
    case (Call_over run)
    then have "cr_calls run = [e]"
      using capacity_step_kept [where d = d and env = env and rq = rq and e = e and n = n and b = b and p = p] by simp
    with Call_over show ?thesis by (subst capacity_calls.simps) auto
  next
    case (Call_again n' b' p' ds)
    then have "length (cr_calls (capacity_calls d env rq e n b p)) = Suc (length (cr_calls (capacity_calls d env rq e n' b' p')))"
      by (subst capacity_calls.simps) (simp add: Let_def)
    then show ?thesis
      using 1 [OF Call_again] capacity_step_again [OF Call_again] by (cases "3 < rb_attempt b'") auto
  qed
qed

lemma capacity_calls_short:
  "length (cr_calls (capacity_calls d env rq e n b p)) \<le> 4" "cr_calls (capacity_calls d env rq e n b p) \<noteq> []"
  using capacity_calls_length [of d env rq e n b p] capacity_calls_kept [of p d env rq e n b]
  by (auto split: if_splits)

definition call_accounts :: "pool \<Rightarrow> nat list \<Rightarrow> string list" where
  "call_accounts p calls = map (\<lambda>e. accounts p ! e) calls"

lemma remdups_adj_block:
  "set xs = {a} \<Longrightarrow> a \<notin> set ys \<Longrightarrow> remdups_adj (xs @ ys) = a # remdups_adj ys"
proof (induction xs)
  case (Cons x xs)
  then show ?case
    by (cases xs; cases ys) (auto simp: subset_singleton_iff dest!: subset_singletonD)
qed simp

definition called_well :: "pool \<Rightarrow> string list \<Rightarrow> nat list \<Rightarrow> bool" where
  "called_well p tried calls \<longleftrightarrow>
     set calls \<subseteq> {..<length (accounts p)} \<and> distinct (remdups_adj (call_accounts p calls)) \<and>
     set (call_accounts p calls) \<inter> set tried = {} \<and> length calls \<le> 4 * untried p tried \<and>
     (\<forall>a. count_list (call_accounts p calls) a \<le> 4)"

lemma called_well_Nil [simp]: "called_well p tried []"
  by (simp add: called_well_def call_accounts_def)

lemma called_well_block:
  assumes "called_well p (a # tried) calls" "set cs = {e}" "length cs \<le> 4" "e < length (accounts p)"
    "a = accounts p ! e" "a \<notin> set tried"
  shows "called_well p tried (cs @ calls)"
proof -
  have "untried p (a # tried) < untried p tried"
    by (rule untried_less) (use assms(4,5,6) nth_mem [of e "accounts p"] in auto)
  moreover have "set (map (\<lambda>e. accounts p ! e) cs) = {a}" "a \<notin> set (map (\<lambda>e. accounts p ! e) calls)"
    using assms by (auto simp: called_well_def call_accounts_def)
  moreover have "count_list (map (\<lambda>e. accounts p ! e) (cs @ calls)) x \<le> 4" for x
  proof (cases "x = a")
    case True
    then have "count_list (map (\<lambda>e. accounts p ! e) calls) x = 0" using calculation(3) by (simp add: count_list_0_iff)
    moreover have "count_list (map (\<lambda>e. accounts p ! e) cs) x \<le> length cs" using count_le_length by (metis length_map)
    ultimately show ?thesis using assms(3) by (simp add: count_list_append)
  next
    case False
    then have "count_list (map (\<lambda>e. accounts p ! e) cs) x = 0" using calculation(2) by (auto simp: count_list_0_iff)
    then show ?thesis using assms(1) by (simp add: count_list_append called_well_def call_accounts_def)
  qed
  ultimately show ?thesis
    using assms remdups_adj_block [of "map (\<lambda>e. accounts p ! e) cs" a "map (\<lambda>e. accounts p ! e) calls"]
    by (auto simp: called_well_def call_accounts_def)
qed

lemma called_well_same: "accounts q = accounts p \<Longrightarrow> called_well q tried calls = called_well p tried calls"
  by (simp add: called_well_def call_accounts_def untried_def)

text \<open>What one turn of the loop did.\<close>

lemma complete_step_call:
  assumes "select d (en_probe env n) (en_now env n) (rq_stickyKey rq) tried (rq_avoidBusy rq) (rq_model rq) p = (Inr (e, s), p1)"
  shows "e < length (accounts p) \<and> account_at p1 e = accounts p ! e \<and> accounts p ! e \<notin> set tried \<and> accounts p1 = accounts p"
proof -
  have acc: "accounts p1 = accounts p" using select_result(2) [OF assms] .
  have e: "e < length (pl_entries p)" "account_at p e \<in> set (accounts p) - set tried"
    using select_untried [OF assms] by simp_all
  have "account_at p1 e = account_at p e" using acc e(1) by (metis accounts_length accounts_nth)
  with e acc show ?thesis by simp
qed

lemma complete_step_cases:
  assumes "st = complete_step d env rq n tried waited lastErr b p"
  obtains (refuse) selErr p1 where "st = Complete_over \<lparr>pa_result = Inl (nullish lastErr selErr), pa_pool = p1, pa_calls = [], pa_slept = [], pa_hooks = []\<rparr>"
  | (abort) ms p1 where "st = Complete_over \<lparr>pa_result = Inl (en_abort_reason env), pa_pool = p1, pa_calls = [], pa_slept = [ms], pa_hooks = []\<rparr>"
  | (wait) ms p1 where "st = Complete_waits ms p1"
  | (serve) e s p1 run res p2 where
      "select d (en_probe env n) (en_now env n) (rq_stickyKey rq) tried (rq_avoidBusy rq) (rq_model rq) p = (Inr (e, s), p1)"
      "run = capacity_calls d env rq e n (nullish b fresh_budget) p1" "cr_result run = Inr res"
      "st = Complete_over \<lparr>pa_result = Inr res, pa_pool = p2, pa_calls = cr_calls run, pa_slept = cr_slept run, pa_hooks = []\<rparr>"
  | (fail) e s p1 run err p2 hs where
      "select d (en_probe env n) (en_now env n) (rq_stickyKey rq) tried (rq_avoidBusy rq) (rq_model rq) p = (Inr (e, s), p1)"
      "run = capacity_calls d env rq e n (nullish b fresh_budget) p1" "cr_result run = Inl err"
      "st = Complete_over \<lparr>pa_result = Inl err, pa_pool = p2, pa_calls = cr_calls run, pa_slept = cr_slept run, pa_hooks = hs\<rparr>"
  | (another) e s p1 run err b' p2 hs where
      "select d (en_probe env n) (en_now env n) (rq_stickyKey rq) tried (rq_avoidBusy rq) (rq_model rq) p = (Inr (e, s), p1)"
      "run = capacity_calls d env rq e n (nullish b fresh_budget) p1" "cr_result run = Inl err"
      "account_failure d rq (en_now env (cr_step run)) e err b' (cr_pool run) = (True, p2, hs)"
      "st = Complete_next (account_at p1 e) (cr_step run) err b' p2 (cr_calls run) (cr_slept run) hs"
proof -
  obtain r p1 where sel:
    "select d (en_probe env n) (en_now env n) (rq_stickyKey rq) tried (rq_avoidBusy rq) (rq_model rq) p = (r, p1)"
    by (metis surj_pair)
  show thesis
  proof (cases r)
    case (Inl selErr)
    show thesis
    proof (cases "if waited then None else stickyAccountWaitMs selErr")
      case None
      show thesis
        by (rule refuse [of selErr p1]) (use assms sel Inl None in \<open>simp add: complete_step_def Let_def\<close>)
    next
      case (Some ms)
      show thesis
      proof (cases "wa_aborted_after (en_wait env n)")
        case True
        show thesis
          by (rule abort [of "apply_ops d (wa_others (en_wait env n)) p1" ms])
            (use assms sel Inl Some True in \<open>simp add: complete_step_def Let_def\<close>)
      next
        case False
        show thesis
          by (rule wait [of ms "apply_ops d (wa_others (en_wait env n)) p1"])
            (use assms sel Inl Some False in \<open>simp add: complete_step_def Let_def\<close>)
      qed
    qed
  next
    case (Inr es)
    obtain e s where es: "es = (e, s)" by (cases es)
    note sel' = sel [unfolded Inr es]
    let ?run = "capacity_calls d env rq e n (nullish b fresh_budget) p1"
    show thesis
    proof (cases "cr_result ?run")
      case (Inl err)
      obtain go p2 hs where f: "account_failure d rq (en_now env (cr_step ?run)) e err
          (if b = None then None else Some (cr_budget ?run)) (cr_pool ?run) = (go, p2, hs)"
        by (metis prod_cases3)
      show thesis
      proof (cases go)
        case True
        with f have f': "account_failure d rq (en_now env (cr_step ?run)) e err
          (if b = None then None else Some (cr_budget ?run)) (cr_pool ?run) = (True, p2, hs)" by simp
        show thesis
          by (rule another [OF sel' refl Inl f']) (use assms sel' Inl f' in \<open>simp add: complete_step_def Let_def\<close>)
      next
        case False
        show thesis
          by (rule fail [OF sel' refl Inl, of p2 hs]) (use assms sel' Inl f False in \<open>simp add: complete_step_def Let_def\<close>)
      qed
    next
      case (Inr res)
      show thesis
        by (rule serve [OF sel' refl Inr, of "settle_completion d (en_now env (cr_step ?run)) (rq_stickyKey rq) e res (cr_pool ?run)"])
          (use assms sel' Inr in \<open>simp add: complete_step_def Let_def\<close>)
    qed
  qed
qed

lemma next_accounts:
  assumes "account_failure d rq now e err b p = (go, p2, hs)" "p = cr_pool (capacity_calls d env rq' e' n b' p1)"
  shows "accounts p2 = accounts p1"
  using pool_kept_accounts [OF account_failure_kept [OF assms(1)]] capacity_calls_kept [of p1 d env rq' e' n b'] assms(2)
  by (simp add: pool_kept_accounts)

lemma complete_loop_calls: "called_well p tried (pa_calls (complete_loop d env rq n tried waited lastErr b p))"
proof (induction d env rq n tried waited lastErr b p rule: complete_loop.induct)
  case (1 d env rq n tried waited lastErr b p)
  let ?st = "complete_step d env rq n tried waited lastErr b p"
  have one: "called_well p tried (cr_calls (capacity_calls d env rq e n b' p1))"
    if "select d (en_probe env n) (en_now env n) (rq_stickyKey rq) tried (rq_avoidBusy rq) (rq_model rq) p = (Inr (e, s), p1)" for e s p1 b'
    using called_well_block [of p "accounts p ! e" tried "[]" _ e] complete_step_call [OF that]
      capacity_calls_kept [of p1 d env rq e n b'] capacity_calls_short(1) [of d env rq e n b' p1]
    by auto
  have "?st = complete_step d env rq n tried waited lastErr b p" ..
  then show ?case
  proof (cases rule: complete_step_cases)
    case (wait ms p1)
    have acc: "accounts p1 = accounts p" using complete_step_waits [OF wait] by simp
    show ?thesis
      using 1(1) [OF wait] unfolding called_well_same [OF acc] by (subst complete_loop.simps) (simp add: wait Let_def)
  next
    case (another e s p1 run err b' p2 hs)
    note c = complete_step_call [OF another(1)]
    have acc: "accounts p2 = accounts p" using next_accounts [OF another(4) arg_cong [OF another(2), of cr_pool]] c by simp
    have "called_well p (account_at p1 e # tried)
        (pa_calls (complete_loop d env rq (cr_step run) (account_at p1 e # tried) waited (Some err) b' p2))"
      using 1(2) [OF another(5)] unfolding called_well_same [OF acc] .
    then have "called_well p tried (cr_calls run @
        pa_calls (complete_loop d env rq (cr_step run) (account_at p1 e # tried) waited (Some err) b' p2))"
      by (rule called_well_block [where e = e])
        (use c another(2) capacity_calls_kept [of p1 d env rq e n "nullish b fresh_budget"]
          capacity_calls_short(1) [of d env rq e n "nullish b fresh_budget" p1] in auto)
    then show ?thesis by (subst complete_loop.simps) (simp add: another(5) Let_def)
  qed (use one in \<open>subst complete_loop.simps, simp\<close>)+
qed

subsection \<open>Which error is surfaced\<close>

text \<open>A failure the caller may learn about: one a client answered, the abort reason, or exhausted capacity retries.\<close>

definition real_failure :: "(thrown + 'r) pool_env \<Rightarrow> thrown \<Rightarrow> bool" where
  "real_failure env err \<longleftrightarrow>
     (\<exists>n e. ca_result (en_call env n e) = Inl err) \<or> err = en_abort_reason env \<or> isCodexCapacityExhausted err"

lemma capacity_error [simp]: "isCodexCapacityExhausted (CodexCapacityRetryExhaustedError sh err u r b)"
  by (simp add: isCodexCapacityExhausted_def CodexCapacityRetryExhaustedError_def Let_def)

lemma capacity_wait_error:
  "waitForCodexCapacityRetry sh err u b x y = (Some (Some z), ds, b') \<Longrightarrow> isCodexCapacityExhausted z"
  by (auto simp: waitForCodexCapacityRetry_def split: prod.splits wait_result.splits)

definition genuine :: "(thrown + json) pool_env \<Rightarrow> nat \<Rightarrow> thrown + json \<Rightarrow> bool" where
  "genuine env e r \<longleftrightarrow>
     (case r of Inr res \<Rightarrow> \<exists>n. ca_result (en_call env n e) = Inr res | Inl err \<Rightarrow> real_failure env err)"

lemma capacity_step_genuine:
  "capacity_step d env rq e n b p = Call_over run \<Longrightarrow> genuine env e (cr_result run)"
  unfolding capacity_step_def Let_def genuine_def real_failure_def
  by (auto split: sum.splits option.splits prod.splits if_splits dest!: capacity_wait_error)

lemma capacity_calls_genuine: "genuine env e (cr_result (capacity_calls d env rq e n b p))"
proof (induction d env rq e n b p rule: capacity_calls.induct)
  case (1 d env rq e n b p)
  show ?case
  proof (cases "capacity_step d env rq e n b p")
    case (Call_over run)
    then show ?thesis using capacity_step_genuine by (subst capacity_calls.simps) simp
  next
    case (Call_again n' b' p' ds)
    then show ?thesis using 1 [OF Call_again] by (subst capacity_calls.simps) (simp add: Let_def)
  qed
qed

definition surfaced_well :: "(thrown + json) pool_env \<Rightarrow> bool \<Rightarrow> (thrown + json) pool_answer \<Rightarrow> bool" where
  "surfaced_well env failed ans \<longleftrightarrow>
     (\<forall>res. pa_result ans = Inr res \<longrightarrow>
        pa_calls ans \<noteq> [] \<and> (\<exists>n. ca_result (en_call env n (last (pa_calls ans))) = Inr res)) \<and>
     (\<forall>err. pa_result ans = Inl err \<longrightarrow> failed \<or> pa_calls ans \<noteq> [] \<longrightarrow> real_failure env err)"

lemma last_call: "last (cr_calls (capacity_calls d env rq e n b p)) = e"
  using capacity_calls_kept [of p d env rq e n b] capacity_calls_short(2) [of d env rq e n b p]
  by (metis last_in_set singletonD)

lemma complete_loop_surfaced:
  "(\<And>err. lastErr = Some err \<Longrightarrow> real_failure env err) \<Longrightarrow>
     surfaced_well env (lastErr \<noteq> None) (complete_loop d env rq n tried waited lastErr b p)"
proof (induction d env rq n tried waited lastErr b p rule: complete_loop.induct)
  case (1 d env rq n tried waited lastErr b p)
  let ?st = "complete_step d env rq n tried waited lastErr b p"
  have "?st = complete_step d env rq n tried waited lastErr b p" ..
  then show ?case
  proof (cases rule: complete_step_cases)
    case (refuse selErr p1)
    then show ?thesis using "1.prems" by (subst complete_loop.simps) (auto simp: surfaced_well_def)
  next
    case (abort ms p1)
    then show ?thesis by (subst complete_loop.simps) (simp add: surfaced_well_def real_failure_def)
  next
    case (wait ms p1)
    then show ?thesis
      using "1.IH"(1) [OF wait "1.prems"] by (subst complete_loop.simps) (simp add: Let_def surfaced_well_def)
  next
    case (serve e s p1 run res p2)
    then show ?thesis
      using capacity_calls_genuine [of env e d rq n "nullish b fresh_budget" p1] last_call capacity_calls_short(2)
      by (subst complete_loop.simps) (simp add: surfaced_well_def genuine_def)
  next
    case (fail e s p1 run err p2 hs)
    then show ?thesis
      using capacity_calls_genuine [of env e d rq n "nullish b fresh_budget" p1]
      by (subst complete_loop.simps) (simp add: surfaced_well_def genuine_def)
  next
    case (another e s p1 run err b' p2 hs)
    have real: "real_failure env err"
      using capacity_calls_genuine [of env e d rq n "nullish b fresh_budget" p1] another(2,3) by (simp add: genuine_def)
    then have "surfaced_well env True (complete_loop d env rq (cr_step run) (account_at p1 e # tried) waited (Some err) b' p2)"
      using "1.IH"(2) [OF another(5)] by simp
    then show ?thesis
      by (subst complete_loop.simps) (auto simp: another(5) Let_def surfaced_well_def)
  qed
qed

subsection \<open>Stateful continuations\<close>

lemma strict_failure:
  "isStrictAccountSticky (rq_stickyKey rq) \<Longrightarrow> \<not> rq_forbidden rq \<Longrightarrow> \<not> fst (account_failure d rq now e err b p)"
  by (auto simp: account_failure_def Let_def split: prod.splits)

text \<open>The account is the one the key is bound to, or nothing is known of the key and it may start anywhere.\<close>

definition on_bound_account :: "pool \<Rightarrow> ms \<Rightarrow> string option \<Rightarrow> nat \<Rightarrow> bool" where
  "on_bound_account p nowMs key e =
     (case live_binding p nowMs key of
        Some a \<Rightarrow> account_at p e = a
      | None \<Rightarrow> \<not> key_has_prefix ''previous_response_id:'' key \<and> identity_matches (asserted_account key) (ent p e))"

lemma select_bound:
  assumes "select d probe now key exclude busy model p = (Inr (e, s), p1)" "isStrictAccountSticky key"
  shows "on_bound_account p now key e"
proof -
  have "identity_matches (asserted_account key) (ent p e)" using select_choice [OF assms(1)] by (simp add: pool_choices_iff)
  with select_result(1) [OF assms(1)] assms(2) show ?thesis
    by (auto simp: select_outcome_def on_bound_account_def split: option.splits if_splits)
qed

lemma complete_step_strict:
  assumes "isStrictAccountSticky (rq_stickyKey rq)" "\<not> rq_forbidden rq"
    and "complete_step d env rq n tried waited lastErr b p = Complete_over ans"
  shows "\<exists>e. set (pa_calls ans) \<subseteq> {e} \<and> (pa_calls ans \<noteq> [] \<longrightarrow> on_bound_account p (en_now env n) (rq_stickyKey rq) e)"
  using assms(3) [symmetric]
proof (cases rule: complete_step_cases)
  case (serve e s p1 run res p2)
  then have "set (pa_calls ans) \<subseteq> {e}" using capacity_calls_kept [THEN conjunct2] by simp
  then show ?thesis using select_bound [OF serve(1) assms(1)] by blast
next
  case (fail e s p1 run err p2 hs)
  then have "set (pa_calls ans) \<subseteq> {e}" using capacity_calls_kept [THEN conjunct2] by simp
  then show ?thesis using select_bound [OF fail(1) assms(1)] by blast
qed simp_all

lemma complete_step_no_sibling:
  assumes "isStrictAccountSticky (rq_stickyKey rq)" "\<not> rq_forbidden rq"
  shows "complete_step d env rq n tried waited lastErr b p \<noteq> Complete_next a n' err b' p2 cs sl hs"
proof
  assume "complete_step d env rq n tried waited lastErr b p = Complete_next a n' err b' p2 cs sl hs"
  from this [symmetric] show False
  proof (cases rule: complete_step_cases)
    case (another e s p1 run err b' p2 hs)
    then show ?thesis using strict_failure [OF assms] by (metis fst_conv)
  qed simp_all
qed

text \<open>
  The turn of a continuation that may call, and the pool as it is then: the first, or, when the selection asks to
  wait for the account, the one after that wait and what other requests did during it.
\<close>

definition continuation_turn :: "pool_deps \<Rightarrow> (thrown + json) pool_env \<Rightarrow> pool_request \<Rightarrow> string list \<Rightarrow> pool \<Rightarrow> nat \<times> pool" where
  "continuation_turn d env rq excluded p =
     (case select d (en_probe env 0) (en_now env 0) (rq_stickyKey rq) excluded (rq_avoidBusy rq) (rq_model rq) p of
        (Inl selErr, p1) \<Rightarrow>
          if stickyAccountWaitMs selErr = None then (0, p) else (1, apply_ops d (wa_others (en_wait env 0)) p1)
      | (Inr _, _) \<Rightarrow> (0, p))"

lemma continuation_waits:
  "complete_step d env rq 0 excluded False None b p = Complete_waits ms q \<Longrightarrow> continuation_turn d env rq excluded p = (1, q)"
  by (auto simp: complete_step_def continuation_turn_def Let_def split: prod.splits sum.splits option.splits if_splits)

lemma continuation_first: "continuation_turn d env rq excluded p = (0, q) \<Longrightarrow> q = p"
  by (auto simp: continuation_turn_def split: prod.splits sum.splits if_splits)

lemma continuation_over:
  "complete_step d env rq 0 excluded False None b p = Complete_over ans \<Longrightarrow> pa_calls ans \<noteq> [] \<Longrightarrow>
   continuation_turn d env rq excluded p = (0, p)"
  by (auto simp: complete_step_def continuation_turn_def Let_def split: prod.splits sum.splits option.splits if_splits)

text \<open>
  C8. A request that the pool serves without a stream is bounded and never comes back to an account: the accounts called
  are distinct up to the same-account capacity retries, none was excluded, all belong to the pool, and each is
  called at most four times, so that there are at most four calls for every account not excluded, whatever the
  clients answer, however long the waits are and whatever other requests do.
\<close>

theorem completion_calls_bounded:
  "set (pa_calls (completeWithRetry d env rq excluded p)) \<subseteq> {..<length (accounts p)} \<and>
   distinct (remdups_adj (call_accounts p (pa_calls (completeWithRetry d env rq excluded p)))) \<and>
   set (call_accounts p (pa_calls (completeWithRetry d env rq excluded p))) \<inter> set excluded = {} \<and>
   (\<forall>a. count_list (call_accounts p (pa_calls (completeWithRetry d env rq excluded p))) a \<le> 4) \<and>
   length (pa_calls (completeWithRetry d env rq excluded p)) \<le> 4 * untried p excluded"
  using complete_loop_calls [of p excluded d env rq 0 False None "rq_budget rq"]
  by (simp add: called_well_def completeWithRetry_def)

text \<open>
  C38. The caller learns the real cause: what is returned is the answer of the last account called, and once any account
  was called the error is one that a client answered, the abort of the request or the exhausted capacity retries, never
  the pool's own report that nobody is left.
\<close>

theorem completion_surfaces_cause:
  "case pa_result (completeWithRetry d env rq excluded p) of
     Inr res \<Rightarrow> \<exists>n. ca_result (en_call env n (last (pa_calls (completeWithRetry d env rq excluded p)))) = Inr res
   | Inl err \<Rightarrow> pa_calls (completeWithRetry d env rq excluded p) = [] \<or> real_failure env err"
  using complete_loop_surfaced [of None env d rq 0 excluded False "rq_budget rq" p]
  by (auto simp: surfaced_well_def completeWithRetry_def split: sum.split)

text \<open>
  C7. A stateful continuation is called on its account and on no other: all calls of the request go to one account,
  whatever fails there, its credential, its rate limit, its queue or its service; and when its key is bound by a session
  that has not expired, that is the bound account. When nothing is known of the key, a \<open>previous_response_id\<close> is not
  sent at all, and any other continuation starts on an account of the identity it asserts. The binding is read at the
  turn that calls: at once, or after the one wait for the account, during which other requests may have moved it.
\<close>

theorem continuation_called_on_one_account:
  assumes "isStrictAccountSticky (rq_stickyKey rq)" "\<not> rq_forbidden rq" "continuation_turn d env rq excluded p = (n, q)"
  shows "\<exists>e. set (pa_calls (completeWithRetry d env rq excluded p)) \<subseteq> {e} \<and>
    (pa_calls (completeWithRetry d env rq excluded p) \<noteq> [] \<longrightarrow>
      (case live_binding q (en_now env n) (rq_stickyKey rq) of
         Some a \<Rightarrow> account_at q e = a
       | None \<Rightarrow> \<not> key_has_prefix ''previous_response_id:'' (rq_stickyKey rq) \<and>
           identity_matches (asserted_account (rq_stickyKey rq)) (ent q e)))"
proof -
  note no = complete_step_no_sibling [OF assms(1,2)]
  have "\<exists>e. set (pa_calls (completeWithRetry d env rq excluded p)) \<subseteq> {e} \<and>
    (pa_calls (completeWithRetry d env rq excluded p) \<noteq> [] \<longrightarrow> on_bound_account q (en_now env n) (rq_stickyKey rq) e)"
  proof (cases "complete_step d env rq 0 excluded False None (rq_budget rq) p")
    case (Complete_over ans)
    then have c: "completeWithRetry d env rq excluded p = ans"
      unfolding completeWithRetry_def by (subst complete_loop.simps) simp
    show ?thesis
      unfolding c using complete_step_strict [OF assms(1,2) Complete_over] continuation_over [OF Complete_over] assms(3) by fastforce
  next
    case (Complete_waits ms q')
    then have q': "n = 1" "q' = q" using continuation_waits assms(3) by fastforce+
    let ?st = "complete_step d env rq (Suc 0) excluded True None (rq_budget rq) q"
    have "\<exists>ans. ?st = Complete_over ans"
    proof (cases ?st)
      case (Complete_waits ms' q'')
      then show ?thesis using complete_step_waits by blast
    qed (use no in auto)
    then obtain ans where ans: "?st = Complete_over ans" ..
    have "pa_calls (completeWithRetry d env rq excluded p) = pa_calls ans"
      unfolding completeWithRetry_def
      by (subst complete_loop.simps, simp add: Complete_waits q' Let_def) (subst complete_loop.simps, simp add: ans)
    with complete_step_strict [OF assms(1,2) ans] q' show ?thesis by simp
  qed (use no in auto)
  then show ?thesis by (simp only: on_bound_account_def)
qed

definition demo_failures :: "(thrown + json) pool_env" where
  "demo_failures =
     \<lparr>en_call = (\<lambda>n e. \<lparr>ca_result = Inl (UpstreamError Upstream_error ''down'' None (Some 503) No_object), ca_spent = 0,
         ca_exhausted = None, ca_turnStates = [], ca_others = []\<rparr>),
      en_wait = (\<lambda>n. \<lparr>wa_aborted_entry = False, wa_aborted_after = False, wa_others = []\<rparr>),
      en_now = (\<lambda>n. 1000 + int n), en_probe = (\<lambda>n. no_probe), en_abort_reason = plain_error ''aborted''\<rparr>"

lemma demo_failures_calls:
  "pa_calls (completeWithRetry demo_pool_deps demo_failures (keyed_request demo_pool_deps None) [] demo_pool) = [1, 2, 0]"
  "pa_calls (completeWithRetry demo_pool_deps demo_failures (keyed_request demo_pool_deps (Some ''x-codex-turn-state:t'')) [] demo_pool) = [0]"
  by code_simp+

theorem continuation_called_on_one_account_witness:
  "\<exists>e. pa_calls (completeWithRetry demo_pool_deps demo_failures
     (keyed_request demo_pool_deps (Some ''x-codex-turn-state:t'')) [] demo_pool) = [e] \<and> account_at demo_pool e = ''a''"
proof -
  let ?rq = "keyed_request demo_pool_deps (Some ''x-codex-turn-state:t'')"
  have rq: "isStrictAccountSticky (rq_stickyKey ?rq)" "\<not> rq_forbidden ?rq"
    by (simp_all add: keyed_request_def isStrictAccountSticky_def startsWith_def)
  obtain n q where t: "continuation_turn demo_pool_deps demo_failures ?rq [] demo_pool = (n, q)" by (metis surj_pair)
  have "fst (continuation_turn demo_pool_deps demo_failures ?rq [] demo_pool) = 0" by code_simp
  with t continuation_first have nq: "n = 0" "q = demo_pool" by fastforce+
  have "live_binding demo_pool (en_now demo_failures 0) (rq_stickyKey ?rq) = Some ''a''"
    by (simp add: live_binding_def pool_demo keyed_request_def demo_failures_def)
  with continuation_called_on_one_account [OF rq t] nq demo_failures_calls(2) show ?thesis by auto
qed

subsection \<open>Streams\<close>

lemma next_sibling_over:
  "next_sibling d env rq n tried err b p e sl hs = Stream_over cs x p' opened sl' hs' \<Longrightarrow> cs = [] \<and> x = Stream_threw err \<and> opened = [e]"
  by (auto simp: next_sibling_def split: prod.splits sum.splits)

lemma stream_catch_over:
  "stream_catch d env rq n tried aborted err b p e = Stream_over cs x p' opened sl hs \<Longrightarrow>
     cs = [] \<and> (\<exists>y. x = Stream_threw y) \<and> opened = [e]"
  unfolding stream_catch_def stream_capacity_def stream_overload_def Let_def
  by (auto split: if_splits option.splits prod.splits wait_result.splits dest!: next_sibling_over)

text \<open>The output of a stream: nothing and an error, or what the last account opened delivers, up to where the consumer stops.\<close>

definition from_one_account ::
  "pool_deps \<Rightarrow> stream_source pool_env \<Rightarrow> classifier option \<Rightarrow> stream_answer \<Rightarrow> bool" where
  "from_one_account d env k ans \<longleftrightarrow>
     sw_opened ans \<noteq> [] \<and>
     (sw_chunks ans = [] \<and> (\<exists>err. sw_end ans = Stream_threw err) \<or>
      (\<exists>n cs err. stream_open d (en_abort_reason env) k (ca_result (en_call env n (last (sw_opened ans)))) = Inr (cs, err) \<and>
         (sw_chunks ans = cs \<and> sw_end ans = (case err of None \<Rightarrow> Stream_done | Some x \<Rightarrow> Stream_threw x) \<or>
          prefix (sw_chunks ans) cs \<and> sw_end ans = Stream_stopped)))"

lemma relay_stream_output:
  "sw_opened (relay_stream d env rq n e chunks err p) = [e] \<and>
   (sw_chunks (relay_stream d env rq n e chunks err p) = chunks \<and>
      sw_end (relay_stream d env rq n e chunks err p) = (case err of None \<Rightarrow> Stream_done | Some x \<Rightarrow> Stream_threw x) \<or>
    prefix (sw_chunks (relay_stream d env rq n e chunks err p)) chunks \<and>
      sw_end (relay_stream d env rq n e chunks err p) = Stream_stopped)"
proof (cases "ss_stop (ca_result (en_call env n e))")
  case None
  then show ?thesis by (auto simp: relay_stream_def Let_def split: prod.split option.split)
next
  case (Some j)
  then show ?thesis
    by (cases "j < length chunks") (auto simp: relay_stream_def Let_def take_is_prefix split: prod.split option.split)
qed

lemma stream_attempt_over:
  assumes "stream_attempt d env rq k n e tried b p = Stream_over cs x p' opened sl hs"
  shows "from_one_account d env k \<lparr>sw_chunks = cs, sw_end = x, sw_pool = p', sw_opened = opened, sw_slept = sl, sw_hooks = hs\<rparr>"
proof (cases "stream_open d (en_abort_reason env) k (ca_result (en_call env n e))")
  case (Inl err)
  with assms show ?thesis
    by (auto simp: stream_attempt_def Let_def from_one_account_def dest!: stream_catch_over)
next
  case (Inr ce)
  obtain chunks err where ce: "ce = (chunks, err)" by (cases ce)
  let ?ans = "relay_stream d env rq n e chunks err (after_call d (en_now env (n + 1)) e (en_call env n e) p)"
  have "cs = sw_chunks ?ans" "x = sw_end ?ans" "opened = sw_opened ?ans"
    using assms Inr ce by (auto simp: stream_attempt_def Let_def)
  with relay_stream_output [of d env rq n e chunks err "after_call d (en_now env (n + 1)) e (en_call env n e) p"] Inr ce show ?thesis
    unfolding from_one_account_def by (intro conjI disjI2) auto
qed

lemma from_one_account_more:
  "from_one_account d env k ans \<Longrightarrow>
     from_one_account d env k (ans\<lparr>sw_opened := e # sw_opened ans, sw_slept := sl, sw_hooks := hs\<rparr>)"
  by (auto simp: from_one_account_def)

lemma stream_loop_output: "from_one_account d env k (stream_loop d env rq k n e tried b p)"
proof (induction d env rq k n e tried b p rule: stream_loop.induct)
  case (1 d env rq k n e tried b p)
  show ?case
  proof (cases "stream_attempt d env rq k n e tried b p")
    case (Stream_over cs x p' opened sl hs)
    then show ?thesis using stream_attempt_over by (subst stream_loop.simps) simp
  next
    case (Stream_again n' e' tried' b' p' sl hs)
    then show ?thesis using 1 [OF Stream_again] from_one_account_more by (subst stream_loop.simps) (simp add: Let_def)
  qed
qed

text \<open>
  C9. A stream is never stitched together: either nothing was relayed and the request failed, or everything relayed is
  what the last account opened delivered after its guard, in order and from its beginning, and the stream ends the way
  that account's stream ended or where the consumer stopped. In particular a failure after the first chunk is never
  hidden by a replay on another account.
\<close>

theorem stream_from_one_account:
  "from_one_account d env k (streamWithRetry d env rq k excluded n first p)"
  unfolding streamWithRetry_def by (rule stream_loop_output)

text \<open>An invalid \<open>previous_response_id\<close> is a 400: no sibling is asked, unless the provider's configuration says so.\<close>

lemma invalid_previous_stays:
  assumes "isInvalidPreviousResponseIdFailure key err" "400 \<notin> set (pd_credentialStatuses d)"
    "\<not> pd_shouldRetryAccountError d err" "map_option uf_errorClass (upstream_of err) \<noteq> Some Timeout_error"
  shows "\<not> fst (stream_account_failure d now model e err p)"
proof -
  obtain u where u: "upstream_of err = Some u" "uf_upstreamStatus u = Some 400"
    using assms(1) by (auto simp: isInvalidPreviousResponseIdFailure_def upstreamStatusOf_def Option.bind_eq_Some_conv)
  then have inst: "th_instance err \<in> {Upstream u, Codex_before_send u, Codex_capacity_exhausted u}"
    by (cases err rule: upstream_of.cases) auto
  then have "\<not> isRetryableAccountFailure err" "\<not> isRateLimitAccountFailure err" "\<not> isAccountBackpressureFailure err"
    "\<not> isCredentialAccountFailure err (pd_credentialStatuses d)" "\<not> isRetryableTransientError err"
    using u assms(2,4)
    by (auto simp: isRetryableAccountFailure_def isRateLimitAccountFailure_def isAccountBackpressureFailure_def
        isQueueTimeout_def isCredentialAccountFailure_def isRetryableTransientError_def upstreamStatusOf_def)
  with assms(3) show ?thesis by (simp add: stream_account_failure_def)
qed

lemma stream_catch_strict:
  assumes "isStrictAccountSticky (rq_stickyKey rq)"
    "\<And>err now p. isInvalidPreviousResponseIdFailure (rq_stickyKey rq) err \<Longrightarrow> \<not> fst (stream_account_failure d now (rq_model rq) e err p)"
    "stream_catch d env rq n tried aborted err b p e = Stream_again n' e' tried' b' p' sl hs"
  shows "e' = e"
  using assms(3) assms(2) [of err "en_now env n" p] assms(1)
  unfolding stream_catch_def stream_capacity_def Let_def
  by (auto split: if_splits option.splits prod.splits)

lemma stream_loop_strict:
  "isStrictAccountSticky (rq_stickyKey rq) \<Longrightarrow>
   (\<And>e err now p. isInvalidPreviousResponseIdFailure (rq_stickyKey rq) err \<Longrightarrow> \<not> fst (stream_account_failure d now (rq_model rq) e err p)) \<Longrightarrow>
   set (sw_opened (stream_loop d env rq k n e tried b p)) = {e}"
proof (induction d env rq k n e tried b p rule: stream_loop.induct)
  case (1 d env rq k n e tried b p)
  show ?case
  proof (cases "stream_attempt d env rq k n e tried b p")
    case (Stream_over cs x p' opened sl hs)
    then have "opened = [e]"
      using relay_stream_output
      by (auto simp: stream_attempt_def Let_def split: sum.splits prod.splits dest!: stream_catch_over)
    with Stream_over show ?thesis by (subst stream_loop.simps) simp
  next
    case (Stream_again n' e' tried' b' p' sl hs)
    then obtain err aborted b1 p1 m where
      "stream_catch d env rq m tried aborted err b1 p1 e = Stream_again n' e' tried' b' p' sl hs"
      by (auto simp: stream_attempt_def Let_def split: sum.splits prod.splits)
    then have "e' = e" using stream_catch_strict [where rq = rq and d = d and e = e] "1.prems" by blast
    with "1.IH" [OF Stream_again "1.prems"] Stream_again show ?thesis by (subst stream_loop.simps) (simp add: Let_def)
  qed
qed

text \<open>
  A streamed continuation stays on the account it was opened on, whatever fails before output: every further
  attempt of the request, after a capacity wait, is on the same account. That holds for the provider configurations
  that neither call a 400 a credential failure nor ask to retry an invalid \<open>previous_response_id\<close>.
\<close>

theorem continuation_streams_on_one_account:
  assumes "isStrictAccountSticky (rq_stickyKey rq)" "400 \<notin> set (pd_credentialStatuses d)"
    "\<And>err. isInvalidPreviousResponseIdFailure (rq_stickyKey rq) err \<Longrightarrow>
       \<not> pd_shouldRetryAccountError d err \<and> map_option uf_errorClass (upstream_of err) \<noteq> Some Timeout_error"
  shows "set (sw_opened (streamWithRetry d env rq k excluded n first p)) = {first}"
proof -
  have stay: "\<not> fst (stream_account_failure d now (rq_model rq) e err p)"
    if "isInvalidPreviousResponseIdFailure (rq_stickyKey rq) err" for e err now p
    using invalid_previous_stays [OF that assms(2)] assms(3) [OF that] by simp
  show ?thesis unfolding streamWithRetry_def by (rule stream_loop_strict [OF assms(1) stay])
qed

theorem continuation_streams_on_one_account_witness:
  "set (sw_opened (streamWithRetry demo_pool_deps
     \<lparr>en_call = (\<lambda>n e. \<lparr>ca_result = \<lparr>ss_open = Inl (UpstreamError Upstream_error ''down'' None (Some 503) No_object),
           ss_aborted_open = False, ss_aborted_catch = False, ss_aborted_end = False, ss_at = (\<lambda>j. 0), ss_between = (\<lambda>j. []), ss_stop = None\<rparr>,
         ca_spent = 0, ca_exhausted = None, ca_turnStates = [], ca_others = []\<rparr>),
      en_wait = en_wait demo_failures, en_now = en_now demo_failures, en_probe = en_probe demo_failures,
      en_abort_reason = en_abort_reason demo_failures\<rparr>
     (keyed_request demo_pool_deps (Some ''x-codex-turn-state:t'')) None [] 0 0 demo_pool)) = {0}"
  by (rule continuation_streams_on_one_account)
    (simp_all add: keyed_request_def isStrictAccountSticky_def startsWith_def demo_pool_deps_def
      isInvalidPreviousResponseIdFailure_def key_has_prefix_def)

subsection \<open>Waiting for a pinned account\<close>

text \<open>The wait an unavailable continuation asks for is read back from the error, when it is short enough to be worth it.\<close>

lemma sticky_wait_roundtrip:
  "stickyAccountWaitMs (stickyUnavailableError source w) = (if 0 < w \<and> w \<le> STICKY_ACCOUNT_WAIT_MAX_MS then Some w else None)"
  by (auto simp: stickyAccountWaitMs_def stickyUnavailableError_def CodexResponsesBeforeSendError_def Let_def opt_prop_def
      record_of_def set_prop_def STICKY_ACCOUNT_WAIT_MAX_MS_def isSafeInteger_def MAX_SAFE_INTEGER_def)

end
