(* ===== verification/Tool_Names.thy ===== *)
theory Tool_Names
  imports Json "HOL-Library.Word"
begin

unbundle bit_operations_syntax

text \<open>
  The tool names Claude accepts: \<open>createAnthropicToolNameMap\<close> of \<open>protocol/anthropic/response.ts\<close>. A client's tool
  name is cleaned to the letters, digits and underscores of at most 64 characters; a clash with another tool of the
  request is resolved by a hash suffix (FNV-1a on 32 bits, printed in base 36), then by counted hashes. The map answers
  both ways. The counted hashes are tried up to nine times, which the lemmas show to be enough while fewer than nine
  names of the request are taken.
\<close>

subsection \<open>Characters and numbers as text\<close>

definition word_char :: "char \<Rightarrow> bool" where
  "word_char c =
     (let n = of_char c :: nat in 48 \<le> n \<and> n \<le> 57 \<or> 65 \<le> n \<and> n \<le> 90 \<or> 97 \<le> n \<and> n \<le> 122 \<or> n = 95)"

definition digit36 :: "nat \<Rightarrow> char" where
  "digit36 n = char_of (if n < 10 then 48 + n else 87 + n)"

fun base36 :: "nat \<Rightarrow> string" where
  "base36 n = (if n < 36 then [digit36 n] else base36 (n div 36) @ [digit36 (n mod 36)])"

declare base36.simps [simp del]

fun show_nat :: "nat \<Rightarrow> string" where
  "show_nat n = (if n < 10 then [digit36 n] else show_nat (n div 10) @ [digit36 (n mod 10)])"

declare show_nat.simps [simp del]

subsection \<open>Cleaning and hashing a name\<close>

definition fnv_step :: "32 word \<Rightarrow> char \<Rightarrow> 32 word" where
  "fnv_step h c = (h XOR word_of_nat (of_char c)) * 0x01000193"

definition fnv1a :: "string \<Rightarrow> 32 word" where
  "fnv1a name = foldl fnv_step 0x811C9DC5 name"

definition pad8 :: "string \<Rightarrow> string" where
  "pad8 s = replicate (8 - length s) (CHR ''0'') @ s"

definition hashToolName :: "string \<Rightarrow> string" where
  "hashToolName name = take 8 (pad8 (base36 (unat (fnv1a name))))"

definition ANTHROPIC_TOOL_NAME_MAX :: nat where "ANTHROPIC_TOOL_NAME_MAX = 64"

definition TOOL_NAME_SUFFIX_LENGTH :: nat where "TOOL_NAME_SUFFIX_LENGTH = 9"

definition strip_right :: "string \<Rightarrow> string" where
  "strip_right s = rev (dropWhile (\<lambda>c. c = CHR ''_'') (rev s))"

definition cleaned_name :: "string \<Rightarrow> string" where
  "cleaned_name name =
     strip_right (dropWhile (\<lambda>c. c = CHR ''_'') (map (\<lambda>c. if word_char c then c else CHR ''_'') name))"

definition sanitizeAnthropicToolName :: "string \<Rightarrow> string" where
  "sanitizeAnthropicToolName name =
     take ANTHROPIC_TOOL_NAME_MAX (if cleaned_name name = [] then ''tool'' else cleaned_name name)"

definition withHashSuffix :: "string \<Rightarrow> string \<Rightarrow> string" where
  "withHashSuffix base original =
     take ANTHROPIC_TOOL_NAME_MAX
       (strip_right (take (ANTHROPIC_TOOL_NAME_MAX - TOOL_NAME_SUFFIX_LENGTH) base) @ ''_'' @ hashToolName original)"

definition counted_candidate :: "string \<Rightarrow> string \<Rightarrow> nat \<Rightarrow> string" where
  "counted_candidate base original counter =
     (let suffix = ''_'' @ hashToolName (original @ '':'' @ show_nat counter) in
      strip_right (take (ANTHROPIC_TOOL_NAME_MAX - length suffix) base) @ suffix)"

subsection \<open>The map\<close>

record tool_names =
  tn_forward :: "string \<rightharpoonup> string"
  tn_reverse :: "string \<rightharpoonup> string"

definition NAME_TRIES :: nat where "NAME_TRIES = 10"

fun rename_loop :: "nat \<Rightarrow> string \<Rightarrow> string \<Rightarrow> (string \<rightharpoonup> string) \<Rightarrow> nat \<Rightarrow> string \<Rightarrow> string option" where
  "rename_loop 0 base original owners counter candidate = None"
| "rename_loop (Suc fuel) base original owners counter candidate =
     (case owners candidate of
        None \<Rightarrow> Some candidate
      | Some owner \<Rightarrow>
          if owner = original then Some candidate
          else rename_loop fuel base original owners (counter + 1) (counted_candidate base original counter))"

definition free_name :: "string \<Rightarrow> (string \<rightharpoonup> string) \<Rightarrow> string option" where
  "free_name original owners =
     (let base = sanitizeAnthropicToolName original in
      case owners base of
        None \<Rightarrow> Some base
      | Some owner \<Rightarrow>
          if owner = original then Some base
          else rename_loop NAME_TRIES base original owners 1 (withHashSuffix base original))"

definition toAnthropic :: "string \<Rightarrow> tool_names \<Rightarrow> (string \<times> tool_names) option" where
  "toAnthropic original m =
     (case tn_forward m original of
        Some existing \<Rightarrow> Some (existing, m)
      | None \<Rightarrow>
          map_option (\<lambda>candidate. (candidate,
            m\<lparr>tn_forward := (tn_forward m)(original \<mapsto> candidate), tn_reverse := (tn_reverse m)(candidate \<mapsto> original)\<rparr>))
            (free_name original (tn_reverse m)))"

definition toOriginal :: "tool_names \<Rightarrow> string \<Rightarrow> string option" where
  "toOriginal m name = tn_reverse m name"

definition no_tool_names :: tool_names where
  "no_tool_names = \<lparr>tn_forward = Map.empty, tn_reverse = Map.empty\<rparr>"

fun register_names :: "string list \<Rightarrow> tool_names \<Rightarrow> tool_names option" where
  "register_names [] m = Some m"
| "register_names (n # ns) m = Option.bind (toAnthropic n m) (\<lambda>(c, m'). register_names ns m')"

definition createAnthropicToolNameMap :: "string list \<Rightarrow> tool_names option" where
  "createAnthropicToolNameMap names = register_names names no_tool_names"

subsection \<open>Every answer is a name Claude accepts\<close>

definition good_name :: "string \<Rightarrow> bool" where
  "good_name s = (s \<noteq> [] \<and> length s \<le> ANTHROPIC_TOOL_NAME_MAX \<and> list_all word_char s)"

lemma digit36_word: "n < 36 \<Longrightarrow> word_char (digit36 n)"
  by (auto simp: word_char_def digit36_def Let_def)

lemma base36_word: "list_all word_char (base36 n)"
  by (induction n rule: base36.induct) (subst base36.simps, simp add: digit36_word)

lemma zero_word [simp]: "word_char (CHR ''0'')" "word_char (CHR ''_'')"
  by (simp_all add: word_char_def)

lemma pad8_word: "list_all word_char s \<Longrightarrow> list_all word_char (pad8 s)"
  by (auto simp: pad8_def list_all_iff)

lemma list_all_take: "list_all P s \<Longrightarrow> list_all P (take n s)"
  by (auto simp: list_all_iff dest: in_set_takeD)

lemma hash_word: "list_all word_char (hashToolName s)"
  unfolding hashToolName_def by (intro list_all_take pad8_word base36_word)

lemma hash_length: "length (hashToolName s) = 8"
  by (simp add: hashToolName_def pad8_def)

lemma strip_right_word: "list_all word_char s \<Longrightarrow> list_all word_char (strip_right s)"
  by (auto simp: strip_right_def list_all_iff dest: set_dropWhileD)

lemma strip_right_length: "length (strip_right s) \<le> length s"
  by (simp add: strip_right_def length_dropWhile_le [of _ "rev s", simplified])

lemma cleaned_word: "list_all word_char (cleaned_name s)"
  unfolding cleaned_name_def
  by (rule strip_right_word) (auto simp: list_all_iff dest!: set_dropWhileD)

lemma good_sanitized: "good_name (sanitizeAnthropicToolName s)"
  by (auto simp: good_name_def sanitizeAnthropicToolName_def ANTHROPIC_TOOL_NAME_MAX_def cleaned_word list_all_take
      word_char_def take_Cons')

lemma good_suffixed:
  assumes "list_all word_char base"
  shows "good_name (withHashSuffix base original)" "good_name (counted_candidate base original k)"
  using assms strip_right_length [of "take 55 base"]
  by (auto simp: good_name_def withHashSuffix_def counted_candidate_def Let_def ANTHROPIC_TOOL_NAME_MAX_def
      TOOL_NAME_SUFFIX_LENGTH_def hash_length hash_word strip_right_word list_all_take)

subsection \<open>Nine counted names differ\<close>

definition digit_of :: "char \<Rightarrow> nat" where
  "digit_of c = (let n = of_char c :: nat in if n < 58 then n - 48 else n - 87)"

definition value36 :: "string \<Rightarrow> nat" where
  "value36 s = foldl (\<lambda>v c. 36 * v + digit_of c) 0 s"

lemma digit_of_digit36 [simp]: "n < 36 \<Longrightarrow> digit_of (digit36 n) = n"
  by (auto simp: digit_of_def digit36_def Let_def)

lemma value36_base36: "value36 (base36 n) = n"
  by (induction n rule: base36.induct) (subst base36.simps, auto simp: value36_def)

lemma value36_zeros: "value36 (replicate k (CHR ''0'') @ s) = value36 s"
  by (induction k) (simp_all add: value36_def digit_of_def)

lemma base36_length: "n < 36 ^ Suc k \<Longrightarrow> length (base36 n) \<le> Suc k"
proof (induction k arbitrary: n)
  case (Suc k)
  have "n div 36 < 36 ^ Suc k" using Suc.prems by (simp add: less_mult_imp_div_less)
  from Suc.IH [OF this] show ?case by (subst base36.simps) auto
qed (subst base36.simps, simp)

lemma value36_hash: "value36 (hashToolName s) = unat (fnv1a s)"
proof -
  have "unat (fnv1a s) < 2 ^ LENGTH(32)" by (rule unsigned_less)
  then have "unat (fnv1a s) < 36 ^ Suc 7" by simp
  then have "length (base36 (unat (fnv1a s))) \<le> 8" using base36_length [of _ 7] by simp
  then show ?thesis
    by (simp add: hashToolName_def pad8_def value36_base36 value36_zeros)
qed

lemma hash_injective: "hashToolName s = hashToolName t \<longleftrightarrow> fnv1a s = fnv1a t"
  by (metis value36_hash word_unat_eq_iff hashToolName_def)

lemma fnv_prime_unit: "(0x01000193 :: 32 word) * 0x359C449B = 1"
  by simp

lemma fnv_step_injective:
  assumes "fnv_step h c = fnv_step h d"
  shows "c = d"
proof -
  have "(h XOR word_of_nat (of_char c)) * 0x01000193 * 0x359C449B = (h XOR word_of_nat (of_char d)) * 0x01000193 * 0x359C449B"
    using assms by (simp add: fnv_step_def)
  then have "h XOR word_of_nat (of_char c) = h XOR word_of_nat (of_char d)"
    by (simp only: mult.assoc fnv_prime_unit mult_1_right)
  then have "h XOR (h XOR word_of_nat (of_char c)) = h XOR (h XOR word_of_nat (of_char d))" by simp
  then have eq: "(word_of_nat (of_char c) :: 32 word) = word_of_nat (of_char d)"
    by (simp flip: xor.assoc)
  have bound: "unat (word_of_nat (of_char x) :: 32 word) = of_char x" for x :: char
    using order.strict_trans [OF of_char_bound [of x], of "2 ^ 32"] by (simp add: unsigned_of_nat take_bit_nat_eq_self)
  from eq have "(of_char c :: nat) = of_char d" by (metis bound)
  then show ?thesis by simp
qed

lemma counted_distinct:
  assumes "k < 10" "l < 10" "counted_candidate base original k = counted_candidate base original l"
  shows "k = l"
proof -
  have "hashToolName (original @ '':'' @ show_nat k) = hashToolName (original @ '':'' @ show_nat l)"
    using assms(3) by (simp add: counted_candidate_def hash_length)
  then have "fnv_step (fnv1a (original @ '':'')) (digit36 k) = fnv_step (fnv1a (original @ '':'')) (digit36 l)"
    using assms(1,2) by (simp add: hash_injective fnv1a_def show_nat.simps [of k] show_nat.simps [of l])
  then have "digit36 k = digit36 l" by (rule fnv_step_injective)
  then have "digit_of (digit36 k) = digit_of (digit36 l)" by simp
  then show ?thesis using assms(1,2) by simp
qed

subsection \<open>The search ends, and the map answers both ways\<close>

lemma rename_loop_None:
  "rename_loop fuel base original owners k c = None \<Longrightarrow>
   (\<forall>i < fuel - 1. \<exists>o'. owners (counted_candidate base original (k + i)) = Some o' \<and> o' \<noteq> original)"
proof (induction fuel arbitrary: k c)
  case (Suc fuel)
  from Suc.prems have rest: "rename_loop fuel base original owners (k + 1) (counted_candidate base original k) = None"
    by (auto split: option.splits if_splits)
  show ?case
  proof (intro allI impI)
    fix i assume i: "i < Suc fuel - 1"
    show "\<exists>o'. owners (counted_candidate base original (k + i)) = Some o' \<and> o' \<noteq> original"
    proof (cases i)
      case 0
      then show ?thesis using i rest by (cases fuel) (auto split: option.splits if_splits)
    next
      case (Suc j)
      then show ?thesis using Suc.IH [OF rest] i by simp
    qed
  qed
qed simp

lemma rename_loop_Some:
  "rename_loop fuel base original owners k c = Some r \<Longrightarrow> owners r = None \<or> owners r = Some original"
  by (induction fuel arbitrary: k c) (auto split: option.splits if_splits)

lemma rename_loop_good:
  "rename_loop fuel base original owners k c = Some r \<Longrightarrow> good_name c \<Longrightarrow> list_all word_char base \<Longrightarrow> good_name r"
  by (induction fuel arbitrary: k c) (auto split: option.splits if_splits simp: good_suffixed)

lemma free_name_Some:
  assumes "free_name original owners = Some r"
  shows "(owners r = None \<or> owners r = Some original) \<and> good_name r"
  using assms good_sanitized [of original]
  by (auto simp: free_name_def Let_def good_name_def [of "sanitizeAnthropicToolName original"] split: option.splits if_splits
      dest: rename_loop_Some rename_loop_good [OF _ good_suffixed(1)])

lemma free_name_total:
  assumes "finite (dom owners)" "card (dom owners) < 9"
  shows "free_name original owners \<noteq> None"
proof
  let ?c = "counted_candidate (sanitizeAnthropicToolName original) original"
  assume "free_name original owners = None"
  then have "rename_loop NAME_TRIES (sanitizeAnthropicToolName original) original owners 1
      (withHashSuffix (sanitizeAnthropicToolName original) original) = None"
    by (auto simp: free_name_def Let_def split: option.splits if_splits)
  from rename_loop_None [OF this] have "?c (Suc i) \<in> dom owners" if "i < 9" for i
    using that by (auto simp: NAME_TRIES_def)
  then have "(\<lambda>i. ?c (Suc i)) ` {..<9} \<subseteq> dom owners" by blast
  moreover have "inj_on (\<lambda>i. ?c (Suc i)) {..<9}"
    using counted_distinct [of "Suc i" "Suc j" for i j] by (simp add: inj_on_def)
  then have "card ((\<lambda>i. ?c (Suc i)) ` {..<9}) = 9" by (simp only: card_image card_lessThan)
  ultimately show False using assms card_mono [of "dom owners" "(\<lambda>i. ?c (Suc i)) ` {..<9}"] by simp
qed

text \<open>The two directions agree, and every answer is a name Claude accepts.\<close>

definition names_ok :: "tool_names \<Rightarrow> bool" where
  "names_ok m =
     ((\<forall>n c. tn_forward m n = Some c \<longrightarrow> tn_reverse m c = Some n \<and> good_name c) \<and>
      (\<forall>c n. tn_reverse m c = Some n \<longrightarrow> tn_forward m n = Some c))"

lemma names_ok_iff: "names_ok m \<Longrightarrow> tn_reverse m c = Some n \<longleftrightarrow> tn_forward m n = Some c"
  unfolding names_ok_def by blast

lemma names_ok_good: "names_ok m \<Longrightarrow> tn_forward m n = Some c \<Longrightarrow> good_name c"
  unfolding names_ok_def by blast

lemma names_okI:
  "(\<And>n c. tn_forward m n = Some c \<Longrightarrow> tn_reverse m c = Some n \<and> good_name c) \<Longrightarrow>
   (\<And>n c. tn_reverse m c = Some n \<Longrightarrow> tn_forward m n = Some c) \<Longrightarrow> names_ok m"
  unfolding names_ok_def by blast

lemma no_names_ok [simp]: "names_ok no_tool_names"
  by (simp add: names_ok_def no_tool_names_def)

lemma toAnthropic_ok:
  assumes "names_ok m" "toAnthropic n m = Some (c, m')"
  shows "names_ok m'" "tn_forward m' n = Some c" "tn_forward m \<subseteq>\<^sub>m tn_forward m'"
    "dom (tn_forward m') \<subseteq> insert n (dom (tn_forward m))" "dom (tn_reverse m') \<subseteq> insert c (dom (tn_reverse m))"
proof -
  consider (known) "tn_forward m n = Some c" "m' = m"
    | (new) "tn_forward m n = None" "free_name n (tn_reverse m) = Some c"
        "m' = m\<lparr>tn_forward := (tn_forward m)(n \<mapsto> c), tn_reverse := (tn_reverse m)(c \<mapsto> n)\<rparr>"
    using assms(2) by (auto simp: toAnthropic_def split: option.splits)
  then have "names_ok m' \<and> tn_forward m' n = Some c \<and> tn_forward m \<subseteq>\<^sub>m tn_forward m' \<and>
    dom (tn_forward m') \<subseteq> insert n (dom (tn_forward m)) \<and> dom (tn_reverse m') \<subseteq> insert c (dom (tn_reverse m))"
  proof cases
    case new
    have "tn_reverse m c \<noteq> Some n" using names_ok_iff [OF assms(1), of c n] new(1) by simp
    with free_name_Some [OF new(2)] have "tn_reverse m c = None" by blast
    moreover have "names_ok m'"
    proof (rule names_okI)
      fix x d
      show "tn_reverse m' d = Some x \<and> good_name d" if "tn_forward m' x = Some d"
        using that free_name_Some [OF new(2)] \<open>tn_reverse m c = None\<close>
          names_ok_iff [OF assms(1), of d x] names_ok_good [OF assms(1), of x d]
        by (auto simp: new(3) split: if_splits)
      show "tn_forward m' x = Some d" if "tn_reverse m' d = Some x"
        using that new(1) names_ok_iff [OF assms(1), of d x] by (auto simp: new(3) split: if_splits)
    qed
    ultimately show ?thesis using new(1) by (auto simp: new(3) map_le_def)
  qed (use assms(1) in \<open>auto simp: map_le_def\<close>)
  then show "names_ok m'" "tn_forward m' n = Some c" "tn_forward m \<subseteq>\<^sub>m tn_forward m'"
    "dom (tn_forward m') \<subseteq> insert n (dom (tn_forward m))" "dom (tn_reverse m') \<subseteq> insert c (dom (tn_reverse m))"
    by blast+
qed

lemma register_names_ok:
  "names_ok m \<Longrightarrow> register_names ns m = Some m' \<Longrightarrow>
   names_ok m' \<and> tn_forward m \<subseteq>\<^sub>m tn_forward m' \<and> set ns \<subseteq> dom (tn_forward m')"
proof (induction ns arbitrary: m)
  case (Cons n ns)
  then obtain c m1 where r: "toAnthropic n m = Some (c, m1)" "register_names ns m1 = Some m'"
    by (auto simp: Option.bind_eq_Some_conv)
  note ok = toAnthropic_ok [OF Cons.prems(1) r(1)]
  from Cons.IH [OF ok(1) r(2)] ok(2,3) show ?case
    by (auto intro: map_le_trans simp: map_le_def dom_def)
qed simp

text \<open>
  The names a tool map hands to Claude are valid, no two tools share one, a name once given is kept, and every
  answer that comes back is read as the tool it was given for. Below nine tools the map can always be built.
\<close>

theorem tool_names_round_trip:
  assumes "createAnthropicToolNameMap names = Some m"
  shows "(\<forall>n \<in> set names. \<exists>c. toAnthropic n m = Some (c, m) \<and> good_name c \<and> toOriginal m c = Some n) \<and>
    inj_on (tn_forward m) (set names) \<and>
    (\<forall>n c m'. toAnthropic n m = Some (c, m') \<longrightarrow> toOriginal m' c = Some n \<and> good_name c \<and>
       (\<forall>x \<in> set names. toAnthropic x m' = Some (the (tn_forward m x), m')))"
proof -
  note reg = register_names_ok [OF no_names_ok assms [unfolded createAnthropicToolNameMap_def]]
  have known: "\<exists>c. tn_forward m n = Some c \<and> tn_reverse m c = Some n \<and> good_name c" if "n \<in> set names" for n
  proof -
    have "n \<in> dom (tn_forward m)" using reg that by blast
    then obtain c where "tn_forward m n = Some c" by blast
    then show ?thesis using reg names_ok_iff [of m c n] names_ok_good [of m n c] by simp
  qed
  then have "inj_on (tn_forward m) (set names)" by (intro inj_onI) (metis option.sel)
  moreover have "toOriginal m' c = Some n \<and> good_name c \<and> (\<forall>x \<in> set names. toAnthropic x m' = Some (the (tn_forward m x), m'))"
    if "toAnthropic n m = Some (c, m')" for n c m'
  proof -
    note ok = toAnthropic_ok [OF conjunct1 [OF reg] that]
    have "tn_forward m' x = tn_forward m x" if "x \<in> set names" for x
      using ok(3) known [OF that] unfolding map_le_def by (metis domI)
    then have "\<forall>x \<in> set names. toAnthropic x m' = Some (the (tn_forward m x), m')"
      using known by (fastforce simp: toAnthropic_def)
    then show ?thesis
      using ok(2) names_ok_iff [OF ok(1), of c n] names_ok_good [OF ok(1), of n c] by (simp add: toOriginal_def)
  qed
  moreover have "\<forall>n \<in> set names. \<exists>c. toAnthropic n m = Some (c, m) \<and> good_name c \<and> toOriginal m c = Some n"
    using known by (fastforce simp: toAnthropic_def toOriginal_def)
  ultimately show ?thesis by blast
qed

theorem tool_names_round_trip_witness:
  "\<exists>m. createAnthropicToolNameMap [''db.query'', ''read''] = Some m \<and> toOriginal m ''db_query'' = Some ''db.query'' \<and>
    inj_on (tn_forward m) (set [''db.query'', ''read''])"
proof -
  have names: "case createAnthropicToolNameMap [''db.query'', ''read''] of None \<Rightarrow> False
      | Some m \<Rightarrow> map_option fst (toAnthropic ''db.query'' m) = Some ''db_query''"
    by code_simp
  then obtain m where m: "createAnthropicToolNameMap [''db.query'', ''read''] = Some m" by (auto split: option.splits)
  with names obtain m' where "toAnthropic ''db.query'' m = Some (''db_query'', m')" by auto
  with tool_names_round_trip [OF m] m show ?thesis by auto
qed

text \<open>How many tools a request may have before the nine counted names could run out.\<close>

lemma tool_names_total:
  "length names < 10 \<Longrightarrow> createAnthropicToolNameMap names \<noteq> None"
proof -
  have "register_names ns m \<noteq> None"
    if "names_ok m" "finite (dom (tn_reverse m))" "card (dom (tn_reverse m)) + length ns < 10" for ns m
    using that
  proof (induction ns arbitrary: m)
    case (Cons n ns)
    then obtain c m' where r: "toAnthropic n m = Some (c, m')"
      using free_name_total [of "tn_reverse m" n] by (cases "tn_forward m n") (auto simp: toAnthropic_def)
    note ok = toAnthropic_ok [OF Cons.prems(1) r]
    have fin: "finite (dom (tn_reverse m'))" using ok(5) Cons.prems(2) finite_subset by blast
    have "card (dom (tn_reverse m')) \<le> Suc (card (dom (tn_reverse m)))"
      using card_mono [OF _ ok(5)] Cons.prems(2) by (simp add: card_insert_if split: if_splits)
    with Cons.IH [OF ok(1) fin] Cons.prems(3) r show ?case by simp
  qed simp
  from this [of no_tool_names names] show "length names < 10 \<Longrightarrow> createAnthropicToolNameMap names \<noteq> None"
    by (simp add: createAnthropicToolNameMap_def no_tool_names_def names_ok_def)
qed

end
