(* ===== verification/Tool_Xml.thy ===== *)
theory Tool_Xml
  imports Tool_Names Prelude
begin

text \<open>
  Tool calls that a model wrote as XML into its text: \<open>protocol/anthropic/tool-xml-recovery.ts\<close>. The regular expressions
  are deterministic, so each is a scan: an element is the leftmost opener whose name attribute and closing tag (with the
  same prefix) are found, its body is the shortest one. Numbers are rationals, so a number that a double would round is
  recognised only when it is an unsafe integer.
\<close>

datatype recovery_segment = Text_segment string | Tool_segment string json_object

subsection \<open>Openers\<close>

definition quote_mark :: char where "quote_mark = CHR 0x22"

definition BARE_INVOKE_START :: string where
  "BARE_INVOKE_START = ''<invoke name='' @ [quote_mark]"

definition ANTML_INVOKE_START :: string where
  "ANTML_INVOKE_START = ''<'' @ ''antml:'' @ ''invoke name='' @ [quote_mark]"

definition INVOKE_STARTS :: "string list" where
  "INVOKE_STARTS = [BARE_INVOKE_START, ANTML_INVOKE_START]"

text \<open>\<open>indexOf\<close> for a substring.\<close>

fun index_of_text :: "string \<Rightarrow> string \<Rightarrow> nat option" where
  "index_of_text p [] = (if p = [] then Some 0 else None)"
| "index_of_text p (c # s) = (if startsWith p (c # s) then Some 0 else map_option Suc (index_of_text p s))"

definition least_of :: "nat option \<Rightarrow> nat option \<Rightarrow> nat option" where
  "least_of a b = (case b of None \<Rightarrow> a | Some j \<Rightarrow> (case a of None \<Rightarrow> Some j | Some i \<Rightarrow> if j < i then Some j else Some i))"

definition invokeStartIndex :: "string \<Rightarrow> nat option" where
  "invokeStartIndex text = foldl (\<lambda>first marker. least_of first (index_of_text marker text)) None INVOKE_STARTS"

definition hasInvokeStart :: "string \<Rightarrow> bool" where
  "hasInvokeStart text = (invokeStartIndex text \<noteq> None)"

definition text_suffix :: "nat \<Rightarrow> string \<Rightarrow> string" where
  "text_suffix n text = drop (length text - n) text"

fun prefix_suffix_from :: "nat \<Rightarrow> string \<Rightarrow> nat" where
  "prefix_suffix_from 0 text = 0"
| "prefix_suffix_from (Suc n) text =
     (if list_ex (startsWith (text_suffix (Suc n) text)) INVOKE_STARTS then Suc n else prefix_suffix_from n text)"

definition invokeStartPrefixSuffixLength :: "string \<Rightarrow> nat" where
  "invokeStartPrefixSuffixLength text =
     prefix_suffix_from (min (length text) (fold max (map length INVOKE_STARTS) 0 - 1)) text"

subsection \<open>Elements\<close>

text \<open>The text before the first occurrence of \<open>p\<close>, and what follows that occurrence.\<close>

fun split_at_text :: "string \<Rightarrow> string \<Rightarrow> (string \<times> string) option" where
  "split_at_text p [] = (if p = [] then Some ([], []) else None)"
| "split_at_text p (c # s) =
     (if startsWith p (c # s) then Some ([], drop (length p) (c # s))
      else map_option (\<lambda>(a, b). (c # a, b)) (split_at_text p s))"

text \<open>An element that opens right here, with this prefix: its name, its body and what follows it.\<close>

definition element_with :: "string \<Rightarrow> string \<Rightarrow> string \<Rightarrow> (string \<times> string \<times> string) option" where
  "element_with prefix tag s =
     Option.bind (strip_word (''<'' @ prefix @ tag @ '' name='' @ [quote_mark]) s) (\<lambda>r.
       let name = takeWhile (\<lambda>c. c \<noteq> quote_mark) r in
       if name = [] then None
       else Option.bind (strip_word [quote_mark, CHR ''>''] (drop (length name) r)) (\<lambda>r'.
         map_option (\<lambda>(body, rest). (name, body, rest)) (split_at_text (''</'' @ prefix @ tag @ ''>'') r')))"

definition element_at :: "string \<Rightarrow> string \<Rightarrow> (string \<times> string \<times> string) option" where
  "element_at tag s = or_else (element_with ''antml:'' tag s) (element_with [] tag s)"

text \<open>One match: the text skipped before it, the matched text, the name and the body.\<close>

record element =
  el_before :: string
  el_raw :: string
  el_name :: string
  el_body :: string

definition put_before :: "char \<Rightarrow> element list \<times> string \<Rightarrow> element list \<times> string" where
  "put_before c r = (case r of ([], tail) \<Rightarrow> ([], c # tail) | (m # ms, tail) \<Rightarrow> (m\<lparr>el_before := c # el_before m\<rparr> # ms, tail))"

lemma strip_word_split: "strip_word w s = Some r \<Longrightarrow> s = w @ r"
  by (auto simp: strip_word_def split: if_splits) (metis append_take_drop_id)

lemma split_at_text_split: "split_at_text p s = Some (a, b) \<Longrightarrow> s = a @ p @ b"
proof (induction s arbitrary: a b)
  case (Cons c s)
  then show ?case by (cases "startsWith p (c # s)") (auto simp: startsWith_iff)
qed (simp split: if_splits)

lemma element_with_split:
  assumes "element_with prefix tag s = Some (name, body, rest)"
  shows "\<exists>a. a \<noteq> [] \<and> s = a @ rest"
proof -
  obtain r r' where w: "strip_word (''<'' @ prefix @ tag @ '' name='' @ [quote_mark]) s = Some r"
    "strip_word [quote_mark, CHR ''>''] (drop (length (takeWhile (\<lambda>c. c \<noteq> quote_mark) r)) r) = Some r'"
    "split_at_text (''</'' @ prefix @ tag @ ''>'') r' = Some (body, rest)"
    using assms by (auto simp: element_with_def Let_def Option.bind_eq_Some_conv split: if_splits)
  have "r = takeWhile (\<lambda>c. c \<noteq> quote_mark) r @ drop (length (takeWhile (\<lambda>c. c \<noteq> quote_mark) r)) r"
    by (metis append_take_drop_id takeWhile_eq_take)
  with strip_word_split [OF w(1)] strip_word_split [OF w(2)] split_at_text_split [OF w(3)]
  have "s = ((''<'' @ prefix @ tag @ '' name='' @ [quote_mark]) @ takeWhile (\<lambda>c. c \<noteq> quote_mark) r @ [quote_mark, CHR ''>''] @
      body @ ''</'' @ prefix @ tag @ ''>'') @ rest"
    by (metis append.assoc)
  then show ?thesis by blast
qed

lemma element_at_split: "element_at tag s = Some (name, body, rest) \<Longrightarrow> \<exists>a. a \<noteq> [] \<and> s = a @ rest"
  by (auto simp: element_at_def or_else_def split: option.splits dest: element_with_split)

lemma element_at_shrinks: "element_at tag s = Some (name, body, rest) \<Longrightarrow> length rest < length s"
  by (drule element_at_split) auto

function scan_elements :: "string \<Rightarrow> string \<Rightarrow> element list \<times> string" where
  "scan_elements tag [] = ([], [])"
| "scan_elements tag (c # s) =
     (case element_at tag (c # s) of
        None \<Rightarrow> put_before c (scan_elements tag s)
      | Some (name, body, rest) \<Rightarrow>
          (case scan_elements tag rest of (ms, tail) \<Rightarrow>
             (\<lparr>el_before = [], el_raw = take (Suc (length s) - length rest) (c # s), el_name = name, el_body = body\<rparr> # ms, tail)))"
  by pat_completeness auto
termination
  by (relation "measure (\<lambda>(tag, s). length s)") (auto dest: element_at_shrinks)

subsection \<open>Arguments\<close>

definition looks_like_json :: "string \<Rightarrow> bool" where
  "looks_like_json t =
     (t \<in> {''true'', ''false'', ''null''} \<or>
      (case t of [] \<Rightarrow> False | c # _ \<Rightarrow> c \<in> {CHR ''-'', CHR ''{'', CHR ''['', quote_mark} \<or> is_digit c))"

definition coerceParameterValue :: "string \<Rightarrow> json" where
  "coerceParameterValue raw =
     (if \<not> looks_like_json (trim raw) then JStr raw
      else
        (case JSON_parse (trim raw) of
           None \<Rightarrow> JStr raw
         | Some (JNum n) \<Rightarrow> if n \<in> \<int> \<and> \<not> isSafeInteger \<lfloor>n\<rfloor> then JStr raw else JNum n
         | Some v \<Rightarrow> v))"

definition parseParameters :: "string \<Rightarrow> json_object" where
  "parseParameters body =
     foldl (\<lambda>input m. set_prop (el_name m) (coerceParameterValue (el_body m)) input) [] (fst (scan_elements ''parameter'' body))"

subsection \<open>Recovery\<close>

definition appendText :: "recovery_segment list \<Rightarrow> string \<Rightarrow> recovery_segment list" where
  "appendText segments text =
     (if text = [] then segments
      else
        (case last_opt segments of
           Some (Text_segment t) \<Rightarrow> butlast segments @ [Text_segment (t @ text)]
         | _ \<Rightarrow> segments @ [Text_segment text]))"

definition lift_element :: "string list \<Rightarrow> recovery_segment list \<Rightarrow> element \<Rightarrow> recovery_segment list" where
  "lift_element declared segments m =
     (let before = appendText segments (el_before m) in
      if el_name m \<in> set declared then before @ [Tool_segment (el_name m) (parseParameters (el_body m))]
      else appendText before (el_raw m))"

definition recoverToolCallsFromText :: "string \<Rightarrow> string list \<Rightarrow> recovery_segment list option" where
  "recoverToolCallsFromText text declared =
     (if declared = [] \<or> \<not> hasInvokeStart text then None
      else
        (case scan_elements ''invoke'' text of (ms, tail) \<Rightarrow>
           if list_all (\<lambda>m. el_name m \<notin> set declared) ms then None
           else Some (appendText (foldl (lift_element declared) [] ms) tail)))"

text \<open>The stricter rule for a message that ended without announcing a tool call.\<close>

fun element_starts :: "nat \<Rightarrow> element list \<Rightarrow> nat list" where
  "element_starts n [] = []"
| "element_starts n (m # ms) =
     (n + length (el_before m)) # element_starts (n + length (el_before m) + length (el_raw m)) ms"

function fence_starts :: "nat \<Rightarrow> string \<Rightarrow> nat list" where
  "fence_starts n text =
     (case index_of_text ''```'' text of None \<Rightarrow> [] | Some i \<Rightarrow> (n + i) # fence_starts (n + i + 3) (drop (i + 3) text))"
  by pat_completeness auto
termination
  by (relation "measure (\<lambda>(n, text). length text)", simp)
    (metis case_prod_conv in_measure index_of_text.simps(1) length_drop diff_less length_greater_0_conv list.distinct(1)
      option.distinct(1) zero_less_numeral add_gr_0)

declare fence_starts.simps [simp del]

definition inside_fence :: "string \<Rightarrow> nat \<Rightarrow> bool" where
  "inside_fence text i = odd (length (filter (\<lambda>f. f < i) (fence_starts 0 text)))"

definition letter :: "char \<Rightarrow> bool" where
  "letter c = (let n = of_char c :: nat in 65 \<le> n \<and> n \<le> 90 \<or> 97 \<le> n \<and> n \<le> 122)"

definition tool_word_at :: "string \<Rightarrow> bool" where
  "tool_word_at s =
     list_ex (\<lambda>w. startsWith w (toLowerCase s) \<and> (case drop (length w) s of [] \<Rightarrow> True | c # _ \<Rightarrow> \<not> word_char c))
       [''invoke'', ''function_calls'']"

definition after_namespace :: "string \<Rightarrow> string option" where
  "after_namespace s =
     (case s of
        [] \<Rightarrow> None
      | c # cs \<Rightarrow>
          if letter c \<or> c = CHR ''_''
          then strip_word '':'' (dropWhile (\<lambda>x. word_char x \<or> x = CHR ''.'' \<or> x = CHR ''-'') cs)
          else None)"

definition residual_at :: "string \<Rightarrow> bool" where
  "residual_at s =
     (case strip_word ''<'' s of
        None \<Rightarrow> False
      | Some r \<Rightarrow>
          let r' = nullish (strip_word ''/'' r) r in
          tool_word_at r' \<or> (case after_namespace r' of None \<Rightarrow> False | Some q \<Rightarrow> tool_word_at q))"

fun residualToolXml :: "string \<Rightarrow> bool" where
  "residualToolXml [] = False"
| "residualToolXml (c # s) = (residual_at (c # s) \<or> residualToolXml s)"

fun blank_after_tool :: "bool \<Rightarrow> recovery_segment list \<Rightarrow> bool" where
  "blank_after_tool seen [] = True"
| "blank_after_tool seen (Tool_segment n a # ss) = blank_after_tool True ss"
| "blank_after_tool seen (Text_segment t # ss) = ((seen \<longrightarrow> trim t = []) \<and> blank_after_tool seen ss)"

fun ends_with_tool :: "recovery_segment list \<Rightarrow> bool" where
  "ends_with_tool [] = False"
| "ends_with_tool (Tool_segment n a # ss) = True"
| "ends_with_tool (Text_segment t # ss) = (trim t = [] \<and> ends_with_tool ss)"

definition residual_segment :: "recovery_segment \<Rightarrow> bool" where
  "residual_segment s = (case s of Text_segment t \<Rightarrow> residualToolXml t | Tool_segment n a \<Rightarrow> False)"

definition recoverTerminalToolCallsFromText :: "string \<Rightarrow> string list \<Rightarrow> recovery_segment list option" where
  "recoverTerminalToolCallsFromText text declared =
     (case recoverToolCallsFromText text declared of
        None \<Rightarrow> None
      | Some segments \<Rightarrow>
          if list_ex (inside_fence text) (element_starts 0 (fst (scan_elements ''invoke'' text))) then None
          else if list_ex residual_segment segments then None
          else if \<not> blank_after_tool False segments then None
          else if ends_with_tool (rev segments) then Some segments
          else None)"

subsection \<open>Nothing is lost in a recovery\<close>

lemma put_before_text:
  "concat (map (\<lambda>m. el_before m @ f m) (fst (put_before c r))) @ snd (put_before c r) =
   c # concat (map (\<lambda>m. el_before m @ f m) (fst r)) @ snd r" if "\<And>m. f (m\<lparr>el_before := c # el_before m\<rparr>) = f m" for f
  using that by (cases r) (auto simp: put_before_def split: list.splits)

lemma scan_elements_text:
  "concat (map (\<lambda>m. el_before m @ el_raw m) (fst (scan_elements tag s))) @ snd (scan_elements tag s) = s"
proof (induction tag s rule: scan_elements.induct)
  case (2 tag c s)
  show ?case
  proof (cases "element_at tag (c # s)")
    case None
    with 2(1) show ?thesis by (simp add: put_before_text)
  next
    case (Some r)
    obtain name body rest where r: "r = (name, body, rest)" by (cases r)
    obtain a where a: "c # s = a @ rest" using element_at_split Some r by blast
    then have "take (Suc (length s) - length rest) (c # s) = a"
      by (metis add_diff_cancel_right' append_eq_conv_conj length_Cons length_append)
    then have "scan_elements tag (c # s) =
        (\<lparr>el_before = [], el_raw = a, el_name = name, el_body = body\<rparr> # fst (scan_elements tag rest), snd (scan_elements tag rest))"
      by (simp add: Some r split: prod.split)
    with 2(2) [OF Some r [symmetric] refl] show ?thesis unfolding a by simp
  qed
qed simp

definition segment_text :: "recovery_segment \<Rightarrow> string" where
  "segment_text s = (case s of Text_segment t \<Rightarrow> t | Tool_segment n a \<Rightarrow> [])"

definition segment_tools :: "recovery_segment list \<Rightarrow> (string \<times> json_object) list" where
  "segment_tools ss = List.map_filter (\<lambda>s. case s of Text_segment t \<Rightarrow> None | Tool_segment n a \<Rightarrow> Some (n, a)) ss"

lemma segment_tools_append [simp]: "segment_tools (xs @ ys) = segment_tools xs @ segment_tools ys"
  by (simp add: segment_tools_def map_filter_def)

lemma segment_tools_simps [simp]: "segment_tools [] = []" "segment_tools [Text_segment t] = []"
  "segment_tools [Tool_segment n a] = [(n, a)]"
  by (simp_all add: segment_tools_def map_filter_def)

definition segments_text :: "recovery_segment list \<Rightarrow> string" where
  "segments_text ss = concat (map segment_text ss)"

lemma appendText_merges:
  assumes "last_opt ss = Some (Text_segment u)"
  shows "ss = butlast ss @ [Text_segment u]"
  using assms by (cases ss rule: rev_cases) (auto simp: last_opt_def split: if_splits)

lemma appendText_text [simp]:
  "segments_text (appendText ss t) = segments_text ss @ t" "segment_tools (appendText ss t) = segment_tools ss"
proof -
  have "segments_text (appendText ss t) = segments_text ss @ t \<and> segment_tools (appendText ss t) = segment_tools ss"
  proof (cases "t \<noteq> [] \<and> (\<exists>u. last_opt ss = Some (Text_segment u))")
    case True
    then obtain u where "last_opt ss = Some (Text_segment u)" "t \<noteq> []" by blast
    moreover from this(1) have "ss = butlast ss @ [Text_segment u]" by (rule appendText_merges)
    then have "segments_text ss = segments_text (butlast ss) @ u" "segment_tools ss = segment_tools (butlast ss)"
      by (metis append_Nil2 concat_append list.simps(8,9) concat.simps map_append recovery_segment.simps(5)
          segment_text_def segments_text_def)
        (metis append_Nil2 \<open>ss = butlast ss @ [Text_segment u]\<close> segment_tools_append segment_tools_simps(2))
    ultimately show ?thesis by (simp add: appendText_def segments_text_def segment_text_def)
  next
    case False
    then show ?thesis
      by (auto simp: appendText_def segments_text_def segment_text_def split: option.splits recovery_segment.splits)
  qed
  then show "segments_text (appendText ss t) = segments_text ss @ t" "segment_tools (appendText ss t) = segment_tools ss" by auto
qed

text \<open>The text that stays when the declared elements are lifted out of it.\<close>

definition left_text :: "string list \<Rightarrow> string \<Rightarrow> string" where
  "left_text declared text =
     (case scan_elements ''invoke'' text of (ms, tail) \<Rightarrow>
        concat (map (\<lambda>m. el_before m @ (if el_name m \<in> set declared then [] else el_raw m)) ms) @ tail)"

definition lifted_tools :: "string list \<Rightarrow> string \<Rightarrow> (string \<times> json_object) list" where
  "lifted_tools declared text =
     map (\<lambda>m. (el_name m, parseParameters (el_body m)))
       (filter (\<lambda>m. el_name m \<in> set declared) (fst (scan_elements ''invoke'' text)))"

lemma segments_text_snoc: "segments_text (ss @ [Tool_segment n a]) = segments_text ss"
  by (simp add: segments_text_def segment_text_def)

lemma lift_element_text:
  "segments_text (lift_element declared ss m) =
     segments_text ss @ el_before m @ (if el_name m \<in> set declared then [] else el_raw m)"
  "segment_tools (lift_element declared ss m) =
     segment_tools ss @ (if el_name m \<in> set declared then [(el_name m, parseParameters (el_body m))] else [])"
  by (simp_all add: lift_element_def Let_def segments_text_snoc)

lemma foldl_lift:
  "segments_text (foldl (lift_element declared) ss ms) =
     segments_text ss @ concat (map (\<lambda>m. el_before m @ (if el_name m \<in> set declared then [] else el_raw m)) ms)"
  "segment_tools (foldl (lift_element declared) ss ms) =
     segment_tools ss @ map (\<lambda>m. (el_name m, parseParameters (el_body m))) (filter (\<lambda>m. el_name m \<in> set declared) ms)"
  by (induction ms arbitrary: ss) (auto simp: lift_element_text)

lemma recovered_segments:
  assumes "recoverToolCallsFromText text declared = Some segments"
  shows "segments_text segments = left_text declared text" "segment_tools segments = lifted_tools declared text"
    "segment_tools segments \<noteq> []"
  using assms
  by (auto simp: recoverToolCallsFromText_def left_text_def lifted_tools_def foldl_lift list_all_iff filter_empty_conv
      split: if_splits prod.splits) (simp add: segments_text_def)

lemma terminal_segments:
  "recoverTerminalToolCallsFromText text declared = Some segments \<Longrightarrow> recoverToolCallsFromText text declared = Some segments"
  by (auto simp: recoverTerminalToolCallsFromText_def split: option.splits if_splits)

lemma lifted_declared: "(n, a) \<in> set (lifted_tools declared text) \<Longrightarrow> n \<in> set declared"
  by (auto simp: lifted_tools_def)

end
