(* ===== verification/Anthropic_Stream.thy ===== *)
theory Anthropic_Stream
  imports Tool_Xml
begin

text \<open>
  The streaming state machine that turns OpenAI chunks into Anthropic events: \<open>convertOpenAIStreamToAnthropic\<close> of
  \<open>protocol/anthropic/stream.ts\<close>. A chunk is the JSON the upstream sent, checked by \<open>OpenAIChunkSchema\<close>; the upstream ends
  or fails after its last chunk. Every operation returns the events it emits, the new state and whether it threw. The
  admission of retained bytes is asked once per total, so it is a function of the total; a tool name whose ten candidates
  are all taken counts as a failure. Printing a number is an argument.
\<close>

subsection \<open>Chunks\<close>

record tool_delta =
  td_index :: nat
  td_id :: "string option"
  td_name :: "string option"
  td_args :: "string option"

record thinking_block =
  tb_type :: string
  tb_data :: "string option"
  tb_signature :: "string option"

record chunk_delta =
  cd_role :: "string option"
  cd_content :: "string option"
  cd_reasoning :: "string option"
  cd_thinking :: "thinking_block list"
  cd_tools :: "tool_delta list"

record chunk_usage =
  cu_prompt :: "rat option"
  cu_completion :: "rat option"
  cu_cached :: "rat option"
  cu_creation :: "rat option"
  cu_details :: "json option"

record openai_chunk =
  oc_id :: "string option"
  oc_model :: "string option"
  oc_delta :: "chunk_delta option"
  oc_finish :: "string option"
  oc_usage :: "chunk_usage option"

subsection \<open>The schema of a chunk\<close>

definition schema_string :: "json \<Rightarrow> bool" where
  "schema_string v = (case v of JStr s \<Rightarrow> True | _ \<Rightarrow> False)"

definition schema_number :: "json \<Rightarrow> bool" where
  "schema_number v = (case v of JNum n \<Rightarrow> True | _ \<Rightarrow> False)"

definition schema_int :: "json \<Rightarrow> bool" where
  "schema_int v = (case v of JNum n \<Rightarrow> n \<in> \<int> \<and> isSafeInteger \<lfloor>n\<rfloor> | _ \<Rightarrow> False)"

definition schema_count :: "json \<Rightarrow> bool" where
  "schema_count v = (schema_int v \<and> (case v of JNum n \<Rightarrow> 0 \<le> n | _ \<Rightarrow> False))"

definition schema_nullable :: "(json \<Rightarrow> bool) \<Rightarrow> json \<Rightarrow> bool" where
  "schema_nullable P v = (v = JNull \<or> P v)"

definition schema_array :: "(json \<Rightarrow> bool) \<Rightarrow> json \<Rightarrow> bool" where
  "schema_array P v = (case v of JArr vs \<Rightarrow> list_all P vs | _ \<Rightarrow> False)"

definition required :: "string \<Rightarrow> (json \<Rightarrow> bool) \<Rightarrow> json \<Rightarrow> bool" where
  "required k P obj = (case prop_of k obj of None \<Rightarrow> False | Some v \<Rightarrow> P v)"

definition optional :: "string \<Rightarrow> (json \<Rightarrow> bool) \<Rightarrow> json \<Rightarrow> bool" where
  "optional k P obj = (case prop_of k obj of None \<Rightarrow> True | Some v \<Rightarrow> P v)"

definition schema_object :: "(json \<Rightarrow> bool) list \<Rightarrow> json \<Rightarrow> bool" where
  "schema_object props v = (case v of JObj kvs \<Rightarrow> list_all (\<lambda>f. f v) props | _ \<Rightarrow> False)"

definition IRAnnotationSchema :: "json \<Rightarrow> bool" where
  "IRAnnotationSchema = schema_object
     [required ''type'' schema_string, optional ''url'' schema_string, optional ''title'' schema_string,
      optional ''text'' schema_string, optional ''start_index'' schema_int, optional ''end_index'' schema_int]"

definition IRTopLogprobSchema :: "json \<Rightarrow> bool" where
  "IRTopLogprobSchema = schema_object
     [required ''token'' schema_string, required ''logprob'' schema_number,
      optional ''bytes'' (schema_nullable (schema_array schema_int))]"

definition IRLogprobTokenSchema :: "json \<Rightarrow> bool" where
  "IRLogprobTokenSchema = schema_object
     [required ''token'' schema_string, required ''logprob'' schema_number,
      optional ''bytes'' (schema_nullable (schema_array schema_int)),
      optional ''top_logprobs'' (schema_array IRTopLogprobSchema)]"

definition IRLogprobsSchema :: "json \<Rightarrow> bool" where
  "IRLogprobsSchema = schema_object
     [optional ''content'' (schema_nullable (schema_array IRLogprobTokenSchema)),
      optional ''refusal'' (schema_nullable (schema_array IRLogprobTokenSchema))]"

definition OpenAIToolCallDeltaSchema :: "json \<Rightarrow> bool" where
  "OpenAIToolCallDeltaSchema = schema_object
     [required ''index'' schema_count, optional ''id'' schema_string, optional ''type'' (\<lambda>v. v = JStr ''function''),
      optional ''function'' (schema_object [optional ''name'' schema_string, optional ''arguments'' schema_string])]"

definition OpenAIChunkDeltaSchema :: "json \<Rightarrow> bool" where
  "OpenAIChunkDeltaSchema = schema_object
     [optional ''role'' schema_string, optional ''content'' (schema_nullable schema_string),
      optional ''tool_calls'' (schema_array OpenAIToolCallDeltaSchema),
      optional ''reasoning_content'' (schema_nullable schema_string),
      optional ''thinking_blocks''
        (schema_array (schema_object [required ''type'' schema_string, optional ''data'' schema_string])),
      optional ''refusal'' (schema_nullable schema_string), optional ''annotations'' (schema_array IRAnnotationSchema),
      optional ''logprobs'' (schema_nullable IRLogprobsSchema)]"

definition OpenAIChunkChoiceSchema :: "json \<Rightarrow> bool" where
  "OpenAIChunkChoiceSchema = schema_object
     [optional ''index'' schema_int, optional ''delta'' OpenAIChunkDeltaSchema,
      optional ''finish_reason'' (schema_nullable schema_string)]"

definition OpenAIChunkUsageSchema :: "json \<Rightarrow> bool" where
  "OpenAIChunkUsageSchema = schema_object
     [optional ''prompt_tokens'' schema_count, optional ''completion_tokens'' schema_count,
      optional ''total_tokens'' schema_count, optional ''cached_tokens'' schema_count,
      optional ''cache_creation_tokens'' schema_count,
      optional ''prompt_tokens_details'' (schema_object [optional ''cached_tokens'' schema_count]),
      optional ''completion_tokens_details'' (schema_object [optional ''reasoning_tokens'' schema_count])]"

definition OpenAIChunkSchema :: "json \<Rightarrow> bool" where
  "OpenAIChunkSchema = schema_object
     [optional ''id'' schema_string, optional ''model'' schema_string,
      optional ''choices'' (schema_array OpenAIChunkChoiceSchema),
      optional ''usage'' (schema_nullable OpenAIChunkUsageSchema)]"

text \<open>Reading a chunk that the schema accepts; \<open>null\<close> and a missing field are the same.\<close>

definition as_number :: "json option \<Rightarrow> rat option" where
  "as_number v = (case v of Some (JNum n) \<Rightarrow> Some n | _ \<Rightarrow> None)"

definition as_list :: "json option \<Rightarrow> json list" where
  "as_list v = (case v of Some (JArr vs) \<Rightarrow> vs | _ \<Rightarrow> [])"

definition read_tool_delta :: "json \<Rightarrow> tool_delta" where
  "read_tool_delta v =
     \<lparr>td_index = nat \<lfloor>nullish (as_number (prop_of ''index'' v)) 0\<rfloor>, td_id = as_string (prop_of ''id'' v),
      td_name = as_string (opt_prop ''name'' (prop_of ''function'' v)),
      td_args = as_string (opt_prop ''arguments'' (prop_of ''function'' v))\<rparr>"

definition read_thinking :: "json \<Rightarrow> thinking_block" where
  "read_thinking v =
     \<lparr>tb_type = nullish (as_string (prop_of ''type'' v)) [], tb_data = as_string (prop_of ''data'' v),
      tb_signature = as_string (prop_of ''signature'' v)\<rparr>"

definition read_delta :: "json \<Rightarrow> chunk_delta" where
  "read_delta v =
     \<lparr>cd_role = as_string (prop_of ''role'' v), cd_content = as_string (prop_of ''content'' v),
      cd_reasoning = as_string (prop_of ''reasoning_content'' v),
      cd_thinking = map read_thinking (as_list (prop_of ''thinking_blocks'' v)),
      cd_tools = map read_tool_delta (as_list (prop_of ''tool_calls'' v))\<rparr>"

definition read_usage :: "json \<Rightarrow> chunk_usage" where
  "read_usage v =
     \<lparr>cu_prompt = as_number (prop_of ''prompt_tokens'' v), cu_completion = as_number (prop_of ''completion_tokens'' v),
      cu_cached = as_number (prop_of ''cached_tokens'' v), cu_creation = as_number (prop_of ''cache_creation_tokens'' v),
      cu_details = prop_of ''prompt_tokens_details'' v\<rparr>"

definition first_choice :: "json \<Rightarrow> json option" where
  "first_choice v = (case as_list (prop_of ''choices'' v) of [] \<Rightarrow> None | c # cs \<Rightarrow> Some c)"

definition not_null :: "json option \<Rightarrow> json option" where
  "not_null v = (if is_nullish v then None else v)"

definition read_chunk :: "json \<Rightarrow> openai_chunk" where
  "read_chunk v =
     \<lparr>oc_id = as_string (prop_of ''id'' v), oc_model = as_string (prop_of ''model'' v),
      oc_delta = map_option read_delta (opt_prop ''delta'' (first_choice v)),
      oc_finish = as_string (opt_prop ''finish_reason'' (first_choice v)),
      oc_usage = map_option read_usage (not_null (prop_of ''usage'' v))\<rparr>"

definition parse_chunk :: "json \<Rightarrow> openai_chunk option" where
  "parse_chunk v = (if OpenAIChunkSchema v then Some (read_chunk v) else None)"

subsection \<open>Events\<close>

datatype block_start = Start_text | Start_tool string string | Start_thinking | Start_redacted string

datatype block_delta = Text_delta string | Input_json_delta string | Thinking_delta string | Signature_delta string

record start_usage =
  su_input :: rat
  su_output :: rat
  su_cache_read :: "rat option"
  su_cache_creation :: "rat option"

record delta_usage =
  du_output :: rat
  du_input :: "rat option"
  du_cache_read :: "rat option"
  du_cache_creation :: "rat option"

datatype anthropic_event =
    Message_start string string start_usage
  | Block_start nat block_start
  | Block_delta nat block_delta
  | Block_stop nat
  | Message_delta "string option" delta_usage
  | Message_stop

subsection \<open>Finish reasons and usage\<close>

definition STOP_REASON_MAP :: "string \<rightharpoonup> string" where
  "STOP_REASON_MAP = map_of
     [(''stop'', ''end_turn''), (''length'', ''max_tokens''), (''tool_calls'', ''tool_use''), (''function_call'', ''tool_use''),
      (''content_filter'', ''stop_sequence''), (''stop_sequence'', ''stop_sequence'')]"

definition mapStopReason :: "string \<Rightarrow> string" where
  "mapStopReason finish = nullish (STOP_REASON_MAP finish) ''end_turn''"

record ir_usage =
  iu_prompt :: "rat option"
  iu_completion :: "rat option"
  iu_cached :: "rat option"
  iu_creation :: "rat option"
  iu_ephemeral5m :: "rat option"
  iu_ephemeral1h :: "rat option"
  iu_reasoning :: "rat option"
  iu_geo :: "string option"

definition no_ir_usage :: ir_usage where
  "no_ir_usage =
     \<lparr>iu_prompt = None, iu_completion = None, iu_cached = None, iu_creation = None, iu_ephemeral5m = None,
      iu_ephemeral1h = None, iu_reasoning = None, iu_geo = None\<rparr>"

record anthropic_usage =
  au_input :: rat
  au_output :: rat
  au_cache_read :: rat
  au_cache_creation :: "rat option"
  au_breakdown :: "(rat option \<times> rat option) option"
  au_thinking :: "rat option"
  au_geo :: "string option"

definition mapUsage :: "ir_usage \<Rightarrow> anthropic_usage" where
  "mapUsage u =
     \<lparr>au_input = max 0 (nullish (iu_prompt u) 0), au_output = nullish (iu_completion u) 0,
      au_cache_read = nullish (iu_cached u) 0, au_cache_creation = iu_creation u,
      au_breakdown =
        (if iu_ephemeral5m u = None \<and> iu_ephemeral1h u = None then None else Some (iu_ephemeral5m u, iu_ephemeral1h u)),
      au_thinking = iu_reasoning u, au_geo = iu_geo u\<rparr>"

text \<open>\<open>tokenCount\<close> of a field the schema let through.\<close>

definition tokenCount :: "json option \<Rightarrow> rat option" where
  "tokenCount v = (case as_number v of Some n \<Rightarrow> if 0 \<le> n then Some n else None | None \<Rightarrow> None)"

definition cache_read_of :: "chunk_usage \<Rightarrow> rat" where
  "cache_read_of u = nullish (or_else (cu_cached u) (as_number (opt_prop ''cached_tokens'' (cu_details u)))) 0"

definition cache_creation_of :: "chunk_usage \<Rightarrow> rat" where
  "cache_creation_of u =
     nullish (or_else (cu_creation u) (or_else (tokenCount (opt_prop ''cache_creation_tokens'' (cu_details u)))
       (or_else (tokenCount (opt_prop ''cache_creation_input_tokens'' (cu_details u)))
         (tokenCount (opt_prop ''cache_write_tokens'' (cu_details u)))))) 0"

definition positive :: "rat \<Rightarrow> rat option" where
  "positive n = (if 0 < n then Some n else None)"

definition buffered_usage :: "chunk_usage \<Rightarrow> ir_usage" where
  "buffered_usage u =
     no_ir_usage\<lparr>
       iu_prompt := map_option (\<lambda>p. max 0 (p - cache_read_of u - cache_creation_of u)) (cu_prompt u),
       iu_completion := cu_completion u, iu_cached := positive (cache_read_of u), iu_creation := positive (cache_creation_of u)\<rparr>"

subsection \<open>State\<close>

record tool_slot =
  sl_block :: nat
  sl_started :: bool
  sl_id :: string
  sl_name :: string
  sl_original :: string

record anthropic_stream =
  as_started :: bool
  as_next :: nat
  as_open :: "nat list"
  as_thinking :: "nat option"
  as_text :: "nat option"
  as_tools :: "(nat \<times> tool_slot) list"
  as_names :: tool_names
  as_finish :: "string option"
  as_usage :: "ir_usage option"
  as_recovery :: bool
  as_candidate :: "string option"
  as_candidateBytes :: nat
  as_probe :: string
  as_retained :: nat

record stream_options =
  so_id :: "string option"
  so_model :: "string option"
  so_toolNames :: "string list"
  so_xmlRecovery :: bool
  so_admit :: "nat \<Rightarrow> bool"
  so_showNum :: "rat \<Rightarrow> string"

definition createState :: "stream_options \<Rightarrow> anthropic_stream option" where
  "createState opts =
     map_option (\<lambda>names.
       \<lparr>as_started = False, as_next = 0, as_open = [], as_thinking = None, as_text = None, as_tools = [], as_names = names,
        as_finish = None, as_usage = None, as_recovery = so_xmlRecovery opts \<and> so_toolNames opts \<noteq> [],
        as_candidate = None, as_candidateBytes = 0, as_probe = [], as_retained = 0\<rparr>)
       (createAnthropicToolNameMap (so_toolNames opts))"

subsection \<open>Emissions\<close>

text \<open>The events of one operation, the state after it, and whether it threw.\<close>

type_synonym emission = "anthropic_event list \<times> anthropic_stream \<times> bool"

definition emit :: "anthropic_event list \<Rightarrow> anthropic_stream \<Rightarrow> emission" where
  "emit es s = (es, s, False)"

definition then_emit :: "emission \<Rightarrow> (anthropic_stream \<Rightarrow> emission) \<Rightarrow> emission" where
  "then_emit m f =
     (case m of (es, s, threw) \<Rightarrow>
        if threw then (es, s, True) else (case f s of (es', s', threw') \<Rightarrow> (es @ es', s', threw')))"

fun each_emit :: "('a \<Rightarrow> anthropic_stream \<Rightarrow> emission) \<Rightarrow> 'a list \<Rightarrow> anthropic_stream \<Rightarrow> emission" where
  "each_emit f [] s = emit [] s"
| "each_emit f (x # xs) s = then_emit (f x s) (each_emit f xs)"

definition nonEmptyString_of :: "string option \<Rightarrow> string option" where
  "nonEmptyString_of v = (if v = Some [] then None else v)"

definition toAnthropicMessageId :: "string option \<Rightarrow> string" where
  "toAnthropicMessageId v =
     (let safe = map (\<lambda>c. if word_char c \<or> c = CHR ''-'' then c else CHR ''_'') (nullish v ''helm_stream'') in
      if startsWith ''msg_'' safe then safe else ''msg_'' @ safe)"

definition messageStartEvent :: "string option \<Rightarrow> string option \<Rightarrow> anthropic_event" where
  "messageStartEvent mid model =
     Message_start (toAnthropicMessageId mid) (nullish model ''unknown'')
       \<lparr>su_input = 0, su_output = 0, su_cache_read = None, su_cache_creation = None\<rparr>"

definition tempId :: "nat \<Rightarrow> string" where
  "tempId i = ''tmp_tool_'' @ show_nat i"

definition clientToolUseId :: "string \<Rightarrow> nat \<Rightarrow> string" where
  "clientToolUseId sid i = (if startsWith ''tmp_tool_'' sid then ''toolu_synthetic_'' @ show_nat i else sid)"

definition utf8ByteLength :: "string \<Rightarrow> nat" where
  "utf8ByteLength text = sum_list (map (\<lambda>c. if (of_char c :: nat) \<le> 127 then 1 else 2) text)"

definition MAX_XML_CANDIDATE_BYTES :: nat where "MAX_XML_CANDIDATE_BYTES = 1048576"

definition with_block :: "anthropic_stream \<Rightarrow> anthropic_stream" where
  "with_block s = s\<lparr>as_next := Suc (as_next s), as_open := as_open s @ [as_next s]\<rparr>"

definition emitText :: "string \<Rightarrow> anthropic_stream \<Rightarrow> emission" where
  "emitText text s =
     (if text = [] then emit [] s
      else
        (case as_text s of
           Some i \<Rightarrow> emit [Block_delta i (Text_delta text)] s
         | None \<Rightarrow>
             emit [Block_start (as_next s) Start_text, Block_delta (as_next s) (Text_delta text)]
               ((with_block s)\<lparr>as_text := Some (as_next s)\<rparr>)))"

definition close_block :: "nat \<Rightarrow> anthropic_stream \<Rightarrow> emission" where
  "close_block i s =
     (if i \<in> set (as_open s) then emit [Block_stop i] (s\<lparr>as_open := removeAll i (as_open s)\<rparr>) else emit [] s)"

definition closeText :: "anthropic_stream \<Rightarrow> emission" where
  "closeText s =
     (case as_text s of
        None \<Rightarrow> emit [] s
      | Some i \<Rightarrow> then_emit (close_block i s) (\<lambda>s. emit [] (s\<lparr>as_text := None\<rparr>)))"

definition emit_recovered_call :: "stream_options \<Rightarrow> string \<Rightarrow> json_object \<Rightarrow> anthropic_stream \<Rightarrow> emission" where
  "emit_recovered_call opts name input s =
     (let i = as_next s in
      case toAnthropic name (as_names s) of
        None \<Rightarrow> ([], with_block s, True)
      | Some (tool, names) \<Rightarrow>
          then_emit
            (emit [Block_start i (Start_tool (clientToolUseId (tempId i) i) tool),
                   Block_delta i (Input_json_delta (JSON_stringify (so_showNum opts) (JObj input)))]
              ((with_block s)\<lparr>as_names := names\<rparr>))
            (close_block i))"

definition emit_segment :: "stream_options \<Rightarrow> recovery_segment \<Rightarrow> anthropic_stream \<Rightarrow> emission" where
  "emit_segment opts segment s =
     (case segment of
        Text_segment t \<Rightarrow> emitText t s
      | Tool_segment name input \<Rightarrow> then_emit (closeText s) (emit_recovered_call opts name input))"

definition recovered_segments_of :: "bool \<Rightarrow> string \<Rightarrow> string list \<Rightarrow> recovery_segment list option" where
  "recovered_segments_of terminalOnly text declared =
     (if terminalOnly then recoverTerminalToolCallsFromText text declared else recoverToolCallsFromText text declared)"

subsection \<open>One chunk\<close>

definition start_message :: "string option \<Rightarrow> string option \<Rightarrow> anthropic_stream \<Rightarrow> emission" where
  "start_message mid model s =
     (if as_started s then emit [] s else emit [messageStartEvent mid model] (s\<lparr>as_started := True\<rparr>))"

definition emit_reasoning :: "string option \<Rightarrow> anthropic_stream \<Rightarrow> emission" where
  "emit_reasoning reasoning s =
     (case nonEmptyString_of reasoning of
        None \<Rightarrow> emit [] s
      | Some t \<Rightarrow>
          (case as_thinking s of
             Some i \<Rightarrow> emit [Block_delta i (Thinking_delta t)] s
           | None \<Rightarrow>
               emit [Block_start (as_next s) Start_thinking, Block_delta (as_next s) (Thinking_delta t)]
                 ((with_block s)\<lparr>as_thinking := Some (as_next s)\<rparr>)))"

definition emit_redacted :: "thinking_block \<Rightarrow> anthropic_stream \<Rightarrow> emission" where
  "emit_redacted b s =
     (case tb_data b of
        Some d \<Rightarrow>
          if tb_type b = ''redacted_thinking'' then emit [Block_start (as_next s) (Start_redacted d)] (with_block s)
          else emit [] s
      | None \<Rightarrow> emit [] s)"

text \<open>Text while recovery is on: a probe that may still become an opener is held, and so is everything after an opener.\<close>

definition extend_candidate :: "string \<Rightarrow> string \<Rightarrow> anthropic_stream \<Rightarrow> emission" where
  "extend_candidate candidate t s =
     (if MAX_XML_CANDIDATE_BYTES < as_candidateBytes s + utf8ByteLength t
      then
        then_emit (emitText candidate s) (\<lambda>s. then_emit (emitText t s) (\<lambda>s.
          emit [] (s\<lparr>as_candidate := None, as_candidateBytes := 0, as_recovery := False\<rparr>)))
      else emit [] (s\<lparr>as_candidate := Some (candidate @ t), as_candidateBytes := as_candidateBytes s + utf8ByteLength t\<rparr>))"

definition probe_text :: "string \<Rightarrow> anthropic_stream \<Rightarrow> emission" where
  "probe_text t s =
     (let probe = as_probe s @ t; s = s\<lparr>as_probe := []\<rparr> in
      case invokeStartIndex probe of
        Some i \<Rightarrow>
          then_emit (emitText (take i probe) s) (\<lambda>s.
            if MAX_XML_CANDIDATE_BYTES < utf8ByteLength (drop i probe)
            then then_emit (emitText (drop i probe) s) (\<lambda>s. emit [] (s\<lparr>as_recovery := False\<rparr>))
            else emit [] (s\<lparr>as_candidate := Some (drop i probe), as_candidateBytes := utf8ByteLength (drop i probe)\<rparr>))
      | None \<Rightarrow>
          let emitLength = length probe - invokeStartPrefixSuffixLength probe in
          then_emit (emitText (take emitLength probe) s) (\<lambda>s. emit [] (s\<lparr>as_probe := drop emitLength probe\<rparr>)))"

definition emit_content :: "string option \<Rightarrow> anthropic_stream \<Rightarrow> emission" where
  "emit_content content s =
     (case nonEmptyString_of content of
        None \<Rightarrow> emit [] s
      | Some t \<Rightarrow>
          if \<not> as_recovery s then emitText t s
          else (case as_candidate s of Some c \<Rightarrow> extend_candidate c t s | None \<Rightarrow> probe_text t s))"

text \<open>A structured tool call releases what is held and ends the recovery.\<close>

definition release_candidate :: "anthropic_stream \<Rightarrow> emission" where
  "release_candidate s =
     (case as_candidate s of
        None \<Rightarrow> emit [] s
      | Some c \<Rightarrow> then_emit (emitText c s) (\<lambda>s. emit [] (s\<lparr>as_candidate := None, as_candidateBytes := 0\<rparr>)))"

definition release_probe :: "anthropic_stream \<Rightarrow> emission" where
  "release_probe s =
     (if as_probe s = [] then emit [] s else then_emit (emitText (as_probe s) s) (\<lambda>s. emit [] (s\<lparr>as_probe := []\<rparr>)))"

definition end_recovery :: "tool_delta list \<Rightarrow> anthropic_stream \<Rightarrow> emission" where
  "end_recovery tools s =
     (if tools = [] then emit [] s
      else then_emit (release_candidate s) (\<lambda>s. then_emit (release_probe s) (\<lambda>s. emit [] (s\<lparr>as_recovery := False\<rparr>))))"

subsection \<open>Structured tool calls\<close>

definition retained_by :: "tool_delta \<Rightarrow> tool_slot option \<Rightarrow> nat" where
  "retained_by tc slot =
     (if slot = None then 128 else 0) +
     2 * (case td_id tc of None \<Rightarrow> 0 | Some i \<Rightarrow> length i - (case slot of None \<Rightarrow> 0 | Some sl \<Rightarrow> length (sl_id sl))) +
     (case td_name tc of
        None \<Rightarrow> 0
      | Some n \<Rightarrow> if n \<noteq> [] \<and> Some n \<noteq> map_option sl_original slot then 128 + 2 * length n else 0)"

definition retain :: "stream_options \<Rightarrow> nat \<Rightarrow> anthropic_stream \<Rightarrow> emission" where
  "retain opts n s =
     (if n = 0 then emit [] s
      else if so_admit opts (as_retained s + n) then emit [] (s\<lparr>as_retained := as_retained s + n\<rparr>)
      else ([], s, True))"

definition set_slot :: "nat \<Rightarrow> tool_slot \<Rightarrow> anthropic_stream \<Rightarrow> anthropic_stream" where
  "set_slot k slot s = s\<lparr>as_tools := AList.update k slot (as_tools s)\<rparr>"

definition announce_tool :: "tool_delta \<Rightarrow> anthropic_stream \<Rightarrow> emission" where
  "announce_tool tc s =
     (let i = as_next s; s1 = with_block s;
          put = (\<lambda>name names. emit [] (set_slot (td_index tc)
            \<lparr>sl_block = i, sl_started = False, sl_id = nullish (td_id tc) (tempId i), sl_name = name,
             sl_original = nullish (td_name tc) []\<rparr> (s1\<lparr>as_names := names\<rparr>))) in
      case td_name tc of
        None \<Rightarrow> put [] (as_names s1)
      | Some n \<Rightarrow> (case toAnthropic n (as_names s1) of None \<Rightarrow> ([], s1, True) | Some (name, names) \<Rightarrow> put name names))"

definition upgrade_tool :: "tool_delta \<Rightarrow> tool_slot \<Rightarrow> anthropic_stream \<Rightarrow> emission" where
  "upgrade_tool tc slot s =
     (let slot1 = (case nonEmptyString_of (td_id tc) of None \<Rightarrow> slot | Some i \<Rightarrow> slot\<lparr>sl_id := i\<rparr>) in
      case nonEmptyString_of (td_name tc) of
        None \<Rightarrow> emit [] (set_slot (td_index tc) slot1 s)
      | Some n \<Rightarrow>
          (case toAnthropic n (as_names s) of
             None \<Rightarrow> ([], set_slot (td_index tc) (slot1\<lparr>sl_original := n\<rparr>) s, True)
           | Some (name, names) \<Rightarrow>
               emit [] (set_slot (td_index tc) (slot1\<lparr>sl_original := n, sl_name := name\<rparr>) (s\<lparr>as_names := names\<rparr>))))"

definition start_slot :: "nat \<Rightarrow> tool_slot \<Rightarrow> anthropic_stream \<Rightarrow> emission" where
  "start_slot k slot s =
     (if sl_started slot then emit [] s
      else emit [Block_start (sl_block slot) (Start_tool (clientToolUseId (sl_id slot) (sl_block slot)) (sl_name slot))]
             (set_slot k (slot\<lparr>sl_started := True\<rparr>) s))"

definition emit_arguments :: "tool_delta \<Rightarrow> anthropic_stream \<Rightarrow> emission" where
  "emit_arguments tc s =
     (case (nonEmptyString_of (td_args tc), map_of (as_tools s) (td_index tc)) of
        (Some args, Some slot) \<Rightarrow>
          then_emit (start_slot (td_index tc) slot s) (emit [Block_delta (sl_block slot) (Input_json_delta args)])
      | _ \<Rightarrow> emit [] s)"

definition emit_tool_delta :: "stream_options \<Rightarrow> tool_delta \<Rightarrow> anthropic_stream \<Rightarrow> emission" where
  "emit_tool_delta opts tc s =
     then_emit (retain opts (retained_by tc (map_of (as_tools s) (td_index tc))) s) (\<lambda>s.
       then_emit
         (case map_of (as_tools s) (td_index tc) of None \<Rightarrow> announce_tool tc s | Some slot \<Rightarrow> upgrade_tool tc slot s)
         (emit_arguments tc))"

subsection \<open>Usage, finish, and the whole chunk\<close>

definition note_terminal :: "chunk_usage option \<Rightarrow> string option \<Rightarrow> anthropic_stream \<Rightarrow> emission" where
  "note_terminal usage finish s =
     emit [] (s\<lparr>as_usage := (case usage of None \<Rightarrow> as_usage s | Some u \<Rightarrow> Some (buffered_usage u)),
                as_finish := or_else finish (as_finish s)\<rparr>)"

definition delta_content :: "openai_chunk \<Rightarrow> string option" where
  "delta_content chunk = Option.bind (oc_delta chunk) cd_content"

definition delta_tools :: "openai_chunk \<Rightarrow> tool_delta list" where
  "delta_tools chunk = (case oc_delta chunk of None \<Rightarrow> [] | Some d \<Rightarrow> cd_tools d)"

definition delta_thinking :: "openai_chunk \<Rightarrow> thinking_block list" where
  "delta_thinking chunk = (case oc_delta chunk of None \<Rightarrow> [] | Some d \<Rightarrow> cd_thinking d)"

definition convert_parsed :: "stream_options \<Rightarrow> openai_chunk \<Rightarrow> anthropic_stream \<Rightarrow> emission" where
  "convert_parsed opts chunk s =
     then_emit
       (start_message (or_else (nonEmptyString_of (oc_id chunk)) (nonEmptyString_of (so_id opts)))
         (or_else (nonEmptyString_of (oc_model chunk)) (nonEmptyString_of (so_model opts))) s) (\<lambda>s.
     then_emit (emit_reasoning (Option.bind (oc_delta chunk) cd_reasoning) s) (\<lambda>s.
     then_emit (each_emit emit_redacted (delta_thinking chunk) s) (\<lambda>s.
     then_emit (emit_content (delta_content chunk) s) (\<lambda>s.
     then_emit (end_recovery (delta_tools chunk) s) (\<lambda>s.
     then_emit (each_emit (emit_tool_delta opts) (delta_tools chunk) s)
       (note_terminal (oc_usage chunk) (oc_finish chunk)))))))"

definition convert_chunk :: "stream_options \<Rightarrow> json \<Rightarrow> anthropic_stream \<Rightarrow> emission" where
  "convert_chunk opts raw s = (case parse_chunk raw of None \<Rightarrow> ([], s, True) | Some chunk \<Rightarrow> convert_parsed opts chunk s)"

subsection \<open>The end of the stream\<close>

text \<open>After a failure what is held goes out as text.\<close>

definition flush_held :: "anthropic_stream \<Rightarrow> emission" where
  "flush_held s = (case as_candidate s of Some c \<Rightarrow> emitText c s | None \<Rightarrow> emitText (as_probe s) s)"

definition emitRecoveredToolXML :: "stream_options \<Rightarrow> string \<Rightarrow> bool \<Rightarrow> anthropic_stream \<Rightarrow> bool \<times> emission" where
  "emitRecoveredToolXML opts text terminalOnly s =
     (case recovered_segments_of terminalOnly text (so_toolNames opts) of
        None \<Rightarrow> (False, emit [] s)
      | Some segments \<Rightarrow> (True, each_emit (emit_segment opts) segments s))"

definition settle_candidate :: "stream_options \<Rightarrow> anthropic_stream \<Rightarrow> emission" where
  "settle_candidate opts s =
     (case as_candidate s of
        None \<Rightarrow> emitText (as_probe s) s
      | Some c \<Rightarrow>
          let stopReason = mapStopReason (nullish (as_finish s) []);
              terminalOnly = as_finish s = Some ''stop'' \<and> stopReason = ''end_turn'' in
          case (if stopReason = ''tool_use'' \<or> terminalOnly then emitRecoveredToolXML opts c terminalOnly s else (False, emit [] s)) of
            (recovered, m) \<Rightarrow>
              then_emit m (\<lambda>s.
                if recovered then emit [] (if terminalOnly then s\<lparr>as_finish := Some ''tool_calls''\<rparr> else s)
                else emitText c s))"

definition flush_slot :: "nat \<times> tool_slot \<Rightarrow> anthropic_stream \<Rightarrow> emission" where
  "flush_slot kv s =
     (case kv of (k, slot) \<Rightarrow>
        if sl_started slot then emit [] s
        else if sl_name slot = [] then emit [] (s\<lparr>as_open := removeAll (sl_block slot) (as_open s)\<rparr>)
        else start_slot k slot s)"

definition messageDeltaEvent :: "anthropic_stream \<Rightarrow> anthropic_event" where
  "messageDeltaEvent s =
     (let usage = mapUsage (nullish (as_usage s) no_ir_usage) in
      Message_delta (Some (mapStopReason (nullish (as_finish s) [])))
        \<lparr>du_output = au_output usage, du_input = Some (au_input usage), du_cache_read = Some (au_cache_read usage),
         du_cache_creation = au_cache_creation usage\<rparr>)"

definition finish_stream :: "stream_options \<Rightarrow> anthropic_stream \<Rightarrow> emission" where
  "finish_stream opts s =
     then_emit (start_message (nonEmptyString_of (so_id opts)) (nonEmptyString_of (so_model opts)) s) (\<lambda>s.
     then_emit (settle_candidate opts s) (\<lambda>s.
     then_emit (each_emit flush_slot (as_tools s) s) (\<lambda>s.
     then_emit (each_emit close_block [0..<as_next s] s) (\<lambda>s.
     emit [messageDeltaEvent s, Message_stop] s))))"

text \<open>
  The whole conversion of the chunks \<open>raws\<close>; \<open>broken\<close> says that the upstream failed after them. The result is what was
  emitted and whether the conversion threw.
\<close>

definition convert_from :: "stream_options \<Rightarrow> json list \<Rightarrow> bool \<Rightarrow> anthropic_stream \<Rightarrow> emission" where
  "convert_from opts raws broken s =
     (case each_emit (convert_chunk opts) raws s of (es, s1, threw) \<Rightarrow>
        if threw \<or> broken
        then (case flush_held s1 of (es', s2, _) \<Rightarrow> (es @ es', s2, True))
        else (case finish_stream opts s1 of (es', s2, threw') \<Rightarrow> (es @ es', s2, threw')))"

definition convertOpenAIStreamToAnthropic :: "stream_options \<Rightarrow> json list \<Rightarrow> bool \<Rightarrow> anthropic_event list \<times> bool" where
  "convertOpenAIStreamToAnthropic opts raws broken =
     (case createState opts of
        None \<Rightarrow> ([], True)
      | Some s \<Rightarrow> (case convert_from opts raws broken s of (es, s', threw) \<Rightarrow> (es, threw)))"

end
