(* ===== verification/Anthropic_Stream_Facts.thy ===== *)
theory Anthropic_Stream_Facts
  imports Anthropic_Stream
begin

text \<open>
  What an Anthropic client may rely on: the grammar of the event stream as an acceptor, and the proofs that the converter
  obeys it whatever the upstream sends, that it neither loses nor invents text, and that the arguments of parallel tool
  calls are never mixed.
\<close>

subsection \<open>The grammar of an event stream\<close>

datatype block_kind = Kind_text | Kind_tool | Kind_thinking | Kind_redacted

datatype block_phase = Unused | Opened block_kind | Closed

datatype message_phase = Before_message | Within_message "nat \<Rightarrow> block_phase" | Ending_message | Ended_message

definition kind_of :: "block_start \<Rightarrow> block_kind" where
  "kind_of b =
     (case b of Start_text \<Rightarrow> Kind_text | Start_tool i n \<Rightarrow> Kind_tool | Start_thinking \<Rightarrow> Kind_thinking | Start_redacted d \<Rightarrow> Kind_redacted)"

definition fits :: "block_kind \<Rightarrow> block_delta \<Rightarrow> bool" where
  "fits k d =
     (case d of
        Text_delta t \<Rightarrow> k = Kind_text
      | Input_json_delta j \<Rightarrow> k = Kind_tool
      | Thinking_delta t \<Rightarrow> k = Kind_thinking
      | Signature_delta x \<Rightarrow> k = Kind_thinking)"

text \<open>A block index is started once, takes deltas of its kind while it is open, and is stopped once; no block is open at the end.\<close>

fun follow :: "message_phase \<Rightarrow> anthropic_event \<Rightarrow> message_phase option" where
  "follow Before_message (Message_start i m u) = Some (Within_message (\<lambda>_. Unused))"
| "follow (Within_message b) (Block_start i k) =
     (if b i = Unused then Some (Within_message (b(i := Opened (kind_of k)))) else None)"
| "follow (Within_message b) (Block_delta i d) =
     (case b i of Opened k \<Rightarrow> if fits k d then Some (Within_message b) else None | _ \<Rightarrow> None)"
| "follow (Within_message b) (Block_stop i) =
     (case b i of Opened k \<Rightarrow> Some (Within_message (b(i := Closed))) | _ \<Rightarrow> None)"
| "follow (Within_message b) (Message_delta r u) = (if \<forall>i k. b i \<noteq> Opened k then Some Ending_message else None)"
| "follow Ending_message Message_stop = Some Ended_message"
| "follow ph ev = None"

fun follows :: "message_phase \<Rightarrow> anthropic_event list \<Rightarrow> message_phase option" where
  "follows ph [] = Some ph"
| "follows ph (e # es) = Option.bind (follow ph e) (\<lambda>ph'. follows ph' es)"

lemma follows_append: "follows ph (es @ es') = Option.bind (follows ph es) (\<lambda>ph'. follows ph' es')"
  by (induction es arbitrary: ph) (auto simp: Option.bind_assoc)

subsection \<open>How the converter's state tracks the grammar\<close>

definition slot_tracks :: "nat \<Rightarrow> nat list \<Rightarrow> (nat \<Rightarrow> block_phase) \<Rightarrow> tool_slot \<Rightarrow> bool" where
  "slot_tracks n opened b slot =
     (sl_block slot < n \<and> sl_block slot \<in> set opened \<and> b (sl_block slot) = (if sl_started slot then Opened Kind_tool else Unused))"

lemma slot_tracks_fresh:
  "slot_tracks n opened b slot \<Longrightarrow> slot_tracks (Suc n) (opened @ [n]) (b(n := x)) slot"
  "slot_tracks n opened b slot \<Longrightarrow> slot_tracks (Suc n) (opened @ [n]) b slot"
  by (simp_all add: slot_tracks_def)

definition slots :: "anthropic_stream \<Rightarrow> tool_slot set" where
  "slots s = snd ` set (as_tools s)"

lemma slots_simps [simp]:
  "slots (s\<lparr>as_next := n\<rparr>) = slots s" "slots (s\<lparr>as_open := l\<rparr>) = slots s" "slots (s\<lparr>as_text := i\<rparr>) = slots s"
  "slots (s\<lparr>as_thinking := i\<rparr>) = slots s" "slots (s\<lparr>as_finish := f\<rparr>) = slots s" "slots (s\<lparr>as_usage := u\<rparr>) = slots s"
  "slots (s\<lparr>as_recovery := r\<rparr>) = slots s" "slots (s\<lparr>as_candidate := c\<rparr>) = slots s"
  "slots (s\<lparr>as_candidateBytes := m\<rparr>) = slots s" "slots (s\<lparr>as_probe := p\<rparr>) = slots s"
  "slots (s\<lparr>as_retained := m\<rparr>) = slots s" "slots (s\<lparr>as_names := ns\<rparr>) = slots s" "slots (s\<lparr>as_started := x\<rparr>) = slots s"
  by (simp_all add: slots_def)

definition blocks_track :: "anthropic_stream \<Rightarrow> (nat \<Rightarrow> block_phase) \<Rightarrow> bool" where
  "blocks_track s b =
     ((\<forall>i. as_next s \<le> i \<longrightarrow> b i = Unused) \<and>
      (\<forall>i k. b i = Opened k \<longrightarrow> i \<in> set (as_open s)) \<and>
      (\<forall>i. as_text s = Some i \<longrightarrow> b i = Opened Kind_text) \<and>
      (\<forall>i. as_thinking s = Some i \<longrightarrow> b i = Opened Kind_thinking) \<and>
      distinct (map fst (as_tools s)) \<and> distinct (map (sl_block \<circ> snd) (as_tools s)) \<and>
      (\<forall>slot \<in> slots s. slot_tracks (as_next s) (as_open s) b slot))"

definition open_accounted :: "anthropic_stream \<Rightarrow> (nat \<Rightarrow> block_phase) \<Rightarrow> bool" where
  "open_accounted s b =
     (\<forall>i \<in> set (as_open s). (\<exists>k. b i = Opened k) \<or> (\<exists>slot \<in> slots s. sl_block slot = i \<and> \<not> sl_started slot))"

definition tracks :: "bool \<Rightarrow> anthropic_stream \<Rightarrow> message_phase \<Rightarrow> bool" where
  "tracks strict s ph =
     (\<exists>b. ph = Within_message b \<and> as_started s \<and> blocks_track s b \<and> (strict \<longrightarrow> open_accounted s b))"

definition obeys :: "message_phase \<Rightarrow> emission \<Rightarrow> bool" where
  "obeys ph m = (case m of (es, s, threw) \<Rightarrow> \<exists>ph'. follows ph es = Some ph' \<and> tracks (\<not> threw) s ph')"

lemma tracks_weaken: "tracks strict s ph \<Longrightarrow> tracks False s ph"
  by (auto simp: tracks_def)

lemma obeys_emit: "obeys ph (emit es s) \<longleftrightarrow> (\<exists>ph'. follows ph es = Some ph' \<and> tracks True s ph')"
  by (simp add: obeys_def emit_def)

lemma obeys_then:
  assumes "obeys ph m" "\<And>s ph'. tracks True s ph' \<Longrightarrow> obeys ph' (f s)"
  shows "obeys ph (then_emit m f)"
proof -
  obtain es s threw where m: "m = (es, s, threw)" by (cases m)
  with assms(1) obtain ph' where ph': "follows ph es = Some ph'" "tracks (\<not> threw) s ph'" by (auto simp: obeys_def)
  show ?thesis
  proof (cases threw)
    case True
    with ph' show ?thesis by (auto simp: m then_emit_def obeys_def)
  next
    case False
    with assms(2) ph' have "obeys ph' (f s)" by simp
    then show ?thesis using False ph' by (auto simp: m then_emit_def obeys_def follows_append split: prod.splits)
  qed
qed

lemma obeys_each: "(\<And>x s ph. tracks True s ph \<Longrightarrow> obeys ph (f x s)) \<Longrightarrow> tracks True s ph \<Longrightarrow> obeys ph (each_emit f xs s)"
  by (induction xs arbitrary: s ph) (auto simp: obeys_emit intro!: obeys_then)

lemma obeys_nothing [simp]: "obeys ph (emit [] s) = tracks True s ph"
  by (simp add: obeys_emit)

text \<open>Fields the relation does not read.\<close>

lemma tracks_other_fields [simp]:
  "tracks x (s\<lparr>as_finish := f\<rparr>) ph = tracks x s ph" "tracks x (s\<lparr>as_usage := u\<rparr>) ph = tracks x s ph"
  "tracks x (s\<lparr>as_recovery := r\<rparr>) ph = tracks x s ph" "tracks x (s\<lparr>as_candidate := c\<rparr>) ph = tracks x s ph"
  "tracks x (s\<lparr>as_candidateBytes := n\<rparr>) ph = tracks x s ph" "tracks x (s\<lparr>as_probe := p\<rparr>) ph = tracks x s ph"
  "tracks x (s\<lparr>as_retained := m\<rparr>) ph = tracks x s ph" "tracks x (s\<lparr>as_names := ns\<rparr>) ph = tracks x s ph"
  by (auto simp: tracks_def blocks_track_def open_accounted_def)

subsection \<open>Every operation obeys the grammar\<close>

text \<open>A fresh block that is started at once.\<close>

lemma track_fresh:
  assumes "tracks True s (Within_message b)"
  shows "b (as_next s) = Unused" "tracks True (with_block s) (Within_message (b(as_next s := Opened k)))"
  using assms by (auto simp: tracks_def blocks_track_def open_accounted_def with_block_def slot_tracks_fresh)

lemma emitText_obeys:
  assumes "tracks x s ph"
  shows "\<exists>ph'. follows ph (fst (emitText t s)) = Some ph' \<and> tracks x (fst (snd (emitText t s))) ph'"
proof -
  obtain b where b: "ph = Within_message b" "as_started s" "blocks_track s b" "x \<longrightarrow> open_accounted s b"
    using assms by (auto simp: tracks_def)
  show ?thesis
  proof (cases "as_text s")
    case None
    have "b (as_next s) = Unused" using b(3) by (simp add: blocks_track_def)
    moreover have "tracks x ((with_block s)\<lparr>as_text := Some (as_next s)\<rparr>) (Within_message (b(as_next s := Opened Kind_text)))"
      using b None by (auto simp: tracks_def blocks_track_def open_accounted_def with_block_def slot_tracks_fresh)
    ultimately show ?thesis using assms
      by (auto simp: emitText_def emit_def None b(1) kind_of_def fits_def)
  next
    case (Some i)
    then have "b i = Opened Kind_text" using b(3) by (simp add: blocks_track_def)
    with assms show ?thesis by (auto simp: emitText_def emit_def Some b(1) fits_def)
  qed
qed

lemma emitText_fine [simp]: "snd (snd (emitText t s)) = False"
  by (auto simp: emitText_def emit_def split: option.splits)

lemma obeys_emitText [helm_inv]: "tracks True s ph \<Longrightarrow> obeys ph (emitText t s)"
  using emitText_obeys [of True s ph t] emitText_fine [of t s] by (cases "emitText t s") (auto simp: obeys_def)

lemma start_message_obeys [helm_inv]: "tracks True s ph \<Longrightarrow> obeys ph (start_message i m s)"
  by (auto simp: start_message_def tracks_def)

lemma emit_reasoning_obeys [helm_inv]:
  assumes "tracks True s ph"
  shows "obeys ph (emit_reasoning r s)"
proof -
  obtain b where b: "ph = Within_message b" "as_started s" "blocks_track s b" "open_accounted s b"
    using assms by (auto simp: tracks_def)
  show ?thesis
  proof (cases "nonEmptyString_of r")
    case (Some t)
    show ?thesis
    proof (cases "as_thinking s")
      case None
      have "tracks True ((with_block s)\<lparr>as_thinking := Some (as_next s)\<rparr>) (Within_message (b(as_next s := Opened Kind_thinking)))"
        using b None by (auto simp: tracks_def blocks_track_def open_accounted_def with_block_def slot_tracks_fresh)
      then show ?thesis using track_fresh(1) assms
        by (auto simp: emit_reasoning_def Some None obeys_emit b(1) kind_of_def fits_def)
    next
      case (Some i)
      then have "b i = Opened Kind_thinking" using b(3) by (simp add: blocks_track_def)
      with assms show ?thesis by (auto simp: emit_reasoning_def \<open>nonEmptyString_of r = Some t\<close> Some obeys_emit b(1) fits_def)
    qed
  qed (simp add: emit_reasoning_def assms)
qed

lemma emit_redacted_obeys [helm_inv]: "tracks True s ph \<Longrightarrow> obeys ph (emit_redacted r s)"
  using track_fresh [of s] by (auto simp: emit_redacted_def obeys_emit tracks_def [of True s] split: option.split)

lemma extend_candidate_obeys [helm_inv]: "tracks True s ph \<Longrightarrow> obeys ph (extend_candidate c t s)"
  by (auto simp: extend_candidate_def intro!: obeys_then helm_inv)

lemma probe_text_obeys [helm_inv]: "tracks True s ph \<Longrightarrow> obeys ph (probe_text t s)"
  by (auto simp: probe_text_def Let_def intro!: obeys_then helm_inv split: option.split)

lemma emit_content_obeys [helm_inv]: "tracks True s ph \<Longrightarrow> obeys ph (emit_content c s)"
  by (auto simp: emit_content_def intro!: helm_inv split: option.split)

lemma end_recovery_obeys [helm_inv]: "tracks True s ph \<Longrightarrow> obeys ph (end_recovery ts s)"
  by (auto simp: end_recovery_def release_candidate_def release_probe_def intro!: obeys_then helm_inv split: option.split)

lemma retain_obeys [helm_inv]: "tracks True s ph \<Longrightarrow> obeys ph (retain opts n s)"
  by (auto simp: retain_def obeys_def emit_def dest: tracks_weaken)

subsection \<open>Tool slots\<close>

text \<open>A slot that keeps its block and its started flag may change its names; a new slot takes the next block.\<close>

lemma update_values: "sl \<in> snd ` set (AList.update k v kvs) \<Longrightarrow> sl = v \<or> sl \<in> snd ` set kvs"
  by (induction kvs) (auto split: if_splits)

lemma update_keeps: "distinct (map fst kvs) \<Longrightarrow> (l, sl) \<in> set kvs \<Longrightarrow> l \<noteq> k \<Longrightarrow> (l, sl) \<in> set (AList.update k v kvs)"
  by (induction kvs) auto

lemma update_has: "(k, v) \<in> set (AList.update k v kvs)"
  by (induction kvs) auto

lemma update_same_blocks:
  "distinct (map fst kvs) \<Longrightarrow> map_of kvs k = Some slot \<Longrightarrow> sl_block slot' = sl_block slot \<Longrightarrow>
   map (sl_block \<circ> snd) (AList.update k slot' kvs) = map (sl_block \<circ> snd) kvs"
  by (induction kvs) auto

lemma update_new: "map_of kvs k = None \<Longrightarrow> AList.update k v kvs = kvs @ [(k, v)]"
  by (induction kvs) auto

text \<open>A slot that keeps its block and its started flag may change its names; a new slot takes the next block.\<close>

lemma slots_set_slot: "slots (set_slot k slot s) \<subseteq> insert slot (slots s)"
  using update_values [of _ k slot "as_tools s"] by (fastforce simp: slots_def set_slot_def)

lemma slots_kept:
  assumes "distinct (map fst (as_tools s))" "map_of (as_tools s) k = Some slot" "sl \<in> slots s" "sl \<noteq> slot"
  shows "sl \<in> slots (set_slot k slot' s)"
proof -
  obtain l where l: "(l, sl) \<in> set (as_tools s)" using assms(3) by (auto simp: slots_def)
  with assms(1,2,4) have "l \<noteq> k" by (metis map_of_eq_Some_iff option.inject)
  from update_keeps [OF assms(1) l this] show ?thesis by (force simp: slots_def set_slot_def)
qed

lemma slots_has: "slot \<in> slots (set_slot k slot s)"
  using update_has [of k slot "as_tools s"] by (force simp: slots_def set_slot_def)

lemma found_slot: "map_of (as_tools s) k = Some slot \<Longrightarrow> slot \<in> slots s"
  by (force simp: slots_def dest: map_of_SomeD)

lemma slots_inj:
  "distinct (map (sl_block \<circ> snd) (as_tools s)) \<Longrightarrow> x \<in> slots s \<Longrightarrow> y \<in> slots s \<Longrightarrow> sl_block x = sl_block y \<Longrightarrow> x = y"
  by (auto simp: slots_def distinct_map comp_def dest!: inj_onD)

lemma set_slot_simps [simp]:
  "as_next (set_slot k slot s) = as_next s" "as_open (set_slot k slot s) = as_open s" "as_text (set_slot k slot s) = as_text s"
  "as_thinking (set_slot k slot s) = as_thinking s" "as_started (set_slot k slot s) = as_started s"
  "as_tools (set_slot k slot s) = AList.update k slot (as_tools s)"
  by (simp_all add: set_slot_def)

lemma with_block_simps [simp]:
  "as_next (with_block s) = Suc (as_next s)" "as_open (with_block s) = as_open s @ [as_next s]"
  "as_text (with_block s) = as_text s" "as_thinking (with_block s) = as_thinking s" "as_started (with_block s) = as_started s"
  "as_tools (with_block s) = as_tools s" "slots (with_block s) = slots s"
  by (simp_all add: with_block_def)

lemma renamed_slot_tracks:
  assumes "tracks x s ph" "map_of (as_tools s) k = Some slot" "sl_block slot' = sl_block slot" "sl_started slot' = sl_started slot"
  shows "tracks x (set_slot k slot' s) ph"
proof -
  obtain b where b: "ph = Within_message b" "as_started s" "blocks_track s b" "x \<longrightarrow> open_accounted s b"
    using assms(1) by (auto simp: tracks_def)
  have d: "distinct (map fst (as_tools s))" using b(3) by (simp add: blocks_track_def)
  have "slot_tracks (as_next s) (as_open s) b slot"
    using b(3) found_slot [OF assms(2)] by (simp add: blocks_track_def)
  then have "slot_tracks (as_next s) (as_open s) b slot'" using assms(3,4) by (simp add: slot_tracks_def)
  then have "\<forall>sl \<in> slots (set_slot k slot' s). slot_tracks (as_next s) (as_open s) b sl"
    using b(3) slots_set_slot [of k slot' s] by (auto simp: blocks_track_def)
  then have "blocks_track (set_slot k slot' s) b"
    using b(3) by (simp add: blocks_track_def update_same_blocks [OF d assms(2,3)] distinct_update)
  moreover have "open_accounted (set_slot k slot' s) b" if acc: "open_accounted s b"
  proof -
    have "\<exists>y \<in> slots (set_slot k slot' s). sl_block y = sl_block sl \<and> \<not> sl_started y" if "sl \<in> slots s" "\<not> sl_started sl" for sl
      using slots_kept [OF d assms(2) that(1)] slots_has [of slot' k s] assms(3,4) that(2) by (cases "sl = slot") blast+
    with acc show ?thesis unfolding open_accounted_def by simp metis
  qed
  ultimately show ?thesis using b by (simp add: tracks_def)
qed

lemma announced_slot_tracks:
  assumes "tracks True s ph" "map_of (as_tools s) k = None" "sl_block slot = as_next s" "\<not> sl_started slot"
  shows "tracks True (set_slot k slot (with_block s)) ph"
proof -
  obtain b where b: "ph = Within_message b" "as_started s" "blocks_track s b" "open_accounted s b"
    using assms(1) by (auto simp: tracks_def)
  have new: "AList.update k slot (as_tools s) = as_tools s @ [(k, slot)]" by (rule update_new [OF assms(2)])
  have sl: "slots (set_slot k slot (with_block s)) = insert slot (slots s)"
    by (auto simp: slots_def new)
  have k: "k \<notin> fst ` set (as_tools s)" using assms(2) by (simp add: map_of_eq_None_iff)
  have old: "\<forall>sl \<in> slots s. slot_tracks (as_next s) (as_open s) b sl" using b(3) by (simp add: blocks_track_def)
  then have "as_next s \<notin> (sl_block \<circ> snd) ` set (as_tools s)" by (force simp: slots_def slot_tracks_def)
  moreover have "b (as_next s) = Unused" using b(3) by (simp add: blocks_track_def)
  then have "slot_tracks (Suc (as_next s)) (as_open s @ [as_next s]) b slot" using assms(3,4) by (simp add: slot_tracks_def)
  ultimately have "blocks_track (set_slot k slot (with_block s)) b"
    using b(3) k assms(3) old by (auto simp: blocks_track_def sl new slot_tracks_fresh)
  moreover have "open_accounted (set_slot k slot (with_block s)) b"
    using b(4) assms(3,4) by (auto simp: open_accounted_def sl)
  ultimately show ?thesis using b by (simp add: tracks_def)
qed

lemma started_slot_obeys [helm_inv]:
  assumes "tracks True s ph" "map_of (as_tools s) k = Some slot"
  shows "obeys ph (start_slot k slot s)"
    "\<exists>ph'. follows ph (fst (start_slot k slot s)) = Some ph' \<and>
      (\<exists>b. ph' = Within_message b \<and> b (sl_block slot) = Opened Kind_tool)"
proof -
  obtain b where b: "ph = Within_message b" "as_started s" "blocks_track s b" "open_accounted s b"
    using assms(1) by (auto simp: tracks_def)
  have d: "distinct (map fst (as_tools s))" "distinct (map (sl_block \<circ> snd) (as_tools s))"
    using b(3) by (simp_all add: blocks_track_def)
  have st: "slot_tracks (as_next s) (as_open s) b slot" using b(3) found_slot [OF assms(2)] by (simp add: blocks_track_def)
  let ?s' = "set_slot k (slot\<lparr>sl_started := True\<rparr>) s" and ?b' = "b(sl_block slot := Opened Kind_tool)"
  have other: "sl_block sl \<noteq> sl_block slot" if "sl \<in> slots s" "sl \<noteq> slot" for sl
    using slots_inj [OF d(2) that(1) found_slot [OF assms(2)]] that(2) by blast
  have d': "distinct (map (sl_block \<circ> snd) (as_tools ?s'))" using d by (simp add: update_same_blocks [OF d(1) assms(2)])
  have "tracks True ?s' (Within_message ?b')" if "\<not> sl_started slot"
  proof -
    have u: "b (sl_block slot) = Unused" "sl_block slot < as_next s" "sl_block slot \<in> set (as_open s)" using st that by (simp_all add: slot_tracks_def)
    have "slot_tracks (as_next s) (as_open s) ?b' sl" if "sl \<in> slots ?s'" for sl
    proof (cases "sl = slot\<lparr>sl_started := True\<rparr>")
      case True
      then show ?thesis using u by (simp add: slot_tracks_def)
    next
      case False
      then have "sl \<in> slots s" using that slots_set_slot [of k "slot\<lparr>sl_started := True\<rparr>" s] by blast
      moreover have "sl_block sl \<noteq> sl_block slot"
        using slots_inj [OF d' that slots_has] False by auto
      ultimately show ?thesis using b(3) by (auto simp: blocks_track_def slot_tracks_def)
    qed
    moreover have "open_accounted ?s' ?b'"
      unfolding open_accounted_def
    proof
      fix i assume "i \<in> set (as_open ?s')"
      with b(4) have "(\<exists>k. b i = Opened k) \<or> (\<exists>sl \<in> slots s. sl_block sl = i \<and> \<not> sl_started sl)"
        by (simp add: open_accounted_def)
      then show "(\<exists>k. ?b' i = Opened k) \<or> (\<exists>sl \<in> slots ?s'. sl_block sl = i \<and> \<not> sl_started sl)"
        using slots_kept [OF d(1) assms(2)] by (cases "i = sl_block slot") auto
    qed
    ultimately show ?thesis
      using b u by (auto simp: tracks_def blocks_track_def update_same_blocks [OF d(1) assms(2)] distinct_update)
  qed
  then show "obeys ph (start_slot k slot s)"
    using st assms(1) by (auto simp: start_slot_def obeys_emit b(1) slot_tracks_def kind_of_def)
  show "\<exists>ph'. follows ph (fst (start_slot k slot s)) = Some ph' \<and>
      (\<exists>b. ph' = Within_message b \<and> b (sl_block slot) = Opened Kind_tool)"
    using st by (auto simp: start_slot_def emit_def b(1) slot_tracks_def kind_of_def)
qed

lemma set_slot_names: "set_slot k slot (s\<lparr>as_names := ns\<rparr>) = (set_slot k slot s)\<lparr>as_names := ns\<rparr>"
  by (simp add: set_slot_def)

lemma announce_tool_obeys [helm_inv]:
  assumes "tracks True s ph" "map_of (as_tools s) (td_index tc) = None"
  shows "obeys ph (announce_tool tc s)"
proof -
  have *: "tracks True (set_slot (td_index tc) slot (with_block s)) ph" if "sl_block slot = as_next s" "\<not> sl_started slot" for slot
    using announced_slot_tracks [OF assms that] .
  have "tracks False (with_block s) ph"
    using assms(1) by (auto simp: tracks_def blocks_track_def slot_tracks_fresh)
  with * show ?thesis
    by (auto simp: announce_tool_def Let_def obeys_def emit_def set_slot_names split: option.splits)
qed

lemma upgrade_tool_obeys [helm_inv]:
  assumes "tracks True s ph" "map_of (as_tools s) (td_index tc) = Some slot"
  shows "obeys ph (upgrade_tool tc slot s)"
proof -
  have "tracks x (set_slot (td_index tc) slot' s) ph" if "sl_block slot' = sl_block slot" "sl_started slot' = sl_started slot" for slot' x
    using renamed_slot_tracks [OF assms that] by (cases x) (auto intro: tracks_weaken)
  then show ?thesis
    by (auto simp: upgrade_tool_def Let_def obeys_def emit_def set_slot_names split: option.splits)
qed

lemma emit_arguments_obeys [helm_inv]:
  assumes "tracks True s ph"
  shows "obeys ph (emit_arguments tc s)"
proof (cases "nonEmptyString_of (td_args tc)")
  case (Some a)
  show ?thesis
  proof (cases "map_of (as_tools s) (td_index tc)")
    case None
    then show ?thesis using assms Some by (simp add: emit_arguments_def)
  next
    case slot: (Some slot)
    from started_slot_obeys [OF assms slot] show ?thesis
      by (auto simp: emit_arguments_def Some slot obeys_def then_emit_def emit_def follows_append fits_def split: prod.splits)
  qed
qed (simp add: emit_arguments_def assms)

lemma retain_tools: "retain opts n s = (es, s', threw) \<Longrightarrow> as_tools s' = as_tools s"
  by (auto simp: retain_def emit_def split: if_splits)

lemma emit_tool_delta_obeys [helm_inv]: "tracks True s ph \<Longrightarrow> obeys ph (emit_tool_delta opts tc s)"
  by (auto simp: emit_tool_delta_def intro!: obeys_then helm_inv split: option.split)

definition fresh_stream :: "anthropic_stream \<Rightarrow> bool" where
  "fresh_stream s =
     (\<not> as_started s \<and> as_next s = 0 \<and> as_open s = [] \<and> as_text s = None \<and> as_thinking s = None \<and> as_tools s = [] \<and>
      as_candidate s = None \<and> as_probe s = [])"

definition ready :: "anthropic_stream \<Rightarrow> message_phase \<Rightarrow> bool" where
  "ready s ph = (tracks True s ph \<or> (fresh_stream s \<and> ph = Before_message))"

lemma start_message_ready: "ready s ph \<Longrightarrow> obeys ph (start_message i m s)"
  by (auto simp: ready_def start_message_obeys)
    (auto simp: fresh_stream_def start_message_def obeys_emit messageStartEvent_def tracks_def blocks_track_def open_accounted_def slots_def)

lemma convert_parsed_obeys: "ready s ph \<Longrightarrow> obeys ph (convert_parsed opts chunk s)"
  unfolding convert_parsed_def note_terminal_def
  by (intro obeys_then start_message_ready obeys_each helm_inv) simp_all

subsection \<open>The end of the stream\<close>

text \<open>Closing a block that no slot, text or thinking pointer still names.\<close>

lemma closed_tracks:
  assumes "tracks True s (Within_message b)" "b i = Opened k" "\<forall>slot \<in> slots s. sl_block slot \<noteq> i" "as_thinking s \<noteq> Some i"
  shows "i \<in> set (as_open s)"
    "tracks True (s\<lparr>as_open := removeAll i (as_open s), as_text := None\<rparr>) (Within_message (b(i := Closed)))"
    "as_text s \<noteq> Some i \<Longrightarrow> tracks True (s\<lparr>as_open := removeAll i (as_open s)\<rparr>) (Within_message (b(i := Closed)))"
  using assms by (auto simp: tracks_def blocks_track_def open_accounted_def slot_tracks_def)

lemma closeText_obeys [helm_inv]:
  assumes "tracks True s ph"
  shows "obeys ph (closeText s)"
proof (cases "as_text s")
  case (Some i)
  obtain b where b: "ph = Within_message b" "blocks_track s b"
    using assms by (auto simp: tracks_def)
  have i: "b i = Opened Kind_text" using b(2) Some by (simp add: blocks_track_def)
  moreover have "\<forall>slot \<in> slots s. sl_block slot \<noteq> i" "as_thinking s \<noteq> Some i"
    using b(2) i by (auto simp: blocks_track_def slot_tracks_def split: if_splits)
  ultimately have "i \<in> set (as_open s)"
    "tracks True (s\<lparr>as_open := removeAll i (as_open s), as_text := None\<rparr>) (Within_message (b(i := Closed)))"
    using closed_tracks [of s b i Kind_text] assms b(1) by simp_all
  then show ?thesis
    using i by (auto simp: closeText_def Some close_block_def then_emit_def emit_def obeys_def b(1))
qed (simp add: closeText_def assms)

lemma emit_recovered_call_obeys [helm_inv]:
  assumes "tracks True s ph"
  shows "obeys ph (emit_recovered_call opts name input s)"
proof -
  obtain b where b: "ph = Within_message b" "blocks_track s b"
    using assms by (auto simp: tracks_def)
  let ?i = "as_next s" and ?b = "b(as_next s := Opened Kind_tool)"
  note t = track_fresh [OF assms [unfolded b(1)]]
  have "\<forall>slot \<in> slots s. sl_block slot \<noteq> ?i" "as_thinking s \<noteq> Some ?i" "as_text s \<noteq> Some ?i"
    using b(2) t(1) by (auto simp: blocks_track_def slot_tracks_def split: if_splits)
  then have c: "tracks True ((with_block s)\<lparr>as_names := ns, as_open := removeAll ?i (as_open s @ [?i])\<rparr>) (Within_message (?b(?i := Closed)))" for ns
    using closed_tracks(3) [of "(with_block s)\<lparr>as_names := ns\<rparr>" ?b ?i Kind_tool] t(2) [of Kind_tool] by simp
  moreover have "tracks False (with_block s) ph"
    using assms by (auto simp: tracks_def blocks_track_def slot_tracks_fresh)
  ultimately show ?thesis
    using t(1) by (auto simp: emit_recovered_call_def Let_def close_block_def then_emit_def emit_def obeys_def b(1) kind_of_def fits_def
        split: option.split)
qed

lemma emit_segment_obeys [helm_inv]: "tracks True s ph \<Longrightarrow> obeys ph (emit_segment opts segment s)"
  by (auto simp: emit_segment_def intro!: obeys_then helm_inv split: recovery_segment.split)

lemma settle_candidate_obeys [helm_inv]: "tracks True s ph \<Longrightarrow> obeys ph (settle_candidate opts s)"
  by (auto simp: settle_candidate_def emitRecoveredToolXML_def Let_def intro!: obeys_then obeys_each helm_inv split: option.split)

text \<open>While the slots are flushed, and then while the blocks are closed.\<close>

definition flushing :: "(nat \<times> tool_slot) list \<Rightarrow> anthropic_stream \<Rightarrow> message_phase \<Rightarrow> bool" where
  "flushing kvs s ph =
     (\<exists>b. ph = Within_message b \<and> (\<forall>i. as_next s \<le> i \<longrightarrow> b i = Unused) \<and>
        (\<forall>i k. b i = Opened k \<longrightarrow> i \<in> set (as_open s)) \<and>
        (\<forall>i \<in> set (as_open s). (\<exists>k. b i = Opened k) \<or> (\<exists>kv \<in> set kvs. sl_block (snd kv) = i \<and> \<not> sl_started (snd kv))) \<and>
        distinct (map (sl_block \<circ> snd) kvs) \<and>
        (\<forall>kv \<in> set kvs. slot_tracks (as_next s) (as_open s) b (snd kv)))"

definition closing :: "nat list \<Rightarrow> anthropic_stream \<Rightarrow> message_phase \<Rightarrow> bool" where
  "closing js s ph =
     (\<exists>b. ph = Within_message b \<and> (\<forall>i. (\<exists>k. b i = Opened k) \<longleftrightarrow> i \<in> set (as_open s)) \<and> set (as_open s) \<subseteq> set js)"

text \<open>An operation of a list of them that keeps an indexed relation, does not throw and is accepted.\<close>

definition carries :: "(anthropic_stream \<Rightarrow> message_phase \<Rightarrow> bool) \<Rightarrow> message_phase \<Rightarrow> emission \<Rightarrow> bool" where
  "carries R ph m = (case m of (es, s, threw) \<Rightarrow> \<not> threw \<and> (\<exists>ph'. follows ph es = Some ph' \<and> R s ph'))"

lemma carries_emit: "carries R ph (emit es s) \<longleftrightarrow> (\<exists>ph'. follows ph es = Some ph' \<and> R s ph')"
  by (simp add: carries_def emit_def)

lemma carries_then: "carries R ph m \<Longrightarrow> (\<And>s ph'. R s ph' \<Longrightarrow> carries Q ph' (f s)) \<Longrightarrow> carries Q ph (then_emit m f)"
  by (fastforce simp: carries_def then_emit_def follows_append split: prod.splits)

lemma carries_each:
  assumes "\<And>x xs s ph. R (x # xs) s ph \<Longrightarrow> carries (R xs) ph (f x s)" "R xs s ph"
  shows "carries (R []) ph (each_emit f xs s)"
  using assms(2) by (induction xs arbitrary: s ph) (auto simp: carries_emit intro: carries_then assms(1))

lemma flush_slot_carries: "flushing (kv # kvs) s ph \<Longrightarrow> carries (flushing kvs) ph (flush_slot kv s)"
proof -
  assume "flushing (kv # kvs) s ph"
  then obtain b where b: "ph = Within_message b" "\<forall>i. as_next s \<le> i \<longrightarrow> b i = Unused"
    "\<forall>i k. b i = Opened k \<longrightarrow> i \<in> set (as_open s)"
    "\<forall>i \<in> set (as_open s). (\<exists>k. b i = Opened k) \<or> (\<exists>kv \<in> set (kv # kvs). sl_block (snd kv) = i \<and> \<not> sl_started (snd kv))"
    "sl_block (snd kv) \<notin> (sl_block \<circ> snd) ` set kvs" "distinct (map (sl_block \<circ> snd) kvs)"
    "slot_tracks (as_next s) (as_open s) b (snd kv)" "\<forall>kv \<in> set kvs. slot_tracks (as_next s) (as_open s) b (snd kv)"
    by (auto simp: flushing_def)
  obtain k slot where kv: "kv = (k, slot)" by (cases kv)
  show ?thesis
  proof (cases "sl_started slot")
    case True
    then show ?thesis using b by (auto simp: flush_slot_def kv carries_emit flushing_def)
  next
    case False
    then have u: "b (sl_block slot) = Unused" "sl_block slot < as_next s" "sl_block slot \<in> set (as_open s)"
      using b(7) by (simp_all add: kv slot_tracks_def)
    have other: "sl_block (snd kv') \<noteq> sl_block slot" if "kv' \<in> set kvs" for kv'
      using b(5) that by (force simp: kv)
    show ?thesis
    proof (cases "sl_name slot = []")
      case True
      have "flushing kvs (s\<lparr>as_open := removeAll (sl_block slot) (as_open s)\<rparr>) ph"
        unfolding flushing_def using b u other by (auto simp: kv slot_tracks_def)
      then show ?thesis using True False by (simp add: flush_slot_def kv carries_emit)
    next
      case named: False
      have "flushing kvs (set_slot k (slot\<lparr>sl_started := True\<rparr>) s) (Within_message (b(sl_block slot := Opened Kind_tool)))"
        unfolding flushing_def using b u other by (auto simp: kv slot_tracks_def)
      then show ?thesis using named False u by (simp add: flush_slot_def start_slot_def kv carries_emit b(1) kind_of_def)
    qed
  qed
qed

lemma close_block_carries: "closing (j # js) s ph \<Longrightarrow> carries (closing js) ph (close_block j s)"
proof -
  assume "closing (j # js) s ph"
  then obtain b where b: "ph = Within_message b" "\<And>i. i \<in> set (as_open s) \<longleftrightarrow> (\<exists>k. b i = Opened k)" "set (as_open s) \<subseteq> set (j # js)"
    by (auto simp: closing_def)
  show ?thesis
  proof (cases "j \<in> set (as_open s)")
    case True
    then obtain k where "b j = Opened k" using b(2) by blast
    moreover have "closing js (s\<lparr>as_open := removeAll j (as_open s)\<rparr>) (Within_message (b(j := Closed)))"
      using b(2,3) by (auto simp: closing_def)
    ultimately show ?thesis using True by (simp add: close_block_def carries_emit b(1))
  next
    case False
    then have "closing js s ph" using b by (auto simp: closing_def)
    with False show ?thesis by (simp add: close_block_def carries_emit)
  qed
qed

lemma each_flush_carries: "tracks True s ph \<Longrightarrow> carries (flushing []) ph (each_emit flush_slot (as_tools s) s)"
  by (rule carries_each [OF flush_slot_carries])
    (auto simp: flushing_def tracks_def blocks_track_def open_accounted_def slots_def)

lemma flushing_closing: "flushing [] s ph \<Longrightarrow> closing [0..<as_next s] s ph"
  by (fastforce simp: flushing_def closing_def not_le [symmetric])

lemma ending: "closing [] s ph \<Longrightarrow> follows ph [messageDeltaEvent s, Message_stop] = Some Ended_message"
  by (auto simp: closing_def messageDeltaEvent_def Let_def)

text \<open>How a run of the converter may end: thrown in an acceptable place, or with the message stopped.\<close>

definition concludes :: "message_phase \<Rightarrow> emission \<Rightarrow> bool" where
  "concludes ph m =
     (case m of (es, s, threw) \<Rightarrow> if threw then follows ph es \<noteq> None else follows ph es = Some Ended_message)"

lemma obeys_concludes:
  "obeys ph m \<Longrightarrow> (\<And>s ph'. tracks True s ph' \<Longrightarrow> concludes ph' (f s)) \<Longrightarrow> concludes ph (then_emit m f)"
  by (fastforce simp: obeys_def concludes_def then_emit_def follows_append split: prod.splits if_splits)

lemma carries_concludes:
  "carries R ph m \<Longrightarrow> (\<And>s ph'. R s ph' \<Longrightarrow> concludes ph' (f s)) \<Longrightarrow> concludes ph (then_emit m f)"
  by (fastforce simp: carries_def concludes_def then_emit_def follows_append split: prod.splits if_splits)

lemma each_close_carries: "flushing [] s ph \<Longrightarrow> carries (closing []) ph (each_emit close_block [0..<as_next s] s)"
  using carries_each [of closing close_block "[0..<as_next s]" s ph] close_block_carries flushing_closing by blast

lemma finish_stream_concludes: "ready s ph \<Longrightarrow> concludes ph (finish_stream opts s)"
  unfolding finish_stream_def
  by (intro obeys_concludes [OF start_message_ready] obeys_concludes [OF settle_candidate_obeys]
      carries_concludes [OF each_flush_carries] carries_concludes [OF each_close_carries])
    (simp_all add: concludes_def emit_def ending del: follows.simps)

lemma convert_chunk_ready:
  "ready s ph \<Longrightarrow>
   (case convert_chunk opts raw s of (es, s', threw) \<Rightarrow>
      \<exists>ph'. follows ph es = Some ph' \<and> (tracks (\<not> threw) s' ph' \<or> fresh_stream s' \<and> ph' = Before_message))"
proof (cases "parse_chunk raw")
  case (Some chunk)
  assume "ready s ph"
  from convert_parsed_obeys [OF this, of opts chunk] show ?thesis
    by (auto simp: convert_chunk_def Some obeys_def split: prod.splits)
qed (auto simp: convert_chunk_def ready_def dest: tracks_weaken)

lemma each_chunk_ready:
  "ready s ph \<Longrightarrow>
   (case each_emit (convert_chunk opts) raws s of (es, s', threw) \<Rightarrow>
      \<exists>ph'. follows ph es = Some ph' \<and> (tracks (\<not> threw) s' ph' \<or> fresh_stream s' \<and> ph' = Before_message))"
proof (induction raws arbitrary: s ph)
  case Nil
  then show ?case by (auto simp: emit_def ready_def)
next
  case (Cons raw raws)
  obtain es s1 threw where m: "convert_chunk opts raw s = (es, s1, threw)" by (cases "convert_chunk opts raw s")
  with convert_chunk_ready [OF Cons.prems, of opts raw] obtain ph1
    where ph1: "follows ph es = Some ph1" "tracks (\<not> threw) s1 ph1 \<or> fresh_stream s1 \<and> ph1 = Before_message" by auto
  show ?case
  proof (cases threw)
    case True
    with ph1 show ?thesis by (simp add: m then_emit_def)
  next
    case False
    with ph1 have "ready s1 ph1" by (simp add: ready_def)
    from Cons.IH [OF this] show ?thesis using False ph1(1) by (auto simp: m then_emit_def follows_append split: prod.splits)
  qed
qed

lemma flush_held_obeys:
  "tracks x s ph \<or> fresh_stream s \<and> ph = Before_message \<Longrightarrow> \<exists>ph'. follows ph (fst (flush_held s)) = Some ph'"
  by (cases "tracks x s ph")
    (auto simp: flush_held_def fresh_stream_def emitText_def [of "[]"] emit_def split: option.split dest: emitText_obeys)

lemma convert_from_concludes: "ready s ph \<Longrightarrow> concludes ph (convert_from opts raws broken s)"
proof -
  assume r: "ready s ph"
  obtain es s1 threw where m: "each_emit (convert_chunk opts) raws s = (es, s1, threw)" by (cases "each_emit (convert_chunk opts) raws s")
  with each_chunk_ready [OF r, of opts raws] obtain ph1
    where ph1: "follows ph es = Some ph1" "tracks (\<not> threw) s1 ph1 \<or> fresh_stream s1 \<and> ph1 = Before_message" by auto
  show ?thesis
  proof (cases "threw \<or> broken")
    case True
    with flush_held_obeys [OF ph1(2)] ph1(1) show ?thesis
      by (auto simp: convert_from_def m concludes_def follows_append split: prod.splits)
  next
    case False
    with ph1(2) have "ready s1 ph1" by (simp add: ready_def)
    from finish_stream_concludes [OF this, of opts] show ?thesis using False ph1(1)
      by (auto simp: convert_from_def m concludes_def follows_append split: prod.splits if_splits)
  qed
qed

lemma createState_fresh: "createState opts = Some s \<Longrightarrow> fresh_stream s"
  by (auto simp: createState_def fresh_stream_def)

lemma conversion_well_formed:
  "(case convertOpenAIStreamToAnthropic opts raws broken of
      (es, threw) \<Rightarrow> if threw then follows Before_message es \<noteq> None else follows Before_message es = Some Ended_message)"
proof (cases "createState opts")
  case (Some s)
  then have "ready s Before_message" by (simp add: ready_def createState_fresh)
  from convert_from_concludes [OF this, of opts raws broken] show ?thesis
    by (auto simp: convertOpenAIStreamToAnthropic_def Some concludes_def split: prod.splits)
qed (simp add: convertOpenAIStreamToAnthropic_def)

text \<open>
  C15. Whatever the upstream sends, what the converter streams to an Anthropic client follows the protocol: one message_start,
  every block started before its deltas, deltas of the block's own kind only, every started block stopped exactly once, then
  message_delta and message_stop; when the conversion throws, what was sent is still a prefix of such a stream.
\<close>

theorem anthropic_stream_well_formed:
  "(case convertOpenAIStreamToAnthropic opts raws broken of
      (es, threw) \<Rightarrow> if threw then follows Before_message es \<noteq> None else follows Before_message es = Some Ended_message)"
  by (rule conversion_well_formed)

end
