(* ===== verification/Anthropic_Text.thy ===== *)
theory Anthropic_Text
  imports Anthropic_Stream_Facts
begin

text \<open>
  The streaming converter loses no text and adds none: what it emitted and what it still holds back is what it received,
  and at the end nothing is held. Only the recovery of leaked XML calls takes text away, and then exactly the lifted elements.
\<close>

subsection \<open>Text that was sent, received and held\<close>

fun text_of :: "anthropic_event \<Rightarrow> string" where
  "text_of (Block_delta i (Text_delta t)) = t"
| "text_of ev = []"

definition texts :: "anthropic_event list \<Rightarrow> string" where
  "texts es = concat (map text_of es)"

definition chunk_text :: "json \<Rightarrow> string" where
  "chunk_text raw = (case parse_chunk raw of None \<Rightarrow> [] | Some chunk \<Rightarrow> nullish (delta_content chunk) [])"

definition upstream_text :: "json list \<Rightarrow> string" where
  "upstream_text raws = concat (map chunk_text raws)"

text \<open>How many chunks a conversion takes before it ends or throws; a throwing chunk counts.\<close>

fun consumed :: "stream_options \<Rightarrow> json list \<Rightarrow> anthropic_stream \<Rightarrow> nat" where
  "consumed opts [] s = 0"
| "consumed opts (raw # raws) s =
     (case convert_chunk opts raw s of (es, s', threw) \<Rightarrow> if threw then 1 else Suc (consumed opts raws s'))"

definition consumed_chunks :: "stream_options \<Rightarrow> json list \<Rightarrow> nat" where
  "consumed_chunks opts raws = (case createState opts of None \<Rightarrow> 0 | Some s \<Rightarrow> consumed opts raws s)"

definition held :: "anthropic_stream \<Rightarrow> string" where
  "held s = (case as_candidate s of Some c \<Rightarrow> c | None \<Rightarrow> as_probe s)"

definition holds_soundly :: "stream_options \<Rightarrow> anthropic_stream \<Rightarrow> bool" where
  "holds_soundly opts s =
     ((as_candidate s = None \<or> as_probe s = []) \<and> (as_recovery s \<or> held s = [] \<and> as_candidate s = None) \<and>
      (so_xmlRecovery opts \<or> \<not> as_recovery s))"

lemma texts_simps [simp]: "texts [] = []" "texts (e # es) = text_of e @ texts es" "texts (es @ es') = texts es @ texts es'"
  by (simp_all add: texts_def)

subsection \<open>Operations that pass text on\<close>

definition passes :: "stream_options \<Rightarrow> string \<Rightarrow> anthropic_stream \<Rightarrow> emission \<Rightarrow> bool" where
  "passes opts x s m = (case m of (es, s', threw) \<Rightarrow> holds_soundly opts s' \<and> texts es @ held s' = held s @ x)"

definition calm :: "emission \<Rightarrow> bool" where
  "calm m = (\<not> snd (snd m))"

lemma passes_then:
  assumes "passes opts x s m" "\<And>s'. holds_soundly opts s' \<Longrightarrow> passes opts [] s' (f s')"
  shows "passes opts x s (then_emit m f)"
  using assms by (fastforce simp: passes_def then_emit_def split: prod.splits)

lemma calm_then:
  assumes "calm m" "passes opts [] s m" "\<And>s'. holds_soundly opts s' \<Longrightarrow> passes opts x s' (f s')"
  shows "passes opts x s (then_emit m f)"
  using assms by (fastforce simp: passes_def then_emit_def calm_def split: prod.splits)

lemma then_calm: "calm m \<Longrightarrow> (\<And>s. calm (f s)) \<Longrightarrow> calm (then_emit m f)"
  by (cases m) (auto simp: calm_def then_emit_def split: prod.split, metis snd_conv)

lemma calm_emit [simp]: "calm (emit es s)"
  by (simp add: calm_def emit_def)

lemma calm_each: "(\<And>x s. calm (f x s)) \<Longrightarrow> calm (each_emit f xs s)"
  by (induction xs arbitrary: s) (auto intro: then_calm)

lemma passes_each:
  "holds_soundly opts s \<Longrightarrow> (\<And>x s. holds_soundly opts s \<Longrightarrow> passes opts [] s (f x s)) \<Longrightarrow> passes opts [] s (each_emit f xs s)"
proof (induction xs arbitrary: s)
  case Nil
  then show ?case by (simp add: passes_def emit_def)
next
  case (Cons x xs)
  then show ?case by (auto intro!: passes_then)
qed

lemma passes_emit [simp]: "passes opts x s (emit es s') = (holds_soundly opts s' \<and> texts es @ held s' = held s @ x)"
  by (simp add: passes_def emit_def)

lemma holding_other [simp]:
  "held (s\<lparr>as_started := a\<rparr>) = held s" "held (s\<lparr>as_thinking := i\<rparr>) = held s" "held (s\<lparr>as_text := i\<rparr>) = held s"
  "held (s\<lparr>as_names := ns\<rparr>) = held s" "held (s\<lparr>as_finish := fin\<rparr>) = held s" "held (s\<lparr>as_usage := u\<rparr>) = held s"
  "held (s\<lparr>as_retained := n\<rparr>) = held s" "held (s\<lparr>as_tools := ts\<rparr>) = held s" "held (s\<lparr>as_open := l\<rparr>) = held s"
  "held (s\<lparr>as_next := n\<rparr>) = held s" "holds_soundly opts (s\<lparr>as_next := n\<rparr>) = holds_soundly opts s" "held (with_block s) = held s" "held (set_slot k slot s) = held s"
  "holds_soundly opts (s\<lparr>as_started := a\<rparr>) = holds_soundly opts s" "holds_soundly opts (s\<lparr>as_thinking := i\<rparr>) = holds_soundly opts s"
  "holds_soundly opts (s\<lparr>as_text := i\<rparr>) = holds_soundly opts s" "holds_soundly opts (s\<lparr>as_names := ns\<rparr>) = holds_soundly opts s"
  "holds_soundly opts (s\<lparr>as_finish := fin\<rparr>) = holds_soundly opts s" "holds_soundly opts (s\<lparr>as_usage := u\<rparr>) = holds_soundly opts s"
  "holds_soundly opts (s\<lparr>as_retained := n\<rparr>) = holds_soundly opts s" "holds_soundly opts (s\<lparr>as_tools := ts\<rparr>) = holds_soundly opts s"
  "holds_soundly opts (s\<lparr>as_open := l\<rparr>) = holds_soundly opts s" "holds_soundly opts (with_block s) = holds_soundly opts s"
  "holds_soundly opts (set_slot k slot s) = holds_soundly opts s"
  by (simp_all add: held_def holds_soundly_def with_block_def set_slot_def split: option.split)

text \<open>Writing text changes no field that holds text.\<close>

lemma emitText_state [simp]:
  "as_candidate (fst (snd (emitText t s))) = as_candidate s" "as_probe (fst (snd (emitText t s))) = as_probe s"
  "as_recovery (fst (snd (emitText t s))) = as_recovery s" "held (fst (snd (emitText t s))) = held s"
  "holds_soundly opts (fst (snd (emitText t s))) = holds_soundly opts s" "texts (fst (emitText t s)) = t" "calm (emitText t s)"
  by (auto simp: emitText_def emit_def calm_def with_block_def split: option.split)

lemma then_emitText:
  "then_emit (emitText t s) f =
   (case f (fst (snd (emitText t s))) of (es, s', threw) \<Rightarrow> (fst (emitText t s) @ es, s', threw))"
  using emitText_fine [of t s] by (cases "emitText t s") (simp add: then_emit_def)

lemma then_emit_assoc: "then_emit (then_emit m f) g = then_emit m (\<lambda>s. then_emit (f s) g)"
  by (cases m) (auto simp: then_emit_def split: prod.splits)

lemma then_emit_nothing [simp]: "then_emit (emit [] s) f = f s"
  by (auto simp: then_emit_def emit_def split: prod.split)

lemma then_emit_ok: "then_emit (es, s, False) f = (case f s of (es', s', threw) \<Rightarrow> (es @ es', s', threw))"
  by (simp add: then_emit_def)

lemma extend_candidate_passes:
  assumes "holds_soundly opts s" "as_candidate s = Some c"
  shows "passes opts t s (extend_candidate c t s)"
  using assms by (auto simp: extend_candidate_def then_emitText passes_def emit_def holds_soundly_def held_def)

lemma probe_text_passes:
  assumes "holds_soundly opts s" "as_candidate s = None" "as_recovery s"
  shows "passes opts t s (probe_text t s)"
  using assms by (auto simp: probe_text_def Let_def then_emitText passes_def emit_def holds_soundly_def held_def
      simp del: take_append drop_append split: option.split)

lemma emitText_passes: "holds_soundly opts s \<Longrightarrow> held s = [] \<Longrightarrow> passes opts t s (emitText t s)"
  by (simp add: passes_def case_prod_beta)

lemma emit_content_passes: "holds_soundly opts s \<Longrightarrow> passes opts (nullish content []) s (emit_content content s)"
proof (cases "nonEmptyString_of content")
  case None
  assume "holds_soundly opts s"
  then show ?thesis using None by (cases content) (auto simp: emit_content_def nonEmptyString_of_def split: if_splits)
next
  case (Some t)
  then have t: "nullish content [] = t" by (auto simp: nonEmptyString_of_def split: if_splits)
  assume s: "holds_soundly opts s"
  show ?thesis
  proof (cases "as_recovery s")
    case True
    then show ?thesis using s unfolding t emit_content_def Some
      by (auto simp: extend_candidate_passes probe_text_passes split: option.split)
  next
    case False
    then have "held s = []" using s by (simp add: holds_soundly_def)
    with False s show ?thesis unfolding t emit_content_def Some by (simp add: emitText_passes)
  qed
qed

lemma end_recovery_passes: "holds_soundly opts s \<Longrightarrow> passes opts [] s (end_recovery ts s)"
  by (auto simp: end_recovery_def release_candidate_def release_probe_def then_emit_assoc then_emitText split: option.split)
    (auto simp: passes_def emit_def then_emit_ok holds_soundly_def held_def)

subsection \<open>The other operations send no text\<close>

lemma start_message_passes: "holds_soundly opts s \<Longrightarrow> passes opts [] s (start_message i m s)"
  by (simp add: start_message_def messageStartEvent_def)

lemma emit_reasoning_passes: "holds_soundly opts s \<Longrightarrow> passes opts [] s (emit_reasoning r s)"
  by (simp add: emit_reasoning_def split: option.split)

lemma emit_redacted_passes: "holds_soundly opts s \<Longrightarrow> passes opts [] s (emit_redacted r s)"
  by (simp add: emit_redacted_def split: option.split)

lemma retain_passes: "holds_soundly opts s \<Longrightarrow> passes opts [] s (retain opts n s)"
  by (simp add: retain_def) (simp add: passes_def)

lemma announce_tool_passes: "holds_soundly opts s \<Longrightarrow> passes opts [] s (announce_tool tc s)"
  by (auto simp: announce_tool_def Let_def passes_def emit_def split: option.split)

lemma upgrade_tool_passes: "holds_soundly opts s \<Longrightarrow> passes opts [] s (upgrade_tool tc slot s)"
  by (auto simp: upgrade_tool_def Let_def passes_def emit_def split: option.split)

lemma start_slot_passes: "holds_soundly opts s \<Longrightarrow> passes opts [] s (start_slot k slot s)"
  by (simp add: start_slot_def)

lemma emit_arguments_passes: "holds_soundly opts s \<Longrightarrow> passes opts [] s (emit_arguments tc s)"
  by (auto simp: emit_arguments_def intro!: passes_then start_slot_passes split: option.split)

lemma emit_tool_delta_passes: "holds_soundly opts s \<Longrightarrow> passes opts [] s (emit_tool_delta opts tc s)"
  by (auto simp: emit_tool_delta_def intro!: passes_then retain_passes announce_tool_passes upgrade_tool_passes emit_arguments_passes
      split: option.split)

lemma convert_parsed_passes: "holds_soundly opts s \<Longrightarrow> passes opts (nullish (delta_content chunk) []) s (convert_parsed opts chunk s)"
  unfolding convert_parsed_def note_terminal_def
  by (intro calm_then passes_then calm_each passes_each start_message_passes emit_reasoning_passes emit_redacted_passes
      emit_content_passes end_recovery_passes emit_tool_delta_passes)
    (simp_all add: start_message_def emit_reasoning_def emit_redacted_def split: option.split)

lemma convert_chunk_passes: "holds_soundly opts s \<Longrightarrow> passes opts (chunk_text raw) s (convert_chunk opts raw s)"
  by (cases "parse_chunk raw") (simp_all add: convert_chunk_def chunk_text_def convert_parsed_passes, simp add: passes_def)

lemma chunks_pass:
  "holds_soundly opts s \<Longrightarrow>
   passes opts (upstream_text (take (consumed opts raws s) raws)) s (each_emit (convert_chunk opts) raws s)"
proof (induction raws arbitrary: s)
  case Nil
  then show ?case by (simp add: upstream_text_def)
next
  case (Cons raw raws)
  obtain es s1 threw where m: "convert_chunk opts raw s = (es, s1, threw)" by (cases "convert_chunk opts raw s")
  with convert_chunk_passes [OF Cons.prems, of raw] have p: "holds_soundly opts s1" "texts es @ held s1 = held s @ chunk_text raw"
    by (simp_all add: passes_def)
  show ?case
  proof (cases threw)
    case True
    then show ?thesis using p by (simp add: m then_emit_def passes_def upstream_text_def)
  next
    case False
    with Cons.IH [OF p(1)] p(2) show ?thesis
      by (auto simp: m then_emit_def passes_def upstream_text_def split: prod.splits)
  qed
qed

lemma chunks_consumed:
  "each_emit (convert_chunk opts) raws s = (es, s', threw) \<Longrightarrow> threw \<or> consumed opts raws s = length raws"
  by (induction raws arbitrary: s es) (auto simp: emit_def then_emit_def split: prod.splits if_splits)

subsection \<open>The end of the stream\<close>

definition recovered_text :: "stream_options \<Rightarrow> string \<Rightarrow> string \<Rightarrow> bool \<Rightarrow> bool" where
  "recovered_text opts t out threw =
     (so_xmlRecovery opts \<and>
      (\<exists>segs k. recoverToolCallsFromText t (so_toolNames opts) = Some segs \<and> out = segments_text (take k segs) \<and>
         (threw \<or> k = length segs)))"

lemma segments_text_Cons [simp]: "segments_text [] = []" "segments_text (x # xs) = segment_text x @ segments_text xs"
  by (simp_all add: segments_text_def)

text \<open>Emissions without text.\<close>

definition silent :: "emission \<Rightarrow> bool" where
  "silent m = (texts (fst m) = [])"

lemma silent_emit [simp]: "silent (emit es s) = (texts es = [])"
  by (simp add: silent_def emit_def)

lemma silent_then: "silent m \<Longrightarrow> (\<And>s. silent (f s)) \<Longrightarrow> silent (then_emit m f)"
  by (cases m) (auto simp: silent_def then_emit_def split: prod.split, metis fst_conv)

lemma silent_each: "(\<And>x s. silent (f x s)) \<Longrightarrow> silent (each_emit f xs s)"
  by (induction xs arbitrary: s) (auto intro: silent_then)

lemma close_block_silent [simp]: "silent (close_block i s)" "calm (close_block i s)"
  by (simp_all add: close_block_def)

lemma closeText_silent: "silent (closeText s)" "calm (closeText s)"
  by (auto simp: closeText_def intro!: silent_then then_calm split: option.split)

lemma emit_recovered_call_silent: "silent (emit_recovered_call opts name input s)"
  by (auto simp: emit_recovered_call_def Let_def silent_def then_emit_ok emit_def close_block_def split: option.split)

lemma flush_slot_silent: "silent (flush_slot kv s)" "calm (flush_slot kv s)"
  by (auto simp: flush_slot_def start_slot_def split: prod.split)

lemma emit_segment_text: "texts (fst (emit_segment opts g s)) = segment_text g"
  using silent_then [of "closeText s" "\<lambda>s. emit_recovered_call opts n i s" for n i] closeText_silent emit_recovered_call_silent
  by (cases g) (auto simp: emit_segment_def segment_text_def silent_def)

lemma segments_emitted:
  "\<exists>k. texts (fst (each_emit (emit_segment opts) segs s)) = segments_text (take k segs) \<and>
       (snd (snd (each_emit (emit_segment opts) segs s)) \<or> k = length segs)"
proof (induction segs arbitrary: s)
  case Nil
  show ?case by (simp add: emit_def)
next
  case (Cons g segs)
  obtain es s1 threw where m: "emit_segment opts g s = (es, s1, threw)" by (cases "emit_segment opts g s")
  with emit_segment_text [of opts g s] have t: "texts es = segment_text g" by simp
  show ?case
  proof (cases threw)
    case True
    then show ?thesis using t by (intro exI [of _ 1]) (simp add: m then_emit_def)
  next
    case False
    from Cons.IH [of s1] obtain k where "texts (fst (each_emit (emit_segment opts) segs s1)) = segments_text (take k segs)"
      "snd (snd (each_emit (emit_segment opts) segs s1)) \<or> k = length segs" by blast
    then show ?thesis using False t by (intro exI [of _ "Suc k"]) (auto simp: m then_emit_ok split: prod.splits)
  qed
qed

lemma then_silent:
  "(\<And>s. silent (f s) \<and> calm (f s)) \<Longrightarrow>
   texts (fst (then_emit m f)) = texts (fst m) \<and> snd (snd (then_emit m f)) = snd (snd m)"
  by (cases m) (simp add: then_emit_def silent_def calm_def case_prod_beta)

lemma recovered_segments_text:
  "recovered_segments_of terminal c declared = Some segs \<Longrightarrow> recoverToolCallsFromText c declared = Some segs"
  by (auto simp: recovered_segments_of_def terminal_segments split: if_splits)

lemma settle_candidate_text:
  assumes "holds_soundly opts s"
  shows "(case settle_candidate opts s of (es, s', threw) \<Rightarrow>
            texts es = held s \<and> \<not> threw \<or> recovered_text opts (held s) (texts es) threw)"
proof (cases "as_candidate s")
  case None
  then show ?thesis by (simp add: settle_candidate_def held_def case_prod_beta)
next
  case (Some c)
  then have x: "so_xmlRecovery opts" "held s = c" using assms by (auto simp: holds_soundly_def held_def)
  define terminal where "terminal = (as_finish s = Some ''stop'' \<and> mapStopReason (nullish (as_finish s) []) = ''end_turn'')"
  show ?thesis
  proof (cases "if mapStopReason (nullish (as_finish s) []) = ''tool_use'' \<or> terminal
                then recovered_segments_of terminal c (so_toolNames opts) else None")
    case None
    then have "settle_candidate opts s = emitText c s" unfolding terminal_def
      by (auto simp: settle_candidate_def Some terminal_def Let_def emitRecoveredToolXML_def split: if_splits)
    then show ?thesis using x by (simp add: case_prod_beta)
  next
    case segs: (Some segs)
    let ?m = "each_emit (emit_segment opts) segs s"
    have "settle_candidate opts s = then_emit ?m (\<lambda>s. emit [] (if terminal then s\<lparr>as_finish := Some ''tool_calls''\<rparr> else s))"
      using segs unfolding terminal_def by (auto simp: settle_candidate_def Some Let_def emitRecoveredToolXML_def split: if_splits)
    then have "texts (fst (settle_candidate opts s)) = texts (fst ?m)" "snd (snd (settle_candidate opts s)) = snd (snd ?m)"
      using then_silent [of "\<lambda>s. emit [] (if terminal then s\<lparr>as_finish := Some ''tool_calls''\<rparr> else s)" ?m] by simp_all
    moreover have "recoverToolCallsFromText c (so_toolNames opts) = Some segs"
      using segs recovered_segments_text by (auto split: if_splits)
    moreover obtain k where "texts (fst ?m) = segments_text (take k segs)" "snd (snd ?m) \<or> k = length segs"
      using segments_emitted [of opts segs s] by blast
    ultimately show ?thesis using x unfolding recovered_text_def case_prod_beta by metis
  qed
qed

lemma finish_stream_text:
  assumes "holds_soundly opts s"
  shows "(case finish_stream opts s of (es, s', threw) \<Rightarrow>
            texts es = held s \<and> \<not> threw \<or> recovered_text opts (held s) (texts es) threw)"
proof -
  obtain es1 s1 where m: "start_message (nonEmptyString_of (so_id opts)) (nonEmptyString_of (so_model opts)) s = (es1, s1, False)"
    by (cases "as_started s") (auto simp: start_message_def emit_def)
  have p: "holds_soundly opts s1" "texts es1 = []" "held s1 = held s"
    using m assms by (auto simp: start_message_def emit_def messageStartEvent_def split: if_splits)
  have tail: "texts (fst (then_emit (settle_candidate opts s1) f)) = texts (fst (settle_candidate opts s1))"
    "snd (snd (then_emit (settle_candidate opts s1) f)) = snd (snd (settle_candidate opts s1))"
    if "\<And>s. silent (f s) \<and> calm (f s)" for f
    using then_silent [of f "settle_candidate opts s1"] that by simp_all
  let ?f = "\<lambda>s. then_emit (each_emit flush_slot (as_tools s) s) (\<lambda>s.
     then_emit (each_emit close_block [0..<as_next s] s) (\<lambda>s. emit [messageDeltaEvent s, Message_stop] s))"
  have "silent (?f s) \<and> calm (?f s)" for s
    by (auto simp: messageDeltaEvent_def Let_def intro!: silent_then then_calm silent_each calm_each flush_slot_silent)
  note tail = tail [of ?f, OF this]
  show ?thesis
    using settle_candidate_text [OF p(1)] tail p(2,3)
    by (auto simp: finish_stream_def m then_emit_ok split: prod.splits)
qed

lemma conversion_text:
  "(case convertOpenAIStreamToAnthropic opts raws broken of
      (es, threw) \<Rightarrow>
        (threw \<or> consumed_chunks opts raws = length raws) \<and>
        (texts es = upstream_text (take (consumed_chunks opts raws) raws) \<or>
         (\<exists>pre t out. upstream_text raws = pre @ t \<and> texts es = pre @ out \<and> recovered_text opts t out threw)))"
proof (cases "createState opts")
  case None
  then show ?thesis by (simp add: convertOpenAIStreamToAnthropic_def upstream_text_def consumed_chunks_def)
next
  case (Some s)
  then have s: "holds_soundly opts s" "held s = []" by (auto simp: createState_def holds_soundly_def held_def)
  obtain es s1 threw where m: "each_emit (convert_chunk opts) raws s = (es, s1, threw)" by (cases "each_emit (convert_chunk opts) raws s")
  with chunks_pass [OF s(1), of raws] s(2)
  have p: "holds_soundly opts s1" "texts es @ held s1 = upstream_text (take (consumed opts raws s) raws)"
    by (simp_all add: passes_def)
  note all = chunks_consumed [OF m]
  show ?thesis
  proof (cases "threw \<or> broken")
    case True
    have "texts (fst (flush_held s1)) = held s1" by (simp add: flush_held_def held_def split: option.split)
    with True p(2) show ?thesis
      by (auto simp: convertOpenAIStreamToAnthropic_def convert_from_def Some m consumed_chunks_def split: prod.splits)
  next
    case False
    then have "consumed opts raws s = length raws" using all by simp
    moreover obtain es' s' threw' where fin: "finish_stream opts s1 = (es', s', threw')" by (cases "finish_stream opts s1")
    moreover have "convertOpenAIStreamToAnthropic opts raws broken = (es @ es', threw')"
      using False fin by (simp add: convertOpenAIStreamToAnthropic_def convert_from_def Some m)
    moreover have "texts es' = held s1 \<and> \<not> threw' \<or> recovered_text opts (held s1) (texts es') threw'"
      using finish_stream_text [OF p(1)] fin by simp
    ultimately show ?thesis using p(2) by (simp add: consumed_chunks_def Some) (metis append_assoc)
  qed
qed

text \<open>
  C16. No text is lost, reordered or invented on the way from the upstream's chunks to the Anthropic client: the text deltas
  sent are the content of the consumed chunks, in order, also when the upstream fails in the middle of a held XML candidate;
  the only other outcome is the recovery of leaked tool calls, which replaces a tail of the text by what is left of it once
  the declared elements are lifted. A conversion that does not throw has consumed every chunk.
\<close>

theorem anthropic_stream_text_conserved:
  "(case convertOpenAIStreamToAnthropic opts raws broken of
      (es, threw) \<Rightarrow>
        (threw \<or> consumed_chunks opts raws = length raws) \<and>
        (texts es = upstream_text (take (consumed_chunks opts raws) raws) \<or>
         (\<exists>pre t out. upstream_text raws = pre @ t \<and> texts es = pre @ out \<and> recovered_text opts t out threw)))"
  by (rule conversion_text)

end
