(* ===== verification/Anthropic_Arguments.thy ===== *)
theory Anthropic_Arguments
  imports Anthropic_Text
begin

text \<open>
  The streaming converter keeps the arguments of parallel tool calls apart: every tool index of the upstream has a block of
  its own, and the input fragments sent for that block are the fragments received for that index, in order.
\<close>

subsection \<open>Arguments that were sent and received\<close>

fun args_in :: "nat \<Rightarrow> anthropic_event \<Rightarrow> string" where
  "args_in i (Block_delta j (Input_json_delta a)) = (if j = i then a else [])"
| "args_in i ev = []"

definition args_of :: "nat \<Rightarrow> anthropic_event list \<Rightarrow> string" where
  "args_of i es = concat (map (args_in i) es)"

definition tool_args :: "nat \<Rightarrow> tool_delta \<Rightarrow> string" where
  "tool_args k tc = (if td_index tc = k then nullish (td_args tc) [] else [])"

definition chunk_args :: "nat \<Rightarrow> json \<Rightarrow> string" where
  "chunk_args k raw = (case parse_chunk raw of None \<Rightarrow> [] | Some chunk \<Rightarrow> concat (map (tool_args k) (delta_tools chunk)))"

definition upstream_args :: "nat \<Rightarrow> json list \<Rightarrow> string" where
  "upstream_args k raws = concat (map (chunk_args k) raws)"

lemma args_of_simps [simp]: "args_of i [] = []" "args_of i (e # es) = args_in i e @ args_of i es" "args_of i (es @ es') = args_of i es @ args_of i es'"
  by (simp_all add: args_of_def)

subsection \<open>Operations that route arguments\<close>

definition block_at :: "anthropic_stream \<Rightarrow> nat \<Rightarrow> nat option" where
  "block_at s k = map_option sl_block (map_of (as_tools s) k)"

definition placed :: "anthropic_stream \<Rightarrow> bool" where
  "placed s =
     ((\<forall>k i. block_at s k = Some i \<longrightarrow> i < as_next s) \<and>
      (\<forall>k k' i. block_at s k = Some i \<longrightarrow> block_at s k' = Some i \<longrightarrow> k = k'))"

definition routed :: "(nat \<Rightarrow> string) \<Rightarrow> anthropic_stream \<Rightarrow> anthropic_event list \<Rightarrow> anthropic_stream \<Rightarrow> bool" where
  "routed d s es s' =
     (placed s' \<and> as_next s \<le> as_next s' \<and>
      (\<forall>k i. block_at s k = Some i \<longrightarrow> block_at s' k = Some i) \<and>
      (\<forall>k i. block_at s' k = Some i \<longrightarrow> (block_at s k = Some i \<or> as_next s \<le> i) \<and> args_of i es = d k) \<and>
      (\<forall>k. block_at s' k = None \<longrightarrow> d k = []) \<and>
      (\<forall>i. as_next s' \<le> i \<longrightarrow> args_of i es = []))"

definition routes :: "(nat \<Rightarrow> string) \<Rightarrow> anthropic_stream \<Rightarrow> emission \<Rightarrow> bool" where
  "routes d s m = (case m of (es, s', threw) \<Rightarrow> threw \<or> routed d s es s')"

lemma routed_step:
  assumes "routed d s es s'" "routed d' s' es' s''"
  shows "routed (\<lambda>k. d k @ d' k) s (es @ es') s''"
proof -
  have "(block_at s k = Some i \<or> as_next s \<le> i) \<and> args_of i (es @ es') = d k @ d' k" if "block_at s'' k = Some i" for k i
  proof (cases "block_at s' k")
    case None
    moreover have "as_next s' \<le> i" using assms(2) that None by (fastforce simp: routed_def)
    ultimately show ?thesis using assms that by (auto simp: routed_def)
  next
    case (Some j)
    then have "block_at s'' k = Some j" using assms(2) by (simp add: routed_def)
    with that Some show ?thesis using assms by (auto simp: routed_def)
  qed
  moreover have "d k @ d' k = []" if "block_at s'' k = None" for k
  proof -
    have "block_at s' k = None" using assms(2) that by (cases "block_at s' k") (auto simp: routed_def)
    then show ?thesis using assms that by (simp add: routed_def)
  qed
  moreover have "placed s''" "as_next s \<le> as_next s''" "\<forall>k i. block_at s k = Some i \<longrightarrow> block_at s'' k = Some i"
    using assms by (auto simp: routed_def)
  moreover have "args_of i (es @ es') = []" if "as_next s'' \<le> i" for i
    using assms that by (auto simp: routed_def)
  ultimately show ?thesis unfolding routed_def by blast
qed

lemma routes_then:
  assumes "routes d s m" "\<And>es s'. m = (es, s', False) \<Longrightarrow> placed s' \<Longrightarrow> routes d' s' (f s')"
  shows "routes (\<lambda>k. d k @ d' k) s (then_emit m f)"
proof -
  obtain es s' threw where m: "m = (es, s', threw)" by (cases m)
  show ?thesis
  proof (cases threw)
    case True
    then show ?thesis by (simp add: m then_emit_def routes_def)
  next
    case False
    with assms(1) have r: "routed d s es s'" by (simp add: m routes_def)
    then have "routes d' s' (f s')" using assms(2) False m by (simp add: routed_def)
    with r show ?thesis using routed_step [OF r] False by (auto simp: m then_emit_ok routes_def split: prod.splits)
  qed
qed

lemma routes_then_none: "routes (\<lambda>_. []) s m \<Longrightarrow> (\<And>s'. placed s' \<Longrightarrow> routes d s' (f s')) \<Longrightarrow> routes d s (then_emit m f)"
  using routes_then [of "\<lambda>_. []" s m d f] by simp

lemma then_routes_none: "routes d s m \<Longrightarrow> (\<And>s'. placed s' \<Longrightarrow> routes (\<lambda>_. []) s' (f s')) \<Longrightarrow> routes d s (then_emit m f)"
  using routes_then [of d s m "\<lambda>_. []" f] by simp

text \<open>An operation that leaves the slots alone and sends no arguments.\<close>

lemma routes_emit:
  "placed s \<Longrightarrow> as_tools s' = as_tools s \<Longrightarrow> as_next s \<le> as_next s' \<Longrightarrow> (\<And>i. args_of i es = []) \<Longrightarrow> routes (\<lambda>_. []) s (emit es s')"
  by (fastforce simp: routes_def routed_def emit_def placed_def block_at_def)

lemma routes_each:
  "placed s \<Longrightarrow> (\<And>x s. placed s \<Longrightarrow> routes (\<lambda>k. d k x) s (f x s)) \<Longrightarrow> routes (\<lambda>k. concat (map (d k) xs)) s (each_emit f xs s)"
proof (induction xs arbitrary: s)
  case Nil
  then show ?case by (simp add: routes_emit)
next
  case (Cons x xs)
  then show ?case using routes_then [of "\<lambda>k. d k x" s "f x s" "\<lambda>k. concat (map (d k) xs)" "each_emit f xs"] by simp
qed

lemma routes_each_none:
  "placed s \<Longrightarrow> (\<And>x s. placed s \<Longrightarrow> routes (\<lambda>_. []) s (f x s)) \<Longrightarrow> routes (\<lambda>_. []) s (each_emit f xs s)"
  by (induction xs arbitrary: s) (auto intro: routes_emit routes_then_none)

subsection \<open>Every operation routes what it receives\<close>

lemma start_message_routes [helm_inv]: "placed s \<Longrightarrow> routes (\<lambda>_. []) s (start_message i m s)"
  by (auto simp: start_message_def messageStartEvent_def intro!: routes_emit)

lemma emit_reasoning_routes [helm_inv]: "placed s \<Longrightarrow> routes (\<lambda>_. []) s (emit_reasoning r s)"
  by (auto simp: emit_reasoning_def intro!: routes_emit split: option.split)

lemma emit_redacted_routes [helm_inv]: "placed s \<Longrightarrow> routes (\<lambda>_. []) s (emit_redacted r s)"
  by (auto simp: emit_redacted_def intro!: routes_emit split: option.split)

lemma emitText_routes [helm_inv]: "placed s \<Longrightarrow> routes (\<lambda>_. []) s (emitText t s)"
  by (auto simp: emitText_def intro!: routes_emit split: option.split)

lemmas silent_routes = start_message_routes emit_reasoning_routes emit_redacted_routes emitText_routes

lemma placed_other [simp]:
  "placed (s\<lparr>as_candidate := c\<rparr>) = placed s" "placed (s\<lparr>as_candidateBytes := n\<rparr>) = placed s" "placed (s\<lparr>as_probe := p\<rparr>) = placed s"
  "placed (s\<lparr>as_recovery := r\<rparr>) = placed s"
  by (simp_all add: placed_def block_at_def)

lemma emitText_probe_routes: "placed s \<Longrightarrow> routes (\<lambda>_. []) s (emitText t (s\<lparr>as_probe := p\<rparr>))"
  by (auto simp: emitText_def intro!: routes_emit split: option.split)

lemma emit_content_routes [helm_inv]: "placed s \<Longrightarrow> routes (\<lambda>_. []) s (emit_content c s)"
  by (auto simp: emit_content_def extend_candidate_def probe_text_def Let_def
      intro!: routes_then_none routes_emit helm_inv emitText_probe_routes split: option.split)

lemma end_recovery_routes [helm_inv]: "placed s \<Longrightarrow> routes (\<lambda>_. []) s (end_recovery ts s)"
  by (auto simp: end_recovery_def release_candidate_def release_probe_def
      intro!: routes_then_none routes_emit helm_inv split: option.split)

lemma retain_routes: "placed s \<Longrightarrow> routes (\<lambda>_. []) s (retain opts n s)"
  by (auto simp: retain_def intro!: routes_emit) (simp add: routes_def)

lemma note_terminal_routes [helm_inv]: "placed s \<Longrightarrow> routes (\<lambda>_. []) s (note_terminal u fin s)"
  by (simp add: note_terminal_def routes_emit)

text \<open>The slot of a tool call: placed once, renamed in place, and then its fragments go to its block.\<close>

lemma block_at_set [simp]: "block_at (set_slot k slot s) = (block_at s)(k \<mapsto> sl_block slot)"
  by (auto simp: block_at_def set_slot_def update_conv')

lemma block_at_other [simp]: "block_at (with_block s) = block_at s" "block_at (s\<lparr>as_names := ns\<rparr>) = block_at s"
  by (auto simp: block_at_def with_block_def)

lemma routed_names: "routed d s es (s'\<lparr>as_names := ns\<rparr>) = routed d s es s'"
  by (simp add: routed_def placed_def)

lemma announce_tool_routes:
  assumes "placed s" "map_of (as_tools s) (td_index tc) = None"
  shows "routes (\<lambda>_. []) s (announce_tool tc s)"
    "announce_tool tc s = (es, s', False) \<Longrightarrow> map_of (as_tools s') (td_index tc) \<noteq> None"
proof -
  have none: "block_at s (td_index tc) = None" using assms(2) by (simp add: block_at_def)
  have "routed (\<lambda>_. []) s [] (set_slot (td_index tc) slot (with_block s))" if "sl_block slot = as_next s" for slot
    using assms(1) none that by (fastforce simp: routed_def placed_def)
  then show "routes (\<lambda>_. []) s (announce_tool tc s)"
    by (auto simp: announce_tool_def Let_def routes_def emit_def set_slot_names routed_names split: option.split)
  show "announce_tool tc s = (es, s', False) \<Longrightarrow> map_of (as_tools s') (td_index tc) \<noteq> None"
    by (auto simp: announce_tool_def Let_def emit_def update_conv' split: option.splits)
qed

lemma upgrade_tool_routes:
  assumes "placed s" "map_of (as_tools s) (td_index tc) = Some slot"
  shows "routes (\<lambda>_. []) s (upgrade_tool tc slot s)"
    "upgrade_tool tc slot s = (es, s', False) \<Longrightarrow> map_of (as_tools s') (td_index tc) \<noteq> None"
proof -
  have at: "block_at s (td_index tc) = Some (sl_block slot)" using assms(2) by (simp add: block_at_def)
  have "routed (\<lambda>_. []) s [] (set_slot (td_index tc) slot' s)" if "sl_block slot' = sl_block slot" for slot'
    using assms(1) at that by (fastforce simp: routed_def placed_def)
  then show "routes (\<lambda>_. []) s (upgrade_tool tc slot s)"
    by (auto simp: upgrade_tool_def Let_def routes_def emit_def set_slot_names routed_names split: option.split)
  show "upgrade_tool tc slot s = (es, s', False) \<Longrightarrow> map_of (as_tools s') (td_index tc) \<noteq> None"
    by (auto simp: upgrade_tool_def Let_def emit_def update_conv' split: option.splits)
qed

lemma emit_arguments_routes:
  assumes "placed s" "map_of (as_tools s) (td_index tc) = Some slot"
  shows "routes (\<lambda>k. tool_args k tc) s (emit_arguments tc s)"
proof (cases "nonEmptyString_of (td_args tc)")
  case None
  then have "tool_args k tc = []" for k by (auto simp: tool_args_def nonEmptyString_of_def split: if_splits)
  then show ?thesis using assms None by (simp add: emit_arguments_def routes_emit)
next
  case (Some a)
  then have a: "tool_args k tc = (if td_index tc = k then a else [])" for k by (auto simp: tool_args_def nonEmptyString_of_def split: if_splits)
  have at: "block_at s (td_index tc) = Some (sl_block slot)" using assms(2) by (simp add: block_at_def)
  then have lt: "sl_block slot < as_next s" using assms(1) by (simp add: placed_def)
  have other: "\<And>k. block_at s k = Some (sl_block slot) \<Longrightarrow> td_index tc \<noteq> k \<Longrightarrow> False" using assms(1) at unfolding placed_def by blast
  show ?thesis
  proof (cases "sl_started slot")
    case True
    then show ?thesis using assms(1) at lt
      by (auto simp: emit_arguments_def Some assms(2) start_slot_def then_emit_def routes_def routed_def emit_def a dest: other)
  next
    case False
    have same: "(block_at s)(td_index tc \<mapsto> sl_block slot) = block_at s" using at by (rule fun_upd_idem)
    then have "placed (set_slot (td_index tc) (slot\<lparr>sl_started := True\<rparr>) s)" using assms(1) by (simp add: placed_def)
    then show ?thesis using False assms(1) at lt
      by (auto simp: emit_arguments_def Some assms(2) start_slot_def then_emit_def routes_def routed_def emit_def a same dest: other)
  qed
qed

lemma emit_tool_delta_routes [helm_inv]:
  assumes "placed s"
  shows "routes (\<lambda>k. tool_args k tc) s (emit_tool_delta opts tc s)"
proof -
  let ?place = "\<lambda>s. case map_of (as_tools s) (td_index tc) of None \<Rightarrow> announce_tool tc s | Some slot \<Rightarrow> upgrade_tool tc slot s"
  have "routes (\<lambda>k. tool_args k tc) s' (then_emit (?place s') (emit_arguments tc))" if s': "placed s'" for s'
  proof -
    have p: "routes (\<lambda>_. []) s' (?place s')"
      using announce_tool_routes(1) upgrade_tool_routes(1) s' by (auto split: option.split)
    have "routes (\<lambda>k. tool_args k tc) s'' (emit_arguments tc s'')" if "?place s' = (es, s'', False)" "placed s''" for es s''
    proof -
      have "map_of (as_tools s'') (td_index tc) \<noteq> None"
        using announce_tool_routes(2) upgrade_tool_routes(2) s' that(1) by (cases "map_of (as_tools s') (td_index tc)") fastforce+
      with emit_arguments_routes [OF that(2)] show ?thesis by blast
    qed
    from routes_then [OF p this] show ?thesis by simp
  qed
  from routes_then_none [OF retain_routes [OF assms] this] show ?thesis unfolding emit_tool_delta_def .
qed

lemma convert_parsed_routes:
  "placed s \<Longrightarrow> routes (\<lambda>k. concat (map (tool_args k) (delta_tools chunk))) s (convert_parsed opts chunk s)"
  unfolding convert_parsed_def
  by (intro routes_then_none then_routes_none routes_each_none routes_each helm_inv)

lemma convert_chunk_routes [helm_inv]: "placed s \<Longrightarrow> routes (\<lambda>k. chunk_args k raw) s (convert_chunk opts raw s)"
  by (cases "parse_chunk raw") (simp_all add: convert_chunk_def chunk_args_def convert_parsed_routes, simp add: routes_def)

lemma chunks_route: "placed s \<Longrightarrow> routes (\<lambda>k. upstream_args k raws) s (each_emit (convert_chunk opts) raws s)"
  unfolding upstream_args_def by (intro routes_each helm_inv)

text \<open>At the end only recovered calls send arguments, each in a block of its own.\<close>

lemma close_block_routes [helm_inv]: "placed s \<Longrightarrow> routes (\<lambda>_. []) s (close_block i s)"
  by (auto simp: close_block_def intro!: routes_emit)

lemma emit_recovered_call_routes [helm_inv]: "placed s \<Longrightarrow> routes (\<lambda>_. []) s (emit_recovered_call opts name input s)"
  by (fastforce simp: emit_recovered_call_def Let_def routes_def routed_def placed_def close_block_def then_emit_ok emit_def
      with_block_def block_at_def split: option.split)

lemma closeText_routes [helm_inv]: "placed s \<Longrightarrow> routes (\<lambda>_. []) s (closeText s)"
  by (auto simp: closeText_def intro!: routes_then_none routes_emit helm_inv split: option.split)

lemma emit_segment_routes [helm_inv]: "placed s \<Longrightarrow> routes (\<lambda>_. []) s (emit_segment opts g s)"
  by (auto simp: emit_segment_def intro!: routes_then_none helm_inv split: recovery_segment.split)

lemma settle_candidate_routes [helm_inv]: "placed s \<Longrightarrow> routes (\<lambda>_. []) s (settle_candidate opts s)"
  by (auto simp: settle_candidate_def emitRecoveredToolXML_def Let_def
      intro!: routes_then_none routes_each_none routes_emit helm_inv split: option.split)

definition sends_no_args :: "emission \<Rightarrow> bool" where
  "sends_no_args m = (\<forall>i. args_of i (fst m) = [])"

lemma no_args_then: "sends_no_args m \<Longrightarrow> (\<And>s. sends_no_args (f s)) \<Longrightarrow> sends_no_args (then_emit m f)"
  by (cases m) (auto simp: sends_no_args_def then_emit_def split: prod.split, metis fst_conv)

lemma no_args_each: "(\<And>x s. sends_no_args (f x s)) \<Longrightarrow> sends_no_args (each_emit f xs s)"
proof (induction xs arbitrary: s)
  case Nil
  show ?case by (simp add: sends_no_args_def emit_def)
next
  case (Cons x xs)
  then show ?case by (auto intro: no_args_then)
qed

lemma closing_sends_no_args:
  "sends_no_args (then_emit (each_emit flush_slot kvs s) (\<lambda>s.
     then_emit (each_emit close_block [0..<as_next s] s) (\<lambda>s. emit [messageDeltaEvent s, Message_stop] s)))"
  by (intro no_args_then no_args_each)
    (auto simp: sends_no_args_def flush_slot_def start_slot_def close_block_def emit_def messageDeltaEvent_def Let_def split: prod.split)

lemma finish_stream_args:
  assumes "placed s" "finish_stream opts s = (es, s', False)"
  shows "\<exists>s'. routed (\<lambda>_. []) s es s'"
proof -
  let ?rest = "\<lambda>s. then_emit (each_emit flush_slot (as_tools s) s) (\<lambda>s.
     then_emit (each_emit close_block [0..<as_next s] s) (\<lambda>s. emit [messageDeltaEvent s, Message_stop] s))"
  let ?m = "then_emit (start_message (nonEmptyString_of (so_id opts)) (nonEmptyString_of (so_model opts)) s) (settle_candidate opts)"
  obtain es1 s1 threw where m: "?m = (es1, s1, threw)" by (cases ?m)
  have all: "finish_stream opts s = then_emit ?m ?rest" by (simp add: finish_stream_def then_emit_assoc)
  with assms(2) m have ok: "\<not> threw" by (auto simp: then_emit_def)
  have "routes (\<lambda>_. []) s ?m" by (intro routes_then_none helm_inv assms(1))
  then have "routed (\<lambda>_. []) s es1 s1" using m ok by (simp add: routes_def)
  moreover have "es = es1 @ fst (?rest s1)" using assms(2) ok by (auto simp: all m then_emit_ok split: prod.splits)
  ultimately show ?thesis
    using closing_sends_no_args [of "as_tools s1" s1] by (auto simp: routed_def sends_no_args_def)
qed

lemma conversion_arguments:
  "(case convertOpenAIStreamToAnthropic opts raws broken of
      (es, threw) \<Rightarrow> threw \<or> (\<exists>block. inj block \<and> (\<forall>k. args_of (block k) es = upstream_args k raws)))"
proof (cases "createState opts")
  case None
  then show ?thesis by (simp add: convertOpenAIStreamToAnthropic_def)
next
  case (Some s)
  then have tools: "as_tools s = []" by (auto simp: createState_def)
  then have s: "placed s" by (simp add: placed_def block_at_def)
  obtain es s1 threw where m: "each_emit (convert_chunk opts) raws s = (es, s1, threw)" by (cases "each_emit (convert_chunk opts) raws s")
  obtain es' s2 threw' where fin: "finish_stream opts s1 = (es', s2, threw')" by (cases "finish_stream opts s1")
  show ?thesis
  proof (cases "threw \<or> broken \<or> threw'")
    case True
    then show ?thesis using fin by (auto simp: convertOpenAIStreamToAnthropic_def convert_from_def Some m split: prod.splits)
  next
    case False
    have r: "routed (\<lambda>k. upstream_args k raws) s es s1" using chunks_route [OF s, of raws opts] False by (simp add: m routes_def)
    then have "placed s1" by (simp add: routed_def)
    moreover have "finish_stream opts s1 = (es', s2, False)" using fin False by simp
    ultimately obtain s3 where "routed (\<lambda>_. []) s1 es' s3" using finish_stream_args by blast
    from routed_step [OF r this] have r: "routed (\<lambda>k. upstream_args k raws) s (es @ es') s3" by simp
    define block where "block k = (case block_at s3 k of Some i \<Rightarrow> i | None \<Rightarrow> as_next s3 + k)" for k
    have "inj block" using r unfolding block_def by (intro injI) (auto simp: routed_def placed_def split: option.splits)
    moreover have "args_of (block k) (es @ es') = upstream_args k raws" for k
      using r unfolding block_def by (auto simp: routed_def split: option.split)
    moreover have "convertOpenAIStreamToAnthropic opts raws broken = (es @ es', False)"
      using False fin by (simp add: convertOpenAIStreamToAnthropic_def convert_from_def Some m)
    ultimately show ?thesis by auto
  qed
qed

text \<open>
  C17. The arguments of parallel tool calls are never mixed, lost or duplicated: a conversion that does not throw gives every
  tool index of the upstream its own content block, and the input_json deltas of that block are the argument fragments the
  upstream sent for that index, in order, however the fragments of the calls were interleaved.
\<close>

theorem anthropic_tool_arguments:
  "(case convertOpenAIStreamToAnthropic opts raws broken of
      (es, threw) \<Rightarrow> threw \<or> (\<exists>block. inj block \<and> (\<forall>k. args_of (block k) es = upstream_args k raws)))"
  by (rule conversion_arguments)

end
