(* ===== verification/Anthropic_Inbound.thy ===== *)
theory Anthropic_Inbound
  imports Anthropic_Arguments
begin

text \<open>
  The way back (\<open>convertAnthropicStreamToIR\<close>, \<open>protocol/anthropic/stream.ts\<close>): Anthropic events become OpenAI chunks. The
  chunks are JSON values, so that what is sent can be read again by the other direction; the theorems show that text and
  tool arguments survive the passage through either dialect.
\<close>

subsection \<open>State and chunks\<close>

definition STOP_REASON_TO_FINISH_STREAM :: "string \<rightharpoonup> string" where
  "STOP_REASON_TO_FINISH_STREAM =
     [''end_turn'' \<mapsto> ''stop'', ''max_tokens'' \<mapsto> ''length'', ''stop_sequence'' \<mapsto> ''stop'', ''tool_use'' \<mapsto> ''tool_calls'']"

record inbound_stream =
  is_model :: string
  is_id :: string
  is_started :: bool
  is_next :: nat
  is_tools :: "(nat \<times> nat) list"
  is_finish :: "string option"
  is_input :: rat
  is_cache :: rat
  is_creation :: rat
  is_output :: rat
  is_saw :: bool

definition initial_inbound :: inbound_stream where
  "initial_inbound =
     \<lparr>is_model = [], is_id = [], is_started = False, is_next = 0, is_tools = [], is_finish = None,
      is_input = 0, is_cache = 0, is_creation = 0, is_output = 0, is_saw = False\<rparr>"

definition base_fields :: "inbound_stream \<Rightarrow> json_object" where
  "base_fields s =
     (if is_id s \<noteq> [] then [(''id'', JStr (is_id s))] else []) @
     (if is_model s \<noteq> [] then [(''model'', JStr (is_model s))] else [])"

definition delta_chunk :: "json_object \<Rightarrow> inbound_stream \<Rightarrow> json" where
  "delta_chunk delta s =
     JObj (base_fields s @ [(''choices'', JArr [JObj [(''index'', JNum 0), (''delta'', JObj delta)]])])"

definition role_chunk :: "inbound_stream \<Rightarrow> json" where
  "role_chunk = delta_chunk [(''role'', JStr ''assistant'')]"

definition tool_chunk :: "json_object \<Rightarrow> inbound_stream \<Rightarrow> json" where
  "tool_chunk call = delta_chunk [(''tool_calls'', JArr [JObj call])]"

definition start_tool_fields :: "nat \<Rightarrow> string \<Rightarrow> string \<Rightarrow> json_object" where
  "start_tool_fields n i name =
     [(''index'', JNum (of_nat n)), (''id'', JStr i), (''type'', JStr ''function''),
      (''function'', JObj [(''name'', JStr name), (''arguments'', JStr [])])]"

definition argument_fields :: "nat \<Rightarrow> string \<Rightarrow> json_object" where
  "argument_fields n a = [(''index'', JNum (of_nat n)), (''function'', JObj [(''arguments'', JStr a)])]"

definition inbound_usage :: "inbound_stream \<Rightarrow> json_object" where
  "inbound_usage s =
     (if is_saw s
      then
        [(''usage'', JObj
           ([(''prompt_tokens'', JNum (is_input s)), (''completion_tokens'', JNum (is_output s))] @
            (if 0 < is_cache s then [(''cached_tokens'', JNum (is_cache s))] else []) @
            (if 0 < is_creation s then [(''cache_creation_tokens'', JNum (is_creation s))] else [])))]
      else [])"

definition terminal_chunk :: "inbound_stream \<Rightarrow> json" where
  "terminal_chunk s =
     JObj (base_fields s @
       [(''choices'', JArr [JObj [(''index'', JNum 0), (''delta'', JObj []),
          (''finish_reason'', JStr (nullish (is_finish s) ''stop''))]])] @ inbound_usage s)"

subsection \<open>One event\<close>

definition inbound_start :: "string \<Rightarrow> string \<Rightarrow> start_usage \<Rightarrow> inbound_stream \<Rightarrow> json list \<times> inbound_stream" where
  "inbound_start i model u s =
     (let s' = s\<lparr>is_id := (if i \<noteq> [] then i else is_id s), is_model := (if model \<noteq> [] then model else is_model s), is_started := True,
                is_input := max (is_input s) (su_input u), is_cache := max (is_cache s) (nullish (su_cache_read u) 0),
                is_creation := max (is_creation s) (nullish (su_cache_creation u) 0)\<rparr> in
      ([role_chunk s'], s'))"

definition inbound_block :: "nat \<Rightarrow> block_start \<Rightarrow> inbound_stream \<Rightarrow> json list \<times> inbound_stream" where
  "inbound_block i block s =
     (case block of
        Start_tool tid name \<Rightarrow>
          let s' = s\<lparr>is_next := Suc (is_next s), is_tools := AList.update i (is_next s) (is_tools s)\<rparr> in
          ([tool_chunk (start_tool_fields (is_next s) tid name) s'], s')
      | Start_redacted d \<Rightarrow>
          ([delta_chunk [(''thinking_blocks'', JArr [JObj [(''type'', JStr ''redacted_thinking''), (''data'', JStr d)]])] s], s)
      | _ \<Rightarrow> ([], s))"

definition inbound_delta :: "nat \<Rightarrow> block_delta \<Rightarrow> inbound_stream \<Rightarrow> json list \<times> inbound_stream" where
  "inbound_delta i delta s =
     (case delta of
        Text_delta t \<Rightarrow>
          ((if is_started s then [] else [role_chunk s]) @ [delta_chunk [(''content'', JStr t)] s], s\<lparr>is_started := True\<rparr>)
      | Thinking_delta t \<Rightarrow> ([delta_chunk [(''reasoning_content'', JStr t)] s], s)
      | Signature_delta x \<Rightarrow>
          ([delta_chunk [(''thinking_blocks'', JArr [JObj [(''type'', JStr ''thinking''), (''signature'', JStr x)]])] s], s)
      | Input_json_delta a \<Rightarrow>
          ([tool_chunk (argument_fields (nullish (map_of (is_tools s) i) 0) a) s], s))"

definition inbound_message_delta :: "string option \<Rightarrow> delta_usage \<Rightarrow> inbound_stream \<Rightarrow> inbound_stream" where
  "inbound_message_delta reason u s =
     s\<lparr>is_finish := (case reason of None \<Rightarrow> is_finish s | Some r \<Rightarrow> Some (nullish (STOP_REASON_TO_FINISH_STREAM r) ''stop'')),
       is_output := du_output u, is_input := max (is_input s) (nullish (du_input u) 0),
       is_cache := max (is_cache s) (nullish (du_cache_read u) 0),
       is_creation := max (is_creation s) (nullish (du_cache_creation u) 0), is_saw := True\<rparr>"

fun inbound_event :: "anthropic_event \<Rightarrow> inbound_stream \<Rightarrow> json list \<times> inbound_stream" where
  "inbound_event (Message_start i model u) s = inbound_start i model u s"
| "inbound_event (Block_start i block) s = inbound_block i block s"
| "inbound_event (Block_delta i delta) s = inbound_delta i delta s"
| "inbound_event (Block_stop i) s = ([], s)"
| "inbound_event (Message_delta reason u) s = ([], inbound_message_delta reason u s)"
| "inbound_event Message_stop s = ([terminal_chunk s], s)"

fun inbound_events :: "anthropic_event list \<Rightarrow> inbound_stream \<Rightarrow> json list" where
  "inbound_events [] s = []"
| "inbound_events (e # es) s = (case inbound_event e s of (chunks, s') \<Rightarrow> chunks @ inbound_events es s')"

definition convertAnthropicStreamToIR :: "anthropic_event list \<Rightarrow> json list" where
  "convertAnthropicStreamToIR es = inbound_events es initial_inbound"

subsection \<open>What the other direction reads in a chunk\<close>

lemma delta_chunk_choice:
  "prop_of ''choices'' (delta_chunk d s) = Some (JArr [JObj [(''index'', JNum 0), (''delta'', JObj d)]])"
  "prop_of ''usage'' (delta_chunk d s) = None"
  "prop_of ''id'' (delta_chunk d s) = (if is_id s = [] then None else Some (JStr (is_id s)))"
  "prop_of ''model'' (delta_chunk d s) = (if is_model s = [] then None else Some (JStr (is_model s)))"
  by (simp_all add: delta_chunk_def base_fields_def map_of_append)

lemma terminal_chunk_choice:
  "prop_of ''choices'' (terminal_chunk s) =
     Some (JArr [JObj [(''index'', JNum 0), (''delta'', JObj []), (''finish_reason'', JStr (nullish (is_finish s) ''stop''))]])"
  by (simp add: terminal_chunk_def base_fields_def inbound_usage_def map_of_append)

lemma chunk_schema_delta: "OpenAIChunkSchema (delta_chunk d s) = OpenAIChunkDeltaSchema (JObj d)"
  by (simp add: OpenAIChunkSchema_def schema_object_def [of "[_, _, _, _]"] schema_object_def [of "[_, _, _]"] optional_def
      delta_chunk_def base_fields_def map_of_append schema_array_def OpenAIChunkChoiceSchema_def schema_string_def schema_int_def
      isSafeInteger_def MAX_SAFE_INTEGER_def)

lemma delta_chunk_text:
  "chunk_text (delta_chunk d s) = (if OpenAIChunkDeltaSchema (JObj d) then nullish (cd_content (read_delta (JObj d))) [] else [])"
  by (simp add: chunk_text_def parse_chunk_def chunk_schema_delta read_chunk_def first_choice_def delta_chunk_choice as_list_def
      delta_content_def opt_prop_def)

lemma delta_chunk_args:
  "chunk_args k (delta_chunk d s) =
     (if OpenAIChunkDeltaSchema (JObj d) then concat (map (tool_args k) (cd_tools (read_delta (JObj d)))) else [])"
  by (simp add: chunk_args_def parse_chunk_def chunk_schema_delta read_chunk_def first_choice_def delta_chunk_choice as_list_def
      delta_tools_def opt_prop_def)

lemma terminal_chunk_silent: "chunk_text (terminal_chunk s) = []" "chunk_args k (terminal_chunk s) = []"
  by (simp_all add: chunk_text_def chunk_args_def parse_chunk_def read_chunk_def first_choice_def terminal_chunk_choice as_list_def
      delta_content_def delta_tools_def opt_prop_def read_delta_def)

lemma content_chunk_text: "chunk_text (delta_chunk [(''content'', JStr t)] s) = t"
  by (simp add: delta_chunk_text OpenAIChunkDeltaSchema_def schema_object_def optional_def schema_nullable_def schema_string_def read_delta_def)

lemma quiet_chunk:
  "map_of d ''content'' = None \<Longrightarrow> chunk_text (delta_chunk d s) = []"
  "map_of d ''tool_calls'' = None \<Longrightarrow> chunk_args k (delta_chunk d s) = []"
  by (simp_all add: delta_chunk_text delta_chunk_args read_delta_def as_list_def)

lemma inbound_event_text: "concat (map chunk_text (fst (inbound_event e s))) = text_of e"
  by (cases e) (auto simp: inbound_start_def inbound_block_def inbound_delta_def Let_def role_chunk_def tool_chunk_def
      content_chunk_text quiet_chunk terminal_chunk_silent split: block_start.split block_delta.split)

lemma inbound_texts: "upstream_text (convertAnthropicStreamToIR es) = texts es"
proof -
  have "concat (map chunk_text (inbound_events es s)) = texts es" for s
  proof (induction es arbitrary: s)
    case (Cons e es)
    with inbound_event_text [of e s] show ?case by (auto split: prod.split)
  qed simp
  then show ?thesis by (simp add: upstream_text_def convertAnthropicStreamToIR_def)
qed

text \<open>
  The text an Anthropic stream carries is the text of the OpenAI chunks it is converted to, whatever the events.
\<close>

theorem inbound_text_conserved: "upstream_text (convertAnthropicStreamToIR es) = texts es"
  by (rule inbound_texts)

subsection \<open>Tool calls\<close>

text \<open>The blocks of the tool calls, in the order of their starts; the converter numbers the calls by it.\<close>

fun tool_block :: "anthropic_event \<Rightarrow> nat list" where
  "tool_block (Block_start i (Start_tool tid name)) = [i]"
| "tool_block e = []"

definition tool_blocks :: "anthropic_event list \<Rightarrow> nat list" where
  "tool_blocks es = concat (map tool_block es)"

lemma tool_blocks_simps [simp]: "tool_blocks [] = []" "tool_blocks (e # es) = tool_block e @ tool_blocks es"
  by (simp_all add: tool_blocks_def)

lemma argument_chunk_args:
  "n \<le> 9007199254740991 \<Longrightarrow> chunk_args k (tool_chunk (argument_fields n a) s) = (if n = k then a else [])"
  "n \<le> 9007199254740991 \<Longrightarrow> chunk_args k (tool_chunk (start_tool_fields n i name) s) = []"
  by (simp_all add: tool_chunk_def argument_fields_def start_tool_fields_def delta_chunk_args OpenAIChunkDeltaSchema_def
      OpenAIToolCallDeltaSchema_def schema_object_def optional_def required_def schema_array_def schema_string_def schema_count_def
      schema_int_def isSafeInteger_def MAX_SAFE_INTEGER_def read_delta_def as_list_def read_tool_delta_def tool_args_def opt_prop_def
      as_number_def)

lemma ending_tail: "follows Ending_message es \<noteq> None \<Longrightarrow> es = [] \<or> es = [Message_stop]"
proof (cases es)
  case (Cons e es')
  assume "follows Ending_message es \<noteq> None"
  with Cons have "e = Message_stop" "follows Ended_message es' \<noteq> None" by (cases e; simp)+
  with Cons show ?thesis by (cases es') auto
qed simp

text \<open>In an accepted stream the tool blocks are fresh when they start.\<close>

lemma later_tools_fresh:
  "follows (Within_message b) es \<noteq> None \<Longrightarrow> distinct (tool_blocks es) \<and> (\<forall>i \<in> set (tool_blocks es). b i = Unused)"
proof (induction es arbitrary: b)
  case (Cons e es)
  then obtain ph where ph: "follow (Within_message b) e = Some ph" "follows ph es \<noteq> None"
    by (cases "follow (Within_message b) e") auto
  show ?case
  proof (cases e)
    case (Block_start i k)
    with ph have b: "b i = Unused" "ph = Within_message (b(i := Opened (kind_of k)))" by (auto split: if_splits)
    with Cons.IH ph(2) have "distinct (tool_blocks es)" "\<forall>j \<in> set (tool_blocks es). (b(i := Opened (kind_of k))) j = Unused" by blast+
    then show ?thesis using b(1) by (cases k) (auto simp: Block_start split: if_splits)
  next
    case (Block_delta i d)
    with ph Cons.IH show ?thesis by (auto split: block_phase.splits if_splits)
  next
    case (Block_stop i)
    with ph have "ph = Within_message (b(i := Closed))" by (auto split: block_phase.splits)
    with ph(2) Cons.IH have "distinct (tool_blocks es)" "\<forall>j \<in> set (tool_blocks es). (b(i := Closed)) j = Unused" by blast+
    then show ?thesis by (auto simp: Block_stop split: if_splits)
  next
    case (Message_delta r u)
    with ph have "ph = Ending_message" by (auto split: if_splits)
    with ph(2) ending_tail have "es = [] \<or> es = [Message_stop]" by blast
    then show ?thesis by (auto simp: Message_delta)
  qed (use ph in auto)
qed simp

text \<open>The list \<open>l\<close> holds the tool blocks started so far.\<close>

definition numbered :: "(nat \<Rightarrow> block_phase) \<Rightarrow> nat list \<Rightarrow> inbound_stream \<Rightarrow> bool" where
  "numbered b l s =
     (length l = is_next s \<and> distinct l \<and> (\<forall>n < length l. map_of (is_tools s) (l ! n) = Some n) \<and>
      (\<forall>i. b i = Opened Kind_tool \<longrightarrow> i \<in> set l) \<and> (\<forall>i \<in> set l. b i \<noteq> Unused))"

lemma quiet_event:
  assumes "tool_block e = []" "\<And>i a. e \<noteq> Block_delta i (Input_json_delta a)"
  shows "concat (map (chunk_args k) (fst (inbound_event e s))) = []" "args_in i e = []"
    "is_tools (snd (inbound_event e s)) = is_tools s" "is_next (snd (inbound_event e s)) = is_next s"
proof -
  show "concat (map (chunk_args k) (fst (inbound_event e s))) = []"
    using assms by (cases e) (auto simp: inbound_start_def inbound_block_def inbound_delta_def Let_def role_chunk_def
        quiet_chunk terminal_chunk_silent split: block_start.split block_delta.split)
  show "args_in i e = []" using assms by (cases "(i, e)" rule: args_in.cases) auto
  show "is_tools (snd (inbound_event e s)) = is_tools s" "is_next (snd (inbound_event e s)) = is_next s"
    using assms by (cases e; auto simp: inbound_start_def inbound_block_def inbound_delta_def inbound_message_delta_def Let_def
        split: block_start.split block_delta.split)+
qed

lemma numbered_other:
  "numbered b l s \<Longrightarrow> is_tools s' = is_tools s \<Longrightarrow> is_next s' = is_next s \<Longrightarrow>
   (\<And>i. b' i = Opened Kind_tool \<Longrightarrow> b i = Opened Kind_tool) \<Longrightarrow> (\<And>i. b' i = Unused \<Longrightarrow> b i = Unused) \<Longrightarrow> numbered b' l s'"
  by (auto simp: numbered_def)

lemma numbered_start:
  assumes "numbered b l s" "b i = Unused"
  shows "numbered (b(i := Opened Kind_tool)) (l @ [i]) (snd (inbound_event (Block_start i (Start_tool tid name)) s))"
  using assms by (auto simp: numbered_def inbound_block_def Let_def nth_append update_conv' less_Suc_eq)

definition delivered :: "nat list \<Rightarrow> anthropic_event list \<Rightarrow> nat \<Rightarrow> string" where
  "delivered l es k = (if k < length (l @ tool_blocks es) then args_of ((l @ tool_blocks es) ! k) es else [])"

lemma inbound_args:
  "follows (Within_message b) es \<noteq> None \<Longrightarrow> numbered b l s \<Longrightarrow> is_next s + length es \<le> 9007199254740991 \<Longrightarrow>
   concat (map (chunk_args k) (inbound_events es s)) = delivered l es k \<and>
   (j \<notin> set (l @ tool_blocks es) \<longrightarrow> args_of j es = [])"
proof (induction es arbitrary: b l s)
  case Nil
  then show ?case by (simp add: delivered_def)
next
  case (Cons e es)
  then obtain ph where ph: "follow (Within_message b) e = Some ph" "follows ph es \<noteq> None"
    by (cases "follow (Within_message b) e") auto
  obtain chunks s' where ev: "inbound_event e s = (chunks, s')" by (cases "inbound_event e s")
  have quiet: ?case
    if q: "tool_block e = []" "\<And>i a. e \<noteq> Block_delta i (Input_json_delta a)"
      and "ph = Within_message b'" "\<And>i. b' i = Opened Kind_tool \<Longrightarrow> b i = Opened Kind_tool" "\<And>i. b' i = Unused \<Longrightarrow> b i = Unused" for b'
  proof -
    have "numbered b' l s'" using numbered_other [OF Cons.prems(2)] quiet_event(3,4) [OF q, of s] that ev by simp
    moreover have "is_next s' + length es \<le> 9007199254740991" using Cons.prems(3) quiet_event(4) [OF q, of s] ev by simp
    ultimately show ?thesis
      using Cons.IH [of b' l s'] ph(2) that(3) quiet_event(1,2) [OF q] ev q(1) quiet_event(1) [OF q, of k s]
      by (simp add: delivered_def)
  qed
  show ?case
  proof (cases e)
    case (Block_start i block)
    with ph have b: "b i = Unused" "ph = Within_message (b(i := Opened (kind_of block)))" by (auto split: if_splits)
    show ?thesis
    proof (cases "kind_of block = Kind_tool")
      case True
      then obtain tid name where tool: "block = Start_tool tid name" by (cases block) (auto simp: kind_of_def)
      have n: "is_next s' = Suc (is_next s)" using ev by (auto simp: Block_start tool inbound_block_def Let_def)
      have "concat (map (chunk_args k) (inbound_events es s')) = delivered (l @ [i]) es k \<and>
        (j \<notin> set ((l @ [i]) @ tool_blocks es) \<longrightarrow> args_of j es = [])"
      proof (rule Cons.IH [of "b(i := Opened Kind_tool)"])
        show "follows (Within_message (b(i := Opened Kind_tool))) es \<noteq> None" using ph(2) b(2) by (simp add: tool kind_of_def)
        show "numbered (b(i := Opened Kind_tool)) (l @ [i]) s'"
          using numbered_start [OF Cons.prems(2) b(1), of tid name] ev by (simp add: Block_start tool)
        show "is_next s' + length es \<le> 9007199254740991" using n Cons.prems(3) by simp
      qed
      moreover have "concat (map (chunk_args k) chunks) = []"
        using ev Cons.prems(3) argument_chunk_args(2) [of "is_next s" k] by (auto simp: Block_start tool inbound_block_def Let_def)
      moreover have "delivered l (e # es) k = delivered (l @ [i]) es k" by (simp add: delivered_def Block_start tool)
      ultimately show ?thesis using ev by (simp add: Block_start tool)
    next
      case False
      then have "tool_block e = []" by (cases block) (auto simp: Block_start kind_of_def)
      then show ?thesis using False by (intro quiet [OF _ _ b(2)]) (auto simp: Block_start split: if_splits)
    qed
  next
    case (Block_delta i d)
    with ph obtain kd where d: "b i = Opened kd" "fits kd d" "ph = Within_message b" by (auto split: block_phase.splits if_splits)
    show ?thesis
    proof (cases "\<exists>a. d = Input_json_delta a")
      case True
      then obtain a where a: "d = Input_json_delta a" by blast
      with d have "b i = Opened Kind_tool" by (simp add: fits_def)
      then obtain n where n: "n < length l" "l ! n = i" using Cons.prems(2) by (auto simp: numbered_def in_set_conv_nth)
      then have "map_of (is_tools s) i = Some n" using Cons.prems(2) by (auto simp: numbered_def)
      then have c: "chunks = [tool_chunk (argument_fields n a) s]" "s' = s" using ev by (auto simp: Block_delta a inbound_delta_def)
      have n': "n \<le> 9007199254740991" using n Cons.prems(2,3) by (simp add: numbered_def)
      have "distinct (l @ tool_blocks es)"
        using later_tools_fresh [of b es] ph(2) d(3) Cons.prems(2) by (auto simp: numbered_def)
      then have same: "(l @ tool_blocks es) ! k' = i \<longleftrightarrow> k' = n" if "k' < length (l @ tool_blocks es)" for k'
        using n nth_eq_iff_index_eq [of "l @ tool_blocks es" k' n] that by (auto simp: nth_append)
      have "j \<noteq> i" if "j \<notin> set (l @ tool_blocks es)" using that n by auto
      then show ?thesis
        using Cons.IH [of b l s] ph(2) d(3) Cons.prems(2,3) c ev same [of k] n argument_chunk_args(1) [OF n', of k a s]
        by (auto simp: Block_delta a delivered_def)
    next
      case False
      with d(3) show ?thesis using quiet [of b] by (simp add: Block_delta)
    qed
  next
    case (Block_stop i)
    with ph have "ph = Within_message (b(i := Closed))" "b i \<noteq> Unused" by (auto split: block_phase.splits)
    then show ?thesis by (intro quiet [of "b(i := Closed)"]) (auto simp: Block_stop split: if_splits)
  next
    case (Message_delta r u)
    with ph have "ph = Ending_message" by (auto split: if_splits)
    with ph(2) ending_tail have "es = [] \<or> es = [Message_stop]" by blast
    then show ?thesis by (auto simp: Message_delta delivered_def terminal_chunk_silent)
  qed (use ph in auto)
qed

lemma inbound_all:
  assumes "follows Before_message es \<noteq> None" "length es \<le> 9007199254740991"
  shows "upstream_args k (convertAnthropicStreamToIR es) = delivered [] es k"
    "j \<notin> set (tool_blocks es) \<Longrightarrow> args_of j es = []"
proof -
  have "upstream_args k (convertAnthropicStreamToIR es) = delivered [] es k \<and> (j \<notin> set (tool_blocks es) \<longrightarrow> args_of j es = [])"
  proof (cases es)
    case Nil
    then show ?thesis by (simp add: upstream_args_def convertAnthropicStreamToIR_def delivered_def)
  next
    case (Cons e es')
    with assms(1) obtain i m u where e: "e = Message_start i m u" "follows (Within_message (\<lambda>_. Unused)) es' \<noteq> None"
      by (cases e) auto
    obtain s where s: "inbound_start i m u initial_inbound = ([role_chunk s], s)" "is_tools s = []" "is_next s = 0"
      by (simp add: inbound_start_def Let_def initial_inbound_def)
    have "numbered (\<lambda>_. Unused) [] s" using s by (simp add: numbered_def)
    from inbound_args [OF e(2) this, of k j] show ?thesis
      using s assms(2) Cons e(1)
      by (simp add: upstream_args_def convertAnthropicStreamToIR_def delivered_def role_chunk_def quiet_chunk)
  qed
  then show "upstream_args k (convertAnthropicStreamToIR es) = delivered [] es k"
    "j \<notin> set (tool_blocks es) \<Longrightarrow> args_of j es = []" by auto
qed

text \<open>
  C39. A completion that is relayed as an Anthropic stream and read back as OpenAI chunks is the completion that was sent: the
  text is the same (when leaked XML is not lifted), and the arguments of every tool call come back whole under an index of
  their own. Excluded are conversions that throw and streams of more events than JavaScript has exact integers.
\<close>

theorem anthropic_relay_round_trip:
  "(case convertOpenAIStreamToAnthropic opts raws broken of
      (es, threw) \<Rightarrow>
        threw \<or> 9007199254740991 < length es \<or>
        ((so_xmlRecovery opts \<or> upstream_text (convertAnthropicStreamToIR es) = upstream_text raws) \<and>
         (\<exists>index. inj index \<and> (\<forall>k. upstream_args (index k) (convertAnthropicStreamToIR es) = upstream_args k raws))))"
proof -
  obtain es threw where c: "convertOpenAIStreamToAnthropic opts raws broken = (es, threw)"
    by (cases "convertOpenAIStreamToAnthropic opts raws broken")
  show ?thesis
  proof (cases "threw \<or> 9007199254740991 < length es")
    case True
    then show ?thesis by (auto simp: c)
  next
    case False
    then have ok: "follows Before_message es \<noteq> None" "length es \<le> 9007199254740991" "\<not> threw"
      using conversion_well_formed [where opts = opts and raws = raws and broken = broken] by (auto simp: c)
    obtain block where block: "inj block" "\<And>k. args_of (block k) es = upstream_args k raws"
      using conversion_arguments [where opts = opts and raws = raws and broken = broken] ok(3) by (auto simp: c)
    define index where
      "index k = (if block k \<in> set (tool_blocks es) then (LEAST n. n < length (tool_blocks es) \<and> tool_blocks es ! n = block k)
                  else length (tool_blocks es) + k)" for k
    have at: "index k < length (tool_blocks es) \<and> tool_blocks es ! index k = block k" if "block k \<in> set (tool_blocks es)" for k
      using that LeastI_ex [of "\<lambda>n. n < length (tool_blocks es) \<and> tool_blocks es ! n = block k"]
      by (auto simp: index_def in_set_conv_nth)
    have out: "index k = length (tool_blocks es) + k" if "block k \<notin> set (tool_blocks es)" for k
      using that by (simp add: index_def)
    have "inj index"
    proof (rule injI)
      fix k k' assume eq: "index k = index k'"
      show "k = k'"
      proof (cases "block k \<in> set (tool_blocks es)"; cases "block k' \<in> set (tool_blocks es)")
        assume "block k \<in> set (tool_blocks es)" "block k' \<in> set (tool_blocks es)"
        then have "block k = block k'" using at eq by metis
        with block(1) show ?thesis by (simp add: inj_eq)
      next
        assume "block k \<in> set (tool_blocks es)" "block k' \<notin> set (tool_blocks es)"
        then show ?thesis using at [of k] eq out [of k'] by simp
      next
        assume "block k \<notin> set (tool_blocks es)" "block k' \<in> set (tool_blocks es)"
        then show ?thesis using at [of k'] eq out [of k] by simp
      next
        assume "block k \<notin> set (tool_blocks es)" "block k' \<notin> set (tool_blocks es)"
        then show ?thesis using eq out by simp
      qed
    qed
    moreover have "upstream_args (index k) (convertAnthropicStreamToIR es) = upstream_args k raws" for k
    proof (cases "block k \<in> set (tool_blocks es)")
      case True
      then show ?thesis using at [of k] block(2) [of k] inbound_all(1) [OF ok(1,2)] by (simp add: delivered_def)
    next
      case False
      then show ?thesis
        using block(2) [of k] inbound_all [OF ok(1,2)] by (simp add: delivered_def out)
    qed
    moreover have "so_xmlRecovery opts \<or> upstream_text (convertAnthropicStreamToIR es) = upstream_text raws"
      using conversion_text [where opts = opts and raws = raws and broken = broken] ok(3) by (auto simp: c inbound_texts recovered_text_def)
    ultimately show ?thesis by (auto simp: c)
  qed
qed

end
