(* ===== verification/Api_Keys.thy ===== *)
theory Api_Keys
  imports Retry
begin

text \<open>
  The pool of upstream API keys (\<open>provider/api-key-pool.ts\<close>, \<open>shared/config/api-key-pool.ts\<close>): one document in the
  configuration store, changed by compare-and-set; accounts with their pauses, probe leases and credential generations.
  Encryption is the identity with a fresh ciphertext for every write, so a version number stands for the ciphertext. UUIDs,
  SHA-256, \<open>Date.parse\<close> and the wall clock of the time zone are parameters. Times are rationals.
\<close>

subsection \<open>Keys, accounts and the document\<close>

datatype api_provider = Openai_keys | Anthropic_keys

definition apiKeyMatchesProvider :: "string \<Rightarrow> api_provider \<Rightarrow> bool" where
  "apiKeyMatchesProvider key t =
     (case t of
        Anthropic_keys \<Rightarrow>
          startsWith ''sk-ant-'' key \<and> \<not> startsWith ''sk-ant-oat'' key \<and> \<not> startsWith ''sk-ant-admin'' key
      | Openai_keys \<Rightarrow> \<not> startsWith ''sk-ant-'' key)"

definition key_char :: "char \<Rightarrow> bool" where
  "key_char c =
     (let n = of_char c :: nat in
      (48 \<le> n \<and> n \<le> 57) \<or> (65 \<le> n \<and> n \<le> 90) \<or> (97 \<le> n \<and> n \<le> 122) \<or> c = CHR ''_'' \<or> c = CHR ''-'')"

definition UpstreamApiKeySchema :: "string \<Rightarrow> string option" where
  "UpstreamApiKeySchema raw =
     (let key = trim raw in
      if 12 \<le> length key \<and> length key \<le> 512 \<and> startsWith ''sk-'' key \<and> 3 < length key \<and> list_all key_char (drop 3 key) \<and>
         \<not> startsWith ''sk-admin-'' key
      then Some key else None)"

definition account_name :: "string \<Rightarrow> string option" where
  "account_name raw = (let name = trim raw in if 1 \<le> length name \<and> length name \<le> 80 then Some name else None)"

record key_input =
  ki_name :: string
  ki_key :: string

definition ApiKeyAccountInputSchema :: "key_input \<Rightarrow> key_input option" where
  "ApiKeyAccountInputSchema inp =
     (case (account_name (ki_name inp), UpstreamApiKeySchema (ki_key inp)) of
        (Some n, Some k) \<Rightarrow> Some \<lparr>ki_name = n, ki_key = k\<rparr>
      | _ \<Rightarrow> None)"

text \<open>A patch holds the fields that are present.\<close>

record key_patch =
  kp_name :: "string option"
  kp_key :: "string option"
  kp_enabled :: "bool option"
  kp_priority :: "int option"
  kp_models :: "string list option option"

definition model_name_ok :: "string \<Rightarrow> bool" where
  "model_name_ok m = (1 \<le> length m \<and> length m \<le> 200)"

definition ApiKeyAccountPatchSchema :: "key_patch \<Rightarrow> key_patch option" where
  "ApiKeyAccountPatchSchema p =
     (if (case kp_name p of None \<Rightarrow> True | Some n \<Rightarrow> account_name n \<noteq> None) \<and>
         (case kp_key p of None \<Rightarrow> True | Some k \<Rightarrow> UpstreamApiKeySchema k \<noteq> None) \<and>
         (case kp_priority p of None \<Rightarrow> True | Some n \<Rightarrow> 0 \<le> n \<and> n \<le> 1000) \<and>
         (case kp_models p of Some (Some ms) \<Rightarrow> length ms \<le> 500 \<and> list_all model_name_ok ms | _ \<Rightarrow> True)
      then Some (p\<lparr>kp_name := Option.bind (kp_name p) account_name, kp_key := Option.bind (kp_key p) UpstreamApiKeySchema\<rparr>)
      else None)"

datatype key_state = Key_ready | Key_cooldown | Key_quota_exhausted | Key_invalid

record key_account =
  ka_id :: string
  ka_name :: string
  ka_key :: string
  ka_fingerprint :: string
  ka_generation :: string
  ka_enabled :: bool
  ka_priority :: int
  ka_models :: "string list option"
  ka_state :: key_state
  ka_reason :: "string option"
  ka_reasonMessage :: "string option"
  ka_nextRetryAt :: "rat option"
  ka_probeUntil :: "rat option"
  ka_probeId :: "string option"
  ka_denied :: "string list"

datatype key_strategy = Round_robin_keys | Manual_priority_keys

record key_document =
  kd_accounts :: "key_account list"
  kd_strategy :: "key_strategy option"

record key_attempt =
  kt_id :: string
  kt_generation :: string
  kt_key :: string
  kt_probeId :: "string option"

record key_env =
  ke_provider :: api_provider
  ke_probeLeaseMs :: "rat option"
  ke_sha256 :: "string \<Rightarrow> string"
  ke_dateParse :: "string \<Rightarrow> rat option"
  ke_monthStart :: "rat \<Rightarrow> rat"
  ke_wallClock :: "rat \<Rightarrow> rat"

definition DAY :: rat where "DAY = 86400000"

text \<open>
  The first instant of the next month in the operator's zone: the wall-clock reading of an instant is \<open>ke_wallClock\<close>, and
  \<open>ke_monthStart now\<close> is the target reading. Four corrections are made.
\<close>

definition nextMonthlyRetry :: "key_env \<Rightarrow> rat \<Rightarrow> rat" where
  "nextMonthlyRetry env now =
     (let target = ke_monthStart env now in ((\<lambda>utc. utc + (target - ke_wallClock env utc)) ^^ 4) target)"

subsection \<open>Classifying a failure\<close>

fun first_text :: "json option list \<Rightarrow> string" where
  "first_text [] = []"
| "first_text (v # vs) = (case as_string v of Some s \<Rightarrow> if s \<noteq> [] then s else first_text vs | None \<Rightarrow> first_text vs)"

definition inner_error :: "thrown option \<Rightarrow> json option" where
  "inner_error err = record_of (opt_prop ''error'' (record_of (Option.bind (Option.bind err upstream_of) uf_providerRaw)))"

definition errorCode :: "thrown option \<Rightarrow> string" where
  "errorCode err =
     (case Option.bind err upstream_of of
        None \<Rightarrow> []
      | Some u \<Rightarrow>
          let raw = record_of (uf_providerRaw u); inner = inner_error err;
              response = record_of (opt_prop ''error'' (record_of (opt_prop ''response'' raw))) in
          first_text [opt_prop ''code'' inner, opt_prop ''code'' response, opt_prop ''code'' raw,
                      opt_prop ''type'' inner, opt_prop ''type'' response])"

definition BILLING :: "string list" where
  "BILLING =
     [''credit_balance_exhausted'', ''insufficient_quota'', ''organization_spend_limit_exceeded'',
      ''project_spend_limit_exceeded'', ''organization_usage_limit_exceeded'', ''usage_limit_exceeded'']"

datatype failure_kind = Billing_failure | Rate_failure | Invalid_failure | Model_failure

definition anthropicFailureKind :: "thrown option \<Rightarrow> failure_kind option" where
  "anthropicFailureKind err =
     (case Option.bind err upstream_of of
        None \<Rightarrow> None
      | Some u \<Rightarrow>
          let code = errorCode err; status = uf_upstreamStatus u in
          if status = Some 401 \<or> code = ''authentication_error'' then Some Invalid_failure
          else if code = ''rate_limit_error'' then Some Rate_failure
          else if (status = Some 400 \<or> status = None) \<and> code = ''invalid_request_error'' \<and>
                  (case as_string (opt_prop ''message'' (inner_error err)) of
                     Some m \<Rightarrow> startsWith ''Your credit balance is too low to access the Anthropic API'' m
                   | None \<Rightarrow> False)
               then Some Billing_failure
          else if (status = Some 404 \<or> status = None) \<and> code = ''not_found_error'' then Some Model_failure
          else None)"

definition failureKind :: "thrown option \<Rightarrow> api_provider \<Rightarrow> failure_kind option" where
  "failureKind err provider =
     (let code = errorCode err in
      or_else (if provider = Anthropic_keys then anthropicFailureKind err else None)
        (if code \<in> set BILLING then Some Billing_failure
         else if code = ''invalid_api_key'' \<or> code = ''account_deactivated'' then Some Invalid_failure
         else if code = ''model_not_found'' \<or> code = ''model_not_allowed'' then Some Model_failure
         else if map_option uf_upstreamStatus (Option.bind err upstream_of) = Some (Some 429) then Some Rate_failure
         else None))"

subsection \<open>The store and the compare-and-set loop\<close>

record key_store =
  ks_version :: nat
  ks_document :: "key_document option"

definition document_of :: "key_store \<Rightarrow> key_document" where
  "document_of s = nullish (ks_document s) \<lparr>kd_accounts = [], kd_strategy = None\<rparr>"

definition write_document :: "key_document \<Rightarrow> key_store \<Rightarrow> key_store" where
  "write_document doc s = \<lparr>ks_version = Suc (ks_version s), ks_document = Some doc\<rparr>"

definition compareAndSet :: "nat \<Rightarrow> key_document \<Rightarrow> key_store \<Rightarrow> bool \<times> key_store" where
  "compareAndSet expected doc s = (if ks_version s = expected then (True, write_document doc s) else (False, s))"

type_synonym 'a key_change = "key_document \<Rightarrow> string + ('a \<times> key_document)"

text \<open>\<open>others i\<close> are the documents other processes write between the read and the compare-and-set of round \<open>i\<close>.\<close>

fun mutate_loop :: "nat \<Rightarrow> nat \<Rightarrow> (nat \<Rightarrow> key_document list) \<Rightarrow> 'a key_change \<Rightarrow> key_store \<Rightarrow> (string + 'a) \<times> key_store" where
  "mutate_loop 0 i others change s = (Inl ''API key pool changed concurrently; retry the operation'', s)"
| "mutate_loop (Suc n) i others change s =
     (case change (document_of s) of
        Inl e \<Rightarrow> (Inl e, s)
      | Inr (result, doc) \<Rightarrow>
          case compareAndSet (ks_version s) doc (fold write_document (others i) s) of
            (True, s') \<Rightarrow> (Inr result, s')
          | (False, s') \<Rightarrow> mutate_loop n (Suc i) others change s')"

definition mutate_keys :: "(nat \<Rightarrow> key_document list) \<Rightarrow> 'a key_change \<Rightarrow> key_store \<Rightarrow> (string + 'a) \<times> key_store" where
  "mutate_keys = mutate_loop 20 0"

subsection \<open>Reading the document\<close>

definition find_key :: "string \<Rightarrow> key_document \<Rightarrow> key_account option" where
  "find_key i doc = find (\<lambda>a. ka_id a = i) (kd_accounts doc)"

text \<open>The first account with the id is the object that the code changes in place.\<close>

fun change_first :: "string \<Rightarrow> (key_account \<Rightarrow> key_account) \<Rightarrow> key_account list \<Rightarrow> key_account list" where
  "change_first i f [] = []"
| "change_first i f (a # as) = (if ka_id a = i then f a # as else a # change_first i f as)"

definition change_account :: "string \<Rightarrow> (key_account \<Rightarrow> key_account) \<Rightarrow> key_document \<Rightarrow> key_document" where
  "change_account i f doc = doc\<lparr>kd_accounts := change_first i f (kd_accounts doc)\<rparr>"

definition account_eligible :: "rat \<Rightarrow> key_account \<Rightarrow> bool" where
  "account_eligible now a =
     (ka_enabled a \<and> ka_state a \<noteq> Key_invalid \<and> \<not> (ka_state a = Key_quota_exhausted \<and> ka_nextRetryAt a = None) \<and>
      nullish (ka_nextRetryAt a) 0 \<le> now \<and> nullish (ka_probeUntil a) 0 \<le> now)"

definition eligible_key :: "rat \<Rightarrow> string \<Rightarrow> key_document \<Rightarrow> bool" where
  "eligible_key now i doc = (case find_key i doc of None \<Rightarrow> False | Some a \<Rightarrow> account_eligible now a)"

definition allowsModel :: "string option \<Rightarrow> key_account \<Rightarrow> bool" where
  "allowsModel model a =
     (case model of
        None \<Rightarrow> True
      | Some m \<Rightarrow> (case ka_models a of None \<Rightarrow> True | Some ms \<Rightarrow> m \<in> set ms) \<and> m \<notin> set (ka_denied a))"

subsection \<open>The operator's changes\<close>

definition change_strategy :: "key_strategy \<Rightarrow> unit key_change" where
  "change_strategy st doc = Inr ((), doc\<lparr>kd_strategy := Some st\<rparr>)"

definition new_account :: "key_env \<Rightarrow> key_input \<Rightarrow> string \<Rightarrow> string \<Rightarrow> key_account" where
  "new_account env inp i generation =
     \<lparr>ka_id = i, ka_name = ki_name inp, ka_key = ki_key inp, ka_fingerprint = ke_sha256 env (ki_key inp), ka_generation = generation,
      ka_enabled = True, ka_priority = 50, ka_models = None, ka_state = Key_ready, ka_reason = None, ka_reasonMessage = None,
      ka_nextRetryAt = None, ka_probeUntil = None, ka_probeId = None, ka_denied = []\<rparr>"

text \<open>Every input comes with the two UUIDs drawn for it.\<close>

fun add_accounts :: "key_env \<Rightarrow> (key_input \<times> string \<times> string) list \<Rightarrow> unit key_change" where
  "add_accounts env [] doc = Inr ((), doc)"
| "add_accounts env ((inp, i, generation) # inputs) doc =
     (if \<exists>a \<in> set (kd_accounts doc). ka_fingerprint a = ke_sha256 env (ki_key inp)
      then Inl ''API key is already in this pool''
      else add_accounts env inputs (doc\<lparr>kd_accounts := kd_accounts doc @ [new_account env inp i generation]\<rparr>))"

definition validated_inputs :: "key_env \<Rightarrow> (key_input \<times> string \<times> string) list \<Rightarrow> string + (key_input \<times> string \<times> string) list" where
  "validated_inputs env inputs =
     (let parsed = map (\<lambda>(inp, ids). (ApiKeyAccountInputSchema inp, ids)) inputs in
      if inputs = [] \<or> 50 < length inputs \<or> list_ex (\<lambda>(inp, ids). inp = None) parsed then Inl ''invalid API key accounts''
      else if list_ex (\<lambda>(inp, ids). \<not> apiKeyMatchesProvider (ki_key (the inp)) (ke_provider env)) parsed
      then Inl ''API key does not match the selected provider type''
      else Inr (map (\<lambda>(inp, ids). (the inp, ids)) parsed))"

definition change_add :: "key_env \<Rightarrow> (key_input \<times> string \<times> string) list \<Rightarrow> unit key_change" where
  "change_add env inputs doc = (case validated_inputs env inputs of Inl e \<Rightarrow> Inl e | Inr checked \<Rightarrow> add_accounts env checked doc)"

definition replace_key :: "key_env \<Rightarrow> string \<Rightarrow> string \<Rightarrow> key_account \<Rightarrow> key_account" where
  "replace_key env key generation a =
     a\<lparr>ka_fingerprint := ke_sha256 env key, ka_generation := generation, ka_state := Key_ready, ka_reason := None,
       ka_reasonMessage := None, ka_nextRetryAt := None, ka_probeId := None, ka_probeUntil := None, ka_denied := []\<rparr>"

definition assign_patch :: "key_patch \<Rightarrow> key_account \<Rightarrow> key_account" where
  "assign_patch p a =
     a\<lparr>ka_name := nullish (kp_name p) (ka_name a), ka_key := nullish (kp_key p) (ka_key a),
       ka_enabled := nullish (kp_enabled p) (ka_enabled a), ka_priority := nullish (kp_priority p) (ka_priority a),
       ka_models := nullish (kp_models p) (ka_models a)\<rparr>"

definition change_update :: "key_env \<Rightarrow> string \<Rightarrow> key_patch \<Rightarrow> string \<Rightarrow> unit key_change" where
  "change_update env i inp generation doc =
     (case ApiKeyAccountPatchSchema inp of
        None \<Rightarrow> Inl ''invalid API key account patch''
      | Some p \<Rightarrow>
          if (case kp_key p of None \<Rightarrow> False | Some k \<Rightarrow> \<not> apiKeyMatchesProvider k (ke_provider env))
          then Inl ''API key does not match the selected provider type''
          else
            (case find_key i doc of
               None \<Rightarrow> Inl ''API key account not found''
             | Some a \<Rightarrow>
                 (case kp_key p of
                    None \<Rightarrow> Inr ((), change_account i (assign_patch p) doc)
                  | Some k \<Rightarrow>
                      if \<exists>other \<in> set (kd_accounts doc). ka_id other \<noteq> i \<and> ka_fingerprint other = ke_sha256 env k
                      then Inl ''API key is already in this pool''
                      else Inr ((), change_account i (\<lambda>a. assign_patch p (replace_key env k generation a)) doc))))"

definition change_remove :: "string \<Rightarrow> unit key_change" where
  "change_remove i doc = Inr ((), doc\<lparr>kd_accounts := filter (\<lambda>a. ka_id a \<noteq> i) (kd_accounts doc)\<rparr>)"

definition change_retry :: "rat \<Rightarrow> string \<Rightarrow> unit key_change" where
  "change_retry now i doc =
     (case find_key i doc of
        None \<Rightarrow> Inl ''API key account not found''
      | Some a \<Rightarrow>
          if ka_state a = Key_invalid then Inl ''Replace the invalid API key before retrying''
          else Inr ((), change_account i (\<lambda>a. a\<lparr>ka_nextRetryAt := Some now, ka_denied := []\<rparr>) doc))"

subsection \<open>Probe leases\<close>

definition probe_lease :: "key_env \<Rightarrow> rat" where
  "probe_lease env = nullish (ke_probeLeaseMs env) 600000"

definition take_lease :: "key_env \<Rightarrow> rat \<Rightarrow> string \<Rightarrow> key_account \<Rightarrow> key_account" where
  "take_lease env now uuid a = a\<lparr>ka_probeId := Some uuid, ka_probeUntil := Some (now + probe_lease env)\<rparr>"

definition attempt_of :: "string \<Rightarrow> string option \<Rightarrow> key_account \<Rightarrow> key_attempt" where
  "attempt_of i probe a = \<lparr>kt_id = i, kt_generation = ka_generation a, kt_key = ka_key a, kt_probeId = probe\<rparr>"

definition change_testRecovery :: "key_env \<Rightarrow> rat \<Rightarrow> string \<Rightarrow> string \<Rightarrow> string \<Rightarrow> string \<Rightarrow> key_attempt option key_change" where
  "change_testRecovery env now i generation model uuid doc =
     (case find_key i doc of
        None \<Rightarrow> Inr (None, doc)
      | Some a \<Rightarrow>
          if ka_generation a \<noteq> generation \<or> \<not> ka_enabled a \<or> ka_state a = Key_invalid \<or>
             (case ka_models a of None \<Rightarrow> False | Some ms \<Rightarrow> model \<notin> set ms)
          then Inr (None, doc)
          else if now < nullish (ka_probeUntil a) 0 then Inl ''Recovery already in progress''
          else if ka_state a = Key_ready \<and> model \<notin> set (ka_denied a) then Inr (None, doc)
          else Inr (Some (attempt_of i (Some uuid) a), change_account i (take_lease env now uuid) doc))"

definition change_acquire :: "key_env \<Rightarrow> rat \<Rightarrow> string \<Rightarrow> string option \<Rightarrow> string \<Rightarrow> key_attempt option key_change" where
  "change_acquire env now i model uuid doc =
     (case find_key i doc of
        None \<Rightarrow> Inr (None, doc)
      | Some a \<Rightarrow>
          if \<not> account_eligible now a \<or> \<not> allowsModel model a then Inr (None, doc)
          else Inr (Some (attempt_of i (Some uuid) a), change_account i (take_lease env now uuid) doc))"

text \<open>The whole operation: the snapshot that was just read decides first, and a ready account needs no lease.\<close>

definition acquire_key ::
  "key_env \<Rightarrow> rat \<Rightarrow> string \<Rightarrow> string option \<Rightarrow> string \<Rightarrow> (nat \<Rightarrow> key_document list) \<Rightarrow> key_store
    \<Rightarrow> (string + key_attempt option) \<times> key_store" where
  "acquire_key env now i model uuid others s =
     (case find_key i (document_of s) of
        None \<Rightarrow> (Inr None, s)
      | Some a \<Rightarrow>
          if \<not> account_eligible now a \<or> \<not> allowsModel model a then (Inr None, s)
          else if ka_state a = Key_ready then (Inr (Some (attempt_of i None a)), s)
          else mutate_keys others (change_acquire env now i model uuid) s)"

subsection \<open>Settling an attempt\<close>

text \<open>\<open>Number\<close> on a header value: blank is zero, otherwise a decimal literal with sign and exponent; \<open>None\<close> is not finite.\<close>

definition js_exponent :: "string \<Rightarrow> int option" where
  "js_exponent s =
     (case s of
        [] \<Rightarrow> Some 0
      | c # r \<Rightarrow>
          if c \<noteq> CHR ''e'' \<and> c \<noteq> CHR ''E'' then None
          else
            (let neg = startsWith ''-'' r; ds = (if neg \<or> startsWith ''+'' r then tl r else r) in
             if ds = [] \<or> \<not> list_all is_digit ds then None
             else Some (if neg then - int (digits_value ds) else int (digits_value ds))))"

definition power10 :: "int \<Rightarrow> rat" where
  "power10 e = (if 0 \<le> e then 10 ^ nat e else 1 / 10 ^ nat (- e))"

definition js_unsigned :: "string \<Rightarrow> rat option" where
  "js_unsigned s =
     (let ip = takeWhile is_digit s; r = dropWhile is_digit s;
          fp = (if startsWith ''.'' r then takeWhile is_digit (tl r) else []);
          r' = (if startsWith ''.'' r then dropWhile is_digit (tl r) else r) in
      if ip = [] \<and> fp = [] then None
      else map_option (\<lambda>e. (of_nat (digits_value ip) + of_nat (digits_value fp) / 10 ^ length fp) * power10 e) (js_exponent r'))"

definition js_number :: "string \<Rightarrow> rat option" where
  "js_number raw =
     (let s = trim raw in
      if s = [] then Some 0
      else if startsWith ''-'' s then map_option uminus (js_unsigned (tl s))
      else if startsWith ''+'' s then js_unsigned (tl s)
      else js_unsigned s)"

definition retry_after_header :: "thrown option \<Rightarrow> string option" where
  "retry_after_header err =
     map_option snd (find (\<lambda>(k, v). toLowerCase k = ''retry-after'')
       (nullish (Option.bind (Option.bind err upstream_of) uf_upstreamHeaders) []))"

definition rate_limited_until :: "key_env \<Rightarrow> rat \<Rightarrow> thrown option \<Rightarrow> rat" where
  "rate_limited_until env now err =
     (let raw = retry_after_header err in
      case Option.bind raw js_number of
        Some seconds \<Rightarrow> now + max 0 seconds * 1000
      | None \<Rightarrow> nullish (ke_dateParse env (nullish raw [])) (now + 60000))"

definition deny_model :: "string \<Rightarrow> key_account \<Rightarrow> key_account" where
  "deny_model m a = (if m \<in> set (ka_denied a) then a else a\<lparr>ka_denied := ka_denied a @ [m]\<rparr>)"

definition settle_probe :: "rat \<Rightarrow> thrown option \<Rightarrow> string \<Rightarrow> key_account \<Rightarrow> key_account" where
  "settle_probe now err m a =
     (if err = None
      then a\<lparr>ka_state := Key_ready, ka_reason := None, ka_reasonMessage := None, ka_nextRetryAt := None,
             ka_denied := (if m \<noteq> [] then filter (\<lambda>d. d \<noteq> m) (ka_denied a) else ka_denied a)\<rparr>
      else a\<lparr>ka_nextRetryAt := Some (now + 60000)\<rparr>)"

definition settle_state :: "key_env \<Rightarrow> rat \<Rightarrow> key_attempt \<Rightarrow> thrown option \<Rightarrow> string option \<Rightarrow> key_account \<Rightarrow> key_account" where
  "settle_state env now t err model a =
     (let kind = failureKind err (ke_provider env) in
      if kind = Some Billing_failure
      then a\<lparr>ka_state := Key_quota_exhausted,
             ka_nextRetryAt :=
               (if ke_provider env = Anthropic_keys then None
                else if kt_probeId t \<noteq> None then Some (now + DAY) else Some (nextMonthlyRetry env now))\<rparr>
      else if kind = Some Invalid_failure then a\<lparr>ka_state := Key_invalid, ka_nextRetryAt := None\<rparr>
      else if kind = Some Rate_failure
      then
        (if ka_state a \<noteq> Key_quota_exhausted
         then a\<lparr>ka_state := Key_cooldown, ka_nextRetryAt := Some (max (nullish (ka_nextRetryAt a) 0) (rate_limited_until env now err))\<rparr>
         else a)
      else if kind = Some Model_failure \<and> nullish model [] \<noteq> [] then deny_model (nullish model []) a
      else if kt_probeId t \<noteq> None then settle_probe now err (nullish model []) a
      else a)"

definition settle_exhausted :: "key_env \<Rightarrow> rat \<Rightarrow> bool \<Rightarrow> thrown option \<Rightarrow> key_account \<Rightarrow> key_account" where
  "settle_exhausted env now exhaustedProbe err a =
     (if exhaustedProbe \<and> err \<noteq> None \<and> failureKind err (ke_provider env) \<noteq> Some Invalid_failure
      then a\<lparr>ka_state := Key_quota_exhausted,
             ka_nextRetryAt :=
               (if ke_provider env = Anthropic_keys then None else Some (max (nullish (ka_nextRetryAt a) 0) (now + DAY)))\<rparr>
      else a)"

function replaceAll :: "string \<Rightarrow> string \<Rightarrow> string \<Rightarrow> string" where
  "replaceAll pat rep [] = (if pat = [] then rep else [])"
| "replaceAll pat rep (c # cs) =
     (if pat = [] then rep @ c # replaceAll pat rep cs
      else if startsWith pat (c # cs) then rep @ replaceAll pat rep (drop (length pat) (c # cs))
      else c # replaceAll pat rep cs)"
  by pat_completeness auto
termination
  by (relation "measure (\<lambda>(pat, rep, s). length s)") auto

definition kind_name :: "failure_kind \<Rightarrow> string" where
  "kind_name k =
     (case k of Billing_failure \<Rightarrow> ''billing'' | Rate_failure \<Rightarrow> ''rate'' | Invalid_failure \<Rightarrow> ''invalid'' | Model_failure \<Rightarrow> ''model'')"

definition redacted_message :: "key_account list \<Rightarrow> string \<Rightarrow> string" where
  "redacted_message accounts message =
     take 4000 (foldl (\<lambda>t account. replaceAll (ka_key account) ''[redacted]'' t) message accounts)"

definition settle_reason :: "key_env \<Rightarrow> key_account list \<Rightarrow> thrown option \<Rightarrow> key_account \<Rightarrow> key_account" where
  "settle_reason env accounts err a =
     (case failureKind err (ke_provider env) of
        None \<Rightarrow> a
      | Some kind \<Rightarrow>
          a\<lparr>ka_reason := Some (if errorCode err = [] then kind_name kind else errorCode err),
            ka_reasonMessage := map_option (redacted_message accounts) (as_string (opt_prop ''message'' (inner_error err)))\<rparr>)"

definition settle_lease :: "key_attempt \<Rightarrow> failure_kind option \<Rightarrow> key_account \<Rightarrow> key_account" where
  "settle_lease t kind a =
     (if kt_probeId t \<noteq> None \<or> kind = Some Billing_failure \<or> kind = Some Invalid_failure
      then a\<lparr>ka_probeId := None, ka_probeUntil := None\<rparr> else a)"

definition settled_account ::
  "key_env \<Rightarrow> rat \<Rightarrow> key_account list \<Rightarrow> key_attempt \<Rightarrow> thrown option \<Rightarrow> string option \<Rightarrow> key_account \<Rightarrow> key_account" where
  "settled_account env now accounts t err model a =
     settle_lease t (failureKind err (ke_provider env))
       (settle_reason env accounts err
         (settle_exhausted env now (kt_probeId t \<noteq> None \<and> ka_state a = Key_quota_exhausted) err
           (settle_state env now t err model a)))"

text \<open>Whether the account still answers to the attempt.\<close>

definition settles :: "key_env \<Rightarrow> key_attempt \<Rightarrow> thrown option \<Rightarrow> key_account \<Rightarrow> bool" where
  "settles env t err a =
     (ka_generation a = kt_generation t \<and> (kt_probeId t = None \<or> ka_probeId a = kt_probeId t) \<and>
      (ka_state a \<noteq> Key_invalid \<or> failureKind err (ke_provider env) = Some Invalid_failure))"

definition change_settle :: "key_env \<Rightarrow> rat \<Rightarrow> key_attempt \<Rightarrow> thrown option \<Rightarrow> string option \<Rightarrow> unit key_change" where
  "change_settle env now t err model doc =
     (case find_key (kt_id t) doc of
        None \<Rightarrow> Inr ((), doc)
      | Some a \<Rightarrow>
          if settles env t err a
          then Inr ((), change_account (kt_id t) (settled_account env now (kd_accounts doc) t err model) doc)
          else Inr ((), doc))"

definition settle_key ::
  "key_env \<Rightarrow> rat \<Rightarrow> key_attempt \<Rightarrow> thrown option \<Rightarrow> string option \<Rightarrow> (nat \<Rightarrow> key_document list) \<Rightarrow> key_store
    \<Rightarrow> (string + unit) \<times> key_store" where
  "settle_key env now t err model others s =
     (if kt_probeId t = None \<and> failureKind err (ke_provider env) = None then (Inr (), s)
      else mutate_keys others (change_settle env now t err model) s)"

subsection \<open>Calls through an account\<close>

text \<open>
  What one call settles. A plain call settles its outcome; a stream settles success at its first chunk, its failure when it
  fails, and a cancellation when the consumer leaves before the first chunk.
\<close>

datatype key_stream_end = Stream_done | Stream_failed thrown | Stream_left

definition AccountUnavailable :: thrown where
  "AccountUnavailable =
     UpstreamError Upstream_error ''API key account is unavailable before send''
       (Some (JObj [(''code'', JStr ''api_key_account_unavailable'')])) None No_object"

definition request_cancelled :: thrown where
  "request_cancelled = Thrown Plain_error (Some ''Error'') None (Some ''request cancelled'') No_object"

definition call_settlements :: "thrown + 'a \<Rightarrow> string option \<Rightarrow> (thrown option \<times> string option) list" where
  "call_settlements outcome model = (case outcome of Inr r \<Rightarrow> [(None, None)] | Inl e \<Rightarrow> [(Some e, model)])"

definition stream_settlements :: "nat \<Rightarrow> key_stream_end \<Rightarrow> string option \<Rightarrow> (thrown option \<times> string option) list" where
  "stream_settlements chunks finish model =
     (case finish of
        Stream_done \<Rightarrow> [(None, None)]
      | Stream_failed e \<Rightarrow> (if 0 < chunks then [(None, None)] else []) @ [(Some e, model)]
      | Stream_left \<Rightarrow> if 0 < chunks then [(None, None)] else [(Some request_cancelled, None)])"

definition usable_attempt :: "string \<Rightarrow> key_attempt option \<Rightarrow> thrown + key_attempt" where
  "usable_attempt generation got =
     (case got of
        Some t \<Rightarrow> if kt_generation t = generation then Inr t else Inl AccountUnavailable
      | None \<Rightarrow> Inl AccountUnavailable)"

subsection \<open>The members handed to the account pool\<close>

record key_member =
  km_account :: string
  km_priority :: int
  km_schedulable :: bool
  km_models :: "string list"

definition member_models :: "string list \<Rightarrow> key_account \<Rightarrow> string list" where
  "member_models models a =
     filter (\<lambda>m. (case ka_models a of None \<Rightarrow> True | Some ms \<Rightarrow> m \<in> set ms) \<and> m \<notin> set (ka_denied a)) models"

definition key_member_of :: "rat \<Rightarrow> string list \<Rightarrow> key_strategy option \<Rightarrow> key_document \<Rightarrow> key_account \<Rightarrow> key_member" where
  "key_member_of now models fallback doc a =
     \<lparr>km_account = ka_id a @ ''@'' @ ka_generation a,
      km_priority =
        (if nullish (kd_strategy doc) (nullish fallback Round_robin_keys) = Manual_priority_keys
         then nullish (map_option ka_priority (find_key (ka_id a) doc)) 50 else 50),
      km_schedulable = eligible_key now (ka_id a) doc,
      km_models = (case find_key (ka_id a) doc of None \<Rightarrow> [] | Some row \<Rightarrow> member_models models row)\<rparr>"

end
