(* ===== verification/Api_Key_Facts.thy ===== *)
theory Api_Key_Facts
  imports Api_Keys
begin

text \<open>
  What the key pool promises: changes are atomic although every process works on a copy, a probe lease excludes other
  probes, a paused or rejected key comes back only by proof, and no stored message contains a key.
\<close>

subsection \<open>Compare-and-set\<close>

text \<open>The store after what other processes wrote in the first \<open>n\<close> rounds.\<close>

definition interfered :: "nat \<Rightarrow> nat \<Rightarrow> (nat \<Rightarrow> key_document list) \<Rightarrow> key_store \<Rightarrow> key_store" where
  "interfered i n others s = fold write_document (concat (map others [i..<i + n])) s"

lemma interfered_0 [simp]: "interfered i 0 others s = s"
  by (simp add: interfered_def)

lemma interfered_Suc: "interfered i (Suc n) others s = interfered (Suc i) n others (fold write_document (others i) s)"
  by (simp add: interfered_def upt_conv_Cons del: upt_Suc)

lemma writes_version: "ks_version (fold write_document ds s) = ks_version s + length ds"
  by (induction ds arbitrary: s) (simp_all add: write_document_def)

lemma mutate_loop_atomic:
  "case mutate_loop n i others change s of
     (Inr r, s') \<Rightarrow> \<exists>k d. k < n \<and> change (document_of (interfered i k others s)) = Inr (r, d) \<and> s' = write_document d (interfered i k others s)
   | (Inl e, s') \<Rightarrow> \<exists>k \<le> n. s' = interfered i k others s"
proof (induction n arbitrary: i s)
  case 0
  show ?case by (auto intro: exI [of _ 0])
next
  case (Suc n)
  show ?case
  proof (cases "change (document_of s)")
    case (Inl e)
    then show ?thesis by (auto intro!: exI [of _ 0])
  next
    case (Inr rd)
    obtain r d where rd: "rd = (r, d)" by (cases rd)
    show ?thesis
    proof (cases "others i = []")
      case True
      then show ?thesis using Inr rd by (auto simp: compareAndSet_def intro!: exI [of _ 0])
    next
      case False
      then have "mutate_loop (Suc n) i others change s = mutate_loop n (Suc i) others change (fold write_document (others i) s)"
        using Inr rd by (simp add: compareAndSet_def writes_version)
      then show ?thesis
        using Suc.IH [of "Suc i" "fold write_document (others i) s"]
        by (auto simp: interfered_Suc split: prod.splits sum.splits)
    qed
  qed
qed

text \<open>
  C19. A change of the key document is atomic however many processes work on it: a change that succeeds was computed from the
  document that was current when it was written, so no other process's write is lost; a change that fails left the document
  to the others.
\<close>

theorem key_changes_atomic:
  "case mutate_keys others change s of
     (Inr r, s') \<Rightarrow>
       \<exists>k d. k < 20 \<and> change (document_of (interfered 0 k others s)) = Inr (r, d) \<and> s' = write_document d (interfered 0 k others s)
   | (Inl e, s') \<Rightarrow> \<exists>k \<le> 20. s' = interfered 0 k others s"
  unfolding mutate_keys_def by (rule mutate_loop_atomic)

subsection \<open>Runs of the document\<close>

datatype key_op =
    Set_key_strategy key_strategy
  | Add_keys "(key_input \<times> string \<times> string) list"
  | Update_key string key_patch string
  | Remove_key string
  | Retry_key string
  | Test_key string string string string
  | Acquire_key string "string option" string
  | Settle_key key_attempt "thrown option" "string option"

text \<open>One atomic change at a time; an error changes nothing. The result is the probe that was granted.\<close>

definition after_change :: "('a \<Rightarrow> key_attempt option) \<Rightarrow> key_document \<Rightarrow> string + ('a \<times> key_document) \<Rightarrow> key_attempt option \<times> key_document" where
  "after_change f doc r = (case r of Inl e \<Rightarrow> (None, doc) | Inr (x, doc') \<Rightarrow> (f x, doc'))"

fun key_step :: "key_env \<Rightarrow> rat \<Rightarrow> key_op \<Rightarrow> key_document \<Rightarrow> key_attempt option \<times> key_document" where
  "key_step env now (Set_key_strategy st) doc = after_change (\<lambda>_. None) doc (change_strategy st doc)"
| "key_step env now (Add_keys inputs) doc = after_change (\<lambda>_. None) doc (change_add env inputs doc)"
| "key_step env now (Update_key i p g) doc = after_change (\<lambda>_. None) doc (change_update env i p g doc)"
| "key_step env now (Remove_key i) doc = after_change (\<lambda>_. None) doc (change_remove i doc)"
| "key_step env now (Retry_key i) doc = after_change (\<lambda>_. None) doc (change_retry now i doc)"
| "key_step env now (Test_key i g m u) doc = after_change id doc (change_testRecovery env now i g m u doc)"
| "key_step env now (Acquire_key i m u) doc = after_change id doc (change_acquire env now i m u doc)"
| "key_step env now (Settle_key t err m) doc = after_change (\<lambda>_. None) doc (change_settle env now t err m doc)"

fun key_run :: "key_env \<Rightarrow> (rat \<times> key_op) list \<Rightarrow> key_document \<Rightarrow> key_attempt list \<times> key_document" where
  "key_run env [] doc = ([], doc)"
| "key_run env ((now, op) # ops) doc =
     (case key_step env now op doc of (granted, doc1) \<Rightarrow>
        case key_run env ops doc1 of (ps, doc2) \<Rightarrow> ((case granted of None \<Rightarrow> ps | Some p \<Rightarrow> p # ps), doc2))"

lemma find_append_account: "find P xs = Some a \<Longrightarrow> find P (xs @ ys) = Some a"
  by (induction xs) auto

lemma find_change_first:
  "(\<And>a. ka_id (f a) = ka_id a) \<Longrightarrow>
   find (\<lambda>a. ka_id a = i) (change_first j f as) =
     (if i = j then map_option f (find (\<lambda>a. ka_id a = i) as) else find (\<lambda>a. ka_id a = i) as)"
  by (induction as) auto

lemma find_change:
  "(\<And>a. ka_id (f a) = ka_id a) \<Longrightarrow>
   find_key i (change_account j f doc) = (if i = j then map_option f (find_key i doc) else find_key i doc)"
  by (simp add: find_key_def change_account_def find_change_first)

lemma find_id: "find_key i doc = Some a \<Longrightarrow> ka_id a = i"
  by (auto simp: find_key_def find_Some_iff)

lemma id_kept [simp]:
  "ka_id (take_lease env now u a) = ka_id a" "ka_id (assign_patch p a) = ka_id a" "ka_id (replace_key env k g a) = ka_id a"
  by (simp_all add: take_lease_def assign_patch_def replace_key_def)

lemma settle_state_keeps [simp]:
  "ka_id (settle_state env now t err m a) = ka_id a" "ka_key (settle_state env now t err m a) = ka_key a"
  "ka_generation (settle_state env now t err m a) = ka_generation a" "ka_fingerprint (settle_state env now t err m a) = ka_fingerprint a"
  "ka_probeId (settle_state env now t err m a) = ka_probeId a" "ka_probeUntil (settle_state env now t err m a) = ka_probeUntil a"
  by (simp_all add: settle_state_def Let_def deny_model_def settle_probe_def)

lemma settle_exhausted_keeps [simp]:
  "ka_id (settle_exhausted env now x err a) = ka_id a" "ka_key (settle_exhausted env now x err a) = ka_key a"
  "ka_generation (settle_exhausted env now x err a) = ka_generation a" "ka_fingerprint (settle_exhausted env now x err a) = ka_fingerprint a"
  "ka_probeId (settle_exhausted env now x err a) = ka_probeId a" "ka_probeUntil (settle_exhausted env now x err a) = ka_probeUntil a"
  by (simp_all add: settle_exhausted_def)

lemma settle_reason_keeps [simp]:
  "ka_id (settle_reason env as err a) = ka_id a" "ka_key (settle_reason env as err a) = ka_key a"
  "ka_generation (settle_reason env as err a) = ka_generation a" "ka_fingerprint (settle_reason env as err a) = ka_fingerprint a"
  "ka_probeId (settle_reason env as err a) = ka_probeId a" "ka_probeUntil (settle_reason env as err a) = ka_probeUntil a"
  "ka_state (settle_reason env as err a) = ka_state a" "ka_nextRetryAt (settle_reason env as err a) = ka_nextRetryAt a"
  by (simp_all add: settle_reason_def split: option.split)

lemma settled_keeps [simp]:
  "ka_id (settled_account env now as t err m a) = ka_id a" "ka_key (settled_account env now as t err m a) = ka_key a"
  "ka_generation (settled_account env now as t err m a) = ka_generation a" "ka_fingerprint (settled_account env now as t err m a) = ka_fingerprint a"
  by (simp_all add: settled_account_def settle_lease_def)

lemma settled_lease:
  "ka_probeId (settled_account env now as t err m a) =
     (if kt_probeId t \<noteq> None \<or> failureKind err (ke_provider env) \<in> {Some Billing_failure, Some Invalid_failure} then None else ka_probeId a)"
  "ka_probeUntil (settled_account env now as t err m a) =
     (if kt_probeId t \<noteq> None \<or> failureKind err (ke_provider env) \<in> {Some Billing_failure, Some Invalid_failure} then None else ka_probeUntil a)"
  by (simp_all add: settled_account_def settle_lease_def)

lemma find_added: "add_accounts env inputs doc = Inr ((), doc') \<Longrightarrow> find_key i doc = Some a \<Longrightarrow> find_key i doc' = Some a"
proof (induction env inputs doc rule: add_accounts.induct)
  case (2 env inp j g inputs doc)
  have "find_key i (doc\<lparr>kd_accounts := kd_accounts doc @ [new_account env inp j g]\<rparr>) = Some a"
    using 2(3) by (simp add: find_key_def find_append_account)
  with 2 show ?case by (auto split: if_splits)
qed simp

text \<open>What a step does to an account it finds, unless the key is replaced or the account removed.\<close>

definition replaces :: "string \<Rightarrow> key_op \<Rightarrow> bool" where
  "replaces i op =
     (case op of Remove_key j \<Rightarrow> j = i | Update_key j p g \<Rightarrow> j = i \<and> kp_key p \<noteq> None | _ \<Rightarrow> False)"

inductive account_move :: "key_env \<Rightarrow> rat \<Rightarrow> key_op \<Rightarrow> string \<Rightarrow> key_attempt option \<Rightarrow> key_account \<Rightarrow> key_account \<Rightarrow> bool" where
  kept: "(\<And>p. granted = Some p \<Longrightarrow> kt_id p \<noteq> i) \<Longrightarrow> account_move env now op i granted a a"
| renamed: "kp_key p = None \<Longrightarrow> account_move env now op i None a (assign_patch p a)"
| retried: "ka_state a \<noteq> Key_invalid \<Longrightarrow> account_move env now (Retry_key i) i None a (a\<lparr>ka_nextRetryAt := Some now, ka_denied := []\<rparr>)"
| leased: "ka_state a \<noteq> Key_invalid \<Longrightarrow> nullish (ka_probeUntil a) 0 \<le> now \<Longrightarrow>
    account_move env now op i (Some (attempt_of i (Some u) a)) a (take_lease env now u a)"
| settled: "kt_id t = i \<Longrightarrow> settles env t err a \<Longrightarrow>
    account_move env now (Settle_key t err m) i None a (settled_account env now as t err m a)"

lemma step_moves_account:
  assumes "key_step env now op doc = (granted, doc')" "find_key i doc = Some a" "\<not> replaces i op"
  shows "\<exists>a'. find_key i doc' = Some a' \<and> account_move env now op i granted a a'"
proof (cases op)
  case (Set_key_strategy st)
  then show ?thesis using assms
    by (auto simp: after_change_def change_strategy_def find_key_def intro!: kept)
next
  case (Add_keys inputs)
  show ?thesis
  proof (cases "change_add env inputs doc")
    case (Inl e)
    then show ?thesis using assms Add_keys by (auto simp: after_change_def intro!: kept)
  next
    case (Inr r)
    then obtain d where "change_add env inputs doc = Inr ((), d)" by (cases r) auto
    with assms(1,2) Add_keys find_added show ?thesis
      by (auto simp: after_change_def change_add_def split: sum.splits intro!: kept)
  qed
next
  case (Update_key j p g)
  show ?thesis
  proof (cases "change_update env j p g doc")
    case (Inl e)
    then show ?thesis using assms Update_key by (auto simp: after_change_def intro!: kept)
  next
    case (Inr r)
    then obtain q where p: "ApiKeyAccountPatchSchema p = Some q" "change_update env j p g doc = Inr r"
      by (auto simp: change_update_def split: option.splits)
    define f where "f = (case kp_key q of None \<Rightarrow> assign_patch q | Some k \<Rightarrow> (\<lambda>a. assign_patch q (replace_key env k g a)))"
    have q: "ApiKeyAccountPatchSchema p = Some q" "r = ((), change_account j f doc)" "\<And>a. ka_id (f a) = ka_id a"
      "kp_key q = None \<Longrightarrow> f = assign_patch q"
      using p by (auto simp: change_update_def f_def split: option.splits if_splits)
    have d: "doc' = change_account j f doc" "granted = None" using assms(1) Inr q(2) by (auto simp: Update_key after_change_def)
    show ?thesis
    proof (cases "i = j")
      case True
      then have "kp_key p = None" using assms(3) by (simp add: replaces_def Update_key)
      then have "kp_key q = None" using q(1) by (auto simp: ApiKeyAccountPatchSchema_def split: if_splits)
      with q(3,4) d True assms(2) show ?thesis by (auto simp: find_change Update_key intro!: renamed)
    next
      case False
      with q(3) d assms(2) show ?thesis by (auto simp: find_change intro!: kept)
    qed
  qed
next
  case (Remove_key j)
  then have "i \<noteq> j" using assms(3) by (simp add: replaces_def)
  have "find (\<lambda>a. ka_id a = i) (filter (\<lambda>a. ka_id a \<noteq> j) as) = find (\<lambda>a. ka_id a = i) as" if "i \<noteq> j" for as
    using that by (induction as) auto
  then have "find_key i (doc\<lparr>kd_accounts := filter (\<lambda>a. ka_id a \<noteq> j) (kd_accounts doc)\<rparr>) = find_key i doc"
    by (simp add: find_key_def \<open>i \<noteq> j\<close>)
  then show ?thesis using assms Remove_key by (auto simp: after_change_def change_remove_def intro!: kept)
next
  case (Retry_key j)
  then show ?thesis using assms
    by (cases "i = j") (auto simp: after_change_def change_retry_def find_change split: option.splits if_splits intro: retried kept)
next
  case (Test_key j g m u)
  then show ?thesis using assms
    by (cases "i = j") (auto simp: after_change_def change_testRecovery_def find_change attempt_of_def split: option.splits if_splits
        intro!: kept leased [unfolded attempt_of_def])
next
  case (Acquire_key j m u)
  then show ?thesis using assms
    by (cases "i = j") (auto simp: after_change_def change_acquire_def find_change attempt_of_def account_eligible_def split: option.splits if_splits
        intro!: kept leased [unfolded attempt_of_def])
next
  case (Settle_key t err m)
  then show ?thesis using assms
    by (cases "i = kt_id t") (auto simp: after_change_def change_settle_def find_change split: option.splits if_splits intro: kept settled)
qed

lemma run_account:
  assumes "find_key i doc = Some a" "P a" "list_all (\<lambda>(now, op). \<not> replaces i op \<and> Q now op) ops"
    and step: "\<And>now op g a a'. account_move env now op i g a a' \<Longrightarrow> P a \<Longrightarrow> Q now op \<Longrightarrow> P a' \<and> (\<forall>p. g = Some p \<longrightarrow> R p)"
    and other: "\<And>p. kt_id p \<noteq> i \<Longrightarrow> R p"
  shows "(\<exists>a'. find_key i (snd (key_run env ops doc)) = Some a' \<and> P a') \<and> list_all R (fst (key_run env ops doc))"
  using assms(1-3)
proof (induction ops arbitrary: doc a)
  case (Cons e ops)
  obtain now op where e: "e = (now, op)" by (cases e)
  obtain g doc1 where st: "key_step env now op doc = (g, doc1)" by (cases "key_step env now op doc")
  from step_moves_account [OF st Cons.prems(1)] Cons.prems(3)
  obtain a1 where a1: "find_key i doc1 = Some a1" "account_move env now op i g a a1" by (auto simp: e)
  have m: "P a1" "\<forall>p. g = Some p \<longrightarrow> R p" using step [OF a1(2) Cons.prems(2)] Cons.prems(3) by (auto simp: e)
  from Cons.IH [OF a1(1) m(1)] Cons.prems(3) m(2) show ?case
    by (auto simp: e st split: prod.splits option.splits)
qed auto

subsection \<open>Probes\<close>

definition ends_probe :: "key_env \<Rightarrow> key_attempt \<Rightarrow> key_op \<Rightarrow> bool" where
  "ends_probe env p op =
     (case op of
        Settle_key t err m \<Rightarrow>
          kt_id t = kt_id p \<and> kt_generation t = kt_generation p \<and>
          (kt_probeId t = kt_probeId p \<or>
           kt_probeId t = None \<and> failureKind err (ke_provider env) \<in> {Some Billing_failure, Some Invalid_failure})
      | _ \<Rightarrow> False)"

lemma granted_lease:
  assumes "key_step env now op doc = (Some p, doc')"
  shows "\<exists>a u. find_key (kt_id p) doc = Some a \<and> kt_probeId p = Some u \<and> kt_generation p = ka_generation a \<and>
    doc' = change_account (kt_id p) (take_lease env now u) doc"
  using assms by (cases op)
    (auto simp: after_change_def change_testRecovery_def change_acquire_def attempt_of_def split: option.splits if_splits sum.splits)

text \<open>
  C18. A probe lease excludes every other probe of the account: after a probe was granted, no later request gets one for the
  same account while the lease runs, unless the probe was settled, a plain request found the key spent or rejected, or the
  operator replaced the key. Verdicts of earlier probes and of earlier keys do not end the lease.
\<close>

theorem probe_lease_exclusive:
  assumes "key_step env start op doc = (Some p, doc1)"
    and "list_all (\<lambda>(now, op). \<not> replaces (kt_id p) op \<and> (now < start + probe_lease env \<and> \<not> ends_probe env p op)) ops"
  shows "list_all (\<lambda>q. kt_id q \<noteq> kt_id p) (fst (key_run env ops doc1))"
proof -
  obtain a u where a: "find_key (kt_id p) doc = Some a" "kt_probeId p = Some u" "kt_generation p = ka_generation a"
    "doc1 = change_account (kt_id p) (take_lease env start u) doc"
    using granted_lease [OF assms(1)] by blast
  let ?P = "\<lambda>a. ka_generation a = kt_generation p \<and> ka_probeId a = Some u \<and> ka_probeUntil a = Some (start + probe_lease env)"
  have "find_key (kt_id p) doc1 = Some (take_lease env start u a)" using a by (simp add: find_change)
  moreover have "?P (take_lease env start u a)" using a(3) by (simp add: take_lease_def)
  moreover have "?P a2 \<and> (\<forall>q. g = Some q \<longrightarrow> kt_id q \<noteq> kt_id p)"
    if "account_move env now op (kt_id p) g a1 a2" "?P a1" "now < start + probe_lease env \<and> \<not> ends_probe env p op" for now op g a1 a2
    using that by cases (auto simp: assign_patch_def ends_probe_def settles_def settled_lease a(2))
  ultimately show ?thesis
    using run_account [of "kt_id p" doc1 _ ?P "\<lambda>now op. now < start + probe_lease env \<and> \<not> ends_probe env p op" ops env
        "\<lambda>q. kt_id q \<noteq> kt_id p"] assms(2) by blast
qed

subsection \<open>Recovery\<close>

definition proves_recovery :: "string \<Rightarrow> key_op \<Rightarrow> bool" where
  "proves_recovery i op =
     (case op of Settle_key t err m \<Rightarrow> kt_id t = i \<and> kt_probeId t \<noteq> None \<and> err = None | _ \<Rightarrow> False)"

lemma state_needs_proof:
  "ka_state a \<noteq> Key_ready \<Longrightarrow> kt_probeId t = None \<or> err \<noteq> None \<Longrightarrow> ka_state (settle_state env now t err m a) \<noteq> Key_ready"
  by (auto simp: settle_state_def Let_def deny_model_def settle_probe_def)

lemma settle_needs_proof:
  "ka_state a \<noteq> Key_ready \<Longrightarrow> kt_probeId t = None \<or> err \<noteq> None \<Longrightarrow> ka_state (settled_account env now as t err m a) \<noteq> Key_ready"
  using state_needs_proof [of a t err env now m] by (auto simp: settled_account_def settle_lease_def settle_exhausted_def)

lemma invalid_stays:
  "ka_state a = Key_invalid \<Longrightarrow> settles env t err a \<Longrightarrow> ka_state (settled_account env now as t err m a) = Key_invalid"
  by (simp add: settles_def settled_account_def settle_lease_def settle_exhausted_def settle_state_def Let_def)

text \<open>
  C20. A key that is paused comes back only by proof: whatever requests, retries, tests and edits follow, the account does not
  become ready unless a probe of it succeeds or the operator replaces the key; and a rejected key stays rejected, and is never
  tried again, until it is replaced.
\<close>

theorem key_recovers_by_proof:
  assumes "find_key i doc = Some a" "ka_state a \<noteq> Key_ready"
    and "list_all (\<lambda>(now, op). \<not> replaces i op \<and> (ka_state a = Key_invalid \<or> \<not> proves_recovery i op)) ops"
  shows "case find_key i (snd (key_run env ops doc)) of
      None \<Rightarrow> False
    | Some b \<Rightarrow>
        ka_state b \<noteq> Key_ready \<and>
        (if ka_state a = Key_invalid
         then ka_state b = Key_invalid \<and> list_all (\<lambda>p. kt_id p \<noteq> i) (fst (key_run env ops doc)) else True)"
proof (cases "ka_state a = Key_invalid")
  case True
  have "ka_state a2 = Key_invalid \<and> (\<forall>q. g = Some q \<longrightarrow> kt_id q \<noteq> i)"
    if "account_move env now op i g a1 a2" "ka_state a1 = Key_invalid" for now op g a1 a2
    using that by cases (auto simp: assign_patch_def invalid_stays)
  with run_account [OF assms(1), of "\<lambda>a. ka_state a = Key_invalid" "\<lambda>_ _. True" ops env "\<lambda>p. kt_id p \<noteq> i"] assms(3) True
  show ?thesis by (auto simp: list_all_iff)
next
  case False
  have "ka_state a2 \<noteq> Key_ready"
    if "account_move env now op i g a1 a2" "ka_state a1 \<noteq> Key_ready" "\<not> proves_recovery i op" for now op g a1 a2
    using that by cases (auto simp: assign_patch_def take_lease_def proves_recovery_def dest: settle_needs_proof)
  with run_account [OF assms(1), of "\<lambda>a. ka_state a \<noteq> Key_ready" "\<lambda>_ op. \<not> proves_recovery i op" ops env "\<lambda>_. True"] assms(2,3) False
  show ?thesis by (auto simp: list_all_iff)
qed

subsection \<open>Stored messages hold no key\<close>

text \<open>A key starts with \<open>sk-\<close> and has no bracket, so it is not found again at the edge of a replacement.\<close>

definition key_shape :: "string \<Rightarrow> bool" where
  "key_shape k = (startsWith ''sk-'' k \<and> CHR ''['' \<notin> set k)"

lemma shape_Cons: "key_shape k \<Longrightarrow> \<exists>k'. k = CHR ''s'' # k'"
  by (auto simp: key_shape_def startsWith_iff)

lemma schema_shape: "UpstreamApiKeySchema raw = Some k \<Longrightarrow> key_shape k"
proof -
  assume "UpstreamApiKeySchema raw = Some k"
  then have k: "startsWith ''sk-'' k" "list_all key_char (drop 3 k)" by (auto simp: UpstreamApiKeySchema_def Let_def split: if_splits)
  then obtain r where r: "k = ''sk-'' @ r" by (auto simp: startsWith_iff)
  then have "list_all key_char r" using k(2) by simp
  moreover have "\<not> key_char (CHR ''['')" by (simp add: key_char_def Let_def)
  ultimately have "CHR ''['' \<notin> set r" by (auto simp: list_all_iff)
  then show ?thesis using k(1) r by (simp add: key_shape_def)
qed

lemma startsWith_Cons [simp]: "startsWith (x # p) (y # s) = (x = y \<and> startsWith p s)" "startsWith [] s" "startsWith (x # p) [] = False"
  by (auto simp: startsWith_def)

lemma replaced_prefix: "CHR ''['' \<notin> set k2 \<Longrightarrow> startsWith k2 (replaceAll k ''[redacted]'' s) \<Longrightarrow> k \<noteq> [] \<Longrightarrow> startsWith k2 s"
proof (induction k "''[redacted]''" s arbitrary: k2 rule: replaceAll.induct)
  case (1 pat)
  then show ?case by (cases k2) auto
next
  case (2 pat c cs)
  then show ?case by (cases k2) (auto split: if_splits)
qed

lemma past_replacement: "key_shape k \<Longrightarrow> has_text k (''[redacted]'' @ s) = has_text k s"
  using shape_Cons [of k] by auto

lemma replaced_text:
  "key_shape k2 \<Longrightarrow> key_shape k \<Longrightarrow> has_text k2 (replaceAll k ''[redacted]'' s) \<Longrightarrow> k2 \<noteq> k \<and> has_text k2 s"
proof (induction k "''[redacted]''" s rule: replaceAll.induct)
  case (1 pat)
  then show ?case using shape_Cons by fastforce
next
  case (2 pat c cs)
  have ne: "pat \<noteq> []" using 2(5) shape_Cons by blast
  show ?case
  proof (cases "startsWith pat (c # cs)")
    case True
    then have "has_text k2 (replaceAll pat ''[redacted]'' (drop (length pat) (c # cs)))"
      using 2(6) ne past_replacement [OF 2(4)] by simp
    with 2(2) [OF ne True 2(4,5)] have "k2 \<noteq> pat" "has_text k2 (drop (length pat) (c # cs))" by auto
    then show ?thesis using append_take_drop_id [of "length pat" "c # cs"] by (metis has_text_iff append.assoc)
  next
    case False
    then have r: "replaceAll pat ''[redacted]'' (c # cs) = c # replaceAll pat ''[redacted]'' cs" using ne by simp
    with 2(6) consider "startsWith k2 (replaceAll pat ''[redacted]'' (c # cs))" | "has_text k2 (replaceAll pat ''[redacted]'' cs)" by auto
    then show ?thesis
    proof cases
      case 1
      have "startsWith k2 (c # cs)" using replaced_prefix [OF _ 1 ne] 2(4) by (simp add: key_shape_def)
      with False show ?thesis by auto
    next
      case 2
      with \<open>key_shape k2\<close> \<open>key_shape pat\<close> "2.hyps"(3) ne False show ?thesis by auto
    qed
  qed
qed

lemma redaction_clears:
  assumes "list_all (\<lambda>a. key_shape (ka_key a)) accounts" "key_shape k"
  shows "has_text k (foldl (\<lambda>t account. replaceAll (ka_key account) ''[redacted]'' t) m accounts) \<Longrightarrow>
    k \<notin> ka_key ` set accounts \<and> has_text k m"
  using assms(1)
proof (induction accounts arbitrary: m)
  case (Cons a accounts)
  then have "k \<notin> ka_key ` set accounts \<and> has_text k (replaceAll (ka_key a) ''[redacted]'' m)" by simp
  with replaced_text [OF assms(2), of "ka_key a" m] Cons.prems show ?case by auto
qed simp

lemma has_text_take: "has_text p (take n s) \<Longrightarrow> has_text p s"
proof -
  assume "has_text p (take n s)"
  then obtain a b where "take n s = a @ p @ b" by (auto simp: has_text_iff)
  then have "s = a @ p @ (b @ drop n s)" using append_take_drop_id [of n s] by simp
  then show ?thesis by (auto simp: has_text_iff)
qed

lemma redacted_message_clean:
  assumes "list_all (\<lambda>a. key_shape (ka_key a)) accounts" "a \<in> set accounts"
  shows "\<not> has_text (ka_key a) (redacted_message accounts m)"
proof
  assume "has_text (ka_key a) (redacted_message accounts m)"
  then have "has_text (ka_key a) (foldl (\<lambda>t account. replaceAll (ka_key account) ''[redacted]'' t) m accounts)"
    unfolding redacted_message_def by (rule has_text_take)
  with redaction_clears [OF assms(1)] assms show False by (auto simp: list_all_iff)
qed

definition shaped_keys :: "key_document \<Rightarrow> bool" where
  "shaped_keys doc = list_all (\<lambda>a. key_shape (ka_key a)) (kd_accounts doc)"

lemma change_first_all: "list_all P as \<Longrightarrow> (\<And>a. P a \<Longrightarrow> P (f a)) \<Longrightarrow> list_all P (change_first i f as)"
  by (induction as) auto

lemma change_account_shaped:
  "shaped_keys doc \<Longrightarrow> (\<And>a. key_shape (ka_key a) \<Longrightarrow> key_shape (ka_key (f a))) \<Longrightarrow> shaped_keys (change_account i f doc)"
  unfolding shaped_keys_def change_account_def by (auto intro: change_first_all)

lemma add_accounts_shaped:
  "add_accounts env inputs doc = Inr ((), doc') \<Longrightarrow> shaped_keys doc \<Longrightarrow> list_all (\<lambda>(inp, ids). key_shape (ki_key inp)) inputs \<Longrightarrow> shaped_keys doc'"
proof (induction env inputs doc rule: add_accounts.induct)
  case (2 env inp j g inputs doc)
  have "shaped_keys (doc\<lparr>kd_accounts := kd_accounts doc @ [new_account env inp j g]\<rparr>)"
    using 2(3,4) by (simp add: shaped_keys_def new_account_def)
  with 2 show ?case by (auto split: if_splits)
qed simp

lemma input_shaped: "ApiKeyAccountInputSchema inp = Some x \<Longrightarrow> key_shape (ki_key x)"
  by (auto simp: ApiKeyAccountInputSchema_def schema_shape split: option.splits)

lemma validated_shaped:
  assumes "validated_inputs env inputs = Inr checked"
  shows "list_all (\<lambda>(inp, ids). key_shape (ki_key inp)) checked"
proof -
  have ok: "checked = map (\<lambda>(inp, ids). (the (ApiKeyAccountInputSchema inp), ids)) inputs"
    "list_all (\<lambda>(inp, ids). ApiKeyAccountInputSchema inp \<noteq> None) inputs"
    using assms by (auto simp: validated_inputs_def Let_def list_ex_iff list_all_iff split: if_splits)
  then show ?thesis using input_shaped by (fastforce simp: list_all_iff)
qed

lemma patch_shaped:
  "ApiKeyAccountPatchSchema p = Some q \<Longrightarrow> kp_key q = Some k \<Longrightarrow> key_shape k"
  by (auto simp: ApiKeyAccountPatchSchema_def schema_shape bind_eq_Some_conv split: if_splits)

lemma change_update_shaped: "change_update env i p g doc = Inr ((), doc') \<Longrightarrow> shaped_keys doc \<Longrightarrow> shaped_keys doc'"
proof -
  assume u: "change_update env i p g doc = Inr ((), doc')" "shaped_keys doc"
  then obtain q where q: "ApiKeyAccountPatchSchema p = Some q" by (auto simp: change_update_def split: option.splits)
  have "key_shape (nullish (kp_key q) k)" if "key_shape k" for k
    using patch_shaped [OF q] that by (cases "kp_key q") auto
  then show ?thesis using u q
    by (auto simp: change_update_def assign_patch_def replace_key_def split: option.splits if_splits intro!: change_account_shaped)
qed

lemma shaped_other:
  "shaped_keys (doc\<lparr>kd_strategy := st\<rparr>) = shaped_keys doc"
  "shaped_keys doc \<Longrightarrow> shaped_keys (doc\<lparr>kd_accounts := filter P (kd_accounts doc)\<rparr>)"
  by (simp_all add: shaped_keys_def list_all_iff)

lemma key_step_shaped: "key_step env now op doc = (g, doc') \<Longrightarrow> shaped_keys doc \<Longrightarrow> shaped_keys doc'"
proof (cases op)
  case (Update_key i p h)
  assume "key_step env now op doc = (g, doc')" "shaped_keys doc"
  then show ?thesis using Update_key change_update_shaped [of env i p h doc] by (auto simp: after_change_def split: sum.splits)
next
  case (Add_keys inputs)
  assume "key_step env now op doc = (g, doc')" "shaped_keys doc"
  then show ?thesis using Add_keys add_accounts_shaped validated_shaped
    by (fastforce simp: after_change_def change_add_def split: sum.splits)
qed (auto simp: after_change_def change_strategy_def change_remove_def change_retry_def change_testRecovery_def change_acquire_def
    change_settle_def take_lease_def shaped_other split: option.splits if_splits sum.splits intro!: change_account_shaped)

lemma key_run_shaped: "shaped_keys doc \<Longrightarrow> shaped_keys (snd (key_run env ops doc))"
proof (induction ops arbitrary: doc)
  case (Cons e ops)
  obtain now op where e: "e = (now, op)" by (cases e)
  obtain g doc1 where st: "key_step env now op doc = (g, doc1)" by (cases "key_step env now op doc")
  from Cons.IH [OF key_step_shaped [OF st Cons.prems]] show ?case by (simp add: e st case_prod_beta)
qed simp

text \<open>A message in the document is an old one of the same account, or holds none of the given keys.\<close>

definition message_clean :: "key_document \<Rightarrow> string set \<Rightarrow> key_account \<Rightarrow> bool" where
  "message_clean doc ks a \<longleftrightarrow>
     (case ka_reasonMessage a of
        None \<Rightarrow> True
      | Some m \<Rightarrow> (\<exists>b \<in> set (kd_accounts doc). ka_id b = ka_id a \<and> ka_reasonMessage b = Some m) \<or> (\<forall>k \<in> ks. \<not> has_text k m))"

lemma kept_message: "a \<in> set (kd_accounts doc) \<Longrightarrow> message_clean doc ks a"
  by (auto simp: message_clean_def split: option.split)

lemma in_change_first: "b \<in> set (change_first i f as) \<Longrightarrow> b \<in> set as \<or> (\<exists>a \<in> set as. ka_id a = i \<and> b = f a)"
  by (induction as) (auto split: if_splits)

lemma change_account_clean:
  assumes "b \<in> set (kd_accounts (change_account i f doc))"
    and "\<And>a. a \<in> set (kd_accounts doc) \<Longrightarrow> ka_id (f a) = ka_id a \<and> (ka_reasonMessage (f a) = ka_reasonMessage a \<or> message_clean doc ks (f a))"
  shows "message_clean doc ks b"
proof -
  consider "b \<in> set (kd_accounts doc)" | a where "a \<in> set (kd_accounts doc)" "b = f a"
    using in_change_first [of b i f "kd_accounts doc"] assms(1) by (auto simp: change_account_def)
  then show ?thesis
  proof cases
    case 1
    then show ?thesis by (rule kept_message)
  next
    case (2 a)
    then show ?thesis using assms(2) [OF 2(1)] by (auto simp: message_clean_def split: option.split)
  qed
qed

lemma leased_clean: "b \<in> set (kd_accounts (change_account i (take_lease env now u) doc)) \<Longrightarrow> message_clean doc ks b"
  by (erule change_account_clean) (simp add: take_lease_def)

lemma retried_clean:
  "b \<in> set (kd_accounts (change_account i (\<lambda>a. a\<lparr>ka_nextRetryAt := t, ka_denied := ds\<rparr>) doc)) \<Longrightarrow> message_clean doc ks b"
  by (erule change_account_clean) simp

lemma add_accounts_clean:
  "add_accounts env inputs doc = Inr ((), doc') \<Longrightarrow> b \<in> set (kd_accounts doc') \<Longrightarrow> b \<in> set (kd_accounts doc) \<or> ka_reasonMessage b = None"
proof (induction env inputs doc rule: add_accounts.induct)
  case (2 env inp j g inputs doc)
  then show ?case by (auto simp: new_account_def split: if_splits)
qed simp

lemma settled_message:
  "ka_reasonMessage (settled_account env now accounts t err model a) \<in>
     {None, ka_reasonMessage a} \<union> {Some (redacted_message accounts m) |m. True}"
  by (auto simp: settled_account_def settle_lease_def settle_reason_def settle_exhausted_def settle_state_def settle_probe_def
      deny_model_def Let_def split: option.split)

lemma change_first_keys: "(\<And>a. ka_key (f a) = ka_key a) \<Longrightarrow> map ka_key (change_first i f as) = map ka_key as"
  by (induction as) auto

lemma step_message_clean:
  assumes st: "key_step env now op doc = (g, doc')" and sh: "shaped_keys doc" and b: "b \<in> set (kd_accounts doc')"
  shows "message_clean doc (ka_key ` set (kd_accounts doc')) b"
proof (cases op)
  case (Set_key_strategy x)
  with st b show ?thesis by (auto simp: after_change_def change_strategy_def intro: kept_message)
next
  case (Add_keys inputs)
  with st have "doc' = doc \<or> (\<exists>checked. add_accounts env checked doc = Inr ((), doc'))"
    by (auto simp: after_change_def change_add_def split: sum.splits)
  with b add_accounts_clean consider "b \<in> set (kd_accounts doc)" | "ka_reasonMessage b = None" by metis
  then show ?thesis
  proof cases
    case 2
    then show ?thesis by (simp add: message_clean_def)
  qed (rule kept_message)
next
  case (Update_key i p h)
  with st consider "doc' = doc" | q where "doc' = change_account i (assign_patch q) doc"
    | q k where "doc' = change_account i (\<lambda>a. assign_patch q (replace_key env k h a)) doc"
    by (auto simp: after_change_def change_update_def split: sum.splits option.splits if_splits)
  then show ?thesis
  proof cases
    case (2 q)
    show ?thesis by (rule change_account_clean [OF b [unfolded 2]]) (simp add: assign_patch_def)
  next
    case (3 q k)
    show ?thesis
      by (rule change_account_clean [OF b [unfolded 3]]) (simp add: assign_patch_def replace_key_def message_clean_def)
  qed (use b in \<open>simp add: kept_message\<close>)
next
  case (Remove_key i)
  with st b show ?thesis by (auto simp: after_change_def change_remove_def intro: kept_message)
next
  case (Retry_key i)
  with st consider "doc' = doc" | "doc' = change_account i (\<lambda>a. a\<lparr>ka_nextRetryAt := Some now, ka_denied := []\<rparr>) doc"
    by (auto simp: after_change_def change_retry_def split: option.splits if_splits)
  then show ?thesis using b by cases (simp_all add: kept_message retried_clean)
next
  case (Test_key i h m u)
  with st consider "doc' = doc" | "doc' = change_account i (take_lease env now u) doc"
    by (auto simp: after_change_def change_testRecovery_def split: option.splits if_splits)
  then show ?thesis using b by cases (simp_all add: kept_message leased_clean)
next
  case (Acquire_key i m u)
  with st consider "doc' = doc" | "doc' = change_account i (take_lease env now u) doc"
    by (auto simp: after_change_def change_acquire_def split: option.splits if_splits)
  then show ?thesis using b by cases (simp_all add: kept_message leased_clean)
next
  case (Settle_key t err model)
  let ?f = "settled_account env now (kd_accounts doc) t err model"
  consider "doc' = doc" | "doc' = change_account (kt_id t) ?f doc"
    using st Settle_key by (auto simp: after_change_def change_settle_def split: option.splits if_splits)
  then show ?thesis
  proof cases
    case 1
    with b show ?thesis by (simp add: kept_message)
  next
    case 2
    have "map ka_key (kd_accounts doc') = map ka_key (kd_accounts doc)" by (simp add: 2 change_account_def change_first_keys)
    then have ks: "ka_key ` set (kd_accounts doc') = ka_key ` set (kd_accounts doc)" by (metis list.set_map)
    have clean: "\<not> has_text k (redacted_message (kd_accounts doc) m)" if "k \<in> ka_key ` set (kd_accounts doc)" for k m
      using that sh redacted_message_clean by (auto simp: shaped_keys_def)
    show ?thesis
      unfolding ks
    proof (rule change_account_clean [OF b [unfolded 2]])
      fix a assume "a \<in> set (kd_accounts doc)"
      show "ka_id (?f a) = ka_id a \<and> (ka_reasonMessage (?f a) = ka_reasonMessage a \<or>
          message_clean doc (ka_key ` set (kd_accounts doc)) (?f a))"
        using settled_message [of env now "kd_accounts doc" t err model a] clean by (auto simp: message_clean_def)
    qed
  qed
qed

text \<open>
  C21. The upstream's error messages are stored without credentials: in every history of the pool, whenever an operation
  leaves an account with another message than before, that message contains none of the keys the pool holds then,
  whatever text the upstream answered. (So a key can occur in a stored message only if it was added, or put in by an
  update, after the message was stored.)
\<close>

theorem stored_message_has_no_key:
  assumes "doc = snd (key_run env ops \<lparr>kd_accounts = [], kd_strategy = None\<rparr>)" and "key_step env now op doc = (g, doc')"
    and "a \<in> set (kd_accounts doc')" "ka_reasonMessage a = Some m"
  shows "(\<exists>b \<in> set (kd_accounts doc). ka_id b = ka_id a \<and> ka_reasonMessage b = Some m) \<or>
    (\<forall>b \<in> set (kd_accounts doc'). \<not> has_text (ka_key b) m)"
proof -
  have "shaped_keys doc" unfolding assms(1) by (rule key_run_shaped) (simp add: shaped_keys_def)
  from step_message_clean [OF assms(2) this assms(3)] assms(4) show ?thesis by (auto simp: message_clean_def)
qed

subsection \<open>Instances\<close>

definition demo_key_env :: key_env where
  "demo_key_env =
     \<lparr>ke_provider = Openai_keys, ke_probeLeaseMs = None, ke_sha256 = id, ke_dateParse = (\<lambda>_. None), ke_monthStart = (\<lambda>t. t),
      ke_wallClock = (\<lambda>t. t)\<rparr>"

definition demo_key_account :: "key_state \<Rightarrow> key_account" where
  "demo_key_account st =
     \<lparr>ka_id = ''a'', ka_name = ''first'', ka_key = ''sk-0123456789'', ka_fingerprint = ''f'', ka_generation = ''g'', ka_enabled = True,
      ka_priority = 50, ka_models = None, ka_state = st, ka_reason = None, ka_reasonMessage = None, ka_nextRetryAt = Some 5,
      ka_probeUntil = None, ka_probeId = None, ka_denied = []\<rparr>"

definition demo_keys :: "key_state \<Rightarrow> key_document" where
  "demo_keys st = \<lparr>kd_accounts = [demo_key_account st], kd_strategy = None\<rparr>"

definition demo_key_probe :: key_attempt where
  "demo_key_probe = \<lparr>kt_id = ''a'', kt_generation = ''g'', kt_key = ''sk-0123456789'', kt_probeId = Some ''u''\<rparr>"

definition demo_leased :: key_document where
  "demo_leased = \<lparr>kd_accounts = [take_lease demo_key_env 10 ''u'' (demo_key_account Key_cooldown)], kd_strategy = None\<rparr>"

definition demo_ops :: "(rat \<times> key_op) list" where
  "demo_ops =
     [(20, Acquire_key ''a'' None ''v''), (30, Settle_key (demo_key_probe\<lparr>kt_probeId := Some ''old''\<rparr>) None None), (40, Acquire_key ''a'' None ''w'')]"

lemma demo_granted: "key_step demo_key_env 10 (Acquire_key ''a'' None ''u'') (demo_keys Key_cooldown) = (Some demo_key_probe, demo_leased)"
  by (simp add: demo_keys_def demo_key_account_def demo_key_probe_def demo_leased_def change_acquire_def find_key_def account_eligible_def
      allowsModel_def attempt_of_def change_account_def after_change_def)

lemma demo_quiet: "list_all (\<lambda>(now, op). \<not> replaces ''a'' op \<and> (now < 10 + probe_lease demo_key_env \<and> \<not> ends_probe demo_key_env demo_key_probe op)) demo_ops"
  by (simp add: demo_ops_def replaces_def ends_probe_def probe_lease_def demo_key_env_def demo_key_probe_def)

theorem probe_lease_exclusive_witness:
  "list_all (\<lambda>q. kt_id q \<noteq> kt_id demo_key_probe) (fst (key_run demo_key_env demo_ops demo_leased))"
  using probe_lease_exclusive [OF demo_granted, of demo_ops] demo_quiet by (simp add: demo_key_probe_def)

theorem key_recovers_by_proof_witness:
  "find_key ''a'' (snd (key_run demo_key_env demo_ops (demo_keys Key_invalid))) \<noteq> None"
  using key_recovers_by_proof [of "''a''" "demo_keys Key_invalid" "demo_key_account Key_invalid" demo_ops demo_key_env]
  by (auto simp: demo_keys_def demo_key_account_def find_key_def demo_ops_def replaces_def split: option.splits)

text \<open>The upstream rejects a key and quotes it.\<close>

definition echoing :: thrown where
  "echoing = UpstreamError Upstream_error ''rejected''
     (Some (JObj [(''error'', JObj [(''code'', JStr ''invalid_api_key''), (''message'', JStr ''no such key: sk-0123456789'')])]))
     (Some 401) No_object"

definition demo_added :: key_document where
  "demo_added = snd (key_run demo_key_env
     [(0, Add_keys [(\<lparr>ki_name = ''first'', ki_key = ''sk-0123456789''\<rparr>, ''a'', ''g'')])] \<lparr>kd_accounts = [], kd_strategy = None\<rparr>)"

lemma demo_rejected:
  "map ka_reasonMessage (kd_accounts demo_added) = [None]"
  "map ka_key (kd_accounts (snd (key_step demo_key_env 5 (Settle_key (demo_key_probe\<lparr>kt_probeId := None\<rparr>) (Some echoing) None) demo_added))) =
     [''sk-0123456789'']"
  "map ka_reasonMessage (kd_accounts (snd (key_step demo_key_env 5 (Settle_key (demo_key_probe\<lparr>kt_probeId := None\<rparr>) (Some echoing) None) demo_added))) =
     [Some ''no such key: [redacted]'']"
  by code_simp+

theorem stored_message_has_no_key_witness:
  "\<not> has_text ''sk-0123456789'' ''no such key: [redacted]''"
proof -
  let ?op = "Settle_key (demo_key_probe\<lparr>kt_probeId := None\<rparr>) (Some echoing) None"
  obtain g doc' where st: "key_step demo_key_env 5 ?op demo_added = (g, doc')" by (metis surj_pair)
  then have d: "map ka_key (kd_accounts doc') = [''sk-0123456789'']"
    "map ka_reasonMessage (kd_accounts doc') = [Some ''no such key: [redacted]'']"
    using demo_rejected by simp_all
  then obtain a where a: "kd_accounts doc' = [a]" "ka_key a = ''sk-0123456789''" "ka_reasonMessage a = Some ''no such key: [redacted]''"
    by auto
  from stored_message_has_no_key [OF demo_added_def st, of a "''no such key: [redacted]''"] show ?thesis
    using a demo_rejected(1) by auto
qed

end
