(* ===== verification/Token_Manager.thy ===== *)
theory Token_Manager
  imports Retry Sse
begin

text \<open>
  OAuth tokens (\<open>provider/token-manager.ts\<close>): the confidential grants, the refresh of a stored subscription credential,
  and the gate that serialises refreshes of one credential. Stored tokens are taken decrypted; the token endpoint, the
  provider's \<open>getApiKey\<close> and SHA-256 are parameters. Times are rational milliseconds.
\<close>

subsection \<open>Constants and failures\<close>

definition DEFAULT_EXPIRY_SKEW_MS :: rat where "DEFAULT_EXPIRY_SKEW_MS = 60000"

definition TOKEN_REFRESH_HEADROOM_MS :: rat where "TOKEN_REFRESH_HEADROOM_MS = 5 * 60000"

definition REFRESH_FAILURE_WAIT_MS :: int where "REFRESH_FAILURE_WAIT_MS = 1000"

definition REFRESH_FAILURE_JITTER_MS :: int where "REFRESH_FAILURE_JITTER_MS = 2000"

definition DEFAULT_EXPIRES_IN_S :: rat where "DEFAULT_EXPIRES_IN_S = 3600"

text \<open>The argument of \<open>executionTokenExpirySkewMs\<close> is \<open>None\<close> when it is not finite.\<close>

definition executionTokenExpirySkewMs :: "rat option \<Rightarrow> rat" where
  "executionTokenExpirySkewMs requestTimeoutMs =
     (case requestTimeoutMs of
        Some t \<Rightarrow> if 0 < t then of_int \<lceil>t\<rceil> + TOKEN_REFRESH_HEADROOM_MS else TOKEN_REFRESH_HEADROOM_MS
      | None \<Rightarrow> TOKEN_REFRESH_HEADROOM_MS)"

text \<open>The first two bytes of the digest, big-endian, are the argument \<open>digest16\<close>.\<close>

definition presetRefreshFailureWaitMs :: "(string \<Rightarrow> int) \<Rightarrow> string \<Rightarrow> string \<Rightarrow> int" where
  "presetRefreshFailureWaitMs digest16 providerId account =
     REFRESH_FAILURE_WAIT_MS + digest16 (providerId @ CHR 0x00 # account) mod REFRESH_FAILURE_JITTER_MS"

datatype refresh_failure =
    OAuth_http int bool
  | Identity_mismatch
  | Refresh_transport
  | Refresh_other

definition permanentFailure :: "refresh_failure \<Rightarrow> bool" where
  "permanentFailure f = (case f of OAuth_http s permanent \<Rightarrow> permanent | Identity_mismatch \<Rightarrow> True | _ \<Rightarrow> False)"

definition isRetryableRefreshError :: "refresh_failure \<Rightarrow> bool" where
  "isRetryableRefreshError f =
     (case f of
        OAuth_http s permanent \<Rightarrow> \<not> permanent \<and> (s = 403 \<or> s = 408 \<or> s = 425 \<or> 500 \<le> s)
      | Refresh_transport \<Rightarrow> True
      | _ \<Rightarrow> False)"

record token_refresh_error =
  tr_message :: string
  tr_httpStatus :: "int option"
  tr_permanent :: bool
  tr_retryable :: bool

definition TokenRefreshError :: "string \<Rightarrow> int option \<Rightarrow> bool \<Rightarrow> bool \<Rightarrow> token_refresh_error" where
  "TokenRefreshError msg status permanent retryable =
     \<lparr>tr_message = msg, tr_httpStatus = status, tr_permanent = permanent, tr_retryable = retryable\<rparr>"

definition OAuthCredentialDisconnectedError :: token_refresh_error where
  "OAuthCredentialDisconnectedError =
     TokenRefreshError ''OAuth account was disconnected; reconnect the account'' None False False"

definition short_lease_error :: token_refresh_error where
  "short_lease_error = TokenRefreshError ''oauth access token is shorter than required request lease'' None False True"

definition failure_status :: "refresh_failure \<Rightarrow> int option" where
  "failure_status f = (case f of OAuth_http s permanent \<Rightarrow> Some s | _ \<Rightarrow> None)"

definition refresh_error_of :: "(int \<Rightarrow> string) \<Rightarrow> string \<Rightarrow> refresh_failure \<Rightarrow> token_refresh_error" where
  "refresh_error_of showInt providerId f =
     TokenRefreshError
       (if f = Identity_mismatch then ''oauth refresh identity changed ('' @ providerId @ ''); reconnect the account''
        else
          (case failure_status f of
             None \<Rightarrow> ''oauth refresh failed ('' @ providerId @ '')''
           | Some s \<Rightarrow> ''oauth refresh failed ('' @ providerId @ '', status '' @ showInt s @ '')''))
       (failure_status f) (permanentFailure f) (isRetryableRefreshError f)"

subsection \<open>One manager\<close>

record stored_credential =
  sc_access :: "string option"
  sc_refresh :: "string option"
  sc_expiresAt :: "rat option"
  sc_meta :: "json_object option"

record oauth_credentials =
  cr_access :: string
  cr_refresh :: string
  cr_expires :: rat
  cr_extra :: json_object

record token_manager =
  tm_access :: "string option"
  tm_refresh :: "string option"
  tm_expiresAt :: rat
  tm_extra :: json_object
  tm_loaded :: bool
  tm_forced :: bool
  tm_invalidated :: "string option"
  tm_revoked :: bool

record token_env =
  tv_skew :: rat
  tv_enforceLease :: bool
  tv_getApiKey :: "oauth_credentials \<Rightarrow> string"

definition new_manager :: token_manager where
  "new_manager =
     \<lparr>tm_access = None, tm_refresh = None, tm_expiresAt = 0, tm_extra = [], tm_loaded = False, tm_forced = False,
      tm_invalidated = None, tm_revoked = False\<rparr>"

definition isExpired :: "token_env \<Rightarrow> rat \<Rightarrow> token_manager \<Rightarrow> bool" where
  "isExpired env now m = (tm_access m = None \<or> tm_expiresAt m \<le> now + tv_skew env)"

definition reloadStillRejected :: "token_manager \<Rightarrow> bool" where
  "reloadStillRejected m = (tm_invalidated m \<noteq> None \<and> tm_access m = tm_invalidated m)"

definition loadFromStore :: "stored_credential option \<Rightarrow> token_manager \<Rightarrow> token_manager" where
  "loadFromStore row m =
     (case row of
        None \<Rightarrow> m
      | Some rec \<Rightarrow>
          m\<lparr>tm_access := sc_access rec, tm_refresh := sc_refresh rec, tm_expiresAt := nullish (sc_expiresAt rec) 0,
            tm_extra := nullish (sc_meta rec) []\<rparr>)"

definition forget_tokens :: "token_manager \<Rightarrow> token_manager" where
  "forget_tokens m = m\<lparr>tm_access := None, tm_refresh := None, tm_expiresAt := 0, tm_extra := []\<rparr>"

definition invalidate :: "token_manager \<Rightarrow> token_manager" where
  "invalidate m = m\<lparr>tm_invalidated := tm_access m, tm_forced := True, tm_expiresAt := 0, tm_access := None\<rparr>"

definition settle_refresh :: "token_manager \<Rightarrow> token_manager" where
  "settle_refresh m = m\<lparr>tm_forced := False, tm_invalidated := None\<rparr>"

definition currentSecrets :: "token_manager \<Rightarrow> string list" where
  "currentSecrets m = (case tm_access m of None \<Rightarrow> [] | Some a \<Rightarrow> [a]) @ (case tm_refresh m of None \<Rightarrow> [] | Some r \<Rightarrow> [r])"

definition adopt_credentials :: "token_env \<Rightarrow> oauth_credentials \<Rightarrow> token_manager \<Rightarrow> token_manager" where
  "adopt_credentials env creds m =
     m\<lparr>tm_access := Some (tv_getApiKey env creds), tm_refresh := Some (cr_refresh creds), tm_expiresAt := cr_expires creds,
       tm_extra := cr_extra creds\<rparr>"

definition stored_row :: "token_env \<Rightarrow> oauth_credentials \<Rightarrow> stored_credential" where
  "stored_row env creds =
     \<lparr>sc_access = Some (tv_getApiKey env creds), sc_refresh = Some (cr_refresh creds), sc_expiresAt = Some (cr_expires creds),
      sc_meta = (if cr_extra creds = [] then None else Some (cr_extra creds))\<rparr>"

definition login_row :: "oauth_credentials \<Rightarrow> stored_credential" where
  "login_row creds =
     \<lparr>sc_access = Some (cr_access creds), sc_refresh = Some (cr_refresh creds), sc_expiresAt = Some (cr_expires creds),
      sc_meta = (if cr_extra creds = [] then None else Some (cr_extra creds))\<rparr>"

definition lease_too_short :: "token_env \<Rightarrow> rat \<Rightarrow> token_manager \<Rightarrow> bool" where
  "lease_too_short env now m = (tv_enforceLease env \<and> tm_expiresAt m \<le> now + tv_skew env)"

subsection \<open>Confidential grants\<close>

record confidential_oauth =
  co_grant_refresh :: bool
  co_clientId :: string
  co_clientSecret :: string
  co_refreshToken :: "string option"
  co_scopes :: "string list"
  co_audience :: "string option"

definition buildBody :: "confidential_oauth \<Rightarrow> token_manager \<Rightarrow> (string \<times> string) list" where
  "buildBody o' m =
     [(''grant_type'', if co_grant_refresh o' then ''refresh_token'' else ''client_credentials''),
      (''client_id'', co_clientId o'), (''client_secret'', co_clientSecret o')] @
     (if co_grant_refresh o' then (case tm_refresh m of None \<Rightarrow> [] | Some r \<Rightarrow> [(''refresh_token'', r)]) else []) @
     (if co_scopes o' \<noteq> [] then [(''scope'', join_with (CHR '' '') (co_scopes o'))] else []) @
     (case co_audience o' of None \<Rightarrow> [] | Some a \<Rightarrow> [(''audience'', a)])"

definition confidential_manager :: "confidential_oauth \<Rightarrow> token_manager" where
  "confidential_manager o' = new_manager\<lparr>tm_refresh := co_refreshToken o'\<rparr>"

text \<open>Reading a property of a body that is \<open>null\<close> raises a TypeError. The clock of one call is read once.\<close>

datatype endpoint_answer = Unreachable | Answered int bool "json option"

datatype token_failure = Token_failure token_refresh_error | Property_of_null

definition expires_in_seconds :: "json option \<Rightarrow> rat" where
  "expires_in_seconds v = (case v of Some (JNum n) \<Rightarrow> if 0 < n then n else DEFAULT_EXPIRES_IN_S | _ \<Rightarrow> DEFAULT_EXPIRES_IN_S)"

definition doRefresh :: "token_env \<Rightarrow> (int \<Rightarrow> string) \<Rightarrow> rat \<Rightarrow> endpoint_answer \<Rightarrow> token_manager \<Rightarrow> token_failure option \<times> token_manager" where
  "doRefresh env showInt now answer m =
     (case answer of
        Unreachable \<Rightarrow> (Some (Token_failure (TokenRefreshError ''oauth token request failed (network error)'' None False False)), m)
      | Answered status success body \<Rightarrow>
          if \<not> success
          then (Some (Token_failure (TokenRefreshError (''oauth token request failed (status '' @ showInt status @ '')'') (Some status) False False)), m)
          else
            (case body of
               None \<Rightarrow> (Some (Token_failure (TokenRefreshError ''oauth token response was not valid JSON'' (Some status) False False)), m)
             | Some JNull \<Rightarrow> (Some Property_of_null, m)
             | Some parsed \<Rightarrow>
                 (case as_string (prop_of ''access_token'' parsed) of
                    Some (c # cs) \<Rightarrow>
                      let m' = m\<lparr>tm_access := Some (c # cs),
                                 tm_expiresAt := now + expires_in_seconds (prop_of ''expires_in'' parsed) * 1000,
                                 tm_refresh :=
                                   (case as_string (prop_of ''refresh_token'' parsed) of
                                      Some (r # rs) \<Rightarrow> Some (r # rs) | _ \<Rightarrow> tm_refresh m)\<rparr> in
                      (if lease_too_short env now m' then Some (Token_failure short_lease_error) else None, m')
                  | _ \<Rightarrow> (Some (Token_failure (TokenRefreshError ''oauth token response missing access_token'' (Some status) False False)), m))))"

text \<open>\<open>ensureFresh\<close> and the header for a confidential grant; the answer is looked at only when a refresh is due.\<close>

definition confidential_header :: "token_env \<Rightarrow> (int \<Rightarrow> string) \<Rightarrow> rat \<Rightarrow> endpoint_answer \<Rightarrow> token_manager \<Rightarrow> (token_failure + string) \<times> token_manager" where
  "confidential_header env showInt now answer m =
     (case (if isExpired env now m then doRefresh env showInt now answer m else (None, m)) of
        (Some e, m') \<Rightarrow> (Inl e, m')
      | (None, m') \<Rightarrow> (Inr (''Bearer '' @ nullish (tm_access m') ''null''), m'))"

subsection \<open>Managers that share one stored credential\<close>

text \<open>
  Every manager of one credential, the stored row, and the gate of \<open>runExclusive\<close> as a queue whose head is inside. What a
  manager is doing is its phase; the log keeps what the token endpoint saw and did: \<open>Presented\<close>, \<open>Rotated\<close> away, \<open>Issued\<close>, and
  \<open>Lost\<close> for a token whose replacement never reached the store. An event that cannot happen in a world has no successor.
\<close>

datatype refresh_phase =
    Refresh_idle
  | Refresh_waiting
  | Refresh_calling string "string option"
  | Refresh_backoff string "string option"
  | Refresh_writing string oauth_credentials

datatype gate_user = Manager nat | Logout

datatype token_log = Presented string | Rotated string | Issued string | Lost string

record token_world =
  tw_row :: "stored_credential option"
  tw_managers :: "nat \<Rightarrow> token_manager option"
  tw_phase :: "nat \<Rightarrow> refresh_phase"
  tw_gate :: "gate_user list"
  tw_log :: "token_log list"

datatype token_event =
    Create_manager nat
  | Login oauth_credentials
  | First_load nat
  | Ask_token nat rat
  | Invalidate_token nat
  | Enter_gate nat rat
  | Endpoint_grants nat oauth_credentials
  | Endpoint_fails nat refresh_failure "string option"
  | Write_row nat rat bool
  | Reread_row nat rat
  | Disconnect
  | Delete_row bool

definition put_manager :: "nat \<Rightarrow> token_manager \<Rightarrow> token_world \<Rightarrow> token_world" where
  "put_manager i m w = w\<lparr>tw_managers := (tw_managers w)(i := Some m)\<rparr>"

definition put_phase :: "nat \<Rightarrow> refresh_phase \<Rightarrow> token_world \<Rightarrow> token_world" where
  "put_phase i p w = w\<lparr>tw_phase := (tw_phase w)(i := p)\<rparr>"

definition note_log :: "token_log list \<Rightarrow> token_world \<Rightarrow> token_world" where
  "note_log l w = w\<lparr>tw_log := tw_log w @ l\<rparr>"

definition leave_gate :: "nat \<Rightarrow> token_manager \<Rightarrow> token_world \<Rightarrow> token_world" where
  "leave_gate i m w = put_manager i m (put_phase i Refresh_idle (w\<lparr>tw_gate := tl (tw_gate w)\<rparr>))"

definition first_load :: "nat \<Rightarrow> token_world \<Rightarrow> token_world option" where
  "first_load i w =
     Option.bind (tw_managers w i) (\<lambda>m.
       if tm_loaded m then None else Some (put_manager i ((loadFromStore (tw_row w) m)\<lparr>tm_loaded := True\<rparr>) w))"

text \<open>\<open>getAuthHeader\<close> up to the wait: a revoked manager forgets, a fresh one serves, the others start or join one refresh.\<close>

definition ask_token :: "token_env \<Rightarrow> nat \<Rightarrow> rat \<Rightarrow> token_world \<Rightarrow> token_world option" where
  "ask_token env i now w =
     Option.bind (tw_managers w i) (\<lambda>m.
       if tm_revoked m then Some (put_manager i (forget_tokens m) w)
       else if \<not> tm_loaded m then None
       else if \<not> isExpired env now m \<and> \<not> tm_forced m then Some w
       else if tw_phase w i \<noteq> Refresh_idle then Some w
       else Some (put_phase i Refresh_waiting (w\<lparr>tw_gate := tw_gate w @ [Manager i]\<rparr>)))"

text \<open>Inside the gate: read the row again, and call the endpoint only if it still holds an expired or rejected token.\<close>

definition enter_gate :: "token_env \<Rightarrow> nat \<Rightarrow> rat \<Rightarrow> token_world \<Rightarrow> token_world option" where
  "enter_gate env i now w =
     Option.bind (tw_managers w i) (\<lambda>m.
       if tw_phase w i \<noteq> Refresh_waiting \<or> take 1 (tw_gate w) \<noteq> [Manager i] then None
       else if tm_revoked m then Some (leave_gate i (forget_tokens m) w)
       else
         let m' = loadFromStore (tw_row w) m in
         if \<not> isExpired env now m' \<and> \<not> (tm_forced m' \<and> reloadStillRejected m') then Some (leave_gate i (settle_refresh m') w)
         else
           (case tm_refresh m' of
              None \<Rightarrow> Some (leave_gate i m' w)
            | Some r \<Rightarrow> Some (note_log [Presented r] (put_manager i m' (put_phase i (Refresh_calling r (tm_access m')) w)))))"

text \<open>
  The endpoint either keeps the refresh token or issues one it has not issued before, and a token that was rotated away is
  not honoured again; that is the documented behaviour of rotating refresh tokens.
\<close>

definition issues_properly :: "string \<Rightarrow> string \<Rightarrow> token_log list \<Rightarrow> bool" where
  "issues_properly used new l = (new = used \<or> Issued new \<notin> set l)"

definition endpoint_grants :: "token_env \<Rightarrow> nat \<Rightarrow> oauth_credentials \<Rightarrow> token_world \<Rightarrow> token_world option" where
  "endpoint_grants env i creds w =
     Option.bind (tw_managers w i) (\<lambda>m.
       case tw_phase w i of
         Refresh_calling r a \<Rightarrow>
           if \<not> issues_properly r (cr_refresh creds) (tw_log w) then None
           else
             Some (note_log (if cr_refresh creds = r then [] else [Rotated r, Issued (cr_refresh creds)])
               (put_manager i (adopt_credentials env creds m) (put_phase i (Refresh_writing r creds) w)))
       | _ \<Rightarrow> None)"

text \<open>
  A refresh that throws. An answer with an error status leaves the token as it was; every other failure may come after the
  endpoint rotated: the providers throw when the answer names another identity (\<open>oauth/anthropic.ts\<close>,
  \<open>oauth/openai-codex.ts\<close>) or lacks a field, and a connection may break once the endpoint has answered. The event says
  which token the endpoint had issued by then.
\<close>

definition rotation_lost :: "refresh_failure \<Rightarrow> string \<Rightarrow> string option \<Rightarrow> token_log list \<Rightarrow> token_log list option" where
  "rotation_lost failure r issued l =
     (case issued of
        None \<Rightarrow> Some []
      | Some new \<Rightarrow>
          if failure_status failure \<noteq> None \<or> new = r \<or> Issued new \<in> set l then None
          else Some [Rotated r, Issued new, Lost r])"

definition endpoint_fails :: "nat \<Rightarrow> refresh_failure \<Rightarrow> string option \<Rightarrow> token_world \<Rightarrow> token_world option" where
  "endpoint_fails i failure issued w =
     Option.bind (tw_managers w i) (\<lambda>m.
       case tw_phase w i of
         Refresh_calling r a \<Rightarrow>
           map_option
             (\<lambda>l. note_log l
               (if isRetryableRefreshError failure then put_phase i (Refresh_backoff r a) w else leave_gate i m w))
             (rotation_lost failure r issued (tw_log w))
       | _ \<Rightarrow> None)"

text \<open>A write that fails throws: the gate is left, the forced refresh stays pending, and a rotated token has no successor in the store.\<close>

definition write_row :: "token_env \<Rightarrow> nat \<Rightarrow> rat \<Rightarrow> bool \<Rightarrow> token_world \<Rightarrow> token_world option" where
  "write_row env i now ok w =
     Option.bind (tw_managers w i) (\<lambda>m.
       case tw_phase w i of
         Refresh_writing r creds \<Rightarrow>
           if \<not> ok then Some (note_log (if cr_refresh creds = r then [] else [Lost r]) (leave_gate i m w))
           else
             Some (leave_gate i (if lease_too_short env now m then m else settle_refresh m) (w\<lparr>tw_row := Some (stored_row env creds)\<rparr>))
       | _ \<Rightarrow> None)"

definition reread_row :: "token_env \<Rightarrow> nat \<Rightarrow> rat \<Rightarrow> token_world \<Rightarrow> token_world option" where
  "reread_row env i now w =
     Option.bind (tw_managers w i) (\<lambda>m.
       case tw_phase w i of
         Refresh_backoff r a \<Rightarrow>
           let m' = loadFromStore (tw_row w) m in
           Some (leave_gate i
             (if \<not> isExpired env now m' \<and> (tm_access m' \<noteq> a \<or> tm_refresh m' \<noteq> Some r) then settle_refresh m' else m') w)
       | _ \<Rightarrow> None)"

text \<open>A deletion that fails leaves the credential usable.\<close>

definition delete_row :: "bool \<Rightarrow> token_world \<Rightarrow> token_world option" where
  "delete_row ok w =
     (if take 1 (tw_gate w) \<noteq> [Logout] then None
      else if \<not> ok then Some (w\<lparr>tw_gate := tl (tw_gate w)\<rparr>)
      else
        Some (w\<lparr>tw_row := None, tw_gate := tl (tw_gate w),
                tw_managers := (\<lambda>i. map_option (\<lambda>m. m\<lparr>tm_revoked := True\<rparr>) (tw_managers w i))\<rparr>))"

fun token_next :: "token_env \<Rightarrow> token_event \<Rightarrow> token_world \<Rightarrow> token_world option" where
  "token_next env (Create_manager i) w = (if tw_managers w i = None then Some (put_manager i new_manager w) else None)"
| "token_next env (Login creds) w =
     (if Issued (cr_refresh creds) \<in> set (tw_log w) then None
      else Some (note_log [Issued (cr_refresh creds)] (w\<lparr>tw_row := Some (login_row creds)\<rparr>)))"
| "token_next env (First_load i) w = first_load i w"
| "token_next env (Ask_token i now) w = ask_token env i now w"
| "token_next env (Invalidate_token i) w = map_option (\<lambda>m. put_manager i (invalidate m) w) (tw_managers w i)"
| "token_next env (Enter_gate i now) w = enter_gate env i now w"
| "token_next env (Endpoint_grants i creds) w = endpoint_grants env i creds w"
| "token_next env (Endpoint_fails i failure issued) w = endpoint_fails i failure issued w"
| "token_next env (Write_row i now ok) w = write_row env i now ok w"
| "token_next env (Reread_row i now) w = reread_row env i now w"
| "token_next env Disconnect w = Some (w\<lparr>tw_gate := tw_gate w @ [Logout]\<rparr>)"
| "token_next env (Delete_row ok) w = delete_row ok w"

fun token_run :: "token_env \<Rightarrow> token_event list \<Rightarrow> token_world \<Rightarrow> token_world option" where
  "token_run env [] w = Some w"
| "token_run env (e # es) w = Option.bind (token_next env e w) (token_run env es)"

definition empty_world :: token_world where
  "empty_world = \<lparr>tw_row = None, tw_managers = (\<lambda>_. None), tw_phase = (\<lambda>_. Refresh_idle), tw_gate = [], tw_log = []\<rparr>"

end
