(* ===== verification/Token_Manager_Facts.thy ===== *)
theory Token_Manager_Facts
  imports Token_Manager
begin

text \<open>
  The promise of the gate: however the managers of a credential interleave and whatever fails, the token presented is the
  newest one, unless its replacement never reached the store; and the stored row holds a token of that kind. The lemmas at
  the end show the runs in which a replacement is lost, and two other ways out of what the code promises.
\<close>

subsection \<open>No replay\<close>

text \<open>A token is spent when the endpoint has rotated it away and its replacement was not lost since.\<close>

definition spent_after :: "string \<Rightarrow> bool \<Rightarrow> token_log \<Rightarrow> bool" where
  "spent_after r was e = (if e = Rotated r then True else if e = Lost r then False else was)"

definition spent :: "token_log list \<Rightarrow> string \<Rightarrow> bool" where
  "spent l r = foldl (spent_after r) False l"

definition no_replay :: "token_log list \<Rightarrow> bool" where
  "no_replay l \<longleftrightarrow> (\<forall>a r b. l = a @ Presented r # b \<longrightarrow> \<not> spent a r)"

lemma spent_append [simp]: "spent [] r = False" "spent (l @ [e]) r = spent_after r (spent l r) e"
  by (simp_all add: spent_def)

lemma spent_two [simp]: "spent (l @ [e, e']) r = spent_after r (spent_after r (spent l r) e) e'"
  and spent_three [simp]: "spent (l @ [e, e', e'']) r = spent_after r (spent_after r (spent_after r (spent l r) e) e') e''"
  by (simp_all add: spent_def)

lemma spent_steps [simp]:
  "spent_after r was (Presented x) = was" "spent_after r was (Issued x) = was" "spent_after r was (Rotated x) = (x = r \<or> was)"
  "spent_after r was (Lost x) = (x \<noteq> r \<and> was)"
  by (auto simp: spent_after_def)

lemma no_replay_Nil [simp]: "no_replay []"
  by (simp add: no_replay_def)

lemma no_replay_snoc: "no_replay (l @ [e]) \<longleftrightarrow> no_replay l \<and> (\<forall>r. e = Presented r \<longrightarrow> \<not> spent l r)"
  unfolding no_replay_def by (fastforce simp: append_eq_append_conv2 append_eq_Cons_conv Cons_eq_append_conv)

lemma no_replay_more: "no_replay l \<Longrightarrow> \<forall>r. Presented r \<notin> set l' \<Longrightarrow> no_replay (l @ l')"
  by (induction l' rule: rev_induct) (auto simp flip: append_assoc simp: no_replay_snoc)

lemma spent_rotated: "spent l r \<Longrightarrow> Rotated r \<in> set l"
  by (induction l rule: rev_induct) (auto simp: spent_after_def split: if_splits)

definition issued :: "token_world \<Rightarrow> string \<Rightarrow> bool" where
  "issued w r = (Issued r \<in> set (tw_log w))"

definition inside :: "token_world \<Rightarrow> nat \<Rightarrow> bool" where
  "inside w i = (tw_phase w i \<noteq> Refresh_idle \<and> tw_phase w i \<noteq> Refresh_waiting)"

definition gone :: "token_world \<Rightarrow> string \<Rightarrow> bool" where
  "gone w r = spent (tw_log w) r"

definition usable :: "token_world \<Rightarrow> string \<Rightarrow> bool" where
  "usable w r = (issued w r \<and> \<not> gone w r)"

definition row_token :: "token_world \<Rightarrow> string option" where
  "row_token w = Option.bind (tw_row w) sc_refresh"

definition replacing :: "token_world \<Rightarrow> string \<Rightarrow> bool" where
  "replacing w r = (\<exists>i creds. tw_phase w i = Refresh_writing r creds)"

definition token_inv :: "token_world \<Rightarrow> bool" where
  "token_inv w =
     (no_replay (tw_log w) \<and> (\<forall>r. gone w r \<longrightarrow> issued w r) \<and>
      (\<forall>r. row_token w = Some r \<longrightarrow> issued w r \<and> (gone w r \<longrightarrow> replacing w r)) \<and>
      (\<forall>i. inside w i \<longrightarrow> take 1 (tw_gate w) = [Manager i] \<and> tw_row w \<noteq> None) \<and>
      (\<forall>i r creds. tw_phase w i = Refresh_writing r creds \<longrightarrow> usable w (cr_refresh creds)) \<and>
      (\<forall>i r a. tw_phase w i = Refresh_calling r a \<longrightarrow> usable w r) \<and>
      (\<forall>i m. tw_managers w i = Some m \<and> tw_row w = None \<and> \<not> tm_revoked m \<longrightarrow> tm_refresh m = None))"

text \<open>Changes of one manager and of the gate's tail.\<close>

lemma inv_put_manager:
  assumes "token_inv w" "tw_row w \<noteq> None \<or> tm_revoked m \<or> tm_refresh m = None"
  shows "token_inv (put_manager i m w)"
  using assms by (auto simp: token_inv_def put_manager_def gone_def issued_def inside_def usable_def row_token_def replacing_def)

lemma gate_append: "take 1 l = [x] \<Longrightarrow> take 1 (l @ l') = [x]"
  by (cases l) auto

text \<open>Only one manager is inside.\<close>

lemma inside_head: "token_inv w \<Longrightarrow> inside w i \<Longrightarrow> take 1 (tw_gate w) = [Manager i] \<and> tw_row w \<noteq> None"
  by (simp add: token_inv_def)

lemma one_inside: "token_inv w \<Longrightarrow> inside w i \<Longrightarrow> inside w j \<Longrightarrow> i = j"
  using inside_head [of w i] inside_head [of w j] by simp

text \<open>The manager that is inside leaves with a row whose token is usable.\<close>

lemma inv_leave:
  assumes "token_inv w" "inside w i \<or> tw_phase w i = Refresh_waiting \<and> take 1 (tw_gate w) = [Manager i]"
    and "\<And>r. row_token w' = Some r \<Longrightarrow> usable w r" "tw_log w' = tw_log w" "tw_phase w' = tw_phase w" "tw_managers w' = tw_managers w"
    and "tw_row w' = None \<Longrightarrow> tw_row w = None" "tw_row w' = None \<Longrightarrow> \<not> tm_revoked m \<Longrightarrow> tm_refresh m = None" "tw_gate w' = tw_gate w"
  shows "token_inv (leave_gate i m w')"
proof -
  have head: "take 1 (tw_gate w) = [Manager i]" using assms(1,2) by (auto simp: token_inv_def)
  have alone: "\<not> inside w j" if "j \<noteq> i" for j using assms(1) head that by (auto simp: token_inv_def)
  let ?w = "leave_gate i m w'"
  have ph: "\<not> inside ?w j" for j using alone [of j] by (auto simp: leave_gate_def put_manager_def put_phase_def inside_def assms(5))
  have "tw_log ?w = tw_log w" "row_token ?w = row_token w'" "tw_row ?w = tw_row w'"
    by (simp_all add: leave_gate_def put_manager_def put_phase_def assms row_token_def)
  moreover have "tw_managers ?w = (tw_managers w)(i := Some m)"
    by (simp add: leave_gate_def put_manager_def put_phase_def assms)
  moreover have "tw_phase ?w j \<noteq> Refresh_writing x c" "tw_phase ?w j \<noteq> Refresh_calling r a" for j x c r a
    using ph [of j] by (auto simp: inside_def)
  ultimately show ?thesis using assms ph
    by (auto simp: token_inv_def issued_def gone_def usable_def)
qed

lemma row_usable:
  assumes "token_inv w" "row_token w = Some r" "\<And>i x creds. tw_phase w i \<noteq> Refresh_writing x creds"
  shows "usable w r"
  using assms by (auto simp: token_inv_def usable_def replacing_def)

lemma quiet_row:
  assumes "token_inv w" "tw_phase w i = Refresh_waiting" "take 1 (tw_gate w) = [Manager i]"
  shows "\<And>j. \<not> inside w j" "row_token w = Some r \<Longrightarrow> usable w r"
proof -
  show q: "\<not> inside w j" for j
    using inside_head [OF assms(1), of j] assms(2,3) by (auto simp: inside_def)
  show "row_token w = Some r \<Longrightarrow> usable w r"
    using row_usable [OF assms(1)] q unfolding inside_def by (metis refresh_phase.distinct(7,14))
qed

lemma token_invD:
  assumes "token_inv w"
  shows "no_replay (tw_log w)" "gone w r \<Longrightarrow> issued w r" "row_token w = Some r \<Longrightarrow> issued w r"
    "row_token w = Some r \<Longrightarrow> gone w r \<Longrightarrow> replacing w r" "inside w i \<Longrightarrow> take 1 (tw_gate w) = [Manager i]"
    "inside w i \<Longrightarrow> tw_row w \<noteq> None" "tw_phase w i = Refresh_writing x creds \<Longrightarrow> usable w (cr_refresh creds)"
    "tw_phase w i = Refresh_calling r a \<Longrightarrow> usable w r"
  using assms unfolding token_inv_def by (elim conjE; blast)+

lemma remembered: "token_inv w \<Longrightarrow> tw_managers w i = Some m \<Longrightarrow> tw_row w \<noteq> None \<or> tm_revoked m \<or> tm_refresh m = None"
proof -
  assume w: "token_inv w" "tw_managers w i = Some m"
  then have "\<forall>i m. tw_managers w i = Some m \<and> tw_row w = None \<and> \<not> tm_revoked m \<longrightarrow> tm_refresh m = None"
    unfolding token_inv_def by (elim conjE)
  from spec [OF spec [OF this, of i], of m] w(2) show ?thesis by (cases "tw_row w"; cases "tm_revoked m") simp_all
qed

lemma token_invI:
  assumes "no_replay (tw_log w)" "\<And>r. gone w r \<Longrightarrow> issued w r" "\<And>r. row_token w = Some r \<Longrightarrow> issued w r"
    "\<And>r. row_token w = Some r \<Longrightarrow> gone w r \<Longrightarrow> replacing w r" "\<And>i. inside w i \<Longrightarrow> take 1 (tw_gate w) = [Manager i]"
    "\<And>i. inside w i \<Longrightarrow> tw_row w \<noteq> None" "\<And>i x creds. tw_phase w i = Refresh_writing x creds \<Longrightarrow> usable w (cr_refresh creds)"
    "\<And>i r a. tw_phase w i = Refresh_calling r a \<Longrightarrow> usable w r"
    "\<And>i m. tw_managers w i = Some m \<Longrightarrow> tw_row w \<noteq> None \<or> tm_revoked m \<or> tm_refresh m = None"
  shows "token_inv w"
  unfolding token_inv_def
proof (intro conjI allI impI)
  fix i m assume "tw_managers w i = Some m \<and> tw_row w = None \<and> \<not> tm_revoked m"
  with assms(9) [of i m] show "tm_refresh m = None" by simp
qed (use assms(1-8) in auto)

lemma inv_same:
  assumes "token_inv w" "tw_log w' = tw_log w" "tw_row w' = tw_row w" "tw_managers w' = tw_managers w"
    and "\<And>j x c. tw_phase w' j = Refresh_writing x c \<longleftrightarrow> tw_phase w j = Refresh_writing x c"
    and "\<And>j r a. tw_phase w' j = Refresh_calling r a \<longrightarrow> (\<exists>a. tw_phase w j = Refresh_calling r a)"
    and "\<And>j. inside w' j \<longrightarrow> inside w j"
    and "\<And>j. take 1 (tw_gate w) = [Manager j] \<Longrightarrow> take 1 (tw_gate w') = [Manager j]"
  shows "token_inv w'"
proof -
  have "issued w' = issued w" "gone w' = gone w" "usable w' = usable w" "row_token w' = row_token w" "replacing w' = replacing w"
    using assms(2,3,5) by (auto simp: issued_def gone_def usable_def row_token_def replacing_def)
  note same = this
  note D = token_invD [OF assms(1)]
  show ?thesis
  proof (rule token_invI)
    show "no_replay (tw_log w')" using D(1) assms(2) by simp
    show "issued w' r" if "gone w' r" for r using D(2) that same by simp
    show "issued w' r" if "row_token w' = Some r" for r using D(3) that same by simp
    show "replacing w' r" if "row_token w' = Some r" "gone w' r" for r using D(4) that same by simp
    show "take 1 (tw_gate w') = [Manager i]" if "inside w' i" for i using D(5) assms(7,8) that by blast
    show "tw_row w' \<noteq> None" if "inside w' i" for i using D(6) [of i] assms(3,7) that by simp
    show "usable w' (cr_refresh c)" if "tw_phase w' i = Refresh_writing x c" for i x c using D(7) assms(5) that same by simp
    show "usable w' r" if "tw_phase w' i = Refresh_calling r a" for i r a using D(8) assms(6) that same by metis
    show "tw_row w' \<noteq> None \<or> tm_revoked m \<or> tm_refresh m = None" if "tw_managers w' i = Some m" for i m
      using remembered [OF assms(1), of i m] that assms(3,4) by simp
  qed
qed

lemma inv_log:
  assumes "token_inv w" "\<forall>r. Presented r \<notin> set l" "\<And>r. spent (tw_log w @ l) r \<Longrightarrow> gone w r"
  shows "token_inv (note_log l w)"
proof -
  let ?w = "note_log l w"
  note D = token_invD [OF assms(1)]
  have gone: "gone w r" if "gone ?w r" for r using assms(3) that by (simp add: gone_def note_log_def)
  have keep: "issued ?w r" if "issued w r" for r using that by (simp add: issued_def note_log_def)
  have same: "row_token ?w = row_token w" "inside ?w = inside w" "replacing ?w = replacing w" "tw_phase ?w = tw_phase w"
    "tw_gate ?w = tw_gate w" "tw_row ?w = tw_row w" "tw_managers ?w = tw_managers w"
    by (auto simp: note_log_def row_token_def inside_def replacing_def)
  have use: "usable ?w r" if "usable w r" for r using that gone keep by (auto simp: usable_def)
  show ?thesis
    by (rule token_invI; (unfold same)?)
      (use no_replay_more [OF D(1) assms(2)] gone keep use D(2-8) remembered [OF assms(1)] in
        \<open>blast | simp add: note_log_def\<close>)+
qed

lemma load_refresh: "tm_refresh (loadFromStore row m) = (case row of None \<Rightarrow> tm_refresh m | Some rec \<Rightarrow> sc_refresh rec)"
  "tm_revoked (loadFromStore row m) = tm_revoked m"
  by (simp_all add: loadFromStore_def split: option.split)

lemma settled_refresh: "tm_refresh (settle_refresh m) = tm_refresh m" "tm_revoked (settle_refresh m) = tm_revoked m"
  by (simp_all add: settle_refresh_def)

lemma put_other [simp]:
  "tw_row (put_manager i m w) = tw_row w" "tw_log (put_manager i m w) = tw_log w" "tw_phase (put_manager i m w) = tw_phase w"
  "tw_gate (put_manager i m w) = tw_gate w" "tw_managers (put_manager i m w) = (tw_managers w)(i := Some m)"
  "tw_row (put_phase i p w) = tw_row w" "tw_log (put_phase i p w) = tw_log w" "tw_phase (put_phase i p w) = (tw_phase w)(i := p)"
  "tw_gate (put_phase i p w) = tw_gate w" "tw_managers (put_phase i p w) = tw_managers w"
  "tw_row (note_log l w) = tw_row w" "tw_log (note_log l w) = tw_log w @ l" "tw_phase (note_log l w) = tw_phase w"
  "tw_gate (note_log l w) = tw_gate w" "tw_managers (note_log l w) = tw_managers w"
  by (simp_all add: put_manager_def put_phase_def note_log_def)

lemma first_load_inv: "token_inv w \<Longrightarrow> first_load i w = Some w' \<Longrightarrow> token_inv w'"
proof -
  assume w: "token_inv w" "first_load i w = Some w'"
  then obtain m where m: "tw_managers w i = Some m" "w' = put_manager i ((loadFromStore (tw_row w) m)\<lparr>tm_loaded := True\<rparr>) w"
    by (auto simp: first_load_def bind_eq_Some_conv split: if_splits)
  note remembered [OF w(1) m(1)]
  from this show ?thesis unfolding m(2) by (intro inv_put_manager [OF w(1)]) (auto simp: load_refresh split: option.splits)
qed

lemma ask_token_inv: "token_inv w \<Longrightarrow> ask_token env i now w = Some w' \<Longrightarrow> token_inv w'"
proof -
  assume w: "token_inv w" "ask_token env i now w = Some w'"
  then obtain m where m: "tw_managers w i = Some m" by (auto simp: ask_token_def bind_eq_Some_conv)
  have "ask_token env i now w \<in> {None, Some (put_manager i (forget_tokens m) w), Some w} \<or>
      tw_phase w i = Refresh_idle \<and>
      ask_token env i now w = Some (put_phase i Refresh_waiting (w\<lparr>tw_gate := tw_gate w @ [Manager i]\<rparr>))"
    using m by (simp add: ask_token_def)
  with w(2) consider "w' = put_manager i (forget_tokens m) w" | "w' = w"
    | "tw_phase w i = Refresh_idle" "w' = put_phase i Refresh_waiting (w\<lparr>tw_gate := tw_gate w @ [Manager i]\<rparr>)"
    by (metis insertE option.distinct(1) option.inject singletonD)
  then show ?thesis
  proof cases
    case 1
    then show ?thesis using inv_put_manager [OF w(1)] by (simp add: forget_tokens_def)
  next
    case 3
    note w' = 3(2)
    show ?thesis
    proof (rule inv_same [OF w(1)])
      show "take 1 (tw_gate w') = [Manager j]" if "take 1 (tw_gate w) = [Manager j]" for j
        using gate_append [OF that] unfolding w' by simp
    qed (use 3(1) in \<open>auto simp: w' inside_def\<close>)
  qed (use w in simp)
qed

lemma enter_gate_inv: "token_inv w \<Longrightarrow> enter_gate env i now w = Some w' \<Longrightarrow> token_inv w'"
proof -
  assume w: "token_inv w" "enter_gate env i now w = Some w'"
  then obtain m where m: "tw_managers w i = Some m" "tw_phase w i = Refresh_waiting" "take 1 (tw_gate w) = [Manager i]"
    by (auto simp: enter_gate_def bind_eq_Some_conv split: if_splits)
  note q = quiet_row [OF w(1) m(2,3)]
  note mem = remembered [OF w(1) m(1)]
  let ?m = "loadFromStore (tw_row w) m"
  have leave: "token_inv (leave_gate i x w)" if "tw_row w = None \<Longrightarrow> \<not> tm_revoked x \<Longrightarrow> tm_refresh x = None" for x
    using inv_leave [OF w(1), of i w x] m q that by auto
  consider "w' = leave_gate i (forget_tokens m) w" | "w' = leave_gate i (settle_refresh ?m) w" | "w' = leave_gate i ?m w"
    | r where "\<not> tm_revoked m" "tm_refresh ?m = Some r"
        "w' = note_log [Presented r] (put_manager i ?m (put_phase i (Refresh_calling r (tm_access ?m)) w))"
    using w(2) m by (auto simp: enter_gate_def Let_def split: if_splits option.splits)
  then show ?thesis
  proof cases
    case 1
    then show ?thesis using leave by (simp add: forget_tokens_def)
  next
    case 2
    then show ?thesis using leave [of "settle_refresh ?m"] mem by (auto simp: settled_refresh load_refresh)
  next
    case 3
    then show ?thesis using leave [of ?m] mem by (auto simp: load_refresh)
  next
    case 4
    then have row: "tw_row w \<noteq> None" "row_token w = Some r" using mem by (auto simp: load_refresh row_token_def split: option.splits)
    then have r: "usable w r" using q(2) by simp
    have "inside w' j \<longleftrightarrow> j = i" for j using q(1) [of j] 4(3) by (auto simp: inside_def)
    moreover have "\<not> tw_phase w j = Refresh_writing x c" "\<not> tw_phase w j = Refresh_calling r' a" for j x c r' a
      using q(1) [of j] by (auto simp: inside_def)
    moreover have "row_token w' = row_token w" using 4(3) by (simp add: row_token_def)
    ultimately show ?thesis using w(1) r row m(3) 4(3)
      by (auto simp: token_inv_def issued_def gone_def usable_def no_replay_snoc replacing_def)
  qed
qed

lemma create_inv: "token_inv w \<Longrightarrow> token_inv (put_manager i new_manager w)"
  by (rule inv_put_manager) (simp_all add: new_manager_def)

lemma invalidate_inv: "token_inv w \<Longrightarrow> tw_managers w i = Some m \<Longrightarrow> token_inv (put_manager i (invalidate m) w)"
  using remembered [of w i m] by (intro inv_put_manager) (auto simp: invalidate_def)

lemma disconnect_inv: "token_inv w \<Longrightarrow> token_inv (w\<lparr>tw_gate := tw_gate w @ [Logout]\<rparr>)"
proof -
  assume w: "token_inv w"
  show ?thesis
  proof (rule inv_same [OF w])
    show "take 1 (tw_gate (w\<lparr>tw_gate := tw_gate w @ [Logout]\<rparr>)) = [Manager j]" if "take 1 (tw_gate w) = [Manager j]" for j
      using gate_append [OF that] by simp
  qed (simp_all add: inside_def)
qed

lemma login_inv:
  assumes "token_inv w" "Issued (cr_refresh creds) \<notin> set (tw_log w)"
  shows "token_inv (note_log [Issued (cr_refresh creds)] (w\<lparr>tw_row := Some (login_row creds)\<rparr>))"
proof -
  let ?w = "note_log [Issued (cr_refresh creds)] (w\<lparr>tw_row := Some (login_row creds)\<rparr>)"
  let ?v = "note_log [Issued (cr_refresh creds)] w"
  have v: "token_inv ?v" by (rule inv_log [OF assms(1)]) (simp_all add: gone_def)
  note D = token_invD [OF v]
  have same: "gone ?w = gone ?v" "issued ?w = issued ?v" "inside ?w = inside ?v" "usable ?w = usable ?v"
    and row: "row_token ?w = Some (cr_refresh creds)"
    by (auto simp: gone_def issued_def usable_def inside_def row_token_def login_row_def)
  have fresh: "\<not> gone ?v (cr_refresh creds)" "issued ?v (cr_refresh creds)"
    using token_invD(2) [OF assms(1)] assms(2) by (auto simp: issued_def gone_def)
  show ?thesis
  proof (rule token_invI)
    show "no_replay (tw_log ?w)" using D(1) by simp
    show "issued ?w r" if "gone ?w r" for r using that D(2) unfolding same by blast
    show "issued ?w r" if "row_token ?w = Some r" for r using that fresh(2) unfolding row same by simp
    show "replacing ?w r" if "row_token ?w = Some r" "gone ?w r" for r using that fresh(1) unfolding row same by simp
    show "take 1 (tw_gate ?w) = [Manager j]" if "inside ?w j" for j using that D(5) unfolding same by simp
    show "usable ?w (cr_refresh c)" if "tw_phase ?w j = Refresh_writing x c" for j x c using that D(7) [of j x c] unfolding same by simp
    show "usable ?w r" if "tw_phase ?w j = Refresh_calling r a" for j r a using that D(8) [of j r a] unfolding same by simp
  qed simp_all
qed

lemma grant_inv: "token_inv w \<Longrightarrow> endpoint_grants env i creds w = Some w' \<Longrightarrow> token_inv w'"
proof -
  assume w: "token_inv w" "endpoint_grants env i creds w = Some w'"
  then obtain m r a where m: "tw_managers w i = Some m" "tw_phase w i = Refresh_calling r a"
    by (cases "tw_managers w i"; cases "tw_phase w i") (simp_all add: endpoint_grants_def)
  from w(2) have new: "issues_properly r (cr_refresh creds) (tw_log w)"
    unfolding endpoint_grants_def m by (rule contrapos_pp) (simp add: m)
  have "endpoint_grants env i creds w = Some (note_log (if cr_refresh creds = r then [] else [Rotated r, Issued (cr_refresh creds)])
        (put_manager i (adopt_credentials env creds m) (put_phase i (Refresh_writing r creds) w)))"
    by (simp add: endpoint_grants_def m new)
  then have w': "w' = note_log (if cr_refresh creds = r then [] else [Rotated r, Issued (cr_refresh creds)])
        (put_manager i (adopt_credentials env creds m) (put_phase i (Refresh_writing r creds) w))"
    by (rule option.inject [THEN iffD1, OF trans [OF w(2) [symmetric]]])
  note D = token_invD [OF w(1)]
  let ?n = "cr_refresh creds"
  have i: "inside w i" using m(2) by (simp add: inside_def)
  have r: "usable w r" using D(8) m(2) by blast
  have rot: "gone w' x \<longleftrightarrow> gone w x \<or> x = r \<and> ?n \<noteq> r" for x unfolding w' by (auto simp: gone_def)
  have iss: "issued w' x \<longleftrightarrow> issued w x \<or> x = ?n \<and> ?n \<noteq> r" for x unfolding w' by (auto simp: issued_def)
  have n: "usable w' ?n"
    using r new D(2) [of ?n] unfolding usable_def rot iss by (auto simp: issues_properly_def issued_def)
  have others: "j = i" if "inside w j" for j using one_inside [OF w(1) that i] .
  have ph: "tw_phase w' = (tw_phase w)(i := Refresh_writing r creds)" unfolding w' by simp
  have ins: "inside w' j \<longleftrightarrow> j = i" for j
    using others [of j] by (cases "j = i") (auto simp: inside_def ph)
  have wr: "replacing w' r" unfolding replacing_def ph by (metis fun_upd_same)
  have row: "tw_row w' = tw_row w" "row_token w' = row_token w" unfolding w' by (simp_all add: row_token_def)
  show ?thesis
  proof (rule token_invI)
    show "no_replay (tw_log w')" using no_replay_more [OF D(1)] unfolding w' by simp
    show "issued w' x" if "gone w' x" for x using that D(2) r unfolding rot iss usable_def by blast
    show "issued w' x" if "row_token w' = Some x" for x using that D(3) unfolding row iss by blast
    show "take 1 (tw_gate w') = [Manager j]" if "inside w' j" for j
      using that D(5) [OF i] unfolding ins by (simp add: w')
    show "tw_row w' \<noteq> None" if "inside w' j" for j using D(6) [OF i] unfolding row .
    show "usable w' (cr_refresh c)" if "tw_phase w' j = Refresh_writing x c" for j x c
      using that n others [of j] unfolding ph by (cases "j = i") (auto simp: inside_def)
    show "usable w' x" if "tw_phase w' j = Refresh_calling x b" for j x b
      using that others [of j] unfolding ph by (cases "j = i") (auto simp: inside_def)
    show "tw_row w' \<noteq> None \<or> tm_revoked k \<or> tm_refresh k = None" for k using D(6) [OF i] unfolding row by blast
    show "replacing w' x" if "row_token w' = Some x" "gone w' x" for x
    proof (cases "x = r")
      case False
      with that have "replacing w x" using D(4) unfolding row rot by blast
      then obtain j c where "tw_phase w j = Refresh_writing x c" by (auto simp: replacing_def)
      with others [of j] m(2) show ?thesis by (cases "j = i") (auto simp: inside_def)
    qed (use wr in simp)
  qed
qed

lemma note_commutes: "note_log l (leave_gate i m w) = leave_gate i m (note_log l w)" "note_log l (put_phase i ph w) = put_phase i ph (note_log l w)"
  by (simp_all add: note_log_def leave_gate_def put_manager_def put_phase_def)

lemma note_same [simp]: "inside (note_log l w) = inside w" "row_token (note_log l w) = row_token w"
  by (auto simp: inside_def row_token_def)

lemma alone_quiet: "token_inv w \<Longrightarrow> inside w i \<Longrightarrow> \<forall>x c. tw_phase w i \<noteq> Refresh_writing x c \<Longrightarrow> tw_phase w j \<noteq> Refresh_writing x c"
  using one_inside [of w i j] by (cases "j = i") (auto simp: inside_def)

lemma lost_log: "rotation_lost failure r issued' l = Some l' \<Longrightarrow> (\<forall>x. Presented x \<notin> set l') \<and> (spent (l @ l') x \<longrightarrow> spent l x)"
  by (auto simp: rotation_lost_def split: option.splits if_splits)

lemma fails_inv: "token_inv w \<Longrightarrow> endpoint_fails i failure issued' w = Some w' \<Longrightarrow> token_inv w'"
proof -
  assume w: "token_inv w" "endpoint_fails i failure issued' w = Some w'"
  then obtain m r a where m: "tw_managers w i = Some m" "tw_phase w i = Refresh_calling r a"
    by (cases "tw_managers w i"; cases "tw_phase w i") (simp_all add: endpoint_fails_def)
  then obtain l where l: "rotation_lost failure r issued' (tw_log w) = Some l"
    using w(2) by (auto simp: endpoint_fails_def)
  let ?w = "note_log l w"
  have v: "token_inv ?w" using lost_log [OF l] by (intro inv_log [OF w(1)]) (auto simp: gone_def)
  have w': "w' = (if isRetryableRefreshError failure then put_phase i (Refresh_backoff r a) ?w else leave_gate i m ?w)"
    using w(2) l m by (simp add: endpoint_fails_def note_commutes if_distrib [of "note_log l"] split: if_splits)
  have i: "inside ?w i" "inside w i" using m(2) by (simp_all add: inside_def)
  have quiet: "tw_phase ?w j \<noteq> Refresh_writing x c" for j x c by (rule alone_quiet [OF v i(1)]) (simp add: m(2))
  have left: "token_inv (leave_gate i m ?w)"
    by (rule inv_leave [OF v]) (use i row_usable [OF v] quiet remembered [OF w(1) m(1)] in auto)
  have "token_inv (put_phase i (Refresh_backoff r a) ?w)"
    by (rule inv_same [OF v]) (use m(2) i in \<open>auto simp: inside_def\<close>)
  with left show ?thesis unfolding w' by simp
qed

lemma write_inv: "token_inv w \<Longrightarrow> write_row env i now ok w = Some w' \<Longrightarrow> token_inv w'"
proof -
  assume w: "token_inv w" "write_row env i now ok w = Some w'"
  then obtain m r creds where m: "tw_managers w i = Some m" "tw_phase w i = Refresh_writing r creds"
    by (cases "tw_managers w i"; cases "tw_phase w i") (simp_all add: write_row_def)
  have i: "inside w i" using m(2) by (simp add: inside_def)
  have use: "usable w (cr_refresh creds)" using token_invD(7) [OF w(1)] m(2) by blast
  show ?thesis
  proof (cases ok)
    case True
    then have w': "w' = leave_gate i (if lease_too_short env now m then m else settle_refresh m) (w\<lparr>tw_row := Some (stored_row env creds)\<rparr>)"
      using w(2) by (simp add: write_row_def m)
    show ?thesis unfolding w' using i use by (intro inv_leave [OF w(1)]) (auto simp: row_token_def stored_row_def)
  next
    case False
    let ?l = "if cr_refresh creds = r then [] else [Lost r]"
    have w': "w' = leave_gate i m (note_log ?l w)" using w(2) False by (simp add: write_row_def m note_commutes)
    have v: "token_inv (note_log ?l w)" by (rule inv_log [OF w(1)]) (auto simp: gone_def split: if_splits)
    have "usable (note_log ?l w) x" if row: "row_token w = Some x" for x
    proof -
      have "\<not> gone (note_log ?l w) x"
      proof
        assume g: "gone (note_log ?l w) x"
        then have "gone w x" by (auto simp: gone_def split: if_splits)
        then obtain j c where "tw_phase w j = Refresh_writing x c"
          using token_invD(4) [OF w(1) row] by (auto simp: replacing_def)
        moreover from this have "j = i" using one_inside [OF w(1) _ i] by (simp add: inside_def)
        ultimately have "x = r" using m(2) by simp
        then show False using g \<open>gone w x\<close> use by (auto simp: gone_def usable_def split: if_splits)
      qed
      then show ?thesis using token_invD(3) [OF v] row by (simp add: usable_def)
    qed
    then show ?thesis unfolding w'
      by (intro inv_leave [OF v]) (use i token_invD(6) [OF w(1) i] remembered [OF w(1) m(1)] in auto)
  qed
qed

lemma reread_inv: "token_inv w \<Longrightarrow> reread_row env i now w = Some w' \<Longrightarrow> token_inv w'"
proof -
  assume w: "token_inv w" "reread_row env i now w = Some w'"
  then obtain m r a y where m: "tw_managers w i = Some m" "tw_phase w i = Refresh_backoff r a"
    and w': "w' = leave_gate i y w" and y: "y = loadFromStore (tw_row w) m \<or> y = settle_refresh (loadFromStore (tw_row w) m)"
    by (cases "tw_managers w i"; cases "tw_phase w i") (auto simp: reread_row_def Let_def)
  have i: "inside w i" using m(2) by (simp add: inside_def)
  have quiet: "tw_phase w j \<noteq> Refresh_writing x c" for j x c by (rule alone_quiet [OF w(1) i]) (simp add: m(2))
  have row: "tw_row w \<noteq> None" using token_invD(6) [OF w(1) i] .
  show ?thesis unfolding w'
    by (rule inv_leave [OF w(1)]) (use i row row_usable [OF w(1)] quiet in auto)
qed

lemma delete_inv: "token_inv w \<Longrightarrow> delete_row ok w = Some w' \<Longrightarrow> token_inv w'"
proof -
  assume w: "token_inv w" "delete_row ok w = Some w'"
  then have head: "take 1 (tw_gate w) = [Logout]" by (auto simp: delete_row_def split: if_splits)
  have none: "\<not> inside w j" for j using token_invD(5) [OF w(1), of j] head by auto
  have D: "no_replay (tw_log w)" "\<And>r. gone w r \<Longrightarrow> issued w r" "\<And>r. row_token w = Some r \<Longrightarrow> usable w r"
    using token_invD [OF w(1)] row_usable [OF w(1)] none unfolding inside_def by (blast, blast, metis refresh_phase.distinct(7,14))
  have w': "w' = w\<lparr>tw_gate := tl (tw_gate w)\<rparr> \<or>
      w' = w\<lparr>tw_row := None, tw_gate := tl (tw_gate w), tw_managers := (\<lambda>i. map_option (\<lambda>m. m\<lparr>tm_revoked := True\<rparr>) (tw_managers w i))\<rparr>"
    using w(2) head by (auto simp: delete_row_def split: if_splits)
  then have "tw_phase w' = tw_phase w" "tw_log w' = tw_log w" "tw_row w' = tw_row w \<or> tw_row w' = None" by auto
  then have same: "gone w' = gone w" "issued w' = issued w" "inside w' = inside w" "\<And>r. row_token w' = Some r \<Longrightarrow> row_token w = Some r"
    by (auto simp: gone_def issued_def inside_def row_token_def)
  show ?thesis
  proof (rule token_invI)
    show "tw_row w' \<noteq> None \<or> tm_revoked m \<or> tm_refresh m = None" if "tw_managers w' j = Some m" for j m
      using w' that remembered [OF w(1), of j m] by auto
    show "usable w' (cr_refresh c)" if "tw_phase w' j = Refresh_writing x c" for j x c
      using none [of j] that unfolding same(3) [symmetric] by (simp add: inside_def)
    show "usable w' r" if "tw_phase w' j = Refresh_calling r a" for j r a
      using none [of j] that unfolding same(3) [symmetric] by (simp add: inside_def)
    show "replacing w' r" if "row_token w' = Some r" "gone w' r" for r
      using D(3) [OF same(4) [OF that(1)]] that(2) unfolding same usable_def by blast
    show "issued w' r" if "row_token w' = Some r" for r
      using D(3) [OF same(4) [OF that]] unfolding same usable_def by blast
  qed (use D none \<open>tw_log w' = tw_log w\<close> same in auto)
qed

lemma next_inv:
  assumes "token_inv w" "token_next env e w = Some w'"
  shows "token_inv w'"
proof (cases e)
  case (Create_manager i)
  then show ?thesis using assms create_inv by (auto split: if_splits)
next
  case (Login creds)
  then show ?thesis using assms login_inv by (auto split: if_splits)
next
  case (Invalidate_token i)
  then show ?thesis using assms invalidate_inv by auto
next
  case (First_load i)
  from assms(2) show ?thesis unfolding First_load token_next.simps by (rule first_load_inv [OF assms(1)])
next
  case (Ask_token i now)
  from assms(2) show ?thesis unfolding Ask_token token_next.simps by (rule ask_token_inv [OF assms(1)])
next
  case (Enter_gate i now)
  from assms(2) show ?thesis unfolding Enter_gate token_next.simps by (rule enter_gate_inv [OF assms(1)])
next
  case (Endpoint_grants i creds)
  from assms(2) show ?thesis unfolding Endpoint_grants token_next.simps by (rule grant_inv [OF assms(1)])
next
  case (Endpoint_fails i failure issued')
  from assms(2) show ?thesis unfolding Endpoint_fails token_next.simps by (rule fails_inv [OF assms(1)])
next
  case (Reread_row i now)
  from assms(2) show ?thesis unfolding Reread_row token_next.simps by (rule reread_inv [OF assms(1)])
next
  case (Delete_row ok)
  from assms(2) show ?thesis unfolding Delete_row token_next.simps by (rule delete_inv [OF assms(1)])
next
  case (Write_row i now ok)
  from assms(2) show ?thesis unfolding Write_row token_next.simps by (rule write_inv [OF assms(1)])
next
  case Disconnect
  with assms(2) show ?thesis using disconnect_inv [OF assms(1)] by simp
qed

interpretation gate_run: guarded_steps "\<lambda>x e. Option.bind x (token_next env e)" "pred_option token_inv" "\<lambda>e. True" for env
  by unfold_locales (auto simp: option.pred_set bind_eq_Some_conv intro: next_inv)

lemma token_run_fold: "foldl (\<lambda>x e. Option.bind x (token_next env e)) x es = Option.bind x (token_run env es)"
  by (induction es arbitrary: x) (auto split: Option.bind_split)

lemma token_run_inv: "token_inv w \<Longrightarrow> token_run env es w = Some w' \<Longrightarrow> token_inv w'"
  using gate_run.run_keeps [of "Some w" es env] by (simp add: token_run_fold list_all_iff)

lemma empty_inv: "token_inv empty_world"
  by (auto simp: token_inv_def empty_world_def gone_def issued_def inside_def row_token_def)

subsection \<open>Promises\<close>

definition plain_env :: token_env where
  "plain_env = \<lparr>tv_skew = 60000, tv_enforceLease = False, tv_getApiKey = cr_access\<rparr>"

definition demo_grant :: "string \<Rightarrow> string \<Rightarrow> rat \<Rightarrow> oauth_credentials" where
  "demo_grant a r t = \<lparr>cr_access = a, cr_refresh = r, cr_expires = t, cr_extra = []\<rparr>"

definition one_account :: "token_event list" where
  "one_account =
     [Login (demo_grant ''a0'' ''r0'' 0), Create_manager 0, Create_manager 1, First_load 0, First_load 1, Ask_token 0 1, Ask_token 1 1,
      Enter_gate 0 1, Endpoint_grants 0 (demo_grant ''a1'' ''r1'' 1000000)]"

lemmas token_steps = first_load_def ask_token_def enter_gate_def endpoint_grants_def endpoint_fails_def write_row_def
  reread_row_def delete_row_def put_manager_def put_phase_def note_log_def leave_gate_def new_manager_def isExpired_def
  reloadStillRejected_def loadFromStore_def invalidate_def settle_refresh_def adopt_credentials_def stored_row_def login_row_def
  lease_too_short_def issues_properly_def empty_world_def plain_env_def demo_grant_def one_account_def nullish_def Let_def

text \<open>
  C12. However the managers of one stored credential interleave -- lazy loads, refreshes, invalidations, logins, logouts,
  failing endpoints and failing writes -- every refresh token presented to the endpoint is one that the endpoint issued and has
  not rotated away, except when the replacement was lost: the write of the rotated credential failed, or the provider threw
  after the endpoint had rotated. (Both exceptions occur, see the end of this theory.)
\<close>

theorem rotated_token_not_replayed:
  assumes "token_run env es empty_world = Some w" "tw_log w = before @ Presented r # after"
  shows "\<not> spent before r"
  using token_invD(1) [OF token_run_inv [OF empty_inv assms(1)]] assms(2) by (auto simp: no_replay_def)

theorem rotated_token_not_replayed_witness:
  "tw_log (the (token_run plain_env (one_account @ [Write_row 0 1 True, Enter_gate 1 1, Ask_token 1 2000000, Enter_gate 1 2000000])
     empty_world)) = [Issued ''r0'', Presented ''r0'', Rotated ''r0'', Issued ''r1'', Presented ''r1''] \<and>
   \<not> spent [Issued ''r0'', Presented ''r0'', Rotated ''r0'', Issued ''r1''] ''r1'' \<and>
   spent [Issued ''r0'', Presented ''r0'', Rotated ''r0'', Issued ''r1''] ''r0''"
proof -
  let ?es = "one_account @ [Write_row 0 1 True, Enter_gate 1 1, Ask_token 1 2000000, Enter_gate 1 2000000]"
  obtain w where w: "token_run plain_env ?es empty_world = Some w"
    and l: "tw_log w = [Issued ''r0'', Presented ''r0'', Rotated ''r0'', Issued ''r1'', Presented ''r1'']"
    by (simp add: token_steps)
  have "\<not> spent [Issued ''r0'', Presented ''r0'', Rotated ''r0'', Issued ''r1''] ''r1''"
    by (rule rotated_token_not_replayed [OF w]) (simp add: l)
  moreover have "spent [Issued ''r0'', Presented ''r0'', Rotated ''r0'', Issued ''r1''] ''r0''" by (simp add: spent_def)
  ultimately show ?thesis using w l by simp
qed

text \<open>
  C13. The gate is exclusive and the store is never behind for another reason: in every run at most one manager is inside the
  refresh of a credential, it is the one at the head of the queue, and the stored refresh token is one the provider issued and
  has not rotated away, unless a manager is about to write its replacement or that replacement was lost.
\<close>

theorem gate_keeps_stored_token_live:
  assumes "token_run env es empty_world = Some w"
  shows "(\<forall>i j. inside w i \<longrightarrow> inside w j \<longrightarrow> i = j) \<and> (\<forall>i. inside w i \<longrightarrow> take 1 (tw_gate w) = [Manager i]) \<and>
    (\<forall>rec r. tw_row w = Some rec \<longrightarrow> sc_refresh rec = Some r \<longrightarrow>
       Issued r \<in> set (tw_log w) \<and>
       (spent (tw_log w) r \<longrightarrow> (\<exists>i creds. tw_phase w i = Refresh_writing r creds \<and> cr_refresh creds \<noteq> r)))"
proof (intro conjI allI impI)
  have inv: "token_inv w" using token_run_inv [OF empty_inv assms] .
  show "i = j" if "inside w i" "inside w j" for i j using one_inside [OF inv that] .
  show "take 1 (tw_gate w) = [Manager i]" if "inside w i" for i using token_invD(5) [OF inv that] .
  fix rec r assume "tw_row w = Some rec" "sc_refresh rec = Some r"
  then have row: "row_token w = Some r" by (simp add: row_token_def)
  show "Issued r \<in> set (tw_log w)" using token_invD(3) [OF inv row] by (simp add: issued_def)
  assume "spent (tw_log w) r"
  then have g: "gone w r" by (simp add: gone_def)
  with token_invD(4) [OF inv row] obtain i creds where i: "tw_phase w i = Refresh_writing r creds" by (auto simp: replacing_def)
  with token_invD(7) [OF inv i] g show "\<exists>i creds. tw_phase w i = Refresh_writing r creds \<and> cr_refresh creds \<noteq> r"
    by (auto simp: usable_def)
qed

theorem gate_keeps_stored_token_live_witness:
  "map_option sc_refresh (tw_row (the (token_run plain_env (one_account @ [Write_row 0 1 True]) empty_world))) = Some (Some ''r1'') \<and>
   \<not> spent (tw_log (the (token_run plain_env (one_account @ [Write_row 0 1 True]) empty_world))) ''r1''"
proof -
  obtain w where w: "token_run plain_env (one_account @ [Write_row 0 1 True]) empty_world = Some w"
    and p: "tw_phase w = (\<lambda>_. Refresh_idle)(1 := Refresh_waiting)"
    and r: "tw_row w = Some (stored_row plain_env (demo_grant ''a1'' ''r1'' 1000000))"
    by (simp add: token_steps fun_upd_def fun_eq_iff)
  have "tw_phase w i \<noteq> Refresh_writing ''r1'' creds" for i creds using p by simp
  then have "\<not> spent (tw_log w) ''r1''"
    using gate_keeps_stored_token_live [OF w] r by (simp add: stored_row_def demo_grant_def)
  with w r show ?thesis by (simp add: stored_row_def demo_grant_def)
qed

text \<open>
  C14. A token that one 401 rejected is not taken back from the store: when the refresh that \<open>invalidate\<close> forces settles
  without calling the endpoint, the access token it adopted is another one.
\<close>

theorem rejected_token_not_adopted:
  assumes "tm_access m = Some a" "enter_gate env i now (put_manager i (invalidate m) w) = Some w'"
    and "tw_managers w' i = Some m'" "\<not> tm_forced m'"
  shows "tm_access m' \<noteq> Some a"
proof -
  let ?m = "loadFromStore (tw_row w) (invalidate m)"
  have f: "tm_forced ?m" "tm_invalidated ?m = Some a" "tm_forced (forget_tokens (invalidate m))"
    using assms(1) by (simp_all add: loadFromStore_def invalidate_def forget_tokens_def split: option.split)
  have l: "tw_managers (leave_gate i x v) i = Some x" for x v by (simp add: leave_gate_def)
  show ?thesis
  proof (cases "\<not> isExpired env now ?m \<and> \<not> (tm_forced ?m \<and> reloadStillRejected ?m)")
    case True
    then have "tm_access (settle_refresh ?m) \<noteq> Some a" using f by (auto simp: reloadStillRejected_def settle_refresh_def)
    then show ?thesis using assms(2-4) f True l by (auto simp: enter_gate_def Let_def split: if_splits)
  next
    case False
    then show ?thesis using assms(2-4) f l by (auto simp: enter_gate_def Let_def split: if_splits option.splits)
  qed
qed

definition sibling_rotated :: token_world where
  "sibling_rotated =
     empty_world\<lparr>tw_row := Some (stored_row plain_env (demo_grant ''a1'' ''r1'' 1000000)),
       tw_phase := (\<lambda>_. Refresh_idle)(0 := Refresh_waiting), tw_gate := [Manager 0]\<rparr>"

theorem rejected_token_not_adopted_witness:
  "tm_access (the (tw_managers (the (enter_gate plain_env 0 1
     (put_manager 0 (invalidate (adopt_credentials plain_env (demo_grant ''a0'' ''r0'' 1000000) new_manager)) sibling_rotated))) 0)) =
   Some ''a1'' \<and> Some ''a1'' \<noteq> Some ''a0''"
proof -
  let ?m = "adopt_credentials plain_env (demo_grant ''a0'' ''r0'' 1000000) new_manager"
  have a: "tm_access ?m = Some ''a0''" by (simp add: token_steps)
  obtain w m where w: "enter_gate plain_env 0 1 (put_manager 0 (invalidate ?m) sibling_rotated) = Some w"
    and m: "tw_managers w 0 = Some m" "tm_access m = Some ''a1''" "\<not> tm_forced m"
    by (simp add: token_steps sibling_rotated_def)
  show ?thesis using rejected_token_not_adopted [OF a w m(1,3)] w m by simp
qed

text \<open>
  A confidential grant either fails for good and leaves the manager as it was, or stores a non-empty access token that has
  not yet expired, keeps a refresh token when it had one, and then fails, retryably, only when the request's lease outlives the
  token. No failure of it condemns the credential.
\<close>

lemma confidential_refresh_result:
  "(case doRefresh env showInt now answer m of
      (None, m') \<Rightarrow> (\<exists>c cs. tm_access m' = Some (c # cs)) \<and> now < tm_expiresAt m' \<and> (tm_refresh m = None \<or> tm_refresh m' \<noteq> None) \<and>
        (tv_enforceLease env \<longrightarrow> \<not> isExpired env now m')
    | (Some Property_of_null, m') \<Rightarrow> m' = m
    | (Some (Token_failure e), m') \<Rightarrow>
        \<not> tr_permanent e \<and> (m' = m \<and> \<not> tr_retryable e \<or> e = short_lease_error \<and> tm_expiresAt m' \<le> now + tv_skew env))"
proof -
  have pos: "0 < expires_in_seconds v" for v
    by (auto simp: expires_in_seconds_def DEFAULT_EXPIRES_IN_S_def split: option.split json.split)
  show ?thesis
    using pos by (auto simp: doRefresh_def TokenRefreshError_def lease_too_short_def isExpired_def short_lease_error_def Let_def
        split: endpoint_answer.splits option.splits list.splits json.splits)
qed

lemma confidential_header_live:
  "fst (confidential_header env showInt now answer m) = Inr h \<Longrightarrow> tv_enforceLease env \<Longrightarrow>
   \<not> isExpired env now (snd (confidential_header env showInt now answer m))"
  using confidential_refresh_result [where env = env and now = now and m = m and showInt = showInt and answer = answer]
  by (auto simp: confidential_header_def split: prod.splits option.splits if_splits)

text \<open>
  The ways out of these promises. A write that fails, and an answer that names another identity, lose the replacement: the
  consumed token is still in the store and is presented again, by the next manager or the next refresh.
\<close>

lemma failed_write_replays_rotated_token:
  "tw_log (the (token_run plain_env (one_account @ [Write_row 0 1 False, Ask_token 0 2000000, Enter_gate 1 2000000]) empty_world)) =
     [Issued ''r0'', Presented ''r0'', Rotated ''r0'', Issued ''r1'', Lost ''r0'', Presented ''r0'']"
  by (simp add: token_steps)

lemma identity_change_replays_rotated_token:
  "tw_log (the (token_run plain_env
     (butlast one_account @ [Endpoint_fails 0 Identity_mismatch (Some ''r1''), Enter_gate 1 1]) empty_world)) =
     [Issued ''r0'', Presented ''r0'', Rotated ''r0'', Issued ''r1'', Lost ''r0'', Presented ''r0'']"
  by (simp add: token_steps rotation_lost_def failure_status_def isRetryableRefreshError_def)

lemma second_invalidate_readopts_rejected_token:
  "map_option (\<lambda>w. map_option (\<lambda>m. (tm_access m, tm_forced m)) (tw_managers w 0))
     (token_run plain_env
       [Login (demo_grant ''a0'' ''r0'' 1000000), Create_manager 0, First_load 0, Invalidate_token 0, Invalidate_token 0,
        Ask_token 0 1, Enter_gate 0 1] empty_world) = Some (Some (Some ''a0'', False))"
  by (simp add: token_steps)

lemma refresh_overwrites_new_login:
  "map_option (\<lambda>w. map_option sc_refresh (tw_row w))
     (token_run plain_env (one_account @ [Login (demo_grant ''b'' ''login'' 9000000), Write_row 0 1 True]) empty_world) =
   Some (Some (Some ''r1''))"
  by (simp add: token_steps)

end
