(* ===== verification/Spec2Isabelle.thy ===== *)
theory Spec2Isabelle
  imports Circuit_Breaker Rate_Limiter Budget Keyed_Semaphore Serial_Gate Route_Request Capability Body_Admission Maintenance_Gate Gateway_Run
    Write_Queue Cost Catalog Client_Policy Oauth_Retry_Facts Anthropic_Inbound Api_Key_Facts
    Token_Manager_Facts
begin

section \<open>Verification of the Helm LLM gateway\<close>

text \<open>
  Helm is an LLM gateway: clients speak the OpenAI, Anthropic, Responses or Gemini dialect to it; it authenticates and
  limits them, plans which models may serve a request, tries those in order over the upstream providers and the
  operator's subscription accounts, translates the answer back and records what happened. This development models the
  decision logic of the TypeScript sources under \<open>src/packages/core/src\<close> and \<open>src/apps/gateway/src\<close>. A definition has
  the name of the function, method or type it translates wherever HOL allows it; the opening text of each theory names
  its source files.

  \<^bold>\<open>How a request travels, and which theory models which step.\<close>

  \<^enum> Arrival. \<open>Body_Admission\<close> (\<open>runtime/memory-admission.ts\<close>) charges the request body against a ledger while it is
    read, \<open>Response_Work\<close> (\<open>runtime/response-work-admission.ts\<close>) the upstream answers; both may draw on the shared
    \<open>Memory_Coordinator\<close> (\<open>runtime/memory-coordinator.ts\<close>, \<open>memory-budget.ts\<close>). \<open>Maintenance_Gate\<close>
    (\<open>runtime/maintenance-gate.ts\<close> and its users) counts requests and background tasks so that maintenance can wait
    for them. \<open>Client_Policy\<close> decides which client programs a key admits.
  \<^enum> Limits. \<open>Token_Bucket\<close> and \<open>Rate_Limiter\<close> are the request and token rate limits on the memory and the SQLite
    store, \<open>Budget\<close> the usage budgets (gate, settlement, reservation), \<open>Keyed_Semaphore\<close> and \<open>Serial_Gate\<close>
    (\<open>queue/keyed-semaphore.ts\<close>, \<open>keyed-serial-gate.ts\<close>) the per-key concurrency limit and the spacing of user
    messages.
  \<^enum> Planning. \<open>Model_Names\<close> (block lists, aliases, promotion), \<open>Lanes\<close> (expansion of a lane into its chain,
    the lane resolver), \<open>Policies\<close> (policy engine, lane caps), \<open>Route_Plan\<close> (\<open>plan\<close> of \<open>routing/route-request.ts\<close>)
    and \<open>Route_Request\<close> (the orchestrator and its decision record); \<open>Helm_Error\<close> the error classes.
    \<open>Route_Plan_Facts\<close> holds the properties of plans.
  \<^enum> Execution. \<open>Execute_Chain\<close> walks the planned candidates (\<open>routes/execute.ts\<close>): \<open>Attempt_Target\<close> resolves a
    candidate and its guards, \<open>Circuit_Breaker\<close> (\<open>circuit/breaker.ts\<close>) gates it, \<open>Capability\<close> prunes it,
    \<open>Retry\<close> (\<open>provider/retry.ts\<close>) is the retry below one attempt, \<open>Upstream_Error\<close> the failure predicates,
    \<open>Failover_Guard\<close> (\<open>provider/failover-guard.ts\<close>) the guard that holds a stream back until real output, on top of
    the frame reader \<open>Sse\<close> (\<open>protocol/streaming.ts\<close>). \<open>Execute_Facts\<close> and \<open>Gateway_Run\<close> hold the properties of an
    execution and of orchestrator and executor together.
  \<^enum> Subscription accounts. \<open>Oauth_Pool\<close>, \<open>Oauth_Select\<close>, \<open>Oauth_Affinity\<close>, \<open>Oauth_Ops\<close>, \<open>Oauth_Retry\<close> and
    \<open>Oauth_Stream\<close> are \<open>provider/oauth/pool.ts\<close>: the tables, the selection under five strategies, the keys that bind
    requests to accounts, the state operations, and the completion and stream retries across sibling accounts.
    \<open>Usage_Limit\<close> holds the quota windows and the speed history. The properties are in \<open>Oauth_Facts\<close> (lemmas),
    \<open>Oauth_Selection\<close> and \<open>Oauth_Retry_Facts\<close>.
  \<^enum> Upstream API keys. \<open>Api_Keys\<close> is \<open>provider/api-key-pool.ts\<close>: one document changed by
    compare-and-set, so that a sequence of \<open>key_step\<close>s describes any number of processes; \<open>Api_Key_Facts\<close> holds the
    lease, recovery and redaction properties.
  \<^enum> OAuth tokens. \<open>Token_Manager\<close> is \<open>provider/token-manager.ts\<close>: the confidential grants, and a \<open>token_world\<close> of all
    managers of one stored credential, stepped by \<open>token_next\<close>; \<open>Token_Manager_Facts\<close> carries its invariant, the promise
    that no rotated refresh token is replayed unless its replacement was lost, and the runs in which one is lost.
  \<^enum> Translation. \<open>Tool_Names\<close> is the map between a client's tool names and those Claude accepts
    (\<open>protocol/anthropic/response.ts\<close>), \<open>Tool_Xml\<close> the recovery of tool calls that a model wrote as XML
    (\<open>tool-xml-recovery.ts\<close>). \<open>Anthropic_Stream\<close> is the state machine that turns an upstream's OpenAI chunks into
    Anthropic events (\<open>protocol/anthropic/stream.ts\<close>): an operation returns the events it yields, the state after it and
    whether it threw, and \<open>then_emit\<close> composes them as the generator does. \<open>Anthropic_Stream_Facts\<close> states the event
    grammar as an acceptor and shows that every operation stays inside it; \<open>Anthropic_Text\<close> shows that text is conserved,
    \<open>Anthropic_Arguments\<close> that the arguments of parallel calls stay apart; \<open>Anthropic_Inbound\<close> is the converter in the other direction, which
    yields JSON chunks that the first one's schema accepts, and the round trip through both.
  \<^enum> Afterwards. \<open>Cost\<close> (\<open>catalog/cost.ts\<close>) prices the usage, \<open>Catalog\<close> builds the model catalog and the models list,
    \<open>Write_Queue\<close> (\<open>runtime/write-queue.ts\<close>) batches what is written to the store.

  \<open>Prelude\<close>, \<open>Js_Text\<close> and \<open>Json\<close> are the vocabulary all theories share: JavaScript's nullish operators, its string
  functions, JSON values with \<open>JSON.parse\<close> and \<open>JSON.stringify\<close>.

  \<^bold>\<open>How the code is represented.\<close> A class or closure with state is a \<open>record\<close> of that state and one definition per
  operation that returns the new state; an exception, a rejection and an early return are values (\<open>Inl\<close> of a thrown
  value, \<open>None\<close>, or a constructor of the result). Concurrency is interleaving at the awaits: a component that many
  requests share is a step relation or a list of operations in any order (\<open>gate_next\<close>, \<open>wq_step\<close>, \<open>pool_op\<close>,
  \<open>token_next\<close>), and an
  operation that awaits takes an environment that says, for every await, what the world answered and what other requests
  did meanwhile. Timers are explicit instants that may fire late and never early. Loops whose end is not structural are
  \<open>function\<close>s with a proved measure: the retries by the budget left and the accounts not yet tried, the lane walk by the
  lanes not yet visited, the scanners by the text left. Fuel is used in two places: \<open>JSON_parse\<close> runs with twice the
  length of the text plus two, which \<open>Json\<close> proves sufficient, and the collision loop of \<open>Tool_Names\<close> tries ten
  candidates, which is proved sufficient below ten tools.

  Interfaces between components are locales, each interpreted on the model of the code that provides it:
  \<open>guarded_steps\<close> (an invariant carried along a history whose events meet a guard), \<open>bucket_store\<close> and \<open>budget_store\<close>
  (what the limiter and the budget gate rely on in a store), \<open>memory_resource\<close> (what the clients of the memory
  coordinator rely on) and \<open>preference\<close> (the scored choices of the account pool).

  \<^bold>\<open>What the lemmas show.\<close> Safety: no candidate of a plan and no attempt is on a blocked model; caps, pins and
  downgrades cannot be escaped; a half-open probe is never leaked or granted twice; a chain advances only past failures
  that allow it and never replays an accepted native stream; a continuation never leaves its account; limits admit no
  more than their quota over any history. Liveness: no waiter sleeps beside a free slot, draining calls return, parks
  expire. Exactness: terminal errors, attempt rows, decision records, merged catalogs, costs and models lists are
  determined by the stated equations. Round trips and equivalences: frames, chunkings, tool names, batched and
  row-by-row writing. Bounds and termination: every retry loop, queue and buffer.

  \<^bold>\<open>Assumptions.\<close> Numbers that are counts, sizes or clock readings are integers, other numbers rationals: the rounding of
  doubles is not modelled. Strings are sequences of Latin-1 characters. \<open>undefined\<close> and \<open>null\<close> are one value where the
  code treats them alike. Code that is not under \<open>src/\<close> is an argument: the zod and YAML libraries, the file reader, the
  SQL engines behind the stores, SHA-256, \<open>2 ** x\<close>, number printing, locale comparison, the vendors' endpoints and the
  provider clients' answers. One synchronous step of the pool reads its clock once. A pool's members implement the
  method that is called. The key of an object is no array index.

  \<^bold>\<open>Not modelled.\<close> The provider clients' HTTP and wire formats (\<open>provider/openai-responses.ts\<close>, \<open>anthropic.ts\<close>,
  \<open>openai.ts\<close>, \<open>gemini.ts\<close>): mostly vendor formats over fetch. The persistent stores (\<open>store/sqlite\<close>, \<open>store/postgres\<close>):
  SQL text whose meaning lies in the engines. The HTTP routes and the composition root (\<open>routes\<close>, \<open>server.ts\<close>): glue
  around the modelled parts. Memory formation and recall: prompts and database jobs. Configuration schemas: zod
  declarations. The user interfaces. The remaining dialect translators map vendor JSON to vendor JSON.
\<close>

end
